(* ===== verification/Validation.thy ===== *)
theory Validation
  imports Prelude
begin

text \<open>
  Input validation of \<open>src/rust/src/validation.rs\<close>, and the part of
  \<open>src/rust/src/provider.rs\<close> it reads: repository identities, provider kinds and instances,
  the escaped storage keys of the control store, and mirror directory names.
\<close>

section \<open>Provider kinds, instances and repository ids\<close>

datatype ProviderKind = GitHub | GitLab | Gitea | Generic

fun provider_kind_as_str :: "ProviderKind \<Rightarrow> string" where
  "provider_kind_as_str GitHub = ''github''"
| "provider_kind_as_str GitLab = ''gitlab''"
| "provider_kind_as_str Gitea = ''gitea''"
| "provider_kind_as_str Generic = ''generic''"

definition provider_kind_from_str :: "string \<Rightarrow> ProviderKind option" where
  "provider_kind_from_str s =
     (let l = map to_ascii_lower s in
      if l = ''github'' then Some GitHub
      else if l = ''gitlab'' then Some GitLab
      else if l = ''gitea'' \<or> l = ''forgejo'' \<or> l = ''codeberg'' then Some Gitea
      else if l = ''generic'' then Some Generic
      else None)"

definition DEFAULT_PROVIDER_ID :: string where
  "DEFAULT_PROVIDER_ID = ''github''"

record ProviderInstance =
  pi_id :: string
  pi_kind :: ProviderKind
  pi_host :: string
  pi_auth_template :: "string option"
  pi_auth_header_name :: "string option"

record RepoId =
  rid_provider :: string
  rid_path :: string

definition instance_is_github_default :: "ProviderInstance \<Rightarrow> bool" where
  "instance_is_github_default p = (pi_id p = DEFAULT_PROVIDER_ID)"

definition is_github_default :: "RepoId \<Rightarrow> bool" where
  "is_github_default r = (rid_provider r = DEFAULT_PROVIDER_ID)"

definition repo_id_github :: "string \<Rightarrow> RepoId" where
  "repo_id_github path = \<lparr>rid_provider = DEFAULT_PROVIDER_ID, rid_path = path\<rparr>"

definition github_owner_repo :: "RepoId \<Rightarrow> (string \<times> string) option" where
  "github_owner_repo r =
     (if \<not> is_github_default r then None else split_once (CHR ''/'') (rid_path r))"

text \<open>
  \<open>str::replace\<close> with a one-character pattern rewrites every occurrence of that character;
  \<open>escape_path\<close> composes three of them, \<open>%\<close> first.
\<close>

definition replace_char :: "char \<Rightarrow> string \<Rightarrow> string \<Rightarrow> string" where
  "replace_char c w s = concat (map (\<lambda>x. if x = c then w else [x]) s)"

definition escape_path :: "string \<Rightarrow> string" where
  "escape_path path =
     replace_char (CHR 0x5C) ''%5C''
       (replace_char (CHR ''/'') ''%2F'' (replace_char (CHR ''%'') ''%25'' path))"

definition storage_key :: "RepoId \<Rightarrow> string" where
  "storage_key r = rid_provider r @ ''/'' @ escape_path (rid_path r)"

text \<open>
  The loop of \<open>from_storage_key\<close>: bytes up to the next \<open>%\<close> are copied, and the two bytes
  after it name the escaped character.  Any other escape, or one that runs past the end, is
  an error.
\<close>

fun unescape_path :: "string \<Rightarrow> string option" where
  "unescape_path [] = Some []"
| "unescape_path (c # rest) =
     (if c \<noteq> CHR ''%'' then map_option ((#) c) (unescape_path rest)
      else (case rest of
          a # b # rest' \<Rightarrow>
            (if [a, b] = ''25'' then map_option ((#) (CHR ''%'')) (unescape_path rest')
             else if [a, b] = ''2F'' then map_option ((#) (CHR ''/'')) (unescape_path rest')
             else if [a, b] = ''5C'' then map_option ((#) (CHR 0x5C)) (unescape_path rest')
             else None)
        | _ \<Rightarrow> None))"

definition from_storage_key :: "string \<Rightarrow> (string, RepoId) result" where
  "from_storage_key key =
     (case rsplit_once (CHR ''/'') key of
        None \<Rightarrow> Inl key
      | Some (provider, escaped) \<Rightarrow>
          (case unescape_path escaped of
             None \<Rightarrow> Inl key
           | Some path \<Rightarrow>
               if provider = [] \<or> path = [] then Inl key
               else Inr \<lparr>rid_provider = provider, rid_path = path\<rparr>))"

definition cli_name :: "RepoId \<Rightarrow> string \<Rightarrow> string" where
  "cli_name r default_provider =
     (if rid_provider r = default_provider then rid_path r
      else rid_provider r @ '':'' @ rid_path r)"

definition mirror_dir_name :: "RepoId \<Rightarrow> string" where
  "mirror_dir_name r = rid_provider r @ ''_'' @ escape_path (rid_path r) @ ''.git''"

section \<open>Validation\<close>

datatype validation_error =
    EmptyIdentifier | IdentifierTooLong nat | IdentifierSeparator | IdentifierDots
  | IdentifierChars
  | EmptyPath | PathTooLong nat | PathUnsafe | PathControl | PathAbsolute | PathParent
  | EmptyRev | RevTooLong nat | RevOption | RevUnsafe
  | EmptyName | NameTooLong nat | InvalidName
  | ObjectIdLength | ObjectIdHex
  | InvalidSelector

type_synonym 'a vresult = "(validation_error, 'a) result"

definition MAX_REF_LEN :: nat where
  "MAX_REF_LEN = 256"

definition repo_id_char :: "char \<Rightarrow> bool" where
  "repo_id_char c = (is_ascii_alphanumeric c \<or> c = CHR ''.'' \<or> c = CHR ''-'' \<or> c = CHR ''_'')"

definition validate_repo_id_inner :: "string \<Rightarrow> unit vresult" where
  "validate_repo_id_inner i =
     (if i = [] then Inl EmptyIdentifier
      else if length i > 128 then Inl (IdentifierTooLong (length i))
      else if CHR ''/'' \<in> set i \<or> CHR 0x5C \<in> set i \<or> CHR 0x00 \<in> set i
        then Inl IdentifierSeparator
      else if i = ''.'' \<or> i = ''..'' then Inl IdentifierDots
      else if \<not> list_all repo_id_char i then Inl IdentifierChars
      else Inr ())"

definition validate_repo_path :: "ProviderInstance \<Rightarrow> RepoId \<Rightarrow> unit vresult" where
  "validate_repo_path p r =
     (case (if pi_kind p = GitHub \<and> instance_is_github_default p
            then github_owner_repo r else None) of
        Some (owner, repo) \<Rightarrow>
          rbind (validate_repo_id_inner owner) (\<lambda>_. validate_repo_id_inner repo)
      | None \<Rightarrow>
          (let path = rid_path r in
           if path = [] then Inl EmptyPath
           else if length path > 512 then Inl (PathTooLong (length path))
           else if CHR 0x00 \<in> set path \<or> CHR 0x5C \<in> set path then Inl PathUnsafe
           else if has_control path then Inl PathControl
           else if starts_with path ''/'' then Inl PathAbsolute
           else if ''..'' \<in> set (split_on (CHR ''/'') path) then Inl PathParent
           else Inr ()))"

definition validate_git_rev :: "string \<Rightarrow> unit vresult" where
  "validate_git_rev r =
     (if r = [] then Inl EmptyRev
      else if length r > MAX_REF_LEN then Inl (RevTooLong (length r))
      else if starts_with r ''-'' then Inl RevOption
      else if contains_str r ''..'' \<or> CHR 0x00 \<in> set r \<or> CHR 0x5C \<in> set r
        then Inl RevUnsafe
      else Inr ())"

definition ref_name_bad_char :: "char \<Rightarrow> bool" where
  "ref_name_bad_char c = (c = CHR '' '' \<or> c \<in> {CHR ''~'', CHR ''^'', CHR '':'', CHR ''?'',
     CHR ''*'', CHR ''['', CHR 0x5C})"

definition ref_name_bad_part :: "string \<Rightarrow> bool" where
  "ref_name_bad_part part = (part = [] \<or> starts_with part ''.'' \<or> ends_with part ''.lock'')"

definition validate_ref_name :: "string \<Rightarrow> unit vresult" where
  "validate_ref_name name =
     (if name = [] then Inl EmptyName
      else if length name > MAX_REF_LEN then Inl (NameTooLong (length name))
      else if name = ''HEAD'' \<or> name = ''@'' \<or> starts_with name ''-'' \<or> starts_with name ''/''
        then Inl InvalidName
      else if ends_with name ''/'' \<or> ends_with name ''.'' \<or> contains_str name ''//''
           \<or> contains_str name ''..'' \<or> contains_str name [CHR ''@'', CHR ''{'']
           \<or> (has_control name \<or> list_ex ref_name_bad_char name)
           \<or> list_ex ref_name_bad_part (split_on (CHR ''/'') name)
        then Inl InvalidName
      else Inr ())"

definition validate_checkout_name :: "string \<Rightarrow> unit vresult" where
  "validate_checkout_name name = validate_ref_name name"

definition validate_tag_name :: "string \<Rightarrow> unit vresult" where
  "validate_tag_name name = validate_ref_name name"

definition is_lower_hex :: "char \<Rightarrow> bool" where
  "is_lower_hex c = (is_ascii_digit c \<or> (97 \<le> byte c \<and> byte c \<le> 102))"

definition validate_object_id :: "string \<Rightarrow> unit vresult" where
  "validate_object_id i =
     (if length i \<noteq> 40 \<and> length i \<noteq> 64 then Inl ObjectIdLength
      else if \<not> list_all is_lower_hex i then Inl ObjectIdHex
      else Inr ())"

datatype Selector = SelHead | SelCommit string | SelName string

definition selector_parse :: "string \<Rightarrow> Selector vresult" where
  "selector_parse s =
     (if s = ''HEAD'' then Inr SelHead
      else if is_ok (validate_object_id s) then Inr (SelCommit s)
      else if is_ok (validate_checkout_name s) then Inr (SelName s)
      else Inl InvalidSelector)"

section \<open>Storage keys\<close>

lemma replace_char_simps [simp]:
  "replace_char c w [] = []"
  "replace_char c w (x # s) = (if x = c then w else [x]) @ replace_char c w s"
  "replace_char c w (s @ t) = replace_char c w s @ replace_char c w t"
  by (simp_all add: replace_char_def)

definition escape_char :: "char \<Rightarrow> string" where
  "escape_char c = (if c = CHR ''%'' then ''%25'' else if c = CHR ''/'' then ''%2F''
     else if c = CHR 0x5C then ''%5C'' else [c])"

lemma escape_path_simps [simp]:
  "escape_path [] = []"
  "escape_path (c # s) = escape_char c @ escape_path s"
  by (simp_all add: escape_path_def escape_char_def)

lemma escape_path_no_slash: "CHR ''/'' \<notin> set (escape_path s)"
  by (induction s) (auto simp: escape_char_def)

lemma unescape_escape [simp]: "unescape_path (escape_path s) = Some s"
  by (induction s) (auto simp: escape_char_def)

lemma escape_path_inj: "escape_path s = escape_path t \<Longrightarrow> s = t"
  by (metis option.inject unescape_escape)

lemma rsplit_storage_key [simp]:
  "rsplit_once (CHR ''/'') (storage_key r) = Some (rid_provider r, escape_path (rid_path r))"
  using rsplit_once_append[OF escape_path_no_slash] by (simp add: storage_key_def)

lemma storage_key_inject [simp]: "storage_key r = storage_key r' \<longleftrightarrow> r = r'"
proof
  assume eq: "storage_key r = storage_key r'"
  have "Some (rid_provider r, escape_path (rid_path r)) =
      Some (rid_provider r', escape_path (rid_path r'))"
    unfolding rsplit_storage_key[symmetric] by (simp add: eq)
  then show "r = r'" using escape_path_inj by (cases r; cases r') auto
qed simp

lemma from_storage_key_storage_key:
  "rid_provider r \<noteq> [] \<Longrightarrow> rid_path r \<noteq> [] \<Longrightarrow> from_storage_key (storage_key r) = Inr r"
  by (cases r) (simp add: from_storage_key_def)

section \<open>What accepted names and paths look like\<close>

lemma repo_id_char_not [simp]:
  "\<not> repo_id_char (CHR ''/'')" "\<not> repo_id_char (CHR 0x5C)" "\<not> repo_id_char (CHR 0x00)"
  by (simp_all add: repo_id_char_def is_ascii_alphanumeric_def is_ascii_digit_def
      is_ascii_upper_def is_ascii_lower_def byte_def)

lemma validate_repo_id_inner_ok:
  "validate_repo_id_inner i = Inr () \<longleftrightarrow>
     i \<noteq> [] \<and> length i \<le> 128 \<and> i \<noteq> ''.'' \<and> i \<noteq> ''..'' \<and> list_all repo_id_char i"
proof -
  have "CHR ''/'' \<notin> set i \<and> CHR 0x5C \<notin> set i \<and> CHR 0x00 \<notin> set i" if "list_all repo_id_char i"
    using that repo_id_char_not unfolding list_all_iff by blast
  then show ?thesis
    unfolding validate_repo_id_inner_def by (simp add: not_less)
qed

lemma repo_id_char_no_control:
  "repo_id_char c \<Longrightarrow> 32 \<le> byte c \<and> byte c < 127"
  by (auto simp: repo_id_char_def is_ascii_alphanumeric_def is_ascii_digit_def is_ascii_upper_def
      is_ascii_lower_def byte_def)

lemma no_control_ascii: "(\<forall>c \<in> set s. 32 \<le> byte c \<and> byte c < 127) \<Longrightarrow> \<not> has_control s"
  by (induction s) auto

lemma split_on_single: "c \<notin> set s \<Longrightarrow> split_on c s = [s]"
  by (induction s) auto

lemma split_on_append: "split_on c (a @ c # b) = split_on c a @ split_on c b"
  by (induction a) (auto simp: split_on_ne split: list.splits)

text \<open>What every accepted repository path guarantees, in both branches of the check.\<close>

definition safe_repo_path :: "string \<Rightarrow> bool" where
  "safe_repo_path path \<longleftrightarrow> path \<noteq> [] \<and> length path \<le> 512 \<and> \<not> starts_with path ''/''
     \<and> ''..'' \<notin> set (split_on (CHR ''/'') path) \<and> \<not> has_control path
     \<and> CHR 0x5C \<notin> set path \<and> CHR 0x00 \<notin> set path"

lemma safe_owner_repo:
  assumes "validate_repo_id_inner a = Inr ()" "validate_repo_id_inner b = Inr ()"
  shows "safe_repo_path (a @ ''/'' @ b)"
proof -
  have ok: "list_all repo_id_char a" "list_all repo_id_char b" "a \<noteq> []" "b \<noteq> []"
    "a \<noteq> ''..''" "b \<noteq> ''..''" "length a \<le> 128" "length b \<le> 128"
    using assms by (simp_all add: validate_repo_id_inner_ok)
  have sep: "x \<notin> set a" "x \<notin> set b" if "\<not> repo_id_char x" for x
    using ok that unfolding list_all_iff by blast+
  have "split_on (CHR ''/'') (a @ ''/'' @ b) = [a, b]"
    using split_on_append[of "CHR ''/''" a b] sep by (simp add: split_on_single)
  moreover have "\<not> has_control (a @ ''/'' @ b)"
    using ok by (intro no_control_ascii)
      (auto simp: list_all_iff byte_def dest!: repo_id_char_no_control)
  moreover have "\<not> starts_with (a @ ''/'' @ b) ''/''"
    using ok(3) sep(1)[of "CHR ''/''"] by (cases a) (auto simp: starts_with_def)
  ultimately show ?thesis
    using ok sep by (simp add: safe_repo_path_def)
qed

lemma validate_repo_path_safe:
  assumes "validate_repo_path p r = Inr ()"
  shows "safe_repo_path (rid_path r)"
proof (cases "if pi_kind p = GitHub \<and> instance_is_github_default p
              then github_owner_repo r else None")
  case None
  with assms show ?thesis
    by (auto simp: validate_repo_path_def safe_repo_path_def Let_def split: if_splits)
next
  case (Some q)
  obtain a b where q: "q = (a, b)" by (cases q)
  from Some q have "split_once (CHR ''/'') (rid_path r) = Some (a, b)"
    by (auto simp: github_owner_repo_def split: if_splits)
  then have path: "rid_path r = a @ ''/'' @ b"
    using split_once_Some by fastforce
  from assms Some q have "validate_repo_id_inner a = Inr ()" "validate_repo_id_inner b = Inr ()"
    by (auto simp: validate_repo_path_def rbind_Inr)
  then show ?thesis unfolding path by (rule safe_owner_repo)
qed

text \<open>What an accepted branch or tag name guarantees below \<open>refs/heads\<close> or \<open>refs/tags\<close>.\<close>

definition safe_ref_name :: "string \<Rightarrow> bool" where
  "safe_ref_name name \<longleftrightarrow> name \<noteq> [] \<and> length name \<le> MAX_REF_LEN \<and> name \<noteq> ''HEAD''
     \<and> \<not> starts_with name ''-'' \<and> \<not> contains_str name ''..'' \<and> \<not> has_control name
     \<and> (\<forall>part \<in> set (split_on (CHR ''/'') name).
          part \<noteq> [] \<and> part \<noteq> ''.'' \<and> part \<noteq> ''..'' \<and> \<not> ends_with part ''.lock'')"

lemma validate_ref_name_safe: "validate_ref_name name = Inr () \<Longrightarrow> safe_ref_name name"
  by (auto simp: validate_ref_name_def safe_ref_name_def ref_name_bad_part_def list_ex_iff
      starts_with_def split: if_splits)

lemma validate_object_id_ok:
  "validate_object_id i = Inr () \<longleftrightarrow> length i \<in> {40, 64} \<and> (\<forall>c \<in> set i. is_lower_hex c)"
  by (auto simp: validate_object_id_def list_all_iff)

text \<open>Two repositories whose mirrors share a directory: the separator is not escaped in the path.\<close>

lemma mirror_dir_names_collide:
  "mirror_dir_name \<lparr>rid_provider = ''a'', rid_path = ''b_c''\<rparr> = mirror_dir_name \<lparr>rid_provider = ''a_b'', rid_path = ''c''\<rparr>"
  by code_simp

end
