(* ===== verification/Results.thy ===== *)
theory Results
  imports Validation
begin

text \<open>
  The published results of \<open>src/rust/src/lib.rs\<close>: the artifacts of a Head, a Full and a Files
  output, the artifact ids each names, and when a stored output is structurally usable.  The
  trait \<open>Artifacts\<close> is the locale \<open>names_artifacts\<close>, interpreted for the three results.
\<close>

section \<open>Data\<close>

record PackArtifact =
  pa_pack :: string
  pa_idx :: string

record SizedPack =
  sp_pack :: string
  sp_pack_len :: nat
  sp_idx :: string
  sp_idx_len :: nat

record HistoryLevel =
  hl_tip_commit :: string
  hl_packs :: "SizedPack list"

record ArchiveFrame =
  af_raw_hash :: string
  af_chunk_hash :: string
  af_compressed_len :: nat
  af_raw_len :: nat

record ClonepackArtifacts =
  ca_manifest :: string
  ca_metadata_chunk :: string
  ca_metadata_delta :: string
  ca_midx :: string
  ca_idx_bundle :: string
  ca_commit :: string

record HeadResult =
  hr_clonepack :: ClonepackArtifacts
  hr_parent_commit :: "string option"
  hr_packs :: "PackArtifact list"
  hr_base_commit :: string
  hr_base_packs :: "SizedPack list"
  hr_levels :: "SizedPack list"

record OwnHistory =
  oh_base :: string
  oh_packs :: "SizedPack list"
  oh_head_packs :: "nat list"

record HeadBase =
  hb_commit :: string
  hb_packs :: "SizedPack list"
  hb_levels :: "SizedPack list"

record FullResult =
  fr_clonepack :: ClonepackArtifacts
  fr_packs :: "PackArtifact list"
  fr_history_levels :: "HistoryLevel list"
  fr_head_base :: "HeadBase option"
  fr_own_history :: "OwnHistory option"

text \<open>\<open>compact\<close> is a boxed result, so the type is recursive.\<close>

datatype FilesResult =
  FilesResult (fl_clonepack: ClonepackArtifacts) (fl_archive_chunks: "string list")
    (fl_archive_frames: "ArchiveFrame list") (fl_compact: "FilesResult option")

datatype ExactResultKind = Head | Full | Files

record RefInfo =
  ri_commit :: string
  ri_head :: "HeadResult option"
  ri_full :: "FullResult option"
  ri_files :: "FilesResult option"

section \<open>Artifact names\<close>

text \<open>A \<open>BTreeSet<&str>\<close>: its elements in byte order, each once.\<close>

definition btree_set :: "string list \<Rightarrow> string list" where
  "btree_set xs = sort (remdups xs)"

definition named :: "string list \<Rightarrow> string list" where
  "named hashes = btree_set (filter (\<lambda>h. h \<noteq> []) hashes)"

definition clonepack_artifacts :: "ClonepackArtifacts \<Rightarrow> string list" where
  "clonepack_artifacts c =
     [ca_manifest c, ca_metadata_chunk c, ca_metadata_delta c, ca_midx c, ca_idx_bundle c]"

definition sized_artifacts :: "SizedPack list \<Rightarrow> string list" where
  "sized_artifacts packs = concat (map (\<lambda>p. [sp_pack p, sp_idx p]) packs)"

definition pack_artifacts :: "PackArtifact list \<Rightarrow> string list" where
  "pack_artifacts packs = concat (map (\<lambda>p. [pa_pack p, pa_idx p]) packs)"

definition head_artifacts :: "HeadResult \<Rightarrow> string list" where
  "head_artifacts r =
     named (clonepack_artifacts (hr_clonepack r) @ pack_artifacts (hr_packs r)
       @ sized_artifacts (hr_base_packs r) @ sized_artifacts (hr_levels r))"

definition full_artifacts :: "FullResult \<Rightarrow> string list" where
  "full_artifacts r =
     (let head_base = (case fr_head_base r of None \<Rightarrow> []
                       | Some b \<Rightarrow> sized_artifacts (hb_packs b) @ sized_artifacts (hb_levels b));
          own = (case fr_own_history r of None \<Rightarrow> [] | Some o' \<Rightarrow> sized_artifacts (oh_packs o'))
      in named (clonepack_artifacts (fr_clonepack r) @ pack_artifacts (fr_packs r)
           @ concat (map (\<lambda>l. sized_artifacts (hl_packs l)) (fr_history_levels r))
           @ head_base @ own))"

fun files_artifacts :: "FilesResult \<Rightarrow> string list" where
  "files_artifacts (FilesResult c chunks frames None) =
     named (clonepack_artifacts c @ chunks @ map af_chunk_hash frames)"
| "files_artifacts (FilesResult c chunks frames (Some compact)) =
     btree_set (named (clonepack_artifacts c @ chunks @ map af_chunk_hash frames)
       @ files_artifacts compact)"

section \<open>Usable outputs\<close>

datatype cas_error = ArtifactIdLength | NotLowerHex

definition validate_lowercase_hex :: "string \<Rightarrow> (cas_error, unit) result" where
  "validate_lowercase_hex h = (if \<not> list_all is_lower_hex h then Inl NotLowerHex else Inr ())"

definition validate_artifact_id :: "string \<Rightarrow> (cas_error, unit) result" where
  "validate_artifact_id h =
     (if length h \<noteq> 64 then Inl ArtifactIdLength else validate_lowercase_hex h)"

definition exact_output_artifacts_ready ::
    "string \<Rightarrow> ExactResultKind \<Rightarrow> ClonepackArtifacts \<Rightarrow> bool" where
  "exact_output_artifacts_ready commit kind a =
     (let valid_hash = (\<lambda>h. is_ok (validate_artifact_id h)) in
      if ca_commit a \<noteq> commit \<or> \<not> valid_hash (ca_manifest a)
         \<or> \<not> valid_hash (ca_metadata_chunk a)
         \<or> \<not> (ca_metadata_delta a = [] \<or> valid_hash (ca_metadata_delta a))
      then False
      else kind \<noteq> Head \<or> valid_hash (ca_idx_bundle a))"

definition exact_output_ready :: "RefInfo \<Rightarrow> ExactResultKind \<Rightarrow> string \<Rightarrow> bool" where
  "exact_output_ready info kind commit =
     (if ri_commit info \<noteq> commit then False
      else (let artifacts = (case kind of
                Head \<Rightarrow> map_option hr_clonepack (ri_head info)
              | Full \<Rightarrow> map_option fr_clonepack (ri_full info)
              | Files \<Rightarrow> map_option fl_clonepack (ri_files info))
            in (case artifacts of None \<Rightarrow> False
                | Some a \<Rightarrow> exact_output_artifacts_ready commit kind a)))"

text \<open>The distinct manifests of a \<open>RefInfo\<close>, in the order Head, Full, Files.\<close>

fun push_distinct :: "string list \<Rightarrow> string list \<Rightarrow> string list" where
  "push_distinct out [] = out"
| "push_distinct out (h # hs) =
     push_distinct (if h \<noteq> [] \<and> h \<notin> set out then out @ [h] else out) hs"

definition collect_manifest_hashes :: "RefInfo \<Rightarrow> string list" where
  "collect_manifest_hashes info =
     (let c = ri_commit info in
      push_distinct [] (List.map_filter id
        [if exact_output_ready info Head c
         then map_option (ca_manifest \<circ> hr_clonepack) (ri_head info) else None,
         if exact_output_ready info Full c
         then map_option (ca_manifest \<circ> fr_clonepack) (ri_full info) else None,
         if exact_output_ready info Files c
         then map_option (ca_manifest \<circ> fl_clonepack) (ri_files info) else None]))"

definition parse_repo :: "string \<Rightarrow> (string, string \<times> string) result" where
  "parse_repo repo =
     (case split_once (CHR ''/'') repo of
        None \<Rightarrow> Inl repo
      | Some (owner, name) \<Rightarrow> if owner = [] \<or> name = [] then Inl repo else Inr (owner, name))"

section \<open>The interface of an output that names artifacts\<close>

text \<open>
  The trait \<open>Artifacts\<close>: each id once and no empty id.  \<open>parts\<close> are the ids of the fields,
  so the last law says that the set is exactly the non-empty ones.
\<close>

locale names_artifacts =
  fixes artifacts :: "'r \<Rightarrow> string list"
    and parts :: "'r \<Rightarrow> string list"
  assumes artifacts_ordered: "sorted (artifacts r) \<and> distinct (artifacts r)"
    and artifacts_parts: "set (artifacts r) = set (parts r) - {[]}"
begin

lemma no_empty_artifact: "[] \<notin> set (artifacts r)"
  by (simp add: artifacts_parts)

lemma part_named: "h \<in> set (parts r) \<Longrightarrow> h \<noteq> [] \<Longrightarrow> h \<in> set (artifacts r)"
  by (simp add: artifacts_parts)

lemma artifacts_card: "length (artifacts r) = card (set (parts r) - {[]})"
  using artifacts_ordered[of r] artifacts_parts[of r] by (metis distinct_card)

end

lemma btree_set_props [simp]:
  "set (btree_set xs) = set xs" "sorted (btree_set xs)" "distinct (btree_set xs)"
  by (simp_all add: btree_set_def)

lemma named_props [simp]:
  "set (named xs) = set xs - {[]}" "sorted (named xs)" "distinct (named xs)"
  by (auto simp: named_def)

definition head_parts :: "HeadResult \<Rightarrow> string list" where
  "head_parts r = clonepack_artifacts (hr_clonepack r) @ pack_artifacts (hr_packs r)
     @ sized_artifacts (hr_base_packs r) @ sized_artifacts (hr_levels r)"

definition full_parts :: "FullResult \<Rightarrow> string list" where
  "full_parts r = clonepack_artifacts (fr_clonepack r) @ pack_artifacts (fr_packs r)
     @ concat (map (\<lambda>l. sized_artifacts (hl_packs l)) (fr_history_levels r))
     @ (case fr_head_base r of None \<Rightarrow> []
        | Some b \<Rightarrow> sized_artifacts (hb_packs b) @ sized_artifacts (hb_levels b))
     @ (case fr_own_history r of None \<Rightarrow> [] | Some o' \<Rightarrow> sized_artifacts (oh_packs o'))"

fun files_parts :: "FilesResult \<Rightarrow> string list" where
  "files_parts (FilesResult c chunks frames None) =
     clonepack_artifacts c @ chunks @ map af_chunk_hash frames"
| "files_parts (FilesResult c chunks frames (Some compact)) =
     clonepack_artifacts c @ chunks @ map af_chunk_hash frames @ files_parts compact"

interpretation head_names: names_artifacts head_artifacts head_parts
  by unfold_locales (simp_all add: head_artifacts_def head_parts_def)

interpretation full_names: names_artifacts full_artifacts full_parts
  by unfold_locales (simp_all add: full_artifacts_def full_parts_def Let_def)

lemma files_artifacts_ordered: "sorted (files_artifacts r) \<and> distinct (files_artifacts r)"
  by (cases r rule: files_artifacts.cases) simp_all

lemma files_artifacts_parts: "set (files_artifacts r) = set (files_parts r) - {[]}"
  by (induction r rule: files_artifacts.induct) auto

interpretation files_names: names_artifacts files_artifacts files_parts
  by unfold_locales (rule files_artifacts_ordered, rule files_artifacts_parts)

lemma validate_artifact_id_ok:
  "validate_artifact_id h = Inr () \<longleftrightarrow> length h = 64 \<and> list_all is_lower_hex h"
  by (simp add: validate_artifact_id_def validate_lowercase_hex_def)

lemma exact_ready_manifest_nonempty:
  "exact_output_artifacts_ready c k a \<Longrightarrow> ca_manifest a \<noteq> [] \<and> ca_metadata_chunk a \<noteq> []"
  by (auto simp: exact_output_artifacts_ready_def Let_def validate_artifact_id_def split: if_splits)

lemma set_push_distinct: "set (push_distinct out hs) = set out \<union> (set hs - {[]})"
  by (induction out hs rule: push_distinct.induct) auto

lemma distinct_push_distinct: "distinct out \<Longrightarrow> distinct (push_distinct out hs)"
  by (induction out hs rule: push_distinct.induct) auto

end
