(* ===== verification/Sql.thy ===== *)
theory Sql
  imports Prelude
begin

text \<open>
  The subset of SQL that \<open>src/rust/src/control/sqlite.rs\<close> uses, over tables that are lists of
  rows: three-valued conditions, \<open>UPDATE ... WHERE\<close>, \<open>DELETE ... WHERE\<close>, \<open>INSERT ... ON
  CONFLICT\<close> on a primary key, and \<open>ORDER BY ... LIMIT\<close>.  The locale \<open>keyed_table\<close> states what
  the store relies on from a table with a primary key; association lists provide it.
\<close>

named_theorems sql_simps \<open>equations of the SQL operations\<close>

section \<open>Three-valued conditions\<close>

type_synonym sql_bool = "bool option"

fun sql_not :: "sql_bool \<Rightarrow> sql_bool" where
  "sql_not None = None"
| "sql_not (Some b) = Some (\<not> b)"

fun sql_and :: "sql_bool \<Rightarrow> sql_bool \<Rightarrow> sql_bool" where
  "sql_and (Some False) _ = Some False"
| "sql_and _ (Some False) = Some False"
| "sql_and (Some True) (Some True) = Some True"
| "sql_and _ _ = None"

fun sql_or :: "sql_bool \<Rightarrow> sql_bool \<Rightarrow> sql_bool" where
  "sql_or (Some True) _ = Some True"
| "sql_or _ (Some True) = Some True"
| "sql_or (Some False) (Some False) = Some False"
| "sql_or _ _ = None"

text \<open>A \<open>WHERE\<close> clause keeps a row when its condition is true, not when it is NULL.\<close>

definition sql_true :: "sql_bool \<Rightarrow> bool" where
  "sql_true b = (b = Some True)"

definition sql_lift2 :: "('a \<Rightarrow> 'b \<Rightarrow> bool) \<Rightarrow> 'a option \<Rightarrow> 'b option \<Rightarrow> sql_bool" where
  "sql_lift2 f x y = (case x of None \<Rightarrow> None | Some a \<Rightarrow> map_option (f a) y)"

lemma sql_true_simps [simp, sql_simps]:
  "sql_true (Some b) = b" "sql_true None = False"
  by (auto simp: sql_true_def)

lemma sql_and_Some [simp, sql_simps]: "sql_and (Some a) (Some b) = Some (a \<and> b)"
  by (cases a; cases b) simp_all

lemma sql_or_Some [simp, sql_simps]: "sql_or (Some a) (Some b) = Some (a \<or> b)"
  by (cases a; cases b) simp_all

lemma sql_true_and [simp]: "sql_true (sql_and a b) = (sql_true a \<and> sql_true b)"
  by (cases a rule: sql_not.cases; cases b rule: sql_not.cases) (auto simp: sql_true_def elim: sql_and.elims)

lemma sql_true_or [simp]: "sql_true (sql_or a b) = (sql_true a \<or> sql_true b)"
  by (cases a rule: sql_not.cases; cases b rule: sql_not.cases) (auto simp: sql_true_def elim: sql_or.elims)

section \<open>Statements\<close>

definition sql_update :: "('r \<Rightarrow> bool) \<Rightarrow> ('r \<Rightarrow> 'r) \<Rightarrow> 'r list \<Rightarrow> 'r list" where
  "sql_update p f rows = map (\<lambda>r. if p r then f r else r) rows"

definition sql_delete :: "('r \<Rightarrow> bool) \<Rightarrow> 'r list \<Rightarrow> 'r list" where
  "sql_delete p rows = filter (\<lambda>r. \<not> p r) rows"

definition rows_affected :: "('r \<Rightarrow> bool) \<Rightarrow> 'r list \<Rightarrow> nat" where
  "rows_affected p rows = length (filter p rows)"

definition order_by :: "('r \<Rightarrow> 'k::linorder) \<Rightarrow> 'r list \<Rightarrow> 'r list" where
  "order_by key rows = sort_key key rows"

fun first_row :: "'r list \<Rightarrow> 'r option" where
  "first_row [] = None"
| "first_row (r # _) = Some r"

lemma set_sql_update [simp, sql_simps]:
  "set (sql_update p f rows) = (\<lambda>r. if p r then f r else r) ` set rows"
  by (simp add: sql_update_def)

lemma set_sql_delete [simp, sql_simps]: "set (sql_delete p rows) = {r \<in> set rows. \<not> p r}"
  by (simp add: sql_delete_def)

lemma sql_update_none: "(\<And>r. r \<in> set rows \<Longrightarrow> \<not> p r) \<Longrightarrow> sql_update p f rows = rows"
  by (simp add: sql_update_def map_idI)

lemma map_sql_update:
  "(\<And>r. r \<in> set rows \<Longrightarrow> p r \<Longrightarrow> g (f r) = g r) \<Longrightarrow> map g (sql_update p f rows) = map g rows"
  by (simp add: sql_update_def)

lemma distinct_map_sql_delete: "distinct (map g rows) \<Longrightarrow> distinct (map g (sql_delete p rows))"
  by (simp add: sql_delete_def distinct_map_filter)

lemma set_order_by [simp, sql_simps]: "set (order_by key rows) = set rows"
  by (simp add: order_by_def)

lemma first_row_in: "first_row rows = Some r \<Longrightarrow> r \<in> set rows"
  by (cases rows) auto

lemma first_row_None [simp]: "first_row rows = None \<longleftrightarrow> rows = []"
  by (cases rows) auto

lemma order_by_Nil [simp]: "order_by key rows = [] \<longleftrightarrow> rows = []"
  by (metis set_empty set_order_by)

lemma first_row_order_by:
  assumes "first_row (order_by key rows) = Some r"
  shows "r \<in> set rows" "r' \<in> set rows \<Longrightarrow> key r \<le> key r'"
proof -
  from assms show "r \<in> set rows"
    by (metis first_row_in set_order_by)
next
  assume r': "r' \<in> set rows"
  obtain rest where eq: "order_by key rows = r # rest"
    using assms by (cases "order_by key rows") auto
  have "sorted (map key (order_by key rows))" by (simp add: order_by_def)
  moreover have "r' \<in> set (r # rest)" using r' by (metis eq set_order_by)
  ultimately show "key r \<le> key r'" by (auto simp: eq)
qed

section \<open>Tables with a primary key\<close>

fun upsert :: "'k \<Rightarrow> 'v \<Rightarrow> ('v \<Rightarrow> 'v) \<Rightarrow> ('k \<times> 'v) list \<Rightarrow> ('k \<times> 'v) list" where
  "upsert k v f [] = [(k, v)]"
| "upsert k v f ((k', v') # rows) =
     (if k' = k then (k', f v') # rows else (k', v') # upsert k v f rows)"

definition delete_key :: "'k \<Rightarrow> ('k \<times> 'v) list \<Rightarrow> ('k \<times> 'v) list" where
  "delete_key k rows = sql_delete (\<lambda>r. fst r = k) rows"

definition key_ok :: "('k \<times> 'v) list \<Rightarrow> bool" where
  "key_ok rows = distinct (map fst rows)"

locale keyed_table =
  fixes lookup :: "'t \<Rightarrow> 'k \<Rightarrow> 'v option"
    and put :: "'k \<Rightarrow> 'v \<Rightarrow> ('v \<Rightarrow> 'v) \<Rightarrow> 't \<Rightarrow> 't"
    and drop_key :: "'k \<Rightarrow> 't \<Rightarrow> 't"
    and keyed :: "'t \<Rightarrow> bool"
  assumes lookup_put: "keyed t \<Longrightarrow>
      lookup (put k v f t) = (lookup t)(k \<mapsto> (case lookup t k of None \<Rightarrow> v | Some w \<Rightarrow> f w))"
    and lookup_drop: "keyed t \<Longrightarrow> lookup (drop_key k t) = (lookup t)(k := None)"
    and keyed_put: "keyed t \<Longrightarrow> keyed (put k v f t)"
    and keyed_drop: "keyed t \<Longrightarrow> keyed (drop_key k t)"
begin

text \<open>\<open>ON CONFLICT DO NOTHING\<close> keeps a stored value.\<close>

lemma do_nothing_keeps: "keyed t \<Longrightarrow> lookup t k = Some w \<Longrightarrow> lookup (put k' v id t) k = Some w"
  by (auto simp: lookup_put)

lemma do_nothing_fills:
  "keyed t \<Longrightarrow> lookup t k = None \<Longrightarrow> lookup (put k v f t) k = Some v"
  by (simp add: lookup_put)

lemma put_other: "keyed t \<Longrightarrow> k' \<noteq> k \<Longrightarrow> lookup (put k v f t) k' = lookup t k'"
  by (simp add: lookup_put)

text \<open>One statement that inserts several keys, as \<open>INSERT ... SELECT value FROM json_each\<close>.\<close>

lemma keyed_fold_put: "keyed t \<Longrightarrow> keyed (fold (\<lambda>k. put k v f) ks t)"
  by (induction ks arbitrary: t) (auto simp: keyed_put)

lemma fold_put_other:
  "keyed t \<Longrightarrow> k \<notin> set ks \<Longrightarrow> lookup (fold (\<lambda>k. put k v f) ks t) k = lookup t k"
  by (induction ks arbitrary: t) (auto simp: keyed_put put_other)

lemma fold_put_member:
  assumes "keyed t" "k \<in> set ks" "\<And>w. f (f w) = f w" "f v = v"
  shows "lookup (fold (\<lambda>k. put k v f) ks t) k =
      Some (case lookup t k of None \<Rightarrow> v | Some w \<Rightarrow> f w)"
  using assms(1,2)
proof (induction ks arbitrary: t)
  case (Cons k' ks)
  show ?case
  proof (cases "k \<in> set ks")
    case True
    with Cons have "lookup (fold (\<lambda>k. put k v f) ks (put k' v f t)) k =
        Some (case lookup (put k' v f t) k of None \<Rightarrow> v | Some w \<Rightarrow> f w)"
      by (simp add: keyed_put)
    then show ?thesis
      using Cons.prems(1) assms(3,4) by (auto simp: lookup_put split: option.splits)
  next
    case False
    with Cons.prems show ?thesis by (simp add: fold_put_other keyed_put lookup_put)
  qed
qed simp

end

lemma map_of_upsert:
  "map_of (upsert k v f rows) =
     (map_of rows)(k \<mapsto> (case map_of rows k of None \<Rightarrow> v | Some w \<Rightarrow> f w))"
  by (induction k v f rows rule: upsert.induct) (auto simp: fun_eq_iff)

lemma keys_upsert: "set (map fst (upsert k v f rows)) = insert k (set (map fst rows))"
  by (induction k v f rows rule: upsert.induct) auto

lemma key_ok_upsert: "key_ok rows \<Longrightarrow> key_ok (upsert k v f rows)"
proof (induction k v f rows rule: upsert.induct)
  case (2 k v f k' v' rows)
  then show ?case
    using keys_upsert[of k v f rows] by (auto simp: key_ok_def)
qed (simp add: key_ok_def)

lemma map_of_delete_key: "map_of (delete_key k rows) = (map_of rows)(k := None)"
  by (induction rows) (auto simp: delete_key_def sql_delete_def fun_eq_iff)

lemma key_ok_sql_delete: "key_ok rows \<Longrightarrow> key_ok (sql_delete p rows)"
  by (simp add: key_ok_def distinct_map_sql_delete)

lemma key_ok_delete_key: "key_ok rows \<Longrightarrow> key_ok (delete_key k rows)"
  by (simp add: delete_key_def key_ok_sql_delete)

lemma map_of_sql_delete:
  "key_ok rows \<Longrightarrow> map_of (sql_delete p rows) k =
     (case map_of rows k of None \<Rightarrow> None | Some v \<Rightarrow> if p (k, v) then None else Some v)"
  by (induction rows) (auto simp: key_ok_def sql_delete_def map_of_eq_None_iff split: option.splits
      dest: map_of_SomeD intro!: map_of_eq_None_iff[THEN iffD2])

interpretation alist: keyed_table map_of upsert delete_key key_ok
  by unfold_locales
    (simp_all add: map_of_upsert map_of_delete_key key_ok_upsert key_ok_delete_key)

end
