(* ===== verification/Control.thy ===== *)
theory Control
  imports Results Sql
begin

text \<open>
  The control store of \<open>src/rust/src/control/mod.rs\<close> and \<open>src/rust/src/control/sqlite.rs\<close>: one
  \<open>builds\<close> row per repository and commit with a state, an error, attempts, a retry time and a
  lease per output kind, and the tables of added repositories, owner turns, published refs,
  artifact references, artifact sizes, build usage and queued deletions.

  A table is the list of its rows.  Every operation takes the database and returns its result
  and the database after it; an operation that fails before its transaction commits returns
  the database unchanged.  \<open>now\<close> is what \<open>clock.now()\<close> returned.  A JSON text column is the
  value it encodes.  Failures of SQLite itself (I/O, lock timeouts) are not modelled, and
  integer columns do not overflow.
\<close>

section \<open>Types of the store's interface\<close>

datatype Pool = PoolHead | PoolFiles | PoolFull

fun pool_kind :: "Pool \<Rightarrow> ExactResultKind" where
  "pool_kind PoolHead = Head"
| "pool_kind PoolFiles = Files"
| "pool_kind PoolFull = Full"

datatype 't Out = OutPending "string option" | OutReady 't | OutFailed string

fun out_ready :: "'t Out \<Rightarrow> 't option" where
  "out_ready (OutReady t) = Some t"
| "out_ready _ = None"

record Lease =
  lease_attempts :: int
  lease_expiry :: "int option"

record BuildRow =
  br_commit :: string
  br_ref_name :: "string option"
  br_parent :: "string option"
  br_created_at :: int
  br_seq :: int
  br_head :: "HeadResult Out"
  br_files :: "FilesResult Out"
  br_full :: "FullResult Out"
  br_head_lease :: Lease
  br_files_lease :: Lease
  br_full_lease :: Lease

fun build_row_lease :: "BuildRow \<Rightarrow> ExactResultKind \<Rightarrow> Lease" where
  "build_row_lease r Head = br_head_lease r"
| "build_row_lease r Files = br_files_lease r"
| "build_row_lease r Full = br_full_lease r"

record Claim =
  cl_repo :: RepoId
  cl_owner :: string
  cl_pool :: Pool
  cl_build :: BuildRow

definition claim_kind :: "Claim \<Rightarrow> ExactResultKind" where
  "claim_kind c = pool_kind (cl_pool c)"

definition claim_attempts :: "Claim \<Rightarrow> int" where
  "claim_attempts c = lease_attempts (build_row_lease (cl_build c) (claim_kind c))"

datatype Output = HeadOutput HeadResult "string option" | FilesOutput FilesResult
  | FullOutput FullResult

fun output_artifacts :: "Output \<Rightarrow> string list" where
  "output_artifacts (HeadOutput r _) = head_artifacts r"
| "output_artifacts (FilesOutput r) = files_artifacts r"
| "output_artifacts (FullOutput r) = full_artifacts r"

fun output_kind :: "Output \<Rightarrow> ExactResultKind" where
  "output_kind (HeadOutput _ _) = Head"
| "output_kind (FilesOutput _) = Files"
| "output_kind (FullOutput _) = Full"

fun output_clonepack :: "Output \<Rightarrow> ClonepackArtifacts" where
  "output_clonepack (HeadOutput r _) = hr_clonepack r"
| "output_clonepack (FilesOutput r) = fl_clonepack r"
| "output_clonepack (FullOutput r) = fr_clonepack r"

record Published =
  applied :: bool
  row_complete :: bool

record Purged =
  purged_builds :: nat
  purged_queued :: nat

record KindUsage =
  ku_attempts :: nat
  ku_build_ms :: nat

record RepoUsage =
  ru_commits_admitted :: nat
  ru_head :: KindUsage
  ru_files :: KindUsage
  ru_full :: KindUsage
  ru_artifacts :: nat
  ru_unique_bytes :: nat
  ru_shared_bytes :: nat
  ru_unsized_artifacts :: nat

record AddedRepo =
  ar_repo_id :: RepoId
  ar_added_at :: nat

record SidePack =
  side_pack :: string
  side_pack_len :: nat
  side_idx :: string
  side_idx_len :: nat

record PublishedTags =
  pt_artifact :: string
  pt_len :: nat
  pt_count :: nat
  pt_hash :: string

record RepoBranches =
  rb_artifact :: string
  rb_len :: nat
  rb_refs_hash :: string
  rb_default_branch :: "string option"
  rb_base :: "string option"
  rb_side_base :: "string option"
  rb_side_tips :: string
  rb_side_packs :: "SidePack list"
  rb_tags :: PublishedTags

record RepoRefs =
  rr_tags_artifact :: string
  rr_tags_len :: nat
  rr_tags_count :: nat
  rr_tags_hash :: string
  rr_branches :: "RepoBranches option"
  rr_ready :: "RepoBranches option"

definition branches_artifacts :: "RepoBranches \<Rightarrow> string list" where
  "branches_artifacts b = rb_artifact b # pt_artifact (rb_tags b)
     # concat (map (\<lambda>s. [side_pack s, side_idx s]) (rb_side_packs b))"

definition refs_artifacts :: "RepoRefs \<Rightarrow> string list" where
  "refs_artifacts r =
     named (rr_tags_artifact r
       # concat (map branches_artifacts
           (List.map_filter id [rr_branches r, rr_ready r])))"

section \<open>Tables\<close>

datatype out_state = Pending | Ready | Failed

datatype stored_output = StoredHead HeadResult | StoredFiles FilesResult | StoredFull FullResult

text \<open>The columns that one output kind has in a \<open>builds\<close> row.\<close>

record kind_cols =
  k_state :: out_state
  k_output :: "stored_output option"
  k_error :: "string option"
  k_attempts :: int
  k_retry_after :: int
  k_lease_owner :: "string option"
  k_lease_until :: "int option"

record build =
  b_repo :: string
  b_commit :: string
  b_seq :: int
  b_ref_name :: "string option"
  b_parent :: "string option"
  b_created_at :: int
  b_head :: kind_cols
  b_files :: kind_cols
  b_full :: kind_cols

record added_repo =
  added_at :: int
  added_owner :: string

record refs_row =
  rf_tags_artifact :: string
  rf_tags_len :: int
  rf_tags_count :: int
  rf_tags_hash :: string
  rf_branches :: "RepoBranches option"
  rf_ready :: "RepoBranches option"

record usage_row =
  u_attempts :: int
  u_build_ms :: int

record db =
  builds :: "build list"
  added_repos :: "(string \<times> added_repo) list"
  owner_turns :: "((string \<times> string) \<times> int) list"
  repo_refs :: "(string \<times> refs_row) list"
  artifact_refs :: "(string \<times> string) list"
  artifact_sizes :: "(string \<times> int) list"
  build_usage :: "((string \<times> string) \<times> usage_row) list"
  deletions :: "(string \<times> int) list"

definition empty_db :: db where
  "empty_db = \<lparr>builds = [], added_repos = [], owner_turns = [], repo_refs = [],
     artifact_refs = [], artifact_sizes = [], build_usage = [], deletions = []\<rparr>"

text \<open>What the store object keeps besides the connection: the attempt limit and its prefix.\<close>

record store =
  max_attempts :: int
  inst :: string

fun column_prefix :: "ExactResultKind \<Rightarrow> string" where
  "column_prefix Head = ''head''"
| "column_prefix Files = ''files''"
| "column_prefix Full = ''full''"

text \<open>The column family \<open>{k}_...\<close> of a kind, read and written.\<close>

fun cols :: "build \<Rightarrow> ExactResultKind \<Rightarrow> kind_cols" where
  "cols b Head = b_head b"
| "cols b Files = b_files b"
| "cols b Full = b_full b"

fun set_cols :: "ExactResultKind \<Rightarrow> (kind_cols \<Rightarrow> kind_cols) \<Rightarrow> build \<Rightarrow> build" where
  "set_cols Head f b = b\<lparr>b_head := f (b_head b)\<rparr>"
| "set_cols Files f b = b\<lparr>b_files := f (b_files b)\<rparr>"
| "set_cols Full f b = b\<lparr>b_full := f (b_full b)\<rparr>"

definition new_cols :: kind_cols where
  "new_cols = \<lparr>k_state = Pending, k_output = None, k_error = None, k_attempts = 0,
     k_retry_after = 0, k_lease_owner = None, k_lease_until = None\<rparr>"

section \<open>Decoding rows\<close>

datatype control_error =
    MaxAttempts | InvalidCommit | MissingRow | NotFullRef string
  | MissingOutput ExactResultKind | DecodeOutput ExactResultKind
  | InvalidResult ExactResultKind string | BadStorageKey string
  | NumberTooLarge | NegativeNumber | UnknownUsageKind string

type_synonym 'a cresult = "(control_error, 'a) result"

definition duration_secs :: "duration \<Rightarrow> int" where
  "duration_secs d = (if int (as_secs d) \<le> i64_max then int (as_secs d) else i64_max)"

definition decode_out ::
    "ExactResultKind \<Rightarrow> (stored_output \<Rightarrow> 't option) \<Rightarrow> build \<Rightarrow> 't Out cresult" where
  "decode_out kind from_json b =
     (let c = cols b kind in
      case k_state c of
        Pending \<Rightarrow> Inr (OutPending (k_error c))
      | Ready \<Rightarrow>
          rbind (ok_or (MissingOutput kind) (k_output c)) (\<lambda>output.
          rbind (ok_or (DecodeOutput kind) (from_json output)) (\<lambda>t. Inr (OutReady t)))
      | Failed \<Rightarrow>
          Inr (OutFailed (case k_error c of Some e \<Rightarrow> e
                          | None \<Rightarrow> column_prefix kind @ '' build failed'')))"

fun head_json :: "stored_output \<Rightarrow> HeadResult option" where
  "head_json (StoredHead r) = Some r"
| "head_json _ = None"

fun files_json :: "stored_output \<Rightarrow> FilesResult option" where
  "files_json (StoredFiles r) = Some r"
| "files_json _ = None"

fun full_json :: "stored_output \<Rightarrow> FullResult option" where
  "full_json (StoredFull r) = Some r"
| "full_json _ = None"

definition decode_lease :: "ExactResultKind \<Rightarrow> build \<Rightarrow> Lease" where
  "decode_lease kind b =
     \<lparr>lease_attempts = k_attempts (cols b kind), lease_expiry = k_lease_until (cols b kind)\<rparr>"

definition decode_build :: "build \<Rightarrow> BuildRow cresult" where
  "decode_build b =
     rbind (decode_out Head head_json b) (\<lambda>head.
     rbind (decode_out Files files_json b) (\<lambda>files.
     rbind (decode_out Full full_json b) (\<lambda>full.
     Inr \<lparr>br_commit = b_commit b, br_ref_name = b_ref_name b, br_parent = b_parent b,
          br_created_at = b_created_at b, br_seq = b_seq b,
          br_head = head, br_files = files, br_full = full,
          br_head_lease = decode_lease Head b, br_files_lease = decode_lease Files b,
          br_full_lease = decode_lease Full b\<rparr>)))"

definition decode_added_repo :: "string \<times> added_repo \<Rightarrow> AddedRepo cresult" where
  "decode_added_repo row =
     (case from_storage_key (fst row) of
        Inl key \<Rightarrow> Inl (BadStorageKey key)
      | Inr r \<Rightarrow> Inr \<lparr>ar_repo_id = r, ar_added_at = nat (added_at (snd row))\<rparr>)"

definition at_row :: "string \<Rightarrow> string \<Rightarrow> build \<Rightarrow> bool" where
  "at_row repo commit b = (b_repo b = repo \<and> b_commit b = commit)"

definition find_build :: "db \<Rightarrow> string \<Rightarrow> string \<Rightarrow> build option" where
  "find_build d repo commit = first_row (filter (at_row repo commit) (builds d))"

definition select_build :: "db \<Rightarrow> RepoId \<Rightarrow> string \<Rightarrow> BuildRow option cresult" where
  "select_build d repo commit =
     (case find_build d (storage_key repo) commit of
        None \<Rightarrow> Inr None
      | Some b \<Rightarrow> rbind (decode_build b) (\<lambda>r. Inr (Some r)))"

section \<open>Leases\<close>

text \<open>
  \<open>lease_held\<close>: the owner is set and the lease has not expired or is this store's.  With
  SQL's NULL, a lease with an owner and no expiry is held only by this store, and otherwise
  unknown.
\<close>

definition own_prefix :: "store \<Rightarrow> string \<Rightarrow> bool" where
  "own_prefix s owner = (take (length (inst s)) owner = inst s)"

definition lease_held :: "store \<Rightarrow> int \<Rightarrow> kind_cols \<Rightarrow> sql_bool" where
  "lease_held s now c =
     sql_and (Some (k_lease_owner c \<noteq> None))
       (sql_or (sql_lift2 (>) (k_lease_until c) (Some now))
               (map_option (own_prefix s) (k_lease_owner c)))"

section \<open>Admitting and retrying\<close>

definition next_seq :: "db \<Rightarrow> int" where
  "next_seq d = (if builds d = [] then 0 else Max (b_seq ` set (builds d))) + 1"

definition admit ::
    "db \<Rightarrow> int \<Rightarrow> RepoId \<Rightarrow> string \<Rightarrow> string option \<Rightarrow> (BuildRow \<times> bool) cresult \<times> db" where
  "admit d now repo commit ref_name =
     (if validate_object_id commit \<noteq> Inr () then (Inl InvalidCommit, d)
      else if (case ref_name of None \<Rightarrow> False | Some r \<Rightarrow> \<not> starts_with r ''refs/'')
        then (Inl (NotFullRef (the ref_name)), d)
      else
        (let key = storage_key repo;
             inserted = (find_build d key commit = None);
             row = \<lparr>b_repo = key, b_commit = commit, b_seq = next_seq d, b_ref_name = ref_name,
                    b_parent = None, b_created_at = now, b_head = new_cols,
                    b_files = new_cols, b_full = new_cols\<rparr>;
             d1 = (if inserted then d\<lparr>builds := builds d @ [row]\<rparr> else d);
             d2 = (if \<not> inserted \<and> ref_name \<noteq> None
                   then d1\<lparr>builds := sql_update (\<lambda>b. at_row key commit b \<and> b_ref_name b = None)
                              (\<lambda>b. b\<lparr>b_ref_name := ref_name\<rparr>) (builds d1)\<rparr>
                   else d1)
         in (case find_build d2 key commit of
               None \<Rightarrow> (Inl MissingRow, d2)
             | Some b \<Rightarrow> (rbind (decode_build b) (\<lambda>r. Inr (r, inserted)), d2))))"

definition retry_cols :: "kind_cols \<Rightarrow> kind_cols" where
  "retry_cols c = (if k_state c = Failed
     then c\<lparr>k_state := Pending, k_error := None, k_attempts := 0, k_retry_after := 0\<rparr> else c)"

definition any_failed :: "build \<Rightarrow> bool" where
  "any_failed b = (k_state (b_head b) = Failed \<or> k_state (b_files b) = Failed
     \<or> k_state (b_full b) = Failed)"

definition retry :: "db \<Rightarrow> RepoId \<Rightarrow> string \<Rightarrow> BuildRow option cresult \<times> db" where
  "retry d repo commit =
     (let key = storage_key repo;
          f = (\<lambda>b. set_cols Full retry_cols (set_cols Files retry_cols (set_cols Head retry_cols b)));
          d' = d\<lparr>builds := sql_update (\<lambda>b. at_row key commit b \<and> any_failed b) f (builds d)\<rparr>
      in (select_build d' repo commit, d'))"

section \<open>Claiming\<close>

definition repo_owner :: "db \<Rightarrow> string \<Rightarrow> string" where
  "repo_owner d repo = (case map_of (added_repos d) repo of None \<Rightarrow> [] | Some a \<Rightarrow> added_owner a)"

definition owner_turn :: "db \<Rightarrow> ExactResultKind \<Rightarrow> string \<Rightarrow> int" where
  "owner_turn d k owner =
     (case map_of (owner_turns d) (column_prefix k, owner) of None \<Rightarrow> 0 | Some t \<Rightarrow> t)"

definition older_full_pending :: "db \<Rightarrow> build \<Rightarrow> bool" where
  "older_full_pending d b = list_ex (\<lambda>older. b_repo older = b_repo b
     \<and> k_state (b_full older) = Pending \<and> b_seq older < b_seq b) (builds d)"

definition pool_needs :: "db \<Rightarrow> Pool \<Rightarrow> build \<Rightarrow> bool" where
  "pool_needs d pool b = (case pool of
       PoolFull \<Rightarrow> k_state (b_head b) = Ready \<and> \<not> older_full_pending d b
     | _ \<Rightarrow> True)"

definition repo_busy :: "store \<Rightarrow> int \<Rightarrow> db \<Rightarrow> ExactResultKind \<Rightarrow> string \<Rightarrow> bool" where
  "repo_busy s now d k repo =
     list_ex (\<lambda>busy. b_repo busy = repo \<and> sql_true (lease_held s now (cols busy k))) (builds d)"

definition claimable :: "store \<Rightarrow> int \<Rightarrow> Pool \<Rightarrow> db \<Rightarrow> build \<Rightarrow> bool" where
  "claimable s now pool d b =
     (let k = pool_kind pool; c = cols b k in
      k_state c = Pending \<and> pool_needs d pool b
      \<and> sql_true (sql_not (lease_held s now c))
      \<and> k_retry_after c \<le> now \<and> k_attempts c < max_attempts s
      \<and> \<not> repo_busy s now d k (b_repo b))"

definition claim_order :: "Pool \<Rightarrow> db \<Rightarrow> build \<Rightarrow> int \<times> int" where
  "claim_order pool d b = (owner_turn d (pool_kind pool) (repo_owner d (b_repo b)), b_seq b)"

definition candidate :: "store \<Rightarrow> int \<Rightarrow> Pool \<Rightarrow> db \<Rightarrow> build option" where
  "candidate s now pool d =
     first_row (order_by (claim_order pool d) (filter (claimable s now pool d) (builds d)))"

definition exhausted :: "store \<Rightarrow> int \<Rightarrow> ExactResultKind \<Rightarrow> build \<Rightarrow> bool" where
  "exhausted s now k b =
     (k_state (cols b k) = Pending \<and> k_attempts (cols b k) \<ge> max_attempts s
      \<and> sql_true (sql_not (lease_held s now (cols b k))))"

text \<open>\<open>head_failure_cascade\<close>: the SET clauses that fail a row's pending Full.\<close>

definition head_failure_cascade :: "bool \<Rightarrow> string \<Rightarrow> build \<Rightarrow> build" where
  "head_failure_cascade cond err b =
     (if cond \<and> k_state (b_full b) = Pending
      then b\<lparr>b_full := (b_full b)\<lparr>k_state := Failed, k_error := Some err\<rparr>\<rparr> else b)"

definition error_suffix :: "string option \<Rightarrow> string" where
  "error_suffix e = (case e of None \<Rightarrow> [] | Some e \<Rightarrow> '': '' @ e)"

definition gave_up_message :: "store \<Rightarrow> string" where
  "gave_up_message s = ''gave up after '' @ show_int (max_attempts s) @ '' attempts''"

definition give_up_cols :: "store \<Rightarrow> kind_cols \<Rightarrow> kind_cols" where
  "give_up_cols s c = c\<lparr>k_state := Failed,
     k_error := Some (gave_up_message s @ error_suffix (k_error c)),
     k_lease_owner := None, k_lease_until := None\<rparr>"

definition give_up_row :: "store \<Rightarrow> Pool \<Rightarrow> build \<Rightarrow> build" where
  "give_up_row s pool b =
     (let b' = set_cols (pool_kind pool) (give_up_cols s) b in
      if pool = PoolHead
      then head_failure_cascade True
             (''head failed: '' @ gave_up_message s @ error_suffix (k_error (b_head b))) b'
      else b')"

definition give_up :: "store \<Rightarrow> int \<Rightarrow> Pool \<Rightarrow> db \<Rightarrow> db" where
  "give_up s now pool d =
     d\<lparr>builds := sql_update (exhausted s now (pool_kind pool)) (give_up_row s pool) (builds d)\<rparr>"

definition lease_cols :: "string \<Rightarrow> int \<Rightarrow> kind_cols \<Rightarrow> kind_cols" where
  "lease_cols owner until c = c\<lparr>k_lease_owner := Some owner, k_lease_until := Some until,
     k_attempts := k_attempts c + 1\<rparr>"

definition next_turn :: "db \<Rightarrow> int" where
  "next_turn d = (if owner_turns d = [] then 0 else Max (snd ` set (owner_turns d))) + 1"

definition record_turn :: "ExactResultKind \<Rightarrow> string \<Rightarrow> db \<Rightarrow> db" where
  "record_turn k repo d =
     (let t = next_turn d in
      d\<lparr>owner_turns := upsert (column_prefix k, repo_owner d repo) t (\<lambda>_. t) (owner_turns d)\<rparr>)"

text \<open>The read that idle polls stop at.\<close>

definition claim_work :: "store \<Rightarrow> int \<Rightarrow> Pool \<Rightarrow> db \<Rightarrow> bool" where
  "claim_work s now pool d =
     (list_ex (exhausted s now (pool_kind pool)) (builds d) \<or> candidate s now pool d \<noteq> None)"

text \<open>The claim transaction: give up, lease the candidate, record the owner's turn.\<close>

definition claim_tx ::
    "store \<Rightarrow> db \<Rightarrow> int \<Rightarrow> string \<Rightarrow> Pool \<Rightarrow> duration \<Rightarrow> Claim option cresult \<times> db" where
  "claim_tx s d now owner pool lease =
     (let k = pool_kind pool; d1 = give_up s now pool d in
      case candidate s now pool d1 of
        None \<Rightarrow> (Inr None, d1)
      | Some b \<Rightarrow>
          (let full_owner = inst s @ owner;
               until = i64_saturating_add now (duration_secs lease);
               row = set_cols k (lease_cols full_owner until) b;
               d2 = d1\<lparr>builds := sql_update (at_row (b_repo b) (b_commit b))
                           (set_cols k (lease_cols full_owner until)) (builds d1)\<rparr>;
               d3 = record_turn k (b_repo b) d2
           in (case from_storage_key (b_repo b) of
                 Inl key \<Rightarrow> (Inl (BadStorageKey key), d3)
               | Inr repo \<Rightarrow>
                   (rbind (decode_build row) (\<lambda>r.
                      Inr (Some \<lparr>cl_repo = repo, cl_owner = full_owner, cl_pool = pool,
                                 cl_build = r\<rparr>)), d3))))"

definition claim ::
    "store \<Rightarrow> db \<Rightarrow> int \<Rightarrow> string \<Rightarrow> Pool \<Rightarrow> duration \<Rightarrow> Claim option cresult \<times> db" where
  "claim s d now owner pool lease =
     (if \<not> claim_work s now pool d then (Inr None, d) else claim_tx s d now owner pool lease)"

section \<open>Leased builds: renew, publish, fail, release\<close>

definition claim_row :: "Claim \<Rightarrow> build \<Rightarrow> bool" where
  "claim_row c b = (at_row (storage_key (cl_repo c)) (br_commit (cl_build c)) b
     \<and> k_lease_owner (cols b (claim_kind c)) = Some (cl_owner c))"

definition renew :: "db \<Rightarrow> int \<Rightarrow> Claim \<Rightarrow> duration \<Rightarrow> bool \<times> db" where
  "renew d now c lease =
     (let until = i64_saturating_add now (duration_secs lease) in
      (rows_affected (claim_row c) (builds d) = 1,
       d\<lparr>builds := sql_update (claim_row c)
            (set_cols (claim_kind c) (\<lambda>k. k\<lparr>k_lease_until := Some until\<rparr>)) (builds d)\<rparr>))"

fun stored :: "Output \<Rightarrow> stored_output" where
  "stored (HeadOutput r _) = StoredHead r"
| "stored (FilesOutput r) = StoredFiles r"
| "stored (FullOutput r) = StoredFull r"

fun output_parent :: "Output \<Rightarrow> build \<Rightarrow> build" where
  "output_parent (HeadOutput _ p) b = b\<lparr>b_parent := p\<rparr>"
| "output_parent _ b = b"

text \<open>\<open>RECORD_REFS\<close>: the repository names each artifact, once.\<close>

definition record_ref :: "string \<Rightarrow> string \<Rightarrow> (string \<times> string) list \<Rightarrow> (string \<times> string) list" where
  "record_ref repo h refs = (if (repo, h) \<in> set refs then refs else refs @ [(repo, h)])"

definition record_refs :: "string \<Rightarrow> string list \<Rightarrow> db \<Rightarrow> db" where
  "record_refs repo hashes d =
     d\<lparr>artifact_refs := fold (record_ref repo) hashes (artifact_refs d)\<rparr>"

definition publish_cols :: "Output \<Rightarrow> kind_cols \<Rightarrow> kind_cols" where
  "publish_cols out c = c\<lparr>k_state := Ready, k_output := Some (stored out), k_error := None\<rparr>"

definition publish_row :: "Output \<Rightarrow> build \<Rightarrow> build" where
  "publish_row out b = output_parent out (set_cols (output_kind out) (publish_cols out) b)"

definition all_ready :: "build \<Rightarrow> bool" where
  "all_ready b = (k_state (b_head b) = Ready \<and> k_state (b_files b) = Ready
     \<and> k_state (b_full b) = Ready)"

definition not_applied :: Published where
  "not_applied = \<lparr>applied = False, row_complete = False\<rparr>"

definition publish :: "db \<Rightarrow> Claim \<Rightarrow> Output \<Rightarrow> Published cresult \<times> db" where
  "publish d c out =
     (let kind = output_kind out; commit = br_commit (cl_build c) in
      if \<not> exact_output_artifacts_ready commit kind (output_clonepack out)
        then (Inl (InvalidResult kind commit), d)
      else if kind \<noteq> claim_kind c then (Inr not_applied, d)
      else
        (let target = (\<lambda>b. claim_row c b \<and> k_state (cols b kind) = Pending) in
         case first_row (filter target (builds d)) of
           None \<Rightarrow> (Inr not_applied, d)
         | Some b \<Rightarrow>
             (let d1 = d\<lparr>builds := sql_update target (publish_row out) (builds d)\<rparr>;
                  d2 = record_refs (storage_key (cl_repo c)) (output_artifacts out) d1
              in (Inr \<lparr>applied = True, row_complete = all_ready (publish_row out b)\<rparr>, d2))))"

definition fail_gives_up :: "store \<Rightarrow> int option \<Rightarrow> kind_cols \<Rightarrow> bool" where
  "fail_gives_up s retry_at c = (retry_at = None \<or> k_attempts c \<ge> max_attempts s)"

definition fail_cols :: "store \<Rightarrow> int option \<Rightarrow> string \<Rightarrow> kind_cols \<Rightarrow> kind_cols" where
  "fail_cols s retry_at err c =
     c\<lparr>k_state := (if fail_gives_up s retry_at c then Failed else Pending),
       k_error := Some err,
       k_retry_after := (if fail_gives_up s retry_at c then k_retry_after c else the retry_at)\<rparr>"

definition fail_row :: "store \<Rightarrow> ExactResultKind \<Rightarrow> int option \<Rightarrow> string \<Rightarrow> build \<Rightarrow> build" where
  "fail_row s k retry_at err b =
     (let b' = set_cols k (fail_cols s retry_at err) b in
      if k = Head
      then head_failure_cascade (fail_gives_up s retry_at (b_head b)) (''head failed: '' @ err) b'
      else b')"

definition fail :: "store \<Rightarrow> db \<Rightarrow> int \<Rightarrow> Claim \<Rightarrow> string \<Rightarrow> duration option \<Rightarrow> db" where
  "fail s d now c err retry_after =
     (let k = claim_kind c;
          retry_at = map_option (\<lambda>delay. i64_saturating_add now (duration_secs delay)) retry_after
      in d\<lparr>builds := sql_update (\<lambda>b. claim_row c b \<and> k_state (cols b k) = Pending)
              (fail_row s k retry_at err) (builds d)\<rparr>)"

definition clear_lease :: "kind_cols \<Rightarrow> kind_cols" where
  "clear_lease c = c\<lparr>k_lease_owner := None, k_lease_until := None\<rparr>"

definition release :: "db \<Rightarrow> Claim \<Rightarrow> db" where
  "release d c =
     d\<lparr>builds := sql_update (claim_row c) (set_cols (claim_kind c) clear_lease) (builds d)\<rparr>"

definition any_lease :: "build \<Rightarrow> bool" where
  "any_lease b = (k_lease_owner (b_head b) \<noteq> None \<or> k_lease_owner (b_files b) \<noteq> None
     \<or> k_lease_owner (b_full b) \<noteq> None)"

definition reset_leases :: "db \<Rightarrow> nat \<times> db" where
  "reset_leases d =
     (rows_affected any_lease (builds d),
      d\<lparr>builds := sql_update any_lease
           (\<lambda>b. set_cols Full clear_lease (set_cols Files clear_lease (set_cols Head clear_lease b)))
           (builds d)\<rparr>)"

section \<open>Reads\<close>

definition status :: "db \<Rightarrow> RepoId \<Rightarrow> string \<Rightarrow> BuildRow option cresult" where
  "status d repo commit = select_build d repo commit"

definition repo_builds :: "db \<Rightarrow> string \<Rightarrow> build list" where
  "repo_builds d repo = filter (\<lambda>b. b_repo b = repo) (builds d)"

definition list_builds :: "db \<Rightarrow> RepoId \<Rightarrow> BuildRow list cresult" where
  "list_builds d repo = map_result decode_build (order_by b_seq (repo_builds d (storage_key repo)))"

definition latest_ready_full :: "db \<Rightarrow> RepoId \<Rightarrow> string \<Rightarrow> (string \<times> FullResult) option cresult" where
  "latest_ready_full d repo ref_name =
     (case first_row (order_by (\<lambda>b. - b_seq b)
             (filter (\<lambda>b. b_ref_name b = Some ref_name \<and> k_state (b_full b) = Ready)
               (repo_builds d (storage_key repo)))) of
        None \<Rightarrow> Inr None
      | Some b \<Rightarrow>
          rbind (ok_or (MissingOutput Full) (k_output (b_full b))) (\<lambda>output.
          rbind (ok_or (DecodeOutput Full) (full_json output)) (\<lambda>full.
          Inr (Some (b_commit b, full)))))"

text \<open>\<open>ref_name = $3\<close> is NULL, so not preferred, when either side is.\<close>

definition prefers :: "string option \<Rightarrow> build \<Rightarrow> bool" where
  "prefers prefer_ref b = sql_true (sql_lift2 (=) (b_ref_name b) prefer_ref)"

definition ready_commits ::
    "db \<Rightarrow> RepoId \<Rightarrow> ExactResultKind \<Rightarrow> string option \<Rightarrow> string \<Rightarrow> nat \<Rightarrow> string list" where
  "ready_commits d repo kind prefer_ref except limit =
     take (if int limit \<le> i64_max then limit else nat i64_max)
       (map b_commit
         (order_by (\<lambda>b. (if prefers prefer_ref b then 0 else 1 :: int, - b_seq b))
           (filter (\<lambda>b. k_state (cols b kind) = Ready \<and> b_commit b \<noteq> except)
             (repo_builds d (storage_key repo)))))"

section \<open>Repositories and refs\<close>

definition add_repo :: "db \<Rightarrow> int \<Rightarrow> RepoId \<Rightarrow> string option \<Rightarrow> bool \<times> db" where
  "add_repo d now repo owner =
     (let key = storage_key repo;
          added = (map_of (added_repos d) key = None);
          row = \<lparr>added_at = now, added_owner = (case owner of None \<Rightarrow> [] | Some o' \<Rightarrow> o')\<rparr>;
          d1 = d\<lparr>added_repos := upsert key row id (added_repos d)\<rparr>;
          d2 = (case owner of
                  Some o' \<Rightarrow>
                    (if \<not> added
                     then d1\<lparr>added_repos := sql_update
                            (\<lambda>(k, a). k = key \<and> added_owner a = [])
                            (\<lambda>(k, a). (k, a\<lparr>added_owner := o'\<rparr>)) (added_repos d1)\<rparr>
                     else d1)
                | None \<Rightarrow> d1)
      in (added, d2))"

definition remove_repo :: "db \<Rightarrow> RepoId \<Rightarrow> bool \<times> db" where
  "remove_repo d repo =
     (rows_affected (\<lambda>r. fst r = storage_key repo) (added_repos d) = 1,
      d\<lparr>added_repos := delete_key (storage_key repo) (added_repos d)\<rparr>)"

definition get_repo :: "db \<Rightarrow> RepoId \<Rightarrow> AddedRepo option cresult" where
  "get_repo d repo =
     (case first_row (filter (\<lambda>r. fst r = storage_key repo) (added_repos d)) of
        None \<Rightarrow> Inr None
      | Some row \<Rightarrow> rbind (decode_added_repo row) (\<lambda>a. Inr (Some a)))"

definition list_repos :: "db \<Rightarrow> AddedRepo list cresult" where
  "list_repos d = map_result decode_added_repo (order_by fst (added_repos d))"

definition knows_repo :: "db \<Rightarrow> RepoId \<Rightarrow> bool" where
  "knows_repo d repo =
     (list_ex (\<lambda>r. fst r = storage_key repo) (added_repos d)
      \<or> list_ex (\<lambda>b. b_repo b = storage_key repo) (builds d))"

definition known_repos :: "db \<Rightarrow> RepoId list cresult" where
  "known_repos d =
     map_result (\<lambda>key. case from_storage_key key of Inl k \<Rightarrow> Inl (BadStorageKey k) | Inr r \<Rightarrow> Inr r)
       (btree_set (map fst (added_repos d) @ map b_repo (builds d)))"

definition refs_number :: "nat \<Rightarrow> int cresult" where
  "refs_number n = (if int n \<le> i64_max then Inr (int n) else Inl NumberTooLarge)"

definition set_refs :: "db \<Rightarrow> RepoId \<Rightarrow> RepoRefs \<Rightarrow> bool cresult \<times> db" where
  "set_refs d repo refs =
     (let key = storage_key repo in
      if \<not> knows_repo d repo then (Inr False, d)
      else (case refs_number (rr_tags_len refs) of
        Inl e \<Rightarrow> (Inl e, d)
      | Inr len \<Rightarrow> (case refs_number (rr_tags_count refs) of
          Inl e \<Rightarrow> (Inl e, d)
        | Inr count \<Rightarrow>
            (let row = \<lparr>rf_tags_artifact = rr_tags_artifact refs, rf_tags_len = len,
                        rf_tags_count = count, rf_tags_hash = rr_tags_hash refs,
                        rf_branches = rr_branches refs, rf_ready = rr_ready refs\<rparr>;
                 d1 = d\<lparr>repo_refs := upsert key row (\<lambda>_. row) (repo_refs d)\<rparr>;
                 d2 = record_refs key (refs_artifacts refs) d1
             in (Inr True, d2)))))"

definition read_number :: "int \<Rightarrow> nat cresult" where
  "read_number n = (if n < 0 then Inl NegativeNumber else Inr (nat n))"

definition get_refs :: "db \<Rightarrow> RepoId \<Rightarrow> RepoRefs option cresult" where
  "get_refs d repo =
     (case map_of (repo_refs d) (storage_key repo) of
        None \<Rightarrow> Inr None
      | Some row \<Rightarrow>
          rbind (read_number (rf_tags_len row)) (\<lambda>len.
          rbind (read_number (rf_tags_count row)) (\<lambda>count.
          Inr (Some \<lparr>rr_tags_artifact = rf_tags_artifact row, rr_tags_len = len,
                     rr_tags_count = count, rr_tags_hash = rf_tags_hash row,
                     rr_branches = rf_branches row, rr_ready = rf_ready row\<rparr>))))"

section \<open>Deletions\<close>

text \<open>\<open>KEEP_LATER_DUE\<close>: an artifact queued again keeps the later of its due times.\<close>

definition keep_later_due :: "int \<Rightarrow> int \<Rightarrow> int" where
  "keep_later_due excluded current = (if excluded > current then excluded else current)"

definition queue_all :: "string list \<Rightarrow> int \<Rightarrow> (string \<times> int) list \<Rightarrow> (string \<times> int) list" where
  "queue_all hashes due_at rows =
     fold (\<lambda>h. upsert h due_at (keep_later_due due_at)) hashes rows"

definition only_ours :: "db \<Rightarrow> string \<Rightarrow> string list" where
  "only_ours d repo =
     map snd (filter (\<lambda>(r, h). r = repo
         \<and> \<not> list_ex (\<lambda>(r', h'). h' = h \<and> r' \<noteq> repo) (artifact_refs d)) (artifact_refs d))"

definition purge_repo :: "db \<Rightarrow> RepoId \<Rightarrow> int \<Rightarrow> Purged \<times> db" where
  "purge_repo d repo due_at =
     (let key = storage_key repo; queued = only_ours d key in
      (\<lparr>purged_builds = rows_affected (\<lambda>b. b_repo b = key) (builds d),
        purged_queued = length queued\<rparr>,
       d\<lparr>added_repos := delete_key key (added_repos d),
         deletions := queue_all queued due_at (deletions d),
         repo_refs := delete_key key (repo_refs d),
         build_usage := sql_delete (\<lambda>r. fst (fst r) = key) (build_usage d),
         artifact_refs := sql_delete (\<lambda>r. fst r = key) (artifact_refs d),
         builds := sql_delete (\<lambda>b. b_repo b = key) (builds d)\<rparr>))"

definition queue_deletions :: "db \<Rightarrow> string list \<Rightarrow> int \<Rightarrow> db" where
  "queue_deletions d hashes due_at = d\<lparr>deletions := queue_all hashes due_at (deletions d)\<rparr>"

definition due_deletions :: "db \<Rightarrow> int \<Rightarrow> nat \<Rightarrow> string list" where
  "due_deletions d now limit =
     take (if int limit \<le> i64_max then limit else nat i64_max)
       (map fst (order_by (\<lambda>(h, due). (due, h)) (filter (\<lambda>(h, due). due < now) (deletions d))))"

definition referenced :: "db \<Rightarrow> string \<Rightarrow> bool" where
  "referenced d h = list_ex (\<lambda>r. snd r = h) (artifact_refs d)"

definition deletable :: "db \<Rightarrow> string \<Rightarrow> int \<Rightarrow> bool" where
  "deletable d h now =
     (list_ex (\<lambda>(h', due). h' = h \<and> due < now) (deletions d) \<and> \<not> referenced d h)"

definition dequeue_deletions :: "db \<Rightarrow> string list \<Rightarrow> int \<Rightarrow> db" where
  "dequeue_deletions d hashes now =
     (let d1 = d\<lparr>deletions := sql_delete (\<lambda>(h, due). h \<in> set hashes \<and> due < now) (deletions d)\<rparr>
      in d1\<lparr>artifact_sizes := sql_delete (\<lambda>(h, _). h \<in> set hashes \<and> \<not> referenced d1 h
              \<and> \<not> list_ex (\<lambda>r. fst r = h) (deletions d1)) (artifact_sizes d1)\<rparr>)"

section \<open>Sizes and usage\<close>

definition unsized_artifacts :: "db \<Rightarrow> string list \<Rightarrow> string list" where
  "unsized_artifacts d hashes =
     remdups (filter (\<lambda>h. \<not> list_ex (\<lambda>r. fst r = h) (artifact_sizes d)) hashes)"

text \<open>The sizes collected into one JSON object first: a repeated key keeps its last size.\<close>

definition sizes_object :: "(string \<times> nat) list \<Rightarrow> (string \<times> int) list" where
  "sizes_object sizes = fold (\<lambda>(h, len). upsert h (int len) (\<lambda>_. int len)) sizes []"

definition record_sizes :: "db \<Rightarrow> (string \<times> nat) list \<Rightarrow> db" where
  "record_sizes d sizes =
     (if sizes = [] then d
      else d\<lparr>artifact_sizes :=
             fold (\<lambda>(h, len). upsert h len id) (sizes_object sizes) (artifact_sizes d)\<rparr>)"

definition add_build_time :: "db \<Rightarrow> RepoId \<Rightarrow> ExactResultKind \<Rightarrow> duration \<Rightarrow> db" where
  "add_build_time d repo kind elapsed =
     (let ms = (if int (as_millis elapsed) \<le> i64_max then int (as_millis elapsed) else i64_max)
      in d\<lparr>build_usage := upsert (storage_key repo, column_prefix kind)
              \<lparr>u_attempts = 1, u_build_ms = ms\<rparr>
              (\<lambda>u. \<lparr>u_attempts = u_attempts u + 1, u_build_ms = u_build_ms u + ms\<rparr>)
              (build_usage d)\<rparr>)"

definition kind_usage :: "usage_row \<Rightarrow> KindUsage" where
  "kind_usage u = \<lparr>ku_attempts = nat (u_attempts u), ku_build_ms = nat (u_build_ms u)\<rparr>"

fun usage_slots :: "((string \<times> string) \<times> usage_row) list \<Rightarrow> RepoUsage \<Rightarrow> RepoUsage cresult" where
  "usage_slots [] u = Inr u"
| "usage_slots (((_, kind), row) # rows) u =
     (if kind = ''head'' then usage_slots rows (u\<lparr>ru_head := kind_usage row\<rparr>)
      else if kind = ''files'' then usage_slots rows (u\<lparr>ru_files := kind_usage row\<rparr>)
      else if kind = ''full'' then usage_slots rows (u\<lparr>ru_full := kind_usage row\<rparr>)
      else Inl (UnknownUsageKind kind))"

definition shared_with_others :: "db \<Rightarrow> string \<Rightarrow> string \<Rightarrow> bool" where
  "shared_with_others d repo h = list_ex (\<lambda>(r, h'). h' = h \<and> r \<noteq> repo) (artifact_refs d)"

definition repo_hashes :: "db \<Rightarrow> string \<Rightarrow> string list" where
  "repo_hashes d repo = map snd (filter (\<lambda>r. fst r = repo) (artifact_refs d))"

definition sum_sizes :: "db \<Rightarrow> string list \<Rightarrow> int" where
  "sum_sizes d hashes = sum_list (List.map_filter (map_of (artifact_sizes d)) hashes)"

definition empty_usage :: RepoUsage where
  "empty_usage = \<lparr>ru_commits_admitted = 0, ru_head = \<lparr>ku_attempts = 0, ku_build_ms = 0\<rparr>,
     ru_files = \<lparr>ku_attempts = 0, ku_build_ms = 0\<rparr>, ru_full = \<lparr>ku_attempts = 0, ku_build_ms = 0\<rparr>,
     ru_artifacts = 0, ru_unique_bytes = 0, ru_shared_bytes = 0, ru_unsized_artifacts = 0\<rparr>"

definition usage :: "db \<Rightarrow> RepoId \<Rightarrow> RepoUsage option cresult" where
  "usage d repo =
     (let key = storage_key repo; hashes = repo_hashes d key in
      if \<not> knows_repo d repo then Inr None
      else rbind (usage_slots (filter (\<lambda>r. fst (fst r) = key) (build_usage d))
              (empty_usage\<lparr>ru_commits_admitted := length (repo_builds d key)\<rparr>)) (\<lambda>u.
        Inr (Some (u\<lparr>ru_artifacts := length hashes,
          ru_unique_bytes := nat (sum_sizes d (filter (\<lambda>h. \<not> shared_with_others d key h) hashes)),
          ru_shared_bytes := nat (sum_sizes d (filter (shared_with_others d key) hashes)),
          ru_unsized_artifacts :=
            length (filter (\<lambda>h. map_of (artifact_sizes d) h = None) hashes)\<rparr>))))"

end
