(* ===== verification/Control_Inv.thy ===== *)
theory Control_Inv
  imports Control
begin

text \<open>
  The invariant of the control database and that every operation of the store keeps it: the
  keys of \<open>builds\<close> are unique, each kind's columns are consistent, a ready output is of its
  kind and names only recorded artifacts, a Full with a lease or a result has a ready Head,
  attempts stay within the limit, and this store holds at most one lease per repository and
  kind.  \<open>control_step\<close> is one operation of the store.
\<close>

named_theorems row_simps \<open>projections of updated rows\<close>

section \<open>Rows and columns\<close>

lemma cols_set_cols [simp, row_simps]:
  "cols (set_cols k f b) k' = (if k' = k then f (cols b k) else cols b k')"
  by (cases k; cases k') simp_all

lemma set_cols_fields [simp, row_simps]:
  "b_repo (set_cols k f b) = b_repo b" "b_commit (set_cols k f b) = b_commit b"
  "b_seq (set_cols k f b) = b_seq b" "b_ref_name (set_cols k f b) = b_ref_name b"
  "b_parent (set_cols k f b) = b_parent b" "b_created_at (set_cols k f b) = b_created_at b"
  "b_head (set_cols k f b) = (if k = Head then f (b_head b) else b_head b)"
  "b_files (set_cols k f b) = (if k = Files then f (b_files b) else b_files b)"
  "b_full (set_cols k f b) = (if k = Full then f (b_full b) else b_full b)"
  by (cases k; simp)+

lemma cascade_fields [simp, row_simps]:
  "b_repo (head_failure_cascade c e b) = b_repo b" "b_commit (head_failure_cascade c e b) = b_commit b"
  "b_seq (head_failure_cascade c e b) = b_seq b" "b_head (head_failure_cascade c e b) = b_head b"
  "b_files (head_failure_cascade c e b) = b_files b"
  "b_ref_name (head_failure_cascade c e b) = b_ref_name b"
  by (simp_all add: head_failure_cascade_def)

lemma output_parent_fields [simp, row_simps]:
  "b_repo (output_parent out b) = b_repo b" "b_commit (output_parent out b) = b_commit b"
  "b_seq (output_parent out b) = b_seq b" "cols (output_parent out b) k = cols b k"
  "b_head (output_parent out b) = b_head b" "b_files (output_parent out b) = b_files b"
  "b_full (output_parent out b) = b_full b" "b_ref_name (output_parent out b) = b_ref_name b"
  by (cases out; cases k; simp)+

definition row_key :: "build \<Rightarrow> string \<times> string" where
  "row_key b = (b_repo b, b_commit b)"

declare set_cols.simps [simp del]

lemma row_key_simps [simp, row_simps]:
  "row_key (set_cols k f b) = row_key b" "row_key (head_failure_cascade c e b) = row_key b"
  "row_key (output_parent out b) = row_key b" "row_key (b\<lparr>b_ref_name := r\<rparr>) = row_key b"
  by (simp_all add: row_key_def)

lemma cols_ref_name [simp]: "cols (b\<lparr>b_ref_name := r\<rparr>) k = cols b k"
  by (cases k) simp_all

lemma cols_cascade [simp, row_simps]:
  "cols (head_failure_cascade c e b) k =
     (if k = Full \<and> c \<and> k_state (b_full b) = Pending
      then (cols b k)\<lparr>k_state := Failed, k_error := Some e\<rparr> else cols b k)"
  by (cases k) (simp_all add: head_failure_cascade_def)

section \<open>The invariant\<close>

fun stored_kind :: "stored_output \<Rightarrow> ExactResultKind" where
  "stored_kind (StoredHead _) = Head"
| "stored_kind (StoredFiles _) = Files"
| "stored_kind (StoredFull _) = Full"

fun stored_clonepack :: "stored_output \<Rightarrow> ClonepackArtifacts" where
  "stored_clonepack (StoredHead r) = hr_clonepack r"
| "stored_clonepack (StoredFiles r) = fl_clonepack r"
| "stored_clonepack (StoredFull r) = fr_clonepack r"

fun stored_artifacts :: "stored_output \<Rightarrow> string list" where
  "stored_artifacts (StoredHead r) = head_artifacts r"
| "stored_artifacts (StoredFiles r) = files_artifacts r"
| "stored_artifacts (StoredFull r) = full_artifacts r"

lemma stored_simps [simp]:
  "stored_kind (stored out) = output_kind out"
  "stored_clonepack (stored out) = output_clonepack out"
  "stored_artifacts (stored out) = output_artifacts out"
  by (cases out; simp)+

definition names_recorded :: "(string \<times> string) set \<Rightarrow> string \<Rightarrow> string list \<Rightarrow> bool" where
  "names_recorded refs repo hashes \<longleftrightarrow> (\<forall>h \<in> set hashes. (repo, h) \<in> refs)"

definition cols_ok ::
    "store \<Rightarrow> (string \<times> string) set \<Rightarrow> build \<Rightarrow> ExactResultKind \<Rightarrow> bool" where
  "cols_ok s refs b k \<longleftrightarrow>
     (let c = cols b k in
      (k_lease_owner c = None \<longleftrightarrow> k_lease_until c = None)
      \<and> 0 \<le> k_attempts c \<and> k_attempts c \<le> max_attempts s
      \<and> (k_state c \<noteq> Ready \<longrightarrow> k_output c = None)
      \<and> (k_state c = Ready \<longrightarrow>
           (\<exists>out. k_output c = Some out \<and> stored_kind out = k
              \<and> exact_output_artifacts_ready (b_commit b) k (stored_clonepack out)
              \<and> names_recorded refs (b_repo b) (stored_artifacts out))))"

definition full_needs_head :: "build \<Rightarrow> bool" where
  "full_needs_head b \<longleftrightarrow>
     (k_state (b_full b) = Ready \<or> k_lease_owner (b_full b) \<noteq> None \<longrightarrow> k_state (b_head b) = Ready)"

text \<open>A stored repository key is the key of the repository it decodes to.\<close>

definition key_valid :: "string \<Rightarrow> bool" where
  "key_valid key = (case from_storage_key key of Inl _ \<Rightarrow> False | Inr r \<Rightarrow> storage_key r = key)"

definition row_ok :: "store \<Rightarrow> (string \<times> string) set \<Rightarrow> build \<Rightarrow> bool" where
  "row_ok s refs b \<longleftrightarrow> key_valid (b_repo b) \<and> full_needs_head b
     \<and> cols_ok s refs b Head \<and> cols_ok s refs b Files \<and> cols_ok s refs b Full"

definition own_lease :: "store \<Rightarrow> ExactResultKind \<Rightarrow> build \<Rightarrow> bool" where
  "own_lease s k b = (case k_lease_owner (cols b k) of None \<Rightarrow> False | Some w \<Rightarrow> own_prefix s w)"

definition one_lease_each :: "store \<Rightarrow> build list \<Rightarrow> bool" where
  "one_lease_each s rows \<longleftrightarrow>
     (\<forall>k. \<forall>b \<in> set rows. \<forall>b' \<in> set rows.
        b_repo b = b_repo b' \<and> own_lease s k b \<and> own_lease s k b' \<longrightarrow> row_key b = row_key b')"

definition row_refs :: "refs_row \<Rightarrow> RepoRefs" where
  "row_refs row = \<lparr>rr_tags_artifact = rf_tags_artifact row, rr_tags_len = nat (rf_tags_len row),
     rr_tags_count = nat (rf_tags_count row), rr_tags_hash = rf_tags_hash row,
     rr_branches = rf_branches row, rr_ready = rf_ready row\<rparr>"

definition refs_ok :: "(string \<times> string) set \<Rightarrow> (string \<times> refs_row) list \<Rightarrow> bool" where
  "refs_ok refs rows \<longleftrightarrow> (\<forall>repo row. (repo, row) \<in> set rows \<longrightarrow>
     0 \<le> rf_tags_len row \<and> 0 \<le> rf_tags_count row
     \<and> names_recorded refs repo (refs_artifacts (row_refs row)))"

definition tables_ok :: "db \<Rightarrow> bool" where
  "tables_ok d \<longleftrightarrow> key_ok (added_repos d) \<and> key_ok (owner_turns d) \<and> key_ok (repo_refs d)
     \<and> key_ok (artifact_sizes d) \<and> key_ok (build_usage d) \<and> key_ok (deletions d)
     \<and> distinct (artifact_refs d) \<and> (\<forall>t \<in> snd ` set (owner_turns d). 1 \<le> t)
     \<and> refs_ok (set (artifact_refs d)) (repo_refs d)"

definition wf_db :: "store \<Rightarrow> db \<Rightarrow> bool" where
  "wf_db s d \<longleftrightarrow> 1 \<le> max_attempts s
     \<and> distinct (map row_key (builds d)) \<and> distinct (map b_seq (builds d))
     \<and> (\<forall>b \<in> set (builds d). row_ok s (set (artifact_refs d)) b)
     \<and> one_lease_each s (builds d) \<and> tables_ok d"

lemma wf_empty: "1 \<le> max_attempts s \<Longrightarrow> wf_db s empty_db"
  by (simp add: wf_db_def empty_db_def one_lease_each_def tables_ok_def key_ok_def refs_ok_def)

section \<open>Preservation by updates of build rows\<close>

lemma names_recorded_mono: "names_recorded R r hs \<Longrightarrow> R \<subseteq> R' \<Longrightarrow> names_recorded R' r hs"
  by (auto simp: names_recorded_def)

lemma cols_ok_mono: "cols_ok s R b k \<Longrightarrow> R \<subseteq> R' \<Longrightarrow> cols_ok s R' b k"
  by (auto simp: cols_ok_def Let_def intro: names_recorded_mono)

lemma row_ok_mono: "row_ok s R b \<Longrightarrow> R \<subseteq> R' \<Longrightarrow> row_ok s R' b"
  by (auto simp: row_ok_def intro: cols_ok_mono)

lemma row_ok_cols: "row_ok s R b \<Longrightarrow> cols_ok s R b k"
  by (cases k) (auto simp: row_ok_def)

lemma row_ok_full: "row_ok s R b \<Longrightarrow> full_needs_head b"
  by (simp add: row_ok_def)

lemma row_okI:
  assumes "key_valid (b_repo b)" "full_needs_head b" "\<And>k. cols_ok s R b k"
  shows "row_ok s R b"
  using assms by (simp add: row_ok_def)

text \<open>
  An update that keeps the keys, keeps rows well formed and adds no lease of this store
  keeps the invariant of the \<open>builds\<close> table.
\<close>

lemma one_lease_update:
  assumes "one_lease_each s rows"
    and "\<And>b. b \<in> set rows \<Longrightarrow> p b \<Longrightarrow> row_key (f b) = row_key b"
    and "\<And>b k. b \<in> set rows \<Longrightarrow> p b \<Longrightarrow> own_lease s k (f b) \<Longrightarrow> own_lease s k b"
  shows "one_lease_each s (sql_update p f rows)"
proof -
  let ?g = "\<lambda>r. if p r then f r else r"
  have key: "row_key (?g b) = row_key b" if "b \<in> set rows" for b
    using assms(2) that by simp
  have repo: "b_repo (?g b) = b_repo b" if "b \<in> set rows" for b
    using key[OF that] by (simp add: row_key_def)
  have own: "own_lease s k (?g b) \<Longrightarrow> own_lease s k b" if "b \<in> set rows" for b k
    using assms(3) that by (auto split: if_splits)
  show ?thesis
    unfolding one_lease_each_def set_sql_update
  proof (intro allI ballI impI)
    fix k x y
    assume "x \<in> ?g ` set rows" "y \<in> ?g ` set rows"
    then obtain b b' where b: "b \<in> set rows" "x = ?g b" "b' \<in> set rows" "y = ?g b'" by blast
    assume "b_repo x = b_repo y \<and> own_lease s k x \<and> own_lease s k y"
    then have "b_repo b = b_repo b' \<and> own_lease s k b \<and> own_lease s k b'"
      using b repo own by auto
    then have "row_key b = row_key b'"
      using assms(1) b(1,3) unfolding one_lease_each_def by blast
    then show "row_key x = row_key y" using b key by auto
  qed
qed

lemma wf_update_builds:
  assumes wf: "wf_db s d"
    and key: "\<And>b. row_key (f b) = row_key b" "\<And>b. b_seq (f b) = b_seq b"
    and ok: "\<And>b. b \<in> set (builds d) \<Longrightarrow> p b \<Longrightarrow> row_ok s (set (artifact_refs d)) (f b)"
    and own: "\<And>b k. b \<in> set (builds d) \<Longrightarrow> p b \<Longrightarrow> own_lease s k (f b) \<Longrightarrow> own_lease s k b"
  shows "wf_db s (d\<lparr>builds := sql_update p f (builds d)\<rparr>)"
proof -
  have "one_lease_each s (sql_update p f (builds d))"
    using wf key own by (intro one_lease_update) (auto simp: wf_db_def)
  moreover have "map row_key (sql_update p f (builds d)) = map row_key (builds d)"
    by (rule map_sql_update) (simp add: key)
  moreover have "map b_seq (sql_update p f (builds d)) = map b_seq (builds d)"
    by (rule map_sql_update) (simp add: key)
  ultimately show ?thesis
    using wf ok by (auto simp: wf_db_def tables_ok_def)
qed

text \<open>An operation that leaves builds and artifact references alone.\<close>

lemma wf_tables:
  "wf_db s d \<Longrightarrow> builds d' = builds d \<Longrightarrow> artifact_refs d' = artifact_refs d \<Longrightarrow> tables_ok d' \<Longrightarrow> wf_db s d'"
  by (simp add: wf_db_def)

lemmas cols_ok_simps = cols_ok_def Let_def names_recorded_def
lemmas wf_rows = wf_db_def row_ok_def

lemma wf_row: "wf_db s d \<Longrightarrow> b \<in> set (builds d) \<Longrightarrow> row_ok s (set (artifact_refs d)) b"
  by (simp add: wf_db_def)

text \<open>A change of one kind's columns that keeps its state and output keeps the row well formed.\<close>

lemma row_ok_set_cols:
  assumes "row_ok s R b" "cols_ok s R (set_cols k f b) k"
    and "k = Full \<Longrightarrow> full_needs_head (set_cols k f b)"
    and "k = Head \<Longrightarrow> k_state (b_head b) = Ready \<Longrightarrow> k_state (f (b_head b)) = Ready"
  shows "row_ok s R (set_cols k f b)"
proof (rule row_okI)
  show "key_valid (b_repo (set_cols k f b))"
    using assms(1) by (simp add: row_ok_def)
  show "full_needs_head (set_cols k f b)"
    using assms by (cases k) (auto simp: row_ok_def full_needs_head_def)
  show "cols_ok s R (set_cols k f b) k'" for k'
    using assms(1,2) row_ok_cols[OF assms(1), of k'] by (cases "k' = k") (auto simp: cols_ok_def)
qed

section \<open>Every operation keeps the invariant\<close>

lemma row_ok_ref_name: "row_ok s R b \<Longrightarrow> row_ok s R (b\<lparr>b_ref_name := r\<rparr>)"
  by (auto simp: row_ok_def full_needs_head_def cols_ok_def)

lemma own_lease_ref_name [simp]: "own_lease s k (b\<lparr>b_ref_name := r\<rparr>) = own_lease s k b"
  by (simp add: own_lease_def)

lemma find_build_None: "find_build d repo commit = None \<longleftrightarrow>
    (\<forall>b \<in> set (builds d). row_key b \<noteq> (repo, commit))"
  by (auto simp: find_build_def filter_empty_conv at_row_def row_key_def)

lemma next_seq_greater: "b \<in> set (builds d) \<Longrightarrow> b_seq b < next_seq d"
  by (auto simp: next_seq_def intro!: Max_ge le_imp_less_Suc zle_add1_eq_le[THEN iffD2])

lemma wf_append_build:
  assumes wf: "wf_db s d" and new: "find_build d (b_repo b) (b_commit b) = None"
    and seq: "b_seq b = next_seq d" and ok: "row_ok s (set (artifact_refs d)) b"
    and free: "\<And>k. \<not> own_lease s k b"
  shows "wf_db s (d\<lparr>builds := builds d @ [b]\<rparr>)"
proof -
  have "row_key b \<notin> row_key ` set (builds d)"
    using new by (auto simp: find_build_None row_key_def)
  moreover have "b_seq b \<notin> b_seq ` set (builds d)"
    using seq next_seq_greater by fastforce
  moreover have "one_lease_each s (builds d @ [b])"
    using wf free unfolding wf_db_def one_lease_each_def by simp blast
  ultimately show ?thesis
    using wf ok unfolding wf_db_def tables_ok_def by simp
qed

lemma wf_admit:
  assumes wf: "wf_db s d" and key: "key_valid (storage_key repo)"
  shows "wf_db s (snd (admit d now repo commit ref_name))"
proof -
  let ?key = "storage_key repo"
  let ?row = "\<lparr>b_repo = ?key, b_commit = commit, b_seq = next_seq d, b_ref_name = ref_name,
      b_parent = None, b_created_at = now, b_head = new_cols, b_files = new_cols,
      b_full = new_cols\<rparr>"
  have m: "1 \<le> max_attempts s" using wf by (simp add: wf_db_def)
  have ok: "row_ok s (set (artifact_refs d)) ?row"
    using key m by (simp add: row_ok_def full_needs_head_def cols_ok_def new_cols_def)
  have free: "\<not> own_lease s k ?row" for k
    by (cases k) (simp_all add: own_lease_def new_cols_def)
  have ins: "wf_db s (d\<lparr>builds := builds d @ [?row]\<rparr>)" if "find_build d ?key commit = None"
    using wf_append_build[OF wf _ _ ok free] that by simp
  have upd: "wf_db s (d\<lparr>builds := sql_update (\<lambda>b. at_row ?key commit b \<and> b_ref_name b = None)
      (\<lambda>b. b\<lparr>b_ref_name := ref_name\<rparr>) (builds d)\<rparr>)"
    by (rule wf_update_builds[OF wf]) (auto intro: row_ok_ref_name wf_row[OF wf])
  show ?thesis
  proof (cases "find_build d ?key commit")
    case None
    with wf ins[OF None] show ?thesis by (auto simp: admit_def Let_def split: option.split)
  next
    case (Some b)
    with wf upd show ?thesis by (auto simp: admit_def Let_def split: option.split)
  qed
qed

lemma retry_cols_props:
  "k_lease_owner (retry_cols c) = k_lease_owner c" "k_lease_until (retry_cols c) = k_lease_until c"
  "k_state (retry_cols c) = Ready \<longleftrightarrow> k_state c = Ready" "k_output (retry_cols c) = k_output c"
  "k_attempts (retry_cols c) = (if k_state c = Failed then 0 else k_attempts c)"
  by (auto simp: retry_cols_def)

lemma row_ok_retry:
  assumes "row_ok s R b" "1 \<le> max_attempts s"
  shows "row_ok s R (set_cols k retry_cols b)"
proof (rule row_ok_set_cols[OF assms(1)])
  show "cols_ok s R (set_cols k retry_cols b) k"
    using row_ok_cols[OF assms(1), of k] assms(2) by (simp add: cols_ok_def Let_def retry_cols_props)
  show "full_needs_head (set_cols k retry_cols b)" if "k = Full"
    using assms(1) that by (simp add: full_needs_head_def row_ok_def retry_cols_props)
qed (simp add: retry_cols_props)

text \<open>Changes that only keep or clear leases add none.\<close>

definition keeps_leases :: "(kind_cols \<Rightarrow> kind_cols) \<Rightarrow> bool" where
  "keeps_leases f \<longleftrightarrow> (\<forall>c. k_lease_owner (f c) = k_lease_owner c \<or> k_lease_owner (f c) = None)"

lemma own_lease_set_cols:
  assumes "keeps_leases f" "own_lease s k' (set_cols k f b)"
  shows "own_lease s k' b"
proof (cases "k' = k")
  case True
  have "k_lease_owner (f (cols b k)) = k_lease_owner (cols b k) \<or> k_lease_owner (f (cols b k)) = None"
    using assms(1) by (simp add: keeps_leases_def)
  with True assms(2) show ?thesis by (auto simp: own_lease_def)
next
  case False
  with assms(2) show ?thesis by (simp add: own_lease_def)
qed

lemma keeps_leases_retry: "keeps_leases retry_cols"
  by (simp add: keeps_leases_def retry_cols_props)

lemma own_lease_cascade [simp]: "own_lease s k (head_failure_cascade c e b) = own_lease s k b"
  by (simp add: own_lease_def)

lemma wf_retry:
  assumes wf: "wf_db s d"
  shows "wf_db s (snd (retry d repo commit))"
proof -
  have m: "1 \<le> max_attempts s" using wf by (simp add: wf_db_def)
  show ?thesis
    unfolding retry_def Let_def snd_conv
    by (rule wf_update_builds[OF wf])
      (auto intro!: row_ok_retry m intro: wf_row[OF wf]
        dest!: own_lease_set_cols[OF keeps_leases_retry])
qed

lemma lease_held_ok:
  "cols_ok s R b k \<Longrightarrow> lease_held s now (cols b k) = Some
     (\<exists>w u. k_lease_owner (cols b k) = Some w \<and> k_lease_until (cols b k) = Some u
        \<and> (now < u \<or> own_prefix s w))"
  by (auto simp: cols_ok_def Let_def lease_held_def sql_lift2_def split: option.splits)

lemma own_lease_held:
  "cols_ok s R b k \<Longrightarrow> own_lease s k b \<Longrightarrow> lease_held s now (cols b k) = Some True"
  by (subst lease_held_ok, assumption)
    (auto simp: own_lease_def cols_ok_def Let_def split: option.splits)

lemma row_ok_cascade:
  assumes "row_ok s R b" "k_state (b_full b) = Pending \<Longrightarrow> c \<Longrightarrow> k_state (b_head b) \<noteq> Ready"
  shows "row_ok s R (head_failure_cascade c e b)"
proof (rule row_okI)
  show "key_valid (b_repo (head_failure_cascade c e b))"
    using assms(1) by (simp add: row_ok_def)
  show "full_needs_head (head_failure_cascade c e b)"
    using assms(1) by (auto simp: row_ok_def full_needs_head_def head_failure_cascade_def)
  show "cols_ok s R (head_failure_cascade c e b) k" for k
    using row_ok_cols[OF assms(1), of k] by (auto simp: cols_ok_def Let_def)
qed

lemma row_ok_give_up:
  assumes "row_ok s R b" "k_state (cols b (pool_kind pool)) = Pending"
  shows "row_ok s R (give_up_row s pool b)"
proof -
  let ?k = "pool_kind pool"
  have 1: "row_ok s R (set_cols ?k (give_up_cols s) b)"
    using assms(2) row_ok_cols[OF assms(1), of ?k] row_ok_full[OF assms(1)]
    by (intro row_ok_set_cols[OF assms(1)])
      (auto simp: cols_ok_def Let_def give_up_cols_def full_needs_head_def)
  show ?thesis
    unfolding give_up_row_def Let_def using 1
    by (auto intro!: row_ok_cascade simp: give_up_cols_def)
qed

lemma keeps_leases_give_up: "keeps_leases (give_up_cols s)"
  by (simp add: keeps_leases_def give_up_cols_def)

lemma give_up_row_key [simp]:
  "row_key (give_up_row s pool b) = row_key b" "b_seq (give_up_row s pool b) = b_seq b"
  "b_repo (give_up_row s pool b) = b_repo b"
  by (simp_all add: give_up_row_def Let_def)

lemma own_lease_give_up: "own_lease s k (give_up_row s' pool b) \<Longrightarrow> own_lease s k b"
  by (auto simp: give_up_row_def Let_def split: if_splits
      dest: own_lease_set_cols[OF keeps_leases_give_up])

lemma wf_give_up: "wf_db s d \<Longrightarrow> wf_db s (give_up s now pool d)"
  unfolding give_up_def
  by (rule wf_update_builds)
    (auto intro!: row_ok_give_up intro: wf_row simp: exhausted_def dest: own_lease_give_up)

lemma candidate_props:
  assumes "candidate s now pool d = Some b"
  shows "b \<in> set (builds d)" "claimable s now pool d b"
    "b' \<in> set (builds d) \<Longrightarrow> claimable s now pool d b' \<Longrightarrow> claim_order pool d b \<le> claim_order pool d b'"
  using first_row_order_by[OF assms[unfolded candidate_def]] by auto

lemma candidate_None:
  "candidate s now pool d = None \<longleftrightarrow> (\<forall>b \<in> set (builds d). \<not> claimable s now pool d b)"
  by (simp add: candidate_def filter_empty_conv)

lemma row_ok_lease:
  assumes "row_ok s R b" "k_attempts (cols b k) < max_attempts s"
    and "k = Full \<Longrightarrow> k_state (b_head b) = Ready"
  shows "row_ok s R (set_cols k (lease_cols w u) b)"
  using row_ok_cols[OF assms(1), of k] assms(2,3)
  by (intro row_ok_set_cols[OF assms(1)])
    (auto simp: cols_ok_def Let_def lease_cols_def full_needs_head_def)

lemma wf_record_turn:
  assumes "wf_db s d"
  shows "wf_db s (record_turn k repo d)"
proof -
  have t: "1 \<le> t" if "t \<in> snd ` set (owner_turns d)" for t
    using assms that unfolding wf_db_def tables_ok_def by blast
  have nt: "1 \<le> next_turn d"
  proof (cases "owner_turns d = []")
    case False
    then have "1 \<le> Max (snd ` set (owner_turns d))"
      by (intro t Max_in) auto
    with False show ?thesis by (simp add: next_turn_def)
  qed (simp add: next_turn_def)
  have vals: "snd ` set (upsert q v (\<lambda>_. v) rows) \<subseteq> insert v (snd ` set rows)"
    for q v and rows :: "((string \<times> string) \<times> int) list"
    by (induction q v "\<lambda>_::int. v" rows rule: upsert.induct) auto
  have vals1: "\<forall>t \<in> snd ` set (upsert (column_prefix k, repo_owner d repo) (next_turn d)
      (\<lambda>_. next_turn d) (owner_turns d)). 1 \<le> t"
  proof
    fix t assume "t \<in> snd ` set (upsert (column_prefix k, repo_owner d repo) (next_turn d)
      (\<lambda>_. next_turn d) (owner_turns d))"
    then have "t \<in> insert (next_turn d) (snd ` set (owner_turns d))" by (rule subsetD[OF vals])
    then show "1 \<le> t" using t nt by (elim insertE) simp_all
  qed
  have tab: "tables_ok (d\<lparr>owner_turns := x\<rparr>)"
    if "tables_ok d" "key_ok x" "\<forall>t \<in> snd ` set x. 1 \<le> t" for x
    using that by (simp add: tables_ok_def)
  have tabd: "tables_ok d" and keyd: "key_ok (owner_turns d)"
    using assms by (simp_all add: wf_db_def tables_ok_def)
  have "tables_ok (record_turn k repo d)"
    unfolding record_turn_def Let_def by (rule tab[OF tabd key_ok_upsert[OF keyd] vals1])
  then show ?thesis
    by (rule wf_tables[OF assms, rotated 2]) (simp_all add: record_turn_def Let_def)
qed

lemma sql_true_not_held: "cols_ok s R b k \<Longrightarrow>
    sql_true (sql_not (lease_held s now (cols b k))) \<longleftrightarrow> \<not> sql_true (lease_held s now (cols b k))"
  by (simp add: lease_held_ok)

lemma wf_unique:
  assumes "wf_db s d" "x \<in> set (builds d)" "b \<in> set (builds d)" "at_row (b_repo b) (b_commit b) x"
  shows "x = b"
proof -
  have "row_key x = row_key b" using assms(4) by (simp add: at_row_def row_key_def)
  then show ?thesis
    using assms(1-3) unfolding wf_db_def by (metis distinct_map inj_on_def)
qed

text \<open>Leasing the candidate: its repository held no lease of this kind.\<close>

lemma wf_lease_candidate:
  assumes wf: "wf_db s d" and cand: "candidate s now pool d = Some b"
  shows "wf_db s (d\<lparr>builds := sql_update (at_row (b_repo b) (b_commit b))
      (set_cols (pool_kind pool) (lease_cols w u)) (builds d)\<rparr>)"
proof -
  let ?k = "pool_kind pool" and ?p = "at_row (b_repo b) (b_commit b)"
  let ?f = "set_cols ?k (lease_cols w u)" and ?R = "set (artifact_refs d)"
  note b = candidate_props[OF cand]
  have same: "x = b" if "x \<in> set (builds d)" "?p x" for x
    using wf_unique[OF wf that(1) b(1) that(2)] .
  have okf: "row_ok s ?R (?f b)"
    using b(2) by (intro row_ok_lease wf_row[OF wf b(1)])
      (auto simp: claimable_def Let_def pool_needs_def split: Pool.splits)
  have free: "\<not> own_lease s ?k x" if "x \<in> set (builds d)" "b_repo x = b_repo b" for x
    using b(2) that own_lease_held[OF row_ok_cols[OF wf_row[OF wf that(1)]]]
    by (auto simp: claimable_def Let_def repo_busy_def list_ex_iff)
  let ?g = "\<lambda>r. if ?p r then ?f r else r"
  have g: "row_key (?g x) = row_key x" "b_repo (?g x) = b_repo x" for x by simp_all
  have own: "x = b \<or> own_lease s k x" if "x \<in> set (builds d)" "own_lease s k (?g x)" for x k
    using that same by (auto split: if_splits)
  have own_b: "k = ?k \<or> own_lease s k b" if "own_lease s k (?f b)" for k
    using that by (cases "k = ?k") (auto simp: own_lease_def)
  have "one_lease_each s (sql_update ?p ?f (builds d))"
    unfolding one_lease_each_def set_sql_update
  proof (intro allI ballI impI)
    fix k x' y'
    assume "x' \<in> ?g ` set (builds d)" "y' \<in> ?g ` set (builds d)"
    then obtain x y where xy: "x \<in> set (builds d)" "x' = ?g x" "y \<in> set (builds d)" "y' = ?g y"
      by blast
    assume "b_repo x' = b_repo y' \<and> own_lease s k x' \<and> own_lease s k y'"
    then have r: "b_repo x = b_repo y" and o: "own_lease s k (?g x)" "own_lease s k (?g y)"
      using xy g by auto
    have pb: "?p b" by (simp add: at_row_def)
    have "row_key x = row_key y"
    proof (cases "own_lease s k x \<and> own_lease s k y")
      case True
      with wf xy r show ?thesis unfolding wf_db_def one_lease_each_def by blast
    next
      case False
      with own o xy have eq: "x = b \<or> y = b" by blast
      have "k = ?k"
      proof (rule ccontr)
        assume "k \<noteq> ?k"
        then have "own_lease s k (?g z) = own_lease s k z" for z
          by (simp add: own_lease_def)
        with False o show False by blast
      qed
      then have "x = b \<and> y = b" using own[OF xy(1) o(1)] own[OF xy(3) o(2)] free r eq xy by metis
      then show ?thesis by simp
    qed
    then show "row_key x' = row_key y'" using xy g by simp
  qed
  moreover have "\<forall>x \<in> set (sql_update ?p ?f (builds d)). row_ok s ?R x"
    using same okf wf_row[OF wf] by auto
  moreover have "map row_key (sql_update ?p ?f (builds d)) = map row_key (builds d)"
    "map b_seq (sql_update ?p ?f (builds d)) = map b_seq (builds d)"
    by (rule map_sql_update; simp)+
  ultimately show ?thesis
    using wf unfolding wf_db_def tables_ok_def by simp
qed

lemma wf_claim: "wf_db s d \<Longrightarrow> wf_db s (snd (claim s d now owner pool lease))"
  by (auto simp: claim_def claim_tx_def Let_def wf_give_up wf_record_turn wf_lease_candidate
      split: option.split sum.split)

section \<open>Publishing, failing and the other writes\<close>

lemma claim_row_lease: "claim_row c b \<Longrightarrow> k_lease_owner (cols b (claim_kind c)) \<noteq> None"
  by (simp add: claim_row_def)

lemma wf_renew:
  assumes wf: "wf_db s d"
  shows "wf_db s (snd (renew d now c lease))"
proof -
  let ?f = "\<lambda>k. k\<lparr>k_lease_until := Some (i64_saturating_add now (duration_secs lease))\<rparr>"
  have ok: "row_ok s R (set_cols k ?f b)"
    if "row_ok s R b" "k_lease_owner (cols b k) \<noteq> None" for R k and b :: build
    using that(2) row_ok_cols[OF that(1), of k] row_ok_full[OF that(1)]
    by (intro row_ok_set_cols[OF that(1)])
      (auto simp: cols_ok_def Let_def full_needs_head_def)
  have "keeps_leases ?f" by (simp add: keeps_leases_def)
  then show ?thesis
    unfolding renew_def Let_def snd_conv
    by (intro wf_update_builds[OF wf] ok wf_row[OF wf] claim_row_lease)
      (auto dest: own_lease_set_cols)
qed

lemma row_ok_clear:
  assumes "row_ok s R b"
  shows "row_ok s R (set_cols k clear_lease b)"
  using row_ok_cols[OF assms, of k] row_ok_full[OF assms]
  by (intro row_ok_set_cols[OF assms])
    (auto simp: cols_ok_def Let_def full_needs_head_def clear_lease_def)

lemma keeps_leases_clear: "keeps_leases clear_lease"
  by (simp add: keeps_leases_def clear_lease_def)

lemma wf_release: "wf_db s d \<Longrightarrow> wf_db s (release d c)"
  unfolding release_def
  by (rule wf_update_builds)
    (auto intro!: row_ok_clear intro: wf_row dest: own_lease_set_cols[OF keeps_leases_clear])

lemma wf_reset_leases: "wf_db s d \<Longrightarrow> wf_db s (snd (reset_leases d))"
  unfolding reset_leases_def snd_conv
  by (rule wf_update_builds)
    (auto intro!: row_ok_clear intro: wf_row dest!: own_lease_set_cols[OF keeps_leases_clear])

lemma row_ok_fail:
  assumes "row_ok s R b" "k_state (cols b k) = Pending"
  shows "row_ok s R (fail_row s k retry_at err b)"
proof -
  have 1: "row_ok s R (set_cols k (fail_cols s retry_at err) b)"
    using assms(2) row_ok_cols[OF assms(1), of k] row_ok_full[OF assms(1)]
    by (intro row_ok_set_cols[OF assms(1)])
      (auto simp: cols_ok_def Let_def fail_cols_def full_needs_head_def)
  show ?thesis
    unfolding fail_row_def Let_def using 1 assms(2)
    by (auto intro!: row_ok_cascade simp: fail_cols_def)
qed

lemma keeps_leases_fail: "keeps_leases (fail_cols s retry_at err)"
  by (simp add: keeps_leases_def fail_cols_def)

lemma fail_row_fields [simp]:
  "row_key (fail_row s k retry_at err b) = row_key b" "b_seq (fail_row s k retry_at err b) = b_seq b"
  "b_repo (fail_row s k retry_at err b) = b_repo b" "b_commit (fail_row s k retry_at err b) = b_commit b"
  by (simp_all add: fail_row_def Let_def)

lemma own_lease_fail: "own_lease s k' (fail_row s' k retry_at err b) \<Longrightarrow> own_lease s k' b"
  by (auto simp: fail_row_def Let_def split: if_splits
      dest: own_lease_set_cols[OF keeps_leases_fail])

lemma wf_fail: "wf_db s d \<Longrightarrow> wf_db s (fail s d now c err retry_after)"
  unfolding fail_def Let_def
  by (rule wf_update_builds) (auto intro!: row_ok_fail intro: wf_row dest: own_lease_fail)

lemma set_fold_record_ref: "set (fold (record_ref repo) hs refs) = set refs \<union> Pair repo ` set hs"
  by (induction hs arbitrary: refs) (auto simp: record_ref_def)

lemma distinct_fold_record_ref: "distinct refs \<Longrightarrow> distinct (fold (record_ref repo) hs refs)"
  by (induction hs arbitrary: refs) (auto simp: record_ref_def)

lemma wf_record_refs:
  assumes wf: "wf_db s d"
  shows "wf_db s (record_refs repo hs d)"
proof -
  let ?R = "set (artifact_refs d)" and ?R' = "set (fold (record_ref repo) hs (artifact_refs d))"
  have sub: "?R \<subseteq> ?R'" by (simp add: set_fold_record_ref)
  have "\<forall>b \<in> set (builds d). row_ok s ?R' b"
    using wf_row[OF wf] row_ok_mono[OF _ sub] by blast
  moreover have "refs_ok ?R' (repo_refs d)"
    using wf names_recorded_mono[OF _ sub] unfolding wf_db_def tables_ok_def refs_ok_def by blast
  ultimately show ?thesis
    using wf unfolding wf_db_def tables_ok_def record_refs_def
    by (simp add: distinct_fold_record_ref)
qed

lemma publish_row_fields [simp]:
  "row_key (publish_row out b) = row_key b" "b_seq (publish_row out b) = b_seq b"
  "b_repo (publish_row out b) = b_repo b" "b_commit (publish_row out b) = b_commit b"
  "cols (publish_row out b) k = (if k = output_kind out then publish_cols out (cols b k) else cols b k)"
  by (simp_all add: publish_row_def)

lemma publish_row_kind_fields [simp]:
  "b_head (publish_row out b) = (if output_kind out = Head then publish_cols out (b_head b) else b_head b)"
  "b_files (publish_row out b) = (if output_kind out = Files then publish_cols out (b_files b) else b_files b)"
  "b_full (publish_row out b) = (if output_kind out = Full then publish_cols out (b_full b) else b_full b)"
  by (simp_all add: publish_row_def)

lemma row_ok_publish:
  assumes "row_ok s R b" "exact_output_artifacts_ready (b_commit b) (output_kind out) (output_clonepack out)"
    and "names_recorded R (b_repo b) (output_artifacts out)"
    and "k_lease_owner (cols b (output_kind out)) \<noteq> None"
  shows "row_ok s R (publish_row out b)"
proof (rule row_okI)
  show "key_valid (b_repo (publish_row out b))"
    using assms(1) by (simp add: row_ok_def)
  show "full_needs_head (publish_row out b)"
    using assms(1,4) by (cases "output_kind out")
      (auto simp: row_ok_def full_needs_head_def publish_cols_def)
  show "cols_ok s R (publish_row out b) k" for k
    using row_ok_cols[OF assms(1), of k] assms(2,3)
    by (auto simp: cols_ok_def Let_def publish_cols_def)
qed

lemma own_lease_publish [simp]: "own_lease s k (publish_row out b) = own_lease s k b"
  by (simp add: own_lease_def publish_cols_def)

lemma record_refs_builds [simp]:
  "builds (record_refs repo hs d) = builds d" "set (artifact_refs (record_refs repo hs d)) =
     set (artifact_refs d) \<union> Pair repo ` set hs"
  by (simp_all add: record_refs_def set_fold_record_ref)

lemma record_refs_commute:
  "record_refs repo hs (d\<lparr>builds := rows\<rparr>) = (record_refs repo hs d)\<lparr>builds := rows\<rparr>"
  by (simp add: record_refs_def)

lemma wf_publish:
  assumes wf: "wf_db s d"
  shows "wf_db s (snd (publish d c out))"
proof -
  let ?kind = "output_kind out" and ?repo = "storage_key (cl_repo c)"
  let ?t = "\<lambda>b. claim_row c b \<and> k_state (cols b ?kind) = Pending"
  let ?d = "record_refs ?repo (output_artifacts out) d"
  have wf': "wf_db s ?d" by (rule wf_record_refs[OF wf])
  have "wf_db s (?d\<lparr>builds := sql_update ?t (publish_row out) (builds ?d)\<rparr>)"
    if kind: "?kind = claim_kind c"
      and ready: "exact_output_artifacts_ready (br_commit (cl_build c)) ?kind (output_clonepack out)"
  proof (rule wf_update_builds[OF wf'])
    fix b assume b: "b \<in> set (builds ?d)" "?t b"
    then have "b_repo b = ?repo" "b_commit b = br_commit (cl_build c)"
      by (auto simp: claim_row_def at_row_def)
    then show "row_ok s (set (artifact_refs ?d)) (publish_row out b)"
      using b ready kind
      by (intro row_ok_publish wf_row[OF wf'])
        (auto simp: names_recorded_def dest: claim_row_lease)
  qed auto
  then show ?thesis
    using wf by (auto simp: publish_def Let_def record_refs_commute split: option.split)
qed

lemma key_ok_sql_update:
  "(\<And>r. p r \<Longrightarrow> fst (f r) = fst r) \<Longrightarrow> key_ok rows \<Longrightarrow> key_ok (sql_update p f rows)"
  by (simp add: key_ok_def map_sql_update)

lemma wf_add_repo:
  assumes wf: "wf_db s d"
  shows "wf_db s (snd (add_repo d now repo owner))"
proof -
  have upd: "wf_db s (d\<lparr>added_repos := x\<rparr>)" if "key_ok x" for x
    using wf that by (intro wf_tables[OF wf]) (auto simp: wf_db_def tables_ok_def)
  have "key_ok (added_repos d)" using wf by (simp add: wf_db_def tables_ok_def)
  then show ?thesis
    by (auto simp: add_repo_def Let_def split: option.split
        intro!: upd key_ok_sql_update key_ok_upsert)
qed

lemma wf_remove_repo: "wf_db s d \<Longrightarrow> wf_db s (snd (remove_repo d repo))"
  by (rule wf_tables) (auto simp: wf_db_def tables_ok_def remove_repo_def key_ok_delete_key)

lemma key_ok_queue_all: "key_ok rows \<Longrightarrow> key_ok (queue_all hs due rows)"
  unfolding queue_all_def by (rule alist.keyed_fold_put)

lemma wf_queue_deletions: "wf_db s d \<Longrightarrow> wf_db s (queue_deletions d hs due)"
  by (rule wf_tables) (auto simp: wf_db_def tables_ok_def queue_deletions_def key_ok_queue_all)

lemma wf_dequeue_deletions: "wf_db s d \<Longrightarrow> wf_db s (dequeue_deletions d hs now)"
  by (rule wf_tables)
    (auto simp: wf_db_def tables_ok_def dequeue_deletions_def Let_def key_ok_sql_delete)

lemma key_ok_fold_upsert:
  "key_ok rows \<Longrightarrow> key_ok (fold (\<lambda>(k, v). upsert k v (f k v)) kvs rows)"
  by (induction kvs arbitrary: rows) (auto simp: key_ok_upsert)

lemma wf_record_sizes: "wf_db s d \<Longrightarrow> wf_db s (record_sizes d sizes)"
  by (rule wf_tables) (auto simp: wf_db_def tables_ok_def record_sizes_def
      intro: key_ok_fold_upsert[where f = "\<lambda>_ _. id"])

lemma wf_add_build_time: "wf_db s d \<Longrightarrow> wf_db s (add_build_time d repo k elapsed)"
  by (rule wf_tables)
    (auto simp: wf_db_def tables_ok_def add_build_time_def Let_def key_ok_upsert)

lemma wf_put_refs:
  assumes wf: "wf_db s d" and "0 \<le> rf_tags_len row" "0 \<le> rf_tags_count row"
    and "names_recorded (set (artifact_refs d)) key (refs_artifacts (row_refs row))"
  shows "wf_db s (d\<lparr>repo_refs := upsert key row (\<lambda>_. row) (repo_refs d)\<rparr>)"
proof -
  have sub: "set (upsert key row (\<lambda>_. row) rows) \<subseteq> insert (key, row) (set rows)" for rows
    by (induction key row "\<lambda>_::refs_row. row" rows rule: upsert.induct) auto
  have tab: "tables_ok (d\<lparr>repo_refs := x\<rparr>)"
    if "key_ok x" "set x \<subseteq> insert (key, row) (set (repo_refs d))" for x
  proof -
    have "refs_ok (set (artifact_refs d)) x"
      using wf assms(2-) that(2) unfolding wf_db_def tables_ok_def refs_ok_def by blast
    with wf that(1) show ?thesis by (simp add: wf_db_def tables_ok_def)
  qed
  have "key_ok (repo_refs d)" using wf by (simp add: wf_db_def tables_ok_def)
  then show ?thesis
    by (intro wf_tables[OF wf] tab key_ok_upsert sub) simp_all
qed

lemma wf_set_refs:
  assumes wf: "wf_db s d"
  shows "wf_db s (snd (set_refs d repo refs))"
proof -
  let ?key = "storage_key repo"
  let ?d = "record_refs ?key (refs_artifacts refs) d"
  define row where "row len count = \<lparr>rf_tags_artifact = rr_tags_artifact refs, rf_tags_len = len,
      rf_tags_count = count, rf_tags_hash = rr_tags_hash refs,
      rf_branches = rr_branches refs, rf_ready = rr_ready refs\<rparr>" for len count
  have arts: "refs_artifacts (row_refs (row len count)) = refs_artifacts refs" for len count
    by (simp add: refs_artifacts_def row_refs_def row_def)
  have put: "wf_db s (?d\<lparr>repo_refs := upsert ?key (row len count) (\<lambda>_. row len count) (repo_refs ?d)\<rparr>)"
    if "0 \<le> len" "0 \<le> count" for len count
    using that by (intro wf_put_refs wf_record_refs[OF wf])
      (auto simp: names_recorded_def arts, auto simp: row_def)
  have comm: "record_refs k hs (d\<lparr>repo_refs := x\<rparr>) = (record_refs k hs d)\<lparr>repo_refs := x\<rparr>"
    "repo_refs (record_refs k hs d) = repo_refs d" for k hs x
    by (simp_all add: record_refs_def)
  show ?thesis
    using wf put by (auto simp: set_refs_def Let_def refs_number_def comm simp flip: row_def
        split: sum.split)
qed

lemma row_ok_after_purge:
  assumes "row_ok s R b" "b_repo b \<noteq> key"
  shows "row_ok s {r \<in> R. fst r \<noteq> key} b"
proof -
  have "cols_ok s {r \<in> R. fst r \<noteq> key} b k" for k
    using row_ok_cols[OF assms(1), of k] assms(2) by (auto simp: cols_ok_simps)
  then show ?thesis using assms(1) by (simp add: row_ok_def)
qed

lemma wf_purge_repo:
  assumes wf: "wf_db s d"
  shows "wf_db s (snd (purge_repo d repo due_at))"
proof -
  let ?key = "storage_key repo" and ?d = "snd (purge_repo d repo due_at)"
  have b: "builds ?d = sql_delete (\<lambda>b. b_repo b = ?key) (builds d)"
    "artifact_refs ?d = sql_delete (\<lambda>r. fst r = ?key) (artifact_refs d)"
    by (simp_all add: purge_repo_def Let_def)
  have "distinct (map row_key (builds ?d))" "distinct (map b_seq (builds ?d))"
    using wf by (simp_all add: b distinct_map_sql_delete wf_db_def)
  moreover have "\<forall>x \<in> set (builds ?d). row_ok s (set (artifact_refs ?d)) x"
    using wf_row[OF wf] row_ok_after_purge by (auto simp: b)
  moreover have "one_lease_each s (builds ?d)"
    using wf unfolding wf_db_def one_lease_each_def b set_sql_delete by blast
  moreover have "refs_ok (set (artifact_refs ?d)) (repo_refs ?d)"
    using wf unfolding wf_db_def tables_ok_def refs_ok_def
    by (auto simp: purge_repo_def Let_def delete_key_def names_recorded_def)
  then have "tables_ok ?d"
    using wf unfolding wf_db_def tables_ok_def
    by (simp add: purge_repo_def Let_def key_ok_delete_key key_ok_queue_all key_ok_sql_delete)
      (simp add: sql_delete_def)
  ultimately show ?thesis using wf by (simp add: wf_db_def)
qed

section \<open>Operations as steps\<close>

text \<open>
  One operation of the store, with any arguments.  A repository is admitted only under a
  storage key that decodes, which every non-empty provider and path has.
\<close>

inductive control_step :: "store \<Rightarrow> db \<Rightarrow> db \<Rightarrow> bool" for s where
  step_admit: "rid_provider repo \<noteq> [] \<Longrightarrow> rid_path repo \<noteq> [] \<Longrightarrow>
     control_step s d (snd (admit d now repo commit ref_name))"
| step_retry: "control_step s d (snd (retry d repo commit))"
| step_claim: "control_step s d (snd (claim s d now owner pool lease))"
| step_renew: "control_step s d (snd (renew d now c lease))"
| step_publish: "control_step s d (snd (publish d c out))"
| step_fail: "control_step s d (fail s d now c err retry_after)"
| step_release: "control_step s d (release d c)"
| step_reset_leases: "control_step s d (snd (reset_leases d))"
| step_add_repo: "control_step s d (snd (add_repo d now repo owner'))"
| step_remove_repo: "control_step s d (snd (remove_repo d repo))"
| step_purge_repo: "control_step s d (snd (purge_repo d repo due_at))"
| step_set_refs: "control_step s d (snd (set_refs d repo refs))"
| step_queue: "control_step s d (queue_deletions d hashes due_at)"
| step_dequeue: "control_step s d (dequeue_deletions d hashes now)"
| step_record_sizes: "control_step s d (record_sizes d sizes)"
| step_add_build_time: "control_step s d (add_build_time d repo kind elapsed)"

lemmas wf_operations = wf_retry wf_claim wf_renew wf_publish wf_fail wf_release wf_reset_leases
  wf_add_repo wf_remove_repo wf_purge_repo wf_set_refs wf_queue_deletions wf_dequeue_deletions
  wf_record_sizes wf_add_build_time

lemma control_step_wf: "control_step s d d' \<Longrightarrow> wf_db s d \<Longrightarrow> wf_db s d'"
  by (induction rule: control_step.induct)
    (auto intro: wf_operations intro!: wf_admit simp: key_valid_def from_storage_key_storage_key)

text \<open>The databases a store opened with this attempt limit can reach.\<close>

definition opened :: "store \<Rightarrow> db \<Rightarrow> bool" where
  "opened s d \<longleftrightarrow> 1 \<le> max_attempts s \<and> d = empty_db"

interpretation control: invariant_system "opened s" "control_step s" "wf_db s" for s
  by unfold_locales (auto simp: opened_def wf_empty control_step_wf)

end
