(* ===== verification/Control_Props.thy ===== *)
theory Control_Props
  imports Control_Inv
begin

text \<open>
  What the control store promises.  The life of one output is the abstract relation
  \<open>output_life\<close>: pending work may become ready or failed, a failed output may be retried, and a
  ready output never changes.  Every operation of the store refines it on every row.  The rest
  are the contracts of the operations: fenced publication, the claim order, repository purges
  and the deletion queue.
\<close>

section \<open>Looking up rows\<close>

lemma find_build_in: "find_build d repo commit = Some b \<Longrightarrow>
    b \<in> set (builds d) \<and> b_repo b = repo \<and> b_commit b = commit"
  unfolding find_build_def by (drule first_row_in) (simp add: at_row_def)

lemma find_build_wf:
  assumes "wf_db s d" "b \<in> set (builds d)"
  shows "find_build d (b_repo b) (b_commit b) = Some b"
proof (cases "find_build d (b_repo b) (b_commit b)")
  case None
  with assms(2) show ?thesis by (auto simp: find_build_None row_key_def)
next
  case (Some x)
  with wf_unique[OF assms(1) _ assms(2)] find_build_in[OF Some] show ?thesis
    by (auto simp: at_row_def)
qed

lemma find_build_iff:
  "wf_db s d \<Longrightarrow> find_build d repo commit = Some b \<longleftrightarrow>
     b \<in> set (builds d) \<and> b_repo b = repo \<and> b_commit b = commit"
  using find_build_in find_build_wf by blast

lemma singleton_list: "distinct xs \<Longrightarrow> set xs = {x} \<Longrightarrow> xs = [x]"
  by (cases xs; cases "tl xs") auto

lemma filter_claim_row:
  assumes "wf_db s d" "b \<in> set (builds d)" "claim_row c b"
    and "\<And>x. p x \<Longrightarrow> claim_row c x" "p b"
  shows "filter p (builds d) = [b]"
proof (rule singleton_list)
  have "x = b" if "x \<in> set (builds d)" "p x" for x
  proof (rule wf_unique[OF assms(1) that(1) assms(2)])
    show "at_row (b_repo b) (b_commit b) x"
      using assms(3) assms(4)[OF that(2)] by (simp add: claim_row_def at_row_def)
  qed
  then show "set (filter p (builds d)) = {b}" using assms(2,5) unfolding set_filter by blast
  show "distinct (filter p (builds d))"
    using assms(1) unfolding wf_db_def distinct_map by simp
qed

lemma decode_out_total:
  assumes "cols_ok s R b k" "\<And>out. stored_kind out = k \<Longrightarrow> from_json out \<noteq> None"
  shows "\<exists>r. decode_out k from_json b = Inr r"
proof (cases "k_state (cols b k)")
  case Ready
  with assms(1) obtain out where "k_output (cols b k) = Some out" "stored_kind out = k"
    by (auto simp: cols_ok_def Let_def)
  with Ready assms(2)[of out] show ?thesis by (auto simp: decode_out_def Let_def ok_or_def)
qed (simp_all add: decode_out_def Let_def)

lemma decode_build_total:
  assumes "row_ok s R b"
  obtains r where "decode_build b = Inr r" "br_commit r = b_commit b" "br_seq r = b_seq b"
    "\<And>k. build_row_lease r k = decode_lease k b"
proof -
  note total = decode_out_total[OF row_ok_cols[OF assms]]
  have "\<exists>r. decode_out Head head_json b = Inr r"
    by (rule total) (metis head_json.simps(1) option.distinct(1) stored_kind.simps
        ExactResultKind.distinct stored_output.exhaust)
  moreover have "\<exists>r. decode_out Files files_json b = Inr r"
    by (rule total) (metis files_json.simps(1) option.distinct(1) stored_kind.simps
        ExactResultKind.distinct stored_output.exhaust)
  moreover have "\<exists>r. decode_out Full full_json b = Inr r"
    by (rule total) (metis full_json.simps(1) option.distinct(1) stored_kind.simps
        ExactResultKind.distinct stored_output.exhaust)
  moreover have "build_row_lease r k = decode_lease k b" if "br_head_lease r = decode_lease Head b"
    "br_files_lease r = decode_lease Files b" "br_full_lease r = decode_lease Full b" for r k
    using that by (cases k) simp_all
  ultimately show ?thesis using that by (auto simp: decode_build_def)
qed

section \<open>The life of an output\<close>

text \<open>The abstract state of one output: pending, ready with a result, or failed.\<close>

datatype life = LPending | LReady stored_output | LFailed

definition life_of :: "kind_cols \<Rightarrow> life" where
  "life_of c = (case k_state c of Pending \<Rightarrow> LPending | Failed \<Rightarrow> LFailed
     | Ready \<Rightarrow> (case k_output c of Some out \<Rightarrow> LReady out | None \<Rightarrow> LFailed))"

inductive output_life :: "life \<Rightarrow> life \<Rightarrow> bool" where
  life_same: "output_life l l"
| life_published: "output_life LPending (LReady out)"
| life_failed: "output_life LPending LFailed"
| life_retried: "output_life LFailed LPending"

inductive_simps output_life_ready: "output_life (LReady out) l"

lemma life_of_ready: "life_of c = LReady out \<longleftrightarrow> k_state c = Ready \<and> k_output c = Some out"
  by (auto simp: life_of_def split: out_state.splits option.splits)

definition row_life :: "build \<Rightarrow> build \<Rightarrow> bool" where
  "row_life b b' \<longleftrightarrow> row_key b' = row_key b \<and> b_seq b' = b_seq b
     \<and> (\<forall>k. output_life (life_of (cols b k)) (life_of (cols b' k)))"

lemma row_life_refl [simp]: "row_life b b"
  by (simp add: row_life_def life_same)

definition rows_live :: "db \<Rightarrow> db \<Rightarrow> bool" where
  "rows_live d d' \<longleftrightarrow> (\<forall>b \<in> set (builds d). \<exists>b' \<in> set (builds d'). row_life b b')"

lemma rows_live_same: "builds d' = builds d \<Longrightarrow> rows_live d d'"
  unfolding rows_live_def by (metis row_life_refl)

lemma rows_live_append: "builds d' = builds d @ rows \<Longrightarrow> rows_live d d'"
  unfolding rows_live_def by (metis Un_iff row_life_refl set_append)

lemma rows_live_update:
  assumes "builds d' = sql_update p f (builds d)"
    and "\<And>b. b \<in> set (builds d) \<Longrightarrow> p b \<Longrightarrow> row_life b (f b)"
  shows "rows_live d d'"
  unfolding rows_live_def
proof
  fix b assume b: "b \<in> set (builds d)"
  then have "(if p b then f b else b) \<in> set (builds d')" by (simp add: assms(1))
  moreover have "row_life b (if p b then f b else b)" using assms(2) b by simp
  ultimately show "\<exists>b' \<in> set (builds d'). row_life b b'" by blast
qed

definition cols_live :: "kind_cols \<Rightarrow> kind_cols \<Rightarrow> bool" where
  "cols_live c c' \<longleftrightarrow> (k_state c' = k_state c \<and> k_output c' = k_output c) \<or> k_state c = Pending
     \<or> (k_state c = Failed \<and> k_state c' \<noteq> Ready)"

lemma life_step: "cols_live c c' \<Longrightarrow> output_life (life_of c) (life_of c')"
  by (cases "k_state c'")
    (auto simp: cols_live_def life_of_def intro: output_life.intros
      split: out_state.splits option.splits)

lemma row_lifeI:
  assumes "row_key b' = row_key b" "b_seq b' = b_seq b"
    and "cols_live (b_head b) (b_head b')" "cols_live (b_files b) (b_files b')"
      "cols_live (b_full b) (b_full b')"
  shows "row_life b b'"
proof -
  have "cols_live (cols b k) (cols b' k)" for k using assms by (cases k) simp_all
  with assms(1,2) show ?thesis by (simp add: row_life_def life_step)
qed

lemma cols_live_refl [simp]: "cols_live c c"
  by (simp add: cols_live_def)

lemma live_admit: "rows_live d (snd (admit d now repo commit ref_name))"
proof -
  have "rows_live d (d\<lparr>builds := sql_update (\<lambda>b. at_row (storage_key repo) commit b \<and> b_ref_name b = None)
      (\<lambda>b. b\<lparr>b_ref_name := ref_name\<rparr>) (builds d)\<rparr>)"
    by (rule rows_live_update, simp) (auto intro!: row_lifeI)
  then show ?thesis
    by (auto simp: admit_def Let_def split: option.split intro: rows_live_append rows_live_same)
qed

lemma live_retry: "rows_live d (snd (retry d repo commit))"
  unfolding retry_def Let_def snd_conv
  by (rule rows_live_update, simp) (auto intro!: row_lifeI simp: retry_cols_def cols_live_def)

lemma cascade_full:
  "b_full (head_failure_cascade c e b) = (if c \<and> k_state (b_full b) = Pending
     then (b_full b)\<lparr>k_state := Failed, k_error := Some e\<rparr> else b_full b)"
  by (simp add: head_failure_cascade_def)

lemma row_life_give_up:
  assumes "k_state (cols b (pool_kind pool)) = Pending"
  shows "row_life b (give_up_row s pool b)"
  using assms by (intro row_lifeI; cases pool)
    (simp_all add: give_up_row_def Let_def cascade_full cols_live_def)

lemma row_life_fail:
  assumes "k_state (cols b k) = Pending"
  shows "row_life b (fail_row s k retry_at err b)"
  using assms by (intro row_lifeI; cases k)
    (simp_all add: fail_row_def Let_def cascade_full cols_live_def)

lemma row_life_publish:
  assumes "k_state (cols b (output_kind out)) = Pending"
  shows "row_life b (publish_row out b)"
  using assms by (intro row_lifeI; cases "output_kind out") (simp_all add: cols_live_def)

lemma row_life_lease:
  assumes "\<And>c. k_state (f c) = k_state c" "\<And>c. k_output (f c) = k_output c"
  shows "row_life b (set_cols k f b)"
  using assms by (intro row_lifeI; cases k) (simp_all add: cols_live_def)

lemma live_claim_tx: "rows_live d (snd (claim_tx s d now owner pool lease))"
proof -
  let ?k = "pool_kind pool" and ?d = "give_up s now pool d"
  have gu: "rows_live d ?d"
    unfolding give_up_def
    by (rule rows_live_update, simp) (auto simp: exhausted_def intro: row_life_give_up)
  have upd: "rows_live d (?d\<lparr>builds := sql_update p (set_cols ?k (lease_cols w u)) (builds ?d)\<rparr>)" for p w u
    unfolding rows_live_def
  proof
    fix b assume "b \<in> set (builds d)"
    then obtain x where x: "x \<in> set (builds ?d)" "row_life b x"
      using gu by (auto simp: rows_live_def)
    let ?x = "if p x then set_cols ?k (lease_cols w u) x else x"
    have "life_of (lease_cols w u c) = life_of c" for c
      by (simp add: life_of_def lease_cols_def split: out_state.split)
    then have "row_life b ?x" using x(2) by (simp add: row_life_def)
    moreover have "?x \<in> set (builds (?d\<lparr>builds := sql_update p (set_cols ?k (lease_cols w u)) (builds ?d)\<rparr>))"
      using x(1) by simp
    ultimately show "\<exists>b' \<in> set (builds (?d\<lparr>builds := sql_update p (set_cols ?k (lease_cols w u)) (builds ?d)\<rparr>)).
        row_life b b'" by blast
  qed
  have rt: "rows_live d (record_turn k r d')" if "rows_live d d'" for k r d'
    using that by (simp add: rows_live_def record_turn_def Let_def)
  show ?thesis
    by (auto simp: claim_tx_def Let_def gu intro!: rt upd split: option.split sum.split)
qed

lemma live_claim: "rows_live d (snd (claim s d now owner pool lease))"
  by (simp add: claim_def live_claim_tx rows_live_same)

lemma live_renew: "rows_live d (snd (renew d now c lease))"
  unfolding renew_def Let_def snd_conv
  by (rule rows_live_update, simp) (auto intro!: row_life_lease)

lemma live_release: "rows_live d (release d c)"
  unfolding release_def
  by (rule rows_live_update, simp) (auto intro!: row_life_lease simp: clear_lease_def)

lemma live_reset_leases: "rows_live d (snd (reset_leases d))"
  unfolding reset_leases_def snd_conv
  by (rule rows_live_update, simp) (auto intro!: row_lifeI simp: cols_live_def clear_lease_def)

lemma live_fail: "rows_live d (fail s d now c err retry_after)"
  unfolding fail_def Let_def
  by (rule rows_live_update, simp) (auto intro: row_life_fail)

lemma live_publish: "rows_live d (snd (publish d c out))"
proof -
  have "rows_live d (record_refs r hs (d\<lparr>builds := sql_update (\<lambda>b. claim_row c b
      \<and> k_state (cols b (output_kind out)) = Pending) (publish_row out) (builds d)\<rparr>))" for r hs
    by (rule rows_live_update, simp) (auto intro: row_life_publish)
  then show ?thesis
    by (auto simp: publish_def Let_def intro: rows_live_same split: option.split)
qed

lemma live_purge_other: "b \<in> set (builds d) \<Longrightarrow> b_repo b \<noteq> storage_key repo \<Longrightarrow>
    b \<in> set (builds (snd (purge_repo d repo due_at)))"
  by (simp add: purge_repo_def Let_def)

lemma builds_kept [simp]:
  "builds (snd (add_repo d now repo owner)) = builds d" "builds (snd (remove_repo d repo)) = builds d"
  "builds (snd (set_refs d repo refs)) = builds d" "builds (queue_deletions d hs due) = builds d"
  "builds (dequeue_deletions d hs now) = builds d" "builds (record_sizes d sizes) = builds d"
  "builds (add_build_time d repo kind elapsed) = builds d"
  by (simp_all add: add_repo_def remove_repo_def set_refs_def queue_deletions_def
      dequeue_deletions_def record_sizes_def add_build_time_def Let_def split: option.split sum.split)

text \<open>Only a purge removes rows; every other operation keeps each row's life.\<close>

lemma control_step_live:
  "control_step s d d' \<Longrightarrow> rows_live d d' \<or> (\<exists>repo due. d' = snd (purge_repo d repo due))"
  by (induction rule: control_step.induct)
    (auto intro: live_admit live_retry live_claim live_renew live_publish live_fail live_release
      live_reset_leases rows_live_same)

lemma control_step_row:
  assumes "control_step s d d'" "b \<in> set (builds d)"
  shows "(\<exists>b' \<in> set (builds d'). row_life b b')
    \<or> (\<exists>repo due. d' = snd (purge_repo d repo due) \<and> storage_key repo = b_repo b)"
  using control_step_live[OF assms(1)]
proof
  assume "\<exists>repo due. d' = snd (purge_repo d repo due)"
  then obtain repo due where d': "d' = snd (purge_repo d repo due)" by blast
  then show ?thesis using live_purge_other[OF assms(2)] row_life_refl by metis
qed (use assms(2) in \<open>auto simp: rows_live_def\<close>)

section \<open>Claims\<close>

text \<open>
  The read before the transaction is transparent: when it sees no work, the transaction would
  give nothing up and lease nothing.
\<close>

lemma claim_eq_tx: "claim s d now owner pool lease = claim_tx s d now owner pool lease"
proof (cases "claim_work s now pool d")
  case False
  then have "give_up s now pool d = d"
    by (auto simp: claim_work_def give_up_def list_ex_iff sql_update_none)
  with False show ?thesis by (simp add: claim_def claim_tx_def claim_work_def Let_def)
qed (simp add: claim_def)

lemma key_valid_decode: "key_valid key \<Longrightarrow> \<exists>r. from_storage_key key = Inr r \<and> storage_key r = key"
  by (auto simp: key_valid_def split: sum.splits)

definition leased_row :: "store \<Rightarrow> int \<Rightarrow> string \<Rightarrow> Pool \<Rightarrow> duration \<Rightarrow> build \<Rightarrow> build" where
  "leased_row s now owner pool lease b = set_cols (pool_kind pool)
     (lease_cols (inst s @ owner) (i64_saturating_add now (duration_secs lease))) b"

lemma leased_row_fields [simp]:
  "b_repo (leased_row s now owner pool lease b) = b_repo b"
  "b_commit (leased_row s now owner pool lease b) = b_commit b"
  "b_seq (leased_row s now owner pool lease b) = b_seq b"
  "cols (leased_row s now owner pool lease b) k = (if k = pool_kind pool
     then lease_cols (inst s @ owner) (i64_saturating_add now (duration_secs lease)) (cols b k)
     else cols b k)"
  by (simp_all add: leased_row_def)

text \<open>What a claim does when the candidate is \<open>b\<close>.\<close>

lemma claim_tx_Some:
  assumes wf: "wf_db s d" and cand: "candidate s now pool (give_up s now pool d) = Some b"
  obtains c where
    "claim_tx s d now owner pool lease = (Inr (Some c), record_turn (pool_kind pool) (b_repo b)
       ((give_up s now pool d)\<lparr>builds := sql_update (at_row (b_repo b) (b_commit b))
          (leased_row s now owner pool lease) (builds (give_up s now pool d))\<rparr>))"
    "cl_pool c = pool" "cl_owner c = inst s @ owner" "storage_key (cl_repo c) = b_repo b"
    "br_commit (cl_build c) = b_commit b" "br_seq (cl_build c) = b_seq b"
    "claim_attempts c = k_attempts (cols b (pool_kind pool)) + 1"
proof -
  let ?d = "give_up s now pool d" and ?row = "leased_row s now owner pool lease b"
  let ?d2 = "?d\<lparr>builds := sql_update (at_row (b_repo b) (b_commit b))
      (leased_row s now owner pool lease) (builds ?d)\<rparr>"
  have wf': "wf_db s ?d" by (rule wf_give_up[OF wf])
  have "wf_db s ?d2"
    unfolding leased_row_def by (rule wf_lease_candidate[OF wf' cand])
  moreover have "?row \<in> set (builds ?d2)"
    using candidate_props(1)[OF cand] by (auto simp: at_row_def image_iff)
  ultimately have ok: "row_ok s (set (artifact_refs ?d2)) ?row" by (rule wf_row)
  then have "key_valid (b_repo b)" by (simp add: row_ok_def)
  then obtain r where r: "from_storage_key (b_repo b) = Inr r" "storage_key r = b_repo b"
    using key_valid_decode by blast
  obtain row where row: "decode_build ?row = Inr row" "br_commit row = b_commit b"
    "br_seq row = b_seq b" "\<And>k. build_row_lease row k = decode_lease k ?row"
    using decode_build_total[OF ok] by (metis leased_row_fields(2,3))
  let ?c = "\<lparr>cl_repo = r, cl_owner = inst s @ owner, cl_pool = pool, cl_build = row\<rparr>"
  have "claim_tx s d now owner pool lease = (Inr (Some ?c), record_turn (pool_kind pool) (b_repo b) ?d2)"
    using cand r row(1) unfolding leased_row_def by (simp add: claim_tx_def Let_def)
  moreover have "claim_attempts ?c = k_attempts (cols b (pool_kind pool)) + 1"
    by (simp add: claim_attempts_def claim_kind_def row(4) decode_lease_def lease_cols_def)
  ultimately show ?thesis using that[of ?c] r(2) row by simp
qed

lemma claim_tx_cases:
  assumes wf: "wf_db s d"
  obtains (none) "candidate s now pool (give_up s now pool d) = None"
      "claim_tx s d now owner pool lease = (Inr None, give_up s now pool d)"
  | (some) b c where "candidate s now pool (give_up s now pool d) = Some b"
    "claim_tx s d now owner pool lease = (Inr (Some c), record_turn (pool_kind pool) (b_repo b)
       ((give_up s now pool d)\<lparr>builds := sql_update (at_row (b_repo b) (b_commit b))
          (leased_row s now owner pool lease) (builds (give_up s now pool d))\<rparr>))"
    "cl_pool c = pool" "cl_owner c = inst s @ owner" "storage_key (cl_repo c) = b_repo b"
    "br_commit (cl_build c) = b_commit b" "br_seq (cl_build c) = b_seq b"
    "claim_attempts c = k_attempts (cols b (pool_kind pool)) + 1"
proof (cases "candidate s now pool (give_up s now pool d)")
  case None
  then show ?thesis using none by (simp add: claim_tx_def)
next
  case (Some b)
  from claim_tx_Some[OF wf Some] some[OF Some] show ?thesis by metis
qed

lemma record_turn_builds [simp]: "builds (record_turn k repo d) = builds d"
  "added_repos (record_turn k repo d) = added_repos d"
  by (simp_all add: record_turn_def Let_def)

lemma give_up_tables [simp]:
  "owner_turns (give_up s now pool d) = owner_turns d" "added_repos (give_up s now pool d) = added_repos d"
  "artifact_refs (give_up s now pool d) = artifact_refs d"
  by (simp_all add: give_up_def)

lemma owner_turn_less_next:
  "owner_turn d k o' < next_turn d" if "\<forall>t \<in> snd ` set (owner_turns d). 1 \<le> t"
proof (cases "map_of (owner_turns d) (column_prefix k, o')")
  case None
  then have "owner_turn d k o' = 0" by (simp add: owner_turn_def)
  moreover have "1 \<le> Max (snd ` set (owner_turns d))" if "owner_turns d \<noteq> []"
    using that \<open>\<forall>t \<in> _. _\<close> by (intro bspec[OF \<open>\<forall>t \<in> _. _\<close>] Max_in) auto
  ultimately show ?thesis by (auto simp: next_turn_def)
next
  case (Some t)
  then have "t \<in> snd ` set (owner_turns d)" by (force dest: map_of_SomeD)
  then have "t \<le> Max (snd ` set (owner_turns d))" "owner_turns d \<noteq> []" by auto
  with Some show ?thesis by (simp add: owner_turn_def next_turn_def)
qed

lemma column_prefix_inj: "column_prefix k = column_prefix k' \<Longrightarrow> k = k'"
  by (cases k; cases k') simp_all

lemma owner_turn_record:
  "owner_turn (record_turn k repo d) k' o' =
     (if k' = k \<and> o' = repo_owner d repo then next_turn d else owner_turn d k' o')"
  by (auto simp: owner_turn_def record_turn_def Let_def map_of_upsert
      dest: column_prefix_inj split: option.splits)

section \<open>Publication\<close>

definition publishable :: "Claim \<Rightarrow> ExactResultKind \<Rightarrow> build \<Rightarrow> bool" where
  "publishable c k b = (claim_row c b \<and> k_state (cols b k) = Pending)"

lemma publish_refused:
  assumes "\<And>b. b \<in> set (builds d) \<Longrightarrow> \<not> publishable c (output_kind out) b"
  shows "snd (publish d c out) = d" "fst (publish d c out) = Inr p \<Longrightarrow> \<not> applied p"
  using assms by (auto simp: publish_def publishable_def Let_def not_applied_def filter_empty_conv
      split: option.splits if_splits dest!: first_row_in)

lemma publish_accepted:
  assumes wf: "wf_db s d" and b: "b \<in> set (builds d)" "publishable c (output_kind out) b"
    and kind: "output_kind out = claim_kind c"
    and ready: "exact_output_artifacts_ready (br_commit (cl_build c)) (output_kind out) (output_clonepack out)"
  shows "publish d c out = (Inr \<lparr>applied = True, row_complete = all_ready (publish_row out b)\<rparr>,
    record_refs (storage_key (cl_repo c)) (output_artifacts out)
      (d\<lparr>builds := sql_update (publishable c (output_kind out)) (publish_row out) (builds d)\<rparr>))"
proof -
  have "filter (publishable c (output_kind out)) (builds d) = [b]"
    using b by (intro filter_claim_row[OF wf]) (auto simp: publishable_def)
  then show ?thesis using kind ready
    unfolding publish_def publishable_def[abs_def] Let_def by simp
qed

lemma publish_cases:
  assumes "publish d c out = (Inr p, d')"
  obtains (refused) "\<not> applied p" "d' = d"
    "output_kind out \<noteq> claim_kind c \<or> (\<forall>b \<in> set (builds d). \<not> publishable c (output_kind out) b)"
  | (accepted) b where "b \<in> set (builds d)" "publishable c (output_kind out) b"
      "output_kind out = claim_kind c"
      "exact_output_artifacts_ready (br_commit (cl_build c)) (output_kind out) (output_clonepack out)"
  using assms
  by (cases "first_row (filter (publishable c (output_kind out)) (builds d))")
    (auto simp: publish_def publishable_def[abs_def] Let_def not_applied_def filter_empty_conv
      split: if_splits dest!: first_row_in)

section \<open>The deletion queue\<close>

lemma map_of_queue_all:
  assumes "key_ok rows"
  shows "map_of (queue_all hs due rows) h = (if h \<in> set hs
     then Some (case map_of rows h of None \<Rightarrow> due | Some t \<Rightarrow> max t due) else map_of rows h)"
proof -
  have "keep_later_due due w = max w due" for w by (simp add: keep_later_due_def max_def)
  then show ?thesis
    unfolding queue_all_def
    using alist.fold_put_member[OF assms, of h hs "keep_later_due due" due]
      alist.fold_put_other[OF assms, of h hs due "keep_later_due due"]
    by (auto split: option.splits)
qed

lemma referenced_iff: "referenced d h \<longleftrightarrow> (\<exists>repo. (repo, h) \<in> set (artifact_refs d))"
  by (force simp: referenced_def list_ex_iff)

lemma deletable_iff:
  assumes "key_ok (deletions d)"
  shows "deletable d h now \<longleftrightarrow> (\<exists>due. map_of (deletions d) h = Some due \<and> due < now) \<and> \<not> referenced d h"
  using assms by (auto simp: deletable_def list_ex_iff key_ok_def)

lemma wf_deletions: "wf_db s d \<Longrightarrow> key_ok (deletions d)"
  by (simp add: wf_db_def tables_ok_def)

lemma only_ours_iff:
  "h \<in> set (only_ours d repo) \<longleftrightarrow> (repo, h) \<in> set (artifact_refs d)
     \<and> (\<forall>r. (r, h) \<in> set (artifact_refs d) \<longrightarrow> r = repo)"
  unfolding only_ours_def set_map set_filter list_ex_iff image_iff by auto

text \<open>An artifact that a ready output or a published ref names is recorded.\<close>

lemma ready_output_referenced:
  assumes "wf_db s d" "b \<in> set (builds d)" "k_output (cols b k) = Some out" "h \<in> set (stored_artifacts out)"
  shows "(b_repo b, h) \<in> set (artifact_refs d)"
  using row_ok_cols[OF wf_row[OF assms(1,2)], of k] assms(3,4)
  by (auto simp: cols_ok_def Let_def names_recorded_def)

lemma refs_row_referenced:
  assumes "wf_db s d" "(repo, row) \<in> set (repo_refs d)" "h \<in> set (refs_artifacts (row_refs row))"
  shows "(repo, h) \<in> set (artifact_refs d)"
  using assms by (auto simp: wf_db_def tables_ok_def refs_ok_def names_recorded_def)

section \<open>An example run\<close>

text \<open>
  One repository with one commit: admitted, its Head claimed and published.  The witnesses of
  the properties below are about these databases.
\<close>

definition ex_store :: store where
  "ex_store = \<lparr>max_attempts = 2, inst = ''i/''\<rparr>"

definition ex_repo :: RepoId where
  "ex_repo = repo_id_github ''o/r''"

definition ex_commit :: string where
  "ex_commit = replicate 40 (CHR ''a'')"

definition ex_hash :: "char \<Rightarrow> string" where
  "ex_hash c = replicate 64 c"

definition ex_admitted :: db where
  "ex_admitted = snd (admit empty_db 0 ex_repo ex_commit (Some ''refs/heads/main''))"

definition ex_claim :: "db \<Rightarrow> Pool \<Rightarrow> Claim option cresult \<times> db" where
  "ex_claim d pool = claim ex_store d 10 ''w'' pool (from_secs 60)"

definition ex_head_claim :: Claim where
  "ex_head_claim = (case fst (ex_claim ex_admitted PoolHead) of Inr (Some c) \<Rightarrow> c | _ \<Rightarrow> undefined)"

definition ex_claimed :: db where
  "ex_claimed = snd (ex_claim ex_admitted PoolHead)"

definition ex_head :: Output where
  "ex_head = HeadOutput \<lparr>hr_clonepack = \<lparr>ca_manifest = ex_hash (CHR ''1''),
       ca_metadata_chunk = ex_hash (CHR ''2''), ca_metadata_delta = [], ca_midx = [],
       ca_idx_bundle = ex_hash (CHR ''3''), ca_commit = ex_commit\<rparr>,
     hr_parent_commit = None, hr_packs = [], hr_base_commit = [], hr_base_packs = [],
     hr_levels = []\<rparr> None"

definition ex_published :: db where
  "ex_published = snd (publish ex_claimed ex_head_claim ex_head)"

lemma wf_ex_admitted: "wf_db ex_store ex_admitted"
  unfolding ex_admitted_def
  by (rule wf_admit[OF wf_empty])
    (simp_all add: ex_store_def key_valid_def from_storage_key_storage_key ex_repo_def
      repo_id_github_def DEFAULT_PROVIDER_ID_def)

lemma wf_ex_claimed: "wf_db ex_store ex_claimed"
  unfolding ex_claimed_def ex_claim_def by (rule wf_claim[OF wf_ex_admitted])

lemma wf_ex_published: "wf_db ex_store ex_published"
  unfolding ex_published_def by (rule wf_publish[OF wf_ex_claimed])

lemma reach_ex_claimed: "reach (opened ex_store) (control_step ex_store) ex_claimed"
proof -
  have "reach (opened ex_store) (control_step ex_store) empty_db"
    by (rule reach_init) (simp add: opened_def ex_store_def)
  then have "reach (opened ex_store) (control_step ex_store) ex_admitted"
    unfolding ex_admitted_def
    by (rule reach_step) (rule step_admit, simp_all add: ex_repo_def repo_id_github_def DEFAULT_PROVIDER_ID_def)
  then show ?thesis unfolding ex_claimed_def ex_claim_def by (rule reach_step) (rule step_claim)
qed

section \<open>Properties\<close>

text \<open>
  C1.  In every database that operations of the store reach from an empty one, keys are
  unique, a ready output has its kind's result with valid artifact ids, every artifact it
  names is recorded for its repository, attempts stay within the limit, and a Full with a lease
  or a result has a ready Head.
\<close>

theorem control_reachable_wf: "reach (opened s) (control_step s) d \<Longrightarrow> wf_db s d"
  by (rule control.reach_inv)

theorem control_reachable_wf_witness: "wf_db ex_store ex_claimed"
  by (rule control_reachable_wf[OF reach_ex_claimed])

text \<open>
  C2.  Every operation of the store refines the life of an output on every row it keeps, and
  only the purge of its repository removes a row.
\<close>

theorem control_step_refines_life:
  assumes "control_step s d d'" "b \<in> set (builds d)"
  shows "(\<exists>b' \<in> set (builds d'). row_life b b')
    \<or> (\<exists>repo due. d' = snd (purge_repo d repo due) \<and> storage_key repo = b_repo b)"
  using assms by (rule control_step_row)

theorem control_step_refines_life_witness:
  "(\<exists>b' \<in> set (builds ex_published). row_life (hd (builds ex_claimed)) b')
    \<or> (\<exists>repo due. ex_published = snd (purge_repo ex_claimed repo due)
         \<and> storage_key repo = b_repo (hd (builds ex_claimed)))"
proof (rule control_step_refines_life)
  show "control_step ex_store ex_claimed ex_published"
    unfolding ex_published_def by (rule step_publish)
  have "builds ex_claimed \<noteq> []" by code_simp
  then show "hd (builds ex_claimed) \<in> set (builds ex_claimed)" by simp
qed

text \<open>
  C3.  A published result is immutable: through any sequence of operations that do not purge its
  repository, the row stays, with the same ready output.
\<close>

theorem ready_output_kept:
  assumes "(\<lambda>d d'. control_step s d d' \<and> (\<forall>repo due. storage_key repo = b_repo b
      \<longrightarrow> d' \<noteq> snd (purge_repo d repo due)))\<^sup>*\<^sup>* d d'"
    and "b \<in> set (builds d)" "k_state (cols b k) = Ready" "k_output (cols b k) = Some out"
  shows "\<exists>b' \<in> set (builds d'). row_key b' = row_key b \<and> b_seq b' = b_seq b
    \<and> k_state (cols b' k) = Ready \<and> k_output (cols b' k) = Some out"
  using assms(1)
proof (induction rule: rtranclp_induct)
  case base
  then show ?case using assms(2-) by blast
next
  case (step d1 d2)
  then obtain x where x: "x \<in> set (builds d1)" "row_key x = row_key b" "b_seq x = b_seq b"
    "life_of (cols x k) = LReady out" by (auto simp: life_of_def)
  have "b_repo x = b_repo b" using x(2) by (simp add: row_key_def)
  with step.hyps(2) control_step_row[OF _ x(1)] obtain y where "y \<in> set (builds d2)" "row_life x y"
    by metis
  moreover from this x(4) have "life_of (cols y k) = LReady out"
    unfolding row_life_def by (metis output_life_ready)
  ultimately show ?case using x by (auto simp: row_life_def life_of_ready)
qed

theorem ready_output_kept_witness:
  "\<exists>b' \<in> set (builds (release ex_published ex_head_claim)).
     row_key b' = row_key (hd (builds ex_published)) \<and> b_seq b' = b_seq (hd (builds ex_published))
     \<and> k_state (cols b' Head) = Ready \<and> k_output (cols b' Head) = Some (stored ex_head)"
proof (rule ready_output_kept)
  have ne: "builds ex_published \<noteq> []" by code_simp
  then show "hd (builds ex_published) \<in> set (builds ex_published)" by simp
  have len: "length (builds (release ex_published ex_head_claim)) = 1"
    "length (builds ex_published) = 1" by code_simp+
  have "builds (snd (purge_repo ex_published repo due)) = []"
    if "storage_key repo = b_repo (hd (builds ex_published))" for repo due
    using that len(2) by (auto simp: purge_repo_def Let_def sql_delete_def length_Suc_conv)
  then have "\<forall>repo due. storage_key repo = b_repo (hd (builds ex_published)) \<longrightarrow>
      release ex_published ex_head_claim \<noteq> snd (purge_repo ex_published repo due)"
    using len(1) by (metis list.size(3) zero_neq_one)
  then show "(\<lambda>d d'. control_step ex_store d d' \<and> (\<forall>repo due.
      storage_key repo = b_repo (hd (builds ex_published)) \<longrightarrow> d' \<noteq> snd (purge_repo d repo due)))\<^sup>*\<^sup>*
      ex_published (release ex_published ex_head_claim)"
    by (intro r_into_rtranclp) (auto intro: step_release)
  show "k_state (cols (hd (builds ex_published)) Head) = Ready" by code_simp
  show "k_output (cols (hd (builds ex_published)) Head) = Some (stored ex_head)" by code_simp
qed

text \<open>
  C4.  Publication is fenced.  It is applied exactly when the output is of the claim's kind and
  the row is still pending under the claim's lease; then the row is ready with this output and
  the repository names each of its artifacts, and no other row changes.  Otherwise the database
  is unchanged.
\<close>

theorem publish_fenced:
  assumes "wf_db s d" "publish d c out = (Inr p, d')"
  shows "if applied p
    then \<exists>b. find_build d (storage_key (cl_repo c)) (br_commit (cl_build c)) = Some b
      \<and> output_kind out = claim_kind c
      \<and> k_state (cols b (claim_kind c)) = Pending
      \<and> k_lease_owner (cols b (claim_kind c)) = Some (cl_owner c)
      \<and> find_build d' (storage_key (cl_repo c)) (br_commit (cl_build c)) = Some (publish_row out b)
      \<and> row_complete p = all_ready (publish_row out b)
      \<and> (\<forall>x. row_key x \<noteq> row_key b \<longrightarrow> x \<in> set (builds d') \<longleftrightarrow> x \<in> set (builds d))
      \<and> set (artifact_refs d') = set (artifact_refs d)
          \<union> Pair (storage_key (cl_repo c)) ` set (output_artifacts out)
    else d' = d \<and> (output_kind out \<noteq> claim_kind c \<or> (\<forall>b \<in> set (builds d). \<not> publishable c (output_kind out) b))"
  using assms(2)
proof (cases rule: publish_cases)
  case (accepted b)
  let ?k = "output_kind out" and ?r = "storage_key (cl_repo c)"
  have eq: "p = \<lparr>applied = True, row_complete = all_ready (publish_row out b)\<rparr>"
    "d' = record_refs ?r (output_artifacts out)
      (d\<lparr>builds := sql_update (publishable c ?k) (publish_row out) (builds d)\<rparr>)"
    using publish_accepted[OF assms(1) accepted] assms(2) by simp_all
  have wf': "wf_db s d'" using wf_publish[OF assms(1), of c out] assms(2) by simp
  have b: "b_repo b = ?r" "b_commit b = br_commit (cl_build c)"
    "k_lease_owner (cols b (claim_kind c)) = Some (cl_owner c)" "k_state (cols b (claim_kind c)) = Pending"
    using accepted by (auto simp: publishable_def claim_row_def at_row_def)
  have builds: "set (builds d') = (\<lambda>x. if publishable c ?k x then publish_row out x else x) ` set (builds d)"
    by (simp add: eq)
  then have "publish_row out b \<in> set (builds d')" using accepted by force
  then have "find_build d' ?r (br_commit (cl_build c)) = Some (publish_row out b)"
    using b by (subst find_build_iff[OF wf']) simp
  moreover have "x \<in> set (builds d') \<longleftrightarrow> x \<in> set (builds d)" if "row_key x \<noteq> row_key b" for x
  proof -
    have "\<not> publishable c ?k x" using that b
      by (auto simp: publishable_def claim_row_def at_row_def row_key_def)
    moreover have "row_key y = row_key b" if "publishable c ?k y" for y
      using that b by (auto simp: publishable_def claim_row_def at_row_def row_key_def)
    ultimately show ?thesis using that publish_row_fields(1) unfolding builds image_iff by metis
  qed
  moreover have "set (artifact_refs d') = set (artifact_refs d) \<union> Pair ?r ` set (output_artifacts out)"
    by (simp add: eq)
  ultimately show ?thesis
    using eq(1) accepted b find_build_wf[OF assms(1) accepted(1)] by simp
qed simp

theorem publish_fenced_witness:
  "\<exists>b. find_build ex_claimed (storage_key (cl_repo ex_head_claim)) (br_commit (cl_build ex_head_claim)) = Some b
     \<and> find_build ex_published (storage_key (cl_repo ex_head_claim)) (br_commit (cl_build ex_head_claim))
         = Some (publish_row ex_head b)"
proof -
  have p: "publish ex_claimed ex_head_claim ex_head
      = (Inr \<lparr>applied = True, row_complete = False\<rparr>, ex_published)"
    unfolding ex_published_def by (rule prod_eqI) (code_simp, simp)
  show ?thesis using publish_fenced[OF wf_ex_claimed p] by auto
qed

text \<open>
  C5.  The read that idle polls stop at changes nothing: a poll that finds no work there returns
  what the claim transaction would return, and leaves the same database.
\<close>

theorem claim_poll_transparent:
  "claim s d now owner pool lease = claim_tx s d now owner pool lease"
  by (rule claim_eq_tx)

text \<open>
  C6.  What a claim leases.  It never fails on a well-formed database.  It returns nothing only
  when no row is claimable.  Otherwise the leased row was pending, unleased, due and below the
  attempt limit, its repository had no held lease of the kind, a Full had a ready Head and no
  older pending Full in its repository, and the row now carries the claim's lease and one more
  attempt.
\<close>

theorem claim_leases:
  assumes "wf_db s d" "claim s d now owner pool lease = (r, d')"
  shows "(r = Inr None \<and> d' = give_up s now pool d
      \<and> (\<forall>b \<in> set (builds d'). \<not> claimable s now pool d' b))
    \<or> (\<exists>c b. r = Inr (Some c) \<and> b \<in> set (builds (give_up s now pool d))
      \<and> claimable s now pool (give_up s now pool d) b
      \<and> storage_key (cl_repo c) = b_repo b \<and> br_commit (cl_build c) = b_commit b
      \<and> claim_attempts c = k_attempts (cols b (pool_kind pool)) + 1
      \<and> claim_attempts c \<le> max_attempts s
      \<and> find_build d' (b_repo b) (b_commit b) = Some (leased_row s now owner pool lease b)
      \<and> claim_row c (leased_row s now owner pool lease b))"
  using assms(1)
proof (cases rule: claim_tx_cases[of s d now pool owner lease])
  case none
  then show ?thesis using assms(2) candidate_None by (simp add: claim_eq_tx)
next
  case (some b c)
  note b = candidate_props[OF some(1)]
  have r: "r = Inr (Some c)" and d': "d' = record_turn (pool_kind pool) (b_repo b)
       ((give_up s now pool d)\<lparr>builds := sql_update (at_row (b_repo b) (b_commit b))
          (leased_row s now owner pool lease) (builds (give_up s now pool d))\<rparr>)"
    using some(2) assms(2) by (simp_all add: claim_eq_tx)
  have wf': "wf_db s d'" using wf_claim[OF assms(1)] assms(2) by (metis snd_conv)
  have "leased_row s now owner pool lease b \<in> set (builds d')"
    using b(1) by (auto simp: d' at_row_def image_iff)
  then have "find_build d' (b_repo b) (b_commit b) = Some (leased_row s now owner pool lease b)"
    by (subst find_build_iff[OF wf']) simp
  moreover have "claim_row c (leased_row s now owner pool lease b)"
    using some by (simp add: claim_row_def at_row_def claim_kind_def lease_cols_def)
  moreover have "claim_attempts c \<le> max_attempts s"
    using b(2) some(8) by (simp add: claimable_def Let_def)
  ultimately show ?thesis using r b some by blast
qed

theorem claim_leases_witness:
  "\<exists>c b. fst (ex_claim ex_admitted PoolHead) = Inr (Some c)
     \<and> find_build ex_claimed (b_repo b) (b_commit b)
         = Some (leased_row ex_store 10 ''w'' PoolHead (from_secs 60) b)
     \<and> claim_row c (leased_row ex_store 10 ''w'' PoolHead (from_secs 60) b)"
proof -
  have "claim ex_store ex_admitted 10 ''w'' PoolHead (from_secs 60)
      = (fst (ex_claim ex_admitted PoolHead), ex_claimed)"
    by (simp add: ex_claim_def ex_claimed_def)
  moreover have "fst (ex_claim ex_admitted PoolHead) \<noteq> Inr None" by code_simp
  ultimately show ?thesis using claim_leases[OF wf_ex_admitted] by metis
qed

text \<open>
  C7.  Claims are fair between owners.  A claimed row's owner has the oldest turn among the
  owners of claimable rows, and the row the lowest sequence number among that owner's.  After
  the claim its owner's turn is later than every other owner's, so the next claim of the kind
  prefers any other owner with claimable work.
\<close>

theorem claim_fair:
  assumes "wf_db s d" "claim s d now owner pool lease = (Inr (Some c), d')"
  shows "\<exists>b \<in> set (builds (give_up s now pool d)).
      storage_key (cl_repo c) = b_repo b \<and> br_commit (cl_build c) = b_commit b
      \<and> (\<forall>x \<in> set (builds (give_up s now pool d)). claimable s now pool (give_up s now pool d) x \<longrightarrow>
           claim_order pool d b \<le> claim_order pool d x)
      \<and> (\<forall>o'. o' \<noteq> repo_owner d (b_repo b) \<longrightarrow>
           owner_turn d' (pool_kind pool) o' < owner_turn d' (pool_kind pool) (repo_owner d (b_repo b)))"
  using assms(1)
proof (cases rule: claim_tx_cases[of s d now pool owner lease])
  case none
  then show ?thesis using assms(2) by (simp add: claim_eq_tx)
next
  case (some b c')
  note b = candidate_props[OF some(1)]
  let ?d2 = "(give_up s now pool d)\<lparr>builds := sql_update (at_row (b_repo b) (b_commit b))
          (leased_row s now owner pool lease) (builds (give_up s now pool d))\<rparr>"
  have eq: "c' = c" "d' = record_turn (pool_kind pool) (b_repo b) ?d2"
    using some(2) assms(2) by (simp_all add: claim_eq_tx)
  have ord: "claim_order pool (give_up s now pool d) = claim_order pool d"
    by (simp add: fun_eq_iff claim_order_def owner_turn_def repo_owner_def)
  have turns: "\<forall>t \<in> snd ` set (owner_turns ?d2). 1 \<le> t"
    using assms(1) by (simp add: wf_db_def tables_ok_def)
  have same: "repo_owner ?d2 r = repo_owner d r" for r by (simp add: repo_owner_def)
  have "owner_turn d' (pool_kind pool) o' < owner_turn d' (pool_kind pool) (repo_owner d (b_repo b))"
    if "o' \<noteq> repo_owner d (b_repo b)" for o'
    using that owner_turn_less_next[OF turns] by (simp add: eq owner_turn_record same)
  with b ord some(5,6) eq(1) show ?thesis by metis
qed

theorem claim_fair_witness:
  "\<exists>b \<in> set (builds (give_up ex_store 10 PoolHead ex_admitted)).
     storage_key (cl_repo ex_head_claim) = b_repo b
     \<and> owner_turn ex_claimed Head ''other'' < owner_turn ex_claimed Head (repo_owner ex_admitted (b_repo b))"
proof -
  have "claim ex_store ex_admitted 10 ''w'' PoolHead (from_secs 60) = (Inr (Some ex_head_claim), ex_claimed)"
    unfolding ex_claimed_def ex_claim_def[symmetric] by (rule prod_eqI) (code_simp, simp)
  from claim_fair[OF wf_ex_admitted this] obtain b where
    "b \<in> set (builds (give_up ex_store 10 PoolHead ex_admitted))"
    "storage_key (cl_repo ex_head_claim) = b_repo b"
    "\<forall>o'. o' \<noteq> repo_owner ex_admitted (b_repo b) \<longrightarrow>
       owner_turn ex_claimed Head o' < owner_turn ex_claimed Head (repo_owner ex_admitted (b_repo b))"
    by auto
  moreover have "repo_owner ex_admitted r \<noteq> ''other''" for r
  proof -
    have "added_repos ex_admitted = []" by code_simp
    then show ?thesis by (simp add: repo_owner_def)
  qed
  ultimately show ?thesis by metis
qed

text \<open>
  An artifact that the sweep may delete is named by no stored output of any build and by no
  repository's published tags or branches.
\<close>

theorem deletable_unused:
  assumes "wf_db s d" "deletable d h now"
  shows "(\<forall>b k out. b \<in> set (builds d) \<and> k_output (cols b k) = Some out \<longrightarrow> h \<notin> set (stored_artifacts out))
    \<and> (\<forall>repo row. (repo, row) \<in> set (repo_refs d) \<longrightarrow> h \<notin> set (refs_artifacts (row_refs row)))"
proof -
  have "\<not> referenced d h" using assms by (simp add: deletable_def)
  then have "(repo, h) \<notin> set (artifact_refs d)" for repo by (simp add: referenced_iff)
  then show ?thesis
    using ready_output_referenced[OF assms(1)] refs_row_referenced[OF assms(1)] by blast
qed

theorem deletable_unused_witness:
  "deletable (queue_deletions ex_published [ex_hash (CHR ''9'')] 5) (ex_hash (CHR ''9'')) 6
   \<and> ex_hash (CHR ''9'') \<notin> set (stored_artifacts (stored ex_head))"
proof -
  let ?d = "queue_deletions ex_published [ex_hash (CHR ''9'')] 5"
  have del: "deletable ?d (ex_hash (CHR ''9'')) 6" by code_simp
  have "builds ?d \<noteq> []" by code_simp
  then have "hd (builds ?d) \<in> set (builds ?d)" by simp
  moreover have "k_output (cols (hd (builds ?d)) Head) = Some (stored ex_head)" by code_simp
  ultimately show ?thesis
    using deletable_unused[OF wf_queue_deletions[OF wf_ex_published] del] del by blast
qed

text \<open>
  C9.  Purging a repository removes its builds, refs, usage and added-repository row, and keeps
  every other repository's builds.  Each artifact that only it named is queued and is not
  deletable before \<open>due_at\<close> has passed; an artifact that another repository names is not
  queued by it and not deletable.
\<close>

theorem purge_repo_effect:
  assumes "wf_db s d" "purge_repo d repo due_at = (p, d')"
  shows "\<not> knows_repo d' repo \<and> get_refs d' repo = Inr None \<and> usage d' repo = Inr None
    \<and> (\<forall>h. (storage_key repo, h) \<notin> set (artifact_refs d'))
    \<and> (\<forall>b. b_repo b \<noteq> storage_key repo \<longrightarrow> b \<in> set (builds d') \<longleftrightarrow> b \<in> set (builds d))
    \<and> purged_builds p = length (repo_builds d (storage_key repo))
    \<and> (\<forall>h now. (storage_key repo, h) \<in> set (artifact_refs d) \<longrightarrow>
         (if \<exists>r. r \<noteq> storage_key repo \<and> (r, h) \<in> set (artifact_refs d)
          then map_of (deletions d') h = map_of (deletions d) h \<and> \<not> deletable d' h now
          else (\<exists>due. map_of (deletions d') h = Some due \<and> due_at \<le> due)
            \<and> (now \<le> due_at \<longrightarrow> \<not> deletable d' h now)))"
proof -
  let ?key = "storage_key repo"
  have d': "d' = snd (purge_repo d repo due_at)" and p: "p = fst (purge_repo d repo due_at)"
    using assms(2) by simp_all
  have wf': "wf_db s d'" unfolding d' by (rule wf_purge_repo[OF assms(1)])
  have unknown: "\<not> knows_repo d' repo"
    by (auto simp: knows_repo_def d' purge_repo_def Let_def delete_key_def list_ex_iff)
  have refs: "set (artifact_refs d') = {r \<in> set (artifact_refs d). fst r \<noteq> ?key}"
    "deletions d' = queue_all (only_ours d ?key) due_at (deletions d)"
    by (auto simp: d' purge_repo_def Let_def)
  note q = map_of_queue_all[OF wf_deletions[OF assms(1)], of "only_ours d ?key" due_at]
  have "if \<exists>r. r \<noteq> ?key \<and> (r, h) \<in> set (artifact_refs d)
          then map_of (deletions d') h = map_of (deletions d) h \<and> \<not> deletable d' h now
          else (\<exists>due. map_of (deletions d') h = Some due \<and> due_at \<le> due)
            \<and> (now \<le> due_at \<longrightarrow> \<not> deletable d' h now)"
    if h: "(?key, h) \<in> set (artifact_refs d)" for h now
  proof (cases "\<exists>r. r \<noteq> ?key \<and> (r, h) \<in> set (artifact_refs d)")
    case True
    then have "h \<notin> set (only_ours d ?key)" "referenced d' h"
      by (auto simp: only_ours_iff referenced_iff refs)
    with True q[of h] show ?thesis by (simp add: refs deletable_def)
  next
    case False
    then have "h \<in> set (only_ours d ?key)" using h by (auto simp: only_ours_iff)
    with q[of h] obtain due where "map_of (deletions d') h = Some due" "due_at \<le> due"
      by (auto simp: refs split: option.splits)
    with False deletable_iff[OF wf_deletions[OF wf'], of h now] show ?thesis by auto
  qed
  moreover have "get_refs d' repo = Inr None"
    by (simp add: get_refs_def d' purge_repo_def Let_def map_of_delete_key)
  moreover have "usage d' repo = Inr None" using unknown by (simp add: usage_def Let_def)
  moreover have "purged_builds p = length (repo_builds d ?key)"
    by (simp add: p purge_repo_def Let_def rows_affected_def repo_builds_def)
  moreover have "b \<in> set (builds d') \<longleftrightarrow> b \<in> set (builds d)" if "b_repo b \<noteq> ?key" for b
    using that by (simp add: d' purge_repo_def Let_def)
  moreover have "(?key, h) \<notin> set (artifact_refs d')" for h by (simp add: refs)
  ultimately show ?thesis using unknown by blast
qed

theorem purge_repo_effect_witness:
  "\<not> knows_repo (snd (purge_repo ex_published ex_repo 100)) ex_repo
   \<and> \<not> deletable (snd (purge_repo ex_published ex_repo 100)) (ex_hash (CHR ''1'')) 100"
proof -
  have "(storage_key ex_repo, ex_hash (CHR ''1'')) \<in> set (artifact_refs ex_published)" by code_simp
  then show ?thesis
    using purge_repo_effect[OF wf_ex_published, of ex_repo 100] by (metis order_refl prod.collapse)
qed

text \<open>
  After its repository is purged, a worker's claim is dead: it cannot be renewed, nothing
  it publishes is applied, and failing or releasing it changes no row.
\<close>

theorem purged_claim_dead:
  assumes "storage_key (cl_repo c) = storage_key repo" "d' = snd (purge_repo d repo due_at)"
  shows "renew d' now c lease = (False, d') \<and> snd (publish d' c out) = d'
    \<and> (\<forall>p. fst (publish d' c out) = Inr p \<longrightarrow> \<not> applied p)
    \<and> fail s d' now c err retry_after = d' \<and> release d' c = d'"
proof -
  have none: "\<not> claim_row c b" if "b \<in> set (builds d')" for b
    using that assms by (simp add: claim_row_def at_row_def purge_repo_def Let_def)
  then have "snd (publish d' c out) = d'" "\<forall>p. fst (publish d' c out) = Inr p \<longrightarrow> \<not> applied p"
    using publish_refused[of d' c out] by (auto simp: publishable_def)
  with none show ?thesis
    by (simp add: renew_def fail_def release_def Let_def sql_update_none rows_affected_def
        filter_empty_conv[THEN iffD2])
qed

theorem purged_claim_dead_witness:
  "renew (snd (purge_repo ex_claimed ex_repo 0)) 20 ex_head_claim 0
     = (False, snd (purge_repo ex_claimed ex_repo 0))"
proof -
  have "storage_key (cl_repo ex_head_claim) = storage_key ex_repo" by code_simp
  from purged_claim_dead[OF this refl] show ?thesis by blast
qed

end
