(* ===== verification/Pins.thy ===== *)
theory Pins
  imports Prelude
begin

text \<open>
  The pins of \<open>src/rust/src/pins.rs\<close>: how many builds pin each artifact, and which artifacts are
  being deleted.  Every operation of \<open>Pins\<close> and \<open>PinSet\<close> is one critical section of the mutex, so
  it is one function on the state.  \<open>pin\<close> is defined where its wait has ended: \<open>None\<close> is a pin
  that still waits for the deletion of its artifact.
\<close>

record pins_state =
  pinned :: "string \<rightharpoonup> nat"
  deleting :: "string set"

definition new_pins :: pins_state where
  "new_pins = \<lparr>pinned = Map.empty, deleting = {}\<rparr>"

definition pins_pin :: "string \<Rightarrow> pins_state \<Rightarrow> pins_state option" where
  "pins_pin h p =
     (if h \<in> deleting p then None
      else Some (p\<lparr>pinned := (pinned p)(h \<mapsto>
        (case pinned p h of None \<Rightarrow> 0 | Some n \<Rightarrow> n) + 1)\<rparr>))"

definition unpin :: "string \<Rightarrow> pins_state \<Rightarrow> pins_state" where
  "unpin h p =
     (case pinned p h of
        None \<Rightarrow> p
      | Some count \<Rightarrow>
          if count - 1 = 0 then p\<lparr>pinned := (pinned p)(h := None)\<rparr>
          else p\<lparr>pinned := (pinned p)(h \<mapsto> count - 1)\<rparr>)"

definition begin_delete :: "string \<Rightarrow> pins_state \<Rightarrow> pins_state option" where
  "begin_delete h p =
     (if pinned p h \<noteq> None \<or> h \<in> deleting p then None
      else Some (p\<lparr>deleting := insert h (deleting p)\<rparr>))"

text \<open>Dropping the guard \<open>Deleting\<close>.\<close>

definition end_delete :: "string \<Rightarrow> pins_state \<Rightarrow> pins_state" where
  "end_delete h p = p\<lparr>deleting := deleting p - {h}\<rparr>"

text \<open>One build's pins: a held artifact is not pinned again.\<close>

definition pin_set_pin :: "string \<Rightarrow> string list \<times> pins_state \<Rightarrow> (string list \<times> pins_state) option" where
  "pin_set_pin h st =
     (case st of (held, p) \<Rightarrow>
        if h \<in> set held then Some (held, p)
        else map_option (\<lambda>p'. (h # held, p')) (pins_pin h p))"

definition pin_set_drop :: "string list \<times> pins_state \<Rightarrow> pins_state" where
  "pin_set_drop st = (case st of (held, p) \<Rightarrow> fold unpin held p)"

section \<open>Counting pins\<close>

definition pin_count :: "pins_state \<Rightarrow> string \<Rightarrow> nat" where
  "pin_count p h = (case pinned p h of None \<Rightarrow> 0 | Some n \<Rightarrow> n)"

text \<open>No artifact is pinned and being deleted, and the map has no zero counts.\<close>

definition pins_ok :: "pins_state \<Rightarrow> bool" where
  "pins_ok p \<longleftrightarrow> (\<forall>h. pinned p h \<noteq> Some 0) \<and> (\<forall>h \<in> deleting p. pinned p h = None)"

lemma pin_count_zero: "pins_ok p \<Longrightarrow> pin_count p h = 0 \<longleftrightarrow> pinned p h = None"
  by (cases "pinned p h") (auto simp: pins_ok_def pin_count_def intro!: gr0I)

lemma pins_ok_new [simp]: "pins_ok new_pins"
  by (simp add: pins_ok_def new_pins_def)

lemma pins_pin_ok: "pins_pin h p = Some p' \<Longrightarrow> pins_ok p \<Longrightarrow> pins_ok p'"
  by (auto simp: pins_pin_def pins_ok_def split: if_splits)

lemma pins_pin_count:
  "pins_pin h p = Some p' \<Longrightarrow> pin_count p' x = pin_count p x + (if x = h then 1 else 0)"
  by (auto simp: pins_pin_def pin_count_def split: if_splits option.splits)

lemma pins_pin_deleting: "pins_pin h p = Some p' \<Longrightarrow> h \<notin> deleting p \<and> deleting p' = deleting p"
  by (auto simp: pins_pin_def split: if_splits)

lemma unpin_ok: "pins_ok p \<Longrightarrow> pins_ok (unpin h p)"
  by (auto simp: unpin_def pins_ok_def split: option.splits)

lemma unpin_count: "pin_count (unpin h p) x = pin_count p x - (if x = h then 1 else 0)"
  by (auto simp: unpin_def pin_count_def split: option.splits)

lemma unpin_deleting [simp]: "deleting (unpin h p) = deleting p"
  by (simp add: unpin_def split: option.split)

lemma begin_delete_ok: "begin_delete h p = Some p' \<Longrightarrow> pins_ok p \<Longrightarrow> pins_ok p'"
  by (auto simp: begin_delete_def pins_ok_def split: if_splits)

lemma begin_delete_Some:
  "begin_delete h p = Some p' \<Longrightarrow> h \<notin> deleting p \<and> pinned p h = None
     \<and> deleting p' = insert h (deleting p) \<and> pinned p' = pinned p"
  by (auto simp: begin_delete_def split: if_splits)

lemma end_delete_ok: "pins_ok p \<Longrightarrow> pins_ok (end_delete h p)"
  by (auto simp: end_delete_def pins_ok_def)

lemma end_delete_simps [simp]:
  "pinned (end_delete h p) = pinned p" "deleting (end_delete h p) = deleting p - {h}"
  "pin_count (end_delete h p) = pin_count p"
  by (auto simp: end_delete_def pin_count_def fun_eq_iff)

lemma fold_unpin_count:
  "distinct held \<Longrightarrow> pin_count (fold unpin held p) x = pin_count p x - (if x \<in> set held then 1 else 0)"
  by (induction held arbitrary: p) (auto simp: unpin_count)

section \<open>One build's pins\<close>

text \<open>Several pins of one build, in order.\<close>

fun pin_all :: "string list \<Rightarrow> string list \<times> pins_state \<Rightarrow> (string list \<times> pins_state) option" where
  "pin_all [] st = Some st"
| "pin_all (h # hs) st = Option.bind (pin_set_pin h st) (pin_all hs)"

lemma pin_set_pin_props:
  assumes "pin_set_pin h (held, p) = Some (held', p')" "distinct held" "pins_ok p"
  shows "distinct held'" "set held' = insert h (set held)" "pins_ok p'" "deleting p' = deleting p"
    "pin_count p' x + (if x \<in> set held then 1 else 0)
       = pin_count p x + (if x \<in> set held' then 1 else 0)"
  using assms pins_pin_ok pins_pin_deleting pins_pin_count[of h p p' x]
  by (auto simp: pin_set_pin_def split: if_splits)

lemma pin_all_props:
  assumes "pin_all hs (held, p) = Some (held', p')" "distinct held" "pins_ok p"
  shows "distinct held' \<and> set held' = set hs \<union> set held \<and> pins_ok p' \<and> deleting p' = deleting p
    \<and> (\<forall>x. pin_count p' x + (if x \<in> set held then 1 else 0)
          = pin_count p x + (if x \<in> set held' then 1 else 0))"
  using assms
proof (induction hs arbitrary: held p)
  case (Cons h hs)
  then obtain held1 p1 where s: "pin_set_pin h (held, p) = Some (held1, p1)"
    "pin_all hs (held1, p1) = Some (held', p')"
    by (auto simp: bind_eq_Some_conv)
  note one = pin_set_pin_props[OF s(1) Cons.prems(2,3)]
  note rest = Cons.IH[OF s(2) one(1) one(3)]
  have "pin_count p' x + (if x \<in> set held then 1 else 0)
          = pin_count p x + (if x \<in> set held' then 1 else 0)" for x
  proof -
    have "pin_count p' x + (if x \<in> set held1 then 1 else 0)
        = pin_count p1 x + (if x \<in> set held' then 1 else 0)"
      using rest by blast
    with one(5)[of x] show ?thesis by linarith
  qed
  with rest one show ?case by auto
qed simp

text \<open>
  A build's pins balance.  While it holds what it pinned, no deletion of any of it can
  begin; when it drops them, every artifact is pinned exactly as often as before.
\<close>

theorem pin_set_balanced:
  assumes "pins_ok p" "pin_all hs ([], p) = Some (held, p')"
  shows "(\<forall>h \<in> set hs. begin_delete h p' = None)
    \<and> (\<forall>x. pin_count (pin_set_drop (held, p')) x = pin_count p x)
    \<and> deleting (pin_set_drop (held, p')) = deleting p"
proof -
  note all = pin_all_props[OF assms(2) _ assms(1), simplified]
  have "begin_delete h p' = None" if "h \<in> set hs" for h
  proof -
    have "0 < pin_count p' h" using that all by (simp add: spec[of _ h])
    then show ?thesis by (auto simp: begin_delete_def pin_count_def split: option.splits)
  qed
  moreover have "pin_count (pin_set_drop (held, p')) x = pin_count p x" for x
    using all by (simp add: pin_set_drop_def fold_unpin_count)
  moreover have "deleting (fold unpin xs q) = deleting q" for xs q
    by (induction xs arbitrary: q) simp_all
  ultimately show ?thesis using all by (simp add: pin_set_drop_def)
qed

theorem pin_set_balanced_witness:
  "begin_delete ''x'' (snd (the (pin_all [''x'', ''y'', ''x''] ([], new_pins)))) = None"
proof -
  have "pin_all [''x'', ''y'', ''x''] ([], new_pins)
      = Some (the (pin_all [''x'', ''y'', ''x''] ([], new_pins)))"
    by (simp add: pin_set_pin_def pins_pin_def new_pins_def)
  then show ?thesis
    using pin_set_balanced[OF pins_ok_new, of "[''x'', ''y'', ''x'']"]
    by (metis list.set_intros(1) prod.collapse)
qed

end
