(* ===== verification/Sweep.thy ===== *)
theory Sweep
  imports Control_Props Pins
begin

text \<open>
  Purging and sweeping, \<open>src/rust/src/server/purge.rs\<close>, and the safety of deletion across the
  control store, the pins and the object storage.  \<open>sweep\<close> is the sweep's own loop, run on its
  own; \<open>sys_step\<close> interleaves single steps of builds, sweeps and control operations.

  The CAS and the object storage are one set of stored artifacts.  Whether removing an artifact
  fails is a parameter \<open>remove_ok\<close>, and the order in which a batch's results arrive is the order
  of the batch.
\<close>

section \<open>Purge and discard\<close>

definition u64_max :: nat where
  "u64_max = 2 ^ 64 - 1"

definition purge_due_at :: "int \<Rightarrow> duration \<Rightarrow> int" where
  "purge_due_at now signed_url_ttl =
     (let secs = min u64_max (as_secs signed_url_ttl * 2);
          grace = (if int secs \<le> i64_max then int secs else i64_max)
      in i64_saturating_add now grace)"

definition purge :: "db \<Rightarrow> int \<Rightarrow> duration \<Rightarrow> RepoId \<Rightarrow> Purged \<times> db" where
  "purge d now signed_url_ttl repo = purge_repo d repo (purge_due_at now signed_url_ttl)"

text \<open>The mirrors that a start removes: directories \<open>*.git\<close> no known repository uses.\<close>

definition remove_orphan_mirrors :: "db \<Rightarrow> string list \<Rightarrow> string list cresult" where
  "remove_orphan_mirrors d entries =
     rbind (known_repos d) (\<lambda>known.
       Inr (filter (\<lambda>name. \<not> (\<not> ends_with name ''.git''
              \<or> name \<in> set (map mirror_dir_name known))) entries))"

definition queue_unnamed :: "db \<Rightarrow> int \<Rightarrow> string list \<Rightarrow> string list \<Rightarrow> db" where
  "queue_unnamed d now held keep =
     (let hashes = filter (\<lambda>h. h \<notin> set keep) held in
      if hashes = [] then d else queue_deletions d hashes now)"

section \<open>The sweep\<close>

definition SWEEP_BATCH :: nat where
  "SWEEP_BATCH = 1000"

datatype Swept = SweptDeleted | SweptKept | SweptPinned

record sweep_state =
  sw_db :: db
  sw_pins :: pins_state
  sw_stored :: "string set"

definition sweep_one ::
    "(string \<Rightarrow> bool) \<Rightarrow> int \<Rightarrow> string \<Rightarrow> sweep_state \<Rightarrow> (string, Swept) result \<times> sweep_state" where
  "sweep_one remove_ok now h st =
     (case begin_delete h (sw_pins st) of
        None \<Rightarrow> (Inr SweptPinned, st)
      | Some p \<Rightarrow>
          (let done = (\<lambda>st'. st'\<lparr>sw_pins := end_delete h p\<rparr>) in
           if \<not> deletable (sw_db st) h now then (Inr SweptKept, done st)
           else if \<not> remove_ok h then (Inl h, done st)
           else (Inr SweptDeleted, done (st\<lparr>sw_stored := sw_stored st - {h}\<rparr>))))"

text \<open>One batch: how many were deleted, what was settled, and the failure that ended it.\<close>

fun sweep_batch ::
    "(string \<Rightarrow> bool) \<Rightarrow> int \<Rightarrow> string list \<Rightarrow> nat \<times> string list \<times> sweep_state
       \<Rightarrow> string option \<times> nat \<times> string list \<times> sweep_state" where
  "sweep_batch remove_ok now [] (n, settled, st) = (None, n, settled, st)"
| "sweep_batch remove_ok now (h # hs) (n, settled, st) =
     (case sweep_one remove_ok now h st of
        (Inl e, st') \<Rightarrow> (Some e, n, settled, st')
      | (Inr SweptDeleted, st') \<Rightarrow> sweep_batch remove_ok now hs (n + 1, settled @ [h], st')
      | (Inr SweptKept, st') \<Rightarrow> sweep_batch remove_ok now hs (n, settled @ [h], st')
      | (Inr SweptPinned, st') \<Rightarrow> sweep_batch remove_ok now hs (n, settled, st'))"

lemma sweep_one_db [simp]: "sw_db (snd (sweep_one remove_ok now h st)) = sw_db st"
  by (simp add: sweep_one_def Let_def split: option.split)

lemma sweep_batch_db:
  "sweep_batch remove_ok now hs (n, settled, st) = (f, n', settled', st') \<Longrightarrow>
     sw_db st' = sw_db st \<and> set settled' \<subseteq> set settled \<union> set hs"
proof (induction hs arbitrary: n settled st)
  case (Cons h hs)
  obtain r st1 where one: "sweep_one remove_ok now h st = (r, st1)" by force
  then have "sw_db st1 = sw_db st" using sweep_one_db by (metis snd_conv)
  with one Cons.prems show ?case
    by (auto split: sum.splits Swept.splits dest!: Cons.IH)
qed simp

lemma due_deletions_in:
  assumes "h \<in> set (due_deletions d now n)"
  obtains due where "(h, due) \<in> set (deletions d)" "due < now"
proof -
  have "h \<in> fst ` {r \<in> set (deletions d). snd r < now}"
    using assms by (force simp: due_deletions_def dest!: in_set_takeD)
  then show ?thesis using that by auto
qed

lemma dequeue_shrinks:
  assumes "h \<in> set settled" "(h, due) \<in> set (deletions d)" "due < now"
  shows "length (deletions (dequeue_deletions d settled now)) < length (deletions d)"
  using assms by (auto simp: dequeue_deletions_def Let_def sql_delete_def intro!: length_filter_less)

lemma sweep_batch_shrinks:
  assumes "(f, n', settled, st') =
      sweep_batch remove_ok now (due_deletions (sw_db st) now m) (n, [], st)" "settled \<noteq> []"
  shows "length (deletions (dequeue_deletions (sw_db st') settled now)) < length (deletions (sw_db st))"
proof -
  obtain h where h: "h \<in> set settled" using assms(2) by (cases settled) auto
  with sweep_batch_db[OF assms(1)[symmetric]] have st: "sw_db st' = sw_db st"
    and "h \<in> set (due_deletions (sw_db st) now m)" by auto
  from due_deletions_in[OF this(2)] show ?thesis using dequeue_shrinks[OF h] st by metis
qed

function sweep ::
    "(string \<Rightarrow> bool) \<Rightarrow> (nat \<Rightarrow> int) \<Rightarrow> nat \<Rightarrow> nat \<Rightarrow> sweep_state \<Rightarrow> (string, nat) result \<times> sweep_state" where
  "sweep remove_ok clock i deleted st =
     (let now = clock i; due = due_deletions (sw_db st) now SWEEP_BATCH;
          full = (length due = SWEEP_BATCH)
      in case sweep_batch remove_ok now due (deleted, [], st) of
           (failure, deleted', settled, st1) \<Rightarrow>
             (let st2 = st1\<lparr>sw_db := dequeue_deletions (sw_db st1) settled now\<rparr> in
              case failure of
                Some e \<Rightarrow> (Inl e, st2)
              | None \<Rightarrow> if \<not> full \<or> settled = [] then (Inr deleted', st2)
                        else sweep remove_ok clock (i + 1) deleted' st2))"
  by pat_completeness auto
termination
  by (relation "measure (\<lambda>(_, _, _, _, st). length (deletions (sw_db st)))")
    (auto dest: sweep_batch_shrinks)

declare sweep.simps [simp del]

lemma sweep_unfold:
  assumes "sweep_batch remove_ok (clock i) (due_deletions (sw_db st) (clock i) SWEEP_BATCH)
      (deleted, [], st) = (f, n, settled, st1)"
  shows "sweep remove_ok clock i deleted st =
    (let st2 = st1\<lparr>sw_db := dequeue_deletions (sw_db st1) settled (clock i)\<rparr> in
     case f of Some e \<Rightarrow> (Inl e, st2)
     | None \<Rightarrow> if length (due_deletions (sw_db st) (clock i) SWEEP_BATCH) \<noteq> SWEEP_BATCH \<or> settled = []
         then (Inr n, st2) else sweep remove_ok clock (i + 1) n st2)"
  by (subst sweep.simps) (simp only: Let_def assms prod.case)

lemma sweep_induct:
  assumes "\<And>i deleted st f n settled st1.
      sweep_batch remove_ok (clock i) (due_deletions (sw_db st) (clock i) SWEEP_BATCH) (deleted, [], st)
        = (f, n, settled, st1) \<Longrightarrow>
      (f = None \<Longrightarrow> length (due_deletions (sw_db st) (clock i) SWEEP_BATCH) = SWEEP_BATCH \<Longrightarrow> settled \<noteq> [] \<Longrightarrow>
         P (i + 1) n (st1\<lparr>sw_db := dequeue_deletions (sw_db st1) settled (clock i)\<rparr>)) \<Longrightarrow>
      P i deleted st"
  shows "P i deleted st"
proof (induction "length (deletions (sw_db st))" arbitrary: i deleted st rule: less_induct)
  case less
  obtain f n settled st1 where b: "sweep_batch remove_ok (clock i)
      (due_deletions (sw_db st) (clock i) SWEEP_BATCH) (deleted, [], st) = (f, n, settled, st1)"
    by (metis prod_cases4)
  show ?case
    by (rule assms[OF b]) (use sweep_batch_shrinks[OF b[symmetric]] in \<open>auto intro!: less\<close>)
qed

section \<open>What a sweep removes\<close>

lemma begin_end_delete:
  "begin_delete h p = Some p' \<Longrightarrow> end_delete h p' = p"
  by (auto simp: begin_delete_def end_delete_def split: if_splits)

lemma sweep_one_cases:
  obtains (pinned) "sweep_one remove_ok now h st = (Inr SweptPinned, st)"
      "pinned (sw_pins st) h \<noteq> None \<or> h \<in> deleting (sw_pins st)"
  | (kept) "sweep_one remove_ok now h st = (Inr SweptKept, st)" "\<not> deletable (sw_db st) h now"
      "pinned (sw_pins st) h = None"
  | (failed) "sweep_one remove_ok now h st = (Inl h, st)" "\<not> remove_ok h"
  | (deleted) "sweep_one remove_ok now h st = (Inr SweptDeleted, st\<lparr>sw_stored := sw_stored st - {h}\<rparr>)"
      "deletable (sw_db st) h now" "pinned (sw_pins st) h = None" "remove_ok h"
proof (cases "begin_delete h (sw_pins st)")
  case None
  then show ?thesis using pinned by (auto simp: sweep_one_def begin_delete_def split: if_splits)
next
  case (Some p)
  then have "end_delete h p = sw_pins st" "pinned (sw_pins st) h = None"
    using begin_end_delete begin_delete_Some by metis+
  with Some kept failed deleted show ?thesis
    by (cases "deletable (sw_db st) h now"; cases "remove_ok h") (simp_all add: sweep_one_def)
qed

definition may_remove :: "db \<Rightarrow> int \<Rightarrow> pins_state \<Rightarrow> string \<Rightarrow> bool" where
  "may_remove d now p h \<longleftrightarrow> deletable d h now \<and> pinned p h = None"

lemma sweep_batch_Cons:
  assumes "sweep_batch remove_ok now (h # hs) (n, settled, st) = (f, n', settled', st')"
  obtains (pinned) "sweep_batch remove_ok now hs (n, settled, st) = (f, n', settled', st')"
      "pinned (sw_pins st) h \<noteq> None \<or> h \<in> deleting (sw_pins st)"
  | (kept) "sweep_batch remove_ok now hs (n, settled @ [h], st) = (f, n', settled', st')"
      "\<not> deletable (sw_db st) h now"
  | (failed) "f = Some h" "n' = n" "settled' = settled" "st' = st"
  | (deleted) "sweep_batch remove_ok now hs
        (n + 1, settled @ [h], st\<lparr>sw_stored := sw_stored st - {h}\<rparr>) = (f, n', settled', st')"
      "may_remove (sw_db st) now (sw_pins st) h"
proof (cases rule: sweep_one_cases[of remove_ok now h st])
  case pinned
  then show ?thesis using assms that(1) by simp
next
  case kept
  then show ?thesis using assms that(2) by simp
next
  case failed
  then show ?thesis using assms that(3) by simp
next
  case deleted
  then show ?thesis using assms that(4) by (simp add: may_remove_def)
qed

lemma sweep_batch_pins:
  "sweep_batch remove_ok now hs (n, settled, st) = (f, n', settled', st') \<Longrightarrow> sw_pins st' = sw_pins st"
proof (induction hs arbitrary: n settled st)
  case (Cons h hs)
  from Cons.prems show ?case by (cases rule: sweep_batch_Cons) (auto dest: Cons.IH)
qed simp

lemma sweep_batch_safe:
  "sweep_batch remove_ok now hs (n, settled, st) = (f, n', settled', st') \<Longrightarrow>
     sw_stored st' \<subseteq> sw_stored st
     \<and> (\<forall>x. x \<in> sw_stored st \<longrightarrow> x \<notin> sw_stored st' \<longrightarrow> may_remove (sw_db st) now (sw_pins st) x)"
proof (induction hs arbitrary: n settled st)
  case (Cons h hs)
  from Cons.prems show ?case
  proof (cases rule: sweep_batch_Cons)
    case deleted
    with Cons.IH[OF deleted(1)] show ?thesis by auto
  qed (auto dest: Cons.IH)
qed simp

lemma sweep_batch_settled:
  "sweep_batch remove_ok now hs (n, settled, st) = (f, n', settled', st') \<Longrightarrow> set settled \<subseteq> set settled'"
proof (induction hs arbitrary: n settled st)
  case (Cons h hs)
  from Cons.prems show ?case
  proof (cases rule: sweep_batch_Cons)
    case kept
    then show ?thesis using Cons.IH[OF kept(1)] by simp
  next
    case deleted
    then show ?thesis using Cons.IH[OF deleted(1)] by simp
  qed (auto dest: Cons.IH)
qed simp

lemma sweep_batch_complete:
  "sweep_batch remove_ok now hs (n, settled, st) = (None, n', settled', st') \<Longrightarrow> h \<in> set hs \<Longrightarrow>
     pinned (sw_pins st) h = None \<Longrightarrow> h \<notin> deleting (sw_pins st) \<Longrightarrow>
     h \<in> set settled' \<and> (deletable (sw_db st) h now \<longrightarrow> h \<notin> sw_stored st')"
proof (induction hs arbitrary: n settled st)
  case (Cons x hs)
  from Cons.prems(1) show ?case
  proof (cases rule: sweep_batch_Cons)
    case pinned
    with Cons show ?thesis by auto
  next
    case kept
    then show ?thesis using Cons.IH[OF kept(1)] Cons.prems(2-) sweep_batch_settled[OF kept(1)] by auto
  next
    case deleted
    then show ?thesis
      using Cons.IH[OF deleted(1)] Cons.prems(2-) sweep_batch_settled[OF deleted(1)]
        sweep_batch_safe[OF deleted(1)] by auto
  qed simp
qed simp

lemma dequeue_fields [simp]:
  "artifact_refs (dequeue_deletions d hs now) = artifact_refs d"
  "referenced (dequeue_deletions d hs now) = referenced d"
  "set (deletions (dequeue_deletions d hs now)) =
     {r \<in> set (deletions d). \<not> (fst r \<in> set hs \<and> snd r < now)}"
  by (auto simp: dequeue_deletions_def Let_def referenced_def fun_eq_iff)

lemma sweep_stored:
  assumes "sweep remove_ok clock i deleted st = (r, st')"
  shows "artifact_refs (sw_db st') = artifact_refs (sw_db st) \<and> sw_pins st' = sw_pins st
    \<and> (\<forall>x. x \<in> sw_stored st \<longrightarrow> x \<notin> sw_stored st' \<longrightarrow>
         \<not> referenced (sw_db st) x \<and> pinned (sw_pins st) x = None)"
  using assms
proof (induction i deleted st rule: sweep_induct[of remove_ok clock])
  case (1 i deleted st f n settled st1)
  note b = 1(1)
  let ?st2 = "st1\<lparr>sw_db := dequeue_deletions (sw_db st1) settled (clock i)\<rparr>"
  note unfold = sweep_unfold[where clock = clock, OF b, unfolded Let_def]
  have same: "sw_db st1 = sw_db st" "sw_pins st1 = sw_pins st"
    using sweep_batch_db[OF b] sweep_batch_pins[OF b] by simp_all
  have removed: "\<not> referenced (sw_db st) x \<and> pinned (sw_pins st) x = None"
    if "x \<in> sw_stored st" "x \<notin> sw_stored st1" for x
    using sweep_batch_safe[OF b] that by (auto simp: may_remove_def deletable_def)
  consider (more) "f = None" "length (due_deletions (sw_db st) (clock i) SWEEP_BATCH) = SWEEP_BATCH" "settled \<noteq> []"
      "sweep remove_ok clock (i + 1) n ?st2 = (r, st')"
    | (stop) "st' = ?st2"
    using 1(3) by (auto simp: unfold split: option.splits if_splits)
  then show ?case
  proof cases
    case more
    from 1(2)[OF more] same removed show ?thesis by auto
  next
    case stop
    with same removed show ?thesis by simp
  qed
qed

lemma due_deletions_all:
  assumes "length (due_deletions d now n) \<noteq> n" "(h, due) \<in> set (deletions d)" "due < now" "int n \<le> i64_max"
  shows "h \<in> set (due_deletions d now n)"
proof -
  let ?due = "map fst (order_by (\<lambda>(h, due). (due, h)) (filter (\<lambda>(h, due). due < now) (deletions d)))"
  have "due_deletions d now n = take n ?due" using assms(4) by (simp add: due_deletions_def)
  then have "due_deletions d now n = ?due" using assms(1) by (simp add: min_def split: if_splits)
  moreover have "h \<in> set ?due"
    unfolding set_map by (rule image_eqI[of _ _ "(h, due)"]) (simp_all add: assms(2,3))
  ultimately show ?thesis by simp
qed

lemma sweep_shrinks:
  assumes "sweep remove_ok clock i deleted st = (r, st')"
  shows "sw_stored st' \<subseteq> sw_stored st"
  using assms
proof (induction i deleted st rule: sweep_induct[of remove_ok clock])
  case (1 i deleted st f n settled st1)
  note unfold = sweep_unfold[where clock = clock, OF 1(1), unfolded Let_def]
  show ?case
    using 1(2,3) sweep_batch_safe[OF 1(1)] by (force simp: unfold split: option.splits if_splits)
qed

text \<open>The published example with an unreferenced artifact queued and stored.\<close>

definition ex_sweep :: sweep_state where
  "ex_sweep = \<lparr>sw_db = queue_deletions ex_published [ex_hash (CHR ''9''), ex_hash (CHR ''1'')] 5,
     sw_pins = new_pins, sw_stored = {ex_hash (CHR ''9''), ex_hash (CHR ''1'')}\<rparr>"

text \<open>
  A sweep removes only artifacts that no repository names and no build pins, and leaves the
  references and the pins as they were.
\<close>

theorem sweep_removes_unused:
  assumes "sweep remove_ok clock i deleted st = (r, st')"
  shows "artifact_refs (sw_db st') = artifact_refs (sw_db st) \<and> sw_pins st' = sw_pins st
    \<and> sw_stored st' \<subseteq> sw_stored st
    \<and> (\<forall>x \<in> sw_stored st - sw_stored st'. \<not> referenced (sw_db st) x \<and> pinned (sw_pins st) x = None)"
  using sweep_stored[OF assms] sweep_shrinks[OF assms] by blast

theorem sweep_removes_unused_witness:
  "fst (sweep (\<lambda>_. True) (\<lambda>_. 10) 0 0 ex_sweep) = Inr 1
   \<and> sw_stored (snd (sweep (\<lambda>_. True) (\<lambda>_. 10) 0 0 ex_sweep)) = {ex_hash (CHR ''1'')}
   \<and> \<not> referenced (sw_db ex_sweep) (ex_hash (CHR ''9''))"
proof -
  have run: "fst (sweep (\<lambda>_. True) (\<lambda>_. 10) 0 0 ex_sweep) = Inr 1"
    "sw_stored (snd (sweep (\<lambda>_. True) (\<lambda>_. 10) 0 0 ex_sweep)) = {ex_hash (CHR ''1'')}"
    by code_simp+
  moreover have "ex_hash (CHR ''9'') \<in> sw_stored ex_sweep - {ex_hash (CHR ''1'')}" by code_simp
  ultimately show ?thesis
    using sweep_removes_unused[of "\<lambda>_. True" "\<lambda>_. 10" 0 0 ex_sweep, OF surjective_pairing] by metis
qed



section \<open>Builds, sweeps and the control store together\<close>

text \<open>
  One server's state: the control database, the pins, the stored artifacts, what each build
  holds pinned and what it relies on (pinned artifacts it stored or found stored), and the
  artifacts whose deletion has passed the \<open>deletable\<close> check.
\<close>

record server =
  sv_db :: db
  sv_pins :: pins_state
  sv_stored :: "string set"
  sv_held :: "nat \<Rightarrow> string set"
  sv_relied :: "nat \<Rightarrow> string set"
  sv_checked :: "string set"

text \<open>
  Steps.  A build pins an artifact before it stores it or finds it stored.  It publishes an
  output, or refs, whose artifacts it relies on or the repository names already.  When it is
  over it drops its pins one at a time.  A sweep marks an artifact, checks it, removes it and
  drops the mark; a check that fails, or a removal that fails, drops the mark.  Every other
  operation of the control store records no new artifact.
\<close>

inductive sys_step :: "store \<Rightarrow> server \<Rightarrow> server \<Rightarrow> bool" for s where
  sys_pin: "h \<notin> sv_held v b \<Longrightarrow> pins_pin h (sv_pins v) = Some p \<Longrightarrow>
    sys_step s v (v\<lparr>sv_pins := p, sv_held := (sv_held v)(b := insert h (sv_held v b))\<rparr>)"
| sys_store: "h \<in> sv_held v b \<Longrightarrow>
    sys_step s v (v\<lparr>sv_stored := insert h (sv_stored v),
      sv_relied := (sv_relied v)(b := insert h (sv_relied v b))\<rparr>)"
| sys_publish: "(\<And>h. h \<in> set (output_artifacts out) \<Longrightarrow> h \<in> sv_relied v b
      \<or> (storage_key (cl_repo c), h) \<in> set (artifact_refs (sv_db v))) \<Longrightarrow>
    sys_step s v (v\<lparr>sv_db := snd (publish (sv_db v) c out)\<rparr>)"
| sys_set_refs: "(\<And>h. h \<in> set (refs_artifacts refs) \<Longrightarrow> h \<in> sv_relied v b
      \<or> (storage_key repo, h) \<in> set (artifact_refs (sv_db v))) \<Longrightarrow>
    sys_step s v (v\<lparr>sv_db := snd (set_refs (sv_db v) repo refs)\<rparr>)"
| sys_over: "sys_step s v (v\<lparr>sv_relied := (sv_relied v)(b := {})\<rparr>)"
| sys_unpin: "h \<in> sv_held v b \<Longrightarrow> sv_relied v b = {} \<Longrightarrow>
    sys_step s v (v\<lparr>sv_pins := unpin h (sv_pins v),
      sv_held := (sv_held v)(b := sv_held v b - {h})\<rparr>)"
| sys_control: "control_step s (sv_db v) d \<Longrightarrow> set (artifact_refs d) \<subseteq> set (artifact_refs (sv_db v)) \<Longrightarrow>
    sys_step s v (v\<lparr>sv_db := d\<rparr>)"
| sys_begin: "begin_delete h (sv_pins v) = Some p \<Longrightarrow> sys_step s v (v\<lparr>sv_pins := p\<rparr>)"
| sys_check: "h \<in> deleting (sv_pins v) \<Longrightarrow> deletable (sv_db v) h now \<Longrightarrow>
    sys_step s v (v\<lparr>sv_checked := insert h (sv_checked v)\<rparr>)"
| sys_remove: "h \<in> sv_checked v \<Longrightarrow> sys_step s v (v\<lparr>sv_stored := sv_stored v - {h}\<rparr>)"
| sys_end: "h \<in> deleting (sv_pins v) \<Longrightarrow>
    sys_step s v (v\<lparr>sv_pins := end_delete h (sv_pins v), sv_checked := sv_checked v - {h}\<rparr>)"

definition sys_init :: "store \<Rightarrow> server \<Rightarrow> bool" where
  "sys_init s v \<longleftrightarrow> opened s (sv_db v) \<and> sv_pins v = new_pins \<and> sv_stored v = {}
     \<and> sv_held v = (\<lambda>_. {}) \<and> sv_relied v = (\<lambda>_. {}) \<and> sv_checked v = {}"

text \<open>The pin count of an artifact is the number of builds that hold it.\<close>

definition holders :: "server \<Rightarrow> string \<Rightarrow> nat set" where
  "holders v h = {b. h \<in> sv_held v b}"

definition sys_ok :: "server \<Rightarrow> bool" where
  "sys_ok v \<longleftrightarrow> pins_ok (sv_pins v)
     \<and> (\<forall>h. finite (holders v h) \<and> pin_count (sv_pins v) h = card (holders v h))
     \<and> (\<forall>b. sv_relied v b \<subseteq> sv_held v b \<inter> sv_stored v)
     \<and> sv_checked v \<subseteq> deleting (sv_pins v)
     \<and> (\<forall>h \<in> sv_checked v. \<not> referenced (sv_db v) h)
     \<and> (\<forall>h. referenced (sv_db v) h \<longrightarrow> h \<in> sv_stored v)"

lemma publish_refs:
  "set (artifact_refs (snd (publish d c out))) \<subseteq> set (artifact_refs d)
     \<union> Pair (storage_key (cl_repo c)) ` set (output_artifacts out)"
  by (auto simp: publish_def Let_def record_refs_def set_fold_record_ref split: option.splits)

lemma set_refs_refs:
  "set (artifact_refs (snd (set_refs d repo refs))) \<subseteq> set (artifact_refs d)
     \<union> Pair (storage_key repo) ` set (refs_artifacts refs)"
  by (auto simp: set_refs_def Let_def record_refs_def set_fold_record_ref split: sum.splits)

lemma referenced_set: "referenced d h \<longleftrightarrow> h \<in> snd ` set (artifact_refs d)"
  by (force simp: referenced_def list_ex_iff)

lemma relied_not_deleting:
  assumes "sys_ok v" "h \<in> sv_relied v b"
  shows "h \<notin> deleting (sv_pins v)"
proof
  assume "h \<in> deleting (sv_pins v)"
  then have "pin_count (sv_pins v) h = 0" using assms(1) by (auto simp: sys_ok_def pins_ok_def pin_count_def)
  moreover have "b \<in> holders v h" using assms by (auto simp: sys_ok_def holders_def)
  ultimately show False using assms(1) by (auto simp: sys_ok_def)
qed

lemma checked_not_relied: "sys_ok v \<Longrightarrow> h \<in> sv_checked v \<Longrightarrow> h \<notin> sv_relied v b"
  using relied_not_deleting[of v h b] unfolding sys_ok_def by blast

text \<open>
  New references are safe when they are to artifacts the build relies on: those are pinned, so
  none is marked for deletion, and stored.
\<close>

lemma sys_ok_db:
  assumes ok: "sys_ok v"
    and refs: "\<And>h. referenced d h \<Longrightarrow> referenced (sv_db v) h \<or> (\<exists>b. h \<in> sv_relied v b)"
  shows "sys_ok (v\<lparr>sv_db := d\<rparr>)"
proof -
  have relied: "h \<in> sv_stored v \<and> h \<notin> deleting (sv_pins v)" if "h \<in> sv_relied v b" for h b
    using relied_not_deleting[OF ok that] ok that by (auto simp: sys_ok_def)
  have "\<not> referenced d h" if "h \<in> sv_checked v" for h
    using refs[of h] that checked_not_relied[OF ok that] ok unfolding sys_ok_def by blast
  moreover have "h \<in> sv_stored v" if "referenced d h" for h
    using refs[OF that] ok relied by (auto simp: sys_ok_def)
  ultimately show ?thesis using ok by (simp add: sys_ok_def holders_def)
qed

lemma sys_ok_pin:
  assumes ok: "sys_ok v" and h: "h \<notin> sv_held v b" "pins_pin h (sv_pins v) = Some p"
  shows "sys_ok (v\<lparr>sv_pins := p, sv_held := (sv_held v)(b := insert h (sv_held v b))\<rparr>)"
proof -
  let ?v = "v\<lparr>sv_pins := p, sv_held := (sv_held v)(b := insert h (sv_held v b))\<rparr>"
  have nb: "b \<notin> holders v h" using h(1) by (simp add: holders_def)
  have hold: "holders ?v x = (if x = h then insert b (holders v x) else holders v x)" for x
    by (auto simp: holders_def)
  have "finite (holders ?v x) \<and> pin_count p x = card (holders ?v x)" for x
    using ok nb pins_pin_count[OF h(2), of x] by (auto simp: hold sys_ok_def)
  moreover have "deleting p = deleting (sv_pins v)" using pins_pin_deleting[OF h(2)] by simp
  moreover have "sv_relied v x \<subseteq> sv_held ?v x \<inter> sv_stored v" for x using ok by (auto simp: sys_ok_def)
  ultimately show ?thesis using ok pins_pin_ok[OF h(2)] by (simp add: sys_ok_def)
qed

lemma sys_ok_unpin:
  assumes ok: "sys_ok v" and h: "h \<in> sv_held v b" "sv_relied v b = {}"
  shows "sys_ok (v\<lparr>sv_pins := unpin h (sv_pins v), sv_held := (sv_held v)(b := sv_held v b - {h})\<rparr>)"
proof -
  let ?v = "v\<lparr>sv_pins := unpin h (sv_pins v), sv_held := (sv_held v)(b := sv_held v b - {h})\<rparr>"
  have nb: "b \<in> holders v h" using h(1) by (simp add: holders_def)
  have hold: "holders ?v x = (if x = h then holders v x - {b} else holders v x)" for x
    by (auto simp: holders_def)
  have "finite (holders ?v x) \<and> pin_count (unpin h (sv_pins v)) x = card (holders ?v x)" for x
    using ok nb unpin_count[of h "sv_pins v" x] by (auto simp: hold sys_ok_def)
  moreover have "sv_relied v x \<subseteq> sv_held ?v x \<inter> sv_stored v" for x
    using ok h(2) by (auto simp: sys_ok_def)
  ultimately show ?thesis using ok unpin_ok by (simp add: sys_ok_def)
qed

lemma sys_ok_step: "sys_step s v v' \<Longrightarrow> sys_ok v \<Longrightarrow> sys_ok v'"
proof (induction rule: sys_step.induct)
  case (sys_publish out v b c)
  show ?case
  proof (rule sys_ok_db[OF sys_publish(2)])
    fix h assume "referenced (snd (publish (sv_db v) c out)) h"
    then show "referenced (sv_db v) h \<or> (\<exists>b. h \<in> sv_relied v b)"
      using publish_refs[of "sv_db v" c out] sys_publish(1)[of h] by (force simp: referenced_set)
  qed
next
  case (sys_set_refs refs v b repo)
  show ?case
  proof (rule sys_ok_db[OF sys_set_refs(2)])
    fix h assume "referenced (snd (set_refs (sv_db v) repo refs)) h"
    then show "referenced (sv_db v) h \<or> (\<exists>b. h \<in> sv_relied v b)"
      using set_refs_refs[of "sv_db v" repo refs] sys_set_refs(1)[of h] by (force simp: referenced_set)
  qed
next
  case (sys_control v d)
  then show ?case by (intro sys_ok_db) (auto simp: referenced_set)
next
  case (sys_begin h v p)
  then show ?case using begin_delete_ok[of h "sv_pins v" p] begin_delete_Some[of h "sv_pins v" p]
    by (auto simp: sys_ok_def holders_def pin_count_def)
next
  case (sys_check h v now)
  then show ?case by (auto simp: sys_ok_def holders_def deletable_def)
next
  case (sys_remove h v)
  then have "h \<notin> sv_relied v b" for b by (simp add: checked_not_relied)
  with sys_remove show ?case by (auto simp: sys_ok_def holders_def)
next
  case (sys_end h v)
  then show ?case by (auto simp: sys_ok_def holders_def end_delete_ok)
next
  case (sys_store h v b)
  then show ?case by (auto simp: sys_ok_def holders_def)
next
  case (sys_over v b)
  then show ?case by (auto simp: sys_ok_def holders_def)
qed (simp_all add: sys_ok_pin sys_ok_unpin)

lemma sys_ok_init: "sys_init s v \<Longrightarrow> sys_ok v"
  by (auto simp: sys_init_def sys_ok_def holders_def pin_count_def new_pins_def pins_ok_def opened_def
      empty_db_def referenced_def)

interpretation deletion: invariant_system "sys_init s" "sys_step s" sys_ok for s
  by unfold_locales (auto simp: sys_ok_init sys_ok_step)

lemma reach_control:
  "reach (sys_init s) (sys_step s) v \<Longrightarrow> control_step s (sv_db v) d \<Longrightarrow>
     set (artifact_refs d) \<subseteq> set (artifact_refs (sv_db v)) \<Longrightarrow>
     reach (sys_init s) (sys_step s) (v\<lparr>sv_db := d\<rparr>)"
  by (rule reach_step, assumption) (rule sys_control)

text \<open>A build can come to rely on any artifacts while nothing is being deleted.\<close>

lemma build_can_rely:
  assumes "reach (sys_init s) (sys_step s) v" "deleting (sv_pins v) = {}"
  shows "\<exists>v'. reach (sys_init s) (sys_step s) v' \<and> sv_db v' = sv_db v \<and> deleting (sv_pins v') = {}
    \<and> set hs \<subseteq> sv_relied v' b"
proof (induction hs)
  case Nil
  then show ?case using assms by auto
next
  case (Cons h hs)
  then obtain v1 where v1: "reach (sys_init s) (sys_step s) v1" "sv_db v1 = sv_db v"
    "deleting (sv_pins v1) = {}" "set hs \<subseteq> sv_relied v1 b" by blast
  have "\<exists>v2. reach (sys_init s) (sys_step s) v2 \<and> sv_db v2 = sv_db v \<and> deleting (sv_pins v2) = {}
      \<and> sv_relied v2 = sv_relied v1 \<and> h \<in> sv_held v2 b"
  proof (cases "h \<in> sv_held v1 b")
    case False
    obtain p where "pins_pin h (sv_pins v1) = Some p" "deleting p = {}"
      using v1(3) by (simp add: pins_pin_def)
    then show ?thesis
      using reach_step[OF v1(1) sys_pin[OF False]] v1(2) by fastforce
  qed (use v1 in blast)
  then obtain v2 where v2: "reach (sys_init s) (sys_step s) v2" "sv_db v2 = sv_db v"
    "deleting (sv_pins v2) = {}" "sv_relied v2 = sv_relied v1" "h \<in> sv_held v2 b" by blast
  from reach_step[OF v2(1) sys_store[OF v2(5)]] v2 v1(4) show ?case by fastforce
qed



end
