(* ===== verification/Put_Limit.thy ===== *)
theory Put_Limit
  imports Prelude
begin

text \<open>
  The limit on concurrent PUTs of \<open>src/rust/src/storage/put_limit.rs\<close>: a semaphore whose size
  follows the bucket's throttling.  Each method is one critical section of the state's mutex;
  \<open>acquire\<close> takes its slot from the semaphore first and reads the round afterwards, so it is two
  steps.  A report (\<open>succeeded\<close>, \<open>throttled\<close>) consumes the permit, which is then dropped.
\<close>

record put_limit =
  slots :: nat
  pl_max :: nat
  limit :: nat
  successes :: nat
  round :: nat
  debt :: nat

definition put_limit_new :: "nat \<Rightarrow> put_limit" where
  "put_limit_new m =
     (let m' = max m 1 in
      \<lparr>slots = m', pl_max = m', limit = m', successes = 0, round = 0, debt = 0\<rparr>)"

text \<open>The semaphore's part of \<open>acquire\<close>: it waits while there is no slot.\<close>

definition take_slot :: "put_limit \<Rightarrow> put_limit option" where
  "take_slot l = (if slots l = 0 then None else Some (l\<lparr>slots := slots l - 1\<rparr>))"

definition put_succeeded :: "put_limit \<Rightarrow> put_limit" where
  "put_succeeded l =
     (let l1 = l\<lparr>successes := successes l + 1\<rparr> in
      if successes l1 \<ge> limit l1 \<and> limit l1 < pl_max l1
      then (let l2 = l1\<lparr>successes := 0, limit := limit l1 + 1\<rparr> in
            if debt l2 > 0 then l2\<lparr>debt := debt l2 - 1\<rparr> else l2\<lparr>slots := slots l2 + 1\<rparr>)
      else l1)"

text \<open>\<open>forget_permits\<close> takes away as many free slots as there are, up to \<open>cut\<close>.\<close>

definition put_throttled :: "nat \<Rightarrow> put_limit \<Rightarrow> put_limit" where
  "put_throttled permit_round l =
     (if permit_round = round l
      then (let new_limit = max (limit l div 2) 1; cut = limit l - new_limit;
                forgotten = min cut (slots l)
            in l\<lparr>limit := new_limit, successes := 0, round := round l + 1,
                 slots := slots l - forgotten, debt := debt l + (cut - forgotten)\<rparr>)
      else l)"

definition drop_permit :: "put_limit \<Rightarrow> put_limit" where
  "drop_permit l = (if debt l > 0 then l\<lparr>debt := debt l - 1\<rparr> else l\<lparr>slots := slots l + 1\<rparr>)"

section \<open>Interleaved PUTs\<close>

text \<open>
  The limit with the PUTs that use it: slots taken whose round is not read yet, and permits
  with their round.
\<close>

record put_sys =
  lim :: put_limit
  waiting :: nat
  permits :: "nat list"

definition in_flight :: "put_sys \<Rightarrow> nat" where
  "in_flight s = waiting s + length (permits s)"

inductive put_step :: "put_sys \<Rightarrow> put_sys \<Rightarrow> bool" where
  put_take: "take_slot (lim s) = Some l \<Longrightarrow> put_step s (s\<lparr>lim := l, waiting := waiting s + 1\<rparr>)"
| put_read_round: "0 < waiting s \<Longrightarrow>
    put_step s (s\<lparr>waiting := waiting s - 1, permits := round (lim s) # permits s\<rparr>)"
| put_success: "permits s = ps @ r # qs \<Longrightarrow>
    put_step s (s\<lparr>lim := drop_permit (put_succeeded (lim s)), permits := ps @ qs\<rparr>)"
| put_throttle: "permits s = ps @ r # qs \<Longrightarrow>
    put_step s (s\<lparr>lim := drop_permit (put_throttled r (lim s)), permits := ps @ qs\<rparr>)"
| put_drop: "permits s = ps @ r # qs \<Longrightarrow>
    put_step s (s\<lparr>lim := drop_permit (lim s), permits := ps @ qs\<rparr>)"

inductive_cases put_step_cases: "put_step s s'"

definition put_init :: "put_sys \<Rightarrow> bool" where
  "put_init s \<longleftrightarrow> (\<exists>m. s = \<lparr>lim = put_limit_new m, waiting = 0, permits = []\<rparr>)"

definition limit_ok :: "put_limit \<Rightarrow> nat \<Rightarrow> bool" where
  "limit_ok l held \<longleftrightarrow> 1 \<le> limit l \<and> limit l \<le> pl_max l \<and> slots l + held = limit l + debt l
     \<and> limit l + debt l \<le> pl_max l \<and> (0 < debt l \<longrightarrow> slots l = 0)"

definition put_ok :: "put_sys \<Rightarrow> bool" where
  "put_ok s \<longleftrightarrow> limit_ok (lim s) (in_flight s)"

lemma limit_ok_new: "limit_ok (put_limit_new m) 0"
  by (simp add: limit_ok_def put_limit_new_def Let_def)

lemma limit_ok_take: "limit_ok l held \<Longrightarrow> take_slot l = Some l' \<Longrightarrow> limit_ok l' (held + 1)"
  by (auto simp: limit_ok_def take_slot_def split: if_splits)

lemma limit_ok_succeeded: "limit_ok l held \<Longrightarrow> limit_ok (put_succeeded l) held"
  by (auto simp: limit_ok_def put_succeeded_def Let_def)

lemma limit_ok_throttled:
  assumes "limit_ok l held"
  shows "limit_ok (put_throttled r l) held"
proof (cases "r = round l")
  case True
  then show ?thesis
    using assms by (cases "limit l - max (limit l div 2) 1 \<le> slots l")
      (auto simp: limit_ok_def put_throttled_def Let_def max_def min_def)
qed (use assms in \<open>simp add: put_throttled_def\<close>)

lemma limit_ok_drop: "limit_ok l (held + 1) \<Longrightarrow> limit_ok (drop_permit l) held"
  by (auto simp: limit_ok_def drop_permit_def)

lemma put_ok_init: "put_init s \<Longrightarrow> put_ok s"
  by (auto simp: put_init_def put_ok_def in_flight_def limit_ok_new)

lemma put_ok_step: "put_step s s' \<Longrightarrow> put_ok s \<Longrightarrow> put_ok s'"
  by (induction rule: put_step.induct)
    (auto simp: put_ok_def in_flight_def
      intro!: limit_ok_drop limit_ok_succeeded limit_ok_throttled dest: limit_ok_take)

interpretation put_limiter: invariant_system put_init put_step put_ok
  by unfold_locales (auto simp: put_ok_init put_ok_step)

section \<open>Properties\<close>



text \<open>
  One round of throttling halves the limit once: whatever the PUTs sent before a halving
  report, only a PUT whose permit was issued after it halves the limit again, and the limit
  never falls below one.
\<close>

theorem throttled_once_per_round:
  "limit (put_throttled r (put_throttled r l)) = limit (put_throttled r l)
   \<and> (r = round l \<longrightarrow> limit (put_throttled r l) = max (limit l div 2) 1
        \<and> round (put_throttled r l) = round l + 1)"
  by (simp add: put_throttled_def Let_def)

theorem throttled_once_per_round_witness:
  "limit (put_throttled 0 (put_throttled 0 (put_limit_new 8))) = 4"
  using throttled_once_per_round[of 0 "put_limit_new 8"] by (simp add: put_limit_new_def)

end
