(* ===== verification/Manifest.thy ===== *)
theory Manifest
  imports Prelude Sql "HOL-Library.Multiset"
begin

text \<open>
  The clonepack manifest: the file and frame tables of \<open>src/rust/src/manifest.rs\<close>, the manifest
  helpers of \<open>src/rust/src/clonepack.rs\<close> and the path check of \<open>src/rust/src/fsutil.rs\<close> that every
  table passes before a client uses it.  The messages are those of
  \<open>src/rust/proto/clonepack.proto\<close>, with their integers at their width; encoding and
  compression are the work of \<open>prost\<close> and \<open>zstd\<close> and not modelled.  A \<open>HashMap\<close> collected from
  a list keeps the last value of a key.
\<close>

section \<open>Checked arithmetic\<close>

definition checked_add_u32 :: "32 word \<Rightarrow> 32 word \<Rightarrow> 32 word option" where
  "checked_add_u32 a b = (if unat a + unat b < 2 ^ 32 then Some (a + b) else None)"

definition checked_add_u64 :: "64 word \<Rightarrow> 64 word \<Rightarrow> 64 word option" where
  "checked_add_u64 a b = (if unat a + unat b < 2 ^ 64 then Some (a + b) else None)"

definition u64_of_u32 :: "32 word \<Rightarrow> 64 word" where
  "u64_of_u32 a = ucast a"

lemma unat_of_u32 [simp]: "unat (u64_of_u32 a) = unat a"
proof -
  have "unat a < 2 ^ LENGTH(32)" by (rule unsigned_less)
  then have "unat a < 2 ^ 64" by simp
  then show ?thesis by (simp add: u64_of_u32_def unsigned_ucast_eq take_bit_nat_eq_self)
qed

lemma checked_add_u32_Some: "checked_add_u32 a b = Some c \<Longrightarrow> unat c = unat a + unat b"
  by (auto simp: checked_add_u32_def unat_word_ariths split: if_splits)

lemma checked_add_u64_Some: "checked_add_u64 a b = Some c \<Longrightarrow> unat c = unat a + unat b"
  by (auto simp: checked_add_u64_def unat_word_ariths split: if_splits)

section \<open>Paths\<close>

text \<open>
  \<open>Path::components\<close> on Unix: repeated and trailing separators vanish, and so does a \<open>.\<close> that
  is not the first component.
\<close>

datatype path_component = RootDir | CurDir | ParentDir | NormalComp string

definition component_of :: "string \<Rightarrow> path_component" where
  "component_of part = (if part = ''..'' then ParentDir else NormalComp part)"

definition inner_components :: "string list \<Rightarrow> path_component list" where
  "inner_components parts = map component_of (filter (\<lambda>p. p \<noteq> [] \<and> p \<noteq> ''.'') parts)"

definition path_components :: "string \<Rightarrow> path_component list" where
  "path_components path =
     (case split_on (CHR ''/'') path of
        [] \<Rightarrow> []
      | first # rest \<Rightarrow>
          if path \<noteq> [] \<and> first = [] then RootDir # inner_components rest
          else if first = ''.'' then CurDir # inner_components rest
          else inner_components (first # rest))"

datatype path_error = PathEmpty | PathAbsolute | PathParentDir | PathDotGit | PathInvalid | PathNul

definition eq_ignore_ascii_case :: "string \<Rightarrow> string \<Rightarrow> bool" where
  "eq_ignore_ascii_case a b = (map to_ascii_lower a = map to_ascii_lower b)"

fun check_components :: "path_component list \<Rightarrow> (path_error, unit) result" where
  "check_components [] = Inr ()"
| "check_components (ParentDir # cs) = Inl PathParentDir"
| "check_components (NormalComp name # cs) =
     (if eq_ignore_ascii_case name ''.git'' then Inl PathDotGit else check_components cs)"
| "check_components (_ # cs) = Inl PathInvalid"

definition validate_relative_path :: "string \<Rightarrow> (path_error, unit) result" where
  "validate_relative_path path =
     (if path = [] then Inl PathEmpty
      else if starts_with path ''/'' then Inl PathAbsolute
      else rbind (check_components (path_components path)) (\<lambda>_.
        if CHR 0x00 \<in> set path then Inl PathNul else Inr ()))"

section \<open>Tables\<close>

record Fragment =
  frame_index :: "32 word"
  frame_offset :: "32 word"
  frag_raw_len :: "32 word"

record FileEntry =
  fe_path :: string
  fe_mode :: "32 word"
  fe_blob_sha1 :: "8 word list"
  fe_fragments :: "Fragment list"

record FrameInfo =
  chunk_index :: "32 word"
  chunk_offset :: "64 word"
  compressed_len :: "32 word"
  frame_raw_len :: "32 word"

record MetadataChunk =
  mc_frames :: "FrameInfo list"
  mc_files :: "FileEntry list"
  mc_gitlinks :: "string list"

datatype manifest_error =
    IllegalMode string | EmptyFilePath nat | UnsafePath path_error | DuplicatePath string
  | BlobLength string | NoFragments string | MissingFrame nat | FragmentOverflow
  | FragmentPastFrame nat | EmptyGitlink | FrameOverflow nat | FirstFrame | ChunkBackwards nat
  | NotContiguous nat | ChunkGap nat | FrameMapLength | MissingBundle | TooManyFrames
  | MapNamesMissingFrame | DroppedFrame string | RemovesMissing | TotalOverflow
  | ChunkIndexGap | MissingIdx nat | NotInBundle nat | OffsetOverflow | OutOfBundle nat
  | IdxHashMismatch nat

type_synonym 'a mresult = "(manifest_error, 'a) result"

text \<open>Octal 100644, 100755 and 120000.\<close>

definition ALLOWED_MODES :: "32 word list" where
  "ALLOWED_MODES = [33188, 33261, 40960]"

definition map_path_error :: "(path_error, unit) result \<Rightarrow> unit mresult" where
  "map_path_error r = (case r of Inl e \<Rightarrow> Inl (UnsafePath e) | Inr u \<Rightarrow> Inr u)"

definition check_fragment :: "FrameInfo list \<Rightarrow> nat \<Rightarrow> Fragment \<Rightarrow> unit mresult" where
  "check_fragment frames i f =
     (if unat (frame_index f) \<ge> length frames then Inl (MissingFrame i)
      else rbind (ok_or FragmentOverflow (checked_add_u32 (frame_offset f) (frag_raw_len f))) (\<lambda>end.
        if end > frame_raw_len (frames ! unat (frame_index f)) then Inl (FragmentPastFrame i)
        else Inr ()))"

fun check_fragments :: "FrameInfo list \<Rightarrow> nat \<Rightarrow> Fragment list \<Rightarrow> unit mresult" where
  "check_fragments frames i [] = Inr ()"
| "check_fragments frames i (f # fs) =
     rbind (check_fragment frames i f) (\<lambda>_. check_fragments frames (i + 1) fs)"

fun check_files :: "FrameInfo list \<Rightarrow> nat \<Rightarrow> string list \<Rightarrow> FileEntry list \<Rightarrow> string list mresult" where
  "check_files frames i paths [] = Inr paths"
| "check_files frames i paths (e # es) =
     (if fe_mode e \<notin> set ALLOWED_MODES then Inl (IllegalMode (fe_path e))
      else if fe_path e = [] then Inl (EmptyFilePath i)
      else rbind (map_path_error (validate_relative_path (fe_path e))) (\<lambda>_.
        if fe_path e \<in> set paths then Inl (DuplicatePath (fe_path e))
        else if length (fe_blob_sha1 e) \<noteq> 20 then Inl (BlobLength (fe_path e))
        else if fe_fragments e = [] \<and> frames \<noteq> [] then Inl (NoFragments (fe_path e))
        else rbind (check_fragments frames 0 (fe_fragments e)) (\<lambda>_.
          check_files frames (i + 1) (fe_path e # paths) es)))"

fun check_gitlinks :: "string list \<Rightarrow> string list \<Rightarrow> unit mresult" where
  "check_gitlinks paths [] = Inr ()"
| "check_gitlinks paths (g # gs) =
     (if g = [] then Inl EmptyGitlink
      else rbind (map_path_error (validate_relative_path g)) (\<lambda>_.
        if g \<in> set paths then Inl (DuplicatePath g) else check_gitlinks (g # paths) gs))"

definition u32_saturating_succ :: "32 word \<Rightarrow> 32 word" where
  "u32_saturating_succ a = (if a = - 1 then a else a + 1)"

fun check_frames :: "nat \<Rightarrow> (32 word) option \<Rightarrow> 64 word \<Rightarrow> FrameInfo list \<Rightarrow> unit mresult" where
  "check_frames i previous_chunk previous_end [] = Inr ()"
| "check_frames i previous_chunk previous_end (f # fs) =
     rbind (ok_or (FrameOverflow i) (checked_add_u64 (chunk_offset f) (u64_of_u32 (compressed_len f)))) (\<lambda>end.
     rbind (case previous_chunk of
         None \<Rightarrow> if chunk_index f \<noteq> 0 \<or> chunk_offset f \<noteq> 0 then Inl FirstFrame else Inr ()
       | Some previous \<Rightarrow>
           if chunk_index f < previous then Inl (ChunkBackwards i)
           else if chunk_index f = previous
             then (if chunk_offset f \<noteq> previous_end then Inl (NotContiguous i) else Inr ())
           else if chunk_index f \<noteq> u32_saturating_succ previous \<or> chunk_offset f \<noteq> 0
             then Inl (ChunkGap i) else Inr ()) (\<lambda>_.
     check_frames (i + 1) (Some (chunk_index f)) end fs))"

definition validate_geometry :: "MetadataChunk \<Rightarrow> unit mresult" where
  "validate_geometry m =
     rbind (check_files (mc_frames m) 0 [] (mc_files m)) (\<lambda>paths.
     rbind (check_gitlinks paths (mc_gitlinks m)) (\<lambda>_.
     check_frames 0 None 0 (mc_frames m)))"

definition fragments_by_frame :: "MetadataChunk \<Rightarrow> (32 word \<times> (nat \<times> nat) list) list" where
  "fragments_by_frame m =
     fold (\<lambda>(k, at). upsert k [at] (\<lambda>l. l @ [at]))
       (concat (map (\<lambda>(i, e). map (\<lambda>(j, f). (frame_index f, (i, j))) (enumerate 0 (fe_fragments e)))
          (enumerate 0 (mc_files m)))) []"

section \<open>Frame maps and deltas\<close>

definition last_of :: "('k \<times> 'v) list \<Rightarrow> 'k \<Rightarrow> 'v option" where
  "last_of kvs = map_of (rev kvs)"

definition nth_opt :: "'a list \<Rightarrow> nat \<Rightarrow> 'a option" where
  "nth_opt xs i = (if i < length xs then Some (xs ! i) else None)"

definition frame_bundle :: "string list \<Rightarrow> FrameInfo \<Rightarrow> string mresult" where
  "frame_bundle bundles f = ok_or MissingBundle (nth_opt bundles (unat (chunk_index f)))"

definition frame_slots ::
    "FrameInfo list \<Rightarrow> string list \<Rightarrow> ((string \<times> 64 word) \<times> 32 word) list mresult" where
  "frame_slots to to_bundles =
     map_result (\<lambda>(i, f).
         rbind (ensure (i + 1 < 2 ^ 32) TooManyFrames) (\<lambda>_.
         rbind (frame_bundle to_bundles f) (\<lambda>b. Inr ((b, chunk_offset f), of_nat (i + 1)))))
       (enumerate 0 to)"

definition frame_map ::
    "FrameInfo list \<Rightarrow> string list \<Rightarrow> FrameInfo list \<Rightarrow> string list \<Rightarrow> (32 word) list mresult" where
  "frame_map from from_bundles to to_bundles =
     rbind (frame_slots to to_bundles) (\<lambda>at.
       map_result (\<lambda>f. rbind (frame_bundle from_bundles f) (\<lambda>b.
         Inr (case last_of at (b, chunk_offset f) of None \<Rightarrow> 0 | Some slot \<Rightarrow> slot))) from)"

definition compose_frame_maps :: "(32 word) list \<Rightarrow> (32 word) list \<Rightarrow> (32 word) list mresult" where
  "compose_frame_maps first second =
     map_result (\<lambda>slot. if slot = 0 then Inr 0
       else ok_or MapNamesMissingFrame (nth_opt second (unat slot - 1))) first"

record MetadataDelta =
  md_frames :: "FrameInfo list"
  md_base_frames :: "(32 word) list"
  md_files :: "FileEntry list"
  md_removed :: "string list"
  md_gitlinks :: "string list"

definition by_path :: "FileEntry list \<Rightarrow> string \<Rightarrow> FileEntry option" where
  "by_path fs = last_of (map (\<lambda>f. (fe_path f, f)) fs)"

definition frag_kept :: "(32 word) list \<Rightarrow> Fragment \<Rightarrow> Fragment \<Rightarrow> bool" where
  "frag_kept base_frames old new =
     (nth_opt base_frames (unat (frame_index old)) = Some (frame_index new + 1)
      \<and> frame_offset old = frame_offset new \<and> frag_raw_len old = frag_raw_len new)"

definition entry_kept :: "MetadataChunk \<Rightarrow> (32 word) list \<Rightarrow> FileEntry \<Rightarrow> bool" where
  "entry_kept base base_frames e =
     (case by_path (mc_files base) (fe_path e) of
        None \<Rightarrow> False
      | Some old \<Rightarrow> fe_mode old = fe_mode e \<and> fe_blob_sha1 old = fe_blob_sha1 e
          \<and> length (fe_fragments old) = length (fe_fragments e)
          \<and> list_all (\<lambda>(a, b). frag_kept base_frames a b) (zip (fe_fragments old) (fe_fragments e)))"

definition delta_between :: "MetadataChunk \<Rightarrow> (32 word) list \<Rightarrow> MetadataChunk \<Rightarrow> MetadataDelta mresult" where
  "delta_between base base_frames table =
     rbind (ensure (length base_frames = length (mc_frames base)) FrameMapLength) (\<lambda>_.
       Inr \<lparr>md_frames = mc_frames table, md_base_frames = base_frames,
            md_files = filter (\<lambda>f. \<not> entry_kept base base_frames f) (mc_files table),
            md_removed = map fe_path (filter (\<lambda>f. fe_path f \<notin> set (map fe_path (mc_files table)))
                           (mc_files base)),
            md_gitlinks = mc_gitlinks table\<rparr>)"

definition remap_fragment :: "MetadataDelta \<Rightarrow> string \<Rightarrow> Fragment \<Rightarrow> Fragment mresult" where
  "remap_fragment delta path f =
     rbind (ok_or MapNamesMissingFrame (nth_opt (md_base_frames delta) (unat (frame_index f)))) (\<lambda>slot.
     rbind (ensure (slot \<noteq> 0) (DroppedFrame path)) (\<lambda>_.
     Inr (f\<lparr>frame_index := slot - 1\<rparr>)))"

definition remap_entry :: "MetadataDelta \<Rightarrow> FileEntry \<Rightarrow> FileEntry mresult" where
  "remap_entry delta e =
     rbind (map_result (remap_fragment delta (fe_path e)) (fe_fragments e)) (\<lambda>fs.
       Inr (e\<lparr>fe_fragments := fs\<rparr>))"

text \<open>The loop over the base's entries: the files so far, the paths placed, and how many were removed.\<close>

fun apply_entries ::
    "MetadataDelta \<Rightarrow> FileEntry list \<Rightarrow> FileEntry list \<times> string list \<times> nat
       \<Rightarrow> (FileEntry list \<times> string list \<times> nat) mresult" where
  "apply_entries delta [] acc = Inr acc"
| "apply_entries delta (e # es) (files, placed, removed_seen) =
     (if fe_path e \<in> set (md_removed delta) then apply_entries delta es (files, placed, removed_seen + 1)
      else (case by_path (md_files delta) (fe_path e) of
        Some new \<Rightarrow> apply_entries delta es (files @ [new], fe_path e # placed, removed_seen)
      | None \<Rightarrow> rbind (remap_entry delta e) (\<lambda>e'.
          apply_entries delta es (files @ [e'], placed, removed_seen))))"

definition delta_apply :: "MetadataDelta \<Rightarrow> MetadataChunk \<Rightarrow> MetadataChunk mresult" where
  "delta_apply delta base =
     rbind (ensure (length (md_base_frames delta) = length (mc_frames base)) FrameMapLength) (\<lambda>_.
     rbind (apply_entries delta (mc_files base) ([], [], 0)) (\<lambda>(files, placed, removed_seen).
     rbind (ensure (removed_seen = length (remdups (md_removed delta))) RemovesMissing) (\<lambda>_.
       let table = \<lparr>mc_frames = md_frames delta,
                    mc_files = files @ filter (\<lambda>f. fe_path f \<notin> set placed) (md_files delta),
                    mc_gitlinks = md_gitlinks delta\<rparr>
       in rbind (validate_geometry table) (\<lambda>_. Inr table))))"

section \<open>Clonepack manifests\<close>

fun checked_total :: "64 word \<Rightarrow> Fragment list \<Rightarrow> 64 word mresult" where
  "checked_total acc [] = Inr acc"
| "checked_total acc (f # fs) =
     rbind (ok_or TotalOverflow (checked_add_u64 acc (u64_of_u32 (frag_raw_len f)))) (\<lambda>t. checked_total t fs)"

definition checked_total_len :: "FileEntry \<Rightarrow> 64 word mresult" where
  "checked_total_len e = checked_total 0 (fe_fragments e)"

record ChunkRef =
  cr_hash :: "8 word list"
  cr_len :: "64 word"

record PackEntry =
  pe_pack :: "ChunkRef option"
  pe_idx :: "ChunkRef option"
  pe_history_only :: bool
  pe_idx_bundle_offset :: "(64 word) option"

record ClonepackManifest =
  cm_commit :: string
  cm_parent_commit :: "string option"
  cm_metadata_chunk :: "ChunkRef option"
  cm_metadata_delta :: "ChunkRef option"
  cm_archive_chunks :: "ChunkRef list"
  cm_packs :: "PackEntry list"
  cm_midx :: "ChunkRef option"
  cm_idx_bundle :: "ChunkRef option"

definition opt_list :: "'a option \<Rightarrow> 'a list" where
  "opt_list x = (case x of None \<Rightarrow> [] | Some a \<Rightarrow> [a])"

definition manifest_chunk_refs :: "ClonepackManifest \<Rightarrow> ChunkRef list" where
  "manifest_chunk_refs m =
     opt_list (cm_metadata_chunk m) @ opt_list (cm_metadata_delta m) @ cm_archive_chunks m
     @ concat (map (\<lambda>p. opt_list (pe_pack p) @ opt_list (pe_idx p)) (cm_packs m))
     @ opt_list (cm_midx m) @ opt_list (cm_idx_bundle m)"

text \<open>
  \<open>hash\<close> is the CAS hash, SHA-256 of the \<open>sha2\<close> crate in hex, and \<open>hex_encode\<close> that of the
  \<open>hex\<close> crate, which \<open>hash_to_hex\<close> calls.
\<close>

definition manifest_pack_idx_bytes ::
    "(8 word list \<Rightarrow> string) \<Rightarrow> (string \<Rightarrow> string) \<Rightarrow> PackEntry \<Rightarrow> nat \<Rightarrow> string \<Rightarrow> string mresult" where
  "manifest_pack_idx_bytes hex_encode hash entry index idx_bundle =
     rbind (ok_or (MissingIdx index) (pe_idx entry)) (\<lambda>idx_ref.
     rbind (ok_or (NotInBundle index) (pe_idx_bundle_offset entry)) (\<lambda>off.
     rbind (ok_or OffsetOverflow (checked_add_u64 off (cr_len idx_ref))) (\<lambda>end.
       if \<not> unat end \<le> length idx_bundle then Inl (OutOfBundle index)
       else (let slice = take (unat (cr_len idx_ref)) (drop (unat off) idx_bundle) in
             if hash slice \<noteq> hex_encode (cr_hash idx_ref) then Inl (IdxHashMismatch index) else Inr slice))))"

fun chunk_lengths :: "(64 word) list \<Rightarrow> FrameInfo list \<Rightarrow> (64 word) list mresult" where
  "chunk_lengths lengths [] = Inr lengths"
| "chunk_lengths lengths (f # fs) =
     (let idx = unat (chunk_index f) in
      rbind (ok_or TotalOverflow (checked_add_u64 (chunk_offset f) (u64_of_u32 (compressed_len f)))) (\<lambda>end.
      rbind (if idx = length lengths then Inr (lengths @ [0])
             else if idx > length lengths then Inl ChunkIndexGap else Inr lengths) (\<lambda>lengths'.
      chunk_lengths (if end > lengths' ! idx then lengths'[idx := end] else lengths') fs)))"

definition archive_chunk_lengths :: "MetadataChunk \<Rightarrow> (64 word) list mresult" where
  "archive_chunk_lengths m = rbind (validate_geometry m) (\<lambda>_. chunk_lengths [] (mc_frames m))"

end
