(* ===== verification/Manifest_Props.thy ===== *)
theory Manifest_Props
  imports Manifest
begin

text \<open>
  What a validated table guarantees, and that a delta reproduces its table: the checks of
  \<open>validate_geometry\<close> as a predicate, archive chunk lengths, frame maps, the round trip of
  \<open>between\<close> and \<open>apply\<close>, and path safety.
\<close>

section \<open>Geometry as a predicate\<close>

definition frag_ok :: "FrameInfo list \<Rightarrow> Fragment \<Rightarrow> bool" where
  "frag_ok frames f \<longleftrightarrow> unat (frame_index f) < length frames
     \<and> unat (frame_offset f) + unat (frag_raw_len f) \<le> unat (frame_raw_len (frames ! unat (frame_index f)))"

definition entry_ok :: "FrameInfo list \<Rightarrow> FileEntry \<Rightarrow> bool" where
  "entry_ok frames e \<longleftrightarrow> fe_mode e \<in> set ALLOWED_MODES \<and> fe_path e \<noteq> []
     \<and> validate_relative_path (fe_path e) = Inr () \<and> length (fe_blob_sha1 e) = 20
     \<and> (frames \<noteq> [] \<longrightarrow> fe_fragments e \<noteq> []) \<and> (\<forall>f \<in> set (fe_fragments e). frag_ok frames f)"

lemma unat_u32_less: "unat (a :: 32 word) < 2 ^ 32"
proof -
  have "unat a < 2 ^ LENGTH(32)" by (rule unsigned_less)
  then show ?thesis by simp
qed

lemma check_fragment_ok: "check_fragment frames i f = Inr () \<longleftrightarrow> frag_ok frames f"
proof (cases "checked_add_u32 (frame_offset f) (frag_raw_len f)")
  case None
  then have "2 ^ 32 \<le> unat (frame_offset f) + unat (frag_raw_len f)"
    by (auto simp: checked_add_u32_def split: if_splits)
  then have "\<not> frag_ok frames f"
    using unat_u32_less[of "frame_raw_len (frames ! unat (frame_index f))"] by (simp add: frag_ok_def)
  with None show ?thesis by (simp add: check_fragment_def ok_or_def)
next
  case (Some e)
  then show ?thesis using checked_add_u32_Some[OF Some]
    by (auto simp: check_fragment_def ok_or_def frag_ok_def word_less_nat_alt)
qed

lemma check_fragments_ok:
  "check_fragments frames i fs = Inr () \<longleftrightarrow> (\<forall>f \<in> set fs. frag_ok frames f)"
  by (induction fs arbitrary: i) (auto simp: rbind_Inr check_fragment_ok)

lemma map_path_error_ok [simp]: "map_path_error r = Inr () \<longleftrightarrow> r = Inr ()"
  by (simp add: map_path_error_def split: sum.split)

lemma check_files_ok:
  "check_files frames i paths es = Inr ps \<longleftrightarrow> ps = rev (map fe_path es) @ paths
     \<and> (\<forall>e \<in> set es. entry_ok frames e) \<and> distinct (map fe_path es)
     \<and> set (map fe_path es) \<inter> set paths = {}"
proof (induction es arbitrary: i paths)
  case (Cons e es)
  show ?case
    by (auto simp: rbind_Inr Cons.IH check_fragments_ok entry_ok_def)
qed auto

lemma check_gitlinks_ok:
  "check_gitlinks paths gs = Inr () \<longleftrightarrow> (\<forall>g \<in> set gs. g \<noteq> [] \<and> validate_relative_path g = Inr ())
     \<and> distinct gs \<and> set gs \<inter> set paths = {}"
  by (induction gs arbitrary: paths) (auto simp: rbind_Inr)

lemma validate_geometry_ok:
  "validate_geometry m = Inr () \<longleftrightarrow>
     (\<forall>e \<in> set (mc_files m). entry_ok (mc_frames m) e) \<and> distinct (map fe_path (mc_files m))
     \<and> (\<forall>g \<in> set (mc_gitlinks m). g \<noteq> [] \<and> validate_relative_path g = Inr ())
     \<and> distinct (mc_gitlinks m) \<and> set (mc_gitlinks m) \<inter> set (map fe_path (mc_files m)) = {}
     \<and> check_frames 0 None 0 (mc_frames m) = Inr ()"
  by (auto simp: validate_geometry_def rbind_Inr check_files_ok check_gitlinks_ok)

section \<open>Archive chunks\<close>

definition chunk_sum :: "nat \<Rightarrow> FrameInfo list \<Rightarrow> nat" where
  "chunk_sum c fs = sum_list (map (\<lambda>f. unat (compressed_len f))
     (filter (\<lambda>f. unat (chunk_index f) = c) fs))"

lemma chunk_sum_Cons: "chunk_sum c (f # fs) =
    (if unat (chunk_index f) = c then unat (compressed_len f) else 0) + chunk_sum c fs"
  by (simp add: chunk_sum_def)

lemma check_frames_Cons:
  assumes "check_frames i (Some prev) pend (f # fs) = Inr ()"
  obtains e where "checked_add_u64 (chunk_offset f) (u64_of_u32 (compressed_len f)) = Some e"
    "unat e = unat (chunk_offset f) + unat (compressed_len f)"
    "(chunk_index f = prev \<and> chunk_offset f = pend)
       \<or> (unat (chunk_index f) = unat prev + 1 \<and> chunk_offset f = 0)"
    "check_frames (i + 1) (Some (chunk_index f)) e fs = Inr ()"
proof -
  from assms obtain e where e: "checked_add_u64 (chunk_offset f) (u64_of_u32 (compressed_len f)) = Some e"
    "check_frames (i + 1) (Some (chunk_index f)) e fs = Inr ()" by (auto simp: rbind_Inr)
  have "(chunk_index f = prev \<and> chunk_offset f = pend)
       \<or> (prev < chunk_index f \<and> chunk_index f = u32_saturating_succ prev \<and> chunk_offset f = 0)"
    using assms by (auto simp: rbind_Inr split: if_splits)
  moreover have "unat (chunk_index f) = unat prev + 1"
    if "prev < chunk_index f" "chunk_index f = u32_saturating_succ prev"
    using that by (auto simp: u32_saturating_succ_def word_less_nat_alt unat_word_ariths
        take_bit_nat_eq_self split: if_splits)
  ultimately show ?thesis using that[OF e(1) _ _ e(2)] checked_add_u64_Some[OF e(1)] by auto
qed

lemma chunk_lengths_sums:
  assumes "check_frames i (Some prev) pend fs = Inr ()"
    and "length ls = unat prev + 1" "ls ! unat prev = pend"
  shows "\<exists>ls'. chunk_lengths ls fs = Inr ls' \<and> length ls \<le> length ls'
    \<and> (\<forall>f \<in> set fs. unat (chunk_index f) < length ls')
    \<and> (\<forall>c < length ls'. unat (ls' ! c) = (if c < length ls then unat (ls ! c) else 0) + chunk_sum c fs)"
  using assms
proof (induction fs arbitrary: i prev pend ls)
  case Nil
  then show ?case by (simp add: chunk_sum_def)
next
  case (Cons f fs)
  from Cons.prems(1) obtain e where e:
    "checked_add_u64 (chunk_offset f) (u64_of_u32 (compressed_len f)) = Some e"
    "unat e = unat (chunk_offset f) + unat (compressed_len f)"
    "(chunk_index f = prev \<and> chunk_offset f = pend)
       \<or> (unat (chunk_index f) = unat prev + 1 \<and> chunk_offset f = 0)"
    "check_frames (i + 1) (Some (chunk_index f)) e fs = Inr ()"
    by (rule check_frames_Cons)
  let ?idx = "unat (chunk_index f)"
  define l1 where "l1 = (if ?idx = length ls then ls @ [0] else ls)"
  define l2 where "l2 = l1[?idx := e]"
  have len: "length l1 = ?idx + 1" and idx: "?idx = length ls \<or> ?idx + 1 = length ls"
    using e(3) Cons.prems(2) by (auto simp: l1_def)
  have old: "unat (l1 ! ?idx) = unat (chunk_offset f)"
    using e(3) Cons.prems(2,3) by (auto simp: l1_def nth_append)
  have step: "chunk_lengths ls (f # fs) = chunk_lengths l2 fs"
  proof -
    have upd: "(if e > l1 ! ?idx then l1[?idx := e] else l1) = l2"
    proof (cases "l1 ! ?idx < e")
      case False
      then have "l1 ! ?idx = e" using old e(2) by (simp add: word_less_nat_alt word_unat_eq_iff)
      then show ?thesis using False unfolding l2_def by (metis list_update_id)
    qed (simp add: l2_def)
    have grow: "(if ?idx = length ls then Inr (ls @ [0]) else if ?idx > length ls
        then Inl ChunkIndexGap else Inr ls) = Inr l1" using idx by (auto simp: l1_def)
    show ?thesis
      by (simp only: chunk_lengths.simps Let_def e(1) ok_or_def option.case rbind_simps grow upd)
  qed
  have "l2 ! ?idx = e" using len by (simp add: l2_def)
  with Cons.IH[OF e(4), of l2] len obtain ls' where ls':
    "chunk_lengths l2 fs = Inr ls'" "length l2 \<le> length ls'"
    "\<forall>f \<in> set fs. unat (chunk_index f) < length ls'"
    "\<forall>c < length ls'. unat (ls' ! c) = (if c < length l2 then unat (l2 ! c) else 0) + chunk_sum c fs"
    by (auto simp: l2_def)
  have "unat (ls' ! c) = (if c < length ls then unat (ls ! c) else 0) + chunk_sum c (f # fs)"
    if "c < length ls'" for c
  proof (cases "c = ?idx")
    case True
    then show ?thesis using ls'(4) that len e(2) old idx
      by (auto simp: l2_def chunk_sum_Cons l1_def nth_append)
  next
    case False
    then show ?thesis using ls'(4) that len idx
      by (auto simp: l2_def chunk_sum_Cons l1_def nth_append)
  qed
  moreover have "length ls \<le> length ls'" using ls'(2) len idx by (auto simp: l2_def)
  moreover have "?idx < length ls'" using ls'(2) len by (simp add: l2_def)
  ultimately show ?case using ls' step by auto
qed

section \<open>Example tables\<close>

definition ex_frame :: "64 word \<Rightarrow> FrameInfo" where
  "ex_frame off = \<lparr>chunk_index = 0, chunk_offset = off, compressed_len = 10, frame_raw_len = 100\<rparr>"

definition ex_file :: "string \<Rightarrow> 8 word \<Rightarrow> 32 word \<Rightarrow> FileEntry" where
  "ex_file path blob frame = \<lparr>fe_path = path, fe_mode = 33188, fe_blob_sha1 = replicate 20 blob,
     fe_fragments = [\<lparr>frame_index = frame, frame_offset = 0, frag_raw_len = 50\<rparr>]\<rparr>"

definition ex_base :: MetadataChunk where
  "ex_base = \<lparr>mc_frames = [ex_frame 0, ex_frame 10],
     mc_files = [ex_file ''a'' 1 0, ex_file ''b'' 2 1], mc_gitlinks = []\<rparr>"

definition ex_table :: MetadataChunk where
  "ex_table = \<lparr>mc_frames = [ex_frame 0, ex_frame 10],
     mc_files = [ex_file ''c'' 3 1, ex_file ''a'' 1 0], mc_gitlinks = [''sub'']\<rparr>"

lemma ex_tables_ok: "validate_geometry ex_base = Inr ()" "validate_geometry ex_table = Inr ()"
  by code_simp+

text \<open>
  For a validated table, the archive chunk lengths are always computed: there is one per
  chunk its frames name, and each is the sum of the compressed lengths of the chunk's frames.
\<close>

theorem archive_chunk_lengths_tile:
  assumes "validate_geometry m = Inr ()"
  shows "\<exists>ls. archive_chunk_lengths m = Inr ls
    \<and> (\<forall>f \<in> set (mc_frames m). unat (chunk_index f) < length ls)
    \<and> (\<forall>c < length ls. unat (ls ! c) = chunk_sum c (mc_frames m))"
proof (cases "mc_frames m")
  case Nil
  then show ?thesis using assms by (simp add: archive_chunk_lengths_def)
next
  case (Cons f fs)
  from assms have "check_frames 0 None 0 (f # fs) = Inr ()" by (simp add: validate_geometry_ok Cons)
  then obtain e where e: "checked_add_u64 0 (u64_of_u32 (compressed_len f)) = Some e"
    "chunk_index f = 0" "chunk_offset f = 0" "check_frames 1 (Some 0) e fs = Inr ()"
    by (auto simp: rbind_Inr split: if_splits)
  have "unat e = unat (compressed_len f)" using checked_add_u64_Some[OF e(1)] by simp
  moreover have "chunk_lengths [] (f # fs) = chunk_lengths [e] fs"
    using e by (cases "e = 0") (simp_all add: Let_def ok_or_def word_gt_0)
  ultimately show ?thesis
    using chunk_lengths_sums[OF e(4), of "[e]"] assms e(2)
    by (auto simp: archive_chunk_lengths_def Cons chunk_sum_Cons)
qed

theorem archive_chunk_lengths_tile_witness:
  "archive_chunk_lengths ex_base = Inr [20] \<and> chunk_sum 0 (mc_frames ex_base) = 20"
proof -
  have "archive_chunk_lengths ex_base = Inr [20]" by code_simp
  with archive_chunk_lengths_tile[OF ex_tables_ok(1)] show ?thesis by (auto simp: ex_base_def chunk_sum_def)
qed

section \<open>Deltas\<close>

lemma distinct_mapI: "distinct (map f xs) \<Longrightarrow> distinct xs"
  by (simp add: distinct_map)

lemma by_path_iff:
  assumes "distinct (map fe_path fs)"
  shows "by_path fs p = Some f \<longleftrightarrow> f \<in> set fs \<and> fe_path f = p"
proof -
  have "distinct (map fst (rev (map (\<lambda>f. (fe_path f, f)) fs)))"
    using assms by (simp add: comp_def flip: rev_map)
  then show ?thesis by (auto simp: by_path_def last_of_def)
qed

lemma by_path_None: "by_path fs p = None \<longleftrightarrow> p \<notin> set (map fe_path fs)"
  by (auto simp: by_path_def last_of_def map_of_eq_None_iff image_iff)

lemma map_result_zip:
  "length xs = length ys \<Longrightarrow> (\<And>x y. (x, y) \<in> set (zip xs ys) \<Longrightarrow> f x = Inr y) \<Longrightarrow> map_result f xs = Inr ys"
proof (induction xs ys rule: list_induct2)
  case (Cons x xs y ys)
  have "f x = Inr y" by (rule Cons.prems) simp
  moreover have "map_result f xs = Inr ys" by (rule Cons.IH) (simp add: Cons.prems)
  ultimately show ?case by simp
qed simp

lemma remap_fragment_kept:
  assumes "frag_kept (md_base_frames delta) old new" "frame_index new \<noteq> - 1"
  shows "remap_fragment delta p old = Inr new"
proof -
  have "frame_index new + 1 \<noteq> 0" using assms(2) by (metis add.commute add_eq_0_iff)
  with assms(1) show ?thesis
    by (cases old; cases new) (auto simp: frag_kept_def remap_fragment_def ok_or_def)
qed

lemma remap_entry_kept:
  assumes old: "by_path (mc_files base) (fe_path e) = Some old" "fe_path old = fe_path e"
    and kept: "entry_kept base (md_base_frames delta) e"
    and small: "\<And>f. f \<in> set (fe_fragments e) \<Longrightarrow> frame_index f \<noteq> - 1"
  shows "remap_entry delta old = Inr e"
proof -
  have "map_result (remap_fragment delta (fe_path old)) (fe_fragments old) = Inr (fe_fragments e)"
  proof (rule map_result_zip)
    show "length (fe_fragments old) = length (fe_fragments e)"
      using kept old by (simp add: entry_kept_def)
    fix x y assume xy: "(x, y) \<in> set (zip (fe_fragments old) (fe_fragments e))"
    then have "frag_kept (md_base_frames delta) x y"
      using kept old by (auto simp: entry_kept_def list_all_iff)
    then show "remap_fragment delta (fe_path old) x = Inr y"
      by (rule remap_fragment_kept) (rule small, rule set_zip_rightD[OF xy])
  qed
  moreover have "fe_mode old = fe_mode e" "fe_blob_sha1 old = fe_blob_sha1 e"
    using kept old by (simp_all add: entry_kept_def)
  ultimately show ?thesis using old(2) by (cases old; cases e) (simp add: remap_entry_def)
qed

text \<open>The loop over base entries, when each kept entry is remapped to \<open>at\<close> of its path.\<close>

lemma apply_entries_result:
  assumes "\<And>e. e \<in> set es \<Longrightarrow> fe_path e \<notin> set (md_removed delta) \<Longrightarrow>
      by_path (md_files delta) (fe_path e) = Some (at (fe_path e))
      \<or> (by_path (md_files delta) (fe_path e) = None \<and> remap_entry delta e = Inr (at (fe_path e)))"
  shows "\<exists>placed'. apply_entries delta es (files, placed, n) = Inr
      (files @ map (\<lambda>e. at (fe_path e)) (filter (\<lambda>e. fe_path e \<notin> set (md_removed delta)) es), placed',
       n + length (filter (\<lambda>e. fe_path e \<in> set (md_removed delta)) es))
    \<and> set placed' = set placed \<union> {p. \<exists>e \<in> set es. p = fe_path e \<and> p \<notin> set (md_removed delta)
        \<and> by_path (md_files delta) p \<noteq> None}"
  using assms
proof (induction es arbitrary: files placed n)
  case (Cons e es)
  consider (removed) "fe_path e \<in> set (md_removed delta)"
    | (changed) "fe_path e \<notin> set (md_removed delta)" "by_path (md_files delta) (fe_path e) = Some (at (fe_path e))"
    | (kept) "fe_path e \<notin> set (md_removed delta)" "by_path (md_files delta) (fe_path e) = None"
        "remap_entry delta e = Inr (at (fe_path e))"
    using Cons.prems[of e] by (metis list.set_intros(1))
  then show ?case
  proof cases
    case removed
    with Cons.IH[of files placed "n + 1"] Cons.prems show ?thesis by auto
  next
    case changed
    with Cons.IH[of "files @ [at (fe_path e)]" "fe_path e # placed" n] Cons.prems show ?thesis by auto
  next
    case kept
    with Cons.IH[of "files @ [at (fe_path e)]" placed n] Cons.prems show ?thesis by auto
  qed
qed simp

lemma validate_geometry_mset:
  assumes "validate_geometry m = Inr ()" "mc_frames m' = mc_frames m" "mc_gitlinks m' = mc_gitlinks m"
    and "mset (mc_files m') = mset (mc_files m)"
  shows "validate_geometry m' = Inr ()"
proof -
  have set: "set (mc_files m') = set (mc_files m)" using assms(4) by (metis set_mset_mset)
  have "mset (map fe_path (mc_files m')) = mset (map fe_path (mc_files m))" using assms(4) by simp
  then have "distinct (map fe_path (mc_files m')) = distinct (map fe_path (mc_files m))"
    by (metis mset_eq_imp_distinct_iff)
  with assms(1-3) set show ?thesis by (simp add: validate_geometry_ok)
qed

lemma frame_index_small:
  assumes "validate_geometry m = Inr ()" "length (mc_frames m) < 2 ^ 32" "e \<in> set (mc_files m)"
    "f \<in> set (fe_fragments e)"
  shows "frame_index f \<noteq> - 1"
proof
  assume "frame_index f = - 1"
  then have "unat (frame_index f) = 2 ^ 32 - 1" by (simp add: unsigned_minus_1_eq_mask mask_eq_exp_minus_1)
  moreover have "unat (frame_index f) < length (mc_frames m)"
    using assms by (auto simp: validate_geometry_ok entry_ok_def frag_ok_def)
  ultimately show False using assms(2) by simp
qed

lemma distinct_paths_entry:
  "distinct (map fe_path fs) \<Longrightarrow> f \<in> set fs \<Longrightarrow> g \<in> set fs \<Longrightarrow> fe_path f = fe_path g \<Longrightarrow> f = g"
  by (metis distinct_map inj_on_def)

lemma delta_entry:
  assumes base: "validate_geometry base = Inr ()" and table: "validate_geometry table = Inr ()"
    "length (mc_frames table) < 2 ^ 32"
    and delta: "delta_between base base_frames table = Inr delta"
    and e: "e \<in> set (mc_files base)" "by_path (mc_files table) (fe_path e) = Some t"
  shows "by_path (md_files delta) (fe_path e) = Some t
    \<or> (by_path (md_files delta) (fe_path e) = None \<and> remap_entry delta e = Inr t)"
proof -
  have db: "distinct (map fe_path (mc_files base))" and dt: "distinct (map fe_path (mc_files table))"
    using base table by (simp_all add: validate_geometry_ok)
  have md: "md_files delta = filter (\<lambda>f. \<not> entry_kept base base_frames f) (mc_files table)"
    "md_base_frames delta = base_frames"
    using delta by (auto simp: delta_between_def split: if_splits)
  have dm: "distinct (map fe_path (md_files delta))" unfolding md(1) using dt by (rule distinct_map_filter)
  have t: "t \<in> set (mc_files table)" "fe_path t = fe_path e" using e(2) by (simp_all add: by_path_iff[OF dt])
  show ?thesis
  proof (cases "entry_kept base base_frames t")
    case True
    have "by_path (mc_files base) (fe_path t) = Some e" using t e(1) by (simp add: by_path_iff[OF db])
    then have "remap_entry delta e = Inr t"
      using True t frame_index_small[OF table t(1)] by (intro remap_entry_kept) (simp_all add: md)
    moreover have "by_path (md_files delta) (fe_path e) = None"
    proof (rule ccontr)
      assume "by_path (md_files delta) (fe_path e) \<noteq> None"
      then obtain f where "by_path (md_files delta) (fe_path e) = Some f" by blast
      then have "f \<in> set (mc_files table)" "\<not> entry_kept base base_frames f" "fe_path f = fe_path t"
        unfolding by_path_iff[OF dm] by (simp_all add: md(1) t(2))
      then show False using True distinct_paths_entry[OF dt _ t(1)] by blast
    qed
    ultimately show ?thesis by simp
  next
    case False
    then have "by_path (md_files delta) (fe_path e) = Some t"
      unfolding by_path_iff[OF dm] using t by (simp add: md(1))
    then show ?thesis ..
  qed
qed

lemma delta_removed:
  assumes "delta_between base base_frames table = Inr delta" "e \<in> set (mc_files base)"
  shows "fe_path e \<in> set (md_removed delta) \<longleftrightarrow> fe_path e \<notin> set (map fe_path (mc_files table))"
proof -
  have "set (md_removed delta) = fe_path ` {f \<in> set (mc_files base). fe_path f \<notin> set (map fe_path (mc_files table))}"
    using assms(1) by (auto simp: delta_between_def split: if_splits)
  then show ?thesis using assms(2) by (metis (mono_tags, lifting) image_iff mem_Collect_eq)
qed

text \<open>The files that the loop keeps or replaces, and those it appends, are the table's.\<close>

lemma delta_files:
  assumes base: "validate_geometry base = Inr ()" and table: "validate_geometry table = Inr ()"
    "length (mc_frames table) < 2 ^ 32"
    and delta: "delta_between base base_frames table = Inr delta"
  shows "mset (map (\<lambda>e. the (by_path (mc_files table) (fe_path e)))
        (filter (\<lambda>e. fe_path e \<notin> set (md_removed delta)) (mc_files base))
      @ filter (\<lambda>f. fe_path f \<notin> {p. \<exists>e \<in> set (mc_files base). p = fe_path e \<and> p \<notin> set (md_removed delta)
          \<and> by_path (md_files delta) p \<noteq> None}) (md_files delta)) = mset (mc_files table)"
proof -
  let ?B = "mc_files base" and ?T = "mc_files table" and ?at = "\<lambda>e. the (by_path (mc_files table) (fe_path e))"
  have db: "distinct (map fe_path ?B)" and dt: "distinct (map fe_path ?T)"
    using base table by (simp_all add: validate_geometry_ok)
  have d: "md_files delta = filter (\<lambda>f. \<not> entry_kept base base_frames f) ?T"
      "md_removed delta = map fe_path (filter (\<lambda>f. fe_path f \<notin> set (map fe_path ?T)) ?B)"
    using delta by (auto simp: delta_between_def split: if_splits)
  let ?old = "filter (\<lambda>e. fe_path e \<notin> set (md_removed delta)) ?B"
  let ?new = "filter (\<lambda>f. fe_path f \<notin> {p. \<exists>e \<in> set ?B. p = fe_path e \<and> p \<notin> set (md_removed delta)
          \<and> by_path (md_files delta) p \<noteq> None}) (md_files delta)"
  have old: "set ?old = {e \<in> set ?B. fe_path e \<in> set (map fe_path ?T)}"
    using delta_removed[OF delta] by auto
  have at: "?at e \<in> set ?T" "fe_path (?at e) = fe_path e" if "e \<in> set ?old" for e
  proof -
    have "fe_path e \<in> set (map fe_path ?T)" using that unfolding old by blast
    then have "by_path ?T (fe_path e) = Some (?at e)" using by_path_None[of ?T "fe_path e"] by auto
    then show "?at e \<in> set ?T" "fe_path (?at e) = fe_path e" unfolding by_path_iff[OF dt] by auto
  qed
  have kept: "fe_path f \<in> set (map fe_path ?B)" if "entry_kept base base_frames f" for f
    using that by_path_None[of ?B "fe_path f"] by (auto simp: entry_kept_def split: option.splits)
  have new: "set ?new = {t \<in> set ?T. fe_path t \<notin> set (map fe_path ?B)}"
  proof (intro equalityI subsetI)
    fix t assume t: "t \<in> set ?new"
    then have tm: "t \<in> set (md_files delta)" "t \<in> set ?T" by (auto simp: d(1))
    have "fe_path t \<notin> set (map fe_path ?B)"
    proof
      assume "fe_path t \<in> set (map fe_path ?B)"
      then obtain e where e: "e \<in> set ?B" "fe_path t = fe_path e" by auto
      have "fe_path e \<in> set (map fe_path ?T)" using tm(2) e(2) by (metis image_eqI list.set_map)
      then have "fe_path t \<notin> set (md_removed delta)" using delta_removed[OF delta e(1)] e(2) by simp
      moreover have "by_path (md_files delta) (fe_path t) \<noteq> None" using tm(1) by (simp add: by_path_None)
      ultimately show False using t e by auto
    qed
    with tm(2) show "t \<in> {t \<in> set ?T. fe_path t \<notin> set (map fe_path ?B)}" by blast
  qed (use kept in \<open>auto simp: d(1)\<close>)
  have "map fe_path (map ?at ?old) = map fe_path ?old" using at(2) by simp
  moreover have "distinct (map fe_path ?old)" using db by (rule distinct_map_filter)
  ultimately have "distinct (map fe_path (map ?at ?old))" by metis
  then have d1: "distinct (map ?at ?old)" by (rule distinct_mapI)
  have d2: "distinct ?new" using dt by (auto simp: d(1) dest: distinct_mapI)
  have disj: "set (map ?at ?old) \<inter> set ?new = {}"
  proof -
    have "fe_path (?at e) \<in> set (map fe_path ?B)" if "e \<in> set ?old" for e
      using at(2)[OF that] that by simp
    then show ?thesis unfolding new by auto
  qed
  have "set (map ?at ?old) = {t \<in> set ?T. fe_path t \<in> set (map fe_path ?B)}"
  proof (intro equalityI subsetI)
    fix t assume t: "t \<in> {t \<in> set ?T. fe_path t \<in> set (map fe_path ?B)}"
    then obtain e where e: "e \<in> set ?B" "fe_path e = fe_path t" by auto
    then have "e \<in> set ?old" using t old by auto
    moreover have "?at e = t" using t e by_path_iff[OF dt] by (metis mem_Collect_eq option.sel)
    ultimately show "t \<in> set (map ?at ?old)" by force
  next
    fix t assume "t \<in> set (map ?at ?old)"
    then obtain e where e: "e \<in> set ?old" "t = ?at e" by auto
    then have "e \<in> set ?B" by simp
    with at[OF e(1)] show "t \<in> {t \<in> set ?T. fe_path t \<in> set (map fe_path ?B)}" unfolding e(2) by simp
  qed
  then have "set (map ?at ?old @ ?new) = set ?T" unfolding set_append new by blast
  moreover have "distinct (map ?at ?old @ ?new)" using d1 d2 disj by (simp only: distinct_append)
  ultimately show ?thesis
    using set_eq_iff_mset_eq_distinct[OF _ distinct_mapI[OF dt]] by (simp only:)
qed

lemma delta_restores:
  assumes base: "validate_geometry base = Inr ()" and table: "validate_geometry table = Inr ()"
    "length (mc_frames table) < 2 ^ 32"
    and delta: "delta_between base base_frames table = Inr delta"
  shows "\<exists>t. delta_apply delta base = Inr t \<and> mc_frames t = mc_frames table
    \<and> mc_gitlinks t = mc_gitlinks table \<and> mset (mc_files t) = mset (mc_files table)
    \<and> validate_geometry t = Inr ()"
proof -
  let ?B = "mc_files base" and ?T = "mc_files table"
  have db: "distinct (map fe_path ?B)" and dt: "distinct (map fe_path ?T)"
    using base table by (simp_all add: validate_geometry_ok)
  have len: "length base_frames = length (mc_frames base)"
    and d: "md_frames delta = mc_frames table" "md_base_frames delta = base_frames"
      "md_files delta = filter (\<lambda>f. \<not> entry_kept base base_frames f) ?T" "md_gitlinks delta = mc_gitlinks table"
      "md_removed delta = map fe_path (filter (\<lambda>f. fe_path f \<notin> set (map fe_path ?T)) ?B)"
    using delta by (auto simp: delta_between_def split: if_splits)
  have removed: "fe_path e \<in> set (md_removed delta) \<longleftrightarrow> fe_path e \<notin> set (map fe_path ?T)"
    if "e \<in> set ?B" for e using delta_removed[OF delta that] .
  define at where "at p = the (by_path ?T p)" for p
  have at: "by_path ?T p = Some (at p)" if "p \<in> set (map fe_path ?T)" for p
    using that by_path_None[of ?T p] by (auto simp: at_def)
  obtain placed where run: "apply_entries delta ?B ([], [], 0) = Inr
      (map (\<lambda>e. at (fe_path e)) (filter (\<lambda>e. fe_path e \<notin> set (md_removed delta)) ?B), placed,
       length (filter (\<lambda>e. fe_path e \<in> set (md_removed delta)) ?B))"
    and placed: "set placed = {p. \<exists>e \<in> set ?B. p = fe_path e \<and> p \<notin> set (md_removed delta)
        \<and> by_path (md_files delta) p \<noteq> None}"
    using apply_entries_result[of ?B delta at "[]" "[]" 0] delta_entry[OF base table delta _ at] removed
    by (metis (no_types, lifting) append_Nil add_0 list.set(1) sup_bot_left)
  define kept where "kept = map (\<lambda>e. at (fe_path e)) (filter (\<lambda>e. fe_path e \<notin> set (md_removed delta)) ?B)"
  define new where "new = filter (\<lambda>f. fe_path f \<notin> set placed) (md_files delta)"
  have "filter (\<lambda>e. fe_path e \<in> set (md_removed delta)) ?B = filter (\<lambda>f. fe_path f \<notin> set (map fe_path ?T)) ?B"
    by (rule filter_cong) (use removed in auto)
  then have count: "length (filter (\<lambda>e. fe_path e \<in> set (md_removed delta)) ?B) = length (remdups (md_removed delta))"
    using db by (simp add: d(5) distinct_map_filter remdups_id_iff_distinct[THEN iffD2])
  have files: "mset (kept @ new) = mset ?T"
    using delta_files[OF base table delta] unfolding kept_def new_def placed at_def by blast
  let ?t = "\<lparr>mc_frames = md_frames delta, mc_files = kept @ new, mc_gitlinks = md_gitlinks delta\<rparr>"
  have "validate_geometry ?t = Inr ()"
    using validate_geometry_mset[OF table(1), of ?t] files by (simp add: d)
  then have "delta_apply delta base = Inr ?t"
    using run count len by (simp add: delta_apply_def d(2) kept_def new_def)
  then show ?thesis using files d \<open>validate_geometry ?t = Inr ()\<close> by (intro exI[of _ ?t]) simp
qed

text \<open>
  A delta reproduces its table.  Between any two validated tables, applying the delta to
  the base succeeds and gives a validated table with the same frames, the same gitlinks and the
  same files, each exactly once.
\<close>

theorem delta_round_trip:
  assumes base: "validate_geometry base = Inr ()" and table: "validate_geometry table = Inr ()"
    "length (mc_frames table) < 2 ^ 32"
    and delta: "delta_between base base_frames table = Inr delta"
  shows "\<exists>t. delta_apply delta base = Inr t \<and> mc_frames t = mc_frames table
    \<and> mc_gitlinks t = mc_gitlinks table \<and> mset (mc_files t) = mset (mc_files table)
    \<and> validate_geometry t = Inr ()"
  using delta_restores[OF assms] .

theorem delta_round_trip_witness:
  "\<exists>delta t. delta_between ex_base [1, 2] ex_table = Inr delta \<and> md_removed delta = [''b'']
     \<and> delta_apply delta ex_base = Inr t \<and> mset (mc_files t) = mset (mc_files ex_table)"
proof -
  have "length (mc_frames ex_table) < 2 ^ 32" by (simp add: ex_table_def)
  moreover obtain delta where "delta_between ex_base [1, 2] ex_table = Inr delta" "md_removed delta = [''b'']"
    by (simp add: delta_between_def ex_base_def ex_table_def ex_file_def)
  ultimately show ?thesis using delta_round_trip[OF ex_tables_ok] by blast
qed

section \<open>Frame maps\<close>

lemma nth_opt_Some: "nth_opt xs i = Some x \<longleftrightarrow> i < length xs \<and> xs ! i = x"
  by (auto simp: nth_opt_def)

text \<open>Where a frame is stored: its bundle's hash and its offset in it.\<close>

definition frame_at :: "string list \<Rightarrow> FrameInfo \<Rightarrow> (string \<times> 64 word) option" where
  "frame_at bundles f = map_option (\<lambda>b. (b, chunk_offset f)) (nth_opt bundles (unat (chunk_index f)))"

definition slot_right :: "FrameInfo list \<Rightarrow> string list \<Rightarrow> (string \<times> 64 word) option \<Rightarrow> 32 word \<Rightarrow> bool" where
  "slot_right to to_bundles place slot \<longleftrightarrow> slot \<noteq> 0 \<longrightarrow>
     unat slot \<le> length to \<and> place \<noteq> None \<and> frame_at to_bundles (to ! (unat slot - 1)) = place"

lemma unat_of_nat_u32: "n < 2 ^ 32 \<Longrightarrow> unat (of_nat n :: 32 word) = n"
  by (simp add: unat_of_nat take_bit_nat_eq_self)

lemma of_nat_slot: "i < 4294967295 \<Longrightarrow> unat (1 + of_nat i :: 32 word) = Suc i"
  using unat_of_nat_u32[of "Suc i"] by simp

lemma frame_slots_spec:
  assumes "frame_slots to to_bundles = Inr at"
  shows "length at = length to"
    "i < length to \<Longrightarrow> frame_at to_bundles (to ! i) = Some (fst (at ! i)) \<and> unat (snd (at ! i)) = i + 1"
proof -
  show len: "length at = length to"
    using map_result_Inr_length[OF assms[unfolded frame_slots_def]] by simp
  assume i: "i < length to"
  have "enumerate 0 to ! i = (i, to ! i)" using i by (simp add: nth_enumerate_eq)
  then show "frame_at to_bundles (to ! i) = Some (fst (at ! i)) \<and> unat (snd (at ! i)) = i + 1"
    using map_result_nth[OF assms[unfolded frame_slots_def], of i] i
    by (auto simp: rbind_Inr frame_bundle_def frame_at_def of_nat_slot split: if_splits dest!: sym[of _ "at ! i"])
qed

text \<open>
  A frame map is exact: a slot names the frame of the other table at the same offset of the
  same bundle, and zero means that no frame of the other table is there.
\<close>

theorem frame_map_exact:
  assumes "frame_map from from_bundles to to_bundles = Inr slots" "i < length from"
  shows "length slots = length from \<and> frame_at from_bundles (from ! i) \<noteq> None
    \<and> (if slots ! i = 0 then \<forall>f \<in> set to. frame_at to_bundles f \<noteq> frame_at from_bundles (from ! i)
       else unat (slots ! i) \<le> length to
         \<and> frame_at to_bundles (to ! (unat (slots ! i) - 1)) = frame_at from_bundles (from ! i))"
proof -
  obtain at where at: "frame_slots to to_bundles = Inr at"
    and run: "map_result (\<lambda>f. rbind (frame_bundle from_bundles f) (\<lambda>b.
         Inr (case last_of at (b, chunk_offset f) of None \<Rightarrow> 0 | Some slot \<Rightarrow> slot))) from = Inr slots"
    using assms(1) by (auto simp: frame_map_def rbind_Inr)
  note spec = frame_slots_spec[OF at]
  obtain b where b: "nth_opt from_bundles (unat (chunk_index (from ! i))) = Some b"
    and slot: "slots ! i = (case last_of at (b, chunk_offset (from ! i)) of None \<Rightarrow> 0 | Some s \<Rightarrow> s)"
    using map_result_nth[OF run assms(2)] by (auto simp: rbind_Inr frame_bundle_def)
  let ?place = "(b, chunk_offset (from ! i))"
  have place: "frame_at from_bundles (from ! i) = Some ?place" by (simp add: frame_at_def b)
  show ?thesis
  proof (cases "last_of at ?place")
    case None
    then have "?place \<notin> fst ` set at" by (simp add: last_of_def map_of_eq_None_iff)
    then have "fst x \<noteq> ?place" if "x \<in> set at" for x using that by (metis image_eqI)
    then have "frame_at to_bundles f \<noteq> Some ?place" if "f \<in> set to" for f
      using spec that by (metis in_set_conv_nth nth_mem option.inject)
    then show ?thesis using None slot place map_result_Inr_length[OF run] by simp
  next
    case (Some s)
    then have "(?place, s) \<in> set at" by (auto simp: last_of_def dest: map_of_SomeD)
    then obtain j where "j < length at" "at ! j = (?place, s)" by (metis in_set_conv_nth)
    then have "frame_at to_bundles (to ! j) = Some ?place" "unat s = j + 1" "j < length to"
      using spec by (metis fst_conv, metis snd_conv, simp)
    moreover from this have "s \<noteq> 0" by auto
    ultimately show ?thesis using Some slot place map_result_Inr_length[OF run] by simp
  qed
qed

theorem frame_map_exact_witness:
  "frame_map [ex_frame 10] [''x''] [ex_frame 0, ex_frame 10] [''x''] = Inr [2]
   \<and> frame_at [''x''] ([ex_frame 0, ex_frame 10] ! 1) = frame_at [''x''] (ex_frame 10)"
proof -
  have run: "frame_map [ex_frame 10] [''x''] [ex_frame 0, ex_frame 10] [''x''] = Inr [2]" by code_simp
  from frame_map_exact[OF run, of 0] run show ?thesis by simp
qed

section \<open>Fragments of a frame\<close>

lemma map_of_fold_group:
  "(case map_of (fold (\<lambda>(k, x). upsert k [x] (\<lambda>l. l @ [x])) kxs rows) k of None \<Rightarrow> [] | Some l \<Rightarrow> l)
     = (case map_of rows k of None \<Rightarrow> [] | Some l \<Rightarrow> l) @ map snd (filter (\<lambda>kx. fst kx = k) kxs)"
  by (induction kxs arbitrary: rows) (auto simp: map_of_upsert split: option.splits)

text \<open>
  Grouping by frame loses nothing: the positions listed for a frame are exactly the
  fragments that name it, each once.
\<close>

theorem fragments_by_frame_exact:
  "set (case map_of (fragments_by_frame m) k of None \<Rightarrow> [] | Some l \<Rightarrow> l) =
     {(i, j). i < length (mc_files m) \<and> j < length (fe_fragments (mc_files m ! i))
        \<and> frame_index (fe_fragments (mc_files m ! i) ! j) = k}"
proof -
  let ?es = "enumerate 0 (mc_files m)" and ?fs = "\<lambda>e. enumerate 0 (fe_fragments e)"
  have "set (map snd (filter (\<lambda>kx. fst kx = k)
      (concat (map (\<lambda>(i, e). map (\<lambda>(j, f). (frame_index f, (i, j))) (?fs e)) ?es)))) =
    {(i, j). \<exists>e f. (i, e) \<in> set ?es \<and> (j, f) \<in> set (?fs e) \<and> frame_index f = k}"
    by force
  also have "\<dots> = {(i, j). i < length (mc_files m) \<and> j < length (fe_fragments (mc_files m ! i))
      \<and> frame_index (fe_fragments (mc_files m ! i) ! j) = k}"
    by (auto simp: in_set_enumerate_eq)
  finally show ?thesis unfolding fragments_by_frame_def map_of_fold_group by simp
qed

section \<open>Paths and idx slices\<close>

lemma check_components_ok:
  "check_components cs = Inr () \<longleftrightarrow>
     (\<forall>c \<in> set cs. \<exists>name. c = NormalComp name \<and> \<not> eq_ignore_ascii_case name ''.git'')"
  by (induction cs rule: check_components.induct) auto

text \<open>
  C5.  An accepted path stays inside the clone and out of its repository: it is relative, has no
  NUL, and each of its parts is empty, a single dot, or a name that is not \<open>..\<close> and not \<open>.git\<close> in
  any letter case.
\<close>

theorem validate_relative_path_safe:
  assumes "validate_relative_path path = Inr ()"
  shows "path \<noteq> [] \<and> \<not> starts_with path ''/'' \<and> CHR 0x00 \<notin> set path
    \<and> (\<forall>part \<in> set (split_on (CHR ''/'') path). part = [] \<or> part = ''.''
         \<or> (part \<noteq> ''..'' \<and> map to_ascii_lower part \<noteq> ''.git''))"
proof -
  from assms have comps: "check_components (path_components path) = Inr ()" "path \<noteq> []"
    "\<not> starts_with path ''/''" "CHR 0x00 \<notin> set path"
    by (auto simp: validate_relative_path_def rbind_Inr split: if_splits)
  obtain first rest where sp: "split_on (CHR ''/'') path = first # rest"
    using split_on_ne by (cases "split_on (CHR ''/'') path") auto
  have "path_components path = inner_components (first # rest)"
    using comps(1) sp by (auto simp: path_components_def check_components_ok split: if_splits)
  moreover have "part \<noteq> ''..'' \<and> \<not> eq_ignore_ascii_case part ''.git''"
    if "part \<in> set (first # rest)" "part \<noteq> []" "part \<noteq> ''.''" for part
  proof -
    have "component_of part \<in> set (inner_components (first # rest))"
      using that by (auto simp: inner_components_def)
    then show ?thesis using comps(1) calculation
      by (force simp: check_components_ok component_of_def split: if_splits)
  qed
  moreover have "map to_ascii_lower ''.git'' = ''.git''" by code_simp
  ultimately show ?thesis using comps(2-4) unfolding sp eq_ignore_ascii_case_def by metis
qed

theorem validate_relative_path_safe_witness:
  "validate_relative_path ''src/main.rs'' = Inr () \<and> \<not> starts_with ''src/main.rs'' ''/''"
proof -
  have run: "validate_relative_path ''src/main.rs'' = Inr ()" by code_simp
  from validate_relative_path_safe[OF run] run show ?thesis by blast
qed

text \<open>
  An idx taken from the bundle is in range and verified: it is the named slice of the
  bundle, of the length its reference states, with the hash its reference names.
\<close>

theorem manifest_pack_idx_verified:
  assumes "manifest_pack_idx_bytes hex_encode hash entry index bundle = Inr idx"
  shows "\<exists>r off. pe_idx entry = Some r \<and> pe_idx_bundle_offset entry = Some off
    \<and> unat off + unat (cr_len r) \<le> length bundle
    \<and> idx = take (unat (cr_len r)) (drop (unat off) bundle) \<and> length idx = unat (cr_len r)
    \<and> hash idx = hex_encode (cr_hash r)"
  using assms
  by (auto simp: manifest_pack_idx_bytes_def rbind_Inr Let_def split: if_splits dest!: checked_add_u64_Some)


theorem manifest_pack_idx_verified_witness:
  "manifest_pack_idx_bytes (\<lambda>_. ''h'') (\<lambda>_. ''h'') \<lparr>pe_pack = None, pe_idx = Some \<lparr>cr_hash = [1], cr_len = 2\<rparr>,
     pe_history_only = False, pe_idx_bundle_offset = Some 1\<rparr> 0 ''abcd'' = Inr ''bc'' \<and> length ''bc'' = 2"
proof -
  have run: "manifest_pack_idx_bytes (\<lambda>_. ''h'') (\<lambda>_. ''h'') \<lparr>pe_pack = None, pe_idx = Some \<lparr>cr_hash = [1], cr_len = 2\<rparr>,
     pe_history_only = False, pe_idx_bundle_offset = Some 1\<rparr> 0 ''abcd'' = Inr ''bc''" by code_simp
  from manifest_pack_idx_verified[OF run] run show ?thesis by simp
qed

text \<open>
  C7.  The check for duplicate paths compares bytes, not files: a table with \<open>a/b\<close> and \<open>a//b\<close>,
  which name the same file, is accepted.
\<close>

theorem duplicate_check_compares_bytes:
  "validate_geometry \<lparr>mc_frames = [], mc_files = [ex_file ''a/b'' 1 0\<lparr>fe_fragments := []\<rparr>,
     ex_file ''a//b'' 2 0\<lparr>fe_fragments := []\<rparr>], mc_gitlinks = []\<rparr> = Inr ()
   \<and> path_components ''a/b'' = path_components ''a//b''"
  by code_simp

end
