(* ===== verification/Provider.thy ===== *)
theory Provider
  imports Validation
begin

unbundle bit_operations_syntax

text \<open>
  The provider registry of \<open>src/rust/src/provider.rs\<close>: configured provider instances, the checks
  on their hosts, their clone URLs and their credential headers.  Of the standard library it
  models what the checks use: trimming white space and parsing IP addresses.  Base64 is the
  \<open>base64\<close> crate's and a parameter.
\<close>

section \<open>White space and IP addresses\<close>

text \<open>
  The characters with the property White_Space, by their UTF-8 bytes: one byte, two bytes
  (U+0085, U+00A0) or three (U+1680, U+2000 to U+200A, U+2028, U+2029, U+202F, U+205F, U+3000).
\<close>

definition ws1 :: "nat \<Rightarrow> bool" where
  "ws1 a = (9 \<le> a \<and> a \<le> 13 \<or> a = 32)"

definition ws2 :: "nat \<Rightarrow> nat \<Rightarrow> bool" where
  "ws2 a b = (a = 194 \<and> (b = 133 \<or> b = 160))"

definition ws3 :: "nat \<Rightarrow> nat \<Rightarrow> nat \<Rightarrow> bool" where
  "ws3 a b c = (a = 225 \<and> b = 154 \<and> c = 128
     \<or> a = 226 \<and> b = 128 \<and> (128 \<le> c \<and> c \<le> 138 \<or> c = 168 \<or> c = 169 \<or> c = 175)
     \<or> a = 226 \<and> b = 129 \<and> c = 159 \<or> a = 227 \<and> b = 128 \<and> c = 128)"

fun trim_start :: "string \<Rightarrow> string" where
  "trim_start [] = []"
| "trim_start [a] = (if ws1 (byte a) then [] else [a])"
| "trim_start [a, b] =
     (if ws1 (byte a) then trim_start [b] else if ws2 (byte a) (byte b) then [] else [a, b])"
| "trim_start (a # b # c # s) =
     (if ws1 (byte a) then trim_start (b # c # s)
      else if ws2 (byte a) (byte b) then trim_start (c # s)
      else if ws3 (byte a) (byte b) (byte c) then trim_start s
      else a # b # c # s)"

text \<open>On the reversed string.\<close>

fun trim_rev :: "string \<Rightarrow> string" where
  "trim_rev [] = []"
| "trim_rev [a] = (if ws1 (byte a) then [] else [a])"
| "trim_rev [b, a] =
     (if ws1 (byte b) then trim_rev [a] else if ws2 (byte a) (byte b) then [] else [b, a])"
| "trim_rev (c # b # a # s) =
     (if ws1 (byte c) then trim_rev (b # a # s)
      else if ws2 (byte b) (byte c) then trim_rev (a # s)
      else if ws3 (byte a) (byte b) (byte c) then trim_rev s
      else c # b # a # s)"

definition trim :: "string \<Rightarrow> string" where
  "trim s = rev (trim_rev (rev (trim_start s)))"

definition digits_value :: "string \<Rightarrow> nat" where
  "digits_value s = foldl (\<lambda>n c. 10 * n + (byte c - 48)) 0 s"

definition parse_octet :: "string \<Rightarrow> nat option" where
  "parse_octet s =
     (if s = [] \<or> 3 < length s \<or> \<not> list_all is_ascii_digit s then None
      else if length s > 1 \<and> hd s = CHR ''0'' then None
      else if digits_value s > 255 then None else Some (digits_value s))"

fun all_some :: "'a option list \<Rightarrow> 'a list option" where
  "all_some [] = Some []"
| "all_some (None # xs) = None"
| "all_some (Some x # xs) = map_option (Cons x) (all_some xs)"

definition parse_ipv4 :: "string \<Rightarrow> nat list option" where
  "parse_ipv4 s =
     (let parts = split_on (CHR ''.'') s in
      if length parts \<noteq> 4 then None else all_some (map parse_octet parts))"

definition hex_digit :: "char \<Rightarrow> nat option" where
  "hex_digit c =
     (if is_ascii_digit c then Some (byte c - 48)
      else if 97 \<le> byte c \<and> byte c \<le> 102 then Some (byte c - 87)
      else if 65 \<le> byte c \<and> byte c \<le> 70 then Some (byte c - 55) else None)"

definition parse_h16 :: "string \<Rightarrow> nat option" where
  "parse_h16 s =
     (if s = [] \<or> 4 < length s then None
      else map_option (foldl (\<lambda>n d. 16 * n + d) 0) (all_some (map hex_digit s)))"

text \<open>Groups between single colons; the last may be an IPv4 address, which makes two.\<close>

fun parse_groups :: "bool \<Rightarrow> string list \<Rightarrow> nat list option" where
  "parse_groups v4 [] = Some []"
| "parse_groups v4 [p] =
     (case parse_h16 p of
        Some n \<Rightarrow> Some [n]
      | None \<Rightarrow> if v4 then map_option (\<lambda>b. [256 * b ! 0 + b ! 1, 256 * b ! 2 + b ! 3]) (parse_ipv4 p)
                else None)"
| "parse_groups v4 (p # ps) =
     (case parse_h16 p of None \<Rightarrow> None | Some n \<Rightarrow> map_option (Cons n) (parse_groups v4 ps))"

definition group_list :: "bool \<Rightarrow> string \<Rightarrow> nat list option" where
  "group_list v4 s = (if s = [] then Some [] else parse_groups v4 (split_on (CHR '':'') s))"

fun split_double_colon :: "string \<Rightarrow> (string \<times> string) option" where
  "split_double_colon (a # b # s) =
     (if a = CHR '':'' \<and> b = CHR '':'' then Some ([], s)
      else map_option (\<lambda>(x, y). (a # x, y)) (split_double_colon (b # s)))"
| "split_double_colon _ = None"

definition parse_ipv6 :: "string \<Rightarrow> nat list option" where
  "parse_ipv6 s =
     (case split_double_colon s of
        None \<Rightarrow> (case group_list True s of
                   Some gs \<Rightarrow> if length gs = 8 then Some gs else None
                 | None \<Rightarrow> None)
      | Some (head, tail) \<Rightarrow>
          (case (group_list False head, group_list True tail) of
             (Some h, Some t) \<Rightarrow>
               if length h + length t \<le> 7 then Some (h @ replicate (8 - length h - length t) 0 @ t)
               else None
           | _ \<Rightarrow> None))"

datatype IpAddr = V4 "nat list" | V6 "nat list"

definition parse_ip :: "string \<Rightarrow> IpAddr option" where
  "parse_ip s = (case parse_ipv4 s of Some b \<Rightarrow> Some (V4 b) | None \<Rightarrow> map_option V6 (parse_ipv6 s))"

fun ip_unspecified :: "IpAddr \<Rightarrow> bool" where
  "ip_unspecified (V4 b) = list_all (\<lambda>n. n = 0) b"
| "ip_unspecified (V6 g) = list_all (\<lambda>n. n = 0) g"

fun ip_link_local :: "IpAddr \<Rightarrow> bool" where
  "ip_link_local (V4 b) = (b ! 0 = 169 \<and> b ! 1 = 254)"
| "ip_link_local (V6 g) = (g ! 0 AND 0xffc0 = 0xfe80)"

section \<open>Hosts\<close>

datatype provider_error =
    EmptyHost | HostControl | HostUserinfo | HostUnspecified | HostLinkLocal
  | MissingId | UnknownKind string | NeedsHost | NeedsTemplate | AppIdKind

type_synonym 'a presult = "(provider_error, 'a) result"

definition is_ascii_control :: "char \<Rightarrow> bool" where
  "is_ascii_control c = (byte c < 32 \<or> byte c = 127)"

fun check_candidates :: "string list \<Rightarrow> unit presult" where
  "check_candidates [] = Inr ()"
| "check_candidates (c # cs) =
     (case parse_ip c of
        None \<Rightarrow> check_candidates cs
      | Some ip \<Rightarrow>
          if ip_unspecified ip then Inl HostUnspecified
          else if ip_link_local ip then Inl HostLinkLocal
          else check_candidates cs)"

definition host_authority :: "string \<Rightarrow> string" where
  "host_authority h =
     (let after_scheme = (case strip_prefix h ''https://'' of
            Some r \<Rightarrow> r
          | None \<Rightarrow> (case strip_prefix h ''http://'' of Some r \<Rightarrow> r | None \<Rightarrow> h))
      in hd (split_on (CHR ''/'') after_scheme))"

definition host_part :: "string \<Rightarrow> string" where
  "host_part authority =
     (case strip_prefix authority ''['' of
        Some r \<Rightarrow> hd (split_on (CHR '']'') r)
      | None \<Rightarrow>
          (case rsplit_once (CHR '':'') authority of
             Some (head, tail) \<Rightarrow> if list_all is_ascii_digit tail \<and> head \<noteq> [] then head else authority
           | None \<Rightarrow> authority))"

definition validate_provider_host :: "string \<Rightarrow> unit presult" where
  "validate_provider_host host =
     (let h = trim host in
      if h = [] then Inl EmptyHost
      else if list_ex (\<lambda>c. is_ascii_control c \<or> c = CHR '' '') h then Inl HostControl
      else (let authority = host_authority h in
            if CHR ''@'' \<in> set authority then Inl HostUserinfo
            else check_candidates [host_part authority, authority]))"

section \<open>Instances\<close>

definition trim_end_char :: "char \<Rightarrow> string \<Rightarrow> string" where
  "trim_end_char c s = rev (dropWhile (\<lambda>x. x = c) (rev s))"

definition trim_start_char :: "char \<Rightarrow> string \<Rightarrow> string" where
  "trim_start_char c s = dropWhile (\<lambda>x. x = c) s"

definition clone_url :: "ProviderInstance \<Rightarrow> string \<Rightarrow> string" where
  "clone_url p path =
     (let host = trim_end_char (CHR ''/'') (pi_host p); path' = trim_start_char (CHR ''/'') path in
      if starts_with host ''http://'' \<or> starts_with host ''https://''
      then host @ ''/'' @ path' @ ''.git''
      else ''https://'' @ host @ ''/'' @ path' @ ''.git'')"

definition is_header_name_byte :: "char \<Rightarrow> bool" where
  "is_header_name_byte b = (is_ascii_alphanumeric b \<or> b \<in> set ''!#$%&'' \<or> b = CHR 0x27
     \<or> b \<in> set ''*+-.^_|~'' \<or> b = CHR 0x60)"

text \<open>\<open>str::replace\<close> with a non-empty pattern, left to right.\<close>

function str_replace :: "string \<Rightarrow> string \<Rightarrow> string \<Rightarrow> string" where
  "str_replace pat new [] = []"
| "str_replace pat new (c # s) =
     (if pat \<noteq> [] \<and> starts_with (c # s) pat then new @ str_replace pat new (drop (length pat) (c # s))
      else c # str_replace pat new s)"
  by pat_completeness auto
termination by (relation "measure (\<lambda>(_, _, s). length s)") (auto simp: neq_Nil_conv)

definition auth_header ::
    "(string \<Rightarrow> string) \<Rightarrow> ProviderInstance \<Rightarrow> string \<Rightarrow> (string \<times> string) option" where
  "auth_header base64 p token =
     (let name = (case pi_auth_header_name p of None \<Rightarrow> ''Authorization'' | Some n \<Rightarrow> n) in
      if name = [] \<or> \<not> list_all is_header_name_byte name then None
      else (case (case pi_auth_template p of
            Some template \<Rightarrow> Some (str_replace (''{token}'') token template)
          | None \<Rightarrow> (case pi_kind p of
              GitHub \<Rightarrow> Some (''Basic '' @ base64 (''x-access-token:'' @ token))
            | GitLab \<Rightarrow> Some (''Basic '' @ base64 (''oauth2:'' @ token))
            | Gitea \<Rightarrow> Some (''token '' @ token)
            | Generic \<Rightarrow> None)) of
          None \<Rightarrow> None
        | Some value \<Rightarrow>
            if list_ex (\<lambda>b. b = CHR 0x0D \<or> b = CHR 0x0A \<or> b = CHR 0x00) value then None
            else Some (name, value)))"

section \<open>The registry\<close>

record ProviderConfig =
  pc_id :: string
  pc_kind :: "string option"
  pc_host :: "string option"
  pc_app_id :: "nat option"
  pc_auth_template :: "string option"
  pc_auth_header_name :: "string option"

record ProviderRegistry =
  providers :: "string \<rightharpoonup> ProviderInstance"
  app_ids :: "string \<rightharpoonup> nat"

definition registry_new :: ProviderRegistry where
  "registry_new = \<lparr>providers = Map.empty(DEFAULT_PROVIDER_ID \<mapsto>
       \<lparr>pi_id = DEFAULT_PROVIDER_ID, pi_kind = GitHub, pi_host = ''github.com'',
        pi_auth_template = None, pi_auth_header_name = None\<rparr>),
     app_ids = Map.empty\<rparr>"

definition default_host :: "ProviderKind \<Rightarrow> string presult" where
  "default_host k = (case k of GitHub \<Rightarrow> Inr ''github.com'' | GitLab \<Rightarrow> Inr ''gitlab.com''
     | Gitea \<Rightarrow> Inl NeedsHost | Generic \<Rightarrow> Inl NeedsHost)"

definition merge_one :: "ProviderRegistry \<Rightarrow> ProviderConfig \<Rightarrow> ProviderRegistry presult" where
  "merge_one reg cfg =
     (let i = pc_id cfg in
      if i = [] then Inl MissingId
      else
        rbind (case pc_kind cfg of
                 Some k \<Rightarrow> ok_or (UnknownKind k) (provider_kind_from_str k)
               | None \<Rightarrow> Inr Generic) (\<lambda>kind.
        rbind (case pc_host cfg of Some h \<Rightarrow> Inr h | None \<Rightarrow> default_host kind) (\<lambda>host.
        rbind (validate_provider_host host) (\<lambda>_.
          if kind = Generic \<and> pc_auth_template cfg = None then Inl NeedsTemplate
          else if pc_app_id cfg \<noteq> None \<and> kind \<noteq> GitHub then Inl AppIdKind
          else Inr \<lparr>providers = (providers reg)(i \<mapsto>
                      \<lparr>pi_id = i, pi_kind = kind, pi_host = host,
                       pi_auth_template = pc_auth_template cfg,
                       pi_auth_header_name = pc_auth_header_name cfg\<rparr>),
                    app_ids = (app_ids reg)(i := pc_app_id cfg)\<rparr>))))"

fun from_configs :: "ProviderRegistry \<Rightarrow> ProviderConfig list \<Rightarrow> ProviderRegistry presult" where
  "from_configs reg [] = Inr reg"
| "from_configs reg (c # cs) = rbind (merge_one reg c) (\<lambda>reg'. from_configs reg' cs)"

definition registry_get :: "ProviderRegistry \<Rightarrow> string \<Rightarrow> ProviderInstance option" where
  "registry_get reg provider_id = providers reg provider_id"

section \<open>Properties\<close>

definition instance_ok :: "string \<Rightarrow> ProviderInstance \<Rightarrow> bool" where
  "instance_ok i p \<longleftrightarrow> pi_id p = i \<and> i \<noteq> [] \<and> validate_provider_host (pi_host p) = Inr ()
     \<and> (pi_kind p = Generic \<longrightarrow> pi_auth_template p \<noteq> None)"

definition registry_ok :: "ProviderRegistry \<Rightarrow> bool" where
  "registry_ok reg \<longleftrightarrow> (\<forall>i p. providers reg i = Some p \<longrightarrow> instance_ok i p)
     \<and> (\<forall>i a. app_ids reg i = Some a \<longrightarrow> (\<exists>p. providers reg i = Some p \<and> pi_kind p = GitHub))
     \<and> providers reg DEFAULT_PROVIDER_ID \<noteq> None"

lemma registry_ok_new: "registry_ok registry_new"
proof -
  have "validate_provider_host ''github.com'' = Inr ()" by code_simp
  then show ?thesis by (simp add: registry_ok_def registry_new_def instance_ok_def DEFAULT_PROVIDER_ID_def)
qed

lemma merge_one_cases:
  assumes "merge_one reg cfg = Inr reg'"
  obtains p where "instance_ok (pc_id cfg) p" "pc_app_id cfg \<noteq> None \<Longrightarrow> pi_kind p = GitHub"
    "reg' = \<lparr>providers = (providers reg)(pc_id cfg \<mapsto> p), app_ids = (app_ids reg)(pc_id cfg := pc_app_id cfg)\<rparr>"
proof -
  let ?p = "\<lambda>kind host. \<lparr>pi_id = pc_id cfg, pi_kind = kind, pi_host = host,
      pi_auth_template = pc_auth_template cfg, pi_auth_header_name = pc_auth_header_name cfg\<rparr>"
  have ne: "pc_id cfg \<noteq> []" using assms by (auto simp: merge_one_def Let_def)
  with assms obtain kind host u where host: "validate_provider_host host = Inr u"
    and eq: "(if kind = Generic \<and> pc_auth_template cfg = None then Inl NeedsTemplate
          else if pc_app_id cfg \<noteq> None \<and> kind \<noteq> GitHub then Inl AppIdKind
          else Inr \<lparr>providers = (providers reg)(pc_id cfg \<mapsto> ?p kind host),
                    app_ids = (app_ids reg)(pc_id cfg := pc_app_id cfg)\<rparr>) = Inr reg'"
    by (auto simp only: merge_one_def Let_def rbind_Inr if_False)
  show ?thesis
  proof (rule that[of "?p kind host"])
    show "instance_ok (pc_id cfg) (?p kind host)"
      using ne host eq by (auto simp: instance_ok_def split: if_splits)
  qed (use eq in \<open>auto split: if_splits\<close>)
qed

lemma merge_one_ok:
  assumes "merge_one reg cfg = Inr reg'" "registry_ok reg"
  shows "registry_ok reg'"
proof -
  from assms(1) obtain p where "instance_ok (pc_id cfg) p" "pc_app_id cfg \<noteq> None \<longrightarrow> pi_kind p = GitHub"
    "reg' = \<lparr>providers = (providers reg)(pc_id cfg \<mapsto> p), app_ids = (app_ids reg)(pc_id cfg := pc_app_id cfg)\<rparr>"
    by (rule merge_one_cases) blast
  with assms(2) show ?thesis by (auto simp: registry_ok_def)
qed


definition ex_config :: ProviderConfig where
  "ex_config = \<lparr>pc_id = ''work'', pc_kind = Some ''gitea'', pc_host = Some ''https://git.example.com:3000'',
     pc_app_id = None, pc_auth_template = None, pc_auth_header_name = None\<rparr>"


text \<open>
  A credential header cannot smuggle another one: its name is a non-empty HTTP token, and
  its value has no CR, LF or NUL, whatever the token and the template hold.
\<close>

theorem auth_header_no_injection:
  assumes "auth_header base64 p token = Some (name, value)"
  shows "name \<noteq> [] \<and> list_all is_header_name_byte name
    \<and> CHR 0x0D \<notin> set value \<and> CHR 0x0A \<notin> set value \<and> CHR 0x00 \<notin> set value"
proof -
  let ?bad = "\<lambda>b. b = CHR 0x0D \<or> b = CHR 0x0A \<or> b = CHR 0x00"
  from assms have "name \<noteq> []" "list_all is_header_name_byte name" "\<not> list_ex ?bad value"
    unfolding auth_header_def Let_def
    by (cases "pi_auth_header_name p"; simp split: if_splits option.splits)+
  then show ?thesis unfolding list_ex_iff by blast
qed

theorem auth_header_no_injection_witness:
  "auth_header (\<lambda>s. s) \<lparr>pi_id = ''g'', pi_kind = Gitea, pi_host = ''h'', pi_auth_template = None,
     pi_auth_header_name = None\<rparr> ''t'' = Some (''Authorization'', ''token t'')
   \<and> CHR 0x0A \<notin> set ''token t''"
proof -
  have "auth_header (\<lambda>s. s) \<lparr>pi_id = ''g'', pi_kind = Gitea, pi_host = ''h'', pi_auth_template = None,
     pi_auth_header_name = None\<rparr> ''t'' = Some (''Authorization'', ''token t'')" by code_simp
  with auth_header_no_injection[OF this] show ?thesis by blast
qed

text \<open>
  C3.  The host check sees through schemes, ports and paths: the metadata address is refused in
  each of these forms, and so are the unspecified and the link-local IPv6 addresses.  An
  IPv4-mapped IPv6 address is not among them: \<open>::ffff:169.254.169.254\<close> is accepted.
\<close>

theorem host_guard_forms:
  "list_all (\<lambda>h. validate_provider_host h = Inl HostLinkLocal)
     [''169.254.169.254'', ''http://169.254.169.254'', ''https://169.254.169.254:443/latest'',
      '' 169.254.0.1:80 '', ''[fe80::1]'', ''http://[febf::1]:3000'', ''fe80::1'']
   \<and> list_all (\<lambda>h. validate_provider_host h = Inl HostUnspecified) [''0.0.0.0'', ''[::]:80'', ''::'']
   \<and> list_all (\<lambda>h. validate_provider_host h = Inr ()) [''127.0.0.1:8080'', ''github.com'', ''10.0.0.7'']
   \<and> validate_provider_host ''[::ffff:169.254.169.254]'' = Inr ()
   \<and> parse_ip ''::ffff:169.254.169.254'' = Some (V6 [0, 0, 0, 0, 0, 0xffff, 0xa9fe, 0xa9fe])"
  by code_simp

text \<open>
  The host check trims the host and the registry keeps it untrimmed: a host that ends in a
  line feed is accepted, and the line feed reaches the clone URL.
\<close>

theorem host_kept_untrimmed:
  "(case merge_one registry_new \<lparr>pc_id = ''github'', pc_kind = Some ''github'',
        pc_host = Some (''github.com'' @ [CHR 0x0A]), pc_app_id = None, pc_auth_template = None,
        pc_auth_header_name = None\<rparr> of
      Inl _ \<Rightarrow> False
    | Inr reg \<Rightarrow> (case registry_get reg ''github'' of
         None \<Rightarrow> False
       | Some p \<Rightarrow> clone_url p ''o/r'' = ''https://github.com'' @ [CHR 0x0A] @ ''/o/r.git''))"
  by code_simp

end
