(* ===== verification/Admission.thy ===== *)
theory Admission
  imports Provider Control_Props
begin

text \<open>
  Admitting builds: the shared path of \<open>src/rust/src/server/api.rs\<close> that webhooks, the poller and
  the API use.  A pool's \<open>notify_one\<close> is an element of the list of wake-ups.
\<close>

fun erase :: "'t Out \<Rightarrow> unit Out" where
  "erase (OutPending e) = OutPending e"
| "erase (OutReady _) = OutReady ()"
| "erase (OutFailed e) = OutFailed e"

fun kind_state :: "BuildRow \<Rightarrow> ExactResultKind \<Rightarrow> unit Out" where
  "kind_state row Head = erase (br_head row)"
| "kind_state row Full = erase (br_full row)"
| "kind_state row Files = erase (br_files row)"

fun is_failed :: "'t Out \<Rightarrow> bool" where
  "is_failed (OutFailed _) = True"
| "is_failed _ = False"

fun is_pending :: "'t Out \<Rightarrow> bool" where
  "is_pending (OutPending _) = True"
| "is_pending _ = False"

fun is_ready :: "'t Out \<Rightarrow> bool" where
  "is_ready (OutReady _) = True"
| "is_ready _ = False"

definition build_wakes :: "BuildRow \<Rightarrow> Pool list" where
  "build_wakes row =
     (if is_pending (br_head row) then [PoolHead] else [])
     @ (if is_pending (br_files row) then [PoolFiles] else [])
     @ (if is_ready (br_head row) \<and> is_pending (br_full row) then [PoolFull] else [])"

definition admit_build ::
    "db \<Rightarrow> int \<Rightarrow> RepoId \<Rightarrow> string \<Rightarrow> string option \<Rightarrow> bool
       \<Rightarrow> (BuildRow \<times> bool) cresult \<times> db \<times> Pool list" where
  "admit_build d now repo commit ref_name retry_failed =
     (case admit d now repo commit ref_name of
        (Inl e, d1) \<Rightarrow> (Inl e, d1, [])
      | (Inr (row, inserted), d1) \<Rightarrow>
          (let failed = list_ex (\<lambda>k. is_failed (kind_state row k)) [Head, Full, Files] in
           if retry_failed \<and> failed
           then (case retry d1 repo commit of
                   (Inl e, d2) \<Rightarrow> (Inl e, d2, [])
                 | (Inr r, d2) \<Rightarrow>
                     (let row' = (case r of None \<Rightarrow> row | Some retried \<Rightarrow> retried)
                      in (Inr (row', inserted), d2, build_wakes row')))
           else (Inr (row, inserted), d1, build_wakes row)))"

definition repo_is_added :: "db \<Rightarrow> RepoId \<Rightarrow> bool cresult" where
  "repo_is_added d repo = rbind (get_repo d repo) (\<lambda>r. Inr (r \<noteq> None))"

fun join_slash :: "string list \<Rightarrow> string" where
  "join_slash [] = []"
| "join_slash [s] = s"
| "join_slash (s # ss) = s @ ''/'' @ join_slash ss"

definition resolve_repo_id :: "ProviderRegistry \<Rightarrow> string \<Rightarrow> (RepoId \<times> ProviderInstance) option" where
  "resolve_repo_id registry rest =
     (let segments = split_on (CHR ''/'') rest in
      if length segments < 2 then None
      else (case registry_get registry (segments ! 0) of
              None \<Rightarrow> None
            | Some provider \<Rightarrow>
                Some (\<lparr>rid_provider = pi_id provider, rid_path = join_slash (tl segments)\<rparr>, provider)))"

section \<open>Properties\<close>

lemma join_split: "join_slash (split_on (CHR ''/'') s) = s"
proof (induction s)
  case (Cons x s)
  obtain p ps where sp: "split_on (CHR ''/'') s = p # ps"
    using split_on_ne by (metis list.exhaust)
  with Cons show ?case by (cases ps) auto
qed simp

lemma get_repo_iff:
  assumes "\<And>k. k \<in> set (map fst (added_repos d)) \<Longrightarrow> key_valid k"
  shows "repo_is_added d repo = Inr (storage_key repo \<in> set (map fst (added_repos d)))"
proof (cases "first_row (filter (\<lambda>r. fst r = storage_key repo) (added_repos d))")
  case None
  then show ?thesis by (auto simp: repo_is_added_def get_repo_def filter_empty_conv)
next
  case (Some row)
  then have row: "row \<in> set (added_repos d)" "fst row = storage_key repo" by (auto dest: first_row_in)
  then have "key_valid (fst row)" using assms by (metis image_eqI list.set_map)
  then obtain r where "from_storage_key (fst row) = Inr r" using key_valid_decode by blast
  moreover have "storage_key repo \<in> fst ` set (added_repos d)" using row by (metis image_eqI)
  ultimately show ?thesis using Some by (simp add: repo_is_added_def get_repo_def decode_added_repo_def)
qed

text \<open>Updates that keep keys, seen through lookups of rows.\<close>

lemma find_build_update:
  assumes "\<And>b. row_key (f b) = row_key b"
  shows "find_build (d\<lparr>builds := sql_update p f (builds d)\<rparr>) repo commit =
    map_option (\<lambda>b. if p b then f b else b) (find_build d repo commit)"
proof -
  have key: "at_row repo commit (f b) = at_row repo commit b" for b
    using assms[of b] by (simp add: at_row_def row_key_def)
  have "first_row (filter (at_row repo commit) (map (\<lambda>b. if p b then f b else b) rows)) =
      map_option (\<lambda>b. if p b then f b else b) (first_row (filter (at_row repo commit) rows))" for rows
    by (induction rows) (simp_all add: key)
  then show ?thesis by (simp add: find_build_def sql_update_def)
qed

lemma update_other_rows:
  assumes "\<And>b. row_key (f b) = row_key b" "\<And>b. p b \<Longrightarrow> row_key b = key" "row_key x \<noteq> key"
  shows "x \<in> set (sql_update p f rows) \<longleftrightarrow> x \<in> set rows"
  unfolding set_sql_update image_iff using assms by metis

definition fill_ref :: "string option \<Rightarrow> build \<Rightarrow> build" where
  "fill_ref r b = (if b_ref_name b = None then b\<lparr>b_ref_name := r\<rparr> else b)"

lemma fill_ref_simps [simp]:
  "row_key (fill_ref r b) = row_key b" "b_seq (fill_ref r b) = b_seq b" "cols (fill_ref r b) k = cols b k"
  "b_ref_name b \<noteq> None \<Longrightarrow> b_ref_name (fill_ref r b) = b_ref_name b"
  by (auto simp: fill_ref_def row_key_def)

lemma fill_ref_none [simp]: "fill_ref None b = b"
  by (cases b) (simp add: fill_ref_def)

lemma snd_case_find:
  "snd (case r of None \<Rightarrow> (e, d) | Some b \<Rightarrow> (g b, d)) = d"
  by (cases r) auto

text \<open>An admission with valid arguments reads back the row of the database it leaves.\<close>

lemma admit_reads:
  fixes d now repo commit ref_name
  defines "d1 \<equiv> snd (admit d now repo commit ref_name)"
  assumes ok: "validate_object_id commit = Inr ()"
    "case ref_name of None \<Rightarrow> True | Some r \<Rightarrow> starts_with r ''refs/''"
  shows "admit d now repo commit ref_name =
    (case find_build d1 (storage_key repo) commit of
       None \<Rightarrow> (Inl MissingRow, d1)
     | Some b \<Rightarrow> (rbind (decode_build b) (\<lambda>r. Inr (r, find_build d (storage_key repo) commit = None)), d1))"
proof -
  have "\<not> (case ref_name of None \<Rightarrow> False | Some r \<Rightarrow> \<not> starts_with r ''refs/'')"
    using ok(2) by (cases ref_name) auto
  then show ?thesis using ok(1) unfolding d1_def admit_def
    by (cases "find_build d (storage_key repo) commit = None")
       (simp_all only: Let_def if_False if_True simp_thms snd_case_find not_not)
qed

lemma admit_spec:
  assumes wf: "wf_db s d" and repo: "rid_provider repo \<noteq> []" "rid_path repo \<noteq> []"
    and ok: "validate_object_id commit = Inr ()" "case ref_name of None \<Rightarrow> True | Some r \<Rightarrow> starts_with r ''refs/''"
  obtains row d1 b where
    "admit d now repo commit ref_name = (Inr (row, find_build d (storage_key repo) commit = None), d1)"
    "wf_db s d1" "find_build d1 (storage_key repo) commit = Some b" "decode_build b = Inr row"
    "\<And>old. find_build d (storage_key repo) commit = Some old \<Longrightarrow> b = fill_ref ref_name old"
    "ref_name \<noteq> None \<Longrightarrow> b_ref_name b \<noteq> None"
    "\<And>x. row_key x \<noteq> (storage_key repo, commit) \<Longrightarrow> x \<in> set (builds d1) \<longleftrightarrow> x \<in> set (builds d)"
proof -
  let ?key = "storage_key repo" and ?d1 = "snd (admit d now repo commit ref_name)"
  have wf1: "wf_db s ?d1"
    by (rule wf_admit[OF wf]) (simp add: key_valid_def from_storage_key_storage_key repo)
  have ref: "(case ref_name of None \<Rightarrow> False | Some r \<Rightarrow> \<not> starts_with r ''refs/'') = False"
    using ok(2) by (cases ref_name) auto
  have "\<exists>b. find_build ?d1 ?key commit = Some b
      \<and> (\<forall>old. find_build d ?key commit = Some old \<longrightarrow> b = fill_ref ref_name old)
      \<and> (ref_name \<noteq> None \<longrightarrow> b_ref_name b \<noteq> None)
      \<and> (\<forall>x. row_key x \<noteq> (?key, commit) \<longrightarrow> (x \<in> set (builds ?d1) \<longleftrightarrow> x \<in> set (builds d)))"
  proof (cases "find_build d ?key commit")
    case None
    then have "filter (at_row ?key commit) (builds d) = []" by (simp add: find_build_def)
    with None show ?thesis
      using ok ref
      by (auto simp: admit_def Let_def find_build_def at_row_def row_key_def split: option.split)
  next
    case (Some old)
    let ?p = "\<lambda>b. at_row ?key commit b \<and> b_ref_name b = None"
    have d1: "?d1 = (if ref_name = None then d else
        d\<lparr>builds := sql_update ?p (\<lambda>b. b\<lparr>b_ref_name := ref_name\<rparr>) (builds d)\<rparr>)"
      using Some ok ref by (auto simp: admit_def Let_def split: option.split)
    have "find_build ?d1 ?key commit = Some (fill_ref ref_name old)"
      unfolding d1 using Some find_build_in[OF Some]
      by (auto simp: find_build_update fill_ref_def at_row_def)
    moreover have "x \<in> set (builds ?d1) \<longleftrightarrow> x \<in> set (builds d)" if "row_key x \<noteq> (?key, commit)" for x
      unfolding d1 using that update_other_rows[where key = "(?key, commit)" and p = ?p and x = x]
      by (simp add: at_row_def row_key_def)
    ultimately show ?thesis using Some by (auto simp: fill_ref_def)
  qed
  then obtain b where b: "find_build ?d1 ?key commit = Some b"
    "\<And>old. find_build d ?key commit = Some old \<Longrightarrow> b = fill_ref ref_name old"
    "ref_name \<noteq> None \<Longrightarrow> b_ref_name b \<noteq> None"
    "\<And>x. row_key x \<noteq> (?key, commit) \<Longrightarrow> x \<in> set (builds ?d1) \<longleftrightarrow> x \<in> set (builds d)" by auto
  obtain row where row: "decode_build b = Inr row"
    using decode_build_total[OF wf_row[OF wf1]] find_build_in[OF b(1)] by blast
  have "admit d now repo commit ref_name = (Inr (row, find_build d ?key commit = None), ?d1)"
    using admit_reads[OF ok, of d now repo] b(1) row by simp
  then show ?thesis by (rule that) (use wf1 b row in auto)
qed


text \<open>A retry of the row.\<close>

definition retry_row :: "build \<Rightarrow> build" where
  "retry_row b = set_cols Full retry_cols (set_cols Files retry_cols (set_cols Head retry_cols b))"

lemma retry_row_simps [simp]:
  "row_key (retry_row b) = row_key b" "b_seq (retry_row b) = b_seq b" "b_ref_name (retry_row b) = b_ref_name b"
  "cols (retry_row b) k = retry_cols (cols b k)"
  by (auto simp: retry_row_def row_key_def) (cases k; simp)

lemma retry_spec:
  assumes wf: "wf_db s d" and b: "find_build d (storage_key repo) commit = Some b"
  obtains row d1 where "retry d repo commit = (Inr (Some row), d1)" "wf_db s d1"
    "decode_build (if any_failed b then retry_row b else b) = Inr row"
    "find_build d1 (storage_key repo) commit = Some (if any_failed b then retry_row b else b)"
    "\<And>x. row_key x \<noteq> (storage_key repo, commit) \<Longrightarrow> x \<in> set (builds d1) \<longleftrightarrow> x \<in> set (builds d)"
proof -
  let ?key = "storage_key repo" and ?d1 = "snd (retry d repo commit)"
  let ?p = "\<lambda>b. at_row ?key commit b \<and> any_failed b"
  have wf1: "wf_db s ?d1" by (rule wf_retry[OF wf])
  have d1: "?d1 = d\<lparr>builds := sql_update ?p retry_row (builds d)\<rparr>"
    unfolding retry_def Let_def snd_conv retry_row_def ..
  have f: "find_build ?d1 ?key commit = Some (if any_failed b then retry_row b else b)"
    unfolding d1 using b find_build_in[OF b] by (auto simp: find_build_update at_row_def)
  have o: "x \<in> set (builds ?d1) \<longleftrightarrow> x \<in> set (builds d)" if "row_key x \<noteq> (?key, commit)" for x
    unfolding d1 using that update_other_rows[OF retry_row_simps(1), of ?p "(?key, commit)" x "builds d"]
    by (simp add: at_row_def row_key_def)
  obtain row where row: "decode_build (if any_failed b then retry_row b else b) = Inr row"
    using decode_build_total[OF wf_row[OF wf1]] find_build_in[OF f] by blast
  have "retry d repo commit = (Inr (Some row), ?d1)"
    using f row by (auto simp: retry_def Let_def select_build_def)
  then show ?thesis using that wf1 f o row by blast
qed


text \<open>The states a decoded row shows are those of its columns.\<close>

lemma decoded_out:
  assumes "decode_out k json b = Inr r"
  shows "is_failed (erase r) \<longleftrightarrow> k_state (cols b k) = Failed"
    and "is_pending (erase r) \<longleftrightarrow> k_state (cols b k) = Pending"
    and "is_ready (erase r) \<longleftrightarrow> k_state (cols b k) = Ready"
  using assms by (auto simp: decode_out_def Let_def rbind_Inr split: out_state.splits)

lemma decoded_states:
  assumes "decode_build b = Inr row"
  shows "is_failed (kind_state row k) \<longleftrightarrow> k_state (cols b k) = Failed"
    and "is_pending (kind_state row k) \<longleftrightarrow> k_state (cols b k) = Pending"
    and "is_ready (kind_state row k) \<longleftrightarrow> k_state (cols b k) = Ready"
proof -
  have "decode_out Head head_json b = Inr (br_head row)" "decode_out Files files_json b = Inr (br_files row)"
    "decode_out Full full_json b = Inr (br_full row)"
    using assms by (auto simp: decode_build_def rbind_Inr)
  note out = this[THEN decoded_out(1)] this[THEN decoded_out(2)] this[THEN decoded_out(3)]
  show "is_failed (kind_state row k) \<longleftrightarrow> k_state (cols b k) = Failed"
    and "is_pending (kind_state row k) \<longleftrightarrow> k_state (cols b k) = Pending"
    and "is_ready (kind_state row k) \<longleftrightarrow> k_state (cols b k) = Ready"
    using out by (cases k; simp)+
qed

lemma erase_states [simp]:
  "is_pending (erase r) = is_pending r" "is_ready (erase r) = is_ready r" "is_failed (erase r) = is_failed r"
  by (cases r; simp)+

lemma build_wakes_states:
  assumes "decode_build b = Inr row"
  shows "PoolHead \<in> set (build_wakes row) \<longleftrightarrow> k_state (b_head b) = Pending"
    and "PoolFiles \<in> set (build_wakes row) \<longleftrightarrow> k_state (b_files b) = Pending"
    and "PoolFull \<in> set (build_wakes row) \<longleftrightarrow> k_state (b_head b) = Ready \<and> k_state (b_full b) = Pending"
  using decoded_states[OF assms, of Head] decoded_states[OF assms, of Files] decoded_states[OF assms, of Full]
  by (auto simp: build_wakes_def)


lemma retry_cols_id: "k_state c \<noteq> Failed \<Longrightarrow> retry_cols c = c"
  by (simp add: retry_cols_def)

lemma any_failed_iff: "any_failed b \<longleftrightarrow> (\<exists>k. k_state (cols b k) = Failed)"
  unfolding any_failed_def by (metis ExactResultKind.exhaust cols.simps)

lemma decoded_failed:
  assumes "decode_build b = Inr row"
  shows "list_ex (\<lambda>k. is_failed (kind_state row k)) [Head, Full, Files] \<longleftrightarrow> any_failed b"
  using decoded_states(1)[OF assms] by (auto simp: any_failed_def)

lemma admit_build_spec:
  assumes wf: "wf_db s d" and repo: "rid_provider repo \<noteq> []" "rid_path repo \<noteq> []"
    and ok: "validate_object_id commit = Inr ()" "case ref_name of None \<Rightarrow> True | Some r \<Rightarrow> starts_with r ''refs/''"
  obtains row d' wakes b where
    "admit_build d now repo commit ref_name retry_failed
      = (Inr (row, find_build d (storage_key repo) commit = None), d', wakes)"
    "wf_db s d'" "find_build d' (storage_key repo) commit = Some b" "decode_build b = Inr row"
    "\<And>old k. find_build d (storage_key repo) commit = Some old \<Longrightarrow>
       b_seq b = b_seq old \<and> (b_ref_name old \<noteq> None \<longrightarrow> b_ref_name b = b_ref_name old)
       \<and> cols b k = (if retry_failed then retry_cols (cols old k) else cols old k)"
    "ref_name \<noteq> None \<Longrightarrow> b_ref_name b \<noteq> None"
    "\<And>x. row_key x \<noteq> (storage_key repo, commit) \<Longrightarrow> x \<in> set (builds d') \<longleftrightarrow> x \<in> set (builds d)"
    "wakes = build_wakes row"
proof -
  let ?key = "storage_key repo"
  obtain row d1 b where a: "admit d now repo commit ref_name = (Inr (row, find_build d ?key commit = None), d1)"
    "wf_db s d1" "find_build d1 ?key commit = Some b" "decode_build b = Inr row"
    and old: "\<And>old. find_build d ?key commit = Some old \<Longrightarrow> b = fill_ref ref_name old"
    and ref: "ref_name \<noteq> None \<Longrightarrow> b_ref_name b \<noteq> None"
    and others: "\<And>x. row_key x \<noteq> (?key, commit) \<Longrightarrow> x \<in> set (builds d1) \<longleftrightarrow> x \<in> set (builds d)"
    by (rule admit_spec[OF wf repo ok], rule that, assumption+)
  show ?thesis
  proof (cases "retry_failed \<and> any_failed b")
    case True
    obtain row' d2 where r: "retry d1 repo commit = (Inr (Some row'), d2)" "wf_db s d2"
      "find_build d2 ?key commit = Some (retry_row b)" "decode_build (retry_row b) = Inr row'"
      "\<And>x. row_key x \<noteq> (?key, commit) \<Longrightarrow> x \<in> set (builds d2) \<longleftrightarrow> x \<in> set (builds d1)"
      by (rule retry_spec[OF a(2,3)]) (use True in auto)
    have eq: "admit_build d now repo commit ref_name retry_failed
        = (Inr (row', find_build d ?key commit = None), d2, build_wakes row')"
      using a(1) r(1) True decoded_failed[OF a(4)] by (simp add: admit_build_def Let_def)
    show ?thesis by (rule that[OF eq r(2-4)]) (use r others old ref True in auto)
  next
    case False
    then have eq: "admit_build d now repo commit ref_name retry_failed
        = (Inr (row, find_build d ?key commit = None), d1, build_wakes row)"
      using a(1) decoded_failed[OF a(4)] by (auto simp: admit_build_def Let_def)
    have "retry_failed \<Longrightarrow> retry_cols (cols b k) = cols b k" for k
      using False any_failed_iff retry_cols_id by blast
    note cols = this
    show ?thesis by (rule that[OF eq a(2-4)]) (use a others old ref cols in auto)
  qed
qed


text \<open>
  Admitting a valid commit never fails: it creates the row exactly when there was none, an existing
  row keeps its sequence number, its recorded ref and its outputs, except that an explicit retry puts
  the failed ones (and only those) back to pending; no other row changes, and exactly the pools
  with work on the row are woken.
\<close>

theorem admit_build_keeps:
  assumes wf: "wf_db s d" and repo: "rid_provider repo \<noteq> []" "rid_path repo \<noteq> []"
    and ok: "validate_object_id commit = Inr ()" "case ref_name of None \<Rightarrow> True | Some r \<Rightarrow> starts_with r ''refs/''"
  shows "\<exists>row d' wakes b.
    admit_build d now repo commit ref_name retry_failed
      = (Inr (row, find_build d (storage_key repo) commit = None), d', wakes)
    \<and> wf_db s d' \<and> find_build d' (storage_key repo) commit = Some b \<and> decode_build b = Inr row
    \<and> (\<forall>old k. find_build d (storage_key repo) commit = Some old \<longrightarrow>
         b_seq b = b_seq old \<and> (b_ref_name old \<noteq> None \<longrightarrow> b_ref_name b = b_ref_name old)
         \<and> cols b k = (if retry_failed then retry_cols (cols old k) else cols old k))
    \<and> (\<forall>x. row_key x \<noteq> (storage_key repo, commit) \<longrightarrow> (x \<in> set (builds d') \<longleftrightarrow> x \<in> set (builds d)))
    \<and> (PoolHead \<in> set wakes \<longleftrightarrow> k_state (b_head b) = Pending)
    \<and> (PoolFiles \<in> set wakes \<longleftrightarrow> k_state (b_files b) = Pending)
    \<and> (PoolFull \<in> set wakes \<longleftrightarrow> k_state (b_head b) = Ready \<and> k_state (b_full b) = Pending)"
  by (rule admit_build_spec[OF assms, where now = now and retry_failed = retry_failed])
     (use build_wakes_states in blast)

theorem admit_build_keeps_witness:
  "\<exists>row d' wakes b. admit_build ex_published 9 ex_repo ex_commit None True = (Inr (row, False), d', wakes)
    \<and> find_build d' (storage_key ex_repo) ex_commit = Some b \<and> b_seq b = 1
    \<and> k_state (b_head b) = Ready \<and> PoolFull \<in> set wakes"
proof -
  define old where "old = the (find_build ex_published (storage_key ex_repo) ex_commit)"
  have "find_build ex_published (storage_key ex_repo) ex_commit \<noteq> None" by code_simp
  then have old: "find_build ex_published (storage_key ex_repo) ex_commit = Some old"
    by (simp add: old_def)
  have states: "b_seq old = 1" "k_state (b_head old) = Ready" "k_state (b_full old) = Pending"
    unfolding old_def by code_simp+
  have "rid_provider ex_repo \<noteq> []" "rid_path ex_repo \<noteq> []" "validate_object_id ex_commit = Inr ()"
    by code_simp+
  then have "\<exists>row d' wakes b.
      admit_build ex_published 9 ex_repo ex_commit None True = (Inr (row, False), d', wakes)
      \<and> find_build d' (storage_key ex_repo) ex_commit = Some b \<and> b_seq b = b_seq old
      \<and> (\<forall>k. cols b k = retry_cols (cols old k))
      \<and> (PoolFull \<in> set wakes \<longleftrightarrow> k_state (b_head b) = Ready \<and> k_state (b_full b) = Pending)"
    using admit_build_keeps[OF wf_ex_published, of ex_repo ex_commit None 9 True] old by auto
  then obtain row d' wakes b where r:
    "admit_build ex_published 9 ex_repo ex_commit None True = (Inr (row, False), d', wakes)"
    "find_build d' (storage_key ex_repo) ex_commit = Some b" "b_seq b = b_seq old"
    "cols b Head = retry_cols (cols old Head)" "cols b Full = retry_cols (cols old Full)"
    "PoolFull \<in> set wakes \<longleftrightarrow> k_state (b_head b) = Ready \<and> k_state (b_full b) = Pending" by blast
  then show ?thesis using states by (auto simp: retry_cols_def)
qed

end
