(* ===== verification/Webhook.thy ===== *)
theory Webhook
  imports Admission
begin

text \<open>
  The webhook receiver: the adapters of \<open>src/rust/src/webhook\<close> (GitHub, GitLab, Gitea) behind one
  interface, and the handler of \<open>src/rust/src/server/webhooks.rs\<close> that verifies a delivery,
  normalizes it and admits its commit.  The trait \<open>WebhookProvider\<close> is the locale
  \<open>webhook_provider\<close>.

  Parameters stand for the crates the code calls: \<open>hmac\<close> is HMAC-SHA256 of a key and a body,
  \<open>unhex\<close> decodes hexadecimal, and a \<open>json_...\<close> function deserializes a body into the
  projection the adapter declares.  A header map gives the value of a lower-case name.
\<close>

section \<open>Events\<close>

datatype EventKind = Push | Delete | Ping

record CanonicalEvent =
  ev_kind :: EventKind
  ev_repo :: string
  ev_ref :: string
  ev_after :: "string option"
  ev_default_branch :: "string option"
  ev_private :: "bool option"

definition is_zero_sha :: "string \<Rightarrow> bool" where
  "is_zero_sha sha = (sha \<noteq> [] \<and> list_all (\<lambda>b. b = CHR ''0'') sha)"

type_synonym headers = "string \<Rightarrow> string option"

text \<open>\<open>HeaderValue::to_str\<close> refuses anything but visible ASCII, spaces and tabs.\<close>

definition header_str :: "headers \<Rightarrow> string \<Rightarrow> string option" where
  "header_str hs name =
     (case hs (map to_ascii_lower name) of
        None \<Rightarrow> None
      | Some v \<Rightarrow> if list_all (\<lambda>c. 32 \<le> byte c \<and> byte c < 127 \<or> byte c = 9) v then Some v else None)"

definition ping_event :: CanonicalEvent where
  "ping_event = \<lparr>ev_kind = Ping, ev_repo = [], ev_ref = [], ev_after = None,
     ev_default_branch = None, ev_private = None\<rparr>"

definition zero_or_missing :: "string option \<Rightarrow> bool" where
  "zero_or_missing after = (case after of None \<Rightarrow> True | Some a \<Rightarrow> is_zero_sha a)"

definition nonzero :: "string option \<Rightarrow> string option" where
  "nonzero after = (case after of None \<Rightarrow> None | Some a \<Rightarrow> if is_zero_sha a then None else Some a)"

section \<open>Adapters\<close>

record github_push =
  gh_ref :: string
  gh_after :: "string option"
  gh_deleted :: bool
  gh_name :: string
  gh_owner_login :: string
  gh_default_branch :: "string option"
  gh_private :: "bool option"

definition github_verify ::
    "(string \<Rightarrow> string option) \<Rightarrow> (string \<Rightarrow> string \<Rightarrow> string) \<Rightarrow> headers \<Rightarrow> string \<Rightarrow> string \<Rightarrow> bool" where
  "github_verify unhex hmac hs raw secret =
     (case header_str hs ''X-Hub-Signature-256'' of
        None \<Rightarrow> False
      | Some header \<Rightarrow> (case strip_prefix header ''sha256='' of
          None \<Rightarrow> False
        | Some hex_sig \<Rightarrow> (case unhex hex_sig of
            None \<Rightarrow> False
          | Some provided \<Rightarrow> hmac secret raw = provided)))"

definition github_parse :: "(string \<Rightarrow> github_push option) \<Rightarrow> headers \<Rightarrow> string \<Rightarrow> CanonicalEvent option" where
  "github_parse json hs raw =
     (case header_str hs ''X-GitHub-Event'' of
        None \<Rightarrow> None
      | Some event \<Rightarrow>
          if event = ''ping'' then Some ping_event
          else if event = ''push'' then
            (case json raw of
               None \<Rightarrow> None
             | Some p \<Rightarrow>
                 Some \<lparr>ev_kind = (if gh_deleted p \<or> zero_or_missing (gh_after p) then Delete else Push),
                       ev_repo = gh_owner_login p @ ''/'' @ gh_name p, ev_ref = gh_ref p,
                       ev_after = nonzero (gh_after p), ev_default_branch = gh_default_branch p,
                       ev_private = gh_private p\<rparr>)
          else None)"

record gitlab_push =
  gl_ref :: string
  gl_after :: "string option"
  gl_path_with_namespace :: string
  gl_default_branch :: "string option"
  gl_visibility_level :: "int option"

definition gitlab_verify :: "headers \<Rightarrow> string \<Rightarrow> string \<Rightarrow> bool" where
  "gitlab_verify hs raw secret =
     (case header_str hs ''X-Gitlab-Token'' of None \<Rightarrow> False | Some token \<Rightarrow> token = secret)"

definition gitlab_parse :: "(string \<Rightarrow> gitlab_push option) \<Rightarrow> headers \<Rightarrow> string \<Rightarrow> CanonicalEvent option" where
  "gitlab_parse json hs raw =
     (case header_str hs ''X-Gitlab-Event'' of
        None \<Rightarrow> None
      | Some event \<Rightarrow>
          if event \<noteq> ''Push Hook'' \<and> event \<noteq> ''Tag Push Hook'' then None
          else (case json raw of
               None \<Rightarrow> None
             | Some p \<Rightarrow>
                 Some \<lparr>ev_kind = (if zero_or_missing (gl_after p) then Delete else Push),
                       ev_repo = gl_path_with_namespace p, ev_ref = gl_ref p,
                       ev_after = nonzero (gl_after p), ev_default_branch = gl_default_branch p,
                       ev_private = map_option (\<lambda>level. level < 20) (gl_visibility_level p)\<rparr>))"

record gitea_payload =
  gt_ref :: string
  gt_after :: "string option"
  gt_ref_type :: "string option"
  gt_full_name :: string
  gt_default_branch :: "string option"
  gt_private :: "bool option"

definition gitea_verify ::
    "(string \<Rightarrow> string option) \<Rightarrow> (string \<Rightarrow> string \<Rightarrow> string) \<Rightarrow> headers \<Rightarrow> string \<Rightarrow> string \<Rightarrow> bool" where
  "gitea_verify unhex hmac hs raw secret =
     (case header_str hs ''X-Gitea-Signature'' of
        None \<Rightarrow> False
      | Some hex_sig \<Rightarrow> (case unhex hex_sig of
          None \<Rightarrow> False
        | Some provided \<Rightarrow> hmac secret raw = provided))"

definition gitea_delete_ref :: "gitea_payload \<Rightarrow> string option" where
  "gitea_delete_ref p =
     (if gt_ref_type p = Some ''branch'' then Some (''refs/heads/'' @ gt_ref p)
      else if gt_ref_type p = Some ''tag'' then Some (''refs/tags/'' @ gt_ref p) else None)"

definition gitea_parse :: "(string \<Rightarrow> gitea_payload option) \<Rightarrow> (string \<Rightarrow> gitea_payload option) \<Rightarrow>
    headers \<Rightarrow> string \<Rightarrow> CanonicalEvent option" where
  "gitea_parse json_push json_delete hs raw =
     (case header_str hs ''X-Gitea-Event'' of
        None \<Rightarrow> None
      | Some event \<Rightarrow>
          if event = ''ping'' then Some ping_event
          else if event = ''push'' then
            (case json_push raw of
               None \<Rightarrow> None
             | Some p \<Rightarrow>
                 Some \<lparr>ev_kind = (if zero_or_missing (gt_after p) then Delete else Push),
                       ev_repo = gt_full_name p, ev_ref = gt_ref p, ev_after = nonzero (gt_after p),
                       ev_default_branch = gt_default_branch p, ev_private = gt_private p\<rparr>)
          else if event = ''delete'' then
            (case json_delete raw of
               None \<Rightarrow> None
             | Some p \<Rightarrow> (case gitea_delete_ref p of
                 None \<Rightarrow> None
               | Some r \<Rightarrow>
                   Some \<lparr>ev_kind = Delete, ev_repo = gt_full_name p, ev_ref = r, ev_after = None,
                         ev_default_branch = gt_default_branch p, ev_private = gt_private p\<rparr>))
          else None)"

section \<open>Configuration\<close>

definition to_ascii_upper :: "char \<Rightarrow> char" where
  "to_ascii_upper c = (if is_ascii_lower c then char_of (of_char c - 32 :: nat) else c)"

definition env_var :: "string \<Rightarrow> string \<Rightarrow> string" where
  "env_var prefix i = prefix @ ''_'' @
     map (\<lambda>c. if is_ascii_alphanumeric c then to_ascii_upper c else CHR ''_'') i"

definition env_secret :: "string option \<Rightarrow> string option" where
  "env_secret val = (case val of None \<Rightarrow> None | Some v \<Rightarrow> if trim v = [] then None else Some v)"

type_synonym WebhookConfig = "string \<Rightarrow> string option"

text \<open>\<open>env\<close> is the process environment.\<close>

definition webhook_from_env :: "(string \<Rightarrow> string option) \<Rightarrow> ProviderRegistry \<Rightarrow> WebhookConfig" where
  "webhook_from_env env registry = (\<lambda>i. case registry_get registry i of
     None \<Rightarrow> None
   | Some p \<Rightarrow> env_secret (env (env_var ''RIPCLONE_WEBHOOK_SECRET'' i)))"

section \<open>The handler\<close>

text \<open>The crates the adapters call.\<close>

record crates =
  c_unhex :: "string \<Rightarrow> string option"
  c_hmac :: "string \<Rightarrow> string \<Rightarrow> string"
  c_json_github :: "string \<Rightarrow> github_push option"
  c_json_gitlab :: "string \<Rightarrow> gitlab_push option"
  c_json_gitea_push :: "string \<Rightarrow> gitea_payload option"
  c_json_gitea_delete :: "string \<Rightarrow> gitea_payload option"

record WebhookProvider =
  wp_verify :: "headers \<Rightarrow> string \<Rightarrow> string \<Rightarrow> bool"
  wp_parse :: "headers \<Rightarrow> string \<Rightarrow> CanonicalEvent option"

definition provider_for :: "crates \<Rightarrow> ProviderKind \<Rightarrow> WebhookProvider option" where
  "provider_for cr k = (case k of
       GitHub \<Rightarrow> Some \<lparr>wp_verify = github_verify (c_unhex cr) (c_hmac cr),
                       wp_parse = github_parse (c_json_github cr)\<rparr>
     | GitLab \<Rightarrow> Some \<lparr>wp_verify = gitlab_verify, wp_parse = gitlab_parse (c_json_gitlab cr)\<rparr>
     | Gitea \<Rightarrow> Some \<lparr>wp_verify = gitea_verify (c_unhex cr) (c_hmac cr),
                      wp_parse = gitea_parse (c_json_gitea_push cr) (c_json_gitea_delete cr)\<rparr>
     | Generic \<Rightarrow> None)"

definition MAX_WEBHOOK_BODY_BYTES :: nat where
  "MAX_WEBHOOK_BODY_BYTES = 25 * 1024 * 1024"

text \<open>A response: accepted or ignored with a reason (both 200), or an error status.\<close>

datatype response = WebhookAccepted | WebhookIgnored string | ErrorStatus nat

text \<open>
  What a request does besides answering: the control store it leaves, the pools it wakes and the
  repositories whose refs it has refreshed in the background.
\<close>

record effects =
  fx_db :: db
  fx_wakes :: "Pool list"
  fx_refreshes :: "RepoId list"

abbreviation no_effect :: "db \<Rightarrow> effects" where
  "no_effect d \<equiv> \<lparr>fx_db = d, fx_wakes = [], fx_refreshes = []\<rparr>"

definition webhook_repo :: "db \<Rightarrow> ProviderInstance \<Rightarrow> CanonicalEvent \<Rightarrow> response + RepoId" where
  "webhook_repo d provider event =
     (let repo_id = \<lparr>rid_provider = pi_id provider, rid_path = ev_repo event\<rparr> in
      if validate_repo_path provider repo_id \<noteq> Inr () then Inl (WebhookIgnored ''invalid repo path'')
      else (case repo_is_added d repo_id of
              Inr True \<Rightarrow> Inr repo_id
            | Inr False \<Rightarrow> Inl (WebhookIgnored ''repo not added'')
            | Inl e \<Rightarrow> Inl (ErrorStatus 503)))"

definition webhook_refresh_refs :: "db \<Rightarrow> ProviderInstance \<Rightarrow> CanonicalEvent \<Rightarrow> response \<times> effects" where
  "webhook_refresh_refs d provider event =
     (case webhook_repo d provider event of
        Inl resp \<Rightarrow> (resp, no_effect d)
      | Inr repo_id \<Rightarrow> (WebhookAccepted, (no_effect d)\<lparr>fx_refreshes := [repo_id]\<rparr>))"

definition webhook_dispatch_push ::
    "db \<Rightarrow> int \<Rightarrow> ProviderInstance \<Rightarrow> CanonicalEvent \<Rightarrow> response \<times> effects" where
  "webhook_dispatch_push d now provider event =
     (case webhook_repo d provider event of
        Inl resp \<Rightarrow> (resp, no_effect d)
      | Inr repo_id \<Rightarrow>
          (let branch = (case strip_prefix (ev_ref event) ''refs/heads/'' of None \<Rightarrow> [] | Some b \<Rightarrow> b) in
           if validate_checkout_name branch \<noteq> Inr () then (WebhookIgnored ''invalid branch'', no_effect d)
           else (case ev_after event of
               None \<Rightarrow> (WebhookIgnored ''push event has no after commit'', no_effect d)
             | Some after \<Rightarrow>
                 if validate_object_id after \<noteq> Inr ()
                 then (WebhookIgnored ''push event has invalid after commit'', no_effect d)
                 else if ev_default_branch event \<noteq> Some branch
                 then (WebhookAccepted, (no_effect d)\<lparr>fx_refreshes := [repo_id]\<rparr>)
                 else (case admit_build d now repo_id after (Some (''refs/heads/'' @ branch)) False of
                     (Inr _, d', wakes) \<Rightarrow>
                       (WebhookAccepted, \<lparr>fx_db = d', fx_wakes = wakes, fx_refreshes = [repo_id]\<rparr>)
                   | (Inl e, d', wakes) \<Rightarrow>
                       (ErrorStatus 503, \<lparr>fx_db = d', fx_wakes = wakes, fx_refreshes = []\<rparr>)))))"

text \<open>The body is \<open>None\<close> when reading the stream fails.\<close>

definition handle_webhook ::
    "crates \<Rightarrow> ProviderRegistry \<Rightarrow> WebhookConfig \<Rightarrow> db \<Rightarrow> int \<Rightarrow> string \<Rightarrow> headers \<Rightarrow> string option
       \<Rightarrow> response \<times> effects" where
  "handle_webhook cr registry config d now provider_id hs body =
     (case registry_get registry provider_id of
        None \<Rightarrow> (ErrorStatus 404, no_effect d)
      | Some provider \<Rightarrow> (case provider_for cr (pi_kind provider) of
          None \<Rightarrow> (ErrorStatus 501, no_effect d)
        | Some adapter \<Rightarrow> (case config (pi_id provider) of
            None \<Rightarrow> (ErrorStatus 503, no_effect d)
          | Some secret \<Rightarrow> (case body of
              None \<Rightarrow> (ErrorStatus 413, no_effect d)
            | Some raw \<Rightarrow>
                if length raw > MAX_WEBHOOK_BODY_BYTES then (ErrorStatus 413, no_effect d)
                else if \<not> wp_verify adapter hs raw secret then (ErrorStatus 401, no_effect d)
                else (case wp_parse adapter hs raw of
                    None \<Rightarrow> (WebhookIgnored ''unhandled event'', no_effect d)
                  | Some event \<Rightarrow>
                      let branch = starts_with (ev_ref event) ''refs/heads/'';
                          tag = starts_with (ev_ref event) ''refs/tags/'' in
                      if ev_kind event = Ping then (WebhookAccepted, no_effect d)
                      else if ev_kind event = Push \<and> branch then webhook_dispatch_push d now provider event
                      else if branch \<or> tag then webhook_refresh_refs d provider event
                      else (WebhookIgnored ''not a branch or tag'', no_effect d))))))"

section \<open>The interface\<close>

text \<open>
  What the handler relies on: without its signature header no delivery verifies, no event has
  an all-zeros tip, and a push has a tip.
\<close>

locale webhook_provider =
  fixes verify :: "headers \<Rightarrow> string \<Rightarrow> string \<Rightarrow> bool"
    and parse :: "headers \<Rightarrow> string \<Rightarrow> CanonicalEvent option"
    and header :: string
  assumes verify_header: "verify hs raw secret \<Longrightarrow> header_str hs header \<noteq> None"
    and parse_after: "parse hs raw = Some ev \<Longrightarrow> ev_after ev = Some a \<Longrightarrow> \<not> is_zero_sha a"
    and parse_push: "parse hs raw = Some ev \<Longrightarrow> ev_kind ev = Push \<Longrightarrow> ev_after ev \<noteq> None"
begin

lemma missing_signature: "hs (map to_ascii_lower header) = None \<Longrightarrow> \<not> verify hs raw secret"
  using verify_header by (fastforce simp: header_str_def)

lemma push_tip: "parse hs raw = Some ev \<Longrightarrow> ev_kind ev = Push \<Longrightarrow> \<exists>a. ev_after ev = Some a \<and> \<not> is_zero_sha a"
  using parse_push parse_after by blast

end

lemma nonzero_not_zero: "nonzero x = Some a \<Longrightarrow> \<not> is_zero_sha a"
  by (auto simp: nonzero_def split: option.splits if_splits)

lemma nonzero_present: "\<not> zero_or_missing x \<Longrightarrow> nonzero x \<noteq> None"
  by (auto simp: nonzero_def zero_or_missing_def split: option.splits)

lemmas adapter_simps = ping_event_def nonzero_not_zero

interpretation github: webhook_provider "github_verify unhex hmac" "github_parse json" "''X-Hub-Signature-256''"
  for unhex hmac json
  by unfold_locales
    (auto simp: github_verify_def github_parse_def ping_event_def dest: nonzero_not_zero
      dest!: nonzero_present split: option.splits if_splits)

interpretation gitlab: webhook_provider gitlab_verify "gitlab_parse json" "''X-Gitlab-Token''" for json
  by unfold_locales
    (auto simp: gitlab_verify_def gitlab_parse_def dest: nonzero_not_zero
      dest!: nonzero_present split: option.splits if_splits)

interpretation gitea: webhook_provider "gitea_verify unhex hmac" "gitea_parse json_push json_delete"
    "''X-Gitea-Signature''"
  for unhex hmac json_push json_delete
  by unfold_locales
    (auto simp: gitea_verify_def gitea_parse_def ping_event_def dest: nonzero_not_zero
      dest!: nonzero_present split: option.splits if_splits)


text \<open>The adapter of every provider kind meets the interface.\<close>

fun signature_header :: "ProviderKind \<Rightarrow> string" where
  "signature_header GitHub = ''X-Hub-Signature-256''"
| "signature_header GitLab = ''X-Gitlab-Token''"
| "signature_header Gitea = ''X-Gitea-Signature''"
| "signature_header Generic = []"

lemma provider_for_interface:
  assumes "provider_for cr k = Some a"
  shows "webhook_provider (wp_verify a) (wp_parse a) (signature_header k)"
  using assms github.webhook_provider_axioms[of "c_unhex cr" "c_hmac cr" "c_json_github cr"]
    gitlab.webhook_provider_axioms[of "c_json_gitlab cr"]
    gitea.webhook_provider_axioms[of "c_unhex cr" "c_hmac cr" "c_json_gitea_push cr" "c_json_gitea_delete cr"]
  by (cases k) (auto simp: provider_for_def)

section \<open>Properties\<close>

text \<open>An example delivery: a push of \<open>main\<close> to an added repository.\<close>

definition ex_added :: db where
  "ex_added = snd (add_repo empty_db 5 ex_repo (Some ''owner''))"

definition ex_crates :: crates where
  "ex_crates = \<lparr>c_unhex = Some, c_hmac = (@),
     c_json_github = (\<lambda>raw. Some \<lparr>gh_ref = ''refs/heads/main'', gh_after = Some ex_commit, gh_deleted = False,
       gh_name = ''r'', gh_owner_login = ''o'', gh_default_branch = Some ''main'', gh_private = None\<rparr>),
     c_json_gitlab = (\<lambda>raw. None), c_json_gitea_push = (\<lambda>raw. None), c_json_gitea_delete = (\<lambda>raw. None)\<rparr>"

definition ex_secrets :: WebhookConfig where
  "ex_secrets = [''github'' \<mapsto> ''s'']"

definition ex_headers :: headers where
  "ex_headers = [''x-hub-signature-256'' \<mapsto> ''sha256=s{}'', ''x-github-event'' \<mapsto> ''push'']"

definition ex_github :: ProviderInstance where
  "ex_github = the (registry_get registry_new ''github'')"

definition ex_adapter :: WebhookProvider where
  "ex_adapter = the (provider_for ex_crates GitHub)"

definition ex_event :: CanonicalEvent where
  "ex_event = the (wp_parse ex_adapter ex_headers ''{}'')"

lemma wf_ex_added: "wf_db ex_store ex_added"
  unfolding ex_added_def
  by (rule wf_add_repo[OF wf_empty]) (simp add: ex_store_def)

lemma ex_adapter_verifies:
  "wp_verify ex_adapter ex_headers ''{}'' ''s''" "wp_parse ex_adapter ex_headers ''{}'' = Some ex_event"
  "ev_kind ex_event = Push" "ev_ref ex_event = ''refs/heads/'' @ ''main''" "ev_default_branch ex_event = Some ''main''"
  "ev_after ex_event = Some ex_commit" "ev_repo ex_event = ''o/r''"
  by code_simp+

lemma ex_github_simps:
  "registry_get registry_new ''github'' = Some ex_github" "pi_id ex_github = ''github''" "pi_kind ex_github = GitHub"
  by code_simp+

lemma ex_secrets_github: "ex_secrets ''github'' = Some ''s''"
  by code_simp

lemma ex_adapter_for: "provider_for ex_crates GitHub = Some ex_adapter"
  by (simp add: ex_adapter_def provider_for_def)

lemma webhook_repo_ok:
  assumes "webhook_repo d provider ev = Inr repo"
  shows "repo = \<lparr>rid_provider = pi_id provider, rid_path = ev_repo ev\<rparr>"
    "validate_repo_path provider repo = Inr ()" "repo_is_added d repo = Inr True"
  using assms by (auto simp: webhook_repo_def Let_def split: if_splits sum.splits bool.splits)

lemma dispatch_effect:
  assumes "webhook_dispatch_push d now provider ev = (resp, fx)" "fx \<noteq> no_effect d"
  obtains repo where "webhook_repo d provider ev = Inr repo"
  using assms by (auto simp: webhook_dispatch_push_def split: sum.splits)

lemma refresh_effect:
  assumes "webhook_refresh_refs d provider ev = (resp, fx)" "fx \<noteq> no_effect d"
  obtains repo where "webhook_repo d provider ev = Inr repo"
  using assms by (auto simp: webhook_refresh_refs_def split: sum.splits)


text \<open>
  C36.  The receiver fails closed: a delivery that changes the control store, wakes a pool or starts a refresh
  names a configured provider with an adapter and a secret, has a body within the size limit that
  verifies under that secret and parses, and its repository has a safe path and was added.
\<close>

theorem webhook_fail_closed:
  assumes "handle_webhook cr registry config d now provider_id hs body = (resp, fx)"
    and "fx \<noteq> no_effect d"
  shows "\<exists>provider adapter secret raw ev.
    registry_get registry provider_id = Some provider \<and> provider_for cr (pi_kind provider) = Some adapter
    \<and> config (pi_id provider) = Some secret \<and> body = Some raw \<and> length raw \<le> MAX_WEBHOOK_BODY_BYTES
    \<and> wp_verify adapter hs raw secret \<and> wp_parse adapter hs raw = Some ev
    \<and> safe_repo_path (ev_repo ev)
    \<and> repo_is_added d \<lparr>rid_provider = pi_id provider, rid_path = ev_repo ev\<rparr> = Inr True"
proof -
  from assms obtain provider adapter secret raw ev where
    ok: "registry_get registry provider_id = Some provider" "provider_for cr (pi_kind provider) = Some adapter"
      "config (pi_id provider) = Some secret" "body = Some raw" "length raw \<le> MAX_WEBHOOK_BODY_BYTES"
      "wp_verify adapter hs raw secret" "wp_parse adapter hs raw = Some ev"
    and act: "webhook_dispatch_push d now provider ev = (resp, fx) \<or> webhook_refresh_refs d provider ev = (resp, fx)"
    by (auto simp: handle_webhook_def Let_def split: option.splits if_splits)
  obtain repo where repo: "webhook_repo d provider ev = Inr repo"
    using act dispatch_effect refresh_effect assms(2) by metis
  from webhook_repo_ok[OF repo] have "safe_repo_path (ev_repo ev)"
    using validate_repo_path_safe by fastforce
  with ok webhook_repo_ok[OF repo] show ?thesis by auto
qed

theorem webhook_fail_closed_witness:
  "repo_is_added ex_added \<lparr>rid_provider = ''github'', rid_path = ''o/r''\<rparr> = Inr True
    \<and> fst (handle_webhook ex_crates registry_new ex_secrets ex_added 9 ''github'' ex_headers (Some ''{}''))
        = WebhookAccepted"
proof -
  let ?r = "handle_webhook ex_crates registry_new ex_secrets ex_added 9 ''github'' ex_headers (Some ''{}'')"
  have "fx_refreshes (snd ?r) = [ex_repo]" "fst ?r = WebhookAccepted" by code_simp+
  moreover have "snd ?r \<noteq> no_effect ex_added" using calculation(1) by auto
  note webhook_fail_closed[OF prod.collapse[symmetric] this]
  ultimately show ?thesis
    using ex_github_simps ex_adapter_for ex_adapter_verifies by auto
qed

text \<open>
  A verified push of an added repository's default branch is accepted: the pushed commit has a row,
  created if there was none, recording the branch, and the refs are refreshed.
\<close>

theorem webhook_push_admitted:
  assumes wf: "wf_db s d" and reg: "registry_get registry provider_id = Some provider" "pi_id provider \<noteq> []"
    and adapter: "provider_for cr (pi_kind provider) = Some adapter" "config (pi_id provider) = Some secret"
    and body: "length raw \<le> MAX_WEBHOOK_BODY_BYTES" "wp_verify adapter hs raw secret"
    and ev: "wp_parse adapter hs raw = Some ev" "ev_kind ev = Push" "ev_ref ev = ''refs/heads/'' @ branch"
      "ev_default_branch ev = Some branch" "ev_after ev = Some after"
    and valid: "validate_checkout_name branch = Inr ()" "validate_object_id after = Inr ()"
    and repo: "repo = \<lparr>rid_provider = pi_id provider, rid_path = ev_repo ev\<rparr>"
      "validate_repo_path provider repo = Inr ()" "repo_is_added d repo = Inr True"
  shows "\<exists>fx b. handle_webhook cr registry config d now provider_id hs (Some raw) = (WebhookAccepted, fx)
    \<and> wf_db s (fx_db fx) \<and> fx_refreshes fx = [repo]
    \<and> find_build (fx_db fx) (storage_key repo) after = Some b \<and> b_ref_name b \<noteq> None
    \<and> (k_state (b_head b) = Pending \<longrightarrow> PoolHead \<in> set (fx_wakes fx))"
proof -
  have ref: "strip_prefix (ev_ref ev) ''refs/heads/'' = Some branch" "starts_with (ev_ref ev) ''refs/heads/''"
    unfolding ev(3) by (rule strip_prefix_append, rule starts_with_append)
  have wr: "webhook_repo d provider ev = Inr repo"
    using repo by (simp add: webhook_repo_def Let_def)
  have "safe_repo_path (rid_path repo)" using validate_repo_path_safe repo(2) by blast
  then have path: "rid_provider repo \<noteq> []" "rid_path repo \<noteq> []"
    using reg(2) repo(1) by (auto simp: safe_repo_path_def)
  let ?ref = "Some (''refs/heads/'' @ branch)"
  have "case ?ref of None \<Rightarrow> True | Some r \<Rightarrow> starts_with r ''refs/''" by (simp add: starts_with_def)
  note spec = admit_build_spec[OF wf path valid(2) this, where now = now and retry_failed = False]
  obtain row d' wakes b where
    a: "admit_build d now repo after ?ref False
        = (Inr (row, find_build d (storage_key repo) after = None), d', wakes)"
      "wf_db s d'" "find_build d' (storage_key repo) after = Some b" "decode_build b = Inr row"
    and "?ref \<noteq> None \<Longrightarrow> b_ref_name b \<noteq> None" and wakes: "wakes = build_wakes row"
    by (rule spec, rule that, assumption+)
  then have "b_ref_name b \<noteq> None" "k_state (b_head b) = Pending \<longleftrightarrow> PoolHead \<in> set wakes"
    using build_wakes_states(1)[OF a(4)] by simp_all
  moreover have "webhook_dispatch_push d now provider ev =
      (WebhookAccepted, \<lparr>fx_db = d', fx_wakes = wakes, fx_refreshes = [repo]\<rparr>)"
    using a(1) wr ref ev valid by (simp add: webhook_dispatch_push_def)
  ultimately show ?thesis
    using a reg adapter body ev ref by (auto simp: handle_webhook_def Let_def)
qed


theorem webhook_push_admitted_witness:
  "\<exists>fx b. handle_webhook ex_crates registry_new ex_secrets ex_added 9 ''github'' ex_headers (Some ''{}'')
      = (WebhookAccepted, fx) \<and> fx_refreshes fx = [ex_repo]
    \<and> find_build (fx_db fx) (storage_key ex_repo) ex_commit = Some b \<and> b_ref_name b \<noteq> None"
proof -
  have repo: "ex_repo = \<lparr>rid_provider = pi_id ex_github, rid_path = ev_repo ex_event\<rparr>"
    "validate_repo_path ex_github ex_repo = Inr ()" "repo_is_added ex_added ex_repo = Inr True"
    "validate_checkout_name ''main'' = Inr ()" "validate_object_id ex_commit = Inr ()" by code_simp+
  have len: "length ''{}'' \<le> MAX_WEBHOOK_BODY_BYTES" by (simp add: MAX_WEBHOOK_BODY_BYTES_def)
  show ?thesis
    using webhook_push_admitted[OF wf_ex_added ex_github_simps(1) _ _ _ len ex_adapter_verifies(1-6) repo(4,5,1,2,3),
        of ex_crates ex_secrets 9] ex_github_simps ex_adapter_for ex_secrets_github by auto
qed

text \<open>
  C37.  A delivery without its provider's signature header does nothing and is answered with an error
  status, whatever its body.
\<close>

theorem webhook_unsigned_refused:
  assumes "registry_get registry provider_id = Some provider"
    and "hs (map to_ascii_lower (signature_header (pi_kind provider))) = None"
  shows "\<exists>status. handle_webhook cr registry config d now provider_id hs body = (ErrorStatus status, no_effect d)
    \<and> status \<in> {401, 413, 501, 503}"
proof (cases "provider_for cr (pi_kind provider)")
  case (Some a)
  have "\<not> wp_verify a hs raw secret" for raw secret
    using webhook_provider.missing_signature[OF provider_for_interface[OF Some]] assms(2) by blast
  then show ?thesis using assms(1) Some by (auto simp: handle_webhook_def split: option.split)
qed (use assms(1) in \<open>simp add: handle_webhook_def\<close>)


theorem webhook_unsigned_refused_witness:
  "\<exists>status. handle_webhook ex_crates registry_new ex_secrets ex_added 9 ''github'' [''x-github-event'' \<mapsto> ''push'']
      (Some ''{}'') = (ErrorStatus status, no_effect ex_added)"
proof -
  have "[''x-github-event'' \<mapsto> ''push''] (map to_ascii_lower (signature_header (pi_kind ex_github))) = None"
    by code_simp
  then show ?thesis using webhook_unsigned_refused[OF ex_github_simps(1)] by blast
qed

end
