(* ===== verification/Worker.thy ===== *)
theory Worker
  imports Sweep Admission
begin

text \<open>
  The build workers of \<open>src/rust/src/server/worker.rs\<close> and the numbers they read from the environment
  (\<open>src/rust/src/env.rs\<close>): settings, retry delays, the classification of errors, the choice of the
  base an output builds on, and what a claim does to the control store once its build ends.

  Parameters stand for code outside: \<open>is_ancestor\<close> is the mirror's history (None is an error of the
  lookup), \<open>size_of\<close> the size of an artifact in the local store or in storage.  An error of a build is
  its chain of causes and its message; whether an S3 error is retryable is part of the cause.
\<close>

section \<open>Numbers from the environment\<close>

definition digit_val :: "char \<Rightarrow> nat" where
  "digit_val c = byte c - 48"

fun digits_val :: "nat \<Rightarrow> string \<Rightarrow> nat" where
  "digits_val acc [] = acc"
| "digits_val acc (c # cs) = digits_val (acc * 10 + digit_val c) cs"

text \<open>\<open>str::parse\<close> of an unsigned integer of width \<open>w\<close>: one leading plus sign is accepted.\<close>

definition parse_unsigned :: "nat \<Rightarrow> string \<Rightarrow> nat option" where
  "parse_unsigned w s =
     (let ds = (case s of [] \<Rightarrow> [] | c # cs \<Rightarrow> if c = CHR ''+'' then cs else s) in
      if ds = [] \<or> \<not> list_all is_ascii_digit ds \<or> digits_val 0 ds \<ge> 2 ^ w then None
      else Some (digits_val 0 ds))"

definition parse_number :: "nat \<Rightarrow> string \<Rightarrow> string option \<Rightarrow> nat \<Rightarrow> string + nat" where
  "parse_number w key val dflt =
     (case val of
        None \<Rightarrow> Inr dflt
      | Some v \<Rightarrow> (case parse_unsigned w (trim v) of None \<Rightarrow> Inl key | Some n \<Rightarrow> Inr n))"

section \<open>Settings\<close>

record WorkerSettings =
  ws_head_slots :: nat
  ws_files_slots :: nat
  ws_full_slots :: nat
  ws_retry_base :: duration
  ws_max_attempts :: int
  ws_lease :: duration

text \<open>Errors name the variable.  \<open>usize\<close> and \<open>u64\<close> have 64 bits, so slots always convert.\<close>

definition from_lookup :: "(string \<Rightarrow> string option) \<Rightarrow> nat \<Rightarrow> string + WorkerSettings" where
  "from_lookup get cores =
     (let number = (\<lambda>key dflt. parse_number 64 key (get key) dflt);
          slots = max (cores div 4) 2 in
      rbind (number ''RIPCLONE_HEAD_SLOTS'' slots) (\<lambda>head_slots.
      rbind (ensure (head_slots \<ge> 1) ''RIPCLONE_HEAD_SLOTS'') (\<lambda>_.
      rbind (number ''RIPCLONE_FILES_SLOTS'' slots) (\<lambda>files_slots.
      rbind (number ''RIPCLONE_FULL_SLOTS'' slots) (\<lambda>full_slots.
      rbind (number ''RIPCLONE_BUILD_RETRY_BASE_MS'' 2000) (\<lambda>retry_base.
      rbind (number ''RIPCLONE_BUILD_MAX_ATTEMPTS'' 5) (\<lambda>attempts.
      rbind (ensure (attempts \<ge> 1) ''RIPCLONE_BUILD_MAX_ATTEMPTS'') (\<lambda>_.
      rbind (number ''RIPCLONE_BUILD_LEASE_SECS'' 60) (\<lambda>lease.
      rbind (ensure (lease \<ge> 3) ''RIPCLONE_BUILD_LEASE_SECS'') (\<lambda>_.
      rbind (ensure (int attempts \<le> i64_max) ''RIPCLONE_BUILD_MAX_ATTEMPTS'') (\<lambda>_.
      Inr \<lparr>ws_head_slots = head_slots, ws_files_slots = files_slots, ws_full_slots = full_slots,
           ws_retry_base = from_millis retry_base, ws_max_attempts = int attempts,
           ws_lease = from_secs lease\<rparr>))))))))))) "

definition RETRY_CAP :: duration where
  "RETRY_CAP = from_secs 300"

definition retry_delay :: "duration \<Rightarrow> int \<Rightarrow> duration" where
  "retry_delay base attempts =
     (let doublings = nat (max 0 (min 30 (i64_saturating_add attempts (- 1)))) in
      min (duration_saturating_mul base (min (2 ^ doublings) (2 ^ 32 - 1))) RETRY_CAP)"

section \<open>Errors of a build\<close>

datatype ErrorKind = TimedOut | Interrupted | ConnectionRefused | ConnectionReset
  | ConnectionAborted | NotConnected | BrokenPipe | UnexpectedEof | OtherKind

datatype error_cause =
    S3Error bool
  | ReqwestError bool bool "nat option"
  | IoError ErrorKind
  | UpstreamGitError bool
  | Elapsed
  | SqlxError
  | OtherCause

record build_failure =
  bf_chain :: "error_cause list"
  bf_message :: string

record BuildError =
  be_message :: string
  be_retryable :: bool

definition is_retryable_io_error :: "ErrorKind \<Rightarrow> bool" where
  "is_retryable_io_error k = (case k of OtherKind \<Rightarrow> False | _ \<Rightarrow> True)"

text \<open>The verdict of one cause; None looks at the next.\<close>

fun cause_verdict :: "error_cause \<Rightarrow> bool option" where
  "cause_verdict (S3Error retryable) = Some retryable"
| "cause_verdict (ReqwestError timeout connect code) =
     Some (timeout \<or> connect \<or> (case code of None \<Rightarrow> False | Some n \<Rightarrow> n = 429 \<or> (500 \<le> n \<and> n < 600)))"
| "cause_verdict (IoError k) = (if is_retryable_io_error k then Some True else None)"
| "cause_verdict (UpstreamGitError retryable) = Some retryable"
| "cause_verdict Elapsed = Some True"
| "cause_verdict SqlxError = Some True"
| "cause_verdict OtherCause = None"

fun chain_retryable :: "error_cause list \<Rightarrow> bool" where
  "chain_retryable [] = False"
| "chain_retryable (c # cs) = (case cause_verdict c of Some r \<Rightarrow> r | None \<Rightarrow> chain_retryable cs)"

definition classify_build_error :: "build_failure \<Rightarrow> BuildError" where
  "classify_build_error e = \<lparr>be_message = bf_message e, be_retryable = chain_retryable (bf_chain e)\<rparr>"

section \<open>The base of a build\<close>

definition BASE_CANDIDATES :: nat where
  "BASE_CANDIDATES = 32"

definition or_false :: "bool option \<Rightarrow> bool" where
  "or_false r = (r = Some True)"

definition pick_base :: "(string \<Rightarrow> string \<Rightarrow> bool option) \<Rightarrow> string list \<Rightarrow> string \<Rightarrow> string option" where
  "pick_base is_ancestor candidates tip =
     (let ancestors = filter (\<lambda>c. or_false (is_ancestor c tip)) candidates;
          newest = List.find (\<lambda>a. \<not> list_ex (\<lambda>other. other \<noteq> a \<and> or_false (is_ancestor a other)) ancestors)
            ancestors
      in case newest of Some b \<Rightarrow> Some b | None \<Rightarrow> first_row ancestors)"

definition ancestor_base ::
    "(string \<Rightarrow> string \<Rightarrow> bool option) \<Rightarrow> db \<Rightarrow> Claim \<Rightarrow> ExactResultKind \<Rightarrow> BuildRow option cresult" where
  "ancestor_base is_ancestor d c kind =
     (let commit = br_commit (cl_build c);
          candidates = ready_commits d (cl_repo c) kind (br_ref_name (cl_build c)) commit BASE_CANDIDATES
      in case pick_base is_ancestor candidates commit of
           None \<Rightarrow> Inr None
         | Some base \<Rightarrow> status d (cl_repo c) base)"

definition own_history_base :: "db \<Rightarrow> Claim \<Rightarrow> string option \<Rightarrow> string option" where
  "own_history_base d c built_on =
     (case get_refs d (cl_repo c) of
        Inl e \<Rightarrow> None
      | Inr refs \<Rightarrow>
          (let branches = (case refs of None \<Rightarrow> None | Some r \<Rightarrow> rr_branches r);
               ready = (case refs of None \<Rightarrow> None | Some r \<Rightarrow> rr_ready r);
               default = (case Option.bind branches rb_default_branch of
                            Some b \<Rightarrow> Some b | None \<Rightarrow> Option.bind ready rb_default_branch);
               on_default = (case default of
                               None \<Rightarrow> False
                             | Some b \<Rightarrow> br_ref_name (cl_build c) = Some (''refs/heads/'' @ b)) in
           if on_default then None
           else (case Option.bind ready rb_base of
                   Some b \<Rightarrow> Some b
                 | None \<Rightarrow> (case Option.bind branches rb_base of Some b \<Rightarrow> Some b | None \<Rightarrow> built_on))))"

definition ready_head :: "Claim \<Rightarrow> HeadResult option" where
  "ready_head c = out_ready (br_head (cl_build c))"

section \<open>The end of a build\<close>

definition record_failure :: "store \<Rightarrow> WorkerSettings \<Rightarrow> db \<Rightarrow> int \<Rightarrow> Claim \<Rightarrow> BuildError \<Rightarrow> db" where
  "record_failure s settings d now c e =
     (let retry_after = (if be_retryable e then Some (retry_delay (ws_retry_base settings) (claim_attempts c))
                         else None)
      in fail s d now c (be_message e) retry_after)"

text \<open>\<open>try_record_sizes\<close> of \<open>server/usage.rs\<close>.\<close>

definition record_output_sizes :: "(string \<Rightarrow> nat option) \<Rightarrow> db \<Rightarrow> string list \<Rightarrow> db" where
  "record_output_sizes size_of d hashes =
     (let wanted = unsized_artifacts d hashes in
      if wanted = [] then d
      else record_sizes d (concat (map (\<lambda>h. case size_of h of None \<Rightarrow> [] | Some len \<Rightarrow> [(h, len)]) wanted)))"

text \<open>The only error of \<open>publish\<close>: an invalid result, with the context the worker adds.\<close>

definition publish_error :: "ExactResultKind \<Rightarrow> Output \<Rightarrow> string \<Rightarrow> build_failure" where
  "publish_error claimed out commit = \<lparr>bf_chain = [OtherCause, OtherCause],
     bf_message = ''publish '' @ column_prefix claimed @ '' result: invalid '' @ column_prefix (output_kind out)
       @ '' result for '' @ commit\<rparr>"

definition publish_or_fail ::
    "store \<Rightarrow> WorkerSettings \<Rightarrow> (string \<Rightarrow> nat option) \<Rightarrow> bool \<Rightarrow> db \<Rightarrow> int \<Rightarrow> Claim
       \<Rightarrow> build_failure + Output \<Rightarrow> Published option \<times> db" where
  "publish_or_fail s settings size_of cancelled d now c built =
     (if cancelled then (None, d)
      else (case built of
          Inl e \<Rightarrow> (None, record_failure s settings d now c (classify_build_error e))
        | Inr out \<Rightarrow>
            (let d1 = record_output_sizes size_of d (output_artifacts out) in
             case publish d1 c out of
               (Inr published, d2) \<Rightarrow> (Some published, d2)
             | (Inl _, d2) \<Rightarrow>
                 (None, record_failure s settings d2 now c
                    (classify_build_error (publish_error (claim_kind c) out (br_commit (cl_build c))))))))"

text \<open>The artifacts the build pinned are \<open>held\<close>.\<close>

definition settle ::
    "store \<Rightarrow> WorkerSettings \<Rightarrow> (string \<Rightarrow> nat option) \<Rightarrow> bool \<Rightarrow> db \<Rightarrow> int \<Rightarrow> Claim \<Rightarrow> string list
       \<Rightarrow> build_failure + Output \<Rightarrow> Published option \<times> db" where
  "settle s settings size_of cancelled d now c held built =
     (case publish_or_fail s settings size_of cancelled d now c built of
        (published, d1) \<Rightarrow>
          (let named = (case built of Inl _ \<Rightarrow> [] | Inr out \<Rightarrow> output_artifacts out);
               keep = (case published of
                         Some p \<Rightarrow> if applied p then named else []
                       | None \<Rightarrow> [])
           in (published, queue_unnamed d1 now held keep)))"

text \<open>
  How \<open>run_claim\<close> ends: the build's task returned what it built, the task panicked, or a renewal
  found the lease lost and the task was cancelled (what it had built is then not looked at).
\<close>

datatype task_end = Joined "build_failure + Output" | Panicked string | LeaseLost "build_failure + Output"

definition finish_claim ::
    "store \<Rightarrow> WorkerSettings \<Rightarrow> (string \<Rightarrow> nat option) \<Rightarrow> db \<Rightarrow> int \<Rightarrow> Claim \<Rightarrow> string list \<Rightarrow> duration
       \<Rightarrow> task_end \<Rightarrow> db" where
  "finish_claim s settings size_of d now c held elapsed ended =
     (case ended of
        Joined built \<Rightarrow>
          release (add_build_time (snd (settle s settings size_of False d now c held built))
            (cl_repo c) (claim_kind c) elapsed) c
      | Panicked msg \<Rightarrow>
          release (add_build_time
            (queue_unnamed
              (record_failure s settings d now c
                \<lparr>be_message = ''build task panicked: '' @ msg, be_retryable = True\<rparr>) now held [])
            (cl_repo c) (claim_kind c) elapsed) c
      | LeaseLost built \<Rightarrow>
          add_build_time (snd (settle s settings size_of True d now c held built))
            (cl_repo c) (claim_kind c) elapsed)"

text \<open>The delays between the attempts of \<open>release\<close>, which it repeats until the store takes it.\<close>

fun release_delay :: "nat \<Rightarrow> duration" where
  "release_delay 0 = from_millis 100"
| "release_delay (Suc n) = min (release_delay n * 2) (from_secs 30)"

section \<open>Retry delays and settings\<close>

lemma RETRY_CAP_val: "RETRY_CAP = 300000000000"
  by (simp add: RETRY_CAP_def from_secs_def)

text \<open>
  The delay before the next attempt doubles from the configured base with every failed attempt
  and stops at the cap: neither the clamp of the exponent nor the saturating product ever changes it.
\<close>

theorem retry_delay_exact:
  assumes "1 \<le> attempts" "attempts \<le> i64_max"
  shows "retry_delay (from_millis ms) attempts = min (from_millis ms * 2 ^ nat (attempts - 1)) RETRY_CAP"
proof -
  have sat: "i64_saturating_add attempts (- 1) = attempts - 1"
    using assms by (simp add: i64_saturating_add_def i64_min_def i64_max_def)
  have cap: "min (min duration_max x) RETRY_CAP = min x RETRY_CAP" for x
    by (simp add: RETRY_CAP_val duration_max_def min_def)
  have pow: "min (2 ^ n) 4294967295 = (2 :: nat) ^ n" if "n \<le> 30" for n
    using power_increasing[OF that, of "2::nat"] by simp
  show ?thesis
  proof (cases "attempts - 1 \<le> 30")
    case True
    then have "nat (max 0 (min 30 (attempts - 1))) = nat (attempts - 1)" "nat (attempts - 1) \<le> 30"
      using assms(1) by auto
    then show ?thesis
      by (simp add: retry_delay_def Let_def sat duration_saturating_mul_def cap pow del: nat_diff_distrib)
  next
    case False
    then have n: "nat (max 0 (min 30 (attempts - 1))) = 30" "30 \<le> nat (attempts - 1)" by auto
    have big: "min (from_millis ms * 2 ^ k) RETRY_CAP = (if ms = 0 then 0 else RETRY_CAP)" if "30 \<le> k" for k
    proof (cases "ms = 0")
      case False
      have "10 ^ 6 * 2 ^ 30 \<le> from_millis ms * (2 :: nat) ^ k"
        using False power_increasing[OF that, of "2::nat"] by (intro mult_mono) (simp_all add: from_millis_def)
      then show ?thesis using False by (simp add: RETRY_CAP_val min_def)
    qed (simp add: from_millis_def)
    show ?thesis
      using big[of 30] big[OF n(2)]
      by (simp add: retry_delay_def Let_def sat duration_saturating_mul_def cap n(1) pow[of 30])
  qed
qed

theorem retry_delay_exact_witness:
  "retry_delay (from_millis 2000) 3 = from_secs 8 \<and> retry_delay (from_millis 2000) 40 = RETRY_CAP"
  using retry_delay_exact[of 3 2000] retry_delay_exact[of 40 2000]
  by (simp add: i64_max_def from_millis_def from_secs_def RETRY_CAP_val)

lemma ensure_Inr: "ensure b e = Inr u \<longleftrightarrow> b"
  by (simp add: ensure_def)

text \<open>
  Settings read from the environment: a set variable is parsed or named in an error, never
  replaced by its default, and the settings always allow a Head slot, at least one attempt and a lease
  of at least three seconds.
\<close>

theorem worker_settings_checked:
  assumes "from_lookup get cores = Inr ws"
  shows "1 \<le> ws_head_slots ws \<and> 1 \<le> ws_max_attempts ws \<and> ws_max_attempts ws \<le> i64_max
    \<and> from_secs 3 \<le> ws_lease ws
    \<and> (\<forall>key v. key \<in> {''RIPCLONE_HEAD_SLOTS'', ''RIPCLONE_FILES_SLOTS'', ''RIPCLONE_FULL_SLOTS'',
          ''RIPCLONE_BUILD_RETRY_BASE_MS'', ''RIPCLONE_BUILD_MAX_ATTEMPTS'', ''RIPCLONE_BUILD_LEASE_SECS''}
        \<and> get key = Some v \<longrightarrow> parse_unsigned 64 (trim v) \<noteq> None)
    \<and> ws_head_slots ws = (case get ''RIPCLONE_HEAD_SLOTS'' of None \<Rightarrow> max (cores div 4) 2
        | Some v \<Rightarrow> the (parse_unsigned 64 (trim v)))"
proof -
  let ?num = "\<lambda>key dflt. parse_number 64 key (get key) dflt" and ?slots = "max (cores div 4) 2"
  have parsed: "get key = Some v \<Longrightarrow> ?num key dflt = Inr n \<Longrightarrow> parse_unsigned 64 (trim v) = Some n"
    for key v dflt n by (auto simp: parse_number_def split: option.splits)
  obtain h f u r a l where n: "?num ''RIPCLONE_HEAD_SLOTS'' ?slots = Inr h"
      "?num ''RIPCLONE_FILES_SLOTS'' ?slots = Inr f" "?num ''RIPCLONE_FULL_SLOTS'' ?slots = Inr u"
      "?num ''RIPCLONE_BUILD_RETRY_BASE_MS'' 2000 = Inr r" "?num ''RIPCLONE_BUILD_MAX_ATTEMPTS'' 5 = Inr a"
      "?num ''RIPCLONE_BUILD_LEASE_SECS'' 60 = Inr l"
    and ok: "1 \<le> h" "1 \<le> a" "3 \<le> l" "int a \<le> i64_max"
    and ws: "ws = \<lparr>ws_head_slots = h, ws_files_slots = f, ws_full_slots = u, ws_retry_base = from_millis r,
      ws_max_attempts = int a, ws_lease = from_secs l\<rparr>"
    using assms unfolding from_lookup_def Let_def rbind_Inr ensure_Inr
    by (elim exE conjE) (rule that, assumption+, simp)
  have "h = (case get ''RIPCLONE_HEAD_SLOTS'' of None \<Rightarrow> ?slots | Some v \<Rightarrow> the (parse_unsigned 64 (trim v)))"
    using n(1) by (auto simp: parse_number_def split: option.splits)
  moreover have "parse_unsigned 64 (trim v) \<noteq> None"
    if "key \<in> {''RIPCLONE_HEAD_SLOTS'', ''RIPCLONE_FILES_SLOTS'', ''RIPCLONE_FULL_SLOTS'',
        ''RIPCLONE_BUILD_RETRY_BASE_MS'', ''RIPCLONE_BUILD_MAX_ATTEMPTS'', ''RIPCLONE_BUILD_LEASE_SECS''}"
      "get key = Some v" for key v
    using that parsed n by (elim insertE emptyE) (metis option.discI)+
  ultimately show ?thesis
    using ok unfolding ws by (intro conjI allI impI; (elim conjE)?) (assumption | simp add: from_secs_def | blast)+
qed

theorem worker_settings_checked_witness:
  "\<exists>ws. from_lookup [''RIPCLONE_HEAD_SLOTS'' \<mapsto> '' 3 ''] 8 = Inr ws \<and> ws_head_slots ws = 3
    \<and> from_secs 3 \<le> ws_lease ws"
proof -
  let ?get = "[''RIPCLONE_HEAD_SLOTS'' \<mapsto> '' 3 '']" and ?d = "\<lparr>ws_head_slots = 3, ws_files_slots = 2,
    ws_full_slots = 2, ws_retry_base = from_millis 2000, ws_max_attempts = 5, ws_lease = from_secs 60\<rparr>"
  have ok: "from_lookup ?get 8 = Inr ?d" by code_simp
  have "parse_unsigned 64 (trim '' 3 '') = Some 3" by code_simp
  then show ?thesis using worker_settings_checked[OF ok] ok by auto
qed

section \<open>The base of a build\<close>

text \<open>What is relied on of the mirror's history: reachability is transitive and has no cycles.\<close>

definition history_ok :: "(string \<Rightarrow> string \<Rightarrow> bool option) \<Rightarrow> bool" where
  "history_ok is_ancestor \<longleftrightarrow>
     (\<forall>a b c. is_ancestor a b = Some True \<longrightarrow> is_ancestor b c = Some True \<longrightarrow> is_ancestor a c = Some True)
     \<and> (\<forall>a b. is_ancestor a b = Some True \<longrightarrow> is_ancestor b a = Some True \<longrightarrow> a = b)"

text \<open>A finite set of commits has one that no other descends from.\<close>

lemma newest_exists:
  assumes h: "history_ok is_ancestor" and "finite A" "A \<noteq> {}"
  shows "\<exists>a \<in> A. \<forall>other \<in> A. other \<noteq> a \<longrightarrow> is_ancestor a other \<noteq> Some True"
  using assms(2,3)
proof (induction rule: finite_ne_induct)
  case (insert x A)
  then obtain a where a: "a \<in> A" "\<forall>other \<in> A. other \<noteq> a \<longrightarrow> is_ancestor a other \<noteq> Some True" by blast
  show ?case
  proof (cases "is_ancestor a x = Some True")
    case True
    have "is_ancestor x other \<noteq> Some True" if "other \<in> A" for other
      using that a True h insert.hyps unfolding history_ok_def by metis
    then show ?thesis by auto
  next
    case False
    then show ?thesis using a by auto
  qed
qed simp

lemma pick_base_newest:
  assumes h: "history_ok is_ancestor" and "pick_base is_ancestor candidates tip = Some base"
  shows "base \<in> set candidates" "is_ancestor base tip = Some True"
    "\<And>other. other \<in> set candidates \<Longrightarrow> is_ancestor other tip = Some True \<Longrightarrow> other \<noteq> base \<Longrightarrow>
       is_ancestor base other \<noteq> Some True"
proof -
  let ?as = "filter (\<lambda>c. or_false (is_ancestor c tip)) candidates"
  let ?p = "\<lambda>a. \<not> list_ex (\<lambda>other. other \<noteq> a \<and> or_false (is_ancestor a other)) ?as"
  have "?as \<noteq> []" using assms(2) by (auto simp: pick_base_def Let_def)
  then have "\<exists>a \<in> set ?as. \<forall>other \<in> set ?as. other \<noteq> a \<longrightarrow> is_ancestor a other \<noteq> Some True"
    by (intro newest_exists[OF h]) (simp_all only: finite_set set_empty simp_thms)
  then obtain a where "a \<in> set ?as" "?p a" unfolding list_ex_iff or_false_def by blast
  then have "List.find ?p ?as \<noteq> None" by (auto simp: find_None_iff)
  then have "List.find ?p ?as = Some base" using assms(2) by (auto simp: pick_base_def Let_def)
  then have base: "base \<in> set ?as" "?p base" unfolding find_Some_iff using nth_mem by blast+
  then show "base \<in> set candidates" "is_ancestor base tip = Some True"
    "\<And>other. other \<in> set candidates \<Longrightarrow> is_ancestor other tip = Some True \<Longrightarrow> other \<noteq> base \<Longrightarrow>
       is_ancestor base other \<noteq> Some True"
    by (auto simp: or_false_def list_ex_iff)
qed

lemma pick_base_None:
  "pick_base is_ancestor candidates tip = None \<longleftrightarrow> (\<forall>c \<in> set candidates. is_ancestor c tip \<noteq> Some True)"
proof -
  have "first_row xs = None \<longleftrightarrow> xs = []" for xs :: "string list" by (cases xs) simp_all
  then show ?thesis
    by (auto simp: pick_base_def Let_def or_false_def filter_empty_conv find_None_iff find_Some_iff
        split: option.split dest!: nth_mem)
qed

lemma ready_commits_row:
  assumes "commit \<in> set (ready_commits d repo kind ref except limit)"
  obtains b where "b \<in> set (builds d)" "b_repo b = storage_key repo" "b_commit b = commit"
    "k_state (cols b kind) = Ready" "commit \<noteq> except"
  using assms by (auto simp: ready_commits_def repo_builds_def dest!: in_set_takeD)

text \<open>
  The base an output builds on is a row of the repository with that output ready whose commit is
  an ancestor of the claimed commit, and no other ready ancestor considered descends from it; the output
  builds cold only when no commit considered is an ancestor.
\<close>

theorem ancestor_base_sound:
  assumes wf: "wf_db s d"
    and h: "history_ok is_ancestor"
    and cands: "candidates = ready_commits d (cl_repo c) kind (br_ref_name (cl_build c)) (br_commit (cl_build c)) BASE_CANDIDATES"
  shows "\<exists>r. ancestor_base is_ancestor d c kind = Inr r
    \<and> (case r of
         None \<Rightarrow> (\<forall>x \<in> set candidates. is_ancestor x (br_commit (cl_build c)) \<noteq> Some True)
       | Some row \<Rightarrow> is_ready (kind_state row kind) \<and> br_commit row \<in> set candidates
           \<and> is_ancestor (br_commit row) (br_commit (cl_build c)) = Some True
           \<and> (\<forall>x \<in> set candidates. is_ancestor x (br_commit (cl_build c)) = Some True \<longrightarrow> x \<noteq> br_commit row
                \<longrightarrow> is_ancestor (br_commit row) x \<noteq> Some True))"
proof (cases "pick_base is_ancestor candidates (br_commit (cl_build c))")
  case None
  then show ?thesis
    using pick_base_None[of is_ancestor candidates "br_commit (cl_build c)"]
    by (simp add: ancestor_base_def Let_def flip: cands)
next
  case (Some base)
  note pick = pick_base_newest[OF h Some]
  obtain b where b: "b \<in> set (builds d)" "b_repo b = storage_key (cl_repo c)" "b_commit b = base"
      "k_state (cols b kind) = Ready"
    using pick(1) unfolding cands by (rule ready_commits_row)
  then have "find_build d (storage_key (cl_repo c)) base = Some b" using find_build_wf[OF wf] by metis
  moreover obtain row where row: "decode_build b = Inr row" "br_commit row = base"
    using decode_build_total[OF wf_row[OF wf b(1)]] b(3) by metis
  ultimately have "ancestor_base is_ancestor d c kind = Inr (Some row)"
    using Some by (simp add: ancestor_base_def Let_def status_def select_build_def flip: cands)
  then show ?thesis using pick row decoded_states(3)[OF row(1)] b(4) by auto
qed


text \<open>The claim of the example commit builds on the published commit before it.\<close>

definition ex_next_claim :: Claim where
  "ex_next_claim = ex_head_claim\<lparr>cl_build := (cl_build ex_head_claim)\<lparr>br_commit := replicate 40 (CHR ''b'')\<rparr>\<rparr>"

theorem ancestor_base_sound_witness:
  "\<exists>row. ancestor_base (\<lambda>a b. Some (a = b \<or> (a = ex_commit \<and> b = replicate 40 (CHR ''b'')))) ex_published
      ex_next_claim Head = Inr (Some row) \<and> is_ready (kind_state row Head)"
proof -
  let ?anc = "\<lambda>a b. Some (a = b \<or> (a = ex_commit \<and> b = replicate 40 (CHR ''b'')))"
  have h: "history_ok ?anc" by (auto simp: history_ok_def ex_commit_def)
  obtain r where r: "ancestor_base ?anc ex_published ex_next_claim Head = Inr r"
    "r \<noteq> None \<Longrightarrow> is_ready (kind_state (the r) Head)"
    using ancestor_base_sound[OF wf_ex_published h refl, of ex_next_claim Head] by (auto split: option.splits)
  have "ancestor_base ?anc ex_published ex_next_claim Head \<noteq> Inr None" by code_simp
  then show ?thesis using r by auto
qed

section \<open>The end of a claim\<close>

lemma find_build_cong: "builds d' = builds d \<Longrightarrow> find_build d' = find_build d"
  by (simp add: find_build_def fun_eq_iff)

lemma queue_unnamed_builds [simp]: "builds (queue_unnamed d now held keep) = builds d"
  by (simp add: queue_unnamed_def Let_def)

lemma record_output_sizes_builds [simp]: "builds (record_output_sizes size_of d hs) = builds d"
  by (simp add: record_output_sizes_def Let_def)

lemma cols_fail_row [simp]: "cols (fail_row s k retry_at err b) k = fail_cols s retry_at err (cols b k)"
  by (cases k) (simp_all add: fail_row_def Let_def head_failure_cascade_def)

lemma wf_queue_unnamed: "wf_db s d \<Longrightarrow> wf_db s (queue_unnamed d now held keep)"
  by (simp add: queue_unnamed_def Let_def wf_queue_deletions)

lemma wf_record_output_sizes: "wf_db s d \<Longrightarrow> wf_db s (record_output_sizes size_of d hs)"
  by (simp add: record_output_sizes_def Let_def wf_record_sizes)

lemma wf_record_failure: "wf_db s d \<Longrightarrow> wf_db s (record_failure s settings d now c e)"
  by (simp add: record_failure_def Let_def wf_fail)

lemma wf_publish_or_fail: "wf_db s d \<Longrightarrow> wf_db s (snd (publish_or_fail s settings size_of cancelled d now c built))"
  by (auto simp: publish_or_fail_def Let_def wf_record_failure wf_record_output_sizes
      split: sum.split prod.split intro!: wf_record_failure)
    (metis snd_conv wf_publish wf_record_output_sizes)+

lemma wf_settle: "wf_db s d \<Longrightarrow> wf_db s (snd (settle s settings size_of cancelled d now c held built))"
  using wf_publish_or_fail[of s d settings size_of cancelled now c built]
  by (auto simp: settle_def Let_def wf_queue_unnamed split: prod.split)

lemma wf_finish_claim: "wf_db s d \<Longrightarrow> wf_db s (finish_claim s settings size_of d now c held elapsed ended)"
  by (cases ended) (simp_all add: finish_claim_def wf_release wf_add_build_time wf_settle wf_queue_unnamed wf_record_failure)

text \<open>The claim's row and the others, after a failure and after the release.\<close>

abbreviation claimed :: "db \<Rightarrow> Claim \<Rightarrow> build option" where
  "claimed d c \<equiv> find_build d (storage_key (cl_repo c)) (br_commit (cl_build c))"

abbreviation claim_key :: "Claim \<Rightarrow> string \<times> string" where
  "claim_key c \<equiv> (storage_key (cl_repo c), br_commit (cl_build c))"

lemma claim_row_key: "claim_row c b \<Longrightarrow> row_key b = claim_key c"
  by (simp add: claim_row_def at_row_def row_key_def)

definition failed_row :: "store \<Rightarrow> WorkerSettings \<Rightarrow> int \<Rightarrow> Claim \<Rightarrow> BuildError \<Rightarrow> build \<Rightarrow> build" where
  "failed_row s settings now c e b = fail_row s (claim_kind c)
     (if be_retryable e then Some (i64_saturating_add now
        (duration_secs (retry_delay (ws_retry_base settings) (claim_attempts c)))) else None) (be_message e) b"

lemma record_failure_builds:
  "builds (record_failure s settings d now c e) =
     sql_update (\<lambda>b. claim_row c b \<and> k_state (cols b (claim_kind c)) = Pending)
       (failed_row s settings now c e) (builds d)"
  by (simp add: record_failure_def fail_def Let_def failed_row_def[abs_def])

lemma failed_row_key [simp]: "row_key (failed_row s settings now c e b) = row_key b"
  by (simp add: failed_row_def)

lemma find_builds_update:
  assumes "builds d' = sql_update p f (builds d)" "\<And>b. row_key (f b) = row_key b"
  shows "find_build d' repo commit = map_option (\<lambda>b. if p b then f b else b) (find_build d repo commit)"
  using find_build_update[OF assms(2), where d = d and p = p and repo = repo and commit = commit] assms(1)
  by (simp add: find_build_def)

lemma record_failure_claimed:
  assumes "claimed d c = Some b" "claim_row c b" "k_state (cols b (claim_kind c)) = Pending"
  shows "claimed (record_failure s settings d now c e) c = Some (failed_row s settings now c e b)"
  by (simp add: find_builds_update[OF record_failure_builds] assms)

lemma release_claimed:
  assumes "claimed d c = Some b" "claim_row c b"
  shows "claimed (release d c) c = Some (set_cols (claim_kind c) clear_lease b)"
  using assms find_builds_update[of "release d c" "claim_row c" "set_cols (claim_kind c) clear_lease" d]
  by (simp add: release_def)

lemma update_others:
  assumes "builds d' = sql_update p f (builds d)" "\<And>b. row_key (f b) = row_key b" "\<And>b. p b \<Longrightarrow> claim_row c b"
    and "row_key x \<noteq> claim_key c"
  shows "x \<in> set (builds d') \<longleftrightarrow> x \<in> set (builds d)"
  using update_other_rows[OF assms(2), of p "claim_key c" x "builds d"] assms claim_row_key by metis

lemma record_failure_others:
  assumes "row_key x \<noteq> claim_key c"
  shows "x \<in> set (builds (record_failure s settings d now c e)) \<longleftrightarrow> x \<in> set (builds d)"
  by (rule update_others[OF record_failure_builds _ _ assms]) simp_all

lemma release_others:
  assumes "row_key x \<noteq> claim_key c"
  shows "x \<in> set (builds (release d c)) \<longleftrightarrow> x \<in> set (builds d)"
  by (rule update_others[OF _ _ _ assms, where p = "claim_row c" and f = "set_cols (claim_kind c) clear_lease"])
    (simp_all add: release_def)

lemma queue_unnamed_queued:
  assumes "wf_db s d" "h \<in> set held" "h \<notin> set keep"
  shows "\<exists>due. map_of (deletions (queue_unnamed d now held keep)) h = Some due \<and> now \<le> due"
proof -
  let ?hs = "filter (\<lambda>h. h \<notin> set keep) held"
  have "?hs \<noteq> []" using assms by (auto simp: filter_empty_conv)
  then show ?thesis
    using map_of_queue_all[OF wf_deletions[OF assms(1)], of ?hs now h] assms(2,3)
    by (auto simp: queue_unnamed_def Let_def queue_deletions_def split: option.split)
qed


text \<open>Why a build that ended did not publish.\<close>

fun end_error :: "task_end \<Rightarrow> BuildError option" where
  "end_error (Joined (Inl e)) = Some (classify_build_error e)"
| "end_error (Panicked msg) = Some \<lparr>be_message = ''build task panicked: '' @ msg, be_retryable = True\<rparr>"
| "end_error _ = None"

lemma finish_failed_eq:
  assumes "end_error ended = Some e"
  shows "finish_claim s settings size_of d now c held elapsed ended =
    release (add_build_time (queue_unnamed (record_failure s settings d now c e) now held [])
      (cl_repo c) (claim_kind c) elapsed) c"
  using assms
  by (cases ended rule: end_error.cases) (auto simp: finish_claim_def settle_def publish_or_fail_def)

text \<open>
  A build that failed or panicked, ended by the worker holding the lease: the error is recorded,
  the output goes back to pending with the computed retry time when the error is retryable and attempts
  remain, and fails otherwise; the lease is given up, every artifact the build pinned is queued for
  deletion, nothing becomes named, and no other row changes.
\<close>

theorem failed_build_settled:
  assumes wf: "wf_db s d" and b: "claimed d c = Some b" "claim_row c b" "k_state (cols b (claim_kind c)) = Pending"
    and e: "end_error ended = Some e"
    and d': "d' = finish_claim s settings size_of d now c held elapsed ended"
  shows "\<exists>b'. claimed d' c = Some b' \<and> wf_db s d'
    \<and> k_lease_owner (cols b' (claim_kind c)) = None \<and> k_error (cols b' (claim_kind c)) = Some (be_message e)
    \<and> (if be_retryable e \<and> k_attempts (cols b (claim_kind c)) < max_attempts s
       then k_state (cols b' (claim_kind c)) = Pending \<and> k_retry_after (cols b' (claim_kind c)) =
         i64_saturating_add now (duration_secs (retry_delay (ws_retry_base settings) (claim_attempts c)))
       else k_state (cols b' (claim_kind c)) = Failed)
    \<and> (\<forall>h \<in> set held. \<exists>due. map_of (deletions d') h = Some due \<and> now \<le> due)
    \<and> artifact_refs d' = artifact_refs d
    \<and> (\<forall>x. row_key x \<noteq> claim_key c \<longrightarrow> (x \<in> set (builds d') \<longleftrightarrow> x \<in> set (builds d)))"
proof -
  let ?k = "claim_kind c" and ?d1 = "record_failure s settings d now c e"
  let ?d2 = "queue_unnamed ?d1 now held []" and ?b = "failed_row s settings now c e b"
  let ?d3 = "add_build_time ?d2 (cl_repo c) ?k elapsed"
  have d'_eq: "d' = release ?d3 c" unfolding d' by (rule finish_failed_eq[OF e])
  have "claimed ?d3 c = Some ?b"
    using record_failure_claimed[OF b, of s settings now e] find_build_cong[of ?d3 ?d1] by simp
  moreover have "claim_row c ?b"
    using b(2) by (simp add: claim_row_def failed_row_def fail_cols_def at_row_def)
  ultimately have "claimed d' c = Some (set_cols ?k clear_lease ?b)"
    unfolding d'_eq by (rule release_claimed)
  moreover have "x \<in> set (builds d') \<longleftrightarrow> x \<in> set (builds d)" if "row_key x \<noteq> claim_key c" for x
    using release_others[OF that, of ?d3] record_failure_others[OF that, of s settings d now e] by (simp add: d'_eq)
  moreover have "\<exists>due. map_of (deletions d') h = Some due \<and> now \<le> due" if "h \<in> set held" for h
    using queue_unnamed_queued[OF wf_record_failure[OF wf], of h held "[]" settings now c e now] that
    by (simp add: d'_eq release_def add_build_time_def Let_def)
  moreover have "artifact_refs d' = artifact_refs d"
    by (simp add: d'_eq release_def add_build_time_def queue_unnamed_def queue_deletions_def record_failure_def
        fail_def Let_def)
  moreover have "wf_db s d'" unfolding d' by (rule wf_finish_claim[OF wf])
  ultimately show ?thesis
    by (simp add: failed_row_def fail_cols_def clear_lease_def fail_gives_up_def)
qed


definition ex_settings :: WorkerSettings where
  "ex_settings = \<lparr>ws_head_slots = 2, ws_files_slots = 2, ws_full_slots = 2, ws_retry_base = from_millis 2000,
     ws_max_attempts = 2, ws_lease = from_secs 60\<rparr>"

definition ex_claimed_row :: build where
  "ex_claimed_row = the (claimed ex_claimed ex_head_claim)"

lemma ex_claimed_row:
  "claimed ex_claimed ex_head_claim = Some ex_claimed_row" "claim_row ex_head_claim ex_claimed_row"
  "k_state (cols ex_claimed_row (claim_kind ex_head_claim)) = Pending"
proof -
  have "claimed ex_claimed ex_head_claim \<noteq> None" by code_simp
  then show "claimed ex_claimed ex_head_claim = Some ex_claimed_row" by (simp add: ex_claimed_row_def)
  show "claim_row ex_head_claim ex_claimed_row" "k_state (cols ex_claimed_row (claim_kind ex_head_claim)) = Pending"
    by code_simp+
qed

theorem failed_build_settled_witness:
  "\<exists>b'. claimed (finish_claim ex_store ex_settings (\<lambda>h. None) ex_claimed 12 ex_head_claim [ex_hash (CHR ''9'')] 0
      (Panicked ''oom'')) ex_head_claim = Some b'
    \<and> k_state (cols b' Head) = Pending \<and> k_retry_after (cols b' Head) = 14"
proof -
  have k: "claim_kind ex_head_claim = Head" "k_attempts (cols ex_claimed_row Head) < max_attempts ex_store"
    "i64_saturating_add 12 (duration_secs (retry_delay (ws_retry_base ex_settings) (claim_attempts ex_head_claim))) = 14"
    by code_simp+
  show ?thesis
    using failed_build_settled[OF wf_ex_claimed ex_claimed_row end_error.simps(2)[of "''oom''"] refl,
        where settings = ex_settings and size_of = "\<lambda>h. None" and now = 12 and held = "[ex_hash (CHR ''9'')]"
        and elapsed = 0] k by auto
qed

text \<open>
  C30.  A build that ended with a valid output of its kind while its lease holds publishes it: the row is
  ready with that output, the repository names each of its artifacts, the lease is given up, and
  whatever else the build pinned is queued for deletion; no other row changes.
\<close>

theorem built_output_settled:
  assumes wf: "wf_db s d" and b: "claimed d c = Some b" "claim_row c b" "k_state (cols b (claim_kind c)) = Pending"
    and out: "output_kind out = claim_kind c"
      "exact_output_artifacts_ready (br_commit (cl_build c)) (output_kind out) (output_clonepack out)"
    and d': "d' = finish_claim s settings size_of d now c held elapsed (Joined (Inr out))"
  shows "\<exists>b'. claimed d' c = Some b' \<and> wf_db s d' \<and> k_lease_owner (cols b' (claim_kind c)) = None
    \<and> k_state (cols b' (claim_kind c)) = Ready \<and> k_output (cols b' (claim_kind c)) = Some (stored out)
    \<and> set (artifact_refs d') = set (artifact_refs d) \<union> Pair (storage_key (cl_repo c)) ` set (output_artifacts out)
    \<and> (\<forall>h \<in> set held - set (output_artifacts out). \<exists>due. map_of (deletions d') h = Some due \<and> now \<le> due)
    \<and> (\<forall>x. row_key x \<noteq> claim_key c \<longrightarrow> (x \<in> set (builds d') \<longleftrightarrow> x \<in> set (builds d)))"
proof -
  let ?k = "claim_kind c" and ?arts = "output_artifacts out"
  let ?d1 = "record_output_sizes size_of d ?arts"
  let ?d2 = "record_refs (storage_key (cl_repo c)) ?arts
      (?d1\<lparr>builds := sql_update (publishable c (output_kind out)) (publish_row out) (builds ?d1)\<rparr>)"
  let ?d3 = "add_build_time (queue_unnamed ?d2 now held ?arts) (cl_repo c) ?k elapsed"
  have wf1: "wf_db s ?d1" by (rule wf_record_output_sizes[OF wf])
  have p: "publishable c (output_kind out) b" using b out(1) by (simp add: publishable_def)
  have "b \<in> set (builds ?d1)" using find_build_in[OF b(1)] by simp
  note pub = publish_accepted[OF wf1 this p out]
  then have wf2: "wf_db s ?d2" using wf_publish[OF wf1, of c out] by simp
  have d'_eq: "d' = release ?d3 c"
    unfolding d' finish_claim_def settle_def publish_or_fail_def by (simp add: pub)
  have builds: "builds ?d3 = sql_update (publishable c (output_kind out)) (publish_row out) (builds d)" by simp
  have "claimed ?d3 c = Some (publish_row out b)"
    using find_builds_update[OF builds] b(1) p by simp
  moreover have "claim_row c (publish_row out b)"
    using b(2) out(1) by (simp add: claim_row_def at_row_def publish_cols_def)
  ultimately have "claimed d' c = Some (set_cols ?k clear_lease (publish_row out b))"
    unfolding d'_eq by (rule release_claimed)
  moreover have "x \<in> set (builds d') \<longleftrightarrow> x \<in> set (builds d)" if "row_key x \<noteq> claim_key c" for x
    using release_others[OF that, of ?d3] update_others[OF builds _ _ that]
    by (simp add: d'_eq publishable_def)
  moreover have "\<exists>due. map_of (deletions d') h = Some due \<and> now \<le> due" if "h \<in> set held - set ?arts" for h
    using queue_unnamed_queued[OF wf2, of h held ?arts now] that
    by (simp add: d'_eq release_def add_build_time_def Let_def)
  moreover have "set (artifact_refs d') = set (artifact_refs d) \<union> Pair (storage_key (cl_repo c)) ` set ?arts"
    by (simp add: d'_eq release_def add_build_time_def queue_unnamed_def queue_deletions_def
        record_output_sizes_def record_sizes_def Let_def)
  moreover have "wf_db s d'" unfolding d' by (rule wf_finish_claim[OF wf])
  ultimately show ?thesis using out(1)
    by (auto simp: publish_cols_def clear_lease_def)
qed

theorem built_output_settled_witness:
  "\<exists>b'. claimed (finish_claim ex_store ex_settings (\<lambda>h. Some 7) ex_claimed 12 ex_head_claim
      [ex_hash (CHR ''1''), ex_hash (CHR ''9'')] 0 (Joined (Inr ex_head))) ex_head_claim = Some b'
    \<and> k_state (cols b' Head) = Ready \<and> k_output (cols b' Head) = Some (stored ex_head)"
proof -
  have k: "claim_kind ex_head_claim = Head" "output_kind ex_head = claim_kind ex_head_claim"
    "exact_output_artifacts_ready (br_commit (cl_build ex_head_claim)) (output_kind ex_head) (output_clonepack ex_head)"
    by code_simp+
  show ?thesis
    using built_output_settled[OF wf_ex_claimed ex_claimed_row k(2,3) refl, where settings = ex_settings
        and size_of = "\<lambda>h. Some 7" and now = 12 and held = "[ex_hash (CHR ''1''), ex_hash (CHR ''9'')]"
        and elapsed = 0] k(1) by auto
qed

text \<open>
  Once a renewal finds the lease lost, the build changes no row and names nothing: whatever it built,
  only its pinned artifacts are queued for deletion and its time is counted.
\<close>

theorem lost_lease_publishes_nothing:
  "builds (finish_claim s settings size_of d now c held elapsed (LeaseLost built)) = builds d
   \<and> artifact_refs (finish_claim s settings size_of d now c held elapsed (LeaseLost built)) = artifact_refs d
   \<and> repo_refs (finish_claim s settings size_of d now c held elapsed (LeaseLost built)) = repo_refs d
   \<and> deletions (finish_claim s settings size_of d now c held elapsed (LeaseLost built)) =
       (if held = [] then deletions d else queue_all held now (deletions d))"
  by (auto simp: finish_claim_def settle_def publish_or_fail_def queue_unnamed_def queue_deletions_def
      add_build_time_def Let_def filter_empty_conv split: sum.split)

end
