(* ===== verification/Pack.thy ===== *)
theory Pack
  imports Results
begin

text \<open>
  Building packs (\<open>src/rust/src/pack.rs\<close>): the Head packs of a commit as a base plus levels, the history
  levels and their compaction, and the reader of version 2 pack indexes.

  Parameters stand for what git does: \<open>closure\<close> lists the depth-1 objects of a commit, \<open>sizes\<close> their
  raw sizes, \<open>pack_undeltified\<close> packs a batch of objects and stores the pack, \<open>history_range\<close> packs
  and stores the objects of \<open>(exclude, tip]\<close>, and \<open>hex\<close> is the crate's encoder.  Pack lengths and
  their sums are numbers below \<open>2 ^ 60\<close>, so the sums of lengths in the code do not overflow; the
  partition's sums are checked by the code and by the model.
\<close>

type_synonym pack_tuple = "string \<times> nat \<times> string \<times> nat"

datatype pack_error = NoObjects string | SizeOverflow | GitFailed | NotAnIdx | ShortIdx | ShortPack | PastEnd

type_synonym 'a pack_result = "pack_error + 'a"

section \<open>Partitioning objects\<close>

definition u64_checked_add :: "nat \<Rightarrow> nat \<Rightarrow> nat option" where
  "u64_checked_add a b = (if a + b < 2 ^ 64 then Some (a + b) else None)"

text \<open>The loop over the objects: full batches in reverse, the current batch in reverse, its bytes.\<close>

fun partition_loop ::
    "(string \<Rightarrow> nat option) \<Rightarrow> nat \<Rightarrow> string list list \<Rightarrow> string list \<Rightarrow> nat \<Rightarrow> string list
       \<Rightarrow> string list list pack_result" where
  "partition_loop sizes target batches cur cur_bytes [] =
     Inr (rev (if cur = [] then batches else rev cur # batches))"
| "partition_loop sizes target batches cur cur_bytes (oid # oids) =
     (let sz = (case sizes oid of None \<Rightarrow> 0 | Some n \<Rightarrow> n) in
      rbind (if cur = [] then Inr False
             else (case u64_checked_add cur_bytes sz of
                     None \<Rightarrow> Inl SizeOverflow
                   | Some bytes \<Rightarrow> Inr (bytes > target))) (\<lambda>full.
      (let batches' = (if full then rev cur # batches else batches);
           cur' = (if full then [] else cur);
           bytes' = (if full then 0 else cur_bytes) in
       case u64_checked_add bytes' sz of
         None \<Rightarrow> Inl SizeOverflow
       | Some bytes \<Rightarrow> partition_loop sizes target batches' (oid # cur') bytes oids)))"

definition partition_oids :: "(string \<Rightarrow> nat option) \<Rightarrow> nat \<Rightarrow> string list \<Rightarrow> string list list pack_result" where
  "partition_oids sizes target_raw_bytes oids = partition_loop sizes (max target_raw_bytes 1) [] [] 0 oids"

text \<open>\<open>sizes\<close> is the listing of the objects' sizes, which can fail.\<close>

definition build_packs_from_oids ::
    "(string list \<Rightarrow> (string \<Rightarrow> nat option) pack_result) \<Rightarrow> (string list \<Rightarrow> pack_tuple pack_result)
       \<Rightarrow> string list \<Rightarrow> nat \<Rightarrow> pack_tuple list pack_result" where
  "build_packs_from_oids object_sizes pack_undeltified oids target_raw_bytes =
     (if oids = [] then Inr []
      else rbind (object_sizes oids) (\<lambda>sizes.
           rbind (partition_oids sizes target_raw_bytes oids) (\<lambda>batches.
           map_result pack_undeltified batches)))"

section \<open>Head packs\<close>

definition build_head_packs ::
    "(string \<Rightarrow> string list pack_result) \<Rightarrow> (string list \<Rightarrow> (string \<Rightarrow> nat option) pack_result)
       \<Rightarrow> (string list \<Rightarrow> pack_tuple pack_result) \<Rightarrow> string \<Rightarrow> nat \<Rightarrow> pack_tuple list pack_result" where
  "build_head_packs closure object_sizes pack_undeltified commit target =
     rbind (closure commit) (\<lambda>head_oids.
     if head_oids = [] then Inl (NoObjects commit)
     else build_packs_from_oids object_sizes pack_undeltified head_oids target)"

definition build_head_level ::
    "(string \<Rightarrow> string list pack_result) \<Rightarrow> (string list \<Rightarrow> (string \<Rightarrow> nat option) pack_result)
       \<Rightarrow> (string list \<Rightarrow> pack_tuple pack_result) \<Rightarrow> string \<Rightarrow> string set \<Rightarrow> nat \<Rightarrow> pack_tuple list pack_result" where
  "build_head_level closure object_sizes pack_undeltified commit have target =
     rbind (closure commit) (\<lambda>head_oids.
     if head_oids = [] then Inl (NoObjects commit)
     else build_packs_from_oids object_sizes pack_undeltified (filter (\<lambda>o'. o' \<notin> have) head_oids) target)"

section \<open>Pack indexes\<close>

definition get_range :: "string \<Rightarrow> nat \<Rightarrow> nat \<Rightarrow> string option" where
  "get_range s a b = (if a \<le> b \<and> b \<le> length s then Some (take (b - a) (drop a s)) else None)"

definition be_val :: "string \<Rightarrow> nat" where
  "be_val s = fold (\<lambda>c acc. acc * 256 + byte c) s 0"

function chunks_exact :: "nat \<Rightarrow> string \<Rightarrow> string list" where
  "chunks_exact n s = (if n = 0 \<or> length s < n then [] else take n s # chunks_exact n (drop n s))"
  by auto
termination by (relation "measure (\<lambda>(n, s). length s)") auto

declare chunks_exact.simps [simp del]

definition idx_header :: string where
  "idx_header = map char_of [255, 116, 79, 99, 0, 0, 0, 2 :: nat]"

definition idx_object_ids :: "(string \<Rightarrow> string) \<Rightarrow> string \<Rightarrow> string list pack_result" where
  "idx_object_ids hex idx =
     (let header = 8; fanout = 256 * 4 in
      if \<not> (length idx \<ge> header + fanout \<and> take header idx = idx_header) then Inl NotAnIdx
      else (let count = be_val (take 4 (drop (header + fanout - 4) idx)) in
            case get_range idx (header + fanout) (header + fanout + count * 20) of
              None \<Rightarrow> Inl ShortIdx
            | Some names \<Rightarrow> Inr (map hex (chunks_exact 20 names))))"

definition idx_offset :: "string \<Rightarrow> nat \<Rightarrow> nat \<Rightarrow> nat \<Rightarrow> nat pack_result" where
  "idx_offset idx offsets_at large_at i =
     (let at = offsets_at + i * 4 in
      case get_range idx at (at + 4) of
        None \<Rightarrow> Inl ShortIdx
      | Some bytes \<Rightarrow>
          (let word = be_val bytes in
           if word < 2 ^ 31 then Inr word
           else (let at = large_at + (word mod 2 ^ 31) * 8 in
                 case get_range idx at (at + 8) of
                   None \<Rightarrow> Inl ShortIdx
                 | Some large \<Rightarrow> Inr (be_val large))))"

text \<open>The sizes in offset order: each object ends where the next begins, the last at the checksum.\<close>

fun gaps :: "nat list \<Rightarrow> nat \<Rightarrow> nat list pack_result" where
  "gaps [] pack_end = Inr []"
| "gaps [x] pack_end = (if pack_end < x then Inl PastEnd else Inr [pack_end - x])"
| "gaps (x # y # ys) pack_end =
     rbind (if y < x then Inl PastEnd else Inr (y - x)) (\<lambda>g.
     rbind (gaps (y # ys) pack_end) (\<lambda>gs. Inr (g # gs)))"

definition idx_object_sizes :: "(string \<Rightarrow> string) \<Rightarrow> string \<Rightarrow> nat \<Rightarrow> (string \<times> nat) list pack_result" where
  "idx_object_sizes hex idx pack_len =
     rbind (idx_object_ids hex idx) (\<lambda>ids.
     (let count = length ids;
          offsets_at = 8 + 256 * 4 + count * (20 + 4);
          large_at = offsets_at + count * 4 in
      rbind (map_result (idx_offset idx offsets_at large_at) [0..<count]) (\<lambda>offsets.
      if pack_len < 20 then Inl ShortPack
      else (let order = sort_key (\<lambda>i. offsets ! i) [0..<count] in
            rbind (gaps (map (\<lambda>i. offsets ! i) order) (pack_len - 20)) (\<lambda>gs.
            (let sizes = fold (\<lambda>(i, g) sizes. sizes[i := g]) (zip order gs) (replicate count 0)
             in Inr (zip ids sizes)))))))"

section \<open>Rebasing\<close>

definition rebase_keeps :: "string set \<Rightarrow> pack_tuple \<Rightarrow> (string \<times> nat) list \<Rightarrow> bool" where
  "rebase_keeps live pack objects =
     (sum_list (map snd (filter (\<lambda>(i, _). i \<notin> live) objects)) * 10 \<le> fst (snd pack))"

text \<open>The loop over the base: the packs kept and the ids in them.\<close>

fun rebase_loop ::
    "(string \<Rightarrow> string) \<Rightarrow> string set \<Rightarrow> (pack_tuple \<times> string) list
       \<Rightarrow> (pack_tuple list \<times> string set) pack_result" where
  "rebase_loop hex live [] = Inr ([], {})"
| "rebase_loop hex live ((pack, idx) # base) =
     rbind (idx_object_sizes hex idx (fst (snd pack))) (\<lambda>objects.
     rbind (rebase_loop hex live base) (\<lambda>(kept, kept_ids).
     Inr (if rebase_keeps live pack objects
          then (pack # kept, set (map fst objects) \<union> kept_ids) else (kept, kept_ids))))"

definition rebase_head_packs ::
    "(string \<Rightarrow> string) \<Rightarrow> (string \<Rightarrow> string list pack_result)
       \<Rightarrow> (string list \<Rightarrow> (string \<Rightarrow> nat option) pack_result)
       \<Rightarrow> (string list \<Rightarrow> pack_tuple pack_result) \<Rightarrow> string \<Rightarrow> (pack_tuple \<times> string) list \<Rightarrow> nat
       \<Rightarrow> (pack_tuple list \<times> nat) pack_result" where
  "rebase_head_packs hex closure object_sizes pack_undeltified commit base target =
     rbind (closure commit) (\<lambda>oids.
     if oids = [] then Inl (NoObjects commit)
     else rbind (rebase_loop hex (set oids) base) (\<lambda>(kept, kept_ids).
          rbind (build_packs_from_oids object_sizes pack_undeltified
                   (filter (\<lambda>i. i \<notin> kept_ids) oids) target) (\<lambda>built.
          Inr (kept @ built, length kept))))"

section \<open>History levels\<close>

definition level_bytes :: "HistoryLevel \<Rightarrow> nat" where
  "level_bytes l = sum_list (map sp_pack_len (hl_packs l))"

text \<open>The adjacent pair with the smallest combined size; the first one on a tie.\<close>

fun best_loop :: "HistoryLevel list \<Rightarrow> nat \<Rightarrow> nat \<Rightarrow> nat list \<Rightarrow> nat" where
  "best_loop levels best best_bytes [] = best"
| "best_loop levels best best_bytes (i # is) =
     (let b = level_bytes (levels ! i) + level_bytes (levels ! (i + 1)) in
      if b < best_bytes then best_loop levels i b is else best_loop levels best best_bytes is)"

definition best_pair :: "HistoryLevel list \<Rightarrow> nat" where
  "best_pair levels = best_loop levels 0 (2 ^ 64 - 1) [0..<length levels - 1]"

definition sized :: "pack_tuple \<Rightarrow> SizedPack" where
  "sized p = (case p of (pack, len, idx, idx_len) \<Rightarrow>
     \<lparr>sp_pack = pack, sp_pack_len = len, sp_idx = idx, sp_idx_len = idx_len\<rparr>)"

definition merged_level :: "string \<Rightarrow> pack_tuple list \<Rightarrow> HistoryLevel" where
  "merged_level tip packs = \<lparr>hl_tip_commit = tip, hl_packs = map sized packs\<rparr>"

definition level_start :: "HistoryLevel list \<Rightarrow> nat \<Rightarrow> string option" where
  "level_start levels i = (if i = 0 then None else Some (hl_tip_commit (levels ! (i - 1))))"

lemma best_loop_in: "best_loop levels best bytes is \<in> insert best (set is)"
  by (induction "is" arbitrary: best bytes) (auto simp: Let_def)

lemma best_pair_bound: "2 \<le> length levels \<Longrightarrow> best_pair levels + 1 < length levels"
  using best_loop_in[of levels 0 "2 ^ 64 - 1" "[0..<length levels - 1]"]
  by (auto simp: best_pair_def)

function compact_levels ::
    "(string \<Rightarrow> string option \<Rightarrow> pack_tuple list pack_result) \<Rightarrow> HistoryLevel list \<Rightarrow> nat
       \<Rightarrow> (HistoryLevel list \<times> pack_tuple list) pack_result" where
  "compact_levels history_range levels max_levels =
     (if length levels > max max_levels 1 \<and> length levels \<ge> 2
      then (let best = best_pair levels; tip = hl_tip_commit (levels ! (best + 1)) in
            rbind (history_range tip (level_start levels best)) (\<lambda>packs.
            rbind (compact_levels history_range
                     (take best levels @ [merged_level tip packs] @ drop (best + 2) levels) max_levels)
              (\<lambda>(levels', new_packs). Inr (levels', packs @ new_packs))))
      else Inr (levels, []))"
  by auto
termination
  by (relation "measure (\<lambda>(_, levels, _). length levels)") (use best_pair_bound in fastforce)+

end
