(* ===== verification/Pack_Props.thy ===== *)
theory Pack_Props
  imports Pack "HOL-Library.Sublist"
begin

text \<open>
  Correctness of pack building: batches partition the listed objects greedily, Head levels and rebased
  Head packs are disjoint and complete, compaction bounds the number of history levels and keeps each
  level's range, and the sizes read from an index tile its pack.
\<close>

section \<open>Partitioning\<close>

definition size_or_zero :: "(string \<Rightarrow> nat option) \<Rightarrow> string \<Rightarrow> nat" where
  "size_or_zero sizes oid = (case sizes oid of None \<Rightarrow> 0 | Some n \<Rightarrow> n)"

definition raw_bytes :: "(string \<Rightarrow> nat option) \<Rightarrow> string list \<Rightarrow> nat" where
  "raw_bytes sizes oids = sum_list (map (size_or_zero sizes) oids)"

lemma raw_bytes_simps [simp]:
  "raw_bytes sizes [] = 0" "raw_bytes sizes (x # xs) = size_or_zero sizes x + raw_bytes sizes xs"
  "raw_bytes sizes (xs @ ys) = raw_bytes sizes xs + raw_bytes sizes ys" "raw_bytes sizes (rev xs) = raw_bytes sizes xs"
  by (simp_all add: raw_bytes_def sum_list_rev rev_map[symmetric])

text \<open>A batch fits, or holds one object; the first object of the next batch would not have fitted.\<close>

definition fits :: "(string \<Rightarrow> nat option) \<Rightarrow> nat \<Rightarrow> string list \<Rightarrow> bool" where
  "fits sizes target b \<longleftrightarrow> b \<noteq> [] \<and> (length b = 1 \<or> raw_bytes sizes b \<le> target)"

fun greedy :: "(string \<Rightarrow> nat option) \<Rightarrow> nat \<Rightarrow> string list list \<Rightarrow> bool" where
  "greedy sizes target (b # c # bs) \<longleftrightarrow> target < raw_bytes sizes b + size_or_zero sizes (hd c)
     \<and> greedy sizes target (c # bs)"
| "greedy sizes target bs \<longleftrightarrow> True"

lemma partition_loop_spec:
  assumes "partition_loop sizes target batches cur bytes oids = Inr out"
    and "bytes = raw_bytes sizes cur" "cur = [] \<or> fits sizes target (rev cur)"
  shows "\<exists>rest. out = rev batches @ rest \<and> concat rest = rev cur @ oids
    \<and> list_all (fits sizes target) rest \<and> greedy sizes target rest"
  using assms
proof (induction oids arbitrary: batches cur bytes)
  case Nil
  then show ?case by (cases "cur = []") auto
next
  case (Cons oid oids)
  let ?sz = "size_or_zero sizes oid"
  note step = Cons.prems(1)[unfolded partition_loop.simps Let_def, folded size_or_zero_def]
  show ?case
  proof (cases "cur \<noteq> [] \<and> target < bytes + ?sz")
    case True
    then have run: "partition_loop sizes target (rev cur # batches) [oid] ?sz oids = Inr out"
      using step by (auto simp: u64_checked_add_def split: if_splits)
    have "fits sizes target (rev [oid])" by (simp add: fits_def)
    then obtain rest where rest: "out = rev (rev cur # batches) @ rest" "concat rest = oid # oids"
      "list_all (fits sizes target) rest" "greedy sizes target rest"
      using Cons.IH[OF run] by auto
    then obtain b bs where "rest = b # bs" by (cases rest) auto
    moreover from this rest have "hd b = oid" by (cases b) (auto simp: fits_def)
    ultimately show ?thesis
      using rest True Cons.prems(2,3) by (intro exI[of _ "rev cur # rest"]) auto
  next
    case False
    then have run: "partition_loop sizes target batches (oid # cur) (bytes + ?sz) oids = Inr out"
      using step Cons.prems(2) by (auto simp: u64_checked_add_def split: if_splits)
    have "fits sizes target (rev (oid # cur))"
      using False Cons.prems(2) by (auto simp: fits_def)
    then show ?thesis using Cons.IH[OF run] Cons.prems(2) by auto
  qed
qed

lemma partition_loop_total:
  assumes "bytes + raw_bytes sizes oids < 2 ^ 64"
  shows "\<exists>out. partition_loop sizes target batches cur bytes oids = Inr out"
  using assms
proof (induction oids arbitrary: batches cur bytes)
  case (Cons oid oids)
  let ?sz = "size_or_zero sizes oid"
  have "bytes + ?sz < 2 ^ 64" "?sz < 2 ^ 64" using Cons.prems by simp_all
  then show ?case
    using Cons.IH[of "bytes + ?sz" batches "oid # cur"] Cons.IH[of ?sz "rev cur # batches" "[oid]"] Cons.prems
    unfolding partition_loop.simps Let_def size_or_zero_def[symmetric]
    by (auto simp: u64_checked_add_def)
qed simp



section \<open>Head packs\<close>

text \<open>
  \<open>objects p\<close> are the objects of a stored pack.  What is relied on of \<open>git pack-objects\<close>: the pack of a batch
  holds exactly that batch.
\<close>

definition packs_exactly :: "(string list \<Rightarrow> pack_tuple pack_result) \<Rightarrow> (pack_tuple \<Rightarrow> string set) \<Rightarrow> bool" where
  "packs_exactly pack objects \<longleftrightarrow> (\<forall>batch p. pack batch = Inr p \<longrightarrow> objects p = set batch)"

definition all_objects :: "(pack_tuple \<Rightarrow> string set) \<Rightarrow> pack_tuple list \<Rightarrow> string set" where
  "all_objects objects packs = (\<Union>p \<in> set packs. objects p)"

fun disjoint_packs :: "(pack_tuple \<Rightarrow> string set) \<Rightarrow> pack_tuple list \<Rightarrow> bool" where
  "disjoint_packs objects [] \<longleftrightarrow> True"
| "disjoint_packs objects (p # ps) \<longleftrightarrow> objects p \<inter> all_objects objects ps = {} \<and> disjoint_packs objects ps"

lemma all_objects_append [simp]: "all_objects objects (ps @ qs) = all_objects objects ps \<union> all_objects objects qs"
  by (simp add: all_objects_def)

lemma all_objects_nil [simp]: "all_objects objects [] = {}"
  by (simp add: all_objects_def)

lemma all_objects_cons [simp]: "all_objects objects (p # ps) = objects p \<union> all_objects objects ps"
  by (simp add: all_objects_def)

lemma disjoint_packs_append:
  "disjoint_packs objects (ps @ qs) \<longleftrightarrow> disjoint_packs objects ps \<and> disjoint_packs objects qs
     \<and> all_objects objects ps \<inter> all_objects objects qs = {}"
  by (induction ps) auto

lemma packed_batches:
  assumes "packs_exactly pack objects" "map_result pack batches = Inr packs"
  shows "all_objects objects packs = set (concat batches)"
    and "distinct (concat batches) \<Longrightarrow> disjoint_packs objects packs"
proof -
  have "all_objects objects packs = set (concat batches)
      \<and> (distinct (concat batches) \<longrightarrow> disjoint_packs objects packs)"
    using assms(2)
  proof (induction batches arbitrary: packs)
    case (Cons b bs)
    then show ?case using assms(1)
      by (auto simp: rbind_Inr packs_exactly_def)
  qed simp
  then show "all_objects objects packs = set (concat batches)"
    and "distinct (concat batches) \<Longrightarrow> disjoint_packs objects packs" by blast+
qed

lemma build_packs_spec:
  assumes exact: "packs_exactly pack objects"
    and built: "build_packs_from_oids object_sizes pack oids target = Inr packs"
  shows "all_objects objects packs = set oids" and "distinct oids \<Longrightarrow> disjoint_packs objects packs"
proof -
  have "all_objects objects packs = set oids \<and> (distinct oids \<longrightarrow> disjoint_packs objects packs)"
  proof (cases "oids = []")
    case False
    then obtain sizes batches where b: "partition_oids sizes target oids = Inr batches"
      "map_result pack batches = Inr packs"
      using built by (auto simp: build_packs_from_oids_def rbind_Inr)
    then have "concat batches = oids"
      using partition_loop_spec[of sizes "max target 1" "[]" "[]" 0 oids batches]
      by (auto simp: partition_oids_def)
    then show ?thesis using packed_batches[OF exact b(2)] by auto
  qed (use built in \<open>simp add: build_packs_from_oids_def\<close>)
  then show "all_objects objects packs = set oids" "distinct oids \<Longrightarrow> disjoint_packs objects packs" by blast+
qed

text \<open>
  A Head level is disjoint and complete: its packs hold exactly the objects of the commit's closure
  that the packs it builds on lack, no object is in two of them, and together with what was there
  they hold the whole closure.
\<close>

theorem head_level_exact:
  assumes "packs_exactly pack objects" "closure commit = Inr oids" "distinct oids"
    and "build_head_level closure object_sizes pack commit have target = Inr packs"
  shows "all_objects objects packs = set oids - have \<and> disjoint_packs objects packs
    \<and> set oids \<subseteq> have \<union> all_objects objects packs"
proof -
  have "build_packs_from_oids object_sizes pack (filter (\<lambda>o'. o' \<notin> have) oids) target = Inr packs"
    using assms(2,4) by (simp add: build_head_level_def split: if_splits)
  from build_packs_spec[OF assms(1) this] assms(3) show ?thesis by auto
qed

text \<open>A packer of one-letter objects, to instantiate the contract.\<close>

definition ex_pack :: "string list \<Rightarrow> pack_tuple pack_result" where
  "ex_pack batch = (if list_all (\<lambda>o'. length o' = 1) batch then Inr (concat batch, 40, ''i'', 9) else Inl GitFailed)"

definition ex_objects :: "pack_tuple \<Rightarrow> string set" where
  "ex_objects p = (\<lambda>c. [c]) ` set (fst p)"

lemma ex_pack_exact: "packs_exactly ex_pack ex_objects"
proof -
  have "(\<lambda>c. [c]) ` set (concat batch) = set batch" if "list_all (\<lambda>o'. length o' = 1) batch" for batch :: "string list"
    using that by (induction batch) (auto simp: length_Suc_conv)
  then show ?thesis by (auto simp: packs_exactly_def ex_pack_def ex_objects_def split: if_splits)
qed

theorem head_level_exact_witness:
  "\<exists>packs. build_head_level (\<lambda>c. Inr [''a'', ''b'', ''c'']) (\<lambda>oids. Inr (\<lambda>o'. Some 6)) ex_pack ''x'' {''b''} 10 = Inr packs
    \<and> length packs = 2 \<and> all_objects ex_objects packs = {''a'', ''c''}"
proof -
  let ?run = "build_head_level (\<lambda>c. Inr [''a'', ''b'', ''c'']) (\<lambda>oids. Inr (\<lambda>o'. Some 6)) ex_pack ''x'' {''b''} 10"
  have "?run = Inr [(''a'', 40, ''i'', 9), (''c'', 40, ''i'', 9)]" by code_simp
  from head_level_exact[OF ex_pack_exact refl _ this] this show ?thesis by auto
qed

section \<open>Rebasing\<close>

text \<open>The idx of each base pack lists the pack's objects.\<close>

definition idx_lists :: "(string \<Rightarrow> string) \<Rightarrow> (pack_tuple \<Rightarrow> string set) \<Rightarrow> (pack_tuple \<times> string) list \<Rightarrow> bool" where
  "idx_lists hex objects base \<longleftrightarrow> (\<forall>(pack, idx) \<in> set base. \<forall>objs.
     idx_object_sizes hex idx (fst (snd pack)) = Inr objs \<longrightarrow> set (map fst objs) = objects pack)"

text \<open>A kept pack is a base pack in which unused objects take at most a tenth of the bytes.\<close>

definition mostly_live :: "(string \<Rightarrow> string) \<Rightarrow> string set \<Rightarrow> (pack_tuple \<times> string) list \<Rightarrow> pack_tuple \<Rightarrow> bool" where
  "mostly_live hex live base p \<longleftrightarrow> (\<exists>(q, idx) \<in> set base. q = p \<and>
     (\<exists>objs. idx_object_sizes hex idx (fst (snd p)) = Inr objs
       \<and> sum_list (map snd (filter (\<lambda>(i, _). i \<notin> live) objs)) * 10 \<le> fst (snd p)))"

lemma mostly_live_cons:
  "mostly_live hex live base p \<Longrightarrow> mostly_live hex live (b # base) p"
  "idx_object_sizes hex idx (fst (snd pack)) = Inr objs \<Longrightarrow> rebase_keeps live pack objs \<Longrightarrow>
     mostly_live hex live ((pack, idx) # base) pack"
  by (auto simp: mostly_live_def rebase_keeps_def)

lemma rebase_loop_spec:
  assumes "idx_lists hex objects base" "rebase_loop hex live base = Inr (kept, ids)"
  shows "ids = all_objects objects kept" and "subseq kept (map fst base)"
    and "disjoint_packs objects (map fst base) \<Longrightarrow> disjoint_packs objects kept"
    and "\<And>p. p \<in> set kept \<Longrightarrow> mostly_live hex live base p"
proof -
  have "ids = all_objects objects kept \<and> subseq kept (map fst base)
      \<and> (\<forall>p \<in> set kept. mostly_live hex live base p)"
    using assms
  proof (induction base arbitrary: kept ids)
    case (Cons b base)
    obtain pack idx where b: "b = (pack, idx)" by (cases b)
    obtain objs kept' ids' where run: "idx_object_sizes hex idx (fst (snd pack)) = Inr objs"
      "rebase_loop hex live base = Inr (kept', ids')"
      "(kept, ids) = (if rebase_keeps live pack objs then (pack # kept', set (map fst objs) \<union> ids') else (kept', ids'))"
      using Cons.prems(2) unfolding b by (auto simp: rbind_Inr)
    have "idx_lists hex objects base" and objs: "set (map fst objs) = objects pack"
      using Cons.prems(1) run(1) by (auto simp: idx_lists_def b)
    with Cons.IH[OF this(1) run(2)] run objs show ?case
      by (auto simp: b mostly_live_cons split: if_splits)
  qed simp
  then show "ids = all_objects objects kept" and sub: "subseq kept (map fst base)"
    and "\<And>p. p \<in> set kept \<Longrightarrow> mostly_live hex live base p" by blast+
  have "all_objects objects ps \<subseteq> all_objects objects qs \<and> (disjoint_packs objects qs \<longrightarrow> disjoint_packs objects ps)"
    if "subseq ps qs" for ps qs using that by (induction rule: list_emb.induct) auto
  with sub show "disjoint_packs objects (map fst base) \<Longrightarrow> disjoint_packs objects kept" by blast
qed

text \<open>
  A rebase packs a new Head base that is disjoint and complete: it starts with the kept packs of the old base, in
  which objects the commit no longer uses take at most a tenth of the bytes, the new packs hold exactly
  the rest of the commit's closure, and no object is in two packs.
\<close>

theorem rebase_exact:
  assumes exact: "packs_exactly pack objects" and idx: "idx_lists hex objects base"
    and base: "disjoint_packs objects (map fst base)" and oids: "closure commit = Inr oids" "distinct oids"
    and run: "rebase_head_packs hex closure object_sizes pack commit base target = Inr (packs, n)"
  shows "n \<le> length packs \<and> subseq (take n packs) (map fst base)
    \<and> all_objects objects (drop n packs) = set oids - all_objects objects (take n packs)
    \<and> set oids \<subseteq> all_objects objects packs \<and> disjoint_packs objects packs
    \<and> (\<forall>p \<in> set (take n packs). mostly_live hex (set oids) base p)"
proof -
  obtain kept ids built where
    kept: "rebase_loop hex (set oids) base = Inr (kept, ids)"
    and built: "build_packs_from_oids object_sizes pack (filter (\<lambda>i. i \<notin> ids) oids) target = Inr built"
    and eq: "packs = kept @ built" "n = length kept"
    using run oids(1) by (auto simp: rebase_head_packs_def rbind_Inr split: if_splits)
  note loop = rebase_loop_spec[OF idx kept] and new = build_packs_spec[OF exact built]
  have objs: "all_objects objects built = set oids - all_objects objects kept"
    using new(1) loop(1) by auto
  moreover have "disjoint_packs objects (kept @ built)"
    using loop(3)[OF base] new(2) oids(2) objs by (auto simp: disjoint_packs_append)
  ultimately show ?thesis using loop by (auto simp: eq)
qed


text \<open>An index of one object at offset 12.\<close>

definition ex_hex :: "string \<Rightarrow> string" where
  "ex_hex s = [hd s]"

definition ex_idx :: "char \<Rightarrow> string" where
  "ex_idx c = idx_header @ replicate 1023 (char_of (0 :: nat)) @ [char_of (1 :: nat)] @ replicate 20 c
     @ replicate 7 (char_of (0 :: nat)) @ [char_of (12 :: nat)]"

lemma ex_idx_parts:
  "length (ex_idx c) = 1060" "take 8 (ex_idx c) = idx_header"
  "be_val (take 4 (drop 1028 (ex_idx c))) = 1" "get_range (ex_idx c) 1032 1052 = Some (replicate 20 c)"
  "get_range (ex_idx c) 1056 1060 = Some (map char_of [0, 0, 0, 12 :: nat])"
proof -
  have len: "length idx_header = 8" by (simp add: idx_header_def)
  show "length (ex_idx c) = 1060" "take 8 (ex_idx c) = idx_header"
    by (simp_all add: ex_idx_def len)
  have z: "byte (char_of (0 :: nat)) = 0" "byte (char_of (Suc 0)) = Suc 0" by code_simp+
  show "be_val (take 4 (drop 1028 (ex_idx c))) = 1"
    by (simp add: ex_idx_def len be_val_def z numeral_eq_Suc)
  show "get_range (ex_idx c) 1032 1052 = Some (replicate 20 c)"
    "get_range (ex_idx c) 1056 1060 = Some (map char_of [0, 0, 0, 12 :: nat])"
    by (simp_all add: ex_idx_def len get_range_def numeral_eq_Suc)
qed

lemma ex_idx_sizes: "idx_object_sizes ex_hex (ex_idx c) 80 = Inr [([c], 48)]"
proof -
  have ids: "idx_object_ids ex_hex (ex_idx c) = Inr [[c]]"
    by (simp add: idx_object_ids_def ex_idx_parts chunks_exact.simps[of 20] ex_hex_def)
  have "be_val (map char_of [0, 0, 0, 12 :: nat]) = 12" by code_simp
  then have "idx_offset (ex_idx c) 1056 1060 0 = Inr 12"
    by (simp add: idx_offset_def ex_idx_parts)
  then show ?thesis by (simp add: idx_object_sizes_def ids)
qed

theorem rebase_exact_witness:
  "\<exists>packs n. rebase_head_packs ex_hex (\<lambda>c. Inr [''b'', ''a'']) (\<lambda>oids. Inr (\<lambda>o'. Some 6)) ex_pack ''x''
      [((''a'', 80, ''i'', 9), ex_idx (CHR ''a'')), ((''z'', 80, ''j'', 9), ex_idx (CHR ''z''))] 10 = Inr (packs, n)
    \<and> n = 1 \<and> {''a'', ''b''} \<subseteq> all_objects ex_objects packs \<and> disjoint_packs ex_objects packs"
proof -
  let ?base = "[((''a'', 80, ''i'', 9), ex_idx (CHR ''a'')), ((''z'', 80, ''j'', 9), ex_idx (CHR ''z''))]"
  let ?run = "rebase_head_packs ex_hex (\<lambda>c. Inr [''b'', ''a'']) (\<lambda>oids. Inr (\<lambda>o'. Some 6)) ex_pack ''x'' ?base 10"
  have "rebase_loop ex_hex {''b'', ''a''} ?base = Inr ([(''a'', 80, ''i'', 9)], {''a''})"
    by (simp add: ex_idx_sizes rebase_keeps_def)
  moreover have "build_packs_from_oids (\<lambda>oids. Inr (\<lambda>o'. Some 6)) ex_pack [''b''] 10 = Inr [(''b'', 40, ''i'', 9)]"
    by code_simp
  ultimately have run: "?run = Inr ([(''a'', 80, ''i'', 9), (''b'', 40, ''i'', 9)], 1)"
    by (simp add: rebase_head_packs_def)
  have idx: "idx_lists ex_hex ex_objects ?base" by (auto simp: idx_lists_def ex_objects_def ex_idx_sizes)
  have base: "disjoint_packs ex_objects (map fst ?base)" by (simp add: ex_objects_def)
  from rebase_exact[OF ex_pack_exact idx base refl _ run] run show ?thesis by auto
qed

section \<open>Reading indexes\<close>

lemma gaps_spec:
  assumes "gaps xs e = Inr gs"
  shows "length gs = length xs \<and> (\<forall>k < length xs. xs ! k + gs ! k = (if k + 1 < length xs then xs ! (k + 1) else e))"
  using assms
proof (induction xs e arbitrary: gs rule: gaps.induct)
  case (3 x y ys e)
  then obtain gs' where "x \<le> y" "gaps (y # ys) e = Inr gs'" "gs = (y - x) # gs'"
    by (auto simp: rbind_Inr split: if_splits)
  with 3(1)[OF this(2)] show ?case by (auto simp: nth_Cons split: nat.splits)
qed (auto split: if_splits)

lemma length_fold_update [simp]: "length (fold (\<lambda>(i, g) sizes. sizes[i := g]) ps ss) = length ss"
  by (induction ps arbitrary: ss) auto

lemma fold_update_notin: "i \<notin> fst ` set ps \<Longrightarrow> fold (\<lambda>(i, g) sizes. sizes[i := g]) ps ss ! i = ss ! i"
  by (induction ps arbitrary: ss) auto

lemma fold_update_nth:
  assumes "distinct (map fst ps)" "k < length ps" "fst (ps ! k) < length ss"
  shows "fold (\<lambda>(i, g) sizes. sizes[i := g]) ps ss ! fst (ps ! k) = snd (ps ! k)"
  using assms
proof (induction ps arbitrary: k ss)
  case (Cons p ps)
  show ?case
  proof (cases k)
    case 0
    then show ?thesis using Cons.prems by (cases p) (simp add: fold_update_notin)
  next
    case (Suc j)
    then show ?thesis using Cons.prems Cons.IH[of j] by (cases p) simp
  qed
qed simp

text \<open>
  The sizes read from an index tile its pack: listed in offset order, each object ends where the next begins and the last
  where the trailing checksum starts.
\<close>

theorem idx_sizes_tile:
  assumes "idx_object_sizes hex idx pack_len = Inr objs"
  shows "\<exists>offsets order. idx_object_ids hex idx = Inr (map fst objs) \<and> length offsets = length objs
    \<and> order = sort_key (\<lambda>i. offsets ! i) [0..<length objs] \<and> 20 \<le> pack_len
    \<and> (\<forall>k < length objs. offsets ! (order ! k) + snd (objs ! (order ! k))
          = (if k + 1 < length objs then offsets ! (order ! (k + 1)) else pack_len - 20))"
proof -
  obtain ids offsets gs where ids: "idx_object_ids hex idx = Inr ids"
    and len: "length offsets = length ids" and plen: "20 \<le> pack_len"
    and gs: "gaps (map (\<lambda>i. offsets ! i) (sort_key (\<lambda>i. offsets ! i) [0..<length ids])) (pack_len - 20) = Inr gs"
    and objs: "objs = zip ids (fold (\<lambda>(i, g) sizes. sizes[i := g])
      (zip (sort_key (\<lambda>i. offsets ! i) [0..<length ids]) gs) (replicate (length ids) 0))"
    using assms unfolding idx_object_sizes_def Let_def
    by (auto simp: rbind_Inr split: if_splits dest!: map_result_Inr_length)
  define order where "order = sort_key (\<lambda>i. offsets ! i) [0..<length ids]"
  have order: "distinct order" "length order = length ids" "set order = {0..<length ids}"
    by (simp_all add: order_def)
  note tile = gaps_spec[OF gs, folded order_def]
  have size: "snd (objs ! (order ! k)) = gs ! k" "order ! k < length ids" if "k < length ids" for k
  proof -
    show lt: "order ! k < length ids" using order that by (metis atLeastLessThan_iff nth_mem)
    have "fold (\<lambda>(i, g) sizes. sizes[i := g]) (zip order gs) (replicate (length ids) 0) ! (order ! k) = gs ! k"
      using fold_update_nth[of "zip order gs" k "replicate (length ids) 0"] order tile that lt by simp
    then show "snd (objs ! (order ! k)) = gs ! k" using lt by (simp add: objs order_def)
  qed
  have l: "length objs = length ids" by (simp add: objs)
  have "map fst objs = ids" by (simp add: objs)
  moreover have "offsets ! (order ! k) + snd (objs ! (order ! k))
      = (if k + 1 < length objs then offsets ! (order ! (k + 1)) else pack_len - 20)" if "k < length objs" for k
    using tile size(1)[of k] that order(2) l by auto
  ultimately show ?thesis using ids len plen l order_def by metis
qed

theorem idx_sizes_tile_witness:
  "\<exists>offsets order. idx_object_ids ex_hex (ex_idx (CHR ''a'')) = Inr [''a''] \<and> length offsets = 1
    \<and> order = sort_key (\<lambda>i. offsets ! i) [0..<1] \<and> offsets ! (order ! 0) + 48 = 80 - (20 :: nat)"
  using idx_sizes_tile[OF ex_idx_sizes[of "CHR ''a''"]] by auto


section \<open>Compaction of history levels\<close>

text \<open>
  \<open>holds p\<close> are the objects of a pack and \<open>range_objects exclude tip\<close> those of \<open>(exclude, tip]\<close>; what is relied on of
  git is that packing a range stores exactly its objects.  Levels cover a history when each holds exactly its range.
\<close>

definition ranges_exactly ::
    "(string \<Rightarrow> string option \<Rightarrow> pack_tuple list pack_result) \<Rightarrow> (SizedPack \<Rightarrow> string set)
       \<Rightarrow> (string option \<Rightarrow> string \<Rightarrow> string set) \<Rightarrow> bool" where
  "ranges_exactly history_range holds range_objects \<longleftrightarrow> (\<forall>tip ex packs.
     history_range tip ex = Inr packs \<longrightarrow> (\<Union>p \<in> set packs. holds (sized p)) = range_objects ex tip)"

fun covers :: "(SizedPack \<Rightarrow> string set) \<Rightarrow> (string option \<Rightarrow> string \<Rightarrow> string set) \<Rightarrow> string option
    \<Rightarrow> HistoryLevel list \<Rightarrow> bool" where
  "covers holds range_objects start [] \<longleftrightarrow> True"
| "covers holds range_objects start (l # ls) \<longleftrightarrow>
     (\<Union>p \<in> set (hl_packs l). holds p) = range_objects start (hl_tip_commit l)
     \<and> covers holds range_objects (Some (hl_tip_commit l)) ls"

definition end_tip :: "string option \<Rightarrow> HistoryLevel list \<Rightarrow> string option" where
  "end_tip start ls = (if ls = [] then start else Some (hl_tip_commit (last ls)))"

lemma covers_append:
  "covers holds range_objects start (ls @ ms) \<longleftrightarrow> covers holds range_objects start ls
     \<and> covers holds range_objects (end_tip start ls) ms"
  by (induction ls arbitrary: start) (auto simp: end_tip_def)

text \<open>The levels around the pair that is merged.\<close>

lemma merge_split:
  assumes "2 \<le> length levels"
  obtains xs a b ys where "levels = xs @ [a, b] @ ys" "best_pair levels = length xs"
    "take (best_pair levels) levels = xs" "drop (best_pair levels + 2) levels = ys"
    "hl_tip_commit (levels ! (best_pair levels + 1)) = hl_tip_commit b"
    "level_start levels (best_pair levels) = end_tip None xs"
proof -
  let ?i = "best_pair levels"
  have i: "?i + 1 < length levels" by (rule best_pair_bound[OF assms])
  define xs ys where "xs = take ?i levels" and "ys = drop (?i + 2) levels"
  have len: "length xs = ?i" using i by (simp add: xs_def)
  have split: "levels = xs @ [levels ! ?i, levels ! (?i + 1)] @ ys"
    using i unfolding xs_def ys_def by (simp add: id_take_nth_drop Cons_nth_drop_Suc)
  have "level_start levels ?i = end_tip None xs"
    using i len by (auto simp: level_start_def end_tip_def xs_def last_conv_nth)
  then show ?thesis using that split len xs_def ys_def by metis
qed

lemma covers_merge:
  assumes "ranges_exactly history_range holds range_objects" "history_range (hl_tip_commit b) (end_tip None xs) = Inr packs"
    and "covers holds range_objects None (xs @ [a, b] @ ys)"
  shows "covers holds range_objects None (xs @ [merged_level (hl_tip_commit b) packs] @ ys)"
  using assms by (auto simp: covers_append merged_level_def ranges_exactly_def end_tip_def)

declare compact_levels.simps [simp del]

lemma compact_levels_spec:
  assumes exact: "ranges_exactly history_range holds range_objects"
    and "compact_levels history_range levels max_levels = Inr (levels', new_packs)"
    and "covers holds range_objects None levels"
  shows "covers holds range_objects None levels' \<and> length levels' \<le> max max_levels 1
    \<and> end_tip None levels' = end_tip None levels
    \<and> subseq (map hl_tip_commit levels') (map hl_tip_commit levels)
    \<and> (\<forall>l \<in> set levels'. l \<in> set levels \<or> set (hl_packs l) \<subseteq> sized ` set new_packs)"
  using assms(2,3)
proof (induction "length levels" arbitrary: levels levels' new_packs rule: less_induct)
  case less
  show ?case
  proof (cases "length levels > max max_levels 1 \<and> length levels \<ge> 2")
    case True
    obtain xs a b ys where sp: "levels = xs @ [a, b] @ ys" and parts: "take (best_pair levels) levels = xs"
        "drop (best_pair levels + 2) levels = ys" "hl_tip_commit (levels ! (best_pair levels + 1)) = hl_tip_commit b"
        "level_start levels (best_pair levels) = end_tip None xs"
      using True by (metis merge_split)
    let ?m = "\<lambda>packs. merged_level (hl_tip_commit b) packs"
    obtain packs more where run: "history_range (hl_tip_commit b) (end_tip None xs) = Inr packs"
        "compact_levels history_range (xs @ [?m packs] @ ys) max_levels = Inr (levels', more)"
        "new_packs = packs @ more"
      using less.prems(1) True unfolding compact_levels.simps[of history_range levels]
      by (auto simp: Let_def rbind_Inr parts parts[simplified])
    have "covers holds range_objects None (xs @ [?m packs] @ ys)"
      using covers_merge[OF exact run(1)] less.prems(2) unfolding sp by blast
    then have ih: "covers holds range_objects None levels' \<and> length levels' \<le> max max_levels 1
        \<and> end_tip None levels' = end_tip None (xs @ [?m packs] @ ys)
        \<and> subseq (map hl_tip_commit levels') (map hl_tip_commit (xs @ [?m packs] @ ys))
        \<and> (\<forall>l \<in> set levels'. l \<in> set (xs @ [?m packs] @ ys) \<or> set (hl_packs l) \<subseteq> sized ` set more)"
      by (intro less.hyps[OF _ run(2)]) (simp add: sp)
    have "subseq (map hl_tip_commit (xs @ [?m packs] @ ys)) (map hl_tip_commit levels)"
      unfolding sp by (simp add: merged_level_def subseq_append') (blast intro: list_emb_Cons subseq_order.refl)
    moreover have "end_tip None (xs @ [?m packs] @ ys) = end_tip None levels"
      by (simp add: sp end_tip_def merged_level_def)
    moreover have "l \<in> set levels \<or> set (hl_packs l) \<subseteq> sized ` set new_packs" if "l \<in> set levels'" for l
    proof -
      have "l \<in> set xs \<union> set ys \<or> l = ?m packs \<or> set (hl_packs l) \<subseteq> sized ` set more" using ih that by auto
      then show ?thesis by (auto simp: sp run(3) merged_level_def)
    qed
    ultimately show ?thesis using ih by (metis subseq_order.order_trans)
  next
    case False
    then have "levels' = levels" "length levels \<le> max max_levels 1"
      using less.prems(1) unfolding compact_levels.simps[of history_range levels] by auto
    then show ?thesis using less.prems(2) by simp
  qed
qed

lemma compact_levels_total:
  assumes "\<And>tip ex. \<exists>packs. history_range tip ex = Inr packs"
  shows "\<exists>r. compact_levels history_range levels max_levels = Inr r"
proof (induction "length levels" arbitrary: levels rule: less_induct)
  case less
  show ?case
  proof (cases "length levels > max max_levels 1 \<and> length levels \<ge> 2")
    case True
    let ?i = "best_pair levels" and ?tip = "hl_tip_commit (levels ! (best_pair levels + 1))"
    obtain packs where packs: "history_range ?tip (level_start levels ?i) = Inr packs" using assms by blast
    have "length (take ?i levels @ [merged_level ?tip packs] @ drop (?i + 2) levels) < length levels"
      using best_pair_bound[of levels] True by auto
    from less[OF this] obtain r where "compact_levels history_range
        (take ?i levels @ [merged_level ?tip packs] @ drop (?i + 2) levels) max_levels = Inr r" by blast
    then show ?thesis using True packs unfolding compact_levels.simps[of history_range levels]
      by (cases r) (auto simp: Let_def)
  qed (auto simp: compact_levels.simps)
qed

text \<open>
  C39.  Compaction of history levels: it ends, with at most the wanted number of levels, whenever git can pack the
  ranges; each level still holds exactly the objects of its range, the newest tip is unchanged, the tips
  are among the old ones in their order, and every level is an old one or consists of newly built packs.
\<close>

theorem compaction_keeps_history:
  assumes "ranges_exactly history_range holds range_objects" "\<And>tip ex. \<exists>packs. history_range tip ex = Inr packs"
    and "covers holds range_objects None levels"
  shows "\<exists>levels' new_packs. compact_levels history_range levels max_levels = Inr (levels', new_packs)
    \<and> covers holds range_objects None levels' \<and> length levels' \<le> max max_levels 1
    \<and> end_tip None levels' = end_tip None levels
    \<and> subseq (map hl_tip_commit levels') (map hl_tip_commit levels)
    \<and> (\<forall>l \<in> set levels'. l \<in> set levels \<or> set (hl_packs l) \<subseteq> sized ` set new_packs)"
  using compact_levels_total[of history_range levels max_levels, OF assms(2)] compact_levels_spec[OF assms(1) _ assms(3)] by auto


text \<open>Packs named by their range.\<close>

definition ex_range :: "string option \<Rightarrow> string \<Rightarrow> string" where
  "ex_range start tip = (case start of None \<Rightarrow> [] | Some t \<Rightarrow> t) @ ''..'' @ tip"

definition ex_history :: "string \<Rightarrow> string option \<Rightarrow> pack_tuple list pack_result" where
  "ex_history tip start = Inr [(ex_range start tip, 7, ''i'', 1)]"

definition ex_level :: "string option \<Rightarrow> string \<Rightarrow> nat \<Rightarrow> HistoryLevel" where
  "ex_level start tip len = merged_level tip [(ex_range start tip, len, ''i'', 1)]"

theorem compaction_keeps_history_witness:
  "\<exists>levels' new_packs. compact_levels ex_history [ex_level None ''a'' 100, ex_level (Some ''a'') ''b'' 5,
      ex_level (Some ''b'') ''c'' 4] 2 = Inr (levels', new_packs) \<and> length levels' \<le> 2
    \<and> end_tip None levels' = Some ''c''
    \<and> map hl_tip_commit levels' = [''a'', ''c''] \<and> map fst new_packs = [''a..c'']"
proof -
  let ?ls = "[ex_level None ''a'' 100, ex_level (Some ''a'') ''b'' 5, ex_level (Some ''b'') ''c'' 4]"
  have "ranges_exactly ex_history (\<lambda>p. {sp_pack p}) (\<lambda>start tip. {ex_range start tip})"
    by (auto simp: ranges_exactly_def ex_history_def sized_def)
  moreover have "covers (\<lambda>p. {sp_pack p}) (\<lambda>start tip. {ex_range start tip}) None ?ls"
    by (simp add: ex_level_def merged_level_def sized_def)
  moreover have "\<exists>packs. ex_history tip start = Inr packs" for tip start by (simp add: ex_history_def)
  ultimately obtain levels' new_packs where
    r: "compact_levels ex_history ?ls 2 = Inr (levels', new_packs)" "length levels' \<le> max 2 1"
      "end_tip None levels' = end_tip None ?ls"
    using compaction_keeps_history[of ex_history "\<lambda>p. {sp_pack p}" "\<lambda>start tip. {ex_range start tip}" ?ls 2] by blast
  have "(case compact_levels ex_history ?ls 2 of Inr (ls, ps) \<Rightarrow> map hl_tip_commit ls = [''a'', ''c''] \<and> map fst ps = [''a..c'']
      | Inl _ \<Rightarrow> False)" by code_simp
  then show ?thesis using r by (auto simp: end_tip_def ex_level_def merged_level_def)
qed

text \<open>
  The pair of adjacent levels merged first is the smallest: no other adjacent pair has fewer bytes.
\<close>

theorem best_pair_smallest:
  assumes "i + 1 < length levels" "level_bytes (levels ! i) + level_bytes (levels ! (i + 1)) < 2 ^ 64 - 1"
  shows "level_bytes (levels ! best_pair levels) + level_bytes (levels ! (best_pair levels + 1))
    \<le> level_bytes (levels ! i) + level_bytes (levels ! (i + 1))"
proof -
  let ?b = "\<lambda>i. level_bytes (levels ! i) + level_bytes (levels ! (i + 1))"
  have loop: "(\<forall>j \<in> set is. ?b (best_loop levels best bytes is) \<le> ?b j)
      \<and> ?b (best_loop levels best bytes is) \<le> bytes"
    if "bytes = ?b best \<or> (\<exists>j \<in> set is. ?b j < bytes)" for best bytes "is"
    using that
  proof (induction "is" arbitrary: best bytes)
    case (Cons i "is")
    show ?case
    proof (cases "?b i < bytes")
      case True
      then show ?thesis using Cons.IH[of "?b i" i] by (auto simp: Let_def)
    next
      case False
      then show ?thesis using Cons.IH[of bytes best] Cons.prems by (auto simp: Let_def)
    qed
  qed auto
  have "i \<in> set [0..<length levels - 1]" using assms(1) by auto
  then show ?thesis using loop[of "2 ^ 64 - 1" 0 "[0..<length levels - 1]"] assms(2) unfolding best_pair_def by blast
qed

theorem best_pair_smallest_witness:
  "level_bytes ([ex_level None ''a'' 100, ex_level (Some ''a'') ''b'' 5, ex_level (Some ''b'') ''c'' 4] ! 1)
    + level_bytes ([ex_level None ''a'' 100, ex_level (Some ''a'') ''b'' 5, ex_level (Some ''b'') ''c'' 4] ! 2)
    \<le> 105"
proof -
  let ?ls = "[ex_level None ''a'' 100, ex_level (Some ''a'') ''b'' 5, ex_level (Some ''b'') ''c'' 4]"
  have "best_pair ?ls = 1" "level_bytes (?ls ! 0) + level_bytes (?ls ! (0 + 1)) = 105" by code_simp+
  then show ?thesis using best_pair_smallest[of 0 ?ls] by simp
qed

end
