(* ===== verification/Extract.thy ===== *)
theory Extract
  imports Manifest_Props Pack
begin

text \<open>
  Extraction on the client (\<open>src/rust/src/extract.rs\<close>): grouping archive frames into range requests and
  cutting them out again, and reading the blobs of an undeltified pack.

  \<open>inflate\<close> is the zlib decoder of the \<open>flate2\<close> crate: the content of the stream at the start of the bytes
  and the number of bytes it took.  \<open>blob_id\<close> is the git object id of a blob's content (the \<open>sha1\<close>
  crate).  Writing the files is the work of \<open>worktree_writer\<close>: a write is an element of the list of
  writes.
\<close>

unbundle bit_operations_syntax

datatype extract_error = LengthOverflow | ChunkOffsetOverflow | BeforeChunk nat | OutOfChunk nat
  | TruncatedHeader | VarintOverflow | TruncatedVarint | BadPackHeader | ObjectPastEnd nat
  | DeltaObject nat | InflateFailed nat | SizeMismatch nat

type_synonym 'a xresult = "extract_error + 'a"

section \<open>Archive chunks\<close>

record Chunk =
  ck_index :: nat
  ck_start_frame :: nat
  ck_end_frame :: nat
  ck_byte_start :: "64 word"
  ck_byte_end :: "64 word"

definition frame_chunk :: "FrameInfo \<Rightarrow> nat" where
  "frame_chunk f = unat (chunk_index f)"

text \<open>The loop over the frames from index \<open>i\<close>; chunks are accumulated in reverse.\<close>

fun chunk_loop ::
    "64 word \<Rightarrow> Chunk list \<Rightarrow> nat \<Rightarrow> 64 word \<Rightarrow> 64 word \<Rightarrow> nat \<Rightarrow> nat \<Rightarrow> FrameInfo list
       \<Rightarrow> (Chunk list \<times> nat \<times> 64 word \<times> 64 word \<times> nat) xresult" where
  "chunk_loop chunk_size chunks start byte_start current_len current_chunk i [] =
     Inr (chunks, start, byte_start, current_len, current_chunk)"
| "chunk_loop chunk_size chunks start byte_start current_len current_chunk i (frame # frames) =
     (let frame_len = u64_of_u32 (compressed_len frame) in
      rbind (if frame_chunk frame \<noteq> current_chunk then Inr True
             else if current_len = 0 then Inr False
             else rbind (ok_or LengthOverflow (checked_add_u64 current_len frame_len)) (\<lambda>l.
                  Inr (l > chunk_size))) (\<lambda>split.
      if split
      then rbind (ok_or ChunkOffsetOverflow (checked_add_u64 byte_start current_len)) (\<lambda>byte_end.
           rbind (ok_or LengthOverflow (checked_add_u64 0 frame_len)) (\<lambda>l.
           chunk_loop chunk_size
             (\<lparr>ck_index = current_chunk, ck_start_frame = start, ck_end_frame = i,
               ck_byte_start = byte_start, ck_byte_end = byte_end\<rparr> # chunks)
             i (chunk_offset frame) l (frame_chunk frame) (i + 1) frames))
      else rbind (ok_or LengthOverflow (checked_add_u64 current_len frame_len)) (\<lambda>l.
           chunk_loop chunk_size chunks start byte_start l current_chunk (i + 1) frames)))"

definition compute_chunks :: "FrameInfo list \<Rightarrow> 64 word \<Rightarrow> Chunk list xresult" where
  "compute_chunks frames chunk_size =
     (let first = (case frames of [] \<Rightarrow> 0 | f # _ \<Rightarrow> frame_chunk f) in
      rbind (chunk_loop chunk_size [] 0 0 0 first 0 frames)
        (\<lambda>(chunks, start, byte_start, current_len, current_chunk).
      if frames = [] then Inr (rev chunks)
      else rbind (ok_or ChunkOffsetOverflow (checked_add_u64 byte_start current_len)) (\<lambda>byte_end.
           Inr (rev (\<lparr>ck_index = current_chunk, ck_start_frame = start, ck_end_frame = length frames,
                      ck_byte_start = byte_start, ck_byte_end = byte_end\<rparr> # chunks)))))"

text \<open>\<open>usize\<close> has 64 bits: offsets and lengths convert, and their sum is checked.\<close>

definition slice_archive_frame :: "string \<Rightarrow> Chunk \<Rightarrow> FrameInfo \<Rightarrow> nat \<Rightarrow> string xresult" where
  "slice_archive_frame bytes chunk frame frame_idx =
     (if unat (chunk_offset frame) < unat (ck_byte_start chunk) then Inl (BeforeChunk frame_idx)
      else (let offset = unat (chunk_offset frame) - unat (ck_byte_start chunk);
                len = unat (compressed_len frame) in
            if offset + len \<ge> 2 ^ 64 then Inl LengthOverflow
            else ok_or (OutOfChunk frame_idx) (get_range bytes offset (offset + len))))"

section \<open>Packs\<close>

fun size_loop :: "string \<Rightarrow> 64 word \<Rightarrow> nat \<Rightarrow> nat \<Rightarrow> bool \<Rightarrow> (64 word \<times> nat) xresult" where
  "size_loop rest sz shift i False = Inr (sz, i)"
| "size_loop [] sz shift i True =
     (if shift \<ge> 64 then Inl VarintOverflow else Inl TruncatedVarint)"
| "size_loop (c # rest) sz shift i True =
     (if shift \<ge> 64 then Inl VarintOverflow
      else (let part = byte c mod 128; remaining = 64 - shift in
            if remaining < 7 \<and> part \<ge> 2 ^ remaining then Inl VarintOverflow
            else size_loop rest (sz OR push_bit shift (of_nat part)) (shift + 7) (i + 1) (byte c \<ge> 128)))"

definition parse_pack_obj_header :: "string \<Rightarrow> (nat \<times> 64 word \<times> nat) xresult" where
  "parse_pack_obj_header buf =
     (case buf of
        [] \<Rightarrow> Inl TruncatedHeader
      | c # rest \<Rightarrow>
          (let obj_type = (byte c div 16) mod 8 in
           rbind (size_loop rest (of_nat (byte c mod 16)) 4 1 (byte c \<ge> 128)) (\<lambda>(sz, len).
           Inr (obj_type, sz, len))))"

definition pack_object_initial_capacity :: "64 word \<Rightarrow> nat \<Rightarrow> nat" where
  "pack_object_initial_capacity advertised_size pack_len = min (unat advertised_size) pack_len"

type_synonym blob_path_map = "8 word list \<Rightarrow> (string \<times> 32 word) list option"

definition build_blob_path_map :: "FileEntry list \<Rightarrow> blob_path_map" where
  "build_blob_path_map files =
     fold (\<lambda>f m. if length (fe_blob_sha1 f) = 20
        then m(fe_blob_sha1 f \<mapsto>
          (case m (fe_blob_sha1 f) of None \<Rightarrow> [] | Some l \<Rightarrow> l) @ [(fe_path f, fe_mode f)])
        else m) files Map.empty"

text \<open>A write: path, mode and content.\<close>

type_synonym file_write = "string \<times> 32 word \<times> string"

fun blob_loop ::
    "(string \<Rightarrow> (string \<times> nat) option) \<Rightarrow> (string \<Rightarrow> 8 word list) \<Rightarrow> blob_path_map \<Rightarrow> string \<Rightarrow> nat \<Rightarrow> nat \<Rightarrow> nat
       \<Rightarrow> file_write list xresult" where
  "blob_loop inflate blob_id blob_paths pack off i 0 = Inr []"
| "blob_loop inflate blob_id blob_paths pack off i (Suc n) =
     (if off \<ge> length pack then Inl (ObjectPastEnd i)
      else rbind (parse_pack_obj_header (drop off pack)) (\<lambda>(obj_type, sz, hdr_len).
        let data_start = off + hdr_len in
        if obj_type = 6 \<or> obj_type = 7 then Inl (DeltaObject obj_type)
        else if data_start > length pack then Inl (ObjectPastEnd i)
        else (case inflate (drop data_start pack) of
            None \<Rightarrow> Inl (InflateFailed i)
          | Some (content, taken) \<Rightarrow>
              if length content \<noteq> unat sz then Inl (SizeMismatch i)
              else (let writes = (if obj_type = 3
                      then (case blob_paths (blob_id content) of
                              None \<Rightarrow> []
                            | Some paths \<Rightarrow> map (\<lambda>(path, mode). (path, mode, content)) paths)
                      else []) in
                    rbind (blob_loop inflate blob_id blob_paths pack (data_start + taken) (i + 1) n)
                      (\<lambda>rest. Inr (writes @ rest))))))"

definition extract_blobs_from_pack_bytes ::
    "(string \<Rightarrow> (string \<times> nat) option) \<Rightarrow> (string \<Rightarrow> 8 word list) \<Rightarrow> string \<Rightarrow> blob_path_map
       \<Rightarrow> file_write list xresult" where
  "extract_blobs_from_pack_bytes inflate blob_id pack blob_paths =
     (if length pack < 12 \<or> take 4 pack \<noteq> ''PACK'' then Inl BadPackHeader
      else blob_loop inflate blob_id blob_paths pack 12 0 (be_val (take 4 (drop 8 pack))))"

section \<open>Properties of chunks\<close>

lemma checked_add_u64_ok:
  "unat a + unat b < 2 ^ 64 \<Longrightarrow> \<exists>r. checked_add_u64 a b = Some r \<and> unat r = unat a + unat b"
  using checked_add_u64_Some[of a b "a + b"] by (simp add: checked_add_u64_def)

text \<open>
  A chunk is good for its frames: they are in one archive chunk, lie back to back from the chunk's first
  byte to its end.
\<close>

fun frames_span :: "nat \<Rightarrow> nat \<Rightarrow> FrameInfo list \<Rightarrow> nat \<Rightarrow> bool" where
  "frames_span ci start [] stop \<longleftrightarrow> start = stop"
| "frames_span ci start (f # fs) stop \<longleftrightarrow> frame_chunk f = ci \<and> unat (chunk_offset f) = start
     \<and> frames_span ci (start + unat (compressed_len f)) fs stop"

lemma frames_span_append:
  "frames_span ci start (fs @ gs) stop \<longleftrightarrow>
     (\<exists>mid. frames_span ci start fs mid \<and> frames_span ci mid gs stop)"
  by (induction fs arbitrary: start) auto

text \<open>Chunks that tile the frames from \<open>a\<close> to \<open>b\<close>.\<close>

fun chunks_tile :: "nat \<Rightarrow> Chunk list \<Rightarrow> nat \<Rightarrow> bool" where
  "chunks_tile a [] b \<longleftrightarrow> a = b"
| "chunks_tile a (c # cs) b \<longleftrightarrow> ck_start_frame c = a \<and> chunks_tile (ck_end_frame c) cs b"

lemma chunks_tile_snoc [simp]:
  "chunks_tile a (cs @ [c]) b \<longleftrightarrow> chunks_tile a cs (ck_start_frame c) \<and> ck_end_frame c = b"
  by (induction cs arbitrary: a) auto


lemma frames_span_sum:
  "frames_span ci start fs stop \<Longrightarrow> stop = start + sum_list (map (\<lambda>f. unat (compressed_len f)) fs)"
  by (induction fs arbitrary: start) fastforce+

text \<open>A chunk fits the wanted size, or holds at most one frame with bytes.\<close>

definition nonempty_frames :: "FrameInfo list \<Rightarrow> nat" where
  "nonempty_frames fs = length (filter (\<lambda>f. compressed_len f \<noteq> 0) fs)"

definition segment_ok :: "64 word \<Rightarrow> nat \<Rightarrow> nat \<Rightarrow> nat \<Rightarrow> FrameInfo list \<Rightarrow> bool" where
  "segment_ok chunk_size ci start stop fs \<longleftrightarrow> fs \<noteq> [] \<and> frames_span ci start fs stop
     \<and> (stop - start \<le> unat chunk_size \<or> nonempty_frames fs \<le> 1)"

lemma segment_ok_single: "segment_ok chunk_size (frame_chunk f) (unat (chunk_offset f))
    (unat (chunk_offset f) + unat (compressed_len f)) [f]"
  by (simp add: segment_ok_def nonempty_frames_def)

lemma segment_ok_snoc:
  assumes "segment_ok chunk_size ci start stop fs" "frame_chunk f = ci" "unat (chunk_offset f) = stop"
    and "start = stop \<or> stop + unat (compressed_len f) - start \<le> unat chunk_size"
  shows "segment_ok chunk_size ci start (stop + unat (compressed_len f)) (fs @ [f])"
proof -
  have span: "frames_span ci start fs stop" using assms(1) by (simp add: segment_ok_def)
  have "nonempty_frames (fs @ [f]) \<le> 1" if "start = stop"
  proof -
    have "sum_list (map (\<lambda>f. unat (compressed_len f)) fs) = 0" using frames_span_sum[OF span] that by simp
    then have "nonempty_frames fs = 0"
      by (auto simp: nonempty_frames_def filter_empty_conv unat_eq_0)
    then show ?thesis by (simp add: nonempty_frames_def)
  qed
  then show ?thesis using assms span by (auto simp: segment_ok_def frames_span_append)
qed

definition chunk_good :: "64 word \<Rightarrow> FrameInfo list \<Rightarrow> Chunk \<Rightarrow> bool" where
  "chunk_good chunk_size frames c \<longleftrightarrow> ck_start_frame c < ck_end_frame c \<and> ck_end_frame c \<le> length frames
     \<and> segment_ok chunk_size (ck_index c) (unat (ck_byte_start c)) (unat (ck_byte_end c))
         (take (ck_end_frame c - ck_start_frame c) (drop (ck_start_frame c) frames))"

lemma chunk_loop_spec:
  assumes "check_frames i (Some prev) pend fs = Inr ()" "i = length pre" "start < i"
    and "ci = unat prev" "unat byte_start + unat len = unat pend"
    and "segment_ok chunk_size ci (unat byte_start) (unat pend) (drop start pre)"
    and "chunks_tile 0 (rev chunks) start" "\<And>c. c \<in> set chunks \<Longrightarrow> chunk_good chunk_size (pre @ fs) c"
  shows "\<exists>chunks' start' byte_start' len' ci' pend'.
    chunk_loop chunk_size chunks start byte_start len ci i fs = Inr (chunks', start', byte_start', len', ci')
    \<and> unat byte_start' + unat len' = unat pend' \<and> start' < length (pre @ fs)
    \<and> segment_ok chunk_size ci' (unat byte_start') (unat (pend' :: 64 word)) (drop start' (pre @ fs))
    \<and> chunks_tile 0 (rev chunks') start' \<and> (\<forall>c \<in> set chunks'. chunk_good chunk_size (pre @ fs) c)"
  using assms
proof (induction fs arbitrary: i prev pend pre start ci byte_start len chunks)
  case Nil
  then show ?case by auto
next
  case (Cons f fs)
  let ?flen = "u64_of_u32 (compressed_len f)"
  obtain e where e: "unat e = unat (chunk_offset f) + unat (compressed_len f)"
    "(chunk_index f = prev \<and> chunk_offset f = pend) \<or> (unat (chunk_index f) = unat prev + 1 \<and> chunk_offset f = 0)"
    "check_frames (i + 1) (Some (chunk_index f)) e fs = Inr ()"
    using check_frames_Cons[OF Cons.prems(1)] by metis
  have e64: "unat e < 2 ^ 64" using unsigned_less[of e] by simp
  have p64: "unat pend < 2 ^ 64" using unsigned_less[of pend] by simp
  have same: "chunk_offset f = pend" if "frame_chunk f = ci"
    using e(2) that Cons.prems(4) by (auto simp: frame_chunk_def)
  have fits: "unat len + unat (compressed_len f) < 2 ^ 64" if "frame_chunk f = ci"
    using same[OF that] e(1) e64 Cons.prems(5) by simp
  define split where "split \<longleftrightarrow> frame_chunk f \<noteq> ci \<or> (len \<noteq> 0 \<and> unat chunk_size < unat len + unat (compressed_len f))"
  have test: "(if frame_chunk f \<noteq> ci then Inr True else if len = 0 then Inr False
      else rbind (ok_or LengthOverflow (checked_add_u64 len ?flen)) (\<lambda>l. Inr (l > chunk_size))) = Inr split"
    using checked_add_u64_ok[of len ?flen] fits by (auto simp: split_def ok_or_def word_less_nat_alt)
  have all: "pre @ f # fs = (pre @ [f]) @ fs" by simp
  show ?case
  proof (cases split)
    case True
    obtain r where r: "checked_add_u64 0 ?flen = Some r" "unat r = unat (compressed_len f)"
      using checked_add_u64_ok[of 0 ?flen] unat_u32_less[of "compressed_len f"] by auto
    have "unat byte_start + unat len < 2 ^ 64" using Cons.prems(5) p64 by simp
    then have be: "checked_add_u64 byte_start len = Some pend"
      using checked_add_u64_ok[of byte_start len] Cons.prems(5) unsigned_word_eqI[of _ pend] by fastforce
    let ?c = "\<lparr>ck_index = ci, ck_start_frame = start, ck_end_frame = i, ck_byte_start = byte_start, ck_byte_end = pend\<rparr>"
    have "chunk_good chunk_size ((pre @ [f]) @ fs) ?c"
      using Cons.prems(2,3,6) by (simp add: chunk_good_def)
    then have good: "\<And>c. c \<in> set (?c # chunks) \<Longrightarrow> chunk_good chunk_size ((pre @ [f]) @ fs) c"
      using Cons.prems(8) by auto
    have "segment_ok chunk_size (frame_chunk f) (unat (chunk_offset f)) (unat e) (drop i (pre @ [f]))"
      using segment_ok_single[of chunk_size f] e(1) Cons.prems(2) by simp
    note ih = Cons.IH[where chunks = "?c # chunks" and len = r, OF e(3) _ _ _ _ this _ good]
    show ?thesis
      unfolding chunk_loop.simps Let_def test rbind_simps
      using ih True be r(1) e(1) r(2) Cons.prems(2,7) by (simp add: frame_chunk_def ok_or_def)
  next
    case False
    then have fc: "frame_chunk f = ci" "len = 0 \<or> unat len + unat (compressed_len f) \<le> unat chunk_size"
      by (auto simp: split_def)
    obtain r where r: "checked_add_u64 len ?flen = Some r" "unat r = unat len + unat (compressed_len f)"
      using checked_add_u64_ok[of len ?flen] fits[OF fc(1)] by auto
    have "unat byte_start = unat pend \<or> unat pend + unat (compressed_len f) - unat byte_start \<le> unat chunk_size"
      using fc(2) Cons.prems(5) by auto
    then have "segment_ok chunk_size ci (unat byte_start) (unat e) (drop start (pre @ [f]))"
      using segment_ok_snoc[OF Cons.prems(6) fc(1)] same[OF fc(1)] e(1) Cons.prems(2,3) by simp
    note ih = Cons.IH[OF e(3) _ _ _ _ this Cons.prems(7)]
    show ?thesis
      unfolding chunk_loop.simps Let_def test rbind_simps
      using ih[of r] False r fc(1) e(1) same[OF fc(1)] Cons.prems(2,3,5,8) by (simp add: frame_chunk_def ok_or_def)
  qed
qed


text \<open>Cutting the frames of a chunk out of its bytes.\<close>

lemma slices_span:
  assumes "frames_span ci p (take n (drop a frames)) stop" "a + n \<le> length frames"
    and "unat (ck_byte_start c) \<le> p" "length bytes = stop - unat (ck_byte_start c)" "stop < 2 ^ 64"
  shows "\<exists>ss. map_result (\<lambda>i. slice_archive_frame bytes c (frames ! i) i) [a..<a + n] = Inr ss
    \<and> concat ss = drop (p - unat (ck_byte_start c)) bytes"
  using assms
proof (induction n arbitrary: a p)
  case (Suc n)
  let ?b = "unat (ck_byte_start c)" and ?f = "frames ! a" and ?q = "p + unat (compressed_len (frames ! a))"
  have "take (Suc n) (drop a frames) = ?f # take n (drop (Suc a) frames)"
    using Suc.prems(2) by (simp add: Cons_nth_drop_Suc[symmetric])
  with Suc.prems(1) have f: "unat (chunk_offset ?f) = p" and rest: "frames_span ci ?q (take n (drop (Suc a) frames)) stop"
    by simp_all
  have stop: "?q \<le> stop" using frames_span_sum[OF rest] by simp
  obtain ss where ss: "map_result (\<lambda>i. slice_archive_frame bytes c (frames ! i) i) [Suc a..<Suc a + n] = Inr ss"
      "concat ss = drop (?q - ?b) bytes"
    using Suc.IH[OF rest] Suc.prems by auto
  let ?s = "take (unat (compressed_len ?f)) (drop (p - ?b) bytes)"
  have "slice_archive_frame bytes c ?f a = Inr ?s"
    using f stop Suc.prems(3,4,5) by (auto simp: slice_archive_frame_def get_range_def Let_def)
  moreover have "?s @ drop (?q - ?b) bytes = drop (p - ?b) bytes"
  proof -
    have "?q - ?b = unat (compressed_len ?f) + (p - ?b)" using Suc.prems(3) by simp
    then show ?thesis by (metis append_take_drop_id drop_drop)
  qed
  moreover have "[a..<a + Suc n] = a # [Suc a..<Suc a + n]" by (simp add: upt_conv_Cons)
  ultimately show ?case using ss by (intro exI[of _ "?s # ss"]) simp
qed simp

text \<open>
  Fetching an archive by ranges: for every valid frame table the frames are grouped without error into chunks that
  tile the table in order, each within one archive chunk, within the wanted size unless only one of
  its frames has bytes, and each frame can be cut out of the chunk's bytes: together, in order, they are
  exactly those bytes.
\<close>

theorem chunks_cover_archive:
  assumes "validate_geometry m = Inr ()"
  shows "\<exists>chunks. compute_chunks (mc_frames m) chunk_size = Inr chunks
    \<and> chunks_tile 0 chunks (length (mc_frames m))
    \<and> (\<forall>c \<in> set chunks. chunk_good chunk_size (mc_frames m) c
        \<and> (\<forall>bytes. length bytes = unat (ck_byte_end c) - unat (ck_byte_start c) \<longrightarrow>
             (\<exists>ss. map_result (\<lambda>i. slice_archive_frame bytes c (mc_frames m ! i) i)
                    [ck_start_frame c..<ck_end_frame c] = Inr ss \<and> concat ss = bytes)))"
proof -
  let ?fs = "mc_frames m"
  have ok: "check_frames 0 None 0 ?fs = Inr ()" using assms by (auto simp: validate_geometry_def rbind_Inr)
  have cut: "\<exists>ss. map_result (\<lambda>i. slice_archive_frame bytes c (?fs ! i) i) [ck_start_frame c..<ck_end_frame c] = Inr ss
      \<and> concat ss = bytes"
    if "chunk_good chunk_size ?fs c" "length bytes = unat (ck_byte_end c) - unat (ck_byte_start c)" for c bytes
  proof -
    let ?n = "ck_end_frame c - ck_start_frame c"
    have "frames_span (ck_index c) (unat (ck_byte_start c)) (take ?n (drop (ck_start_frame c) ?fs)) (unat (ck_byte_end c))"
      "ck_start_frame c + ?n \<le> length ?fs" "ck_start_frame c + ?n = ck_end_frame c"
      using that(1) by (auto simp: chunk_good_def segment_ok_def)
    with slices_span[of "ck_index c" "unat (ck_byte_start c)" ?n "ck_start_frame c" ?fs "unat (ck_byte_end c)" c bytes]
    show ?thesis using that(2) unsigned_less[of "ck_byte_end c"] by simp
  qed
  show ?thesis
  proof (cases ?fs)
    case Nil
    then show ?thesis by (simp add: compute_chunks_def)
  next
    case (Cons f fs)
    let ?flen = "u64_of_u32 (compressed_len f)"
    obtain e where e: "checked_add_u64 (chunk_offset f) ?flen = Some e" "chunk_index f = 0" "chunk_offset f = 0"
      "check_frames 1 (Some (chunk_index f)) e fs = Inr ()"
      using ok Cons by (auto simp: rbind_Inr split: if_splits)
    have ue: "unat e = unat (compressed_len f)" using checked_add_u64_Some[OF e(1)] e(3) by simp
    have "segment_ok chunk_size (unat (0 :: 32 word)) (unat (0 :: 64 word)) (unat e) (drop 0 [f])"
      using segment_ok_single[of chunk_size f] ue e(2,3) by (simp add: frame_chunk_def)
    from chunk_loop_spec[OF e(4)[unfolded e(2)] _ _ refl _ this, where len = e and chunks = "[]"] ue
    obtain chunks start bs len ci pend where loop: "chunk_loop chunk_size [] 0 0 e 0 1 fs = Inr (chunks, start, bs, len, ci)"
      "unat bs + unat len = unat (pend :: 64 word)" "start < length (f # fs)"
      "segment_ok chunk_size ci (unat bs) (unat pend) (drop start (f # fs))"
      "chunks_tile 0 (rev chunks) start" "\<forall>c \<in> set chunks. chunk_good chunk_size (f # fs) c"
      by auto
    have pend: "checked_add_u64 bs len = Some pend"
      using checked_add_u64_ok[of bs len] loop(2) unsigned_less[of pend] unsigned_word_eqI[of _ pend] by fastforce
    have "chunk_loop chunk_size [] 0 0 0 0 0 (f # fs) = Inr (chunks, start, bs, len, ci)"
      using loop(1) e by (simp add: frame_chunk_def ok_or_def)
    moreover define final where "final = \<lparr>ck_index = ci, ck_start_frame = start, ck_end_frame = length ?fs,
        ck_byte_start = bs, ck_byte_end = pend\<rparr>"
    ultimately have run: "compute_chunks ?fs chunk_size = Inr (rev chunks @ [final])"
      using Cons e(2) pend by (simp add: compute_chunks_def frame_chunk_def ok_or_def)
    have good: "\<forall>c \<in> set (rev chunks @ [final]). chunk_good chunk_size ?fs c"
      using loop(3,4,6) Cons by (simp add: chunk_good_def final_def)
    have tile: "chunks_tile 0 (rev chunks @ [final]) (length ?fs)" using loop(5) by (simp add: final_def)
    show ?thesis using run tile good cut by blast
  qed
qed


theorem chunks_cover_archive_witness:
  "\<exists>chunks. compute_chunks (mc_frames ex_table) 1 = Inr chunks \<and> chunks_tile 0 chunks (length (mc_frames ex_table))"
  using chunks_cover_archive[OF ex_tables_ok(2), of 1] by blast

section \<open>Object headers\<close>

lemma or_push_bit_add:
  fixes sz :: "'a::len word"
  assumes "unat sz < 2 ^ shift" "unat sz + part * 2 ^ shift < 2 ^ LENGTH('a)"
  shows "sz OR push_bit shift (of_nat part) = of_nat (unat sz + part * 2 ^ shift)"
proof -
  have "unat (take_bit shift sz) = unat sz"
    using assms(1) by (simp add: unsigned_take_bit_eq take_bit_nat_eq_self)
  then have "take_bit shift sz = sz" by (rule unsigned_word_eqI)
  then have "sz AND push_bit shift (of_nat part) = 0"
    by (simp add: bit_eq_iff bit_simps) (metis bit_take_bit_iff linorder_not_le)
  then have "sz OR push_bit shift (of_nat part) = sz + push_bit shift (of_nat part)"
    by (simp add: disjunctive_add_eq_or)
  then show ?thesis by (simp add: push_bit_eq_mult)
qed
end
