(* ===== verification/Tags.thy ===== *)
theory Tags
  imports Extract Validation Sql
begin

text \<open>
  A repository's tags (\<open>src/rust/src/tags.rs\<close>): checking a downloaded tags artifact, the objects the kept tags
  need, and what a clone writes: \<open>packed-refs\<close> and a pack of the tag objects with its index.

  \<open>sha1\<close> and \<open>crc\<close> are the digests of the \<open>sha1\<close> and \<open>flate2\<close> crates and \<open>hex\<close> the encoder of the \<open>hex\<close> crate;
  reading the mirror's refs and objects is the work of \<open>gix\<close>.  An object id is a string of 20 bytes.
  The unstable sort by id is modelled by a stable one: it matters only for two different tag objects
  with one SHA-1.
\<close>

section \<open>Object ids\<close>

datatype tags_error = NotAnId string | EmptyTag | NoObjectLine | InvalidTag string | NoTarget string
  | ChainTooLong string | WrongPeel string | ListedTwice | PackedRefsExist | TooManyObjects

type_synonym 'a tresult = "tags_error + 'a"

definition nibble :: "char \<Rightarrow> nat option" where
  "nibble c = (if CHR ''0'' \<le> c \<and> c \<le> CHR ''9'' then Some (byte c - 48)
     else if CHR ''a'' \<le> c \<and> c \<le> CHR ''f'' then Some (byte c - 97 + 10) else None)"

fun nibbles :: "string \<Rightarrow> string option" where
  "nibbles [] = Some []"
| "nibbles [c] = Some []"
| "nibbles (c # d # cs) =
     (case (nibble c, nibble d, nibbles cs) of
        (Some h, Some l, Some rest) \<Rightarrow> Some (char_of (h * 16 + l) # rest)
      | _ \<Rightarrow> None)"

definition parse_id :: "string \<Rightarrow> string tresult" where
  "parse_id hex = (if length hex \<noteq> 40 then Inl (NotAnId hex) else ok_or (NotAnId hex) (nibbles hex))"

definition tag_object_id :: "(string \<Rightarrow> string) \<Rightarrow> string \<Rightarrow> string" where
  "tag_object_id sha1 data = sha1 (''tag '' @ show_nat (length data) @ [CHR 0x00] @ data)"

definition tag_target :: "string \<Rightarrow> string tresult" where
  "tag_target data =
     (let line = takeWhile (\<lambda>c. c \<noteq> CHR 0x0A) data in
      case strip_prefix line ''object '' of None \<Rightarrow> Inl NoObjectLine | Some i \<Rightarrow> parse_id i)"

section \<open>Checking an artifact\<close>

record Tag =
  tg_name :: string
  tg_object :: string
  tg_peeled :: string

record TagsArtifact =
  ta_tags :: "Tag list"
  ta_objects :: "string list"

record KeptTag =
  kt_name :: string
  kt_object :: string
  kt_target :: string
  kt_target_id :: string
  kt_chain :: "nat list"

record Kept =
  kp_tags :: "KeptTag list"
  kp_objects :: "(string \<times> string) list"

definition MAX_CHAIN :: nat where
  "MAX_CHAIN = 32"

text \<open>\<open>dedup_by\<close>: of neighbours with one id, the first stays.\<close>

fun dedup_ids :: "(string \<times> string) list \<Rightarrow> (string \<times> string) list" where
  "dedup_ids (a # b # xs) = (if fst a = fst b then dedup_ids (a # xs) else a # dedup_ids (b # xs))"
| "dedup_ids xs = xs"

definition index_of :: "(string \<times> string) list \<Rightarrow> string \<Rightarrow> nat option" where
  "index_of objects i = List.find (\<lambda>k. fst (objects ! k) = i) [0..<length objects]"

function peel :: "(string \<times> string) list \<Rightarrow> string \<Rightarrow> nat list \<Rightarrow> string \<Rightarrow> (nat list \<times> string) tresult" where
  "peel objects name chain current =
     (case index_of objects current of
        None \<Rightarrow> Inr (rev chain, current)
      | Some i \<Rightarrow>
          if length chain \<ge> MAX_CHAIN then Inl (ChainTooLong name)
          else rbind (tag_target (snd (objects ! i))) (\<lambda>n. peel objects name (i # chain) n))"
  by auto
termination by (relation "measure (\<lambda>(_, _, chain, _). MAX_CHAIN - length chain)") auto

declare peel.simps [simp del]

definition check_tag :: "(string \<times> string) list \<Rightarrow> Tag \<Rightarrow> KeptTag tresult" where
  "check_tag objects tag =
     (if validate_tag_name (tg_name tag) \<noteq> Inr () then Inl (InvalidTag (tg_name tag))
      else rbind (parse_id (tg_object tag)) (\<lambda>object.
        if tg_peeled tag = []
        then (if index_of objects object \<noteq> None then Inl (NoTarget (tg_name tag))
              else Inr \<lparr>kt_name = tg_name tag, kt_object = tg_object tag, kt_target = tg_object tag,
                        kt_target_id = object, kt_chain = []\<rparr>)
        else rbind (parse_id (tg_peeled tag)) (\<lambda>peeled.
             rbind (peel objects (tg_name tag) [] object) (\<lambda>(chain, current).
             if chain = [] \<or> current \<noteq> peeled then Inl (WrongPeel (tg_name tag))
             else Inr \<lparr>kt_name = tg_name tag, kt_object = tg_object tag, kt_target = tg_peeled tag,
                       kt_target_id = peeled, kt_chain = chain\<rparr>))))"

definition tags_check :: "(string \<Rightarrow> string) \<Rightarrow> TagsArtifact \<Rightarrow> Kept tresult" where
  "tags_check sha1 artifact =
     (let objects = dedup_ids (sort_key fst (map (\<lambda>data. (tag_object_id sha1 data, data)) (ta_objects artifact)))
      in rbind (map_result (check_tag objects) (ta_tags artifact)) (\<lambda>tags.
         let sorted_tags = sort_key kt_name tags in
         if distinct_adj (map kt_name sorted_tags) then Inr \<lparr>kp_tags = sorted_tags, kp_objects = objects\<rparr>
         else Inl ListedTwice))"

definition kept_retain :: "(KeptTag \<Rightarrow> bool) \<Rightarrow> Kept \<Rightarrow> Kept" where
  "kept_retain keep k = k\<lparr>kp_tags := filter keep (kp_tags k)\<rparr>"

definition kept_objects :: "Kept \<Rightarrow> (string \<times> string) list" where
  "kept_objects k = map (\<lambda>i. kp_objects k ! i) (remdups_adj (sort (concat (map kt_chain (kp_tags k)))))"

section \<open>The pack of tag objects\<close>

fun be_bytes :: "nat \<Rightarrow> nat \<Rightarrow> string" where
  "be_bytes 0 v = []"
| "be_bytes (Suc n) v = char_of (v div 256 ^ n mod 256) # be_bytes n v"

definition OBJ_TAG :: nat where
  "OBJ_TAG = 4"

fun header_loop :: "nat \<Rightarrow> nat \<Rightarrow> string" where
  "header_loop b sz = (if sz = 0 then [char_of b] else char_of (b + 128) # header_loop (sz mod 128) (sz div 128))"

declare header_loop.simps [simp del]

definition obj_header :: "nat \<Rightarrow> string" where
  "obj_header sz = header_loop (OBJ_TAG * 16 + sz mod 16) (sz div 16)"

fun stored_blocks :: "string list \<Rightarrow> string" where
  "stored_blocks [] = []"
| "stored_blocks (b # bs) =
     char_of (if bs = [] then 1 else 0 :: nat)
       # [char_of (length b mod 256), char_of (length b div 256)]
       @ [char_of ((65535 - length b) mod 256), char_of ((65535 - length b) div 256)] @ b @ stored_blocks bs"

function chunks :: "nat \<Rightarrow> string \<Rightarrow> string list" where
  "chunks n s = (if n = 0 \<or> s = [] then [] else take n s # chunks n (drop n s))"
  by auto
termination by (relation "measure (\<lambda>(n, s). length s)") auto

declare chunks.simps [simp del]

text \<open>Adler-32 in 32-bit arithmetic, reduced once per run of 5552 bytes.\<close>

definition adler_byte :: "char \<Rightarrow> 32 word \<times> 32 word \<Rightarrow> 32 word \<times> 32 word" where
  "adler_byte c st = (case st of (a, b) \<Rightarrow> let a' = a + of_nat (byte c) in (a', b + a'))"

definition adler_run :: "string \<Rightarrow> 32 word \<times> 32 word \<Rightarrow> 32 word \<times> 32 word" where
  "adler_run run st = (case fold adler_byte run st of (a, b) \<Rightarrow> (a mod 65521, b mod 65521))"

definition adler32 :: "string \<Rightarrow> 32 word" where
  "adler32 data = (case fold adler_run (chunks 5552 data) (1, 0) of (a, b) \<Rightarrow> push_bit 16 b OR a)"

definition stored_zlib :: "string \<Rightarrow> string" where
  "stored_zlib data = [char_of (120 :: nat), char_of (1 :: nat)]
     @ (if data = [] then map char_of [1, 0, 0, 255, 255 :: nat] else stored_blocks (chunks 65535 data))
     @ be_bytes 4 (unat (adler32 data))"

definition pack_entry :: "string \<Rightarrow> string" where
  "pack_entry data = obj_header (length data) @ stored_zlib data"

fun entry_offsets :: "nat \<Rightarrow> string list \<Rightarrow> nat list" where
  "entry_offsets start [] = []"
| "entry_offsets start (d # ds) = start # entry_offsets (start + length (pack_entry d)) ds"

fun cumulative :: "nat \<Rightarrow> nat list \<Rightarrow> nat list" where
  "cumulative acc [] = []"
| "cumulative acc (n # ns) = (acc + n) # cumulative (acc + n) ns"

definition fanout :: "string list \<Rightarrow> nat list" where
  "fanout ids = map (\<lambda>k. length (filter (\<lambda>i. byte (hd i) = k) ids)) [0..<256]"

text \<open>The offset words, and the large offsets they point to.\<close>

fun small_offsets :: "nat \<Rightarrow> nat list \<Rightarrow> nat list" where
  "small_offsets k [] = []"
| "small_offsets k (x # xs) =
     (if x < 2 ^ 31 then x # small_offsets k xs else (2 ^ 31 OR k) # small_offsets (k + 1) xs)"

definition pack_body :: "(string \<times> string) list \<Rightarrow> string" where
  "pack_body objects = ''PACK'' @ be_bytes 4 2 @ be_bytes 4 (length objects)
     @ concat (map (\<lambda>(_, data). pack_entry data) objects)"

definition tag_pack ::
    "(string \<Rightarrow> string) \<Rightarrow> (string \<Rightarrow> nat) \<Rightarrow> (string \<Rightarrow> string) \<Rightarrow> (string \<times> string) list
       \<Rightarrow> (string \<times> string \<times> string) tresult" where
  "tag_pack sha1 crc hex objects =
     (let ids = map fst objects; datas = map snd objects;
          body = pack_body objects; checksum = sha1 body;
          offsets = entry_offsets 12 datas;
          large = filter (\<lambda>x. \<not> x < 2 ^ 31) offsets;
          idx = idx_header @ concat (map (be_bytes 4) (cumulative 0 (fanout ids)))
            @ concat ids @ concat (map (\<lambda>d. be_bytes 4 (crc (pack_entry d))) datas)
            @ concat (map (be_bytes 4) (small_offsets 0 offsets))
            @ concat (map (be_bytes 8) large) @ checksum
      in if length objects \<ge> 2 ^ 32 \<or> length large > 2 ^ 32 then Inl TooManyObjects
         else Inr (body @ checksum, idx @ sha1 idx, hex checksum))"

section \<open>Writing refs\<close>

definition packed_refs :: "(string \<times> string) list \<Rightarrow> string" where
  "packed_refs refs = ''# pack-refs with: sorted '' @ [CHR 0x0A]
     @ concat (map (\<lambda>(name, i). i @ '' '' @ name @ [CHR 0x0A]) refs)"

definition tags_refs :: "Kept \<Rightarrow> (string \<times> string) list \<Rightarrow> (string \<times> string) list" where
  "tags_refs kept remotes = map (\<lambda>(name, commit). (''refs/remotes/origin/'' @ name, commit)) remotes
     @ map (\<lambda>t. (''refs/tags/'' @ kt_name t, kt_object t)) (kp_tags kept)"

text \<open>What \<open>write\<close> puts into the git directory: the pack and index, if any, and \<open>packed-refs\<close>, if any.\<close>

definition tags_write ::
    "(string \<Rightarrow> string) \<Rightarrow> (string \<Rightarrow> nat) \<Rightarrow> (string \<Rightarrow> string) \<Rightarrow> bool \<Rightarrow> Kept \<Rightarrow> (string \<times> string) list
       \<Rightarrow> (string \<Rightarrow> bool) \<Rightarrow> ((string \<times> string \<times> string) option \<times> string option) tresult" where
  "tags_write sha1 crc hex packed_refs_exists kept remotes present =
     (if kp_tags kept = [] \<and> remotes = [] then Inr (None, None)
      else if packed_refs_exists then Inl PackedRefsExist
      else (let objects = filter (\<lambda>(i, _). \<not> present i) (kept_objects kept) in
            if objects = [] then Inr (None, Some (packed_refs (tags_refs kept remotes)))
            else rbind (tag_pack sha1 crc hex objects) (\<lambda>pack.
                 Inr (Some pack, Some (packed_refs (tags_refs kept remotes))))))"

definition target_refs :: "Kept \<Rightarrow> (string \<times> string) list" where
  "target_refs kept = map (\<lambda>t. (''refs/tags/'' @ kt_name t, kt_target t)) (kp_tags kept)"

end
