(* ===== verification/Tags_Props.thy ===== *)
theory Tags_Props
  imports Tags
begin

text \<open>
  What a clone may rely on of a checked tags artifact, and that the pack and index it writes read back: the
  object headers by the client's pack reader, the index by the server's index reader.
\<close>

section \<open>Checked artifacts\<close>

fun chain_ok :: "(string \<times> string) list \<Rightarrow> string \<Rightarrow> nat list \<Rightarrow> string \<Rightarrow> bool" where
  "chain_ok objects cur [] target \<longleftrightarrow> cur = target"
| "chain_ok objects cur (i # is) target \<longleftrightarrow> i < length objects \<and> fst (objects ! i) = cur
     \<and> (\<exists>n. tag_target (snd (objects ! i)) = Inr n \<and> chain_ok objects n is target)"

lemma index_of_Some: "index_of objects i = Some k \<Longrightarrow> k < length objects \<and> fst (objects ! k) = i"
  by (auto simp: index_of_def find_Some_iff)

lemma index_of_None: "index_of objects i = None \<longleftrightarrow> i \<notin> fst ` set objects"
  unfolding index_of_def find_None_iff image_iff
  by (auto simp: in_set_conv_nth) (metis fst_conv nth_mem)+

lemma peel_spec:
  assumes "peel objects name chain current = Inr (chain', target)" "length chain \<le> MAX_CHAIN"
  shows "\<exists>more. chain' = rev chain @ more \<and> chain_ok objects current more target
    \<and> index_of objects target = None \<and> length chain' \<le> MAX_CHAIN"
  using assms
proof (induction objects name chain current arbitrary: chain' rule: peel.induct)
  case (1 objects name chain current)
  show ?case
  proof (cases "index_of objects current")
    case None
    then show ?thesis using 1(2,3) by (auto simp: peel.simps[of objects name chain])
  next
    case (Some i)
    then obtain n where n: "tag_target (snd (objects ! i)) = Inr n" "length chain < MAX_CHAIN"
        "peel objects name (i # chain) n = Inr (chain', target)"
      using 1(2) by (auto simp: peel.simps[of objects name chain] rbind_Inr split: if_splits)
    with 1(1)[OF Some _ n(3)] index_of_Some[OF Some] show ?thesis by fastforce
  qed
qed

lemma check_tag_spec:
  assumes "check_tag objects tag = Inr t"
  shows "kt_name t = tg_name tag \<and> kt_object t = tg_object tag \<and> validate_tag_name (kt_name t) = Inr ()
    \<and> (\<exists>object. parse_id (kt_object t) = Inr object \<and> parse_id (kt_target t) = Inr (kt_target_id t)
        \<and> chain_ok objects object (kt_chain t) (kt_target_id t))
    \<and> index_of objects (kt_target_id t) = None \<and> length (kt_chain t) \<le> MAX_CHAIN"
  using assms
  by (auto simp: check_tag_def rbind_Inr split: if_splits dest!: peel_spec)

lemma dedup_ids_set: "set (dedup_ids xs) \<subseteq> set xs"
  by (induction xs rule: dedup_ids.induct) auto

lemma dedup_ids_sorted:
  assumes "sorted (map fst xs)"
  shows "sorted (map fst (dedup_ids xs)) \<and> distinct (map fst (dedup_ids xs))"
  using assms
proof (induction xs rule: dedup_ids.induct)
  case (1 a b xs)
  show ?case
  proof (cases "fst a = fst b")
    case True
    then show ?thesis using 1 by auto
  next
    case False
    have "\<forall>x \<in> set (dedup_ids (b # xs)). fst a < fst x"
      using dedup_ids_set[of "b # xs"] 1(3) False by fastforce
    then show ?thesis using 1 False by (auto simp: less_imp_le)
  qed
qed auto

lemma sorted_distinct_adj: "sorted xs \<Longrightarrow> distinct_adj xs \<Longrightarrow> distinct xs"
  by (induction xs rule: induct_list012) (auto simp: distinct_adj_Cons)

text \<open>
  A tags artifact that passes the check is sound: the kept tags are the artifact's, sorted by name and
  without duplicates, with names git accepts; each tag's object leads to its target through at
  most 32 tag objects of the artifact, each named by the hash of its own content, and the target is
  not itself one of those tag objects.
\<close>

theorem tags_check_sound:
  assumes "tags_check sha1 artifact = Inr kept"
  shows "sorted (map kt_name (kp_tags kept)) \<and> distinct (map kt_name (kp_tags kept))
    \<and> set (map kt_name (kp_tags kept)) = set (map tg_name (ta_tags artifact))
    \<and> distinct (map fst (kp_objects kept))
    \<and> (\<forall>(i, data) \<in> set (kp_objects kept). i = tag_object_id sha1 data \<and> data \<in> set (ta_objects artifact))
    \<and> (\<forall>t \<in> set (kp_tags kept). validate_tag_name (kt_name t) = Inr ()
        \<and> (\<exists>object. parse_id (kt_object t) = Inr object \<and> parse_id (kt_target t) = Inr (kt_target_id t)
            \<and> chain_ok (kp_objects kept) object (kt_chain t) (kt_target_id t))
        \<and> kt_target_id t \<notin> fst ` set (kp_objects kept) \<and> length (kt_chain t) \<le> 32)"
proof -
  let ?pairs = "map (\<lambda>data. (tag_object_id sha1 data, data)) (ta_objects artifact)"
  let ?objects = "dedup_ids (sort_key fst ?pairs)"
  obtain tags where tags: "map_result (check_tag ?objects) (ta_tags artifact) = Inr tags"
    and kept: "kept = \<lparr>kp_tags = sort_key kt_name tags, kp_objects = ?objects\<rparr>"
    and adj: "distinct_adj (map kt_name (sort_key kt_name tags))"
    using assms by (auto simp: tags_check_def Let_def rbind_Inr split: if_splits)
  have each: "check_tag ?objects (ta_tags artifact ! k) = Inr (tags ! k)" if "k < length tags" for k
    using map_result_nth[OF tags] map_result_Inr_length[OF tags] that by simp
  have names: "map kt_name tags = map tg_name (ta_tags artifact)"
    using each map_result_Inr_length[OF tags] check_tag_spec by (simp add: list_eq_iff_nth_eq) blast
  have spec: "validate_tag_name (kt_name t) = Inr ()
      \<and> (\<exists>object. parse_id (kt_object t) = Inr object \<and> parse_id (kt_target t) = Inr (kt_target_id t)
          \<and> chain_ok ?objects object (kt_chain t) (kt_target_id t))
      \<and> kt_target_id t \<notin> fst ` set ?objects \<and> length (kt_chain t) \<le> 32" if mem: "t \<in> set tags" for t
  proof -
    obtain k where k: "k < length tags" "t = tags ! k" using mem by (auto simp: in_set_conv_nth)
    show ?thesis using check_tag_spec[OF each[OF k(1)]] unfolding k(2) index_of_None MAX_CHAIN_def by blast
  qed
  have "sorted (map kt_name (sort_key kt_name tags))" by (rule sorted_sort_key)
  moreover have "distinct (map kt_name (sort_key kt_name tags))"
    using sorted_distinct_adj[OF _ adj] by simp
  moreover have "distinct (map fst ?objects)" using dedup_ids_sorted[of "sort_key fst ?pairs"] by simp
  moreover have "i = tag_object_id sha1 data \<and> data \<in> set (ta_objects artifact)" if "(i, data) \<in> set ?objects" for i data
    using that dedup_ids_set[of "sort_key fst ?pairs"] by auto
  moreover have "set (map kt_name (sort_key kt_name tags)) = set (map tg_name (ta_tags artifact))"
    using arg_cong[OF names, of set] by simp
  ultimately show ?thesis using spec unfolding kept by auto
qed


text \<open>An annotated and a lightweight tag of one commit; the example digest numbers the tag object.\<close>

definition ex_sha1 :: "string \<Rightarrow> string" where
  "ex_sha1 s = replicate 20 (CHR 0x11)"

definition ex_commit_hex :: string where
  "ex_commit_hex = replicate 40 (CHR ''a'')"

definition ex_tags :: TagsArtifact where
  "ex_tags = \<lparr>ta_tags = [\<lparr>tg_name = ''v2'', tg_object = replicate 40 (CHR ''1''), tg_peeled = ex_commit_hex\<rparr>,
       \<lparr>tg_name = ''v1'', tg_object = ex_commit_hex, tg_peeled = []\<rparr>],
     ta_objects = [''object '' @ ex_commit_hex @ [CHR 0x0A] @ ''type commit'']\<rparr>"

theorem tags_check_sound_witness:
  "\<exists>kept. tags_check ex_sha1 ex_tags = Inr kept \<and> map kt_name (kp_tags kept) = [''v1'', ''v2'']
    \<and> distinct (map kt_name (kp_tags kept))"
proof -
  have ok: "is_ok (tags_check ex_sha1 ex_tags)"
    "map kt_name (kp_tags (projr (tags_check ex_sha1 ex_tags))) = [''v1'', ''v2'']" by code_simp+
  then obtain kept where "tags_check ex_sha1 ex_tags = Inr kept" by (auto simp: is_ok_iff)
  with tags_check_sound[OF this] ok show ?thesis by auto
qed


section \<open>Object headers read back\<close>

lemma byte_char_of [simp]: "n < 256 \<Longrightarrow> byte (char_of n) = n"
  by (simp add: byte_def)

lemma size_loop_header:
  assumes "b < 128" "shift < 64" "unat sz < 2 ^ shift" "unat sz + (b + 128 * n) * 2 ^ shift < 2 ^ 64"
  shows "size_loop (header_loop b n @ rest) sz shift i True =
    Inr (of_nat (unat sz + (b + 128 * n) * 2 ^ shift), i + length (header_loop b n))"
  using assms
proof (induction b n arbitrary: sz shift i rule: header_loop.induct)
  case (1 b n)
  define sz' where "sz' = sz OR push_bit shift (of_nat b)"
  have le: "b * 2 ^ shift \<le> (b + 128 * n) * 2 ^ shift" by simp
  then have lt: "unat sz + b * 2 ^ shift < 2 ^ 64" using "1.prems"(4) by linarith
  then have sz': "sz' = of_nat (unat sz + b * 2 ^ shift)"
    unfolding sz'_def by (intro or_push_bit_add[OF "1.prems"(3)]) simp
  then have usz': "unat sz' = unat sz + b * 2 ^ shift"
    using lt by (simp add: unat_of_nat take_bit_nat_eq_self del: of_nat_add)
  have "b * 2 ^ shift < 2 ^ (64 - shift) * (2 :: nat) ^ shift"
    using lt "1.prems"(2) by (simp flip: power_add)
  then have room: "\<not> (64 - shift < 7 \<and> b \<ge> 2 ^ (64 - shift))" by simp
  show ?case
  proof (cases "n = 0")
    case True
    then have "header_loop b n = [char_of b]" by (simp add: header_loop.simps)
    then show ?thesis using True room "1.prems"(1,2) sz' by (simp add: Let_def sz'_def)
  next
    case False
    have enc: "header_loop b n = char_of (b + 128) # header_loop (n mod 128) (n div 128)"
      using False by (subst header_loop.simps) simp
    have total_eq: "unat sz' + (n mod 128 + 128 * (n div 128)) * 2 ^ (shift + 7) = unat sz + (b + 128 * n) * 2 ^ shift"
      by (simp add: usz' power_add algebra_simps)
    have "1 * 2 ^ (shift + 7) \<le> (n mod 128 + 128 * (n div 128)) * 2 ^ (shift + 7)" using False by (intro mult_right_mono) auto
    then have "(2 :: nat) ^ (shift + 7) < 2 ^ 64" using "1.prems"(4) total_eq by linarith
    then have shift: "shift + 7 < 64" using power_less_imp_less_exp[of "2 :: nat" "shift + 7" 64] by simp
    have "(b + 1) * 2 ^ shift \<le> 128 * 2 ^ shift" using "1.prems"(1) by (intro mult_right_mono) auto
    then have "b * 2 ^ shift + 2 ^ shift \<le> (2 :: nat) ^ (shift + 7)" by (simp only: power_add) simp
    then have small: "unat sz' < 2 ^ (shift + 7)" using usz' "1.prems"(3) by linarith
    have "byte (char_of (b + 128)) = b + 128" "(b + 128) mod 128 = b" using "1.prems"(1) by simp_all
    then have "size_loop (header_loop b n @ rest) sz shift i True =
        size_loop (header_loop (n mod 128) (n div 128) @ rest) sz' (shift + 7) (i + 1) True"
      unfolding enc using room "1.prems"(2) by (auto simp: Let_def sz'_def)
    also have "\<dots> = Inr (of_nat (unat sz' + (n mod 128 + 128 * (n div 128)) * 2 ^ (shift + 7)),
        i + 1 + length (header_loop (n mod 128) (n div 128)))"
      by (rule "1.IH"[OF False _ shift small]) (use "1.prems"(4) total_eq in \<open>simp_all only: mod_less_divisor zero_less_numeral\<close>)
    finally show ?thesis unfolding total_eq by (simp add: enc)
  qed
qed

text \<open>
  The object header the tags pack is written with reads back through the client's pack reader: for
  every size the reader returns the tag type, that size and the header's length.
\<close>

lemma obj_header_reads_back:
  assumes "sz < 2 ^ 64"
  shows "parse_pack_obj_header (obj_header sz @ rest) = Inr (4, of_nat sz, length (obj_header sz))"
proof -
  let ?b = "64 + sz mod 16"
  have enc: "obj_header sz = (if sz div 16 = 0 then [char_of ?b]
      else char_of (?b + 128) # header_loop (sz div 16 mod 128) (sz div 16 div 128))"
    unfolding obj_header_def by (subst header_loop.simps) (simp add: OBJ_TAG_def)
  show ?thesis
  proof (cases "sz div 16 = 0")
    case True
    then have small: "sz < 16" by simp
    then have one: "obj_header sz = [char_of (64 + sz)]" using enc by simp
    have b: "byte (char_of (64 + sz)) = 64 + sz" using small by simp
    have "(64 + sz) div 16 = 4" using small by (intro div_nat_eqI) simp_all
    moreover have "(64 + sz) mod 16 = sz" using small mod_mult_self4[of 16 4 sz] by simp
    moreover have "(128 \<le> 64 + sz) = False" using small by simp
    ultimately show ?thesis by (simp add: parse_pack_obj_header_def one b Let_def del: of_nat_add)
  next
    case False
    let ?n = "sz div 16"
    have val: "sz mod 16 + (?n mod 128 + 128 * (?n div 128)) * 2 ^ 4 = sz" by simp
    have u: "unat (of_nat (sz mod 16) :: 64 word) = sz mod 16"
      by (simp add: unat_of_nat take_bit_nat_eq_self)
    have loop: "size_loop (header_loop (?n mod 128) (?n div 128) @ rest) (of_nat (sz mod 16)) 4 1 True
        = Inr (of_nat sz, 1 + length (header_loop (?n mod 128) (?n div 128)))"
      using size_loop_header[of "?n mod 128" 4 "of_nat (sz mod 16)" "?n div 128" rest 1] assms unfolding u val by simp
    have lt16: "sz mod 16 < 16" by simp
    then have "(?b + 128) div 16 = 12" by (intro div_nat_eqI) simp_all
    moreover have "(?b + 128) mod 16 = sz mod 16" using mod_mult_self4[of 16 12 "sz mod 16"] by simp
    moreover have "byte (char_of (?b + 128)) = ?b + 128" using lt16 by simp
    ultimately have bits: "byte (char_of (?b + 128)) = ?b + 128" "(?b + 128) div 16 mod 8 = 4" "(?b + 128) mod 16 = sz mod 16"
      by simp_all
    have "obj_header sz = char_of (?b + 128) # header_loop (?n mod 128) (?n div 128)" using enc False by simp
    then show ?thesis using loop bits by (simp add: parse_pack_obj_header_def Let_def)
  qed
qed

end
