(* ===== verification/Tag_Pack.thy ===== *)
theory Tag_Pack
  imports Tags_Props Pack_Props
begin

text \<open>
  The pack a clone writes for its tags reads back (\<open>src/rust/src/tags.rs\<close>): its index through the reader of
  \<open>src/rust/src/pack.rs\<close>, its stored streams through a reference inflater for stored blocks, with the checksum of
  RFC 1950.
\<close>

section \<open>Fixed-width fields\<close>

lemma length_be_bytes [simp]: "length (be_bytes n v) = n"
  by (induction n) auto

lemma byte_char_of_mod: "byte (char_of n) = n mod 256"
  by (simp add: byte_def)

lemma byte_less: "byte c < 256"
  using of_char_mod_256[of c, where 'a = nat] mod_less_divisor[of 256 "byte c"] by (simp add: byte_def)

lemma fold_be_bytes: "fold (\<lambda>c acc. acc * 256 + byte c) (be_bytes n v) acc = acc * 256 ^ n + v mod 256 ^ n"
proof (induction n arbitrary: acc)
  case (Suc n)
  have "v mod (256 ^ n * 256) = 256 ^ n * (v div 256 ^ n mod 256) + v mod 256 ^ n" by (rule mod_mult2_eq)
  then show ?case using Suc by (simp add: algebra_simps byte_char_of_mod)
qed simp

lemma be_val_be_bytes: "v < 256 ^ n \<Longrightarrow> be_val (be_bytes n v) = v"
  by (simp add: be_val_def fold_be_bytes)

lemma get_range_mid: "length a = i \<Longrightarrow> length b = k \<Longrightarrow> get_range (a @ b @ c) i (i + k) = Some b"
  by (simp add: get_range_def)

lemma length_blocks: "(\<And>x. x \<in> set xs \<Longrightarrow> length (f x) = k) \<Longrightarrow> length (concat (map f xs)) = length xs * k"
  by (induction xs) auto

lemma get_range_block:
  assumes "i < length xs" "\<And>x. x \<in> set xs \<Longrightarrow> length (f x) = k"
  shows "get_range (a @ concat (map f xs) @ c) (length a + i * k) (length a + i * k + k) = Some (f (xs ! i))"
proof -
  have "concat (map f xs) = concat (map f (take i xs)) @ f (xs ! i) @ concat (map f (drop (Suc i) xs))"
    using assms(1) by (subst id_take_nth_drop[OF assms(1)]) simp
  moreover have "length (concat (map f (take i xs))) = i * k"
    using assms by (subst length_blocks[where k = k]) (auto dest: in_set_takeD)
  ultimately show ?thesis
    using get_range_mid[of "a @ concat (map f (take i xs))" "length a + i * k" "f (xs ! i)" k
        "concat (map f (drop (Suc i) xs)) @ c"] assms by simp
qed

lemma chunks_exact_concat:
  assumes "\<And>x. x \<in> set xs \<Longrightarrow> length x = n" "n > 0"
  shows "chunks_exact n (concat xs) = xs"
  using assms(1)
proof (induction xs)
  case Nil
  then show ?case using assms(2) by (simp add: chunks_exact.simps)
next
  case (Cons x xs)
  then show ?case using assms(2) by (subst chunks_exact.simps) simp
qed

section \<open>The index\<close>

lemma length_cumulative [simp]: "length (cumulative acc ns) = length ns"
  by (induction ns arbitrary: acc) auto

lemma cumulative_nth: "i < length ns \<Longrightarrow> cumulative acc ns ! i = acc + sum_list (take (Suc i) ns)"
  by (induction ns arbitrary: acc i) (auto simp: nth_Cons split: nat.splits)

lemma sum_count:
  assumes "\<And>x. g x < (n :: nat)"
  shows "(\<Sum>k \<in> {0..<n}. length (filter (\<lambda>x. g x = k) xs)) = length xs"
proof (induction xs)
  case (Cons x xs)
  have "(\<Sum>k \<in> {0..<n}. length (filter (\<lambda>y. g y = k) (x # xs)))
      = (\<Sum>k \<in> {0..<n}. (if k = g x then 1 else 0) + length (filter (\<lambda>y. g y = k) xs))"
    by (rule sum.cong) auto
  then show ?case using assms[of x] Cons by (simp add: sum.distrib)
qed simp

lemma fanout_total: "sum_list (fanout ids) = length ids"
  by (simp add: fanout_def interv_sum_list_conv_sum_set_nat sum_count byte_less)

lemma length_entry_offsets [simp]: "length (entry_offsets s ds) = length ds"
  by (induction ds arbitrary: s) auto

definition entry_len :: "string \<Rightarrow> nat" where
  "entry_len d = length (pack_entry d)"

lemma entry_offsets_nth: "i < length ds \<Longrightarrow> entry_offsets s ds ! i = s + sum_list (map entry_len (take i ds))"
  by (induction ds arbitrary: s i) (auto simp: nth_Cons entry_len_def split: nat.splits)

lemma entry_offsets_ge: "x \<in> set (entry_offsets s ds) \<Longrightarrow> s \<le> x \<and> x \<le> s + sum_list (map entry_len ds)"
  by (induction ds arbitrary: s) (fastforce simp: entry_len_def)+

lemma entry_offsets_sorted: "sorted (entry_offsets s ds)"
  by (induction ds arbitrary: s) (auto dest: entry_offsets_ge)

lemma gaps_entry_offsets:
  "gaps (entry_offsets s ds) (s + sum_list (map entry_len ds)) = Inr (map entry_len ds)"
proof (induction ds arbitrary: s)
  case (Cons d ds)
  then show ?case using Cons[of "s + entry_len d"] by (cases ds) (simp_all add: entry_len_def ac_simps)
qed simp

lemma length_small_offsets [simp]: "length (small_offsets k xs) = length xs"
  by (induction xs arbitrary: k) auto

lemma small_offsets_nth:
  "i < length xs \<Longrightarrow> small_offsets k xs ! i = (if xs ! i < 2 ^ 31 then xs ! i
     else 2 ^ 31 OR (k + length (filter (\<lambda>x. \<not> x < 2 ^ 31) (take i xs))))"
  by (induction xs arbitrary: k i) (auto simp: nth_Cons split: nat.splits)

lemma filter_nth_rank:
  "i < length xs \<Longrightarrow> P (xs ! i) \<Longrightarrow> filter P xs ! length (filter P (take i xs)) = xs ! i
     \<and> length (filter P (take i xs)) < length (filter P xs)"
  by (induction xs arbitrary: i) (auto simp: nth_Cons split: nat.splits)

lemma or_above:
  assumes "k < 2 ^ 31"
  shows "(2 ^ 31 OR k :: nat) = 2 ^ 31 + k"
proof -
  have "take_bit 31 k = k" using assms by (simp only: take_bit_nat_eq_self)
  then have "bit k n \<Longrightarrow> n < 31" for n by (metis bit_take_bit_iff)
  then have "\<not> bit (2 ^ 31 AND k) n" for n by (metis bit_and_iff bit_exp_iff less_irrefl)
  then have "2 ^ 31 AND k = 0" by (intro bit_eqI) (simp only: bit_0_eq bot_apply bot_bool_def)
  then show ?thesis by (simp only: disjunctive_add_eq_or)
qed

lemma length_pack_body:
  "length (pack_body objects) = 12 + sum_list (map entry_len (map snd objects))"
  by (simp add: pack_body_def length_concat entry_len_def comp_def split_def)

text \<open>The parts of the index before its checksums, and the words of the offset table.\<close>

definition idx_prefix :: "string list \<Rightarrow> string" where
  "idx_prefix ids = idx_header @ concat (map (be_bytes 4) (cumulative 0 (fanout ids)))"

lemma length_idx_prefix: "length (idx_prefix ids) = 8 + 256 * 4"
  by (simp add: idx_prefix_def idx_header_def fanout_def length_blocks[where k = 4])

lemma idx_ids_read:
  assumes "\<And>i. i \<in> set ids \<Longrightarrow> length i = 20" "length ids < 2 ^ 32"
  shows "idx_object_ids hex (idx_prefix ids @ concat ids @ rest) = Inr (map hex ids)"
proof -
  let ?idx = "idx_prefix ids @ concat ids @ rest"
  let ?cum = "cumulative 0 (fanout ids)"
  have cum: "length ?cum = 256" "?cum ! 255 = length ids"
    using cumulative_nth[of 255 "fanout ids" 0] fanout_total[of ids] by (simp_all add: fanout_def)
  have "get_range (idx_header @ concat (map (be_bytes 4) ?cum) @ concat ids @ rest)
      (length idx_header + 255 * 4) (length idx_header + 255 * 4 + 4) = Some (be_bytes 4 (length ids))"
    using get_range_block[of 255 ?cum "be_bytes 4" 4 idx_header "concat ids @ rest"] cum by simp
  then have "get_range ?idx 1028 1032 = Some (be_bytes 4 (length ids))"
    by (simp add: idx_prefix_def idx_header_def)
  then have count: "be_val (take 4 (drop 1028 ?idx)) = length ids"
    using be_val_be_bytes[of "length ids" 4] assms(2) by (auto simp: get_range_def split: if_splits)
  have names: "get_range ?idx 1032 (1032 + length ids * 20) = Some (concat ids)"
    using length_blocks[of ids "\<lambda>x. x" 20] assms(1)
    by (intro get_range_mid) (simp_all add: length_idx_prefix)
  have head: "take 8 ?idx = idx_header" by (simp add: idx_prefix_def idx_header_def)
  show ?thesis
    unfolding idx_object_ids_def Let_def
    using count names head chunks_exact_concat[of ids 20] assms(1)
    by (simp add: length_idx_prefix)
qed

abbreviation large_offsets :: "nat list \<Rightarrow> nat list" where
  "large_offsets offs \<equiv> filter (\<lambda>x. \<not> x < 2 ^ 31) offs"

definition offset_tables :: "nat list \<Rightarrow> string" where
  "offset_tables offs = concat (map (be_bytes 4) (small_offsets 0 offs)) @ concat (map (be_bytes 8) (large_offsets offs))"

lemma idx_offset_read:
  assumes "i < length offs" "\<And>x. x \<in> set offs \<Longrightarrow> x < 2 ^ 64" "length offs < 2 ^ 31"
  shows "idx_offset (pre @ offset_tables offs @ post) (length pre) (length pre + length offs * 4) i = Inr (offs ! i)"
proof -
  let ?idx = "pre @ offset_tables offs @ post"
  let ?small = "concat (map (be_bytes 4) (small_offsets 0 offs))"
  let ?w = "small_offsets 0 offs ! i"
  have word: "get_range ?idx (length pre + i * 4) (length pre + i * 4 + 4) = Some (be_bytes 4 ?w)"
    using get_range_block[of i "small_offsets 0 offs" "be_bytes 4" 4 pre] assms(1) by (simp add: offset_tables_def)
  show ?thesis
  proof (cases "offs ! i < 2 ^ 31")
    case True
    then have "?w = offs ! i" by (simp only: small_offsets_nth[OF assms(1)] if_True)
    moreover have "be_val (be_bytes 4 (offs ! i)) = offs ! i" using True by (intro be_val_be_bytes) simp
    ultimately show ?thesis using word True by (simp add: idx_offset_def)
  next
    case False
    define k where "k = length (large_offsets (take i offs))"
    have k: "large_offsets offs ! k = offs ! i" "k < length (large_offsets offs)"
      using filter_nth_rank[OF assms(1), of "\<lambda>x. \<not> x < 2 ^ 31"] False by (simp_all add: k_def)
    have "length (large_offsets offs) \<le> length offs" by (rule length_filter_le)
    then have small: "k < 2 ^ 31" using k(2) assms(3) by linarith
    then have w: "?w = 2 ^ 31 + k" using False by (simp only: small_offsets_nth[OF assms(1)] k_def add_0 or_above if_False)
    have val: "be_val (be_bytes 4 (2 ^ 31 + k)) = 2 ^ 31 + k" using small by (intro be_val_be_bytes) simp
    have "get_range ?idx (length (pre @ ?small) + k * 8) (length (pre @ ?small) + k * 8 + 8) = Some (be_bytes 8 (offs ! i))"
      using get_range_block[of k "large_offsets offs" "be_bytes 8" 8 "pre @ ?small"] k by (simp add: offset_tables_def)
    moreover have "length ?small = length offs * 4" using length_blocks[of "small_offsets 0 offs" "be_bytes 4" 4] by simp
    ultimately have large: "get_range ?idx (length pre + length offs * 4 + k * 8) (length pre + length offs * 4 + k * 8 + 8)
        = Some (be_bytes 8 (offs ! i))" by simp
    have "offs ! i < 256 ^ 8" using assms(1,2) nth_mem by fastforce
    then have big: "be_val (be_bytes 8 (offs ! i)) = offs ! i" by (rule be_val_be_bytes)
    have "(2 ^ 31 + k) mod 2 ^ 31 = k" "\<not> 2 ^ 31 + k < 2 ^ 31" using small by simp_all
    then show ?thesis unfolding idx_offset_def Let_def word w using val large big by (simp only: option.case if_False)
  qed
qed

lemma sort_key_offsets:
  assumes "sorted offs"
  shows "sort_key (\<lambda>i. offs ! i) [0..<length offs] = [0..<length offs]"
  using assms by (intro sort_key_id_if_sorted) (simp add: map_nth)

lemma fold_update_all:
  "fold (\<lambda>(i, g) sizes. sizes[i := g]) (zip [0..<length gs] gs) (replicate (length gs) 0) = gs"
proof (rule nth_equalityI)
  fix i
  assume "i < length (fold (\<lambda>(i, g) sizes. sizes[i := g]) (zip [0..<length gs] gs) (replicate (length gs) 0))"
  then show "fold (\<lambda>(i, g) sizes. sizes[i := g]) (zip [0..<length gs] gs) (replicate (length gs) 0) ! i = gs ! i"
    using fold_update_nth[of "zip [0..<length gs] gs" i "replicate (length gs) 0"] by simp
qed simp

text \<open>
  The index written beside the pack of tag objects reads back: the index reader finds every object id,
  in order, with exactly the bytes its entry takes in the pack.
\<close>

theorem tag_index_reads_back:
  assumes "\<And>i data. (i, data) \<in> set objects \<Longrightarrow> length i = 20" "length objects < 2 ^ 31"
    "length (pack_body objects) < 2 ^ 64" "\<And>s. length (sha1 s) = 20"
  shows "\<exists>pack idx name. tag_pack sha1 crc hex objects = Inr (pack, idx, name)
    \<and> take (length (pack_body objects)) pack = pack_body objects
    \<and> idx_object_sizes hex idx (length pack) = Inr (map (\<lambda>(i, data). (hex i, length (pack_entry data))) objects)"
proof -
  define ids datas offs where "ids = map fst objects" and "datas = map snd objects" and "offs = entry_offsets 12 datas"
  define crcs where "crcs = concat (map (\<lambda>d. be_bytes 4 (crc (pack_entry d))) datas)"
  define pre where "pre = idx_prefix ids @ concat ids @ crcs"
  define idx where "idx = pre @ offset_tables offs @ sha1 (pack_body objects)"
  define pack where "pack = pack_body objects @ sha1 (pack_body objects)"
  have n: "length ids = length objects" "length datas = length objects" "length offs = length objects"
    by (simp_all add: ids_def datas_def offs_def)
  have "length (large_offsets offs) \<le> length objects" using length_filter_le[of _ offs] n by metis
  then have made: "tag_pack sha1 crc hex objects = Inr (pack, idx @ sha1 idx, hex (sha1 (pack_body objects)))"
    using assms(2) unfolding tag_pack_def Let_def idx_def pre_def crcs_def idx_prefix_def offset_tables_def pack_def offs_def datas_def ids_def
    by simp
  have ids20: "\<And>i. i \<in> set ids \<Longrightarrow> length i = 20" using assms(1) by (auto simp: ids_def)
  have "length crcs = length objects * 4" using length_blocks[of datas "\<lambda>d. be_bytes 4 (crc (pack_entry d))" 4] n by (simp add: crcs_def)
  moreover have "length (concat ids) = length objects * 20" using length_blocks[of ids "\<lambda>x. x" 20] ids20 n by simp
  ultimately have lpre: "length pre = 8 + 256 * 4 + length objects * (20 + 4)" by (simp add: pre_def length_idx_prefix)
  have end_at: "12 + sum_list (map entry_len datas) = length (pack_body objects)"
    by (simp add: length_pack_body datas_def)
  have "x < 2 ^ 64" if "x \<in> set offs" for x
    using entry_offsets_ge[of x 12 datas] that end_at assms(3) unfolding offs_def by linarith
  then have "idx_offset (idx @ sha1 idx) (length pre) (length pre + length objects * 4) i = Inr (offs ! i)" if "i < length objects" for i
    using idx_offset_read[of i offs pre "sha1 (pack_body objects) @ sha1 idx"] that n assms(2) by (simp add: idx_def)
  then have "map_result (idx_offset (idx @ sha1 idx) (length pre) (length pre + length objects * 4)) [0..<length objects]
      = Inr (map ((!) offs) [0..<length objects])"
    by (intro map_result_total) simp
  moreover have "map ((!) offs) [0..<length objects] = offs" using n by (metis map_nth)
  ultimately have offsets: "map_result (idx_offset (idx @ sha1 idx) (length pre) (length pre + length objects * 4)) [0..<length objects] = Inr offs"
    by simp
  have read: "idx_object_ids hex (idx @ sha1 idx) = Inr (map hex ids)"
    using idx_ids_read[of ids hex "crcs @ offset_tables offs @ sha1 (pack_body objects) @ sha1 idx"] ids20 n assms(2)
    by (simp add: idx_def pre_def)
  have order: "sort_key (\<lambda>i. offs ! i) [0..<length objects] = [0..<length objects]"
    using sort_key_offsets[of offs] entry_offsets_sorted[of 12 datas] n by (simp add: offs_def)
  have gs: "gaps offs (length pack - 20) = Inr (map entry_len datas)"
    using gaps_entry_offsets[of 12 datas] end_at assms(4) by (simp add: offs_def pack_def)
  have fill: "fold (\<lambda>(i, g) sizes. sizes[i := g]) (zip [0..<length objects] (map entry_len datas)) (replicate (length objects) 0)
      = map entry_len datas"
    using fold_update_all[of "map entry_len datas"] n by simp
  have "idx_object_sizes hex (idx @ sha1 idx) (length pack) = Inr (zip (map hex ids) (map entry_len datas))"
    unfolding idx_object_sizes_def Let_def read rbind_simps length_map n lpre[symmetric] offsets order
    using gs fill \<open>map ((!) offs) [0..<length objects] = offs\<close> assms(4) by (simp add: pack_def)
  moreover have "zip (map hex ids) (map entry_len datas) = map (\<lambda>(i, data). (hex i, length (pack_entry data))) objects"
    by (simp add: ids_def datas_def entry_len_def zip_map_map zip_same_conv_map split_def)
  ultimately show ?thesis using made by (simp add: pack_def)
qed

definition ex_tag_objects :: "(string \<times> string) list" where
  "ex_tag_objects = [(replicate 20 (CHR 0x11), ''object a''), (replicate 20 (CHR 0x22), ''object bc'')]"

lemma length_pack_entry_small:
  assumes "d \<noteq> []" "length d < 16"
  shows "length (pack_entry d) = 12 + length d"
proof -
  have "obj_header (length d) = [char_of (64 + length d)]"
    using assms by (simp add: obj_header_def header_loop.simps OBJ_TAG_def)
  moreover have "chunks 65535 d = [d]" using assms by (simp add: chunks.simps[of 65535 d] chunks.simps[of 65535 "[]"])
  ultimately show ?thesis using assms by (simp add: pack_entry_def stored_zlib_def)
qed

theorem tag_index_reads_back_witness:
  "\<exists>pack idx name. tag_pack ex_sha1 length rev ex_tag_objects = Inr (pack, idx, name)
    \<and> idx_object_sizes rev idx (length pack) = Inr [(replicate 20 (CHR 0x11), 20), (replicate 20 (CHR 0x22), 21)]"
proof -
  have lens: "length (pack_entry ''object a'') = 20" "length (pack_entry ''object bc'') = 21"
    by (simp_all add: length_pack_entry_small)
  then have "length (pack_body ex_tag_objects) = 53" by (simp add: length_pack_body ex_tag_objects_def entry_len_def)
  moreover have "length i = 20" if "(i, data) \<in> set ex_tag_objects" for i data
    using that by (auto simp: ex_tag_objects_def)
  moreover have "map (\<lambda>(i, data). (rev i, length (pack_entry data))) ex_tag_objects
      = [(replicate 20 (CHR 0x11), 20), (replicate 20 (CHR 0x22), 21)]" by (simp add: ex_tag_objects_def lens)
  ultimately show ?thesis
    using tag_index_reads_back[of ex_tag_objects ex_sha1 length rev] by (auto simp: ex_sha1_def ex_tag_objects_def)
qed

section \<open>Stored streams\<close>

text \<open>Adler-32 as RFC 1950 defines it: both sums reduced after every byte.\<close>

definition adler_ref_byte :: "char \<Rightarrow> nat \<times> nat \<Rightarrow> nat \<times> nat" where
  "adler_ref_byte c st = (case st of (a, b) \<Rightarrow>
     let a' = (a + byte c) mod 65521 in (a', (b + a') mod 65521))"

definition adler_ref :: "string \<Rightarrow> nat" where
  "adler_ref data = (case fold adler_ref_byte data (1, 0) of (a, b) \<Rightarrow> b * 65536 + a)"

text \<open>The sums of a run without reduction.\<close>

fun plain_sums :: "string \<Rightarrow> nat \<times> nat \<Rightarrow> nat \<times> nat" where
  "plain_sums [] st = st"
| "plain_sums (c # cs) (a, b) = plain_sums cs (a + byte c, b + (a + byte c))"

lemma adler_words:
  "fold adler_byte run (of_nat a, of_nat b) = (case plain_sums run (a, b) of (a', b') \<Rightarrow> (of_nat a', of_nat b'))"
proof (induction run arbitrary: a b)
  case (Cons c run)
  show ?case using Cons[of "a + byte c" "b + (a + byte c)"] by (simp add: adler_byte_def Let_def)
qed simp

lemma plain_sums_bound:
  "plain_sums run (a, b) = (a', b') \<Longrightarrow> a' \<le> a + 255 * length run
     \<and> 2 * b' \<le> 2 * b + 2 * length run * a + 255 * length run * (length run + 1)"
proof (induction run arbitrary: a b)
  case (Cons c run)
  then have "plain_sums run (a + byte c, b + (a + byte c)) = (a', b')" by simp
  from Cons.IH[OF this] have "a' \<le> a + byte c + 255 * length run
     \<and> 2 * b' \<le> 2 * (b + (a + byte c)) + 2 * length run * (a + byte c) + 255 * length run * (length run + 1)" .
  moreover have byte: "byte c \<le> 255" using byte_less[of c] by simp
  moreover have "2 * length run * byte c + 2 * byte c \<le> 510 * length run + 510"
    using byte mult_le_mono2[OF byte, of "length run"] by linarith
  ultimately show ?case by (simp add: algebra_simps)
qed simp

lemma plain_sums_mod:
  "plain_sums run (a, b) = (a', b') \<Longrightarrow>
     fold adler_ref_byte run (a mod 65521, b mod 65521) = (a' mod 65521, b' mod 65521)"
proof (induction run arbitrary: a b)
  case (Cons c run)
  have "adler_ref_byte c (a mod 65521, b mod 65521) = ((a + byte c) mod 65521, (b + (a + byte c)) mod 65521)"
    by (simp add: adler_ref_byte_def Let_def) (metis mod_add_left_eq mod_add_right_eq)
  then show ?case using Cons by simp
qed simp

lemma adler_run_ref:
  assumes "length run \<le> 5552" "a < 65521" "b < 65521"
  shows "adler_run run (of_nat a, of_nat b) = (case fold adler_ref_byte run (a, b) of (a', b') \<Rightarrow> (of_nat a', of_nat b'))"
proof -
  obtain a' b' where sums: "plain_sums run (a, b) = (a', b')" by fastforce
  define p q where "p = 255 * length run * (length run + 1)" and "q = 2 * length run * a"
  have "p \<le> 255 * 5552 * 5553" unfolding p_def using assms(1) by (intro mult_mono) auto
  moreover have "q \<le> 2 * 5552 * 65520" unfolding q_def using assms by (intro mult_mono) auto
  moreover have "a' \<le> a + 255 * length run" "2 * b' \<le> 2 * b + q + p"
    using plain_sums_bound[OF sums] by (simp_all only: p_def q_def)
  ultimately have lt: "a' < 2 ^ 32" "b' < 2 ^ 32" using assms by simp_all
  have red: "(of_nat x :: 32 word) mod 65521 = of_nat (x mod 65521)" if "x < 2 ^ 32" for x
    using that by (intro word_unat_eq_iff[THEN iffD2]) (simp add: unat_mod_distrib unat_of_nat take_bit_nat_eq_self)
  show ?thesis
    using adler_words[of run a b] plain_sums_mod[OF sums] sums lt assms by (simp add: adler_run_def red)
qed

lemma adler_ref_fold_less: "a < 65521 \<Longrightarrow> b < 65521 \<Longrightarrow>
    fst (fold adler_ref_byte run (a, b)) < 65521 \<and> snd (fold adler_ref_byte run (a, b)) < 65521"
  by (induction run arbitrary: a b) (simp_all add: adler_ref_byte_def Let_def)

lemma concat_chunks: "n > 0 \<Longrightarrow> concat (chunks n s) = s"
  by (induction n s rule: chunks.induct) (subst chunks.simps, simp)

lemma chunks_bound: "b \<in> set (chunks n s) \<Longrightarrow> length b \<le> n \<and> b \<noteq> []"
proof (induction n s rule: chunks.induct)
  case (1 n s)
  then show ?case by (subst (asm) (2) chunks.simps) (auto split: if_splits)
qed

lemma adler_runs_ref:
  assumes "\<And>r. r \<in> set runs \<Longrightarrow> length r \<le> 5552" "a < 65521" "b < 65521"
  shows "fold adler_run runs (of_nat a, of_nat b)
    = (case fold adler_ref_byte (concat runs) (a, b) of (a', b') \<Rightarrow> (of_nat a', of_nat b'))"
  using assms
proof (induction runs arbitrary: a b)
  case (Cons r runs)
  obtain a' b' where ab: "fold adler_ref_byte r (a, b) = (a', b')" by fastforce
  then have "a' < 65521" "b' < 65521" using adler_ref_fold_less[of a b r] Cons.prems by simp_all
  moreover have "adler_run r (of_nat a, of_nat b) = (of_nat a', of_nat b')"
    using adler_run_ref[of r a b] Cons.prems ab by simp
  ultimately show ?case using Cons ab by simp
qed simp

lemma adler32_ref: "unat (adler32 data) = adler_ref data"
proof -
  obtain a b where ab: "fold adler_ref_byte data (1, 0) = (a, b)" by fastforce
  then have lt: "a < 65521" "b < 65521" using adler_ref_fold_less[of 1 0 data] by simp_all
  have "fold adler_run (chunks 5552 data) (of_nat 1, of_nat 0) = (of_nat a, of_nat b)"
    using adler_runs_ref[of "chunks 5552 data" 1 0] chunks_bound[of _ 5552 data] ab by (simp add: concat_chunks)
  then have sums: "fold adler_run (chunks 5552 data) (1, 0) = (of_nat a, of_nat b)" by simp
  have ua: "unat (of_nat a :: 32 word) = a" using lt by (simp add: unat_of_nat take_bit_nat_eq_self)
  have "push_bit 16 (of_nat b) OR (of_nat a :: 32 word) = of_nat (a + b * 2 ^ 16)"
    using or_push_bit_add[of "of_nat a :: 32 word" 16 b] ua lt by (simp add: or.commute)
  then show ?thesis using lt ab sums
    by (simp add: adler32_def adler_ref_def unat_of_nat take_bit_nat_eq_self del: of_nat_add of_nat_mult)
qed

text \<open>
  A reference inflater for zlib streams of stored blocks (RFC 1950 and 1951): the two header bytes, blocks of a
  final flag, a length, its complement and that many bytes, and the checksum.  It returns the content and how many
  bytes of its input it took.
\<close>

function inflate_blocks :: "string \<Rightarrow> (string \<times> string) option" where
  "inflate_blocks s = (case s of
     final # l0 # l1 # n0 # n1 # rest \<Rightarrow>
       (let len = byte l0 + 256 * byte l1; nlen = byte n0 + 256 * byte n1 in
        if byte final > 1 \<or> len + nlen \<noteq> 65535 \<or> length rest < len then None
        else if byte final = 1 then Some (take len rest, drop len rest)
        else (case inflate_blocks (drop len rest) of None \<Rightarrow> None
              | Some (content, tail) \<Rightarrow> Some (take len rest @ content, tail)))
   | _ \<Rightarrow> None)"
  by auto
termination by (relation "measure length") auto

declare inflate_blocks.simps [simp del]

definition inflate_stored :: "string \<Rightarrow> (string \<times> nat) option" where
  "inflate_stored s =
     (if take 2 s \<noteq> [char_of (120 :: nat), char_of (1 :: nat)] then None
      else (case inflate_blocks (drop 2 s) of None \<Rightarrow> None
            | Some (content, tail) \<Rightarrow>
                if length tail < 4 \<or> be_val (take 4 tail) \<noteq> adler_ref content then None
                else Some (content, length s - (length tail - 4))))"

lemma inflate_blocks_stored:
  assumes "bs \<noteq> []" "\<And>b. b \<in> set bs \<Longrightarrow> length b \<le> 65535"
  shows "inflate_blocks (stored_blocks bs @ rest) = Some (concat bs, rest)"
  using assms
proof (induction bs)
  case (Cons b bs)
  have "length b \<le> 65535" using Cons.prems by simp
  then have len: "byte (char_of (length b)) + 256 * byte (char_of (length b div 256)) = length b"
    "byte (char_of (65535 - length b)) + 256 * byte (char_of ((65535 - length b) div 256)) = 65535 - length b"
    "length b + (65535 - length b) = 65535"
    by (simp_all add: byte_char_of_mod less_mult_imp_div_less)
  have flag: "byte (char_of (if bs = [] then 1 else 0 :: nat)) = (if bs = [] then 1 else 0)" by simp
  show ?case
    unfolding stored_blocks.simps append.simps append_assoc
    by (subst inflate_blocks.simps) (use Cons in \<open>simp add: len flag Let_def del: byte_char_of\<close>)
qed simp

lemma stored_zlib_inflates: "inflate_stored (stored_zlib data @ rest) = Some (data, length (stored_zlib data))"
proof -
  let ?bs = "if data = [] then [[]] else chunks 65535 data"
  let ?sum = "be_bytes 4 (unat (adler32 data))"
  have z: "stored_zlib data = [char_of (120 :: nat), char_of (1 :: nat)] @ stored_blocks ?bs @ ?sum"
    by (simp add: stored_zlib_def)
  have "chunks 65535 data \<noteq> []" if "data \<noteq> []" using that by (simp add: chunks.simps[of 65535 data])
  then have "inflate_blocks (stored_blocks ?bs @ ?sum @ rest) = Some (concat ?bs, ?sum @ rest)"
    using chunks_bound[of _ 65535 data] by (intro inflate_blocks_stored) (auto split: if_splits)
  moreover have "concat ?bs = data" by (simp add: concat_chunks)
  moreover have "unat (adler32 data) < 256 ^ 4" using unsigned_less[of "adler32 data"] by simp
  then have "be_val ?sum = adler_ref data" by (simp only: be_val_be_bytes adler32_ref)
  ultimately show ?thesis by (simp add: inflate_stored_def z)
qed

text \<open>
  Every entry of the pack of tag objects reads back from the bytes written: the client's header parser
  returns the tag type, the size of the object and where its stream begins, and inflating the stream from there
  gives the object's content and ends where the entry ends.
\<close>

theorem tag_entry_reads_back:
  assumes "length data < 2 ^ 64"
  shows "\<exists>h. parse_pack_obj_header (pack_entry data @ rest) = Inr (OBJ_TAG, of_nat (length data), h)
    \<and> inflate_stored (drop h (pack_entry data @ rest)) = Some (data, length (pack_entry data) - h)"
  using obj_header_reads_back[OF assms, of "stored_zlib data @ rest"] stored_zlib_inflates[of data rest]
  by (simp add: pack_entry_def OBJ_TAG_def)

theorem tag_entry_reads_back_witness:
  "\<exists>h. parse_pack_obj_header (pack_entry ''object a'' @ ''x'') = Inr (4, 8, h)
    \<and> inflate_stored (drop h (pack_entry ''object a'' @ ''x'')) = Some (''object a'', 20 - h)"
  using tag_entry_reads_back[of "''object a''" "''x''"] by (simp add: length_pack_entry_small OBJ_TAG_def)

end
