(* ===== verification/Archive.thy ===== *)
theory Archive
  imports Manifest Results
begin

text \<open>
  Building the worktree archive (\<open>src/rust/src/archive.rs\<close>): the stream of file contents is cut into frames,
  frames are compressed and grouped into download bundles, and the metadata records every file's fragments.  With a
  base build only the changed ranges are read again (incremental), or only new blobs are added after the base (tail).

  Parameters stand for the code outside the repository: \<open>hash\<close> is the content hash of the store, \<open>zstd\<close> the
  compressor at the chosen level, \<open>cdc\<close> the \<open>fastcdc\<close> chunker giving the offset and length of each chunk, \<open>find_blob\<close>
  and \<open>header_size\<close> read an object of the mirror through \<open>gix\<close>.  The threads of the pipeline hand windows, frames and
  batches over in order, so the model runs its stages one after another; \<open>usize\<close> is a 64-bit number.  A failed build
  returns only its error: bundles it already wrote stay in the local store, addressed by content and named by nothing.
\<close>

section \<open>Fragments\<close>

datatype archive_error =
    EmptyFrameTable | ArchiveTooLarge | FileRangeOverflow | StreamOverflow | BlobMissing "8 word list"
  | BlobSize "8 word list" | ShortStream nat | NotTiled | BaseFrameCount | BaseFrameMismatch nat | BaseBundleMissing nat
  | BaseFilesLength | FrameUnreadable string | FrameHasNoBytes string | BundleLength | ZstdFailed | GapLength nat nat
  | IndexPanic | TailBlobMissing | NotOneChunk

type_synonym 'a aresult = "(archive_error, 'a) result"
type_synonym oid = "8 word list"
type_synonym Blob = "string \<times> oid \<times> 32 word"

definition to_u32 :: "nat \<Rightarrow> 32 word aresult" where
  "to_u32 n = (if n < 2 ^ 32 then Inr (of_nat n) else Inl ArchiveTooLarge)"

function advance_hint :: "(nat \<times> nat) list \<Rightarrow> nat \<Rightarrow> nat \<Rightarrow> nat" where
  "advance_hint bounds start hint =
     (if hint < length bounds \<and> snd (bounds ! hint) \<le> start then advance_hint bounds start (hint + 1) else hint)"
  by auto
termination by (relation "measure (\<lambda>(bounds, _, hint). length bounds - hint)") auto

function empty_index :: "(nat \<times> nat) list \<Rightarrow> nat \<Rightarrow> nat \<Rightarrow> nat" where
  "empty_index bounds start idx =
     (if idx + 1 < length bounds \<and> snd (bounds ! idx) \<le> start then empty_index bounds start (idx + 1) else idx)"
  by auto
termination by (relation "measure (\<lambda>(bounds, _, idx). length bounds - idx)") auto

definition mk_fragment :: "nat \<Rightarrow> nat \<Rightarrow> nat \<Rightarrow> Fragment aresult" where
  "mk_fragment index offset len =
     rbind (to_u32 index) (\<lambda>i. rbind (to_u32 offset) (\<lambda>off. rbind (to_u32 len) (\<lambda>l.
     Inr \<lparr>frame_index = i, frame_offset = off, frag_raw_len = l\<rparr>)))"

function cut_range :: "(nat \<times> nat) list \<Rightarrow> nat \<Rightarrow> nat \<Rightarrow> nat \<Rightarrow> Fragment list aresult" where
  "cut_range bounds start stop k =
     (if k < length bounds \<and> fst (bounds ! k) < stop
      then (let os = max start (fst (bounds ! k)); oe = min stop (snd (bounds ! k)) in
            if os < oe
            then rbind (mk_fragment k (os - fst (bounds ! k)) (oe - os)) (\<lambda>f.
                 rbind (cut_range bounds start stop (k + 1)) (\<lambda>fs. Inr (f # fs)))
            else cut_range bounds start stop (k + 1))
      else Inr [])"
  by auto
termination by (relation "measure (\<lambda>(bounds, _, _, k). length bounds - k)") auto

declare advance_hint.simps [simp del] empty_index.simps [simp del] cut_range.simps [simp del]

definition fragments_for :: "(nat \<times> nat) list \<Rightarrow> nat \<Rightarrow> nat \<Rightarrow> nat \<Rightarrow> (Fragment list \<times> nat) aresult" where
  "fragments_for bounds start len hint =
     (if bounds = [] then Inl EmptyFrameTable
      else if len = 0
      then (let idx = empty_index bounds start (min hint (length bounds - 1)) in
            rbind (mk_fragment idx (start - fst (bounds ! idx)) 0) (\<lambda>f. Inr ([f], hint)))
      else (let hint' = advance_hint bounds start hint in
            if 2 ^ 64 \<le> start + len then Inl FileRangeOverflow
            else rbind (cut_range bounds start (start + len) hint') (\<lambda>fs. Inr (fs, hint'))))"

section \<open>Layout\<close>

record Layout =
  ly_blobs :: "Blob list"
  ly_gitlinks :: "string list"
  ly_sizes :: "nat list"
  ly_starts :: "nat list"
  ly_total :: nat

fun layout_starts :: "nat \<Rightarrow> nat list \<Rightarrow> (nat list \<times> nat) aresult" where
  "layout_starts pos [] = Inr ([], pos)"
| "layout_starts pos (sz # szs) =
     (if 2 ^ 64 \<le> pos + sz then Inl StreamOverflow
      else rbind (layout_starts (pos + sz) szs) (\<lambda>(starts, end_pos). Inr (pos # starts, end_pos)))"

definition layout_new :: "Blob list \<Rightarrow> string list \<Rightarrow> nat list \<Rightarrow> Layout aresult" where
  "layout_new blobs gitlinks sizes =
     rbind (layout_starts 0 sizes) (\<lambda>(starts, end_pos).
     Inr \<lparr>ly_blobs = blobs, ly_gitlinks = gitlinks, ly_sizes = sizes, ly_starts = starts, ly_total = end_pos\<rparr>)"

fun files_loop :: "(nat \<times> nat) list \<Rightarrow> nat \<Rightarrow> (Blob \<times> nat \<times> nat) list \<Rightarrow> FileEntry list aresult" where
  "files_loop bounds hint [] = Inr []"
| "files_loop bounds hint (((path, oid, mode), start, sz) # rest) =
     rbind (fragments_for bounds start sz hint) (\<lambda>(fragments, next).
     rbind (files_loop bounds next rest) (\<lambda>files.
     Inr (\<lparr>fe_path = path, fe_mode = mode, fe_blob_sha1 = oid, fe_fragments = fragments\<rparr> # files)))"

definition files_table :: "Layout \<Rightarrow> (nat \<times> nat) list \<Rightarrow> MetadataChunk aresult" where
  "files_table ly bounds =
     rbind (files_loop bounds 0 (zip (ly_blobs ly) (zip (ly_starts ly) (ly_sizes ly)))) (\<lambda>files.
     Inr \<lparr>mc_frames = [], mc_files = files, mc_gitlinks = ly_gitlinks ly\<rparr>)"

section \<open>Frames and the base\<close>

definition compress_frame :: "(string \<Rightarrow> string aresult) \<Rightarrow> string \<Rightarrow> string aresult" where
  "compress_frame zstd raw = (if raw = [] then Inr [] else zstd raw)"

record BuiltFrame =
  bf_raw_hash :: string
  bf_raw_len :: nat
  bf_chunk_hash :: string
  bf_compressed_len :: nat
  bf_bytes :: "string option"
  bf_base_frame :: "nat option"

record ArchiveBase =
  ab_frames :: "ArchiveFrame list"
  ab_metadata :: MetadataChunk
  ab_bundles :: "string list"

record BaseIndex =
  bi_frames :: "ArchiveFrame list"
  bi_starts :: "nat list"
  bi_places :: "(string \<times> nat) list"
  bi_by_raw :: "string \<Rightarrow> nat option"
  bi_bundles :: "string \<Rightarrow> string option"
  bi_files :: "string \<Rightarrow> (oid \<times> nat \<times> nat) option"

definition build_frame ::
    "(string \<Rightarrow> string) \<Rightarrow> (string \<Rightarrow> string aresult) \<Rightarrow> BaseIndex option \<Rightarrow> string \<Rightarrow> BuiltFrame aresult" where
  "build_frame hash zstd base raw =
     (let raw_hash = hash raw in
      case Option.bind base (\<lambda>b. map_option (\<lambda>k. (b, k)) (bi_by_raw b raw_hash)) of
        Some (b, k) \<Rightarrow>
          (let frame = bi_frames b ! k in
           Inr \<lparr>bf_raw_hash = raw_hash, bf_raw_len = length raw, bf_chunk_hash = af_chunk_hash frame,
                bf_compressed_len = af_compressed_len frame, bf_bytes = None, bf_base_frame = Some k\<rparr>)
      | None \<Rightarrow>
          rbind (compress_frame zstd raw) (\<lambda>bytes.
          Inr \<lparr>bf_raw_hash = raw_hash, bf_raw_len = length raw, bf_chunk_hash = hash bytes,
               bf_compressed_len = length bytes, bf_bytes = Some bytes, bf_base_frame = None\<rparr>))"

record base_scan =
  bs_starts :: "nat list"
  bs_places :: "(string \<times> nat) list"
  bs_by_raw :: "string \<Rightarrow> nat option"
  bs_bundles :: "string \<Rightarrow> string option"
  bs_key :: string
  bs_pos :: nat

fun base_frames_loop :: "string list \<Rightarrow> nat \<Rightarrow> (ArchiveFrame \<times> FrameInfo) list \<Rightarrow> base_scan \<Rightarrow> base_scan aresult" where
  "base_frames_loop bundles k [] s = Inr s"
| "base_frames_loop bundles k ((frame, info) # rest) s =
     (if af_compressed_len frame \<noteq> unat (compressed_len info) \<or> af_raw_len frame \<noteq> unat (frame_raw_len info)
      then Inl (BaseFrameMismatch k)
      else if length bundles \<le> unat (chunk_index info) then Inl (BaseBundleMissing k)
      else (let bundle = bundles ! unat (chunk_index info);
                key = bs_key s @ af_chunk_hash frame;
                last_in_bundle = (case rest of [] \<Rightarrow> True | (_, next) # _ \<Rightarrow> chunk_index next \<noteq> chunk_index info)
            in if 2 ^ 64 \<le> bs_pos s + af_raw_len frame then Inl StreamOverflow
               else base_frames_loop bundles (k + 1) rest
                 \<lparr>bs_starts = bs_starts s @ [bs_pos s],
                  bs_places = bs_places s @ [(bundle, unat (chunk_offset info))],
                  bs_by_raw = (bs_by_raw s)(af_raw_hash frame \<mapsto> k),
                  bs_bundles = (if last_in_bundle then (bs_bundles s)(key \<mapsto> bundle) else bs_bundles s),
                  bs_key = (if last_in_bundle then [] else key),
                  bs_pos = bs_pos s + af_raw_len frame\<rparr>))"

definition entry_bytes :: "FileEntry \<Rightarrow> nat" where
  "entry_bytes file = sum_list (map (\<lambda>f. unat (frag_raw_len f)) (fe_fragments file))"

fun base_files_loop :: "FileEntry list \<Rightarrow> nat \<Rightarrow> (string \<Rightarrow> (oid \<times> nat \<times> nat) option)
    \<Rightarrow> (nat \<times> (string \<Rightarrow> (oid \<times> nat \<times> nat) option)) aresult" where
  "base_files_loop [] pos files = Inr (pos, files)"
| "base_files_loop (file # rest) pos files =
     (let len = entry_bytes file in
      if 2 ^ 64 \<le> len \<or> 2 ^ 64 \<le> pos + len then Inl StreamOverflow
      else base_files_loop rest (pos + len) (files(fe_path file \<mapsto> (fe_blob_sha1 file, pos, len))))"

definition base_index_new :: "ArchiveBase \<Rightarrow> BaseIndex aresult" where
  "base_index_new base =
     (let infos = mc_frames (ab_metadata base) in
      if length infos \<noteq> length (ab_frames base) then Inl BaseFrameCount
      else rbind (base_frames_loop (ab_bundles base) 0 (zip (ab_frames base) infos)
             \<lparr>bs_starts = [], bs_places = [], bs_by_raw = Map.empty, bs_bundles = Map.empty, bs_key = [], bs_pos = 0\<rparr>) (\<lambda>s.
           rbind (base_files_loop (mc_files (ab_metadata base)) 0 Map.empty) (\<lambda>(file_pos, files).
           if file_pos \<noteq> bs_pos s then Inl BaseFilesLength
           else Inr \<lparr>bi_frames = ab_frames base, bi_starts = bs_starts s @ [bs_pos s], bi_places = bs_places s,
                     bi_by_raw = bs_by_raw s, bi_bundles = bs_bundles s, bi_files = files\<rparr>)))"

text \<open>A range read of a stored object; the content is not checked.\<close>

definition range_of :: "string option \<Rightarrow> nat \<Rightarrow> nat \<Rightarrow> string option" where
  "range_of object start len =
     (case object of None \<Rightarrow> None
      | Some data \<Rightarrow> if start + len < 2 ^ 64 \<and> start + len \<le> length data then Some (take len (drop start data)) else None)"

definition read_frame ::
    "(string \<Rightarrow> string) \<Rightarrow> (string \<Rightarrow> string option) \<Rightarrow> (string \<Rightarrow> nat \<Rightarrow> nat \<Rightarrow> string option) option
       \<Rightarrow> BaseIndex \<Rightarrow> nat \<Rightarrow> string aresult" where
  "read_frame hash cas storage b k =
     (let frame = bi_frames b ! k; (bundle, offset) = bi_places b ! k;
          good = (\<lambda>data. length data = af_compressed_len frame \<and> hash data = af_chunk_hash frame);
          failed = Inl (FrameUnreadable (af_chunk_hash frame));
          remote = (case storage of None \<Rightarrow> failed
            | Some get_range \<Rightarrow> (case get_range bundle offset (af_compressed_len frame) of
                None \<Rightarrow> failed | Some data \<Rightarrow> if good data then Inr data else failed))
      in case range_of (cas bundle) offset (af_compressed_len frame) of
           Some data \<Rightarrow> if good data then Inr data else remote
         | None \<Rightarrow> remote)"

section \<open>Bundles\<close>

record ArchiveReuse =
  ru_incremental :: bool
  ru_tail :: bool
  ru_bytes_read :: nat
  ru_frames_built :: nat
  ru_frames_reused :: nat
  ru_bundles_built :: nat
  ru_bundles_reused :: nat

text \<open>The bundler and, as \<open>bd_cas\<close>, the content of the local store it writes bundles to.\<close>

record Bundler =
  bd_cas :: "string \<Rightarrow> string option"
  bd_min :: nat
  bd_max :: nat
  bd_group :: "BuiltFrame list"
  bd_group_len :: nat
  bd_bundles :: "string list"
  bd_new_bundles :: "string list"
  bd_infos :: "FrameInfo list"
  bd_frames :: "ArchiveFrame list"
  bd_reuse :: ArchiveReuse

definition no_reuse :: ArchiveReuse where
  "no_reuse = \<lparr>ru_incremental = False, ru_tail = False, ru_bytes_read = 0, ru_frames_built = 0, ru_frames_reused = 0,
     ru_bundles_built = 0, ru_bundles_reused = 0\<rparr>"

definition bundler_new :: "(string \<Rightarrow> string option) \<Rightarrow> nat \<Rightarrow> Bundler" where
  "bundler_new cas target =
     (let target = max target 2 in
      \<lparr>bd_cas = cas, bd_min = target div 2, bd_max = min (target * 2) (2 ^ 64 - 1), bd_group = [], bd_group_len = 0,
       bd_bundles = [], bd_new_bundles = [], bd_infos = [], bd_frames = [], bd_reuse = no_reuse\<rparr>)"

definition cuts_after :: "string \<Rightarrow> bool" where
  "cuts_after chunk_hash = (chunk_hash \<noteq> [] \<and> byte (last chunk_hash) mod 2 = 0)"

text \<open>What the code reads to write a bundle: the frame's own bytes, or the base's.\<close>

definition frame_bytes ::
    "(string \<Rightarrow> string) \<Rightarrow> (string \<Rightarrow> string option) \<Rightarrow> (string \<Rightarrow> nat \<Rightarrow> nat \<Rightarrow> string option) option
       \<Rightarrow> BaseIndex option \<Rightarrow> BuiltFrame \<Rightarrow> string aresult" where
  "frame_bytes hash cas storage base frame =
     (case (bf_bytes frame, bf_base_frame frame, base) of
        (Some bytes, _, _) \<Rightarrow> Inr bytes
      | (None, Some k, Some b) \<Rightarrow> read_frame hash cas storage b k
      | _ \<Rightarrow> Inl (FrameHasNoBytes (bf_chunk_hash frame)))"

definition write_group ::
    "(string \<Rightarrow> string) \<Rightarrow> (string \<Rightarrow> nat \<Rightarrow> nat \<Rightarrow> string option) option \<Rightarrow> BaseIndex option \<Rightarrow> Bundler
       \<Rightarrow> (string \<times> (string \<Rightarrow> string option)) aresult" where
  "write_group hash storage base bd =
     rbind (map_result (frame_bytes hash (bd_cas bd) storage base) (bd_group bd)) (\<lambda>parts.
     let content = concat parts; name = hash content in
     if length content \<noteq> bd_group_len bd then Inl BundleLength
     else Inr (name, (bd_cas bd)(name \<mapsto> content)))"

fun place_frames :: "32 word \<Rightarrow> nat \<Rightarrow> BuiltFrame list \<Rightarrow> FrameInfo list aresult" where
  "place_frames index offset [] = Inr []"
| "place_frames index offset (f # fs) =
     rbind (to_u32 (bf_compressed_len f)) (\<lambda>clen.
     rbind (to_u32 (bf_raw_len f)) (\<lambda>rlen.
     rbind (place_frames index (offset + bf_compressed_len f) fs) (\<lambda>infos.
     Inr (\<lparr>chunk_index = index, chunk_offset = of_nat offset, compressed_len = clen, frame_raw_len = rlen\<rparr> # infos))))"

definition archive_frame :: "BuiltFrame \<Rightarrow> ArchiveFrame" where
  "archive_frame f = \<lparr>af_raw_hash = bf_raw_hash f, af_chunk_hash = bf_chunk_hash f,
     af_compressed_len = bf_compressed_len f, af_raw_len = bf_raw_len f\<rparr>"

definition bundler_close ::
    "(string \<Rightarrow> string) \<Rightarrow> (string \<Rightarrow> nat \<Rightarrow> nat \<Rightarrow> string option) option \<Rightarrow> BaseIndex option \<Rightarrow> Bundler \<Rightarrow> Bundler aresult" where
  "bundler_close hash storage base bd =
     (if bd_group bd = [] then Inr bd
      else rbind (to_u32 (length (bd_bundles bd))) (\<lambda>index.
        let key = concat (map bf_chunk_hash (bd_group bd)) in
        rbind (case Option.bind base (\<lambda>b. bi_bundles b key) of
                 Some name \<Rightarrow> Inr (name, bd_cas bd, [], (bd_reuse bd)\<lparr>ru_bundles_reused := ru_bundles_reused (bd_reuse bd) + 1\<rparr>)
               | None \<Rightarrow> rbind (write_group hash storage base bd) (\<lambda>(name, cas).
                   Inr (name, cas, [name], (bd_reuse bd)\<lparr>ru_bundles_built := ru_bundles_built (bd_reuse bd) + 1\<rparr>)))
          (\<lambda>(name, cas, new, reuse).
        rbind (place_frames index 0 (bd_group bd)) (\<lambda>infos.
        let built = length (filter (\<lambda>f. bf_bytes f \<noteq> None) (bd_group bd)) in
        Inr (bd\<lparr>bd_cas := cas, bd_group := [], bd_group_len := 0, bd_bundles := bd_bundles bd @ [name],
          bd_new_bundles := bd_new_bundles bd @ new, bd_infos := bd_infos bd @ infos,
          bd_frames := bd_frames bd @ map archive_frame (bd_group bd),
          bd_reuse := reuse\<lparr>ru_frames_built := ru_frames_built reuse + built,
            ru_frames_reused := ru_frames_reused reuse + (length (bd_group bd) - built)\<rparr>\<rparr>)))))"

definition bundler_push ::
    "(string \<Rightarrow> string) \<Rightarrow> (string \<Rightarrow> nat \<Rightarrow> nat \<Rightarrow> string option) option \<Rightarrow> BaseIndex option \<Rightarrow> BuiltFrame \<Rightarrow> Bundler \<Rightarrow> Bundler aresult" where
  "bundler_push hash storage base frame bd =
     rbind (if bd_group bd \<noteq> [] \<and> bd_max bd < bd_group_len bd + bf_compressed_len frame
            then bundler_close hash storage base bd else Inr bd) (\<lambda>bd.
     let len = bd_group_len bd + bf_compressed_len frame;
         bd' = bd\<lparr>bd_group_len := len, bd_group := bd_group bd @ [frame]\<rparr> in
     if bd_max bd \<le> len \<or> (bd_min bd \<le> len \<and> cuts_after (bf_chunk_hash frame))
     then bundler_close hash storage base bd' else Inr bd')"

section \<open>Streaming the worktree\<close>

record Piece =
  pc_oid :: oid
  pc_size :: nat
  pc_lo :: nat
  pc_hi :: nat

definition read_piece :: "(oid \<Rightarrow> string option) \<Rightarrow> Piece \<Rightarrow> string aresult" where
  "read_piece find_blob pc =
     (case find_blob (pc_oid pc) of
        None \<Rightarrow> Inl (BlobMissing (pc_oid pc))
      | Some data \<Rightarrow> if length data \<noteq> pc_size pc then Inl (BlobSize (pc_oid pc))
                      else Inr (take (pc_hi pc - pc_lo pc) (drop (pc_lo pc) data)))"

definition READ_WINDOW_BYTES :: nat where
  "READ_WINDOW_BYTES = 16 * 1024 * 1024"

definition STREAM_BATCH_BYTES :: nat where
  "STREAM_BATCH_BYTES = 32 * 1024 * 1024"

definition MAX_GAP_BYTES :: nat where
  "MAX_GAP_BYTES = 128 * 1024 * 1024"

text \<open>How many of the next items go together: the first, and more while their sizes fit the limit.\<close>

fun window_more :: "nat \<Rightarrow> nat \<Rightarrow> nat list \<Rightarrow> nat" where
  "window_more limit bytes [] = 0"
| "window_more limit bytes (sz # szs) =
     (if bytes + sz \<le> limit then 1 + window_more limit (bytes + sz) szs else 0)"

fun window_len :: "nat \<Rightarrow> nat list \<Rightarrow> nat" where
  "window_len limit [] = 0"
| "window_len limit (sz # szs) = 1 + window_more limit sz szs"

function windows :: "nat \<Rightarrow> ('a \<Rightarrow> nat) \<Rightarrow> 'a list \<Rightarrow> 'a list list" where
  "windows limit size_of [] = []"
| "windows limit size_of (x # xs) =
     (let n = window_len limit (map size_of (x # xs)) in take n (x # xs) # windows limit size_of (drop n (x # xs)))"
  by pat_completeness auto
termination by (relation "measure (\<lambda>(_, _, xs). length xs)") auto

text \<open>The pieces of a window of whole blobs.\<close>

definition whole_piece :: "oid \<times> nat \<Rightarrow> Piece" where
  "whole_piece b = \<lparr>pc_oid = fst b, pc_size = snd b, pc_lo = 0, pc_hi = snd b\<rparr>"

text \<open>A batch ends with the frame that brings it to the batch size.\<close>

fun batches :: "string list \<Rightarrow> string list \<Rightarrow> nat \<Rightarrow> string list list" where
  "batches [] batch bytes = (if batch = [] then [] else [rev batch])"
| "batches (raw # raws) batch bytes =
     (if STREAM_BATCH_BYTES \<le> bytes + length raw then rev (raw # batch) # batches raws [] 0
      else batches raws (raw # batch) (bytes + length raw))"

fun fold_result :: "('a \<Rightarrow> 's \<Rightarrow> 's aresult) \<Rightarrow> 'a list \<Rightarrow> 's \<Rightarrow> 's aresult" where
  "fold_result f [] s = Inr s"
| "fold_result f (x # xs) s = rbind (f x s) (fold_result f xs)"

text \<open>The raw bytes of the chunks the chunker cut.\<close>

definition chunk_data :: "string \<Rightarrow> (nat \<times> nat) list \<Rightarrow> string list" where
  "chunk_data stream cuts = map (\<lambda>(offset, len). take len (drop offset stream)) cuts"

definition stream_frames ::
    "(oid \<Rightarrow> string option) \<Rightarrow> (string \<Rightarrow> (nat \<times> nat) list) \<Rightarrow> (string \<Rightarrow> string) \<Rightarrow> (string \<Rightarrow> string aresult)
       \<Rightarrow> BaseIndex option \<Rightarrow> (BuiltFrame \<Rightarrow> 's \<Rightarrow> 's aresult) \<Rightarrow> Layout \<Rightarrow> 's \<Rightarrow> ((nat \<times> nat) list \<times> 's) aresult" where
  "stream_frames find_blob cdc hash zstd base consume ly st =
     rbind (map_result (\<lambda>window. map_result (read_piece find_blob) (map whole_piece window))
        (windows READ_WINDOW_BYTES snd (zip (map (fst \<circ> snd) (ly_blobs ly)) (ly_sizes ly)))) (\<lambda>read_windows.
     let stream = concat (concat read_windows);
         cuts = cdc stream;
         bounds = map (\<lambda>(offset, len). (offset, offset + len)) cuts in
     rbind (fold_result (\<lambda>batch st. rbind (map_result (build_frame hash zstd base) batch) (\<lambda>built.
              fold_result consume built st)) (batches (chunk_data stream cuts) [] 0) st) (\<lambda>st.
     let streamed = (if bounds = [] then 0 else snd (last bounds)) in
     if streamed \<noteq> ly_total ly then Inl (ShortStream streamed)
     else if bounds = [] \<and> ly_blobs ly \<noteq> []
     then rbind (build_frame hash zstd base []) (\<lambda>frame. rbind (consume frame st) (\<lambda>st. Inr ([(0, 0)], st)))
     else Inr (bounds, st)))"

section \<open>Chunks in memory\<close>

text \<open>
  The entries of the walked tree as \<open>gix\<close> records them; \<open>is_commit\<close> and \<open>is_tree\<close> are its mode tests.  The result is
  the submodule paths and the blobs.
\<close>

definition collect_blobs ::
    "(32 word \<Rightarrow> bool) \<Rightarrow> (32 word \<Rightarrow> bool) \<Rightarrow> Blob list \<Rightarrow> string list \<times> Blob list" where
  "collect_blobs is_commit is_tree records =
     (map fst (filter (\<lambda>(_, _, mode). is_commit mode) records),
      filter (\<lambda>(_, _, mode). \<not> is_commit mode \<and> \<not> is_tree mode) records)"

definition blob_sizes :: "(oid \<Rightarrow> nat option) \<Rightarrow> Blob list \<Rightarrow> nat list aresult" where
  "blob_sizes header_size blobs =
     map_result (\<lambda>(_, oid, _). case header_size oid of None \<Rightarrow> Inl (BlobMissing oid)
       | Some n \<Rightarrow> if n < 2 ^ 64 then Inr n else Inl ArchiveTooLarge) blobs"

fun assemble :: "nat \<Rightarrow> (string \<times> nat) list \<Rightarrow> string list \<Rightarrow> string \<Rightarrow> nat \<Rightarrow> (FrameInfo list \<times> string list) aresult" where
  "assemble target [] chunks current frame_count = Inr ([], if frame_count > 0 then chunks @ [current] else chunks)"
| "assemble target ((compressed, raw_len) # rest) chunks current frame_count =
     (let would_exceed = (current \<noteq> [] \<and> target < min (length current + length compressed) (2 ^ 64 - 1));
          (chunks, current, frame_count) = (if would_exceed then (chunks @ [current], [], 0) else (chunks, current, frame_count)) in
      rbind (to_u32 (length chunks)) (\<lambda>i.
      rbind (to_u32 (length compressed)) (\<lambda>clen.
      rbind (to_u32 raw_len) (\<lambda>rlen.
      let info = \<lparr>chunk_index = i, chunk_offset = of_nat (length current), compressed_len = clen, frame_raw_len = rlen\<rparr>;
          current = current @ compressed in
      rbind (if target \<le> length current then assemble target rest (chunks @ [current]) [] 0
             else assemble target rest chunks current (frame_count + 1)) (\<lambda>(infos, out).
      Inr (info # infos, out))))))"

definition files_metadata :: "Layout \<Rightarrow> (nat \<times> nat) list \<Rightarrow> MetadataChunk aresult" where
  "files_metadata ly bounds =
     (if ly_blobs ly = [] then Inr \<lparr>mc_frames = [], mc_files = [], mc_gitlinks = ly_gitlinks ly\<rparr> else files_table ly bounds)"

definition build_chunks ::
    "(oid \<Rightarrow> string option) \<Rightarrow> (string \<Rightarrow> (nat \<times> nat) list) \<Rightarrow> (string \<Rightarrow> string) \<Rightarrow> (string \<Rightarrow> string aresult)
       \<Rightarrow> Layout \<Rightarrow> nat \<Rightarrow> (MetadataChunk \<times> string list) aresult" where
  "build_chunks find_blob cdc hash zstd ly target =
     rbind (stream_frames find_blob cdc hash zstd None
        (\<lambda>frame frames. Inr (frames @ [case bf_bytes frame of None \<Rightarrow> [] | Some bytes \<Rightarrow> bytes])) ly []) (\<lambda>(bounds, frames).
     rbind (files_metadata ly bounds) (\<lambda>manifest.
     rbind (assemble (max target 1) (zip frames (map (\<lambda>(a, b). b - a) bounds)) [] [] 0) (\<lambda>(infos, chunks).
     Inr (manifest\<lparr>mc_frames := infos\<rparr>, chunks))))"

text \<open>One archive file: at most one chunk.\<close>

definition build_archive ::
    "(oid \<Rightarrow> string option) \<Rightarrow> (string \<Rightarrow> (nat \<times> nat) list) \<Rightarrow> (string \<Rightarrow> string) \<Rightarrow> (string \<Rightarrow> string aresult)
       \<Rightarrow> Layout \<Rightarrow> (MetadataChunk \<times> string) aresult" where
  "build_archive find_blob cdc hash zstd ly =
     rbind (build_chunks find_blob cdc hash zstd ly (2 ^ 64 - 1)) (\<lambda>(manifest, chunks).
     if 1 < length chunks then Inl NotOneChunk
     else Inr (manifest, case chunks of [] \<Rightarrow> [] | c # _ \<Rightarrow> c))"

definition build_files_table :: "string list \<times> Blob list \<Rightarrow> MetadataChunk" where
  "build_files_table tree = (case tree of (gitlinks, blobs) \<Rightarrow>
     \<lparr>mc_frames = [], mc_files = map (\<lambda>(path, oid, mode).
        \<lparr>fe_path = path, fe_mode = mode, fe_blob_sha1 = oid, fe_fragments = []\<rparr>) blobs, mc_gitlinks = gitlinks\<rparr>)"

section \<open>Planning an incremental build\<close>

definition plan_size :: "(oid \<Rightarrow> nat option) \<Rightarrow> BaseIndex \<Rightarrow> Blob \<Rightarrow> (nat \<times> nat option) aresult" where
  "plan_size header_size b blob = (case blob of (path, oid, _) \<Rightarrow>
     (let from_header = (case header_size oid of None \<Rightarrow> Inl (BlobMissing oid)
            | Some n \<Rightarrow> if n < 2 ^ 64 then Inr (n, None) else Inl ArchiveTooLarge) in
      case bi_files b path of
        Some (i, start, len) \<Rightarrow> if i = oid then Inr (len, Some start) else from_header
      | None \<Rightarrow> from_header))"

text \<open>Runs of unchanged files, last first, as old start, old end and new start; and the length of the new stream.\<close>

fun segments_loop :: "(nat \<times> nat option) list \<Rightarrow> nat \<Rightarrow> (nat \<times> nat \<times> nat) list \<Rightarrow> ((nat \<times> nat \<times> nat) list \<times> nat) aresult" where
  "segments_loop [] new_pos segments = Inr (segments, new_pos)"
| "segments_loop ((sz, old_start) # rest) new_pos segments =
     (let segments' = (case old_start of None \<Rightarrow> segments
        | Some old \<Rightarrow> (case segments of
              (o0, o1, n0) # older \<Rightarrow>
                if o1 = old \<and> n0 + (o1 - o0) = new_pos then (o0, o1 + sz, n0) # older else (old, old + sz, new_pos) # segments
            | [] \<Rightarrow> [(old, old + sz, new_pos)])) in
      if 2 ^ 64 \<le> new_pos + sz then Inl StreamOverflow else segments_loop rest (new_pos + sz) segments')"

text \<open>The base frames, as index, start and end, that lie inside one segment, at their new place.\<close>

fun reuse_loop :: "(nat \<times> nat \<times> nat) list \<Rightarrow> (nat \<times> nat \<times> nat) list \<Rightarrow> (nat \<times> nat \<times> nat) list" where
  "reuse_loop segs [] = []"
| "reuse_loop segs ((k, fs, fe) # rest) =
     (if fe = fs then reuse_loop segs rest
      else (let segs = dropWhile (\<lambda>(o0, o1, n0). o1 \<le> fs) segs in
            (case segs of (o0, o1, n0) # _ \<Rightarrow> if o0 \<le> fs \<and> fe \<le> o1 then [(n0 + (fs - o0), n0 + (fe - o0), k)] else []
             | [] \<Rightarrow> []) @ reuse_loop segs rest))"

fun keep_loop :: "nat \<Rightarrow> nat \<Rightarrow> (nat \<times> nat \<times> nat) list \<Rightarrow> (nat \<times> nat \<times> nat) list option" where
  "keep_loop cdc_min pos [] = Some []"
| "keep_loop cdc_min pos ((ns, ne, k) # rest) =
     (if ns < pos then None
      else if 0 < ns - pos \<and> ns - pos < cdc_min then keep_loop cdc_min pos rest
      else map_option ((#) (ns, ne, k)) (keep_loop cdc_min ne rest))"

definition drop_short_tail :: "nat \<Rightarrow> nat \<Rightarrow> (nat \<times> nat \<times> nat) list \<Rightarrow> (nat \<times> nat \<times> nat) list" where
  "drop_short_tail cdc_min end_pos kept =
     rev (dropWhile (\<lambda>(_, ne, _). \<not> (end_pos - ne = 0 \<or> cdc_min \<le> end_pos - ne)) (rev kept))"

fun plan_gaps :: "nat \<Rightarrow> nat \<Rightarrow> (nat \<times> nat \<times> nat) list \<Rightarrow> (nat \<times> nat) list" where
  "plan_gaps end_pos pos [] = (if pos < end_pos then [(pos, end_pos)] else [])"
| "plan_gaps end_pos pos ((ns, ne, k) # rest) =
     (if pos < ns then [(pos, ns)] else []) @ plan_gaps end_pos ne rest"

record Plan =
  pl_reused :: "(nat \<times> nat \<times> nat) list"
  pl_gaps :: "(nat \<times> nat) list"

definition frame_spans :: "BaseIndex \<Rightarrow> (nat \<times> nat \<times> nat) list" where
  "frame_spans b = map (\<lambda>k. (k, bi_starts b ! k, bi_starts b ! (k + 1))) [0..<length (bi_frames b)]"

definition plan_incremental ::
    "(oid \<Rightarrow> nat option) \<Rightarrow> nat \<Rightarrow> Blob list \<Rightarrow> BaseIndex \<Rightarrow> (Plan \<times> nat list) option aresult" where
  "plan_incremental header_size cdc_min blobs b =
     rbind (map_result (plan_size header_size b) blobs) (\<lambda>sized.
     rbind (segments_loop sized 0 []) (\<lambda>(rev_segments, end_pos).
     if end_pos = 0 then Inr None
     else (let by_old = sort_key fst (rev rev_segments);
               reused = sort_key fst (reuse_loop by_old (frame_spans b)) in
           case keep_loop cdc_min 0 reused of
             None \<Rightarrow> Inr None
           | Some kept \<Rightarrow>
               (let kept = drop_short_tail cdc_min end_pos kept;
                    gaps = plan_gaps end_pos 0 kept in
                if kept = [] then Inr None
                else if end_pos div 2 < sum_list (map (\<lambda>(a, b). b - a) gaps) \<or> (\<exists>(a, b) \<in> set gaps. MAX_GAP_BYTES < b - a)
                then Inr None
                else Inr (Some (\<lparr>pl_reused = kept, pl_gaps = gaps\<rparr>, map fst sized))))))"

section \<open>Building the gaps\<close>

text \<open>The pieces of files that make up a gap, in order.\<close>

fun gap_pieces :: "nat \<Rightarrow> nat \<Rightarrow> (Blob \<times> nat \<times> nat) list \<Rightarrow> Piece list" where
  "gap_pieces g0 g1 [] = []"
| "gap_pieces g0 g1 (((path, oid, mode), start, sz) # rest) =
     (if g1 \<le> start then []
      else (if 0 < sz \<and> g0 < start + sz
            then [\<lparr>pc_oid = oid, pc_size = sz, pc_lo = max g0 start - start, pc_hi = min g1 (start + sz) - start\<rparr>] else [])
           @ gap_pieces g0 g1 rest)"

definition first_file :: "Layout \<Rightarrow> nat \<Rightarrow> nat" where
  "first_file ly g0 = length (takeWhile (\<lambda>start. start \<le> g0) (ly_starts ly)) - 1"

definition gap_buffer :: "string list \<Rightarrow> nat list \<Rightarrow> nat \<Rightarrow> string" where
  "gap_buffer datas owners g = concat (map fst (filter (\<lambda>(_, owner). owner = g) (zip datas owners)))"

definition cut_gaps ::
    "(oid \<Rightarrow> string option) \<Rightarrow> (string \<Rightarrow> (nat \<times> nat) list) \<Rightarrow> (string \<Rightarrow> string) \<Rightarrow> (string \<Rightarrow> string aresult)
       \<Rightarrow> BaseIndex \<Rightarrow> Layout \<Rightarrow> (nat \<times> nat) list \<Rightarrow> (nat \<times> nat \<times> BuiltFrame) list aresult" where
  "cut_gaps find_blob cdc hash zstd b ly gaps =
     (let files = zip (ly_blobs ly) (zip (ly_starts ly) (ly_sizes ly));
          owned = concat (map (\<lambda>(g, g0, g1). map (\<lambda>pc. (pc, g)) (gap_pieces g0 g1 (drop (first_file ly g0) files)))
            (zip [0..<length gaps] gaps)) in
      rbind (map_result (read_piece find_blob) (map fst owned)) (\<lambda>datas.
      let buffers = map (gap_buffer datas (map snd owned)) [0..<length gaps] in
      rbind (map_result (\<lambda>(buffer, g0, g1). if length buffer \<noteq> g1 - g0 then Inl (GapLength g0 g1) else Inr ())
        (zip buffers gaps)) (\<lambda>_.
      map_result (\<lambda>(buffer, g0, offset, len).
          rbind (build_frame hash zstd (Some b) (take len (drop offset buffer))) (\<lambda>frame.
          Inr (g0 + offset, g0 + offset + len, frame)))
        (concat (map (\<lambda>(buffer, g0, _). map (\<lambda>(offset, len). (buffer, g0, offset, len)) (cdc buffer)) (zip buffers gaps))))))"

definition kept_frame :: "BaseIndex \<Rightarrow> nat \<Rightarrow> BuiltFrame" where
  "kept_frame b k = (let frame = bi_frames b ! k in
     \<lparr>bf_raw_hash = af_raw_hash frame, bf_raw_len = af_raw_len frame, bf_chunk_hash = af_chunk_hash frame,
      bf_compressed_len = af_compressed_len frame, bf_bytes = None, bf_base_frame = Some k\<rparr>)"

text \<open>What is handed to the bundler, in order, with the bounds: kept frames that start before \<open>stop\<close>.\<close>

fun emit_kept :: "BaseIndex \<Rightarrow> (BuiltFrame \<Rightarrow> Bundler \<Rightarrow> Bundler aresult) \<Rightarrow> nat \<Rightarrow> (nat \<times> nat \<times> nat) list \<Rightarrow> Bundler
    \<Rightarrow> ((nat \<times> nat) list \<times> (nat \<times> nat \<times> nat) list \<times> Bundler) aresult" where
  "emit_kept b push stop [] bd = Inr ([], [], bd)"
| "emit_kept b push stop ((start, stop', k) # kept) bd =
     (if start < stop
      then rbind (push (kept_frame b k) bd) (\<lambda>bd.
           rbind (emit_kept b push stop kept bd) (\<lambda>(bounds, kept, bd). Inr ((start, stop') # bounds, kept, bd)))
      else Inr ([], (start, stop', k) # kept, bd))"

fun emit_cuts :: "BaseIndex \<Rightarrow> (BuiltFrame \<Rightarrow> Bundler \<Rightarrow> Bundler aresult) \<Rightarrow> (nat \<times> nat \<times> BuiltFrame) list
    \<Rightarrow> (nat \<times> nat \<times> nat) list \<Rightarrow> Bundler \<Rightarrow> ((nat \<times> nat) list \<times> (nat \<times> nat \<times> nat) list \<times> Bundler) aresult" where
  "emit_cuts b push [] kept bd = Inr ([], kept, bd)"
| "emit_cuts b push ((start, stop, frame) # cuts) kept bd =
     rbind (emit_kept b push start kept bd) (\<lambda>(before, kept, bd).
     rbind (push frame bd) (\<lambda>bd.
     rbind (emit_cuts b push cuts kept bd) (\<lambda>(after, kept, bd).
     Inr (before @ (start, stop) # after, kept, bd))))"

fun gap_batches :: "(((nat \<times> nat) list) \<Rightarrow> (nat \<times> nat \<times> BuiltFrame) list aresult) \<Rightarrow> BaseIndex \<Rightarrow> (BuiltFrame \<Rightarrow> Bundler \<Rightarrow> Bundler aresult)
    \<Rightarrow> (nat \<times> nat) list list \<Rightarrow> (nat \<times> nat \<times> nat) list \<Rightarrow> Bundler \<Rightarrow> ((nat \<times> nat) list \<times> (nat \<times> nat \<times> nat) list \<times> Bundler) aresult" where
  "gap_batches cutter b push [] kept bd = Inr ([], kept, bd)"
| "gap_batches cutter b push (batch # rest) kept bd =
     rbind (cutter batch) (\<lambda>cuts.
     rbind (emit_cuts b push cuts kept bd) (\<lambda>(before, kept, bd).
     rbind (gap_batches cutter b push rest kept bd) (\<lambda>(after, kept, bd). Inr (before @ after, kept, bd))))"

fun tiles :: "(nat \<times> nat) list \<Rightarrow> bool" where
  "tiles (a # b # rest) = (snd a = fst b \<and> tiles (b # rest))"
| "tiles _ = True"

definition build_gaps ::
    "(oid \<Rightarrow> string option) \<Rightarrow> (string \<Rightarrow> (nat \<times> nat) list) \<Rightarrow> (string \<Rightarrow> string) \<Rightarrow> (string \<Rightarrow> string aresult)
       \<Rightarrow> BaseIndex \<Rightarrow> (BuiltFrame \<Rightarrow> Bundler \<Rightarrow> Bundler aresult) \<Rightarrow> Layout \<Rightarrow> Plan \<Rightarrow> Bundler \<Rightarrow> ((nat \<times> nat) list \<times> nat \<times> Bundler) aresult" where
  "build_gaps find_blob cdc hash zstd b push ly plan bd =
     rbind (gap_batches (cut_gaps find_blob cdc hash zstd b ly) b push
        (windows MAX_GAP_BYTES (\<lambda>(a, b). b - a) (pl_gaps plan)) (pl_reused plan) bd) (\<lambda>(before, kept, bd).
     rbind (emit_kept b push (2 ^ 64 - 1) kept bd) (\<lambda>(after, _, bd).
     let bounds = before @ after in
     if bounds \<noteq> [] \<and> fst (hd bounds) = 0 \<and> snd (last bounds) = ly_total ly \<and> tiles bounds
     then Inr (bounds, sum_list (map (\<lambda>(a, b). b - a) (pl_gaps plan)), bd) else Inl NotTiled))"

section \<open>Whole builds\<close>

record ArchiveBuildOutput =
  ao_bundles :: "string list"
  ao_new_bundles :: "string list"
  ao_metadata :: MetadataChunk
  ao_frames :: "ArchiveFrame list"
  ao_reuse :: ArchiveReuse
  ao_cas :: "string \<Rightarrow> string option"

definition ok_option :: "'a aresult \<Rightarrow> 'a option" where
  "ok_option r = (case r of Inl _ \<Rightarrow> None | Inr x \<Rightarrow> Some x)"

definition build_into_cas ::
    "(oid \<Rightarrow> string option) \<Rightarrow> (oid \<Rightarrow> nat option) \<Rightarrow> (string \<Rightarrow> (nat \<times> nat) list) \<Rightarrow> (string \<Rightarrow> (nat \<times> nat) list)
       \<Rightarrow> (string \<Rightarrow> string) \<Rightarrow> (string \<Rightarrow> string aresult) \<Rightarrow> nat \<Rightarrow> string list \<times> Blob list \<Rightarrow> (string \<Rightarrow> string option)
       \<Rightarrow> (string \<Rightarrow> nat \<Rightarrow> nat \<Rightarrow> string option) option \<Rightarrow> ArchiveBase option \<Rightarrow> nat \<Rightarrow> ArchiveBuildOutput aresult" where
  "build_into_cas find_blob header_size stream_cdc slice_cdc hash zstd cdc_min tree cas storage base bundle_size =
     (case tree of (gitlinks, blobs) \<Rightarrow>
      let base_index = Option.bind base (\<lambda>b. ok_option (base_index_new b));
          push = bundler_push hash storage base_index;
          bundler = bundler_new cas bundle_size in
      rbind (case base_index of Some b \<Rightarrow> plan_incremental header_size cdc_min blobs b | None \<Rightarrow> Inr None) (\<lambda>plan.
      rbind (case (plan, base_index) of
          (Some (plan, sizes), Some b) \<Rightarrow>
            rbind (layout_new blobs gitlinks sizes) (\<lambda>ly.
            rbind (build_gaps find_blob slice_cdc hash zstd b push ly plan bundler) (\<lambda>(bounds, bytes_read, bd).
            Inr (ly, bounds, bytes_read, bd)))
        | _ \<Rightarrow>
            rbind (blob_sizes header_size blobs) (\<lambda>sizes.
            rbind (layout_new blobs gitlinks sizes) (\<lambda>ly.
            rbind (stream_frames find_blob stream_cdc hash zstd base_index push ly bundler) (\<lambda>(bounds, bd).
            Inr (ly, bounds, ly_total ly, bd))))) (\<lambda>(ly, bounds, bytes_read, bd).
      rbind (bundler_close hash storage base_index bd) (\<lambda>bd.
      rbind (files_metadata ly bounds) (\<lambda>metadata.
      Inr \<lparr>ao_bundles = bd_bundles bd, ao_new_bundles = bd_new_bundles bd,
        ao_metadata = metadata\<lparr>mc_frames := bd_infos bd\<rparr>, ao_frames = bd_frames bd,
        ao_reuse = (bd_reuse bd)\<lparr>ru_incremental := plan \<noteq> None, ru_bytes_read := bytes_read\<rparr>, ao_cas = bd_cas bd\<rparr>)))))"

section \<open>Tail builds\<close>

definition fragments_by_blob :: "FileEntry list \<Rightarrow> oid \<Rightarrow> Fragment list option" where
  "fragments_by_blob files =
     map_of (rev (map (\<lambda>f. (fe_blob_sha1 f, fe_fragments f)) (filter (\<lambda>f. fe_fragments f \<noteq> []) files)))"

text \<open>The blobs the base does not hold, each once.\<close>

fun new_blobs :: "(oid \<Rightarrow> Fragment list option) \<Rightarrow> oid list \<Rightarrow> Blob list \<Rightarrow> Blob list" where
  "new_blobs by_blob seen [] = []"
| "new_blobs by_blob seen ((path, oid, mode) # rest) =
     (if by_blob oid = None \<and> oid \<notin> set seen then (path, oid, mode) # new_blobs by_blob (oid # seen) rest
      else new_blobs by_blob seen rest)"

definition used_bundle :: "FrameInfo list \<Rightarrow> nat \<Rightarrow> Fragment \<Rightarrow> nat aresult" where
  "used_bundle infos bundle_count fragment =
     (if length infos \<le> unat (frame_index fragment) then Inl IndexPanic
      else (let j = unat (chunk_index (infos ! unat (frame_index fragment))) in
            if bundle_count \<le> j then Inl IndexPanic else Inr j))"

fun number_live :: "nat \<Rightarrow> bool list \<Rightarrow> 32 word list aresult" where
  "number_live n [] = Inr []"
| "number_live n (live # rest) =
     (if live then rbind (to_u32 n) (\<lambda>i. rbind (number_live (n + 1) rest) (\<lambda>is. Inr (i # is)))
      else rbind (number_live n rest) (\<lambda>is. Inr (-1 # is)))"

fun keep_frames :: "32 word list \<Rightarrow> nat \<Rightarrow> (FrameInfo \<times> ArchiveFrame) list
    \<Rightarrow> (32 word list \<times> FrameInfo list \<times> ArchiveFrame list) aresult" where
  "keep_frames bundle_index n [] = Inr ([], [], [])"
| "keep_frames bundle_index n ((info, frame) # rest) =
     (if length bundle_index \<le> unat (chunk_index info) then Inl IndexPanic
      else (let ci = bundle_index ! unat (chunk_index info) in
            if ci = -1 then rbind (keep_frames bundle_index n rest) (\<lambda>(is, infos, frames). Inr (-1 # is, infos, frames))
            else rbind (to_u32 n) (\<lambda>i. rbind (keep_frames bundle_index (n + 1) rest) (\<lambda>(is, infos, frames).
                 Inr (i # is, info\<lparr>chunk_index := ci\<rparr> # infos, frame # frames)))))"

definition empty_fragment :: Fragment where
  "empty_fragment = \<lparr>frame_index = 0, frame_offset = 0, frag_raw_len = 0\<rparr>"

text \<open>The frames, bundles and fragments of the streamed tail, before they are moved behind the base's.\<close>

definition build_tail ::
    "(oid \<Rightarrow> string option) \<Rightarrow> (string \<Rightarrow> (nat \<times> nat) list) \<Rightarrow> (string \<Rightarrow> string) \<Rightarrow> (string \<Rightarrow> string aresult)
       \<Rightarrow> nat \<Rightarrow> (string \<Rightarrow> string option) \<Rightarrow> (Blob \<times> nat) list \<Rightarrow> (Layout \<times> MetadataChunk \<times> Bundler) aresult" where
  "build_tail find_blob cdc hash zstd bundle_size cas blobs =
     rbind (layout_new (map fst blobs) [] (map snd blobs)) (\<lambda>ly.
     rbind (stream_frames find_blob cdc hash zstd None (bundler_push hash None None) ly (bundler_new cas bundle_size)) (\<lambda>(bounds, bd).
     rbind (bundler_close hash None None bd) (\<lambda>bd.
     rbind (files_table ly bounds) (\<lambda>table. Inr (ly, table, bd)))))"

definition shift_fragment :: "32 word \<Rightarrow> Fragment \<Rightarrow> Fragment" where
  "shift_fragment frame_base f = f\<lparr>frame_index := frame_index f + frame_base\<rparr>"

text \<open>
  The tail added to the kept frames: what each new blob's fragments are, and the whole archive's tables.  Empty blobs
  need no bytes and point at the first frame, unless there would be no frame at all.
\<close>

definition add_tail ::
    "(oid \<Rightarrow> string option) \<Rightarrow> (string \<Rightarrow> (nat \<times> nat) list) \<Rightarrow> (string \<Rightarrow> string) \<Rightarrow> (string \<Rightarrow> string aresult)
       \<Rightarrow> nat \<Rightarrow> (Blob \<times> nat) list \<Rightarrow> FrameInfo list \<Rightarrow> ArchiveFrame list \<Rightarrow> string list \<Rightarrow> (string \<Rightarrow> string option)
       \<Rightarrow> ((oid \<times> Fragment list) list \<times> FrameInfo list \<times> ArchiveFrame list \<times> string list \<times> string list \<times> ArchiveReuse
            \<times> (string \<Rightarrow> string option)) aresult" where
  "add_tail find_blob cdc hash zstd bundle_size sized frame_infos frames bundles cas =
     (let apart = (frames \<noteq> [] \<or> (\<exists>sz \<in> set (map snd sized). 0 < sz));
          empties = (if apart then map (\<lambda>((_, oid, _), _). (oid, [empty_fragment])) (filter (\<lambda>(_, sz). sz = 0) sized) else []);
          full = (if apart then filter (\<lambda>(_, sz). sz \<noteq> 0) sized else sized);
          reuse = no_reuse\<lparr>ru_incremental := True, ru_tail := True, ru_frames_reused := length frames,
            ru_bundles_reused := length bundles\<rparr> in
      if full = [] then Inr (empties, frame_infos, frames, bundles, [], reuse, cas)
      else rbind (build_tail find_blob cdc hash zstd bundle_size cas full) (\<lambda>(ly, table, bd).
           rbind (to_u32 (length frames)) (\<lambda>frame_base.
           rbind (to_u32 (length bundles)) (\<lambda>bundle_base.
           Inr (rev (map (\<lambda>((_, oid, _), file). (oid, map (shift_fragment frame_base) (fe_fragments file)))
                  (zip (ly_blobs ly) (mc_files table))) @ empties,
                frame_infos @ map (\<lambda>i. i\<lparr>chunk_index := chunk_index i + bundle_base\<rparr>) (bd_infos bd),
                frames @ bd_frames bd, bundles @ bd_bundles bd, bd_new_bundles bd,
                reuse\<lparr>ru_bytes_read := ly_total ly, ru_frames_built := ru_frames_built (bd_reuse bd),
                  ru_bundles_built := ru_bundles_built (bd_reuse bd)\<rparr>, bd_cas bd)))))"

definition tail_entry ::
    "32 word list \<Rightarrow> (oid \<Rightarrow> Fragment list option) \<Rightarrow> (oid \<Rightarrow> Fragment list option) \<Rightarrow> Blob \<Rightarrow> FileEntry aresult" where
  "tail_entry frame_index' by_blob tail_fragments blob = (case blob of (path, oid, mode) \<Rightarrow>
     rbind (case by_blob oid of
        Some fragments \<Rightarrow> Inr (map (\<lambda>f. f\<lparr>frame_index := frame_index' ! unat (frame_index f)\<rparr>) fragments)
      | None \<Rightarrow> ok_or TailBlobMissing (tail_fragments oid)) (\<lambda>fragments.
     Inr \<lparr>fe_path = path, fe_mode = mode, fe_blob_sha1 = oid, fe_fragments = fragments\<rparr>))"

definition build_tail_into_cas ::
    "(oid \<Rightarrow> string option) \<Rightarrow> (oid \<Rightarrow> nat option) \<Rightarrow> (string \<Rightarrow> (nat \<times> nat) list) \<Rightarrow> (string \<Rightarrow> string)
       \<Rightarrow> (string \<Rightarrow> string aresult) \<Rightarrow> string list \<times> Blob list \<Rightarrow> (string \<Rightarrow> string option) \<Rightarrow> ArchiveBase \<Rightarrow> nat
       \<Rightarrow> ArchiveBuildOutput aresult" where
  "build_tail_into_cas find_blob header_size cdc hash zstd tree cas base bundle_size =
     (case tree of (gitlinks, blobs) \<Rightarrow>
      let infos = mc_frames (ab_metadata base) in
      if length infos \<noteq> length (ab_frames base) then Inl BaseFrameCount
      else (let by_blob = fragments_by_blob (mc_files (ab_metadata base));
                used = concat (map (\<lambda>(_, oid, _). case by_blob oid of None \<Rightarrow> [] | Some fs \<Rightarrow> fs) blobs) in
        rbind (map_result (used_bundle infos (length (ab_bundles base))) used) (\<lambda>live_indexes.
        let live = map (\<lambda>k. k \<in> set live_indexes) [0..<length (ab_bundles base)] in
        rbind (number_live 0 live) (\<lambda>bundle_index.
        let bundles = map snd (filter fst (zip live (ab_bundles base))) in
        rbind (keep_frames bundle_index 0 (zip infos (ab_frames base))) (\<lambda>(new_index, frame_infos, frames).
        let tail_blobs = new_blobs by_blob [] blobs in
        rbind (blob_sizes header_size tail_blobs) (\<lambda>sizes.
        rbind (add_tail find_blob cdc hash zstd bundle_size (zip tail_blobs sizes) frame_infos frames bundles cas)
          (\<lambda>(tail_fragments, out_infos, out_frames, out_bundles, new_bundles, reuse, cas).
        rbind (map_result (tail_entry new_index by_blob (map_of tail_fragments)) blobs) (\<lambda>files.
        Inr \<lparr>ao_bundles = out_bundles, ao_new_bundles = new_bundles,
          ao_metadata = \<lparr>mc_frames = out_infos, mc_files = files, mc_gitlinks = gitlinks\<rparr>,
          ao_frames = out_frames, ao_reuse = reuse, ao_cas = cas\<rparr>))))))))"

end
