(* ===== verification/Archive_Frags.thy ===== *)
theory Archive_Frags
  imports Archive
begin

text \<open>
  Fragments are exact: reading a file's fragments out of the raw frames gives back the file's range of the stream,
  and every fragment lies inside its frame.
\<close>

section \<open>Ranges of a stream\<close>

definition seg :: "'a list \<Rightarrow> nat \<Rightarrow> nat \<Rightarrow> 'a list" where
  "seg s a b = take (b - a) (drop a s)"

lemma seg_empty [simp]: "b \<le> a \<Longrightarrow> seg s a b = []"
  by (simp add: seg_def)

lemma seg_all [simp]: "seg s 0 (length s) = s"
  by (simp add: seg_def)

lemma length_seg [simp]: "b \<le> length s \<Longrightarrow> length (seg s a b) = b - a"
  by (simp add: seg_def)

lemma seg_append: "a \<le> b \<Longrightarrow> b \<le> c \<Longrightarrow> seg s a b @ seg s b c = seg s a c"
proof -
  assume "a \<le> b" "b \<le> c"
  then have "take (c - a) (drop a s) = take (b - a) (drop a s) @ take (c - b) (drop (b - a) (drop a s))"
    using take_add[of "b - a" "c - b" "drop a s"] by simp
  then show ?thesis using \<open>a \<le> b\<close> by (simp add: seg_def)
qed

lemma seg_seg: "a + y \<le> b \<Longrightarrow> seg (seg s a b) x y = seg s (a + x) (a + y)"
  by (simp add: seg_def drop_take min_def) (metis add.commute)

lemma seg_in_prefix: "b \<le> length p \<Longrightarrow> seg (p @ q) a b = seg p a b"
  by (cases "a \<le> length p") (simp_all add: seg_def)

lemma seg_in_suffix: "length p \<le> a \<Longrightarrow> seg (p @ q) a b = seg q (a - length p) (b - length p)"
  by (simp add: seg_def)

section \<open>Frames as spans of the stream\<close>

fun spans :: "nat \<Rightarrow> 'a list list \<Rightarrow> (nat \<times> nat) list" where
  "spans a [] = []"
| "spans a (r # rs) = (a, a + length r) # spans (a + length r) rs"

lemma length_spans [simp]: "length (spans a rs) = length rs"
  by (induction rs arbitrary: a) auto

definition pos_of :: "'a list list \<Rightarrow> nat \<Rightarrow> nat" where
  "pos_of rs k = length (concat (take k rs))"

lemma pos_of_0 [simp]: "pos_of rs 0 = 0"
  by (simp add: pos_of_def)

lemma pos_of_Suc: "k < length rs \<Longrightarrow> pos_of rs (Suc k) = pos_of rs k + length (rs ! k)"
  by (simp add: pos_of_def take_Suc_conv_app_nth)

lemma pos_of_end: "length rs \<le> k \<Longrightarrow> pos_of rs k = length (concat rs)"
  by (simp add: pos_of_def)

lemma pos_of_le: "pos_of rs k \<le> length (concat rs)"
proof -
  have "concat rs = concat (take k rs) @ concat (drop k rs)" by (metis append_take_drop_id concat_append)
  then show ?thesis by (metis length_append le_add1 pos_of_def)
qed

lemma pos_of_mono: "k \<le> l \<Longrightarrow> pos_of rs k \<le> pos_of rs l"
proof (induction l)
  case (Suc l)
  then show ?case by (cases "l < length rs") (auto simp: pos_of_Suc pos_of_end le_Suc_eq)
qed simp

lemma spans_nth: "k < length rs \<Longrightarrow> spans a rs ! k = (a + pos_of rs k, a + pos_of rs (Suc k))"
  by (induction rs arbitrary: a k) (auto simp: nth_Cons pos_of_def split: nat.splits)

lemma frame_seg: "k < length rs \<Longrightarrow> rs ! k = seg (concat rs) (pos_of rs k) (pos_of rs (Suc k))"
proof -
  assume k: "k < length rs"
  have "concat rs = concat (take k rs) @ rs ! k @ concat (drop (Suc k) rs)"
    by (subst id_take_nth_drop[OF k]) simp
  then show ?thesis using k by (simp add: seg_in_suffix pos_of_Suc pos_of_def[of rs k, symmetric] seg_in_prefix)
qed

section \<open>Reading fragments\<close>

definition frag_bytes :: "string list \<Rightarrow> Fragment \<Rightarrow> string" where
  "frag_bytes raws f = seg (raws ! unat (frame_index f)) (unat (frame_offset f)) (unat (frame_offset f) + unat (frag_raw_len f))"

definition file_bytes :: "string list \<Rightarrow> Fragment list \<Rightarrow> string" where
  "file_bytes raws fs = concat (map (frag_bytes raws) fs)"

definition frag_in :: "string list \<Rightarrow> Fragment \<Rightarrow> bool" where
  "frag_in raws f \<longleftrightarrow> unat (frame_index f) < length raws
     \<and> unat (frame_offset f) + unat (frag_raw_len f) \<le> length (raws ! unat (frame_index f))"

lemma length_frag_bytes: "frag_in raws f \<Longrightarrow> length (frag_bytes raws f) = unat (frag_raw_len f)"
  by (simp add: frag_in_def frag_bytes_def)

lemma length_file_bytes: "(\<And>f. f \<in> set fs \<Longrightarrow> frag_in raws f) \<Longrightarrow> length (file_bytes raws fs) = sum_list (map (\<lambda>f. unat (frag_raw_len f)) fs)"
  by (induction fs) (simp_all add: file_bytes_def length_frag_bytes)

lemma to_u32_Inr: "to_u32 n = Inr w \<longleftrightarrow> n < 2 ^ 32 \<and> w = of_nat n"
  by (auto simp: to_u32_def)

lemma unat_of_nat32: "n < 2 ^ 32 \<Longrightarrow> unat (of_nat n :: 32 word) = n"
  by (simp add: unat_of_nat take_bit_nat_eq_self)

lemma mk_fragment_Inr:
  "mk_fragment i off len = Inr f \<Longrightarrow> unat (frame_index f) = i \<and> unat (frame_offset f) = off \<and> unat (frag_raw_len f) = len"
  by (auto simp: mk_fragment_def rbind_Inr to_u32_Inr unat_of_nat32)

lemma cut_range_exact:
  assumes "cut_range (spans 0 raws) start stop k = Inr fs" "start < stop" "stop \<le> length (concat raws)"
  shows "file_bytes raws fs = seg (concat raws) (max start (pos_of raws k)) stop \<and> (\<forall>f \<in> set fs. frag_in raws f)"
  using assms
proof (induction "spans 0 raws" start stop k arbitrary: fs rule: cut_range.induct)
  case (1 start stop k)
  show ?case
  proof (cases "k < length raws \<and> pos_of raws k < stop")
    case False
    then have "fs = []" using "1.prems"(1) by (auto simp: cut_range.simps[of "spans 0 raws"] spans_nth split: if_splits)
    moreover have "stop \<le> pos_of raws k" using False "1.prems"(3) by (cases "k < length raws") (auto simp: pos_of_end)
    ultimately show ?thesis by (simp add: file_bytes_def)
  next
    case True
    let ?p = "pos_of raws k" and ?q = "pos_of raws (Suc k)"
    let ?os = "max start ?p" and ?oe = "min stop ?q"
    have span: "spans 0 raws ! k = (?p, ?q)" using True by (simp add: spans_nth)
    have frame: "raws ! k = seg (concat raws) ?p ?q" "length (raws ! k) = ?q - ?p" "?p \<le> ?q"
      using True frame_seg[of k raws] by (auto simp: pos_of_Suc)
    have cond: "k < length (spans 0 raws) \<and> fst (spans 0 raws ! k) < stop" using True span by simp
    have step: "(if ?os < ?oe then rbind (mk_fragment k (?os - ?p) (?oe - ?os)) (\<lambda>f.
        rbind (cut_range (spans 0 raws) start stop (k + 1)) (\<lambda>fs. Inr (f # fs)))
      else cut_range (spans 0 raws) start stop (k + 1)) = Inr fs"
      using "1.prems"(1) True
      by (simp only: cut_range.simps[of "spans 0 raws" start stop k] span fst_conv snd_conv Let_def length_spans if_True simp_thms)
    show ?thesis
    proof (cases "?os < ?oe")
      case cut: True
      then obtain f rest where f: "mk_fragment k (?os - ?p) (?oe - ?os) = Inr f"
        and rest: "cut_range (spans 0 raws) start stop (k + 1) = Inr rest" and fs: "fs = f # rest"
        using step by (auto simp: rbind_Inr)
      have IH: "file_bytes raws rest = seg (concat raws) (max start (pos_of raws (k + 1))) stop" "\<forall>f \<in> set rest. frag_in raws f"
        using "1.hyps"(1)[OF cond refl refl _ rest "1.prems"(2,3)] cut by (simp_all add: span)
      have num: "unat (frame_index f) = k" "unat (frame_offset f) = ?os - ?p" "unat (frag_raw_len f) = ?oe - ?os"
        using mk_fragment_Inr[OF f] by simp_all
      have "frag_bytes raws f = seg (raws ! k) (?os - ?p) (?oe - ?p)"
        using num cut by (simp add: frag_bytes_def)
      also have "\<dots> = seg (concat raws) ?os ?oe"
        unfolding frame(1) using cut frame(3) by (subst seg_seg) auto
      finally have "frag_bytes raws f = seg (concat raws) ?os ?oe" .
      moreover have "seg (concat raws) ?os ?oe @ seg (concat raws) (max start ?q) stop = seg (concat raws) ?os stop"
      proof (cases "?q < stop")
        case True
        then have "?oe = ?q" "max start ?q = ?q" using cut by auto
        then show ?thesis using cut True by (simp add: seg_append)
      next
        case False
        then have "?oe = stop" "stop \<le> max start ?q" by auto
        then show ?thesis by simp
      qed
      moreover have "frag_in raws f" using True num cut frame by (simp add: frag_in_def)
      ultimately show ?thesis using IH fs by (simp add: file_bytes_def)
    next
      case none: False
      then have rest: "cut_range (spans 0 raws) start stop (k + 1) = Inr fs" using step by (simp only: if_False)
      have "max start ?p = max start ?q" using none "1.prems"(2) True frame(3) by linarith
      moreover have "file_bytes raws fs = seg (concat raws) (max start (pos_of raws (k + 1))) stop \<and> (\<forall>f \<in> set fs. frag_in raws f)"
        using "1.hyps"(2)[OF cond refl refl _ rest "1.prems"(2,3)] none by (simp add: span)
      ultimately show ?thesis by simp
    qed
  qed
qed

lemma advance_hint_pos:
  assumes "pos_of raws hint \<le> start"
  shows "pos_of raws (advance_hint (spans 0 raws) start hint) \<le> start"
  using assms
proof (induction "spans 0 raws" start hint rule: advance_hint.induct)
  case (1 start hint)
  then show ?case by (subst advance_hint.simps) (auto simp: spans_nth)
qed

lemma empty_index_in:
  assumes "idx < length raws" "pos_of raws idx \<le> start" "start \<le> length (concat raws)"
  shows "empty_index (spans 0 raws) start idx < length raws
    \<and> start - pos_of raws (empty_index (spans 0 raws) start idx) \<le> length (raws ! empty_index (spans 0 raws) start idx)"
  using assms
proof (induction "spans 0 raws" start idx rule: empty_index.induct)
  case (1 start idx)
  show ?case
  proof (cases "idx + 1 < length raws \<and> pos_of raws (Suc idx) \<le> start")
    case True
    then have "empty_index (spans 0 raws) start idx = empty_index (spans 0 raws) start (idx + 1)"
      by (subst empty_index.simps) (simp add: spans_nth)
    then show ?thesis using "1.hyps" "1.prems" True by (simp add: spans_nth)
  next
    case False
    then have "empty_index (spans 0 raws) start idx = idx"
      using "1.prems" by (subst empty_index.simps) (auto simp: spans_nth)
    moreover have "start \<le> pos_of raws (Suc idx)"
      using False "1.prems" by (cases "idx + 1 < length raws") (auto simp: pos_of_end)
    ultimately show ?thesis using "1.prems" by (simp add: pos_of_Suc)
  qed
qed

lemma fragments_for_exact:
  assumes "fragments_for (spans 0 raws) start len hint = Inr (fs, hint')" "pos_of raws hint \<le> start"
    "start + len \<le> length (concat raws)"
  shows "file_bytes raws fs = seg (concat raws) start (start + len) \<and> fs \<noteq> [] \<and> (\<forall>f \<in> set fs. frag_in raws f)
    \<and> pos_of raws hint' \<le> start"
proof (cases "len = 0")
  case True
  let ?i = "empty_index (spans 0 raws) start (min hint (length raws - 1))"
  have ne: "raws \<noteq> []" using assms(1) by (cases raws) (auto simp: fragments_for_def)
  then have bounds: "spans 0 raws \<noteq> []" by (cases raws) auto
  obtain f where f: "mk_fragment ?i (start - fst (spans 0 raws ! ?i)) 0 = Inr f" "fs = [f]" "hint' = hint"
    using assms(1) True bounds by (auto simp: fragments_for_def Let_def rbind_Inr)
  have "pos_of raws (min hint (length raws - 1)) \<le> start"
    using assms(2) pos_of_mono[of "min hint (length raws - 1)" hint raws] by linarith
  then have i: "?i < length raws" "start - pos_of raws ?i \<le> length (raws ! ?i)"
    using empty_index_in[of "min hint (length raws - 1)" raws start] ne assms(3) True by (cases raws, auto)+
  have "frag_in raws f" "frag_bytes raws f = []"
    using mk_fragment_Inr[OF f(1)] i by (simp_all add: frag_in_def frag_bytes_def spans_nth)
  then show ?thesis using f True assms(2) by (simp add: file_bytes_def)
next
  case False
  let ?h = "advance_hint (spans 0 raws) start hint"
  have cut: "cut_range (spans 0 raws) start (start + len) ?h = Inr fs" "hint' = ?h"
    using assms(1) False by (auto simp: fragments_for_def Let_def rbind_Inr split: if_splits)
  have h: "pos_of raws ?h \<le> start" using assms(2) by (rule advance_hint_pos)
  then have bytes: "file_bytes raws fs = seg (concat raws) start (start + len)" "\<forall>f \<in> set fs. frag_in raws f"
    using cut_range_exact[OF cut(1)] False assms(3) by (simp_all add: max_def)
  then have "length (file_bytes raws fs) = len" using assms(3) by simp
  then have "fs \<noteq> []" using False by (auto simp: file_bytes_def)
  then show ?thesis using bytes cut(2) h by simp
qed

section \<open>The files table\<close>

text \<open>An entry of the table that is exact for a blob of the given content.\<close>

definition entry_exact :: "string list \<Rightarrow> Blob \<Rightarrow> string \<Rightarrow> FileEntry \<Rightarrow> bool" where
  "entry_exact raws blob content file \<longleftrightarrow> blob = (fe_path file, fe_blob_sha1 file, fe_mode file)
     \<and> fe_fragments file \<noteq> [] \<and> (\<forall>f \<in> set (fe_fragments file). frag_in raws f)
     \<and> file_bytes raws (fe_fragments file) = content"

fun starts_from :: "nat \<Rightarrow> string list \<Rightarrow> nat list" where
  "starts_from a [] = []"
| "starts_from a (c # cs) = a # starts_from (a + length c) cs"

lemma files_loop_exact:
  assumes "files_loop (spans 0 raws) hint (zip blobs (zip (starts_from a contents) (map length contents))) = Inr files"
    "length blobs = length contents" "concat raws = before @ concat contents @ after" "length before = a" "pos_of raws hint \<le> a"
  shows "list_all2 (\<lambda>(blob, content) file. entry_exact raws blob content file) (zip blobs contents) files"
  using assms
proof (induction blobs contents arbitrary: hint a before files rule: list_induct2')
  case (4 blob blobs c contents)
  obtain path oid mode where blob: "blob = (path, oid, mode)" by (cases blob) auto
  have len: "a + length c \<le> length (concat raws)" using "4.prems"(3,4) by simp
  obtain fs next' files' where fs: "fragments_for (spans 0 raws) a (length c) hint = Inr (fs, next')"
    and rest: "files_loop (spans 0 raws) next' (zip blobs (zip (starts_from (a + length c) contents) (map length contents))) = Inr files'"
    and files: "files = \<lparr>fe_path = path, fe_mode = mode, fe_blob_sha1 = oid, fe_fragments = fs\<rparr> # files'"
    using "4.prems"(1) by (auto simp: blob rbind_Inr)
  have ex: "file_bytes raws fs = seg (concat raws) a (a + length c)" "fs \<noteq> []" "\<forall>f \<in> set fs. frag_in raws f" "pos_of raws next' \<le> a"
    using fragments_for_exact[OF fs "4.prems"(5) len] by simp_all
  moreover have "seg (concat raws) a (a + length c) = c"
    using "4.prems"(3,4) by (simp add: seg_in_suffix seg_in_prefix)
  ultimately show ?case
    using "4.IH"[OF rest, of "before @ c"] "4.prems"(2,3,4) by (simp add: files blob entry_exact_def)
qed auto

end
