(* ===== verification/Archive_Bundles.thy ===== *)
theory Archive_Bundles
  imports Archive_Frags
begin

text \<open>
  Bundles are exact: whatever frames are pushed, every frame's compressed bytes lie where the frame table says, in the
  bundle whose content has the recorded name.  Frames and whole bundles taken from a base are those the base holds;
  this rests on the base's own exactness and on the hash: no other byte string has the hash of a string the base
  recorded, and hashes have one length.
\<close>

section \<open>Exact frames and frame tables\<close>

definition inflates :: "(string \<Rightarrow> nat \<Rightarrow> string option) \<Rightarrow> string \<Rightarrow> string \<Rightarrow> bool" where
  "inflates unz raw c \<longleftrightarrow> (c = [] \<and> raw = []) \<or> unz c (length raw) = Some raw"

definition codec_ok :: "(string \<Rightarrow> string aresult) \<Rightarrow> (string \<Rightarrow> nat \<Rightarrow> string option) \<Rightarrow> bool" where
  "codec_ok zstd unz \<longleftrightarrow> (\<forall>raw c. raw \<noteq> [] \<longrightarrow> zstd raw = Inr c \<longrightarrow> unz c (length raw) = Some raw)"

definition resists :: "(string \<Rightarrow> string) \<Rightarrow> string \<Rightarrow> bool" where
  "resists hash x \<longleftrightarrow> (\<forall>y. hash y = hash x \<longrightarrow> y = x)"

text \<open>A frame is described by its raw and its compressed bytes.\<close>

type_synonym frame_data = "string \<times> string"

definition frame_ok :: "(string \<Rightarrow> string) \<Rightarrow> (string \<Rightarrow> nat \<Rightarrow> string option) \<Rightarrow> ArchiveFrame \<Rightarrow> frame_data \<Rightarrow> bool" where
  "frame_ok hash unz f d \<longleftrightarrow> (case d of (raw, c) \<Rightarrow>
     f = \<lparr>af_raw_hash = hash raw, af_chunk_hash = hash c, af_compressed_len = length c, af_raw_len = length raw\<rparr>
     \<and> inflates unz raw c)"

definition info_key :: "FrameInfo \<Rightarrow> nat \<times> nat \<times> nat \<times> nat" where
  "info_key i = (unat (chunk_index i), unat (chunk_offset i), unat (compressed_len i), unat (frame_raw_len i))"

fun places :: "nat \<Rightarrow> nat \<Rightarrow> frame_data list \<Rightarrow> (nat \<times> nat \<times> nat \<times> nat) list" where
  "places j off [] = []"
| "places j off ((raw, c) # g) = (j, off, length c, length raw) # places j (off + length c) g"

fun all_places :: "nat \<Rightarrow> frame_data list list \<Rightarrow> (nat \<times> nat \<times> nat \<times> nat) list" where
  "all_places j [] = []"
| "all_places j (g # gs) = places j 0 g @ all_places (j + 1) gs"

definition bundle_content :: "frame_data list \<Rightarrow> string" where
  "bundle_content g = concat (map snd g)"

text \<open>
  The frame table, the frames and the bundles of an archive whose bundles hold the groups of frames \<open>groups\<close>.
\<close>

definition archive_ok ::
    "(string \<Rightarrow> string) \<Rightarrow> (string \<Rightarrow> nat \<Rightarrow> string option) \<Rightarrow> ArchiveFrame list \<Rightarrow> FrameInfo list \<Rightarrow> string list
       \<Rightarrow> frame_data list list \<Rightarrow> bool" where
  "archive_ok hash unz frames infos bundles groups \<longleftrightarrow> list_all2 (frame_ok hash unz) frames (concat groups)
     \<and> map info_key infos = all_places 0 groups \<and> bundles = map (hash \<circ> bundle_content) groups \<and> [] \<notin> set groups"

lemma all_places_append: "all_places j (gs @ hs) = all_places j gs @ all_places (j + length gs) hs"
  by (induction gs arbitrary: j) auto

lemma length_places [simp]: "length (places j off g) = length g"
  by (induction j off g rule: places.induct) auto

lemma length_all_places [simp]: "length (all_places j gs) = length (concat gs)"
  by (induction gs arbitrary: j) auto

lemma archive_ok_append:
  assumes "archive_ok hash unz frames infos bundles groups" "list_all2 (frame_ok hash unz) frames' g" "g \<noteq> []"
    "map info_key infos' = places (length groups) 0 g"
  shows "archive_ok hash unz (frames @ frames') (infos @ infos') (bundles @ [hash (bundle_content g)]) (groups @ [g])"
  using assms by (auto simp: archive_ok_def all_places_append intro: list_all2_appendI)

section \<open>The base\<close>

definition base_ok :: "(string \<Rightarrow> string) \<Rightarrow> (string \<Rightarrow> nat \<Rightarrow> string option) \<Rightarrow> BaseIndex \<Rightarrow> frame_data list list \<Rightarrow> bool" where
  "base_ok hash unz b groups \<longleftrightarrow> list_all2 (frame_ok hash unz) (bi_frames b) (concat groups)
     \<and> (\<forall>h k. bi_by_raw b h = Some k \<longrightarrow> k < length (bi_frames b) \<and> af_raw_hash (bi_frames b ! k) = h)
     \<and> (\<forall>key name. bi_bundles b key = Some name \<longrightarrow>
          (\<exists>g \<in> set groups. key = concat (map (hash \<circ> snd) g) \<and> name = hash (bundle_content g)))"

definition base_resists :: "(string \<Rightarrow> string) \<Rightarrow> frame_data list list \<Rightarrow> bool" where
  "base_resists hash groups \<longleftrightarrow> (\<forall>d \<in> set (concat groups). resists hash (fst d) \<and> resists hash (snd d))"

text \<open>The base index used by a build, if any, is sound.\<close>

definition usable :: "(string \<Rightarrow> string) \<Rightarrow> (string \<Rightarrow> nat \<Rightarrow> string option) \<Rightarrow> BaseIndex option \<Rightarrow> frame_data list list \<Rightarrow> bool" where
  "usable hash unz base groups \<longleftrightarrow>
     (case base of None \<Rightarrow> True | Some b \<Rightarrow> base_ok hash unz b groups \<and> base_resists hash groups)"

definition built_ok ::
    "(string \<Rightarrow> string) \<Rightarrow> (string \<Rightarrow> nat \<Rightarrow> string option) \<Rightarrow> BaseIndex option \<Rightarrow> frame_data list list \<Rightarrow> BuiltFrame \<Rightarrow> frame_data \<Rightarrow> bool" where
  "built_ok hash unz base groups f d \<longleftrightarrow> frame_ok hash unz (archive_frame f) d
     \<and> (bf_bytes f = Some (snd d) \<or> (bf_bytes f = None \<and> base \<noteq> None
         \<and> (\<exists>k. bf_base_frame f = Some k \<and> k < length (concat groups) \<and> concat groups ! k = d)))"

lemma base_frame_nth:
  assumes "base_ok hash unz b groups" "k < length (bi_frames b)"
  shows "k < length (concat groups) \<and> frame_ok hash unz (bi_frames b ! k) (concat groups ! k)"
  using assms by (auto simp: base_ok_def list_all2_conv_all_nth)

lemma base_resists_nth:
  assumes "base_resists hash groups" "k < length (concat groups)"
  shows "resists hash (fst (concat groups ! k)) \<and> resists hash (snd (concat groups ! k))"
  using assms(1) nth_mem[OF assms(2)] unfolding base_resists_def by blast

lemma build_frame_ok:
  assumes "build_frame hash zstd base raw = Inr f" "usable hash unz base groups" "codec_ok zstd unz"
  shows "\<exists>c. built_ok hash unz base groups f (raw, c)"
proof (cases "\<exists>b k. base = Some b \<and> bi_by_raw b (hash raw) = Some k")
  case True
  then obtain b k where b: "base = Some b" "bi_by_raw b (hash raw) = Some k" by blast
  then have ok: "base_ok hash unz b groups" "base_resists hash groups" using assms(2) by (auto simp: usable_def)
  then have k: "k < length (bi_frames b)" "af_raw_hash (bi_frames b ! k) = hash raw" using b by (auto simp: base_ok_def)
  obtain raw' c where d: "concat groups ! k = (raw', c)" by fastforce
  have fk: "k < length (concat groups)" "frame_ok hash unz (bi_frames b ! k) (raw', c)"
    using base_frame_nth[OF ok(1) k(1)] d by auto
  have "raw = raw'" using base_resists_nth[OF ok(2) fk(1)] k(2) fk(2) d by (auto simp: resists_def frame_ok_def)
  then have "built_ok hash unz base groups f (raw, c)"
    using assms(1) b fk d by (auto simp: build_frame_def built_ok_def frame_ok_def archive_frame_def Let_def)
  then show ?thesis ..
next
  case False
  then obtain c where "compress_frame zstd raw = Inr c"
    "f = \<lparr>bf_raw_hash = hash raw, bf_raw_len = length raw, bf_chunk_hash = hash c,
      bf_compressed_len = length c, bf_bytes = Some c, bf_base_frame = None\<rparr>"
    using assms(1) by (cases base) (auto simp: build_frame_def Let_def rbind_Inr split: option.splits)
  then have "built_ok hash unz base groups f (raw, c)"
    using assms(3) by (auto simp: built_ok_def frame_ok_def archive_frame_def inflates_def compress_frame_def codec_ok_def split: if_splits)
  then show ?thesis ..
qed

lemma kept_frame_ok:
  assumes "base = Some b" "usable hash unz base groups" "k < length (bi_frames b)"
  shows "built_ok hash unz base groups (kept_frame b k) (concat groups ! k)"
proof -
  have "archive_frame (kept_frame b k) = bi_frames b ! k" "bf_bytes (kept_frame b k) = None" "bf_base_frame (kept_frame b k) = Some k"
    by (simp_all add: kept_frame_def archive_frame_def Let_def)
  then show ?thesis using assms base_frame_nth[of hash unz b groups k] by (simp add: usable_def built_ok_def)
qed

lemma read_frame_hash: "read_frame hash cas storage b k = Inr data \<Longrightarrow> hash data = af_chunk_hash (bi_frames b ! k)"
  by (auto simp: read_frame_def Let_def split: option.splits if_splits prod.splits)

lemma frame_bytes_ok:
  assumes "frame_bytes hash cas storage base f = Inr data" "built_ok hash unz base groups f d" "usable hash unz base groups"
  shows "data = snd d"
proof (cases "bf_bytes f")
  case (Some bytes)
  then show ?thesis using assms by (auto simp: frame_bytes_def built_ok_def)
next
  case None
  then obtain b k where k: "base = Some b" "bf_base_frame f = Some k" "k < length (concat groups)" "concat groups ! k = d"
    using assms(2) by (auto simp: built_ok_def)
  then have ok: "base_ok hash unz b groups" "base_resists hash groups" using assms(3) by (auto simp: usable_def)
  have "length (bi_frames b) = length (concat groups)" using ok(1) by (auto simp: base_ok_def list_all2_lengthD)
  then have "frame_ok hash unz (bi_frames b ! k) d" using base_frame_nth[OF ok(1), of k] k by simp
  moreover have "hash data = af_chunk_hash (bi_frames b ! k)"
    using assms(1) None k by (intro read_frame_hash) (auto simp: frame_bytes_def)
  ultimately have "hash data = hash (snd d)" by (auto simp: frame_ok_def)
  then show ?thesis using base_resists_nth[OF ok(2) k(3)] k(4) by (auto simp: resists_def)
qed

lemma frame_bytes_all:
  assumes "map_result (frame_bytes hash cas storage base) fs = Inr parts" "list_all2 (built_ok hash unz base groups) fs ds"
    "usable hash unz base groups"
  shows "parts = map snd ds"
  using assms(2,1)
  by (induction arbitrary: parts rule: list_all2_induct) (auto simp: rbind_Inr dest: frame_bytes_ok[OF _ _ assms(3)])

section \<open>Closing and pushing\<close>

lemma concat_fixed_inj:
  assumes "concat xs = concat ys" "\<And>x. x \<in> set xs \<union> set ys \<Longrightarrow> length x = n" "0 < n"
  shows "xs = ys"
  using assms(1,2)
proof (induction xs ys rule: list_induct2')
  case (4 x xs y ys)
  then have "length x = length y" by simp
  then show ?case using 4 by simp
next
  case (2 x xs)
  then have "x = []" by simp
  then show ?case using 2(2)[of x] assms(3) by simp
next
  case (3 y ys)
  then have "y = []" by simp
  then show ?case using 3(2)[of y] assms(3) by simp
qed simp

lemma bundle_reused:
  assumes "usable hash unz base groups" "Option.bind base (\<lambda>b. bi_bundles b (concat (map bf_chunk_hash fs))) = Some name"
    "list_all2 (built_ok hash unz base groups) fs ds" "\<And>s. length (hash s) = n" "0 < n"
  shows "name = hash (bundle_content ds)"
proof -
  obtain b where b: "base = Some b" "bi_bundles b (concat (map bf_chunk_hash fs)) = Some name" using assms(2) by (cases base) auto
  then have ok: "base_ok hash unz b groups" "base_resists hash groups" using assms(1) by (auto simp: usable_def)
  then obtain g where g: "g \<in> set groups" "concat (map bf_chunk_hash fs) = concat (map (hash \<circ> snd) g)" "name = hash (bundle_content g)"
    using b by (fastforce simp: base_ok_def)
  have "map bf_chunk_hash fs = map (hash \<circ> snd) ds"
    using assms(3) by (induction rule: list_all2_induct) (auto simp: built_ok_def frame_ok_def archive_frame_def)
  then have keys: "map (hash \<circ> snd) ds = map (hash \<circ> snd) g"
    using concat_fixed_inj[of "map (hash \<circ> snd) ds" "map (hash \<circ> snd) g" n] g(2) assms(4,5) by auto
  then have len: "length ds = length g" by (metis length_map)
  have "snd (ds ! i) = snd (g ! i)" if "i < length g" for i
  proof -
    have "g ! i \<in> set (concat groups)" using nth_mem[OF that] g(1) by auto
    then have "resists hash (snd (g ! i))" using ok(2) unfolding base_resists_def by blast
    moreover have "hash (snd (ds ! i)) = hash (snd (g ! i))"
      using arg_cong[OF keys, of "\<lambda>l. l ! i"] that len by simp
    ultimately show ?thesis by (simp add: resists_def)
  qed
  then have "map snd ds = map snd g" using len by (intro nth_equalityI) auto
  then show ?thesis using g(3) by (simp add: bundle_content_def)
qed

lemma place_frames_keys:
  assumes "place_frames index off fs = Inr infos" "list_all2 (built_ok hash unz base groups) fs ds"
    "fs \<noteq> [] \<Longrightarrow> off + length (bundle_content (butlast ds)) < 2 ^ 64"
  shows "map info_key infos = places (unat index) off ds"
  using assms(2,1,3)
proof (induction arbitrary: off infos rule: list_all2_induct)
  case (Cons f fs d ds)
  obtain raw c where d: "d = (raw, c)" by fastforce
  then have f: "bf_compressed_len f = length c" "bf_raw_len f = length raw"
    using Cons.hyps(1) by (auto simp: built_ok_def frame_ok_def archive_frame_def)
  obtain clen rlen infos' where step: "to_u32 (bf_compressed_len f) = Inr clen" "to_u32 (bf_raw_len f) = Inr rlen"
    "place_frames index (off + bf_compressed_len f) fs = Inr infos'"
    "infos = \<lparr>chunk_index = index, chunk_offset = of_nat off, compressed_len = clen, frame_raw_len = rlen\<rparr> # infos'"
    using Cons.prems(1) by (auto simp: rbind_Inr)
  have off: "off < 2 ^ 64" using Cons.prems(2) by simp
  have "fs \<noteq> [] \<Longrightarrow> ds \<noteq> []" using Cons.hyps(2) by auto
  then have "map info_key infos' = places (unat index) (off + bf_compressed_len f) ds"
    using Cons.prems(2) d f by (intro Cons.IH[OF step(3)]) (simp add: bundle_content_def)
  moreover have "info_key (hd infos) = (unat index, off, length c, length raw)"
    using step off f by (simp add: info_key_def to_u32_Inr unat_of_nat32 unat_of_nat take_bit_nat_eq_self)
  ultimately show ?case using step(4) d f by simp
qed simp

text \<open>
  The invariant of a bundler: the closed part is exact for \<open>done\<close>, the open group holds \<open>cur\<close> and fits below 64
  bits, every new bundle is in the local store under its name and every other bundle is one of the base's.
\<close>

definition bundler_ok ::
    "(string \<Rightarrow> string) \<Rightarrow> (string \<Rightarrow> nat \<Rightarrow> string option) \<Rightarrow> BaseIndex option \<Rightarrow> frame_data list list
       \<Rightarrow> frame_data list list \<Rightarrow> frame_data list \<Rightarrow> Bundler \<Rightarrow> bool" where
  "bundler_ok hash unz base groups closed cur bd \<longleftrightarrow>
     archive_ok hash unz (bd_frames bd) (bd_infos bd) (bd_bundles bd) closed
     \<and> list_all2 (built_ok hash unz base groups) (bd_group bd) cur
     \<and> bd_group_len bd = length (bundle_content cur) \<and> (bd_group_len bd \<le> bd_max bd \<or> length cur \<le> 1) \<and> bd_max bd < 2 ^ 64
     \<and> (\<forall>name \<in> set (bd_new_bundles bd). \<exists>content. bd_cas bd name = Some content \<and> hash content = name)
     \<and> set (bd_bundles bd) \<subseteq> set (bd_new_bundles bd) \<union> (hash \<circ> bundle_content) ` (if base = None then {} else set groups)"

lemma bundler_new_ok: "bundler_ok hash unz base groups [] [] (bundler_new cas target)"
  by (simp add: bundler_ok_def bundler_new_def archive_ok_def bundle_content_def Let_def)

lemma bundle_content_butlast:
  "ds \<noteq> [] \<Longrightarrow> length (bundle_content (butlast ds)) \<le> length (bundle_content ds)"
  by (cases ds rule: rev_cases) (simp_all add: bundle_content_def)

lemma bundler_close_ok:
  assumes "bundler_close hash storage base bd = Inr bd'" "bundler_ok hash unz base groups closed cur bd"
    "usable hash unz base groups" "\<And>s. length (hash s) = n" "0 < n"
  shows "bundler_ok hash unz base groups (if cur = [] then closed else closed @ [cur]) [] bd' \<and> bd_max bd' = bd_max bd \<and> bd_min bd' = bd_min bd
    \<and> bd_group bd' = []"
proof (cases "bd_group bd = []")
  case True
  then show ?thesis using assms(1,2) by (auto simp: bundler_close_def bundler_ok_def)
next
  case False
  have group: "list_all2 (built_ok hash unz base groups) (bd_group bd) cur" using assms(2) by (simp add: bundler_ok_def)
  then have cur: "cur \<noteq> []" using False by auto
  obtain index name cas new reuse infos where index: "to_u32 (length (bd_bundles bd)) = Inr index"
    and src: "(case Option.bind base (\<lambda>b. bi_bundles b (concat (map bf_chunk_hash (bd_group bd)))) of
                 Some name \<Rightarrow> Inr (name, bd_cas bd, [], (bd_reuse bd)\<lparr>ru_bundles_reused := ru_bundles_reused (bd_reuse bd) + 1\<rparr>)
               | None \<Rightarrow> rbind (write_group hash storage base bd) (\<lambda>(name, cas).
                   Inr (name, cas, [name], (bd_reuse bd)\<lparr>ru_bundles_built := ru_bundles_built (bd_reuse bd) + 1\<rparr>))) = Inr (name, cas, new, reuse)"
    and infos: "place_frames index 0 (bd_group bd) = Inr infos"
    and bd': "bd_cas bd' = cas" "bd_group bd' = []" "bd_group_len bd' = 0" "bd_bundles bd' = bd_bundles bd @ [name]"
      "bd_new_bundles bd' = bd_new_bundles bd @ new" "bd_infos bd' = bd_infos bd @ infos"
      "bd_frames bd' = bd_frames bd @ map archive_frame (bd_group bd)" "bd_max bd' = bd_max bd" "bd_min bd' = bd_min bd"
    using assms(1) False unfolding bundler_close_def Let_def if_not_P[OF False]
    by (auto simp: rbind_Inr)
  have named: "name = hash (bundle_content cur) \<and> ((new = [name] \<and> cas = (bd_cas bd)(name \<mapsto> bundle_content cur))
      \<or> (new = [] \<and> cas = bd_cas bd \<and> base \<noteq> None \<and> name \<in> (hash \<circ> bundle_content) ` set groups))"
  proof (cases "Option.bind base (\<lambda>b. bi_bundles b (concat (map bf_chunk_hash (bd_group bd))))")
    case None
    then obtain parts where "map_result (frame_bytes hash (bd_cas bd) storage base) (bd_group bd) = Inr parts"
        "name = hash (concat parts)" "cas = (bd_cas bd)(name \<mapsto> concat parts)" "new = [name]"
      using src by (auto simp: rbind_Inr write_group_def Let_def split: if_splits)
    then show ?thesis using frame_bytes_all[OF _ group assms(3)] by (auto simp: bundle_content_def)
  next
    case (Some name')
    have "name' \<in> (hash \<circ> bundle_content) ` set groups \<and> base \<noteq> None"
      using Some assms(3) by (cases base) (fastforce simp: usable_def base_ok_def)+
    then show ?thesis using src Some bundle_reused[OF assms(3) Some group assms(4,5)] by auto
  qed
  have keys: "map info_key infos = places (length closed) 0 cur"
  proof -
    have "length (bd_bundles bd) = length closed" using assms(2) by (auto simp: bundler_ok_def archive_ok_def)
    then have "unat index = length closed" using index by (auto simp: to_u32_Inr unat_of_nat32)
    moreover have "length (bundle_content (butlast cur)) < 2 ^ 64"
      using assms(2) cur bundle_content_butlast[OF cur]
      by (cases cur rule: rev_cases) (auto simp: bundler_ok_def bundle_content_def)
    ultimately show ?thesis using place_frames_keys[OF infos group] by simp
  qed
  have "list_all2 (frame_ok hash unz) (map archive_frame (bd_group bd)) cur"
    using group by (auto simp: list_all2_conv_all_nth built_ok_def)
  then have "archive_ok hash unz (bd_frames bd') (bd_infos bd') (bd_bundles bd') (closed @ [cur])"
    using archive_ok_append[OF _ _ cur keys] assms(2) bd' named by (simp add: bundler_ok_def)
  moreover have "\<forall>m \<in> set (bd_new_bundles bd'). \<exists>content. bd_cas bd' m = Some content \<and> hash content = m"
    using assms(2) bd' named by (auto simp: bundler_ok_def)
  moreover have "set (bd_bundles bd') \<subseteq> set (bd_new_bundles bd') \<union> (hash \<circ> bundle_content) ` (if base = None then {} else set groups)"
    using assms(2) bd' named by (auto simp: bundler_ok_def)
  ultimately show ?thesis using bd' cur assms(2) by (simp add: bundler_ok_def bundle_content_def)
qed

lemma bundler_push_ok:
  assumes "bundler_push hash storage base f bd = Inr bd'" "bundler_ok hash unz base groups closed cur bd"
    "built_ok hash unz base groups f d" "usable hash unz base groups" "\<And>s. length (hash s) = n" "0 < n"
  shows "\<exists>closed' cur'. bundler_ok hash unz base groups closed' cur' bd'
    \<and> concat closed' @ cur' = concat closed @ cur @ [d]"
proof -
  define first where "first = (if bd_group bd \<noteq> [] \<and> bd_max bd < bd_group_len bd + bf_compressed_len f
    then bundler_close hash storage base bd else Inr bd)"
  obtain bd1 where bd1: "first = Inr bd1" and
    rest: "(let len = bd_group_len bd1 + bf_compressed_len f;
        bd' = bd1\<lparr>bd_group_len := len, bd_group := bd_group bd1 @ [f]\<rparr> in
      if bd_max bd1 \<le> len \<or> (bd_min bd1 \<le> len \<and> cuts_after (bf_chunk_hash f))
      then bundler_close hash storage base bd' else Inr bd') = Inr bd'"
    using assms(1) unfolding bundler_push_def first_def[symmetric] by (auto simp: rbind_Inr)
  have "\<exists>closed1 cur1. bundler_ok hash unz base groups closed1 cur1 bd1 \<and> concat closed1 @ cur1 = concat closed @ cur
      \<and> (bd_group_len bd1 + bf_compressed_len f \<le> bd_max bd1 \<or> cur1 = [])"
  proof (cases "bd_group bd \<noteq> [] \<and> bd_max bd < bd_group_len bd + bf_compressed_len f")
    case True
    then have "bundler_close hash storage base bd = Inr bd1" using bd1 by (simp only: first_def if_True simp_thms)
    moreover have "cur \<noteq> []" using True assms(2) by (auto simp: bundler_ok_def)
    ultimately have "bundler_ok hash unz base groups (closed @ [cur]) [] bd1"
      using bundler_close_ok[OF _ assms(2,4,5,6)] by simp
    then show ?thesis by (intro exI[of _ "closed @ [cur]"] exI[of _ "[]"]) simp
  next
    case False
    moreover have "bd_group bd = [] \<Longrightarrow> cur = []" using assms(2) by (auto simp: bundler_ok_def)
    moreover have "bd1 = bd" using False bd1 by (simp only: first_def if_False sum.inject)
    ultimately show ?thesis using assms(2) by (intro exI[of _ closed] exI[of _ cur]) (auto simp: not_less)
  qed
  then obtain closed1 cur1 where ok1: "bundler_ok hash unz base groups closed1 cur1 bd1" "concat closed1 @ cur1 = concat closed @ cur"
      "bd_group_len bd1 + bf_compressed_len f \<le> bd_max bd1 \<or> cur1 = []" by blast
  define bd2 where "bd2 = bd1\<lparr>bd_group_len := bd_group_len bd1 + bf_compressed_len f, bd_group := bd_group bd1 @ [f]\<rparr>"
  have "bf_compressed_len f = length (snd d)" using assms(3) by (auto simp: built_ok_def frame_ok_def archive_frame_def split: prod.splits)
  then have ok2: "bundler_ok hash unz base groups closed1 (cur1 @ [d]) bd2"
    using ok1 assms(3) by (auto simp: bundler_ok_def bd2_def bundle_content_def intro: list_all2_appendI)
  show ?thesis
  proof (cases "bd' = bd2")
    case True
    then show ?thesis using ok2 ok1(2) by (intro exI[of _ closed1] exI[of _ "cur1 @ [d]"]) simp
  next
    case False
    then have "bundler_close hash storage base bd2 = Inr bd'" using rest by (auto simp: Let_def bd2_def split: if_splits)
    then have "bundler_ok hash unz base groups (closed1 @ [cur1 @ [d]]) [] bd'"
      using bundler_close_ok[OF _ ok2 assms(4,5,6)] by auto
    then show ?thesis using ok1(2) by (intro exI[of _ "closed1 @ [cur1 @ [d]]"] exI[of _ "[]"]) simp
  qed
qed

lemma bundler_pushes_ok:
  assumes "fold_result (bundler_push hash storage base) fs bd = Inr bd'" "list_all2 (built_ok hash unz base groups) fs ds"
    "bundler_ok hash unz base groups closed cur bd" "usable hash unz base groups" "\<And>s. length (hash s) = n" "0 < n"
  shows "\<exists>closed' cur'. bundler_ok hash unz base groups closed' cur' bd' \<and> concat closed' @ cur' = concat closed @ cur @ ds"
  using assms(2,1,3)
proof (induction arbitrary: bd closed cur rule: list_all2_induct)
  case (Cons f fs d ds)
  then obtain bd1 where bd1: "bundler_push hash storage base f bd = Inr bd1" "fold_result (bundler_push hash storage base) fs bd1 = Inr bd'"
    by (auto simp: rbind_Inr)
  obtain closed1 cur1 where ok1: "bundler_ok hash unz base groups closed1 cur1 bd1" "concat closed1 @ cur1 = concat closed @ cur @ [d]"
    using bundler_push_ok[OF bd1(1) Cons.prems(2) Cons.hyps(1) assms(4,5,6)] by blast
  obtain closed' cur' where "bundler_ok hash unz base groups closed' cur' bd'" "concat closed' @ cur' = concat closed1 @ cur1 @ ds"
    using Cons.IH[OF bd1(2) ok1(1)] by blast
  moreover from this ok1(2) have "concat closed' @ cur' = concat closed @ cur @ d # ds"
    by (metis append.assoc append_Cons append_Nil)
  ultimately show ?case by blast
qed (auto intro: exI[of _ closed])

end
