(* ===== verification/Archive_Build.thy ===== *)
theory Archive_Build
  imports Archive_Bundles
begin

text \<open>
  A whole-worktree build is exact: the windows read in order are the worktree stream, the chunker's cuts tile it, and
  every file of the tree reads back from the built frames.
\<close>

section \<open>The pipeline keeps order\<close>

lemma concat_windows: "concat (windows limit size_of xs) = xs"
  by (induction limit size_of xs rule: windows.induct) (simp_all add: Let_def)

lemma concat_batches: "concat (batches raws batch bytes) = rev batch @ raws"
  by (induction raws batch bytes rule: batches.induct) auto

lemma map_result_append: "map_result f (xs @ ys) = rbind (map_result f xs) (\<lambda>as. rbind (map_result f ys) (\<lambda>bs. Inr (as @ bs)))"
proof (induction xs)
  case (Cons x xs)
  then show ?case by (cases "f x"; cases "map_result f xs"; cases "map_result f ys") simp_all
qed (cases "map_result f ys"; simp)

lemma map_result_concat:
  "map_result (\<lambda>w. map_result f w) ws = Inr rs \<Longrightarrow> map_result f (concat ws) = Inr (concat rs)"
  by (induction ws arbitrary: rs) (auto simp: rbind_Inr map_result_append)

lemma map_result_list_all2: "map_result f xs = Inr ys \<Longrightarrow> list_all2 (\<lambda>x y. f x = Inr y) xs ys"
  by (induction xs arbitrary: ys) (auto simp: rbind_Inr)

lemma map_result_map: "map_result f (map g xs) = map_result (f \<circ> g) xs"
  by (induction xs) auto

lemma fold_result_append: "fold_result f (xs @ ys) s = rbind (fold_result f xs s) (fold_result f ys)"
proof (induction xs arbitrary: s)
  case (Cons x xs)
  then show ?case by (cases "f x s") simp_all
qed simp

lemma fold_batches:
  assumes "fold_result (\<lambda>batch st. rbind (map_result b batch) (\<lambda>built. fold_result consume built st)) bs st = Inr st'"
  shows "\<exists>built. map_result b (concat bs) = Inr built \<and> fold_result consume built st = Inr st'"
  using assms
proof (induction bs arbitrary: st)
  case (Cons batch bs)
  then obtain built st1 where b: "map_result b batch = Inr built" "fold_result consume built st = Inr st1"
    "fold_result (\<lambda>batch st. rbind (map_result b batch) (\<lambda>built. fold_result consume built st)) bs st1 = Inr st'"
    by (auto simp: rbind_Inr)
  then obtain built' where "map_result b (concat bs) = Inr built'" "fold_result consume built' st1 = Inr st'"
    using Cons.IH by blast
  then show ?case using b by (simp add: map_result_append fold_result_append)
qed simp

section \<open>The chunker\<close>

text \<open>What is relied on of \<open>fastcdc\<close>: its chunks are not empty and follow one another from the start to the end.\<close>

fun cuts_tile :: "nat \<Rightarrow> (nat \<times> nat) list \<Rightarrow> nat \<Rightarrow> bool" where
  "cuts_tile a [] e \<longleftrightarrow> a = e"
| "cuts_tile a ((off, len) # cuts) e \<longleftrightarrow> off = a \<and> 0 < len \<and> cuts_tile (a + len) cuts e"

definition chunker_ok :: "(string \<Rightarrow> (nat \<times> nat) list) \<Rightarrow> bool" where
  "chunker_ok cdc \<longleftrightarrow> (\<forall>s. cuts_tile 0 (cdc s) (length s))"

lemma cuts_tile_data:
  assumes "cuts_tile a cuts (length s)" "a \<le> length s"
  shows "map (\<lambda>(off, len). (off, off + len)) cuts = spans a (chunk_data s cuts) \<and> concat (chunk_data s cuts) = drop a s"
  using assms
proof (induction cuts arbitrary: a)
  case (Cons cut cuts)
  obtain off len where cut: "cut = (off, len)" by fastforce
  have tile: "off = a" "cuts_tile (a + len) cuts (length s)" using Cons.prems cut by auto
  have "a + len \<le> length s"
  proof -
    have "cuts_tile x cuts y \<Longrightarrow> x \<le> y" for x y by (induction x cuts y rule: cuts_tile.induct) auto
    then show ?thesis using tile by blast
  qed
  moreover from this have "take len (drop a s) @ drop (a + len) s = drop a s"
    by (metis append_take_drop_id drop_drop add.commute)
  ultimately show ?case using Cons.IH[OF tile(2)] cut tile by (simp add: chunk_data_def)
qed (simp add: chunk_data_def)

lemma cuts_tile_within: "cuts_tile a cuts e \<Longrightarrow> (off, len) \<in> set cuts \<Longrightarrow> a \<le> off \<and> off + len \<le> e"
proof (induction a cuts e rule: cuts_tile.induct)
  case (2 a off' len' cuts e)
  have "cuts_tile x cs y \<Longrightarrow> x \<le> y" for x y cs by (induction x cs y rule: cuts_tile.induct) auto
  then have "a + len' \<le> e" using 2(2) by auto
  then show ?case using 2 by fastforce
qed simp

section \<open>Layouts and contents\<close>

definition contents_of :: "(oid \<Rightarrow> string option) \<Rightarrow> Blob list \<Rightarrow> string list \<Rightarrow> bool" where
  "contents_of find_blob blobs contents \<longleftrightarrow> list_all2 (\<lambda>b c. find_blob (fst (snd b)) = Some c) blobs contents"

lemma layout_starts_contents:
  "layout_starts a (map length cs) = Inr (starts, e) \<Longrightarrow> starts = starts_from a cs \<and> e = a + length (concat cs)"
proof (induction cs arbitrary: a starts e)
  case (Cons c cs)
  then obtain starts' where "layout_starts (a + length c) (map length cs) = Inr (starts', e)" "starts = a # starts'"
    by (auto simp: rbind_Inr split: if_splits)
  then show ?case using Cons.IH[of "a + length c" starts' e] by simp
qed simp

lemma layout_new_contents:
  assumes "layout_new blobs gitlinks (map length contents) = Inr ly"
  shows "ly_blobs ly = blobs \<and> ly_gitlinks ly = gitlinks \<and> ly_sizes ly = map length contents
    \<and> ly_starts ly = starts_from 0 contents \<and> ly_total ly = length (concat contents)"
  using assms layout_starts_contents[of 0 contents] by (auto simp: layout_new_def rbind_Inr)

lemma layout_new_fields:
  "layout_new blobs gitlinks sizes = Inr ly \<Longrightarrow> ly_blobs ly = blobs \<and> ly_sizes ly = sizes \<and> ly_gitlinks ly = gitlinks"
  by (auto simp: layout_new_def rbind_Inr)

lemma read_whole:
  "read_piece find_blob (whole_piece (i, n)) = Inr c \<Longrightarrow> find_blob i = Some c \<and> length c = n"
  by (auto simp: read_piece_def whole_piece_def split: option.splits if_splits)

lemma read_windows_contents:
  assumes "map_result (\<lambda>window. map_result (read_piece find_blob) (map whole_piece window))
      (windows READ_WINDOW_BYTES snd (zip (map (fst \<circ> snd) blobs) sizes)) = Inr reads"
    "length sizes = length blobs"
  shows "contents_of find_blob blobs (concat reads) \<and> sizes = map length (concat reads)"
proof -
  have "map_result (\<lambda>w. map_result (read_piece find_blob \<circ> whole_piece) w)
      (windows READ_WINDOW_BYTES snd (zip (map (fst \<circ> snd) blobs) sizes)) = Inr reads"
    using assms(1) by (simp only: map_result_map)
  then have "map_result (read_piece find_blob \<circ> whole_piece) (zip (map (fst \<circ> snd) blobs) sizes) = Inr (concat reads)"
    using map_result_concat concat_windows by metis
  from map_result_list_all2[OF this]
  have all: "list_all2 (\<lambda>p c. find_blob (fst p) = Some c \<and> length c = snd p) (zip (map (fst \<circ> snd) blobs) sizes) (concat reads)"
    by (rule list_all2_mono) (auto dest: read_whole)
  then have len: "length (concat reads) = length blobs" using assms(2) by (auto dest: list_all2_lengthD)
  have "find_blob (fst (snd (blobs ! i))) = Some (concat reads ! i) \<and> sizes ! i = length (concat reads ! i)" if "i < length blobs" for i
    using list_all2_nthD[OF all, of i] that assms(2) by simp
  then show ?thesis using len assms(2) by (auto simp: contents_of_def list_all2_conv_all_nth intro: nth_equalityI)
qed

section \<open>Streaming into bundles\<close>

lemma build_frames_ok:
  assumes "map_result (build_frame hash zstd base) raws = Inr fs" "usable hash unz base groups" "codec_ok zstd unz"
  shows "\<exists>ds. map fst ds = raws \<and> list_all2 (built_ok hash unz base groups) fs ds"
  using assms(1)
proof (induction raws arbitrary: fs)
  case (Cons raw raws)
  then obtain f fs' where f: "build_frame hash zstd base raw = Inr f" "map_result (build_frame hash zstd base) raws = Inr fs'" "fs = f # fs'"
    by (auto simp: rbind_Inr)
  obtain c where "built_ok hash unz base groups f (raw, c)" using build_frame_ok[OF f(1) assms(2,3)] by blast
  moreover obtain ds where "map fst ds = raws" "list_all2 (built_ok hash unz base groups) fs' ds" using Cons.IH[OF f(2)] by blast
  ultimately show ?case using f(3) by (intro exI[of _ "(raw, c) # ds"]) simp
qed simp

lemma stream_frames_ok:
  assumes "stream_frames find_blob cdc hash zstd base (bundler_push hash storage base) ly bd = Inr (bounds, bd')"
    "layout_new blobs gitlinks sizes = Inr ly" "length sizes = length blobs"
    "bundler_ok hash unz base groups [] [] bd" "usable hash unz base groups" "codec_ok zstd unz" "chunker_ok cdc"
    "\<And>s. length (hash s) = n" "0 < n"
  shows "\<exists>contents ds closed cur. contents_of find_blob blobs contents \<and> sizes = map length contents
    \<and> bounds = spans 0 (map fst ds) \<and> concat (map fst ds) = concat contents
    \<and> bundler_ok hash unz base groups closed cur bd' \<and> concat closed @ cur = ds"
proof -
  note ly = layout_new_fields[OF assms(2)]
  obtain reads st where reads: "map_result (\<lambda>window. map_result (read_piece find_blob) (map whole_piece window))
        (windows READ_WINDOW_BYTES snd (zip (map (fst \<circ> snd) blobs) sizes)) = Inr reads"
    and st: "fold_result (\<lambda>batch st. rbind (map_result (build_frame hash zstd base) batch) (\<lambda>built.
        fold_result (bundler_push hash storage base) built st)) (batches (chunk_data (concat (concat reads)) (cdc (concat (concat reads)))) [] 0) bd = Inr st"
    and fin: "(let bounds = map (\<lambda>(offset, len). (offset, offset + len)) (cdc (concat (concat reads)));
        streamed = (if bounds = [] then 0 else snd (last bounds)) in
      if streamed \<noteq> ly_total ly then Inl (ShortStream streamed)
      else if bounds = [] \<and> ly_blobs ly \<noteq> []
      then rbind (build_frame hash zstd base []) (\<lambda>frame. rbind (bundler_push hash storage base frame st) (\<lambda>st. Inr ([(0, 0)], st)))
      else Inr (bounds, st)) = Inr (bounds, bd')"
    using assms(1) ly unfolding stream_frames_def Let_def by (auto simp: rbind_Inr)
  define contents where "contents = concat reads"
  define stream where "stream = concat contents"
  note content = read_windows_contents[OF reads assms(3), folded contents_def]
  have cuts: "cuts_tile 0 (cdc stream) (length stream)" using assms(7) by (simp add: chunker_ok_def)
  define raws where "raws = chunk_data stream (cdc stream)"
  have spans: "map (\<lambda>(off, len). (off, off + len)) (cdc stream) = spans 0 raws" "concat raws = stream"
    using cuts_tile_data[OF cuts] by (simp_all add: raws_def)
  obtain built where "map_result (build_frame hash zstd base) raws = Inr built" "fold_result (bundler_push hash storage base) built bd = Inr st"
    using fold_batches[OF st] by (auto simp: concat_batches raws_def stream_def contents_def)
  then obtain ds closed cur where ds: "map fst ds = raws" "bundler_ok hash unz base groups closed cur st" "concat closed @ cur = ds"
    using build_frames_ok[OF _ assms(5,6)] bundler_pushes_ok[OF _ _ assms(4,5,8,9)] by fastforce
  show ?thesis
  proof (cases "spans 0 raws = [] \<and> blobs \<noteq> []")
    case False
    then have "bounds = spans 0 raws" "bd' = st"
      using fin ly spans by (auto simp: Let_def contents_def[symmetric] stream_def[symmetric] split: if_splits)
    then show ?thesis using content ds spans stream_def by blast
  next
    case True
    then obtain f where f: "build_frame hash zstd base [] = Inr f" "bundler_push hash storage base f st = Inr bd'" "bounds = [(0, 0)]"
      using fin ly spans by (auto simp: Let_def contents_def[symmetric] stream_def[symmetric] rbind_Inr split: if_splits)
    obtain c where "built_ok hash unz base groups f ([], c)" using build_frame_ok[OF f(1) assms(5,6)] by blast
    then obtain closed' cur' where ok: "bundler_ok hash unz base groups closed' cur' bd'" "concat closed' @ cur' = concat closed @ cur @ [([], c)]"
      using bundler_push_ok[OF f(2) ds(2) _ assms(5,8,9)] by blast
    have "raws = []" using True by (cases raws) auto
    then have "concat closed' @ cur' = [([], c)]" using ds ok(2) by simp
    then show ?thesis using content ok f(3) spans(2) \<open>raws = []\<close> stream_def
      by (intro exI[of _ contents] exI[of _ "[([], c)]"] exI[of _ closed'] exI[of _ cur']) simp
  qed
qed

section \<open>Exact archives\<close>

text \<open>
  An archive of a tree: the frame table, frames and bundles hold \<open>groups\<close>, and the metadata lists exactly the
  tree's blobs, each with fragments that read back its content.  \<open>in_stream_order\<close> says that the files follow one
  another in the frames, as a whole build lays them out and an incremental build relies on of its base.
\<close>

definition raw_frames :: "frame_data list list \<Rightarrow> string list" where
  "raw_frames groups = map fst (concat groups)"

definition archive_exact ::
    "(string \<Rightarrow> string) \<Rightarrow> (string \<Rightarrow> nat \<Rightarrow> string option) \<Rightarrow> (oid \<Rightarrow> string option) \<Rightarrow> string list \<times> Blob list
       \<Rightarrow> ArchiveFrame list \<Rightarrow> MetadataChunk \<Rightarrow> string list \<Rightarrow> frame_data list list \<Rightarrow> bool" where
  "archive_exact hash unz find_blob tree frames metadata bundles groups \<longleftrightarrow>
     archive_ok hash unz frames (mc_frames metadata) bundles groups \<and> mc_gitlinks metadata = fst tree
     \<and> list_all2 (\<lambda>blob file. \<exists>content. find_blob (fst (snd blob)) = Some content
          \<and> entry_exact (raw_frames groups) blob content file) (snd tree) (mc_files metadata)"

definition in_stream_order :: "MetadataChunk \<Rightarrow> frame_data list list \<Rightarrow> bool" where
  "in_stream_order metadata groups \<longleftrightarrow>
     concat (map (\<lambda>f. file_bytes (raw_frames groups) (fe_fragments f)) (mc_files metadata)) = concat (raw_frames groups)"

lemma entries_contents:
  "list_all2 (\<lambda>(blob, content) file. entry_exact raws blob content file) (zip blobs contents) files \<Longrightarrow> length blobs = length contents \<Longrightarrow>
     map (\<lambda>f. file_bytes raws (fe_fragments f)) files = contents"
  by (auto simp: list_all2_conv_all_nth entry_exact_def intro!: nth_equalityI)

lemma files_metadata_exact:
  assumes "files_metadata ly bounds = Inr metadata" "layout_new blobs gitlinks (map length contents) = Inr ly"
    "contents_of find_blob blobs contents" "bounds = spans 0 (raw_frames groups)" "concat (raw_frames groups) = concat contents"
    "archive_ok hash unz frames infos bundles groups"
  shows "archive_exact hash unz find_blob (gitlinks, blobs) frames (metadata\<lparr>mc_frames := infos\<rparr>) bundles groups
    \<and> in_stream_order (metadata\<lparr>mc_frames := infos\<rparr>) groups"
proof -
  note ly = layout_new_contents[OF assms(2)]
  have len: "length blobs = length contents" using assms(3) by (auto simp: contents_of_def list_all2_lengthD)
  have entries: "list_all2 (\<lambda>(blob, content) file. entry_exact (raw_frames groups) blob content file) (zip blobs contents) (mc_files metadata)"
    and links: "mc_gitlinks metadata = gitlinks"
  proof -
    have "mc_files metadata = [] \<and> mc_gitlinks metadata = gitlinks" if "blobs = []"
      using that assms(1) ly by (auto simp: files_metadata_def)
    moreover have "files_loop bounds 0 (zip blobs (zip (starts_from 0 contents) (map length contents))) = Inr (mc_files metadata)
        \<and> mc_gitlinks metadata = gitlinks" if "blobs \<noteq> []"
      using that assms(1) ly by (auto simp: files_metadata_def files_table_def rbind_Inr)
    moreover have "list_all2 (\<lambda>(blob, content) file. entry_exact (raw_frames groups) blob content file) (zip blobs contents) files"
      if "files_loop bounds 0 (zip blobs (zip (starts_from 0 contents) (map length contents))) = Inr files" for files
      using files_loop_exact[of "raw_frames groups" 0 blobs 0 contents files "[]" "[]"] that assms(4,5) len by simp
    ultimately show "list_all2 (\<lambda>(blob, content) file. entry_exact (raw_frames groups) blob content file) (zip blobs contents) (mc_files metadata)"
      "mc_gitlinks metadata = gitlinks"
      by (cases "blobs = []"; simp)+
  qed
  have "list_all2 (\<lambda>blob file. \<exists>content. find_blob (fst (snd blob)) = Some content
      \<and> entry_exact (raw_frames groups) blob content file) blobs (mc_files metadata)"
    using entries assms(3) len by (fastforce simp: list_all2_conv_all_nth contents_of_def)
  then show ?thesis
    using assms(5,6) links entries_contents[OF entries len] by (simp add: archive_exact_def in_stream_order_def)
qed

text \<open>What a finished bundler and its metadata make, whatever frames were pushed.\<close>

lemma finished_exact:
  assumes "bundler_close hash storage base bd = Inr bd'" "bundler_ok hash unz base groups closed cur bd"
    "usable hash unz base groups" "\<And>s. length (hash s) = n" "0 < n"
    "files_metadata ly bounds = Inr metadata" "layout_new blobs gitlinks (map length contents) = Inr ly"
    "contents_of find_blob blobs contents" "bounds = spans 0 (map fst ds)" "concat (map fst ds) = concat contents" "concat closed @ cur = ds"
  shows "\<exists>out. archive_exact hash unz find_blob (gitlinks, blobs) (bd_frames bd') (metadata\<lparr>mc_frames := bd_infos bd'\<rparr>) (bd_bundles bd') out
    \<and> in_stream_order (metadata\<lparr>mc_frames := bd_infos bd'\<rparr>) out
    \<and> (\<forall>name \<in> set (bd_new_bundles bd'). \<exists>content. bd_cas bd' name = Some content \<and> hash content = name)
    \<and> set (bd_bundles bd') \<subseteq> set (bd_new_bundles bd') \<union> (hash \<circ> bundle_content) ` (if base = None then {} else set groups)"
proof -
  define out where "out = (if cur = [] then closed else closed @ [cur])"
  have ok: "bundler_ok hash unz base groups out [] bd'"
    using bundler_close_ok[OF assms(1-5)] by (simp add: out_def)
  have "concat out = ds" using assms(11) by (auto simp: out_def)
  then have "raw_frames out = map fst ds" by (simp add: raw_frames_def)
  then have "archive_exact hash unz find_blob (gitlinks, blobs) (bd_frames bd') (metadata\<lparr>mc_frames := bd_infos bd'\<rparr>) (bd_bundles bd') out
      \<and> in_stream_order (metadata\<lparr>mc_frames := bd_infos bd'\<rparr>) out"
    using assms(9,10) ok by (intro files_metadata_exact[OF assms(6-8)]) (simp_all add: bundler_ok_def)
  then show ?thesis using ok by (auto simp: bundler_ok_def)
qed

end
