(* ===== verification/Archive_Base.thy ===== *)
theory Archive_Base
  imports Archive_Build
begin

text \<open>
  The index of a base build is sound: its frame starts, the frame of a raw hash, the bundle of a run of frames and
  the place of a file in the stream are those of the base archive.
\<close>

section \<open>The scan over the frames\<close>

fun prefix_sums :: "nat \<Rightarrow> nat list \<Rightarrow> nat list" where
  "prefix_sums a [] = []"
| "prefix_sums a (l # ls) = a # prefix_sums (a + l) ls"

lemma base_frames_loop_pos:
  assumes "base_frames_loop bundles k ps s = Inr s'"
  shows "bs_pos s' = bs_pos s + sum_list (map (af_raw_len \<circ> fst) ps)
    \<and> bs_starts s' = bs_starts s @ prefix_sums (bs_pos s) (map (af_raw_len \<circ> fst) ps)"
  using assms
proof (induction ps arbitrary: k s)
  case (Cons p rest)
  obtain frame info where p: "p = (frame, info)" by fastforce
  from Cons.prems obtain s2 where "base_frames_loop bundles (k + 1) rest s2 = Inr s'" "bs_pos s2 = bs_pos s + af_raw_len frame"
      "bs_starts s2 = bs_starts s @ [bs_pos s]"
    by (auto simp: p Let_def split: if_splits)
  then show ?case using Cons.IH[of "k + 1" s2] by (simp add: p)
qed simp

lemma base_frames_loop_by_raw:
  assumes "base_frames_loop bundles k ps s = Inr s'" "bs_by_raw s' h = Some j"
  shows "bs_by_raw s h = Some j \<or> (k \<le> j \<and> j < k + length ps \<and> af_raw_hash (fst (ps ! (j - k))) = h)"
  using assms
proof (induction bundles k ps s rule: base_frames_loop.induct)
  case (2 bundles k frame info rest s)
  obtain s2 where s2: "base_frames_loop bundles (k + 1) rest s2 = Inr s'" "bs_by_raw s2 = (bs_by_raw s)(af_raw_hash frame \<mapsto> k)"
    and IH: "bs_by_raw s2 h = Some j \<or> (k + 1 \<le> j \<and> j < k + 1 + length rest \<and> af_raw_hash (fst (rest ! (j - (k + 1)))) = h)"
    using 2 by (auto simp: Let_def split: if_splits)
  show ?case
  proof (cases "bs_by_raw s2 h = Some j")
    case True
    then show ?thesis using s2(2) by (auto split: if_splits)
  next
    case False
    then have "j - k = Suc (j - (k + 1))" "k + 1 \<le> j" using IH by auto
    then show ?thesis using False IH by auto
  qed
qed simp

lemma frame_okD:
  "frame_ok hash unz f (raw, c) \<Longrightarrow> af_raw_hash f = hash raw \<and> af_chunk_hash f = hash c
     \<and> af_compressed_len f = length c \<and> af_raw_len f = length raw"
  by (simp add: frame_ok_def)

lemma info_key_index: "info_key i = (a, b, c, d) \<Longrightarrow> unat (chunk_index i) = a"
  by (simp add: info_key_def)

lemma base_frames_loop_bundles:
  assumes "base_frames_loop bundles k (zip frames infos) s = Inr s'"
    "list_all2 (frame_ok hash unz) frames (rest @ concat gs)" "map info_key infos = places j off rest @ all_places (j + 1) gs"
    "rest \<noteq> []" "[] \<notin> set gs" "bs_key s = concat (map (hash \<circ> snd) before)"
    "bundles ! j = hash (bundle_content (before @ rest))" "\<And>i. i < length gs \<Longrightarrow> bundles ! (j + 1 + i) = hash (bundle_content (gs ! i))"
    "bs_bundles s' key = Some name"
  shows "bs_bundles s key = Some name
    \<or> (\<exists>g \<in> set ((before @ rest) # gs). key = concat (map (hash \<circ> snd) g) \<and> name = hash (bundle_content g))"
  using assms
proof (induction frames arbitrary: k infos s rest gs j off before)
  case Nil
  then show ?case by simp
next
  case (Cons f fs)
  obtain raw c rest' where rest: "rest = (raw, c) # rest'" using Cons.prems(4) by (cases rest) auto
  obtain i infos' where infos: "infos = i # infos'" "unat (chunk_index i) = j"
      "map info_key infos' = places j (off + length c) rest' @ all_places (j + 1) gs"
    using Cons.prems(3) rest by (cases infos) (auto dest: info_key_index)
  have f: "af_chunk_hash f = hash c" "list_all2 (frame_ok hash unz) fs (rest' @ concat gs)"
    using Cons.prems(2) rest by (auto dest: frame_okD)
  define key' where "key' = concat (map (hash \<circ> snd) (before @ [(raw, c)]))"
  define s1 where "s1 = (\<lambda>last. \<lparr>bs_starts = bs_starts s @ [bs_pos s],
      bs_places = bs_places s @ [(bundles ! j, unat (chunk_offset i))], bs_by_raw = (bs_by_raw s)(af_raw_hash f \<mapsto> k),
      bs_bundles = (if last then (bs_bundles s)(key' \<mapsto> bundles ! j) else bs_bundles s),
      bs_key = (if last then [] else key'), bs_pos = bs_pos s + af_raw_len f\<rparr>)"
  have key': "bs_key s @ af_chunk_hash f = key'" using Cons.prems(6) f(1) by (simp add: key'_def comp_def)
  have step: "base_frames_loop bundles (k + 1) (zip fs infos')
      (s1 (case zip fs infos' of [] \<Rightarrow> True | (_, nx) # _ \<Rightarrow> chunk_index nx \<noteq> chunk_index i)) = Inr s'"
    using Cons.prems(1) unfolding infos(1) zip_Cons_Cons base_frames_loop.simps Let_def s1_def key' infos(2)
    by (simp split: if_splits)
  have lens: "length fs = length infos'" using f(2) infos(3) by (metis length_map list_all2_lengthD length_append length_places length_all_places)
  show ?case
  proof (cases rest')
    case (Cons d more')
    obtain i' more'' where i': "infos' = i' # more''" "unat (chunk_index i') = j"
      using infos(3) Cons by (cases infos'; cases d) (auto dest: info_key_index)
    obtain f' fs' where fs: "fs = f' # fs'" using lens i' by (cases fs) auto
    have "chunk_index i' = chunk_index i" using i'(2) infos(2) by (simp add: word_unat_eq_iff)
    then have "(case zip fs infos' of [] \<Rightarrow> True | (_, nx) # _ \<Rightarrow> chunk_index nx \<noteq> chunk_index i) = False"
      using fs i'(1) by simp
    then have "base_frames_loop bundles (k + 1) (zip fs infos') (s1 False) = Inr s'" using step by simp
    from Cons.IH[OF this f(2) infos(3) _ Cons.prems(5), of "before @ [(raw, c)]"]
    show ?thesis using Cons Cons.prems rest by (simp add: s1_def key'_def comp_def)
  next
    case Nil
    have "(case zip fs infos' of [] \<Rightarrow> True | (_, nx) # _ \<Rightarrow> chunk_index nx \<noteq> chunk_index i)"
    proof (cases gs)
      case Nil
      then show ?thesis using infos(3) \<open>rest' = []\<close> by simp
    next
      case (Cons g gs')
      then obtain raw' c' g' where "g = (raw', c') # g'" using Cons.prems(5) by (cases g) auto
      then obtain i' more'' where "infos' = i' # more''" "unat (chunk_index i') = j + 1"
        using infos(3) Cons \<open>rest' = []\<close> by (cases infos') (auto dest: info_key_index)
      then show ?thesis using lens infos(2) by (cases fs) auto
    qed
    then have loop: "base_frames_loop bundles (k + 1) (zip fs infos') (s1 True) = Inr s'" using step by simp
    have here: "bs_bundles (s1 True) key = Some name \<Longrightarrow> bs_bundles s key = Some name
        \<or> (key = concat (map (hash \<circ> snd) (before @ rest)) \<and> name = hash (bundle_content (before @ rest)))"
      using Cons.prems(7) rest Nil by (auto simp: s1_def key'_def split: if_splits)
    show ?thesis
    proof (cases gs)
      case Nil
      then have "fs = []" using f(2) \<open>rest' = []\<close> by simp
      then show ?thesis using loop here Cons.prems(9) by (auto simp: comp_def)
    next
      case (Cons g gs')
      have "bundles ! (j + 1) = hash (bundle_content g)" using Cons.prems(8)[of 0] Cons by simp
      moreover have "bundles ! (j + 1 + 1 + i) = hash (bundle_content (gs' ! i))" if "i < length gs'" for i
        using Cons.prems(8)[of "Suc i"] Cons that by simp
      ultimately have "bs_bundles (s1 True) key = Some name
          \<or> (\<exists>g \<in> set (([] @ g) # gs'). key = concat (map (hash \<circ> snd) g) \<and> name = hash (bundle_content g))"
        using Cons.prems(5,9) infos(3) f(2) Nil Cons
        by (intro Cons.IH[OF loop, of g gs' "j + 1" 0 "[]"]) (auto simp: s1_def)
      then show ?thesis using here Cons by (auto simp: comp_def)
    qed
  qed
qed

section \<open>The whole index\<close>

text \<open>
  What an incremental plan relies on of the index: frame starts are positions in the base stream, and a file it
  names lies in the base stream with its blob's content.
\<close>

definition index_sound :: "(oid \<Rightarrow> string option) \<Rightarrow> BaseIndex \<Rightarrow> frame_data list list \<Rightarrow> bool" where
  "index_sound find_blob b groups \<longleftrightarrow>
     bi_starts b = map (pos_of (raw_frames groups)) [0..<Suc (length (raw_frames groups))]
     \<and> length (bi_frames b) = length (raw_frames groups)
     \<and> (\<forall>path i start len. bi_files b path = Some (i, start, len) \<longrightarrow>
          (\<exists>c. find_blob i = Some c \<and> len = length c \<and> start + len \<le> length (concat (raw_frames groups))
            \<and> seg (concat (raw_frames groups)) start (start + len) = c))"

lemma prefix_sums_pos: "prefix_sums a (map length rs) @ [a + length (concat rs)] = map (\<lambda>k. a + pos_of rs k) [0..<Suc (length rs)]"
proof (induction rs arbitrary: a)
  case (Cons r rs)
  have "map (\<lambda>k. a + pos_of (r # rs) k) [0..<Suc (length (r # rs))]
      = a # map (\<lambda>k. a + pos_of (r # rs) (Suc k)) [0..<Suc (length rs)]"
    by (subst upt_conv_Cons) (simp_all add: map_Suc_upt[symmetric] del: upt_Suc)
  also have "\<dots> = a # map (\<lambda>k. (a + length r) + pos_of rs k) [0..<Suc (length rs)]"
    by (simp add: pos_of_def ac_simps del: upt_Suc)
  finally show ?case using Cons[of "a + length r"] by (simp add: ac_simps del: upt_Suc)
qed simp

lemma base_files_loop_sound:
  assumes "base_files_loop files pos m = Inr (pos', m')" "m' path = Some (i, start, len)"
  shows "m path = Some (i, start, len) \<or> (\<exists>k < length files. i = fe_blob_sha1 (files ! k) \<and> len = entry_bytes (files ! k)
    \<and> start = pos + sum_list (map entry_bytes (take k files)))"
  using assms
proof (induction files arbitrary: pos m)
  case (Cons entry rest)
  then have rest: "base_files_loop rest (pos + entry_bytes entry) (m(fe_path entry \<mapsto> (fe_blob_sha1 entry, pos, entry_bytes entry))) = Inr (pos', m')"
    by (auto simp: Let_def split: if_splits)
  from Cons.IH[OF this Cons.prems(2)] show ?case
  proof
    assume "(m(fe_path entry \<mapsto> (fe_blob_sha1 entry, pos, entry_bytes entry))) path = Some (i, start, len)"
    then show ?thesis by (cases "path = fe_path entry") (auto intro!: exI[of _ 0])
  next
    assume "\<exists>k < length rest. i = fe_blob_sha1 (rest ! k) \<and> len = entry_bytes (rest ! k)
      \<and> start = pos + entry_bytes entry + sum_list (map entry_bytes (take k rest))"
    then obtain k where "k < length rest" "i = fe_blob_sha1 (rest ! k)" "len = entry_bytes (rest ! k)"
      "start = pos + entry_bytes entry + sum_list (map entry_bytes (take k rest))" by blast
    then show ?thesis by (intro disjI2 exI[of _ "Suc k"]) simp
  qed
qed simp

lemma entry_bytes_exact: "entry_exact raws blob content file \<Longrightarrow> entry_bytes file = length content"
  by (auto simp: entry_exact_def entry_bytes_def length_file_bytes[symmetric])

lemma base_index_sound:
  assumes "base_index_new base = Inr b"
    "archive_exact hash unz find_blob tree (ab_frames base) (ab_metadata base) (ab_bundles base) groups"
    "in_stream_order (ab_metadata base) groups"
  shows "base_ok hash unz b groups \<and> index_sound find_blob b groups"
proof -
  let ?raws = "raw_frames groups"
  define files where "files = mc_files (ab_metadata base)"
  define contents where "contents = map (\<lambda>f. file_bytes ?raws (fe_fragments f)) files"
  have ok: "archive_ok hash unz (ab_frames base) (mc_frames (ab_metadata base)) (ab_bundles base) groups"
    using assms(2) by (simp add: archive_exact_def)
  let ?s0 = "\<lparr>bs_starts = [], bs_places = [], bs_by_raw = Map.empty, bs_bundles = Map.empty, bs_key = [], bs_pos = 0\<rparr>"
  let ?ps = "zip (ab_frames base) (mc_frames (ab_metadata base))"
  obtain s fpos fmap where s: "base_frames_loop (ab_bundles base) 0 ?ps ?s0 = Inr s"
    and fl: "base_files_loop files 0 Map.empty = Inr (fpos, fmap)"
    and lens: "length (mc_frames (ab_metadata base)) = length (ab_frames base)"
    and b: "b = \<lparr>bi_frames = ab_frames base, bi_starts = bs_starts s @ [bs_pos s], bi_places = bs_places s,
       bi_by_raw = bs_by_raw s, bi_bundles = bs_bundles s, bi_files = fmap\<rparr>"
    using assms(1) by (auto simp: base_index_new_def Let_def rbind_Inr files_def split: if_splits)
  have frames: "list_all2 (frame_ok hash unz) (ab_frames base) (concat groups)" using ok by (simp add: archive_ok_def)
  then have "map af_raw_len (ab_frames base) = map length ?raws"
    by (intro nth_equalityI) (auto simp: list_all2_conv_all_nth raw_frames_def frame_ok_def case_prod_beta)
  moreover have "map (af_raw_len \<circ> fst) ?ps = map af_raw_len (ab_frames base)"
    using lens by (simp add: map_fst_zip flip: map_map)
  ultimately have starts: "bi_starts b = map (pos_of ?raws) [0..<Suc (length ?raws)]"
    using base_frames_loop_pos[OF s] prefix_sums_pos[of 0 ?raws] by (simp add: b length_concat)
  have nlen: "length (bi_frames b) = length ?raws" using frames by (simp add: b raw_frames_def list_all2_lengthD)
  have by_raw: "k < length (bi_frames b) \<and> af_raw_hash (bi_frames b ! k) = h" if "bi_by_raw b h = Some k" for h k
    using base_frames_loop_by_raw[OF s, of h k] that lens by (auto simp: b)
  have bundles: "\<exists>g \<in> set groups. key = concat (map (hash \<circ> snd) g) \<and> name = hash (bundle_content g)"
    if found: "bi_bundles b key = Some name" for key name
  proof (cases groups)
    case Nil
    then show ?thesis using s frames found by (auto simp: b)
  next
    case (Cons g gs)
    have "g \<noteq> []" "[] \<notin> set gs" "map info_key (mc_frames (ab_metadata base)) = places 0 0 g @ all_places (0 + 1) gs"
      "ab_bundles base = map (hash \<circ> bundle_content) (g # gs)"
      using ok Cons by (auto simp: archive_ok_def)
    then show ?thesis
      using base_frames_loop_bundles[OF s, of hash unz g gs 0 0 "[]" key name] frames found Cons by (simp add: b)
  qed
  have files: "\<exists>c. find_blob i = Some c \<and> len = length c \<and> start + len \<le> length (concat ?raws) \<and> seg (concat ?raws) start (start + len) = c"
    if found: "bi_files b path = Some (i, start, len)" for path i start len
  proof -
    obtain k where k: "k < length files" "i = fe_blob_sha1 (files ! k)" "len = entry_bytes (files ! k)"
        "start = sum_list (map entry_bytes (take k files))"
      using base_files_loop_sound[OF fl, of path i start len] found by (auto simp: b)
    have all: "list_all2 (\<lambda>blob file. \<exists>content. find_blob (fst (snd blob)) = Some content
          \<and> entry_exact ?raws blob content file) (snd tree) files"
      using assms(2) by (simp add: archive_exact_def files_def)
    have each: "find_blob (fe_blob_sha1 (files ! m)) = Some (contents ! m) \<and> entry_bytes (files ! m) = length (contents ! m)"
      if "m < length files" for m
      using all that entry_bytes_exact by (fastforce simp: list_all2_conv_all_nth entry_exact_def contents_def)
    have "map entry_bytes (take k files) = map length (take k contents)"
      using each k(1) by (intro nth_equalityI) (auto simp: contents_def)
    then have start: "start = pos_of contents k" using k(4) by (simp add: pos_of_def length_concat)
    have blob: "len = length (contents ! k)" "find_blob i = Some (contents ! k)" using each k by auto
    have stream: "concat contents = concat ?raws" using assms(3) by (simp add: in_stream_order_def contents_def files_def)
    have "k < length contents" using k by (simp add: contents_def)
    then have stop: "start + len = pos_of contents (Suc k)" and range: "seg (concat ?raws) start (start + len) = contents ! k"
      using frame_seg[of k contents] pos_of_Suc[of k contents] start blob(1) stream by simp_all
    have "start + len \<le> length (concat ?raws)" using pos_of_le[of contents "Suc k"] by (simp only: stop stream)
    then show ?thesis by (intro exI[of _ "contents ! k"] conjI blob range)
  qed
  have "base_ok hash unz b groups" using frames by_raw bundles by (simp add: base_ok_def b)
  moreover have "index_sound find_blob b groups" using starts nlen files by (simp add: index_sound_def)
  ultimately show ?thesis by blast
qed

end
