(* ===== verification/Archive_Inc.thy ===== *)
theory Archive_Inc
  imports Archive_Base
begin

text \<open>
  Incremental builds are exact: a kept frame holds exactly the bytes of its place in the new stream, the gaps are read
  from the files that make them up, and frames that tile the new stream make the same archive as a whole build would.
\<close>

section \<open>Kept frames\<close>

definition headers_ok :: "(oid \<Rightarrow> string option) \<Rightarrow> (oid \<Rightarrow> nat option) \<Rightarrow> bool" where
  "headers_ok find_blob header_size \<longleftrightarrow> (\<forall>i c n. find_blob i = Some c \<longrightarrow> header_size i = Some n \<longrightarrow> n = length c)"

text \<open>A sized file of the plan: its size, and its bytes at its start in the old stream when it is unchanged.\<close>

definition sized_ok :: "string \<Rightarrow> nat \<times> nat option \<Rightarrow> string \<Rightarrow> bool" where
  "sized_ok old sz c \<longleftrightarrow> fst sz = length c
     \<and> (\<forall>s. snd sz = Some s \<longrightarrow> s + length c \<le> length old \<and> seg old s (s + length c) = c)"

lemma plan_size_ok:
  assumes "plan_size header_size b blob = Inr sz" "find_blob (fst (snd blob)) = Some c" "headers_ok find_blob header_size"
    "index_sound find_blob b groups"
  shows "sized_ok (concat (raw_frames groups)) sz c"
proof -
  obtain path i mode where blob: "blob = (path, i, mode)" by (cases blob) auto
  have header: "n = length c" if "header_size i = Some n" for n
    using assms(2,3) that blob by (auto simp: headers_ok_def)
  show ?thesis
  proof (cases "\<exists>start len. bi_files b path = Some (i, start, len)")
    case True
    then obtain start len where found: "bi_files b path = Some (i, start, len)" by blast
    then have "sz = (len, Some start)" using assms(1) by (simp add: plan_size_def blob)
    moreover have "\<exists>c. find_blob i = Some c \<and> len = length c \<and> start + len \<le> length (concat (raw_frames groups))
        \<and> seg (concat (raw_frames groups)) start (start + len) = c"
      using found assms(4) unfolding index_sound_def by blast
    ultimately show ?thesis using assms(2) blob by (auto simp: sized_ok_def)
  next
    case False
    then have "(case header_size i of None \<Rightarrow> Inl (BlobMissing i)
        | Some n \<Rightarrow> if n < 2 ^ 64 then Inr (n, None) else Inl ArchiveTooLarge) = Inr sz"
      using assms(1) by (auto simp: plan_size_def blob Let_def split: option.splits if_splits)
    then show ?thesis using header by (auto simp: sized_ok_def split: option.splits if_splits)
  qed
qed

definition segment_same :: "string \<Rightarrow> string \<Rightarrow> nat \<times> nat \<times> nat \<Rightarrow> bool" where
  "segment_same old new s \<longleftrightarrow> (case s of (o0, o1, n0) \<Rightarrow> o0 \<le> o1 \<and> o1 \<le> length old \<and> n0 + (o1 - o0) \<le> length new
     \<and> seg old o0 o1 = seg new n0 (n0 + (o1 - o0)))"

lemma segment_extend:
  assumes "segment_same old new (o0, o1, n0)" "n0 + (o1 - o0) = p" "p + n \<le> length new" "o1 + n \<le> length old"
    "seg old o1 (o1 + n) = seg new p (p + n)"
  shows "segment_same old new (o0, o1 + n, n0)"
proof -
  have "o0 \<le> o1" using assms(1) by (simp add: segment_same_def)
  then have "seg old o0 (o1 + n) = seg old o0 o1 @ seg old o1 (o1 + n)" by (intro seg_append[symmetric]) simp_all
  also have "\<dots> = seg new n0 p @ seg new p (p + n)" using assms by (simp add: segment_same_def)
  also have "\<dots> = seg new n0 (n0 + (o1 + n - o0))" using assms by (auto simp: segment_same_def seg_append ac_simps)
  finally show ?thesis using assms by (auto simp: segment_same_def)
qed

lemma segments_loop_ok:
  assumes "segments_loop sized p segs = Inr (segs', e)" "list_all2 (sized_ok old) sized cs" "new = before @ concat cs" "length before = p"
    "\<And>s. s \<in> set segs \<Longrightarrow> segment_same old new s"
  shows "e = length new \<and> (\<forall>s \<in> set segs'. segment_same old new s)"
  using assms(2,1,3-)
proof (induction arbitrary: p segs before rule: list_all2_induct)
  case (Cons sz sized c cs)
  obtain n old_start where sz: "sz = (n, old_start)" "n = length c" using Cons.hyps(1) by (cases sz) (auto simp: sized_ok_def)
  define segs1 where "segs1 = (case old_start of None \<Rightarrow> segs
        | Some old \<Rightarrow> (case segs of
              (o0, o1, n0) # older \<Rightarrow>
                if o1 = old \<and> n0 + (o1 - o0) = p then (o0, o1 + n, n0) # older else (old, old + n, p) # segs
            | [] \<Rightarrow> [(old, old + n, p)]))"
  have rest: "segments_loop sized (p + n) segs1 = Inr (segs', e)"
    using Cons.prems(1) by (simp add: sz(1) segs1_def[symmetric] Let_def split: if_splits)
  have here: "seg new p (p + n) = c" "p + n \<le> length new"
    using Cons.prems(2,3) sz(2) by (simp_all add: seg_in_suffix seg_in_prefix)
  have "segment_same old new s" if "s \<in> set segs1" for s
  proof (cases old_start)
    case None
    then show ?thesis using that Cons.prems(4) by (simp add: segs1_def)
  next
    case (Some st)
    then have st: "st + n \<le> length old" "seg old st (st + n) = c" using Cons.hyps(1) sz by (auto simp: sized_ok_def)
    then have fresh: "segment_same old new (st, st + n, p)" using here by (simp add: segment_same_def)
    have grown: "segment_same old new (o0, o1 + n, n0)" if "(o0, o1, n0) \<in> set segs" "o1 = st" "n0 + (o1 - o0) = p" for o0 o1 n0
      using segment_extend[OF Cons.prems(4)[OF that(1)], of p n] that st here by simp
    have "s \<in> set segs \<or> s = (st, st + n, p)
        \<or> (\<exists>o0 o1 n0. (o0, o1, n0) \<in> set segs \<and> o1 = st \<and> n0 + (o1 - o0) = p \<and> s = (o0, o1 + n, n0))"
      using that Some by (cases segs) (auto simp: segs1_def split: if_splits)
    then show ?thesis using fresh grown Cons.prems(4) by blast
  qed
  then show ?case using Cons.IH[OF rest, of "before @ c"] Cons.prems(2,3) sz(2) by simp
qed simp

definition kept_same :: "string list \<Rightarrow> string \<Rightarrow> nat \<times> nat \<times> nat \<Rightarrow> bool" where
  "kept_same raws new r \<longleftrightarrow> (case r of (ns, ne, k) \<Rightarrow> k < length raws \<and> ns \<le> ne \<and> ne \<le> length new \<and> raws ! k = seg new ns ne)"

lemma reuse_loop_ok:
  assumes "\<And>s. s \<in> set segs \<Longrightarrow> segment_same (concat raws) new s"
    "\<And>k fs fe. (k, fs, fe) \<in> set frames \<Longrightarrow> k < length raws \<and> fs = pos_of raws k \<and> fe = pos_of raws (Suc k)"
    "r \<in> set (reuse_loop segs frames)"
  shows "kept_same raws new r"
  using assms
proof (induction segs frames rule: reuse_loop.induct)
  case (2 segs k fs fe rest)
  have frame: "k < length raws" "fs = pos_of raws k" "fe = pos_of raws (Suc k)" using 2(4)[of k fs fe] by simp_all
  define segs1 where "segs1 = dropWhile (\<lambda>(o0, o1, n0). o1 \<le> fs) segs"
  have sub: "segment_same (concat raws) new s" if "s \<in> set segs1" for s
    using that 2(3) set_dropWhileD unfolding segs1_def by metis
  show ?case
  proof (cases "fe = fs")
    case True
    then have "r \<in> set (reuse_loop segs rest)" using 2(5) by simp
    then show ?thesis using 2(1)[OF True] 2(3) 2(4) by (meson list.set_intros(2))
  next
    case False
    then consider (here) o0 o1 n0 segs2 where "segs1 = (o0, o1, n0) # segs2" "o0 \<le> fs" "fe \<le> o1" "r = (n0 + (fs - o0), n0 + (fe - o0), k)"
      | (later) "r \<in> set (reuse_loop segs1 rest)"
      using 2(5) by (auto simp: segs1_def[symmetric] Let_def split: list.splits if_splits)
    then show ?thesis
    proof cases
      case here
      then have same: "o1 \<le> length (concat raws)" "n0 + (o1 - o0) \<le> length new" "seg (concat raws) o0 o1 = seg new n0 (n0 + (o1 - o0))"
        using sub[of "(o0, o1, n0)"] by (auto simp: segment_same_def)
      have le: "fs \<le> fe" using frame by (simp add: pos_of_mono)
      have "raws ! k = seg (concat raws) fs fe" using frame frame_seg by simp
      also have "\<dots> = seg (seg (concat raws) o0 o1) (fs - o0) (fe - o0)" using here le by (subst seg_seg) auto
      also have "\<dots> = seg new (n0 + (fs - o0)) (n0 + (fe - o0))" unfolding same(3) using here le by (intro seg_seg) auto
      finally show ?thesis using frame(1) le here same by (auto simp: kept_same_def)
    next
      case later
      then show ?thesis using 2(2)[OF False] 2(4) sub by (auto simp: segs1_def)
    qed
  qed
qed simp

lemma keep_loop_sub: "keep_loop m pos rs = Some ks \<Longrightarrow> set ks \<subseteq> set rs"
  by (induction m pos rs arbitrary: ks rule: keep_loop.induct) (auto split: if_splits)

lemma drop_short_tail_sub: "set (drop_short_tail m e ks) \<subseteq> set ks"
  using set_dropWhileD by (force simp: drop_short_tail_def)

lemma plan_incremental_ok:
  assumes "plan_incremental header_size cdc_min blobs b = Inr (Some (plan, sizes))" "contents_of find_blob blobs contents"
    "headers_ok find_blob header_size" "index_sound find_blob b groups"
  shows "sizes = map length contents \<and> (\<forall>r \<in> set (pl_reused plan). kept_same (raw_frames groups) (concat contents) r)"
proof -
  let ?old = "concat (raw_frames groups)"
  obtain sized segs e kept where sized: "map_result (plan_size header_size b) blobs = Inr sized"
    and segs: "segments_loop sized 0 [] = Inr (segs, e)"
    and kept: "keep_loop cdc_min 0 (sort_key fst (reuse_loop (sort_key fst (rev segs)) (frame_spans b))) = Some kept"
    and plan: "pl_reused plan = drop_short_tail cdc_min e kept" and sizes: "sizes = map fst sized"
    using assms(1) by (auto simp: plan_incremental_def rbind_Inr Let_def split: if_splits option.splits)
  have all: "list_all2 (sized_ok ?old) sized contents"
  proof (rule list_all2_all_nthI)
    note each = map_result_list_all2[OF sized] assms(2)[unfolded contents_of_def]
    show "length sized = length contents" using list_all2_lengthD[OF each(1)] list_all2_lengthD[OF each(2)] by simp
    fix i
    assume "i < length sized"
    then have "i < length blobs" using list_all2_lengthD[OF each(1)] by simp
    then show "sized_ok ?old (sized ! i) (contents ! i)"
      using plan_size_ok[OF _ _ assms(3,4)] list_all2_nthD[OF each(1)] list_all2_nthD[OF each(2)] by blast
  qed
  then have "sizes = map length contents" using sizes by (auto simp: list_all2_conv_all_nth sized_ok_def intro: nth_equalityI)
  moreover have "segment_same ?old (concat contents) s" if "s \<in> set segs" for s
    using segments_loop_ok[OF segs all, of "concat contents" "[]"] that by simp
  moreover have "k < length (raw_frames groups) \<and> fs = pos_of (raw_frames groups) k \<and> fe = pos_of (raw_frames groups) (Suc k)"
    if "(k, fs, fe) \<in> set (frame_spans b)" for k fs fe
    using that assms(4) by (auto simp: frame_spans_def index_sound_def simp del: upt_Suc)
  ultimately show ?thesis
    using reuse_loop_ok[of "sort_key fst (rev segs)" "raw_frames groups" "concat contents" "frame_spans b"]
      keep_loop_sub[OF kept] drop_short_tail_sub[of cdc_min e kept] plan by auto
qed

end
