(* ===== verification/Archive_Gaps.thy ===== *)
theory Archive_Gaps
  imports Archive_Inc
begin

text \<open>Reading, cutting and emitting the gaps of an incremental build.\<close>

lemma map_result_dom: "map_result f xs = Inr ys \<Longrightarrow> x \<in> set xs \<Longrightarrow> \<exists>y. f x = Inr y"
  by (induction xs arbitrary: ys) (auto simp: rbind_Inr)

lemma map_result_ran: "map_result f xs = Inr ys \<Longrightarrow> y \<in> set ys \<Longrightarrow> \<exists>x \<in> set xs. f x = Inr y"
  by (induction xs arbitrary: ys) (auto simp: rbind_Inr)

section \<open>The bytes of a gap\<close>

lemma length_starts_from [simp]: "length (starts_from a cs) = length cs"
  by (induction cs arbitrary: a) auto

lemma starts_from_nth: "k < length cs \<Longrightarrow> starts_from a cs ! k = a + pos_of cs k"
  by (induction cs arbitrary: a k) (auto simp: nth_Cons pos_of_def split: nat.splits)

lemma drop_starts_from: "drop k (starts_from a cs) = starts_from (a + pos_of cs k) (drop k cs)"
  by (induction cs arbitrary: a k) (auto simp: drop_Cons pos_of_def ac_simps split: nat.splits)

lemma first_file_pos: "ly_starts ly = starts_from 0 cs \<Longrightarrow> pos_of cs (first_file ly g0) \<le> g0"
proof -
  assume starts: "ly_starts ly = starts_from 0 cs"
  let ?tw = "takeWhile (\<lambda>start. start \<le> g0) (starts_from 0 cs)"
  show ?thesis
  proof (cases "?tw = []")
    case True
    then show ?thesis by (simp add: first_file_def starts)
  next
    case False
    let ?k = "length ?tw - 1"
    have k: "?k < length ?tw" using False by (cases ?tw) auto
    then have "?tw ! ?k \<le> g0" using set_takeWhileD[OF nth_mem[OF k]] by simp
    moreover have "?k < length cs" using k length_takeWhile_le[of _ "starts_from 0 cs"] by (metis le_less_trans length_starts_from less_le_trans)
    moreover have "?tw ! ?k = starts_from 0 cs ! ?k" by (rule takeWhile_nth[OF k])
    ultimately show ?thesis by (simp add: first_file_def starts starts_from_nth)
  qed
qed

lemma read_piece_seg:
  "read_piece find_blob pc = Inr d \<Longrightarrow> find_blob (pc_oid pc) = Some c \<Longrightarrow> pc_size pc = length c \<Longrightarrow> d = seg c (pc_lo pc) (pc_hi pc)"
  by (auto simp: read_piece_def seg_def)

lemma gap_pieces_data:
  assumes "map_result (read_piece find_blob) (gap_pieces g0 g1 (zip blobs (zip (starts_from a cs) (map length cs)))) = Inr datas"
    "contents_of find_blob blobs cs" "new = before @ concat cs" "length before = a"
  shows "concat datas = seg new (max g0 a) g1"
  using assms
proof (induction blobs cs arbitrary: a before datas rule: list_induct2')
  case (4 blob blobs c cs)
  obtain path i mode where blob: "blob = (path, i, mode)" by (cases blob) auto
  have c: "find_blob i = Some c" "contents_of find_blob blobs cs" using "4.prems"(2) by (simp_all add: blob contents_of_def)
  show ?case
  proof (cases "g1 \<le> a")
    case True
    then show ?thesis using "4.prems"(1) by (simp add: blob)
  next
    case False
    let ?rest = "gap_pieces g0 g1 (zip blobs (zip (starts_from (a + length c) cs) (map length cs)))"
    have IH: "concat ds = seg new (max g0 (a + length c)) g1" if "map_result (read_piece find_blob) ?rest = Inr ds" for ds
      using "4.IH"[OF that c(2), of "before @ c"] "4.prems"(3,4) by simp
    show ?thesis
    proof (cases "0 < length c \<and> g0 < a + length c")
      case overlap: True
      let ?pc = "\<lparr>pc_oid = i, pc_size = length c, pc_lo = max g0 a - a, pc_hi = min g1 (a + length c) - a\<rparr>"
      obtain d ds where d: "read_piece find_blob ?pc = Inr d" "map_result (read_piece find_blob) ?rest = Inr ds" "datas = d # ds"
        using "4.prems"(1) overlap False by (auto simp: blob rbind_Inr)
      have "d = seg c (max g0 a - a) (min g1 (a + length c) - a)"
        using read_piece_seg[OF d(1), of c] c(1) by simp
      also have "\<dots> = seg (c @ concat cs) (max g0 a - a) (min g1 (a + length c) - a)"
        by (intro seg_in_prefix[symmetric]) simp
      also have "\<dots> = seg new (max g0 a) (min g1 (a + length c))"
        using "4.prems"(3,4) by (simp add: seg_in_suffix)
      finally have "d = seg new (max g0 a) (min g1 (a + length c))" .
      moreover have "seg new (max g0 a) (min g1 (a + length c)) @ seg new (max g0 (a + length c)) g1 = seg new (max g0 a) g1"
        using overlap False by (cases "g1 \<le> a + length c") (simp_all add: seg_append max_def)
      ultimately show ?thesis using IH[OF d(2)] d(3) by simp
    next
      case none: False
      then have "map_result (read_piece find_blob) ?rest = Inr datas" using "4.prems"(1) False by (auto simp: blob)
      moreover have "max g0 a = max g0 (a + length c)" using none by auto
      ultimately show ?thesis using IH by simp
    qed
  qed
qed (auto simp: contents_of_def seg_def)

lemma owned_split:
  assumes "map_result rd (map fst (concat (map (\<lambda>(g, x). map (\<lambda>pc. (pc, g)) (P x)) (zip [a..<a + length xs] xs)))) = Inr datas"
    "i < length xs"
  shows "\<exists>ds. map_result rd (P (xs ! i)) = Inr ds
    \<and> gap_buffer datas (map snd (concat (map (\<lambda>(g, x). map (\<lambda>pc. (pc, g)) (P x)) (zip [a..<a + length xs] xs)))) (a + i) = concat ds"
  using assms
proof (induction xs arbitrary: a i datas)
  case (Cons x xs)
  let ?owned = "\<lambda>a. concat (map (\<lambda>(g, x). map (\<lambda>pc. (pc, g)) (P x)) (zip [a..<a + length xs] xs))"
  have split: "concat (map (\<lambda>(g, x). map (\<lambda>pc. (pc, g)) (P x)) (zip [a..<a + length (x # xs)] (x # xs)))
      = map (\<lambda>pc. (pc, a)) (P x) @ ?owned (Suc a)" by (simp add: upt_conv_Cons del: upt_Suc)
  have "map fst (map (\<lambda>pc. (pc, a)) (P x)) = P x" by (simp add: comp_def)
  then obtain d1 d2 where d: "map_result rd (P x) = Inr d1" "map_result rd (map fst (?owned (Suc a))) = Inr d2" "datas = d1 @ d2"
    using Cons.prems(1) unfolding split map_append by (auto simp: map_result_append rbind_Inr simp del: map_map)
  have len: "length d1 = length (map snd (map (\<lambda>pc. (pc, a)) (P x)))" using map_result_Inr_length[OF d(1)] by simp
  have buf: "gap_buffer datas (map snd (map (\<lambda>pc. (pc, a)) (P x) @ ?owned (Suc a))) g
      = gap_buffer d1 (replicate (length d1) a) g @ gap_buffer d2 (map snd (?owned (Suc a))) g" for g
    using len d(3) by (simp add: gap_buffer_def zip_append map_replicate_const comp_def)
  have other: "gap_buffer d1 (replicate (length d1) a) g = (if g = a then concat d1 else [])" for g
    by (induction d1) (auto simp: gap_buffer_def)
  have late: "gap_buffer d2 (map snd (?owned (Suc a))) a = []"
  proof -
    define os where "os = map snd (?owned (Suc a))"
    have "a \<notin> set os" by (auto simp: os_def dest!: set_zip_leftD)
    then show ?thesis unfolding os_def[symmetric] gap_buffer_def by (subst filter_False) (auto dest: set_zip_rightD)
  qed
  show ?case
  proof (cases i)
    case 0
    then show ?thesis using d(1) late unfolding split buf by (simp add: other)
  next
    case (Suc j)
    then show ?thesis using Cons.IH[OF _ , of "Suc a" d2 j] d(2) Cons.prems(2) unfolding split buf by (simp add: other)
  qed
qed simp

section \<open>Cutting\<close>

lemma cuts_tile_pos: "cuts_tile a cuts e \<Longrightarrow> (off, len) \<in> set cuts \<Longrightarrow> 0 < len"
  by (induction a cuts e rule: cuts_tile.induct) auto

text \<open>Emitted frames with their bounds: each holds the bytes of its range of the new stream.\<close>

definition covers_range :: "string \<Rightarrow> nat \<times> nat \<Rightarrow> frame_data \<Rightarrow> bool" where
  "covers_range new ab d \<longleftrightarrow> fst ab \<le> snd ab \<and> snd ab \<le> length new \<and> fst d = seg new (fst ab) (snd ab)"

lemma cut_gaps_ok:
  assumes "cut_gaps find_blob cdc hash zstd b ly gaps = Inr cuts" "layout_new blobs links (map length contents) = Inr ly"
    "contents_of find_blob blobs contents" "chunker_ok cdc" "usable hash unz (Some b) groups" "codec_ok zstd unz"
    "(start, stop, frame) \<in> set cuts"
  shows "\<exists>d. built_ok hash unz (Some b) groups frame d \<and> covers_range (concat contents) (start, stop) d"
proof -
  let ?new = "concat contents"
  note ly = layout_new_contents[OF assms(2)]
  define files where "files = zip blobs (zip (starts_from 0 contents) (map length contents))"
  define P where "P = (\<lambda>(g0, g1). gap_pieces g0 g1 (drop (first_file ly g0) files))"
  define owned where "owned = concat (map (\<lambda>(g, x). map (\<lambda>pc. (pc, g)) (P x)) (zip [0..<0 + length gaps] gaps))"
  have owned: "concat (map (\<lambda>(g, g0, g1). map (\<lambda>pc. (pc, g)) (gap_pieces g0 g1 (drop (first_file ly g0)
      (zip (ly_blobs ly) (zip (ly_starts ly) (ly_sizes ly)))))) (zip [0..<length gaps] gaps)) = owned"
    using ly by (simp add: owned_def P_def files_def split_def)
  obtain datas us where datas: "map_result (read_piece find_blob) (map fst owned) = Inr datas"
    and us: "map_result (\<lambda>(buffer, g0, g1). if length buffer \<noteq> g1 - g0 then Inl (GapLength g0 g1) else Inr ())
        (zip (map (gap_buffer datas (map snd owned)) [0..<length gaps]) gaps) = Inr us"
    and cut: "map_result (\<lambda>(buffer, g0, offset, len).
          rbind (build_frame hash zstd (Some b) (take len (drop offset buffer))) (\<lambda>frame. Inr (g0 + offset, g0 + offset + len, frame)))
        (concat (map (\<lambda>(buffer, g0, _). map (\<lambda>(offset, len). (buffer, g0, offset, len)) (cdc buffer))
          (zip (map (gap_buffer datas (map snd owned)) [0..<length gaps]) gaps))) = Inr cuts"
    using assms(1) unfolding cut_gaps_def Let_def owned
    by (auto simp: rbind_Inr)
  have checked: "length buffer = g1 - g0"
    if "(buffer, g0, g1) \<in> set (zip (map (gap_buffer datas (map snd owned)) [0..<length gaps]) gaps)" for buffer g0 g1
    using map_result_dom[OF us that] by (auto split: if_splits)
  have buffer: "gap_buffer datas (map snd owned) i = seg ?new (fst (gaps ! i)) (snd (gaps ! i))" if lt: "i < length gaps" for i
  proof -
    obtain g0 g1 where g: "gaps ! i = (g0, g1)" by fastforce
    obtain ds where ds: "map_result (read_piece find_blob) (P (gaps ! i)) = Inr ds" "gap_buffer datas (map snd owned) i = concat ds"
      using owned_split[of "read_piece find_blob" P 0 gaps datas i] datas lt by (auto simp: owned_def)
    let ?k = "first_file ly g0"
    have le: "pos_of contents ?k \<le> g0" using first_file_pos ly by blast
    have cont: "contents_of find_blob (drop ?k blobs) (drop ?k contents)" using assms(3) by (simp add: contents_of_def list_all2_dropI)
    have dfiles: "drop ?k files = zip (drop ?k blobs) (zip (starts_from (pos_of contents ?k) (drop ?k contents)) (map length (drop ?k contents)))"
      by (simp add: files_def drop_zip drop_starts_from drop_map)
    have new: "?new = concat (take ?k contents) @ concat (drop ?k contents)" by (metis append_take_drop_id concat_append)
    have pieces: "map_result (read_piece find_blob) (gap_pieces g0 g1 (drop ?k files)) = Inr ds" using ds(1) g by (simp add: P_def)
    have "concat ds = seg ?new (max g0 (pos_of contents ?k)) g1"
      by (rule gap_pieces_data[OF pieces[unfolded dfiles] cont new]) (simp add: pos_of_def)
    then show ?thesis using ds(2) g le by (simp add: max_def)
  qed
  obtain bufr g0 g1 off len where src: "(bufr, g0, g1) \<in> set (zip (map (gap_buffer datas (map snd owned)) [0..<length gaps]) gaps)"
    "(off, len) \<in> set (cdc bufr)" "build_frame hash zstd (Some b) (take len (drop off bufr)) = Inr frame" "start = g0 + off" "stop = g0 + off + len"
    using map_result_ran[OF cut assms(7)] by (fastforce simp: rbind_Inr)
  have bufr: "bufr = seg ?new g0 g1" "length bufr = g1 - g0"
    using src(1) checked buffer by (auto simp: in_set_zip)
  have in_buf: "off + len \<le> length bufr" "0 < len \<or> off + len \<le> length bufr"
    using cuts_tile_within[of 0 "cdc bufr" "length bufr" off len] src(2) assms(4) by (auto simp: chunker_ok_def)
  obtain c where "built_ok hash unz (Some b) groups frame (take len (drop off bufr), c)"
    using build_frame_ok[OF src(3) assms(5,6)] by blast
  moreover have "take len (drop off bufr) = seg ?new start stop"
  proof -
    have "take len (drop off bufr) = seg bufr off (off + len)" by (simp add: seg_def)
    then show ?thesis using in_buf bufr src(4,5) seg_seg[of g0 "off + len" g1 ?new off] by (cases "g0 \<le> g1") (auto simp: ac_simps)
  qed
  moreover have "stop \<le> length ?new"
  proof -
    have "len \<noteq> 0" using src(2) assms(4) cuts_tile_pos[of 0 "cdc bufr" "length bufr"] by (auto simp: chunker_ok_def)
    then have "g0 < g1" using in_buf bufr(2) by linarith
    moreover from this have "g1 \<le> length ?new \<or> length bufr < g1 - g0" using bufr(1) by (auto simp: seg_def)
    ultimately show ?thesis using in_buf bufr(2) src(5) by linarith
  qed
  ultimately show ?thesis using src(4,5) by (auto simp: covers_range_def)
qed

section \<open>Emitting frames in order\<close>

text \<open>What pushing a run of frames keeps: the bundler is exact for the frames so far and the new ones cover their bounds.\<close>

definition emitted ::
    "(string \<Rightarrow> string) \<Rightarrow> (string \<Rightarrow> nat \<Rightarrow> string option) \<Rightarrow> BaseIndex \<Rightarrow> frame_data list list \<Rightarrow> string \<Rightarrow> (nat \<times> nat) list
       \<Rightarrow> frame_data list \<Rightarrow> Bundler \<Rightarrow> bool" where
  "emitted hash unz b groups new bounds ds bd \<longleftrightarrow>
     (\<exists>closed cur. bundler_ok hash unz (Some b) groups closed cur bd \<and> concat closed @ cur = ds) \<and> list_all2 (covers_range new) bounds ds"

lemma emit_one:
  assumes "emitted hash unz b groups new bounds ds bd" "bundler_push hash storage (Some b) f bd = Inr bd'"
    "built_ok hash unz (Some b) groups f d" "covers_range new ab d" "usable hash unz (Some b) groups" "\<And>s. length (hash s) = n" "0 < n"
  shows "emitted hash unz b groups new (bounds @ [ab]) (ds @ [d]) bd'"
proof -
  obtain closed cur where ok: "bundler_ok hash unz (Some b) groups closed cur bd" "concat closed @ cur = ds"
    using assms(1) by (auto simp: emitted_def)
  obtain closed' cur' where "bundler_ok hash unz (Some b) groups closed' cur' bd'" "concat closed' @ cur' = concat closed @ cur @ [d]"
    using bundler_push_ok[OF assms(2) ok(1) assms(3,5,6,7)] by blast
  moreover from this ok(2) have "concat closed' @ cur' = ds @ [d]" by (metis append.assoc)
  moreover have "list_all2 (covers_range new) (bounds @ [ab]) (ds @ [d])"
    using assms(1,4) by (auto simp: emitted_def intro: list_all2_appendI)
  ultimately show ?thesis unfolding emitted_def by blast
qed

lemma emit_kept_ok:
  assumes "emit_kept b (bundler_push hash storage (Some b)) stop kept bd = Inr (out, kept', bd')" "emitted hash unz b groups new bounds ds bd"
    "\<And>r. r \<in> set kept \<Longrightarrow> kept_same (raw_frames groups) new r" "usable hash unz (Some b) groups" "\<And>s. length (hash s) = n" "0 < n"
  shows "(\<exists>ds'. emitted hash unz b groups new (bounds @ out) (ds @ ds') bd') \<and> set kept' \<subseteq> set kept"
  using assms(1-3)
proof (induction kept arbitrary: bd bounds ds out)
  case Nil
  then show ?case by (auto intro: exI[of _ "[]"])
next
  case (Cons r kept)
  obtain start stop' k where r: "r = (start, stop', k)" by (cases r) auto
  show ?case
  proof (cases "start < stop")
    case False
    then show ?thesis using Cons.prems by (auto simp: r intro: exI[of _ "[]"])
  next
    case True
    then obtain bd1 out1 where push: "bundler_push hash storage (Some b) (kept_frame b k) bd = Inr bd1"
      and rest: "emit_kept b (bundler_push hash storage (Some b)) stop kept bd1 = Inr (out1, kept', bd')" and out: "out = (start, stop') # out1"
      using Cons.prems(1) by (auto simp: r rbind_Inr)
    have same: "k < length (raw_frames groups)" "covers_range new (start, stop') (concat groups ! k)"
      using Cons.prems(3)[of r] by (auto simp: r kept_same_def covers_range_def raw_frames_def)
    have "length (bi_frames b) = length (raw_frames groups)"
      using assms(4) by (auto simp: usable_def base_ok_def raw_frames_def list_all2_lengthD)
    then have "built_ok hash unz (Some b) groups (kept_frame b k) (concat groups ! k)"
      using kept_frame_ok[OF refl assms(4)] same(1) by simp
    then have "emitted hash unz b groups new (bounds @ [(start, stop')]) (ds @ [concat groups ! k]) bd1"
      using emit_one[OF Cons.prems(2) push _ same(2) assms(4,5,6)] by simp
    from Cons.IH[OF rest this] Cons.prems(3)
    obtain ds' where "emitted hash unz b groups new ((bounds @ [(start, stop')]) @ out1) ((ds @ [concat groups ! k]) @ ds') bd'" "set kept' \<subseteq> set kept"
      by auto
    then show ?thesis using out by (auto intro!: exI[of _ "(concat groups ! k) # ds'"])
  qed
qed

lemma emit_cuts_ok:
  assumes "emit_cuts b (bundler_push hash storage (Some b)) cuts kept bd = Inr (out, kept', bd')" "emitted hash unz b groups new bounds ds bd"
    "\<And>r. r \<in> set kept \<Longrightarrow> kept_same (raw_frames groups) new r"
    "\<And>start stop f. (start, stop, f) \<in> set cuts \<Longrightarrow> \<exists>d. built_ok hash unz (Some b) groups f d \<and> covers_range new (start, stop) d"
    "usable hash unz (Some b) groups" "\<And>s. length (hash s) = n" "0 < n"
  shows "(\<exists>ds'. emitted hash unz b groups new (bounds @ out) (ds @ ds') bd') \<and> set kept' \<subseteq> set kept"
  using assms(1-4)
proof (induction cuts arbitrary: bd bounds ds out kept)
  case Nil
  then show ?case by (auto intro: exI[of _ "[]"])
next
  case (Cons cut cuts)
  obtain start stop f where cut: "cut = (start, stop, f)" by (cases cut) auto
  obtain before kept1 bd1 bd2 after where e1: "emit_kept b (bundler_push hash storage (Some b)) start kept bd = Inr (before, kept1, bd1)"
    and push: "bundler_push hash storage (Some b) f bd1 = Inr bd2"
    and rest: "emit_cuts b (bundler_push hash storage (Some b)) cuts kept1 bd2 = Inr (after, kept', bd')"
    and out: "out = before @ (start, stop) # after"
    using Cons.prems(1) by (auto simp: cut rbind_Inr)
  obtain d where d: "built_ok hash unz (Some b) groups f d" "covers_range new (start, stop) d" using Cons.prems(4)[of start stop f] cut by auto
  obtain ds1 where ds1: "emitted hash unz b groups new (bounds @ before) (ds @ ds1) bd1" and sub: "set kept1 \<subseteq> set kept"
    using emit_kept_ok[OF e1 Cons.prems(2,3) assms(5,6,7)] by blast
  note em = emit_one[OF ds1 push d assms(5,6,7)]
  have "(\<exists>ds'. emitted hash unz b groups new (((bounds @ before) @ [(start, stop)]) @ after) (((ds @ ds1) @ [d]) @ ds') bd') \<and> set kept' \<subseteq> set kept1"
    using sub Cons.prems(3,4) by (intro Cons.IH[OF rest em]) auto
  then obtain ds' where "emitted hash unz b groups new (bounds @ out) (ds @ (ds1 @ d # ds')) bd'" "set kept' \<subseteq> set kept1"
    using out by auto
  then show ?case using sub by blast
qed

lemma gap_batches_ok:
  assumes "gap_batches cutter b (bundler_push hash storage (Some b)) runs kept bd = Inr (out, kept', bd')"
    "emitted hash unz b groups new bounds ds bd" "\<And>r. r \<in> set kept \<Longrightarrow> kept_same (raw_frames groups) new r"
    "\<And>batch cuts start stop f. cutter batch = Inr cuts \<Longrightarrow> (start, stop, f) \<in> set cuts \<Longrightarrow>
       \<exists>d. built_ok hash unz (Some b) groups f d \<and> covers_range new (start, stop) d"
    "usable hash unz (Some b) groups" "\<And>s. length (hash s) = n" "0 < n"
  shows "(\<exists>ds'. emitted hash unz b groups new (bounds @ out) (ds @ ds') bd') \<and> set kept' \<subseteq> set kept"
  using assms(1-3)
proof (induction runs arbitrary: bd bounds ds out kept)
  case Nil
  then show ?case by (auto intro: exI[of _ "[]"])
next
  case (Cons batch runs)
  obtain cuts before kept1 bd1 after where cut: "cutter batch = Inr cuts"
    and e1: "emit_cuts b (bundler_push hash storage (Some b)) cuts kept bd = Inr (before, kept1, bd1)"
    and rest: "gap_batches cutter b (bundler_push hash storage (Some b)) runs kept1 bd1 = Inr (after, kept', bd')"
    and out: "out = before @ after"
    using Cons.prems(1) by (auto simp: rbind_Inr)
  obtain ds1 where ds1: "emitted hash unz b groups new (bounds @ before) (ds @ ds1) bd1" and sub: "set kept1 \<subseteq> set kept"
    using emit_cuts_ok[OF e1 Cons.prems(2,3) assms(4)[OF cut] assms(5,6,7)] by blast
  have "(\<exists>ds'. emitted hash unz b groups new ((bounds @ before) @ after) ((ds @ ds1) @ ds') bd') \<and> set kept' \<subseteq> set kept1"
    using sub Cons.prems(3) by (intro Cons.IH[OF rest ds1]) auto
  then obtain ds' where "emitted hash unz b groups new (bounds @ out) (ds @ (ds1 @ ds')) bd'" "set kept' \<subseteq> set kept1"
    using out by auto
  then show ?case using sub by blast
qed

lemma tiling_covers:
  assumes "tiles bounds" "list_all2 (covers_range new) bounds ds" "bounds \<noteq> []"
  shows "bounds = spans (fst (hd bounds)) (map fst ds) \<and> concat (map fst ds) = seg new (fst (hd bounds)) (snd (last bounds))
    \<and> fst (hd bounds) \<le> snd (last bounds)"
  using assms(2,1,3)
proof (induction rule: list_all2_induct)
  case (Cons ab bounds d ds)
  obtain a e where ab: "ab = (a, e)" by fastforce
  then have d: "a \<le> e" "e \<le> length new" "fst d = seg new a e" using Cons.hyps(1) by (auto simp: covers_range_def)
  show ?case
  proof (cases bounds)
    case Nil
    then show ?thesis using Cons.hyps(2) ab d by simp
  next
    case (Cons ab' bounds')
    then have ne: "bounds \<noteq> []" and tail: "fst (hd bounds) = e" "tiles bounds" using Cons.prems(1) ab by auto
    note IH = Cons.IH[OF tail(2) ne, unfolded tail(1)]
    have "length (fst d) = e - a" using d by simp
    then have "spans a (map fst (d # ds)) = (a, e) # bounds" using d(1) conjunct1[OF IH] by simp
    moreover have "concat (map fst (d # ds)) = seg new a (snd (last bounds))"
      using conjunct2[OF IH] d seg_append[of a e "snd (last bounds)" new] by simp
    moreover have "a \<le> snd (last bounds)" using IH d(1) by linarith
    ultimately show ?thesis using ab ne by auto
  qed
qed simp

lemma build_gaps_ok:
  assumes "build_gaps find_blob cdc hash zstd b (bundler_push hash storage (Some b)) ly plan (bundler_new cas target) = Inr (bounds, bytes, bd')"
    "layout_new blobs links (map length contents) = Inr ly" "contents_of find_blob blobs contents"
    "\<And>r. r \<in> set (pl_reused plan) \<Longrightarrow> kept_same (raw_frames groups) (concat contents) r"
    "chunker_ok cdc" "usable hash unz (Some b) groups" "codec_ok zstd unz" "\<And>s. length (hash s) = n" "0 < n"
  shows "\<exists>ds closed cur. bounds = spans 0 (map fst ds) \<and> concat (map fst ds) = concat contents
    \<and> bundler_ok hash unz (Some b) groups closed cur bd' \<and> concat closed @ cur = ds"
proof -
  let ?push = "bundler_push hash storage (Some b)" and ?new = "concat contents"
  obtain before kept bd1 after kept2 where
    b1: "gap_batches (cut_gaps find_blob cdc hash zstd b ly) b ?push (windows MAX_GAP_BYTES (\<lambda>(a, b). b - a) (pl_gaps plan)) (pl_reused plan)
      (bundler_new cas target) = Inr (before, kept, bd1)"
    and b2: "emit_kept b ?push (2 ^ 64 - 1) kept bd1 = Inr (after, kept2, bd')" and bounds: "bounds = before @ after"
    and tiled: "bounds \<noteq> []" "fst (hd bounds) = 0" "snd (last bounds) = ly_total ly" "tiles bounds"
    using assms(1) unfolding build_gaps_def by (auto simp: rbind_Inr Let_def split: if_splits)
  have start: "emitted hash unz b groups ?new [] [] (bundler_new cas target)"
    using bundler_new_ok by (fastforce simp: emitted_def)
  have cuts: "\<exists>d. built_ok hash unz (Some b) groups f d \<and> covers_range ?new (start, stop) d"
    if "cut_gaps find_blob cdc hash zstd b ly batch = Inr cuts" "(start, stop, f) \<in> set cuts" for batch cuts start stop f
    by (rule cut_gaps_ok[OF that(1) assms(2,3,5,6,7) that(2)])
  have "(\<exists>ds'. emitted hash unz b groups ?new ([] @ before) ([] @ ds') bd1) \<and> set kept \<subseteq> set (pl_reused plan)"
    by (rule gap_batches_ok[OF b1 start assms(4) cuts assms(6,8,9)])
  then obtain ds1 where ds1: "emitted hash unz b groups ?new before ds1 bd1" and sub: "set kept \<subseteq> set (pl_reused plan)" by auto
  have kept: "\<And>r. r \<in> set kept \<Longrightarrow> kept_same (raw_frames groups) ?new r" using assms(4) sub by blast
  obtain ds2 where "emitted hash unz b groups ?new bounds (ds1 @ ds2) bd'"
    using emit_kept_ok[OF b2 ds1 kept assms(6,8,9)] bounds by blast
  then obtain closed cur where ok: "bundler_ok hash unz (Some b) groups closed cur bd'" "concat closed @ cur = ds1 @ ds2"
      "list_all2 (covers_range ?new) bounds (ds1 @ ds2)" by (auto simp: emitted_def)
  have "bounds = spans 0 (map fst (ds1 @ ds2)) \<and> concat (map fst (ds1 @ ds2)) = seg ?new 0 (length ?new)"
    using tiling_covers[OF tiled(4) ok(3) tiled(1)] tiled(2,3) layout_new_contents[OF assms(2)] by simp
  then show ?thesis using ok(1,2) by (intro exI[of _ "ds1 @ ds2"] exI[of _ closed] exI[of _ cur]) simp
qed

end
