(* ===== verification/Archive_Props.thy ===== *)
theory Archive_Props
  imports Archive_Gaps
begin

text \<open>Whole and incremental archive builds: whatever base is given, the archive is exact for the tree.\<close>

definition base_exact ::
    "(string \<Rightarrow> string) \<Rightarrow> (string \<Rightarrow> nat \<Rightarrow> string option) \<Rightarrow> (oid \<Rightarrow> string option) \<Rightarrow> ArchiveBase \<Rightarrow> frame_data list list \<Rightarrow> bool" where
  "base_exact hash unz find_blob base groups \<longleftrightarrow>
     (\<exists>tree. archive_exact hash unz find_blob tree (ab_frames base) (ab_metadata base) (ab_bundles base) groups)
     \<and> base_resists hash groups"

lemma base_index_usable:
  assumes "base_exact hash unz find_blob base groups" "in_stream_order (ab_metadata base) groups" "base_index_new base = Inr b"
  shows "usable hash unz (Some b) groups \<and> index_sound find_blob b groups \<and> (hash \<circ> bundle_content) ` set groups = set (ab_bundles base)"
proof -
  obtain tree where exact: "archive_exact hash unz find_blob tree (ab_frames base) (ab_metadata base) (ab_bundles base) groups"
    and res: "base_resists hash groups" using assms(1) by (auto simp: base_exact_def)
  have "(hash \<circ> bundle_content) ` set groups = set (ab_bundles base)"
    using exact by (auto simp: archive_exact_def archive_ok_def)
  then show ?thesis using base_index_sound[OF assms(3) exact assms(2)] res by (simp add: usable_def)
qed

lemma rbind_InrE: "rbind r f = Inr b \<Longrightarrow> (\<And>a. r = Inr a \<Longrightarrow> f a = Inr b \<Longrightarrow> P) \<Longrightarrow> P"
  by (auto simp: rbind_Inr)

text \<open>The two ways the frames of a build reach the bundler.\<close>

lemma build_frames_exact:
  assumes "(case (plan, bi) of
          (Some (plan, sizes), Some b) \<Rightarrow>
            rbind (layout_new blobs gitlinks sizes) (\<lambda>ly.
            rbind (build_gaps find_blob slice_cdc hash zstd b (bundler_push hash storage bi) ly plan (bundler_new cas target)) (\<lambda>(bounds, bytes_read, bd).
            Inr (ly, bounds, bytes_read, bd)))
        | _ \<Rightarrow>
            rbind (blob_sizes header_size blobs) (\<lambda>sizes.
            rbind (layout_new blobs gitlinks sizes) (\<lambda>ly.
            rbind (stream_frames find_blob stream_cdc hash zstd bi (bundler_push hash storage bi) ly (bundler_new cas target)) (\<lambda>(bounds, bd).
            Inr (ly, bounds, ly_total ly, bd))))) = Inr (ly, bounds, bytes_read, bd)"
    "(case bi of Some b \<Rightarrow> plan_incremental header_size cdc_min blobs b | None \<Rightarrow> Inr None) = Inr plan"
    "usable hash unz bi groups" "\<And>b. bi = Some b \<Longrightarrow> index_sound find_blob b groups" "bi \<noteq> None \<Longrightarrow> \<exists>contents. contents_of find_blob blobs contents"
    "headers_ok find_blob header_size" "codec_ok zstd unz" "chunker_ok stream_cdc" "chunker_ok slice_cdc" "\<And>s. length (hash s) = n" "0 < n"
  shows "\<exists>contents ds closed cur. layout_new blobs gitlinks (map length contents) = Inr ly \<and> contents_of find_blob blobs contents
    \<and> bounds = spans 0 (map fst ds) \<and> concat (map fst ds) = concat contents
    \<and> bundler_ok hash unz bi groups closed cur bd \<and> concat closed @ cur = ds"
proof (cases "\<exists>p sizes b. plan = Some (p, sizes) \<and> bi = Some b")
  case True
  then obtain p sizes b where p: "plan = Some (p, sizes)" "bi = Some b" by blast
  obtain contents where contents: "contents_of find_blob blobs contents" using assms(5) p(2) by auto
  have plan: "plan_incremental header_size cdc_min blobs b = Inr (Some (p, sizes))" using assms(2) p by simp
  have sizes: "sizes = map length contents" "\<And>r. r \<in> set (pl_reused p) \<Longrightarrow> kept_same (raw_frames groups) (concat contents) r"
    using plan_incremental_ok[OF plan contents assms(6) assms(4)[OF p(2)]] by blast+
  have ly: "layout_new blobs gitlinks (map length contents) = Inr ly"
    and gaps: "build_gaps find_blob slice_cdc hash zstd b (bundler_push hash storage (Some b)) ly p (bundler_new cas target) = Inr (bounds, bytes_read, bd)"
    using assms(1) p sizes(1) by (auto simp: rbind_Inr)
  show ?thesis
    using build_gaps_ok[OF gaps ly contents sizes(2) assms(9) _ assms(7,10,11)] assms(3) ly contents p(2) by blast
next
  case False
  then have "rbind (blob_sizes header_size blobs) (\<lambda>sizes. rbind (layout_new blobs gitlinks sizes) (\<lambda>ly.
        rbind (stream_frames find_blob stream_cdc hash zstd bi (bundler_push hash storage bi) ly (bundler_new cas target)) (\<lambda>(bounds, bd).
        Inr (ly, bounds, ly_total ly, bd)))) = Inr (ly, bounds, bytes_read, bd)"
    using assms(1) by (cases plan; cases bi) auto
  then obtain sizes where sizes: "blob_sizes header_size blobs = Inr sizes" and ly: "layout_new blobs gitlinks sizes = Inr ly"
    and str: "stream_frames find_blob stream_cdc hash zstd bi (bundler_push hash storage bi) ly (bundler_new cas target) = Inr (bounds, bd)"
    by (auto simp: rbind_Inr)
  have "length sizes = length blobs" using sizes by (auto simp: blob_sizes_def dest: map_result_Inr_length)
  from stream_frames_ok[OF str ly this bundler_new_ok assms(3,7,8,10,11)] show ?thesis using ly by blast
qed

lemma built_archive_exact:
  assumes "build_into_cas find_blob header_size stream_cdc slice_cdc hash zstd cdc_min tree cas storage base bundle_size = Inr out"
    "\<And>b. base = Some b \<Longrightarrow> base_exact hash unz find_blob b groups \<and> in_stream_order (ab_metadata b) groups"
    "base \<noteq> None \<Longrightarrow> \<exists>contents. contents_of find_blob (snd tree) contents"
    "headers_ok find_blob header_size" "codec_ok zstd unz" "chunker_ok stream_cdc" "chunker_ok slice_cdc"
    "\<And>s. length (hash s) = n" "0 < n"
  shows "\<exists>groups'. archive_exact hash unz find_blob tree (ao_frames out) (ao_metadata out) (ao_bundles out) groups'
    \<and> in_stream_order (ao_metadata out) groups'
    \<and> (\<forall>name \<in> set (ao_new_bundles out). \<exists>content. ao_cas out name = Some content \<and> hash content = name)
    \<and> set (ao_bundles out) \<subseteq> set (ao_new_bundles out) \<union> (case base of None \<Rightarrow> {} | Some b \<Rightarrow> set (ab_bundles b))"
proof -
  obtain gitlinks blobs where tree: "tree = (gitlinks, blobs)" by fastforce
  define bi where "bi = Option.bind base (\<lambda>b. ok_option (base_index_new b))"
  obtain plan ly bounds bytes_read bd bd' metadata where
    plan: "(case bi of Some b \<Rightarrow> plan_incremental header_size cdc_min blobs b | None \<Rightarrow> Inr None) = Inr plan"
    and frames: "(case (plan, bi) of
          (Some (plan, sizes), Some b) \<Rightarrow>
            rbind (layout_new blobs gitlinks sizes) (\<lambda>ly.
            rbind (build_gaps find_blob slice_cdc hash zstd b (bundler_push hash storage bi) ly plan (bundler_new cas bundle_size)) (\<lambda>(bounds, bytes_read, bd).
            Inr (ly, bounds, bytes_read, bd)))
        | _ \<Rightarrow>
            rbind (blob_sizes header_size blobs) (\<lambda>sizes.
            rbind (layout_new blobs gitlinks sizes) (\<lambda>ly.
            rbind (stream_frames find_blob stream_cdc hash zstd bi (bundler_push hash storage bi) ly (bundler_new cas bundle_size)) (\<lambda>(bounds, bd).
            Inr (ly, bounds, ly_total ly, bd))))) = Inr (ly, bounds, bytes_read, bd)"
    and closed: "bundler_close hash storage bi bd = Inr bd'" and meta: "files_metadata ly bounds = Inr metadata"
    and out: "ao_bundles out = bd_bundles bd'" "ao_new_bundles out = bd_new_bundles bd'" "ao_metadata out = metadata\<lparr>mc_frames := bd_infos bd'\<rparr>"
      "ao_frames out = bd_frames bd'" "ao_cas out = bd_cas bd'"
    using assms(1) unfolding build_into_cas_def tree bi_def[symmetric] Let_def prod.case
    by (elim rbind_InrE) (auto simp: rbind_Inr)
  have "usable hash unz bi groups \<and> (\<forall>b. bi = Some b \<longrightarrow> index_sound find_blob b groups)
      \<and> (bi \<noteq> None \<longrightarrow> (\<exists>b. base = Some b \<and> (hash \<circ> bundle_content) ` set groups = set (ab_bundles b)))"
  proof (cases bi)
    case (Some b)
    then obtain ab where ab: "base = Some ab" "base_index_new ab = Inr b"
      by (cases base) (auto simp: bi_def ok_option_def split: sum.splits)
    have "base_exact hash unz find_blob ab groups" "in_stream_order (ab_metadata ab) groups" using assms(2)[OF ab(1)] by simp_all
    from base_index_usable[OF this ab(2)] show ?thesis using ab(1) Some by simp
  qed (simp add: usable_def)
  then have use: "usable hash unz bi groups" "\<And>b. bi = Some b \<Longrightarrow> index_sound find_blob b groups"
    and names: "bi \<noteq> None \<Longrightarrow> \<exists>b. base = Some b \<and> (hash \<circ> bundle_content) ` set groups = set (ab_bundles b)" by blast+
  have ex: "bi \<noteq> None \<Longrightarrow> \<exists>contents. contents_of find_blob blobs contents"
    using assms(3) tree by (cases base) (auto simp: bi_def)
  obtain contents ds closed1 cur where ly: "layout_new blobs gitlinks (map length contents) = Inr ly" "contents_of find_blob blobs contents"
    "bounds = spans 0 (map fst ds)" "concat (map fst ds) = concat contents"
    "bundler_ok hash unz bi groups closed1 cur bd" "concat closed1 @ cur = ds"
    using build_frames_exact[OF frames plan use ex assms(4-9)] by blast
  obtain groups' where "archive_exact hash unz find_blob tree (ao_frames out) (ao_metadata out) (ao_bundles out) groups'"
    "in_stream_order (ao_metadata out) groups'" "\<forall>name \<in> set (ao_new_bundles out). \<exists>content. ao_cas out name = Some content \<and> hash content = name"
    "set (ao_bundles out) \<subseteq> set (ao_new_bundles out) \<union> (hash \<circ> bundle_content) ` (if bi = None then {} else set groups)"
    using finished_exact[OF closed ly(5) use(1) assms(8,9) meta ly(1-4,6)] out tree by auto
  moreover have "(hash \<circ> bundle_content) ` (if bi = None then {} else set groups) \<subseteq> (case base of None \<Rightarrow> {} | Some b \<Rightarrow> set (ab_bundles b))"
    using names by (cases "bi = None") auto
  ultimately show ?thesis by blast
qed

text \<open>
  A worktree of two files, the second changed since the base: chunks of two bytes, a compressor that changes nothing
  and a hash of one byte that tells the base's strings from every other.
\<close>

fun ex_cuts :: "nat \<Rightarrow> string \<Rightarrow> (nat \<times> nat) list" where
  "ex_cuts a [] = []"
| "ex_cuts a [c] = [(a, 1)]"
| "ex_cuts a (c # d # s) = (a, 2) # ex_cuts (a + 2) s"

lemma ex_chunker_ok: "chunker_ok (ex_cuts 0)"
proof -
  have "cuts_tile a (ex_cuts a s) (a + length s)" for a s by (induction a s rule: ex_cuts.induct) (simp_all add: ac_simps)
  from this[of 0] show ?thesis by (simp add: chunker_ok_def)
qed

definition ex_digest :: "string \<Rightarrow> string" where
  "ex_digest s = (if s = ''ab'' then ''1'' else if s = ''cd'' then ''2'' else if s = ''ef'' then ''3''
     else if s = ''abcd'' then ''4'' else if s = ''xy'' then ''5'' else ''0'')"

definition ex_blob :: "oid \<Rightarrow> string option" where
  "ex_blob i = (if i = [1] then Some ''abcd'' else if i = [2] then Some ''ef'' else if i = [3] then Some ''xy'' else None)"

definition ex_size :: "oid \<Rightarrow> nat option" where
  "ex_size i = map_option length (ex_blob i)"

definition ex_old_frame :: "string \<Rightarrow> ArchiveFrame" where
  "ex_old_frame s = \<lparr>af_raw_hash = ex_digest s, af_chunk_hash = ex_digest s, af_compressed_len = length s, af_raw_len = length s\<rparr>"

definition ex_old :: ArchiveBase where
  "ex_old = \<lparr>ab_frames = map ex_old_frame [''ab'', ''cd'', ''ef''],
     ab_metadata = \<lparr>mc_frames = [\<lparr>chunk_index = 0, chunk_offset = 0, compressed_len = 2, frame_raw_len = 2\<rparr>,
         \<lparr>chunk_index = 0, chunk_offset = 2, compressed_len = 2, frame_raw_len = 2\<rparr>,
         \<lparr>chunk_index = 1, chunk_offset = 0, compressed_len = 2, frame_raw_len = 2\<rparr>],
       mc_files = [\<lparr>fe_path = ''a'', fe_mode = 33188, fe_blob_sha1 = [1],
           fe_fragments = [\<lparr>frame_index = 0, frame_offset = 0, frag_raw_len = 2\<rparr>, \<lparr>frame_index = 1, frame_offset = 0, frag_raw_len = 2\<rparr>]\<rparr>,
         \<lparr>fe_path = ''b'', fe_mode = 33188, fe_blob_sha1 = [2], fe_fragments = [\<lparr>frame_index = 2, frame_offset = 0, frag_raw_len = 2\<rparr>]\<rparr>],
       mc_gitlinks = []\<rparr>,
     ab_bundles = [''4'', ''3'']\<rparr>"

definition ex_groups :: "frame_data list list" where
  "ex_groups = [[(''ab'', ''ab''), (''cd'', ''cd'')], [(''ef'', ''ef'')]]"

definition ex_unz :: "string \<Rightarrow> nat \<Rightarrow> string option" where
  "ex_unz c n = Some c"

lemma ex_old_exact: "base_exact ex_digest ex_unz ex_blob ex_old ex_groups \<and> in_stream_order (ab_metadata ex_old) ex_groups"
proof -
  have "archive_exact ex_digest ex_unz ex_blob ([], [(''a'', [1], 33188), (''b'', [2], 33188)]) (ab_frames ex_old) (ab_metadata ex_old) (ab_bundles ex_old) ex_groups"
    by (simp add: archive_exact_def archive_ok_def ex_old_def ex_groups_def ex_old_frame_def frame_ok_def inflates_def ex_unz_def
      info_key_def bundle_content_def ex_digest_def raw_frames_def entry_exact_def ex_blob_def frag_in_def file_bytes_def frag_bytes_def seg_def)
  moreover have "base_resists ex_digest ex_groups" by (auto simp: base_resists_def ex_groups_def resists_def ex_digest_def)
  ultimately show ?thesis unfolding base_exact_def
    by (auto simp: in_stream_order_def ex_old_def ex_groups_def raw_frames_def file_bytes_def frag_bytes_def seg_def)
qed

definition ex_new_tree :: "string list \<times> Blob list" where
  "ex_new_tree = ([''sub''], [(''a'', [1], 33188), (''b'', [3], 33188)])"

definition ex_build :: "ArchiveBuildOutput aresult" where
  "ex_build = build_into_cas ex_blob ex_size (ex_cuts 0) (ex_cuts 0) ex_digest Inr 1 ex_new_tree Map.empty None (Some ex_old) 2"

lemma ex_build_bundles:
  "is_ok ex_build" "ao_bundles (projr ex_build) = [''4'', ''5'']" "ao_new_bundles (projr ex_build) = [''5'']"
  "ru_bytes_read (ao_reuse (projr ex_build)) = 2"
  by code_simp+



end
