(* ===== verification/Archive_Tail.thy ===== *)
theory Archive_Tail
  imports Archive_Props
begin

text \<open>
  Tail builds are exact: files whose blob the base holds keep the base's fragments, with the frames of the kept bundles
  renumbered, and new blobs read back from the frames added after them.
\<close>

section \<open>Kept bundles and frames\<close>

definition rank :: "bool list \<Rightarrow> nat \<Rightarrow> nat" where
  "rank lv j = length (filter id (take j lv))"

lemma rank_0 [simp]: "rank lv 0 = 0" "rank [] j = 0"
  by (simp_all add: rank_def)

lemma rank_Cons [simp]: "rank (b # lv) (Suc j) = (if b then 1 else 0) + rank lv j"
  by (simp add: rank_def)

lemma rank_Suc: "j < length lv \<Longrightarrow> rank lv (j + 1) = rank lv j + (if lv ! j then 1 else 0)"
  by (simp add: rank_def take_Suc_conv_app_nth)

lemma unat_max32: "unat (-1 :: 32 word) = 2 ^ 32 - 1"
  by (simp add: unsigned_minus_1_eq_mask mask_eq_exp_minus_1)

lemma number_live_nth:
  assumes "number_live n lv = Inr idx" "n + length lv < 2 ^ 32"
  shows "length idx = length lv \<and> (\<forall>j < length lv. if lv ! j then unat (idx ! j) = n + rank lv j \<and> idx ! j \<noteq> -1 else idx ! j = -1)"
  using assms
proof (induction n lv arbitrary: idx rule: number_live.induct)
  case (2 n live rest)
  show ?case
  proof (cases live)
    case True
    then obtain i js where i: "to_u32 n = Inr i" "number_live (n + 1) rest = Inr js" "idx = i # js" using 2(3) by (auto simp: rbind_Inr)
    then have "unat i = n" "i \<noteq> -1" using 2(4) by (auto simp: to_u32_Inr unat_of_nat32 word_unat_eq_iff unat_max32)
    then show ?thesis using 2(1)[OF True i(2)] 2(4) i(3) True by (auto simp: nth_Cons split: nat.splits)
  next
    case False
    then obtain js where "number_live n rest = Inr js" "idx = -1 # js" using 2(3) by (auto simp: rbind_Inr)
    then show ?thesis using 2(2)[OF False] 2(4) False by (auto simp: nth_Cons split: nat.splits)
  qed
qed simp

definition live_frame :: "32 word list \<Rightarrow> FrameInfo \<times> ArchiveFrame \<Rightarrow> bool" where
  "live_frame idx p \<longleftrightarrow> idx ! unat (chunk_index (fst p)) \<noteq> -1"

lemma keep_frames_spec:
  assumes "keep_frames idx n ps = Inr (is, infos, frames)"
  shows "frames = map snd (filter (live_frame idx) ps)
    \<and> infos = map (\<lambda>(i, _). i\<lparr>chunk_index := idx ! unat (chunk_index i)\<rparr>) (filter (live_frame idx) ps)
    \<and> length is = length ps \<and> (\<forall>k < length ps. live_frame idx (ps ! k) \<longrightarrow> unat (is ! k) = n + length (filter (live_frame idx) (take k ps)))
    \<and> (\<forall>p \<in> set ps. unat (chunk_index (fst p)) < length idx)"
  using assms
proof (induction idx n ps arbitrary: "is" infos frames rule: keep_frames.induct)
  case (2 idx n info frame rest)
  let ?ci = "idx ! unat (chunk_index info)"
  have range: "unat (chunk_index info) < length idx" using 2(3) by (auto split: if_splits)
  show ?case
  proof (cases "?ci = -1")
    case True
    then obtain is' where rest: "keep_frames idx n rest = Inr (is', infos, frames)" "is = -1 # is'"
      using 2(3) range by (auto simp: rbind_Inr)
    have dead: "\<not> live_frame idx (info, frame)" using True by (simp add: live_frame_def)
    show ?thesis using 2(1)[OF _ refl True rest(1)] range dead rest(2) by (auto simp: nth_Cons split: nat.splits)
  next
    case False
    then obtain i is' infos' frames' where i: "to_u32 n = Inr i" and rest: "keep_frames idx (n + 1) rest = Inr (is', infos', frames')"
        and out: "is = i # is'" "infos = info\<lparr>chunk_index := ?ci\<rparr> # infos'" "frames = frame # frames'"
      using 2(3) range by (auto simp: rbind_Inr)
    have alive: "live_frame idx (info, frame)" using False by (simp add: live_frame_def)
    have "unat i = n" using i by (auto simp: to_u32_Inr unat_of_nat32)
    then show ?thesis using 2(2)[OF _ refl False rest] range alive out by (auto simp: nth_Cons split: nat.splits)
  qed
qed simp

definition live_groups :: "bool list \<Rightarrow> 'a list \<Rightarrow> 'a list" where
  "live_groups lv gs = map snd (filter fst (zip lv gs))"

lemma places_index: "p \<in> set (places j off g) \<Longrightarrow> fst p = j"
  by (induction j off g rule: places.induct) auto

definition rekey :: "nat \<Rightarrow> nat \<times> nat \<times> nat \<times> nat \<Rightarrow> nat \<times> nat \<times> nat \<times> nat" where
  "rekey j p = (j, snd p)"

lemma places_rekey: "map (rekey j') (places j off g) = places j' off g"
  by (induction j off g rule: places.induct) (auto simp: rekey_def)

text \<open>Filtering the frames of the live bundles, seen on the keys of the frame table and on the frames' bytes.\<close>

lemma live_split:
  assumes "map key ps = all_places j gs" "j + length gs \<le> length lv"
  shows "map (\<lambda>p. rekey (rank lv (fst (key p))) (key p)) (filter (\<lambda>p. lv ! fst (key p)) ps) = all_places (rank lv j) (live_groups (drop j lv) gs)
    \<and> map snd (filter (\<lambda>(p, _). lv ! fst (key p)) (zip ps (concat gs))) = concat (live_groups (drop j lv) gs)"
  using assms
proof (induction gs arbitrary: j ps)
  case (Cons g gs)
  define ps1 ps2 where "ps1 = take (length g) ps" and "ps2 = drop (length g) ps"
  have ps: "ps = ps1 @ ps2" by (simp add: ps1_def ps2_def)
  have "length ps = length (concat (g # gs))" using arg_cong[OF Cons.prems(1), of length] by simp
  then have len: "length ps1 = length g" by (simp add: ps1_def)
  have keys: "map key ps1 = places j 0 g" "map key ps2 = all_places (j + 1) gs"
    using Cons.prems(1) len unfolding ps by (simp_all add: append_eq_append_conv)
  have at_j: "fst (key p) = j" if "p \<in> set ps1" for p
    using places_index[of "key p" j 0 g] that keys(1) by (metis image_eqI list.set_map)
  have j: "j < length lv" using Cons.prems(2) by simp
  have drop: "drop j lv = lv ! j # drop (j + 1) lv" using j by (simp add: Cons_nth_drop_Suc)
  note rank = rank_Suc[OF j]
  have here: "map (\<lambda>p. rekey (rank lv (fst (key p))) (key p)) (filter (\<lambda>p. lv ! fst (key p)) ps1)
      = (if lv ! j then places (rank lv j) 0 g else [])"
  proof -
    have "filter (\<lambda>p. lv ! fst (key p)) ps1 = (if lv ! j then ps1 else [])" using at_j by (auto simp: filter_empty_conv intro!: filter_True)
    moreover have "map (\<lambda>p. rekey (rank lv (fst (key p))) (key p)) ps1 = map (rekey (rank lv j)) (map key ps1)" using at_j by simp
    ultimately show ?thesis by (simp add: keys(1) places_rekey)
  qed
  have bytes: "map snd (filter (\<lambda>(p, _). lv ! fst (key p)) (zip ps1 g)) = (if lv ! j then g else [])"
  proof -
    have "filter (\<lambda>(p, _). lv ! fst (key p)) (zip ps1 g) = (if lv ! j then zip ps1 g else [])"
      using at_j by (auto simp: filter_empty_conv dest: set_zip_leftD intro!: filter_True)
    then show ?thesis using len by simp
  qed
  have "j + 1 + length gs \<le> length lv" using Cons.prems(2) by simp
  note IH = Cons.IH[OF keys(2) this]
  have split: "live_groups (drop j lv) (g # gs) = (if lv ! j then [g] else []) @ live_groups (drop (j + 1) lv) gs"
    by (simp add: drop live_groups_def)
  have zips: "zip ps (concat (g # gs)) = zip ps1 g @ zip ps2 (concat gs)" using len by (simp add: ps zip_append)
  show ?case unfolding split zips using IH here bytes rank by (auto simp: ps)
qed (simp add: live_groups_def)

lemma filter_nth_at:
  "i < length xs \<Longrightarrow> Q (xs ! i) \<Longrightarrow> filter Q xs ! length (filter Q (take i xs)) = xs ! i
     \<and> length (filter Q (take i xs)) < length (filter Q xs)"
  by (induction xs arbitrary: i) (auto simp: nth_Cons split: nat.splits)

lemma filter_zip_fst: "length ps = length ds \<Longrightarrow> map fst (filter (\<lambda>(p, _). Q p) (zip ps ds)) = filter Q ps"
  by (induction ps ds rule: list_induct2) auto

lemma kept_archive:
  assumes "archive_ok hash unz frames infos bundles groups" "length lv = length groups" "length groups < 2 ^ 32"
    "number_live 0 lv = Inr idx" "keep_frames idx 0 (zip infos frames) = Inr (is, infos', frames')"
  shows "archive_ok hash unz frames' infos' (live_groups lv bundles) (live_groups lv groups)
    \<and> (\<forall>k < length infos. lv ! unat (chunk_index (infos ! k)) \<longrightarrow> unat (is ! k) < length (raw_frames (live_groups lv groups))
        \<and> raw_frames (live_groups lv groups) ! unat (is ! k) = raw_frames groups ! k)"
proof -
  let ?ps = "zip infos frames"
  define key where "key = (\<lambda>p :: FrameInfo \<times> ArchiveFrame. info_key (fst p))"
  have base: "list_all2 (frame_ok hash unz) frames (concat groups)" "map info_key infos = all_places 0 groups"
    "bundles = map (hash \<circ> bundle_content) groups" "[] \<notin> set groups" using assms(1) by (auto simp: archive_ok_def)
  have lens: "length infos = length frames" "length frames = length (concat groups)"
    using base(1) arg_cong[OF base(2), of length] by (auto simp: list_all2_lengthD)
  have "map key ?ps = map info_key (map fst ?ps)" by (simp add: key_def)
  then have keys: "map key ?ps = all_places 0 groups" using base(2) lens by simp
  note idx = number_live_nth[OF assms(4), unfolded add_0]
  note spec = keep_frames_spec[OF assms(5)]
  have alive: "live_frame idx p \<longleftrightarrow> lv ! fst (key p)" "unat (idx ! fst (key p)) = rank lv (fst (key p)) \<or> \<not> lv ! fst (key p)" if "p \<in> set ?ps" for p
  proof -
    have "unat (chunk_index (fst p)) < length lv" using spec idx assms(2,3) that by auto
    then show "live_frame idx p \<longleftrightarrow> lv ! fst (key p)" "unat (idx ! fst (key p)) = rank lv (fst (key p)) \<or> \<not> lv ! fst (key p)"
      using idx assms(2,3) by (auto simp: live_frame_def key_def info_key_def split: if_splits)
  qed
  have filt: "filter (live_frame idx) ?ps = filter (\<lambda>p. lv ! fst (key p)) ?ps" using alive(1) by (intro filter_cong) auto
  note live = live_split[OF keys, of lv, simplified, OF eq_refl[OF assms(2)[symmetric]]]
  have "map info_key infos' = map (\<lambda>p. rekey (rank lv (fst (key p))) (key p)) (filter (\<lambda>p. lv ! fst (key p)) ?ps)"
  proof -
    have "infos' = map (\<lambda>(i, _). i\<lparr>chunk_index := idx ! unat (chunk_index i)\<rparr>) (filter (\<lambda>p. lv ! fst (key p)) ?ps)"
      using spec filt by simp
    moreover have "info_key (i\<lparr>chunk_index := idx ! unat (chunk_index i)\<rparr>) = rekey (rank lv (fst (key (i, f)))) (key (i, f))"
      if "(i, f) \<in> set (filter (\<lambda>p. lv ! fst (key p)) ?ps)" for i f
      using alive(2)[of "(i, f)"] that by (auto simp: key_def info_key_def rekey_def)
    ultimately show ?thesis by (auto simp: comp_def intro!: map_cong)
  qed
  then have infos': "map info_key infos' = all_places 0 (live_groups lv groups)" using live by simp
  let ?ts = "zip ?ps (concat groups)"
  have ts: "filter (\<lambda>(p, _). live_frame idx p) ?ts = filter (\<lambda>(p, _). lv ! fst (key p)) ?ts"
    using alive(1) by (intro filter_cong) (auto dest: set_zip_leftD)
  have datas: "map snd (filter (\<lambda>(p, _). live_frame idx p) ?ts) = concat (live_groups lv groups)" using live ts by simp
  have fsts: "map fst (filter (\<lambda>(p, _). live_frame idx p) ?ts) = filter (live_frame idx) ?ps"
    using lens by (intro filter_zip_fst) simp
  have "list_all2 (frame_ok hash unz) frames' (concat (live_groups lv groups))"
  proof -
    have "frames' = map (snd \<circ> fst) (filter (\<lambda>(p, _). live_frame idx p) ?ts)" using spec fsts by (simp flip: map_map)
    moreover have "frame_ok hash unz (snd (fst t)) (snd t)" if mem: "t \<in> set ?ts" for t
    proof -
      obtain n where "n < length ?ts" "t = ?ts ! n" using mem by (metis in_set_conv_nth)
      then show ?thesis using list_all2_nthD[OF base(1), of n] lens by simp
    qed
    ultimately show ?thesis unfolding datas[symmetric] by (auto simp: list_all2_map1 list_all2_map2 list_all2_same)
  qed
  moreover have "live_groups lv bundles = map (hash \<circ> bundle_content) (live_groups lv groups)"
    by (simp add: base(3) live_groups_def zip_map2 filter_map comp_def split_def)
  moreover have "[] \<notin> set (live_groups lv groups)" using base(4) by (auto simp: live_groups_def dest: set_zip_rightD)
  moreover have "unat (is ! k) < length (raw_frames (live_groups lv groups)) \<and> raw_frames (live_groups lv groups) ! unat (is ! k) = raw_frames groups ! k"
    if k: "k < length infos" "lv ! unat (chunk_index (infos ! k))" for k
  proof -
    have "k < length ?ps" using k(1) lens by simp
    from nth_mem[OF \<open>k < length ?ps\<close>] have "?ps ! k \<in> set ?ps" "fst (?ps ! k) = infos ! k" using k(1) lens by simp_all
    then have lk: "live_frame idx (?ps ! k)" using alive(1)[of "?ps ! k"] k(2) by (simp add: key_def info_key_def)
    have tk: "?ts ! k = (?ps ! k, concat groups ! k)" "k < length ?ts" using k(1) lens by auto
    have "take k ?ts = zip (take k ?ps) (take k (concat groups))" by (simp add: take_zip)
    then have "map fst (filter (\<lambda>(p, _). live_frame idx p) (take k ?ts)) = filter (live_frame idx) (take k ?ps)"
      using lens k(1) by (simp only:) (intro filter_zip_fst, simp)
    from arg_cong[OF this, of length] have "length (filter (\<lambda>(p, _). live_frame idx p) (take k ?ts)) = length (filter (live_frame idx) (take k ?ps))"
      by simp
    moreover have "unat (is ! k) = length (filter (live_frame idx) (take k ?ps))" using spec lk \<open>k < length ?ps\<close> by simp
    ultimately have r: "unat (is ! k) = length (filter (\<lambda>(p, _). live_frame idx p) (take k ?ts))" by simp
    have "filter (\<lambda>(p, _). live_frame idx p) ?ts ! unat (is ! k) = ?ts ! k \<and> unat (is ! k) < length (filter (\<lambda>(p, _). live_frame idx p) ?ts)"
      unfolding r using lk tk by (intro filter_nth_at) auto
    then show ?thesis using tk lens k(1) by (simp add: raw_frames_def flip: datas)
  qed
  ultimately show ?thesis using infos' by (auto simp: archive_ok_def)
qed

section \<open>Fragments of kept and of new frames\<close>

definition frags_exact :: "string list \<Rightarrow> string \<Rightarrow> Fragment list \<Rightarrow> bool" where
  "frags_exact raws content fs \<longleftrightarrow> fs \<noteq> [] \<and> (\<forall>f \<in> set fs. frag_in raws f) \<and> file_bytes raws fs = content"

lemma entry_exact_frags:
  "entry_exact raws blob content file \<longleftrightarrow> blob = (fe_path file, fe_blob_sha1 file, fe_mode file) \<and> frags_exact raws content (fe_fragments file)"
  by (auto simp: entry_exact_def frags_exact_def)

text \<open>Fragments moved to other frames that hold the same bytes.\<close>

lemma frags_exact_move:
  assumes "frags_exact raws content fs"
    "\<And>f. f \<in> set fs \<Longrightarrow> unat (frame_index (mv f)) < length raws' \<and> raws' ! unat (frame_index (mv f)) = raws ! unat (frame_index f)
       \<and> frame_offset (mv f) = frame_offset f \<and> frag_raw_len (mv f) = frag_raw_len f"
  shows "frags_exact raws' content (map mv fs)"
proof -
  have "frag_in raws' (mv f)" if "f \<in> set fs" for f using assms that by (auto simp: frags_exact_def frag_in_def)
  moreover have "map (frag_bytes raws') (map mv fs) = map (frag_bytes raws) fs" using assms(2) by (auto simp: frag_bytes_def)
  ultimately show ?thesis using assms(1) by (auto simp: frags_exact_def file_bytes_def simp del: map_map)
qed

lemma frags_exact_append: "frags_exact raws content fs \<Longrightarrow> frags_exact (raws @ more') content fs"
proof -
  assume exact: "frags_exact raws content fs"
  then have "unat (frame_index f) < length raws" if "f \<in> set fs" for f using that by (auto simp: frags_exact_def frag_in_def)
  then have "frags_exact (raws @ more') content (map id fs)" by (intro frags_exact_move[OF exact]) (auto simp: nth_append trans_less_add1)
  then show ?thesis by simp
qed

lemma frags_exact_shift:
  assumes "frags_exact raws content fs" "length before + length raws < 2 ^ 32" "base' = of_nat (length before)"
  shows "frags_exact (before @ raws) content (map (shift_fragment base') fs)"
proof (rule frags_exact_move[OF assms(1)])
  fix f
  assume f: "f \<in> set fs"
  then have "unat (frame_index f) < length raws" using assms(1) by (auto simp: frags_exact_def frag_in_def)
  moreover from this have "unat (frame_index f + base') = unat (frame_index f) + length before"
    using assms(2,3) by (simp add: unat_word_ariths unat_of_nat32)
  ultimately show "unat (frame_index (shift_fragment base' f)) < length (before @ raws)
      \<and> (before @ raws) ! unat (frame_index (shift_fragment base' f)) = raws ! unat (frame_index f)
      \<and> frame_offset (shift_fragment base' f) = frame_offset f \<and> frag_raw_len (shift_fragment base' f) = frag_raw_len f"
    by (simp add: shift_fragment_def nth_append)
qed

lemma all_places_shift: "all_places (j + n) gs = map (\<lambda>p. (fst p + n, snd p)) (all_places j gs)"
proof (induction gs arbitrary: j)
  case (Cons g gs)
  have "places (j + n) off g = map (\<lambda>p. (fst p + n, snd p)) (places j off g)" for off
    by (induction j off g rule: places.induct) auto
  then show ?case using Cons[of "j + 1"] by simp
qed simp

lemma all_places_bound: "p \<in> set (all_places j gs) \<Longrightarrow> fst p < j + length gs"
  by (induction gs arbitrary: j) (fastforce dest: places_index)+

lemma archive_ok_tail:
  assumes "archive_ok hash unz frames infos bundles groups" "archive_ok hash unz frames' infos' bundles' groups'"
    "length bundles + length bundles' < 2 ^ 32" "base' = of_nat (length bundles)"
  shows "archive_ok hash unz (frames @ frames') (infos @ map (\<lambda>i. i\<lparr>chunk_index := chunk_index i + base'\<rparr>) infos') (bundles @ bundles') (groups @ groups')"
proof -
  have lens: "length bundles = length groups" "length bundles' = length groups'" using assms(1,2) by (auto simp: archive_ok_def)
  have "info_key (i\<lparr>chunk_index := chunk_index i + base'\<rparr>) = (\<lambda>p. (fst p + length groups, snd p)) (info_key i)" if "i \<in> set infos'" for i
  proof -
    have "info_key i \<in> set (all_places 0 groups')" using that assms(2) by (metis archive_ok_def image_eqI list.set_map)
    then have "unat (chunk_index i) < length groups'" using all_places_bound[of "info_key i" 0 groups'] by (simp add: info_key_def)
    then show ?thesis using assms(3,4) lens by (simp add: info_key_def unat_word_ariths unat_of_nat32)
  qed
  then have "map (info_key \<circ> (\<lambda>i. i\<lparr>chunk_index := chunk_index i + base'\<rparr>)) infos' = map (\<lambda>p. (fst p + length groups, snd p)) (map info_key infos')"
    by simp
  also have "\<dots> = all_places (length groups) groups'"
    using assms(2) all_places_shift[of 0 "length groups" groups'] by (simp add: archive_ok_def)
  finally show ?thesis using assms(1,2) by (auto simp: archive_ok_def all_places_append intro: list_all2_appendI)
qed

section \<open>The tail\<close>

lemma build_tail_exact:
  assumes "build_tail find_blob cdc hash zstd bundle_size cas full = Inr (ly, table, bd)" "full \<noteq> []"
    "codec_ok zstd unz" "chunker_ok cdc" "\<And>s. length (hash s) = n" "0 < n"
  shows "\<exists>gs. archive_ok hash unz (bd_frames bd) (bd_infos bd) (bd_bundles bd) gs
    \<and> (\<forall>((path, i, mode), file) \<in> set (zip (ly_blobs ly) (mc_files table)). \<exists>content. find_blob i = Some content \<and> frags_exact (raw_frames gs) content (fe_fragments file))
    \<and> length (mc_files table) = length full \<and> ly_blobs ly = map fst full \<and> raw_frames gs \<noteq> []
    \<and> (\<forall>name \<in> set (bd_new_bundles bd). \<exists>content. bd_cas bd name = Some content \<and> hash content = name) \<and> set (bd_bundles bd) \<subseteq> set (bd_new_bundles bd)"
proof -
  obtain bounds bd1 where ly: "layout_new (map fst full) [] (map snd full) = Inr ly"
    and str: "stream_frames find_blob cdc hash zstd None (bundler_push hash None None) ly (bundler_new cas bundle_size) = Inr (bounds, bd1)"
    and closed: "bundler_close hash None None bd1 = Inr bd" and table: "files_table ly bounds = Inr table"
    using assms(1) by (auto simp: build_tail_def rbind_Inr)
  have use: "usable hash unz None []" by (simp add: usable_def)
  have blobs: "ly_blobs ly = map fst full" using layout_new_fields[OF ly] by simp
  obtain contents ds closed1 cur where c: "contents_of find_blob (map fst full) contents" "map snd full = map length contents"
    "bounds = spans 0 (map fst ds)" "concat (map fst ds) = concat contents" "bundler_ok hash unz None [] closed1 cur bd1" "concat closed1 @ cur = ds"
    using stream_frames_ok[OF str ly _ bundler_new_ok use assms(3,4,5,6)] by auto
  have meta: "files_metadata ly bounds = Inr table" using table blobs assms(2) by (simp add: files_metadata_def)
  from finished_exact[OF closed c(5) use assms(5,6) meta ly[unfolded c(2)] c(1,3,4,6)]
  obtain gs where gs: "archive_exact hash unz find_blob ([], map fst full) (bd_frames bd) (table\<lparr>mc_frames := bd_infos bd\<rparr>) (bd_bundles bd) gs"
    and st: "\<forall>name \<in> set (bd_new_bundles bd). \<exists>content. bd_cas bd name = Some content \<and> hash content = name" "set (bd_bundles bd) \<subseteq> set (bd_new_bundles bd)"
    by auto
  have all: "list_all2 (\<lambda>blob file. \<exists>content. find_blob (fst (snd blob)) = Some content \<and> entry_exact (raw_frames gs) blob content file) (map fst full) (mc_files table)"
    using gs by (simp add: archive_exact_def)
  have each: "\<exists>content. find_blob i = Some content \<and> frags_exact (raw_frames gs) content (fe_fragments e)"
    if "((path, i, mode), e) \<in> set (zip (ly_blobs ly) (mc_files table))" for path i mode e
    using list_all2_conv_all_nth[THEN iffD1, OF all] that by (fastforce simp: blobs in_set_zip entry_exact_frags)
  have len: "length (mc_files table) = length full" using list_all2_lengthD[OF all] by simp
  have "raw_frames gs \<noteq> []"
  proof -
    obtain path i mode e where "((path, i, mode), e) \<in> set (zip (ly_blobs ly) (mc_files table))"
      using assms(2) len blobs by (cases full; cases "mc_files table"; cases "ly_blobs ly") auto
    from each[OF this] obtain content where "frags_exact (raw_frames gs) content (fe_fragments e)" by blast
    then show ?thesis by (cases "fe_fragments e"; cases "raw_frames gs") (auto simp: frags_exact_def frag_in_def)
  qed
  then show ?thesis using gs st each len blobs by (intro exI[of _ gs]) (auto simp: archive_exact_def)
qed

definition stored_under :: "(string \<Rightarrow> string) \<Rightarrow> (string \<Rightarrow> string option) \<Rightarrow> string list \<Rightarrow> bool" where
  "stored_under hash cas names \<longleftrightarrow> (\<forall>name \<in> set names. \<exists>content. cas name = Some content \<and> hash content = name)"

lemma empty_fragment_exact: "raws \<noteq> [] \<Longrightarrow> frags_exact raws [] [empty_fragment]"
  by (simp add: frags_exact_def frag_in_def file_bytes_def frag_bytes_def empty_fragment_def)

lemma archive_ok_frames: "archive_ok hash unz frames infos bundles groups \<Longrightarrow> length frames = length (raw_frames groups)"
  by (auto simp: archive_ok_def raw_frames_def list_all2_lengthD)

lemma add_tail_exact:
  assumes "add_tail find_blob cdc hash zstd bundle_size sized kinfos kframes kbundles cas = Inr (tf, infos, frames, bundles, new, reuse, cas')"
    "archive_ok hash unz kframes kinfos kbundles kept"
    "\<And>path i mode sz. ((path, i, mode), sz) \<in> set sized \<Longrightarrow> \<exists>c. find_blob i = Some c \<and> sz = length c"
    "codec_ok zstd unz" "chunker_ok cdc" "\<And>s. length (hash s) = n" "0 < n" "length frames < 2 ^ 32" "length bundles < 2 ^ 32"
  shows "\<exists>gs tail. archive_ok hash unz frames infos bundles gs \<and> raw_frames gs = raw_frames kept @ tail
    \<and> (\<forall>(i, fs) \<in> set tf. \<exists>c. find_blob i = Some c \<and> frags_exact (raw_frames gs) c fs)
    \<and> stored_under hash cas' new \<and> set bundles \<subseteq> set new \<union> set kbundles"
proof -
  define apart where "apart = (kframes \<noteq> [] \<or> (\<exists>sz \<in> set (map snd sized). 0 < sz))"
  define empties where "empties = (if apart then map (\<lambda>((_, oid, _), _). (oid, [empty_fragment])) (filter (\<lambda>(_, sz). sz = 0) sized) else [])"
  define full where "full = (if apart then filter (\<lambda>(_, sz). sz \<noteq> 0) sized else sized)"
  have empty: "\<exists>c. find_blob i = Some c \<and> frags_exact raws c fs" if "(i, fs) \<in> set empties" "raws \<noteq> []" for i fs raws
    using that assms(3) empty_fragment_exact by (fastforce simp: empties_def split: if_splits)
  have apart_frames: "kframes \<noteq> [] \<or> full \<noteq> []" if apart
    using that by (auto simp: apart_def full_def filter_empty_conv)
  show ?thesis
  proof (cases "full = []")
    case True
    then have out: "tf = empties" "infos = kinfos" "frames = kframes" "bundles = kbundles" "new = []"
      using assms(1) unfolding add_tail_def apart_def[symmetric] empties_def[symmetric] full_def[symmetric] Let_def by auto
    have "empties \<noteq> [] \<Longrightarrow> raw_frames kept \<noteq> []"
      using True apart_frames archive_ok_frames[OF assms(2)] by (cases apart) (auto simp: empties_def)
    then have "\<forall>(i, fs) \<in> set tf. \<exists>c. find_blob i = Some c \<and> frags_exact (raw_frames kept) c fs" using empty out(1) by fastforce
    then show ?thesis using assms(2) out by (intro exI[of _ kept] exI[of _ "[]"]) (simp add: stored_under_def)
  next
    case False
    obtain ly table bd fb bb where bt: "build_tail find_blob cdc hash zstd bundle_size cas full = Inr (ly, table, bd)"
      and fb: "to_u32 (length kframes) = Inr fb" and bb: "to_u32 (length kbundles) = Inr bb"
      and out: "tf = rev (map (\<lambda>((_, oid, _), file). (oid, map (shift_fragment fb) (fe_fragments file))) (zip (ly_blobs ly) (mc_files table))) @ empties"
        "infos = kinfos @ map (\<lambda>i. i\<lparr>chunk_index := chunk_index i + bb\<rparr>) (bd_infos bd)" "frames = kframes @ bd_frames bd"
        "bundles = kbundles @ bd_bundles bd" "new = bd_new_bundles bd" "cas' = bd_cas bd"
      using assms(1) False unfolding add_tail_def apart_def[symmetric] empties_def[symmetric] full_def[symmetric] Let_def
      by (auto simp: rbind_Inr)
    obtain gs where gs: "archive_ok hash unz (bd_frames bd) (bd_infos bd) (bd_bundles bd) gs" "raw_frames gs \<noteq> []"
      and each: "\<And>path i mode e. ((path, i, mode), e) \<in> set (zip (ly_blobs ly) (mc_files table)) \<Longrightarrow>
        \<exists>content. find_blob i = Some content \<and> frags_exact (raw_frames gs) content (fe_fragments e)"
      and st: "stored_under hash cas' new" "set (bd_bundles bd) \<subseteq> set new"
      using build_tail_exact[OF bt False assms(4-7)] out(5,6) by (fastforce simp: stored_under_def)
    have ok: "archive_ok hash unz frames infos bundles (kept @ gs)"
      unfolding out using bb assms(9) out(4) by (intro archive_ok_tail[OF assms(2) gs(1)]) (auto simp: to_u32_Inr)
    have raws: "raw_frames (kept @ gs) = raw_frames kept @ raw_frames gs" by (simp add: raw_frames_def)
    have "\<exists>c. find_blob i = Some c \<and> frags_exact (raw_frames (kept @ gs)) c fs" if mem: "(i, fs) \<in> set tf" for i fs
    proof (cases "(i, fs) \<in> set empties")
      case True
      then show ?thesis using empty gs(2) raws by simp
    next
      case False
      then obtain path mode e where e: "((path, i, mode), e) \<in> set (zip (ly_blobs ly) (mc_files table))" "fs = map (shift_fragment fb) (fe_fragments e)"
        using mem out(1) by auto
      then obtain c where c: "find_blob i = Some c" "frags_exact (raw_frames gs) c (fe_fragments e)" using each by blast
      have "length (raw_frames kept) + length (raw_frames gs) < 2 ^ 32" "fb = of_nat (length (raw_frames kept))"
        using assms(8) fb out(3) archive_ok_frames[OF assms(2)] archive_ok_frames[OF gs(1)] by (auto simp: to_u32_Inr)
      then show ?thesis using frags_exact_shift[OF c(2)] c(1) e(2) raws by simp
    qed
    then show ?thesis using ok raws st out(4) by (intro exI[of _ "kept @ gs"] exI[of _ "raw_frames gs"]) auto
  qed
qed

section \<open>The whole build\<close>

lemma map_result_image: "map_result f xs = Inr ys \<Longrightarrow> x \<in> set xs \<Longrightarrow> \<exists>y \<in> set ys. f x = Inr y"
  by (induction xs arbitrary: ys) (fastforce simp: rbind_Inr)+

lemma fragments_by_blob_exact:
  assumes "archive_exact hash unz find_blob tree frames metadata bundles groups" "fragments_by_blob (mc_files metadata) i = Some fs"
  shows "\<exists>c. find_blob i = Some c \<and> frags_exact (raw_frames groups) c fs"
proof -
  obtain e where e: "e \<in> set (mc_files metadata)" "fe_blob_sha1 e = i" "fe_fragments e = fs"
    using map_of_SomeD[OF assms(2)[unfolded fragments_by_blob_def]] by auto
  have all: "list_all2 (\<lambda>blob file. \<exists>content. find_blob (fst (snd blob)) = Some content \<and> entry_exact (raw_frames groups) blob content file)
      (snd tree) (mc_files metadata)" using assms(1) by (simp add: archive_exact_def)
  obtain k where k: "k < length (mc_files metadata)" "mc_files metadata ! k = e" using e(1) by (metis in_set_conv_nth)
  then have "\<exists>content. find_blob (fst (snd (snd tree ! k))) = Some content \<and> entry_exact (raw_frames groups) (snd tree ! k) content e"
    using list_all2_nthD2[OF all k(1)] by simp
  then show ?thesis using e by (auto simp: entry_exact_frags)
qed

lemma new_blobs_sub: "set (new_blobs by_blob seen blobs) \<subseteq> set blobs"
  by (induction by_blob seen blobs rule: new_blobs.induct) auto

lemma sized_blobs:
  assumes "blob_sizes header_size blobs = Inr sizes" "headers_ok find_blob header_size" "\<And>b. b \<in> set blobs \<Longrightarrow> \<exists>c. find_blob (fst (snd b)) = Some c"
    "((path, i, mode), sz) \<in> set (zip blobs sizes)"
  shows "\<exists>c. find_blob i = Some c \<and> sz = length c"
proof -
  obtain k where k: "k < length blobs" "blobs ! k = (path, i, mode)" "sizes ! k = sz" using assms(4) by (auto simp: in_set_zip)
  have "header_size i = Some sz"
    using map_result_nth[OF assms(1)[unfolded blob_sizes_def] k(1)] k(2,3) by (auto split: option.splits if_splits)
  moreover obtain c where "find_blob i = Some c" using assms(3)[of "(path, i, mode)"] k by (metis fst_conv nth_mem snd_conv)
  ultimately show ?thesis using assms(2) by (auto simp: headers_ok_def)
qed

lemma tail_archive_exact:
  assumes "build_tail_into_cas find_blob header_size cdc hash zstd tree cas base bundle_size = Inr out"
    "archive_exact hash unz find_blob base_tree (ab_frames base) (ab_metadata base) (ab_bundles base) groups"
    "\<And>b. b \<in> set (snd tree) \<Longrightarrow> \<exists>c. find_blob (fst (snd b)) = Some c" "headers_ok find_blob header_size"
    "codec_ok zstd unz" "chunker_ok cdc" "\<And>s. length (hash s) = n" "0 < n"
    "length (ab_bundles base) < 2 ^ 32" "length (ao_frames out) < 2 ^ 32" "length (ao_bundles out) < 2 ^ 32"
  shows "\<exists>groups'. archive_exact hash unz find_blob tree (ao_frames out) (ao_metadata out) (ao_bundles out) groups'
    \<and> stored_under hash (ao_cas out) (ao_new_bundles out) \<and> set (ao_bundles out) \<subseteq> set (ao_new_bundles out) \<union> set (ab_bundles base)"
proof -
  obtain gitlinks blobs where tree: "tree = (gitlinks, blobs)" by fastforce
  let ?infos = "mc_frames (ab_metadata base)"
  define by_blob where "by_blob = fragments_by_blob (mc_files (ab_metadata base))"
  define used where "used = concat (map (\<lambda>(_, oid, _). case by_blob oid of None \<Rightarrow> [] | Some fs \<Rightarrow> fs) blobs)"
  define lv where "lv = (\<lambda>live_indexes. map (\<lambda>k. k \<in> set live_indexes) [0..<length (ab_bundles base)])"
  obtain live idx "is" kinfos kframes sizes tf infos frames bundles new reuse cas' files where
    live: "map_result (used_bundle ?infos (length (ab_bundles base))) used = Inr live"
    and idx: "number_live 0 (lv live) = Inr idx" and keep: "keep_frames idx 0 (zip ?infos (ab_frames base)) = Inr (is, kinfos, kframes)"
    and sizes: "blob_sizes header_size (new_blobs by_blob [] blobs) = Inr sizes"
    and tail: "add_tail find_blob cdc hash zstd bundle_size (zip (new_blobs by_blob [] blobs) sizes) kinfos kframes
      (live_groups (lv live) (ab_bundles base)) cas = Inr (tf, infos, frames, bundles, new, reuse, cas')"
    and files: "map_result (tail_entry is by_blob (map_of tf)) blobs = Inr files"
    and out: "ao_bundles out = bundles" "ao_new_bundles out = new" "ao_metadata out = \<lparr>mc_frames = infos, mc_files = files, mc_gitlinks = gitlinks\<rparr>"
      "ao_frames out = frames" "ao_cas out = cas'"
    using assms(1) unfolding build_tail_into_cas_def tree prod.case Let_def by_blob_def[symmetric] used_def[symmetric] lv_def live_groups_def
    by (auto simp: rbind_Inr split: if_splits)
  have ok: "archive_ok hash unz (ab_frames base) ?infos (ab_bundles base) groups" using assms(2) by (simp add: archive_exact_def)
  then have lens: "length (lv live) = length groups" "length groups < 2 ^ 32" using assms(9) by (auto simp: archive_ok_def lv_def)
  define kept where "kept = live_groups (lv live) groups"
  have kok: "archive_ok hash unz kframes kinfos (live_groups (lv live) (ab_bundles base)) kept"
    and same: "\<And>k. k < length ?infos \<Longrightarrow> lv live ! unat (chunk_index (?infos ! k)) \<Longrightarrow>
      unat (is ! k) < length (raw_frames kept) \<and> raw_frames kept ! unat (is ! k) = raw_frames groups ! k"
    using kept_archive[OF ok lens idx keep] by (auto simp: kept_def)
  have held: "\<exists>c. find_blob (fst (snd b)) = Some c" if "b \<in> set (new_blobs by_blob [] blobs)" for b
    using assms(3)[of b] new_blobs_sub[of by_blob "[]" blobs] that tree by auto
  have sized: "\<exists>c. find_blob i = Some c \<and> sz = length c" if "((path, i, mode), sz) \<in> set (zip (new_blobs by_blob [] blobs) sizes)" for path i mode sz
    by (rule sized_blobs[OF sizes assms(4) held that])
  have counts: "length frames < 2 ^ 32" "length bundles < 2 ^ 32" using assms(10,11) out by simp_all
  obtain gs more' where gs: "archive_ok hash unz frames infos bundles gs" "raw_frames gs = raw_frames kept @ more'"
    and tf: "\<forall>(i, fs) \<in> set tf. \<exists>c. find_blob i = Some c \<and> frags_exact (raw_frames gs) c fs"
    and st: "stored_under hash cas' new" "set bundles \<subseteq> set new \<union> set (live_groups (lv live) (ab_bundles base))"
    using add_tail_exact[OF tail kok _ assms(5-8) counts] sized by meson
  have new: "\<And>i fs. (i, fs) \<in> set tf \<Longrightarrow> \<exists>c. find_blob i = Some c \<and> frags_exact (raw_frames gs) c fs" using tf by blast
  have kept_entry: "\<exists>c. find_blob i = Some c \<and> frags_exact (raw_frames gs) c (map (\<lambda>f. f\<lparr>frame_index := is ! unat (frame_index f)\<rparr>) fs)"
    if fs: "by_blob i = Some fs" "(path, i, mode) \<in> set blobs" for path i mode fs
  proof -
    obtain c where c: "find_blob i = Some c" "frags_exact (raw_frames groups) c fs"
      using fragments_by_blob_exact[OF assms(2)] fs(1) by (auto simp: by_blob_def)
    have "unat (frame_index f) < length ?infos \<and> lv live ! unat (chunk_index (?infos ! unat (frame_index f)))" if "f \<in> set fs" for f
    proof -
      have "f \<in> set used" using that fs by (force simp: used_def)
      then obtain j where "used_bundle ?infos (length (ab_bundles base)) f = Inr j" "j \<in> set live"
        using map_result_image[OF live] by blast
      then show ?thesis by (auto simp: used_bundle_def lv_def Let_def split: if_splits)
    qed
    then have "frags_exact (raw_frames kept) c (map (\<lambda>f. f\<lparr>frame_index := is ! unat (frame_index f)\<rparr>) fs)"
      using same by (intro frags_exact_move[OF c(2)]) auto
    from frags_exact_append[OF this, of more'] show ?thesis using c(1) gs(2) by simp
  qed
  have "list_all2 (\<lambda>blob file. \<exists>content. find_blob (fst (snd blob)) = Some content \<and> entry_exact (raw_frames gs) blob content file) blobs files"
  proof (rule list_all2_all_nthI)
    show "length blobs = length files" using map_result_Inr_length[OF files] by simp
    fix k
    assume k: "k < length blobs"
    obtain path i mode where b: "blobs ! k = (path, i, mode)" by (cases "blobs ! k") auto
    then have mem: "(path, i, mode) \<in> set blobs" using k by (metis nth_mem)
    have te: "tail_entry is by_blob (map_of tf) (path, i, mode) = Inr (files ! k)" using map_result_nth[OF files k] b by simp
    then obtain fs where fs: "files ! k = \<lparr>fe_path = path, fe_mode = mode, fe_blob_sha1 = i, fe_fragments = fs\<rparr>"
      "(case by_blob i of Some fragments \<Rightarrow> Inr (map (\<lambda>f. f\<lparr>frame_index := is ! unat (frame_index f)\<rparr>) fragments)
        | None \<Rightarrow> ok_or TailBlobMissing (map_of tf i)) = Inr fs"
      by (simp add: tail_entry_def rbind_Inr) metis
    have "\<exists>c. find_blob i = Some c \<and> frags_exact (raw_frames gs) c fs"
    proof (cases "by_blob i")
      case None
      then show ?thesis using fs(2) new map_of_SomeD by fastforce
    next
      case (Some fs0)
      then show ?thesis using fs(2) kept_entry[OF Some mem] by auto
    qed
    then show "\<exists>content. find_blob (fst (snd (blobs ! k))) = Some content \<and> entry_exact (raw_frames gs) (blobs ! k) content (files ! k)"
      by (auto simp: b entry_exact_frags fs(1))
  qed
  moreover have "set (live_groups (lv live) (ab_bundles base)) \<subseteq> set (ab_bundles base)" by (auto simp: live_groups_def dest: set_zip_rightD)
  ultimately show ?thesis using gs(1) st out tree by (intro exI[of _ gs]) (auto simp: archive_exact_def)
qed

text \<open>
  C11.  A Files archive built as a tail on an exact base, in stream order or not, is exact for its tree: kept files
  read back from the renumbered frames of the base bundles that are kept, new blobs from the frames after them, and
  every bundle is a base bundle or new and in the local store.  The counts of frames and bundles stay below the
  width of their indexes.
\<close>

theorem tail_build_exact:
  assumes "build_tail_into_cas find_blob header_size cdc hash zstd tree cas base bundle_size = Inr out"
    "archive_exact hash unz find_blob base_tree (ab_frames base) (ab_metadata base) (ab_bundles base) groups"
    "\<And>b. b \<in> set (snd tree) \<Longrightarrow> \<exists>c. find_blob (fst (snd b)) = Some c" "headers_ok find_blob header_size"
    "codec_ok zstd unz" "chunker_ok cdc" "\<And>s. length (hash s) = n" "0 < n"
    "length (ab_bundles base) < 2 ^ 32" "length (ao_frames out) < 2 ^ 32" "length (ao_bundles out) < 2 ^ 32"
  shows "\<exists>groups'. archive_exact hash unz find_blob tree (ao_frames out) (ao_metadata out) (ao_bundles out) groups'
    \<and> stored_under hash (ao_cas out) (ao_new_bundles out) \<and> set (ao_bundles out) \<subseteq> set (ao_new_bundles out) \<union> set (ab_bundles base)"
  using tail_archive_exact[OF assms] .

definition ex_tail :: "ArchiveBuildOutput aresult" where
  "ex_tail = build_tail_into_cas ex_blob ex_size (ex_cuts 0) ex_digest Inr ex_new_tree Map.empty ex_old 2"

lemma ex_tail_bundles:
  "is_ok ex_tail" "ao_bundles (projr ex_tail) = [''4'', ''5'']" "length (ao_frames (projr ex_tail)) = 3"
  by code_simp+

theorem tail_build_exact_witness:
  "\<exists>out groups'. ex_tail = Inr out \<and> ao_bundles out = [''4'', ''5'']
    \<and> archive_exact ex_digest ex_unz ex_blob ex_new_tree (ao_frames out) (ao_metadata out) (ao_bundles out) groups'"
proof -
  obtain out where out: "ex_tail = Inr out" using ex_tail_bundles(1) by (auto simp: is_ok_iff)
  have counts: "ao_bundles out = [''4'', ''5'']" "length (ao_frames out) = 3" by (rule ex_tail_bundles(2,3)[unfolded out sum.sel])+
  obtain tree where "archive_exact ex_digest ex_unz ex_blob tree (ab_frames ex_old) (ab_metadata ex_old) (ab_bundles ex_old) ex_groups"
    using ex_old_exact by (auto simp: base_exact_def)
  moreover have "\<exists>c. ex_blob (fst (snd b)) = Some c" if "b \<in> set (snd ex_new_tree)" for b
    using that by (auto simp: ex_new_tree_def ex_blob_def)
  moreover have "headers_ok ex_blob ex_size" by (auto simp: headers_ok_def ex_size_def)
  moreover have "codec_ok Inr ex_unz" by (simp add: codec_ok_def ex_unz_def)
  moreover have "length (ex_digest s) = 1" for s by (simp add: ex_digest_def)
  moreover have "length (ab_bundles ex_old) = 2" by (simp add: ex_old_def)
  ultimately have "\<exists>groups'. archive_exact ex_digest ex_unz ex_blob ex_new_tree (ao_frames out) (ao_metadata out) (ao_bundles out) groups'"
    using tail_build_exact[OF out[unfolded ex_tail_def], of ex_unz tree ex_groups 1] counts ex_chunker_ok by auto
  then show ?thesis using out counts(1) by blast
qed

end
