(* ===== verification/Worktree.thy ===== *)
theory Worktree
  imports Manifest_Props
begin

text \<open>
  Writing a working tree: \<open>safe_create_dir_all\<close> of \<open>src/rust/src/fsutil.rs\<close>, \<open>prepare_worktree_dirs\<close> of
  \<open>src/rust/src/extract.rs\<close> and the writer of \<open>src/rust/src/worktree_writer.rs\<close> over a model of the
  directory that is written: a map from the names below it to directories, files and symbolic links.  The calls
  follow POSIX; a call that would go through a symbolic link leaves the directory, which \<open>d_escaped\<close> records.  What
  the model does not decide, which calls fail and whether a link's target exists, is a parameter.  Times, the
  creation mask and the stat entries collected for the index are left out.
\<close>

section \<open>The directory\<close>

type_synonym names = "string list"

datatype node = DirNode | FileNode "32 word" string | LinkNode string

record disk =
  d_nodes :: "names \<Rightarrow> node option"
  d_escaped :: bool

datatype io_op = OpCreateDir | OpRemove | OpOpen | OpWrite | OpSymlink | OpTimes

text \<open>The calls that fail, how much of a failing write is kept, and which links lead somewhere.\<close>

record world =
  w_fails :: "io_op \<Rightarrow> names \<Rightarrow> bool"
  w_cut :: "names \<Rightarrow> nat"
  w_link_exists :: "names \<Rightarrow> bool"

datatype write_error =
    AlreadyExists | NotFound | IoFailed | IsDirectory | LinkRefused | Escapes
  | SymlinkedDir names | NotDirectory names | BadPath path_error | WriteMode string

type_synonym 'a wresult = "(write_error, 'a) result"

definition dbind :: "'a wresult \<times> disk \<Rightarrow> ('a \<Rightarrow> disk \<Rightarrow> 'b wresult \<times> disk) \<Rightarrow> 'b wresult \<times> disk" where
  "dbind m f = (case m of (Inl e, d) \<Rightarrow> (Inl e, d) | (Inr x, d) \<Rightarrow> f x d)"

definition real_dir :: "disk \<Rightarrow> names \<Rightarrow> bool" where
  "real_dir d p \<longleftrightarrow> p = [] \<or> d_nodes d p = Some DirNode"

definition reaches :: "disk \<Rightarrow> names \<Rightarrow> bool" where
  "reaches d p \<longleftrightarrow> list_all (\<lambda>k. real_dir d (take k p)) [0..<length p]"

definition through_link :: "disk \<Rightarrow> names \<Rightarrow> bool" where
  "through_link d p \<longleftrightarrow> list_ex (\<lambda>k. reaches d (take k p) \<and> (case d_nodes d (take k p) of Some (LinkNode _) \<Rightarrow> True | _ \<Rightarrow> False)) [1..<length p]"

definition is_symlink :: "disk \<Rightarrow> names \<Rightarrow> bool" where
  "is_symlink d p \<longleftrightarrow> reaches d p \<and> (case d_nodes d p of Some (LinkNode _) \<Rightarrow> True | _ \<Rightarrow> False)"

definition path_exists :: "world \<Rightarrow> disk \<Rightarrow> names \<Rightarrow> bool" where
  "path_exists w d p \<longleftrightarrow> reaches d p \<and> (case d_nodes d p of None \<Rightarrow> False | Some (LinkNode _) \<Rightarrow> w_link_exists w p | Some _ \<Rightarrow> True)"

text \<open>A call on \<open>p\<close> that would make or remove something: it must reach \<open>p\<close> without leaving.\<close>

definition at_path :: "names \<Rightarrow> disk \<Rightarrow> (disk \<Rightarrow> 'a wresult \<times> disk) \<Rightarrow> 'a wresult \<times> disk" where
  "at_path p d f =
     (if through_link d p then (Inl Escapes, d\<lparr>d_escaped := True\<rparr>)
      else if \<not> reaches d p then (Inl NotFound, d)
      else f d)"

definition set_node :: "names \<Rightarrow> node option \<Rightarrow> disk \<Rightarrow> disk" where
  "set_node p n d = d\<lparr>d_nodes := (d_nodes d)(p := n)\<rparr>"

definition create_dir :: "world \<Rightarrow> names \<Rightarrow> disk \<Rightarrow> unit wresult \<times> disk" where
  "create_dir w p d = at_path p d (\<lambda>d.
     if d_nodes d p \<noteq> None \<or> p = [] then (Inl AlreadyExists, d)
     else if w_fails w OpCreateDir p then (Inl IoFailed, d)
     else (Inr (), set_node p (Some DirNode) d))"

definition remove_file :: "world \<Rightarrow> names \<Rightarrow> disk \<Rightarrow> unit wresult \<times> disk" where
  "remove_file w p d = at_path p d (\<lambda>d. case d_nodes d p of
       None \<Rightarrow> (Inl (if p = [] then IsDirectory else NotFound), d)
     | Some DirNode \<Rightarrow> (Inl IsDirectory, d)
     | Some _ \<Rightarrow> if w_fails w OpRemove p then (Inl IoFailed, d) else (Inr (), set_node p None d))"

definition make_symlink :: "world \<Rightarrow> string \<Rightarrow> names \<Rightarrow> disk \<Rightarrow> unit wresult \<times> disk" where
  "make_symlink w content p d = at_path p d (\<lambda>d.
     if d_nodes d p \<noteq> None \<or> p = [] then (Inl AlreadyExists, d)
     else if w_fails w OpSymlink p then (Inl IoFailed, d)
     else (Inr (), set_node p (Some (LinkNode content)) d))"

text \<open>Opened for writing with \<open>create\<close>, \<open>truncate\<close> and \<open>O_NOFOLLOW\<close>: an existing file keeps its mode.\<close>

definition open_truncated :: "world \<Rightarrow> 32 word \<Rightarrow> names \<Rightarrow> disk \<Rightarrow> 32 word wresult \<times> disk" where
  "open_truncated w mode p d = at_path p d (\<lambda>d.
     if p = [] then (Inl IsDirectory, d)
     else if w_fails w OpOpen p then (Inl IoFailed, d)
     else (case d_nodes d p of
         None \<Rightarrow> (Inr mode, set_node p (Some (FileNode mode [])) d)
       | Some (FileNode kept _) \<Rightarrow> (Inr kept, set_node p (Some (FileNode kept [])) d)
       | Some DirNode \<Rightarrow> (Inl IsDirectory, d)
       | Some (LinkNode _) \<Rightarrow> (Inl LinkRefused, d)))"

section \<open>Directories\<close>

text \<open>The name of a component; only plain components are used.\<close>

fun comp_name :: "path_component \<Rightarrow> string" where
  "comp_name (NormalComp name) = name"
| "comp_name _ = []"

definition names_of :: "string \<Rightarrow> names" where
  "names_of path = map comp_name (path_components path)"

text \<open>\<open>validate_relative_path\<close> on a path given by its components, as the parents of a validated path are.\<close>

definition validate_components :: "path_component list \<Rightarrow> unit wresult" where
  "validate_components cs =
     (if cs = [] then Inl (BadPath PathEmpty)
      else if hd cs = RootDir then Inl (BadPath PathAbsolute)
      else (case check_components cs of
          Inl e \<Rightarrow> Inl (BadPath e)
        | Inr _ \<Rightarrow> if list_ex (\<lambda>c. CHR 0x00 \<in> set (comp_name c)) cs then Inl (BadPath PathNul) else Inr ()))"

fun create_components :: "world \<Rightarrow> names \<Rightarrow> path_component list \<Rightarrow> disk \<Rightarrow> unit wresult \<times> disk" where
  "create_components w current [] d = (Inr (), d)"
| "create_components w current (NormalComp name # cs) d =
     (let current = current @ [name] in
      if is_symlink d current then (Inl (SymlinkedDir current), d)
      else (case create_dir w current d of
          (Inr _, d) \<Rightarrow> create_components w current cs d
        | (Inl e, d) \<Rightarrow>
            if e = AlreadyExists
            then (if is_symlink d current then (Inl (SymlinkedDir current), d)
                  else if \<not> real_dir d current then (Inl (NotDirectory current), d)
                  else create_components w current cs d)
            else (Inl e, d)))"
| "create_components w current (_ # cs) d = create_components w current cs d"

definition safe_create_dir_all :: "world \<Rightarrow> path_component list \<Rightarrow> disk \<Rightarrow> unit wresult \<times> disk" where
  "safe_create_dir_all w rel d = (case validate_components rel of
       Inl e \<Rightarrow> (Inl e, d)
     | Inr _ \<Rightarrow> create_components w [] rel d)"

fun each_dir :: "world \<Rightarrow> path_component list list \<Rightarrow> disk \<Rightarrow> unit wresult \<times> disk" where
  "each_dir w [] d = (Inr (), d)"
| "each_dir w (rel # rels) d = dbind (safe_create_dir_all w rel d) (\<lambda>_ d. each_dir w rels d)"

text \<open>The directories to make: the parents of the files and the submodules, each once, in order.\<close>

definition worktree_dirs :: "MetadataChunk \<Rightarrow> path_component list list" where
  "worktree_dirs m = map (map NormalComp) (sort (remdups (map (map comp_name)
     (filter (\<lambda>p. p \<noteq> []) (map (\<lambda>e. butlast (path_components (fe_path e))) (mc_files m))
        @ map path_components (mc_gitlinks m)))))"

definition prepare_worktree_dirs :: "world \<Rightarrow> MetadataChunk \<Rightarrow> disk \<Rightarrow> unit wresult \<times> disk" where
  "prepare_worktree_dirs w m d =
     (case map_result (\<lambda>path. case validate_relative_path path of Inl e \<Rightarrow> Inl (BadPath e) | Inr _ \<Rightarrow> Inr ())
        (map fe_path (mc_files m) @ mc_gitlinks m) of
       Inl e \<Rightarrow> (Inl e, d)
     | Inr _ \<Rightarrow> each_dir w (worktree_dirs m) d)"

section \<open>Writing files\<close>

record WriteOptions =
  parents_prepared :: bool
  stamp_mtime :: bool
  fresh_target :: bool

definition FRESH_INDEXED_CHECKOUT :: WriteOptions where
  "FRESH_INDEXED_CHECKOUT = \<lparr>parents_prepared = True, stamp_mtime = False, fresh_target = True\<rparr>"

definition ARCHIVE_WRITE_OPTIONS :: WriteOptions where
  "ARCHIVE_WRITE_OPTIONS = \<lparr>parents_prepared = True, stamp_mtime = False, fresh_target = False\<rparr>"

text \<open>A write is the entry with its content; a prepared regular write is the target, the mode and the content.\<close>

type_synonym OwnedFileWrite = "FileEntry \<times> string"
type_synonym PreparedRegularWrite = "names \<times> 32 word \<times> string"

definition remove_if :: "bool \<Rightarrow> world \<Rightarrow> names \<Rightarrow> disk \<Rightarrow> disk" where
  "remove_if b w p d = (if b then snd (remove_file w p d) else d)"

definition write_symlink_entry :: "world \<Rightarrow> names \<Rightarrow> string \<Rightarrow> disk \<Rightarrow> unit wresult \<times> disk" where
  "write_symlink_entry w target content d =
     dbind (make_symlink w content target (remove_if (path_exists w d target \<or> is_symlink d target) w target d))
       (\<lambda>_ d. (if w_fails w OpTimes target then Inl IoFailed else Inr (), d))"

definition write_regular_content :: "world \<Rightarrow> names \<Rightarrow> 32 word \<Rightarrow> string \<Rightarrow> disk \<Rightarrow> unit wresult \<times> disk" where
  "write_regular_content w target mode content d =
     dbind (open_truncated w mode target (remove_if (path_exists w d target) w target d)) (\<lambda>kept d.
       if w_fails w OpWrite target then (Inl IoFailed, set_node target (Some (FileNode kept (take (w_cut w target) content))) d)
       else (Inr (), set_node target (Some (FileNode kept content)) d))"

text \<open>Octal 120000, 100755 and 100644; files get the permissions 755 or 644.\<close>

definition prepare_entry ::
    "world \<Rightarrow> WriteOptions \<Rightarrow> OwnedFileWrite \<Rightarrow> disk \<Rightarrow> PreparedRegularWrite list wresult \<times> disk" where
  "prepare_entry w opts write d = (case write of (entry, content) \<Rightarrow>
     (case validate_relative_path (fe_path entry) of
        Inl e \<Rightarrow> (Inl (BadPath e), d)
      | Inr _ \<Rightarrow>
          let cs = path_components (fe_path entry); target = names_of (fe_path entry) in
          dbind (if \<not> parents_prepared opts \<and> butlast cs \<noteq> [] then safe_create_dir_all w (butlast cs) d else (Inr (), d)) (\<lambda>_ d.
          dbind (if \<not> fresh_target opts \<and> is_symlink d target then remove_file w target d else (Inr (), d)) (\<lambda>_ d.
          if fe_mode entry = 40960 then dbind (write_symlink_entry w target content d) (\<lambda>_ d. (Inr [], d))
          else if fe_mode entry = 33261 \<or> fe_mode entry = 33188
          then (Inr [(target, if fe_mode entry = 33261 then 493 else 420, content)],
                remove_if (\<not> fresh_target opts \<and> path_exists w d target) w target d)
          else (Inl (WriteMode (fe_path entry)), d)))))"

fun prepare_owned_entries ::
    "world \<Rightarrow> WriteOptions \<Rightarrow> OwnedFileWrite list \<Rightarrow> disk \<Rightarrow> (nat \<times> PreparedRegularWrite list) wresult \<times> disk" where
  "prepare_owned_entries w opts [] d = (Inr (0, []), d)"
| "prepare_owned_entries w opts (write # writes) d =
     dbind (prepare_entry w opts write d) (\<lambda>regular d.
     dbind (prepare_owned_entries w opts writes d) (\<lambda>(written, regulars) d. (Inr (written + 1, regular @ regulars), d)))"

fun write_contents :: "world \<Rightarrow> PreparedRegularWrite list \<Rightarrow> disk \<Rightarrow> unit wresult \<times> disk" where
  "write_contents w [] d = (Inr (), d)"
| "write_contents w ((target, mode, content) # writes) d =
     dbind (write_regular_content w target mode content d) (\<lambda>_ d. write_contents w writes d)"

definition write_regular_batch :: "world \<Rightarrow> WriteOptions \<Rightarrow> PreparedRegularWrite list \<Rightarrow> disk \<Rightarrow> unit wresult \<times> disk" where
  "write_regular_batch w opts writes d =
     dbind (write_contents w writes d) (\<lambda>_ d.
       (if stamp_mtime opts \<and> list_ex (\<lambda>(target, _). w_fails w OpTimes target) writes then Inl IoFailed else Inr (), d))"

definition write_owned_entries :: "world \<Rightarrow> WriteOptions \<Rightarrow> OwnedFileWrite list \<Rightarrow> disk \<Rightarrow> nat wresult \<times> disk" where
  "write_owned_entries w opts writes d =
     (if writes = [] then (Inr 0, d)
      else dbind (prepare_owned_entries w opts writes d) (\<lambda>(written, regulars) d.
           dbind (write_regular_batch w opts regulars d) (\<lambda>_ d. (Inr written, d))))"

end
