(* ===== verification/Worktree_Props.thy ===== *)
theory Worktree_Props
  imports Worktree
begin

text \<open>
  What writing a working tree does to the directory: no call leaves it or touches a repository inside it, whatever
  links it holds and whichever calls fail, and a batch that succeeds leaves every file and link as its entry says.
\<close>

named_theorems disk_simps \<open>equations of the directory calls\<close>

section \<open>Changes that stay inside\<close>

text \<open>From \<open>d\<close> to \<open>d'\<close> only nodes in \<open>P\<close> change, directories stay and nothing escapes.\<close>

definition tame :: "names set \<Rightarrow> disk \<Rightarrow> disk \<Rightarrow> bool" where
  "tame P d d' \<longleftrightarrow> (\<forall>q. d_nodes d q = Some DirNode \<longrightarrow> d_nodes d' q = Some DirNode) \<and> d_escaped d' = d_escaped d
     \<and> (\<forall>q. q \<notin> P \<longrightarrow> d_nodes d' q = d_nodes d q)"

lemma tame_refl [simp, intro]: "tame P d d"
  by (simp add: tame_def)

lemma tame_trans: "tame P d d' \<Longrightarrow> tame Q d' d'' \<Longrightarrow> tame (P \<union> Q) d d''"
  by (simp add: tame_def)

lemma tame_mono: "tame P d d' \<Longrightarrow> P \<subseteq> Q \<Longrightarrow> tame Q d d'"
  by (auto simp: tame_def)

lemma tame_step: "tame P d d' \<Longrightarrow> tame P d' d'' \<Longrightarrow> tame P d d''"
  using tame_trans by fastforce

lemma reaches_iff: "reaches d p \<longleftrightarrow> (\<forall>k < length p. real_dir d (take k p))"
  by (auto simp: reaches_def list_all_iff)

lemma tame_real_dir: "tame P d d' \<Longrightarrow> real_dir d p \<Longrightarrow> real_dir d' p"
  by (auto simp: tame_def real_dir_def)

lemma tame_reaches: "tame P d d' \<Longrightarrow> reaches d p \<Longrightarrow> reaches d' p"
  using tame_real_dir by (auto simp: reaches_iff)

lemma reaches_no_link [simp]: "reaches d p \<Longrightarrow> \<not> through_link d p"
  by (fastforce simp: through_link_def reaches_iff list_ex_iff real_dir_def split: option.splits node.splits)

lemma at_path_reached [disk_simps]: "reaches d p \<Longrightarrow> at_path p d f = f d"
  by (simp add: at_path_def)

lemma set_node_simps [simp]:
  "d_nodes (set_node p n d) = (d_nodes d)(p := n)" "d_escaped (set_node p n d) = d_escaped d"
  by (simp_all add: set_node_def)

lemma tame_set_node: "d_nodes d p \<noteq> Some DirNode \<Longrightarrow> tame {p} d (set_node p n d)"
  by (auto simp: tame_def)

lemma reaches_Nil [simp]: "reaches d []"
  by (simp add: reaches_def)

lemma reaches_snoc: "reaches d (p @ [name]) \<longleftrightarrow> reaches d p \<and> real_dir d p"
proof -
  have "(\<forall>k < Suc (length p). real_dir d (take k (p @ [name]))) \<longleftrightarrow> (\<forall>k < length p. real_dir d (take k p)) \<and> real_dir d p"
    by (auto simp: less_Suc_eq)
  then show ?thesis by (simp add: reaches_iff)
qed

lemma create_dir_tame: "reaches d p \<Longrightarrow> create_dir w p d = (r, d') \<Longrightarrow> tame {p} d d'"
  by (auto simp: create_dir_def disk_simps intro!: tame_set_node split: if_splits)

lemma remove_file_tame: "reaches d p \<Longrightarrow> remove_file w p d = (r, d') \<Longrightarrow> tame {p} d d'"
  by (auto simp: remove_file_def disk_simps intro!: tame_set_node split: if_splits option.splits node.splits)

lemma make_symlink_tame: "reaches d p \<Longrightarrow> make_symlink w c p d = (r, d') \<Longrightarrow> tame {p} d d'"
  by (auto simp: make_symlink_def disk_simps intro!: tame_set_node split: if_splits)

lemma open_truncated_tame: "reaches d p \<Longrightarrow> open_truncated w m p d = (r, d') \<Longrightarrow> tame {p} d d'"
  by (auto simp: open_truncated_def disk_simps intro!: tame_set_node split: if_splits option.splits node.splits)

lemma open_truncated_file:
  "reaches d p \<Longrightarrow> open_truncated w m p d = (Inr kept, d') \<Longrightarrow> d_nodes d' p = Some (FileNode kept [])"
  by (auto simp: open_truncated_def disk_simps split: if_splits option.splits node.splits)

lemma remove_if_tame: "reaches d p \<Longrightarrow> tame {p} d (remove_if b w p d)"
  using remove_file_tame[of d p w] by (cases "remove_file w p d") (auto simp: remove_if_def)

lemma dbindE:
  assumes "dbind m f = (r, d')"
  obtains (fail) e d1 where "m = (Inl e, d1)" "r = Inl e" "d' = d1"
  | (ok) x d1 where "m = (Inr x, d1)" "f x d1 = (r, d')"
  using assms by (auto simp: dbind_def split: prod.splits sum.splits)

lemma dbind_simps [disk_simps, simp]:
  "dbind (Inl e, d) f = (Inl e, d)" "dbind (Inr x, d) f = f x d"
  by (simp_all add: dbind_def)

section \<open>Making directories\<close>

definition prefixes_of :: "names \<Rightarrow> names set" where
  "prefixes_of p = {take k p | k. k \<le> length p}"

lemma prefixes_of_self [simp]: "p \<in> prefixes_of p"
  by (force simp: prefixes_of_def)

lemma prefixes_of_snoc: "prefixes_of p \<subseteq> prefixes_of (p @ q)"
  by (auto simp: prefixes_of_def) (metis append_take_drop_id le_trans le_add1 length_append take_append diff_is_0_eq take0 append_Nil2)

lemma create_components_tame:
  assumes "create_components w current (map NormalComp ns) d = (r, d')" "reaches d current" "real_dir d current"
  shows "tame (prefixes_of (current @ ns)) d d' \<and> (r = Inr () \<longrightarrow> reaches d' (current @ ns) \<and> real_dir d' (current @ ns))"
  using assms
proof (induction ns arbitrary: current d)
  case (Cons name ns)
  let ?c = "current @ [name]"
  have reach: "reaches d ?c" using Cons.prems by (simp add: reaches_snoc)
  obtain r1 d1 where cd: "create_dir w ?c d = (r1, d1)" by fastforce
  have "?c \<in> prefixes_of (current @ name # ns)" using subsetD[OF prefixes_of_snoc[of ?c ns] prefixes_of_self] by simp
  then have t1: "tame (prefixes_of (current @ name # ns)) d d1" using tame_mono[OF create_dir_tame[OF reach cd]] by blast
  have reach1: "reaches d1 ?c" using tame_reaches[OF t1 reach] .
  have rest: ?case if go: "create_components w ?c (map NormalComp ns) d1 = (r, d')" and dir: "real_dir d1 ?c"
    using Cons.IH[OF go reach1 dir] tame_step[OF t1] by auto
  show ?case
  proof (cases "is_symlink d ?c")
    case False
    show ?thesis
    proof (cases r1)
      case (Inr u)
      then have "real_dir d1 ?c" using cd reach by (auto simp: create_dir_def disk_simps real_dir_def split: if_splits)
      then show ?thesis using rest Cons.prems(1) False cd Inr by (simp add: Let_def)
    next
      case (Inl e)
      then show ?thesis using rest t1 Cons.prems(1) False cd by (auto simp: Let_def split: if_splits)
    qed
  qed (use Cons.prems(1) in \<open>auto simp: Let_def\<close>)
qed simp

lemma validated_components:
  assumes "validate_components cs = Inr ()"
  obtains ns where "cs = map NormalComp ns" "ns \<noteq> []"
proof -
  have "check_components cs = Inr ()" "cs \<noteq> []"
    using assms by (auto simp: validate_components_def split: if_splits sum.splits)
  then have "cs = map NormalComp (map comp_name cs)" "map comp_name cs \<noteq> []"
    by (auto simp: check_components_ok intro!: map_idI[symmetric])
  then show ?thesis using that by blast
qed

lemma safe_create_dir_all_tame:
  assumes "safe_create_dir_all w rel d = (r, d')"
  shows "tame (prefixes_of (map comp_name rel)) d d'
    \<and> (r = Inr () \<longrightarrow> reaches d' (map comp_name rel) \<and> real_dir d' (map comp_name rel))"
proof (cases "validate_components rel")
  case (Inl e)
  then show ?thesis using assms by (auto simp: safe_create_dir_all_def)
next
  case (Inr u)
  then obtain ns where "rel = map NormalComp ns" using validated_components by auto
  then show ?thesis using create_components_tame[of w "[]" ns d r d'] assms Inr
    by (simp add: safe_create_dir_all_def real_dir_def comp_def)
qed

lemma each_dir_tame:
  assumes "each_dir w rels d = (r, d')"
  shows "tame (\<Union>rel \<in> set rels. prefixes_of (map comp_name rel)) d d'
    \<and> (r = Inr () \<longrightarrow> (\<forall>rel \<in> set rels. reaches d' (map comp_name rel) \<and> real_dir d' (map comp_name rel)))"
  using assms
proof (induction rels arbitrary: d)
  case (Cons rel rels)
  obtain r1 d1 where s: "safe_create_dir_all w rel d = (r1, d1)" by fastforce
  note one = safe_create_dir_all_tame[OF s]
  show ?case
  proof (cases r1)
    case (Inl e)
    then show ?thesis using one s Cons.prems by (auto elim: tame_mono)
  next
    case (Inr u)
    then have "each_dir w rels d1 = (r, d')" using s Cons.prems by simp
    from Cons.IH[OF this] one Inr show ?thesis
      by (auto dest: tame_trans intro: tame_reaches tame_real_dir)
  qed
qed simp


section \<open>Writing files\<close>

lemma write_symlink_entry_tame:
  assumes "write_symlink_entry w p c d = (r, d')" "reaches d p"
  shows "tame {p} d d' \<and> (r = Inr () \<longrightarrow> d_nodes d' p = Some (LinkNode c))"
proof -
  let ?d = "remove_if (path_exists w d p \<or> is_symlink d p) w p d"
  have t: "tame {p} d ?d" by (rule remove_if_tame[OF assms(2)])
  obtain r1 d1 where m: "make_symlink w c p ?d = (r1, d1)" by fastforce
  have reach: "reaches ?d p" by (rule tame_reaches[OF t assms(2)])
  have "tame {p} d d1" using tame_step[OF t make_symlink_tame[OF reach m]] .
  moreover have "d_nodes d1 p = Some (LinkNode c)" if "r1 = Inr ()"
    using m that reach by (auto simp: make_symlink_def disk_simps split: if_splits)
  ultimately show ?thesis using assms(1) m by (cases r1) (auto simp: write_symlink_entry_def)
qed

lemma write_regular_content_tame:
  assumes "write_regular_content w p mode c d = (r, d')" "reaches d p"
  shows "tame {p} d d' \<and> (r = Inr () \<longrightarrow> (\<exists>kept. d_nodes d' p = Some (FileNode kept c)
    \<and> (kept = mode \<or> (\<exists>c0. d_nodes (remove_if (path_exists w d p) w p d) p = Some (FileNode kept c0)))))"
proof -
  let ?d = "remove_if (path_exists w d p) w p d"
  have t: "tame {p} d ?d" by (rule remove_if_tame[OF assms(2)])
  obtain r1 d1 where o: "open_truncated w mode p ?d = (r1, d1)" by fastforce
  have reach: "reaches ?d p" by (rule tame_reaches[OF t assms(2)])
  have t1: "tame {p} d d1" using tame_step[OF t open_truncated_tame[OF reach o]] .
  show ?thesis
  proof (cases r1)
    case (Inl e)
    then show ?thesis using assms(1) o t1 by (auto simp: write_regular_content_def)
  next
    case (Inr kept)
    then have "d_nodes d1 p = Some (FileNode kept [])" using open_truncated_file[OF reach] o by simp
    then have "tame {p} d (set_node p n d1)" for n using tame_step[OF t1 tame_set_node] by simp
    moreover have "kept = mode \<or> (\<exists>c0. d_nodes ?d p = Some (FileNode kept c0))"
      using o Inr reach by (auto simp: open_truncated_def disk_simps split: if_splits option.splits node.splits)
    ultimately show ?thesis using assms(1) o Inr by (auto simp: write_regular_content_def split: if_splits)
  qed
qed

text \<open>The permissions a regular entry gets, and the node a write leaves.\<close>

definition entry_permissions :: "FileEntry \<Rightarrow> 32 word" where
  "entry_permissions e = (if fe_mode e = 33261 then 493 else 420)"

definition entry_node :: "OwnedFileWrite \<Rightarrow> node" where
  "entry_node write = (case write of (e, c) \<Rightarrow> if fe_mode e = 40960 then LinkNode c else FileNode (entry_permissions e) c)"

definition entry_names :: "OwnedFileWrite \<Rightarrow> names" where
  "entry_names write = names_of (fe_path (fst write))"

text \<open>A file that could not be removed keeps its permissions, so the node is as told only where removal works.\<close>

definition removals_work :: "world \<Rightarrow> bool" where
  "removals_work w \<longleftrightarrow> (\<forall>p. \<not> w_fails w OpRemove p)"

lemma prepare_entry_tame:
  assumes "prepare_entry w opts write d = (r, d')" "reaches d (entry_names write)" "parents_prepared opts"
  shows "tame {entry_names write} d d'
    \<and> (\<forall>regular. r = Inr regular \<longrightarrow>
         (if fe_mode (fst write) = 40960 then regular = [] \<and> d_nodes d' (entry_names write) = Some (entry_node write)
          else regular = [(entry_names write, entry_permissions (fst write), snd write)]))"
proof -
  obtain e c where wr: "write = (e, c)" by fastforce
  let ?p = "names_of (fe_path e)"
  have p: "entry_names write = ?p" by (simp add: wr entry_names_def)
  note run = assms(1)[unfolded wr prepare_entry_def Let_def split_conv] and at = assms(2)[unfolded p]
  show ?thesis
  proof (cases "validate_relative_path (fe_path e)")
    case (Inl err)
    then show ?thesis using run by auto
  next
    case (Inr u)
    obtain r1 d1 where s: "(if \<not> fresh_target opts \<and> is_symlink d ?p then remove_file w ?p d else (Inr (), d)) = (r1, d1)"
      by fastforce
    have t1: "tame {?p} d d1" using s remove_file_tame[OF at] by (auto split: if_splits)
    have reach: "reaches d1 ?p" by (rule tame_reaches[OF t1 at])
    show ?thesis
    proof (cases r1)
      case (Inl err)
      then show ?thesis using run s t1 Inr assms(3) by (auto simp: p)
    next
      case (Inr u')
      obtain r2 d2 where l: "write_symlink_entry w ?p c d1 = (r2, d2)" by fastforce
      note link = write_symlink_entry_tame[OF l reach]
      have "tame {?p} d d2" using tame_step[OF t1] link by blast
      moreover have "tame {?p} d (remove_if b w ?p d1)" for b using tame_step[OF t1 remove_if_tame[OF reach]] .
      ultimately show ?thesis
        using run assms(3) s Inr \<open>validate_relative_path (fe_path e) = Inr u\<close> l link t1
        by (cases r2) (auto simp: wr p[unfolded wr] entry_node_def entry_permissions_def split: if_splits)
    qed
  qed
qed

definition regulars_of :: "OwnedFileWrite list \<Rightarrow> PreparedRegularWrite list" where
  "regulars_of writes = map (\<lambda>x. (entry_names x, entry_permissions (fst x), snd x)) (filter (\<lambda>x. fe_mode (fst x) \<noteq> 40960) writes)"

lemma prepare_owned_entries_tame:
  assumes "prepare_owned_entries w opts writes d = (r, d')" "\<forall>x \<in> set writes. reaches d (entry_names x)" "parents_prepared opts"
  shows "tame (entry_names ` set writes) d d'
    \<and> (\<forall>n regulars. r = Inr (n, regulars) \<longrightarrow> n = length writes \<and> regulars = regulars_of writes
        \<and> (distinct (map entry_names writes) \<longrightarrow>
            (\<forall>x \<in> set writes. fe_mode (fst x) = 40960 \<longrightarrow> d_nodes d' (entry_names x) = Some (entry_node x))))"
  using assms
proof (induction writes arbitrary: d r d')
  case (Cons x writes)
  obtain r1 d1 where one: "prepare_entry w opts x d = (r1, d1)" by fastforce
  note x = prepare_entry_tame[OF one _ Cons.prems(3)]
  have t1: "tame {entry_names x} d d1" using x Cons.prems(2) by simp
  obtain r2 d2 where more: "prepare_owned_entries w opts writes d1 = (r2, d2)" by fastforce
  note rest = Cons.IH[OF more _ Cons.prems(3)]
  have t2: "tame (entry_names ` set writes) d1 d2" using rest Cons.prems(2) tame_reaches[OF t1] by auto
  have t: "tame (entry_names ` set (x # writes)) d d2" using tame_trans[OF t1 t2] by simp
  have t': "tame (entry_names ` set (x # writes)) d d1" using tame_mono[OF t1] by simp
  show ?case
  proof (cases r1)
    case (Inl e)
    then show ?thesis using Cons.prems(1) one t' by auto
  next
    case (Inr regular)
    show ?thesis
    proof (cases r2)
      case (Inl e)
      then show ?thesis using Cons.prems(1) one more Inr t \<open>r1 = Inr regular\<close> by auto
    next
      case (Inr res)
      obtain n regs where res: "res = (n, regs)" by fastforce
      have r: "r = Inr (n + 1, regular @ regs)" "d' = d2" using Cons.prems(1) one more Inr res \<open>r1 = Inr regular\<close> by auto
      have "n = length writes" "regs = regulars_of writes"
        "distinct (map entry_names writes) \<Longrightarrow> (\<forall>y \<in> set writes. fe_mode (fst y) = 40960 \<longrightarrow> d_nodes d2 (entry_names y) = Some (entry_node y))"
        using rest Cons.prems(2) tame_reaches[OF t1] Inr res by auto
      moreover have "regular @ regulars_of writes = regulars_of (x # writes)"
        using x Cons.prems(2) \<open>r1 = Inr regular\<close> by (auto simp: regulars_of_def split: if_splits)
      moreover have "d_nodes d2 (entry_names x) = Some (entry_node x)" if "fe_mode (fst x) = 40960" "entry_names x \<notin> entry_names ` set writes"
        using x Cons.prems(2) \<open>r1 = Inr regular\<close> that t2 by (simp add: tame_def)
      ultimately show ?thesis using t r by auto
    qed
  qed
qed (simp add: regulars_of_def)

lemma removed_file:
  assumes "removals_work w" "reaches d p"
  shows "d_nodes (remove_if (path_exists w d p) w p d) p \<noteq> Some (FileNode m c)"
  using assms by (auto simp: remove_if_def path_exists_def remove_file_def disk_simps removals_work_def
      split: option.splits node.splits)

lemma write_contents_tame:
  assumes "write_contents w writes d = (r, d')" "\<forall>x \<in> set writes. reaches d (fst x)"
  shows "tame (fst ` set writes) d d'
    \<and> (r = Inr () \<longrightarrow> removals_work w \<longrightarrow> distinct (map fst writes) \<longrightarrow>
         (\<forall>(p, m, c) \<in> set writes. d_nodes d' p = Some (FileNode m c)))"
  using assms
proof (induction writes arbitrary: d)
  case (Cons x writes)
  obtain p m c where x: "x = (p, m, c)" by (cases x)
  have at: "reaches d p" using Cons.prems(2) x by simp
  obtain r1 d1 where one: "write_regular_content w p m c d = (r1, d1)" by fastforce
  note w1 = write_regular_content_tame[OF one at]
  have t1: "tame {p} d d1" using w1 by simp
  show ?case
  proof (cases r1)
    case (Inl e)
    then show ?thesis using Cons.prems(1) one x tame_mono[OF t1] by auto
  next
    case (Inr u)
    then have "write_contents w writes d1 = (r, d')" using Cons.prems(1) one x by simp
    note rest = Cons.IH[OF this]
    have t2: "tame (fst ` set writes) d1 d'" using rest Cons.prems(2) tame_reaches[OF t1] by auto
    have "d_nodes d' p = Some (FileNode m c)" if "removals_work w" "p \<notin> fst ` set writes"
      using w1 Inr removed_file[OF that(1) at] t2 that(2) by (auto simp: tame_def)
    then show ?thesis using rest Cons.prems(2) tame_reaches[OF t1] tame_trans[OF t1 t2] x by auto
  qed
qed simp

lemma regulars_of_names: "fst ` set (regulars_of writes) \<subseteq> entry_names ` set writes"
  by (auto simp: regulars_of_def)

lemma distinct_regulars: "distinct (map entry_names writes) \<Longrightarrow> distinct (map fst (regulars_of writes))"
  by (induction writes) (auto simp: regulars_of_def)

lemma write_owned_entries_tame:
  assumes "write_owned_entries w opts writes d = (r, d')" "\<forall>x \<in> set writes. reaches d (entry_names x)" "parents_prepared opts"
  shows "tame (entry_names ` set writes) d d'
    \<and> (\<forall>n. r = Inr n \<longrightarrow> n = length writes \<and> (removals_work w \<longrightarrow> distinct (map entry_names writes) \<longrightarrow>
         (\<forall>x \<in> set writes. d_nodes d' (entry_names x) = Some (entry_node x))))"
proof (cases "writes = []")
  case True
  then show ?thesis using assms(1) by (auto simp: write_owned_entries_def)
next
  case False
  obtain r1 d1 where prep: "prepare_owned_entries w opts writes d = (r1, d1)" by fastforce
  note p1 = prepare_owned_entries_tame[OF prep assms(2,3)]
  show ?thesis
  proof (cases r1)
    case (Inl e)
    then show ?thesis using p1 assms(1) prep False by (auto simp: write_owned_entries_def)
  next
    case (Inr res)
    obtain n regs where res: "res = (n, regs)" by fastforce
    have regs: "n = length writes" "regs = regulars_of writes" and t1: "tame (entry_names ` set writes) d d1" using p1 Inr res by auto
    obtain r2 d2 where cont: "write_contents w regs d1 = (r2, d2)" by fastforce
    have "\<forall>x \<in> set regs. reaches d1 (fst x)" using assms(2) tame_reaches[OF t1] regs(2) by (auto simp: regulars_of_def)
    note c = write_contents_tame[OF cont this]
    have t2: "tame (fst ` set regs) d1 d2" using c by simp
    have t: "tame (entry_names ` set writes) d d2"
      using tame_step[OF t1 tame_mono[OF t2]] regulars_of_names[of writes] regs(2) by simp
    have out: "d' = d2" "\<And>k. r = Inr k \<Longrightarrow> k = n \<and> r2 = Inr ()"
      using assms(1) prep Inr res cont False by (cases r2; auto simp: write_owned_entries_def write_regular_batch_def split: if_splits)+
    have "d_nodes d2 (entry_names x) = Some (entry_node x)"
      if "r2 = Inr ()" "removals_work w" "distinct (map entry_names writes)" "x \<in> set writes" for x
    proof (cases "fe_mode (fst x) = 40960")
      case True
      have "entry_names x \<notin> fst ` set regs"
        using that(3,4) True unfolding regs(2) by (force simp: regulars_of_def distinct_map inj_on_def)
      then show ?thesis using t2 p1 Inr res True that(3,4) by (simp add: tame_def)
    next
      case False
      then have "(entry_names x, entry_permissions (fst x), snd x) \<in> set regs" using that(4) by (auto simp: regs(2) regulars_of_def)
      then have "d_nodes d2 (entry_names x) = Some (FileNode (entry_permissions (fst x)) (snd x))"
        using c that(1,2) distinct_regulars[OF that(3)] regs(2) by auto
      then show ?thesis using False by (simp add: entry_node_def split_beta)
    qed
    then show ?thesis using t out regs(1) by auto
  qed
qed

section \<open>A prepared working tree\<close>

definition in_repository :: "names \<Rightarrow> bool" where
  "in_repository q \<longleftrightarrow> list_ex (\<lambda>name. eq_ignore_ascii_case name ''.git'') q"

lemma validated_names:
  assumes "validate_relative_path path = Inr ()"
  shows "\<not> in_repository (names_of path)" "map NormalComp (names_of path) = path_components path"
  using assms by (auto simp: validate_relative_path_def names_of_def in_repository_def list_ex_iff rbind_Inr check_components_ok
      split: if_splits intro!: map_idI)

lemma in_repository_take: "\<not> in_repository p \<Longrightarrow> q \<in> prefixes_of p \<Longrightarrow> \<not> in_repository q"
  by (auto simp: in_repository_def list_ex_iff prefixes_of_def dest: in_set_takeD)

lemma in_repository_butlast: "\<not> in_repository p \<Longrightarrow> \<not> in_repository (butlast p)"
  by (auto simp: in_repository_def list_ex_iff dest: in_set_butlastD)

lemma worktree_dirs_names:
  "map comp_name ` set (worktree_dirs m)
     = {butlast (names_of (fe_path e)) | e. e \<in> set (mc_files m) \<and> butlast (names_of (fe_path e)) \<noteq> []} \<union> names_of ` set (mc_gitlinks m)"
proof -
  have "map comp_name ` set (worktree_dirs m) = set (map (map comp_name)
     (filter (\<lambda>p. p \<noteq> []) (map (\<lambda>e. butlast (path_components (fe_path e))) (mc_files m)) @ map path_components (mc_gitlinks m)))"
    by (simp add: worktree_dirs_def image_image comp_def)
  also have "\<dots> = {map comp_name (butlast (path_components (fe_path e))) | e. e \<in> set (mc_files m) \<and> butlast (path_components (fe_path e)) \<noteq> []}
      \<union> names_of ` set (mc_gitlinks m)"
    by (auto simp: names_of_def)
  finally show ?thesis by (simp add: names_of_def map_butlast[symmetric])
qed

lemma prepared_ready:
  assumes "prepare_worktree_dirs w m d = (Inr (), d1)"
  shows "e \<in> set (mc_files m) \<Longrightarrow> reaches d1 (names_of (fe_path e))" "g \<in> set (mc_gitlinks m) \<Longrightarrow> real_dir d1 (names_of g)"
    "e \<in> set (mc_files m) \<Longrightarrow> validate_relative_path (fe_path e) = Inr ()"
proof -
  let ?check = "\<lambda>path. case validate_relative_path path of Inl e \<Rightarrow> Inl (BadPath e) | Inr _ \<Rightarrow> Inr ()"
  obtain us where us: "map_result ?check (map fe_path (mc_files m) @ mc_gitlinks m) = Inr us"
    using assms by (auto simp: prepare_worktree_dirs_def split: sum.splits)
  then have dirs: "each_dir w (worktree_dirs m) d = (Inr (), d1)" using assms by (simp add: prepare_worktree_dirs_def)
  have made: "reaches d1 q \<and> real_dir d1 q" if "q \<in> map comp_name ` set (worktree_dirs m)" for q
    using each_dir_tame[OF dirs] that by auto
  show "real_dir d1 (names_of g)" if "g \<in> set (mc_gitlinks m)"
    using made worktree_dirs_names[of m] that by blast
  show "reaches d1 (names_of (fe_path e))" if e: "e \<in> set (mc_files m)"
  proof (cases "names_of (fe_path e) = []")
    case False
    then have eq: "names_of (fe_path e) = butlast (names_of (fe_path e)) @ [last (names_of (fe_path e))]" by simp
    have "reaches d1 (butlast (names_of (fe_path e))) \<and> real_dir d1 (butlast (names_of (fe_path e)))"
      using made worktree_dirs_names[of m] e by (cases "butlast (names_of (fe_path e)) = []") (auto simp: real_dir_def)
    then show ?thesis by (subst eq) (simp add: reaches_snoc)
  qed simp
  show "validate_relative_path (fe_path e) = Inr ()" if "e \<in> set (mc_files m)"
  proof -
    have "\<forall>x \<in> set xs. is_ok (f x)" if "map_result f xs = Inr ys" for f :: "string \<Rightarrow> unit wresult" and xs ys
      using that by (induction xs arbitrary: ys) (auto simp: rbind_Inr)
    from this[OF us] that have "is_ok (?check (fe_path e))" by simp
    then show ?thesis by (cases "validate_relative_path (fe_path e)") auto
  qed
qed

lemma prepare_tame:
  assumes "prepare_worktree_dirs w m d = (r, d1)"
  shows "tame {q. \<not> in_repository q} d d1"
proof (cases "map_result (\<lambda>path. case validate_relative_path path of Inl e \<Rightarrow> Inl (BadPath e) | Inr _ \<Rightarrow> Inr ())
    (map fe_path (mc_files m) @ mc_gitlinks m)")
  case (Inl e)
  then show ?thesis using assms by (simp add: prepare_worktree_dirs_def)
next
  case (Inr us)
  have ok: "\<forall>x \<in> set xs. is_ok (f x)" if "map_result f xs = Inr ys" for f :: "string \<Rightarrow> unit wresult" and xs ys
    using that by (induction xs arbitrary: ys) (auto simp: rbind_Inr)
  have valid: "validate_relative_path p = Inr ()" if "p \<in> set (map fe_path (mc_files m) @ mc_gitlinks m)" for p
    using bspec[OF ok[OF Inr] that] by (cases "validate_relative_path p") auto
  have "\<not> in_repository q" if "q \<in> map comp_name ` set (worktree_dirs m)" for q
    using that validated_names(1)[OF valid] in_repository_butlast unfolding worktree_dirs_names by auto
  then have sub: "(\<Union>rel \<in> set (worktree_dirs m). prefixes_of (map comp_name rel)) \<subseteq> {q. \<not> in_repository q}"
    using in_repository_take by blast
  have "each_dir w (worktree_dirs m) d = (r, d1)" using assms Inr by (simp add: prepare_worktree_dirs_def)
  from tame_mono[OF conjunct1[OF each_dir_tame[OF this]] sub] show ?thesis .
qed

lemma tame_outside: "tame {q. \<not> in_repository q} d d' \<Longrightarrow> d_escaped d' = d_escaped d \<and> (\<forall>q. in_repository q \<longrightarrow> d_nodes d' q = d_nodes d q)"
  by (simp add: tame_def)

text \<open>Batches of files written one after the other, each whatever became of the one before.\<close>

definition write_batches :: "world \<Rightarrow> WriteOptions \<Rightarrow> OwnedFileWrite list list \<Rightarrow> disk \<Rightarrow> disk" where
  "write_batches w opts bs d = fold (\<lambda>b d. snd (write_owned_entries w opts b d)) bs d"

lemma write_batches_tame:
  assumes "\<forall>b \<in> set bs. \<forall>x \<in> set b. reaches d (entry_names x)" "parents_prepared opts"
  shows "tame (\<Union>b \<in> set bs. entry_names ` set b) d (write_batches w opts bs d)"
  using assms(1)
proof (induction bs arbitrary: d)
  case (Cons b bs)
  obtain r d1 where b: "write_owned_entries w opts b d = (r, d1)" by fastforce
  have t1: "tame (entry_names ` set b) d d1" using write_owned_entries_tame[OF b _ assms(2)] Cons.prems by simp
  then show ?case using tame_trans[OF t1 Cons.IH] Cons.prems tame_reaches[OF t1] b by (simp add: write_batches_def)
qed (simp add: write_batches_def)

text \<open>
  C19.  Writing a working tree never leaves it: whatever links the directory already holds or the files make, and
  whichever calls fail, preparing the directories and then writing any batches of the table's files follows no link and
  changes nothing in a repository inside the directory.
\<close>

theorem worktree_confined:
  assumes "prepare_worktree_dirs w m d = (r, d1)" "\<not> d_escaped d"
    "\<forall>b \<in> set bs. \<forall>x \<in> set b. fst x \<in> set (mc_files m)" "parents_prepared opts"
  shows "\<not> d_escaped d1 \<and> (\<forall>q. in_repository q \<longrightarrow> d_nodes d1 q = d_nodes d q)
    \<and> (r = Inr () \<longrightarrow> (let d2 = write_batches w opts bs d1 in
         \<not> d_escaped d2 \<and> (\<forall>q. in_repository q \<longrightarrow> d_nodes d2 q = d_nodes d q)
         \<and> (\<forall>g \<in> set (mc_gitlinks m). real_dir d2 (names_of g))))"
proof -
  have t1: "tame {q. \<not> in_repository q} d d1" by (rule prepare_tame[OF assms(1)])
  have "\<not> d_escaped d2 \<and> (\<forall>q. in_repository q \<longrightarrow> d_nodes d2 q = d_nodes d q) \<and> (\<forall>g \<in> set (mc_gitlinks m). real_dir d2 (names_of g))"
    if r: "r = Inr ()" and d2: "d2 = write_batches w opts bs d1" for d2
  proof -
    note ready = prepared_ready[OF assms(1)[unfolded r]]
    have reach: "\<forall>b \<in> set bs. \<forall>x \<in> set b. reaches d1 (entry_names x)" using ready(1) assms(3) by (simp add: entry_names_def)
    have sub: "(\<Union>b \<in> set bs. entry_names ` set b) \<subseteq> {q. \<not> in_repository q}"
      using assms(3) ready(3) validated_names(1) by (force simp: entry_names_def)
    have t2: "tame {q. \<not> in_repository q} d1 d2" using tame_mono[OF write_batches_tame[OF reach assms(4)] sub] by (simp add: d2)
    show ?thesis using tame_outside[OF tame_step[OF t1 t2]] tame_real_dir[OF t2 ready(2)] assms(2) by blast
  qed
  then show ?thesis using tame_outside[OF t1] assms(2) unfolding Let_def by blast
qed

definition ex_world :: world where
  "ex_world = \<lparr>w_fails = \<lambda>_ _. False, w_cut = \<lambda>_. 0, w_link_exists = \<lambda>_. True\<rparr>"

text \<open>A directory in which \<open>a\<close> is a link, and a table with the file \<open>a/b\<close>: the link is refused.\<close>

definition ex_linked :: disk where
  "ex_linked = \<lparr>d_nodes = (\<lambda>p. if p = [''a''] then Some (LinkNode ''/etc'') else None), d_escaped = False\<rparr>"

definition ex_work_table :: MetadataChunk where
  "ex_work_table = \<lparr>mc_frames = [], mc_files = [\<lparr>fe_path = ''a/b'', fe_mode = 33188, fe_blob_sha1 = [], fe_fragments = []\<rparr>], mc_gitlinks = [''sub'']\<rparr>"

theorem worktree_confined_witness:
  "fst (prepare_worktree_dirs ex_world ex_work_table ex_linked) = Inl (SymlinkedDir [''a''])
     \<and> \<not> d_escaped (snd (prepare_worktree_dirs ex_world ex_work_table ex_linked))
     \<and> (let d0 = \<lparr>d_nodes = \<lambda>_. None, d_escaped = False\<rparr>; d1 = snd (prepare_worktree_dirs ex_world ex_work_table d0);
            d2 = write_batches ex_world ARCHIVE_WRITE_OPTIONS [[(hd (mc_files ex_work_table), ''hi'')]] d1 in
        d_nodes d2 [''a'', ''b''] = Some (FileNode 420 ''hi'') \<and> \<not> d_escaped d2 \<and> real_dir d2 [''sub''])"
proof -
  let ?d0 = "\<lparr>d_nodes = \<lambda>_. None, d_escaped = False\<rparr>"
  let ?bs = "[[(hd (mc_files ex_work_table), ''hi'')]]"
  have link: "fst (prepare_worktree_dirs ex_world ex_work_table ex_linked) = Inl (SymlinkedDir [''a''])" by code_simp
  have fresh: "fst (prepare_worktree_dirs ex_world ex_work_table ?d0) = Inr ()" by code_simp
  have wrote: "d_nodes (write_batches ex_world ARCHIVE_WRITE_OPTIONS ?bs (snd (prepare_worktree_dirs ex_world ex_work_table ?d0)))
      [''a'', ''b''] = Some (FileNode 420 ''hi'')" by code_simp
  have sub: "names_of ''sub'' = [''sub'']" by code_simp
  have bs: "\<forall>b \<in> set ?bs. \<forall>x \<in> set b. fst x \<in> set (mc_files ex_work_table)" by (simp add: ex_work_table_def)
  have opts: "parents_prepared ARCHIVE_WRITE_OPTIONS" by (simp add: ARCHIVE_WRITE_OPTIONS_def)
  have "\<not> d_escaped (snd (prepare_worktree_dirs ex_world ex_work_table ex_linked))"
    using worktree_confined[OF prod.collapse[symmetric] _ bs opts, where w = ex_world and d = ex_linked] by (simp add: ex_linked_def)
  moreover have "let d2 = write_batches ex_world ARCHIVE_WRITE_OPTIONS ?bs (snd (prepare_worktree_dirs ex_world ex_work_table ?d0)) in
      \<not> d_escaped d2 \<and> real_dir d2 [''sub'']"
    using worktree_confined[OF prod.collapse[symmetric] _ bs opts, where w = ex_world and d = ?d0] fresh sub by (simp add: Let_def ex_work_table_def)
  ultimately show ?thesis using link wrote by (simp add: Let_def)
qed

end
