(* ===== verification/Extract_Run.thy ===== *)
theory Extract_Run
  imports Extract Worktree_Props
begin

text \<open>
  Extracting a working-tree archive: the pipeline of \<open>extract_archive_from_chunk_receiver_with_chunks\<close> in
  \<open>src/rust/src/extract.rs\<close>.  Received chunks are sliced into one message per frame.  Writer threads take messages
  in any order, decompress the frame, check it and go through the file fragments in it, one at a time: a file of one
  fragment is checked and queued, the slots of a file of several fragments are shared by all the threads under a
  lock, and the thread that fills the last one checks and queues the file.  Queued files are written in batches.  A
  schedule is the list of messages whose thread takes the next step, so every interleaving of the threads is a
  schedule; a thread's step at a fragment, at a flush and at its end is atomic.  Decompression and SHA-1 are
  parameters.
\<close>

section \<open>Frames and fragments\<close>

definition PACK_WRITE_BATCH_FILES :: nat where
  "PACK_WRITE_BATCH_FILES = 512"

datatype run_error =
    UnknownChunk nat | ChunkFailed nat | SliceFailed extract_error | DecompressFailed nat | RawLength nat | FrameKey nat
  | FragmentPastRaw string nat | Sha1Mismatch string | NoPendingState string | FragmentIndex nat string
  | DuplicateFragment nat string | CountUnderflow | MissingFragment string | WriteFailed write_error
  | BlobIdLength string | WriterGone | WroteOther nat nat | RawTotalOverflow

type_synonym 'a run_result = "(run_error, 'a) result"

definition blob_object_id :: "(string \<Rightarrow> 8 word list) \<Rightarrow> string \<Rightarrow> 8 word list" where
  "blob_object_id sha1 content = sha1 (''blob '' @ show_nat (length content) @ [CHR 0x00] @ content)"

definition decompress_frame :: "(string \<Rightarrow> nat \<Rightarrow> string option) \<Rightarrow> string \<Rightarrow> FrameInfo \<Rightarrow> nat \<Rightarrow> string run_result" where
  "decompress_frame unz compressed frame idx =
     (if compressed_len frame = 0 \<and> frame_raw_len frame = 0 then Inr []
      else ok_or (DecompressFailed idx) (unz compressed (unat (frame_raw_len frame))))"

record PendingFile =
  pf_fragments :: "string option list"
  pf_remaining :: nat

type_synonym pending_files = "nat \<Rightarrow> PendingFile option"

definition initial_pending :: "MetadataChunk \<Rightarrow> pending_files" where
  "initial_pending m i =
     (if i < length (mc_files m) \<and> 1 < length (fe_fragments (mc_files m ! i))
      then (let n = length (fe_fragments (mc_files m ! i)) in Some \<lparr>pf_fragments = replicate n None, pf_remaining = n\<rparr>)
      else None)"

fun all_present :: "'a option list \<Rightarrow> 'a list option" where
  "all_present [] = Some []"
| "all_present (None # xs) = None"
| "all_present (Some x # xs) = map_option ((#) x) (all_present xs)"

definition check_blob :: "(string \<Rightarrow> 8 word list) \<Rightarrow> FileEntry \<Rightarrow> string \<Rightarrow> OwnedFileWrite option run_result" where
  "check_blob sha1 entry content =
     (if blob_object_id sha1 content \<noteq> fe_blob_sha1 entry then Inl (Sha1Mismatch (fe_path entry)) else Inr (Some (entry, content)))"

text \<open>One fragment of a file of several: the file is complete when it was the last one missing.\<close>

definition fill_slot ::
    "(string \<Rightarrow> 8 word list) \<Rightarrow> FileEntry \<Rightarrow> nat \<Rightarrow> nat \<Rightarrow> string \<Rightarrow> pending_files \<Rightarrow> OwnedFileWrite option run_result \<times> pending_files" where
  "fill_slot sha1 entry file_idx frag_idx content pending =
     (case pending file_idx of
        None \<Rightarrow> (Inl (NoPendingState (fe_path entry)), pending)
      | Some pf \<Rightarrow>
          if length (pf_fragments pf) \<le> frag_idx then (Inl (FragmentIndex frag_idx (fe_path entry)), pending)
          else if pf_fragments pf ! frag_idx \<noteq> None then (Inl (DuplicateFragment frag_idx (fe_path entry)), pending)
          else (let slots = (pf_fragments pf)[frag_idx := Some content] in
                if pf_remaining pf = 0 then (Inl CountUnderflow, pending(file_idx \<mapsto> pf\<lparr>pf_fragments := slots\<rparr>))
                else if pf_remaining pf - 1 = 0
                then (case all_present slots of
                        None \<Rightarrow> Inl (MissingFragment (fe_path entry))
                      | Some parts \<Rightarrow> check_blob sha1 entry (concat parts), pending(file_idx := None))
                else (Inr None, pending(file_idx \<mapsto> \<lparr>pf_fragments = slots, pf_remaining = pf_remaining pf - 1\<rparr>))))"

definition place_fragment ::
    "(string \<Rightarrow> 8 word list) \<Rightarrow> MetadataChunk \<Rightarrow> nat \<Rightarrow> string \<Rightarrow> nat \<times> nat \<Rightarrow> pending_files \<Rightarrow> OwnedFileWrite option run_result \<times> pending_files" where
  "place_fragment sha1 m idx raw pair pending = (case pair of (file_idx, frag_idx) \<Rightarrow>
     (let entry = mc_files m ! file_idx;
          fragment = fe_fragments entry ! frag_idx;
          off = unat (frame_offset fragment); len = unat (frag_raw_len fragment) in
      case get_range raw off (off + len) of
        None \<Rightarrow> (Inl (FragmentPastRaw (fe_path entry) idx), pending)
      | Some content \<Rightarrow>
          if length (fe_fragments entry) = 1 then (check_blob sha1 entry content, pending)
          else fill_slot sha1 entry file_idx frag_idx content pending))"

section \<open>Writer threads\<close>

record frame_task =
  ft_raw :: string
  ft_frame :: nat
  ft_pairs :: "(nat \<times> nat) list"
  ft_queue :: "OwnedFileWrite list"
  ft_written :: nat

datatype stage = Waiting | Running frame_task | Finished

record extractor =
  xr_stage :: "nat \<Rightarrow> stage"
  xr_pending :: pending_files
  xr_disk :: disk
  xr_results :: nat
  xr_written :: nat
  xr_error :: "run_error option"

type_synonym frame_message = "nat \<times> string run_result"

definition frame_pairs :: "MetadataChunk \<Rightarrow> nat \<Rightarrow> (nat \<times> nat) list" where
  "frame_pairs m idx = (case map_of (fragments_by_frame m) (of_nat idx) of None \<Rightarrow> [] | Some l \<Rightarrow> l)"

definition start_frame :: "(string \<Rightarrow> nat \<Rightarrow> string option) \<Rightarrow> MetadataChunk \<Rightarrow> frame_message \<Rightarrow> frame_task run_result" where
  "start_frame unz m msg = (case msg of (idx, res) \<Rightarrow>
     rbind res (\<lambda>compressed.
     rbind (decompress_frame unz compressed (mc_frames m ! idx) idx) (\<lambda>raw.
     if length raw \<noteq> unat (frame_raw_len (mc_frames m ! idx)) then Inl (RawLength idx)
     else if 2 ^ 32 \<le> idx then Inl (FrameKey idx)
     else Inr \<lparr>ft_raw = raw, ft_frame = idx, ft_pairs = frame_pairs m idx, ft_queue = [], ft_written = 0\<rparr>)))"

text \<open>A result reaches the collector, which reads one per frame of the table.\<close>

definition finish_frame :: "MetadataChunk \<Rightarrow> nat \<Rightarrow> nat run_result \<Rightarrow> extractor \<Rightarrow> extractor" where
  "finish_frame m k r s =
     (let s = s\<lparr>xr_stage := (xr_stage s)(k := Finished)\<rparr> in
      if length (mc_frames m) \<le> xr_results s then s
      else (case r of
          Inl e \<Rightarrow> s\<lparr>xr_results := xr_results s + 1, xr_error := Some e\<rparr>
        | Inr n \<Rightarrow> s\<lparr>xr_results := xr_results s + 1, xr_written := xr_written s + n\<rparr>))"

definition set_running :: "nat \<Rightarrow> frame_task \<Rightarrow> extractor \<Rightarrow> extractor" where
  "set_running k t s = s\<lparr>xr_stage := (xr_stage s)(k := Running t)\<rparr>"

text \<open>\<open>flush_archive_writes\<close>: the queued files are written; \<open>after\<close> goes on with how many.\<close>

definition flush_queue ::
    "world \<Rightarrow> MetadataChunk \<Rightarrow> nat \<Rightarrow> OwnedFileWrite list \<Rightarrow> (nat \<Rightarrow> extractor \<Rightarrow> extractor) \<Rightarrow> extractor \<Rightarrow> extractor" where
  "flush_queue w m k queue after s =
     (case write_owned_entries w ARCHIVE_WRITE_OPTIONS queue (xr_disk s) of
        (Inl e, d) \<Rightarrow> finish_frame m k (Inl (WriteFailed e)) (s\<lparr>xr_disk := d\<rparr>)
      | (Inr n, d) \<Rightarrow> after n (s\<lparr>xr_disk := d\<rparr>))"

definition advance_pair ::
    "world \<Rightarrow> (string \<Rightarrow> 8 word list) \<Rightarrow> MetadataChunk \<Rightarrow> bool \<Rightarrow> nat \<Rightarrow> frame_task \<Rightarrow> nat \<times> nat \<Rightarrow> (nat \<times> nat) list \<Rightarrow> extractor \<Rightarrow> extractor" where
  "advance_pair w sha1 m target k t pair pairs s =
     (case place_fragment sha1 m (ft_frame t) (ft_raw t) pair (xr_pending s) of
        (Inl e, pending) \<Rightarrow> finish_frame m k (Inl e) (s\<lparr>xr_pending := pending\<rparr>)
      | (Inr completed, pending) \<Rightarrow>
          (let s = s\<lparr>xr_pending := pending\<rparr>; t = t\<lparr>ft_pairs := pairs\<rparr> in
           case completed of
             None \<Rightarrow> set_running k t s
           | Some write \<Rightarrow>
               if \<not> target then set_running k t s
               else (let queue = ft_queue t @ [write] in
                     if PACK_WRITE_BATCH_FILES \<le> length queue
                     then flush_queue w m k queue (\<lambda>n. set_running k (t\<lparr>ft_queue := [], ft_written := ft_written t + n\<rparr>)) s
                     else set_running k (t\<lparr>ft_queue := queue\<rparr>) s)))"

definition advance ::
    "world \<Rightarrow> (string \<Rightarrow> nat \<Rightarrow> string option) \<Rightarrow> (string \<Rightarrow> 8 word list) \<Rightarrow> MetadataChunk \<Rightarrow> bool \<Rightarrow> frame_message list
       \<Rightarrow> nat \<Rightarrow> extractor \<Rightarrow> extractor" where
  "advance w unz sha1 m target msgs k s =
     (if length msgs \<le> k then s
      else (case xr_stage s k of
          Waiting \<Rightarrow> (case start_frame unz m (msgs ! k) of
              Inl e \<Rightarrow> finish_frame m k (Inl e) s
            | Inr t \<Rightarrow> set_running k t s)
        | Running t \<Rightarrow> (case ft_pairs t of
              pair # pairs \<Rightarrow> advance_pair w sha1 m target k t pair pairs s
            | [] \<Rightarrow> if target then flush_queue w m k (ft_queue t) (\<lambda>n. finish_frame m k (Inr (ft_written t + n))) s
                   else finish_frame m k (Inr (ft_written t)) s)
        | Finished \<Rightarrow> s))"

section \<open>The whole extraction\<close>

text \<open>What the fetchers pass on for a received chunk.\<close>

definition chunk_messages ::
    "(nat \<Rightarrow> Chunk option) \<Rightarrow> MetadataChunk \<Rightarrow> nat \<times> string option \<Rightarrow> frame_message list" where
  "chunk_messages chunks m msg = (case msg of (idx, res) \<Rightarrow>
     (case chunks idx of
        None \<Rightarrow> [(idx, Inl (UnknownChunk idx))]
      | Some chunk \<Rightarrow> map (\<lambda>i. (i, case res of
            None \<Rightarrow> Inl (ChunkFailed idx)
          | Some bytes \<Rightarrow> (case slice_archive_frame bytes chunk (mc_frames m ! i) i of
                Inl e \<Rightarrow> Inl (SliceFailed e)
              | Inr compressed \<Rightarrow> Inr compressed)))
          [ck_start_frame chunk..<ck_end_frame chunk]))"

definition extract_start :: "world \<Rightarrow> MetadataChunk \<Rightarrow> bool \<Rightarrow> disk \<Rightarrow> extractor run_result \<times> disk" where
  "extract_start w m target d =
     (case map_result (\<lambda>e. ensure (length (fe_blob_sha1 e) = 20) (BlobIdLength (fe_path e))) (mc_files m) of
        Inl e \<Rightarrow> (Inl e, d)
      | Inr _ \<Rightarrow>
          (case (if target then prepare_worktree_dirs w m d else (Inr (), d)) of
             (Inl e, d) \<Rightarrow> (Inl (WriteFailed e), d)
           | (Inr _, d) \<Rightarrow> (Inr \<lparr>xr_stage = \<lambda>_. Waiting, xr_pending = initial_pending m, xr_disk = d,
                 xr_results = 0, xr_written = 0, xr_error = None\<rparr>, d)))"

fun raw_total :: "64 word \<Rightarrow> FileEntry list \<Rightarrow> 64 word run_result" where
  "raw_total acc [] = Inr acc"
| "raw_total acc (e # es) =
     (case checked_total 0 (fe_fragments e) of
        Inl _ \<Rightarrow> Inl RawTotalOverflow
      | Inr n \<Rightarrow> rbind (ok_or RawTotalOverflow (checked_add_u64 acc n)) (\<lambda>t. raw_total t es))"

text \<open>What the collector returns once every thread has ended.\<close>

definition extract_result :: "MetadataChunk \<Rightarrow> bool \<Rightarrow> extractor \<Rightarrow> (nat \<times> 64 word) run_result" where
  "extract_result m target s =
     (let expected = (if target then length (mc_files m) else 0) in
      rbind (raw_total 0 (mc_files m)) (\<lambda>total.
      case (if xr_results s < length (mc_frames m) then Some WriterGone else xr_error s) of
        Some e \<Rightarrow> Inl e
      | None \<Rightarrow> if xr_written s \<noteq> expected then Inl (WroteOther (xr_written s) expected) else Inr (xr_written s, total)))"

definition run_schedule ::
    "world \<Rightarrow> (string \<Rightarrow> nat \<Rightarrow> string option) \<Rightarrow> (string \<Rightarrow> 8 word list) \<Rightarrow> MetadataChunk \<Rightarrow> bool \<Rightarrow> frame_message list
       \<Rightarrow> nat list \<Rightarrow> extractor \<Rightarrow> extractor" where
  "run_schedule w unz sha1 m target msgs = fold (advance w unz sha1 m target msgs)"

definition all_finished :: "frame_message list \<Rightarrow> extractor \<Rightarrow> bool" where
  "all_finished msgs s \<longleftrightarrow> list_all (\<lambda>k. xr_stage s k = Finished) [0..<length msgs]"

end
