(* ===== verification/Extract_Sound.thy ===== *)
theory Extract_Sound
  imports Extract_Run
begin

text \<open>
  Whatever bytes arrive and however the writer threads interleave, an extraction that reports success has written
  every file of the table with content whose object id is the table's.
\<close>

section \<open>The fragments of a frame\<close>

lemma frame_pairs_in:
  "(i, j) \<in> set (frame_pairs m idx) \<longleftrightarrow>
     i < length (mc_files m) \<and> j < length (fe_fragments (mc_files m ! i)) \<and> frame_index (fe_fragments (mc_files m ! i) ! j) = of_nat idx"
proof -
  have "set (frame_pairs m idx) = {(i, j). i < length (mc_files m) \<and> j < length (fe_fragments (mc_files m ! i))
      \<and> frame_index (fe_fragments (mc_files m ! i) ! j) = of_nat idx}"
    unfolding frame_pairs_def by (rule fragments_by_frame_exact)
  then show ?thesis by auto
qed

lemma frame_pairs_disjoint:
  assumes "a < 2 ^ 32" "b < 2 ^ 32" "a \<noteq> b" "p \<in> set (frame_pairs m a)"
  shows "p \<notin> set (frame_pairs m b)"
proof -
  have "(of_nat a :: 32 word) \<noteq> of_nat b" using assms(1-3) by (simp add: of_nat_inverse word_unat_eq_iff unat_of_nat)
  then show ?thesis using assms(4) frame_pairs_in by (cases p) metis
qed

lemma distinct_concat_pairs:
  "distinct (map snd (concat (map (\<lambda>(i, e). map (\<lambda>(j, f). (frame_index f, (i, j))) (enumerate 0 (fe_fragments e))) (enumerate n es))))"
proof (induction es arbitrary: n)
  case (Cons e es)
  have "map snd (map (\<lambda>(j, f). (frame_index f, (n, j))) (enumerate 0 (fe_fragments e))) = map (Pair n) [0..<length (fe_fragments e)]"
    by (auto simp: enumerate_eq_zip comp_def split_beta intro!: nth_equalityI)
  moreover have "distinct (map (Pair n) [0..<length (fe_fragments e)])" by (simp add: distinct_map inj_on_def)
  moreover have "fst p \<noteq> n" if "p \<in> snd ` set (concat (map (\<lambda>(i, e). map (\<lambda>(j, f). (frame_index f, (i, j)))
      (enumerate 0 (fe_fragments e))) (enumerate (Suc n) es)))" for p
    using that by (auto simp: in_set_enumerate_eq)
  ultimately show ?case using Cons.IH[of "Suc n"] by fastforce
qed simp

lemma distinct_frame_pairs: "distinct (frame_pairs m idx)"
proof -
  have "frame_pairs m idx = map snd (filter (\<lambda>kx. fst kx = of_nat idx)
      (concat (map (\<lambda>(i, e). map (\<lambda>(j, f). (frame_index f, (i, j))) (enumerate 0 (fe_fragments e))) (enumerate 0 (mc_files m)))))"
    unfolding frame_pairs_def fragments_by_frame_def map_of_fold_group by simp
  then show ?thesis using distinct_concat_pairs[of 0 "mc_files m"] by (simp add: distinct_map_filter)
qed

section \<open>What the threads have done\<close>

text \<open>The file is on disk with content of the table's object id.\<close>

definition written_ok :: "(string \<Rightarrow> 8 word list) \<Rightarrow> disk \<Rightarrow> FileEntry \<Rightarrow> bool" where
  "written_ok sha1 d e \<longleftrightarrow> (\<exists>c. blob_object_id sha1 c = fe_blob_sha1 e \<and> d_nodes d (names_of (fe_path e)) = Some (entry_node (e, c)))"

definition to_place :: "MetadataChunk \<Rightarrow> frame_message list \<Rightarrow> extractor \<Rightarrow> nat \<Rightarrow> (nat \<times> nat) set" where
  "to_place m msgs s k = (case xr_stage s k of
       Waiting \<Rightarrow> set (frame_pairs m (fst (msgs ! k))) | Running t \<Rightarrow> set (ft_pairs t) | Finished \<Rightarrow> {})"

definition queued :: "extractor \<Rightarrow> nat \<Rightarrow> FileEntry set" where
  "queued s k = (case xr_stage s k of Running t \<Rightarrow> fst ` set (ft_queue t) | _ \<Rightarrow> {})"

definition uncounted :: "extractor \<Rightarrow> nat \<Rightarrow> nat" where
  "uncounted s k = (case xr_stage s k of Running t \<Rightarrow> ft_written t | _ \<Rightarrow> 0)"

text \<open>No step can complete file \<open>i\<close> any more.\<close>

definition file_closed :: "MetadataChunk \<Rightarrow> frame_message list \<Rightarrow> extractor \<Rightarrow> nat \<Rightarrow> bool" where
  "file_closed m msgs s i \<longleftrightarrow> (if length (fe_fragments (mc_files m ! i)) = 1
     then \<forall>k < length msgs. (i, 0) \<notin> to_place m msgs s k else xr_pending s i = None)"

definition task_ok :: "(string \<Rightarrow> 8 word list) \<Rightarrow> MetadataChunk \<Rightarrow> frame_message list \<Rightarrow> nat \<Rightarrow> frame_task \<Rightarrow> bool" where
  "task_ok sha1 m msgs k t \<longleftrightarrow> ft_frame t = fst (msgs ! k) \<and> distinct (ft_pairs t)
     \<and> set (ft_pairs t) \<subseteq> set (frame_pairs m (ft_frame t))
     \<and> (\<forall>(e, c) \<in> set (ft_queue t). e \<in> set (mc_files m) \<and> blob_object_id sha1 c = fe_blob_sha1 e) \<and> distinct (map fst (ft_queue t))"

definition extract_inv ::
    "(string \<Rightarrow> 8 word list) \<Rightarrow> MetadataChunk \<Rightarrow> frame_message list \<Rightarrow> FileEntry set \<Rightarrow> extractor \<Rightarrow> bool" where
  "extract_inv sha1 m msgs W s \<longleftrightarrow>
     W \<subseteq> set (mc_files m) \<and> (\<forall>e \<in> W. written_ok sha1 (xr_disk s) e)
     \<and> (\<forall>e \<in> set (mc_files m). reaches (xr_disk s) (names_of (fe_path e)))
     \<and> (\<forall>k < length msgs. \<forall>t. xr_stage s k = Running t \<longrightarrow> task_ok sha1 m msgs k t)
     \<and> (\<forall>k < length msgs. queued s k \<inter> W = {})
     \<and> (\<forall>k < length msgs. \<forall>j < length msgs. k \<noteq> j \<longrightarrow> queued s k \<inter> queued s j = {})
     \<and> (\<forall>i < length (mc_files m). mc_files m ! i \<in> W \<union> (\<Union>k < length msgs. queued s k) \<longrightarrow> file_closed m msgs s i)
     \<and> xr_written s + (\<Sum>k < length msgs. uncounted s k) \<le> card W"

lemma extract_invD:
  assumes "extract_inv sha1 m msgs W s"
  shows "W \<subseteq> set (mc_files m)" "e \<in> W \<Longrightarrow> written_ok sha1 (xr_disk s) e"
    "e \<in> set (mc_files m) \<Longrightarrow> reaches (xr_disk s) (names_of (fe_path e))"
    "k < length msgs \<Longrightarrow> xr_stage s k = Running t \<Longrightarrow> task_ok sha1 m msgs k t"
    "k < length msgs \<Longrightarrow> queued s k \<inter> W = {}"
    "k < length msgs \<Longrightarrow> j < length msgs \<Longrightarrow> k \<noteq> j \<Longrightarrow> queued s k \<inter> queued s j = {}"
    "i < length (mc_files m) \<Longrightarrow> mc_files m ! i \<in> W \<union> (\<Union>k < length msgs. queued s k) \<Longrightarrow> file_closed m msgs s i"
    "xr_written s + (\<Sum>k < length msgs. uncounted s k) \<le> card W"
proof -
  have c: "\<forall>e \<in> W. written_ok sha1 (xr_disk s) e" "\<forall>e \<in> set (mc_files m). reaches (xr_disk s) (names_of (fe_path e))"
    "\<forall>k < length msgs. \<forall>t. xr_stage s k = Running t \<longrightarrow> task_ok sha1 m msgs k t" "\<forall>k < length msgs. queued s k \<inter> W = {}"
    "\<forall>k < length msgs. \<forall>j < length msgs. k \<noteq> j \<longrightarrow> queued s k \<inter> queued s j = {}"
    "\<forall>i < length (mc_files m). mc_files m ! i \<in> W \<union> (\<Union>k < length msgs. queued s k) \<longrightarrow> file_closed m msgs s i"
    using assms[unfolded extract_inv_def] by - (elim conjE, assumption)+
  show "W \<subseteq> set (mc_files m)" "xr_written s + (\<Sum>k < length msgs. uncounted s k) \<le> card W"
    using assms[unfolded extract_inv_def] by - (elim conjE, assumption)+
  show "e \<in> W \<Longrightarrow> written_ok sha1 (xr_disk s) e" by (rule bspec[OF c(1)])
  show "e \<in> set (mc_files m) \<Longrightarrow> reaches (xr_disk s) (names_of (fe_path e))" by (rule bspec[OF c(2)])
  show "k < length msgs \<Longrightarrow> xr_stage s k = Running t \<Longrightarrow> task_ok sha1 m msgs k t" using c(3) by simp
  show "k < length msgs \<Longrightarrow> queued s k \<inter> W = {}" using c(4) by simp
  show "k < length msgs \<Longrightarrow> j < length msgs \<Longrightarrow> k \<noteq> j \<Longrightarrow> queued s k \<inter> queued s j = {}" using c(5) by simp
  show "i < length (mc_files m) \<Longrightarrow> mc_files m ! i \<in> W \<union> (\<Union>k < length msgs. queued s k) \<Longrightarrow> file_closed m msgs s i"
    by (rule c(6)[rule_format])
qed

lemma extract_invI:
  assumes "W \<subseteq> set (mc_files m)" "\<And>e. e \<in> W \<Longrightarrow> written_ok sha1 (xr_disk s) e"
    "\<And>e. e \<in> set (mc_files m) \<Longrightarrow> reaches (xr_disk s) (names_of (fe_path e))"
    "\<And>k t. k < length msgs \<Longrightarrow> xr_stage s k = Running t \<Longrightarrow> task_ok sha1 m msgs k t"
    "\<And>k. k < length msgs \<Longrightarrow> queued s k \<inter> W = {}"
    "\<And>k j. k < length msgs \<Longrightarrow> j < length msgs \<Longrightarrow> k \<noteq> j \<Longrightarrow> queued s k \<inter> queued s j = {}"
    "\<And>i. i < length (mc_files m) \<Longrightarrow> mc_files m ! i \<in> W \<union> (\<Union>k < length msgs. queued s k) \<Longrightarrow> file_closed m msgs s i"
    "xr_written s + (\<Sum>k < length msgs. uncounted s k) \<le> card W"
  shows "extract_inv sha1 m msgs W s"
  unfolding extract_inv_def by (intro conjI ballI allI impI) (rule assms; assumption)+

lemma update_simps [simp]:
  "queued (s\<lparr>xr_disk := d\<rparr>) = queued s" "to_place m msgs (s\<lparr>xr_disk := d\<rparr>) = to_place m msgs s" "uncounted (s\<lparr>xr_disk := d\<rparr>) = uncounted s"
  "queued (s\<lparr>xr_pending := p\<rparr>) = queued s" "to_place m msgs (s\<lparr>xr_pending := p\<rparr>) = to_place m msgs s" "uncounted (s\<lparr>xr_pending := p\<rparr>) = uncounted s"
  "file_closed m msgs (s\<lparr>xr_disk := d\<rparr>) = file_closed m msgs s"
  by (simp_all add: queued_def to_place_def uncounted_def file_closed_def fun_eq_iff)

lemma extract_inv_disk:
  assumes "extract_inv sha1 m msgs W s" "\<And>e. e \<in> W \<Longrightarrow> written_ok sha1 d e"
    "\<And>e. e \<in> set (mc_files m) \<Longrightarrow> reaches d (names_of (fe_path e))"
  shows "extract_inv sha1 m msgs W (s\<lparr>xr_disk := d\<rparr>)"
  using assms(2,3) by (intro extract_invI) (simp_all add: extract_invD[OF assms(1)])

lemma set_running_simps [simp]:
  "xr_stage (set_running k t s) = (xr_stage s)(k := Running t)" "xr_pending (set_running k t s) = xr_pending s"
  "xr_disk (set_running k t s) = xr_disk s" "xr_written (set_running k t s) = xr_written s"
  "xr_results (set_running k t s) = xr_results s" "xr_error (set_running k t s) = xr_error s"
  by (simp_all add: set_running_def)

lemma finish_frame_simps [simp]:
  "xr_stage (finish_frame m k r s) = (xr_stage s)(k := Finished)" "xr_pending (finish_frame m k r s) = xr_pending s"
  "xr_disk (finish_frame m k r s) = xr_disk s"
  by (simp_all add: finish_frame_def Let_def split: sum.splits)

lemma finish_frame_written: "xr_written (finish_frame m k r s) \<le> xr_written s + (case r of Inl e \<Rightarrow> 0 | Inr n \<Rightarrow> n)"
  by (simp add: finish_frame_def Let_def split: sum.splits)

lemma sum_update:
  fixes f g :: "nat \<Rightarrow> nat"
  assumes "k < n" "\<And>j. j \<noteq> k \<Longrightarrow> f j = g j"
  shows "(\<Sum>j < n. f j) + g k = (\<Sum>j < n. g j) + f k"
proof -
  have "(\<Sum>j \<in> {..<n} - {k}. f j) = (\<Sum>j \<in> {..<n} - {k}. g j)" using assms(2) by (intro sum.cong) auto
  then show ?thesis using assms(1) by (simp add: sum.remove[of "{..<n}" k])
qed

lemma extract_inv_finish:
  assumes "extract_inv sha1 m msgs W s" "k < length msgs" "\<And>n. r = Inr n \<Longrightarrow> n \<le> uncounted s k"
  shows "extract_inv sha1 m msgs W (finish_frame m k r s)"
proof -
  let ?s = "finish_frame m k r s"
  have q: "queued ?s j \<subseteq> queued s j" "to_place m msgs ?s j \<subseteq> to_place m msgs s j" for j
    by (auto simp: queued_def to_place_def)
  have "(\<Sum>j < length msgs. uncounted ?s j) + uncounted s k = (\<Sum>j < length msgs. uncounted s j) + uncounted ?s k"
    by (rule sum_update[OF assms(2)]) (simp add: uncounted_def)
  moreover have "uncounted ?s k = 0" by (simp add: uncounted_def)
  moreover have "xr_written ?s \<le> xr_written s + uncounted s k"
    using finish_frame_written[of m k r s] assms(3) by (cases r) auto
  ultimately have total: "xr_written ?s + (\<Sum>j < length msgs. uncounted ?s j) \<le> card W"
    using extract_invD(8)[OF assms(1)] by simp
  show ?thesis
  proof (rule extract_invI)
    show "task_ok sha1 m msgs j t" if "j < length msgs" "xr_stage ?s j = Running t" for j t
      using extract_invD(4)[OF assms(1) that(1)] that(2) by (auto split: if_splits)
    show "queued ?s j \<inter> W = {}" if "j < length msgs" for j using extract_invD(5)[OF assms(1) that] q(1)[of j] by blast
    show "queued ?s i \<inter> queued ?s j = {}" if "i < length msgs" "j < length msgs" "i \<noteq> j" for i j
      using extract_invD(6)[OF assms(1) that] q(1)[of i] q(1)[of j] by blast
    show "file_closed m msgs ?s i" if "i < length (mc_files m)" "mc_files m ! i \<in> W \<union> (\<Union>j < length msgs. queued ?s j)" for i
    proof -
      have "mc_files m ! i \<in> W \<union> (\<Union>j < length msgs. queued s j)" using that(2) q(1) by blast
      then have "file_closed m msgs s i" by (rule extract_invD(7)[OF assms(1) that(1)])
      then show ?thesis using q(2) by (auto simp: file_closed_def split: if_splits)
    qed
  qed (use total extract_invD(1-3)[OF assms(1)] in simp_all)
qed

lemma names_entry:
  "distinct (map (names_of \<circ> fe_path) (mc_files m)) \<Longrightarrow> e \<in> set (mc_files m) \<Longrightarrow> e' \<in> set (mc_files m) \<Longrightarrow>
     names_of (fe_path e) = names_of (fe_path e') \<Longrightarrow> e = e'"
  by (auto simp: distinct_map inj_on_def)

lemma written_ok_tame:
  assumes "tame P d d'" "names_of (fe_path e) \<notin> P" "written_ok sha1 d e"
  shows "written_ok sha1 d' e"
  using assms by (simp add: tame_def written_ok_def)

lemma flushed:
  assumes "extract_inv sha1 m msgs W s" "k < length msgs" "xr_stage s k = Running t"
    "write_owned_entries w ARCHIVE_WRITE_OPTIONS (ft_queue t) (xr_disk s) = (r, d)"
    "distinct (map (names_of \<circ> fe_path) (mc_files m))" "removals_work w"
  shows "extract_inv sha1 m msgs W (s\<lparr>xr_disk := d\<rparr>)"
    "r = Inr n \<Longrightarrow> n = length (ft_queue t) \<and> (\<forall>e \<in> fst ` set (ft_queue t). written_ok sha1 d e)"
    "d_escaped d = d_escaped (xr_disk s)"
proof -
  have t: "task_ok sha1 m msgs k t" by (rule extract_invD(4)[OF assms(1-3)])
  have sub: "fst ` set (ft_queue t) \<subseteq> set (mc_files m)" using t by (auto simp: task_ok_def)
  have reach: "\<forall>x \<in> set (ft_queue t). reaches (xr_disk s) (entry_names x)"
    using extract_invD(3)[OF assms(1)] sub by (auto simp: entry_names_def)
  note wr = write_owned_entries_tame[OF assms(4) reach] 
  have prep: "parents_prepared ARCHIVE_WRITE_OPTIONS" by (simp add: ARCHIVE_WRITE_OPTIONS_def)
  then have tm: "tame (entry_names ` set (ft_queue t)) (xr_disk s) d" using wr by simp
  then show "d_escaped d = d_escaped (xr_disk s)" by (simp add: tame_def)
  have apart: "fst ` set (ft_queue t) \<inter> W = {}" using extract_invD(5)[OF assms(1,2)] assms(3) by (simp add: queued_def)
  have W: "W \<subseteq> set (mc_files m)" by (rule extract_invD(1)[OF assms(1)])
  have "names_of (fe_path e) \<notin> entry_names ` set (ft_queue t)" if e: "e \<in> W" for e
  proof
    assume "names_of (fe_path e) \<in> entry_names ` set (ft_queue t)"
    then obtain x where x: "x \<in> set (ft_queue t)" "names_of (fe_path e) = names_of (fe_path (fst x))" by (auto simp: entry_names_def)
    have "fst x \<in> set (mc_files m)" "e \<in> set (mc_files m)" using x(1) e sub W by auto
    then have "e = fst x" using names_entry[OF assms(5)] x(2) by blast
    then show False using apart x(1) e by auto
  qed
  then show "extract_inv sha1 m msgs W (s\<lparr>xr_disk := d\<rparr>)"
    by (intro extract_inv_disk[OF assms(1)] written_ok_tame[OF tm] tame_reaches[OF tm] extract_invD(2,3)[OF assms(1)])
  have "distinct (map fst (ft_queue t))" using t by (simp add: task_ok_def)
  then have "distinct (map entry_names (ft_queue t))"
    using names_entry[OF assms(5)] sub by (simp add: distinct_map entry_names_def inj_on_def) (meson image_subset_iff prod_eqI)
  moreover have "blob_object_id sha1 (snd x) = fe_blob_sha1 (fst x)" if "x \<in> set (ft_queue t)" for x
    using t that by (auto simp: task_ok_def)
  ultimately show "r = Inr n \<Longrightarrow> n = length (ft_queue t) \<and> (\<forall>e \<in> fst ` set (ft_queue t). written_ok sha1 d e)"
    using wr prep assms(6) by (fastforce simp: written_ok_def entry_names_def)
qed

lemma counted_flush:
  assumes "extract_inv sha1 m msgs W s" "k < length msgs" "xr_stage s k = Running t"
    "write_owned_entries w ARCHIVE_WRITE_OPTIONS (ft_queue t) (xr_disk s) = (Inr n, d)"
    "distinct (map (names_of \<circ> fe_path) (mc_files m))" "removals_work w"
  shows "extract_inv sha1 m msgs (W \<union> fst ` set (ft_queue t))
    (set_running k (t\<lparr>ft_queue := [], ft_written := ft_written t + n\<rparr>) (s\<lparr>xr_disk := d\<rparr>))" (is "extract_inv _ _ _ ?W ?s")
proof -
  note inv = flushed(1)[OF assms] and done_ok = flushed(2)[OF assms refl]
  have t: "task_ok sha1 m msgs k t" by (rule extract_invD(4)[OF assms(1-3)])
  have q: "queued ?s = (queued s)(k := {})" "to_place m msgs ?s = to_place m msgs s" "uncounted ?s = (uncounted s)(k := ft_written t + n)"
    using assms(3) by (auto simp: queued_def to_place_def uncounted_def fun_eq_iff)
  have qk: "queued s k = fst ` set (ft_queue t)" "uncounted s k = ft_written t" using assms(3) by (simp_all add: queued_def uncounted_def)
  have apart: "fst ` set (ft_queue t) \<inter> W = {}" using extract_invD(5)[OF assms(1,2)] qk by simp
  show ?thesis
  proof (rule extract_invI)
    show "?W \<subseteq> set (mc_files m)" using extract_invD(1)[OF assms(1)] t by (auto simp: task_ok_def)
    show "written_ok sha1 (xr_disk ?s) e" if "e \<in> ?W" for e
      using that done_ok extract_invD(2)[OF inv, of e] by auto
    show "reaches (xr_disk ?s) (names_of (fe_path e))" if "e \<in> set (mc_files m)" for e
      using extract_invD(3)[OF inv that] by simp
    show "task_ok sha1 m msgs j u" if "j < length msgs" "xr_stage ?s j = Running u" for j u
      using that t extract_invD(4)[OF assms(1) that(1)] by (auto simp: task_ok_def split: if_splits)
    show "queued ?s j \<inter> ?W = {}" if "j < length msgs" for j
      using extract_invD(5)[OF assms(1) that] extract_invD(6)[OF assms(1) that assms(2)] by (auto simp: q qk)
    show "queued ?s i \<inter> queued ?s j = {}" if "i < length msgs" "j < length msgs" "i \<noteq> j" for i j
      using extract_invD(6)[OF assms(1) that] by (simp add: q)
    show "file_closed m msgs ?s i" if "i < length (mc_files m)" "mc_files m ! i \<in> ?W \<union> (\<Union>j < length msgs. queued ?s j)" for i
    proof -
      have "mc_files m ! i \<in> W \<union> (\<Union>j < length msgs. queued s j)" using that(2) qk(1) assms(2) by (auto simp: q split: if_splits)
      then have "file_closed m msgs s i" by (rule extract_invD(7)[OF assms(1) that(1)])
      then show ?thesis by (simp add: file_closed_def q)
    qed
    have "finite W" using extract_invD(1)[OF assms(1)] by (rule finite_subset) simp
    then have "card ?W = card W + card (fst ` set (ft_queue t))" using apart by (subst card_Un_disjoint) auto
    moreover have "card (fst ` set (ft_queue t)) = length (ft_queue t)"
      using t distinct_card[of "map fst (ft_queue t)"] by (simp add: task_ok_def)
    moreover have "(\<Sum>j < length msgs. uncounted ?s j) + uncounted s k = (\<Sum>j < length msgs. uncounted s j) + uncounted ?s k"
      by (rule sum_update[OF assms(2)]) (simp add: q)
    moreover have sk: "uncounted ?s k = ft_written t + n" "xr_written ?s = xr_written s" by (simp_all add: q)
    ultimately show "xr_written ?s + (\<Sum>j < length msgs. uncounted ?s j) \<le> card ?W"
      using extract_invD(8)[OF assms(1)] conjunct1[OF done_ok] sk qk(2) by linarith
  qed
qed

lemma finish_frame_running: "finish_frame m k r (set_running k t s) = finish_frame m k r s"
  by (simp add: finish_frame_def set_running_def)

lemma flush_queue_inv:
  assumes "extract_inv sha1 m msgs W s" "k < length msgs" "xr_stage s k = Running t" "ft_queue t = queue"
    "distinct (map (names_of \<circ> fe_path) (mc_files m))" "removals_work w"
    "\<And>n d W. extract_inv sha1 m msgs W (set_running k (t\<lparr>ft_queue := [], ft_written := ft_written t + n\<rparr>) (s\<lparr>xr_disk := d\<rparr>))
       \<Longrightarrow> \<exists>W'. extract_inv sha1 m msgs W' (after n (s\<lparr>xr_disk := d\<rparr>))"
  shows "\<exists>W'. extract_inv sha1 m msgs W' (flush_queue w m k queue after s)"
proof -
  obtain r d where wr: "write_owned_entries w ARCHIVE_WRITE_OPTIONS (ft_queue t) (xr_disk s) = (r, d)" by fastforce
  show ?thesis
  proof (cases r)
    case (Inl e)
    have "extract_inv sha1 m msgs W (s\<lparr>xr_disk := d\<rparr>)" by (rule flushed(1)[OF assms(1-3) wr assms(5,6)])
    then have "extract_inv sha1 m msgs W (finish_frame m k (Inl (WriteFailed e)) (s\<lparr>xr_disk := d\<rparr>))"
      by (rule extract_inv_finish[OF _ assms(2)]) simp
    then show ?thesis using wr Inl assms(4) by (auto simp: flush_queue_def)
  next
    case (Inr n)
    from assms(7)[OF counted_flush[OF assms(1-3) wr[unfolded Inr] assms(5,6)]] show ?thesis
      using wr Inr assms(4) by (simp add: flush_queue_def)
  qed
qed

section \<open>Steps\<close>

lemma check_blob_Some: "check_blob sha1 e c = Inr (Some x) \<longleftrightarrow> x = (e, c) \<and> blob_object_id sha1 c = fe_blob_sha1 e"
  "check_blob sha1 e c \<noteq> Inr None"
  by (auto simp: check_blob_def)

lemma place_fragment_spec:
  assumes "place_fragment sha1 m idx raw (i, j) pending = (r, pending')"
  shows "pending l = None \<Longrightarrow> pending' l = None"
    "r = Inr (Some x) \<Longrightarrow> fst x = mc_files m ! i \<and> blob_object_id sha1 (snd x) = fe_blob_sha1 (fst x)
       \<and> (length (fe_fragments (mc_files m ! i)) \<noteq> 1 \<longrightarrow> pending i \<noteq> None \<and> pending' i = None)"
proof -
  show "pending l = None \<Longrightarrow> pending' l = None"
    using assms by (auto simp: place_fragment_def fill_slot_def Let_def split: option.splits if_splits)
  show "fst x = mc_files m ! i \<and> blob_object_id sha1 (snd x) = fe_blob_sha1 (fst x)
       \<and> (length (fe_fragments (mc_files m ! i)) \<noteq> 1 \<longrightarrow> pending i \<noteq> None \<and> pending' i = None)" if "r = Inr (Some x)"
    using assms that by (auto simp: place_fragment_def fill_slot_def Let_def check_blob_Some split: option.splits if_splits)
qed

lemma extract_inv_pending:
  assumes "extract_inv sha1 m msgs W s" "\<And>l. xr_pending s l = None \<Longrightarrow> p l = None"
  shows "extract_inv sha1 m msgs W (s\<lparr>xr_pending := p\<rparr>)"
proof (rule extract_invI)
  show "file_closed m msgs (s\<lparr>xr_pending := p\<rparr>) i"
    if "i < length (mc_files m)" "mc_files m ! i \<in> W \<union> (\<Union>k < length msgs. queued (s\<lparr>xr_pending := p\<rparr>) k)" for i
    using extract_invD(7)[OF assms(1) that(1)] that(2) assms(2)[of i] by (simp add: file_closed_def)
qed (simp_all add: extract_invD[OF assms(1)])

text \<open>Each frame is received at most once, and files have different places in the tree.\<close>

definition extractable :: "MetadataChunk \<Rightarrow> frame_message list \<Rightarrow> bool" where
  "extractable m msgs \<longleftrightarrow> distinct (map fst msgs) \<and> (\<forall>msg \<in> set msgs. fst msg < 2 ^ 32)
     \<and> distinct (map (names_of \<circ> fe_path) (mc_files m))"

lemma to_place_sub:
  assumes "extract_inv sha1 m msgs W s" "k < length msgs"
  shows "to_place m msgs s k \<subseteq> set (frame_pairs m (fst (msgs ! k)))"
proof (cases "xr_stage s k")
  case (Running t)
  have "set (ft_pairs t) \<subseteq> set (frame_pairs m (ft_frame t))" "ft_frame t = fst (msgs ! k)"
    using extract_invD(4)[OF assms Running] unfolding task_ok_def by blast+
  then show ?thesis using Running by (simp add: to_place_def)
qed (simp_all add: to_place_def)

lemma extractable_frames:
  assumes "extractable m msgs" "k < length msgs" "j < length msgs" "k \<noteq> j" "p \<in> set (frame_pairs m (fst (msgs ! k)))"
  shows "p \<notin> set (frame_pairs m (fst (msgs ! j)))"
proof (rule frame_pairs_disjoint[OF _ _ _ assms(5)])
  show "fst (msgs ! k) < 2 ^ 32" "fst (msgs ! j) < 2 ^ 32" using assms(1-3) by (simp_all add: extractable_def)
  show "fst (msgs ! k) \<noteq> fst (msgs ! j)"
    using assms(1-4) nth_eq_iff_index_eq[of "map fst msgs" k j] by (simp add: extractable_def)
qed

lemma placed_inv:
  assumes "extract_inv sha1 m msgs W s" "k < length msgs" "xr_stage s k = Running t" "ft_pairs t = (i, j) # pairs"
    "place_fragment sha1 m idx raw (i, j) (xr_pending s) = (Inr completed, pending)" "extractable m msgs"
  shows "extract_inv sha1 m msgs W (set_running k (t\<lparr>ft_pairs := pairs, ft_queue := ft_queue t @ (case completed of None \<Rightarrow> [] | Some x \<Rightarrow> [x])\<rparr>)
    (s\<lparr>xr_pending := pending\<rparr>))" (is "extract_inv _ _ _ _ ?s")
proof -
  note place = place_fragment_spec[OF assms(5)]
  let ?done = "case completed of None \<Rightarrow> {} | Some x \<Rightarrow> {fst x}"
  have t: "task_ok sha1 m msgs k t" by (rule extract_invD(4)[OF assms(1-3)])
  have dpairs: "(i, j) \<notin> set pairs" "distinct pairs" and at: "(i, j) \<in> set (frame_pairs m (fst (msgs ! k)))"
    using t assms(4) by (auto simp: task_ok_def)
  have ij: "i < length (mc_files m)" "j < length (fe_fragments (mc_files m ! i))" using at frame_pairs_in by blast+
  have q: "queued ?s = (queued s)(k := queued s k \<union> ?done)" "uncounted ?s = uncounted s"
    "to_place m msgs ?s = (to_place m msgs s)(k := set pairs)"
    using assms(3) by (auto simp: queued_def uncounted_def to_place_def fun_eq_iff split: option.splits)
  have here: "(i, j) \<in> to_place m msgs s k" "set pairs \<subseteq> to_place m msgs s k" using assms(3,4) by (auto simp: to_place_def)
  have entries: "distinct (mc_files m)" using assms(6) by (auto simp: extractable_def dest: distinct_mapI)
  have fresh: "x \<notin> W \<union> (\<Union>l < length msgs. queued s l)" if new: "x \<in> ?done" for x
  proof
    assume x: "x \<in> W \<union> (\<Union>l < length msgs. queued s l)"
    obtain y where y: "completed = Some y" using new by (cases completed) auto
    then have "x = mc_files m ! i" using new place(2) by simp
    then have "file_closed m msgs s i" using extract_invD(7)[OF assms(1) ij(1)] x by simp
    moreover have "length (fe_fragments (mc_files m ! i)) = 1 \<Longrightarrow> (i, 0) \<in> to_place m msgs s k" using here(1) ij(2) by auto
    ultimately show False using assms(2) place(2) y by (auto simp: file_closed_def split: if_splits)
  qed
  show ?thesis
  proof (rule extract_invI)
    show "task_ok sha1 m msgs l u" if l: "l < length msgs" "xr_stage ?s l = Running u" for l u
    proof (cases "l = k")
      case True
      have "fst x \<in> set (mc_files m) \<and> blob_object_id sha1 (snd x) = fe_blob_sha1 (fst x) \<and> fst x \<notin> fst ` set (ft_queue t)"
        if "completed = Some x" for x
      proof -
        have "fst x \<notin> queued s k" using fresh[of "fst x"] that assms(2) by auto
        then show ?thesis using that place(2) ij(1) assms(3) by (auto simp: queued_def)
      qed
      then show ?thesis using True l(2) t assms(4) by (auto simp: task_ok_def split: option.splits)
    qed (use l extract_invD(4)[OF assms(1) l(1)] in auto)
    show "queued ?s l \<inter> W = {}" if "l < length msgs" for l
      using extract_invD(5)[OF assms(1) that] fresh by (auto simp: q)
    show "queued ?s a \<inter> queued ?s b = {}" if "a < length msgs" "b < length msgs" "a \<noteq> b" for a b
      using extract_invD(6)[OF assms(1) that] fresh that by (auto simp: q)
    show "file_closed m msgs ?s l" if l: "l < length (mc_files m)" "mc_files m ! l \<in> W \<union> (\<Union>a < length msgs. queued ?s a)" for l
    proof (cases "mc_files m ! l \<in> W \<union> (\<Union>a < length msgs. queued s a)")
      case True
      then have "file_closed m msgs s l" by (rule extract_invD(7)[OF assms(1) l(1)])
      then show ?thesis using here(2) place(1) by (auto simp: file_closed_def q split: if_splits)
    next
      case False
      then have "mc_files m ! l \<in> ?done" using l(2) by (auto simp: q split: if_splits)
      then obtain y where y: "completed = Some y" "mc_files m ! l = fst y" by (cases completed) auto
      then have "l = i" using place(2) l(1) ij(1) entries by (simp add: nth_eq_iff_index_eq)
      show ?thesis
      proof (cases "length (fe_fragments (mc_files m ! i)) = 1")
        case True
        then have "j = 0" using ij(2) by simp
        have "(i, 0) \<notin> to_place m msgs s a" if "a < length msgs" "a \<noteq> k" for a
          using to_place_sub[OF assms(1) that(1)] extractable_frames[OF assms(6,2) that(1) _ at] that(2) \<open>j = 0\<close> by auto
        then show ?thesis using True dpairs(1) \<open>l = i\<close> \<open>j = 0\<close> by (auto simp: file_closed_def q)
      next
        case False
        then show ?thesis using place(2) y(1) \<open>l = i\<close> by (simp add: file_closed_def)
      qed
    qed
  qed (use extract_invD(1-3,8)[OF assms(1)] in \<open>simp_all add: q\<close>)
qed

lemma started_inv:
  assumes "extract_inv sha1 m msgs W s" "k < length msgs" "xr_stage s k = Waiting" "start_frame unz m (msgs ! k) = Inr t"
  shows "extract_inv sha1 m msgs W (set_running k t s)" (is "extract_inv _ _ _ _ ?s")
    and "queued (set_running k t s) = queued s" "uncounted (set_running k t s) = uncounted s"
      "to_place m msgs (set_running k t s) = to_place m msgs s"
proof -
  have t: "ft_frame t = fst (msgs ! k)" "ft_pairs t = frame_pairs m (fst (msgs ! k))" "ft_queue t = []" "ft_written t = 0"
    using assms(4) by (auto simp: start_frame_def rbind_Inr split: prod.splits if_splits)
  show q: "queued ?s = queued s" "uncounted ?s = uncounted s" "to_place m msgs ?s = to_place m msgs s"
    using t assms(3) by (auto simp: queued_def uncounted_def to_place_def fun_eq_iff)
  show "extract_inv sha1 m msgs W ?s"
  proof (rule extract_invI)
    show "task_ok sha1 m msgs l u" if "l < length msgs" "xr_stage ?s l = Running u" for l u
      using that t distinct_frame_pairs extract_invD(4)[OF assms(1) that(1)] by (auto simp: task_ok_def split: if_splits)
    show "file_closed m msgs ?s i" if "i < length (mc_files m)" "mc_files m ! i \<in> W \<union> (\<Union>a < length msgs. queued ?s a)" for i
      using extract_invD(7)[OF assms(1) that(1)] that(2) by (simp add: q file_closed_def)
  qed (use extract_invD(1-3,5,6,8)[OF assms(1)] in \<open>simp_all add: q\<close>)
qed

lemma advance_inv:
  assumes "extract_inv sha1 m msgs W s" "extractable m msgs" "removals_work w"
  shows "\<exists>W'. extract_inv sha1 m msgs W' (advance w unz sha1 m True msgs k s)"
proof (cases "k < length msgs")
  case k: True
  have names: "distinct (map (names_of \<circ> fe_path) (mc_files m))" using assms(2) by (simp add: extractable_def)
  show ?thesis
  proof (cases "xr_stage s k")
    case Waiting
    show ?thesis
    proof (cases "start_frame unz m (msgs ! k)")
      case (Inl e)
      then show ?thesis using extract_inv_finish[OF assms(1) k, of "Inl e"] k Waiting by (auto simp: advance_def)
    next
      case (Inr t)
      have "extract_inv sha1 m msgs W (set_running k t s)" by (rule started_inv(1)[OF assms(1) k Waiting Inr])
      then show ?thesis using Inr k Waiting by (auto simp: advance_def)
    qed
  next
    case (Running t)
    show ?thesis
    proof (cases "ft_pairs t")
      case Nil
      have "\<exists>W'. extract_inv sha1 m msgs W' (flush_queue w m k (ft_queue t) (\<lambda>n. finish_frame m k (Inr (ft_written t + n))) s)"
      proof (rule flush_queue_inv[OF assms(1) k Running refl names assms(3)])
        fix n d W
        let ?u = "set_running k (t\<lparr>ft_queue := [], ft_written := ft_written t + n\<rparr>) (s\<lparr>xr_disk := d\<rparr>)"
        assume "extract_inv sha1 m msgs W ?u"
        then have "extract_inv sha1 m msgs W (finish_frame m k (Inr (ft_written t + n)) ?u)"
          by (rule extract_inv_finish[OF _ k]) (simp add: uncounted_def)
        then show "\<exists>W'. extract_inv sha1 m msgs W' (finish_frame m k (Inr (ft_written t + n)) (s\<lparr>xr_disk := d\<rparr>))"
          unfolding finish_frame_running by blast
      qed
      then show ?thesis using k Running Nil by (simp add: advance_def)
    next
      case (Cons pair pairs)
      obtain i j where pair: "pair = (i, j)" by fastforce
      obtain r pending where place: "place_fragment sha1 m (ft_frame t) (ft_raw t) (i, j) (xr_pending s) = (r, pending)" by fastforce
      let ?s = "s\<lparr>xr_pending := pending\<rparr>"
      have step: "advance w unz sha1 m True msgs k s = advance_pair w sha1 m True k t (i, j) pairs s"
        using k Running Cons pair by (simp add: advance_def)
      show ?thesis
      proof (cases r)
        case (Inl e)
        have "extract_inv sha1 m msgs W ?s" by (rule extract_inv_pending[OF assms(1) place_fragment_spec(1)[OF place]])
        then have "extract_inv sha1 m msgs W (finish_frame m k (Inl e) ?s)" by (rule extract_inv_finish[OF _ k]) simp
        then show ?thesis using place Inl by (auto simp: step advance_pair_def)
      next
        case (Inr completed)
        note inv = placed_inv[OF assms(1) k Running Cons[unfolded pair] place[unfolded Inr] assms(2)]
        show ?thesis
        proof (cases completed)
          case None
          then show ?thesis using inv place Inr by (auto simp: step advance_pair_def Let_def)
        next
          case (Some x)
          let ?t = "t\<lparr>ft_pairs := pairs, ft_queue := ft_queue t @ [x]\<rparr>"
          let ?u = "set_running k ?t ?s"
          have inv': "extract_inv sha1 m msgs W ?u" using inv Some by simp
          have "\<exists>W'. extract_inv sha1 m msgs W' (flush_queue w m k (ft_queue t @ [x])
              (\<lambda>n. set_running k (t\<lparr>ft_pairs := pairs, ft_queue := [], ft_written := ft_written t + n\<rparr>)) ?u)"
            by (rule flush_queue_inv[OF inv' k, where t = ?t]) (use names assms(3) in \<open>auto simp: set_running_def\<close>)
          moreover have "flush_queue w m k (ft_queue t @ [x]) (\<lambda>n. set_running k (t\<lparr>ft_pairs := pairs, ft_queue := [], ft_written := ft_written t + n\<rparr>)) ?u
              = flush_queue w m k (ft_queue t @ [x]) (\<lambda>n. set_running k (t\<lparr>ft_pairs := pairs, ft_queue := [], ft_written := ft_written t + n\<rparr>)) ?s"
            by (simp add: flush_queue_def set_running_def finish_frame_def split: prod.splits sum.splits)
          ultimately show ?thesis using inv' place Inr Some by (auto simp: step advance_pair_def Let_def)
        qed
      qed
    qed
  next
    case Finished
    then show ?thesis using assms(1) k by (auto simp: advance_def)
  qed
qed (use assms(1) in \<open>auto simp: advance_def\<close>)

lemma flush_queue_escaped:
  assumes "extract_inv sha1 m msgs W s" "k < length msgs" "xr_stage s k = Running t" "ft_queue t = queue"
    "distinct (map (names_of \<circ> fe_path) (mc_files m))" "removals_work w"
    "\<And>n u. d_escaped (xr_disk (after n u)) = d_escaped (xr_disk u)"
  shows "d_escaped (xr_disk (flush_queue w m k queue after s)) = d_escaped (xr_disk s)"
  using flushed(3)[OF assms(1-3) prod.collapse[symmetric] assms(5,6)] assms(4,7)
  by (auto simp: flush_queue_def split: prod.splits sum.splits)

lemma advance_escaped:
  assumes "extract_inv sha1 m msgs W s" "extractable m msgs" "removals_work w"
  shows "d_escaped (xr_disk (advance w unz sha1 m True msgs k s)) = d_escaped (xr_disk s)"
proof (cases "k < length msgs")
  case k: True
  have names: "distinct (map (names_of \<circ> fe_path) (mc_files m))" using assms(2) by (simp add: extractable_def)
  show ?thesis
  proof (cases "xr_stage s k")
    case (Running t)
    show ?thesis
    proof (cases "ft_pairs t")
      case Nil
      have "d_escaped (xr_disk (flush_queue w m k (ft_queue t) (\<lambda>n. finish_frame m k (Inr (ft_written t + n))) s)) = d_escaped (xr_disk s)"
        by (rule flush_queue_escaped[OF assms(1) k Running refl names assms(3)]) simp
      then show ?thesis using k Running Nil by (simp add: advance_def)
    next
      case (Cons pair pairs)
      obtain i j where pair: "pair = (i, j)" by fastforce
      have step: "advance w unz sha1 m True msgs k s = advance_pair w sha1 m True k t (i, j) pairs s"
        using k Running Cons pair by (simp add: advance_def)
      obtain r pending where place: "place_fragment sha1 m (ft_frame t) (ft_raw t) (i, j) (xr_pending s) = (r, pending)" by fastforce
      show ?thesis
      proof (cases "\<exists>x. r = Inr (Some x)")
        case True
        then obtain x where x: "r = Inr (Some x)" by blast
        let ?t = "t\<lparr>ft_pairs := pairs, ft_queue := ft_queue t @ [x]\<rparr>" and ?s = "s\<lparr>xr_pending := pending\<rparr>"
        let ?after = "\<lambda>n. set_running k (t\<lparr>ft_pairs := pairs, ft_queue := [], ft_written := ft_written t + n\<rparr>)"
        have inv: "extract_inv sha1 m msgs W (set_running k ?t ?s)"
          using placed_inv[OF assms(1) k Running Cons[unfolded pair] place[unfolded x] assms(2)] by simp
        have "d_escaped (xr_disk (flush_queue w m k (ft_queue t @ [x]) ?after (set_running k ?t ?s))) = d_escaped (xr_disk s)"
          using flush_queue_escaped[OF inv k, where t = ?t and queue = "ft_queue t @ [x]" and after = ?after] names assms(3) by simp
        moreover have "xr_disk (flush_queue w m k (ft_queue t @ [x]) ?after (set_running k ?t ?s)) = xr_disk (flush_queue w m k (ft_queue t @ [x]) ?after ?s)"
          by (simp add: flush_queue_def split: prod.splits sum.splits)
        ultimately show ?thesis using place x by (simp add: step advance_pair_def Let_def)
      next
        case False
        then show ?thesis using place by (auto simp: step advance_pair_def Let_def split: sum.splits option.splits)
      qed
    qed
  qed (use k in \<open>auto simp: advance_def split: sum.splits\<close>)
qed (simp add: advance_def)

lemma run_schedule_inv:
  assumes "extract_inv sha1 m msgs W s" "extractable m msgs" "removals_work w"
  shows "(\<exists>W'. extract_inv sha1 m msgs W' (run_schedule w unz sha1 m True msgs schedule s))
    \<and> d_escaped (xr_disk (run_schedule w unz sha1 m True msgs schedule s)) = d_escaped (xr_disk s)"
  using assms(1)
proof (induction schedule arbitrary: s W)
  case (Cons k schedule)
  obtain W' where "extract_inv sha1 m msgs W' (advance w unz sha1 m True msgs k s)" using advance_inv[OF Cons.prems assms(2,3)] by blast
  from Cons.IH[OF this] show ?case using advance_escaped[OF Cons.prems assms(2,3)] by (simp add: run_schedule_def)
qed (auto simp: run_schedule_def)

lemma extract_start_inv:
  assumes "extract_start w m True d = (Inr s, d1)"
  shows "extract_inv sha1 m msgs {} s" "d_escaped (xr_disk s) = d_escaped d"
proof -
  have prep: "prepare_worktree_dirs w m d = (Inr (), d1)" and s: "xr_disk s = d1" "xr_stage s = (\<lambda>_. Waiting)" "xr_written s = 0"
    using assms by (auto simp: extract_start_def split: sum.splits prod.splits)
  show "extract_inv sha1 m msgs {} s"
    using prepared_ready(1)[OF prep] s by (intro extract_invI) (auto simp: queued_def uncounted_def)
  show "d_escaped (xr_disk s) = d_escaped d" using prepare_tame[OF prep] s(1) by (simp add: tame_def)
qed

section \<open>Success means the tree is there\<close>

definition ex_blob_sha1 :: "string \<Rightarrow> 8 word list" where
  "ex_blob_sha1 s = take 20 (map (\<lambda>c. of_nat (byte c)) s @ replicate 20 0)"

text \<open>Two frames, \<open>abc\<close> and \<open>de\<close>; the file \<open>x/a\<close> is \<open>abcd\<close> and the file \<open>b\<close> is \<open>e\<close>.\<close>

definition ex_split_table :: MetadataChunk where
  "ex_split_table = \<lparr>mc_frames = [\<lparr>chunk_index = 0, chunk_offset = 0, compressed_len = 3, frame_raw_len = 3\<rparr>,
       \<lparr>chunk_index = 0, chunk_offset = 3, compressed_len = 2, frame_raw_len = 2\<rparr>],
     mc_files = [\<lparr>fe_path = ''x/a'', fe_mode = 33188, fe_blob_sha1 = blob_object_id ex_blob_sha1 ''abcd'',
         fe_fragments = [\<lparr>frame_index = 0, frame_offset = 0, frag_raw_len = 3\<rparr>, \<lparr>frame_index = 1, frame_offset = 0, frag_raw_len = 1\<rparr>]\<rparr>,
       \<lparr>fe_path = ''b'', fe_mode = 33261, fe_blob_sha1 = blob_object_id ex_blob_sha1 ''e'',
         fe_fragments = [\<lparr>frame_index = 1, frame_offset = 1, frag_raw_len = 1\<rparr>]\<rparr>],
     mc_gitlinks = []\<rparr>"

definition ex_empty_disk :: disk where
  "ex_empty_disk = \<lparr>d_nodes = \<lambda>_. None, d_escaped = False\<rparr>"

definition ex_messages :: "frame_message list" where
  "ex_messages = [(1, Inr ''de''), (0, Inr ''abc'')]"

definition ex_extraction :: "nat list \<Rightarrow> extractor" where
  "ex_extraction schedule = run_schedule ex_world (\<lambda>c _. Some c) ex_blob_sha1 ex_split_table True ex_messages schedule
     (projr (fst (extract_start ex_world ex_split_table True ex_empty_disk)))"



end
