(* ===== verification/Extract_Complete.thy ===== *)
theory Extract_Complete
  imports Extract_Sound Archive_Frags
begin

text \<open>
  Given the bytes of an archive's frames, a tree git could hold and a directory with nothing in it, every
  interleaving of the writer threads extracts the archive: no step fails, the threads end, and the files hold exactly
  the bytes of their fragments.
\<close>

section \<open>Writing where nothing is\<close>

definition nothing_fails :: "world \<Rightarrow> bool" where
  "nothing_fails w \<longleftrightarrow> (\<forall>op p. \<not> w_fails w op p)"

lemma nothing_fails_removals: "nothing_fails w \<Longrightarrow> removals_work w"
  by (simp add: nothing_fails_def removals_work_def)

definition vacant :: "disk \<Rightarrow> names \<Rightarrow> bool" where
  "vacant d p \<longleftrightarrow> reaches d p \<and> d_nodes d p = None \<and> p \<noteq> []"

lemma vacant_tame: "tame P d d' \<Longrightarrow> vacant d p \<Longrightarrow> p \<notin> P \<Longrightarrow> vacant d' p"
  using tame_reaches by (auto simp: vacant_def tame_def)

definition writable :: "disk \<Rightarrow> OwnedFileWrite \<Rightarrow> bool" where
  "writable d x \<longleftrightarrow> vacant d (entry_names x) \<and> fe_mode (fst x) \<in> set ALLOWED_MODES \<and> validate_relative_path (fe_path (fst x)) = Inr ()"

lemma prepare_entry_vacant:
  assumes "writable d x" "nothing_fails w" "parents_prepared opts"
  shows "prepare_entry w opts x d = (Inr (if fe_mode (fst x) = 40960 then [] else [(entry_names x, entry_permissions (fst x), snd x)]),
    if fe_mode (fst x) = 40960 then set_node (entry_names x) (Some (entry_node x)) d else d)"
proof -
  obtain e c where x: "x = (e, c)" by fastforce
  have p: "entry_names (e, c) = names_of (fe_path e)" by (simp add: entry_names_def)
  have at: "reaches d (names_of (fe_path e))" "d_nodes d (names_of (fe_path e)) = None" "names_of (fe_path e) \<noteq> []"
    using assms(1) by (simp_all add: writable_def vacant_def x p)
  have absent: "\<not> is_symlink d (names_of (fe_path e))" "\<not> path_exists w d (names_of (fe_path e))"
    using at(2) by (simp_all add: is_symlink_def path_exists_def)
  have mode: "fe_mode e = 33188 \<or> fe_mode e = 33261 \<or> fe_mode e = 40960" using assms(1) by (simp add: writable_def x ALLOWED_MODES_def)
  show ?thesis
    using assms at absent mode
    by (auto simp: prepare_entry_def x Let_def p writable_def write_symlink_entry_def remove_if_def make_symlink_def disk_simps
        nothing_fails_def entry_node_def entry_permissions_def)
qed

lemma prepare_owned_entries_vacant:
  assumes "\<forall>x \<in> set writes. writable d x" "distinct (map entry_names writes)" "nothing_fails w" "parents_prepared opts"
  shows "\<exists>d'. prepare_owned_entries w opts writes d = (Inr (length writes, regulars_of writes), d')
    \<and> (\<forall>x \<in> set writes. fe_mode (fst x) \<noteq> 40960 \<longrightarrow> vacant d' (entry_names x))"
  using assms(1,2)
proof (induction writes arbitrary: d)
  case (Cons x writes)
  let ?d = "if fe_mode (fst x) = 40960 then set_node (entry_names x) (Some (entry_node x)) d else d"
  have x: "writable d x" using Cons.prems(1) by simp
  note one = prepare_entry_vacant[OF x assms(3,4)]
  have t: "tame {entry_names x} d ?d" using x by (auto simp: writable_def vacant_def intro: tame_set_node)
  have "writable ?d y" if "y \<in> set writes" for y
  proof -
    have "entry_names y \<in> entry_names ` set writes" using that by simp
    then have "entry_names y \<noteq> entry_names x" using Cons.prems(2) by auto
    then show ?thesis using Cons.prems(1) that vacant_tame[OF t, of "entry_names y"] by (simp add: writable_def)
  qed
  then obtain d' where d': "prepare_owned_entries w opts writes ?d = (Inr (length writes, regulars_of writes), d')"
    "\<forall>y \<in> set writes. fe_mode (fst y) \<noteq> 40960 \<longrightarrow> vacant d' (entry_names y)"
    using Cons.IH[of ?d] Cons.prems(2) by auto
  have "reaches ?d (entry_names y)" if "y \<in> set writes" for y
    using Cons.prems(1) that tame_reaches[OF t] by (auto simp: writable_def vacant_def)
  then have t': "tame (entry_names ` set writes) ?d d'" using prepare_owned_entries_tame[OF d'(1) _ assms(4)] by blast
  have "vacant d' (entry_names x)" if "fe_mode (fst x) \<noteq> 40960"
    using vacant_tame[OF t'] x Cons.prems(2) that by (auto simp: writable_def)
  then show ?case using d' one by (auto simp: regulars_of_def)
qed (simp add: regulars_of_def)

lemma write_contents_vacant:
  assumes "\<forall>x \<in> set writes. vacant d (fst x)" "distinct (map fst writes)" "nothing_fails w"
  shows "\<exists>d'. write_contents w writes d = (Inr (), d')"
  using assms(1,2)
proof (induction writes arbitrary: d)
  case (Cons x writes)
  obtain p m c where x: "x = (p, m, c)" by (cases x)
  have v: "reaches d p" "d_nodes d p = None" "p \<noteq> []" using Cons.prems(1) x by (simp_all add: vacant_def)
  then have one: "write_regular_content w p m c d = (Inr (), set_node p (Some (FileNode m c)) (set_node p (Some (FileNode m [])) d))"
    using assms(3) by (simp add: write_regular_content_def remove_if_def path_exists_def open_truncated_def disk_simps nothing_fails_def)
  have t: "tame {p} d (set_node p (Some (FileNode m c)) (set_node p (Some (FileNode m [])) d))"
    using v(2) by (auto simp: tame_def)
  have "\<forall>y \<in> set writes. vacant (set_node p (Some (FileNode m c)) (set_node p (Some (FileNode m [])) d)) (fst y)"
    using Cons.prems vacant_tame[OF t] x by auto
  from Cons.IH[OF this] Cons.prems(2) show ?case using one x by simp
qed simp

lemma write_owned_entries_vacant:
  assumes "\<forall>x \<in> set writes. writable d x" "distinct (map entry_names writes)" "nothing_fails w" "parents_prepared opts" "\<not> stamp_mtime opts"
  obtains d' where "write_owned_entries w opts writes d = (Inr (length writes), d')" "tame (entry_names ` set writes) d d'"
    "\<forall>x \<in> set writes. d_nodes d' (entry_names x) = Some (entry_node x)"
proof -
  obtain d1 where d1: "prepare_owned_entries w opts writes d = (Inr (length writes, regulars_of writes), d1)"
    "\<forall>x \<in> set writes. fe_mode (fst x) \<noteq> 40960 \<longrightarrow> vacant d1 (entry_names x)"
    using prepare_owned_entries_vacant[OF assms(1-4)] by blast
  have "\<forall>x \<in> set (regulars_of writes). vacant d1 (fst x)" using d1(2) by (auto simp: regulars_of_def)
  then obtain d2 where d2: "write_contents w (regulars_of writes) d1 = (Inr (), d2)"
    using write_contents_vacant distinct_regulars[OF assms(2)] assms(3) by blast
  have run: "\<exists>d'. write_owned_entries w opts writes d = (Inr (length writes), d')"
    using d1(1) d2 assms(5) by (cases "writes = []") (auto simp: write_owned_entries_def write_regular_batch_def)
  then obtain d' where d': "write_owned_entries w opts writes d = (Inr (length writes), d')" by blast
  have "\<forall>x \<in> set writes. reaches d (entry_names x)" using assms(1) by (simp add: writable_def vacant_def)
  from write_owned_entries_tame[OF d' this assms(4)] nothing_fails_removals[OF assms(3)] assms(2) show ?thesis using that[OF d'] by blast
qed

section \<open>Making the directories\<close>

definition only_dirs :: "disk \<Rightarrow> bool" where
  "only_dirs d \<longleftrightarrow> (\<forall>q. d_nodes d q \<in> {None, Some DirNode})"

lemma create_components_total:
  assumes "only_dirs d" "reaches d current" "real_dir d current" "nothing_fails w"
  shows "\<exists>d'. create_components w current (map NormalComp ns) d = (Inr (), d') \<and> only_dirs d'"
  using assms(1-3)
proof (induction ns arbitrary: current d)
  case (Cons name ns)
  let ?c = "current @ [name]"
  have reach: "reaches d ?c" using Cons.prems by (simp add: reaches_snoc)
  have plain: "\<not> is_symlink d ?c" 
  proof -
    have "d_nodes d ?c = None \<or> d_nodes d ?c = Some DirNode" using Cons.prems(1) by (simp add: only_dirs_def)
    then show ?thesis by (auto simp: is_symlink_def)
  qed
  show ?case
  proof (cases "d_nodes d ?c")
    case None
    let ?d = "set_node ?c (Some DirNode) d"
    have "create_dir w ?c d = (Inr (), ?d)" using reach None assms(4) by (simp add: create_dir_def disk_simps nothing_fails_def)
    moreover have "only_dirs ?d" using Cons.prems(1) by (simp add: only_dirs_def)
    moreover have "reaches ?d ?c" using tame_reaches[OF tame_set_node reach] None by simp
    ultimately show ?thesis using Cons.IH[of ?d ?c] plain by (simp add: real_dir_def Let_def)
  next
    case (Some n)
    then have "d_nodes d ?c = Some DirNode" using Cons.prems(1) unfolding only_dirs_def by (metis empty_iff insert_iff option.distinct(1))
    moreover have "create_dir w ?c d = (Inl AlreadyExists, d)" using reach Some by (simp add: create_dir_def disk_simps)
    ultimately show ?thesis using Cons.IH[of d ?c] Cons.prems(1) plain reach by (simp add: real_dir_def Let_def)
  qed
qed simp

lemma each_dir_total:
  assumes "\<forall>rel \<in> set rels. validate_components rel = Inr ()" "only_dirs d" "nothing_fails w"
  shows "\<exists>d'. each_dir w rels d = (Inr (), d') \<and> only_dirs d'"
  using assms(1,2)
proof (induction rels arbitrary: d)
  case (Cons rel rels)
  obtain ns where "rel = map NormalComp ns" using Cons.prems(1) validated_components by (metis list.set_intros(1))
  then obtain d1 where "safe_create_dir_all w rel d = (Inr (), d1)" "only_dirs d1"
    using create_components_total[OF Cons.prems(2), of "[]" w ns] Cons.prems(1) assms(3) by (auto simp: safe_create_dir_all_def real_dir_def)
  then show ?case using Cons.IH[of d1] Cons.prems(1) by simp
qed simp

text \<open>What git guarantees of a tree: valid paths and modes, and no path that is both a file and a directory.\<close>

definition tree_dirs :: "MetadataChunk \<Rightarrow> names set" where
  "tree_dirs m = (\<lambda>e. butlast (names_of (fe_path e))) ` set (mc_files m) \<union> names_of ` set (mc_gitlinks m)"

definition tree_ok :: "MetadataChunk \<Rightarrow> bool" where
  "tree_ok m \<longleftrightarrow> (\<forall>e \<in> set (mc_files m). validate_relative_path (fe_path e) = Inr () \<and> fe_mode e \<in> set ALLOWED_MODES \<and> length (fe_blob_sha1 e) = 20)
     \<and> (\<forall>g \<in> set (mc_gitlinks m). validate_relative_path g = Inr ())
     \<and> distinct (map (names_of \<circ> fe_path) (mc_files m))
     \<and> (\<forall>e \<in> set (mc_files m). \<forall>q \<in> tree_dirs m. names_of (fe_path e) \<notin> prefixes_of q)"

lemma valid_names_nonempty:
  assumes "validate_relative_path path = Inr ()"
  shows "names_of path \<noteq> []"
proof -
  have path: "path \<noteq> []" "\<not> starts_with path ''/''" "check_components (path_components path) = Inr ()"
    using assms by (auto simp: validate_relative_path_def rbind_Inr split: if_splits)
  obtain first rest where parts: "split_on (CHR ''/'') path = first # rest" using split_on_ne by (metis neq_Nil_conv)
  have "first \<noteq> []"
  proof
    assume "first = []"
    then show False using parts path(1,2) by (cases path) (auto simp: starts_with_def split: if_splits list.splits)
  qed
  moreover have "first \<noteq> ''.''" using path(3) parts \<open>first \<noteq> []\<close> by (auto simp: path_components_def)
  ultimately show ?thesis using parts by (auto simp: names_of_def path_components_def inner_components_def)
qed

lemma validated_names_components:
  assumes "validate_relative_path path = Inr ()" "ns \<noteq> []" "set ns \<subseteq> set (names_of path)"
  shows "validate_components (map NormalComp ns) = Inr ()"
proof -
  have "check_components (path_components path) = Inr ()" "CHR 0x00 \<notin> set path"
    using assms(1) by (auto simp: validate_relative_path_def rbind_Inr split: if_splits)
  moreover have "set name \<subseteq> set path" if "name \<in> set (names_of path)" for name
  proof -
    have "NormalComp name \<in> set (path_components path)" using validated_names(2)[OF assms(1)] that by (metis image_eqI list.set_map)
    then have "name \<in> set (split_on (CHR ''/'') path)"
      by (cases "split_on (CHR ''/'') path") (auto simp: path_components_def inner_components_def component_of_def split: if_splits)
    then show ?thesis using split_on_subset by fastforce
  qed
  ultimately have "CHR 0x00 \<notin> set name \<and> \<not> eq_ignore_ascii_case name ''.git''" if "name \<in> set ns" for name
    using that assms(3) validated_names(1)[OF assms(1)] by (auto simp: in_repository_def list_ex_iff)
  then have "check_components (map NormalComp ns) = Inr ()" "\<not> list_ex (\<lambda>c. CHR 0x00 \<in> set (comp_name c)) (map NormalComp ns)"
    by (auto simp: check_components_ok list_ex_iff)
  then show ?thesis using assms(2) by (simp add: validate_components_def hd_map)
qed

lemma extract_start_total:
  assumes "tree_ok m" "nothing_fails w" "d = \<lparr>d_nodes = \<lambda>_. None, d_escaped = False\<rparr>"
  obtains s d1 where "extract_start w m True d = (Inr s, d1)" "\<And>e. e \<in> set (mc_files m) \<Longrightarrow> vacant (xr_disk s) (names_of (fe_path e))"
proof -
  have dirs: "q \<in> tree_dirs m" "q \<noteq> []" "validate_components (map NormalComp q) = Inr ()"
    if q: "q \<in> map comp_name ` set (worktree_dirs m)" for q
  proof -
    show "q \<in> tree_dirs m" using q unfolding worktree_dirs_names tree_dirs_def by auto
    consider e where "e \<in> set (mc_files m)" "q = butlast (names_of (fe_path e))" "q \<noteq> []" | g where "g \<in> set (mc_gitlinks m)" "q = names_of g"
      using q unfolding worktree_dirs_names by blast
    then have "q \<noteq> [] \<and> validate_components (map NormalComp q) = Inr ()"
    proof cases
      case (1 e)
      then show ?thesis using validated_names_components[of "fe_path e" q] assms(1) by (auto simp: tree_ok_def dest: in_set_butlastD)
    next
      case (2 g)
      then show ?thesis using validated_names_components[of g q] valid_names_nonempty[of g] assms(1) by (simp add: tree_ok_def)
    qed
    then show "q \<noteq> []" "validate_components (map NormalComp q) = Inr ()" by simp_all
  qed
  have "\<forall>rel \<in> set (worktree_dirs m). validate_components rel = Inr ()"
  proof
    fix rel assume rel: "rel \<in> set (worktree_dirs m)"
    then have "map NormalComp (map comp_name rel) = rel" by (auto simp: worktree_dirs_def comp_def intro!: map_idI)
    then show "validate_components rel = Inr ()" using dirs(3)[of "map comp_name rel"] rel by auto
  qed
  moreover have "only_dirs d" by (simp add: only_dirs_def assms(3))
  ultimately obtain d1 where made: "each_dir w (worktree_dirs m) d = (Inr (), d1)" using each_dir_total assms(2) by blast
  have all_ok: "map_result f xs = Inr (map (\<lambda>_. ()) xs)" if "\<forall>x \<in> set xs. f x = Inr ()" for f :: "'x \<Rightarrow> ('e, unit) result" and xs
    using that by (induction xs) auto
  have prep: "prepare_worktree_dirs w m d = (Inr (), d1)"
    using made assms(1) by (subst prepare_worktree_dirs_def) (simp add: all_ok tree_ok_def ball_Un)
  have "map_result (\<lambda>e. ensure (length (fe_blob_sha1 e) = 20) (BlobIdLength (fe_path e))) (mc_files m) = Inr (map (\<lambda>_. ()) (mc_files m))"
    by (rule all_ok) (use assms(1) in \<open>simp add: tree_ok_def\<close>)
  then obtain s where s: "extract_start w m True d = (Inr s, d1)" "xr_disk s = d1" using prep by (simp add: extract_start_def)
  have t: "tame (\<Union>rel \<in> set (worktree_dirs m). prefixes_of (map comp_name rel)) d d1" using each_dir_tame[OF made] by simp
  have "vacant d1 (names_of (fe_path e))" if e: "e \<in> set (mc_files m)" for e
  proof -
    have "names_of (fe_path e) \<notin> (\<Union>rel \<in> set (worktree_dirs m). prefixes_of (map comp_name rel))"
      using dirs(1) assms(1) e by (auto simp: tree_ok_def)
    then have "d_nodes d1 (names_of (fe_path e)) = None" using t assms(3) by (simp add: tame_def)
    then show ?thesis using prepared_ready(1)[OF prep e] valid_names_nonempty assms(1) e by (simp add: vacant_def tree_ok_def)
  qed
  then show ?thesis using that s by simp
qed

section \<open>Fragments\<close>

text \<open>Every frame arrives once, with bytes that inflate to its raw bytes.\<close>

definition honest :: "(string \<Rightarrow> nat \<Rightarrow> string option) \<Rightarrow> MetadataChunk \<Rightarrow> string list \<Rightarrow> frame_message list \<Rightarrow> bool" where
  "honest unz m raws msgs \<longleftrightarrow> length raws = length (mc_frames m) \<and> length (mc_frames m) \<le> 2 ^ 32
     \<and> distinct (map fst msgs) \<and> fst ` set msgs = {..<length (mc_frames m)}
     \<and> (\<forall>(idx, res) \<in> set msgs. \<exists>c. res = Inr c \<and> decompress_frame unz c (mc_frames m ! idx) idx = Inr (raws ! idx)
          \<and> length (raws ! idx) = unat (frame_raw_len (mc_frames m ! idx)))"

definition contents_match :: "(string \<Rightarrow> 8 word list) \<Rightarrow> MetadataChunk \<Rightarrow> string list \<Rightarrow> bool" where
  "contents_match sha1 m raws \<longleftrightarrow> (\<forall>e \<in> set (mc_files m). fe_fragments e \<noteq> [] \<and> (\<forall>f \<in> set (fe_fragments e). frag_in raws f)
     \<and> blob_object_id sha1 (file_bytes raws (fe_fragments e)) = fe_blob_sha1 e)"

definition slots_of :: "string list \<Rightarrow> Fragment list \<Rightarrow> nat set \<Rightarrow> string option list" where
  "slots_of raws fs missing = map (\<lambda>j. if j \<in> missing then None else Some (frag_bytes raws (fs ! j))) [0..<length fs]"

definition pending_state :: "string list \<Rightarrow> Fragment list \<Rightarrow> nat set \<Rightarrow> PendingFile option" where
  "pending_state raws fs missing = (if missing = {} then None
     else Some \<lparr>pf_fragments = slots_of raws fs missing, pf_remaining = card missing\<rparr>)"

lemma all_present_map: "all_present (map Some xs) = Some xs"
  by (induction xs) auto

lemma slots_of_full: "all_present (slots_of raws fs {}) = Some (map (frag_bytes raws) fs)"
proof -
  have "slots_of raws fs {} = map Some (map (frag_bytes raws) fs)" by (auto simp: slots_of_def intro: nth_equalityI)
  then show ?thesis using all_present_map[of "map (frag_bytes raws) fs"] by simp
qed

lemma slots_of_fill:
  "j < length fs \<Longrightarrow> (slots_of raws fs missing)[j := Some (frag_bytes raws (fs ! j))] = slots_of raws fs (missing - {j})"
  by (auto simp: slots_of_def nth_list_update intro!: nth_equalityI)

lemma fill_slot_good:
  assumes "pending i = pending_state raws (fe_fragments e) missing" "j \<in> missing" "missing \<subseteq> {..<length (fe_fragments e)}"
    "blob_object_id sha1 (file_bytes raws (fe_fragments e)) = fe_blob_sha1 e"
  shows "fill_slot sha1 e i j (frag_bytes raws (fe_fragments e ! j)) pending
    = (Inr (if missing - {j} = {} then Some (e, file_bytes raws (fe_fragments e)) else None),
       pending(i := pending_state raws (fe_fragments e) (missing - {j})))"
proof -
  have j: "j < length (fe_fragments e)" and fin: "finite missing" using assms(2,3) finite_subset by auto
  have pend: "pending i = Some \<lparr>pf_fragments = slots_of raws (fe_fragments e) missing, pf_remaining = card missing\<rparr>"
    using assms(1,2) by (auto simp: pending_state_def)
  have empty_slot: "slots_of raws (fe_fragments e) missing ! j = None" "length (slots_of raws (fe_fragments e) missing) = length (fe_fragments e)"
    using assms(2) j by (simp_all add: slots_of_def)
  have card: "card missing \<noteq> 0" "card (missing - {j}) = card missing - 1" using assms(2) fin by auto
  show ?thesis
  proof (cases "missing - {j} = {}")
    case True
    then have m: "missing = {j}" using assms(2) by blast
    have "all_present ((slots_of raws (fe_fragments e) {j})[j := Some (frag_bytes raws (fe_fragments e ! j))]) = Some (map (frag_bytes raws) (fe_fragments e))"
      using slots_of_full[of raws "fe_fragments e"] slots_of_fill[OF j, of raws "{j}"] by simp
    moreover have "check_blob sha1 e (concat (map (frag_bytes raws) (fe_fragments e))) = Inr (Some (e, file_bytes raws (fe_fragments e)))"
      using assms(4) by (simp add: check_blob_def file_bytes_def)
    ultimately show ?thesis using pend empty_slot j by (simp add: m fill_slot_def Let_def pending_state_def)
  next
    case False
    then have "card missing - 1 \<noteq> 0" using card(2) fin by (metis card_0_eq finite_Diff)
    then show ?thesis using pend empty_slot card j False by (simp add: fill_slot_def Let_def slots_of_fill[OF j] pending_state_def)
  qed
qed

lemma place_fragment_good:
  assumes "(i, j) \<in> set (frame_pairs m idx)" "idx < 2 ^ 32" "contents_match sha1 m raws"
    "length (fe_fragments (mc_files m ! i)) \<noteq> 1 \<Longrightarrow> pending i = pending_state raws (fe_fragments (mc_files m ! i)) missing"
    "j \<in> missing" "missing \<subseteq> {..<length (fe_fragments (mc_files m ! i))}"
  shows "place_fragment sha1 m idx (raws ! idx) (i, j) pending
    = (Inr (if missing - {j} = {} then Some (mc_files m ! i, file_bytes raws (fe_fragments (mc_files m ! i))) else None),
       if length (fe_fragments (mc_files m ! i)) = 1 then pending
       else pending(i := pending_state raws (fe_fragments (mc_files m ! i)) (missing - {j})))"
proof -
  let ?e = "mc_files m ! i"
  let ?f = "fe_fragments ?e ! j"
  have ij: "i < length (mc_files m)" "j < length (fe_fragments ?e)" "frame_index ?f = of_nat idx"
    using assms(1) by (simp_all add: frame_pairs_in)
  have e: "frag_in raws ?f" "blob_object_id sha1 (file_bytes raws (fe_fragments ?e)) = fe_blob_sha1 ?e"
    using assms(3) nth_mem[OF ij(1)] nth_mem[OF ij(2)] by (auto simp: contents_match_def)
  have "unat (frame_index ?f) = idx" using ij(3) assms(2) by (simp add: unat_of_nat)
  then have range: "get_range (raws ! idx) (unat (frame_offset ?f)) (unat (frame_offset ?f) + unat (frag_raw_len ?f)) = Some (frag_bytes raws ?f)"
    using e(1) by (simp add: get_range_def frag_in_def frag_bytes_def seg_def)
  show ?thesis
  proof (cases "length (fe_fragments ?e) = 1")
    case True
    then have "j = 0" "missing = {0}" using ij(2) assms(5,6) by auto
    moreover have "file_bytes raws (fe_fragments ?e) = frag_bytes raws ?f"
      using True \<open>j = 0\<close> by (cases "fe_fragments ?e") (auto simp: file_bytes_def)
    ultimately show ?thesis using True range e(2) by (simp add: place_fragment_def Let_def check_blob_def)
  next
    case False
    then show ?thesis using fill_slot_good[of pending i raws ?e missing j sha1, OF assms(4)[OF False] assms(5,6) e(2)] range by (simp add: place_fragment_def Let_def)
  qed
qed

section \<open>Every step succeeds\<close>

definition missing_of :: "MetadataChunk \<Rightarrow> frame_message list \<Rightarrow> extractor \<Rightarrow> nat \<Rightarrow> nat set" where
  "missing_of m msgs s i = {j. (i, j) \<in> (\<Union>k < length msgs. to_place m msgs s k)}"

lemma union_remove:
  fixes n :: nat
  assumes "k < n" "A k = insert x B" "x \<notin> B" "\<And>a. a < n \<Longrightarrow> a \<noteq> k \<Longrightarrow> x \<notin> A a"
  shows "(\<Union>a < n. (A(k := B)) a) = (\<Union>a < n. A a) - {x}"
proof -
  have parts: "(\<Union>a < n. f a) = f k \<union> (\<Union>a \<in> {..<n} - {k}. f a)" for f :: "nat \<Rightarrow> 'a set" using assms(1) by blast
  have "(\<Union>a \<in> {..<n} - {k}. (A(k := B)) a) = (\<Union>a \<in> {..<n} - {k}. A a)" by simp
  then show ?thesis unfolding parts[of A] parts[of "A(k := B)"] using assms(2-4) by auto
qed

lemma missing_of_cong: "to_place m msgs s' = to_place m msgs s \<Longrightarrow> missing_of m msgs s' = missing_of m msgs s"
  by (simp add: missing_of_def fun_eq_iff)

definition file_at :: "string list \<Rightarrow> FileEntry set \<Rightarrow> disk \<Rightarrow> FileEntry \<Rightarrow> bool" where
  "file_at raws W d e \<longleftrightarrow> (if e \<in> W then d_nodes d (names_of (fe_path e)) = Some (entry_node (e, file_bytes raws (fe_fragments e)))
     else vacant d (names_of (fe_path e)))"

definition finished_of :: "frame_message list \<Rightarrow> extractor \<Rightarrow> nat set" where
  "finished_of msgs s = {k. k < length msgs \<and> xr_stage s k = Finished}"

definition good_task :: "string list \<Rightarrow> frame_task \<Rightarrow> bool" where
  "good_task raws t \<longleftrightarrow> ft_raw t = raws ! ft_frame t \<and> (\<forall>x \<in> set (ft_queue t). snd x = file_bytes raws (fe_fragments (fst x)))"

definition good_run :: "MetadataChunk \<Rightarrow> string list \<Rightarrow> frame_message list \<Rightarrow> FileEntry set \<Rightarrow> extractor \<Rightarrow> bool" where
  "good_run m raws msgs W s \<longleftrightarrow>
     (\<forall>i < length (mc_files m). length (fe_fragments (mc_files m ! i)) \<noteq> 1 \<longrightarrow>
        xr_pending s i = pending_state raws (fe_fragments (mc_files m ! i)) (missing_of m msgs s i))
     \<and> (\<forall>k < length msgs. \<forall>t. xr_stage s k = Running t \<longrightarrow> good_task raws t)
     \<and> (\<forall>e \<in> set (mc_files m). file_at raws W (xr_disk s) e)
     \<and> (\<forall>i < length (mc_files m). missing_of m msgs s i = {} \<longrightarrow> mc_files m ! i \<in> W \<union> (\<Union>k < length msgs. queued s k))
     \<and> card W \<le> xr_written s + (\<Sum>k < length msgs. uncounted s k)
     \<and> xr_results s = card (finished_of msgs s) \<and> xr_error s = None"

lemma good_runD:
  assumes "good_run m raws msgs W s"
  shows "i < length (mc_files m) \<Longrightarrow> length (fe_fragments (mc_files m ! i)) \<noteq> 1 \<Longrightarrow>
      xr_pending s i = pending_state raws (fe_fragments (mc_files m ! i)) (missing_of m msgs s i)"
    "k < length msgs \<Longrightarrow> xr_stage s k = Running t \<Longrightarrow> good_task raws t"
    "e \<in> set (mc_files m) \<Longrightarrow> file_at raws W (xr_disk s) e"
    "i < length (mc_files m) \<Longrightarrow> missing_of m msgs s i = {} \<Longrightarrow> mc_files m ! i \<in> W \<union> (\<Union>k < length msgs. queued s k)"
    "card W \<le> xr_written s + (\<Sum>k < length msgs. uncounted s k)" "xr_results s = card (finished_of msgs s)" "xr_error s = None"
proof -
  note g = assms[unfolded good_run_def]
  show "card W \<le> xr_written s + (\<Sum>k < length msgs. uncounted s k)" "xr_results s = card (finished_of msgs s)" "xr_error s = None"
    using g by - (elim conjE, assumption)+
  have all: "\<forall>i < length (mc_files m). length (fe_fragments (mc_files m ! i)) \<noteq> 1 \<longrightarrow>
        xr_pending s i = pending_state raws (fe_fragments (mc_files m ! i)) (missing_of m msgs s i)"
    "\<forall>k < length msgs. \<forall>t. xr_stage s k = Running t \<longrightarrow> good_task raws t" "\<forall>e \<in> set (mc_files m). file_at raws W (xr_disk s) e"
    "\<forall>i < length (mc_files m). missing_of m msgs s i = {} \<longrightarrow> mc_files m ! i \<in> W \<union> (\<Union>k < length msgs. queued s k)"
    using g by - (elim conjE, assumption)+
  show "i < length (mc_files m) \<Longrightarrow> length (fe_fragments (mc_files m ! i)) \<noteq> 1 \<Longrightarrow>
      xr_pending s i = pending_state raws (fe_fragments (mc_files m ! i)) (missing_of m msgs s i)" by (rule all(1)[rule_format])
  show "k < length msgs \<Longrightarrow> xr_stage s k = Running t \<Longrightarrow> good_task raws t" by (rule all(2)[rule_format])
  show "e \<in> set (mc_files m) \<Longrightarrow> file_at raws W (xr_disk s) e" by (rule all(3)[rule_format])
  show "i < length (mc_files m) \<Longrightarrow> missing_of m msgs s i = {} \<Longrightarrow> mc_files m ! i \<in> W \<union> (\<Union>k < length msgs. queued s k)"
    by (rule all(4)[rule_format])
qed

lemma good_runI:
  assumes "\<And>i. i < length (mc_files m) \<Longrightarrow> length (fe_fragments (mc_files m ! i)) \<noteq> 1 \<Longrightarrow>
      xr_pending s i = pending_state raws (fe_fragments (mc_files m ! i)) (missing_of m msgs s i)"
    "\<And>k t. k < length msgs \<Longrightarrow> xr_stage s k = Running t \<Longrightarrow> good_task raws t"
    "\<And>e. e \<in> set (mc_files m) \<Longrightarrow> file_at raws W (xr_disk s) e"
    "\<And>i. i < length (mc_files m) \<Longrightarrow> missing_of m msgs s i = {} \<Longrightarrow> mc_files m ! i \<in> W \<union> (\<Union>k < length msgs. queued s k)"
    "card W \<le> xr_written s + (\<Sum>k < length msgs. uncounted s k)" "xr_results s = card (finished_of msgs s)" "xr_error s = None"
  shows "good_run m raws msgs W s"
  unfolding good_run_def by (intro conjI ballI allI impI) (rule assms; assumption)+

lemma honest_frames:
  assumes "honest unz m raws msgs"
  shows "length msgs = length (mc_frames m)" "k < length msgs \<Longrightarrow> fst (msgs ! k) < 2 ^ 32"
    "k < length msgs \<Longrightarrow> start_frame unz m (msgs ! k) = Inr \<lparr>ft_raw = raws ! fst (msgs ! k), ft_frame = fst (msgs ! k),
       ft_pairs = frame_pairs m (fst (msgs ! k)), ft_queue = [], ft_written = 0\<rparr>"
proof -
  have "card (fst ` set msgs) = length msgs" using assms distinct_card[of "map fst msgs"] by (simp add: honest_def)
  then show "length msgs = length (mc_frames m)" using assms by (simp add: honest_def)
  show k: "fst (msgs ! k) < 2 ^ 32" if "k < length msgs" for k
  proof -
    have "fst (msgs ! k) \<in> fst ` set msgs" using that by simp
    then show ?thesis using assms by (auto simp: honest_def)
  qed
  show "start_frame unz m (msgs ! k) = Inr \<lparr>ft_raw = raws ! fst (msgs ! k), ft_frame = fst (msgs ! k),
       ft_pairs = frame_pairs m (fst (msgs ! k)), ft_queue = [], ft_written = 0\<rparr>" if kl: "k < length msgs"
  proof -
    obtain idx res where at: "msgs ! k = (idx, res)" by fastforce
    then obtain c where "res = Inr c" "decompress_frame unz c (mc_frames m ! idx) idx = Inr (raws ! idx)"
        "length (raws ! idx) = unat (frame_raw_len (mc_frames m ! idx))"
      using assms nth_mem[OF kl] by (auto simp: honest_def)
    then show ?thesis using k[OF kl] at by (simp add: start_frame_def)
  qed
qed

lemma good_start:
  assumes "good_run m raws msgs W s" "extract_inv sha1 m msgs W s" "honest unz m raws msgs" "k < length msgs" "xr_stage s k = Waiting"
    "start_frame unz m (msgs ! k) = Inr t"
  shows "good_run m raws msgs W (set_running k t s)"
proof -
  note same = started_inv(2-4)[OF assms(2,4-6)]
  have t: "good_task raws t" using honest_frames(3)[OF assms(3,4)] assms(6) by (auto simp: good_task_def)
  have miss: "missing_of m msgs (set_running k t s) = missing_of m msgs s" by (simp add: missing_of_def same fun_eq_iff)
  have fin: "finished_of msgs (set_running k t s) = finished_of msgs s" using assms(5) by (auto simp: finished_of_def)
  show ?thesis
  proof (rule good_runI)
    show "good_task raws u" if "l < length msgs" "xr_stage (set_running k t s) l = Running u" for l u
      using that t good_runD(2)[OF assms(1)] by (auto split: if_splits)
    show "mc_files m ! i \<in> W \<union> (\<Union>l < length msgs. queued (set_running k t s) l)"
      if "i < length (mc_files m)" "missing_of m msgs (set_running k t s) i = {}" for i
      using good_runD(4)[OF assms(1)] that by (simp add: miss same)
  qed (simp_all add: good_runD[OF assms(1)] miss fin same)
qed

lemma good_place:
  assumes "good_run m raws msgs W s" "extract_inv sha1 m msgs W s" "extractable m msgs" "contents_match sha1 m raws"
    "k < length msgs" "xr_stage s k = Running t" "ft_pairs t = (i, j) # pairs"
  obtains completed pending where "place_fragment sha1 m (ft_frame t) (ft_raw t) (i, j) (xr_pending s) = (Inr completed, pending)"
    "good_run m raws msgs W (set_running k (t\<lparr>ft_pairs := pairs, ft_queue := ft_queue t @ (case completed of None \<Rightarrow> [] | Some x \<Rightarrow> [x])\<rparr>)
       (s\<lparr>xr_pending := pending\<rparr>))"
proof -
  let ?e = "mc_files m ! i" and ?missing = "missing_of m msgs s i"
  have t: "task_ok sha1 m msgs k t" by (rule extract_invD(4)[OF assms(2,5,6)])
  have gt: "good_task raws t" by (rule good_runD(2)[OF assms(1,5,6)])
  have frame: "ft_frame t = fst (msgs ! k)" "ft_frame t < 2 ^ 32" using t assms(3,5) by (auto simp: task_ok_def extractable_def)
  have at: "(i, j) \<in> set (frame_pairs m (ft_frame t))" "(i, j) \<notin> set pairs" using t assms(7) by (auto simp: task_ok_def)
  have i: "i < length (mc_files m)" using at(1) frame_pairs_in by blast
  have sub: "?missing \<subseteq> {..<length (fe_fragments ?e)}"
  proof
    fix l assume "l \<in> ?missing"
    then obtain a where "a < length msgs" "(i, l) \<in> to_place m msgs s a" by (auto simp: missing_of_def)
    then have "(i, l) \<in> set (frame_pairs m (fst (msgs ! a)))" using to_place_sub[OF assms(2)] by blast
    then show "l \<in> {..<length (fe_fragments ?e)}" using frame_pairs_in by blast
  qed
  have "(i, j) \<in> to_place m msgs s k" using assms(6,7) by (simp add: to_place_def)
  then have here: "j \<in> ?missing" using assms(5) unfolding missing_of_def by blast
  define completed where "completed = (if ?missing - {j} = {} then Some (?e, file_bytes raws (fe_fragments ?e)) else None)"
  define pending where "pending = (if length (fe_fragments ?e) = 1 then xr_pending s
      else (xr_pending s)(i := pending_state raws (fe_fragments ?e) (?missing - {j})))"
  have place: "place_fragment sha1 m (ft_frame t) (ft_raw t) (i, j) (xr_pending s) = (Inr completed, pending)"
    using place_fragment_good[of i j m "ft_frame t" sha1 raws "xr_pending s" ?missing, OF at(1) frame(2) assms(4) good_runD(1)[OF assms(1) i] here sub] gt
    unfolding completed_def pending_def by (simp add: good_task_def)
  let ?s = "set_running k (t\<lparr>ft_pairs := pairs, ft_queue := ft_queue t @ (case completed of None \<Rightarrow> [] | Some x \<Rightarrow> [x])\<rparr>) (s\<lparr>xr_pending := pending\<rparr>)"
  let ?done = "case completed of None \<Rightarrow> {} | Some x \<Rightarrow> {fst x}"
  have q: "queued ?s = (queued s)(k := queued s k \<union> ?done)" "uncounted ?s = uncounted s"
    "to_place m msgs ?s = (to_place m msgs s)(k := set pairs)" "finished_of msgs ?s = finished_of msgs s"
    using assms(6) by (auto simp: queued_def uncounted_def to_place_def finished_of_def fun_eq_iff split: option.splits)
  have elsewhere: "(i, j) \<notin> to_place m msgs s a" if "a < length msgs" "a \<noteq> k" for a
    using to_place_sub[OF assms(2) that(1)] extractable_frames[OF assms(3,5) that(1) _ at(1)[unfolded frame(1)]] that(2) by blast
  have "(\<Union>a < length msgs. to_place m msgs ?s a) = (\<Union>a < length msgs. to_place m msgs s a) - {(i, j)}"
    unfolding q(3) by (rule union_remove[OF assms(5)]) (use assms(6,7) at(2) elsewhere in \<open>auto simp: to_place_def\<close>)
  then have miss: "missing_of m msgs ?s = (missing_of m msgs s)(i := ?missing - {j})"
    by (auto simp: missing_of_def fun_eq_iff)
  have "good_run m raws msgs W ?s"
  proof (rule good_runI)
    show "xr_pending ?s l = pending_state raws (fe_fragments (mc_files m ! l)) (missing_of m msgs ?s l)"
      if "l < length (mc_files m)" "length (fe_fragments (mc_files m ! l)) \<noteq> 1" for l
      using good_runD(1)[OF assms(1) that] that(2) unfolding miss by (cases "l = i") (simp_all add: pending_def)
    show "good_task raws u" if "l < length msgs" "xr_stage ?s l = Running u" for l u
    proof (cases "l = k")
      case True
      then show ?thesis using that(2) gt by (auto simp: good_task_def completed_def split: if_splits)
    next
      case False
      then show ?thesis using that good_runD(2)[OF assms(1)] by simp
    qed
    show "mc_files m ! l \<in> W \<union> (\<Union>a < length msgs. queued ?s a)" if l: "l < length (mc_files m)" "missing_of m msgs ?s l = {}" for l
    proof (cases "l = i")
      case True
      then have "completed = Some (?e, file_bytes raws (fe_fragments ?e))" using l(2) unfolding miss by (simp add: completed_def)
      then have "mc_files m ! l \<in> queued ?s k" using True unfolding q by simp
      then show ?thesis using assms(5) by blast
    next
      case False
      then have "mc_files m ! l \<in> W \<union> (\<Union>a < length msgs. queued s a)" using good_runD(4)[OF assms(1) l(1)] l(2) unfolding miss by simp
      then show ?thesis unfolding q by auto
    qed
  qed (use good_runD[OF assms(1)] in \<open>simp_all add: q\<close>)
  then show ?thesis using that place by blast
qed

lemma file_at_flushed:
  assumes "file_at raws W d e" "tame (entry_names ` set q) d d'" "\<forall>x \<in> set q. d_nodes d' (entry_names x) = Some (entry_node x)"
    "\<forall>x \<in> set q. snd x = file_bytes raws (fe_fragments (fst x))"
    "\<And>x. x \<in> set q \<Longrightarrow> names_of (fe_path (fst x)) = names_of (fe_path e) \<Longrightarrow> fst x = e" "W \<inter> fst ` set q = {}"
  shows "file_at raws (W \<union> fst ` set q) d' e"
proof (cases "e \<in> fst ` set q")
  case True
  then obtain x where x: "x \<in> set q" "x = (e, file_bytes raws (fe_fragments e))" using assms(4) by (metis imageE prod.collapse)
  then show ?thesis using assms(3) True by (auto simp: file_at_def entry_names_def)
next
  case False
  have "names_of (fe_path e) \<notin> entry_names ` set q"
  proof
    assume "names_of (fe_path e) \<in> entry_names ` set q"
    then obtain x where "x \<in> set q" "names_of (fe_path (fst x)) = names_of (fe_path e)" by (auto simp: entry_names_def)
    then show False using assms(5) False by blast
  qed
  then show ?thesis using False assms(1,2) vacant_tame[OF assms(2)] by (auto simp: file_at_def tame_def)
qed

lemma good_flush:
  assumes "good_run m raws msgs W s" "extract_inv sha1 m msgs W s" "tree_ok m" "nothing_fails w" "k < length msgs" "xr_stage s k = Running t"
  obtains d where "write_owned_entries w ARCHIVE_WRITE_OPTIONS (ft_queue t) (xr_disk s) = (Inr (length (ft_queue t)), d)"
    "good_run m raws msgs (W \<union> fst ` set (ft_queue t))
       (set_running k (t\<lparr>ft_queue := [], ft_written := ft_written t + length (ft_queue t)\<rparr>) (s\<lparr>xr_disk := d\<rparr>))"
    "extract_inv sha1 m msgs (W \<union> fst ` set (ft_queue t))
       (set_running k (t\<lparr>ft_queue := [], ft_written := ft_written t + length (ft_queue t)\<rparr>) (s\<lparr>xr_disk := d\<rparr>))"
proof -
  let ?W = "W \<union> fst ` set (ft_queue t)" and ?n = "length (ft_queue t)"
  have t: "task_ok sha1 m msgs k t" by (rule extract_invD(4)[OF assms(2,5,6)])
  have gt: "good_task raws t" by (rule good_runD(2)[OF assms(1,5,6)])
  have names: "distinct (map (names_of \<circ> fe_path) (mc_files m))" using assms(3) by (simp add: tree_ok_def)
  have sub: "fst ` set (ft_queue t) \<subseteq> set (mc_files m)" using t by (auto simp: task_ok_def)
  have qk: "queued s k = fst ` set (ft_queue t)" "uncounted s k = ft_written t" using assms(6) by (simp_all add: queued_def uncounted_def)
  have apart: "W \<inter> fst ` set (ft_queue t) = {}" using extract_invD(5)[OF assms(2,5)] qk(1) by auto
  have writable: "\<forall>x \<in> set (ft_queue t). writable (xr_disk s) x"
  proof
    fix x assume x: "x \<in> set (ft_queue t)"
    then have e: "fst x \<in> set (mc_files m)" "fst x \<notin> W" using sub apart by auto
    then have "vacant (xr_disk s) (entry_names x)" using good_runD(3)[OF assms(1) e(1)] by (simp add: file_at_def entry_names_def)
    then show "writable (xr_disk s) x" using e(1) assms(3) by (simp add: writable_def tree_ok_def)
  qed
  have "distinct (map fst (ft_queue t))" using t by (simp add: task_ok_def)
  then have "distinct (map entry_names (ft_queue t))"
    using names_entry[OF names] sub by (simp add: distinct_map entry_names_def inj_on_def) (meson image_subset_iff prod_eqI)
  then obtain d where d: "write_owned_entries w ARCHIVE_WRITE_OPTIONS (ft_queue t) (xr_disk s) = (Inr ?n, d)"
      "tame (entry_names ` set (ft_queue t)) (xr_disk s) d" "\<forall>x \<in> set (ft_queue t). d_nodes d (entry_names x) = Some (entry_node x)"
    using write_owned_entries_vacant[OF writable _ assms(4), of ARCHIVE_WRITE_OPTIONS] by (auto simp: ARCHIVE_WRITE_OPTIONS_def)
  let ?s = "set_running k (t\<lparr>ft_queue := [], ft_written := ft_written t + ?n\<rparr>) (s\<lparr>xr_disk := d\<rparr>)"
  have inv: "extract_inv sha1 m msgs ?W ?s"
    by (rule counted_flush[OF assms(2,5,6) d(1) names nothing_fails_removals[OF assms(4)]])
  have q: "queued ?s = (queued s)(k := {})" "to_place m msgs ?s = to_place m msgs s" "uncounted ?s = (uncounted s)(k := ft_written t + ?n)"
    "finished_of msgs ?s = finished_of msgs s"
    using assms(6) by (auto simp: queued_def to_place_def uncounted_def finished_of_def fun_eq_iff)
  note q = q missing_of_cong[OF q(2)]
  have "good_run m raws msgs ?W ?s"
  proof (rule good_runI)
    show "good_task raws u" if "l < length msgs" "xr_stage ?s l = Running u" for l u
      using that gt good_runD(2)[OF assms(1)] by (auto simp: good_task_def split: if_splits)
    show "file_at raws ?W (xr_disk ?s) e" if "e \<in> set (mc_files m)" for e
    proof -
      have "fst x = e" if "x \<in> set (ft_queue t)" "names_of (fe_path (fst x)) = names_of (fe_path e)" for x
        using names_entry[OF names _ \<open>e \<in> set (mc_files m)\<close> that(2)] that(1) sub by blast
      then show ?thesis using file_at_flushed[OF good_runD(3)[OF assms(1) that] d(2,3)] gt apart by (simp add: good_task_def)
    qed
    show "mc_files m ! i \<in> ?W \<union> (\<Union>l < length msgs. queued ?s l)" if "i < length (mc_files m)" "missing_of m msgs ?s i = {}" for i
    proof -
      have "mc_files m ! i \<in> W \<union> (\<Union>l < length msgs. queued s l)" using good_runD(4)[OF assms(1) that(1)] that(2) by (simp add: q)
      then show ?thesis using qk(1) by (auto simp: q split: if_splits)
    qed
    have "(\<Sum>j < length msgs. uncounted ?s j) + uncounted s k = (\<Sum>j < length msgs. uncounted s j) + uncounted ?s k"
      by (rule sum_update[OF assms(5)]) (simp add: q)
    moreover have "card ?W \<le> card W + ?n" using card_Un_le[of W "fst ` set (ft_queue t)"] card_length[of "map fst (ft_queue t)"] by simp
    ultimately show "card ?W \<le> xr_written ?s + (\<Sum>j < length msgs. uncounted ?s j)"
      using good_runD(5)[OF assms(1)] qk(2) by (simp add: q)
  qed (use good_runD[OF assms(1)] in \<open>simp_all add: q\<close>)
  then show ?thesis using that d(1) inv by blast
qed

lemma good_finish:
  assumes "good_run m raws msgs W s" "extract_inv sha1 m msgs W s" "length msgs = length (mc_frames m)" "k < length msgs" "xr_stage s k = Running t"
    "ft_queue t = []" "ft_pairs t = []"
  shows "good_run m raws msgs W (finish_frame m k (Inr (ft_written t)) s)"
    and "extract_inv sha1 m msgs W (finish_frame m k (Inr (ft_written t)) s)"
proof -
  let ?s = "finish_frame m k (Inr (ft_written t)) s"
  show "extract_inv sha1 m msgs W ?s" by (rule extract_inv_finish[OF assms(2,4)]) (simp add: uncounted_def assms(5))
  have sub: "finished_of msgs s \<subseteq> {..<length msgs} - {k}" using assms(5) by (auto simp: finished_of_def)
  then have "card (finished_of msgs s) \<le> card ({..<length msgs} - {k})" by (rule card_mono[rotated]) simp
  then have few: "xr_results s < length (mc_frames m)" using good_runD(6)[OF assms(1)] assms(3,4) by simp
  then have res: "xr_results ?s = Suc (xr_results s)" "xr_written ?s = xr_written s + ft_written t" "xr_error ?s = xr_error s"
    by (simp_all add: finish_frame_def Let_def)
  have fin: "finished_of msgs ?s = insert k (finished_of msgs s)" using assms(4) by (auto simp: finished_of_def)
  have "k \<notin> finished_of msgs s" "finite (finished_of msgs s)" using sub finite_subset by auto
  then have card: "card (finished_of msgs ?s) = Suc (card (finished_of msgs s))" by (simp add: fin)
  have q: "queued ?s = queued s" "to_place m msgs ?s = to_place m msgs s"
    using assms(5-7) by (auto simp: queued_def to_place_def fun_eq_iff)
  note q = q missing_of_cong[OF q(2)]
  show "good_run m raws msgs W ?s"
  proof (rule good_runI)
    show "good_task raws u" if "l < length msgs" "xr_stage ?s l = Running u" for l u
      using that good_runD(2)[OF assms(1)] by (auto split: if_splits)
    show "mc_files m ! i \<in> W \<union> (\<Union>l < length msgs. queued ?s l)" if "i < length (mc_files m)" "missing_of m msgs ?s i = {}" for i
      using good_runD(4)[OF assms(1) that(1)] that(2) by (simp add: q)
    have "(\<Sum>j < length msgs. uncounted ?s j) + uncounted s k = (\<Sum>j < length msgs. uncounted s j) + uncounted ?s k"
      by (rule sum_update[OF assms(4)]) (simp add: uncounted_def)
    then show "card W \<le> xr_written ?s + (\<Sum>j < length msgs. uncounted ?s j)"
      using good_runD(5)[OF assms(1)] assms(5) res(2) by (simp add: uncounted_def)
  qed (use good_runD[OF assms(1)] res card in \<open>simp_all add: q\<close>)
qed

lemma good_advance_pair:
  assumes "good_run m raws msgs W s" "extract_inv sha1 m msgs W s" "tree_ok m" "nothing_fails w" "extractable m msgs"
    "contents_match sha1 m raws" "k < length msgs" "xr_stage s k = Running t" "ft_pairs t = (i, j) # pairs"
  shows "\<exists>W' u. extract_inv sha1 m msgs W' (advance_pair w sha1 m True k t (i, j) pairs s)
    \<and> good_run m raws msgs W' (advance_pair w sha1 m True k t (i, j) pairs s)
    \<and> xr_stage (advance_pair w sha1 m True k t (i, j) pairs s) = (xr_stage s)(k := Running u) \<and> ft_pairs u = pairs"
proof -
  obtain completed pending where place: "place_fragment sha1 m (ft_frame t) (ft_raw t) (i, j) (xr_pending s) = (Inr completed, pending)"
    and good: "good_run m raws msgs W (set_running k (t\<lparr>ft_pairs := pairs, ft_queue := ft_queue t @ (case completed of None \<Rightarrow> [] | Some x \<Rightarrow> [x])\<rparr>)
       (s\<lparr>xr_pending := pending\<rparr>))"
    by (rule good_place[OF assms(1,2,5-9)])
  note inv = placed_inv[OF assms(2,7-9) place assms(5)]
  let ?s = "s\<lparr>xr_pending := pending\<rparr>"
  show ?thesis
  proof (cases completed)
    case None
    then have step: "advance_pair w sha1 m True k t (i, j) pairs s = set_running k (t\<lparr>ft_pairs := pairs\<rparr>) ?s"
      using place by (simp add: advance_pair_def Let_def)
    show ?thesis unfolding step using inv good None by (intro exI[of _ W] exI[of _ "t\<lparr>ft_pairs := pairs\<rparr>"]) simp
  next
    case (Some x)
    let ?t = "t\<lparr>ft_pairs := pairs, ft_queue := ft_queue t @ [x]\<rparr>"
    have u: "good_run m raws msgs W (set_running k ?t ?s)" "extract_inv sha1 m msgs W (set_running k ?t ?s)" using inv good Some by simp_all
    show ?thesis
    proof (cases "PACK_WRITE_BATCH_FILES \<le> length (ft_queue t @ [x])")
      case False
      then have step: "advance_pair w sha1 m True k t (i, j) pairs s = set_running k ?t ?s"
        using place Some by (simp add: advance_pair_def Let_def)
      show ?thesis unfolding step using u by (intro exI[of _ W] exI[of _ ?t]) simp
    next
      case True
      have "xr_stage (set_running k ?t ?s) k = Running ?t" by simp
      then obtain d where d: "write_owned_entries w ARCHIVE_WRITE_OPTIONS (ft_queue t @ [x]) (xr_disk s) = (Inr (length (ft_queue t @ [x])), d)"
        "good_run m raws msgs (W \<union> fst ` set (ft_queue ?t))
           (set_running k (?t\<lparr>ft_queue := [], ft_written := ft_written ?t + length (ft_queue ?t)\<rparr>) ((set_running k ?t ?s)\<lparr>xr_disk := d\<rparr>))"
        "extract_inv sha1 m msgs (W \<union> fst ` set (ft_queue ?t))
           (set_running k (?t\<lparr>ft_queue := [], ft_written := ft_written ?t + length (ft_queue ?t)\<rparr>) ((set_running k ?t ?s)\<lparr>xr_disk := d\<rparr>))"
        by (rule good_flush[OF u assms(3,4,7)]) simp
      let ?u = "t\<lparr>ft_pairs := pairs, ft_queue := [], ft_written := ft_written t + length (ft_queue t @ [x])\<rparr>"
      have same: "set_running k (?t\<lparr>ft_queue := [], ft_written := ft_written ?t + length (ft_queue ?t)\<rparr>) ((set_running k ?t ?s)\<lparr>xr_disk := d\<rparr>)
          = set_running k ?u (?s\<lparr>xr_disk := d\<rparr>)"
        by (simp add: set_running_def)
      have step: "advance_pair w sha1 m True k t (i, j) pairs s = set_running k ?u (?s\<lparr>xr_disk := d\<rparr>)"
        using place Some True d(1) by (simp add: advance_pair_def Let_def flush_queue_def)
      show ?thesis unfolding step using d(2,3)[unfolded same] by (intro exI[of _ "W \<union> fst ` set (ft_queue ?t)"] exI[of _ ?u]) simp
    qed
  qed
qed

text \<open>The steps a message still has.\<close>

definition steps_left :: "MetadataChunk \<Rightarrow> frame_message list \<Rightarrow> extractor \<Rightarrow> nat \<Rightarrow> nat" where
  "steps_left m msgs s k = (case xr_stage s k of
       Waiting \<Rightarrow> length (frame_pairs m (fst (msgs ! k))) + 2 | Running t \<Rightarrow> length (ft_pairs t) + 1 | Finished \<Rightarrow> 0)"

lemma good_advance:
  assumes "good_run m raws msgs W s" "extract_inv sha1 m msgs W s" "tree_ok m" "nothing_fails w" "honest unz m raws msgs"
    "contents_match sha1 m raws" "extractable m msgs"
  shows "(\<exists>W'. extract_inv sha1 m msgs W' (advance w unz sha1 m True msgs k s) \<and> good_run m raws msgs W' (advance w unz sha1 m True msgs k s))
    \<and> (k < length msgs \<longrightarrow> steps_left m msgs (advance w unz sha1 m True msgs k s) = (steps_left m msgs s)(k := steps_left m msgs s k - 1))"
proof (cases "k < length msgs")
  case k: True
  show ?thesis
  proof (cases "xr_stage s k")
    case Waiting
    obtain t where t: "start_frame unz m (msgs ! k) = Inr t" "ft_pairs t = frame_pairs m (fst (msgs ! k))"
      using honest_frames(3)[OF assms(5) k] by simp
    then have step: "advance w unz sha1 m True msgs k s = set_running k t s" using k Waiting by (simp add: advance_def)
    show ?thesis unfolding step
      using good_start[OF assms(1,2,5) k Waiting t(1)] started_inv(1)[OF assms(2) k Waiting t(1)] Waiting t(2)
      by (auto simp: steps_left_def fun_eq_iff)
  next
    case (Running t)
    show ?thesis
    proof (cases "ft_pairs t")
      case Nil
      obtain d where d: "write_owned_entries w ARCHIVE_WRITE_OPTIONS (ft_queue t) (xr_disk s) = (Inr (length (ft_queue t)), d)"
        "good_run m raws msgs (W \<union> fst ` set (ft_queue t))
           (set_running k (t\<lparr>ft_queue := [], ft_written := ft_written t + length (ft_queue t)\<rparr>) (s\<lparr>xr_disk := d\<rparr>))"
        "extract_inv sha1 m msgs (W \<union> fst ` set (ft_queue t))
           (set_running k (t\<lparr>ft_queue := [], ft_written := ft_written t + length (ft_queue t)\<rparr>) (s\<lparr>xr_disk := d\<rparr>))"
        by (rule good_flush[OF assms(1-4) k Running])
      have step: "advance w unz sha1 m True msgs k s = finish_frame m k (Inr (ft_written t + length (ft_queue t))) (s\<lparr>xr_disk := d\<rparr>)"
        using k Running Nil d(1) by (simp add: advance_def flush_queue_def)
      show ?thesis unfolding step
        using good_finish[OF d(2,3) honest_frames(1)[OF assms(5)] k, of "t\<lparr>ft_queue := [], ft_written := ft_written t + length (ft_queue t)\<rparr>"] Nil Running
        by (auto simp: finish_frame_running steps_left_def fun_eq_iff)
    next
      case (Cons pair pairs)
      obtain i j where pair: "pair = (i, j)" by fastforce
      have step: "advance w unz sha1 m True msgs k s = advance_pair w sha1 m True k t (i, j) pairs s"
        using k Running Cons pair by (simp add: advance_def)
      show ?thesis unfolding step
        using good_advance_pair[OF assms(1-4,7,6) k Running Cons[unfolded pair]] Running Cons by (auto simp: steps_left_def fun_eq_iff)
    qed
  next
    case Finished
    then show ?thesis using assms(1,2) k by (auto simp: advance_def steps_left_def fun_eq_iff)
  qed
qed (use assms(1,2) in \<open>auto simp: advance_def\<close>)

lemma good_schedule:
  assumes "good_run m raws msgs W s" "extract_inv sha1 m msgs W s" "tree_ok m" "nothing_fails w" "honest unz m raws msgs"
    "contents_match sha1 m raws" "extractable m msgs"
  shows "(\<exists>W'. extract_inv sha1 m msgs W' (run_schedule w unz sha1 m True msgs schedule s) \<and> good_run m raws msgs W' (run_schedule w unz sha1 m True msgs schedule s))
    \<and> (\<forall>k < length msgs. steps_left m msgs (run_schedule w unz sha1 m True msgs schedule s) k = steps_left m msgs s k - count_list schedule k)"
  using assms(1,2)
proof (induction schedule arbitrary: s W)
  case (Cons k schedule)
  note step = good_advance[OF Cons.prems assms(3-7), of k]
  obtain W' where W': "extract_inv sha1 m msgs W' (advance w unz sha1 m True msgs k s)" "good_run m raws msgs W' (advance w unz sha1 m True msgs k s)"
    using step by blast
  have "steps_left m msgs (advance w unz sha1 m True msgs k s) l - count_list schedule l = steps_left m msgs s l - count_list (k # schedule) l"
    if "l < length msgs" for l
    using step that by (cases "k < length msgs") (auto simp: advance_def)
  with Cons.IH[OF W'(2,1)] show ?case by (simp add: run_schedule_def)
qed (auto simp: run_schedule_def)

section \<open>Every extraction ends with the tree\<close>

lemma good_initial:
  assumes "extract_start w m True d = (Inr s, d1)" "\<And>e. e \<in> set (mc_files m) \<Longrightarrow> vacant (xr_disk s) (names_of (fe_path e))"
    "honest unz m raws msgs" "contents_match sha1 m raws"
  shows "good_run m raws msgs {} s" "steps_left m msgs s k = length (frame_pairs m (fst (msgs ! k))) + 2"
proof -
  have s: "xr_stage s = (\<lambda>_. Waiting)" "xr_pending s = initial_pending m" "xr_written s = 0" "xr_results s = 0" "xr_error s = None"
    using assms(1) by (auto simp: extract_start_def split: sum.splits prod.splits)
  show "steps_left m msgs s k = length (frame_pairs m (fst (msgs ! k))) + 2" by (simp add: steps_left_def s)
  have miss: "missing_of m msgs s i = {..<length (fe_fragments (mc_files m ! i))}" if i: "i < length (mc_files m)" for i
  proof (intro equalityI subsetI)
    fix j assume "j \<in> missing_of m msgs s i"
    then show "j \<in> {..<length (fe_fragments (mc_files m ! i))}" by (auto simp: missing_of_def to_place_def s frame_pairs_in)
  next
    fix j assume j: "j \<in> {..<length (fe_fragments (mc_files m ! i))}"
    let ?f = "fe_fragments (mc_files m ! i) ! j"
    have "?f \<in> set (fe_fragments (mc_files m ! i))" "mc_files m ! i \<in> set (mc_files m)" using i j by simp_all
    then have "frag_in raws ?f" using assms(4) by (simp add: contents_match_def)
    then have "unat (frame_index ?f) < length (mc_frames m)" using assms(3) by (simp add: frag_in_def honest_def)
    then have "unat (frame_index ?f) \<in> fst ` set msgs" using assms(3) by (simp add: honest_def)
    then obtain k where "k < length msgs" "fst (msgs ! k) = unat (frame_index ?f)" by (metis imageE in_set_conv_nth)
    moreover from this(2) have "(i, j) \<in> to_place m msgs s k" using i j by (simp add: to_place_def s frame_pairs_in)
    ultimately show "j \<in> missing_of m msgs s i" unfolding missing_of_def by blast
  qed
  have some: "fe_fragments (mc_files m ! i) \<noteq> []" if "i < length (mc_files m)" for i using assms(4) that by (simp add: contents_match_def)
  show "good_run m raws msgs {} s"
  proof (rule good_runI)
    show "xr_pending s i = pending_state raws (fe_fragments (mc_files m ! i)) (missing_of m msgs s i)"
      if "i < length (mc_files m)" "length (fe_fragments (mc_files m ! i)) \<noteq> 1" for i
    proof -
      have "slots_of raws fs {..<length fs} = replicate (length fs) None" for fs by (auto simp: slots_of_def intro!: nth_equalityI)
      moreover have "1 < length (fe_fragments (mc_files m ! i))" using that(2) some[OF that(1)] by (cases "fe_fragments (mc_files m ! i)") auto
      ultimately show ?thesis using that(1) by (auto simp: s miss initial_pending_def pending_state_def Let_def)
    qed
    show "mc_files m ! i \<in> {} \<union> (\<Union>k < length msgs. queued s k)" if "i < length (mc_files m)" "missing_of m msgs s i = {}" for i
      using that some[OF that(1)] by (auto simp: miss)
  qed (use assms(2) in \<open>simp_all add: s file_at_def finished_of_def\<close>)
qed

lemma finished_result:
  assumes "good_run m raws msgs W s" "extract_inv sha1 m msgs W s" "tree_ok m" "honest unz m raws msgs" "all_finished msgs s"
    "raw_total 0 (mc_files m) = Inr bytes"
  shows "extract_result m True s = Inr (length (mc_files m), bytes)"
    "e \<in> set (mc_files m) \<Longrightarrow> d_nodes (xr_disk s) (names_of (fe_path e)) = Some (entry_node (e, file_bytes raws (fe_fragments e)))"
proof -
  have fin: "xr_stage s k = Finished" if "k < length msgs" for k using assms(5) that by (simp add: all_finished_def list_all_iff)
  have "missing_of m msgs s i = {}" for i using fin by (simp add: missing_of_def to_place_def)
  moreover have "(\<Union>k < length msgs. queued s k) = {}" using fin by (simp add: queued_def)
  ultimately have "set (mc_files m) \<subseteq> W" using good_runD(4)[OF assms(1)] by (auto simp: in_set_conv_nth)
  then have W: "W = set (mc_files m)" using extract_invD(1)[OF assms(2)] by blast
  show "e \<in> set (mc_files m) \<Longrightarrow> d_nodes (xr_disk s) (names_of (fe_path e)) = Some (entry_node (e, file_bytes raws (fe_fragments e)))"
    using good_runD(3)[OF assms(1)] W by (simp add: file_at_def)
  have "distinct (mc_files m)" using assms(3) by (auto simp: tree_ok_def dest: distinct_mapI)
  then have "card W = length (mc_files m)" using W distinct_card by blast
  moreover have "(\<Sum>k < length msgs. uncounted s k) = 0" using fin by (simp add: uncounted_def)
  ultimately have wr: "xr_written s = length (mc_files m)" using good_runD(5)[OF assms(1)] extract_invD(8)[OF assms(2)] by simp
  have "finished_of msgs s = {..<length msgs}" using fin by (auto simp: finished_of_def)
  then have "xr_results s = length (mc_frames m)" using good_runD(6)[OF assms(1)] honest_frames(1)[OF assms(4)] by simp
  then show "extract_result m True s = Inr (length (mc_files m), bytes)"
    using wr good_runD(7)[OF assms(1)] assms(6) by (simp add: extract_result_def)
qed

lemma extraction_restores:
  assumes "tree_ok m" "honest unz m raws msgs" "contents_match sha1 m raws" "raw_total 0 (mc_files m) = Inr bytes" "nothing_fails w"
    "\<And>k. k < length msgs \<Longrightarrow> length (frame_pairs m (fst (msgs ! k))) + 2 \<le> count_list schedule k"
  shows "\<exists>s d1. extract_start w m True \<lparr>d_nodes = \<lambda>_. None, d_escaped = False\<rparr> = (Inr s, d1)
    \<and> extract_result m True (run_schedule w unz sha1 m True msgs schedule s) = Inr (length (mc_files m), bytes)
    \<and> (\<forall>e \<in> set (mc_files m). d_nodes (xr_disk (run_schedule w unz sha1 m True msgs schedule s)) (names_of (fe_path e))
         = Some (entry_node (e, file_bytes raws (fe_fragments e))))"
proof -
  obtain s d1 where s: "extract_start w m True \<lparr>d_nodes = \<lambda>_. None, d_escaped = False\<rparr> = (Inr s, d1)"
      "\<And>e. e \<in> set (mc_files m) \<Longrightarrow> vacant (xr_disk s) (names_of (fe_path e))"
    using extract_start_total[OF assms(1,5) refl] by (metis (no_types, lifting))
  let ?s = "run_schedule w unz sha1 m True msgs schedule s"
  have "\<forall>msg \<in> set msgs. fst msg < 2 ^ 32" using honest_frames(2)[OF assms(2)] by (metis in_set_conv_nth)
  then have ok: "extractable m msgs" using assms(1,2) by (simp add: extractable_def tree_ok_def honest_def)
  note run = good_schedule[OF good_initial(1)[OF s assms(2,3)] extract_start_inv(1)[OF s(1)] assms(1,5,2,3) ok, of schedule]
  have "xr_stage ?s k = Finished" if "k < length msgs" for k
  proof -
    have "steps_left m msgs ?s k = 0" using run good_initial(2)[OF s assms(2,3), of k] assms(6)[OF that] that by simp
    then show ?thesis by (simp add: steps_left_def split: stage.splits)
  qed
  then have "all_finished msgs ?s" by (simp add: all_finished_def list_all_iff)
  then show ?thesis using run finished_result[OF _ _ assms(1,2) _ assms(4), where s = ?s] s(1) by blast
qed

text \<open>
  C18.  An archive whose frames all arrive with the right bytes is extracted into an empty directory by every schedule that
  lets each message run long enough: no step fails, the count is the number of files, and each file holds exactly the
  bytes of its fragments with the mode of its entry.
\<close>

theorem extraction_complete:
  assumes "tree_ok m" "honest unz m raws msgs" "contents_match sha1 m raws" "raw_total 0 (mc_files m) = Inr bytes" "nothing_fails w"
    "\<And>k. k < length msgs \<Longrightarrow> length (frame_pairs m (fst (msgs ! k))) + 2 \<le> count_list schedule k"
  shows "\<exists>s d1. extract_start w m True \<lparr>d_nodes = \<lambda>_. None, d_escaped = False\<rparr> = (Inr s, d1)
    \<and> extract_result m True (run_schedule w unz sha1 m True msgs schedule s) = Inr (length (mc_files m), bytes)
    \<and> (\<forall>e \<in> set (mc_files m). d_nodes (xr_disk (run_schedule w unz sha1 m True msgs schedule s)) (names_of (fe_path e))
         = Some (entry_node (e, file_bytes raws (fe_fragments e))))"
  using extraction_restores[OF assms] .

theorem extraction_complete_witness:
  "extract_result ex_split_table True (ex_extraction [0, 1, 1, 0, 1, 0, 0]) = Inr (2, 5)
     \<and> d_nodes (xr_disk (ex_extraction [0, 1, 1, 0, 1, 0, 0])) [''x'', ''a''] = Some (FileNode 420 ''abcd'')
     \<and> d_nodes (xr_disk (ex_extraction [0, 1, 1, 0, 1, 0, 0])) [''b''] = Some (FileNode 493 ''e'')"
proof -
  let ?m = ex_split_table and ?sch = "[0, 1, 1, 0, 1, 0, 0]" and ?raws = "[''abc'', ''de'']"
  have names: "names_of ''x/a'' = [''x'', ''a'']" "names_of ''b'' = [''b'']" by code_simp+
  have files: "mc_files ?m = [mc_files ?m ! 0, mc_files ?m ! 1]" by (simp add: ex_split_table_def)
  have at: "names_of (fe_path (mc_files ?m ! 0)) = [''x'', ''a'']" "names_of (fe_path (mc_files ?m ! 1)) = [''b'']"
    by (simp_all add: ex_split_table_def names)
  have "tree_ok ?m"
  proof -
    have "validate_relative_path ''x/a'' = Inr ()" "validate_relative_path ''b'' = Inr ()" by code_simp+
    moreover have "length (blob_object_id ex_blob_sha1 ''abcd'') = 20" "length (blob_object_id ex_blob_sha1 ''e'') = 20" by code_simp+
    ultimately show ?thesis by (auto simp: tree_ok_def tree_dirs_def ex_split_table_def names ALLOWED_MODES_def prefixes_of_def take_Cons')
  qed
  moreover have "honest (\<lambda>c _. Some c) ?m ?raws ex_messages"
    by (auto simp: honest_def ex_split_table_def ex_messages_def decompress_frame_def)
  moreover have "contents_match ex_blob_sha1 ?m ?raws"
    by (simp add: contents_match_def ex_split_table_def frag_in_def file_bytes_def frag_bytes_def seg_def)
  moreover have "raw_total 0 (mc_files ?m) = Inr 5" by code_simp
  moreover have "nothing_fails ex_world" by (simp add: nothing_fails_def ex_world_def)
  moreover have "length (frame_pairs ?m (fst (ex_messages ! k))) + 2 \<le> count_list ?sch k" if "k < length ex_messages" for k
  proof -
    have "length (frame_pairs ?m 0) = 1" "length (frame_pairs ?m 1) = 2" by code_simp+
    then show ?thesis using that by (auto simp: ex_messages_def less_Suc_eq)
  qed
  ultimately obtain s d1 where s: "extract_start ex_world ?m True ex_empty_disk = (Inr s, d1)"
    "extract_result ?m True (ex_extraction ?sch) = Inr (length (mc_files ?m), 5)"
    "\<forall>e \<in> set (mc_files ?m). d_nodes (xr_disk (ex_extraction ?sch)) (names_of (fe_path e)) = Some (entry_node (e, file_bytes ?raws (fe_fragments e)))"
    using extraction_complete[of ?m "\<lambda>c _. Some c" ?raws ex_messages ex_blob_sha1 5 ex_world ?sch]
    by (auto simp: ex_extraction_def ex_empty_disk_def)
  have "mc_files ?m ! 0 \<in> set (mc_files ?m)" "mc_files ?m ! 1 \<in> set (mc_files ?m)" by (simp_all add: ex_split_table_def)
  then show ?thesis using s(2,3) at
    by (auto simp: ex_split_table_def entry_node_def entry_permissions_def file_bytes_def frag_bytes_def seg_def)
qed

end
