(* ===== verification/Archive_Client.thy ===== *)
theory Archive_Client
  imports Archive_Tail Extract_Complete
begin

text \<open>
  From build to checkout: the bundles of an exact archive, fetched whole in any order, are the chunks the client
  computes from the frame table, and its extraction gives back the tree the archive was built from.
\<close>

section \<open>The chunks are the bundles\<close>

definition u64_MAX :: "64 word" where
  "u64_MAX = - 1"

text \<open>\<open>extract_archive_from_chunk_receiver\<close>: the chunks by the index of their bundle; a later one with the same index wins.\<close>

definition chunks_by_index :: "FrameInfo list \<Rightarrow> (nat \<Rightarrow> Chunk option) xresult" where
  "chunks_by_index frames = rbind (compute_chunks frames u64_MAX) (\<lambda>chunks. Inr (map_of (rev (map (\<lambda>c. (ck_index c, c)) chunks))))"

fun bundle_chunks :: "nat \<Rightarrow> nat \<Rightarrow> frame_data list list \<Rightarrow> Chunk list" where
  "bundle_chunks j a [] = []"
| "bundle_chunks j a (g # gs) = \<lparr>ck_index = j, ck_start_frame = a, ck_end_frame = a + length g, ck_byte_start = 0,
     ck_byte_end = of_nat (length (bundle_content g))\<rparr> # bundle_chunks (j + 1) (a + length g) gs"

lemma info_keyD:
  assumes "info_key f = (j, off, n, r)"
  shows "frame_chunk f = j" "unat (chunk_offset f) = off" "unat (compressed_len f) = n" "unat (frame_raw_len f) = r"
    "unat (u64_of_u32 (compressed_len f)) = n"
  using assms by (auto simp: info_key_def frame_chunk_def)

lemma checked_add_small:
  assumes "unat a = x" "unat b = y" "x + y < 2 ^ 64"
  shows "checked_add_u64 a b = Some (of_nat (x + y))"
proof -
  obtain r where r: "checked_add_u64 a b = Some r" "unat r = x + y" using checked_add_u64_ok[of a b] assms by blast
  then have "r = of_nat (x + y)" by (metis of_nat_unat ucast_id)
  then show ?thesis using r(1) by simp
qed

lemma not_past_max [simp]: "\<not> u64_MAX < l"
  using word_order.extremum[of l] by (simp add: u64_MAX_def not_less)

lemma small64: "n < 2 ^ 64 \<Longrightarrow> unat (of_nat n :: 64 word) = n"
  by (simp add: unat_of_nat take_bit_nat_eq_self)

lemma chunk_loop_same:
  assumes "info_key f = (j, off, n, r)" "L + n < 2 ^ 64"
  shows "chunk_loop u64_MAX cs start 0 (of_nat L) j i (f # rest) = chunk_loop u64_MAX cs start 0 (of_nat (L + n)) j (i + 1) rest"
proof -
  have "checked_add_u64 (of_nat L) (u64_of_u32 (compressed_len f)) = Some (of_nat (L + n))"
    using assms(2) by (intro checked_add_small info_keyD(5)[OF assms(1)] small64) auto
  then show ?thesis using info_keyD(1)[OF assms(1)] by (cases "of_nat L = (0 :: 64 word)") (simp_all add: Let_def ok_or_def)
qed

lemma chunk_loop_bundle:
  assumes "map info_key infos = places j off g" "L + length (bundle_content g) < 2 ^ 64"
  shows "chunk_loop u64_MAX cs start 0 (of_nat L) j i (infos @ rest)
    = chunk_loop u64_MAX cs start 0 (of_nat (L + length (bundle_content g))) j (i + length g) rest"
  using assms
proof (induction g arbitrary: infos off L i)
  case (Cons d g)
  obtain raw c where d: "d = (raw, c)" by fastforce
  obtain f fs where infos: "infos = f # fs" "info_key f = (j, off, length c, length raw)" "map info_key fs = places j (off + length c) g"
    using Cons.prems(1) d by (cases infos) auto
  have len: "length (bundle_content (d # g)) = length c + length (bundle_content g)" by (simp add: bundle_content_def d)
  show ?case using chunk_loop_same[OF infos(2)] Cons.IH[OF infos(3), of "L + length c" "i + 1"] Cons.prems(2) unfolding infos(1) len
    by (simp add: add.assoc)
qed (simp add: bundle_content_def)

lemma chunk_loop_bundles:
  assumes "map info_key infos = all_places (j + 1) gs" "[] \<notin> set gs" "L < 2 ^ 64" "\<forall>g \<in> set gs. length (bundle_content g) < 2 ^ 64"
  shows "\<exists>cs' start' L' j'. chunk_loop u64_MAX cs start 0 (of_nat L) j i infos = Inr (cs', start', 0, of_nat L', j') \<and> L' < 2 ^ 64
    \<and> rev (\<lparr>ck_index = j', ck_start_frame = start', ck_end_frame = i + length infos, ck_byte_start = 0, ck_byte_end = of_nat L'\<rparr> # cs')
      = rev cs @ \<lparr>ck_index = j, ck_start_frame = start, ck_end_frame = i, ck_byte_start = 0, ck_byte_end = of_nat L\<rparr> # bundle_chunks (j + 1) i gs"
  using assms
proof (induction gs arbitrary: infos j start L i cs)
  case (Cons g gs)
  obtain raw c g' where g: "g = (raw, c) # g'" using Cons.prems(2) by (cases g) auto
  define here there where "here = take (length g) infos" and "there = drop (length g) infos"
  have infos: "infos = here @ there" by (simp add: here_def there_def)
  have keys: "map info_key here = places (j + 1) 0 g" "map info_key there = all_places (j + 2) gs"
    using Cons.prems(1) by (simp_all add: here_def there_def flip: take_map drop_map)
  obtain f fs where here: "here = f # fs" "info_key f = (j + 1, 0, length c, length raw)" "map info_key fs = places (j + 1) (length c) g'"
    using keys(1) g by (cases here) auto
  have lens: "length infos = length g + length there" "length fs = length g'" "length g = Suc (length g')"
    using arg_cong[OF keys(1), of length] here(1) g by (simp_all add: infos)
  have total: "length (bundle_content g) = length c + length (bundle_content g')" by (simp add: bundle_content_def g)
  have fit: "length c + length (bundle_content g') < 2 ^ 64" using Cons.prems(4) total by simp
  let ?c = "\<lparr>ck_index = j, ck_start_frame = start, ck_end_frame = i, ck_byte_start = 0, ck_byte_end = of_nat L\<rparr>"
  have "chunk_offset f = 0" using info_keyD(2)[OF here(2)] by (simp add: unat_eq_0)
  moreover have "checked_add_u64 0 (of_nat L) = Some (of_nat L)" using checked_add_small[of 0 0 "of_nat L" L] small64[OF Cons.prems(3)] Cons.prems(3) by simp
  moreover have "checked_add_u64 0 (u64_of_u32 (compressed_len f)) = Some (of_nat (length c))"
    using checked_add_small[of 0 0, OF _ info_keyD(5)[OF here(2)]] fit by simp
  ultimately have "chunk_loop u64_MAX cs start 0 (of_nat L) j i infos = chunk_loop u64_MAX (?c # cs) i 0 (of_nat (length c)) (j + 1) (i + 1) (fs @ there)"
    using info_keyD(1)[OF here(2)] by (simp add: infos here(1) Let_def ok_or_def)
  also have "\<dots> = chunk_loop u64_MAX (?c # cs) i 0 (of_nat (length (bundle_content g))) (j + 1) (i + length g) there"
    using chunk_loop_bundle[OF here(3) fit] lens(3) total by simp
  finally have step: "chunk_loop u64_MAX cs start 0 (of_nat L) j i infos = \<dots>" .
  have "\<forall>g \<in> set gs. length (bundle_content g) < 2 ^ 64" "[] \<notin> set gs" "length (bundle_content g) < 2 ^ 64" using Cons.prems(2,4) by auto
  from Cons.IH[of there "j + 1" "length (bundle_content g)" "?c # cs" i "i + length g", OF _ this(2,3,1)]
  show ?case using keys(2) lens(1) unfolding step by (simp add: add.assoc)
qed auto

lemma compute_chunks_bundles:
  assumes "map info_key infos = all_places 0 groups" "[] \<notin> set groups" "\<forall>g \<in> set groups. length (bundle_content g) < 2 ^ 64"
  shows "compute_chunks infos u64_MAX = Inr (bundle_chunks 0 0 groups)"
proof (cases groups)
  case Nil
  then show ?thesis using assms(1) by (simp add: compute_chunks_def)
next
  case (Cons g gs)
  have ne: "infos \<noteq> []" "frame_chunk (hd infos) = 0"
  proof -
    obtain raw c g' where "g = (raw, c) # g'" using assms(2) Cons by (cases g) auto
    then obtain f fs where "infos = f # fs" "info_key f = (0, 0, length c, length raw)" using assms(1) Cons by (cases infos) auto
    then show "infos \<noteq> []" "frame_chunk (hd infos) = 0" using info_keyD(1) by auto
  qed
  define here there where "here = take (length g) infos" and "there = drop (length g) infos"
  have infos: "infos = here @ there" by (simp add: here_def there_def)
  have keys: "map info_key here = places 0 0 g" "map info_key there = all_places (0 + 1) gs"
    using assms(1) Cons by (simp_all add: here_def there_def flip: take_map drop_map)
  have lens: "length here = length g" using arg_cong[OF keys(1), of length] by simp
  have g: "length (bundle_content g) < 2 ^ 64" "[] \<notin> set gs" "\<forall>g \<in> set gs. length (bundle_content g) < 2 ^ 64" using assms(2,3) Cons by auto
  have "chunk_loop u64_MAX [] 0 0 0 0 0 infos = chunk_loop u64_MAX [] 0 0 (of_nat (length (bundle_content g))) 0 (length g) there"
    using chunk_loop_bundle[OF keys(1), of 0] g(1) by (simp add: infos)
  then obtain cs' start' L' j' where loop: "chunk_loop u64_MAX [] 0 0 0 0 0 infos = Inr (cs', start', 0, of_nat L', j')" "L' < 2 ^ 64"
    "rev (\<lparr>ck_index = j', ck_start_frame = start', ck_end_frame = length g + length there, ck_byte_start = 0, ck_byte_end = of_nat L'\<rparr> # cs')
      = bundle_chunks 0 0 groups"
    using chunk_loop_bundles[OF keys(2) g(2,1,3), of "[]" 0 "length g"] Cons by auto
  have "(case infos of [] \<Rightarrow> 0 | f # _ \<Rightarrow> frame_chunk f) = 0" using ne by (cases infos) auto
  moreover have "checked_add_u64 0 (of_nat L') = Some (of_nat L')" using checked_add_small[of 0 0 "of_nat L'" L'] small64[OF loop(2)] loop(2) by simp
  moreover have "length infos = length g + length there" by (simp add: infos lens)
  ultimately show ?thesis using loop(1,3) ne(1) by (simp add: compute_chunks_def ok_or_def)
qed

text \<open>The chunk map of an exact archive has one chunk for each bundle: all the bundle's frames.\<close>

definition bundle_chunk :: "frame_data list list \<Rightarrow> nat \<Rightarrow> Chunk" where
  "bundle_chunk groups j = \<lparr>ck_index = j, ck_start_frame = pos_of groups j, ck_end_frame = pos_of groups (Suc j), ck_byte_start = 0,
     ck_byte_end = of_nat (length (bundle_content (groups ! j)))\<rparr>"

lemma bundle_chunks_map:
  "bundle_chunks j (length (concat before)) gs = map (\<lambda>i. (bundle_chunk (before @ gs) (length before + i))\<lparr>ck_index := j + i\<rparr>) [0..<length gs]"
proof (induction gs arbitrary: j before)
  case (Cons g gs)
  have "[0..<length (g # gs)] = 0 # map Suc [0..<length gs]" by (simp add: upt_conv_Cons map_Suc_upt del: upt_Suc)
  moreover have "bundle_chunks (j + 1) (length (concat before) + length g) gs
      = map (\<lambda>i. (bundle_chunk (before @ g # gs) (length before + Suc i))\<lparr>ck_index := j + Suc i\<rparr>) [0..<length gs]"
    using Cons.IH[of "j + 1" "before @ [g]"] by (simp add: add.commute)
  moreover have "(bundle_chunk (before @ g # gs) (length before + 0))\<lparr>ck_index := j + 0\<rparr> = \<lparr>ck_index = j, ck_start_frame = length (concat before),
      ck_end_frame = length (concat before) + length g, ck_byte_start = 0, ck_byte_end = of_nat (length (bundle_content g))\<rparr>"
    by (simp add: bundle_chunk_def pos_of_def)
  ultimately show ?case by (simp add: comp_def del: upt_Suc)
qed simp

lemma chunks_by_index_bundles:
  assumes "map info_key infos = all_places 0 groups" "[] \<notin> set groups" "\<forall>g \<in> set groups. length (bundle_content g) < 2 ^ 64"
  obtains chunks where "chunks_by_index infos = Inr chunks" "\<And>j. j < length groups \<Longrightarrow> chunks j = Some (bundle_chunk groups j)"
proof -
  have "map (\<lambda>c. (ck_index c, c)) (bundle_chunks 0 0 groups) = map (\<lambda>i. (i, bundle_chunk groups i)) [0..<length groups]"
    using bundle_chunks_map[of 0 "[]" groups] by (simp add: bundle_chunk_def)
  moreover have "map_of (rev (map (\<lambda>i. (i, bundle_chunk groups i)) [0..<length groups])) j = Some (bundle_chunk groups j)" if "j < length groups" for j
    using that by (intro map_of_is_SomeI) (auto simp: rev_map comp_def)
  ultimately show ?thesis using that compute_chunks_bundles[OF assms] by (simp add: chunks_by_index_def)
qed

section \<open>The frames cut from the bundles\<close>

lemma places_nth:
  "k < length g \<Longrightarrow> places j off g ! k = (j, off + length (concat (map snd (take k g))), length (snd (g ! k)), length (fst (g ! k)))"
proof (induction g arbitrary: off k)
  case (Cons d g)
  then show ?case by (cases d; cases k) auto
qed simp

lemma pos_of_Cons: "pos_of (r # rs) (Suc k) = length r + pos_of rs k"
  by (simp add: pos_of_def)

lemma concat_nth_in:
  assumes "j < length gs" "k < length (gs ! j)"
  shows "concat gs ! (pos_of gs j + k) = gs ! j ! k"
  using assms
proof (induction gs arbitrary: j)
  case (Cons g gs)
  then show ?case by (cases j) (simp_all add: nth_append pos_of_Cons add.assoc)
qed simp

lemma concat_index:
  assumes "i < length (concat gs)"
  obtains j k where "j < length gs" "k < length (gs ! j)" "i = pos_of gs j + k"
  using assms
proof (induction gs arbitrary: i thesis)
  case (Cons g gs)
  show ?case
  proof (cases "i < length g")
    case True
    then show ?thesis using Cons.prems(1)[of 0 i] by simp
  next
    case False
    then have "i - length g < length (concat gs)" using Cons.prems(2) by simp
    then obtain j k where "j < length gs" "k < length (gs ! j)" "i - length g = pos_of gs j + k" using Cons.IH by blast
    then show ?thesis using Cons.prems(1)[of "Suc j" k] False by (simp add: pos_of_Cons)
  qed
qed simp

lemma all_places_concat: "all_places a gs = concat (map (\<lambda>j. places (a + j) 0 (gs ! j)) [0..<length gs])"
proof (induction gs arbitrary: a)
  case (Cons g gs)
  have "[0..<length (g # gs)] = 0 # map Suc [0..<length gs]" by (simp add: upt_conv_Cons map_Suc_upt del: upt_Suc)
  then show ?case using Cons.IH[of "a + 1"] by (simp add: comp_def del: upt_Suc)
qed simp

lemma all_places_nth:
  assumes "j < length gs" "k < length (gs ! j)"
  shows "all_places a gs ! (pos_of gs j + k) = places (a + j) 0 (gs ! j) ! k"
proof -
  let ?ps = "map (\<lambda>j. places (a + j) 0 (gs ! j)) [0..<length gs]"
  have "map length (take j ?ps) = map length (take j gs)" using assms(1) by (auto intro: nth_equalityI)
  then have "pos_of ?ps j = pos_of gs j" by (simp add: pos_of_def length_concat)
  then show ?thesis using concat_nth_in[of j ?ps k] assms by (simp add: all_places_concat)
qed

lemma bundle_slice:
  assumes "map info_key infos = all_places 0 groups" "j < length groups" "k < length (groups ! j)" "length (bundle_content (groups ! j)) < 2 ^ 64"
  shows "slice_archive_frame (bundle_content (groups ! j)) (bundle_chunk groups j) (infos ! (pos_of groups j + k)) i = Inr (snd (groups ! j ! k))"
proof -
  let ?g = "groups ! j" and ?f = "infos ! (pos_of groups j + k)"
  have "pos_of groups j + k < pos_of groups (Suc j)" using assms(2,3) by (simp add: pos_of_Suc)
  then have "pos_of groups j + k < length infos" using pos_of_le[of groups "Suc j"] arg_cong[OF assms(1), of length] by simp
  then have "info_key ?f = all_places 0 groups ! (pos_of groups j + k)" using assms(1) by (metis nth_map)
  then have key: "info_key ?f = (j, length (concat (map snd (take k ?g))), length (snd (?g ! k)), length (fst (?g ! k)))"
    using all_places_nth[OF assms(2,3), of 0] places_nth[OF assms(3), of j 0] by simp
  have parts: "bundle_content ?g = concat (map snd (take k ?g)) @ snd (?g ! k) @ concat (map snd (drop (Suc k) ?g))"
    unfolding bundle_content_def by (subst id_take_nth_drop[OF assms(3)]) simp
  show ?thesis using info_keyD(2,3)[OF key] assms(4) unfolding parts
    by (simp add: slice_archive_frame_def bundle_chunk_def Let_def get_range_def)
qed

lemma bundle_messages:
  assumes "map info_key (mc_frames m) = all_places 0 groups" "j < length groups" "length (bundle_content (groups ! j)) < 2 ^ 64"
    "chunks j = Some (bundle_chunk groups j)"
  shows "chunk_messages chunks m (j, Some (bundle_content (groups ! j)))
    = map (\<lambda>i. (i, Inr (snd (concat groups ! i)))) [pos_of groups j..<pos_of groups (Suc j)]"
proof -
  have "slice_archive_frame (bundle_content (groups ! j)) (bundle_chunk groups j) (mc_frames m ! i) i = Inr (snd (concat groups ! i))"
    if "i \<in> set [pos_of groups j..<pos_of groups (Suc j)]" for i
  proof -
    have "i - pos_of groups j < length (groups ! j)" "pos_of groups j + (i - pos_of groups j) = i"
      using that assms(2) by (auto simp: pos_of_Suc)
    then show ?thesis
      using bundle_slice[OF assms(1,2) _ assms(3), of "i - pos_of groups j" i] concat_nth_in[OF assms(2), of "i - pos_of groups j"] by simp
  qed
  then show ?thesis using assms(4) by (simp add: chunk_messages_def) (simp add: bundle_chunk_def)
qed

lemma pos_of_tiles: "n \<le> length rs \<Longrightarrow> concat (map (\<lambda>j. [pos_of rs j..<pos_of rs (Suc j)]) [0..<n]) = [0..<pos_of rs n]"
proof (induction n)
  case (Suc n)
  have "pos_of rs n \<le> pos_of rs (Suc n)" by (rule pos_of_mono) simp
  then show ?case using Suc upt_add_eq_append[of 0 "pos_of rs n" "pos_of rs (Suc n) - pos_of rs n"] by simp
qed simp

lemma all_messages:
  assumes "map info_key (mc_frames m) = all_places 0 groups" "\<forall>g \<in> set groups. length (bundle_content g) < 2 ^ 64"
    "\<And>j. j < length groups \<Longrightarrow> chunks j = Some (bundle_chunk groups j)"
  shows "concat (map (\<lambda>j. chunk_messages chunks m (j, Some (bundle_content (groups ! j)))) [0..<length groups])
    = map (\<lambda>i. (i, Inr (snd (concat groups ! i)))) [0..<length (mc_frames m)]"
proof -
  have "map (\<lambda>j. chunk_messages chunks m (j, Some (bundle_content (groups ! j)))) [0..<length groups]
      = map (map (\<lambda>i. (i, Inr (snd (concat groups ! i))))) (map (\<lambda>j. [pos_of groups j..<pos_of groups (Suc j)]) [0..<length groups])" (is "?l = ?r")
    using bundle_messages[OF assms(1)] assms(2,3) by simp
  then have "concat ?l = map (\<lambda>i. (i, Inr (snd (concat groups ! i)))) (concat (map (\<lambda>j. [pos_of groups j..<pos_of groups (Suc j)]) [0..<length groups]))"
    unfolding map_concat by (rule arg_cong)
  moreover have "length (mc_frames m) = pos_of groups (length groups)" using arg_cong[OF assms(1), of length] by (simp add: pos_of_end)
  ultimately show ?thesis using pos_of_tiles[of "length groups" groups] by simp
qed

section \<open>The tree comes back\<close>

text \<open>What git guarantees of a commit's tree and its blobs' ids.\<close>

definition git_tree :: "(string \<Rightarrow> 8 word list) \<Rightarrow> (oid \<Rightarrow> string option) \<Rightarrow> string list \<times> Blob list \<Rightarrow> bool" where
  "git_tree sha1 find_blob tree \<longleftrightarrow> (\<forall>(path, oid, mode) \<in> set (snd tree). validate_relative_path path = Inr () \<and> mode \<in> set ALLOWED_MODES \<and> length oid = 20
       \<and> (\<forall>content. find_blob oid = Some content \<longrightarrow> blob_object_id sha1 content = oid))
     \<and> (\<forall>g \<in> set (fst tree). validate_relative_path g = Inr ()) \<and> distinct (map (names_of \<circ> fst) (snd tree))
     \<and> (\<forall>b \<in> set (snd tree). \<forall>q \<in> (\<lambda>b. butlast (names_of (fst b))) ` set (snd tree) \<union> names_of ` set (fst tree). names_of (fst b) \<notin> prefixes_of q)"

lemma exact_files:
  assumes "archive_exact hash unz find_blob tree frames m bundles groups"
  shows "snd tree = map (\<lambda>e. (fe_path e, fe_blob_sha1 e, fe_mode e)) (mc_files m)" "fst tree = mc_gitlinks m"
    "e \<in> set (mc_files m) \<Longrightarrow> fe_fragments e \<noteq> [] \<and> (\<forall>f \<in> set (fe_fragments e). frag_in (raw_frames groups) f)
       \<and> find_blob (fe_blob_sha1 e) = Some (file_bytes (raw_frames groups) (fe_fragments e))"
proof -
  let ?R = "\<lambda>blob file. \<exists>content. find_blob (fst (snd blob)) = Some content \<and> entry_exact (raw_frames groups) blob content file"
  have files: "list_all2 ?R (snd tree) (mc_files m)" and links: "mc_gitlinks m = fst tree" using assms by (simp_all add: archive_exact_def)
  show "fst tree = mc_gitlinks m" using links by simp
  show "snd tree = map (\<lambda>e. (fe_path e, fe_blob_sha1 e, fe_mode e)) (mc_files m)"
    using files by (auto simp: list_all2_conv_all_nth entry_exact_def intro!: nth_equalityI)
  show "fe_fragments e \<noteq> [] \<and> (\<forall>f \<in> set (fe_fragments e). frag_in (raw_frames groups) f)
       \<and> find_blob (fe_blob_sha1 e) = Some (file_bytes (raw_frames groups) (fe_fragments e))" if "e \<in> set (mc_files m)"
  proof -
    obtain i where i: "i < length (mc_files m)" "mc_files m ! i = e" using \<open>e \<in> set (mc_files m)\<close> by (auto simp: in_set_conv_nth)
    then have "?R (snd tree ! i) e" using list_all2_nthD2[OF files i(1)] by simp
    then show ?thesis by (auto simp: entry_exact_def)
  qed
qed

lemma exact_tree_ok:
  assumes "archive_exact hash unz find_blob tree frames m bundles groups" "git_tree sha1 find_blob tree"
  shows "tree_ok m" "contents_match sha1 m (raw_frames groups)"
proof -
  note files = exact_files[OF assms(1)]
  note tree = assms(2)[unfolded git_tree_def]
  show "tree_ok m" using tree unfolding files(1,2) tree_ok_def tree_dirs_def by (auto simp: comp_def image_image)
  show "contents_match sha1 m (raw_frames groups)" unfolding contents_match_def
  proof
    fix e assume e: "e \<in> set (mc_files m)"
    have "\<forall>content. find_blob (fe_blob_sha1 e) = Some content \<longrightarrow> blob_object_id sha1 content = fe_blob_sha1 e"
      using conjunct1[OF tree] e unfolding files(1) by auto
    then show "fe_fragments e \<noteq> [] \<and> (\<forall>f \<in> set (fe_fragments e). frag_in (raw_frames groups) f)
       \<and> blob_object_id sha1 (file_bytes (raw_frames groups) (fe_fragments e)) = fe_blob_sha1 e" using files(3)[OF e] by simp
  qed
qed

lemma exact_honest:
  assumes "archive_ok hash unz frames (mc_frames m) bundles groups" "length (mc_frames m) \<le> 2 ^ 32"
    "mset msgs = mset (map (\<lambda>i. (i, Inr (snd (concat groups ! i)))) [0..<length (mc_frames m)])"
  shows "honest unz m (map fst (concat groups)) msgs"
proof -
  have keys: "map info_key (mc_frames m) = all_places 0 groups" and frames: "list_all2 (frame_ok hash unz) frames (concat groups)"
    using assms(1) by (simp_all add: archive_ok_def)
  have len: "length (mc_frames m) = length (concat groups)" using arg_cong[OF keys, of length] by simp
  have set: "set msgs = (\<lambda>i. (i, Inr (snd (concat groups ! i)))) ` {..<length (mc_frames m)}" using arg_cong[OF assms(3), of set_mset] by (simp add: lessThan_atLeast0)
  have "mset (map fst msgs) = mset [0..<length (mc_frames m)]" using arg_cong[OF assms(3), of "image_mset fst"] by (simp add: multiset.map_comp comp_def)
  then have dist: "distinct (map fst msgs)" by (metis distinct_upt mset_eq_imp_distinct_iff)
  have "decompress_frame unz (snd (concat groups ! i)) (mc_frames m ! i) i = Inr (fst (concat groups ! i))
      \<and> length (fst (concat groups ! i)) = unat (frame_raw_len (mc_frames m ! i))" if i: "i < length (mc_frames m)" for i
  proof -
    obtain raw c where d: "concat groups ! i = (raw, c)" by fastforce
    have "frame_ok hash unz (frames ! i) (raw, c)" using frames i len d by (metis list_all2_conv_all_nth)
    then have inflate: "inflates unz raw c" by (simp add: frame_ok_def)
    have "info_key (mc_frames m ! i) = all_places 0 groups ! i" using keys i by (metis nth_map)
    moreover obtain j k where jk: "j < length groups" "k < length (groups ! j)" "i = pos_of groups j + k"
      using concat_index[of i groups] i len by auto
    ultimately have key: "info_key (mc_frames m ! i) = (j, length (concat (map snd (take k (groups ! j)))), length c, length raw)"
      using all_places_nth[OF jk(1,2), of 0] places_nth[OF jk(2), of j 0] concat_nth_in[OF jk(1,2)] d by simp
    show ?thesis using info_keyD(3,4)[OF key] inflate d by (auto simp: decompress_frame_def inflates_def ok_or_def unat_eq_0)
  qed
  then show ?thesis using assms(2) set dist len by (auto simp: honest_def image_image)
qed

text \<open>The bytes of the bundles as the client receives them: checked against their names, each of a length that fits.\<close>

definition bundles_received :: "(string \<Rightarrow> string) \<Rightarrow> string list \<Rightarrow> (nat \<Rightarrow> string) \<Rightarrow> bool" where
  "bundles_received hash bundles bytes \<longleftrightarrow>
     (\<forall>i < length bundles. hash (bytes i) = bundles ! i \<and> resists hash (bytes i) \<and> length (bytes i) < 2 ^ 64)"

definition bundle_arrivals :: "(nat \<Rightarrow> Chunk option) \<Rightarrow> MetadataChunk \<Rightarrow> (nat \<Rightarrow> string) \<Rightarrow> nat \<Rightarrow> frame_message list" where
  "bundle_arrivals chunks m bytes n = concat (map (\<lambda>i. chunk_messages chunks m (i, Some (bytes i))) [0..<n])"

text \<open>Whether the extraction of \<open>m\<close> from \<open>msgs\<close> under \<open>schedule\<close> checks out \<open>tree\<close>.\<close>

definition checks_out ::
    "world \<Rightarrow> (string \<Rightarrow> nat \<Rightarrow> string option) \<Rightarrow> (string \<Rightarrow> 8 word list) \<Rightarrow> (oid \<Rightarrow> string option) \<Rightarrow> string list \<times> Blob list \<Rightarrow> MetadataChunk
       \<Rightarrow> frame_message list \<Rightarrow> nat list \<Rightarrow> bool" where
  "checks_out w unz sha1 find_blob tree m msgs schedule \<longleftrightarrow>
     (case extract_start w m True \<lparr>d_nodes = \<lambda>_. None, d_escaped = False\<rparr> of
        (Inl _, _) \<Rightarrow> False
      | (Inr s, _) \<Rightarrow>
          (let s' = run_schedule w unz sha1 m True msgs schedule s in
           is_ok (extract_result m True s')
           \<and> (\<forall>(path, oid, mode) \<in> set (snd tree). \<exists>content. find_blob oid = Some content
                \<and> d_nodes (xr_disk s') (names_of path)
                  = Some (if mode = 40960 then LinkNode content else FileNode (if mode = 33261 then 493 else 420) content))))"

lemma exact_archive_checks_out:
  assumes "archive_exact hash unz find_blob tree frames m bundles groups" "git_tree sha1 find_blob tree" "nothing_fails w"
    "bundles_received hash bundles bytes" "length (mc_frames m) \<le> 2 ^ 32" "raw_total 0 (mc_files m) = Inr total'"
  obtains chunks where "chunks_by_index (mc_frames m) = Inr chunks"
    "\<And>msgs schedule. mset msgs = mset (bundle_arrivals chunks m bytes (length bundles)) \<Longrightarrow>
       (\<And>k. k < length msgs \<Longrightarrow> length (frame_pairs m (fst (msgs ! k))) + 2 \<le> count_list schedule k) \<Longrightarrow>
       checks_out w unz sha1 find_blob tree m msgs schedule"
proof -
  have ok: "archive_ok hash unz frames (mc_frames m) bundles groups" using assms(1) by (simp add: archive_exact_def)
  have keys: "map info_key (mc_frames m) = all_places 0 groups" "[] \<notin> set groups" and names: "bundles = map (hash \<circ> bundle_content) groups"
    using ok by (simp_all add: archive_ok_def)
  have bytes: "bytes j = bundle_content (groups ! j)" "length (bundle_content (groups ! j)) < 2 ^ 64" if "j < length groups" for j
  proof -
    have "hash (bytes j) = hash (bundle_content (groups ! j))" "resists hash (bytes j)" "length (bytes j) < 2 ^ 64"
      using assms(4) that names by (auto simp: bundles_received_def)
    then show "bytes j = bundle_content (groups ! j)" "length (bundle_content (groups ! j)) < 2 ^ 64" by (auto simp: resists_def)
  qed
  have small: "\<forall>g \<in> set groups. length (bundle_content g) < 2 ^ 64" using bytes(2) by (metis in_set_conv_nth)
  obtain chunks where chunks: "chunks_by_index (mc_frames m) = Inr chunks" "\<And>j. j < length groups \<Longrightarrow> chunks j = Some (bundle_chunk groups j)"
    by (rule chunks_by_index_bundles[OF keys small]) blast
  have "map (\<lambda>i. chunk_messages chunks m (i, Some (bytes i))) [0..<length groups]
      = map (\<lambda>i. chunk_messages chunks m (i, Some (bundle_content (groups ! i)))) [0..<length groups]" using bytes(1) by simp
  then have arrivals: "bundle_arrivals chunks m bytes (length bundles) = map (\<lambda>i. (i, Inr (snd (concat groups ! i)))) [0..<length (mc_frames m)]"
    unfolding bundle_arrivals_def names length_map by (simp only: all_messages[OF keys(1) small chunks(2)])
  note files = exact_files[OF assms(1)] and tree = exact_tree_ok[OF assms(1,2)]
  have run: "checks_out w unz sha1 find_blob tree m msgs schedule"
    if msgs: "mset msgs = mset (bundle_arrivals chunks m bytes (length bundles))"
      "\<And>k. k < length msgs \<Longrightarrow> length (frame_pairs m (fst (msgs ! k))) + 2 \<le> count_list schedule k" for msgs schedule
  proof -
    have honest: "honest unz m (raw_frames groups) msgs"
      using exact_honest[OF ok assms(5)] msgs(1) unfolding arrivals raw_frames_def by blast
    obtain s d1 where s: "extract_start w m True \<lparr>d_nodes = \<lambda>_. None, d_escaped = False\<rparr> = (Inr s, d1)"
      "extract_result m True (run_schedule w unz sha1 m True msgs schedule s) = Inr (length (mc_files m), total')"
      "\<forall>e \<in> set (mc_files m). d_nodes (xr_disk (run_schedule w unz sha1 m True msgs schedule s)) (names_of (fe_path e))
         = Some (entry_node (e, file_bytes (raw_frames groups) (fe_fragments e)))"
      using extraction_restores[OF tree(1) honest tree(2) assms(6,3) msgs(2)] by blast
    show ?thesis unfolding checks_out_def s(1) Let_def files(1)
      using s(2,3) files(3) by (auto simp: entry_node_def entry_permissions_def)
  qed
  show ?thesis by (rule that[OF chunks(1) run])
qed


definition ex_git_blob :: "oid \<Rightarrow> string option" where
  "ex_git_blob i = (if i = blob_object_id ex_blob_sha1 ''abcd'' then Some ''abcd'' else if i = blob_object_id ex_blob_sha1 ''e'' then Some ''e'' else None)"

definition ex_git_tree :: "string list \<times> Blob list" where
  "ex_git_tree = ([''sub''], [(''x/a'', blob_object_id ex_blob_sha1 ''abcd'', 33188), (''b'', blob_object_id ex_blob_sha1 ''e'', 33261)])"

definition ex_name :: "string \<Rightarrow> string" where
  "ex_name s = (if s = ''ab'' then ''1'' else if s = ''cd'' then ''2'' else if s = ''e'' then ''3'' else if s = ''abcd'' then ''4'' else ''0'')"

definition ex_git_build :: "ArchiveBuildOutput aresult" where
  "ex_git_build = build_into_cas ex_git_blob (\<lambda>i. map_option length (ex_git_blob i)) (ex_cuts 0) (ex_cuts 0) ex_name Inr 1 ex_git_tree Map.empty None None 4"

lemma ex_git_tree_ok: "git_tree ex_blob_sha1 ex_git_blob ex_git_tree"
proof -
  have names: "names_of ''x/a'' = [''x'', ''a'']" "names_of ''b'' = [''b'']" "names_of ''sub'' = [''sub'']" by code_simp+
  have "validate_relative_path ''x/a'' = Inr ()" "validate_relative_path ''b'' = Inr ()" "validate_relative_path ''sub'' = Inr ()" by code_simp+
  moreover have "length (blob_object_id ex_blob_sha1 ''abcd'') = 20" "length (blob_object_id ex_blob_sha1 ''e'') = 20" by code_simp+
  ultimately show ?thesis
    by (auto simp: git_tree_def ex_git_tree_def ex_git_blob_def names ALLOWED_MODES_def prefixes_of_def take_Cons')
qed

definition ex_bundles :: "nat \<Rightarrow> string" where
  "ex_bundles i = (if i = 0 then ''abcd'' else ''e'')"

definition ex_git_metadata :: MetadataChunk where
  "ex_git_metadata = \<lparr>mc_frames = [\<lparr>chunk_index = 0, chunk_offset = 0, compressed_len = 2, frame_raw_len = 2\<rparr>,
       \<lparr>chunk_index = 0, chunk_offset = 2, compressed_len = 2, frame_raw_len = 2\<rparr>, \<lparr>chunk_index = 1, chunk_offset = 0, compressed_len = 1, frame_raw_len = 1\<rparr>],
     mc_files = [\<lparr>fe_path = ''x/a'', fe_mode = 33188, fe_blob_sha1 = blob_object_id ex_blob_sha1 ''abcd'',
         fe_fragments = [\<lparr>frame_index = 0, frame_offset = 0, frag_raw_len = 2\<rparr>, \<lparr>frame_index = 1, frame_offset = 0, frag_raw_len = 2\<rparr>]\<rparr>,
       \<lparr>fe_path = ''b'', fe_mode = 33261, fe_blob_sha1 = blob_object_id ex_blob_sha1 ''e'',
         fe_fragments = [\<lparr>frame_index = 2, frame_offset = 0, frag_raw_len = 1\<rparr>]\<rparr>],
     mc_gitlinks = [''sub'']\<rparr>"

lemma ex_git_build_ok: "is_ok ex_git_build" "ao_bundles (projr ex_git_build) = [''4'', ''3'']"
  by code_simp+

lemma ex_git_build_metadata: "ao_metadata (projr ex_git_build) = ex_git_metadata"
  by code_simp

lemma ex_git_metadata_ok: "length (mc_frames ex_git_metadata) = 3" "raw_total 0 (mc_files ex_git_metadata) = Inr 5"
  "map (\<lambda>i. length (frame_pairs ex_git_metadata i)) [0, 1, 2] = [1, 1, 1]"
  by code_simp+

lemma ex_git_compute_chunks:
  "rbind (compute_chunks (mc_frames ex_git_metadata) u64_MAX) (\<lambda>cs. Inr (map (\<lambda>c. (ck_index c, ck_start_frame c, ck_end_frame c)) cs))
     = Inr [(0, 0, 2), (1, 2, 3)]"
  by code_simp

lemma chunk_messages_frames:
  "chunks idx = Some c \<Longrightarrow> map fst (chunk_messages chunks m (idx, r)) = [ck_start_frame c..<ck_end_frame c]"
  by (simp add: chunk_messages_def comp_def)

lemma ex_git_chunks:
  assumes "chunks_by_index (mc_frames ex_git_metadata) = Inr chunks"
  shows "map fst (bundle_arrivals chunks ex_git_metadata bytes 2) = [0, 1, 2]"
proof -
  obtain c d where cs: "compute_chunks (mc_frames ex_git_metadata) u64_MAX = Inr [c, d]" "ck_index c = 0" "ck_index d = 1"
    "ck_start_frame c = 0" "ck_end_frame c = 2" "ck_start_frame d = 2" "ck_end_frame d = 3"
    using ex_git_compute_chunks by (cases "compute_chunks (mc_frames ex_git_metadata) u64_MAX") (auto simp: map_eq_Cons_conv)
  then have at: "chunks 0 = Some c" "chunks 1 = Some d" using assms by (auto simp: chunks_by_index_def)
  have "[0..<2] = [0, 1 :: nat]" "[0..<2] = [0, 1 :: nat]" "[2..<3] = [2 :: nat]" by (simp_all add: upt_rec)
  then show ?thesis
    using chunk_messages_frames[of chunks 0 c ex_git_metadata, OF at(1)] chunk_messages_frames[of chunks 1 d ex_git_metadata, OF at(2)] cs
    by (simp add: bundle_arrivals_def map_concat)
qed


end
