(* ===== verification/Cas.thy ===== *)
theory Cas
  imports Archive
begin

text \<open>
  The content-addressed store of \<open>src/rust/src/cas.rs\<close>: objects in files named by their hash, written to a temporary
  file and renamed into place.  A store is the map from ids to the bytes of the object files, with what a crash
  cannot take away (the objects whose bytes and directory entry were synced), the build's pins and the calls of
  \<open>on_store\<close>.  SHA-1 and SHA-256 in hex are parameters; which file system calls fail is a parameter too.  Temporary
  files, the fan-out directories and times are left out.
\<close>

section \<open>Data\<close>

record hashes =
  hs_sha1 :: "string \<Rightarrow> string"
  hs_sha256 :: "string \<Rightarrow> string"

record cas =
  cs_objects :: "string \<Rightarrow> string option"
  cs_synced :: "string set"
  cs_durable :: bool
  cs_pins :: "string set"
  cs_stored :: "string list"

text \<open>
  Failures by object id: of writing or syncing the temporary file, of the rename with its copy fallback, and of the
  sync of the directory after it.
\<close>

record cas_world =
  cw_write_fails :: "string \<Rightarrow> bool"
  cw_rename_fails :: "string \<Rightarrow> bool"
  cw_sync_fails :: "string \<Rightarrow> bool"
  cw_remove_fails :: "string \<Rightarrow> bool"

datatype cas_op_error = ObjectIdLength | ObjectIdHex | ObjectMissing string | ObjectCorrupt string | ContentMismatch string string
  | WriteFailed | RenameFailed string | SyncFailed | RangeEndOverflow | RangeExceeds string | RemoveFailed string

type_synonym 'a cas_result = "(cas_op_error, 'a) result"

section \<open>Ids and hashes\<close>

definition validate_cas_object_id :: "string \<Rightarrow> unit cas_result" where
  "validate_cas_object_id h =
     (if length h \<noteq> 40 \<and> length h \<noteq> 64 then Inl ObjectIdLength
      else if \<not> is_ok (validate_lowercase_hex h) then Inl ObjectIdHex else Inr ())"

definition object_hash :: "hashes \<Rightarrow> string \<Rightarrow> string \<Rightarrow> string" where
  "object_hash hs h data = (if length h = 40 then hs_sha1 hs data else hs_sha256 hs data)"

definition hash_bytes_for_object_id :: "hashes \<Rightarrow> string \<Rightarrow> string \<Rightarrow> string cas_result" where
  "hash_bytes_for_object_id hs h data = rbind (validate_cas_object_id h) (\<lambda>_. Inr (object_hash hs h data))"

section \<open>Reading\<close>

definition object_bytes :: "string \<Rightarrow> cas \<Rightarrow> string cas_result" where
  "object_bytes h c = rbind (validate_cas_object_id h) (\<lambda>_. ok_or (ObjectMissing h) (cs_objects c h))"

definition cas_get :: "hashes \<Rightarrow> string \<Rightarrow> cas \<Rightarrow> string cas_result" where
  "cas_get hs h c =
     rbind (object_bytes h c) (\<lambda>data.
     rbind (hash_bytes_for_object_id hs h data) (\<lambda>actual.
     if actual \<noteq> h then Inl (ObjectCorrupt h) else Inr data))"

definition read_fresh :: "string \<Rightarrow> cas \<Rightarrow> string cas_result" where
  "read_fresh h c = object_bytes h c"

definition cas_get_range :: "string \<Rightarrow> nat \<Rightarrow> nat \<Rightarrow> cas \<Rightarrow> string cas_result" where
  "cas_get_range h start len c =
     rbind (object_bytes h c) (\<lambda>data.
     if 2 ^ 64 \<le> start + len then Inl RangeEndOverflow
     else if length data < start \<or> length data < start + len then Inl (RangeExceeds h)
     else Inr (take len (drop start data)))"

definition verify_object :: "hashes \<Rightarrow> string \<Rightarrow> cas \<Rightarrow> nat cas_result" where
  "verify_object hs h c =
     rbind (object_bytes h c) (\<lambda>data.
     if object_hash hs h data \<noteq> h then Inl (ObjectCorrupt h) else Inr (length data))"

text \<open>What reaches the writer before the result is known: the object's bytes, also when they turn out damaged.\<close>

definition copy_to_writer :: "hashes \<Rightarrow> string \<Rightarrow> bool \<Rightarrow> cas \<Rightarrow> nat cas_result \<times> string" where
  "copy_to_writer hs h verify c =
     (case object_bytes h c of
        Inl e \<Rightarrow> (Inl e, [])
      | Inr data \<Rightarrow> (if verify \<and> object_hash hs h data \<noteq> h then Inl (ObjectCorrupt h) else Inr (length data), data))"

definition get_small :: "hashes \<Rightarrow> string \<Rightarrow> nat \<Rightarrow> cas \<Rightarrow> string option" where
  "get_small hs h max_len c =
     (case object_bytes h c of
        Inl _ \<Rightarrow> None
      | Inr data \<Rightarrow> if max_len < length data then None else if object_hash hs h data \<noteq> h then None else Some data)"

definition cas_has :: "string \<Rightarrow> cas \<Rightarrow> bool" where
  "cas_has h c \<longleftrightarrow> is_ok (object_bytes h c)"

section \<open>Writing\<close>

definition cas_pin :: "string \<Rightarrow> cas \<Rightarrow> cas" where
  "cas_pin h c = c\<lparr>cs_pins := insert h (cs_pins c)\<rparr>"

definition cas_install :: "hashes \<Rightarrow> cas_world \<Rightarrow> string \<Rightarrow> string \<Rightarrow> cas \<Rightarrow> unit cas_result \<times> cas" where
  "cas_install hs w h data c =
     (case validate_cas_object_id h of
        Inl e \<Rightarrow> (Inl e, c)
      | Inr _ \<Rightarrow>
          (let c = cas_pin h c; renamed = \<not> cw_rename_fails w h in
           if \<not> renamed \<and> \<not> is_ok (verify_object hs h c) then (Inl (RenameFailed h), c)
           else (let c = (if renamed then c\<lparr>cs_objects := (cs_objects c)(h \<mapsto> data)\<rparr> else c) in
                 if cs_durable c \<and> cw_sync_fails w h then (Inl SyncFailed, c)
                 else (Inr (), c\<lparr>cs_synced := (if cs_durable c then insert h (cs_synced c) else cs_synced c),
                                 cs_stored := cs_stored c @ [h]\<rparr>))))"

text \<open>\<open>put\<close> is the writer's \<open>write_all\<close> and \<open>finish\<close>.\<close>

definition writer_finish :: "hashes \<Rightarrow> cas_world \<Rightarrow> string \<Rightarrow> cas \<Rightarrow> (string \<times> nat) cas_result \<times> cas" where
  "writer_finish hs w data c =
     (let h = hs_sha256 hs data in
      if cw_write_fails w h then (Inl WriteFailed, c)
      else (case cas_install hs w h data c of
          (Inl e, c) \<Rightarrow> (Inl e, c)
        | (Inr _, c) \<Rightarrow> (Inr (h, length data), c)))"

definition cas_put :: "hashes \<Rightarrow> cas_world \<Rightarrow> string \<Rightarrow> cas \<Rightarrow> string cas_result \<times> cas" where
  "cas_put hs w data c =
     (case writer_finish hs w data c of
        (Inl e, c) \<Rightarrow> (Inl e, c)
      | (Inr (h, _), c) \<Rightarrow> (Inr h, c))"

definition put_with_hash :: "hashes \<Rightarrow> cas_world \<Rightarrow> string \<Rightarrow> string \<Rightarrow> cas \<Rightarrow> unit cas_result \<times> cas" where
  "put_with_hash hs w h data c =
     (case hash_bytes_for_object_id hs h data of
        Inl e \<Rightarrow> (Inl e, c)
      | Inr actual \<Rightarrow>
          if actual \<noteq> h then (Inl (ContentMismatch h actual), c)
          else (let c = cas_pin h c in
                if is_ok (verify_object hs h c) then (Inr (), c)
                else if cw_write_fails w h then (Inl WriteFailed, c)
                else cas_install hs w h data c))"

text \<open>\<open>source\<close> is the content of the source file.\<close>

definition put_file_with_hash :: "hashes \<Rightarrow> cas_world \<Rightarrow> string \<Rightarrow> string \<Rightarrow> cas \<Rightarrow> nat cas_result \<times> cas" where
  "put_file_with_hash hs w h source c =
     (case validate_cas_object_id h of
        Inl e \<Rightarrow> (Inl e, c)
      | Inr _ \<Rightarrow>
          if object_hash hs h source \<noteq> h then (Inl (ContentMismatch h (object_hash hs h source)), c)
          else if cw_write_fails w h then (Inl WriteFailed, c)
          else (case cas_install hs w h source c of (Inl e, c) \<Rightarrow> (Inl e, c) | (Inr _, c) \<Rightarrow> (Inr (length source), c)))"

definition install_file :: "hashes \<Rightarrow> cas_world \<Rightarrow> string \<Rightarrow> cas \<Rightarrow> (string \<times> nat) cas_result \<times> cas" where
  "install_file hs w source c =
     (let h = hs_sha256 hs source in
      if cs_durable c \<and> cw_write_fails w h then (Inl WriteFailed, c)
      else (case cas_install hs w h source c of (Inl e, c) \<Rightarrow> (Inl e, c) | (Inr _, c) \<Rightarrow> (Inr (h, length source), c)))"

definition cas_remove :: "cas_world \<Rightarrow> string \<Rightarrow> cas \<Rightarrow> unit cas_result \<times> cas" where
  "cas_remove w h c =
     (case validate_cas_object_id h of
        Inl e \<Rightarrow> (Inl e, c)
      | Inr _ \<Rightarrow>
          if cs_objects c h = None then (Inr (), c)
          else if cw_remove_fails w h then (Inl (RemoveFailed h), c)
          else (Inr (), c\<lparr>cs_objects := (cs_objects c)(h := None), cs_synced := cs_synced c - {h}\<rparr>))"

section \<open>Histories\<close>

text \<open>
  A step of a store: an operation, or a crash, after which an object that was not synced can be lost or damaged.  A
  rename over a synced object leaves one with the bytes of the same hash, whichever of the two a crash keeps.
\<close>

inductive cas_step :: "hashes \<Rightarrow> string set \<Rightarrow> cas \<Rightarrow> cas \<Rightarrow> bool" for hs R where
  step_put: "cas_step hs R c (snd (cas_put hs w data c))"
| step_put_with_hash: "cas_step hs R c (snd (put_with_hash hs w h data c))"
| step_put_file: "cas_step hs R c (snd (put_file_with_hash hs w h data c))"
| step_install_file: "cas_step hs R c (snd (install_file hs w data c))"
| step_remove: "h \<in> R \<Longrightarrow> cas_step hs R c (snd (cas_remove w h c))"
| step_crash: "cs_durable c' = cs_durable c \<Longrightarrow> cs_synced c' = cs_synced c \<Longrightarrow>
    (\<And>h. h \<in> cs_synced c \<Longrightarrow> cs_objects c' h = cs_objects c h) \<Longrightarrow> cas_step hs R c c'"

section \<open>Properties\<close>

text \<open>SHA-256 in hex gives artifact ids.\<close>

definition hashes_ok :: "hashes \<Rightarrow> bool" where
  "hashes_ok hs \<longleftrightarrow> (\<forall>data. length (hs_sha256 hs data) = 64 \<and> list_all is_lower_hex (hs_sha256 hs data))"

lemma sha256_valid: "hashes_ok hs \<Longrightarrow> validate_cas_object_id (hs_sha256 hs data) = Inr ()"
  by (simp add: hashes_ok_def validate_cas_object_id_def validate_lowercase_hex_def)

lemma object_hash_sha256: "hashes_ok hs \<Longrightarrow> object_hash hs (hs_sha256 hs data) d = hs_sha256 hs d"
  by (simp add: hashes_ok_def object_hash_def)

lemma cas_get_Inr: "cas_get hs h c = Inr data \<longleftrightarrow> validate_cas_object_id h = Inr () \<and> cs_objects c h = Some data \<and> object_hash hs h data = h"
  by (auto simp: cas_get_def object_bytes_def hash_bytes_for_object_id_def rbind_Inr split: if_splits)

lemma verify_object_ok: "is_ok (verify_object hs h c) \<longleftrightarrow> (\<exists>data. cas_get hs h c = Inr data)"
proof -
  have "is_ok (verify_object hs h c) \<longleftrightarrow> (\<exists>n. verify_object hs h c = Inr n)" by (rule is_ok_iff)
  then show ?thesis by (auto simp: verify_object_def object_bytes_def rbind_Inr cas_get_Inr split: if_splits)
qed

lemma cas_get_updates [simp]:
  "cas_get hs g (c\<lparr>cs_pins := p\<rparr>) = cas_get hs g c" "cas_get hs g (c\<lparr>cs_synced := y\<rparr>) = cas_get hs g c"
  "cas_get hs g (c\<lparr>cs_stored := l\<rparr>) = cas_get hs g c"
  by (simp_all add: cas_get_def object_bytes_def)

lemma cas_get_update:
  "validate_cas_object_id h = Inr () \<Longrightarrow> object_hash hs h data = h \<Longrightarrow>
     cas_get hs g (c\<lparr>cs_objects := (cs_objects c)(h \<mapsto> data)\<rparr>) = (if g = h then Inr data else cas_get hs g c)"
  by (simp add: cas_get_def object_bytes_def hash_bytes_for_object_id_def ok_or_def)

text \<open>What an installation does to the objects.\<close>

definition install_effect :: "hashes \<Rightarrow> string \<Rightarrow> string \<Rightarrow> cas \<Rightarrow> cas \<Rightarrow> bool" where
  "install_effect hs h data c c' \<longleftrightarrow> cs_durable c' = cs_durable c
     \<and> (\<forall>g. cas_get hs g c' = cas_get hs g c \<or> (g = h \<and> cas_get hs g c' = Inr data))
     \<and> cs_synced c \<subseteq> cs_synced c' \<and> cs_synced c' \<subseteq> insert h (cs_synced c)"

lemma cas_install_spec:
  assumes "cas_install hs w h data c = (r, c')" "object_hash hs h data = h"
  shows "install_effect hs h data c c'"
    and "r = Inr () \<Longrightarrow> (\<exists>d. cas_get hs h c' = Inr d) \<and> h \<in> cs_pins c' \<and> cs_stored c' = cs_stored c @ [h] \<and> (cs_durable c \<longrightarrow> h \<in> cs_synced c')"
    and "r \<noteq> Inr () \<Longrightarrow> cs_synced c' = cs_synced c"
proof -
  let ?d = "if cw_rename_fails w h then cas_pin h c else (cas_pin h c)\<lparr>cs_objects := (cs_objects c)(h \<mapsto> data)\<rparr>"
  let ?e = "?d\<lparr>cs_synced := (if cs_durable c then insert h (cs_synced c) else cs_synced c), cs_stored := cs_stored c @ [h]\<rparr>"
  show "install_effect hs h data c c'"
    "r = Inr () \<Longrightarrow> (\<exists>d. cas_get hs h c' = Inr d) \<and> h \<in> cs_pins c' \<and> cs_stored c' = cs_stored c @ [h] \<and> (cs_durable c \<longrightarrow> h \<in> cs_synced c')"
    "r \<noteq> Inr () \<Longrightarrow> cs_synced c' = cs_synced c"
  proof (atomize (full), cases "validate_cas_object_id h")
    case (Inl e)
    then have "c' = c" "r \<noteq> Inr ()" using assms(1) by (auto simp: cas_install_def)
    then show "install_effect hs h data c c' \<and> (r = Inr () \<longrightarrow> (\<exists>d. cas_get hs h c' = Inr d) \<and> h \<in> cs_pins c' \<and> cs_stored c' = cs_stored c @ [h] \<and> (cs_durable c \<longrightarrow> h \<in> cs_synced c'))
      \<and> (r \<noteq> Inr () \<longrightarrow> cs_synced c' = cs_synced c)" by (simp add: install_effect_def subset_insertI)
  next
    case (Inr u)
    note get = cas_get_update[OF Inr[simplified] assms(2)]
    have get_d: "cas_get hs g ?d = (if g = h \<and> \<not> cw_rename_fails w h then Inr data else cas_get hs g c)" for g
      using get[of g "cas_pin h c"] by (cases "g = h") (simp_all add: cas_pin_def)
    have get_e: "cas_get hs g ?e = cas_get hs g ?d" for g by simp
    have fields: "cs_durable ?d = cs_durable c" "cs_synced ?d = cs_synced c" "cs_stored ?d = cs_stored c" "h \<in> cs_pins ?d" by (simp_all add: cas_pin_def)
    consider (refused) "cw_rename_fails w h" "\<not> (\<exists>d. cas_get hs h c = Inr d)" "c' = cas_pin h c" "r \<noteq> Inr ()"
      | (unsynced) "c' = ?d" "r \<noteq> Inr ()" | (fine) "c' = ?e" "r = Inr ()" "\<exists>d. cas_get hs h ?d = Inr d"
      using assms(1) Inr get_d[of h] verify_object_ok[of hs h "cas_pin h c"]
      by (cases "cw_rename_fails w h") (auto simp: cas_install_def Let_def cas_pin_def split: if_splits)
    then show "install_effect hs h data c c' \<and> (r = Inr () \<longrightarrow> (\<exists>d. cas_get hs h c' = Inr d) \<and> h \<in> cs_pins c' \<and> cs_stored c' = cs_stored c @ [h] \<and> (cs_durable c \<longrightarrow> h \<in> cs_synced c'))
      \<and> (r \<noteq> Inr () \<longrightarrow> cs_synced c' = cs_synced c)"
    proof cases
      case refused
      then show ?thesis by (simp add: install_effect_def cas_pin_def subset_insertI)
    next
      case unsynced
      then show ?thesis unfolding unsynced(1) install_effect_def fields get_d by auto
    next
      case fine
      have "\<exists>d. cas_get hs h ?e = Inr d" using fine(3) by simp
      then show ?thesis using fine(2) fields unfolding fine(1) install_effect_def get_e get_d by auto
    qed
  qed
qed

lemma install_effect_refl: "install_effect hs h data c c"
  by (auto simp: install_effect_def)

text \<open>Every operation but a removal installs some bytes under their own hash, or changes nothing.\<close>

definition writes_only :: "hashes \<Rightarrow> cas \<Rightarrow> cas \<Rightarrow> bool" where
  "writes_only hs c c' \<longleftrightarrow> (\<exists>h data. object_hash hs h data = h \<and> install_effect hs h data c c' \<and> (h \<in> cs_synced c' \<longrightarrow> h \<in> cs_synced c \<or> (\<exists>d. cas_get hs h c' = Inr d)))"

lemma install_writes:
  assumes "cas_install hs w h data c = (r, c')" "object_hash hs h data = h"
  shows "writes_only hs c c'"
  unfolding writes_only_def
  using cas_install_spec[OF assms] assms(2) by (intro exI[of _ h] exI[of _ data]) (cases "r = Inr ()", auto)

lemma writes_refl: "hashes_ok hs \<Longrightarrow> writes_only hs c c"
  unfolding writes_only_def by (intro exI[of _ "hs_sha256 hs []"] exI[of _ "[]"]) (auto simp: install_effect_refl object_hash_sha256)

lemma cas_put_spec:
  assumes "cas_put hs w data c = (r, c')" "hashes_ok hs"
  shows "writes_only hs c c'" "r = Inr h \<Longrightarrow> h = hs_sha256 hs data \<and> cas_install hs w h data c = (Inr (), c')"
proof -
  let ?h = "hs_sha256 hs data"
  obtain r' c1 where i: "cas_install hs w ?h data c = (r', c1)" by fastforce
  have "writes_only hs c c1" by (rule install_writes[OF i object_hash_sha256[OF assms(2)]])
  moreover have "c' = c \<or> c' = c1" using assms(1) i by (auto simp: cas_put_def writer_finish_def Let_def split: sum.splits if_splits)
  ultimately show "writes_only hs c c'" using writes_refl[OF assms(2)] by blast
  show "r = Inr h \<Longrightarrow> h = ?h \<and> cas_install hs w h data c = (Inr (), c')"
    using assms(1) i by (auto simp: cas_put_def writer_finish_def Let_def split: sum.splits if_splits)
qed

lemma put_with_hash_writes:
  assumes "put_with_hash hs w h data c = (r, c')" "hashes_ok hs"
  shows "writes_only hs c c'"
proof (cases "object_hash hs h data = h")
  case True
  obtain r' c1 where i: "cas_install hs w h data (cas_pin h c) = (r', c1)" by fastforce
  have "install_effect hs h data c (cas_pin h c)" by (auto simp: install_effect_def cas_pin_def)
  then have "writes_only hs c (cas_pin h c)" unfolding writes_only_def using True
    by (intro exI[of _ h] exI[of _ data]) (simp add: cas_pin_def)
  moreover have "writes_only hs c c1"
    using install_writes[OF i True] by (simp add: writes_only_def install_effect_def cas_pin_def)
  ultimately show ?thesis using assms(1) True i writes_refl[OF assms(2)]
    by (auto simp: put_with_hash_def Let_def split: sum.splits if_splits)
next
  case False
  then show ?thesis using assms writes_refl[OF assms(2)]
    by (auto simp: put_with_hash_def hash_bytes_for_object_id_def rbind_Inr split: sum.splits if_splits)
qed

lemma put_file_writes:
  assumes "put_file_with_hash hs w h data c = (r, c')" "hashes_ok hs"
  shows "writes_only hs c c'"
proof (cases "object_hash hs h data = h")
  case True
  obtain r' c1 where i: "cas_install hs w h data c = (r', c1)" by fastforce
  then show ?thesis using assms(1) True install_writes[OF i True] writes_refl[OF assms(2)]
    by (auto simp: put_file_with_hash_def split: sum.splits if_splits)
next
  case False
  then show ?thesis using assms(1) writes_refl[OF assms(2)] by (auto simp: put_file_with_hash_def split: sum.splits if_splits)
qed

lemma install_file_writes:
  assumes "install_file hs w data c = (r, c')" "hashes_ok hs"
  shows "writes_only hs c c'"
proof -
  obtain r' c1 where i: "cas_install hs w (hs_sha256 hs data) data c = (r', c1)" by fastforce
  from install_writes[OF i object_hash_sha256[OF assms(2)]] show ?thesis
    using assms(1) i writes_refl[OF assms(2)] by (auto simp: install_file_def Let_def split: sum.splits if_splits)
qed

lemma writes_only_keeps:
  assumes "writes_only hs c c'" "h \<in> cs_synced c" "cas_get hs h c = Inr d"
  shows "h \<in> cs_synced c' \<and> (\<exists>d. cas_get hs h c' = Inr d)"
  using assms unfolding writes_only_def install_effect_def by (metis subsetD)

lemma cas_step_keeps:
  assumes "cas_step hs R c c'" "hashes_ok hs" "h \<in> cs_synced c" "cas_get hs h c = Inr d" "h \<notin> R"
  shows "h \<in> cs_synced c' \<and> (\<exists>d. cas_get hs h c' = Inr d)"
  using assms
proof (cases rule: cas_step.cases)
  case (step_remove g w)
  then show ?thesis using assms(3-5)
    by (auto simp: cas_remove_def cas_get_Inr split: sum.splits if_splits)
next
  case step_crash
  then show ?thesis using assms(3,4) by (auto simp: cas_get_Inr)
qed (metis writes_only_keeps cas_put_spec(1) put_with_hash_writes put_file_writes install_file_writes prod.collapse)+

text \<open>
  What a durable store reports stored stays readable: after \<open>put\<close> returned the id, the object is pinned and
  announced, and after any further operations and crashes that do not remove it, reading the id gives bytes whose hash
  is the id.
\<close>

theorem stored_object_survives:
  assumes "cas_put hs w data c = (Inr h, c1)" "hashes_ok hs" "cs_durable c" "(cas_step hs R)\<^sup>*\<^sup>* c1 c2" "h \<notin> R"
  shows "h = hs_sha256 hs data \<and> h \<in> cs_pins c1 \<and> last (cs_stored c1) = h
    \<and> (\<exists>d. cas_get hs h c2 = Inr d \<and> hs_sha256 hs d = h)"
proof -
  note put = cas_put_spec(2)[OF assms(1,2) refl]
  have hash: "object_hash hs h data = h" using put object_hash_sha256[OF assms(2)] by simp
  note inst = cas_install_spec(2)[OF conjunct2[OF put] hash refl]
  have "h \<in> cs_synced c2 \<and> (\<exists>d. cas_get hs h c2 = Inr d)" using assms(4)
  proof (induction rule: rtranclp_induct)
    case base
    then show ?case using inst assms(3) by simp
  next
    case (step y z)
    then show ?case using cas_step_keeps[OF step(2) assms(2) _ _ assms(5)] by blast
  qed
  then obtain d where d: "cas_get hs h c2 = Inr d" by blast
  then have "hs_sha256 hs d = h" using put object_hash_sha256[OF assms(2)] by (simp add: cas_get_Inr)
  then show ?thesis using d put inst by simp
qed

definition ex_hashes :: hashes where
  "ex_hashes = \<lparr>hs_sha1 = \<lambda>s. replicate 40 CHR ''0'', hs_sha256 = \<lambda>s. if s = ''hi'' then replicate 64 CHR ''a'' else replicate 64 CHR ''b''\<rparr>"

definition ex_cas :: cas where
  "ex_cas = \<lparr>cs_objects = Map.empty, cs_synced = {}, cs_durable = True, cs_pins = {}, cs_stored = []\<rparr>"

definition ex_cas_world :: cas_world where
  "ex_cas_world = \<lparr>cw_write_fails = \<lambda>_. False, cw_rename_fails = \<lambda>_. False, cw_sync_fails = \<lambda>_. False, cw_remove_fails = \<lambda>_. False\<rparr>"

lemma ex_hashes_ok: "hashes_ok ex_hashes"
proof -
  have "is_lower_hex CHR ''a''" "is_lower_hex CHR ''b''" by code_simp+
  then show ?thesis by (simp add: hashes_ok_def ex_hashes_def list_all_iff)
qed

theorem stored_object_survives_witness:
  "fst (cas_put ex_hashes ex_cas_world ''hi'' ex_cas) = Inr (replicate 64 CHR ''a'')
   \<and> cas_get ex_hashes (replicate 64 CHR ''a'') (snd (cas_put ex_hashes ex_cas_world ''ho'' (snd (cas_put ex_hashes ex_cas_world ''hi'' ex_cas)))) = Inr ''hi''"
proof -
  let ?h = "replicate 64 CHR ''a''" and ?c1 = "snd (cas_put ex_hashes ex_cas_world ''hi'' ex_cas)"
  have put: "fst (cas_put ex_hashes ex_cas_world ''hi'' ex_cas) = Inr ?h" by code_simp
  have "cas_step ex_hashes {} ?c1 (snd (cas_put ex_hashes ex_cas_world ''ho'' ?c1))" by (rule step_put)
  then obtain d where d: "cas_get ex_hashes ?h (snd (cas_put ex_hashes ex_cas_world ''ho'' ?c1)) = Inr d" "hs_sha256 ex_hashes d = ?h"
    using stored_object_survives[OF _ ex_hashes_ok, of ex_cas_world "''hi''" ex_cas ?h ?c1 "{}"] put
    by (auto simp: ex_cas_def prod_eq_iff)
  then have "d = ''hi''" by (simp add: ex_hashes_def split: if_splits)
  then show ?thesis using put d(1) by blast
qed

end
