(* ===== verification/Builder.thy ===== *)
theory Builder
  imports Cas Pack Manifest_Props
begin

text \<open>
  Building results (\<open>src/rust/src/server/builder.rs\<close> with \<open>src/rust/src/server/uploads.rs\<close>): the Head, Full and Files
  results of a commit from what git, the pack builder and the archive builder produce, their files tables, manifests
  and idx bundles, and the uploads a build waits for before it returns.

  The state of a build is its local store, the durable storage, the uploads it started and the answers its
  cancellation checks will get.  Parameters stand for the protobuf and zstd codecs, git's multi-pack-index, the files
  git writes (by hash) and the failures of uploads.  Blocking tasks are called in the order the code awaits them;
  timings and counters are left out.
\<close>

section \<open>The build's environment\<close>

record build_env =
  be_hashes :: hashes
  be_world :: cas_world
  be_remote :: bool
  be_upload_fails :: "string \<Rightarrow> bool"
  be_encode_table :: "MetadataChunk \<Rightarrow> string option"
  be_decode_table :: "string \<Rightarrow> MetadataChunk option"
  be_encode_delta :: "MetadataDelta \<Rightarrow> string option"
  be_decode_delta :: "string \<Rightarrow> MetadataDelta option"
  be_encode_manifest :: "ClonepackManifest \<Rightarrow> string"
  be_decode_manifest :: "string \<Rightarrow> ClonepackManifest option"
  be_hex_decode :: "string \<Rightarrow> 8 word list option"
  be_hex_encode :: "8 word list \<Rightarrow> string"
  be_idx_hex :: "string \<Rightarrow> string"
  be_midx :: "(string \<times> string) list \<Rightarrow> string option"
  be_file :: "string \<Rightarrow> string"

record build_state =
  bt_cas :: cas
  bt_storage :: "string \<Rightarrow> string option"
  bt_started :: "string list"
  bt_cancels :: "bool list"

datatype build_error = Cancelled | CasFailed cas_op_error | NotStored string | PackFailed pack_error | ArchiveFailed archive_error
  | TableFailed manifest_error | EncodeFailed | BadHashHex string | BundleLengthChanged | MidxFailed | UploadFailed string | HeadMismatch
  | MissingPackRef nat | NoMetadataChunk | ChunkRefCount

type_synonym 'a bresult = "(build_error, 'a) result"

type_synonym 'a build = "build_state \<Rightarrow> 'a bresult \<times> build_state"

definition bbind :: "'a build \<Rightarrow> ('a \<Rightarrow> 'b build) \<Rightarrow> 'b build" where
  "bbind m f s = (case m s of (Inl e, s) \<Rightarrow> (Inl e, s) | (Inr x, s) \<Rightarrow> f x s)"

definition breturn :: "'a \<Rightarrow> 'a build" where
  "breturn x s = (Inr x, s)"

definition blift :: "('e \<Rightarrow> build_error) \<Rightarrow> ('e, 'a) result \<Rightarrow> 'a build" where
  "blift g r s = (case r of Inl e \<Rightarrow> (Inl (g e), s) | Inr x \<Rightarrow> (Inr x, s))"

definition check_current :: "unit build" where
  "check_current s = (case bt_cancels s of [] \<Rightarrow> (Inr (), s) | c # cs \<Rightarrow> (if c then Inl Cancelled else Inr (), s\<lparr>bt_cancels := cs\<rparr>))"

section \<open>Uploads\<close>

definition upload_start :: "string \<Rightarrow> build_state \<Rightarrow> build_state" where
  "upload_start h s =
     (if h = [] \<or> h \<in> set (bt_started s) then s
      else s\<lparr>bt_cas := cas_pin h (bt_cas s), bt_started := bt_started s @ [h]\<rparr>)"

definition start_all :: "string list \<Rightarrow> unit build" where
  "start_all hs s = (Inr (), fold upload_start hs s)"

text \<open>
  One upload: the object's file is sent under its hash.  The remote store is first asked for a large object, and one of
  the same length under the hash is taken for it.
\<close>

definition EXISTS_CHECK_BYTES :: nat where
  "EXISTS_CHECK_BYTES = 1024 * 1024"

definition upload_one :: "build_env \<Rightarrow> string \<Rightarrow> unit build" where
  "upload_one env h s =
     (if be_upload_fails env h then (Inl (UploadFailed h), s)
      else (case cs_objects (bt_cas s) h of
          None \<Rightarrow> (Inl (UploadFailed h), s)
        | Some data \<Rightarrow>
            if be_remote env \<and> EXISTS_CHECK_BYTES \<le> length data \<and> map_option length (bt_storage s h) = Some (length data) then (Inr (), s)
            else (Inr (), s\<lparr>bt_storage := (bt_storage s)(h \<mapsto> data)\<rparr>)))"

fun upload_list :: "build_env \<Rightarrow> string list \<Rightarrow> unit build" where
  "upload_list env [] = breturn ()"
| "upload_list env (h # hs) = bbind (upload_one env h) (\<lambda>_. upload_list env hs)"

definition uploads_finish :: "build_env \<Rightarrow> string list build" where
  "uploads_finish env s = bbind (upload_list env (bt_started s)) (\<lambda>_. breturn (bt_started s)) s"

definition settle_storage :: "build_env \<Rightarrow> string list \<Rightarrow> string set \<Rightarrow> unit build" where
  "settle_storage env uploaded keep s =
     (Inr (), if be_remote env
        then s\<lparr>bt_cas := fold (\<lambda>h c. snd (cas_remove (be_world env) h c)) (filter (\<lambda>h. h \<notin> keep) uploaded) (bt_cas s)\<rparr>
        else s)"

section \<open>Stored objects\<close>

text \<open>Storing through the build's store starts the upload.\<close>

definition store_bytes :: "build_env \<Rightarrow> string \<Rightarrow> string build" where
  "store_bytes env data s =
     (case cas_put (be_hashes env) (be_world env) data (bt_cas s) of
        (Inl e, c) \<Rightarrow> (Inl (CasFailed e), s\<lparr>bt_cas := c\<rparr>)
      | (Inr h, c) \<Rightarrow> (Inr h, upload_start h (s\<lparr>bt_cas := c\<rparr>)))"

fun store_files :: "build_env \<Rightarrow> string list \<Rightarrow> unit build" where
  "store_files env [] = breturn ()"
| "store_files env (data # rest) = bbind (store_bytes env data) (\<lambda>_. store_files env rest)"

definition pack_files :: "build_env \<Rightarrow> pack_tuple list \<Rightarrow> string list" where
  "pack_files env packs = concat (map (\<lambda>(p, _, i, _). [be_file env p, be_file env i]) packs)"

text \<open>The packs git wrote, in the store.\<close>

definition store_packs :: "build_env \<Rightarrow> pack_tuple list pack_result \<Rightarrow> pack_tuple list build" where
  "store_packs env r =
     bbind (blift PackFailed r) (\<lambda>packs. bbind (store_files env (pack_files env packs)) (\<lambda>_. breturn packs))"

definition storage_get :: "build_env \<Rightarrow> string \<Rightarrow> build_state \<Rightarrow> string option" where
  "storage_get env h s =
     (case bt_storage s h of None \<Rightarrow> None | Some data \<Rightarrow> if object_hash (be_hashes env) h data = h then Some data else None)"

definition load_artifact :: "build_env \<Rightarrow> string \<Rightarrow> build_state \<Rightarrow> string option" where
  "load_artifact env h s =
     (case cas_get (be_hashes env) h (bt_cas s) of Inr data \<Rightarrow> Some data | Inl _ \<Rightarrow> storage_get env h s)"

text \<open>One object of \<open>get_all_cached\<close>: what storage returns is kept in the local store, with no upload.\<close>

definition get_cached :: "build_env \<Rightarrow> string \<Rightarrow> string build" where
  "get_cached env h s =
     (case cas_get (be_hashes env) h (bt_cas s) of
        Inr data \<Rightarrow> (Inr data, s)
      | Inl _ \<Rightarrow>
          (case storage_get env h s of
             None \<Rightarrow> (Inl (NotStored h), s)
           | Some data \<Rightarrow>
               (case put_with_hash (be_hashes env) (be_world env) h data (bt_cas s) of
                  (Inl e, c) \<Rightarrow> (Inl (CasFailed e), s\<lparr>bt_cas := c\<rparr>)
                | (Inr _, c) \<Rightarrow> (Inr data, s\<lparr>bt_cas := c\<rparr>))))"

text \<open>Every object is tried; the first failure in order is the result.\<close>

fun get_all_cached :: "build_env \<Rightarrow> string list \<Rightarrow> string list build" where
  "get_all_cached env [] s = (Inr [], s)"
| "get_all_cached env (h # hs) s =
     (case get_cached env h s of (r, s) \<Rightarrow>
      case get_all_cached env hs s of (rs, s) \<Rightarrow>
        (rbind r (\<lambda>data. rbind rs (\<lambda>datas. Inr (data # datas))), s))"

section \<open>Files tables\<close>

definition decode_table :: "build_env \<Rightarrow> string \<Rightarrow> MetadataChunk option" where
  "decode_table env bytes =
     (case be_decode_table env bytes of None \<Rightarrow> None | Some m \<Rightarrow> if is_ok (validate_geometry m) then Some m else None)"

definition ok_opt :: "('e, 'a) result \<Rightarrow> 'a option" where
  "ok_opt r = (case r of Inl _ \<Rightarrow> None | Inr x \<Rightarrow> Some x)"

definition load_metadata :: "build_env \<Rightarrow> ClonepackArtifacts \<Rightarrow> build_state \<Rightarrow> MetadataChunk option" where
  "load_metadata env a s =
     Option.bind (load_artifact env (ca_metadata_chunk a) s) (\<lambda>bytes.
     Option.bind (decode_table env bytes) (\<lambda>base.
     if ca_metadata_delta a = [] then Some base
     else Option.bind (load_artifact env (ca_metadata_delta a) s) (\<lambda>bytes.
          Option.bind (be_decode_delta env bytes) (\<lambda>delta. ok_opt (delta_apply delta base)))))"

definition chunk_ref :: "build_env \<Rightarrow> string \<Rightarrow> nat \<Rightarrow> ChunkRef bresult" where
  "chunk_ref env h len = rbind (ok_or (BadHashHex h) (be_hex_decode env h)) (\<lambda>bytes. Inr \<lparr>cr_hash = bytes, cr_len = of_nat len\<rparr>)"

type_synonym table_refs = "ChunkRef \<times> ChunkRef option"

record StoredTable =
  st_metadata_chunk :: string
  st_metadata_delta :: string
  st_refs :: table_refs
  st_len :: nat

definition stored_artifact :: "StoredTable \<Rightarrow> string" where
  "stored_artifact t = (if st_metadata_delta t = [] then st_metadata_chunk t else st_metadata_delta t)"

text \<open>The delta on the previous result's base table, when it is at most a quarter of that base.\<close>

definition table_delta ::
    "build_env \<Rightarrow> MetadataChunk \<Rightarrow> string list \<Rightarrow> ClonepackArtifacts \<times> string list \<Rightarrow> build_state \<Rightarrow> (string \<times> nat \<times> string) option" where
  "table_delta env table bundles previous s = (case previous of (prev, prev_bundles) \<Rightarrow>
     Option.bind (load_artifact env (ca_metadata_chunk prev) s) (\<lambda>base_bytes.
     Option.bind (decode_table env base_bytes) (\<lambda>base.
     Option.bind (if ca_metadata_delta prev = [] then Some (map of_nat [1..<length (mc_frames base) + 1], mc_frames base)
        else Option.bind (load_artifact env (ca_metadata_delta prev) s) (\<lambda>bytes.
             Option.bind (be_decode_delta env bytes) (\<lambda>delta. Some (md_base_frames delta, md_frames delta))))
       (\<lambda>(to_previous, previous_frames).
     Option.bind (ok_opt (frame_map previous_frames prev_bundles (mc_frames table) bundles)) (\<lambda>to_table.
     Option.bind (ok_opt (compose_frame_maps to_previous to_table)) (\<lambda>fm.
     Option.bind (ok_opt (delta_between base fm table)) (\<lambda>delta.
     Option.bind (be_encode_delta env delta) (\<lambda>bytes.
     if length bytes * 4 \<le> length base_bytes then Some (ca_metadata_chunk prev, length base_bytes, bytes) else None))))))))"

definition store_delta :: "build_env \<Rightarrow> string \<Rightarrow> nat \<Rightarrow> string \<Rightarrow> StoredTable build" where
  "store_delta env metadata_chunk base_len delta =
     bbind (store_bytes env delta) (\<lambda>metadata_delta.
     bbind (blift id (chunk_ref env metadata_chunk base_len)) (\<lambda>base_ref.
     bbind (blift id (chunk_ref env metadata_delta (length delta))) (\<lambda>delta_ref.
     breturn \<lparr>st_metadata_chunk = metadata_chunk, st_metadata_delta = metadata_delta,
              st_refs = (base_ref, Some delta_ref), st_len = length delta\<rparr>)))"

definition store_whole_table :: "build_env \<Rightarrow> MetadataChunk \<Rightarrow> StoredTable build" where
  "store_whole_table env table =
     bbind (blift (\<lambda>_. EncodeFailed) (ok_or () (be_encode_table env table))) (\<lambda>bytes.
     bbind (store_bytes env bytes) (\<lambda>metadata_chunk.
     bbind (blift id (chunk_ref env metadata_chunk (length bytes))) (\<lambda>r.
     breturn \<lparr>st_metadata_chunk = metadata_chunk, st_metadata_delta = [], st_refs = (r, None), st_len = length bytes\<rparr>)))"

definition store_table ::
    "build_env \<Rightarrow> MetadataChunk \<Rightarrow> string list \<Rightarrow> (ClonepackArtifacts \<times> string list) option \<Rightarrow> StoredTable build" where
  "store_table env table bundles previous s =
     (case Option.bind previous (\<lambda>p. table_delta env table bundles p s) of
        Some (metadata_chunk, base_len, delta) \<Rightarrow>
          store_delta env metadata_chunk base_len delta (s\<lparr>bt_cas := cas_pin metadata_chunk (bt_cas s)\<rparr>)
      | None \<Rightarrow> store_whole_table env table s)"

section \<open>Manifests\<close>

definition pack_entry_ref :: "build_env \<Rightarrow> pack_tuple \<Rightarrow> bool \<Rightarrow> nat option \<Rightarrow> PackEntry bresult" where
  "pack_entry_ref env p history_only bundle_offset = (case p of (pack, pack_len, idx, idx_len) \<Rightarrow>
     rbind (chunk_ref env pack pack_len) (\<lambda>pr.
     rbind (chunk_ref env idx idx_len) (\<lambda>ir.
     Inr \<lparr>pe_pack = Some pr, pe_idx = Some ir, pe_history_only = history_only, pe_idx_bundle_offset = map_option of_nat bundle_offset\<rparr>)))"

fun bundled_entries :: "build_env \<Rightarrow> nat \<Rightarrow> pack_tuple list \<Rightarrow> string list \<Rightarrow> PackEntry list bresult" where
  "bundled_entries env len (p # ps) (idx # idxs) =
     rbind (pack_entry_ref env p False (Some len)) (\<lambda>e.
     rbind (bundled_entries env (len + length idx) ps idxs) (\<lambda>es. Inr (e # es)))"
| "bundled_entries env len _ _ = Inr []"

definition assemble_head_packs :: "build_env \<Rightarrow> pack_tuple list \<Rightarrow> nat \<Rightarrow> (PackEntry list \<times> ChunkRef option \<times> string) build" where
  "assemble_head_packs env packs bundled =
     (let base = take bundled packs; levels = drop bundled packs;
          level_entries = map_result (\<lambda>p. pack_entry_ref env p False None) levels in
      if base = [] then bbind (blift id level_entries) (\<lambda>es. breturn (es, None, []))
      else bbind (get_all_cached env (map (\<lambda>(_, _, idx, _). idx) base)) (\<lambda>idxs.
           bbind (blift id (bundled_entries env 0 base idxs)) (\<lambda>entries.
           bbind (blift id level_entries) (\<lambda>les.
           bbind (store_bytes env (concat idxs)) (\<lambda>h.
           bbind (blift id (chunk_ref env h (length (concat idxs)))) (\<lambda>r.
           breturn (entries @ les, Some r, h)))))))"

definition assemble_midx :: "build_env \<Rightarrow> pack_tuple list \<Rightarrow> (ChunkRef option \<times> string) build" where
  "assemble_midx env packs =
     (if packs = [] then breturn (None, [])
      else bbind (blift (\<lambda>_. MidxFailed) (ok_or () (be_midx env (map (\<lambda>(p, _, i, _). (p, i)) packs)))) (\<lambda>midx.
           bbind (store_bytes env midx) (\<lambda>h.
           bbind (blift id (chunk_ref env h (length midx))) (\<lambda>r. breturn (Some r, h)))))"

definition make_manifest ::
    "string \<Rightarrow> string option \<Rightarrow> ChunkRef list \<Rightarrow> table_refs \<Rightarrow> PackEntry list \<Rightarrow> ChunkRef option \<Rightarrow> ChunkRef option \<Rightarrow> ClonepackManifest" where
  "make_manifest commit parent archive_chunks metadata packs midx idx_bundle =
     \<lparr>cm_commit = commit, cm_parent_commit = parent, cm_metadata_chunk = Some (fst metadata), cm_metadata_delta = snd metadata,
      cm_archive_chunks = archive_chunks, cm_packs = packs, cm_midx = midx, cm_idx_bundle = idx_bundle\<rparr>"

definition archive_chunk_refs :: "build_env \<Rightarrow> string list \<Rightarrow> MetadataChunk \<Rightarrow> ChunkRef list bresult" where
  "archive_chunk_refs env chunk_hashes metadata =
     (case archive_chunk_lengths metadata of
        Inl e \<Rightarrow> Inl (TableFailed e)
      | Inr lengths \<Rightarrow>
          if length lengths \<noteq> length chunk_hashes then Inl ChunkRefCount
          else map_result (\<lambda>(h, len). rbind (ok_or (BadHashHex h) (be_hex_decode env h)) (\<lambda>b. Inr \<lparr>cr_hash = b, cr_len = len\<rparr>))
                 (zip chunk_hashes lengths))"

definition pack_artifacts_of :: "pack_tuple list \<Rightarrow> PackArtifact list" where
  "pack_artifacts_of packs = map (\<lambda>(p, _, i, _). \<lparr>pa_pack = p, pa_idx = i\<rparr>) packs"

definition tuple_to_sized :: "pack_tuple \<Rightarrow> SizedPack" where
  "tuple_to_sized = sized"

definition sized_to_tuple :: "SizedPack \<Rightarrow> pack_tuple" where
  "sized_to_tuple p = (sp_pack p, sp_pack_len p, sp_idx p, sp_idx_len p)"

definition manifest_pack_tuples :: "build_env \<Rightarrow> ClonepackManifest \<Rightarrow> pack_tuple list bresult" where
  "manifest_pack_tuples env m =
     map_result (\<lambda>(index, entry).
       rbind (ok_or (MissingPackRef index) (pe_pack entry)) (\<lambda>pack.
       rbind (ok_or (MissingPackRef index) (pe_idx entry)) (\<lambda>idx.
       Inr (be_hex_encode env (cr_hash pack), unat (cr_len pack), be_hex_encode env (cr_hash idx), unat (cr_len idx)))))
       (enumerate 0 (cm_packs m))"

section \<open>Head\<close>

text \<open>What git gives for the commit of a build.\<close>

record git_env =
  ge_closure :: "string \<Rightarrow> string list pack_result"
  ge_sizes :: "string list \<Rightarrow> (string \<Rightarrow> nat option) pack_result"
  ge_pack :: "string list \<Rightarrow> pack_tuple pack_result"
  ge_history :: "string \<Rightarrow> string option \<Rightarrow> pack_tuple list pack_result"
  ge_tree :: "string \<Rightarrow> (string list \<times> Blob list) pack_result"
  ge_is_ancestor :: "string \<Rightarrow> string \<Rightarrow> bool pack_result"
  ge_own_history :: "string \<Rightarrow> string \<Rightarrow> string set \<Rightarrow> pack_tuple list pack_result"

definition HEAD_TARGET :: nat where
  "HEAD_TARGET = 4 * 1024 * 1024"

record HeadBuild =
  hd_all_packs :: "pack_tuple list"
  hd_new_built :: "pack_tuple list"
  hd_base_commit :: string
  hd_base_packs :: "SizedPack list"
  hd_levels :: "SizedPack list"
  hd_all_local :: bool

definition objects_in :: "build_env \<Rightarrow> string list \<Rightarrow> string set build" where
  "objects_in env idxs =
     bbind (get_all_cached env idxs) (\<lambda>bytes.
     bbind (blift PackFailed (map_result (idx_object_ids (be_idx_hex env)) bytes)) (\<lambda>ids. breturn (set (concat ids))))"

definition head_level :: "build_env \<Rightarrow> git_env \<Rightarrow> string \<Rightarrow> HeadBase \<Rightarrow> pack_tuple list build" where
  "head_level env git commit base =
     bbind (objects_in env (map sp_idx (hb_packs base @ hb_levels base))) (\<lambda>have.
     store_packs env (build_head_level (ge_closure git) (ge_sizes git) (ge_pack git) commit have HEAD_TARGET))"

definition cold_head :: "build_env \<Rightarrow> git_env \<Rightarrow> string \<Rightarrow> HeadBuild build" where
  "cold_head env git commit =
     bbind check_current (\<lambda>_.
     bbind (store_packs env (build_head_packs (ge_closure git) (ge_sizes git) (ge_pack git) commit HEAD_TARGET)) (\<lambda>base.
     breturn \<lparr>hd_all_packs = base, hd_new_built = base, hd_base_commit = commit, hd_base_packs = map tuple_to_sized base,
       hd_levels = [], hd_all_local = True\<rparr>))"

text \<open>A level on the base; a base whose packs cannot be read is packed again whole.\<close>

definition build_head_part :: "build_env \<Rightarrow> git_env \<Rightarrow> string \<Rightarrow> HeadBase option \<Rightarrow> HeadBuild build" where
  "build_head_part env git commit base s =
     (case (case base of Some b \<Rightarrow> if hb_commit b \<noteq> [] \<and> hb_packs b \<noteq> [] then Some b else None | None \<Rightarrow> None) of
        None \<Rightarrow> cold_head env git commit s
      | Some b \<Rightarrow>
          (case head_level env git commit b s of
             (Inl _, s) \<Rightarrow> cold_head env git commit s
           | (Inr level, s) \<Rightarrow>
               (let levels = hb_levels b @ map tuple_to_sized level in
                (Inr \<lparr>hd_all_packs = map sized_to_tuple (hb_packs b @ levels), hd_new_built = level, hd_base_commit = hb_commit b,
                  hd_base_packs = hb_packs b, hd_levels = levels, hd_all_local = False\<rparr>, s))))"

definition pack_hashes :: "pack_tuple list \<Rightarrow> string list" where
  "pack_hashes packs = concat (map (\<lambda>(p, _, i, _). [p, i]) packs)"

definition idx_hashes :: "pack_tuple list \<Rightarrow> string list" where
  "idx_hashes packs = map (\<lambda>(_, _, i, _). i) packs"

definition head_manifest ::
    "build_env \<Rightarrow> string \<Rightarrow> string option \<Rightarrow> ClonepackArtifacts option \<Rightarrow> MetadataChunk \<Rightarrow> HeadBuild \<Rightarrow> (StoredTable \<times> string \<times> string \<times> string) build" where
  "head_manifest env commit parent previous table built =
     bbind (store_table env table [] (map_option (\<lambda>p. (p, [])) previous)) (\<lambda>stored.
     bbind (blift id (archive_chunk_refs env [] table)) (\<lambda>archive_chunks.
     bbind (assemble_head_packs env (hd_all_packs built) (length (hd_base_packs built))) (\<lambda>(entries, bundle_ref, bundle_hash).
     bbind check_current (\<lambda>_.
     bbind (if hd_all_local built then assemble_midx env (hd_all_packs built) else breturn (None, [])) (\<lambda>(midx_ref, midx_hash).
     bbind (store_bytes env (be_encode_manifest env (make_manifest commit parent archive_chunks (st_refs stored) entries midx_ref bundle_ref))) (\<lambda>manifest_hash.
     breturn (stored, manifest_hash, bundle_hash, midx_hash)))))))"

definition build_head_result ::
    "build_env \<Rightarrow> git_env \<Rightarrow> string \<Rightarrow> string option \<Rightarrow> HeadBase option \<Rightarrow> ClonepackArtifacts option \<Rightarrow> HeadResult build" where
  "build_head_result env git commit parent base previous =
     bbind (build_head_part env git commit base) (\<lambda>built.
     bbind (blift PackFailed (ge_tree git commit)) (\<lambda>tree.
     bbind check_current (\<lambda>_.
     bbind (head_manifest env commit parent previous (build_files_table tree) built) (\<lambda>(stored, manifest_hash, bundle_hash, midx_hash).
     bbind check_current (\<lambda>_.
     bbind (start_all ([stored_artifact stored, manifest_hash, bundle_hash, midx_hash] @ pack_hashes (hd_new_built built))) (\<lambda>_.
     bbind (uploads_finish env) (\<lambda>uploaded.
     bbind (settle_storage env uploaded
              (set (idx_hashes (hd_all_packs built) @ [st_metadata_chunk stored, st_metadata_delta stored, manifest_hash]))) (\<lambda>_.
     breturn \<lparr>hr_clonepack = \<lparr>ca_manifest = manifest_hash, ca_metadata_chunk = st_metadata_chunk stored,
           ca_metadata_delta = st_metadata_delta stored, ca_midx = midx_hash, ca_idx_bundle = bundle_hash, ca_commit = commit\<rparr>,
         hr_parent_commit = parent, hr_packs = pack_artifacts_of (hd_all_packs built), hr_base_commit = hd_base_commit built,
         hr_base_packs = hd_base_packs built, hr_levels = hd_levels built\<rparr>))))))))"

section \<open>Full\<close>

definition MAX_HEAD_LEVEL_PACKS :: nat where
  "MAX_HEAD_LEVEL_PACKS = 64"

definition seal_and_compact ::
    "build_env \<Rightarrow> git_env \<Rightarrow> string \<Rightarrow> HistoryLevel list \<Rightarrow> string option \<Rightarrow> pack_tuple list \<Rightarrow> nat
       \<Rightarrow> (pack_tuple list \<times> pack_tuple list \<times> HistoryLevel list) build" where
  "seal_and_compact env git commit prev_levels sealed_tip tail_packs max_levels =
     (let seal = (sealed_tip \<noteq> Some commit \<and> tail_packs \<noteq> []);
          levels = (if seal then prev_levels @ [\<lparr>hl_tip_commit = commit, hl_packs = map tuple_to_sized tail_packs\<rparr>] else prev_levels) in
      bbind (if length levels > max_levels
             then bbind (blift PackFailed (compact_levels (ge_history git) levels max_levels)) (\<lambda>(levels, new_packs).
                  bbind (store_files env (pack_files env new_packs)) (\<lambda>_. breturn (levels, tail_packs @ new_packs)))
             else breturn (levels, tail_packs)) (\<lambda>(levels, new_tuples).
      breturn (concat (map (\<lambda>l. map sized_to_tuple (hl_packs l)) levels), new_tuples, levels)))"

text \<open>The history since the sealed tip; a tail the mirror cannot list is built cold, as a new level zero.\<close>

definition build_history ::
    "build_env \<Rightarrow> git_env \<Rightarrow> string \<Rightarrow> HistoryLevel list \<Rightarrow> (pack_tuple list \<times> HistoryLevel list \<times> string option) build" where
  "build_history env git commit previous s =
     (let tip = (if previous = [] then None else Some (hl_tip_commit (last previous)));
          cold = bbind check_current (\<lambda>_. bbind (store_packs env (ge_history git commit None)) (\<lambda>packs. breturn (packs, [], None))) in
      case tip of
        None \<Rightarrow> bbind check_current (\<lambda>_. bbind (store_packs env (ge_history git commit None)) (\<lambda>packs. breturn (packs, previous, None))) s
      | Some t \<Rightarrow>
          (case store_packs env (ge_history git commit (Some t)) s of
             (Inr packs, s) \<Rightarrow> (Inr (packs, previous, tip), s)
           | (Inl _, s) \<Rightarrow> bbind check_current (\<lambda>_. cold) s))"

definition rebase_due :: "nat \<Rightarrow> HeadResult \<Rightarrow> pack_tuple list \<Rightarrow> bool" where
  "rebase_due rebase_setting head head_packs =
     (let base_bytes = sum_list (map sp_pack_len (hr_base_packs head));
          head_levels = drop (min (length (hr_base_packs head)) (length head_packs)) head_packs;
          delta_bytes = sum_list (map (\<lambda>(_, len, _, _). len) head_levels);
          rebase_bytes = min rebase_setting (base_bytes div 4) in
      0 < length head_levels \<and> (rebase_bytes \<le> delta_bytes \<or> MAX_HEAD_LEVEL_PACKS < length head_levels))"

text \<open>The new base: the packs kept and the packs built; base packs whose idx files cannot be read are packed again.\<close>

definition rebase_head :: "build_env \<Rightarrow> git_env \<Rightarrow> string \<Rightarrow> pack_tuple list \<Rightarrow> (pack_tuple list \<times> nat) build" where
  "rebase_head env git commit base s =
     (case get_all_cached env (idx_hashes base) s of
        (Inr idxs, s) \<Rightarrow>
          bbind (blift PackFailed (rebase_head_packs (be_idx_hex env) (ge_closure git) (ge_sizes git) (ge_pack git) commit (zip base idxs) HEAD_TARGET)) (\<lambda>(packs, kept).
          bbind (store_files env (pack_files env (drop kept packs))) (\<lambda>_. breturn (packs, kept))) s
      | (Inl _, s) \<Rightarrow>
          bbind (store_packs env (build_head_packs (ge_closure git) (ge_sizes git) (ge_pack git) commit HEAD_TARGET)) (\<lambda>packs. breturn (packs, 0)) s)"

definition own_history :: "build_env \<Rightarrow> git_env \<Rightarrow> string \<Rightarrow> string \<Rightarrow> pack_tuple list \<Rightarrow> (pack_tuple list \<times> bool) build" where
  "own_history env git commit base levels =
     bbind (blift PackFailed (ge_is_ancestor git commit base)) (\<lambda>inside.
     if inside then breturn ([], False)
     else bbind (objects_in env (idx_hashes levels)) (\<lambda>have.
          bbind (store_packs env (ge_own_history git commit base have)) (\<lambda>packs. breturn (packs, levels \<noteq> []))))"

text \<open>A failed own history is only a slower clone; a cancelled build stops.\<close>

definition try_own_history ::
    "build_env \<Rightarrow> git_env \<Rightarrow> string \<Rightarrow> string option \<Rightarrow> nat \<Rightarrow> pack_tuple list \<Rightarrow> OwnHistory option build" where
  "try_own_history env git commit own_base head_base_count levels s =
     (case own_base of
        None \<Rightarrow> (Inr None, s)
      | Some base \<Rightarrow>
          if base = commit then (Inr None, s)
          else (case own_history env git commit base levels s of (r, s) \<Rightarrow>
            bbind check_current (\<lambda>_. case r of
                Inl _ \<Rightarrow> breturn None
              | Inr (packs, installed) \<Rightarrow>
                  bbind (start_all (pack_hashes packs)) (\<lambda>_.
                  breturn (Some \<lparr>oh_base = base, oh_packs = map tuple_to_sized packs,
                    oh_head_packs = (if installed then [head_base_count..<head_base_count + length levels] else [])\<rparr>))) s))"

definition build_full_result ::
    "build_env \<Rightarrow> git_env \<Rightarrow> nat \<Rightarrow> nat \<Rightarrow> string \<Rightarrow> HeadResult \<Rightarrow> HistoryLevel list \<Rightarrow> string option \<Rightarrow> FullResult build" where
  "build_full_result env git max_levels rebase_setting commit head previous_levels own_base s0 =
     bbind (blift (\<lambda>_. NotStored (ca_manifest (hr_clonepack head))) (ok_or () (load_artifact env (ca_manifest (hr_clonepack head)) s0))) (\<lambda>bytes.
     bbind (blift (\<lambda>_. HeadMismatch) (ok_or () (be_decode_manifest env bytes))) (\<lambda>manifest.
     bbind (blift (\<lambda>_. HeadMismatch) (ensure (cm_commit manifest = commit \<and> ca_commit (hr_clonepack head) = commit) ())) (\<lambda>_.
     bbind (blift id (manifest_pack_tuples env manifest)) (\<lambda>head_packs0.
     bbind (build_history env git commit previous_levels) (\<lambda>(tail, previous, sealed_tip).
     bbind (seal_and_compact env git commit previous sealed_tip tail max_levels) (\<lambda>(history_packs, new_history, levels).
     let head_base_count = min (length (hr_base_packs head)) (length head_packs0) in
     bbind check_current (\<lambda>_.
     bbind (if rebase_due rebase_setting head head_packs0
            then bbind (rebase_head env git commit (take head_base_count head_packs0)) (\<lambda>(packs, kept).
                 bbind (start_all (pack_hashes (drop kept packs))) (\<lambda>_.
                 breturn (packs, Some \<lparr>hb_commit = commit, hb_packs = map tuple_to_sized packs, hb_levels = []\<rparr>)))
            else breturn (head_packs0, None)) (\<lambda>(head_packs, head_base).
     bbind (try_own_history env git commit own_base head_base_count
              (case head_base of Some _ \<Rightarrow> [] | None \<Rightarrow> drop head_base_count head_packs)) (\<lambda>own.
     bbind check_current (\<lambda>_.
     bbind (blift (\<lambda>_. NoMetadataChunk) (ok_or () (cm_metadata_chunk manifest))) (\<lambda>metadata_chunk.
     bbind (blift id (map_result (\<lambda>p. pack_entry_ref env p False None) head_packs)) (\<lambda>head_entries.
     bbind (blift id (map_result (\<lambda>p. pack_entry_ref env p True None) history_packs)) (\<lambda>history_entries.
     bbind (store_bytes env (be_encode_manifest env (make_manifest commit (hr_parent_commit head) []
              (metadata_chunk, cm_metadata_delta manifest) (head_entries @ history_entries) None None))) (\<lambda>manifest_hash.
     bbind (start_all (manifest_hash # pack_hashes new_history)) (\<lambda>_.
     bbind (uploads_finish env) (\<lambda>uploaded.
     bbind (settle_storage env uploaded (set (idx_hashes (head_packs @ new_history) @ [manifest_hash]))) (\<lambda>_.
     breturn \<lparr>fr_clonepack = \<lparr>ca_manifest = manifest_hash, ca_metadata_chunk = ca_metadata_chunk (hr_clonepack head),
           ca_metadata_delta = ca_metadata_delta (hr_clonepack head), ca_midx = [], ca_idx_bundle = [], ca_commit = commit\<rparr>,
         fr_packs = pack_artifacts_of (head_packs @ history_packs), fr_history_levels = levels, fr_head_base = head_base,
         fr_own_history = own\<rparr>))))))))))))))))) s0"

section \<open>Files\<close>

definition FILES_TAIL_PERCENT :: nat where
  "FILES_TAIL_PERCENT = 25"

definition MAX_FILES_TAILS :: nat where
  "MAX_FILES_TAILS = 32"

definition archive_bytes :: "FilesResult \<Rightarrow> nat" where
  "archive_bytes files = sum_list (map af_compressed_len (fl_archive_frames files))"

definition files_tail_fits :: "FilesResult \<Rightarrow> FilesResult \<Rightarrow> nat \<Rightarrow> bool" where
  "files_tail_fits parent compact percent =
     (let tails = length (filter (\<lambda>h. h \<notin> set (fl_archive_chunks compact)) (fl_archive_chunks parent)) in
      archive_bytes parent * 100 < archive_bytes compact * (100 + percent) \<and> tails < MAX_FILES_TAILS)"

text \<open>What the archive builder is given: the blobs, the chunkers and the compressor.\<close>

record archive_env =
  ae_blob :: "oid \<Rightarrow> string option"
  ae_size :: "oid \<Rightarrow> nat option"
  ae_stream_cdc :: "string \<Rightarrow> (nat \<times> nat) list"
  ae_slice_cdc :: "string \<Rightarrow> (nat \<times> nat) list"
  ae_zstd :: "string \<Rightarrow> string aresult"
  ae_cdc_min :: nat
  ae_bundle_size :: nat

definition whole_archive :: "build_env \<Rightarrow> archive_env \<Rightarrow> string list \<times> Blob list \<Rightarrow> ArchiveBase option \<Rightarrow> build_state \<Rightarrow> ArchiveBuildOutput aresult" where
  "whole_archive env ar tree base s =
     build_into_cas (ae_blob ar) (ae_size ar) (ae_stream_cdc ar) (ae_slice_cdc ar) (hs_sha256 (be_hashes env)) (ae_zstd ar) (ae_cdc_min ar)
       tree (cs_objects (bt_cas s)) (Some (\<lambda>h start len. range_of (bt_storage s h) start len)) base (ae_bundle_size ar)"

definition tail_archive :: "build_env \<Rightarrow> archive_env \<Rightarrow> string list \<times> Blob list \<Rightarrow> ArchiveBase \<Rightarrow> build_state \<Rightarrow> ArchiveBuildOutput aresult" where
  "tail_archive env ar tree base s =
     build_tail_into_cas (ae_blob ar) (ae_size ar) (ae_stream_cdc ar) (hs_sha256 (be_hashes env)) (ae_zstd ar)
       tree (cs_objects (bt_cas s)) base (ae_bundle_size ar)"

text \<open>A tail that fails is built again with no base at all.\<close>

definition build_files_archive ::
    "build_env \<Rightarrow> archive_env \<Rightarrow> string list \<times> Blob list \<Rightarrow> bool \<Rightarrow> ArchiveBase option \<Rightarrow> build_state \<Rightarrow> ArchiveBuildOutput aresult" where
  "build_files_archive env ar tree tail base s =
     (case (tail, base) of
        (True, Some b) \<Rightarrow>
          (case tail_archive env ar tree b s of Inr out \<Rightarrow> Inr out | Inl _ \<Rightarrow> whole_archive env ar tree None s)
      | _ \<Rightarrow> whole_archive env ar tree base s)"

definition store_bundles :: "build_env \<Rightarrow> ArchiveBuildOutput \<Rightarrow> unit build" where
  "store_bundles env out = store_files env (map (\<lambda>h. the (ao_cas out h)) (ao_new_bundles out))"

text \<open>The compact archive of the parent, and what the build starts from.\<close>

definition compact_of :: "FilesResult \<Rightarrow> FilesResult" where
  "compact_of files = (case fl_compact files of None \<Rightarrow> files | Some c \<Rightarrow> c)"

definition choose_base :: "FilesResult option \<Rightarrow> bool \<times> FilesResult option" where
  "choose_base previous =
     (case previous of
        None \<Rightarrow> (False, None)
      | Some p \<Rightarrow> if files_tail_fits p (compact_of p) FILES_TAIL_PERCENT then (True, Some p) else (False, Some (compact_of p)))"

definition load_base :: "build_env \<Rightarrow> FilesResult option \<Rightarrow> build_state \<Rightarrow> ArchiveBase option" where
  "load_base env base_files s =
     Option.bind base_files (\<lambda>files. map_option (\<lambda>m. \<lparr>ab_frames = fl_archive_frames files, ab_metadata = m, ab_bundles = fl_archive_chunks files\<rparr>)
       (load_metadata env (fl_clonepack files) s))"

definition build_files_result ::
    "build_env \<Rightarrow> git_env \<Rightarrow> archive_env \<Rightarrow> string \<Rightarrow> string option \<Rightarrow> FilesResult option \<Rightarrow> FilesResult build" where
  "build_files_result env git ar commit parent previous s0 =
     (let (tail, base_files) = choose_base previous; base = load_base env base_files s0 in
      bbind (blift PackFailed (ge_tree git commit)) (\<lambda>tree.
      bbind (\<lambda>s. blift ArchiveFailed (build_files_archive env ar tree tail base s) s) (\<lambda>out.
      bbind (store_bundles env out) (\<lambda>_.
      bbind check_current (\<lambda>_.
      bbind (store_table env (ao_metadata out) (ao_bundles out) (map_option (\<lambda>p. (fl_clonepack p, fl_archive_chunks p)) previous)) (\<lambda>stored.
      bbind (blift id (archive_chunk_refs env (ao_bundles out) (ao_metadata out))) (\<lambda>archive_chunks.
      bbind (store_bytes env (be_encode_manifest env (make_manifest commit parent archive_chunks (st_refs stored) [] None None))) (\<lambda>manifest_hash.
      bbind (start_all ([stored_artifact stored, manifest_hash] @ ao_new_bundles out)) (\<lambda>_.
      bbind (uploads_finish env) (\<lambda>uploaded.
      bbind (settle_storage env uploaded (set (ao_bundles out @ [st_metadata_chunk stored, st_metadata_delta stored, manifest_hash]))) (\<lambda>_.
      breturn (FilesResult \<lparr>ca_manifest = manifest_hash, ca_metadata_chunk = st_metadata_chunk stored,
          ca_metadata_delta = st_metadata_delta stored, ca_midx = [], ca_idx_bundle = [], ca_commit = commit\<rparr>
        (ao_bundles out) (ao_frames out)
        (if ru_tail (ao_reuse out) then map_option compact_of previous else None)))))))))))) s0)"

end
