(* ===== verification/Builder_Props.thy ===== *)
theory Builder_Props
  imports Builder Archive_Client
begin

text \<open>
  What a finished build guarantees: every artifact its result names is in durable storage with the bytes of its hash,
  its files table loads back as the table it built, and its archive is exact.
\<close>

section \<open>Progress of a build\<close>

definition whole :: "build_env \<Rightarrow> build_state \<Rightarrow> string \<Rightarrow> bool" where
  "whole env s h \<longleftrightarrow> (\<exists>data. cas_get (be_hashes env) h (bt_cas s) = Inr data)"

definition in_storage :: "build_env \<Rightarrow> build_state \<Rightarrow> string \<Rightarrow> bool" where
  "in_storage env s h \<longleftrightarrow> (\<exists>data. storage_get env h s = Some data)"

text \<open>Only whole objects are being uploaded, and what storage holds under a hash has that hash.\<close>

definition started_ok :: "build_env \<Rightarrow> build_state \<Rightarrow> bool" where
  "started_ok env s \<longleftrightarrow> (\<forall>h \<in> set (bt_started s). whole env s h)
     \<and> (\<forall>h data. bt_storage s h = Some data \<longrightarrow> object_hash (be_hashes env) h data = h)"

text \<open>Local objects stay whole, storage is left alone, and uploads are only added.\<close>

definition ahead :: "build_env \<Rightarrow> build_state \<Rightarrow> build_state \<Rightarrow> bool" where
  "ahead env s s' \<longleftrightarrow> (\<forall>h. whole env s h \<longrightarrow> whole env s' h) \<and> bt_storage s' = bt_storage s
     \<and> set (bt_started s) \<subseteq> set (bt_started s') \<and> (started_ok env s \<longrightarrow> started_ok env s')"

lemma ahead_refl [simp]: "ahead env s s"
  by (simp add: ahead_def)

lemma ahead_trans [trans]: "ahead env s s' \<Longrightarrow> ahead env s' s'' \<Longrightarrow> ahead env s s''"
  by (auto simp: ahead_def)

lemma ahead_in_storage: "ahead env s s' \<Longrightarrow> in_storage env s' h = in_storage env s h"
  by (simp add: ahead_def in_storage_def storage_get_def)

lemma ahead_cancels [simp]: "ahead env s (s\<lparr>bt_cancels := cs\<rparr>)"
  by (simp add: ahead_def whole_def in_storage_def storage_get_def started_ok_def)

lemma bbind_Inr: "bbind m f s = (Inr y, s') \<longleftrightarrow> (\<exists>x s1. m s = (Inr x, s1) \<and> f x s1 = (Inr y, s'))"
  by (auto simp: bbind_def split: prod.splits sum.splits)

lemma breturn_Inr [simp]: "breturn x s = (Inr y, s') \<longleftrightarrow> y = x \<and> s' = s"
  by (auto simp: breturn_def)

lemma blift_Inr [simp]: "blift g r s = (Inr y, s') \<longleftrightarrow> r = Inr y \<and> s' = s"
  by (auto simp: blift_def split: sum.splits)

text \<open>An operation that only goes ahead, whatever its result.\<close>

definition steady :: "build_env \<Rightarrow> 'a build \<Rightarrow> bool" where
  "steady env m \<longleftrightarrow> (\<forall>s r s'. m s = (r, s') \<longrightarrow> ahead env s s')"

lemma steadyD: "steady env m \<Longrightarrow> m s = (r, s') \<Longrightarrow> ahead env s s'"
  by (simp add: steady_def)

lemma steady_return [intro!, simp]: "steady env (breturn x)"
  by (auto simp: steady_def breturn_def)

lemma steady_lift [intro!, simp]: "steady env (blift g r)"
  by (auto simp: steady_def blift_def split: sum.splits)

lemma steady_check [intro!, simp]: "steady env check_current"
  by (auto simp: steady_def check_current_def split: list.splits if_splits)

lemma steady_bind [intro!]:
  assumes "steady env m" "\<And>x. steady env (f x)"
  shows "steady env (bbind m f)"
  unfolding steady_def
proof (intro allI impI)
  fix s r s'
  assume run: "bbind m f s = (r, s')"
  obtain r1 s1 where m: "m s = (r1, s1)" by fastforce
  show "ahead env s s'"
  proof (cases r1)
    case (Inl e)
    then show ?thesis using run m steadyD[OF assms(1) m] by (simp add: bbind_def)
  next
    case (Inr x)
    then have "f x s1 = (r, s')" using run m by (simp add: bbind_def)
    then show ?thesis using steadyD[OF assms(1) m] steadyD[OF assms(2)] ahead_trans by blast
  qed
qed

definition env_ok :: "build_env \<Rightarrow> bool" where
  "env_ok env \<longleftrightarrow> hashes_ok (be_hashes env)"

lemma writes_only_whole:
  assumes "writes_only (be_hashes env) (bt_cas s) c" "whole env s h"
  shows "whole env (s\<lparr>bt_cas := c\<rparr>) h"
proof -
  obtain d where d: "cas_get (be_hashes env) h (bt_cas s) = Inr d" using assms(2) by (auto simp: whole_def)
  have "\<exists>d. cas_get (be_hashes env) h c = Inr d"
    using assms(1) d unfolding writes_only_def install_effect_def by metis
  then show ?thesis by (simp add: whole_def)
qed

lemma writes_ahead: "writes_only (be_hashes env) (bt_cas s) c \<Longrightarrow> ahead env s (s\<lparr>bt_cas := c\<rparr>)"
  using writes_only_whole[of env s c] by (auto simp: ahead_def in_storage_def storage_get_def started_ok_def)

lemma upload_start_ahead:
  assumes "h = [] \<or> whole env s h"
  shows "ahead env s (upload_start h s)" "h \<noteq> [] \<Longrightarrow> h \<in> set (bt_started (upload_start h s))"
proof -
  have same: "whole env (s\<lparr>bt_cas := cas_pin h (bt_cas s), bt_started := x\<rparr>) g = whole env s g" for g x by (simp add: whole_def cas_pin_def)
  have "started_ok env (s\<lparr>bt_cas := cas_pin h (bt_cas s), bt_started := bt_started s @ [h]\<rparr>)" if "started_ok env s" "whole env s h"
    using that unfolding started_ok_def same by auto
  then show "ahead env s (upload_start h s)"
    using assms unfolding ahead_def upload_start_def by (auto simp: same in_storage_def storage_get_def)
  show "h \<noteq> [] \<Longrightarrow> h \<in> set (bt_started (upload_start h s))" by (simp add: upload_start_def)
qed

lemma fold_start_ahead:
  assumes "\<And>h. h \<in> set hs \<Longrightarrow> h = [] \<or> whole env s h"
  shows "ahead env s (fold upload_start hs s) \<and> (\<forall>h \<in> set hs. h \<noteq> [] \<longrightarrow> h \<in> set (bt_started (fold upload_start hs s)))"
  using assms
proof (induction hs arbitrary: s)
  case (Cons h hs)
  let ?s = "upload_start h s"
  have s: "ahead env s ?s" "h \<noteq> [] \<Longrightarrow> h \<in> set (bt_started ?s)" using upload_start_ahead[of h env s] Cons.prems by auto
  then have "g = [] \<or> whole env ?s g" if "g \<in> set hs" for g using Cons.prems that by (auto simp: ahead_def)
  from Cons.IH[of ?s, OF this]
  have ih: "ahead env ?s (fold upload_start hs ?s)" "\<forall>h \<in> set hs. h \<noteq> [] \<longrightarrow> h \<in> set (bt_started (fold upload_start hs ?s))" by auto
  then have "h \<noteq> [] \<Longrightarrow> h \<in> set (bt_started (fold upload_start hs ?s))" using s(2) by (auto simp: ahead_def)
  then show ?case using ih ahead_trans[OF s(1) ih(1)] by simp
qed simp

lemma store_bytes_ahead:
  assumes "store_bytes env data s = (r, s')" "env_ok env"
  shows "ahead env s s'" "r = Inr h \<Longrightarrow> h \<noteq> [] \<and> h = hs_sha256 (be_hashes env) data \<and> h \<in> set (bt_started s') \<and> whole env s' h"
proof -
  have hs: "hashes_ok (be_hashes env)" using assms(2) by (simp add: env_ok_def)
  obtain r1 c where put: "cas_put (be_hashes env) (be_world env) data (bt_cas s) = (r1, c)" by fastforce
  have a: "ahead env s (s\<lparr>bt_cas := c\<rparr>)" by (rule writes_ahead[OF cas_put_spec(1)[OF put hs]])
  have "ahead env s s' \<and> (\<forall>h. r = Inr h \<longrightarrow> h \<noteq> [] \<and> h = hs_sha256 (be_hashes env) data \<and> h \<in> set (bt_started s') \<and> whole env s' h)"
  proof (cases r1)
    case (Inl e)
    then show ?thesis using assms(1) put a by (auto simp: store_bytes_def)
  next
    case (Inr g)
    note p = cas_put_spec(2)[OF put hs Inr]
    have "object_hash (be_hashes env) g data = g" using p object_hash_sha256[OF hs] by simp
    then have w: "whole env (s\<lparr>bt_cas := c\<rparr>) g" using cas_install_spec(2)[OF conjunct2[OF p]] by (simp add: whole_def)
    have "length g = 64" using p hs by (simp add: hashes_ok_def)
    then have ne: "g \<noteq> []" by auto
    have s': "r = Inr g" "s' = upload_start g (s\<lparr>bt_cas := c\<rparr>)" using assms(1) put Inr by (simp_all add: store_bytes_def)
    have up: "ahead env (s\<lparr>bt_cas := c\<rparr>) s'" "g \<in> set (bt_started s')" using upload_start_ahead[of g env "s\<lparr>bt_cas := c\<rparr>"] w ne s'(2) by auto
    then show ?thesis using ahead_trans[OF a up(1)] w p ne s'(1) by (auto simp: ahead_def)
  qed
  then show "ahead env s s'" "r = Inr h \<Longrightarrow> h \<noteq> [] \<and> h = hs_sha256 (be_hashes env) data \<and> h \<in> set (bt_started s') \<and> whole env s' h" by auto
qed

lemma steady_store [intro!, simp]: "env_ok env \<Longrightarrow> steady env (store_bytes env data)"
  using store_bytes_ahead(1) by (auto simp: steady_def)

lemma steady_store_files [intro!, simp]: "env_ok env \<Longrightarrow> steady env (store_files env datas)"
  by (induction datas) auto

lemma steady_store_packs [intro!, simp]: "env_ok env \<Longrightarrow> steady env (store_packs env r)"
  by (auto simp: store_packs_def)

lemma steady_get_cached [intro!, simp]:
  assumes "env_ok env"
  shows "steady env (get_cached env h)"
  unfolding steady_def
proof (intro allI impI)
  fix s r s'
  assume run: "get_cached env h s = (r, s')"
  have "ahead env s (s\<lparr>bt_cas := c\<rparr>)" if "put_with_hash (be_hashes env) (be_world env) h data (bt_cas s) = (x, c)" for data x c
    using writes_ahead[OF put_with_hash_writes[OF that]] assms by (simp add: env_ok_def)
  then show "ahead env s s'" using run by (auto simp: get_cached_def split: sum.splits option.splits prod.splits)
qed

lemma steady_get_all [intro!, simp]:
  assumes "env_ok env"
  shows "steady env (get_all_cached env hs)"
proof (induction hs)
  case (Cons h hs)
  show ?case unfolding steady_def
  proof (intro allI impI)
    fix s r s'
    assume run: "get_all_cached env (h # hs) s = (r, s')"
    obtain r1 s1 where one: "get_cached env h s = (r1, s1)" by fastforce
    obtain r2 s2 where rest: "get_all_cached env hs s1 = (r2, s2)" by fastforce
    have "s' = s2" using run one rest by simp
    then show "ahead env s s'" using ahead_trans[OF steadyD[OF steady_get_cached[OF assms] one] steadyD[OF Cons.IH rest]] by simp
  qed
qed (auto simp: steady_def)

lemma steady_objects_in [intro!, simp]: "env_ok env \<Longrightarrow> steady env (objects_in env idxs)"
  by (auto simp: objects_in_def)

end
