(* ===== verification/Builder_Durable.thy ===== *)
theory Builder_Durable
  imports Builder_Props
begin

text \<open>
  Durability: when a build returns a result, every object the result names is in storage with the bytes of its hash,
  given that the objects it reuses already were and that the files git wrote are named by their hash.
\<close>

section \<open>Held objects\<close>

text \<open>An object a finished build will have in storage: there already, or being uploaded.\<close>

definition held :: "build_env \<Rightarrow> build_state \<Rightarrow> string \<Rightarrow> bool" where
  "held env s h \<longleftrightarrow> h = [] \<or> in_storage env s h \<or> h \<in> set (bt_started s)"

lemma held_nil [simp]: "held env s []"
  by (simp add: held_def)

lemma held_started: "h \<in> set (bt_started s) \<Longrightarrow> held env s h"
  by (simp add: held_def)

lemma held_ahead: "ahead env s s' \<Longrightarrow> held env s h \<Longrightarrow> held env s' h"
  using ahead_in_storage[of env s s' h] by (auto simp: held_def ahead_def)

lemma ahead_started: "ahead env s s' \<Longrightarrow> h \<in> set (bt_started s) \<Longrightarrow> h \<in> set (bt_started s')"
  by (auto simp: ahead_def)

lemma ahead_ok: "ahead env s s' \<Longrightarrow> started_ok env s \<Longrightarrow> started_ok env s'"
  by (simp add: ahead_def)

lemma start_all_started:
  assumes "start_all hs s = (r, s')" "set hs \<subseteq> insert [] (set (bt_started s))"
  shows "s' = s"
proof -
  have "fold upload_start hs s = s" using assms(2) by (induction hs) (auto simp: upload_start_def)
  then show ?thesis using assms(1) by (simp add: start_all_def)
qed

lemma start_all_Inr [simp]:
  "start_all hs s = (Inr u, s') \<longleftrightarrow> s' = fold upload_start hs s"
  by (auto simp: start_all_def)

lemma upload_one_stored:
  assumes "upload_one env h s = (Inr u, s')" "whole env s h" "\<forall>h data. bt_storage s h = Some data \<longrightarrow> object_hash (be_hashes env) h data = h"
  shows "bt_cas s' = bt_cas s" "\<forall>h data. bt_storage s' h = Some data \<longrightarrow> object_hash (be_hashes env) h data = h"
    "\<forall>g. in_storage env s g \<longrightarrow> in_storage env s' g" "in_storage env s' h"
proof -
  obtain d where d: "cs_objects (bt_cas s) h = Some d" "object_hash (be_hashes env) h d = h" using assms(2) by (auto simp: whole_def cas_get_Inr)
  have "(s' = s \<and> bt_storage s h \<noteq> None) \<or> s' = s\<lparr>bt_storage := (bt_storage s)(h \<mapsto> d)\<rparr>"
    using assms(1) d(1) by (auto simp: upload_one_def split: if_splits)
  then show "bt_cas s' = bt_cas s" "\<forall>h data. bt_storage s' h = Some data \<longrightarrow> object_hash (be_hashes env) h data = h"
    "\<forall>g. in_storage env s g \<longrightarrow> in_storage env s' g" "in_storage env s' h"
    using assms(3) d(2) by (auto simp: in_storage_def storage_get_def split: option.splits if_splits)
qed

lemma upload_list_stored:
  assumes "upload_list env hs s = (Inr u, s')" "\<And>h. h \<in> set hs \<Longrightarrow> whole env s h"
    and "\<forall>h data. bt_storage s h = Some data \<longrightarrow> object_hash (be_hashes env) h data = h"
  shows "(\<forall>h. in_storage env s h \<longrightarrow> in_storage env s' h) \<and> (\<forall>h \<in> set hs. in_storage env s' h)"
  using assms
proof (induction hs arbitrary: s)
  case (Cons h hs)
  obtain s1 where one: "upload_one env h s = (Inr (), s1)" and rest: "upload_list env hs s1 = (Inr u, s')"
    using Cons.prems(1) by (auto simp: bbind_Inr)
  note one = upload_one_stored[OF one Cons.prems(2)[of h, simplified] Cons.prems(3)]
  have "whole env s1 g" if "g \<in> set hs" for g using Cons.prems(2)[of g] that one(1) by (simp add: whole_def)
  from Cons.IH[OF rest this one(2)] show ?case using one(3,4) by auto
qed simp

lemma uploads_finish_stored:
  assumes "uploads_finish env s = (Inr up, s')" "started_ok env s" "held env s h" "h \<noteq> []"
  shows "in_storage env s' h"
proof -
  have "upload_list env (bt_started s) s = (Inr (), s')" using assms(1) by (auto simp: uploads_finish_def bbind_Inr)
  from upload_list_stored[OF this] assms(2-4) show ?thesis by (auto simp: started_ok_def held_def)
qed

lemma settle_storage_stored: "settle_storage env up keep s = (r, s') \<Longrightarrow> in_storage env s' h = in_storage env s h"
  by (cases "be_remote env") (auto simp: settle_storage_def in_storage_def storage_get_def)

text \<open>The last two steps of every build.\<close>

lemma finish_stored:
  assumes "uploads_finish env s = (Inr up, s1)" "settle_storage env up keep s1 = (Inr u, s')" "started_ok env s"
    and "held env s h" "h \<noteq> []"
  shows "in_storage env s' h"
  using uploads_finish_stored[OF assms(1,3-5)] settle_storage_stored[OF assms(2)] by simp

section \<open>Stored objects are held\<close>

lemma store_files_started:
  assumes "store_files env datas s = (Inr u, s')" "env_ok env" "data \<in> set datas"
  shows "hs_sha256 (be_hashes env) data \<in> set (bt_started s')"
  using assms
proof (induction datas arbitrary: s)
  case (Cons d ds)
  obtain h s1 where d: "store_bytes env d s = (Inr h, s1)" and ds: "store_files env ds s1 = (Inr u, s')"
    using Cons.prems(1) by (auto simp: bbind_Inr)
  have "hs_sha256 (be_hashes env) d \<in> set (bt_started s')"
    using store_bytes_ahead(2)[OF d Cons.prems(2) refl] ahead_started[OF steadyD[OF steady_store_files[OF Cons.prems(2)] ds]] by auto
  then show ?case using Cons.IH[OF ds Cons.prems(2)] Cons.prems(3) by auto
qed simp

text \<open>The file of a pack or idx is the one whose hash is its name.\<close>

definition named_pack :: "build_env \<Rightarrow> pack_tuple \<Rightarrow> bool" where
  "named_pack env p = (case p of (pack, _, idx, _) \<Rightarrow>
     hs_sha256 (be_hashes env) (be_file env pack) = pack \<and> hs_sha256 (be_hashes env) (be_file env idx) = idx)"

definition packs_named :: "build_env \<Rightarrow> git_env \<Rightarrow> bool" where
  "packs_named env git \<longleftrightarrow> (\<forall>oids p. ge_pack git oids = Inr p \<longrightarrow> named_pack env p)
     \<and> (\<forall>c b ps. ge_history git c b = Inr ps \<longrightarrow> list_all (named_pack env) ps)
     \<and> (\<forall>c b have ps. ge_own_history git c b have = Inr ps \<longrightarrow> list_all (named_pack env) ps)"

lemma pack_files_started:
  assumes "store_files env (pack_files env packs) s = (Inr u, s')" "env_ok env" "list_all (named_pack env) packs"
  shows "set (pack_hashes packs) \<subseteq> set (bt_started s')"
proof
  fix h
  assume "h \<in> set (pack_hashes packs)"
  then obtain p l i m where p: "(p, l, i, m) \<in> set packs" "h = p \<or> h = i" by (auto simp: pack_hashes_def)
  then have "be_file env h \<in> set (pack_files env packs)" unfolding pack_files_def by force
  moreover have "hs_sha256 (be_hashes env) (be_file env h) = h" using p assms(3) by (auto simp: list_all_iff named_pack_def)
  ultimately show "h \<in> set (bt_started s')" using store_files_started[OF assms(1,2)] by metis
qed

lemma store_packs_started:
  assumes "store_packs env r s = (Inr packs, s')" "env_ok env" "\<And>ps. r = Inr ps \<Longrightarrow> list_all (named_pack env) ps"
  shows "set (pack_hashes packs) \<subseteq> set (bt_started s')"
proof -
  have "r = Inr packs" "store_files env (pack_files env packs) s = (Inr (), s')" using assms(1) by (auto simp: store_packs_def bbind_Inr)
  then show ?thesis using pack_files_started[OF _ assms(2) assms(3)] by blast
qed

lemma build_packs_named:
  assumes "packs_named env git" "build_packs_from_oids sizes (ge_pack git) oids target = Inr packs"
  shows "list_all (named_pack env) packs"
proof -
  have "list_all (named_pack env) packs" if "map_result (ge_pack git) batches = Inr packs" for batches
    using that assms(1) by (induction batches arbitrary: packs) (auto simp: rbind_Inr packs_named_def)
  then show ?thesis using assms(2) by (auto simp: build_packs_from_oids_def rbind_Inr split: if_splits)
qed

lemma head_packs_named:
  assumes "packs_named env git"
  shows "build_head_packs closure sizes (ge_pack git) commit target = Inr packs \<Longrightarrow> list_all (named_pack env) packs"
    and "build_head_level closure sizes (ge_pack git) commit have target = Inr packs \<Longrightarrow> list_all (named_pack env) packs"
  using build_packs_named[OF assms] by (auto simp: build_head_packs_def build_head_level_def rbind_Inr split: if_splits)

text \<open>A table is stored whole, or as a delta on a table that is in storage.\<close>

lemma steady_tables:
  assumes "env_ok env"
  shows "steady env (store_whole_table env table)" "steady env (store_delta env mc len delta)"
  using assms by (auto simp: store_whole_table_def store_delta_def)

lemma store_table_held:
  assumes "store_table env table bundles previous s = (r, s')" "env_ok env"
  shows "ahead env s s'"
    and "r = Inr t \<Longrightarrow> (\<And>p. previous = Some p \<Longrightarrow> held env s (ca_metadata_chunk (fst p))) \<Longrightarrow>
      held env s' (st_metadata_chunk t) \<and> held env s' (st_metadata_delta t) \<and> stored_artifact t \<in> set (bt_started s')"
proof -
  have "ahead env s s' \<and> (r = Inr t \<longrightarrow> (\<forall>p. previous = Some p \<longrightarrow> held env s (ca_metadata_chunk (fst p))) \<longrightarrow>
      held env s' (st_metadata_chunk t) \<and> held env s' (st_metadata_delta t) \<and> stored_artifact t \<in> set (bt_started s'))"
  proof (cases "Option.bind previous (\<lambda>p. table_delta env table bundles p s)")
    case None
    then have run: "store_whole_table env table s = (r, s')" using assms(1) by (simp add: store_table_def)
    have a: "ahead env s s'" by (rule steadyD[OF steady_tables(1)[OF assms(2)] run])
    show ?thesis
    proof (intro conjI impI)
      show "ahead env s s'" by (rule a)
      assume "r = Inr t"
      then obtain bytes h cr where "store_bytes env bytes s = (Inr h, s')"
          "t = \<lparr>st_metadata_chunk = h, st_metadata_delta = [], st_refs = (cr, None), st_len = length bytes\<rparr>"
        using run by (auto simp: bbind_Inr store_whole_table_def)
      then show "held env s' (st_metadata_chunk t)" "held env s' (st_metadata_delta t)" "stored_artifact t \<in> set (bt_started s')"
        using store_bytes_ahead(2)[of env bytes s "Inr h" s' h] assms(2) by (auto simp: stored_artifact_def held_def)
    qed
  next
    case (Some d)
    obtain mc len delta where d: "d = (mc, len, delta)" by (cases d)
    obtain p where p: "previous = Some p" "table_delta env table bundles p s = Some (mc, len, delta)"
      using Some d by (cases previous) auto
    have mc: "mc = ca_metadata_chunk (fst p)"
      using p(2) by (auto simp: table_delta_def bind_eq_Some_conv split: prod.splits if_splits)
    let ?s = "s\<lparr>bt_cas := cas_pin mc (bt_cas s)\<rparr>"
    have a0: "ahead env s ?s"
      by (simp add: ahead_def whole_def cas_pin_def in_storage_def storage_get_def started_ok_def)
    have run: "store_delta env mc len delta ?s = (r, s')" using assms(1) Some d by (simp add: store_table_def)
    have a: "ahead env ?s s'" by (rule steadyD[OF steady_tables(2)[OF assms(2)] run])
    show ?thesis
    proof (intro conjI impI)
      show ss': "ahead env s s'" by (rule ahead_trans[OF a0 a])
      assume "r = Inr t" and prev: "\<forall>p. previous = Some p \<longrightarrow> held env s (ca_metadata_chunk (fst p))"
      then obtain h rf where st: "store_bytes env delta ?s = (Inr h, s')"
          and t: "t = \<lparr>st_metadata_chunk = mc, st_metadata_delta = h, st_refs = rf, st_len = length delta\<rparr>"
        using run by (auto simp: bbind_Inr store_delta_def)
      show "held env s' (st_metadata_chunk t)" using prev p(1) mc held_ahead[OF ss'] by (simp add: t)
      show "held env s' (st_metadata_delta t)" "stored_artifact t \<in> set (bt_started s')"
        using store_bytes_ahead(2)[OF st assms(2) refl] t by (auto simp: stored_artifact_def held_def)
    qed
  qed
  then show "ahead env s s'"
    and "r = Inr t \<Longrightarrow> (\<And>p. previous = Some p \<Longrightarrow> held env s (ca_metadata_chunk (fst p))) \<Longrightarrow>
      held env s' (st_metadata_chunk t) \<and> held env s' (st_metadata_delta t) \<and> stored_artifact t \<in> set (bt_started s')" by blast+
qed

lemma steady_store_table [intro!, simp]: "env_ok env \<Longrightarrow> steady env (store_table env table bundles previous)"
  using store_table_held(1) by (auto simp: steady_def)

section \<open>Head\<close>

lemma sized_of_tuple [simp]:
  "sized_artifacts (map tuple_to_sized packs) = pack_hashes packs" "pack_hashes (map sized_to_tuple sps) = sized_artifacts sps"
  "pack_artifacts (pack_artifacts_of packs) = pack_hashes packs"
  by (auto simp: sized_artifacts_def pack_hashes_def tuple_to_sized_def sized_def sized_to_tuple_def pack_artifacts_def pack_artifacts_of_def
      comp_def case_prod_unfold)

lemma artifacts_append [simp]:
  "sized_artifacts (xs @ ys) = sized_artifacts xs @ sized_artifacts ys" "pack_hashes (ps @ qs) = pack_hashes ps @ pack_hashes qs"
  by (simp_all add: sized_artifacts_def pack_hashes_def)

lemma steady_head_level [intro!, simp]: "env_ok env \<Longrightarrow> steady env (head_level env git commit b)"
  by (auto simp: head_level_def)

lemma steady_cold_head [intro!, simp]: "env_ok env \<Longrightarrow> steady env (cold_head env git commit)"
  by (auto simp: cold_head_def)

definition built_held :: "build_env \<Rightarrow> build_state \<Rightarrow> HeadBuild \<Rightarrow> bool" where
  "built_held env s b \<longleftrightarrow> set (pack_hashes (hd_new_built b)) \<subseteq> set (bt_started s)
     \<and> (\<forall>h \<in> set (pack_hashes (hd_all_packs b) @ sized_artifacts (hd_base_packs b) @ sized_artifacts (hd_levels b)). held env s h)"

lemma built_held_ahead:
  assumes "built_held env s b" "ahead env s s'"
  shows "built_held env s' b"
  using assms held_ahead[OF assms(2)] unfolding built_held_def ahead_def by blast

lemma cold_head_held:
  assumes "cold_head env git commit s = (Inr b, s')" "env_ok env" "packs_named env git"
  shows "built_held env s' b"
proof -
  obtain s1 base where st: "store_packs env (build_head_packs (ge_closure git) (ge_sizes git) (ge_pack git) commit HEAD_TARGET) s1 = (Inr base, s')"
      and b: "b = \<lparr>hd_all_packs = base, hd_new_built = base, hd_base_commit = commit, hd_base_packs = map tuple_to_sized base,
       hd_levels = [], hd_all_local = True\<rparr>"
    using assms(1) by (auto simp: cold_head_def bbind_Inr)
  have "set (pack_hashes base) \<subseteq> set (bt_started s')"
    by (rule store_packs_started[OF st assms(2)]) (rule head_packs_named(1)[OF assms(3)])
  then show ?thesis by (auto simp: b built_held_def sized_artifacts_def[of "[]"] held_def)
qed

lemma build_head_part_held:
  assumes "build_head_part env git commit base s = (r, s')" "env_ok env"
  shows "ahead env s s'"
    and "r = Inr b \<Longrightarrow> packs_named env git \<Longrightarrow>
      (\<And>hb h. base = Some hb \<Longrightarrow> h \<in> set (sized_artifacts (hb_packs hb @ hb_levels hb)) \<Longrightarrow> held env s h) \<Longrightarrow> built_held env s' b"
proof -
  let ?base = "case base of Some b \<Rightarrow> if hb_commit b \<noteq> [] \<and> hb_packs b \<noteq> [] then Some b else None | None \<Rightarrow> None"
  have "ahead env s s' \<and> (r = Inr b \<longrightarrow> packs_named env git \<longrightarrow>
      (\<forall>hb h. base = Some hb \<longrightarrow> h \<in> set (sized_artifacts (hb_packs hb @ hb_levels hb)) \<longrightarrow> held env s h) \<longrightarrow> built_held env s' b)"
  proof (cases ?base)
    case None
    then have "cold_head env git commit s = (r, s')" using assms(1) by (simp add: build_head_part_def)
    then show ?thesis using cold_head_held assms(2) steadyD[OF steady_cold_head[OF assms(2)]] by blast
  next
    case (Some hb)
    then have hb: "base = Some hb" by (auto split: option.splits if_splits)
    obtain r1 s1 where lv: "head_level env git commit hb s = (r1, s1)" by fastforce
    have a1: "ahead env s s1" by (rule steadyD[OF steady_head_level[OF assms(2)] lv])
    show ?thesis
    proof (cases r1)
      case (Inl e)
      then have "cold_head env git commit s1 = (r, s')" using assms(1) Some lv by (simp add: build_head_part_def)
      then show ?thesis using cold_head_held assms(2) ahead_trans[OF a1 steadyD[OF steady_cold_head[OF assms(2)]]] by blast
    next
      case (Inr level)
      then have s': "s' = s1" and r: "r = Inr \<lparr>hd_all_packs = map sized_to_tuple (hb_packs hb @ hb_levels hb @ map tuple_to_sized level), hd_new_built = level,
          hd_base_commit = hb_commit hb, hd_base_packs = hb_packs hb, hd_levels = hb_levels hb @ map tuple_to_sized level, hd_all_local = False\<rparr>"
        using assms(1) Some lv by (simp_all add: build_head_part_def Let_def)
      have new: "set (pack_hashes level) \<subseteq> set (bt_started s1)" if "packs_named env git"
        using lv Inr head_packs_named(2)[OF that] store_packs_started[OF _ assms(2)] by (fastforce simp: head_level_def bbind_Inr)
      then have "held env s1 h" if "packs_named env git" "h \<in> set (pack_hashes level)" for h using that held_started by blast
      then show ?thesis using a1 held_ahead[OF a1] new unfolding s' r built_held_def
        by (auto simp: hb simp del: map_append)
    qed
  qed
  then show "ahead env s s'" and "r = Inr b \<Longrightarrow> packs_named env git \<Longrightarrow>
      (\<And>hb h. base = Some hb \<Longrightarrow> h \<in> set (sized_artifacts (hb_packs hb @ hb_levels hb)) \<Longrightarrow> held env s h) \<Longrightarrow> built_held env s' b" by blast+
qed

lemma assembled_started:
  assumes "env_ok env"
  shows "steady env (assemble_head_packs env packs n)" "steady env (assemble_midx env packs)"
    and "assemble_head_packs env packs n s = (Inr (es, rf, h), s') \<Longrightarrow> h = [] \<or> h \<in> set (bt_started s')"
    and "assemble_midx env packs s = (Inr (rf, h), s') \<Longrightarrow> h = [] \<or> h \<in> set (bt_started s')"
  using assms store_bytes_ahead(2)[OF _ assms refl]
  by (auto simp: assemble_head_packs_def assemble_midx_def bbind_Inr Let_def split: if_splits)

text \<open>
  C13.  A Head build that returns has made its result durable: every artifact the result names is in storage with the
  bytes of its hash, when the packs of the base and the base table it builds on were in storage and the packs git wrote
  are named by their hash.
\<close>

theorem head_build_durable:
  assumes "build_head_result env git commit parent base previous s = (Inr r, s')"
    and "env_ok env" "packs_named env git" "started_ok env s"
    and base: "\<And>b h. base = Some b \<Longrightarrow> h \<in> set (sized_artifacts (hb_packs b @ hb_levels b)) \<Longrightarrow> in_storage env s h"
    and previous: "\<And>p. previous = Some p \<Longrightarrow> in_storage env s (ca_metadata_chunk p)"
  shows "\<forall>h \<in> set (head_artifacts r). in_storage env s' h"
proof -
  obtain built s1 table s2 stored s3 entries bref bundle_hash s4 s5 mref midx_hash s6 m manifest_hash s7 s8 s9 up s10 keep where
      part: "build_head_part env git commit base s = (Inr built, s1)"
      and c1: "check_current s1 = (Inr (), s2)"
      and st: "store_table env table [] (map_option (\<lambda>p. (p, [])) previous) s2 = (Inr stored, s3)"
      and hp: "assemble_head_packs env (hd_all_packs built) (length (hd_base_packs built)) s3 = (Inr (entries, bref, bundle_hash), s4)"
      and c2: "check_current s4 = (Inr (), s5)"
      and mi: "(if hd_all_local built then assemble_midx env (hd_all_packs built) else breturn (None, [])) s5 = (Inr (mref, midx_hash), s6)"
      and mf: "store_bytes env m s6 = (Inr manifest_hash, s7)"
      and c3: "check_current s7 = (Inr (), s8)"
      and sa: "start_all ([stored_artifact stored, manifest_hash, bundle_hash, midx_hash] @ pack_hashes (hd_new_built built)) s8 = (Inr (), s9)"
      and fin: "uploads_finish env s9 = (Inr up, s10)" "settle_storage env up keep s10 = (Inr (), s')"
      and r: "r = \<lparr>hr_clonepack = \<lparr>ca_manifest = manifest_hash, ca_metadata_chunk = st_metadata_chunk stored,
           ca_metadata_delta = st_metadata_delta stored, ca_midx = midx_hash, ca_idx_bundle = bundle_hash, ca_commit = commit\<rparr>,
         hr_parent_commit = parent, hr_packs = pack_artifacts_of (hd_all_packs built), hr_base_commit = hd_base_commit built,
         hr_base_packs = hd_base_packs built, hr_levels = hd_levels built\<rparr>"
    using assms(1) unfolding build_head_result_def head_manifest_def by (auto simp: bbind_Inr split: prod.splits)
  have "steady env (if hd_all_local built then assemble_midx env (hd_all_packs built) else breturn (None, []))"
    using assembled_started(2)[OF assms(2)] by simp
  note a = steadyD[OF steady_check c1] store_table_held(1)[OF st assms(2)] steadyD[OF assembled_started(1)[OF assms(2)] hp] steadyD[OF steady_check c2]
    steadyD[OF this mi] store_bytes_ahead(1)[OF mf assms(2)] steadyD[OF steady_check c3]
  have a8: "ahead env s1 s8" "ahead env s3 s8" "ahead env s4 s8" "ahead env s6 s8" "ahead env s7 s8"
    using a by (meson ahead_trans)+
  have a1: "ahead env s s1" by (rule build_head_part_held(1)[OF part assms(2)])
  have "built_held env s1 built"
    by (rule build_head_part_held(2)[OF part assms(2) refl assms(3)]) (use base in \<open>auto simp: held_def\<close>)
  then have built: "built_held env s8 built" using a8(1) built_held_ahead by blast
  have "held env s2 (ca_metadata_chunk p)" if "previous = Some p" for p
    using previous[OF that] held_ahead[OF ahead_trans[OF a1 a(1)]] by (simp add: held_def)
  then have table: "held env s3 (st_metadata_chunk stored)" "held env s3 (st_metadata_delta stored)" "stored_artifact stored \<in> set (bt_started s3)"
    using store_table_held(2)[OF st assms(2) refl] by auto
  have midx: "midx_hash = [] \<or> midx_hash \<in> set (bt_started s6)"
    using mi assembled_started(4)[OF assms(2), of "hd_all_packs built" s5 mref midx_hash s6] by (cases "hd_all_local built") auto
  have names: "bundle_hash = [] \<or> bundle_hash \<in> set (bt_started s8)" "midx_hash = [] \<or> midx_hash \<in> set (bt_started s8)" "manifest_hash \<in> set (bt_started s8)"
      "stored_artifact stored \<in> set (bt_started s8)"
    using assembled_started(3)[OF assms(2) hp] midx store_bytes_ahead(2)[OF mf assms(2) refl] table(3) ahead_started[OF a8(2)]
      ahead_started[OF a8(3)] ahead_started[OF a8(4)] ahead_started[OF a8(5)] by auto
  have "set ([stored_artifact stored, manifest_hash, bundle_hash, midx_hash] @ pack_hashes (hd_new_built built)) \<subseteq> insert [] (set (bt_started s8))"
    using names built by (auto simp: built_held_def)
  then have s9: "s9 = s8" by (rule start_all_started[OF sa])
  have ok: "started_ok env s9" using ahead_ok[OF ahead_trans[OF a1 a8(1)] assms(4)] s9 by simp
  have "held env s9 h" if "h \<in> set (head_artifacts r)" for h
    using that built names table(1,2) held_ahead[OF a8(2)]
    by (auto simp: head_artifacts_def r s9 clonepack_artifacts_def built_held_def held_started)
  moreover have "h \<noteq> []" if "h \<in> set (head_artifacts r)" for h using that by (auto simp: head_artifacts_def)
  ultimately show ?thesis using finish_stored[OF fin ok] by blast
qed

end
