(* ===== verification/Builder_Files.thy ===== *)
theory Builder_Files
  imports Builder_Durable
begin

text \<open>
  What a Files build publishes: its table loads back, up to the order of the files, its archive is exact for the tree
  of the commit, and every object it names is in storage.  The next build relies on the same of this one.
\<close>

section \<open>Reading stored tables back\<close>

text \<open>The codecs read back what they wrote, and no other bytes have the hash of a table or of a delta.\<close>

definition codecs_ok :: "build_env \<Rightarrow> bool" where
  "codecs_ok env \<longleftrightarrow> (\<forall>t b. be_encode_table env t = Some b \<longrightarrow> be_decode_table env b = Some t)
     \<and> (\<forall>d b. be_encode_delta env d = Some b \<longrightarrow> be_decode_delta env b = Some d)"

definition tables_unforged :: "build_env \<Rightarrow> bool" where
  "tables_unforged env \<longleftrightarrow> (\<forall>h b b'. be_decode_table env b \<noteq> None \<or> be_decode_delta env b \<noteq> None \<longrightarrow>
     object_hash (be_hashes env) h b = h \<longrightarrow> object_hash (be_hashes env) h b' = h \<longrightarrow> b' = b)"

lemma load_artifact_hash: "load_artifact env h s = Some b \<Longrightarrow> object_hash (be_hashes env) h b = h"
  by (auto simp: load_artifact_def cas_get_Inr storage_get_def split: sum.splits option.splits if_splits)

lemma load_artifact_stored: "in_storage env s h \<Longrightarrow> \<exists>b. load_artifact env h s = Some b"
  by (auto simp: load_artifact_def in_storage_def split: sum.splits)

text \<open>The bytes of a table or delta are what any later state loads under their hash.\<close>

lemma load_unforged:
  assumes "tables_unforged env" "in_storage env s h" "object_hash (be_hashes env) h b = h"
    and "be_decode_table env b \<noteq> None \<or> be_decode_delta env b \<noteq> None"
  shows "load_artifact env h s = Some b"
proof -
  obtain b' where b': "load_artifact env h s = Some b'" using load_artifact_stored[OF assms(2)] by blast
  then have "b' = b" using assms(1,3,4) load_artifact_hash[OF b'] unfolding tables_unforged_def by blast
  then show ?thesis using b' by simp
qed

definition same_table :: "MetadataChunk \<Rightarrow> MetadataChunk \<Rightarrow> bool" where
  "same_table m t \<longleftrightarrow> mc_frames m = mc_frames t \<and> mc_gitlinks m = mc_gitlinks t \<and> mset (mc_files m) = mset (mc_files t)"

lemma table_deltaE:
  assumes "table_delta env table bundles (prev, prev_bundles) s = Some (mc, len, bytes)"
  obtains base_bytes base fm delta where "mc = ca_metadata_chunk prev" "load_artifact env mc s = Some base_bytes"
    "decode_table env base_bytes = Some base" "delta_between base fm table = Inr delta" "be_encode_delta env delta = Some bytes"
    "length bytes * 4 \<le> length base_bytes"
  using assms that unfolding table_delta_def by (auto simp: bind_eq_Some_conv ok_opt_def split: if_splits sum.splits)

lemma load_artifact_named: "env_ok env \<Longrightarrow> load_artifact env h s = Some b \<Longrightarrow> h \<noteq> []"
  using load_artifact_hash[of env h s b] unfolding object_hash_def env_ok_def hashes_ok_def
  by (metis list.size(3) zero_neq_numeral)

lemma store_table_named:
  assumes "store_table env table bundles previous s = (Inr t, s')" "env_ok env"
  shows "st_metadata_chunk t \<noteq> []"
proof (cases "Option.bind previous (\<lambda>p. table_delta env table bundles p s)")
  case None
  then show ?thesis using assms(1) store_bytes_ahead(2)[OF _ assms(2) refl] by (auto simp: store_table_def store_whole_table_def bbind_Inr)
next
  case (Some x)
  then obtain p where "table_delta env table bundles p s = Some x" by (auto simp: bind_eq_Some_conv)
  then obtain b where "load_artifact env (fst x) s = Some b" by (cases p; cases x) (auto elim!: table_deltaE)
  then show ?thesis using assms(1) Some load_artifact_named[OF assms(2)] by (cases x) (auto simp: store_table_def store_delta_def bbind_Inr)
qed

text \<open>
  A stored files table reads back: whether \<open>store_table\<close> stored it whole or as a delta on the previous result's
  base table, the metadata a later build loads from storage has the same frames, the same gitlinks and the same files.
\<close>

lemma stored_table_loads:
  assumes "store_table env table bundles previous s = (Inr t, s1)" "env_ok env" "codecs_ok env" "tables_unforged env"
    and table: "validate_geometry table = Inr ()" "length (mc_frames table) < 2 ^ 32"
    and stored: "in_storage env s' (st_metadata_chunk t)" "st_metadata_delta t \<noteq> [] \<Longrightarrow> in_storage env s' (st_metadata_delta t)"
    and a: "ca_metadata_chunk a = st_metadata_chunk t" "ca_metadata_delta a = st_metadata_delta t"
  shows "\<exists>m. load_metadata env a s' = Some m \<and> same_table m table \<and> (st_metadata_delta t = [] \<longrightarrow> m = table)"
proof (cases "Option.bind previous (\<lambda>p. table_delta env table bundles p s)")
  case None
  then obtain bytes s0 where enc: "be_encode_table env table = Some bytes" and st: "store_bytes env bytes s0 = (Inr (st_metadata_chunk t), s1)"
      and d: "st_metadata_delta t = []"
    using assms(1) by (auto simp: store_table_def store_whole_table_def bbind_Inr ok_or_def split: option.splits)
  have dec: "be_decode_table env bytes = Some table" using assms(3) enc by (simp add: codecs_ok_def)
  have hs: "hashes_ok (be_hashes env)" using assms(2) by (simp add: env_ok_def)
  have h: "st_metadata_chunk t = hs_sha256 (be_hashes env) bytes" using store_bytes_ahead(2)[OF st assms(2) refl] by simp
  then have "object_hash (be_hashes env) (st_metadata_chunk t) bytes = st_metadata_chunk t" using object_hash_sha256[OF hs] by simp
  from load_unforged[OF assms(4) stored(1) this] dec have "load_artifact env (st_metadata_chunk t) s' = Some bytes" by simp
  then have "load_metadata env a s' = Some table" using a d dec table(1) by (simp add: load_metadata_def decode_table_def)
  then show ?thesis by (simp add: same_table_def)
next
  case (Some x)
  obtain mc len bytes where x: "x = (mc, len, bytes)" by (cases x)
  obtain prev pb where p: "previous = Some (prev, pb)" "table_delta env table bundles (prev, pb) s = Some (mc, len, bytes)"
    using Some x by (cases previous) auto
  obtain base_bytes base fm delta where d: "load_artifact env mc s = Some base_bytes" "decode_table env base_bytes = Some base"
      "delta_between base fm table = Inr delta" "be_encode_delta env delta = Some bytes"
    by (rule table_deltaE[OF p(2)])
  obtain h s0 where st: "store_bytes env bytes s0 = (Inr h, s1)" and t: "st_metadata_chunk t = mc" "st_metadata_delta t = h"
    using assms(1) Some x by (auto simp: store_table_def store_delta_def bbind_Inr)
  have hs: "hashes_ok (be_hashes env)" using assms(2) by (simp add: env_ok_def)
  have h: "h \<noteq> []" "object_hash (be_hashes env) h bytes = h"
    using store_bytes_ahead(2)[OF st assms(2) refl] object_hash_sha256[OF hs] by auto
  have dec: "be_decode_delta env bytes = Some delta" using assms(3) d(4) by (simp add: codecs_ok_def)
  have dd: "load_artifact env h s' = Some bytes"
    using load_unforged[OF assms(4) _ h(2)] stored(2) h(1) t(2) dec by simp
  have base: "be_decode_table env base_bytes = Some base" "validate_geometry base = Inr ()"
    using d(2) by (auto simp: decode_table_def is_ok_iff split: option.splits if_splits)
  have bb: "load_artifact env mc s' = Some base_bytes"
    using load_unforged[OF assms(4) _ load_artifact_hash[OF d(1)]] stored(1) t(1) base(1) by simp
  obtain m where m: "delta_apply delta base = Inr m" "mc_frames m = mc_frames table" "mc_gitlinks m = mc_gitlinks table" "mset (mc_files m) = mset (mc_files table)"
    using delta_restores[OF base(2) table d(3)] by blast
  have "load_metadata env a s' = Some m" using a t h(1) bb d(2) dd dec m(1) by (simp add: load_metadata_def ok_opt_def)
  then show ?thesis using m h(1) t(2) by (simp add: same_table_def)
qed

section \<open>Published archives\<close>

definition blob_of :: "FileEntry \<Rightarrow> Blob" where
  "blob_of e = (fe_path e, fe_blob_sha1 e, fe_mode e)"

lemma archive_exact_alt:
  "archive_exact hash unz find_blob tree frames m bundles groups \<longleftrightarrow>
     archive_ok hash unz frames (mc_frames m) bundles groups \<and> tree = (mc_gitlinks m, map blob_of (mc_files m))
     \<and> (\<forall>e \<in> set (mc_files m). \<exists>content. find_blob (fe_blob_sha1 e) = Some content \<and> entry_exact (raw_frames groups) (blob_of e) content e)"
  (is "?L \<longleftrightarrow> ?R")
proof
  assume L: ?L
  then have "snd tree = map blob_of (mc_files m)" "fst tree = mc_gitlinks m" using exact_files(1,2)[OF L] by (simp_all add: blob_of_def[abs_def])
  then show ?R using L exact_files(3)[OF L] by (auto simp: archive_exact_def entry_exact_def blob_of_def prod_eq_iff)
next
  assume ?R
  then show ?L by (auto simp: archive_exact_def list_all2_conv_all_nth blob_of_def)
qed

text \<open>An exact archive stays exact under a table with the same files in another order.\<close>

lemma archive_exact_same_table:
  assumes "archive_exact hash unz find_blob tree frames t bundles groups" "same_table m t"
  shows "archive_exact hash unz find_blob (fst tree, map blob_of (mc_files m)) frames m bundles groups"
    and "mset (map blob_of (mc_files m)) = mset (snd tree)"
proof -
  note t = assms(1)[unfolded archive_exact_alt] and m = assms(2)[unfolded same_table_def]
  have "set (mc_files m) = set (mc_files t)" using m by (metis set_mset_mset)
  then show "archive_exact hash unz find_blob (fst tree, map blob_of (mc_files m)) frames m bundles groups"
    unfolding archive_exact_alt using t m by simp
  show "mset (map blob_of (mc_files m)) = mset (snd tree)" using t m by simp
qed

definition files_published :: "build_env \<Rightarrow> archive_env \<Rightarrow> (string \<Rightarrow> nat \<Rightarrow> string option) \<Rightarrow> string list \<times> Blob list \<Rightarrow> build_state \<Rightarrow> FilesResult \<Rightarrow> bool" where
  "files_published env ar unz tree s r \<longleftrightarrow>
     (\<exists>m groups tree'. load_metadata env (fl_clonepack r) s = Some m \<and> fst tree' = fst tree \<and> mset (snd tree') = mset (snd tree)
        \<and> archive_exact (hs_sha256 (be_hashes env)) unz (ae_blob ar) tree' (fl_archive_frames r) m (fl_archive_chunks r) groups)
     \<and> (\<forall>h \<in> set (clonepack_artifacts (fl_clonepack r) @ fl_archive_chunks r) - {[]}. in_storage env s h)"

text \<open>A base an incremental build can reuse frames of: its files follow one another in the frames.\<close>

definition compactable :: "build_env \<Rightarrow> archive_env \<Rightarrow> (string \<Rightarrow> nat \<Rightarrow> string option) \<Rightarrow> build_state \<Rightarrow> FilesResult \<Rightarrow> bool" where
  "compactable env ar unz s c \<longleftrightarrow> (\<forall>h \<in> set (fl_archive_chunks c). in_storage env s h) \<and> (\<exists>m groups. load_metadata env (fl_clonepack c) s = Some m
     \<and> base_exact (hs_sha256 (be_hashes env)) unz (ae_blob ar) \<lparr>ab_frames = fl_archive_frames c, ab_metadata = m, ab_bundles = fl_archive_chunks c\<rparr> groups
     \<and> in_stream_order m groups)"

text \<open>What the archive builder relies on of git, the chunkers and the compressor.\<close>

definition archive_env_ok :: "archive_env \<Rightarrow> (string \<Rightarrow> nat \<Rightarrow> string option) \<Rightarrow> git_env \<Rightarrow> bool" where
  "archive_env_ok ar unz git \<longleftrightarrow> headers_ok (ae_blob ar) (ae_size ar) \<and> codec_ok (ae_zstd ar) unz
     \<and> chunker_ok (ae_stream_cdc ar) \<and> chunker_ok (ae_slice_cdc ar)
     \<and> (\<forall>c tree. ge_tree git c = Inr tree \<longrightarrow> (\<forall>b \<in> set (snd tree). ae_blob ar (fst (snd b)) \<noteq> None))"

definition base_ready :: "build_env \<Rightarrow> archive_env \<Rightarrow> (string \<Rightarrow> nat \<Rightarrow> string option) \<Rightarrow> build_state \<Rightarrow> FilesResult option \<Rightarrow> bool" where
  "base_ready env ar unz s previous \<longleftrightarrow> (case previous of None \<Rightarrow> True | Some p \<Rightarrow>
     length (fl_archive_chunks p) < 2 ^ 32 \<and> (\<exists>tree. files_published env ar unz tree s p)
     \<and> (files_tail_fits p (compact_of p) FILES_TAIL_PERCENT \<or> compactable env ar unz s (compact_of p)))"

text \<open>The archive a build stores, whichever way it was built.\<close>

definition archive_out ::
    "build_env \<Rightarrow> archive_env \<Rightarrow> (string \<Rightarrow> nat \<Rightarrow> string option) \<Rightarrow> string list \<times> Blob list \<Rightarrow> build_state \<Rightarrow> ArchiveBuildOutput \<Rightarrow> bool" where
  "archive_out env ar unz tree s out \<longleftrightarrow>
     (\<exists>groups. archive_exact (hs_sha256 (be_hashes env)) unz (ae_blob ar) tree (ao_frames out) (ao_metadata out) (ao_bundles out) groups)
     \<and> stored_under (hs_sha256 (be_hashes env)) (ao_cas out) (ao_new_bundles out)
     \<and> (\<forall>h \<in> set (ao_bundles out). h \<in> set (ao_new_bundles out) \<or> in_storage env s h)"

lemma contents_found:
  "(\<And>b. b \<in> set blobs \<Longrightarrow> find_blob (fst (snd b)) \<noteq> None) \<Longrightarrow> \<exists>contents. contents_of find_blob blobs contents"
  by (rule exI[of _ "map (\<lambda>b. the (find_blob (fst (snd b)))) blobs"]) (auto simp: contents_of_def list_all2_conv_all_nth)

lemma whole_archive_out:
  assumes "whole_archive env ar tree base s = Inr out" "env_ok env" "archive_env_ok ar unz git" "ge_tree git commit = Inr tree"
    and base: "\<And>b. base = Some b \<Longrightarrow> base_exact (hs_sha256 (be_hashes env)) unz (ae_blob ar) b groups \<and> in_stream_order (ab_metadata b) groups
      \<and> (\<forall>h \<in> set (ab_bundles b). in_storage env s' h)"
  shows "archive_out env ar unz tree s' out"
proof -
  have "\<exists>contents. contents_of (ae_blob ar) (snd tree) contents"
    using contents_found assms(3,4) unfolding archive_env_ok_def by blast
  moreover have "length (hs_sha256 (be_hashes env) x) = 64" for x using assms(2) by (simp add: env_ok_def hashes_ok_def)
  ultimately obtain groups' where "archive_exact (hs_sha256 (be_hashes env)) unz (ae_blob ar) tree (ao_frames out) (ao_metadata out) (ao_bundles out) groups'"
      "\<forall>name \<in> set (ao_new_bundles out). \<exists>content. ao_cas out name = Some content \<and> hs_sha256 (be_hashes env) content = name"
      "set (ao_bundles out) \<subseteq> set (ao_new_bundles out) \<union> (case base of None \<Rightarrow> {} | Some b \<Rightarrow> set (ab_bundles b))"
    using built_archive_exact[OF assms(1)[unfolded whole_archive_def], of unz groups 64] assms(3) base unfolding archive_env_ok_def by auto
  then show ?thesis using base unfolding archive_out_def stored_under_def by (cases base) auto
qed

lemma build_files_archive_out:
  assumes "build_files_archive env ar tree tail (load_base env base_files s) s1 = Inr out" "choose_base previous = (tail, base_files)"
    and "env_ok env" "archive_env_ok ar unz git" "ge_tree git commit = Inr tree" "base_ready env ar unz s previous"
    and "length (ao_frames out) < 2 ^ 32" "length (ao_bundles out) < 2 ^ 32"
  shows "archive_out env ar unz tree s out"
proof -
  have hash: "length (hs_sha256 (be_hashes env) x) = 64" for x using assms(3) by (simp add: env_ok_def hashes_ok_def)
  note whole = whole_archive_out[OF _ assms(3-5)]
  consider (fresh) "load_base env base_files s = None" | (tail) p m where "tail" "previous = Some p" "load_metadata env (fl_clonepack p) s = Some m"
      "load_base env base_files s = Some \<lparr>ab_frames = fl_archive_frames p, ab_metadata = m, ab_bundles = fl_archive_chunks p\<rparr>"
    | (compact) p m where "\<not> tail" "previous = Some p" "load_metadata env (fl_clonepack (compact_of p)) s = Some m"
      "load_base env base_files s = Some \<lparr>ab_frames = fl_archive_frames (compact_of p), ab_metadata = m, ab_bundles = fl_archive_chunks (compact_of p)\<rparr>"
      "\<not> files_tail_fits p (compact_of p) FILES_TAIL_PERCENT"
    using assms(2) by (cases previous; cases "load_base env base_files s")
      (auto simp: choose_base_def load_base_def bind_eq_Some_conv split: if_splits)
  then show ?thesis
  proof cases
    case fresh
    then have "whole_archive env ar tree None s1 = Inr out" using assms(1) by (cases tail) (auto simp: build_files_archive_def)
    then show ?thesis by (rule whole) simp
  next
    case (tail p m)
    let ?b = "\<lparr>ab_frames = fl_archive_frames p, ab_metadata = m, ab_bundles = fl_archive_chunks p\<rparr>"
    obtain ptree groups where pub: "archive_exact (hs_sha256 (be_hashes env)) unz (ae_blob ar) ptree (fl_archive_frames p) m (fl_archive_chunks p) groups"
        and stored: "\<forall>h \<in> set (fl_archive_chunks p) - {[]}. in_storage env s h" and short: "length (fl_archive_chunks p) < 2 ^ 32"
      using assms(6) tail(2,3) unfolding base_ready_def files_published_def by fastforce
    have "[] \<notin> set (fl_archive_chunks p)"
    proof
      assume "[] \<in> set (fl_archive_chunks p)"
      then obtain x where "[] = hs_sha256 (be_hashes env) x" using pub by (auto simp: archive_exact_def archive_ok_def)
      then show False using hash[of x] by simp
    qed
    then have "\<forall>h \<in> set (fl_archive_chunks p). in_storage env s h" using stored by auto
    show ?thesis
    proof (cases "tail_archive env ar tree ?b s1")
      case (Inl e)
      then have "whole_archive env ar tree None s1 = Inr out" using assms(1) tail by (simp add: build_files_archive_def)
      then show ?thesis by (rule whole) simp
    next
      case (Inr o')
      then have run: "tail_archive env ar tree ?b s1 = Inr out" using assms(1) tail by (simp add: build_files_archive_def)
      have "\<exists>c. ae_blob ar (fst (snd b)) = Some c" if "b \<in> set (snd tree)" for b
        using assms(4,5) that unfolding archive_env_ok_def by blast
      then show ?thesis
        using tail_archive_exact[OF run[unfolded tail_archive_def], of unz ptree groups 64] pub hash short assms(4,7,8)
          \<open>\<forall>h \<in> set (fl_archive_chunks p). in_storage env s h\<close> unfolding archive_env_ok_def archive_out_def by auto
    qed
  next
    case (compact p m)
    then obtain groups where "base_exact (hs_sha256 (be_hashes env)) unz (ae_blob ar)
          \<lparr>ab_frames = fl_archive_frames (compact_of p), ab_metadata = m, ab_bundles = fl_archive_chunks (compact_of p)\<rparr> groups"
        "in_stream_order m groups" "\<forall>h \<in> set (fl_archive_chunks (compact_of p)). in_storage env s h"
      using assms(6) unfolding base_ready_def compactable_def by auto
    moreover have "whole_archive env ar tree (load_base env base_files s) s1 = Inr out" using assms(1) compact(1,4) by (simp add: build_files_archive_def)
    ultimately show ?thesis using whole[of "load_base env base_files s" s1 out groups s] compact(4) by auto
  qed
qed

section \<open>The Files build\<close>

lemma store_bundles_started:
  assumes "store_bundles env out s = (Inr u, s')" "env_ok env" "stored_under (hs_sha256 (be_hashes env)) (ao_cas out) (ao_new_bundles out)"
  shows "set (ao_new_bundles out) \<subseteq> set (bt_started s')"
proof
  fix h
  assume h: "h \<in> set (ao_new_bundles out)"
  then have "hs_sha256 (be_hashes env) (the (ao_cas out h)) = h" using assms(3) by (auto simp: stored_under_def)
  then show "h \<in> set (bt_started s')" using store_files_started[OF assms(1)[unfolded store_bundles_def] assms(2), of "the (ao_cas out h)"] h by auto
qed


section \<open>Stream order is lost by a delta\<close>

text \<open>
  The hypothesis on a base to compact is not idle.  The archive of the files a, b and c is exact and in stream order;
  its table is stored as a delta on the table of a and c, and loads back with b last.  A compaction that starts from the
  loaded table takes the frames of c for b's and the frames of b for c's.
\<close>

definition cx_frame :: "nat \<Rightarrow> FrameInfo" where
  "cx_frame k = \<lparr>chunk_index = 0, chunk_offset = of_nat (2 * k), compressed_len = 2, frame_raw_len = 2\<rparr>"

definition cx_file :: "string \<Rightarrow> nat \<Rightarrow> nat \<Rightarrow> FileEntry" where
  "cx_file p i k = \<lparr>fe_path = p, fe_mode = 33188, fe_blob_sha1 = replicate 20 (of_nat i),
     fe_fragments = [\<lparr>frame_index = of_nat k, frame_offset = 0, frag_raw_len = 2\<rparr>]\<rparr>"

definition cx_first :: MetadataChunk where
  "cx_first = \<lparr>mc_frames = [cx_frame 0, cx_frame 1], mc_files = [cx_file ''a'' 1 0, cx_file ''c'' 3 1], mc_gitlinks = []\<rparr>"

definition cx_table :: MetadataChunk where
  "cx_table = \<lparr>mc_frames = [cx_frame 0, cx_frame 1, cx_frame 2], mc_files = [cx_file ''a'' 1 0, cx_file ''b'' 2 1, cx_file ''c'' 3 2], mc_gitlinks = []\<rparr>"

definition cx_loaded :: "MetadataChunk mresult" where
  "cx_loaded = rbind (delta_between cx_first [1, 3] cx_table) (\<lambda>delta. delta_apply delta cx_first)"

definition cx_blob :: "oid \<Rightarrow> string option" where
  "cx_blob i = (if length i \<noteq> 20 then None else if hd i = 1 then Some ''aa'' else if hd i = 2 then Some ''bb''
     else if hd i = 3 then Some ''cc'' else if hd i = 4 then Some ''dd'' else None)"

definition cx_hash :: "string \<Rightarrow> string" where
  "cx_hash s = take 8 (s @ ''--------'')"

definition cx_archive_frame :: "string \<Rightarrow> ArchiveFrame" where
  "cx_archive_frame s = \<lparr>af_raw_hash = cx_hash s, af_chunk_hash = cx_hash s, af_compressed_len = length s, af_raw_len = length s\<rparr>"

definition cx_base :: "MetadataChunk \<Rightarrow> ArchiveBase" where
  "cx_base m = \<lparr>ab_frames = map cx_archive_frame [''aa'', ''bb'', ''cc''], ab_metadata = m, ab_bundles = [''aabbcc--'']\<rparr>"

definition cx_tree :: "string list \<times> Blob list" where
  "cx_tree = ([], map (\<lambda>(p, i). (p, replicate 20 i, 33188)) [(''a'', 1), (''b'', 2), (''c'', 3), (''d'', 4)])"

definition cx_compacted :: "MetadataChunk \<Rightarrow> ArchiveBuildOutput aresult" where
  "cx_compacted m = build_into_cas cx_blob (\<lambda>i. map_option length (cx_blob i)) (ex_cuts 0) (ex_cuts 0) cx_hash Inr 1 cx_tree Map.empty
     (Some (\<lambda>h start len. if h = ''aabbcc--'' then Some (take len (drop start ''aabbcc'')) else None)) (Some (cx_base m)) 64"

lemma cx_base_exact:
  "\<exists>tree groups. archive_exact cx_hash ex_unz cx_blob tree (ab_frames (cx_base cx_table)) cx_table (ab_bundles (cx_base cx_table)) groups
     \<and> in_stream_order cx_table groups"
proof (intro exI conjI)
  let ?groups = "[[(''aa'', ''aa''), (''bb'', ''bb''), (''cc'', ''cc'')]]"
  show "archive_exact cx_hash ex_unz cx_blob ([], [(''a'', replicate 20 1, 33188), (''b'', replicate 20 2, 33188), (''c'', replicate 20 3, 33188)])
      (ab_frames (cx_base cx_table)) cx_table (ab_bundles (cx_base cx_table)) ?groups"
    by (simp add: archive_exact_def archive_ok_def cx_base_def cx_table_def cx_frame_def cx_file_def cx_archive_frame_def frame_ok_def inflates_def ex_unz_def
        info_key_def bundle_content_def cx_hash_def raw_frames_def entry_exact_def cx_blob_def frag_in_def file_bytes_def frag_bytes_def seg_def)
  show "in_stream_order cx_table ?groups"
    by (simp add: in_stream_order_def cx_table_def cx_file_def raw_frames_def file_bytes_def frag_bytes_def seg_def)
qed

theorem compaction_takes_other_frames:
  "\<exists>m out. cx_loaded = Inr m \<and> map fe_path (mc_files m) = [''a'', ''c'', ''b''] \<and> cx_compacted m = Inr out
     \<and> mc_files (ao_metadata out) ! 1 = cx_file ''b'' 2 1 \<and> af_raw_hash (ao_frames out ! 1) = cx_hash ''cc''"
proof -
  have "case cx_loaded of Inl _ \<Rightarrow> False | Inr m \<Rightarrow> map fe_path (mc_files m) = [''a'', ''c'', ''b''] \<and> (case cx_compacted m of Inl _ \<Rightarrow> False
      | Inr out \<Rightarrow> mc_files (ao_metadata out) ! 1 = cx_file ''b'' 2 1 \<and> af_raw_hash (ao_frames out ! 1) = cx_hash ''cc'')" by code_simp
  then show ?thesis by (auto split: sum.splits)
qed

end
