(* ===== verification/Builder_Live.thy ===== *)
theory Builder_Live
  imports Builder_Files
begin

text \<open>
  Builds that return: when no file system call and no upload fails, the codecs encode, and no cancellation comes, a
  build fails only on what git or the archive builder refuses.  The concrete builds at the end apply the properties of
  finished builds.
\<close>

section \<open>Operations that return\<close>

definition all_works :: "build_env \<Rightarrow> bool" where
  "all_works env \<longleftrightarrow> env_ok env \<and> (\<forall>h. \<not> cw_write_fails (be_world env) h \<and> \<not> cw_rename_fails (be_world env) h \<and> \<not> cw_sync_fails (be_world env) h)
     \<and> (\<forall>h. \<not> be_upload_fails env h) \<and> (\<forall>h. be_hex_decode env h \<noteq> None)
     \<and> (\<forall>packs. be_midx env packs \<noteq> None)"

definition current :: "build_env \<Rightarrow> build_state \<Rightarrow> bool" where
  "current env s \<longleftrightarrow> started_ok env s \<and> True \<notin> set (bt_cancels s)"

definition returns :: "build_env \<Rightarrow> 'a build \<Rightarrow> build_state \<Rightarrow> ('a \<Rightarrow> build_state \<Rightarrow> bool) \<Rightarrow> bool" where
  "returns env m s P \<longleftrightarrow> (\<exists>x s'. m s = (Inr x, s') \<and> current env s' \<and> ahead env s s' \<and> P x s')"

lemma returns_bind:
  assumes "returns env m s P" "\<And>x s1. current env s1 \<Longrightarrow> ahead env s s1 \<Longrightarrow> P x s1 \<Longrightarrow> returns env (f x) s1 Q"
  shows "returns env (bbind m f) s Q"
proof -
  obtain x s1 where one: "m s = (Inr x, s1)" "current env s1" "ahead env s s1" "P x s1" using assms(1) by (auto simp: returns_def)
  from assms(2)[OF one(2-4)] obtain y s2 where two: "f x s1 = (Inr y, s2)" "current env s2" "ahead env s1 s2" "Q y s2" by (auto simp: returns_def)
  show ?thesis unfolding returns_def bbind_Inr using one(1) two ahead_trans[OF one(3) two(3)] by blast
qed

lemma returns_return: "current env s \<Longrightarrow> P x s \<Longrightarrow> returns env (breturn x) s P"
  by (simp add: returns_def)

lemma returns_lift: "current env s \<Longrightarrow> r = Inr x \<Longrightarrow> P x s \<Longrightarrow> returns env (blift g r) s P"
  by (simp add: returns_def)

lemma returns_check:
  assumes "current env s"
  shows "returns env check_current s (\<lambda>_ _. True)"
proof -
  have "started_ok env (s\<lparr>bt_cancels := cs\<rparr>)" for cs using assms by (simp add: current_def started_ok_def whole_def)
  then show ?thesis using assms by (cases "bt_cancels s") (auto simp: returns_def check_current_def current_def)
qed

lemma returns_weaken: "returns env m s P \<Longrightarrow> (\<And>x s'. P x s' \<Longrightarrow> Q x s') \<Longrightarrow> returns env m s Q"
  by (auto simp: returns_def)

definition announced :: "build_env \<Rightarrow> build_state \<Rightarrow> string \<Rightarrow> bool" where
  "announced env s h \<longleftrightarrow> whole env s h \<and> h \<in> set (bt_started s)"

lemma announced_ahead: "ahead env s s' \<Longrightarrow> announced env s h \<Longrightarrow> announced env s' h"
  by (auto simp: announced_def ahead_def)

lemma returns_store:
  assumes "all_works env" "current env s"
  shows "returns env (store_bytes env data) s (\<lambda>h s'. announced env s' h \<and> h = hs_sha256 (be_hashes env) data \<and> h \<noteq> [])"
proof -
  obtain r s' where run: "store_bytes env data s = (r, s')" by fastforce
  have env: "env_ok env" "hashes_ok (be_hashes env)" using assms(1) by (simp_all add: all_works_def env_ok_def)
  have "\<exists>h c. cas_put (be_hashes env) (be_world env) data (bt_cas s) = (Inr h, c)"
    using assms(1) sha256_valid[OF env(2)] by (simp add: cas_put_def writer_finish_def cas_install_def all_works_def Let_def)
  then obtain h where h: "r = Inr h" "bt_cancels s' = bt_cancels s"
    using run by (auto simp: store_bytes_def upload_start_def)
  show ?thesis unfolding returns_def announced_def
    using run h store_bytes_ahead[OF run env(1)] assms(2) ahead_ok by (auto simp: current_def)
qed

lemma returns_store_files:
  assumes "all_works env" "current env s"
  shows "returns env (store_files env datas) s (\<lambda>_ s'. \<forall>d \<in> set datas. announced env s' (hs_sha256 (be_hashes env) d))"
  using assms(2)
proof (induction datas arbitrary: s)
  case (Cons d ds)
  show ?case unfolding store_files.simps
  proof (rule returns_bind[OF returns_store[OF assms(1) Cons.prems]])
    fix h s1
    assume s1: "current env s1" "announced env s1 h \<and> h = hs_sha256 (be_hashes env) d \<and> h \<noteq> []"
    show "returns env (store_files env ds) s1 (\<lambda>_ s'. \<forall>x \<in> set (d # ds). announced env s' (hs_sha256 (be_hashes env) x))"
      using Cons.IH[OF s1(1)] s1(2) announced_ahead by (fastforce simp: returns_def)
  qed
qed (simp add: returns_def)

lemma returns_store_packs:
  assumes "all_works env" "current env s" "r = Inr packs" "list_all (named_pack env) packs"
  shows "returns env (store_packs env r) s (\<lambda>ps s'. ps = packs \<and> (\<forall>h \<in> set (pack_hashes packs). announced env s' h))"
proof -
  have "announced env s' h" if stored: "\<forall>d \<in> set (pack_files env packs). announced env s' (hs_sha256 (be_hashes env) d)"
      and h: "h \<in> set (pack_hashes packs)" for s' h
  proof -
    obtain p l i m where p: "(p, l, i, m) \<in> set packs" "h = p \<or> h = i" using h by (auto simp: pack_hashes_def)
    then have "be_file env h \<in> set (pack_files env packs)" "hs_sha256 (be_hashes env) (be_file env h) = h"
      using assms(4) by (force simp: pack_files_def list_all_iff named_pack_def)+
    then show ?thesis using stored by metis
  qed
  note named = this
  have files: "returns env (store_files env (pack_files env packs)) s1 (\<lambda>_ s'. \<forall>h \<in> set (pack_hashes packs). announced env s' h)"
    if "current env s1" for s1 by (rule returns_weaken[OF returns_store_files[OF assms(1) that]]) (use named in blast)
  show ?thesis unfolding store_packs_def assms(3)
    by (rule returns_bind[where P = "\<lambda>x s'. x = packs"])
      (auto intro!: returns_lift assms(2) returns_bind[OF files] returns_return)
qed

lemma returns_get_cached:
  assumes "current env s" "whole env s h"
  shows "returns env (get_cached env h) s (\<lambda>data s'. True)"
  using assms by (auto simp: returns_def get_cached_def whole_def)

lemma returns_get_all:
  assumes "current env s" "\<And>h. h \<in> set hs \<Longrightarrow> whole env s h"
  shows "returns env (get_all_cached env hs) s (\<lambda>datas s'. length datas = length hs)"
proof -
  have "\<exists>datas. get_all_cached env hs s = (Inr datas, s) \<and> length datas = length hs" using assms(2)
  proof (induction hs)
    case (Cons h hs)
    then obtain d datas where "get_cached env h s = (Inr d, s)" "get_all_cached env hs s = (Inr datas, s)" "length datas = length hs"
      by (fastforce simp: get_cached_def whole_def)
    then show ?case by simp
  qed simp
  then show ?thesis using assms(1) by (auto simp: returns_def)
qed

lemma chunk_ref_works: "all_works env \<Longrightarrow> \<exists>r. chunk_ref env h n = Inr r"
  by (auto simp: all_works_def chunk_ref_def ok_or_def rbind_def split: option.splits)

lemma returns_ref: "all_works env \<Longrightarrow> current env s \<Longrightarrow> returns env (blift id (chunk_ref env h n)) s (\<lambda>_ _. True)"
  using chunk_ref_works returns_lift by metis

lemma returns_store_table:
  assumes "all_works env" "current env s" "be_encode_table env table \<noteq> None"
  shows "returns env (store_table env table bundles None) s (\<lambda>t s'. announced env s' (stored_artifact t))"
proof -
  have env: "env_ok env" using assms(1) by (simp add: all_works_def)
  obtain bytes where bytes: "be_encode_table env table = Some bytes" using assms(3) by blast
  have "returns env (store_whole_table env table) s (\<lambda>t s'. announced env s' (stored_artifact t))"
    unfolding store_whole_table_def bytes ok_or_def option.case
    by (intro returns_bind[OF returns_lift[where P = "\<lambda>x s'. x = bytes"]] returns_bind[OF returns_store[OF assms(1)]] returns_bind[OF returns_ref[OF assms(1)]])
      (auto intro!: assms(2) returns_return simp: stored_artifact_def announced_ahead)
  then show ?thesis by (simp add: returns_def store_table_def)
qed

section \<open>The end of a build\<close>

lemma upload_list_returns:
  assumes "all_works env" "\<And>h. h \<in> set hs \<Longrightarrow> whole env s h"
  shows "\<exists>s'. upload_list env hs s = (Inr (), s')"
  using assms(2)
proof (induction hs arbitrary: s)
  case (Cons h hs)
  obtain d where d: "cs_objects (bt_cas s) h = Some d" using Cons.prems[of h] by (auto simp: whole_def cas_get_Inr)
  have "\<exists>s1. upload_one env h s = (Inr (), s1) \<and> bt_cas s1 = bt_cas s"
    using assms(1) d by (simp add: upload_one_def all_works_def)
  then obtain s1 where one: "upload_one env h s = (Inr (), s1)" "bt_cas s1 = bt_cas s" by blast
  have "whole env s1 g" if "g \<in> set hs" for g using Cons.prems[of g] that one(2) by (simp add: whole_def)
  from Cons.IH[OF this] one(1) show ?case by (auto simp: bbind_def)
qed (simp add: breturn_def)

lemma finish_returns:
  assumes "all_works env" "current env s"
  shows "\<exists>s'. bbind (uploads_finish env) (\<lambda>up. bbind (settle_storage env up keep) (\<lambda>_. breturn x)) s = (Inr x, s')"
proof -
  have "\<And>h. h \<in> set (bt_started s) \<Longrightarrow> whole env s h" using assms(2) by (simp add: current_def started_ok_def)
  then obtain s1 where "upload_list env (bt_started s) s = (Inr (), s1)" using upload_list_returns[OF assms(1)] by blast
  then show ?thesis by (auto simp: uploads_finish_def bbind_def breturn_def settle_storage_def)
qed

lemma returns_start_all:
  assumes "current env s" "\<And>h. h \<in> set hs \<Longrightarrow> h = [] \<or> announced env s h"
  shows "returns env (start_all hs) s (\<lambda>_ _. True)"
proof -
  obtain s' where run: "start_all hs s = (Inr (), s')" by (simp add: start_all_def)
  have "s' = s" by (rule start_all_started[OF run]) (use assms(2) in \<open>auto simp: announced_def\<close>)
  then show ?thesis using run assms(1) by (simp add: returns_def)
qed

lemma returns_ends:
  assumes "returns env m s P" "\<And>x s1. current env s1 \<Longrightarrow> ahead env s s1 \<Longrightarrow> P x s1 \<Longrightarrow> \<exists>y s'. f x s1 = (Inr y, s')"
  shows "\<exists>y s'. bbind m f s = (Inr y, s')"
  using assms unfolding returns_def bbind_Inr by blast

section \<open>Cold Head builds\<close>

lemma entry_works: "all_works env \<Longrightarrow> \<exists>e. pack_entry_ref env p b off = Inr e"
proof -
  assume works: "all_works env"
  obtain p1 n1 p2 n2 where p: "p = (p1, n1, p2, n2)" by (metis prod_cases4)
  show ?thesis using chunk_ref_works[OF works, of p1 n1] chunk_ref_works[OF works, of p2 n2] by (auto simp: pack_entry_ref_def p)
qed

lemma bundled_works: "all_works env \<Longrightarrow> \<exists>es. bundled_entries env n packs idxs = Inr es"
proof (induction env n packs idxs rule: bundled_entries.induct)
  case (1 env len p ps idx idxs)
  then show ?case using entry_works[OF 1(2)] by (metis bundled_entries.simps(1) rbind_simps(2))
qed simp_all

lemma returns_head_packs:
  assumes "all_works env" "current env s" "\<And>h. h \<in> set (pack_hashes packs) \<Longrightarrow> announced env s h"
  shows "returns env (assemble_head_packs env packs (length packs)) s (\<lambda>(_, _, h) s'. h = [] \<or> announced env s' h)"
proof -
  have idx: "whole env s h" if "h \<in> set (map (\<lambda>(_, _, idx, _). idx) packs)" for h
    using that assms(3) by (force simp: pack_hashes_def announced_def)
  show ?thesis
  proof (cases "packs = []")
    case True
    then show ?thesis using assms(2) by (auto simp: assemble_head_packs_def Let_def intro!: returns_bind[OF returns_lift[where P = "\<lambda>_ _. True"]] returns_return)
  next
    case False
    have entries: "returns env (blift id (bundled_entries env 0 packs idxs)) s1 (\<lambda>_ _. True)" if "current env s1" for s1 idxs
      using bundled_works[OF assms(1)] returns_lift[OF that] by metis
    show ?thesis using False unfolding assemble_head_packs_def Let_def
      by (auto intro!: returns_bind[OF returns_get_all[OF assms(2) idx]] returns_bind[OF entries] returns_bind[OF returns_lift[where P = "\<lambda>_ _. True"]]
          returns_bind[OF returns_store[OF assms(1)]] returns_bind[OF returns_ref[OF assms(1)]] returns_return intro: announced_ahead)
  qed
qed

lemma returns_midx:
  assumes "all_works env" "current env s"
  shows "returns env (assemble_midx env packs) s (\<lambda>(_, h) s'. h = [] \<or> announced env s' h)"
proof -
  obtain m where "be_midx env (map (\<lambda>(p, _, i, _). (p, i)) packs) = Some m" using assms(1) unfolding all_works_def by blast
  then show ?thesis using assms(2)
    by (auto simp: assemble_midx_def ok_or_def intro!: returns_return returns_bind[OF returns_lift[where P = "\<lambda>_ _. True"]]
        returns_bind[OF returns_store[OF assms(1)]] returns_bind[OF returns_ref[OF assms(1)]] intro: announced_ahead)
qed

lemma cold_head_returns:
  assumes "all_works env" "current env s" "packs_named env git"
    "build_head_packs (ge_closure git) (ge_sizes git) (ge_pack git) commit HEAD_TARGET = Inr packs"
  shows "returns env (build_head_part env git commit None) s
    (\<lambda>b s'. hd_all_packs b = packs \<and> hd_new_built b = packs \<and> length (hd_base_packs b) = length packs \<and> hd_all_local b
       \<and> (\<forall>h \<in> set (pack_hashes packs). announced env s' h))"
proof -
  note store = returns_store_packs[OF assms(1) _ assms(4) head_packs_named(1)[OF assms(3,4)]]
  have "returns env (cold_head env git commit) s
    (\<lambda>b s'. hd_all_packs b = packs \<and> hd_new_built b = packs \<and> length (hd_base_packs b) = length packs \<and> hd_all_local b
       \<and> (\<forall>h \<in> set (pack_hashes packs). announced env s' h))"
    unfolding cold_head_def by (auto intro!: returns_bind[OF returns_check] returns_bind[OF store] returns_return assms(2))
  then show ?thesis by (simp add: returns_def build_head_part_def)
qed

lemma returns_head_manifest:
  assumes "all_works env" "current env s" "archive_chunk_refs env [] table = Inr refs" "hd_all_packs b = packs" "length (hd_base_packs b) = length packs"
    "hd_all_local b" "\<And>h. h \<in> set (pack_hashes packs) \<Longrightarrow> announced env s h" "be_encode_table env table \<noteq> None"
  shows "returns env (head_manifest env commit parent None table b) s
    (\<lambda>(t, manifest, bundle, midx) s'. announced env s' (stored_artifact t) \<and> announced env s' manifest
       \<and> (bundle = [] \<or> announced env s' bundle) \<and> (midx = [] \<or> announced env s' midx))"
  unfolding head_manifest_def assms(3-5) option.map if_P[OF assms(6)]
  apply (rule returns_bind[OF returns_store_table[OF assms(1,2,8)]])
  apply (rule returns_bind[OF returns_lift[where x = refs and P = "\<lambda>_ _. True"]], assumption, rule refl, rule TrueI)
  apply (rule returns_bind[OF returns_head_packs[OF assms(1)]], assumption)
  subgoal using assms(7) announced_ahead ahead_trans by blast
  apply clarsimp
  apply (rule returns_bind[OF returns_check], assumption)
  apply (rule returns_bind[OF returns_midx[OF assms(1)]], assumption)
  apply clarsimp
  apply (rule returns_bind[OF returns_store[OF assms(1)]], assumption)
  apply (rule returns_return, assumption)
  apply (auto intro: announced_ahead ahead_trans)
  done

lemma cold_head_builds:
  assumes "all_works env" "current env s" "packs_named env git"
    and "build_head_packs (ge_closure git) (ge_sizes git) (ge_pack git) commit HEAD_TARGET = Inr packs"
    and "ge_tree git commit = Inr tree" "validate_geometry (build_files_table tree) = Inr ()"
    and "be_encode_table env (build_files_table tree) \<noteq> None"
  shows "\<exists>r s'. build_head_result env git commit parent None None s = (Inr r, s')"
proof -
  have frames: "mc_frames (build_files_table tree) = []" by (simp add: build_files_table_def split: prod.splits)
  have refs: "archive_chunk_refs env [] (build_files_table tree) = Inr []"
    using assms(6) frames by (simp add: archive_chunk_refs_def archive_chunk_lengths_def)
  show ?thesis unfolding build_head_result_def assms(5)
    apply (rule returns_ends[OF cold_head_returns[OF assms(1-4)]])
    apply (rule returns_ends[OF returns_lift[where x = tree and P = "\<lambda>x _. x = tree"]], assumption, simp, simp, hypsubst)
    apply (rule returns_ends[OF returns_check], assumption)
    apply (rule returns_ends[OF returns_head_manifest[OF assms(1) _ refs]], assumption)
    apply (auto intro: announced_ahead simp: assms(7))[5]
    apply clarify
    apply (rule returns_ends[OF returns_check], assumption)
    apply (rule returns_ends[OF returns_start_all], assumption)
    subgoal by (auto; meson announced_ahead ahead_trans)
    apply (rule exI, rule finish_returns[OF assms(1)], assumption)
    done
qed


section \<open>A concrete Head build\<close>

text \<open>A digest that tells the table, the manifest and the idx file apart; one pack, one file and a submodule.\<close>

definition bx_mark :: "string \<Rightarrow> char" where
  "bx_mark data = (if data = ''table'' then CHR ''a'' else if data = ''manifest'' then CHR ''b'' else if data = ''idx'' then CHR ''c'' else CHR ''d'')"

definition bx_hashes :: hashes where
  "bx_hashes = \<lparr>hs_sha1 = (\<lambda>data. replicate 40 (bx_mark data)), hs_sha256 = (\<lambda>data. replicate 64 (bx_mark data))\<rparr>"

lemma bx_hashes_ok: "hashes_ok bx_hashes"
proof -
  have "is_lower_hex CHR ''a''" "is_lower_hex CHR ''b''" "is_lower_hex CHR ''c''" "is_lower_hex CHR ''d''" by code_simp+
  then show ?thesis by (simp add: hashes_ok_def bx_hashes_def bx_mark_def list_all_iff)
qed

definition bx_env :: build_env where
  "bx_env = \<lparr>be_hashes = bx_hashes,
     be_world = \<lparr>cw_write_fails = \<lambda>_. False, cw_rename_fails = \<lambda>_. False, cw_sync_fails = \<lambda>_. False, cw_remove_fails = \<lambda>_. False\<rparr>,
     be_remote = True, be_upload_fails = \<lambda>_. False, be_encode_table = \<lambda>t. Some ''table'', be_decode_table = \<lambda>b. None,
     be_encode_delta = \<lambda>d. None, be_decode_delta = \<lambda>b. None, be_encode_manifest = \<lambda>m. ''manifest'', be_decode_manifest = \<lambda>b. None,
     be_hex_decode = \<lambda>h. Some [], be_hex_encode = \<lambda>_. [], be_idx_hex = id, be_midx = \<lambda>_. Some ''midx'',
     be_file = \<lambda>h. if h = replicate 64 CHR ''c'' then ''idx'' else ''pack''\<rparr>"

definition bx_pack :: pack_tuple where
  "bx_pack = (replicate 64 CHR ''d'', 4, replicate 64 CHR ''c'', 3)"

definition bx_git :: git_env where
  "bx_git = \<lparr>ge_closure = \<lambda>_. Inr [''x'', ''y''], ge_sizes = \<lambda>_. Inr (\<lambda>_. Some 10), ge_pack = \<lambda>_. Inr bx_pack,
     ge_history = \<lambda>_ _. Inr [], ge_tree = \<lambda>_. Inr ([''sub''], [(''a'', replicate 20 1, 33188)]), ge_is_ancestor = \<lambda>_ _. Inr False,
     ge_own_history = \<lambda>_ _ _. Inr []\<rparr>"

definition bx_start :: build_state where
  "bx_start = \<lparr>bt_cas = \<lparr>cs_objects = Map.empty, cs_synced = {}, cs_durable = False, cs_pins = {}, cs_stored = []\<rparr>,
     bt_storage = Map.empty, bt_started = [], bt_cancels = [False, False]\<rparr>"

lemma bx_works: "all_works bx_env" "packs_named bx_env bx_git" "current bx_env bx_start" "started_ok bx_env bx_start"
  using bx_hashes_ok by (simp_all add: all_works_def env_ok_def bx_env_def packs_named_def bx_git_def named_pack_def bx_pack_def bx_hashes_def bx_mark_def
      current_def started_ok_def bx_start_def)

lemma bx_head_packs: "build_head_packs (ge_closure bx_git) (ge_sizes bx_git) (ge_pack bx_git) ''c'' HEAD_TARGET = Inr [bx_pack]"
  by (simp add: build_head_packs_def build_packs_from_oids_def bx_git_def partition_oids_def HEAD_TARGET_def u64_checked_add_def)

lemma bx_table: "validate_geometry (build_files_table ([''sub''], [(''a'', replicate 20 1, 33188)])) = Inr ()"
  by code_simp


theorem head_build_durable_witness:
  "\<exists>r s'. build_head_result bx_env bx_git ''c'' None None None bx_start = (Inr r, s') \<and> list_all (in_storage bx_env s') (head_artifacts r)"
proof -
  obtain r s' where run: "build_head_result bx_env bx_git ''c'' None None None bx_start = (Inr r, s')"
    using cold_head_builds[OF bx_works(1,3,2) bx_head_packs, of "([''sub''], [(''a'', replicate 20 1, 33188)])" None] bx_table by (auto simp: bx_git_def bx_env_def)
  have "env_ok bx_env" using bx_works(1) by (simp add: all_works_def)
  from head_build_durable[OF run this bx_works(2,4)] run show ?thesis by (auto simp: list_all_iff)
qed

section \<open>First Files builds\<close>

lemma returns_bundles:
  assumes "all_works env" "current env s" "stored_under (hs_sha256 (be_hashes env)) (ao_cas out) (ao_new_bundles out)"
  shows "returns env (store_bundles env out) s (\<lambda>_ s'. \<forall>h \<in> set (ao_new_bundles out). announced env s' h)"
  unfolding store_bundles_def
  by (rule returns_weaken[OF returns_store_files[OF assms(1,2)]]) (use assms(3) in \<open>fastforce simp: stored_under_def\<close>)

lemma first_files_builds:
  assumes "all_works env" "current env s" "ge_tree git commit = Inr tree" "whole_archive env ar tree None s = Inr out"
    "archive_chunk_refs env (ao_bundles out) (ao_metadata out) = Inr refs" "be_encode_table env (ao_metadata out) \<noteq> None"
    "stored_under (hs_sha256 (be_hashes env)) (ao_cas out) (ao_new_bundles out)"
  shows "\<exists>r s'. build_files_result env git ar commit parent None s = (Inr r, s')"
proof -
  have archive: "returns env (\<lambda>s. blift ArchiveFailed (build_files_archive env ar tree False None s) s) s (\<lambda>x s'. x = out \<and> s' = s)"
    using assms(2,4) by (simp add: returns_def build_files_archive_def)
  show ?thesis unfolding build_files_result_def choose_base_def option.case prod.case load_base_def bind.simps option.map Let_def assms(3)
    apply (rule returns_ends[where P = "\<lambda>x s'. x = tree \<and> s' = s"])
    apply (rule returns_lift[OF assms(2) refl], simp)
    apply (erule conjE, simp only:)
    apply (rule returns_ends[OF archive])
    apply (erule conjE, simp only:)
    apply (rule returns_ends[OF returns_bundles[OF assms(1,2,7)]])
    apply (rule returns_ends[OF returns_check], assumption)
    apply (rule returns_ends[OF returns_store_table[OF assms(1) _ assms(6)]], assumption)
    apply (rule returns_ends[OF returns_lift[OF _ assms(5), where P = "\<lambda>_ _. True"]], assumption, rule TrueI)
    apply (rule returns_ends[OF returns_store[OF assms(1)]], assumption)
    apply (rule returns_ends[OF returns_start_all], assumption)
    subgoal by (auto; meson announced_ahead ahead_trans)
    apply (rule exI, rule finish_returns[OF assms(1)], assumption)
    done
qed

text \<open>One file of two frames in one bundle.\<close>

definition bx_table_files :: MetadataChunk where
  "bx_table_files = \<lparr>mc_frames = [\<lparr>chunk_index = 0, chunk_offset = 0, compressed_len = 2, frame_raw_len = 2\<rparr>,
       \<lparr>chunk_index = 0, chunk_offset = 2, compressed_len = 2, frame_raw_len = 2\<rparr>],
     mc_files = [\<lparr>fe_path = ''a'', fe_mode = 33188, fe_blob_sha1 = replicate 20 1,
         fe_fragments = [\<lparr>frame_index = 0, frame_offset = 0, frag_raw_len = 2\<rparr>, \<lparr>frame_index = 1, frame_offset = 0, frag_raw_len = 2\<rparr>]\<rparr>],
     mc_gitlinks = [''sub'']\<rparr>"

definition bx_files_env :: build_env where
  "bx_files_env = bx_env\<lparr>be_encode_table := \<lambda>t. if t = bx_table_files then Some ''table'' else None,
     be_decode_table := \<lambda>b. if b = ''table'' then Some bx_table_files else None\<rparr>"

definition bx_blob :: "oid \<Rightarrow> string option" where
  "bx_blob i = (if i = replicate 20 1 then Some ''abcd'' else None)"

definition bx_archive :: archive_env where
  "bx_archive = \<lparr>ae_blob = bx_blob, ae_size = \<lambda>i. map_option length (bx_blob i), ae_stream_cdc = ex_cuts 0, ae_slice_cdc = ex_cuts 0,
     ae_zstd = Inr, ae_cdc_min = 1, ae_bundle_size = 64\<rparr>"

definition bx_out :: "ArchiveBuildOutput aresult" where
  "bx_out = whole_archive bx_files_env bx_archive ([''sub''], [(''a'', replicate 20 1, 33188)]) None bx_start"

lemma bx_out_parts:
  "case bx_out of Inl _ \<Rightarrow> False | Inr out \<Rightarrow> ao_metadata out = bx_table_files \<and> ao_new_bundles out = [replicate 64 CHR ''d'']
     \<and> ao_bundles out = [replicate 64 CHR ''d''] \<and> length (ao_frames out) = 2 \<and> ao_cas out (replicate 64 CHR ''d'') = Some ''abcd''"
  by code_simp

lemma bx_refs: "is_ok (archive_chunk_refs bx_files_env [replicate 64 CHR ''d''] bx_table_files)"
  by code_simp

lemma bx_files_works: "all_works bx_files_env" "current bx_files_env bx_start" "started_ok bx_files_env bx_start" "codecs_ok bx_files_env" "tables_unforged bx_files_env"
proof -
  show "all_works bx_files_env" using bx_hashes_ok by (simp add: all_works_def env_ok_def bx_files_env_def bx_env_def)
  show "started_ok bx_files_env bx_start" "current bx_files_env bx_start" by (simp_all add: current_def started_ok_def bx_start_def)
  show "codecs_ok bx_files_env" by (simp add: codecs_ok_def bx_files_env_def bx_env_def)
  show "tables_unforged bx_files_env"
    by (auto simp: tables_unforged_def bx_files_env_def bx_env_def object_hash_def bx_hashes_def bx_mark_def split: if_splits)
qed


end
