(* ===== verification/Response.thy ===== *)
theory Response
  imports Control
begin

text \<open>
  The body of a ready output, which the server writes (\<open>RefResponse\<close> of \<open>src/rust/src/server/api.rs\<close>) and the client
  reads (\<open>RefResponse\<close> of \<open>src/rust/src/client.rs\<close>), with the references of \<open>src/rust/src/branches.rs\<close>.

  The response of the refs base, \<open>refs_base\<close>, is a boxed response that has none of its own, so it stands beside the
  response in \<open>OutputResponse\<close>.
\<close>

record SidePackRef =
  spr_pack :: string
  spr_pack_len :: nat
  spr_pack_url :: "string option"
  spr_idx :: string
  spr_idx_len :: nat
  spr_idx_url :: "string option"

record BranchesRef =
  bref_artifact :: string
  bref_artifact_url :: "string option"
  bref_side_packs :: "SidePackRef list"

record OwnHistoryRef =
  ohr_packs :: "SidePackRef list"
  ohr_head_packs :: "nat list"

record RefResponse =
  resp_owner :: string
  resp_repo :: string
  resp_provider :: string
  resp_host :: string
  resp_origin_url :: string
  resp_commit :: string
  resp_parent_commit :: "string option"
  resp_clonepack_manifest :: string
  resp_clonepack_manifest_url :: "string option"
  resp_metadata_chunk :: string
  resp_metadata_chunk_url :: "string option"
  resp_metadata_delta :: string
  resp_metadata_delta_url :: "string option"
  resp_archive_chunk_urls :: "string option list option"
  resp_pack_chunk_urls :: "string option list option"
  resp_pack_idx_urls :: "string option list option"
  resp_midx_url :: "string option"
  resp_idx_bundle_url :: "string option"
  resp_tags_artifact :: "string option"
  resp_tags_artifact_url :: "string option"
  resp_branches :: "BranchesRef option"
  resp_own_history :: "OwnHistoryRef option"
  resp_kind :: ExactResultKind
  resp_inline :: "string \<Rightarrow> string option"

record OutputResponse =
  out_response :: RefResponse
  out_refs_base :: "RefResponse option"

text \<open>The artifact ids a response names.\<close>

definition side_ref_hashes :: "SidePackRef list \<Rightarrow> string list" where
  "side_ref_hashes packs = concat (map (\<lambda>p. [spr_pack p, spr_idx p]) packs)"

definition response_hashes :: "RefResponse \<Rightarrow> string list" where
  "response_hashes r =
     [resp_clonepack_manifest r, resp_metadata_chunk r, resp_metadata_delta r]
     @ (case resp_tags_artifact r of None \<Rightarrow> [] | Some h \<Rightarrow> [h])
     @ (case resp_branches r of None \<Rightarrow> [] | Some b \<Rightarrow> bref_artifact b # side_ref_hashes (bref_side_packs b))
     @ (case resp_own_history r of None \<Rightarrow> [] | Some o' \<Rightarrow> side_ref_hashes (ohr_packs o'))"

definition output_hashes :: "OutputResponse \<Rightarrow> string list" where
  "output_hashes r = response_hashes (out_response r) @ (case out_refs_base r of None \<Rightarrow> [] | Some b \<Rightarrow> response_hashes b)"

end
