(* ===== verification/Download.thy ===== *)
theory Download
  imports Response Cas Worker
begin

text \<open>
  One artifact download of the client (\<open>src/rust/src/client/download.rs\<close> with \<open>validate_output\<close> of
  \<open>src/rust/src/client.rs\<close>): from its signed URL or the server's by-hash route, with retries, resumption by Range,
  a fresh signed URL when one expires, and the check of length and hash before any byte is used.

  What the network does is a parameter: the reply to the n-th request, and the answer to the n-th refresh.  The Range
  header is kept as its bounds.  The temporary file and the memory buffer are the bytes they hold, the running hash is
  the bytes hashed so far.  Progress counters and sleeps are left out.
\<close>

section \<open>Signed URLs\<close>

datatype UrlSlot = UrlManifest | UrlMetadata | UrlMetadataDelta | ArchiveChunk nat | PackChunk nat | PackIdx nat | UrlMidx | UrlIdxBundle
  | UrlTags | UrlBranches | SidePack nat | SideIdx nat | OwnPack nat | OwnIdx nat

definition url_at :: "string option list option \<Rightarrow> nat \<Rightarrow> string option" where
  "url_at urls i = Option.bind urls (\<lambda>us. if i < length us then us ! i else None)"

definition pack_at :: "SidePackRef list \<Rightarrow> nat \<Rightarrow> SidePackRef option" where
  "pack_at packs i = (if i < length packs then Some (packs ! i) else None)"

fun select_url :: "UrlSlot \<Rightarrow> RefResponse \<Rightarrow> string option" where
  "select_url UrlManifest info = resp_clonepack_manifest_url info"
| "select_url UrlMetadata info = resp_metadata_chunk_url info"
| "select_url UrlMetadataDelta info = resp_metadata_delta_url info"
| "select_url (ArchiveChunk i) info = url_at (resp_archive_chunk_urls info) i"
| "select_url (PackChunk i) info = url_at (resp_pack_chunk_urls info) i"
| "select_url (PackIdx i) info = url_at (resp_pack_idx_urls info) i"
| "select_url UrlMidx info = resp_midx_url info"
| "select_url UrlIdxBundle info = resp_idx_bundle_url info"
| "select_url UrlTags info = resp_tags_artifact_url info"
| "select_url UrlBranches info = Option.bind (resp_branches info) bref_artifact_url"
| "select_url (SidePack i) info = Option.bind (resp_branches info) (\<lambda>b. Option.bind (pack_at (bref_side_packs b) i) spr_pack_url)"
| "select_url (SideIdx i) info = Option.bind (resp_branches info) (\<lambda>b. Option.bind (pack_at (bref_side_packs b) i) spr_idx_url)"
| "select_url (OwnPack i) info = Option.bind (resp_own_history info) (\<lambda>o'. Option.bind (pack_at (ohr_packs o') i) spr_pack_url)"
| "select_url (OwnIdx i) info = Option.bind (resp_own_history info) (\<lambda>o'. Option.bind (pack_at (ohr_packs o') i) spr_idx_url)"

datatype download_error = TransportError | HttpStatus nat | SizeMismatch | HashMismatch | BadContentRange | BadContentLength
  | UnexpectedStatus nat | BodyCut | ShortRange | DiskError | RangeNotHonoured | RefreshFailed | RefreshChanged | RefreshOmitted UrlSlot
  | BadOutput | InlineMismatch

definition validate_output :: "RefResponse \<Rightarrow> string \<Rightarrow> ExactResultKind \<Rightarrow> (download_error, unit) result" where
  "validate_output info commit kind = ensure (resp_commit info = commit \<and> resp_kind info = kind \<and> resp_clonepack_manifest info \<noteq> []) BadOutput"

text \<open>The output as first read, the newest response and how many refreshes produced it.\<close>

record OutputUrls =
  ou_output :: RefResponse
  ou_generation :: nat
  ou_info :: RefResponse

definition output_urls :: "RefResponse \<Rightarrow> OutputUrls" where
  "output_urls output = \<lparr>ou_output = output, ou_generation = 0, ou_info = output\<rparr>"

definition current_url :: "OutputUrls \<Rightarrow> UrlSlot \<Rightarrow> nat \<times> string option" where
  "current_url u slot = (ou_generation u, select_url slot (ou_info u))"

section \<open>The network\<close>

record response =
  rs_status :: nat
  rs_content_range :: "string option"
  rs_content_length :: "nat option"
  rs_chunks :: "string list"
  rs_cut :: bool

datatype range_req = NoRange | RangeFrom nat | RangeOf nat nat

text \<open>A reply by the number of the request, its signed URL (or the by-hash route) and its range; a refresh by its number.\<close>

record network =
  nw_reply :: "nat \<Rightarrow> string option \<Rightarrow> range_req \<Rightarrow> response option"
  nw_output :: "nat \<Rightarrow> RefResponse option"
  nw_disk_fails :: "nat \<Rightarrow> bool"

record dl_state =
  dl_requests :: nat
  dl_refreshes :: nat
  dl_urls :: OutputUrls

record Artifact =
  ar_hash :: string
  ar_len :: "nat option"
  ar_slot :: UrlSlot

datatype FetchFailure = Retry download_error | RefreshUrl download_error | Permanent download_error | RangeIgnored

fun into_error :: "FetchFailure \<Rightarrow> download_error" where
  "into_error (Retry e) = e"
| "into_error (RefreshUrl e) = e"
| "into_error (Permanent e) = e"
| "into_error RangeIgnored = RangeNotHonoured"

definition url_refresh :: "network \<Rightarrow> UrlSlot \<Rightarrow> nat \<Rightarrow> dl_state \<Rightarrow> (download_error, nat \<times> string option) result \<times> dl_state" where
  "url_refresh net slot seen st =
     (let (generation, url) = current_url (dl_urls st) slot; output = ou_output (dl_urls st) in
      if generation > seen then (if url \<noteq> None then Inr (generation, url) else Inl (RefreshOmitted slot), st)
      else (let st = st\<lparr>dl_refreshes := dl_refreshes st + 1\<rparr> in
        case nw_output net (dl_refreshes st - 1) of
          None \<Rightarrow> (Inl RefreshFailed, st)
        | Some info \<Rightarrow>
            (case validate_output info (resp_commit output) (resp_kind output) of
               Inl e \<Rightarrow> (Inl e, st)
             | Inr _ \<Rightarrow>
                 if resp_clonepack_manifest info = resp_clonepack_manifest output \<and> resp_metadata_chunk info = resp_metadata_chunk output
                    \<and> resp_metadata_delta info = resp_metadata_delta output
                 then (case select_url slot info of
                     None \<Rightarrow> (Inl (RefreshOmitted slot), st)
                   | Some url \<Rightarrow> (Inr (generation + 1, Some url),
                       st\<lparr>dl_urls := (dl_urls st)\<lparr>ou_generation := generation + 1, ou_info := info\<rparr>\<rparr>))
                 else (Inl RefreshChanged, st))))"

section \<open>The rules\<close>

definition classify_fetch_status :: "nat \<Rightarrow> bool \<Rightarrow> FetchFailure option" where
  "classify_fetch_status code presigned =
     (if 200 \<le> code \<and> code < 300 then None
      else Some (if 500 \<le> code \<and> code < 600 \<or> code = 429 \<or> code = 408 then Retry (HttpStatus code)
                 else if presigned \<and> (code = 401 \<or> code = 403) then RefreshUrl (HttpStatus code)
                 else Permanent (HttpStatus code)))"

definition verify_artifact :: "string \<Rightarrow> nat option \<Rightarrow> nat \<Rightarrow> string \<Rightarrow> (download_error, unit) result" where
  "verify_artifact hash expected_len actual_len actual_hash =
     rbind (ensure (case expected_len of None \<Rightarrow> True | Some n \<Rightarrow> actual_len = n) SizeMismatch) (\<lambda>_.
     ensure (actual_hash = hash) HashMismatch)"

definition parse_content_range :: "string \<Rightarrow> (nat \<times> nat \<times> nat) option" where
  "parse_content_range value =
     Option.bind (strip_prefix value ''bytes '') (\<lambda>rest.
     Option.bind (split_once CHR ''/'' rest) (\<lambda>(bounds, len).
     Option.bind (split_once CHR ''-'' bounds) (\<lambda>(start, end').
     Option.bind (parse_unsigned 64 start) (\<lambda>start.
     Option.bind (parse_unsigned 64 end') (\<lambda>end'.
     Option.bind (parse_unsigned 64 len) (\<lambda>len. Some (start, end', len)))))))"

definition validate_content_range :: "string option \<Rightarrow> nat \<Rightarrow> nat option \<Rightarrow> nat option \<Rightarrow> (download_error, unit) result" where
  "validate_content_range value offset end' expected_len =
     (case Option.bind value parse_content_range of
        None \<Rightarrow> Inl BadContentRange
      | Some (start, last_byte, len) \<Rightarrow>
          ensure (start = offset \<and> last_byte + 1 < 2 ^ 64 \<and> last_byte + 1 = (case end' of Some e \<Rightarrow> e | None \<Rightarrow> len)
            \<and> (case expected_len of None \<Rightarrow> True | Some n \<Rightarrow> n = len)) BadContentRange)"

section \<open>Received bytes\<close>

record Received =
  rc_body :: string
  rc_hashed :: string
  rc_len :: nat

definition received_open :: Received where
  "received_open = \<lparr>rc_body = [], rc_hashed = [], rc_len = 0\<rparr>"

definition received_write :: "network \<Rightarrow> string \<Rightarrow> Received \<Rightarrow> (download_error, Received) result" where
  "received_write net chunk rc =
     (if nw_disk_fails net (rc_len rc) then Inl DiskError
      else Inr \<lparr>rc_body = rc_body rc @ chunk, rc_hashed = rc_hashed rc @ chunk, rc_len = rc_len rc + length chunk\<rparr>)"

definition received_restart :: "network \<Rightarrow> Received \<Rightarrow> (download_error, Received) result" where
  "received_restart net rc = (if nw_disk_fails net (rc_len rc) then Inl DiskError else Inr received_open)"

definition received_finish :: "hashes \<Rightarrow> Received \<Rightarrow> string \<Rightarrow> nat option \<Rightarrow> (download_error, string) result" where
  "received_finish hs rc hash expected_len =
     rbind (verify_artifact hash expected_len (rc_len rc) (hs_sha256 hs (rc_hashed rc))) (\<lambda>_. Inr (rc_body rc))"

section \<open>Requests\<close>

definition send_request :: "network \<Rightarrow> string option \<Rightarrow> range_req \<Rightarrow> dl_state \<Rightarrow> (FetchFailure, response) result \<times> dl_state" where
  "send_request net url rng st =
     (let st' = st\<lparr>dl_requests := dl_requests st + 1\<rparr> in
      case nw_reply net (dl_requests st) url rng of
        None \<Rightarrow> (Inl (Retry TransportError), st')
      | Some r \<Rightarrow> (case classify_fetch_status (rs_status r) (url \<noteq> None) of Some f \<Rightarrow> (Inl f, st') | None \<Rightarrow> (Inr r, st')))"

fun receive_stream :: "network \<Rightarrow> nat option \<Rightarrow> string list \<Rightarrow> bool \<Rightarrow> Received \<Rightarrow> FetchFailure option \<times> Received" where
  "receive_stream net len [] cut_off rc = (if cut_off then Some (Retry BodyCut) else None, rc)"
| "receive_stream net len (chunk # chunks) cut_off rc =
     (case received_write net chunk rc of
        Inl e \<Rightarrow> (Some (Permanent e), rc)
      | Inr rc \<Rightarrow>
          (case len of
             Some n \<Rightarrow> if n < rc_len rc then (Some (Permanent SizeMismatch), rc) else receive_stream net len chunks cut_off rc
           | None \<Rightarrow> receive_stream net len chunks cut_off rc))"

text \<open>What a response is allowed to be, given what was received before it.\<close>

definition accept_response :: "network \<Rightarrow> Artifact \<Rightarrow> response \<Rightarrow> Received \<Rightarrow> (FetchFailure, Received) result" where
  "accept_response net a r rc =
     (if rs_status r = 200 \<and> rc_len rc > 0 then (case received_restart net rc of Inl e \<Rightarrow> Inl (Permanent e) | Inr rc \<Rightarrow> Inr rc)
      else if rs_status r = 200 then Inr rc
      else if rs_status r = 206 \<and> rc_len rc > 0 then
        (case validate_content_range (rs_content_range r) (rc_len rc) None (ar_len a) of
           Inl e \<Rightarrow> Inl (Permanent e)
         | Inr _ \<Rightarrow>
             (case (rs_content_length r, ar_len a) of
                (Some sent, Some n) \<Rightarrow> if sent \<noteq> n - rc_len rc then Inl (Permanent BadContentLength) else Inr rc
              | _ \<Rightarrow> Inr rc))
      else Inl (Permanent (UnexpectedStatus (rs_status r))))"

definition download_attempt ::
    "network \<Rightarrow> Artifact \<Rightarrow> string option \<Rightarrow> Received \<Rightarrow> dl_state \<Rightarrow> FetchFailure option \<times> Received \<times> dl_state" where
  "download_attempt net a url rc st =
     (case send_request net url (if rc_len rc > 0 then RangeFrom (rc_len rc) else NoRange) st of
        (Inl f, st) \<Rightarrow> (Some f, rc, st)
      | (Inr r, st) \<Rightarrow>
          (case accept_response net a r rc of
             Inl f \<Rightarrow> (Some f, rc, st)
           | Inr rc \<Rightarrow> (case receive_stream net (ar_len a) (rs_chunks r) (rs_cut r) rc of (f, rc) \<Rightarrow> (f, rc, st))))"

definition range_attempt ::
    "network \<Rightarrow> Artifact \<Rightarrow> string option \<Rightarrow> nat \<Rightarrow> nat \<Rightarrow> dl_state \<Rightarrow> (FetchFailure, string) result \<times> dl_state" where
  "range_attempt net a url start end' st =
     (case send_request net url (RangeOf start end') st of
        (Inl f, st) \<Rightarrow> (Inl f, st)
      | (Inr r, st) \<Rightarrow>
          (if rs_status r = 200 then Inl RangeIgnored
           else if rs_status r \<noteq> 206 then Inl (Permanent (UnexpectedStatus (rs_status r)))
           else (case validate_content_range (rs_content_range r) start (Some end') (ar_len a) of
               Inl e \<Rightarrow> Inl (Permanent e)
             | Inr _ \<Rightarrow> if rs_cut r then Inl (Retry BodyCut)
                 else if length (concat (rs_chunks r)) \<noteq> end' - start then Inl (Retry ShortRange)
                 else Inr (concat (rs_chunks r))), st))"

section \<open>Attempts\<close>

definition FETCH_MAX_ATTEMPTS :: nat where
  "FETCH_MAX_ATTEMPTS = 3"

text \<open>The attempts of one stream; \<open>left\<close> counts the ones not made.\<close>

fun download_loop ::
    "network \<Rightarrow> Artifact \<Rightarrow> nat \<Rightarrow> nat \<Rightarrow> string option \<Rightarrow> Received \<Rightarrow> dl_state \<Rightarrow> (download_error, Received) result \<times> dl_state" where
  "download_loop net a 0 generation url rc st = (Inr rc, st)"
| "download_loop net a (Suc left) generation url rc st =
     (if rc_len rc > 0 \<and> Some (rc_len rc) = ar_len a then (Inr rc, st)
      else (case download_attempt net a url rc st of
          (None, rc, st) \<Rightarrow> (Inr rc, st)
        | (Some f, rc, st) \<Rightarrow>
            (case f of
               RefreshUrl e \<Rightarrow>
                 if left > 0 then (case url_refresh net (ar_slot a) generation st of
                     (Inl e, st) \<Rightarrow> (Inl e, st)
                   | (Inr (generation, url), st) \<Rightarrow> download_loop net a left generation url rc st)
                 else (Inl e, st)
             | Retry e \<Rightarrow> if left > 0 then download_loop net a left generation url rc st else (Inl e, st)
             | _ \<Rightarrow> (Inl (into_error f), st))))"

fun range_loop ::
    "network \<Rightarrow> Artifact \<Rightarrow> nat \<Rightarrow> nat \<Rightarrow> nat \<Rightarrow> string option \<Rightarrow> nat \<Rightarrow> dl_state \<Rightarrow> (download_error, string option) result \<times> dl_state" where
  "range_loop net a start end' generation url 0 st = (Inl TransportError, st)"
| "range_loop net a start end' generation url (Suc left) st =
     (case range_attempt net a url start end' st of
        (Inr bytes, st) \<Rightarrow> (Inr (Some bytes), st)
      | (Inl f, st) \<Rightarrow>
          (case f of
             RangeIgnored \<Rightarrow> (Inr None, st)
           | RefreshUrl e \<Rightarrow>
               if left > 0 then (case url_refresh net (ar_slot a) generation st of
                   (Inl e, st) \<Rightarrow> (Inl e, st)
                 | (Inr (generation, url), st) \<Rightarrow> range_loop net a start end' generation url left st)
               else (Inl e, st)
           | Retry e \<Rightarrow> if left > 0 then range_loop net a start end' generation url left st else (Inl e, st)
           | Permanent e \<Rightarrow> (Inl e, st)))"

definition download_range :: "network \<Rightarrow> Artifact \<Rightarrow> nat \<times> nat \<Rightarrow> dl_state \<Rightarrow> (download_error, string option) result \<times> dl_state" where
  "download_range net a part st =
     (case current_url (dl_urls st) (ar_slot a) of (generation, url) \<Rightarrow>
        range_loop net a (fst part) (snd part) generation url FETCH_MAX_ATTEMPTS st)"

definition range_parts :: "nat \<Rightarrow> nat \<Rightarrow> (nat \<times> nat) list" where
  "range_parts len part = map (\<lambda>i. (i * part, min ((i + 1) * part) len)) [0..<(len + part - 1) div part]"

text \<open>Ranges are fetched at once but taken in order: the first that failed or was ignored ends the download.\<close>

fun download_ranges ::
    "network \<Rightarrow> Artifact \<Rightarrow> (nat \<times> nat) list \<Rightarrow> Received \<Rightarrow> dl_state \<Rightarrow> (download_error, Received option) result \<times> dl_state" where
  "download_ranges net a [] rc st = (Inr (Some rc), st)"
| "download_ranges net a (part # parts) rc st =
     (case download_range net a part st of
        (Inl e, st) \<Rightarrow> (Inl e, st)
      | (Inr None, st) \<Rightarrow> (Inr None, st)
      | (Inr (Some bytes), st) \<Rightarrow>
          (case received_write net bytes rc of Inl e \<Rightarrow> (Inl e, st) | Inr rc \<Rightarrow> download_ranges net a parts rc st))"

datatype Sink = Memory | TempFile

definition download_stream :: "network \<Rightarrow> Artifact \<Rightarrow> Received \<Rightarrow> dl_state \<Rightarrow> (download_error, Received) result \<times> dl_state" where
  "download_stream net a rc st =
     (case current_url (dl_urls st) (ar_slot a) of (generation, url) \<Rightarrow>
        download_loop net a FETCH_MAX_ATTEMPTS generation url rc st)"

text \<open>
  The bytes received before the check: a large file as ranges when the server honours them, anything else as one
  stream.  \<open>part\<close> is the part size.
\<close>

definition download_received :: "network \<Rightarrow> nat \<Rightarrow> Artifact \<Rightarrow> Sink \<Rightarrow> dl_state \<Rightarrow> (download_error, Received) result \<times> dl_state" where
  "download_received net part a sink st =
     (case (sink, ar_len a) of
        (TempFile, Some n) \<Rightarrow>
          if n \<ge> min (part * 4) (2 ^ 64 - 1) then
            (case download_ranges net a (range_parts n part) received_open st of
               (Inl e, st) \<Rightarrow> (Inl e, st)
             | (Inr (Some rc), st) \<Rightarrow> (Inr rc, st)
             | (Inr None, st) \<Rightarrow> download_stream net a received_open st)
          else download_stream net a received_open st
      | _ \<Rightarrow> download_stream net a received_open st)"

definition download ::
    "hashes \<Rightarrow> cas_world \<Rightarrow> network \<Rightarrow> nat \<Rightarrow> Artifact \<Rightarrow> Sink \<Rightarrow> cas option \<Rightarrow> dl_state
       \<Rightarrow> (download_error, string) result \<times> cas option \<times> dl_state" where
  "download hs w net part a sink cache st =
     (let memory_cache = (case sink of Memory \<Rightarrow> cache | TempFile \<Rightarrow> None) in
      case Option.bind memory_cache (\<lambda>c. case cas_get hs (ar_hash a) c of Inl _ \<Rightarrow> None | Inr data \<Rightarrow> Some data) of
        Some data \<Rightarrow> (Inr data, cache, st)
      | None \<Rightarrow>
          (case download_received net part a sink st of
             (Inl e, st) \<Rightarrow> (Inl e, cache, st)
           | (Inr rc, st) \<Rightarrow>
               (case received_finish hs rc (ar_hash a) (ar_len a) of
                  Inl e \<Rightarrow> (Inl e, cache, st)
                | Inr data \<Rightarrow> (Inr data, if sink = Memory then map_option (\<lambda>c. snd (put_with_hash hs w (ar_hash a) data c)) cache else cache, st))))"

text \<open>An artifact the output carries inline is used once its decoded bytes match.\<close>

definition download_bytes ::
    "hashes \<Rightarrow> cas_world \<Rightarrow> network \<Rightarrow> nat \<Rightarrow> (string \<Rightarrow> string option) \<Rightarrow> Artifact \<Rightarrow> cas option \<Rightarrow> dl_state
       \<Rightarrow> (download_error, string) result \<times> cas option \<times> dl_state" where
  "download_bytes hs w net part decode64 a cache st =
     (case resp_inline (ou_output (dl_urls st)) (ar_hash a) of
        Some encoded \<Rightarrow>
          (case decode64 encoded of
             None \<Rightarrow> (Inl InlineMismatch, cache, st)
           | Some bytes \<Rightarrow>
               (if hs_sha256 hs bytes = ar_hash a \<and> (case ar_len a of None \<Rightarrow> True | Some n \<Rightarrow> n = length bytes)
                then Inr bytes else Inl InlineMismatch, cache, st))
      | None \<Rightarrow> download hs w net part a Memory cache st)"

end
