(* ===== verification/Download_Props.thy ===== *)
theory Download_Props
  imports Download
begin

text \<open>
  What a download guarantees against any network: only bytes of the artifact's hash and length are used or cached, and
  the number of requests is bounded.  Against a server that serves the artifact, it completes although connections fail
  or are cut, resuming from the bytes it has.
\<close>

section \<open>Any network\<close>

definition received_ok :: "Received \<Rightarrow> bool" where
  "received_ok rc \<longleftrightarrow> rc_hashed rc = rc_body rc \<and> rc_len rc = length (rc_body rc)"

lemma received_open_ok [simp]: "received_ok received_open"
  by (simp add: received_ok_def received_open_def)

lemma received_write_ok: "received_write net chunk rc = Inr rc' \<Longrightarrow> received_ok rc \<Longrightarrow> received_ok rc' \<and> rc_body rc' = rc_body rc @ chunk"
  by (auto simp: received_write_def received_ok_def split: if_splits)

lemma receive_stream_ok: "receive_stream net len chunks cut_off rc = (f, rc') \<Longrightarrow> received_ok rc \<Longrightarrow> received_ok rc'"
proof (induction chunks arbitrary: rc)
  case (Cons c cs)
  then show ?case using received_write_ok by (fastforce split: sum.splits option.splits if_splits)
qed auto

lemma accept_response_ok: "accept_response net a r rc = Inr rc' \<Longrightarrow> received_ok rc \<Longrightarrow> received_ok rc'"
  by (auto simp: accept_response_def received_restart_def split: if_splits sum.splits option.splits)

lemma send_request_step: "send_request net url rng st = (r, st') \<Longrightarrow> dl_requests st' = dl_requests st + 1 \<and> dl_urls st' = dl_urls st"
  by (auto simp: send_request_def Let_def split: option.splits)

lemma url_refresh_step: "url_refresh net slot seen st = (r, st') \<Longrightarrow> dl_requests st' = dl_requests st"
  by (auto simp: url_refresh_def Let_def split: option.splits sum.splits prod.splits if_splits)

lemma download_attempt_ok:
  assumes "download_attempt net a url rc st = (f, rc', st')" "received_ok rc"
  shows "received_ok rc'" "dl_requests st' = dl_requests st + 1"
  using assms send_request_step[of net url _ st] accept_response_ok[of net a _ rc] receive_stream_ok
  by (fastforce simp: download_attempt_def split: prod.splits sum.splits)+

lemma download_loop_ok:
  assumes "download_loop net a left generation url rc st = (r, st')" "received_ok rc"
  shows "dl_requests st' \<le> dl_requests st + left \<and> (\<forall>rc'. r = Inr rc' \<longrightarrow> received_ok rc')"
  using assms
proof (induction left arbitrary: generation url rc st)
  case (Suc left)
  show ?case
  proof (cases "rc_len rc > 0 \<and> Some (rc_len rc) = ar_len a")
    case False
    obtain f rc1 st1 where att: "download_attempt net a url rc st = (f, rc1, st1)" by (metis prod_cases3)
    note one = download_attempt_ok[OF att Suc.prems(2)]
    show ?thesis
    proof (cases f)
      case None
      then show ?thesis using Suc.prems(1) att False one by auto
    next
      case (Some e)
      show ?thesis
      proof (cases e)
        case (RefreshUrl x)
        obtain q st2 where ref: "url_refresh net (ar_slot a) generation st1 = (q, st2)" by fastforce
        have st2: "dl_requests st2 = dl_requests st1" by (rule url_refresh_step[OF ref])
        show ?thesis
        proof (cases "left > 0 \<and> (\<exists>g u. q = Inr (g, u))")
          case True
          then obtain g u where "q = Inr (g, u)" by blast
          then have "download_loop net a left g u rc1 st2 = (r, st')" using Suc.prems(1) att False Some RefreshUrl ref True by simp
          from Suc.IH[OF this one(1)] show ?thesis using one(2) st2 by auto
        next
          case False
          then show ?thesis using Suc.prems(1) att \<open>\<not> (rc_len rc > 0 \<and> Some (rc_len rc) = ar_len a)\<close> Some RefreshUrl ref one(2) st2
            by (auto split: if_splits sum.splits prod.splits)
        qed
      next
        case (Retry x)
        then show ?thesis using Suc.prems(1) att False Some one Suc.IH[OF _ one(1), of generation url st1] by (auto split: if_splits)
      qed (use Suc.prems(1) att False Some one in auto)
    qed
  qed (use Suc.prems in auto)
qed auto

lemma range_loop_requests:
  "range_loop net a start end' generation url left st = (r, st') \<Longrightarrow> dl_requests st' \<le> dl_requests st + left"
proof (induction left arbitrary: generation url st)
  case (Suc left)
  obtain q st1 where att: "range_attempt net a url start end' st = (q, st1)" by fastforce
  have st1: "dl_requests st1 = dl_requests st + 1"
    using att send_request_step[of net url "RangeOf start end'" st] by (auto simp: range_attempt_def split: prod.splits sum.splits)
  show ?case
  proof (cases q)
    case (Inl f)
    show ?thesis
    proof (cases f)
      case (RefreshUrl x)
      obtain p st2 where ref: "url_refresh net (ar_slot a) generation st1 = (p, st2)" by fastforce
      have st2: "dl_requests st2 = dl_requests st1" by (rule url_refresh_step[OF ref])
      then show ?thesis using Suc.prems att Inl RefreshUrl ref st1 Suc.IH[of _ _ st2] by (fastforce split: if_splits sum.splits prod.splits)
    next
      case (Retry x)
      then show ?thesis using Suc.prems att Inl st1 Suc.IH[of generation url st1] by (auto split: if_splits)
    qed (use Suc.prems att Inl st1 in auto)
  qed (use Suc.prems att st1 in auto)
qed simp

lemma download_ranges_ok:
  assumes "download_ranges net a parts rc st = (r, st')" "received_ok rc"
  shows "dl_requests st' \<le> dl_requests st + FETCH_MAX_ATTEMPTS * length parts \<and> (\<forall>rc'. r = Inr (Some rc') \<longrightarrow> received_ok rc')"
  using assms
proof (induction parts arbitrary: rc st)
  case (Cons part parts)
  obtain q st1 where one: "download_range net a part st = (q, st1)" by fastforce
  have st1: "dl_requests st1 \<le> dl_requests st + FETCH_MAX_ATTEMPTS"
    using one range_loop_requests unfolding download_range_def by (auto split: prod.splits)
  show ?case
  proof (cases "\<exists>bytes rc1. q = Inr (Some bytes) \<and> received_write net bytes rc = Inr rc1")
    case True
    then obtain bytes rc1 where q: "q = Inr (Some bytes)" "received_write net bytes rc = Inr rc1" by blast
    then have "download_ranges net a parts rc1 st1 = (r, st')" using Cons.prems(1) one by simp
    from Cons.IH[OF this] received_write_ok[OF q(2) Cons.prems(2)] st1 show ?thesis by auto
  next
    case False
    then show ?thesis using Cons.prems(1) one st1 by (auto split: sum.splits option.splits)
  qed
qed auto

lemma length_range_parts: "length (range_parts len part) = (len + part - 1) div part"
  by (simp add: range_parts_def)

lemma download_received_ok:
  assumes "download_received net part a sink st = (r, st')"
  shows "dl_requests st' \<le> dl_requests st + FETCH_MAX_ATTEMPTS * (1 + (case ar_len a of None \<Rightarrow> 0 | Some n \<Rightarrow> (n + part - 1) div part))"
    and "r = Inr rc \<Longrightarrow> received_ok rc"
proof -
  have stream: "dl_requests s' \<le> dl_requests s + FETCH_MAX_ATTEMPTS \<and> (\<forall>rc. q = Inr rc \<longrightarrow> received_ok rc)"
    if "download_stream net a received_open s = (q, s')" for s q s'
    using that download_loop_ok[OF _ received_open_ok] unfolding download_stream_def by (auto split: prod.splits)
  have "dl_requests st' \<le> dl_requests st + FETCH_MAX_ATTEMPTS * (1 + (case ar_len a of None \<Rightarrow> 0 | Some n \<Rightarrow> (n + part - 1) div part))
      \<and> (\<forall>rc. r = Inr rc \<longrightarrow> received_ok rc)"
  proof (cases "\<exists>n. sink = TempFile \<and> ar_len a = Some n \<and> n \<ge> min (part * 4) (2 ^ 64 - 1)")
    case True
    then obtain n where n: "sink = TempFile" "ar_len a = Some n" "n \<ge> min (part * 4) (2 ^ 64 - 1)" by blast
    obtain q st1 where rg: "download_ranges net a (range_parts n part) received_open st = (q, st1)" by fastforce
    note ranges = download_ranges_ok[OF rg received_open_ok, unfolded length_range_parts]
    show ?thesis
    proof (cases "q = Inr None")
      case True
      then have "download_stream net a received_open st1 = (r, st')" using assms n rg by (simp add: download_received_def)
      from stream[OF this] ranges n(2) show ?thesis by auto
    next
      case False
      then show ?thesis using assms n rg ranges by (auto simp: download_received_def split: sum.splits option.splits)
    qed
  next
    case False
    then have "download_stream net a received_open st = (r, st')"
      using assms by (auto simp: download_received_def split: Sink.splits option.splits if_splits)
    from stream[OF this] show ?thesis by auto
  qed
  then show "dl_requests st' \<le> dl_requests st + FETCH_MAX_ATTEMPTS * (1 + (case ar_len a of None \<Rightarrow> 0 | Some n \<Rightarrow> (n + part - 1) div part))"
    and "r = Inr rc \<Longrightarrow> received_ok rc" by blast+
qed


section \<open>A server that has the artifact\<close>

text \<open>The reply to a request from \<open>off\<close> on: the rest of the content, or a part of it before the connection is cut.\<close>

definition request_from :: "nat \<Rightarrow> range_req" where
  "request_from off = (if off = 0 then NoRange else RangeFrom off)"

definition honest_reply :: "string \<Rightarrow> nat \<Rightarrow> response \<Rightarrow> bool" where
  "honest_reply c off r \<longleftrightarrow>
     (if off = 0 then rs_status r = 200
      else rs_status r = 206 \<and> Option.bind (rs_content_range r) parse_content_range = Some (off, length c - 1, length c)
        \<and> (rs_content_length r = None \<or> rs_content_length r = Some (length c - off)))
     \<and> (\<exists>rest. drop off c = concat (rs_chunks r) @ rest \<and> (rs_cut r \<or> rest = []))"

definition retry_reply :: "response option \<Rightarrow> bool" where
  "retry_reply reply \<longleftrightarrow> (case reply of None \<Rightarrow> True
     | Some r \<Rightarrow> 500 \<le> rs_status r \<and> rs_status r < 600 \<or> rs_status r = 429 \<or> rs_status r = 408)"

definition serves :: "network \<Rightarrow> string \<Rightarrow> bool" where
  "serves net c \<longleftrightarrow> (\<forall>n. \<not> nw_disk_fails net n) \<and> (\<forall>n url off. off = 0 \<or> off < length c \<longrightarrow>
     retry_reply (nw_reply net n url (request_from off)) \<or> (\<exists>r. nw_reply net n url (request_from off) = Some r \<and> honest_reply c off r))"

definition good_request :: "network \<Rightarrow> string \<Rightarrow> nat \<Rightarrow> bool" where
  "good_request net c n \<longleftrightarrow> (\<forall>url off. off = 0 \<or> off < length c \<longrightarrow>
     (\<exists>r. nw_reply net n url (request_from off) = Some r \<and> honest_reply c off r \<and> \<not> rs_cut r))"

lemma receive_stream_whole:
  assumes "\<And>n. \<not> nw_disk_fails net n" "rc_len rc + length (concat chunks) \<le> n"
  shows "receive_stream net (Some n) chunks cut_off rc = (if cut_off then Some (Retry BodyCut) else None,
     \<lparr>rc_body = rc_body rc @ concat chunks, rc_hashed = rc_hashed rc @ concat chunks, rc_len = rc_len rc + length (concat chunks)\<rparr>)"
  using assms(2)
proof (induction chunks arbitrary: rc)
  case (Cons c cs)
  let ?rc = "\<lparr>rc_body = rc_body rc @ c, rc_hashed = rc_hashed rc @ c, rc_len = rc_len rc + length c\<rparr>"
  have "receive_stream net (Some n) (c # cs) cut_off rc = receive_stream net (Some n) cs cut_off ?rc"
    using assms(1) Cons.prems by (simp add: received_write_def)
  also note Cons.IH[of ?rc]
  finally show ?case using Cons.prems by (simp add: add.assoc)
qed simp

lemma attempt_retry:
  assumes "retry_reply (nw_reply net (dl_requests st) url (request_from (rc_len rc)))"
  shows "\<exists>e. download_attempt net a url rc st = (Some (Retry e), rc, st\<lparr>dl_requests := dl_requests st + 1\<rparr>)"
  using assms by (auto simp: download_attempt_def send_request_def retry_reply_def request_from_def classify_fetch_status_def split: option.splits if_splits)

lemma attempt_honest:
  assumes "nw_reply net (dl_requests st) url (request_from (rc_len rc)) = Some r" "honest_reply c (rc_len rc) r" "\<And>n. \<not> nw_disk_fails net n"
    and "ar_len a = Some (length c)" "length c < 2 ^ 64" "received_ok rc" "rc_body rc = take (rc_len rc) c" "rc_len rc = 0 \<or> rc_len rc < length c"
  shows "\<exists>rc'. download_attempt net a url rc st = (if rs_cut r then Some (Retry BodyCut) else None, rc', st\<lparr>dl_requests := dl_requests st + 1\<rparr>)
    \<and> received_ok rc' \<and> rc_body rc' = take (rc_len rc') c \<and> rc_len rc' \<le> length c \<and> (\<not> rs_cut r \<longrightarrow> rc_body rc' = c)"
proof -
  obtain rest where rest: "drop (rc_len rc) c = concat (rs_chunks r) @ rest" "rs_cut r \<or> rest = []" using assms(2) by (auto simp: honest_reply_def)
  have le: "rc_len rc \<le> length c" using assms(8) by auto
  have c: "c = rc_body rc @ concat (rs_chunks r) @ rest" using rest(1) assms(7) by (metis append_take_drop_id)
  have len: "rc_len rc = length (rc_body rc)" using assms(6) by (simp add: received_ok_def)
  let ?rc = "\<lparr>rc_body = rc_body rc @ concat (rs_chunks r), rc_hashed = rc_hashed rc @ concat (rs_chunks r), rc_len = rc_len rc + length (concat (rs_chunks r))\<rparr>"
  have fits: "rc_len rc + length (concat (rs_chunks r)) \<le> length c" using c len by (metis le_add1 length_append add.assoc)
  have stream: "receive_stream net (ar_len a) (rs_chunks r) (rs_cut r) rc = (if rs_cut r then Some (Retry BodyCut) else None, ?rc)"
    unfolding assms(4) by (rule receive_stream_whole[OF assms(3) fits])
  have status: "classify_fetch_status (rs_status r) (url \<noteq> None) = None"
    using assms(2) by (auto simp: honest_reply_def classify_fetch_status_def split: if_splits)
  have accept: "accept_response net a r rc = Inr rc"
  proof (cases "rc_len rc = 0")
    case True
    then show ?thesis using assms(2) by (simp add: accept_response_def honest_reply_def)
  next
    case False
    then have pos: "Suc (length c - 1) = length c" using assms(8) by auto
    have r: "rs_status r = 206" "Option.bind (rs_content_range r) parse_content_range = Some (rc_len rc, length c - 1, length c)"
        "rs_content_length r = None \<or> rs_content_length r = Some (length c - rc_len rc)"
      using assms(2) False by (simp_all add: honest_reply_def)
    have "validate_content_range (rs_content_range r) (rc_len rc) None (ar_len a) = Inr ()"
      using assms(5) pos unfolding validate_content_range_def r(2) assms(4) by simp
    then show ?thesis using r(1,3) False assms(4) by (auto simp: accept_response_def)
  qed
  have "download_attempt net a url rc st = (if rs_cut r then Some (Retry BodyCut) else None, ?rc, st\<lparr>dl_requests := dl_requests st + 1\<rparr>)"
  proof -
    have "request_from (rc_len rc) = (if rc_len rc > 0 then RangeFrom (rc_len rc) else NoRange)" by (simp add: request_from_def)
    then have "send_request net url (if rc_len rc > 0 then RangeFrom (rc_len rc) else NoRange) st = (Inr r, st\<lparr>dl_requests := dl_requests st + 1\<rparr>)"
      using assms(1) status by (simp add: send_request_def Let_def)
    then show ?thesis unfolding download_attempt_def by (simp only: prod.case sum.case accept stream)
  qed
  moreover have "received_ok ?rc" using assms(6) by (simp add: received_ok_def)
  moreover have "rc_body ?rc = take (rc_len ?rc) c"
  proof -
    have "rc_len ?rc = length (rc_body rc @ concat (rs_chunks r))" using len by simp
    then show ?thesis using c by (metis append_assoc append_eq_conv_conj select_convs(1))
  qed
  moreover have "rc_body ?rc = c" if "\<not> rs_cut r" using that rest(2) c by simp
  ultimately show ?thesis using fits by (intro exI[of _ ?rc]) simp
qed

lemma download_loop_completes:
  assumes "serves net c" "ar_len a = Some (length c)" "length c < 2 ^ 64" "received_ok rc" "rc_body rc = take (rc_len rc) c" "rc_len rc \<le> length c"
    and "k < left" "good_request net c (dl_requests st + k)"
  shows "\<exists>rc' st'. download_loop net a left generation url rc st = (Inr rc', st') \<and> received_ok rc' \<and> rc_body rc' = c"
  using assms(4-8)
proof (induction left arbitrary: k rc st)
  case (Suc left)
  show ?case
  proof (cases "rc_len rc > 0 \<and> Some (rc_len rc) = ar_len a")
    case True
    then show ?thesis using Suc.prems(1,2) assms(2) by auto
  next
    case False
    then have at: "rc_len rc = 0 \<or> rc_len rc < length c" using assms(2) Suc.prems(3) by auto
    have disk: "\<And>n. \<not> nw_disk_fails net n" using assms(1) by (simp add: serves_def)
    let ?st = "st\<lparr>dl_requests := dl_requests st + 1\<rparr>"
    have more: "\<exists>rc' st'. download_loop net a (Suc left) generation url rc st = (Inr rc', st') \<and> received_ok rc' \<and> rc_body rc' = c"
      if "download_attempt net a url rc st = (Some (Retry e), rc1, ?st)" "k \<noteq> 0" "received_ok rc1" "rc_body rc1 = take (rc_len rc1) c" "rc_len rc1 \<le> length c" for e rc1
    proof -
      have "k - 1 < left" "good_request net c (dl_requests ?st + (k - 1))" using Suc.prems(4,5) that(2) by auto
      from Suc.IH[OF that(3-5) this] show ?thesis using that(1,2) False Suc.prems(4) by auto
    qed
    show ?thesis
    proof (cases "retry_reply (nw_reply net (dl_requests st) url (request_from (rc_len rc)))")
      case True
      have "k \<noteq> 0"
      proof
        assume "k = 0"
        then obtain r where "nw_reply net (dl_requests st) url (request_from (rc_len rc)) = Some r" "honest_reply c (rc_len rc) r"
          using Suc.prems(5) at unfolding good_request_def by (metis add.right_neutral)
        then show False using True by (auto simp: retry_reply_def honest_reply_def split: if_splits)
      qed
      then show ?thesis using attempt_retry[OF True] more Suc.prems(1-3) by blast
    next
      case retry: False
      then obtain r where r: "nw_reply net (dl_requests st) url (request_from (rc_len rc)) = Some r" "honest_reply c (rc_len rc) r"
        using assms(1) at unfolding serves_def by blast
      obtain rc1 where one: "download_attempt net a url rc st = (if rs_cut r then Some (Retry BodyCut) else None, rc1, ?st)"
          "received_ok rc1" "rc_body rc1 = take (rc_len rc1) c" "rc_len rc1 \<le> length c" "\<not> rs_cut r \<Longrightarrow> rc_body rc1 = c"
        using attempt_honest[OF r disk assms(2,3) Suc.prems(1,2) at] by blast
      show ?thesis
      proof (cases "rs_cut r")
        case True
        have "k \<noteq> 0" using Suc.prems(5) at r(1) True unfolding good_request_def by (metis add.right_neutral option.inject)
        then show ?thesis using more[of BodyCut rc1] one(1-4) True by simp
      next
        case False
        then show ?thesis using one \<open>\<not> (rc_len rc > 0 \<and> Some (rc_len rc) = ar_len a)\<close> by auto
      qed
    qed
  qed
qed simp

lemma honest_download:
  assumes "serves net c" "length c < 2 ^ 64" "ar_len a = Some (length c)" "ar_hash a = hs_sha256 hs c"
    and "k < 3" "good_request net c (dl_requests st + k)"
  shows "\<exists>st'. download hs w net part a Memory None st = (Inr c, None, st')"
proof -
  obtain g u where u: "current_url (dl_urls st) (ar_slot a) = (g, u)" by fastforce
  have "received_open = received_open \<and> rc_len received_open = 0 \<and> rc_body received_open = []" by (simp add: received_open_def)
  then obtain rc st' where rc: "download_loop net a 3 g u received_open st = (Inr rc, st')" "received_ok rc" "rc_body rc = c"
    using download_loop_completes[OF assms(1,3,2) received_open_ok _ _ assms(5,6), of g u] by auto
  then have "download_received net part a Memory st = (Inr rc, st')" using u by (simp add: download_received_def download_stream_def FETCH_MAX_ATTEMPTS_def)
  moreover have "received_finish hs rc (ar_hash a) (ar_len a) = Inr c"
    using rc(2,3) assms(3,4) by (simp add: received_finish_def verify_artifact_def received_ok_def)
  ultimately show ?thesis by (simp add: download_def)
qed

text \<open>
  A download from a server that has the artifact completes although requests fail or connections are cut: when one
  of the next three requests is answered to the end, the artifact's content is returned, whatever part of it came before.
\<close>

theorem download_completes:
  assumes "serves net c" "length c < 2 ^ 64" "ar_len a = Some (length c)" "ar_hash a = hs_sha256 hs c"
    and "k < 3" "good_request net c (dl_requests st + k)"
  shows "\<exists>st'. download hs w net part a Memory None st = (Inr c, None, st')"
  by (rule honest_download[OF assms])

text \<open>Four bytes from a server whose first request fails and whose second reply is cut after one byte.\<close>

definition ex_reply :: "nat \<Rightarrow> nat \<Rightarrow> response" where
  "ex_reply n off = \<lparr>rs_status = if off = 0 then 200 else 206, rs_content_range = Some (''bytes '' @ [char_of (48 + off)] @ ''-3/4''),
     rs_content_length = None, rs_chunks = [take (if n = 1 then 1 else 4) (drop off ''abcd'')], rs_cut = (n = 1)\<rparr>"

definition ex_net :: network where
  "ex_net = \<lparr>nw_reply = \<lambda>n url rng. if n = 0 then None else Some (ex_reply n (case rng of RangeFrom k \<Rightarrow> k | _ \<Rightarrow> 0)),
     nw_output = \<lambda>_. None, nw_disk_fails = \<lambda>_. False\<rparr>"

definition ex_output :: RefResponse where
  "ex_output = \<lparr>resp_owner = ''o'', resp_repo = ''r'', resp_provider = ''github'', resp_host = ''github.com'', resp_origin_url = [],
     resp_commit = ''c'', resp_parent_commit = None, resp_clonepack_manifest = ''m'', resp_clonepack_manifest_url = None, resp_metadata_chunk = ''t'',
     resp_metadata_chunk_url = None, resp_metadata_delta = [], resp_metadata_delta_url = None, resp_archive_chunk_urls = None, resp_pack_chunk_urls = None,
     resp_pack_idx_urls = None, resp_midx_url = None, resp_idx_bundle_url = None, resp_tags_artifact = None, resp_tags_artifact_url = None, resp_branches = None, resp_own_history = None,
     resp_kind = Full, resp_inline = Map.empty\<rparr>"

definition ex_dl :: dl_state where
  "ex_dl = \<lparr>dl_requests = 0, dl_refreshes = 0, dl_urls = output_urls ex_output\<rparr>"

definition ex_artifact :: Artifact where
  "ex_artifact = \<lparr>ar_hash = replicate 64 CHR ''b'', ar_len = Some 4, ar_slot = UrlManifest\<rparr>"

lemma ex_replies: "off = 0 \<or> off < length ''abcd'' \<Longrightarrow> 0 < n \<Longrightarrow> honest_reply ''abcd'' off (ex_reply n off)"
proof -
  assume off_ok: "off = 0 \<or> off < length ''abcd''" and n: "0 < n"
  have parse: "parse_content_range ''bytes 1-3/4'' = Some (1, 3, 4)" "parse_content_range ''bytes 2-3/4'' = Some (2, 3, 4)"
    "parse_content_range ''bytes 3-3/4'' = Some (3, 3, 4)" by code_simp+
  have chars: "char_of (49 :: nat) = CHR ''1''" "char_of (50 :: nat) = CHR ''2''" "char_of (51 :: nat) = CHR ''3''" by code_simp+
  have range: "Option.bind (rs_content_range (ex_reply n off)) parse_content_range = Some (off, 3, 4)" if "off \<noteq> 0"
  proof -
    have "off = 1 \<or> off = 2 \<or> off = 3" using off_ok that by auto
    then show ?thesis using parse chars by (auto simp: ex_reply_def)
  qed
  define k where "k = (if n = 1 then 1 else 4 :: nat)"
  have "drop off ''abcd'' = take k (drop off ''abcd'') @ drop k (drop off ''abcd'')" by (rule append_take_drop_id[symmetric])
  moreover have "concat (rs_chunks (ex_reply n off)) = take k (drop off ''abcd'')" by (simp add: ex_reply_def k_def)
  moreover have "rs_cut (ex_reply n off) \<or> drop k (drop off ''abcd'') = []" by (simp add: ex_reply_def k_def)
  ultimately have "\<exists>rest. drop off ''abcd'' = concat (rs_chunks (ex_reply n off)) @ rest \<and> (rs_cut (ex_reply n off) \<or> rest = [])" by metis
  then show ?thesis using range by (simp add: honest_reply_def ex_reply_def)
qed

lemma ex_serves: "serves ex_net ''abcd''" "good_request ex_net ''abcd'' 2"
proof -
  have reply: "nw_reply ex_net n url (request_from off) = (if n = 0 then None else Some (ex_reply n off))" for n url off
    by (simp add: ex_net_def request_from_def)
  have "\<not> nw_disk_fails ex_net n" for n by (simp add: ex_net_def)
  then show "serves ex_net ''abcd''" unfolding serves_def reply using ex_replies by (auto simp: retry_reply_def)
  show "good_request ex_net ''abcd'' 2" unfolding good_request_def reply
  proof (intro allI impI)
    fix off :: nat
    assume "off = 0 \<or> off < length ''abcd''"
    then have "honest_reply ''abcd'' off (ex_reply 2 off)" by (rule ex_replies) simp
    moreover have "\<not> rs_cut (ex_reply 2 off)" by (simp add: ex_reply_def)
    ultimately show "\<exists>r. (if (2 :: nat) = 0 then None else Some (ex_reply 2 off)) = Some r \<and> honest_reply ''abcd'' off r \<and> \<not> rs_cut r" by simp
  qed
qed

theorem download_completes_witness:
  "\<exists>st'. download ex_hashes ex_cas_world ex_net 16 ex_artifact Memory None ex_dl = (Inr ''abcd'', None, st')"
proof -
  have facts: "length ''abcd'' < 2 ^ 64" "ar_len ex_artifact = Some (length ''abcd'')" "ar_hash ex_artifact = hs_sha256 ex_hashes ''abcd''" "2 < (3 :: nat)"
    by (simp_all add: ex_artifact_def ex_hashes_def)
  have "dl_requests ex_dl + 2 = 2" by (simp add: ex_dl_def)
  then have "good_request ex_net ''abcd'' (dl_requests ex_dl + 2)" using ex_serves(2) by (simp only:)
  then show ?thesis by (rule download_completes[OF ex_serves(1) facts])
qed


end
