(* ===== verification/Artifacts.thy ===== *)
theory Artifacts
  imports Download_Props
begin

text \<open>
  The artifact route \<open>GET /v1/artifacts/{hash}\<close> (\<open>src/rust/src/server/artifacts.rs\<close>): a redirect to a signed URL, or the
  artifact's bytes in bounded chunks with an optional byte range; and the client's downloads (\<open>Download\<close>) from it.

  The storage backend is a parameter: its signed URLs, sizes, open files and range reads.  A read of an open file
  returns as many bytes as the parameter says, at most those wanted and left.
\<close>

section \<open>Ranges\<close>

definition parse_byte_range :: "string \<Rightarrow> nat \<Rightarrow> (nat \<times> nat) option" where
  "parse_byte_range header total_size =
     Option.bind (strip_prefix header ''bytes='') (\<lambda>bounds.
     Option.bind (split_once (CHR ''-'') bounds) (\<lambda>(start_str, end_str).
     Option.bind (parse_unsigned 64 start_str) (\<lambda>start.
       if total_size \<le> start then None
       else Option.bind (if end_str = [] then Some (total_size - 1) else map_option (\<lambda>e. min e (total_size - 1)) (parse_unsigned 64 end_str)) (\<lambda>last_byte.
         if last_byte < start then None else Some (start, last_byte)))))"

text \<open>The Range header of a client's request.\<close>

fun range_header :: "range_req \<Rightarrow> string option" where
  "range_header NoRange = None"
| "range_header (RangeFrom start) = Some (''bytes='' @ show_nat start @ ''-'')"
| "range_header (RangeOf start end') = Some (''bytes='' @ show_nat start @ ''-'' @ show_nat (end' - 1))"

section \<open>Bodies\<close>

definition ARTIFACT_STREAM_CHUNK_BYTES :: nat where
  "ARTIFACT_STREAM_CHUNK_BYTES = 64 * 1024"

datatype ArtifactBodySource = FileSource string | RangeSource nat

record artifact_store =
  as_signed_url :: "string \<Rightarrow> string option"
  as_size :: "string \<Rightarrow> nat option"
  as_open_file :: "string \<Rightarrow> string option option"
  as_get_range :: "string \<Rightarrow> nat \<Rightarrow> nat \<Rightarrow> string option"
  as_read_len :: "nat \<Rightarrow> nat \<Rightarrow> nat option"

text \<open>The n-th read of a body: None is an error, an empty read included.\<close>

fun read_source :: "artifact_store \<Rightarrow> string \<Rightarrow> nat \<Rightarrow> nat \<Rightarrow> ArtifactBodySource \<Rightarrow> (string \<times> ArtifactBodySource) option" where
  "read_source st hash n wanted (FileSource rest) =
     Option.bind (as_read_len st n wanted) (\<lambda>k. let buffer = take (min k wanted) rest in
       if buffer = [] then None else Some (buffer, FileSource (drop (length buffer) rest)))"
| "read_source st hash n wanted (RangeSource offset) =
     Option.bind (as_get_range st hash offset wanted) (\<lambda>bytes.
       if bytes = [] then None else Some (bytes, RangeSource (offset + length bytes)))"

function artifact_body :: "artifact_store \<Rightarrow> string \<Rightarrow> nat \<Rightarrow> ArtifactBodySource \<Rightarrow> nat \<Rightarrow> string list \<times> bool" where
  "artifact_body st hash n source len =
     (if len = 0 then ([], False)
      else (case read_source st hash n (min len ARTIFACT_STREAM_CHUNK_BYTES) source of
          None \<Rightarrow> ([], True)
        | Some (bytes, source') \<Rightarrow>
            if bytes = [] then ([], True)
            else (let (chunks, broken) = artifact_body st hash (Suc n) source' (len - length bytes) in (bytes # chunks, broken))))"
  by pat_completeness auto
termination by (relation "measure (\<lambda>(_, _, _, _, len). len)") auto

declare artifact_body.simps [simp del]

section \<open>The route\<close>

datatype artifact_reply = ArtifactBadRequest | ArtifactRedirect string | ArtifactNotFound | ArtifactBytes response

definition serve_artifact :: "artifact_store \<Rightarrow> string \<Rightarrow> string option \<Rightarrow> artifact_reply" where
  "serve_artifact st hash header =
     (case as_signed_url st hash of
        Some url \<Rightarrow> ArtifactRedirect url
      | None \<Rightarrow>
          (case as_size st hash of
             None \<Rightarrow> ArtifactNotFound
           | Some total_size \<Rightarrow>
               if total_size = 0 then
                 ArtifactBytes \<lparr>rs_status = 200, rs_content_range = None, rs_content_length = Some 0, rs_chunks = [], rs_cut = False\<rparr>
               else
                 (let byte_range = Option.bind header (\<lambda>value. parse_byte_range value total_size);
                      (start, last_byte, code) = (case byte_range of Some (s, e) \<Rightarrow> (s, e, 206 :: nat) | None \<Rightarrow> (0, total_size - 1, 200));
                      len = last_byte - start + 1 in
                  case as_open_file st hash of
                    None \<Rightarrow> ArtifactNotFound
                  | Some handle \<Rightarrow>
                      (let source = (case handle of Some content \<Rightarrow> FileSource (drop start content) | None \<Rightarrow> RangeSource start);
                           (chunks, broken) = artifact_body st hash 0 source len in
                       ArtifactBytes \<lparr>rs_status = code,
                         rs_content_range = (if code = 206 then Some (''bytes '' @ show_nat start @ ''-'' @ show_nat last_byte @ ''/'' @ show_nat total_size) else None),
                         rs_content_length = Some len, rs_chunks = chunks, rs_cut = broken\<rparr>))))"

definition get_artifact :: "artifact_store \<Rightarrow> string \<Rightarrow> string option \<Rightarrow> artifact_reply" where
  "get_artifact st hash header = (if \<not> is_ok (validate_artifact_id hash) then ArtifactBadRequest else serve_artifact st hash header)"

section \<open>Numbers in headers\<close>

lemma digits_val_snoc: "digits_val acc (xs @ [d]) = digits_val acc xs * 10 + digit_val d"
  by (induction xs arbitrary: acc) simp_all

lemma digit_val_char: "d < 10 \<Longrightarrow> digit_val (digit_char d) = d" "d < 10 \<Longrightarrow> is_ascii_digit (digit_char d)"
  by (simp_all add: digit_val_def digit_char_def byte_def is_ascii_digit_def)

lemma show_nat_digits: "digits_val 0 (show_nat n) = n" "list_all is_ascii_digit (show_nat n)" "show_nat n \<noteq> []"
proof -
  have "digits_val 0 (show_nat n) = n \<and> list_all is_ascii_digit (show_nat n) \<and> show_nat n \<noteq> []"
  proof (induction n rule: less_induct)
    case (less n)
    show ?case
    proof (cases "n < 10")
      case True
      then show ?thesis by (subst (1 2 3) show_nat.simps) (simp add: digit_val_char)
    next
      case False
      then have "n div 10 < n" by simp
      from less[OF this] show ?thesis using False by (subst (1 2 3) show_nat.simps) (simp add: digits_val_snoc digit_val_char)
    qed
  qed
  then show "digits_val 0 (show_nat n) = n" "list_all is_ascii_digit (show_nat n)" "show_nat n \<noteq> []" by simp_all
qed

lemma digit_not: "is_ascii_digit c \<Longrightarrow> c \<noteq> CHR ''+'' \<and> c \<noteq> CHR ''-'' \<and> c \<noteq> CHR ''/''"
  by (auto simp: is_ascii_digit_def byte_def)

lemma show_nat_no_sep: "CHR ''-'' \<notin> set (show_nat n)" "CHR ''/'' \<notin> set (show_nat n)"
  using show_nat_digits(2)[of n] digit_not by (auto simp: list_all_iff)

lemma parse_show_nat: "n < 2 ^ 64 \<Longrightarrow> parse_unsigned 64 (show_nat n) = Some n"
proof -
  assume n: "n < 2 ^ 64"
  obtain c cs where s: "show_nat n = c # cs" using show_nat_digits(3) by (meson neq_Nil_conv)
  have "c \<noteq> CHR ''+''" using show_nat_digits(2)[of n] s digit_not by simp
  then have "parse_unsigned 64 (show_nat n) = (if \<not> list_all is_ascii_digit (show_nat n) \<or> digits_val 0 (show_nat n) \<ge> 2 ^ 64 then None else Some (digits_val 0 (show_nat n)))"
    unfolding parse_unsigned_def s Let_def by simp
  then show ?thesis using n show_nat_digits[of n] by simp
qed

lemma content_range_reads:
  assumes "a < 2 ^ 64" "b < 2 ^ 64" "n < 2 ^ 64"
  shows "parse_content_range (''bytes '' @ show_nat a @ ''-'' @ show_nat b @ ''/'' @ show_nat n) = Some (a, b, n)"
proof -
  have "CHR ''/'' \<notin> set (show_nat a @ ''-'' @ show_nat b)" using show_nat_no_sep(2) by auto
  from split_once_append[OF this, of "show_nat n"]
  have "split_once (CHR ''/'') (show_nat a @ ''-'' @ show_nat b @ ''/'' @ show_nat n) = Some (show_nat a @ ''-'' @ show_nat b, show_nat n)" by simp
  moreover have "split_once (CHR ''-'') (show_nat a @ ''-'' @ show_nat b) = Some (show_nat a, show_nat b)"
    using split_once_append[OF show_nat_no_sep(1)] by simp
  moreover have "strip_prefix (''bytes '' @ show_nat a @ ''-'' @ show_nat b @ ''/'' @ show_nat n) ''bytes '' = Some (show_nat a @ ''-'' @ show_nat b @ ''/'' @ show_nat n)"
    by (rule strip_prefix_append)
  ultimately show ?thesis unfolding parse_content_range_def using parse_show_nat assms by simp
qed

lemma range_from_reads:
  assumes "off < size'" "size' \<le> 2 ^ 64"
  shows "parse_byte_range (''bytes='' @ show_nat off @ ''-'') size' = Some (off, size' - 1)"
proof -
  have "strip_prefix (''bytes='' @ show_nat off @ ''-'') ''bytes='' = Some (show_nat off @ ''-'')" by (rule strip_prefix_append)
  moreover have "split_once (CHR ''-'') (show_nat off @ ''-'') = Some (show_nat off, [])" using split_once_append[OF show_nat_no_sep(1)] by simp
  moreover have "parse_unsigned 64 (show_nat off) = Some off" using assms by (intro parse_show_nat) simp
  ultimately show ?thesis unfolding parse_byte_range_def using assms by simp
qed


section \<open>Bodies hold the artifact\<close>

text \<open>A backend that holds the artifact: its size, and its bytes through an open file or through range reads.\<close>

definition holds_artifact :: "artifact_store \<Rightarrow> string \<Rightarrow> string \<Rightarrow> bool" where
  "holds_artifact st hash c \<longleftrightarrow> as_signed_url st hash = None \<and> as_size st hash = Some (length c)
     \<and> (as_open_file st hash = Some (Some c) \<or> as_open_file st hash = Some None)
     \<and> (\<forall>offset wanted bytes. as_get_range st hash offset wanted = Some bytes \<longrightarrow> bytes = take wanted (drop offset c))"

text \<open>A backend whose reads do not fail.\<close>

definition reliable_store :: "artifact_store \<Rightarrow> string \<Rightarrow> string \<Rightarrow> bool" where
  "reliable_store st hash c \<longleftrightarrow> (\<forall>n wanted. 0 < wanted \<longrightarrow> (\<exists>k. 0 < k \<and> as_read_len st n wanted = Some k))
     \<and> (\<forall>offset wanted. offset + wanted \<le> length c \<longrightarrow> as_get_range st hash offset wanted \<noteq> None)"

fun source_at :: "string \<Rightarrow> nat \<Rightarrow> ArtifactBodySource \<Rightarrow> bool" where
  "source_at c pos (FileSource rest) = (rest = drop pos c)"
| "source_at c pos (RangeSource offset) = (offset = pos)"

lemma read_source_bytes:
  assumes "holds_artifact st hash c" "source_at c pos source" "0 < wanted" "pos + wanted \<le> length c"
  shows "read_source st hash n wanted source = Some (bytes, source') \<Longrightarrow>
      bytes \<noteq> [] \<and> length bytes \<le> wanted \<and> bytes = take (length bytes) (drop pos c) \<and> source_at c (pos + length bytes) source'"
    and "reliable_store st hash c \<Longrightarrow> read_source st hash n wanted source \<noteq> None"
proof -
  show "bytes \<noteq> [] \<and> length bytes \<le> wanted \<and> bytes = take (length bytes) (drop pos c) \<and> source_at c (pos + length bytes) source'"
    if run: "read_source st hash n wanted source = Some (bytes, source')"
  proof (cases source)
    case (FileSource rest)
    then obtain k where k: "bytes = take (min k wanted) (drop pos c)" "bytes \<noteq> []" "source' = FileSource (drop (length bytes) (drop pos c))"
      using run assms(2) by (cases "as_read_len st n wanted") (auto simp: Let_def split: if_splits)
    have "bytes = take (length bytes) (drop pos c)" by (metis k(1) append_take_drop_id append_eq_conv_conj)
    moreover have "length bytes \<le> wanted" unfolding k(1) by simp
    ultimately show ?thesis using k(2,3) by (simp add: add.commute)
  next
    case (RangeSource offset)
    then have "bytes = take wanted (drop pos c)" "bytes \<noteq> []" "source' = RangeSource (pos + length bytes)"
      using run assms(1,2) by (cases "as_get_range st hash pos wanted"; auto simp: holds_artifact_def split: if_splits)+
    moreover have "bytes = take (length bytes) (drop pos c)" using calculation(1) by (metis append_take_drop_id append_eq_conv_conj)
    ultimately show ?thesis using assms(4) by auto
  qed
  show "read_source st hash n wanted source \<noteq> None" if reliable: "reliable_store st hash c"
  proof (cases source)
    case (FileSource rest)
    obtain k where "0 < k" "as_read_len st n wanted = Some k" using reliable assms(3) unfolding reliable_store_def by blast
    moreover have "rest = drop pos c" "drop pos c \<noteq> []" using FileSource assms(2-4) by auto
    ultimately show ?thesis using FileSource assms(3) by (auto simp: Let_def)
  next
    case (RangeSource offset)
    obtain bytes where "as_get_range st hash pos wanted = Some bytes" using reliable assms(4) unfolding reliable_store_def by blast
    moreover have "bytes = take wanted (drop pos c)" using assms(1) calculation by (auto simp: holds_artifact_def)
    ultimately show ?thesis using RangeSource assms(2-4) by auto
  qed
qed

lemma body_bytes:
  assumes "holds_artifact st hash c" "source_at c pos source" "pos + len \<le> length c" "artifact_body st hash n source len = (chunks, broken)"
  shows "(\<exists>rest. take len (drop pos c) = concat chunks @ rest \<and> (broken \<or> rest = [])) \<and> (reliable_store st hash c \<longrightarrow> \<not> broken)"
  using assms(2-4)
proof (induction len arbitrary: n pos source chunks broken rule: less_induct)
  case (less len)
  show ?case
  proof (cases "len = 0")
    case True
    then show ?thesis using less.prems(3) by (simp add: artifact_body.simps[of _ _ _ _ 0])
  next
    case False
    let ?wanted = "min len ARTIFACT_STREAM_CHUNK_BYTES"
    have wanted: "0 < ?wanted" "pos + ?wanted \<le> length c" using False less.prems(2) by (auto simp: ARTIFACT_STREAM_CHUNK_BYTES_def)
    note read = read_source_bytes[OF assms(1) less.prems(1) wanted, of n]
    show ?thesis
    proof (cases "read_source st hash n ?wanted source")
      case None
      then show ?thesis using False less.prems(3) read(2) by (auto simp: artifact_body.simps[of _ _ _ _ len])
    next
      case (Some x)
      obtain bytes source' where x: "x = (bytes, source')" by fastforce
      have b: "bytes \<noteq> []" "length bytes \<le> ?wanted" "bytes = take (length bytes) (drop pos c)" "source_at c (pos + length bytes) source'"
        using read(1) Some x by blast+
      obtain cs br where rec: "artifact_body st hash (Suc n) source' (len - length bytes) = (cs, br)" by fastforce
      have out: "chunks = bytes # cs" "broken = br" using less.prems(3) False Some x b(1) rec by (auto simp: artifact_body.simps[of _ _ _ _ len])
      have "0 < length bytes" using b(1) by simp
      then have "len - length bytes < len" "pos + length bytes + (len - length bytes) \<le> length c" using b(2) less.prems(2) False by simp_all
      note ih = less.IH[OF this(1) b(4) this(2) rec]
      have "take len (drop pos c) = bytes @ take (len - length bytes) (drop (pos + length bytes) c)"
        using b(2,3) by (metis add.commute drop_drop le_add_diff_inverse min.boundedE take_add)
      then show ?thesis using ih out by auto
    qed
  qed
qed


section \<open>Downloading from the route\<close>

text \<open>The network of a client of this server: a request reaches the server in some state of its store, or fails.\<close>

definition server_net :: "(nat \<Rightarrow> artifact_store option) \<Rightarrow> string \<Rightarrow> network" where
  "server_net srv hash = \<lparr>nw_reply = \<lambda>n url rng. (case srv n of None \<Rightarrow> None | Some st \<Rightarrow>
       (case get_artifact st hash (range_header rng) of
          ArtifactBytes r \<Rightarrow> Some r
        | _ \<Rightarrow> Some \<lparr>rs_status = 404, rs_content_range = None, rs_content_length = None, rs_chunks = [], rs_cut = False\<rparr>)),
     nw_output = \<lambda>_. None, nw_disk_fails = \<lambda>_. False\<rparr>"

lemma served_honest:
  assumes "holds_artifact st hash c" "length c < 2 ^ 64" "off = 0 \<or> off < length c"
  shows "\<exists>r. serve_artifact st hash (range_header (request_from off)) = ArtifactBytes r \<and> honest_reply c off r \<and> (reliable_store st hash c \<longrightarrow> \<not> rs_cut r)"
proof (cases "c = []")
  case True
  then show ?thesis using assms by (simp add: serve_artifact_def holds_artifact_def honest_reply_def request_from_def)
next
  case False
  have st: "as_signed_url st hash = None" "as_size st hash = Some (length c)" using assms(1) by (simp_all add: holds_artifact_def)
  obtain handle where handle: "as_open_file st hash = Some handle" "handle = Some c \<or> handle = None" using assms(1) by (auto simp: holds_artifact_def)
  define source where "source = (case handle of Some content \<Rightarrow> FileSource (drop off content) | None \<Rightarrow> RangeSource off)"
  have at: "source_at c off source" using handle(2) by (auto simp: source_def)
  let ?len = "length c - 1 - off + 1"
  have len: "?len = length c - off" "off + ?len \<le> length c" using assms(3) False by (cases c; auto)+
  obtain chunks broken where body: "artifact_body st hash 0 source ?len = (chunks, broken)" by fastforce
  note bytes = body_bytes[OF assms(1) at len(2) body]
  have whole: "take ?len (drop off c) = drop off c" unfolding len(1) by simp
  have bounds: "off < 2 ^ 64" "length c - 1 < 2 ^ 64" using assms(2,3) by auto
  show ?thesis
  proof (cases "off = 0")
    case True
    then show ?thesis using st False handle(1) body bytes whole
      by (auto simp: serve_artifact_def request_from_def honest_reply_def source_def)
  next
    case pos: False
    then have parse: "parse_byte_range (''bytes='' @ show_nat off @ ''-'') (length c) = Some (off, length c - 1)"
      using assms(2,3) by (intro range_from_reads) auto
    have shown: "parse_content_range (''bytes '' @ show_nat off @ ''-'' @ show_nat (length c - 1) @ ''/'' @ show_nat (length c)) = Some (off, length c - 1, length c)"
      by (rule content_range_reads[OF bounds assms(2)])
    have "serve_artifact st hash (range_header (request_from off)) = ArtifactBytes \<lparr>rs_status = 206,
        rs_content_range = Some (''bytes '' @ show_nat off @ ''-'' @ show_nat (length c - 1) @ ''/'' @ show_nat (length c)),
        rs_content_length = Some ?len, rs_chunks = chunks, rs_cut = broken\<rparr>"
      unfolding serve_artifact_def using st False handle(1) body pos parse by (simp add: request_from_def source_def del: append_Cons append_assoc)
    then show ?thesis using bytes whole pos shown len(1) by (auto simp: honest_reply_def simp del: append_Cons)
  qed
qed

text \<open>
  C21.  A client that downloads an artifact from the artifact route of a server that holds it ends with exactly the
  artifact, although requests fail and bodies break off: as soon as one of the next three requests finds a store whose
  reads succeed, the bytes before and the resumed ranges after join to the content, whatever sizes the reads had.
\<close>

theorem served_artifact_downloads:
  assumes "hashes_ok hs" "hash = hs_sha256 hs c" "length c < 2 ^ 64" "\<And>n st. srv n = Some st \<Longrightarrow> holds_artifact st hash c"
    and "k < 3" "srv (dl_requests s + k) = Some st" "reliable_store st hash c"
    and "ar_hash a = hash" "ar_len a = Some (length c)"
  shows "\<exists>s'. download hs w (server_net srv hash) part a Memory None s = (Inr c, None, s')"
proof -
  have valid: "is_ok (validate_artifact_id hash)"
    using assms(1,2) by (auto simp: hashes_ok_def validate_artifact_id_def validate_lowercase_hex_def)
  have reply: "\<exists>r. nw_reply (server_net srv hash) n url (request_from off) = Some r \<and> honest_reply c off r \<and> (reliable_store st' hash c \<longrightarrow> \<not> rs_cut r)"
    if "srv n = Some st'" "off = 0 \<or> off < length c" for n url off st'
    using served_honest[OF assms(4)[OF that(1)] assms(3) that(2)] that(1) valid by (auto simp: server_net_def get_artifact_def)
  have "serves (server_net srv hash) c"
    unfolding serves_def
  proof (intro conjI allI impI)
    fix n url off
    assume off: "off = 0 \<or> off < length c"
    show "retry_reply (nw_reply (server_net srv hash) n url (request_from off)) \<or>
        (\<exists>r. nw_reply (server_net srv hash) n url (request_from off) = Some r \<and> honest_reply c off r)"
    proof (cases "srv n")
      case None
      then show ?thesis by (simp add: server_net_def retry_reply_def)
    next
      case (Some st')
      then show ?thesis using reply[OF Some off] by blast
    qed
  qed (simp add: server_net_def)
  moreover have "good_request (server_net srv hash) c (dl_requests s + k)"
    unfolding good_request_def using reply[OF assms(6)] assms(7) by blast
  ultimately show ?thesis using honest_download[OF _ assms(3,9) _ assms(5)] assms(2,8) by simp
qed


text \<open>A server that is down once, then breaks off after a byte, then reads two bytes at a time.\<close>

definition ex_artifact_store :: "nat \<Rightarrow> artifact_store" where
  "ex_artifact_store n = \<lparr>as_signed_url = \<lambda>_. None, as_size = \<lambda>_. Some 4, as_open_file = \<lambda>_. Some (Some ''abcd''), as_get_range = \<lambda>_ offset wanted. Some (take wanted (drop offset ''abcd'')),
     as_read_len = \<lambda>i wanted. if n = 1 then (if i = 0 then Some 1 else None) else Some 2\<rparr>"

definition ex_srv :: "nat \<Rightarrow> artifact_store option" where
  "ex_srv n = (if n = 0 then None else Some (ex_artifact_store n))"

theorem served_artifact_downloads_witness:
  "\<exists>s'. download ex_hashes ex_cas_world (server_net ex_srv (replicate 64 (CHR ''b''))) 16 ex_artifact Memory None ex_dl = (Inr ''abcd'', None, s')"
proof -
  have "holds_artifact st (replicate 64 (CHR ''b'')) ''abcd''" if "ex_srv n = Some st" for n st
    using that by (auto simp: ex_srv_def ex_artifact_store_def holds_artifact_def split: if_splits)
  moreover have "ex_srv (dl_requests ex_dl + 2) = Some (ex_artifact_store 2)" by (simp add: ex_srv_def ex_dl_def numeral_2_eq_2)
  moreover have "reliable_store (ex_artifact_store 2) (replicate 64 (CHR ''b'')) ''abcd''"
    by (auto simp: reliable_store_def ex_artifact_store_def)
  moreover have "replicate 64 (CHR ''b'') = hs_sha256 ex_hashes ''abcd''" "ar_hash ex_artifact = replicate 64 (CHR ''b'')" "ar_len ex_artifact = Some (length ''abcd'')"
    by (simp_all add: ex_hashes_def ex_artifact_def)
  moreover have "length ''abcd'' < 2 ^ 64" "2 < (3 :: nat)" by simp_all
  ultimately show ?thesis by (intro served_artifact_downloads[OF ex_hashes_ok, where k = 2 and st = "ex_artifact_store 2"])
qed

end
