(* ===== verification/Upstream.thy ===== *)
theory Upstream
  imports Provider Worker
begin

text \<open>
  Reading a repository's refs at its upstream: the \<open>ls-refs\<close> request over HTTP (\<open>src/rust/src/ls_refs.rs\<close>), and in
  \<open>src/rust/src/git.rs\<close> the URL and credential of an upstream, the resolution of a ref name, the parsers of what
  \<open>git ls-remote --symref\<close> prints, and the classification and cleaning of git's diagnostics.

  The network and the git process are parameters: the reply to the POST, and what git printed.  A Rust string is its
  UTF-8 bytes, a byte slice any string.  Timeouts are errors of the parameters.
\<close>

section \<open>UTF-8\<close>

definition byte_at :: "string \<Rightarrow> nat \<Rightarrow> nat" where
  "byte_at s i = (if i < length s then byte (s ! i) else 0)"

definition continuation :: "nat \<Rightarrow> bool" where
  "continuation b = (128 \<le> b \<and> b < 192)"

definition second_of_three :: "nat \<Rightarrow> nat \<Rightarrow> bool" where
  "second_of_three a b =
     (if a = 224 then 160 \<le> b \<and> b < 192 else if a = 237 then 128 \<le> b \<and> b < 160 else 225 \<le> a \<and> a < 240 \<and> continuation b)"

definition second_of_four :: "nat \<Rightarrow> nat \<Rightarrow> bool" where
  "second_of_four a b =
     (if a = 240 then 144 \<le> b \<and> b < 192 else if a = 244 then 128 \<le> b \<and> b < 144 else 241 \<le> a \<and> a < 244 \<and> continuation b)"

text \<open>Whether a non-empty string starts with a character, and the length of the character or of the bytes to replace.\<close>

definition utf8_step :: "string \<Rightarrow> bool \<times> nat" where
  "utf8_step s =
     (let a = byte_at s 0; b = byte_at s 1; c = byte_at s 2; d = byte_at s 3 in
      if a < 128 then (True, 1)
      else if 194 \<le> a \<and> a < 224 then (if continuation b then (True, 2) else (False, 1))
      else if 224 \<le> a \<and> a < 240 then
        (if \<not> second_of_three a b then (False, 1) else if continuation c then (True, 3) else (False, 2))
      else if 240 \<le> a \<and> a < 245 then
        (if \<not> second_of_four a b then (False, 1) else if \<not> continuation c then (False, 2)
         else if continuation d then (True, 4) else (False, 3))
      else (False, 1))"

lemma utf8_step_pos: "0 < snd (utf8_step s)"
  by (simp add: utf8_step_def Let_def)

function utf8_ok :: "string \<Rightarrow> bool" where
  "utf8_ok [] = True"
| "utf8_ok (a # s) = (fst (utf8_step (a # s)) \<and> utf8_ok (drop (snd (utf8_step (a # s))) (a # s)))"
  by pat_completeness auto
termination by (relation "measure length") (auto simp: utf8_step_pos)

text \<open>\<open>String::from_utf8_lossy\<close>: each broken sequence becomes U+FFFD.\<close>

definition replacement :: string where
  "replacement = [CHR 0xEF, CHR 0xBF, CHR 0xBD]"

function utf8_lossy :: "string \<Rightarrow> string" where
  "utf8_lossy [] = []"
| "utf8_lossy (a # s) =
     (let (ok, n) = utf8_step (a # s) in (if ok then take n (a # s) else replacement) @ utf8_lossy (drop n (a # s)))"
  by pat_completeness auto
termination
proof (relation "measure length")
  fix a s x ok n
  assume "x = utf8_step (a # s)" "(ok, n) = x"
  then show "(drop n (a # s), a # s) \<in> measure length" using utf8_step_pos[of "a # s"] by (metis snd_conv diff_less in_measure length_drop length_greater_0_conv list.distinct(1))
qed simp

text \<open>\<open>chars().take(n)\<close> of a valid string.\<close>

fun take_chars :: "nat \<Rightarrow> string \<Rightarrow> string" where
  "take_chars 0 s = []"
| "take_chars (Suc n) s = (let k = snd (utf8_step s) in take k s @ take_chars n (drop k s))"

section \<open>Lines and fields\<close>

definition NL :: char where
  "NL = CHR 0x0A"

definition TAB :: char where
  "TAB = CHR 0x09"

definition strip_suffix :: "string \<Rightarrow> string \<Rightarrow> string option" where
  "strip_suffix s p = (if ends_with s p then Some (take (length s - length p) s) else None)"

function trim_end_str :: "string \<Rightarrow> string \<Rightarrow> string" where
  "trim_end_str p s = (if p \<noteq> [] \<and> ends_with s p then trim_end_str p (take (length s - length p) s) else s)"
  by pat_completeness auto
termination by (relation "measure (\<lambda>(_, s). length s)") (auto simp: ends_with_def neq_Nil_conv)

declare trim_end_str.simps [simp del]

definition strip_cr :: "string \<Rightarrow> string" where
  "strip_cr s = (if s \<noteq> [] \<and> last s = CHR 0x0D then butlast s else s)"

text \<open>\<open>str::lines\<close>: a final empty piece is no line, and a line loses one carriage return.\<close>

definition str_lines :: "string \<Rightarrow> string list" where
  "str_lines s = map strip_cr (let ps = split_on NL s in if last ps = [] then butlast ps else ps)"

text \<open>\<open>str::split\<close> with a non-empty pattern.\<close>

function split_str :: "string \<Rightarrow> string \<Rightarrow> string list" where
  "split_str p [] = [[]]"
| "split_str p (c # s) =
     (if p \<noteq> [] \<and> starts_with (c # s) p then [] # split_str p (drop (length p) (c # s))
      else (case split_str p s of [] \<Rightarrow> [[c]] | q # qs \<Rightarrow> (c # q) # qs))"
  by pat_completeness auto
termination by (relation "measure (\<lambda>(_, s). length s)") (auto simp: neq_Nil_conv)

section \<open>The ls-refs request\<close>

definition AGENT :: string where
  "AGENT = ''git/ripclone-0.1.0''"

definition MAX_ANSWER :: nat where
  "MAX_ANSWER = 2 ^ 20"

definition hex_char :: "nat \<Rightarrow> char" where
  "hex_char d = (if d < 10 then char_of (48 + d) else char_of (87 + d))"

fun show_hex :: "nat \<Rightarrow> string" where
  "show_hex n = (if n < 16 then [hex_char n] else show_hex (n div 16) @ [hex_char (n mod 16)])"

declare show_hex.simps [simp del]

text \<open>\<open>format!("{:04x}", n)\<close>.\<close>

definition hex4 :: "nat \<Rightarrow> string" where
  "hex4 n = (let s = show_hex n in replicate (4 - length s) (CHR ''0'') @ s)"

definition pkt_line :: "string \<Rightarrow> string" where
  "pkt_line payload = hex4 (length payload + 4) @ payload"

fun prefix_lines :: "string list \<Rightarrow> string list \<Rightarrow> string" where
  "prefix_lines seen [] = []"
| "prefix_lines seen (p # ps) =
     (let prefix = trim_end_str (''^{}'') p in
      if prefix \<in> set seen then prefix_lines seen ps
      else pkt_line (''ref-prefix '' @ prefix @ [NL]) @ prefix_lines (seen @ [prefix]) ps)"

definition request_body :: "string list \<Rightarrow> string" where
  "request_body prefixes =
     pkt_line (''command=ls-refs'' @ [NL]) @ pkt_line (''agent='' @ AGENT @ [NL]) @ pkt_line (''object-format=sha1'' @ [NL])
     @ ''0001'' @ pkt_line (''peel'' @ [NL]) @ pkt_line (''symrefs'' @ [NL]) @ prefix_lines [] prefixes @ ''0000''"

section \<open>The ls-refs answer\<close>

definition hex_value :: "char \<Rightarrow> nat option" where
  "hex_value c =
     (let b = byte c in
      if 48 \<le> b \<and> b \<le> 57 then Some (b - 48) else if 97 \<le> b \<and> b \<le> 102 then Some (b - 87)
      else if 65 \<le> b \<and> b \<le> 70 then Some (b - 55) else None)"

fun hex_digits :: "nat \<Rightarrow> string \<Rightarrow> nat option" where
  "hex_digits acc [] = Some acc"
| "hex_digits acc (c # s) = (case hex_value c of None \<Rightarrow> None | Some v \<Rightarrow> hex_digits (16 * acc + v) s)"

text \<open>\<open>usize::from_str_radix\<close> with radix 16 of four bytes, which never overflow.\<close>

definition from_hex :: "string \<Rightarrow> nat option" where
  "from_hex s =
     (case s of [] \<Rightarrow> None
      | c # cs \<Rightarrow> if c = CHR ''+'' then (if cs = [] then None else hex_digits 0 cs) else hex_digits 0 s)"

text \<open>The attributes of a ref line: the lines of its symbolic targets, and the last peeled id.\<close>

fun ref_attributes :: "string \<Rightarrow> string list \<Rightarrow> string \<Rightarrow> string option \<Rightarrow> (string \<times> string option) option" where
  "ref_attributes name [] out peeled = Some (out, peeled)"
| "ref_attributes name (attribute # rest) out peeled =
     (case strip_prefix attribute ''symref-target:'' of
        Some target \<Rightarrow> ref_attributes name rest (out @ ''ref: '' @ target @ [TAB] @ name @ [NL]) peeled
      | None \<Rightarrow>
          (case strip_prefix attribute ''peeled:'' of
             Some oid \<Rightarrow> if is_ok (validate_object_id oid) then ref_attributes name rest out (Some oid) else None
           | None \<Rightarrow> ref_attributes name rest out peeled))"

definition ref_line_text :: "string \<Rightarrow> string option" where
  "ref_line_text line =
     (case split_on (CHR '' '') (trim_end_char NL line) of
        oid # name # attrs \<Rightarrow>
          if \<not> is_ok (validate_object_id oid) \<or> name = [] then None
          else (case ref_attributes name attrs [] None of
                  None \<Rightarrow> None
                | Some (out, peeled) \<Rightarrow>
                    Some (out @ oid @ [TAB] @ name @ [NL]
                      @ (case peeled of None \<Rightarrow> [] | Some p \<Rightarrow> p @ [TAB] @ name @ ''^{}'' @ [NL])))
      | _ \<Rightarrow> None)"

function ls_remote_lines :: "string \<Rightarrow> string \<Rightarrow> string option" where
  "ls_remote_lines out rest =
     (if length rest < 4 \<or> \<not> utf8_ok (take 4 rest) then None
      else case from_hex (take 4 rest) of
        None \<Rightarrow> None
      | Some len \<Rightarrow>
          if len = 0 then (if drop 4 rest = [] then Some out else None)
          else if len < 4 \<or> length rest < len \<or> \<not> utf8_ok (drop 4 (take len rest)) then None
          else case ref_line_text (drop 4 (take len rest)) of
                 None \<Rightarrow> None
               | Some text \<Rightarrow> ls_remote_lines (out @ text) (drop len rest))"
  by pat_completeness auto
termination by (relation "measure (\<lambda>(_, rest). length rest)") auto

declare ls_remote_lines.simps [simp del]

text \<open>The reply to the POST: its status, its body in chunks, and whether reading it failed; None when none came.\<close>

record post_reply =
  pr_status :: nat
  pr_chunks :: "string list"
  pr_broken :: bool

fun read_answer :: "string \<Rightarrow> string list \<Rightarrow> bool \<Rightarrow> string option" where
  "read_answer body [] broken = (if broken then None else Some body)"
| "read_answer body (c # cs) broken =
     (if length (body @ c) > MAX_ANSWER then None else read_answer (body @ c) cs broken)"

definition ls_refs ::
    "(string \<Rightarrow> (string \<times> string) option \<Rightarrow> string \<Rightarrow> post_reply option) \<Rightarrow> string \<Rightarrow> (string \<times> string) option \<Rightarrow> string list
      \<Rightarrow> string option" where
  "ls_refs post url auth prefixes =
     (if \<not> (starts_with url ''https://'' \<or> starts_with url ''http://'') then None
      else case post (trim_end_char (CHR ''/'') url @ ''/git-upload-pack'') auth (request_body prefixes) of
        None \<Rightarrow> None
      | Some reply \<Rightarrow>
          if pr_status reply \<noteq> 200 then None
          else Option.bind (read_answer [] (pr_chunks reply) (pr_broken reply)) (ls_remote_lines []))"

section \<open>Parsing ls-remote\<close>

record UpstreamRefs =
  ur_default_branch :: "string option"
  ur_branches :: "(string \<times> string) list"
  ur_tags :: "(string \<times> string) list"

definition no_refs :: UpstreamRefs where
  "no_refs = \<lparr>ur_default_branch = None, ur_branches = [], ur_tags = []\<rparr>"

fun upstream_line :: "UpstreamRefs \<times> string option \<Rightarrow> string \<Rightarrow> UpstreamRefs \<times> string option" where
  "upstream_line (refs, head) line =
     (case split_once TAB line of
        None \<Rightarrow> (refs, head)
      | Some (i, name) \<Rightarrow>
          (case strip_prefix i ''ref: '' of
             Some target \<Rightarrow> (refs, if name = ''HEAD'' then strip_prefix target ''refs/heads/'' else head)
           | None \<Rightarrow>
               if \<not> is_ok (validate_object_id i) then (refs, head)
               else case strip_prefix name ''refs/heads/'' of
                 Some branch \<Rightarrow>
                   (if is_ok (validate_checkout_name branch) then refs\<lparr>ur_branches := ur_branches refs @ [(branch, i)]\<rparr> else refs, head)
               | None \<Rightarrow>
                   (case strip_prefix name ''refs/tags/'' of
                      Some tag \<Rightarrow>
                        (if \<not> ends_with tag (''^{}'') \<and> is_ok (validate_tag_name tag)
                         then refs\<lparr>ur_tags := ur_tags refs @ [(tag, i)]\<rparr> else refs, head)
                    | None \<Rightarrow> (refs, head))))"

definition parse_upstream_refs :: "string \<Rightarrow> UpstreamRefs" where
  "parse_upstream_refs stdout =
     (let (refs, head) = fold (\<lambda>line acc. upstream_line acc line) (if utf8_ok stdout then str_lines stdout else []) (no_refs, None);
          branches = sort (ur_branches refs)
      in \<lparr>ur_default_branch = Option.bind head (\<lambda>h. if list_ex (\<lambda>(name, _). name = h) branches then Some h else None),
          ur_branches = branches, ur_tags = sort (ur_tags refs)\<rparr>)"

datatype upstream_error = BadSymref | BadAdvertisement | BadObjectId | InvalidRepoPath | InvalidRef | GitFailed bool "string option" | GitTimeout

record RemoteTip =
  rt_commit :: string
  rt_ref_name :: string
  rt_default_branch :: "string option"

definition symbolic_head :: "string \<Rightarrow> string option" where
  "symbolic_head line =
     Option.bind (strip_prefix line ''ref: refs/heads/'') (\<lambda>symbolic.
     Option.bind (case strip_suffix symbolic (TAB # ''HEAD'') of Some b \<Rightarrow> Some b | None \<Rightarrow> strip_suffix symbolic '' HEAD'') (\<lambda>branch.
       if branch \<noteq> [] \<and> is_ok (validate_git_rev branch) then Some branch else None))"

fun advertisement :: "string list \<Rightarrow> string option \<Rightarrow> (string \<times> string) list
    \<Rightarrow> (upstream_error, string option \<times> (string \<times> string) list) result" where
  "advertisement [] default_branch advertised = Inr (default_branch, advertised)"
| "advertisement (line # rest) default_branch advertised =
     (case symbolic_head line of
        Some branch \<Rightarrow> advertisement rest (Some branch) advertised
      | None \<Rightarrow>
          if starts_with line ''ref: '' then Inl BadSymref
          else (case split_once TAB line of
            None \<Rightarrow> Inl BadAdvertisement
          | Some (sha, remote_ref) \<Rightarrow>
              if \<not> is_ok (validate_object_id (trim sha)) then Inl BadObjectId
              else advertisement rest default_branch (advertised @ [(trim remote_ref, trim sha)])))"

fun find_candidate :: "string list \<Rightarrow> (string \<times> string) list \<Rightarrow> string option \<Rightarrow> RemoteTip option" where
  "find_candidate [] advertised default_branch = None"
| "find_candidate (name # rest) advertised default_branch =
     (case map_of advertised name of
        Some sha \<Rightarrow> Some \<lparr>rt_commit = sha, rt_ref_name = trim_end_str (''^{}'') name, rt_default_branch = default_branch\<rparr>
      | None \<Rightarrow> find_candidate rest advertised default_branch)"

definition parse_ls_remote_output :: "string \<Rightarrow> string list \<Rightarrow> (upstream_error, RemoteTip option) result" where
  "parse_ls_remote_output stdout candidates =
     rbind (advertisement (str_lines (utf8_lossy stdout)) None []) (\<lambda>(default_branch, advertised).
       Inr (find_candidate candidates advertised default_branch))"

section \<open>URL and credential\<close>

definition upstream_url_with :: "ProviderInstance \<Rightarrow> RepoId \<Rightarrow> string option \<Rightarrow> string" where
  "upstream_url_with p repo origin_base =
     (case origin_base of
        Some base \<Rightarrow> if is_github_default repo \<and> base \<noteq> [] then trim_end_char (CHR ''/'') base @ ''/'' @ rid_path repo @ ''.git''
                     else clone_url p (rid_path repo)
      | None \<Rightarrow> clone_url p (rid_path repo))"

definition upstream_auth_header :: "(string \<Rightarrow> string) \<Rightarrow> ProviderInstance \<Rightarrow> string option \<Rightarrow> (string \<times> string) option" where
  "upstream_auth_header base64 p credential = Option.bind credential (auth_header base64 p)"

definition upstream_url_and_auth ::
    "(string \<Rightarrow> string) \<Rightarrow> ProviderInstance \<Rightarrow> RepoId \<Rightarrow> string option \<Rightarrow> string option \<Rightarrow> string \<times> string list" where
  "upstream_url_and_auth base64 p repo credential origin_base =
     (upstream_url_with p repo origin_base,
      case Option.bind credential (auth_header base64 p) of
        None \<Rightarrow> []
      | Some (name, val) \<Rightarrow> [''-c'', ''http.extraHeader='' @ name @ '': '' @ val, ''-c'', ''http.followRedirects=false''])"

section \<open>Git's diagnostics\<close>

definition lowercase :: "string \<Rightarrow> string" where
  "lowercase = map to_ascii_lower"

definition error_statuses :: "string \<Rightarrow> nat list" where
  "error_statuses detail =
     List.map_filter (\<lambda>suffix. if length suffix < 3 then None else parse_unsigned 16 (take 3 suffix))
       (tl (split_str ''returned error: '' detail))"

definition permanent_needles :: "string list" where
  "permanent_needles = [''authentication failed'', ''invalid username or password'', ''could not read username'', ''repository not found'',
     ''does not appear to be a git repository'', ''not our ref'', ''unadvertised object'', ''couldn'' @ [CHR 0x27] @ ''t find remote ref'',
     ''remote ref does not exist'', ''invalid refspec'', ''invalid ref name'']"

text \<open>The list of transport failures decides nothing: an unknown failure is retryable too.\<close>

definition upstream_failure_is_retryable :: "string \<Rightarrow> bool" where
  "upstream_failure_is_retryable stderr =
     (let detail = lowercase (utf8_lossy stderr); statuses = error_statuses detail in
      if list_ex (\<lambda>s. s = 408 \<or> s = 429 \<or> (500 \<le> s \<and> s < 600)) statuses then True
      else if list_ex (\<lambda>s. 400 \<le> s \<and> s < 500) statuses then False
      else if list_ex (contains_str detail) permanent_needles then False
      else if list_ex (\<lambda>rest. contains_str rest (CHR 0x27 # '' not found'')) (tl (split_str (''repository '' @ [CHR 0x27]) detail)) then False
      else True)"

fun join_lines :: "string list \<Rightarrow> string" where
  "join_lines [] = []"
| "join_lines [x] = x"
| "join_lines (x # xs) = x @ ''; '' @ join_lines xs"

definition STDERR_MAX :: nat where
  "STDERR_MAX = 400"

definition sanitize_git_stderr :: "string \<Rightarrow> (string \<times> string) option \<Rightarrow> string option" where
  "sanitize_git_stderr stderr auth =
     (let text = (case auth of
                    Some (_, val) \<Rightarrow> if val \<noteq> [] then str_replace val ''***'' (utf8_lossy stderr) else utf8_lossy stderr
                  | None \<Rightarrow> utf8_lossy stderr);
          tail = filter (\<lambda>l. l \<noteq> []) (map trim (str_lines text));
          joined = join_lines (drop (length tail - 3) tail) in
      if joined = [] then None
      else if length joined > STDERR_MAX then Some (take_chars STDERR_MAX joined @ [CHR 0xE2, CHR 0x80, CHR 0xA6])
      else Some joined)"

definition upstream_git_error :: "(string \<times> string) option \<Rightarrow> string \<Rightarrow> upstream_error" where
  "upstream_git_error auth stderr = GitFailed (upstream_failure_is_retryable stderr) (sanitize_git_stderr stderr auth)"

section \<open>Resolving a name upstream\<close>

text \<open>What the git process did: it printed an answer, failed with a diagnostic, or ran out of time.\<close>

datatype git_run = Printed string | Exited string | TimedOut

definition run_ls_remote :: "(string \<Rightarrow> string list \<Rightarrow> string list \<Rightarrow> git_run) \<Rightarrow> string \<Rightarrow> string list \<Rightarrow> (string \<times> string) option
    \<Rightarrow> string list \<Rightarrow> (upstream_error, string) result" where
  "run_ls_remote git url git_args auth patterns =
     (case git url git_args patterns of
        Printed stdout \<Rightarrow> Inr stdout | Exited stderr \<Rightarrow> Inl (upstream_git_error auth stderr) | TimedOut \<Rightarrow> Inl GitTimeout)"

definition ref_candidates :: "string \<Rightarrow> string list" where
  "ref_candidates ref_name =
     (if ref_name = ''HEAD'' \<or> starts_with ref_name ''refs/'' then [ref_name]
      else [''refs/heads/'' @ ref_name, ''refs/tags/'' @ ref_name @ ''^{}'', ''refs/tags/'' @ ref_name])"

definition prepare_ls_remote ::
    "(string \<Rightarrow> string) \<Rightarrow> ProviderInstance \<Rightarrow> RepoId \<Rightarrow> string \<Rightarrow> string option \<Rightarrow> string option
      \<Rightarrow> (upstream_error, string \<times> string list \<times> (string \<times> string) option \<times> string list) result" where
  "prepare_ls_remote base64 p repo ref_name credential origin_base =
     (if \<not> is_ok (validate_repo_path p repo) then Inl InvalidRepoPath
      else if ref_name \<noteq> ''HEAD'' \<and> \<not> is_ok (validate_git_rev ref_name) then Inl InvalidRef
      else if ref_name \<noteq> ''HEAD'' \<and> list_ex (\<lambda>c. c = CHR ''*'' \<or> c = CHR ''?'' \<or> c = CHR ''['') ref_name then Inr ([], [], None, [])
      else (let (url, git_args) = upstream_url_and_auth base64 p repo credential origin_base in
            Inr (url, git_args, upstream_auth_header base64 p credential, ref_candidates ref_name)))"

definition ls_remote_tip_async_with ::
    "(string \<Rightarrow> string) \<Rightarrow> (string \<Rightarrow> (string \<times> string) option \<Rightarrow> string \<Rightarrow> post_reply option) \<Rightarrow> (string \<Rightarrow> string list \<Rightarrow> string list \<Rightarrow> git_run)
      \<Rightarrow> ProviderInstance \<Rightarrow> RepoId \<Rightarrow> string \<Rightarrow> string option \<Rightarrow> string option \<Rightarrow> bool \<Rightarrow> (upstream_error, RemoteTip option) result" where
  "ls_remote_tip_async_with base64 post git p repo ref_name credential origin_base use_ls_refs =
     rbind (prepare_ls_remote base64 p repo ref_name credential origin_base) (\<lambda>(url, git_args, auth, candidates).
       if url = [] then Inr None
       else case (if use_ls_refs then ls_refs post url auth candidates else None) of
              Some lines \<Rightarrow> parse_ls_remote_output lines candidates
            | None \<Rightarrow> rbind (run_ls_remote git url git_args auth candidates) (\<lambda>stdout. parse_ls_remote_output stdout candidates))"

definition ls_remote_refs ::
    "(string \<Rightarrow> string) \<Rightarrow> (string \<Rightarrow> string list \<Rightarrow> string list \<Rightarrow> git_run) \<Rightarrow> ProviderInstance \<Rightarrow> RepoId \<Rightarrow> string option \<Rightarrow> string option
      \<Rightarrow> (upstream_error, RemoteTip option \<times> UpstreamRefs) result" where
  "ls_remote_refs base64 git p repo credential origin_base =
     (if \<not> is_ok (validate_repo_path p repo) then Inl InvalidRepoPath
      else (let (url, git_args) = upstream_url_and_auth base64 p repo credential origin_base;
                auth = upstream_auth_header base64 p credential in
            rbind (run_ls_remote git url git_args auth [''HEAD'', ''refs/heads/*'', ''refs/tags/*'']) (\<lambda>stdout.
            rbind (parse_ls_remote_output stdout [''HEAD'']) (\<lambda>tip. Inr (tip, parse_upstream_refs stdout)))))"

end
