(* ===== verification/Upstream_Props.thy ===== *)
theory Upstream_Props
  imports Upstream "HOL-Library.Sublist"
begin

text \<open>
  An answer of the upstream, written out as the protocol describes it, is read back exactly: through the packets, the
  \<open>ls-remote\<close> lines and the two parsers.  The credential of a failed git call never reaches its error.
\<close>

section \<open>Bytes\<close>

lemma utf8_step_ok:
  assumes "fst (utf8_step s)"
  obtains "utf8_step s = (True, 1)" "byte_at s 0 < 128"
  | "utf8_step s = (True, 2)" "194 \<le> byte_at s 0" "byte_at s 0 < 224" "continuation (byte_at s 1)"
  | "utf8_step s = (True, 3)" "224 \<le> byte_at s 0" "byte_at s 0 < 240" "second_of_three (byte_at s 0) (byte_at s 1)" "continuation (byte_at s 2)"
  | "utf8_step s = (True, 4)" "240 \<le> byte_at s 0" "byte_at s 0 < 245" "second_of_four (byte_at s 0) (byte_at s 1)" "continuation (byte_at s 2)"
      "continuation (byte_at s 3)"
  using assms unfolding utf8_step_def Let_def by (simp split: if_split_asm)

lemma utf8_step_append: "fst (utf8_step s) \<Longrightarrow> s \<noteq> [] \<Longrightarrow> utf8_step (s @ t) = utf8_step s \<and> snd (utf8_step s) \<le> length s"
proof -
  assume ok: "fst (utf8_step s)" and ne: "s \<noteq> []"
  have high: "i < length s" if "128 \<le> byte_at s i" for i using that by (auto simp: byte_at_def split: if_splits)
  have cont: "i < length s" if "continuation (byte_at s i)" for i using that high by (simp add: continuation_def)
  have second: "128 \<le> b" if "second_of_three a b \<or> second_of_four a b" for a b
    using that by (auto simp: second_of_three_def second_of_four_def continuation_def split: if_splits)
  have same: "byte_at (s @ t) i = byte_at s i" if "i < length s" for i using that by (simp add: byte_at_def nth_append)
  have first: "0 < length s" using ne by simp
  from ok show ?thesis
  proof (cases rule: utf8_step_ok)
    case 1
    then show ?thesis using same[OF first] first by (simp add: utf8_step_def Let_def Suc_le_eq)
  next
    case 2
    then show ?thesis using same[OF first] same[OF cont[of 1]] cont[of 1] by (simp add: utf8_step_def Let_def)
  next
    case 3
    then have "1 < length s" "2 < length s" using cont[of 2] by simp_all
    then show ?thesis using 3 same[OF first] same[of 1] same[of 2] by (simp add: utf8_step_def Let_def)
  next
    case 4
    then have "1 < length s" "2 < length s" "3 < length s" using cont[of 3] by simp_all
    then show ?thesis using 4 same[OF first] same[of 1] same[of 2] same[of 3] by (simp add: utf8_step_def Let_def)
  qed
qed

lemma utf8_ok_append: "utf8_ok s \<Longrightarrow> utf8_ok t \<Longrightarrow> utf8_ok (s @ t)"
proof (induction s rule: utf8_ok.induct)
  case (2 a s)
  then have "fst (utf8_step (a # s))" by simp
  note step = utf8_step_append[OF this, of t]
  then have "drop (snd (utf8_step (a # s))) (a # s @ t) = drop (snd (utf8_step (a # s))) (a # s) @ t" by (cases "snd (utf8_step (a # s))") auto
  then show ?case using 2 step by simp
qed simp

lemma utf8_ok_Cons [simp]: "byte c < 128 \<Longrightarrow> utf8_ok (c # s) = utf8_ok s"
  by (simp add: utf8_step_def byte_at_def)

declare utf8_ok.simps(2) [simp del]

lemma byte_NL_TAB [simp]: "byte NL = 10" "byte TAB = 9"
  by (simp_all add: NL_def TAB_def byte_def)

lemma utf8_ok_ascii: "list_all (\<lambda>c. byte c < 128) s \<Longrightarrow> utf8_ok s"
  by (induction s) simp_all

lemma utf8_lossy_ok: "utf8_ok s \<Longrightarrow> utf8_lossy s = s"
  by (induction s rule: utf8_ok.induct) (auto simp: utf8_ok.simps split: prod.splits)

section \<open>Packet lengths\<close>

lemma byte_hex_char: "d < 16 \<Longrightarrow> byte (hex_char d) = (if d < 10 then 48 + d else 87 + d)"
  by (simp add: hex_char_def byte_def)

lemma hex_value_char: "d < 16 \<Longrightarrow> hex_value (hex_char d) = Some d"
  by (simp add: hex_value_def byte_hex_char)

lemma hex_char_plain: "d < 16 \<Longrightarrow> byte (hex_char d) < 128 \<and> hex_char d \<noteq> CHR ''+''"
proof -
  assume d: "d < 16"
  have "byte CHR ''+'' = 43" by (simp add: byte_def)
  then show ?thesis using d by (auto simp: byte_hex_char split: if_splits dest!: arg_cong[of _ _ byte])
qed

lemma hex4_digits:
  assumes "n < 65536"
  shows "hex4 n = map hex_char [n div 4096, n div 256 mod 16, n div 16 mod 16, n mod 16]"
proof -
  have zero: "hex_char 0 = CHR ''0''" by (simp add: hex_char_def char_of_def bit_0)
  have reps: "replicate 3 c = [c, c, c]" "replicate 2 c = [c, c]" for c :: char by (simp_all add: numeral_3_eq_3 numeral_2_eq_2)
  have more: "show_hex m = show_hex (m div 16) @ [hex_char (m mod 16)]" if "16 \<le> m" for m using that by (subst show_hex.simps) simp
  have one: "show_hex m = [hex_char m]" if "m < 16" for m using that by (subst show_hex.simps) simp
  consider "n < 16" | "16 \<le> n" "n < 256" | "256 \<le> n" "n < 4096" | "4096 \<le> n" using assms by linarith
  then show ?thesis
  proof cases
    case 1
    then show ?thesis by (simp add: hex4_def one zero reps)
  next
    case 2
    then have "show_hex n = [hex_char (n div 16), hex_char (n mod 16)]" by (simp add: more one)
    then show ?thesis using 2 by (simp add: hex4_def zero reps div_less)
  next
    case 3
    then have "n div 16 div 16 < 16" "16 \<le> n div 16" by auto
    then have "show_hex n = [hex_char (n div 256), hex_char (n div 16 mod 16), hex_char (n mod 16)]"
      using 3 by (simp add: more[of n] more[of "n div 16"] one div_mult2_eq[symmetric])
    then show ?thesis using 3 by (simp add: hex4_def zero div_less)
  next
    case 4
    then have le: "16 \<le> n div 16" "16 \<le> n div 256" "n div 4096 < 16" using assms by auto
    then have "show_hex n = [hex_char (n div 4096), hex_char (n div 256 mod 16), hex_char (n div 16 mod 16), hex_char (n mod 16)]"
      using 4 by (simp add: more[of n] more[of "n div 16"] more[of "n div 256"] one[of "n div 4096"] div_mult2_eq[symmetric])
    then show ?thesis by (simp add: hex4_def)
  qed
qed

lemma hex4_round_trip:
  assumes "n < 65536"
  shows "length (hex4 n) = 4" "from_hex (hex4 n) = Some n" "utf8_ok (hex4 n)"
proof -
  define a b c d where "a = n div 4096" and "b = n div 256 mod 16" and "c = n div 16 mod 16" and "d = n mod 16"
  have eq: "hex4 n = map hex_char [a, b, c, d]" using hex4_digits[OF assms] by (simp add: a_def b_def c_def d_def)
  have digits: "a < 16" "b < 16" "c < 16" "d < 16" using assms by (auto simp: a_def b_def c_def d_def)
  have "n div 256 = 16 * a + b" "n div 16 = 16 * (n div 256) + c" "n = 16 * (n div 16) + d"
    by (simp_all add: a_def b_def c_def d_def div_mult2_eq[of n 256 16, simplified] div_mult2_eq[of n 16 16, simplified])
  then have n: "16 * (16 * (16 * a + b) + c) + d = n" by metis
  have "from_hex (map hex_char [a, b, c, d]) = Some (16 * (16 * (16 * a + b) + c) + d)"
    using digits hex_char_plain[OF digits(1)] by (simp add: from_hex_def hex_value_char)
  then show "from_hex (hex4 n) = Some n" unfolding eq n .
  show "length (hex4 n) = 4" by (simp add: eq)
  show "utf8_ok (hex4 n)" using digits hex_char_plain unfolding eq by (intro utf8_ok_ascii) simp
qed


section \<open>An answer as the protocol describes it\<close>

text \<open>One advertised ref: its object, its name, the target of a symbolic ref, and the object an annotated tag peels to.\<close>

record adv_ref =
  av_oid :: string
  av_name :: string
  av_target :: "string option"
  av_peeled :: "string option"

definition attribute :: "string \<Rightarrow> string option \<Rightarrow> string list" where
  "attribute key v = (case v of None \<Rightarrow> [] | Some x \<Rightarrow> [key @ x])"

fun join_fields :: "string list \<Rightarrow> string" where
  "join_fields [] = []"
| "join_fields [x] = x"
| "join_fields (x # xs) = x @ CHR '' '' # join_fields xs"

definition ref_fields :: "adv_ref \<Rightarrow> string list" where
  "ref_fields r = av_oid r # av_name r # attribute ''symref-target:'' (av_target r) @ attribute ''peeled:'' (av_peeled r)"

definition encode_answer :: "adv_ref list \<Rightarrow> string" where
  "encode_answer rs = concat (map (\<lambda>r. pkt_line (join_fields (ref_fields r) @ [NL])) rs) @ ''0000''"

text \<open>The lines \<open>git ls-remote --symref\<close> prints of it.\<close>

definition listed_lines :: "adv_ref \<Rightarrow> string list" where
  "listed_lines r = attribute ''ref: '' (map_option (\<lambda>t. t @ [TAB] @ av_name r) (av_target r))
     @ [av_oid r @ [TAB] @ av_name r] @ attribute [] (map_option (\<lambda>p. p @ [TAB] @ av_name r @ ''^{}'') (av_peeled r))"

definition lines_text :: "string list \<Rightarrow> string" where
  "lines_text ls = concat (map (\<lambda>l. l @ [NL]) ls)"

text \<open>A name without spaces and control bytes that starts and ends with ASCII.\<close>

definition word :: "string \<Rightarrow> bool" where
  "word s = (s \<noteq> [] \<and> utf8_ok s \<and> list_all (\<lambda>c. 32 < byte c \<and> byte c \<noteq> 127) s \<and> byte (hd s) < 128 \<and> byte (last s) < 128)"

definition adv_ok :: "adv_ref \<Rightarrow> bool" where
  "adv_ok r = (is_ok (validate_object_id (av_oid r)) \<and> word (av_name r) \<and> CHR ''^'' \<notin> set (av_name r)
     \<and> pred_option (\<lambda>p. is_ok (validate_object_id p)) (av_peeled r)
     \<and> pred_option (\<lambda>t. word t \<and> av_name r = ''HEAD'' \<and> (\<exists>b. t = ''refs/heads/'' @ b \<and> b \<noteq> [] \<and> is_ok (validate_git_rev b))) (av_target r)
     \<and> length (join_fields (ref_fields r)) < 65531)"

lemma object_id_word: "is_ok (validate_object_id i) \<Longrightarrow> word i"
proof -
  assume ok: "is_ok (validate_object_id i)"
  then have i: "i \<noteq> []" "list_all is_lower_hex i" by (auto simp: validate_object_id_def split: if_splits)
  then have all: "list_all (\<lambda>c. 32 < byte c \<and> byte c \<noteq> 127 \<and> byte c < 128) i"
    by (auto simp: list_all_iff is_lower_hex_def is_ascii_digit_def)
  then have "utf8_ok i" by (intro utf8_ok_ascii) (auto simp: list_all_iff)
  then show ?thesis using i all by (auto simp: word_def list_all_iff)
qed

lemma word_bytes: "word s \<Longrightarrow> c \<in> set s \<Longrightarrow> 32 < byte c"
  by (auto simp: word_def list_all_iff)

lemma word_chars:
  assumes "word s"
  shows "CHR '' '' \<notin> set s" "NL \<notin> set s" "TAB \<notin> set s" "CHR 0x0D \<notin> set s"
  using word_bytes[OF assms] by (force simp: NL_def TAB_def byte_def)+

lemma split_join_fields: "xs \<noteq> [] \<Longrightarrow> list_all (\<lambda>x. CHR '' '' \<notin> set x) xs \<Longrightarrow> split_on (CHR '' '') (join_fields xs) = xs"
proof (induction xs rule: join_fields.induct)
  case (2 x)
  have "CHR '' '' \<notin> set x \<Longrightarrow> split_on (CHR '' '') x = [x]" by (induction x) auto
  then show ?case using 2 by simp
next
  case (3 x y xs)
  have "CHR '' '' \<notin> set x \<Longrightarrow> split_on (CHR '' '') (x @ CHR '' '' # s) = x # split_on (CHR '' '') s" for s by (induction x) auto
  then show ?case using 3 by simp
qed simp

lemma str_lines_text:
  assumes "list_all (\<lambda>l. NL \<notin> set l \<and> CHR 0x0D \<notin> set l) ls"
  shows "str_lines (lines_text ls) = ls"
proof -
  have one: "NL \<notin> set x \<Longrightarrow> split_on NL (x @ NL # s) = x # split_on NL s" for x s by (induction x) auto
  have "split_on NL (lines_text ls) = ls @ [[]]"
    using assms unfolding lines_text_def by (induction ls) (simp_all add: one)
  moreover have "map strip_cr ls = ls" using assms by (intro map_idI) (metis last_in_set list_all_iff strip_cr_def)
  ultimately show ?thesis by (simp add: str_lines_def)
qed

lemma trim_word: "word s \<Longrightarrow> trim s = s"
proof -
  assume s: "word s"
  have start: "trim_start x = x" if "x \<noteq> []" "32 < byte (hd x)" "byte (hd x) < 128" for x
    using that by (cases x rule: trim_start.cases) (auto simp: ws1_def ws2_def ws3_def)
  have rev_end: "trim_rev x = x" if "x \<noteq> []" "32 < byte (hd x)" "byte (hd x) < 128" for x
    using that by (cases x rule: trim_rev.cases) (auto simp: ws1_def ws2_def ws3_def)
  have "s \<noteq> []" "byte (hd s) < 128" "byte (last s) < 128" using s by (auto simp: word_def)
  then show ?thesis using start[of s] rev_end[of "rev s"] word_bytes[OF s] by (simp add: trim_def hd_rev)
qed


section \<open>Reading the answer\<close>

lemma utf8_ok_word [simp]: "word s \<Longrightarrow> utf8_ok s"
  by (simp add: word_def)

lemma utf8_ok_join: "list_all utf8_ok xs \<Longrightarrow> utf8_ok (join_fields xs)"
proof (induction xs rule: join_fields.induct)
  case (3 x y xs)
  have "byte (CHR '' '') = 32" by (simp add: byte_def)
  then show ?case using 3 by (simp add: utf8_ok_append)
qed auto

lemma utf8_ok_lines: "list_all utf8_ok ls \<Longrightarrow> utf8_ok (lines_text ls)"
  unfolding lines_text_def by (induction ls) (simp_all add: utf8_ok_append)

lemma fields_plain:
  assumes "adv_ok r"
  shows "list_all (\<lambda>x. CHR '' '' \<notin> set x \<and> NL \<notin> set x \<and> utf8_ok x) (ref_fields r)"
proof -
  let ?plain = "\<lambda>x. CHR '' '' \<notin> set x \<and> NL \<notin> set x \<and> utf8_ok x"
  have word: "?plain v" if "word v" for v using word_chars[OF that] that by simp
  have attr: "list_all ?plain (attribute k v)" if "pred_option word v" "?plain k" for k v
    using that word[of "the v"] by (cases v) (auto simp: attribute_def utf8_ok_append)
  have "?plain ''symref-target:''" "?plain ''peeled:''" by (auto simp: byte_def NL_def)
  moreover have "pred_option word (av_target r)" "pred_option word (av_peeled r)" "word (av_oid r)" "word (av_name r)"
    using assms object_id_word unfolding adv_ok_def by (auto simp: pred_option_def)
  ultimately have "list_all ?plain (attribute ''symref-target:'' (av_target r))" "list_all ?plain (attribute ''peeled:'' (av_peeled r))"
      "?plain (av_oid r)" "?plain (av_name r)"
    by (simp_all only: attr word simp_thms)
  then show ?thesis unfolding ref_fields_def list_all_append list.pred_inject by blast
qed

lemma ref_attributes_read:
  "pred_option (\<lambda>p. is_ok (validate_object_id p)) pl \<Longrightarrow>
    ref_attributes name (attribute ''symref-target:'' t @ attribute ''peeled:'' pl) [] None
      = Some (lines_text (attribute ''ref: '' (map_option (\<lambda>t. t @ [TAB] @ name) t)), pl)"
  by (cases t; cases pl) (simp_all add: attribute_def lines_text_def strip_prefix_def starts_with_def)

lemma ref_line_reads:
  assumes "adv_ok r"
  shows "utf8_ok (join_fields (ref_fields r) @ [NL])" "ref_line_text (join_fields (ref_fields r) @ [NL]) = Some (lines_text (listed_lines r))"
proof -
  note plain = fields_plain[OF assms]
  have ne: "ref_fields r \<noteq> []" by (simp add: ref_fields_def)
  show "utf8_ok (join_fields (ref_fields r) @ [NL])"
    using plain by (intro utf8_ok_append utf8_ok_join) (auto simp: list_all_iff)
  have "set (join_fields xs) \<subseteq> insert (CHR '' '') (\<Union> (set ` set xs))" for xs by (induction xs rule: join_fields.induct) auto
  moreover have "NL \<noteq> CHR '' ''" by (simp add: NL_def)
  ultimately have "NL \<notin> set (join_fields (ref_fields r))" using plain by (fastforce simp: list_all_iff)
  then have trimmed: "trim_end_char NL (join_fields (ref_fields r) @ [NL]) = join_fields (ref_fields r)"
    by (cases "join_fields (ref_fields r)" rule: rev_cases) (auto simp: trim_end_char_def)
  have split: "split_on (CHR '' '') (join_fields (ref_fields r)) = ref_fields r"
    using split_join_fields[OF ne] plain by (auto simp: list_all_iff)
  have facts: "av_name r \<noteq> []" "is_ok (validate_object_id (av_oid r))" "pred_option (\<lambda>p. is_ok (validate_object_id p)) (av_peeled r)"
    using assms by (auto simp: adv_ok_def word_def)
  show "ref_line_text (join_fields (ref_fields r) @ [NL]) = Some (lines_text (listed_lines r))"
    unfolding ref_line_text_def trimmed split
    using ref_attributes_read[OF facts(3), of "av_name r" "av_target r"] facts(1,2)
    by (simp add: ref_fields_def listed_lines_def lines_text_def attribute_def[of "[]"] split: option.split)
qed

lemma answer_reads:
  "list_all adv_ok rs \<Longrightarrow> ls_remote_lines out (encode_answer rs) = Some (out @ lines_text (concat (map listed_lines rs)))"
proof (induction rs arbitrary: out)
  case Nil
  have "from_hex ''0000'' = Some 0" by (simp add: from_hex_def hex_value_def byte_def)
  moreover have "utf8_ok ''0000''" by (simp add: byte_def)
  ultimately show ?case by (subst ls_remote_lines.simps) (simp add: encode_answer_def lines_text_def)
next
  case (Cons r rs)
  define payload where "payload = join_fields (ref_fields r) @ [NL]"
  define more where "more = encode_answer rs"
  have len: "length payload + 4 < 65536" using Cons.prems by (simp add: payload_def adv_ok_def)
  note hex = hex4_round_trip[OF len]
  have enc: "encode_answer (r # rs) = hex4 (length payload + 4) @ payload @ more"
    by (simp add: encode_answer_def pkt_line_def payload_def more_def)
  have line: "utf8_ok payload" "ref_line_text payload = Some (lines_text (listed_lines r))"
    using ref_line_reads[of r] Cons.prems by (simp_all add: payload_def)
  have parts: "take 4 (hex4 (length payload + 4) @ payload @ more) = hex4 (length payload + 4)"
    "drop 4 (take (length payload + 4) (hex4 (length payload + 4) @ payload @ more)) = payload"
    "drop (length payload + 4) (hex4 (length payload + 4) @ payload @ more) = more"
    using hex(1) by simp_all
  have "ls_remote_lines out (encode_answer (r # rs)) = ls_remote_lines (out @ lines_text (listed_lines r)) more"
    unfolding enc by (subst ls_remote_lines.simps) (simp add: parts hex line del: take_append drop_append)
  then show ?case using Cons by (simp add: more_def lines_text_def)
qed


section \<open>The parsers on the lines\<close>

definition adv_entries :: "adv_ref \<Rightarrow> (string \<times> string) list" where
  "adv_entries r = (av_name r, av_oid r) # (case av_peeled r of None \<Rightarrow> [] | Some p \<Rightarrow> [(av_name r @ ''^{}'', p)])"

definition target_branch :: "adv_ref \<Rightarrow> string option" where
  "target_branch r = Option.bind (av_target r) (\<lambda>t. strip_prefix t ''refs/heads/'')"

definition head_branch :: "adv_ref list \<Rightarrow> string option" where
  "head_branch rs = Option.bind (find (\<lambda>r. av_name r = ''HEAD'') rs) target_branch"

lemma word_peeled_name: "word n \<Longrightarrow> word (n @ ''^{}'')"
  by (auto simp: word_def byte_def intro!: utf8_ok_append)

lemma listed_line_plain: "adv_ok r \<Longrightarrow> list_all (\<lambda>l. NL \<notin> set l \<and> CHR 0x0D \<notin> set l \<and> utf8_ok l) (listed_lines r)"
proof -
  let ?plain = "\<lambda>l. NL \<notin> set l \<and> CHR 0x0D \<notin> set l \<and> utf8_ok l"
  assume ok: "adv_ok r"
  have word: "?plain v" if "word v" for v using word_chars[OF that] that by simp
  have cat: "?plain (a @ b)" if "?plain a" "?plain b" for a b using that by (simp add: utf8_ok_append)
  have tab: "?plain [TAB]" "?plain ''ref: ''" by (auto simp: TAB_def NL_def byte_def)
  have name: "word (av_name r)" "word (av_name r @ ''^{}'')" "word (av_oid r)"
    using ok object_id_word word_peeled_name by (auto simp: adv_ok_def)
  have opts: "pred_option word (av_target r)" "pred_option word (av_peeled r)" using ok object_id_word by (auto simp: adv_ok_def pred_option_def)
  have "list_all ?plain (attribute ''ref: '' (map_option (\<lambda>t. t @ [TAB] @ av_name r) (av_target r)))"
    using opts(1) by (cases "av_target r") (auto simp only: attribute_def option.map option.case list.pred_inject option.pred_inject intro!: cat[OF tab(2) cat[OF word cat[OF tab(1) word[OF name(1)]]]])
  moreover have "list_all ?plain (attribute [] (map_option (\<lambda>p. p @ [TAB] @ av_name r @ ''^{}'') (av_peeled r)))"
    using opts(2) by (cases "av_peeled r") (auto simp only: attribute_def option.map option.case list.pred_inject option.pred_inject append_Nil intro!: cat[OF word cat[OF tab(1) word[OF name(2)]]])
  moreover have "?plain (av_oid r @ [TAB] @ av_name r)" by (intro cat tab word name)
  ultimately show ?thesis unfolding listed_lines_def list_all_append list.pred_inject by (simp only: simp_thms list.pred_inject)
qed

lemma listing_text:
  assumes "list_all adv_ok rs"
  shows "str_lines (lines_text (concat (map listed_lines rs))) = concat (map listed_lines rs)"
    and "utf8_ok (lines_text (concat (map listed_lines rs)))"
proof -
  have "list_all (\<lambda>l. NL \<notin> set l \<and> CHR 0x0D \<notin> set l \<and> utf8_ok l) (concat (map listed_lines rs))"
    using assms listed_line_plain by (induction rs) auto
  then show "str_lines (lines_text (concat (map listed_lines rs))) = concat (map listed_lines rs)"
    and "utf8_ok (lines_text (concat (map listed_lines rs)))"
    by (auto intro!: str_lines_text utf8_ok_lines simp: list_all_iff)
qed

lemma strip_suffix_append [simp]: "strip_suffix (a @ b) b = Some a"
  by (simp add: strip_suffix_def ends_with_def)

lemma oid_not_ref: "is_ok (validate_object_id i) \<Longrightarrow> starts_with (i @ s) (CHR ''r'' # p) = False"
  by (cases i) (auto simp: validate_object_id_def starts_with_def is_lower_hex_def is_ascii_digit_def byte_def split: if_splits)

lemma advertised_line:
  assumes "is_ok (validate_object_id i)" "word name"
  shows "advertisement ((i @ [TAB] @ name) # ls) d a = advertisement ls d (a @ [(name, i)])"
proof -
  have i: "word i" by (rule object_id_word[OF assms(1)])
  have "symbolic_head (i @ [TAB] @ name) = None"
    using oid_not_ref[OF assms(1)] by (simp add: symbolic_head_def strip_prefix_def)
  moreover have "split_once TAB (i @ [TAB] @ name) = Some (i, name)" using split_once_append[OF word_chars(3)[OF i]] by simp
  ultimately show ?thesis using oid_not_ref[OF assms(1)] assms by (simp add: trim_word[OF i] trim_word[OF assms(2)])
qed

lemma advertised_ref:
  assumes "adv_ok r"
  shows "advertisement (listed_lines r @ ls) d a =
    advertisement ls (if av_target r = None then d else target_branch r) (a @ adv_entries r)"
proof -
  have name: "word (av_name r)" "word (av_name r @ ''^{}'')" "is_ok (validate_object_id (av_oid r))"
    using assms word_peeled_name by (auto simp: adv_ok_def)
  have symref: "advertisement (attribute ''ref: '' (map_option (\<lambda>t. t @ [TAB] @ av_name r) (av_target r)) @ more) d a
      = advertisement more (if av_target r = None then d else target_branch r) a" for more
  proof (cases "av_target r")
    case (Some t)
    then obtain b where b: "t = ''refs/heads/'' @ b" "b \<noteq> []" "is_ok (validate_git_rev b)" "av_name r = ''HEAD''"
      using assms by (auto simp: adv_ok_def)
    have "strip_suffix (b @ TAB # ''HEAD'') (TAB # ''HEAD'') = Some b" by (rule strip_suffix_append)
    moreover have "strip_prefix (''ref: refs/heads/'' @ b @ TAB # ''HEAD'') ''ref: refs/heads/'' = Some (b @ TAB # ''HEAD'')" by (rule strip_prefix_append)
    ultimately have "symbolic_head (''ref: refs/heads/'' @ b @ TAB # ''HEAD'') = Some b" using b(2,3) by (simp only: symbolic_head_def Option.bind.bind_lunit option.case if_True simp_thms)
    moreover have "target_branch r = Some b" using Some b(1) strip_prefix_append[of "''refs/heads/''" b] by (simp only: target_branch_def Option.bind.bind_lunit)
    ultimately show ?thesis using Some b by (simp add: attribute_def)
  qed (simp add: attribute_def)
  show ?thesis
  proof (cases "av_peeled r")
    case None
    then show ?thesis using symref advertised_line[OF name(3,1)] by (simp add: listed_lines_def attribute_def[of "[]"] adv_entries_def)
  next
    case (Some p)
    then have "is_ok (validate_object_id p)" using assms by (simp add: adv_ok_def)
    then show ?thesis using Some symref advertised_line[OF name(3,1)] advertised_line[OF _ name(2)]
      by (simp add: listed_lines_def attribute_def[of "[]"] adv_entries_def)
  qed
qed

lemma head_branch_fold:
  assumes "list_all adv_ok rs" "distinct (map av_name rs)"
  shows "fold (\<lambda>r h. if av_target r = None then h else target_branch r) rs d = (if head_branch rs = None then d else head_branch rs)"
  using assms
proof (induction rs arbitrary: d)
  case (Cons r rs)
  show ?case
  proof (cases "av_name r = ''HEAD''")
    case True
    have "find (\<lambda>r. av_name r = ''HEAD'') rs = None" using True Cons.prems(2) by (auto simp: find_None_iff) (metis image_eqI)
    then have "head_branch rs = None" "head_branch (r # rs) = target_branch r" using True by (simp_all add: head_branch_def)
    moreover have "target_branch r = None \<longleftrightarrow> av_target r = None"
      using Cons.prems(1) by (cases "av_target r") (auto simp: target_branch_def adv_ok_def strip_prefix_def starts_with_def)
    ultimately show ?thesis using Cons by simp
  next
    case False
    then have "av_target r = None" "head_branch (r # rs) = head_branch rs" using Cons.prems by (auto simp: adv_ok_def head_branch_def pred_option_def)
    then show ?thesis using Cons by simp
  qed
qed (simp add: head_branch_def)

lemma advertisement_reads:
  assumes "list_all adv_ok rs" "distinct (map av_name rs)"
  shows "advertisement (concat (map listed_lines rs)) None [] = Inr (head_branch rs, concat (map adv_entries rs))"
proof -
  have "advertisement (concat (map listed_lines rs)) d a
      = Inr (fold (\<lambda>r h. if av_target r = None then h else target_branch r) rs d, a @ concat (map adv_entries rs))" for d a
    using assms(1) by (induction rs arbitrary: d a) (simp_all add: advertised_ref)
  then show ?thesis using head_branch_fold[OF assms, of None] by simp
qed

lemma map_of_entries:
  assumes "list_all adv_ok rs" "CHR ''^'' \<notin> set name"
  shows "map_of (concat (map adv_entries rs)) name = map_option av_oid (find (\<lambda>r. av_name r = name) rs)"
proof -
  have "n @ ''^{}'' \<noteq> name" for n using assms(2) by auto
  then show ?thesis using assms(1) by (induction rs) (auto simp: adv_entries_def split: option.split)
qed

lemma map_of_peeled:
  assumes "list_all adv_ok rs" "distinct (map av_name rs)"
  shows "map_of (concat (map adv_entries rs)) (name @ ''^{}'') = Option.bind (find (\<lambda>r. av_name r = name) rs) av_peeled"
  using assms
proof (induction rs)
  case (Cons r rs)
  have "av_name r \<noteq> name @ ''^{}''" using Cons.prems by (auto simp: adv_ok_def)
  moreover have "find (\<lambda>r. av_name r = name) rs = None" if "av_name r = name"
    using that Cons.prems(2) by (auto simp: find_None_iff) (metis image_eqI)
  ultimately show ?case using Cons by (auto simp: adv_entries_def split: option.split)
qed simp

lemma trim_end_peeled: "CHR ''^'' \<notin> set n \<Longrightarrow> trim_end_str (''^{}'') n = n" "CHR ''^'' \<notin> set n \<Longrightarrow> trim_end_str (''^{}'') (n @ ''^{}'') = n"
proof -
  assume n: "CHR ''^'' \<notin> set n"
  have "\<not> ends_with n (''^{}'')"
  proof
    assume "ends_with n (''^{}'')"
    then have "CHR ''^'' \<in> set (drop (length n - length (''^{}'')) n)" by (metis ends_with_def list.set_intros(1))
    then show False using n by (meson in_set_dropD)
  qed
  then show plain: "trim_end_str (''^{}'') n = n" by (subst trim_end_str.simps) simp
  have "ends_with (n @ ''^{}'') (''^{}'')" by (simp add: ends_with_def)
  then show "trim_end_str (''^{}'') (n @ ''^{}'') = n" using plain by (subst trim_end_str.simps) simp
qed

text \<open>What a short name means in an answer: the branch of that name, else the tag, peeled to its commit.\<close>

definition resolved_tip :: "adv_ref list \<Rightarrow> string \<Rightarrow> RemoteTip option" where
  "resolved_tip rs n =
     (case find (\<lambda>r. av_name r = ''refs/heads/'' @ n) rs of
        Some r \<Rightarrow> Some \<lparr>rt_commit = av_oid r, rt_ref_name = ''refs/heads/'' @ n, rt_default_branch = head_branch rs\<rparr>
      | None \<Rightarrow>
          (case find (\<lambda>r. av_name r = ''refs/tags/'' @ n) rs of
             Some r \<Rightarrow> Some \<lparr>rt_commit = (case av_peeled r of Some p \<Rightarrow> p | None \<Rightarrow> av_oid r), rt_ref_name = ''refs/tags/'' @ n,
                               rt_default_branch = head_branch rs\<rparr>
           | None \<Rightarrow> None))"

lemma output_reads:
  assumes "list_all adv_ok rs" "distinct (map av_name rs)"
  shows "parse_ls_remote_output (lines_text (concat (map listed_lines rs))) names
    = Inr (find_candidate names (concat (map adv_entries rs)) (head_branch rs))"
  using listing_text[OF assms(1)] advertisement_reads[OF assms] by (simp add: parse_ls_remote_output_def utf8_lossy_ok)

lemma short_name_found:
  assumes "list_all adv_ok rs" "distinct (map av_name rs)" "CHR ''^'' \<notin> set n" "n \<noteq> ''HEAD''" "\<not> starts_with n ''refs/''"
  shows "find_candidate (ref_candidates n) (concat (map adv_entries rs)) (head_branch rs) = resolved_tip rs n"
proof -
  define tag where "tag = ''refs/tags/'' @ n"
  define branch where "branch = ''refs/heads/'' @ n"
  have plain: "CHR ''^'' \<notin> set tag" "CHR ''^'' \<notin> set branch" using assms(3) by (auto simp: tag_def branch_def)
  have "ref_candidates n = [branch, tag @ ''^{}'', tag]" using assms(4,5) by (simp add: ref_candidates_def tag_def branch_def)
  then show ?thesis
    unfolding resolved_tip_def tag_def[symmetric] branch_def[symmetric]
    using map_of_entries[OF assms(1) plain(1)] map_of_entries[OF assms(1) plain(2)] map_of_peeled[OF assms(1,2), of tag]
    by (auto simp: trim_end_peeled plain split: option.split)
qed

lemma read_answer_all: "length body + length (concat cs) \<le> MAX_ANSWER \<Longrightarrow> read_answer body cs False = Some (body @ concat cs)"
  by (induction cs arbitrary: body) auto



text \<open>The branches and tags of an answer that a clone can write.\<close>

definition branch_of :: "adv_ref \<Rightarrow> (string \<times> string) list" where
  "branch_of r = (case strip_prefix (av_name r) ''refs/heads/'' of
     Some b \<Rightarrow> if is_ok (validate_checkout_name b) then [(b, av_oid r)] else [] | None \<Rightarrow> [])"

definition tag_of :: "adv_ref \<Rightarrow> (string \<times> string) list" where
  "tag_of r = (case strip_prefix (av_name r) ''refs/tags/'' of
     Some t \<Rightarrow> if is_ok (validate_tag_name t) then [(t, av_oid r)] else [] | None \<Rightarrow> [])"

definition listing :: "adv_ref list \<Rightarrow> UpstreamRefs" where
  "listing rs = \<lparr>ur_default_branch = Option.bind (head_branch rs) (\<lambda>b. if b \<in> fst ` set (concat (map branch_of rs)) then Some b else None),
     ur_branches = sort (concat (map branch_of rs)), ur_tags = sort (concat (map tag_of rs))\<rparr>"

lemma peeled_name_refused: "\<not> is_ok (validate_ref_name (b @ ''^{}''))"
  by (simp add: validate_ref_name_def ref_name_bad_char_def)

lemma strip_prefix_some: "strip_prefix s p = Some t \<longleftrightarrow> s = p @ t"
  by (auto simp: strip_prefix_def starts_with_iff)

lemma upstream_line_oid:
  assumes "is_ok (validate_object_id i)" "word name"
  shows "upstream_line (refs, head) (i @ [TAB] @ name) =
    (case strip_prefix name ''refs/heads/'' of
       Some b \<Rightarrow> (if is_ok (validate_checkout_name b) then refs\<lparr>ur_branches := ur_branches refs @ [(b, i)]\<rparr> else refs, head)
     | None \<Rightarrow> (case strip_prefix name ''refs/tags/'' of
         Some t \<Rightarrow> (if \<not> ends_with t (''^{}'') \<and> is_ok (validate_tag_name t) then refs\<lparr>ur_tags := ur_tags refs @ [(t, i)]\<rparr> else refs, head)
       | None \<Rightarrow> (refs, head)))"
proof -
  have "split_once TAB (i @ [TAB] @ name) = Some (i, name)" using split_once_append[OF word_chars(3)[OF object_id_word[OF assms(1)]]] by simp
  moreover have "strip_prefix i ''ref: '' = None" using oid_not_ref[OF assms(1), of "[]"] by (simp add: strip_prefix_def)
  ultimately show ?thesis using assms(1) by simp
qed

lemma peeled_tail:
  assumes "n @ ''^{}'' = k @ t" "CHR ''^'' \<notin> set k"
  shows "ends_with t (''^{}'')"
proof -
  have "\<not> length t < 3"
  proof
    assume "length t < 3"
    then have "CHR ''^'' \<in> set k" using assms(1) by (auto simp: append_eq_append_conv2 append_eq_Cons_conv Cons_eq_append_conv)
    then show False using assms(2) by blast
  qed
  then show ?thesis using assms(1) by (auto simp: ends_with_def append_eq_append_conv2 append_eq_Cons_conv Cons_eq_append_conv)
qed

lemma peeled_line_skipped:
  assumes "is_ok (validate_object_id p)" "word name"
  shows "upstream_line (refs, head) (p @ [TAB] @ name @ ''^{}'') = (refs, head)"
proof -
  have keep: "ends_with t (''^{}'')" if "strip_prefix (name @ ''^{}'') k = Some t" "k = ''refs/heads/'' \<or> k = ''refs/tags/''" for k t
  proof -
    have "CHR ''^'' \<notin> set k" using that(2) by auto
    moreover have "name @ ''^{}'' = k @ t" using that(1) by (simp only: strip_prefix_some)
    ultimately show ?thesis by (intro peeled_tail)
  qed
  have "\<not> is_ok (validate_checkout_name b)" if "strip_prefix (name @ ''^{}'') ''refs/heads/'' = Some b" for b
  proof -
    have "b = take (length b - length (''^{}'')) b @ ''^{}''" using keep[OF that] by (metis append_take_drop_id ends_with_def)
    then show ?thesis using peeled_name_refused unfolding validate_checkout_name_def by metis
  qed
  then show ?thesis unfolding upstream_line_oid[OF assms(1) word_peeled_name[OF assms(2)]] using keep by (auto split: option.split)
qed

lemma upstream_ref:
  assumes "adv_ok r"
  shows "fold (\<lambda>line acc. upstream_line acc line) (listed_lines r) (refs, head) =
    (refs\<lparr>ur_branches := ur_branches refs @ branch_of r, ur_tags := ur_tags refs @ tag_of r\<rparr>, if av_target r = None then head else target_branch r)"
proof -
  let ?step = "\<lambda>line acc. upstream_line acc line"
  let ?head = "if av_target r = None then head else target_branch r"
  have name: "word (av_name r)" "word (av_name r @ ''^{}'')" "is_ok (validate_object_id (av_oid r))" "CHR ''^'' \<notin> set (av_name r)"
    using assms word_peeled_name by (auto simp: adv_ok_def)
  have symref: "fold ?step (attribute ''ref: '' (map_option (\<lambda>t. t @ [TAB] @ av_name r) (av_target r))) (refs, head) = (refs, ?head)"
  proof (cases "av_target r")
    case (Some t)
    then have t: "word t" "av_name r = ''HEAD''" using assms by (auto simp: adv_ok_def)
    have "TAB \<notin> set (''ref: '' @ t)" using word_chars(3)[OF t(1)] by (auto simp: TAB_def)
    then have "split_once TAB ((''ref: '' @ t) @ TAB # ''HEAD'') = Some (''ref: '' @ t, ''HEAD'')" by (rule split_once_append)
    then show ?thesis using Some t strip_prefix_append[of "''ref: ''" t] by (simp add: attribute_def target_branch_def)
  qed (simp add: attribute_def)
  have own: "upstream_line (refs, h) (av_oid r @ [TAB] @ av_name r)
      = (refs\<lparr>ur_branches := ur_branches refs @ branch_of r, ur_tags := ur_tags refs @ tag_of r\<rparr>, h)" for h
  proof -
    have "\<not> ends_with t (''^{}'')" if "strip_prefix (av_name r) ''refs/tags/'' = Some t" for t
    proof
      assume "ends_with t (''^{}'')"
      then have "CHR ''^'' \<in> set t" by (metis ends_with_def in_set_dropD list.set_intros(1))
      then show False using that name(4) by (auto simp: strip_prefix_some)
    qed
    moreover have "strip_prefix (av_name r) ''refs/tags/'' = None" if "strip_prefix (av_name r) ''refs/heads/'' = Some b" for b
    proof -
      have "av_name r = ''refs/heads/'' @ b" using that by (simp only: strip_prefix_some)
      then show ?thesis by (simp add: strip_prefix_def starts_with_def)
    qed
    ultimately show ?thesis unfolding upstream_line_oid[OF name(3,1)] branch_of_def tag_of_def by (auto split: option.split)
  qed
  have peeled: "upstream_line (rs, h) (p @ [TAB] @ av_name r @ ''^{}'') = (rs, h)" if "is_ok (validate_object_id p)" for p rs h
    by (rule peeled_line_skipped[OF that name(1)])
  show ?thesis
  proof (cases "av_peeled r")
    case None
    then show ?thesis using symref own by (simp add: listed_lines_def attribute_def[of "[]"])
  next
    case (Some p)
    then have "is_ok (validate_object_id p)" using assms by (simp add: adv_ok_def)
    then show ?thesis using Some symref own peeled by (simp add: listed_lines_def attribute_def[of "[]"])
  qed
qed


lemma upstream_refs_read:
  assumes "list_all adv_ok rs" "distinct (map av_name rs)"
  shows "parse_upstream_refs (lines_text (concat (map listed_lines rs))) = listing rs"
proof -
  have "fold (\<lambda>line acc. upstream_line acc line) (concat (map listed_lines rs)) (refs, head) =
      (refs\<lparr>ur_branches := ur_branches refs @ concat (map branch_of rs), ur_tags := ur_tags refs @ concat (map tag_of rs)\<rparr>,
       fold (\<lambda>r h. if av_target r = None then h else target_branch r) rs head)" for refs head
    using assms(1) by (induction rs arbitrary: refs head) (simp_all add: upstream_ref)
  from this[of no_refs None, unfolded no_refs_def] show ?thesis
    using listing_text[OF assms(1)] head_branch_fold[OF assms, of None]
    unfolding parse_upstream_refs_def listing_def no_refs_def
    by (cases "head_branch rs") (force simp: list_ex_iff image_iff)+
qed



section \<open>Credentials stay out of errors\<close>

lemma contains_sublist: "contains_str s p = sublist p s"
  by (auto simp: contains_str_iff sublist_def)

lemma sublist_split: "p \<in> set (split_on c s) \<Longrightarrow> sublist p s"
proof (induction s arbitrary: p)
  case (Cons x s)
  show ?case
  proof (cases "x = c")
    case False
    obtain q qs where q: "split_on c s = q # qs" using split_on_ne by (meson neq_Nil_conv)
    have prefix: "prefix (hd (split_on c s)) s" for s
      by (induction s) (auto split: list.splits)
    have "prefix q s" using prefix[of s] q by simp
    then have "sublist (x # q) (x # s)" by (intro prefix_imp_sublist) simp
    then show ?thesis using Cons False q by (auto intro: sublist_Cons_right[THEN iffD2])
  qed (use Cons in \<open>auto intro: sublist_Cons_right[THEN iffD2]\<close>)
qed simp

lemma suffix_trim: "suffix (trim_start s) s" "suffix (trim_rev s) s"
proof -
  show "suffix (trim_start s) s" by (induction s rule: trim_start.induct) (auto simp: suffix_Cons)
  show "suffix (trim_rev s) s" by (induction s rule: trim_rev.induct) (auto simp: suffix_Cons)
qed

lemma sublist_trim: "sublist (trim s) s"
proof -
  have "prefix (trim s) (trim_start s)" using suffix_trim(2)[of "rev (trim_start s)"] by (simp add: trim_def suffix_to_prefix)
  then show ?thesis using suffix_trim(1)[of s] by (meson prefix_imp_sublist sublist_order.order.trans suffix_imp_sublist)
qed

lemma sublist_lines: "l \<in> set (str_lines s) \<Longrightarrow> sublist l s"
proof -
  assume "l \<in> set (str_lines s)"
  then obtain p where p: "p \<in> set (split_on NL s)" "l = strip_cr p"
    by (auto simp: str_lines_def Let_def split: if_splits dest: in_set_butlastD)
  then have "sublist l p" by (auto simp: strip_cr_def intro!: prefix_imp_sublist prefixeq_butlast)
  then show ?thesis using sublist_split[OF p(1)] by (rule sublist_order.order.trans)
qed

lemma prefix_take_chars: "prefix (take_chars n s) s"
proof (induction n s rule: take_chars.induct)
  case (2 n s)
  then show ?case by (metis append_prefixD append_take_drop_id same_prefix_prefix take_chars.simps(2))
qed simp

lemma contains_sep:
  assumes "contains_str (x @ c # y) v" "c \<notin> set v" "v \<noteq> []"
  shows "contains_str x v \<or> contains_str y v"
proof -
  obtain a b where "x @ c # y = a @ v @ b" using assms(1) by (auto simp: contains_str_iff)
  then have "(\<exists>u. x = a @ v @ u) \<or> (\<exists>u. y = u @ v @ b) \<or> c \<in> set v"
    by (auto simp: append_eq_append_conv2 append_eq_Cons_conv Cons_eq_append_conv)
  then show ?thesis using assms(2) by (auto simp: contains_str_iff)
qed

lemma contains_joined:
  assumes "contains_str (join_lines ls) v" "CHR '';'' \<notin> set v" "v \<noteq> []" "hd v \<noteq> CHR '' ''"
  shows "\<exists>l \<in> set ls. contains_str l v"
  using assms
proof (induction ls rule: join_lines.induct)
  case (3 x y xs)
  then have "contains_str x v \<or> contains_str (CHR '' '' # join_lines (y # xs)) v" by (intro contains_sep[of x "CHR '';''" _ v]) simp_all
  moreover have "\<not> starts_with (CHR '' '' # s) v" for s using 3(4,5) by (cases v) (auto simp: starts_with_def)
  ultimately show ?case using 3 by auto
qed auto

lemma starts_with_Cons: "starts_with (a # s) (b # p) = (a = b \<and> starts_with s p)"
  by (auto simp: starts_with_def)

lemma replaced_start:
  "starts_with (str_replace v ''***'' s) w \<Longrightarrow> CHR ''*'' \<notin> set w \<Longrightarrow> starts_with s w"
proof (induction v "''***''" s arbitrary: w rule: str_replace.induct)
  case (2 v c s)
  show ?case
  proof (cases w)
    case w: (Cons d w')
    show ?thesis
    proof (cases "v \<noteq> [] \<and> starts_with (c # s) v")
      case True
      then show ?thesis using 2(3,4) w by (auto simp: starts_with_def)
    next
      case False
      then have "c = d" "starts_with (str_replace v ''***'' s) w'" using 2(3) w by (auto simp: starts_with_def)
      then show ?thesis using 2(2)[OF False] 2(4) w by (auto simp: starts_with_def)
    qed
  qed (simp add: starts_with_def)
qed (auto simp: starts_with_def)

lemma replaced_absent:
  "v \<noteq> [] \<Longrightarrow> CHR ''*'' \<notin> set v \<Longrightarrow> \<not> contains_str (str_replace v ''***'' s) v"
proof (induction v "''***''" s rule: str_replace.induct)
  case (2 v c s)
  have star: "\<not> starts_with (CHR ''*'' # t) v" for t using 2(3,4) by (cases v) (auto simp: starts_with_def)
  show ?case
  proof (cases "starts_with (c # s) v")
    case True
    then show ?thesis using 2 star by simp
  next
    case False
    obtain d w where w: "v = d # w" using 2(3) by (cases v) auto
    have "starts_with s w" if "starts_with (str_replace v ''***'' s) w" using replaced_start[OF that] 2(4) w by auto
    then have "\<not> starts_with (c # str_replace v ''***'' s) v" using False starts_with_Cons unfolding w by metis
    then show ?thesis using 2 False by simp
  qed
qed (auto simp: starts_with_def)



section \<open>Examples\<close>

definition ex_refs :: "adv_ref list" where
  "ex_refs =
    [\<lparr>av_oid = replicate 40 (CHR ''a''), av_name = ''HEAD'', av_target = Some ''refs/heads/main'', av_peeled = None\<rparr>,
     \<lparr>av_oid = replicate 40 (CHR ''a''), av_name = ''refs/heads/main'', av_target = None, av_peeled = None\<rparr>,
     \<lparr>av_oid = replicate 40 (CHR ''b''), av_name = ''refs/tags/v1'', av_target = None, av_peeled = Some (replicate 40 (CHR ''c''))\<rparr>]"

definition ex_github :: ProviderInstance where
  "ex_github = \<lparr>pi_id = ''github'', pi_kind = GitHub, pi_host = ''github.com'', pi_auth_template = None, pi_auth_header_name = None\<rparr>"

definition ex_upstream_repo :: RepoId where
  "ex_upstream_repo = \<lparr>rid_provider = ''github'', rid_path = ''acme/repo''\<rparr>"

lemma ex_refs_ok: "list_all adv_ok ex_refs" "distinct (map av_name ex_refs)"
proof -
  have rep: "replicate 40 c = [c,c,c,c,c,c,c,c,c,c,c,c,c,c,c,c,c,c,c,c,c,c,c,c,c,c,c,c,c,c,c,c,c,c,c,c,c,c,c,c]" for c :: char by (simp add: numeral_eq_Suc)
  have oid: "is_ok (validate_object_id (replicate 40 (CHR ''a'')))" "is_ok (validate_object_id (replicate 40 (CHR ''b'')))"
    "is_ok (validate_object_id (replicate 40 (CHR ''c'')))" by code_simp+
  have names: "word ''HEAD''" "word ''refs/heads/main''" "word ''refs/tags/v1''" by code_simp+
  have rev: "is_ok (validate_git_rev ''main'')" by code_simp
  have lens: "list_all (\<lambda>r. length (join_fields (ref_fields r)) < 65531) ex_refs"
    by (simp add: ex_refs_def ref_fields_def attribute_def)
  show "list_all adv_ok ex_refs" using oid names rev lens by (simp add: ex_refs_def adv_ok_def)
  show "distinct (map av_name ex_refs)" by (simp add: ex_refs_def)
qed

text \<open>A poll of a repository that has a symbolic branch fails: only a symbolic \<open>HEAD\<close> is accepted.\<close>

lemma symbolic_branch_fails_listing:
  "parse_ls_remote_output (lines_text [''ref: refs/heads/main'' @ [TAB] @ ''refs/heads/master'', replicate 40 (CHR ''a'') @ [TAB] @ ''refs/heads/master''])
     [''refs/heads/master''] = Inl BadSymref"
  by code_simp




end
