(* ===== verification/Refs.thy ===== *)
theory Refs
  imports Builder_Props Upstream Sweep Tags Control_Props
begin

text \<open>
  A repository's published refs (\<open>src/rust/src/branches.rs\<close>, \<open>src/rust/src/server/refs.rs\<close> and the listing of tags in
  \<open>src/rust/src/tags.rs\<close>): reading the mirror's refs, their hash, the branches artifact and its check, the side pack
  layers that complete what the default branch's history lacks, and the publish that points the control store at them.

  Parameters stand for the mirror (the refs it holds, ancestry, the packs git writes), for the codecs of the artifacts,
  and for what other tasks do between the two phases of a publish.  The local store and storage are those of builds.
\<close>

section \<open>The mirror's refs\<close>

definition refs_text :: "string option \<Rightarrow> (string \<times> string) list \<Rightarrow> (string \<times> string) list \<Rightarrow> string" where
  "refs_text default_branch branches tags =
     ''HEAD '' @ (case default_branch of None \<Rightarrow> [] | Some d \<Rightarrow> d) @ [NL]
     @ concat (map (\<lambda>(name, i). i @ '' refs/heads/'' @ name @ [NL]) branches)
     @ concat (map (\<lambda>(name, i). i @ '' refs/tags/'' @ name @ [NL]) tags)"

definition refs_hash :: "hashes \<Rightarrow> string option \<Rightarrow> (string \<times> string) list \<Rightarrow> (string \<times> string) list \<Rightarrow> string" where
  "refs_hash hs default_branch branches tags = hs_sha256 hs (refs_text default_branch branches tags)"

record MirrorRefs =
  mr_default_branch :: "string option"
  mr_branches :: "(string \<times> string) list"
  mr_tags :: "(string \<times> string) list"
  mr_tags_hash :: string

text \<open>What the mirror holds: the ref \<open>HEAD\<close> names, and each branch and tag with its object unless it is symbolic.\<close>

record mirror =
  mi_head :: "string option"
  mi_branches :: "(string \<times> string option) list"
  mi_tags :: "(string \<times> string option) list"

definition direct_refs :: "(string \<Rightarrow> unit vresult) \<Rightarrow> (string \<times> string option) list \<Rightarrow> (string \<times> string) list" where
  "direct_refs valid refs = List.map_filter (\<lambda>(name, target). case target of None \<Rightarrow> None | Some i \<Rightarrow> if is_ok (valid name) then Some (name, i) else None) refs"

definition tags_listing :: "hashes \<Rightarrow> mirror \<Rightarrow> (string \<times> string) list \<times> string" where
  "tags_listing hs m =
     (let tags = sort (direct_refs validate_tag_name (mi_tags m)) in
      (tags, hs_sha256 hs (concat (map (\<lambda>(name, i). i @ '' '' @ name @ [NL]) tags))))"

definition mirror_refs_read :: "hashes \<Rightarrow> mirror \<Rightarrow> MirrorRefs" where
  "mirror_refs_read hs m =
     (let (tags, tags_hash) = tags_listing hs m;
          head = Option.bind (mi_head m) (\<lambda>name. strip_prefix name ''refs/heads/'');
          branches = sort (direct_refs validate_checkout_name (mi_branches m)) in
      \<lparr>mr_default_branch = Option.bind head (\<lambda>h. if list_ex (\<lambda>(name, _). name = h) branches then Some h else None),
       mr_branches = branches, mr_tags = tags, mr_tags_hash = tags_hash\<rparr>)"

definition mirror_hash :: "hashes \<Rightarrow> MirrorRefs \<Rightarrow> string" where
  "mirror_hash hs refs = refs_hash hs (mr_default_branch refs) (mr_branches refs) (mr_tags refs)"

definition mirror_base :: "MirrorRefs \<Rightarrow> string option" where
  "mirror_base refs = Option.bind (mr_default_branch refs) (map_of (mr_branches refs))"

definition side_tips :: "MirrorRefs \<Rightarrow> string list" where
  "side_tips refs = btree_set (map snd (filter (\<lambda>(name, _). Some name \<noteq> mr_default_branch refs) (mr_branches refs) @ mr_tags refs))"

fun join_nl :: "string list \<Rightarrow> string" where
  "join_nl [] = []"
| "join_nl [x] = x"
| "join_nl (x # xs) = x @ NL # join_nl xs"

definition side_tips_hash :: "hashes \<Rightarrow> MirrorRefs \<Rightarrow> string" where
  "side_tips_hash hs refs = hs_sha256 hs (join_nl (side_tips refs))"

section \<open>The branches artifact\<close>

record Branch =
  bn_name :: string
  bn_commit :: string

record BranchesArtifact =
  ba_default_branch :: string
  ba_base :: string
  ba_branches :: "Branch list"

definition branches_artifact :: "MirrorRefs \<Rightarrow> BranchesArtifact" where
  "branches_artifact refs =
     \<lparr>ba_default_branch = (case mr_default_branch refs of None \<Rightarrow> [] | Some d \<Rightarrow> d),
      ba_base = (case mirror_base refs of None \<Rightarrow> [] | Some b \<Rightarrow> b),
      ba_branches = map (\<lambda>(name, commit). \<lparr>bn_name = name, bn_commit = commit\<rparr>) (mr_branches refs)\<rparr>"

record Branches =
  bs_default_branch :: "string option"
  bs_base :: "string option"
  bs_branches :: "(string \<times> string) list"

datatype branches_error = UndecodableBranches | InvalidBranch | InvalidBranchId string | BranchListedTwice | DefaultNotListed | BaseNotDefault

fun check_branch_list :: "Branch list \<Rightarrow> (branches_error, (string \<times> string) list) result" where
  "check_branch_list [] = Inr []"
| "check_branch_list (b # bs) =
     (if \<not> is_ok (validate_checkout_name (bn_name b)) then Inl InvalidBranch
      else if \<not> is_ok (parse_id (bn_commit b)) then Inl (InvalidBranchId (bn_name b))
      else rbind (check_branch_list bs) (\<lambda>rest. Inr ((bn_name b, bn_commit b) # rest)))"

definition non_empty :: "string \<Rightarrow> string option" where
  "non_empty s = (if s = [] then None else Some s)"

definition decode_branches :: "(string \<Rightarrow> BranchesArtifact option) \<Rightarrow> string \<Rightarrow> (branches_error, Branches) result" where
  "decode_branches decode bytes =
     rbind (ok_or UndecodableBranches (decode bytes)) (\<lambda>artifact.
     rbind (check_branch_list (ba_branches artifact)) (\<lambda>listed.
       let branches = sort listed;
           default_branch = non_empty (ba_default_branch artifact);
           base = non_empty (ba_base artifact);
           default_commit = Option.bind default_branch (map_of branches) in
       if list_ex (\<lambda>(a, b). fst a = fst b) (zip branches (tl branches)) then Inl BranchListedTwice
       else if default_branch \<noteq> None \<and> default_commit = None then Inl DefaultNotListed
       else if base \<noteq> default_commit then Inl BaseNotDefault
       else Inr \<lparr>bs_default_branch = default_branch, bs_base = base, bs_branches = branches\<rparr>))"

section \<open>Publishing\<close>

record refs_env =
  re_build :: build_env
  re_pack_objects :: "string list \<Rightarrow> string list \<Rightarrow> (string \<times> string) option"
  re_is_ancestor :: "string \<Rightarrow> string \<Rightarrow> bool option"
  re_encode_branches :: "BranchesArtifact \<Rightarrow> string option"
  re_build_tags :: "(string \<times> string) list \<Rightarrow> string option"
  re_size_of :: "string \<Rightarrow> nat option"
  re_side_file_fails :: bool

record refs_state =
  rs_build :: build_state
  rs_db :: db
  rs_side_file :: "string option"

datatype refs_error = RefsStoreError build_error | RefsControlError control_error | RefsGitError | RefsEncodeError

type_synonym 'a rresult = "(refs_error, 'a) result"

type_synonym 'a refs = "refs_state \<Rightarrow> 'a rresult \<times> refs_state"

definition refs_bind :: "'a refs \<Rightarrow> ('a \<Rightarrow> 'b refs) \<Rightarrow> 'b refs" where
  "refs_bind m f s = (case m s of (Inl e, s) \<Rightarrow> (Inl e, s) | (Inr x, s) \<Rightarrow> f x s)"

definition refs_return :: "'a \<Rightarrow> 'a refs" where
  "refs_return x s = (Inr x, s)"

definition refs_lift :: "('e \<Rightarrow> refs_error) \<Rightarrow> ('e, 'a) result \<Rightarrow> 'a refs" where
  "refs_lift g r s = (case r of Inl e \<Rightarrow> (Inl (g e), s) | Inr x \<Rightarrow> (Inr x, s))"

definition in_build :: "'a Builder.build \<Rightarrow> 'a refs" where
  "in_build m s = (case m (rs_build s) of (Inl e, b) \<Rightarrow> (Inl (RefsStoreError e), s\<lparr>rs_build := b\<rparr>) | (Inr x, b) \<Rightarrow> (Inr x, s\<lparr>rs_build := b\<rparr>))"

definition put_object :: "build_env \<Rightarrow> string \<Rightarrow> string Builder.build" where
  "put_object env data s =
     (case cas_put (be_hashes env) (be_world env) data (bt_cas s) of
        (Inl e, c) \<Rightarrow> (Inl (CasFailed e), s\<lparr>bt_cas := c\<rparr>)
      | (Inr h, c) \<Rightarrow> (Inr h, s\<lparr>bt_cas := c\<rparr>))"

definition put_bytes :: "refs_env \<Rightarrow> string \<Rightarrow> (string \<times> nat) refs" where
  "put_bytes env bytes =
     in_build (bbind (put_object (re_build env) bytes) (\<lambda>artifact.
       bbind (upload_one (re_build env) artifact) (\<lambda>_. breturn (artifact, length bytes))))"

definition put_file_object :: "build_env \<Rightarrow> string \<Rightarrow> (string \<times> nat) Builder.build" where
  "put_file_object env source s =
     (let artifact = hs_sha256 (be_hashes env) source in
      case put_file_with_hash (be_hashes env) (be_world env) artifact source (bt_cas s) of
        (Inl e, c) \<Rightarrow> (Inl (CasFailed e), s\<lparr>bt_cas := c\<rparr>)
      | (Inr len, c) \<Rightarrow> (Inr (artifact, len), s\<lparr>bt_cas := c\<rparr>))"

definition put_file :: "refs_env \<Rightarrow> string \<Rightarrow> (string \<times> nat) refs" where
  "put_file env source =
     in_build (bbind (put_file_object (re_build env) source) (\<lambda>(artifact, len).
       bbind (upload_one (re_build env) artifact) (\<lambda>_. breturn (artifact, len))))"

text \<open>\<open>MirrorRefs::side_pack\<close>: the pack git writes and its idx, unless nothing is left to pack.\<close>

definition side_pack_files :: "refs_env \<Rightarrow> MirrorRefs \<Rightarrow> string list \<Rightarrow> (string \<times> string) option rresult" where
  "side_pack_files env refs older =
     (case mirror_base refs of
        None \<Rightarrow> Inr None
      | Some base \<Rightarrow>
          (let tips = filter (\<lambda>i. i \<noteq> base \<and> i \<notin> set older) (side_tips refs); excluded = base # older in
           if tips = [] then Inr None
           else if \<not> list_all (\<lambda>i. is_ok (validate_object_id i)) (tips @ excluded) then Inl RefsGitError
           else (case re_pack_objects env tips excluded of
               None \<Rightarrow> Inl RefsGitError
             | Some (pack, idx) \<Rightarrow> if length pack \<le> 32 then Inr None else Inr (Some (pack, idx)))))"

definition build_side_pack :: "refs_env \<Rightarrow> MirrorRefs \<Rightarrow> string list \<Rightarrow> SidePack option refs" where
  "build_side_pack env refs older =
     refs_bind (refs_lift id (side_pack_files env refs older)) (\<lambda>files.
       case files of
         None \<Rightarrow> refs_return None
       | Some (pack, idx) \<Rightarrow>
           refs_bind (put_file env pack) (\<lambda>(pack, pack_len).
           refs_bind (put_file env idx) (\<lambda>(idx, idx_len).
             refs_return (Some \<lparr>side_pack = pack, side_pack_len = pack_len, side_idx = idx, side_idx_len = idx_len\<rparr>))))"

definition whole_side_pack :: "refs_env \<Rightarrow> MirrorRefs \<Rightarrow> SidePack list refs" where
  "whole_side_pack env refs =
     refs_bind (build_side_pack env refs []) (\<lambda>layer. refs_return (case layer of None \<Rightarrow> [] | Some l \<Rightarrow> [l]))"

definition SIDE_LAYERS :: nat where
  "SIDE_LAYERS = 8"

definition read_side_tips :: "refs_env \<Rightarrow> string \<Rightarrow> refs_state \<Rightarrow> string list option" where
  "read_side_tips env hash s =
     (case rs_side_file s of
        None \<Rightarrow> None
      | Some listed \<Rightarrow> if utf8_ok listed \<and> hs_sha256 (be_hashes (re_build env)) listed = hash then Some (str_lines listed) else None)"

definition write_side_tips :: "refs_env \<Rightarrow> string list \<Rightarrow> unit refs" where
  "write_side_tips env tips s = (Inr (), if re_side_file_fails env then s else s\<lparr>rs_side_file := Some (join_nl tips)\<rparr>)"

definition moved_forward :: "refs_env \<Rightarrow> string \<Rightarrow> string \<Rightarrow> bool rresult" where
  "moved_forward env old new = ok_or RefsGitError (re_is_ancestor env old new)"

text \<open>A layer on the kept ones; a layer that fails is replaced by the whole side pack.\<close>

definition add_side_layer :: "refs_env \<Rightarrow> MirrorRefs \<Rightarrow> RepoBranches \<Rightarrow> string list \<Rightarrow> SidePack list refs" where
  "add_side_layer env refs previous older s =
     (case build_side_pack env refs older s of
        (Inr layer, s) \<Rightarrow> (Inr (rb_side_packs previous @ (case layer of None \<Rightarrow> [] | Some l \<Rightarrow> [l])), s)
      | (Inl _, s) \<Rightarrow> whole_side_pack env refs s)"

definition side_packs_for :: "refs_env \<Rightarrow> MirrorRefs \<Rightarrow> RepoBranches option \<Rightarrow> (string option \<times> SidePack list) refs" where
  "side_packs_for env refs previous s =
     (let base = mirror_base refs;
          whole = refs_bind (whole_side_pack env refs) (\<lambda>layers. refs_return (base, layers)) in
      case previous of
        None \<Rightarrow> whole s
      | Some prev \<Rightarrow>
          if rb_side_tips prev = side_tips_hash (be_hashes (re_build env)) refs then (Inr (rb_side_base prev, rb_side_packs prev), s)
          else if length (rb_side_packs prev) < SIDE_LAYERS then
            (case read_side_tips env (rb_side_tips prev) s of
               Some older \<Rightarrow> refs_bind (add_side_layer env refs prev older) (\<lambda>layers. refs_return (base, layers)) s
             | None \<Rightarrow> whole s)
          else whole s)"

definition forward_from :: "refs_env \<Rightarrow> RepoBranches option \<Rightarrow> string option \<Rightarrow> bool rresult" where
  "forward_from env previous base =
     (case (previous, base) of
        (Some prev, Some b) \<Rightarrow> (case rb_side_base prev of Some side_base \<Rightarrow> moved_forward env side_base b | None \<Rightarrow> Inr False)
      | _ \<Rightarrow> Inr False)"

definition publish_branches :: "refs_env \<Rightarrow> MirrorRefs \<Rightarrow> RepoBranches option \<Rightarrow> PublishedTags \<Rightarrow> RepoBranches refs" where
  "publish_branches env refs previous tags =
     (let hs = be_hashes (re_build env) in
      refs_bind (refs_lift id (ok_or RefsEncodeError (re_encode_branches env (branches_artifact refs)))) (\<lambda>built.
      refs_bind (put_bytes env built) (\<lambda>(artifact, len).
      refs_bind (refs_lift id (forward_from env previous (mirror_base refs))) (\<lambda>forward.
      refs_bind (side_packs_for env refs (if forward then previous else None)) (\<lambda>(side_base, side_packs).
      refs_bind (write_side_tips env (side_tips refs)) (\<lambda>_.
        refs_return \<lparr>rb_artifact = artifact, rb_len = len, rb_refs_hash = mirror_hash hs refs, rb_default_branch = mr_default_branch refs,
          rb_base = mirror_base refs, rb_side_base = side_base, rb_side_tips = side_tips_hash hs refs, rb_side_packs = side_packs,
          rb_tags = tags\<rparr>))))))"

definition build_tags :: "refs_env \<Rightarrow> MirrorRefs \<Rightarrow> PublishedTags refs" where
  "build_tags env refs =
     refs_bind (refs_lift id (ok_or RefsEncodeError (re_build_tags env (mr_tags refs)))) (\<lambda>bytes.
     refs_bind (put_bytes env bytes) (\<lambda>(artifact, len).
       refs_return \<lparr>pt_artifact = artifact, pt_len = len, pt_count = length (mr_tags refs), pt_hash = mr_tags_hash refs\<rparr>))"

definition full_ready :: "RepoId \<Rightarrow> string option \<Rightarrow> db \<Rightarrow> bool cresult" where
  "full_ready repo commit d =
     (case commit of
        None \<Rightarrow> Inr False
      | Some c \<Rightarrow> rbind (status d repo c) (\<lambda>row. Inr (case row of None \<Rightarrow> False | Some r \<Rightarrow> out_ready (br_full r) \<noteq> None)))"

definition default_refs :: RepoRefs where
  "default_refs = \<lparr>rr_tags_artifact = [], rr_tags_len = 0, rr_tags_count = 0, rr_tags_hash = [], rr_branches = None, rr_ready = None\<rparr>"

definition read_refs_row :: "RepoId \<Rightarrow> RepoRefs option refs" where
  "read_refs_row repo s = refs_lift RefsControlError (get_refs (rs_db s) repo) s"

datatype Scope = ScopeTags | ScopeAll

text \<open>The first phase, before the lock: the branches and side pack of the refs the mirror holds, unless the row has them.\<close>

definition rebuild_branches :: "refs_env \<Rightarrow> MirrorRefs \<Rightarrow> RepoRefs \<Rightarrow> RepoBranches option refs" where
  "rebuild_branches env refs row =
     refs_bind (if rr_tags_hash row = mr_tags_hash refs
         then refs_return \<lparr>pt_artifact = rr_tags_artifact row, pt_len = rr_tags_len row, pt_count = rr_tags_count row, pt_hash = rr_tags_hash row\<rparr>
         else build_tags env refs) (\<lambda>tags.
       refs_bind (publish_branches env refs (rr_branches row) tags) (\<lambda>b. refs_return (Some b)))"

definition branches_of_row :: "refs_env \<Rightarrow> MirrorRefs \<Rightarrow> RepoRefs \<Rightarrow> RepoBranches option refs" where
  "branches_of_row env refs row =
     (case rr_branches row of
        Some previous \<Rightarrow> if rb_refs_hash previous = mirror_hash (be_hashes (re_build env)) refs then refs_return (Some previous) else rebuild_branches env refs row
      | None \<Rightarrow> rebuild_branches env refs row)"

definition prepare_branches :: "refs_env \<Rightarrow> RepoId \<Rightarrow> Scope \<Rightarrow> MirrorRefs \<Rightarrow> RepoBranches option refs" where
  "prepare_branches env repo scope refs =
     (case scope of
        ScopeTags \<Rightarrow> refs_return None
      | ScopeAll \<Rightarrow> refs_bind (read_refs_row repo) (\<lambda>row. branches_of_row env refs (case row of None \<Rightarrow> default_refs | Some r \<Rightarrow> r)))"

definition refresh_tags :: "refs_env \<Rightarrow> MirrorRefs \<Rightarrow> RepoBranches option \<Rightarrow> RepoRefs option \<Rightarrow> RepoRefs refs" where
  "refresh_tags env refs branches old_row =
     (let row = (case old_row of None \<Rightarrow> default_refs | Some r \<Rightarrow> r) in
      if old_row = None \<or> rr_tags_hash row \<noteq> mr_tags_hash refs then
        refs_bind (case branches of
            Some b \<Rightarrow> if pt_hash (rb_tags b) = mr_tags_hash refs then refs_return (rb_tags b) else build_tags env refs
          | None \<Rightarrow> build_tags env refs) (\<lambda>tags.
          refs_return (row\<lparr>rr_tags_artifact := pt_artifact tags, rr_tags_len := pt_len tags, rr_tags_count := pt_count tags,
                            rr_tags_hash := mr_tags_hash refs\<rparr>))
      else refs_return row)"

definition replace_branches :: "RepoId \<Rightarrow> RepoBranches option \<Rightarrow> RepoRefs \<Rightarrow> RepoRefs refs" where
  "replace_branches repo branches row s =
     (case branches of
        None \<Rightarrow> (Inr row, s)
      | Some b \<Rightarrow>
          if rr_branches row = Some b then (Inr row, s)
          else (case rr_branches row of
              None \<Rightarrow> (Inr (row\<lparr>rr_branches := Some b\<rparr>), s)
            | Some replaced \<Rightarrow>
                (case full_ready repo (rb_base replaced) (rs_db s) of
                   Inl e \<Rightarrow> (Inl (RefsControlError e), s)
                 | Inr ready \<Rightarrow> (Inr (row\<lparr>rr_branches := Some b, rr_ready := (if ready then Some replaced else rr_ready row)\<rparr>), s))))"

text \<open>Whether the row changed and was written, and the artifacts it names: none when the repository was purged.\<close>

definition write_refs_row :: "refs_env \<Rightarrow> RepoId \<Rightarrow> RepoRefs option \<Rightarrow> RepoRefs \<Rightarrow> bool refs" where
  "write_refs_row env repo old_row row s =
     (if old_row = Some row then (Inr True, s)
      else (let d = record_output_sizes (re_size_of env) (rs_db s) (refs_artifacts row) in
            case set_refs d repo row of
              (Inl e, d) \<Rightarrow> (Inl (RefsControlError e), s\<lparr>rs_db := d\<rparr>)
            | (Inr written, d) \<Rightarrow> (Inr written, s\<lparr>rs_db := d\<rparr>)))"

text \<open>The second phase, under the lock.  The flag is whether a first refresh is started.\<close>

definition point_at_refs :: "refs_env \<Rightarrow> RepoId \<Rightarrow> MirrorRefs \<Rightarrow> RepoBranches option \<Rightarrow> (string list \<times> bool) refs" where
  "point_at_refs env repo refs branches =
     refs_bind (read_refs_row repo) (\<lambda>old_row.
     refs_bind (refresh_tags env refs branches old_row) (\<lambda>row.
     refs_bind (replace_branches repo branches row) (\<lambda>row.
     refs_bind (write_refs_row env repo old_row row) (\<lambda>written.
       if written then refs_return (refs_artifacts row, rr_branches row = None) else refs_return ([], False)))))"

definition publish_pinned :: "refs_env \<Rightarrow> RepoId \<Rightarrow> Scope \<Rightarrow> MirrorRefs \<Rightarrow> (refs_state \<Rightarrow> refs_state) \<Rightarrow> MirrorRefs \<Rightarrow> (string list \<times> bool) refs" where
  "publish_pinned env repo scope before between under_lock =
     refs_bind (prepare_branches env repo scope before) (\<lambda>branches s. point_at_refs env repo under_lock branches (between s))"

text \<open>\<open>publish\<close>: a fresh pin set, and what it holds that the refs do not name is queued for deletion.\<close>

definition publish_refs :: "refs_env \<Rightarrow> RepoId \<Rightarrow> Scope \<Rightarrow> MirrorRefs \<Rightarrow> (refs_state \<Rightarrow> refs_state) \<Rightarrow> MirrorRefs \<Rightarrow> int \<Rightarrow> bool refs" where
  "publish_refs env repo scope before between under_lock now s =
     (let fresh = s\<lparr>rs_build := (rs_build s)\<lparr>bt_cas := (bt_cas (rs_build s))\<lparr>cs_pins := {}\<rparr>\<rparr>\<rparr>;
          (r, s') = publish_pinned env repo scope before between under_lock fresh;
          held = sorted_list_of_set (cs_pins (bt_cas (rs_build s')));
          keep = (case r of Inl _ \<Rightarrow> [] | Inr (artifacts, _) \<Rightarrow> artifacts) in
      (case r of Inl e \<Rightarrow> Inl e | Inr (_, wanted) \<Rightarrow> Inr wanted, s'\<lparr>rs_db := queue_unnamed (rs_db s') now held keep\<rparr>))"

section \<open>What the poller compares\<close>

definition refs_changed :: "hashes \<Rightarrow> db \<Rightarrow> RepoId \<Rightarrow> UpstreamRefs \<Rightarrow> bool cresult" where
  "refs_changed hs d repo upstream =
     rbind (get_refs d repo) (\<lambda>old_row.
       case Option.bind old_row rr_branches of
         None \<Rightarrow> Inr True
       | Some branches \<Rightarrow>
           (let kept = Option.bind (rb_default_branch branches) (\<lambda>k. if list_ex (\<lambda>(name, _). name = k) (ur_branches upstream) then Some k else None);
                default_branch = (case ur_default_branch upstream of Some d \<Rightarrow> Some d | None \<Rightarrow> kept) in
            Inr (rb_refs_hash branches \<noteq> refs_hash hs default_branch (ur_branches upstream) (ur_tags upstream))))"

end
