(* ===== verification/Refs_Props.thy ===== *)
theory Refs_Props
  imports Refs Upstream_Props
begin

text \<open>
  What a refresh publishes: the side pack layers together with the default branch's history hold everything the refs
  reach, through any sequence of refreshes; the branches artifact reads back; and the poller's comparison notices every
  change of upstream's refs and only those.
\<close>

section \<open>Sequences of steps\<close>

lemma refs_bind_Inr: "refs_bind m f s = (Inr y, s') \<longleftrightarrow> (\<exists>x s1. m s = (Inr x, s1) \<and> f x s1 = (Inr y, s'))"
  by (auto simp: refs_bind_def split: prod.splits sum.splits)

lemma refs_return_Inr [simp]: "refs_return x s = (Inr y, s') \<longleftrightarrow> y = x \<and> s' = s"
  by (auto simp: refs_return_def)

lemma refs_lift_Inr [simp]: "refs_lift g r s = (Inr y, s') \<longleftrightarrow> r = Inr y \<and> s' = s"
  by (auto simp: refs_lift_def split: sum.splits)

lemma in_build_Inr: "in_build m s = (Inr x, s') \<longleftrightarrow> (\<exists>b. m (rs_build s) = (Inr x, b) \<and> s' = s\<lparr>rs_build := b\<rparr>)"
  by (auto simp: in_build_def split: prod.splits sum.splits)

lemmas refs_steps = refs_bind_Inr in_build_Inr bbind_Inr

lemma put_file_names: "put_file env source s = (Inr (h, len), s') \<Longrightarrow> h = hs_sha256 (be_hashes (re_build env)) source"
  by (auto simp: put_file_def refs_steps put_file_object_def Let_def split: prod.splits sum.splits)

section \<open>Side packs complete the refs\<close>

text \<open>The objects reached from one, along the references between objects.\<close>

definition reached :: "(string \<Rightarrow> string set) \<Rightarrow> string \<Rightarrow> string set" where
  "reached links x = {y. (x, y) \<in> {(a, b). b \<in> links a}\<^sup>*}"

lemma reached_refl [simp]: "x \<in> reached links x"
  by (simp add: reached_def)

lemma reached_mono: "x \<in> reached links y \<Longrightarrow> reached links x \<subseteq> reached links y"
  by (auto simp: reached_def)

text \<open>What git documents: the objects of a pack it writes, an empty pack's size, and ancestry.\<close>

definition git_laws :: "refs_env \<Rightarrow> (string \<Rightarrow> string set) \<Rightarrow> (string \<Rightarrow> string set) \<Rightarrow> bool" where
  "git_laws env links contents \<longleftrightarrow>
     (\<forall>tips excluded pack idx. re_pack_objects env tips excluded = Some (pack, idx) \<longrightarrow>
        contents (hs_sha256 (be_hashes (re_build env)) pack) = \<Union> (reached links ` set tips) - \<Union> (reached links ` set excluded)
        \<and> (length pack \<le> 32 \<longrightarrow> contents (hs_sha256 (be_hashes (re_build env)) pack) = {}))
     \<and> (\<forall>a b. re_is_ancestor env a b = Some True \<longrightarrow> a \<in> reached links b)"

definition layer_objects :: "(string \<Rightarrow> string set) \<Rightarrow> SidePack list \<Rightarrow> string set" where
  "layer_objects contents layers = \<Union> (contents ` side_pack ` set layers)"

lemma build_side_pack_covers:
  assumes "git_laws env links contents" "build_side_pack env refs older s = (Inr layer, s')" "mirror_base refs = Some base"
  shows "\<Union> (reached links ` set (side_tips refs))
    \<subseteq> reached links base \<union> \<Union> (reached links ` set older) \<union> layer_objects contents (case layer of None \<Rightarrow> [] | Some l \<Rightarrow> [l])"
proof -
  define tips where "tips = filter (\<lambda>i. i \<noteq> base \<and> i \<notin> set older) (side_tips refs)"
  let ?sha = "hs_sha256 (be_hashes (re_build env))"
  let ?rest = "\<Union> (reached links ` set tips) - \<Union> (reached links ` set (base # older))"
  have all: "\<Union> (reached links ` set (side_tips refs)) \<subseteq> reached links base \<union> \<Union> (reached links ` set older) \<union> ?rest"
    by (auto simp: tips_def)
  obtain files where files: "side_pack_files env refs older = Inr files"
    and built: "(case files of None \<Rightarrow> refs_return None | Some (pack, idx) \<Rightarrow>
        refs_bind (put_file env pack) (\<lambda>(pack, pack_len). refs_bind (put_file env idx) (\<lambda>(idx, idx_len).
          refs_return (Some \<lparr>side_pack = pack, side_pack_len = pack_len, side_idx = idx, side_idx_len = idx_len\<rparr>)))) s = (Inr layer, s')"
    using assms(2) by (auto simp: build_side_pack_def refs_bind_Inr)
  have pack: "contents (?sha pack) = ?rest" "length pack \<le> 32 \<Longrightarrow> ?rest = {}" if "re_pack_objects env tips (base # older) = Some (pack, idx)" for pack idx
    using assms(1) that unfolding git_laws_def by blast+
  show ?thesis
  proof (cases files)
    case None
    then have "tips = [] \<or> (\<exists>pack idx. re_pack_objects env tips (base # older) = Some (pack, idx) \<and> length pack \<le> 32)"
      using files assms(3) by (auto simp: side_pack_files_def Let_def tips_def[symmetric] split: if_splits option.splits)
    then have rest: "?rest = {}" using pack(2) by fastforce
    have "layer = None" using None built by simp
    then show ?thesis using all unfolding rest layer_objects_def by simp
  next
    case (Some f)
    then obtain pack idx where f: "files = Some (pack, idx)" by (cases f) auto
    then have "re_pack_objects env tips (base # older) = Some (pack, idx)"
      using files assms(3) by (auto simp: side_pack_files_def Let_def tips_def[symmetric] split: if_splits option.splits)
    moreover obtain l where l: "layer = Some l" "side_pack l = ?sha pack" using built f by (auto simp: refs_bind_Inr dest: put_file_names)
    ultimately have "layer_objects contents [l] = ?rest" using pack(1) by (simp add: layer_objects_def)
    then show ?thesis using all l(1) by simp
  qed
qed

text \<open>The layers of published branches complete the tips whose hash they name.\<close>

definition completes :: "(string \<Rightarrow> string) \<Rightarrow> (string \<Rightarrow> string set) \<Rightarrow> (string \<Rightarrow> string set) \<Rightarrow> string list \<Rightarrow> RepoBranches \<Rightarrow> bool" where
  "completes sha links contents tips b \<longleftrightarrow> rb_side_tips b = sha (join_nl tips)
     \<and> (case rb_base b of
          None \<Rightarrow> rb_side_base b = None
        | Some base \<Rightarrow> (\<exists>sb. rb_side_base b = Some sb \<and> sb \<in> reached links base
            \<and> \<Union> (reached links ` set tips) \<subseteq> reached links sb \<union> layer_objects contents (rb_side_packs b)))"

definition plain_ids :: "string list \<Rightarrow> bool" where
  "plain_ids = list_all (\<lambda>i. i \<noteq> [] \<and> NL \<notin> set i \<and> CHR 0x0D \<notin> set i)"

lemma str_lines_join:
  assumes "plain_ids ids"
  shows "str_lines (join_nl ids) = ids"
proof (cases "ids = []")
  case False
  have one: "NL \<notin> set x \<Longrightarrow> split_on NL x = [x]" "NL \<notin> set x \<Longrightarrow> split_on NL (x @ NL # s) = x # split_on NL s" for x s by (induction x) auto
  have "split_on NL (join_nl ids) = ids"
    using False assms unfolding plain_ids_def by (induction ids rule: join_nl.induct) (simp_all add: one)
  moreover have "last ids \<noteq> []" using False assms by (simp add: plain_ids_def list_all_iff)
  moreover have "map strip_cr ids = ids" using assms by (intro map_idI) (metis last_in_set list_all_iff plain_ids_def strip_cr_def)
  ultimately show ?thesis by (simp add: str_lines_def)
qed (simp add: str_lines_def)

lemma join_nl_inj: "plain_ids a \<Longrightarrow> plain_ids b \<Longrightarrow> join_nl a = join_nl b \<Longrightarrow> a = b"
  by (metis str_lines_join)

lemma whole_side_pack_covers:
  assumes "git_laws env links contents" "whole_side_pack env refs s = (Inr layers, s')" "mirror_base refs = Some base"
  shows "\<Union> (reached links ` set (side_tips refs)) \<subseteq> reached links base \<union> layer_objects contents layers"
  using assms(2) build_side_pack_covers[OF assms(1) _ assms(3), of "[]" s] by (force simp: whole_side_pack_def refs_bind_Inr)

lemma add_layer_covers:
  assumes "git_laws env links contents" "add_side_layer env refs prev older s = (Inr layers, s')" "mirror_base refs = Some base"
    and "\<Union> (reached links ` set older) \<subseteq> reached links base \<union> layer_objects contents (rb_side_packs prev)"
  shows "\<Union> (reached links ` set (side_tips refs)) \<subseteq> reached links base \<union> layer_objects contents layers"
proof (cases "fst (build_side_pack env refs older s)")
  case (Inl e)
  then show ?thesis using assms(2) whole_side_pack_covers[OF assms(1) _ assms(3)]
    by (cases "build_side_pack env refs older s") (auto simp: add_side_layer_def)
next
  case (Inr layer)
  then obtain s1 where "build_side_pack env refs older s = (Inr layer, s1)" by (metis prod.collapse)
  then show ?thesis using build_side_pack_covers[OF assms(1) _ assms(3)] assms(2,4)
    by (fastforce simp: add_side_layer_def layer_objects_def)
qed


text \<open>One refresh keeps the layers complete.  The texts whose hashes are compared do not collide.\<close>

lemma side_packs_for_complete:
  assumes laws: "git_laws env links contents" and base: "mirror_base refs = Some base"
    and run: "side_packs_for env refs previous s = (Inr (sb, layers), s')"
    and texts: "inj_on (hs_sha256 (be_hashes (re_build env))) T" "join_nl (side_tips refs) \<in> T" "plain_ids (side_tips refs)"
      "\<And>listed. previous \<noteq> None \<Longrightarrow> rs_side_file s = Some listed \<Longrightarrow> listed \<in> T"
    and prev: "\<And>p. previous = Some p \<Longrightarrow> \<exists>tips osb. plain_ids tips \<and> join_nl tips \<in> T \<and> rb_side_tips p = hs_sha256 (be_hashes (re_build env)) (join_nl tips)
      \<and> rb_side_base p = Some osb \<and> osb \<in> reached links base
      \<and> \<Union> (reached links ` set tips) \<subseteq> reached links osb \<union> layer_objects contents (rb_side_packs p)"
  shows "\<exists>osb. sb = Some osb \<and> osb \<in> reached links base
    \<and> \<Union> (reached links ` set (side_tips refs)) \<subseteq> reached links osb \<union> layer_objects contents layers"
proof -
  let ?sha = "hs_sha256 (be_hashes (re_build env))"
  have whole: ?thesis if "refs_bind (whole_side_pack env refs) (\<lambda>layers. refs_return (Some base, layers)) s = (Inr (sb, layers), s')"
  proof -
    have "whole_side_pack env refs s = (Inr layers, s')" "sb = Some base" using that by (auto simp: refs_bind_Inr)
    then show ?thesis using whole_side_pack_covers[OF laws _ base] by simp
  qed
  show ?thesis
  proof (cases previous)
    case None
    then show ?thesis using run base whole by (simp add: side_packs_for_def)
  next
    case (Some p)
    obtain tips osb where p: "plain_ids tips" "join_nl tips \<in> T" "rb_side_tips p = ?sha (join_nl tips)" "rb_side_base p = Some osb"
        "osb \<in> reached links base" "\<Union> (reached links ` set tips) \<subseteq> reached links osb \<union> layer_objects contents (rb_side_packs p)"
      using prev[OF Some] by blast
    note past = subset_trans[OF p(6) Un_mono[OF reached_mono[OF p(5)] subset_refl]]
    consider "rb_side_tips p = side_tips_hash (be_hashes (re_build env)) refs" "sb = rb_side_base p" "layers = rb_side_packs p"
      | older where "read_side_tips env (rb_side_tips p) s = Some older" "refs_bind (add_side_layer env refs p older) (\<lambda>layers. refs_return (Some base, layers)) s = (Inr (sb, layers), s')"
      | "refs_bind (whole_side_pack env refs) (\<lambda>layers. refs_return (Some base, layers)) s = (Inr (sb, layers), s')"
      using run Some base by (auto simp: side_packs_for_def Let_def split: if_splits option.splits)
    then show ?thesis
    proof cases
      case 1
      have "?sha (join_nl (side_tips refs)) = ?sha (join_nl tips)" using 1(1) p(3) unfolding side_tips_hash_def by (rule trans[OF sym])
      then have "join_nl (side_tips refs) = join_nl tips" by (rule inj_onD[OF texts(1) _ texts(2) p(2)])
      then have "side_tips refs = tips" by (rule join_nl_inj[OF texts(3) p(1)])
      then show ?thesis using 1 p by simp
    next
      case 2
      then obtain listed where l: "rs_side_file s = Some listed" "?sha listed = ?sha (join_nl tips)" "older = str_lines listed"
        using p(3) by (auto simp: read_side_tips_def split: option.splits if_splits)
      have "previous \<noteq> None" using Some by simp
      from inj_onD[OF texts(1) l(2) texts(4)[OF this l(1)] p(2)] have older: "older = tips" using l(3) str_lines_join[OF p(1)] by simp
      obtain s1 where "add_side_layer env refs p older s = (Inr layers, s1)" "sb = Some base" using 2(2) by (auto simp: refs_bind_Inr)
      then show ?thesis using add_layer_covers[OF laws _ base past[folded older]] by simp
    next
      case 3
      then show ?thesis by (rule whole)
    qed
  qed
qed

text \<open>The mirror names each branch once, and its refs hold object ids.\<close>

definition mirror_ok :: "mirror \<Rightarrow> bool" where
  "mirror_ok m \<longleftrightarrow> distinct (map fst (mi_branches m))
     \<and> list_all (\<lambda>(_, target). pred_option (\<lambda>i. is_ok (validate_object_id i)) target) (mi_branches m @ mi_tags m)"

lemma direct_refs_in: "(name, i) \<in> set (direct_refs valid refs) \<longleftrightarrow> (name, Some i) \<in> set refs \<and> is_ok (valid name)"
  by (force simp: direct_refs_def map_filter_def split: option.splits if_splits)

lemma direct_refs_distinct: "distinct (map fst refs) \<Longrightarrow> distinct (map fst (direct_refs valid refs))"
proof (induction refs)
  case (Cons r refs)
  have "fst ` set (direct_refs valid refs) \<subseteq> fst ` set refs" using direct_refs_in by force
  then show ?case using Cons by (cases r) (auto simp: direct_refs_def map_filter_simps split: option.splits)
qed (simp add: direct_refs_def map_filter_simps)

lemma mirror_refs_sets:
  "set (mr_branches (mirror_refs_read hs m)) = set (direct_refs validate_checkout_name (mi_branches m))"
  "set (mr_tags (mirror_refs_read hs m)) = set (direct_refs validate_tag_name (mi_tags m))"
  by (simp_all add: mirror_refs_read_def tags_listing_def Let_def)

lemma mirror_ids:
  assumes "mirror_ok m" "(name, i) \<in> set (mr_branches (mirror_refs_read hs m)) \<union> set (mr_tags (mirror_refs_read hs m))"
  shows "is_ok (validate_object_id i)"
proof -
  have "(name, Some i) \<in> set (mi_branches m @ mi_tags m)" using assms(2) by (auto simp: mirror_refs_sets direct_refs_in)
  then show ?thesis using assms(1) by (force simp: mirror_ok_def list_all_iff)
qed

lemma side_tips_in: "i \<in> set (side_tips refs) \<longleftrightarrow>
    (\<exists>name. (name, i) \<in> set (mr_branches refs) \<and> Some name \<noteq> mr_default_branch refs \<or> (name, i) \<in> set (mr_tags refs))"
  by (force simp: side_tips_def btree_set_def)

lemma mirror_side_tips_plain:
  assumes "mirror_ok m"
  shows "plain_ids (side_tips (mirror_refs_read hs m))"
proof -
  have "i \<noteq> [] \<and> NL \<notin> set i \<and> CHR 0x0D \<notin> set i" if "i \<in> set (side_tips (mirror_refs_read hs m))" for i
  proof -
    have "word i" using that mirror_ids[OF assms] object_id_word by (auto simp: side_tips_in)
    then show ?thesis using word_chars[of i] by (simp add: word_def)
  qed
  then show ?thesis by (simp add: plain_ids_def list_all_iff)
qed

lemma mirror_ref_covered:
  assumes "mirror_ok m" "mirror_base (mirror_refs_read hs m) = Some base"
    and "(name, i) \<in> set (mr_branches (mirror_refs_read hs m)) \<union> set (mr_tags (mirror_refs_read hs m))"
  shows "i = base \<or> i \<in> set (side_tips (mirror_refs_read hs m))"
proof (cases "(name, i) \<in> set (mr_branches (mirror_refs_read hs m)) \<and> mr_default_branch (mirror_refs_read hs m) = Some name")
  case True
  have "distinct (map fst (mr_branches (mirror_refs_read hs m)))"
    using assms(1) direct_refs_distinct[of "mi_branches m" validate_checkout_name]
    by (auto simp: mirror_ok_def mirror_refs_read_def tags_listing_def Let_def distinct_map intro: inj_on_subset)
  then have "map_of (mr_branches (mirror_refs_read hs m)) name = Some i" using True by simp
  then show ?thesis using assms(2) True by (simp add: mirror_base_def)
next
  case False
  then show ?thesis using assms(3) by (auto simp: side_tips_in)
qed

text \<open>The branches a sequence of refreshes publishes, each for the refs its mirror held.\<close>

inductive refreshed :: "refs_env \<Rightarrow> string set \<Rightarrow> mirror \<Rightarrow> RepoBranches \<Rightarrow> bool" for env T where
  first_refresh: "publish_branches env (mirror_refs_read (be_hashes (re_build env)) m) None tags s = (Inr b, s') \<Longrightarrow> mirror_ok m
    \<Longrightarrow> join_nl (side_tips (mirror_refs_read (be_hashes (re_build env)) m)) \<in> T \<Longrightarrow> refreshed env T m b"
| next_refresh: "refreshed env T m0 b0 \<Longrightarrow> publish_branches env (mirror_refs_read (be_hashes (re_build env)) m) (Some b0) tags s = (Inr b, s')
    \<Longrightarrow> mirror_ok m \<Longrightarrow> join_nl (side_tips (mirror_refs_read (be_hashes (re_build env)) m)) \<in> T \<Longrightarrow> pred_option (\<lambda>listed. listed \<in> T) (rs_side_file s)
    \<Longrightarrow> refreshed env T m b"

lemma publish_branches_steps:
  assumes "publish_branches env refs previous tags s = (Inr b, s')"
  obtains forward s1 s2 sb layers where "forward_from env previous (mirror_base refs) = Inr forward" "rs_side_file s1 = rs_side_file s"
    "side_packs_for env refs (if forward then previous else None) s1 = (Inr (sb, layers), s2)"
    "rb_base b = mirror_base refs" "rb_side_base b = sb" "rb_side_packs b = layers" "rb_refs_hash b = mirror_hash (be_hashes (re_build env)) refs"
    "rb_side_tips b = side_tips_hash (be_hashes (re_build env)) refs" "rb_default_branch b = mr_default_branch refs"
proof -
  obtain built artifact len b1 forward sb layers s2 where
      "forward_from env previous (mirror_base refs) = Inr forward"
      "side_packs_for env refs (if forward then previous else None) (s\<lparr>rs_build := b1\<rparr>) = (Inr (sb, layers), s2)"
      "b = \<lparr>rb_artifact = artifact, rb_len = len, rb_refs_hash = mirror_hash (be_hashes (re_build env)) refs, rb_default_branch = mr_default_branch refs,
          rb_base = mirror_base refs, rb_side_base = sb, rb_side_tips = side_tips_hash (be_hashes (re_build env)) refs, rb_side_packs = layers,
          rb_tags = tags\<rparr>"
    using assms by (auto simp: publish_branches_def refs_bind_Inr Let_def put_bytes_def in_build_Inr)
  then show thesis using that[of forward "s\<lparr>rs_build := b1\<rparr>" sb layers s2] by simp
qed

lemma side_packs_for_no_base:
  assumes "mirror_base refs = None" "side_packs_for env refs None s = (Inr (sb, layers), s')"
  shows "sb = None"
  using assms by (auto simp: side_packs_for_def refs_bind_Inr)

lemma publish_completes:
  fixes env m
  defines "sha \<equiv> hs_sha256 (be_hashes (re_build env))" and "refs \<equiv> mirror_refs_read (be_hashes (re_build env)) m"
  assumes laws: "git_laws env links contents" and run: "publish_branches env refs previous tags s = (Inr b, s')"
    and texts: "mirror_ok m" "inj_on sha T" "join_nl (side_tips refs) \<in> T" "\<And>listed. previous \<noteq> None \<Longrightarrow> rs_side_file s = Some listed \<Longrightarrow> listed \<in> T"
    and prev: "\<And>p. previous = Some p \<Longrightarrow> \<exists>tips. plain_ids tips \<and> join_nl tips \<in> T \<and> completes sha links contents tips p"
  shows "completes sha links contents (side_tips refs) b"
proof -
  obtain forward s1 s2 where f: "forward_from env previous (mirror_base refs) = Inr forward" and same_file: "rs_side_file s1 = rs_side_file s"
    and packs: "side_packs_for env refs (if forward then previous else None) s1 = (Inr (rb_side_base b, rb_side_packs b), s2)"
    and b: "rb_base b = mirror_base refs" "rb_side_tips b = sha (join_nl (side_tips refs))"
    using publish_branches_steps[OF run] unfolding sha_def side_tips_hash_def by metis
  show ?thesis
  proof (cases "mirror_base refs")
    case None
    then have "\<not> forward" using f by (auto simp: forward_from_def split: option.splits)
    then show ?thesis using side_packs_for_no_base[OF None] packs b None by (simp add: completes_def)
  next
    case (Some base)
    have old: "\<exists>tips osb. plain_ids tips \<and> join_nl tips \<in> T \<and> rb_side_tips p = sha (join_nl tips) \<and> rb_side_base p = Some osb
        \<and> osb \<in> reached links base \<and> \<Union> (reached links ` set tips) \<subseteq> reached links osb \<union> layer_objects contents (rb_side_packs p)"
      if p: "(if forward then previous else None) = Some p" for p
    proof -
      have prevp: "previous = Some p" "forward" using p by (auto split: if_splits)
      then obtain osb where "rb_side_base p = Some osb" "re_is_ancestor env osb base = Some True"
        using f Some by (auto simp: forward_from_def moved_forward_def ok_or_def split: option.splits)
      moreover obtain tips where "plain_ids tips" "join_nl tips \<in> T" "completes sha links contents tips p" using prev[OF prevp(1)] by blast
      ultimately show ?thesis using laws by (auto simp: completes_def git_laws_def split: option.splits)
    qed
    have "\<exists>osb. rb_side_base b = Some osb \<and> osb \<in> reached links base
        \<and> \<Union> (reached links ` set (side_tips refs)) \<subseteq> reached links osb \<union> layer_objects contents (rb_side_packs b)"
    proof (rule side_packs_for_complete[OF laws Some packs])
      show "plain_ids (side_tips refs)" unfolding refs_def by (rule mirror_side_tips_plain[OF texts(1)])
      show "listed \<in> T" if "(if forward then previous else None) \<noteq> None" "rs_side_file s1 = Some listed" for listed
        using texts(4)[of listed] that same_file by (auto split: if_splits)
    qed (use texts(2,3) old in \<open>simp_all only: sha_def\<close>)
    then show ?thesis using b Some by (simp add: completes_def)
  qed
qed

lemma refreshed_completes:
  assumes "refreshed env T m b" "git_laws env links contents" "inj_on (hs_sha256 (be_hashes (re_build env))) T"
  shows "completes (hs_sha256 (be_hashes (re_build env))) links contents (side_tips (mirror_refs_read (be_hashes (re_build env)) m)) b
    \<and> mirror_ok m \<and> join_nl (side_tips (mirror_refs_read (be_hashes (re_build env)) m)) \<in> T"
  using assms(1)
proof (induction rule: refreshed.induct)
  case (first_refresh m tags s b s')
  then show ?case using publish_completes[OF assms(2) first_refresh(1,2) assms(3) first_refresh(3)] by simp
next
  case (next_refresh m0 b0 m tags s b s')
  then show ?case
    using publish_completes[OF assms(2) next_refresh(2,3) assms(3) next_refresh(4)] mirror_side_tips_plain[of m0]
    by (fastforce simp: pred_option_def)
qed

lemma refreshed_refs_covered:
  assumes "refreshed env T m b" "git_laws env links contents" "inj_on (hs_sha256 (be_hashes (re_build env))) T"
    and "rb_base b = Some base"
    and "(name, i) \<in> set (mr_branches (mirror_refs_read (be_hashes (re_build env)) m)) \<union> set (mr_tags (mirror_refs_read (be_hashes (re_build env)) m))"
  shows "reached links i \<subseteq> reached links base \<union> layer_objects contents (rb_side_packs b)"
proof -
  let ?refs = "mirror_refs_read (be_hashes (re_build env)) m"
  have kept: "completes (hs_sha256 (be_hashes (re_build env))) links contents (side_tips ?refs) b" "mirror_ok m"
    using refreshed_completes[OF assms(1-3)] by simp_all
  then obtain sb where "sb \<in> reached links base" "\<Union> (reached links ` set (side_tips ?refs)) \<subseteq> reached links sb \<union> layer_objects contents (rb_side_packs b)"
    using assms(4) by (auto simp: completes_def)
  then have tips: "\<Union> (reached links ` set (side_tips ?refs)) \<subseteq> reached links base \<union> layer_objects contents (rb_side_packs b)"
    using reached_mono by blast
  have "mirror_base ?refs = Some base" using assms(1,4) by (cases rule: refreshed.cases) (metis publish_branches_steps)+
  from mirror_ref_covered[OF kept(2) this assms(5)] show ?thesis using tips by blast
qed

text \<open>
  C24.  Through any sequence of refreshes (forward moves, force pushes, added layers, failed layers, lost tip files), the
  published side pack layers together with the default branch's history hold every object that any branch or tag of the
  refreshed refs reaches, so a full clone can check out every ref.
\<close>

theorem side_packs_complete:
  assumes "refreshed env T m b" "git_laws env links contents" "inj_on (hs_sha256 (be_hashes (re_build env))) T"
    and "rb_base b = Some base"
    and "(name, i) \<in> set (mr_branches (mirror_refs_read (be_hashes (re_build env)) m)) \<union> set (mr_tags (mirror_refs_read (be_hashes (re_build env)) m))"
  shows "reached links i \<subseteq> reached links base \<union> layer_objects contents (rb_side_packs b)"
  by (rule refreshed_refs_covered[OF assms])


section \<open>The poller's comparison\<close>

definition listed_ok :: "(string \<times> string) list \<Rightarrow> bool" where
  "listed_ok = list_all (\<lambda>(name, i). is_ok (validate_object_id i) \<and> is_ok (validate_ref_name name))"

definition ref_line :: "string \<Rightarrow> string \<times> string \<Rightarrow> string" where
  "ref_line pre ref = (case ref of (name, i) \<Rightarrow> i @ CHR '' '' # pre @ name)"

lemma ref_name_plain: "is_ok (validate_ref_name n) \<Longrightarrow> NL \<notin> set n \<and> CHR 0x0D \<notin> set n \<and> n \<noteq> []"
proof -
  assume ok: "is_ok (validate_ref_name n)"
  have "has_control n" if "c \<in> set n" "byte c < 32" for c using that by (induction n) auto
  moreover have "byte (CHR 0x0D) < 32" by (simp add: byte_def)
  moreover have "n \<noteq> [] \<and> \<not> has_control n" using ok by (auto simp: validate_ref_name_def split: if_splits)
  ultimately show ?thesis using byte_NL_TAB(1) by force
qed

lemma refs_text_lines:
  "refs_text d branches tags = lines_text ((''HEAD '' @ (case d of None \<Rightarrow> [] | Some b \<Rightarrow> b)) # map (ref_line ''refs/heads/'') branches @ map (ref_line ''refs/tags/'') tags)"
proof -
  have "concat (map (\<lambda>(name, i). i @ '' refs/heads/'' @ name @ [NL]) branches) = lines_text (map (ref_line ''refs/heads/'') branches)"
    "concat (map (\<lambda>(name, i). i @ '' refs/tags/'' @ name @ [NL]) tags) = lines_text (map (ref_line ''refs/tags/'') tags)"
    by (simp_all add: lines_text_def ref_line_def comp_def split_def)
  then show ?thesis by (simp add: refs_text_def lines_text_def)
qed

lemma ref_line_inj:
  assumes "ref_line p (n, i) = ref_line q (m, j)" "is_ok (validate_object_id i)" "is_ok (validate_object_id j)"
  shows "i = j \<and> p @ n = q @ m"
proof -
  have "CHR '' '' \<notin> set i" "CHR '' '' \<notin> set j" using assms(2,3) object_id_word word_chars(1) by blast+
  then have "split_once (CHR '' '') (ref_line p (n, i)) = Some (i, p @ n)" "split_once (CHR '' '') (ref_line q (m, j)) = Some (j, q @ m)"
    by (simp_all only: ref_line_def prod.case split_once_append not_False_eq_True)
  then show ?thesis unfolding assms(1) by simp
qed

lemma ref_lines_inj:
  assumes "map (ref_line ''refs/heads/'') b @ map (ref_line ''refs/tags/'') t = map (ref_line ''refs/heads/'') b' @ map (ref_line ''refs/tags/'') t'"
    and "listed_ok b" "listed_ok t" "listed_ok b'" "listed_ok t'"
  shows "b = b' \<and> t = t'"
proof -
  have same: "xs = ys" if "map (ref_line p) xs = map (ref_line p) ys" "listed_ok xs" "listed_ok ys" for p xs ys
    using that
  proof (induction xs arbitrary: ys)
    case (Cons x xs)
    then obtain y ys' where ys: "ys = y # ys'" by (cases ys) auto
    then show ?case using Cons ref_line_inj[of p "fst x" "snd x" p "fst y" "snd y"] by (auto simp: listed_ok_def prod_eq_iff)
  qed auto
  have other: "ref_line ''refs/heads/'' x \<noteq> ref_line ''refs/tags/'' y" if "is_ok (validate_object_id (snd x))" "is_ok (validate_object_id (snd y))" for x y
    using that ref_line_inj[of "''refs/heads/''" "fst x" "snd x" "''refs/tags/''" "fst y" "snd y"] by auto
  have "length b = length b'"
    using assms
  proof (induction b arbitrary: b')
    case Nil
    show ?case
    proof (cases b')
      case (Cons x b'')
      then obtain y t1 where "t = y # t1" "ref_line ''refs/tags/'' y = ref_line ''refs/heads/'' x" using Nil(1) by (cases t) auto
      then show ?thesis using other[of x y] Nil Cons by (auto simp: listed_ok_def)
    qed simp
  next
    case (Cons x b)
    show ?case
    proof (cases b')
      case Nil
      then obtain y t1 where "t' = y # t1" "ref_line ''refs/heads/'' x = ref_line ''refs/tags/'' y" using Cons(2) by (cases t') auto
      then show ?thesis using other[of x y] Cons.prems Nil by (auto simp: listed_ok_def)
    next
      case tail: (Cons y b'')
      then show ?thesis using Cons.IH[of b''] Cons.prems by (simp add: listed_ok_def)
    qed
  qed
  then show ?thesis using assms same[of "''refs/heads/''" b b'] same[of "''refs/tags/''" t t'] by (simp add: append_eq_append_conv)
qed

lemma ref_line_plain: "listed_ok refs \<Longrightarrow> r \<in> set refs \<Longrightarrow> p = ''refs/heads/'' \<or> p = ''refs/tags/'' \<Longrightarrow> NL \<notin> set (ref_line p r) \<and> CHR 0x0D \<notin> set (ref_line p r)"
proof -
  assume ok: "listed_ok refs" "r \<in> set refs" and p: "p = ''refs/heads/'' \<or> p = ''refs/tags/''"
  then have "is_ok (validate_object_id (snd r))" "is_ok (validate_ref_name (fst r))" by (auto simp: listed_ok_def list_all_iff)
  then have "NL \<notin> set (snd r) \<and> CHR 0x0D \<notin> set (snd r)" "NL \<notin> set (fst r) \<and> CHR 0x0D \<notin> set (fst r)"
    using word_chars[OF object_id_word] ref_name_plain by blast+
  moreover have "NL \<notin> set p \<and> CHR 0x0D \<notin> set p" "NL \<noteq> CHR '' ''" using p by (auto simp: NL_def)
  ultimately show ?thesis by (cases r) (auto simp: ref_line_def)
qed

text \<open>A default branch that is one of the branches.\<close>

definition default_ok :: "string option \<Rightarrow> (string \<times> string) list \<Rightarrow> bool" where
  "default_ok d branches = pred_option (\<lambda>x. x \<in> fst ` set branches) d"

lemma refs_text_inj:
  assumes "refs_text d b t = refs_text d' b' t'" "listed_ok b" "listed_ok t" "listed_ok b'" "listed_ok t'" "default_ok d b" "default_ok d' b'"
  shows "d = d' \<and> b = b' \<and> t = t'"
proof -
  let ?head = "\<lambda>d. ''HEAD '' @ (case d of None \<Rightarrow> [] | Some b \<Rightarrow> b)"
  let ?rest = "\<lambda>b t. map (ref_line ''refs/heads/'') b @ map (ref_line ''refs/tags/'') t"
  have default: "d = None \<or> (\<exists>x. d = Some x \<and> NL \<notin> set x \<and> CHR 0x0D \<notin> set x \<and> x \<noteq> [])" if "default_ok d b" "listed_ok b" for d b
    using that ref_name_plain by (cases d) (auto simp: default_ok_def listed_ok_def list_all_iff)
  have head: "NL \<notin> set (?head d) \<and> CHR 0x0D \<notin> set (?head d)" if "default_ok d b" "listed_ok b" for d b
    using default[OF that] by (auto simp: NL_def split: option.split)
  have lines: "list_all (\<lambda>l. NL \<notin> set l \<and> CHR 0x0D \<notin> set l) (?head d # ?rest b t)" if "default_ok d b" "listed_ok b" "listed_ok t" for d b t
    using head[OF that(1,2)] ref_line_plain[OF that(2)] ref_line_plain[OF that(3)] by (auto simp: list_all_iff)
  have "?head d # ?rest b t = ?head d' # ?rest b' t'"
    using assms(1) str_lines_text[OF lines[OF assms(6,2,3)]] str_lines_text[OF lines[OF assms(7,4,5)]] unfolding refs_text_lines by simp
  then have "?head d = ?head d'" "?rest b t = ?rest b' t'" by blast+
  moreover have "d = d'" if "?head d = ?head d'"
    using that default[OF assms(6,2)] default[OF assms(7,4)] by (auto split: option.splits)
  ultimately show ?thesis using ref_lines_inj[OF _ assms(2-5)] by blast
qed

lemma mirror_listed_ok:
  assumes "mirror_ok m"
  shows "listed_ok (mr_branches (mirror_refs_read hs m))" "listed_ok (mr_tags (mirror_refs_read hs m))"
    "default_ok (mr_default_branch (mirror_refs_read hs m)) (mr_branches (mirror_refs_read hs m))"
proof -
  show "listed_ok (mr_branches (mirror_refs_read hs m))" "listed_ok (mr_tags (mirror_refs_read hs m))"
    using mirror_ids[OF assms, of _ _ hs] unfolding listed_ok_def list_all_iff mirror_refs_sets
    by (auto simp: direct_refs_in validate_checkout_name_def validate_tag_name_def) blast+
  show "default_ok (mr_default_branch (mirror_refs_read hs m)) (mr_branches (mirror_refs_read hs m))"
    by (auto simp: default_ok_def mirror_refs_read_def tags_listing_def Let_def list_ex_iff image_iff pred_option_def Option.bind_eq_Some_conv split: if_splits) (metis fst_conv)
qed

lemma upstream_listed_ok:
  assumes "list_all adv_ok rs"
  shows "listed_ok (ur_branches (listing rs))" "listed_ok (ur_tags (listing rs))" "default_ok (ur_default_branch (listing rs)) (ur_branches (listing rs))"
proof -
  show "listed_ok (ur_branches (listing rs))" "listed_ok (ur_tags (listing rs))"
    using assms unfolding listed_ok_def list_all_iff
    by (auto simp: listing_def branch_of_def tag_of_def adv_ok_def validate_checkout_name_def validate_tag_name_def split: option.splits if_splits)
  show "default_ok (ur_default_branch (listing rs)) (ur_branches (listing rs))"
    by (auto simp: default_ok_def listing_def pred_option_def Option.bind_eq_Some_conv split: if_splits)
qed

text \<open>
  C31.  The poller refreshes a repository's refs exactly when upstream's branches, tags or default branch differ from the
  published ones; a listing that names no default branch counts as naming the published one.
\<close>

theorem poll_notices_changes:
  assumes "get_refs d repo = Inr (Some row)" "Control.rr_branches row = Some b" "mirror_ok m" "list_all adv_ok rs"
    and "rb_refs_hash b = mirror_hash hs (mirror_refs_read hs m)" "rb_default_branch b = mr_default_branch (mirror_refs_read hs m)"
    and "inj_on (hs_sha256 hs) (insert (refs_text (mr_default_branch (mirror_refs_read hs m)) (mr_branches (mirror_refs_read hs m)) (mr_tags (mirror_refs_read hs m)))
      ((\<lambda>d. refs_text d (ur_branches (listing rs)) (ur_tags (listing rs))) ` {None, ur_default_branch (listing rs), mr_default_branch (mirror_refs_read hs m)}))"
  shows "refs_changed hs d repo (listing rs) =
    Inr (ur_branches (listing rs) \<noteq> mr_branches (mirror_refs_read hs m) \<or> ur_tags (listing rs) \<noteq> mr_tags (mirror_refs_read hs m)
      \<or> ur_default_branch (listing rs) \<noteq> None \<and> ur_default_branch (listing rs) \<noteq> mr_default_branch (mirror_refs_read hs m))"
proof -
  let ?refs = "mirror_refs_read hs m" and ?up = "listing rs"
  note mine = mirror_listed_ok[OF assms(3), of hs] and theirs = upstream_listed_ok[OF assms(4)]
  define kept where "kept = Option.bind (mr_default_branch ?refs) (\<lambda>k. if list_ex (\<lambda>(name, _). name = k) (ur_branches ?up) then Some k else None)"
  define dflt where "dflt = (case ur_default_branch ?up of Some x \<Rightarrow> Some x | None \<Rightarrow> kept)"
  have "default_ok kept (ur_branches ?up)" by (force simp: kept_def default_ok_def list_ex_iff pred_option_def Option.bind_eq_Some_conv split: if_splits)
  then have dflt: "default_ok dflt (ur_branches ?up)" using theirs(3) by (auto simp: dflt_def split: option.split)
  have "refs_hash hs dflt (ur_branches ?up) (ur_tags ?up) = mirror_hash hs ?refs
      \<longleftrightarrow> refs_text dflt (ur_branches ?up) (ur_tags ?up) = refs_text (mr_default_branch ?refs) (mr_branches ?refs) (mr_tags ?refs)"
  proof -
    have "dflt \<in> {None, ur_default_branch ?up, mr_default_branch ?refs}"
      by (cases "mr_default_branch ?refs") (auto simp: dflt_def kept_def split: option.splits)
    then show ?thesis using inj_on_eq_iff[OF assms(7)] unfolding refs_hash_def mirror_hash_def by blast
  qed
  also have "\<dots> \<longleftrightarrow> dflt = mr_default_branch ?refs \<and> ur_branches ?up = mr_branches ?refs \<and> ur_tags ?up = mr_tags ?refs"
    using refs_text_inj[OF _ theirs(1,2) mine(1,2) dflt mine(3)] by (intro iffI) simp_all
  finally have "refs_changed hs d repo ?up = Inr (\<not> (dflt = mr_default_branch ?refs \<and> ur_branches ?up = mr_branches ?refs \<and> ur_tags ?up = mr_tags ?refs))"
    using assms(1,2,5,6) by (auto simp: refs_changed_def kept_def[symmetric] dflt_def[symmetric])
  moreover have "kept = mr_default_branch ?refs" if "ur_branches ?up = mr_branches ?refs"
    using mine(3) that by (cases "mr_default_branch ?refs") (auto simp: kept_def default_ok_def list_ex_iff)
  ultimately show ?thesis by (auto simp: dflt_def split: option.splits)
qed

end
