(* ===== verification/Refs_Publish.thy ===== *)
theory Refs_Publish
  imports Refs_Props Builder_Durable
begin

text \<open>
  Publishing refs points the control store only at stored artifacts: every artifact of the row a publish leaves is in
  storage with the bytes of its hash, whatever other tasks did between the two phases.
\<close>

section \<open>Steps that only add to storage\<close>

definition storage_right :: "refs_env \<Rightarrow> refs_state \<Rightarrow> bool" where
  "storage_right env s \<longleftrightarrow> (\<forall>h data. bt_storage (rs_build s) h = Some data \<longrightarrow> object_hash (be_hashes (re_build env)) h data = h)"

definition stored_ref :: "refs_env \<Rightarrow> refs_state \<Rightarrow> string \<Rightarrow> bool" where
  "stored_ref env s h \<longleftrightarrow> h = [] \<or> in_storage (re_build env) (rs_build s) h"

text \<open>A computation under a precondition: storage only grows and stays right, the database is untouched, a result satisfies the postcondition.\<close>

definition adds :: "refs_env \<Rightarrow> (refs_state \<Rightarrow> bool) \<Rightarrow> 'a refs \<Rightarrow> ('a \<Rightarrow> refs_state \<Rightarrow> bool) \<Rightarrow> bool" where
  "adds env P m Q \<longleftrightarrow> (\<forall>s r s'. P s \<and> storage_right env s \<and> m s = (r, s') \<longrightarrow>
     storage_right env s' \<and> (\<forall>h. stored_ref env s h \<longrightarrow> stored_ref env s' h) \<and> rs_db s' = rs_db s \<and> (\<forall>x. r = Inr x \<longrightarrow> Q x s'))"

lemma addsD:
  assumes "adds env P m Q" "P s" "storage_right env s" "m s = (r, s')"
  shows "storage_right env s'" "stored_ref env s h \<Longrightarrow> stored_ref env s' h" "rs_db s' = rs_db s" "r = Inr x \<Longrightarrow> Q x s'"
  using assms unfolding adds_def by blast+

lemma adds_bind:
  assumes "adds env P m R" "\<And>x. adds env (R x) (f x) Q"
  shows "adds env P (refs_bind m f) Q"
  unfolding adds_def
proof (intro allI impI)
  fix s r s'
  assume a: "P s \<and> storage_right env s \<and> refs_bind m f s = (r, s')"
  obtain r1 s1 where m: "m s = (r1, s1)" by fastforce
  note one = addsD[OF assms(1) conjunct1[OF a] conjunct1[OF conjunct2[OF a]] m]
  show "storage_right env s' \<and> (\<forall>h. stored_ref env s h \<longrightarrow> stored_ref env s' h) \<and> rs_db s' = rs_db s \<and> (\<forall>x. r = Inr x \<longrightarrow> Q x s')"
  proof (cases r1)
    case (Inl e)
    then show ?thesis using a m one by (auto simp: refs_bind_def)
  next
    case (Inr x)
    then have "f x s1 = (r, s')" using a m by (simp add: refs_bind_def)
    from addsD[OF assms(2) one(4)[OF Inr] one(1) this] show ?thesis using one by auto
  qed
qed

lemma adds_return: "(\<And>s. P s \<Longrightarrow> Q x s) \<Longrightarrow> adds env P (refs_return x) Q"
  by (auto simp: adds_def refs_return_def)

lemma adds_lift: "(\<And>x s. r = Inr x \<Longrightarrow> P s \<Longrightarrow> Q x s) \<Longrightarrow> adds env P (refs_lift g r) Q"
  by (auto simp: adds_def refs_lift_def split: sum.splits)

lemma adds_pre: "adds env P m Q \<Longrightarrow> (\<And>s. P' s \<Longrightarrow> P s) \<Longrightarrow> adds env P' m Q"
  unfolding adds_def by blast

lemma adds_post: "adds env P m Q \<Longrightarrow> (\<And>x s. Q x s \<Longrightarrow> Q' x s) \<Longrightarrow> adds env P m Q'"
  unfolding adds_def by blast

lemma adds_with: "adds env P m Q \<Longrightarrow> (\<And>s x s'. m s = (Inr x, s') \<Longrightarrow> R x) \<Longrightarrow> adds env P m (\<lambda>x s. R x \<and> Q x s)"
  unfolding adds_def by blast

text \<open>What was stored before a step is stored after it.\<close>

lemma adds_frame:
  assumes "adds env P m Q"
  shows "adds env (\<lambda>s. P s \<and> (\<forall>h \<in> H. stored_ref env s h)) m (\<lambda>x s. Q x s \<and> (\<forall>h \<in> H. stored_ref env s h))"
  using assms unfolding adds_def by blast

section \<open>Storing an artifact\<close>

locale storing =
  fixes put :: "refs_env \<Rightarrow> string \<Rightarrow> (string \<times> nat) refs"
  assumes put_adds: "env_ok (re_build env) \<Longrightarrow> adds env (\<lambda>_. True) (put env data) (\<lambda>x s. stored_ref env s (fst x))"
begin

lemma put_then:
  assumes "env_ok (re_build env)" "\<And>h len. adds env (\<lambda>s. stored_ref env s h \<and> (\<forall>g \<in> H. stored_ref env s g)) (f (h, len)) Q"
  shows "adds env (\<lambda>s. \<forall>h \<in> H. stored_ref env s h) (refs_bind (put env data) f) Q"
proof (rule adds_bind)
  show "adds env (\<lambda>s. \<forall>h \<in> H. stored_ref env s h) (put env data) (\<lambda>x s. stored_ref env s (fst x) \<and> (\<forall>h \<in> H. stored_ref env s h))"
    by (rule adds_pre[OF adds_frame[OF put_adds[OF assms(1)]]]) simp
  show "adds env (\<lambda>s. stored_ref env s (fst x) \<and> (\<forall>h \<in> H. stored_ref env s h)) (f x) Q" for x
    using assms(2)[of "fst x" "snd x"] by simp
qed

end

text \<open>Both ways end in an upload of an object that is whole in the local store.\<close>

lemma upload_adds:
  assumes "env_ok (re_build env)"
    and "\<And>s r s'. m s = (r, s') \<Longrightarrow> bt_storage s' = bt_storage s \<and> (\<forall>h len. r = Inr (h, len) \<longrightarrow> whole (re_build env) s' h)"
  shows "adds env (\<lambda>_. True) (in_build (bbind m (\<lambda>x. bbind (upload_one (re_build env) (fst x)) (\<lambda>_. breturn x)))) (\<lambda>x s. stored_ref env s (fst x))"
  unfolding adds_def
proof (intro allI impI)
  fix s r s'
  assume a: "True \<and> storage_right env s \<and> in_build (bbind m (\<lambda>x. bbind (upload_one (re_build env) (fst x)) (\<lambda>_. breturn x))) s = (r, s')"
  let ?b = "rs_build s"
  obtain r1 b1 where m: "m ?b = (r1, b1)" by fastforce
  have keep: "bt_storage b1 = bt_storage ?b" using assms(2)[OF m] by simp
  have same: "in_storage (re_build env) b1 h = in_storage (re_build env) ?b h" for h using keep by (simp add: in_storage_def storage_get_def)
  show "storage_right env s' \<and> (\<forall>h. stored_ref env s h \<longrightarrow> stored_ref env s' h) \<and> rs_db s' = rs_db s \<and> (\<forall>x. r = Inr x \<longrightarrow> stored_ref env s' (fst x))"
  proof (cases r1)
    case (Inl e)
    then show ?thesis using a m keep same by (auto simp: in_build_def bbind_def storage_right_def stored_ref_def)
  next
    case (Inr x)
    have whole: "whole (re_build env) b1 (fst x)" using assms(2)[OF m] Inr by (cases x) auto
    have right: "\<forall>h data. bt_storage b1 h = Some data \<longrightarrow> object_hash (be_hashes (re_build env)) h data = h"
      using a keep by (simp add: storage_right_def)
    obtain r2 b2 where up: "upload_one (re_build env) (fst x) b1 = (r2, b2)" by fastforce
    show ?thesis
    proof (cases r2)
      case (Inl e)
      then have "b2 = b1" using up by (auto simp: upload_one_def split: if_splits option.splits)
      then show ?thesis using a m Inr up Inl keep same by (auto simp: in_build_def bbind_def storage_right_def stored_ref_def)
    next
      case ok: (Inr u)
      note up2 = upload_one_stored[OF up[unfolded ok] whole right]
      have "s' = s\<lparr>rs_build := b2\<rparr>" "r = Inr x" using a m Inr up ok by (auto simp: in_build_def bbind_def breturn_def)
      then show ?thesis using up2 same by (auto simp: storage_right_def stored_ref_def)
    qed
  qed
qed

lemma installed_whole:
  assumes "hashes_ok (be_hashes env)" "cas_install (be_hashes env) w (hs_sha256 (be_hashes env) data) data (bt_cas s) = (Inr (), c)"
  shows "whole env (s\<lparr>bt_cas := c\<rparr>) (hs_sha256 (be_hashes env) data)"
  using cas_install_spec(2)[OF assms(2) object_hash_sha256[OF assms(1)]] by (simp add: whole_def)

interpretation put_bytes: storing put_bytes
proof
  fix env :: refs_env and data :: string
  assume ok: "env_ok (re_build env)"
  have run: "bt_storage s' = bt_storage s \<and> (\<forall>h len. r = Inr (h, len) \<longrightarrow> whole (re_build env) s' h)"
    if "bbind (put_object (re_build env) data) (\<lambda>h. breturn (h, length data)) s = (r, s')" for s r s'
  proof -
    obtain r1 c where put: "cas_put (be_hashes (re_build env)) (be_world (re_build env)) data (bt_cas s) = (r1, c)" by fastforce
    have hs: "hashes_ok (be_hashes (re_build env))" using ok by (simp add: env_ok_def)
    show ?thesis
      using that put cas_put_spec(2)[OF put hs] installed_whole[OF hs, of "be_world (re_build env)" data s c]
      by (cases r1) (auto simp: bbind_def put_object_def breturn_def)
  qed
  have "put_bytes env data = in_build (bbind (bbind (put_object (re_build env) data) (\<lambda>h. breturn (h, length data)))
      (\<lambda>x. bbind (upload_one (re_build env) (fst x)) (\<lambda>_. breturn x)))"
    by (auto simp: put_bytes_def bbind_def breturn_def fun_eq_iff in_build_def split: prod.splits sum.splits)
  then show "adds env (\<lambda>_. True) (put_bytes env data) (\<lambda>x s. stored_ref env s (fst x))"
    using upload_adds[OF ok run] by simp
qed

interpretation put_file: storing put_file
proof
  fix env :: refs_env and data :: string
  assume ok: "env_ok (re_build env)"
  have run: "bt_storage s' = bt_storage s \<and> (\<forall>h len. r = Inr (h, len) \<longrightarrow> whole (re_build env) s' h)"
    if "put_file_object (re_build env) data s = (r, s')" for s r s'
  proof -
    obtain r1 c where put: "cas_install (be_hashes (re_build env)) (be_world (re_build env)) (hs_sha256 (be_hashes (re_build env)) data) data (bt_cas s) = (r1, c)" by fastforce
    have hs: "hashes_ok (be_hashes (re_build env))" using ok by (simp add: env_ok_def)
    show ?thesis
      using that put installed_whole[OF hs, of "be_world (re_build env)" data s c]
      by (cases r1) (auto simp: put_file_object_def put_file_with_hash_def Let_def split: sum.splits if_splits)
  qed
  have "put_file env data = in_build (bbind (put_file_object (re_build env) data) (\<lambda>x. bbind (upload_one (re_build env) (fst x)) (\<lambda>_. breturn x)))"
    by (simp add: put_file_def split_def)
  then show "adds env (\<lambda>_. True) (put_file env data) (\<lambda>x s. stored_ref env s (fst x))"
    using upload_adds[OF ok run] by simp
qed


section \<open>The artifacts of published branches\<close>

lemma adds_at: "(\<And>s. P s \<Longrightarrow> \<exists>m. f s = m s \<and> adds env P m Q) \<Longrightarrow> adds env P f Q"
  unfolding adds_def by metis

definition layers_of :: "SidePack list \<Rightarrow> string set" where
  "layers_of layers = side_pack ` set layers \<union> side_idx ` set layers"

lemma layers_of_simps [simp]: "layers_of [] = {}" "layers_of (a @ b) = layers_of a \<union> layers_of b" "layers_of [l] = {side_pack l, side_idx l}"
  by (auto simp: layers_of_def)

lemma side_pack_adds:
  assumes "env_ok (re_build env)"
  shows "adds env (\<lambda>s. \<forall>h \<in> H. stored_ref env s h) (build_side_pack env refs older)
    (\<lambda>layer s. \<forall>h \<in> H \<union> layers_of (case layer of None \<Rightarrow> [] | Some l \<Rightarrow> [l]). stored_ref env s h)"
  unfolding build_side_pack_def
proof (rule adds_bind)
  show "adds env (\<lambda>s. \<forall>h \<in> H. stored_ref env s h) (refs_lift id (side_pack_files env refs older)) (\<lambda>_ s. \<forall>h \<in> H. stored_ref env s h)"
    by (rule adds_lift)
  fix files
  show "adds env (\<lambda>s. \<forall>h \<in> H. stored_ref env s h) (case files of None \<Rightarrow> refs_return None | Some (pack, idx) \<Rightarrow>
      refs_bind (put_file env pack) (\<lambda>(pack, pack_len). refs_bind (put_file env idx) (\<lambda>(idx, idx_len).
        refs_return (Some \<lparr>side_pack = pack, side_pack_len = pack_len, side_idx = idx, side_idx_len = idx_len\<rparr>))))
      (\<lambda>layer s. \<forall>h \<in> H \<union> layers_of (case layer of None \<Rightarrow> [] | Some l \<Rightarrow> [l]). stored_ref env s h)"
  proof (cases files)
    case None
    then show ?thesis by (simp add: adds_return)
  next
    case (Some f)
    obtain pack idx where f: "f = (pack, idx)" by fastforce
    have inner: "adds env (\<lambda>s. stored_ref env s p \<and> (\<forall>g \<in> H. stored_ref env s g)) (refs_bind (put_file env idx) (\<lambda>(idx, idx_len).
        refs_return (Some \<lparr>side_pack = p, side_pack_len = n, side_idx = idx, side_idx_len = idx_len\<rparr>)))
        (\<lambda>layer s. \<forall>h \<in> H \<union> layers_of (case layer of None \<Rightarrow> [] | Some l \<Rightarrow> [l]). stored_ref env s h)" for p n
      by (rule adds_pre[OF put_file.put_then[OF assms, of "insert p H"]]) (auto intro: adds_return)
    show ?thesis unfolding Some f option.case prod.case by (rule put_file.put_then[OF assms]) (simp add: inner)
  qed
qed

lemma whole_side_pack_adds:
  assumes "env_ok (re_build env)"
  shows "adds env (\<lambda>s. \<forall>h \<in> H. stored_ref env s h) (whole_side_pack env refs) (\<lambda>layers s. \<forall>h \<in> H \<union> layers_of layers. stored_ref env s h)"
  unfolding whole_side_pack_def by (rule adds_bind[OF side_pack_adds[OF assms]]) (rule adds_return)

lemma add_layer_adds:
  assumes "env_ok (re_build env)" "layers_of (rb_side_packs prev) \<subseteq> H"
  shows "adds env (\<lambda>s. \<forall>h \<in> H. stored_ref env s h) (add_side_layer env refs prev older) (\<lambda>layers s. \<forall>h \<in> H \<union> layers_of layers. stored_ref env s h)"
  unfolding adds_def
proof (intro allI impI)
  fix s r s'
  assume a: "(\<forall>h \<in> H. stored_ref env s h) \<and> storage_right env s \<and> add_side_layer env refs prev older s = (r, s')"
  obtain r1 s1 where m: "build_side_pack env refs older s = (r1, s1)" by fastforce
  note one = addsD[OF side_pack_adds[OF assms(1)] conjunct1[OF a] conjunct1[OF conjunct2[OF a]] m]
  show "storage_right env s' \<and> (\<forall>h. stored_ref env s h \<longrightarrow> stored_ref env s' h) \<and> rs_db s' = rs_db s
      \<and> (\<forall>layers. r = Inr layers \<longrightarrow> (\<forall>h \<in> H \<union> layers_of layers. stored_ref env s' h))"
  proof (cases r1)
    case (Inl e)
    then have "whole_side_pack env refs s1 = (r, s')" using a m by (simp add: add_side_layer_def)
    moreover have "\<forall>h \<in> H. stored_ref env s1 h" using a one(2) by blast
    ultimately show ?thesis using addsD[OF whole_side_pack_adds[OF assms(1), of H] _ one(1)] one(2,3) by metis
  next
    case (Inr layer)
    then have "r = Inr (rb_side_packs prev @ (case layer of None \<Rightarrow> [] | Some l \<Rightarrow> [l]))" "s' = s1" using a m by (simp_all add: add_side_layer_def)
    then show ?thesis using one(1,2,3) one(4)[OF Inr] assms(2) by auto
  qed
qed

lemma side_packs_for_adds:
  assumes "env_ok (re_build env)" "\<And>p. previous = Some p \<Longrightarrow> layers_of (rb_side_packs p) \<subseteq> H"
  shows "adds env (\<lambda>s. \<forall>h \<in> H. stored_ref env s h) (side_packs_for env refs previous) (\<lambda>(_, layers) s. \<forall>h \<in> H \<union> layers_of layers. stored_ref env s h)"
proof (rule adds_at)
  fix s
  let ?Q = "\<lambda>(_ :: string option, layers) s. \<forall>h \<in> H \<union> layers_of layers. stored_ref env s h"
  let ?P = "\<lambda>s. \<forall>h \<in> H. stored_ref env s h"
  have whole: "adds env ?P (refs_bind (whole_side_pack env refs) (\<lambda>layers. refs_return (mirror_base refs, layers))) ?Q"
    by (rule adds_bind[OF whole_side_pack_adds[OF assms(1)]]) (rule adds_return, simp)
  have layer: "adds env ?P (refs_bind (add_side_layer env refs p older) (\<lambda>layers. refs_return (mirror_base refs, layers))) ?Q"
    if "previous = Some p" for p older by (rule adds_bind[OF add_layer_adds[OF assms(1) assms(2)[OF that]]]) (rule adds_return, simp)
  have kept: "adds env ?P (refs_return (rb_side_base p, rb_side_packs p)) ?Q" if "previous = Some p" for p
    using assms(2)[OF that] by (auto intro: adds_return)
  show "\<exists>m. side_packs_for env refs previous s = m s \<and> adds env ?P m ?Q"
  proof (cases previous)
    case None
    then show ?thesis using whole by (auto simp: side_packs_for_def Let_def)
  next
    case (Some p)
    have "side_packs_for env refs previous s = refs_return (rb_side_base p, rb_side_packs p) s
      \<or> (\<exists>older. side_packs_for env refs previous s = refs_bind (add_side_layer env refs p older) (\<lambda>layers. refs_return (mirror_base refs, layers)) s)
      \<or> side_packs_for env refs previous s = refs_bind (whole_side_pack env refs) (\<lambda>layers. refs_return (mirror_base refs, layers)) s"
      unfolding side_packs_for_def Let_def Some option.case refs_return_def by (auto split: option.split)
    then show ?thesis using whole layer[OF Some] kept[OF Some] by blast
  qed
qed


lemma write_tips_adds: "adds env P (write_side_tips env tips) (\<lambda>_ s. True)"
  by (auto simp: adds_def write_side_tips_def storage_right_def stored_ref_def split: if_splits)

lemma branches_artifacts_set: "set (branches_artifacts b) = {rb_artifact b, pt_artifact (rb_tags b)} \<union> layers_of (rb_side_packs b)"
  by (auto simp: branches_artifacts_def layers_of_def)

lemma publish_branches_adds:
  assumes "env_ok (re_build env)" "\<And>p. previous = Some p \<Longrightarrow> layers_of (rb_side_packs p) \<subseteq> H" "pt_artifact tags \<in> H"
  shows "adds env (\<lambda>s. \<forall>h \<in> H. stored_ref env s h) (publish_branches env refs previous tags) (\<lambda>b s. \<forall>h \<in> H \<union> set (branches_artifacts b). stored_ref env s h)"
  unfolding publish_branches_def Let_def
proof (rule adds_bind)
  let ?P = "\<lambda>H s. \<forall>h \<in> H. stored_ref env s h"
  let ?result = "\<lambda>artifact len side_base side_packs. \<lparr>rb_artifact = artifact, rb_len = len, rb_refs_hash = mirror_hash (be_hashes (re_build env)) refs,
    rb_default_branch = mr_default_branch refs, rb_base = mirror_base refs, rb_side_base = side_base, rb_side_tips = side_tips_hash (be_hashes (re_build env)) refs,
    rb_side_packs = side_packs, rb_tags = tags\<rparr>"
  let ?Q = "\<lambda>b s. \<forall>h \<in> H \<union> set (branches_artifacts b). stored_ref env s h"
  show "adds env (?P H) (refs_lift id (ok_or RefsEncodeError (re_encode_branches env (branches_artifact refs)))) (\<lambda>_. ?P H)" by (rule adds_lift)
  fix built
  have last: "adds env (?P (insert a H \<union> layers_of layers)) (refs_bind (write_side_tips env (side_tips refs)) (\<lambda>_. refs_return (?result a n sb layers))) ?Q" for a n sb layers
  proof (rule adds_bind)
    show "adds env (?P (insert a H \<union> layers_of layers)) (write_side_tips env (side_tips refs)) (\<lambda>_. ?P (insert a H \<union> layers_of layers))"
      using adds_frame[OF write_tips_adds[of env "\<lambda>_. True"], of "insert a H \<union> layers_of layers"] by simp
  qed (use assms(3) in \<open>auto intro!: adds_return simp: branches_artifacts_set\<close>)
  have packs: "adds env (?P (insert a H)) (refs_bind (side_packs_for env refs (if forward then previous else None)) (\<lambda>(side_base, side_packs).
      refs_bind (write_side_tips env (side_tips refs)) (\<lambda>_. refs_return (?result a n side_base side_packs)))) ?Q" for a n forward
    by (rule adds_bind[OF side_packs_for_adds[OF assms(1), of _ "insert a H"]]) (use assms(2) last in \<open>auto split: if_splits\<close>)
  show "adds env (?P H) (refs_bind (put_bytes env built) (\<lambda>(artifact, len).
      refs_bind (refs_lift id (forward_from env previous (mirror_base refs))) (\<lambda>forward.
      refs_bind (side_packs_for env refs (if forward then previous else None)) (\<lambda>(side_base, side_packs).
      refs_bind (write_side_tips env (side_tips refs)) (\<lambda>_. refs_return (?result artifact len side_base side_packs)))))) ?Q"
  proof (rule put_bytes.put_then[OF assms(1)])
    fix a n
    show "adds env (\<lambda>s. stored_ref env s a \<and> (\<forall>g \<in> H. stored_ref env s g)) (case (a, n) of (artifact, len) \<Rightarrow>
        refs_bind (refs_lift id (forward_from env previous (mirror_base refs))) (\<lambda>forward.
        refs_bind (side_packs_for env refs (if forward then previous else None)) (\<lambda>(side_base, side_packs).
        refs_bind (write_side_tips env (side_tips refs)) (\<lambda>_. refs_return (?result artifact len side_base side_packs))))) ?Q"
      unfolding prod.case by (rule adds_bind[OF adds_lift[where Q = "\<lambda>_. ?P (insert a H)"]]) (simp, rule packs)
  qed
qed

lemma build_tags_adds:
  assumes "env_ok (re_build env)"
  shows "adds env (\<lambda>s. \<forall>h \<in> H. stored_ref env s h) (build_tags env refs)
    (\<lambda>tags s. pt_hash tags = mr_tags_hash refs \<and> (\<forall>h \<in> insert (pt_artifact tags) H. stored_ref env s h))"
  unfolding build_tags_def
proof (rule adds_bind[OF adds_lift[where Q = "\<lambda>_ s. \<forall>h \<in> H. stored_ref env s h"]])
  fix bytes
  show "adds env (\<lambda>s. \<forall>h \<in> H. stored_ref env s h) (refs_bind (put_bytes env bytes) (\<lambda>(artifact, len).
      refs_return \<lparr>pt_artifact = artifact, pt_len = len, pt_count = length (mr_tags refs), pt_hash = mr_tags_hash refs\<rparr>))
    (\<lambda>tags s. pt_hash tags = mr_tags_hash refs \<and> (\<forall>h \<in> insert (pt_artifact tags) H. stored_ref env s h))"
    by (rule put_bytes.put_then[OF assms]) (simp, rule adds_return, auto)
qed

section \<open>The published row\<close>

definition row_artifacts :: "RepoRefs \<Rightarrow> string set" where
  "row_artifacts row = insert (rr_tags_artifact row)
     (\<Union> (set ` branches_artifacts ` (set_option (Control.rr_branches row) \<union> set_option (Control.rr_ready row))))"

lemma refs_artifacts_set: "set (refs_artifacts row) = row_artifacts row - {[]}"
  by (cases "Control.rr_branches row"; cases "Control.rr_ready row")
    (auto simp: refs_artifacts_def row_artifacts_def named_def map_filter_simps)

text \<open>Every artifact of the row a repository has is stored.\<close>

definition row_stored :: "refs_env \<Rightarrow> RepoId \<Rightarrow> refs_state \<Rightarrow> bool" where
  "row_stored env repo s \<longleftrightarrow> (\<forall>row. get_refs (rs_db s) repo = Inr (Some row) \<longrightarrow> (\<forall>h \<in> row_artifacts row. stored_ref env s h))"

lemma adds_from:
  assumes "\<And>s. P s \<Longrightarrow> \<exists>m P'. f s = m s \<and> P' s \<and> adds env P' m Q"
  shows "adds env P f Q"
  unfolding adds_def
proof (intro allI impI)
  fix s r s'
  assume a: "P s \<and> storage_right env s \<and> f s = (r, s')"
  obtain m P' where "f s = m s" "P' s" "adds env P' m Q" using assms[of s] a by blast
  then show "storage_right env s' \<and> (\<forall>h. stored_ref env s h \<longrightarrow> stored_ref env s' h) \<and> rs_db s' = rs_db s \<and> (\<forall>x. r = Inr x \<longrightarrow> Q x s')"
    using a unfolding adds_def by metis
qed

lemma row_of_state:
  assumes "row_stored env repo s" "get_refs (rs_db s) repo = Inr old"
  shows "\<forall>h \<in> row_artifacts (case old of None \<Rightarrow> default_refs | Some r \<Rightarrow> r). stored_ref env s h"
  using assms by (cases old) (auto simp: row_stored_def row_artifacts_def default_refs_def stored_ref_def)

lemma rebuild_adds:
  assumes "env_ok (re_build env)"
  shows "adds env (\<lambda>s. \<forall>h \<in> row_artifacts row. stored_ref env s h) (rebuild_branches env refs row)
    (\<lambda>b s. \<exists>x. b = Some x \<and> rb_refs_hash x = mirror_hash (be_hashes (re_build env)) refs \<and> (\<forall>h \<in> set (branches_artifacts x). stored_ref env s h))"
proof -
  let ?H = "row_artifacts row"
  let ?tags = "if rr_tags_hash row = mr_tags_hash refs
    then refs_return \<lparr>pt_artifact = rr_tags_artifact row, pt_len = rr_tags_len row, pt_count = rr_tags_count row, pt_hash = rr_tags_hash row\<rparr>
    else build_tags env refs"
  have tags: "adds env (\<lambda>s. \<forall>h \<in> ?H. stored_ref env s h) ?tags (\<lambda>tags s. \<forall>h \<in> insert (pt_artifact tags) ?H. stored_ref env s h)"
    using adds_post[OF build_tags_adds[OF assms, of ?H refs]] by (auto intro!: adds_return simp: row_artifacts_def)
  have prev: "layers_of (rb_side_packs p) \<subseteq> ?H" if "Control.rr_branches row = Some p" for p
    using that by (auto simp: row_artifacts_def branches_artifacts_set)
  have built: "adds env (\<lambda>s. \<forall>h \<in> insert (pt_artifact t) ?H. stored_ref env s h) (publish_branches env refs (Control.rr_branches row) t)
      (\<lambda>b s. rb_refs_hash b = mirror_hash (be_hashes (re_build env)) refs \<and> (\<forall>h \<in> set (branches_artifacts b). stored_ref env s h))" for t
  proof (rule adds_with)
    have "adds env (\<lambda>s. \<forall>h \<in> insert (pt_artifact t) ?H. stored_ref env s h) (publish_branches env refs (Control.rr_branches row) t)
        (\<lambda>b s. \<forall>h \<in> insert (pt_artifact t) ?H \<union> set (branches_artifacts b). stored_ref env s h)"
      using prev by (intro publish_branches_adds[OF assms]) auto
    then show "adds env (\<lambda>s. \<forall>h \<in> insert (pt_artifact t) ?H. stored_ref env s h) (publish_branches env refs (Control.rr_branches row) t)
        (\<lambda>b s. \<forall>h \<in> set (branches_artifacts b). stored_ref env s h)" by (rule adds_post) blast
    show "rb_refs_hash b = mirror_hash (be_hashes (re_build env)) refs"
      if "publish_branches env refs (Control.rr_branches row) t s = (Inr b, s')" for s b s'
      using publish_branches_steps[OF that] by metis
  qed
  show ?thesis unfolding rebuild_branches_def by (rule adds_bind[OF tags], rule adds_bind[OF built], rule adds_return) simp
qed

lemma branches_of_row_adds:
  assumes "env_ok (re_build env)"
  shows "adds env (\<lambda>s. \<forall>h \<in> row_artifacts row. stored_ref env s h) (branches_of_row env refs row)
    (\<lambda>b s. \<exists>x. b = Some x \<and> rb_refs_hash x = mirror_hash (be_hashes (re_build env)) refs \<and> (\<forall>h \<in> set (branches_artifacts x). stored_ref env s h))"
proof (cases "\<exists>p. Control.rr_branches row = Some p \<and> rb_refs_hash p = mirror_hash (be_hashes (re_build env)) refs")
  case True
  then obtain p where p: "Control.rr_branches row = Some p" "rb_refs_hash p = mirror_hash (be_hashes (re_build env)) refs" by blast
  then have "set (branches_artifacts p) \<subseteq> row_artifacts row" by (auto simp: row_artifacts_def)
  then show ?thesis using p by (simp add: branches_of_row_def) (rule adds_return, auto)
next
  case False
  then have "branches_of_row env refs row = rebuild_branches env refs row" by (auto simp: branches_of_row_def split: option.split)
  then show ?thesis using rebuild_adds[OF assms] by simp
qed

lemma prepare_adds:
  assumes "env_ok (re_build env)"
  shows "adds env (row_stored env repo) (prepare_branches env repo scope refs)
    (\<lambda>b s. case b of None \<Rightarrow> scope = ScopeTags
       | Some x \<Rightarrow> rb_refs_hash x = mirror_hash (be_hashes (re_build env)) refs \<and> (\<forall>h \<in> set (branches_artifacts x). stored_ref env s h))"
    (is "adds env _ _ ?Q")
proof (cases scope)
  case ScopeTags
  then show ?thesis by (simp add: prepare_branches_def adds_return)
next
  case ScopeAll
  show ?thesis
  proof (rule adds_from)
    fix s
    assume row: "row_stored env repo s"
    have run: "prepare_branches env repo scope refs s = (case get_refs (rs_db s) repo of Inl e \<Rightarrow> (Inl (RefsControlError e), s)
        | Inr old \<Rightarrow> branches_of_row env refs (case old of None \<Rightarrow> default_refs | Some r \<Rightarrow> r) s)"
      using ScopeAll by (simp add: prepare_branches_def refs_bind_def read_refs_row_def refs_lift_def split: sum.split)
    show "\<exists>m P'. prepare_branches env repo scope refs s = m s \<and> P' s \<and> adds env P' m ?Q"
    proof (cases "get_refs (rs_db s) repo")
      case (Inl e)
      have "adds env (\<lambda>_. True) (\<lambda>s. (Inl (RefsControlError e), s)) ?Q" by (auto simp: adds_def)
      then show ?thesis using run Inl by auto
    next
      case (Inr old)
      have "adds env (\<lambda>s. \<forall>h \<in> row_artifacts (case old of None \<Rightarrow> default_refs | Some r \<Rightarrow> r). stored_ref env s h)
          (branches_of_row env refs (case old of None \<Rightarrow> default_refs | Some r \<Rightarrow> r)) ?Q"
        by (rule adds_post[OF branches_of_row_adds[OF assms]]) auto
      then show ?thesis using run Inr row_of_state[OF row Inr] by auto
    qed
  qed
qed

lemma refresh_tags_adds:
  assumes "env_ok (re_build env)" "\<And>b. branches = Some b \<Longrightarrow> pt_artifact (rb_tags b) \<in> H"
  defines "row0 old \<equiv> (case old of None \<Rightarrow> default_refs | Some r \<Rightarrow> r)"
  assumes "row_artifacts (row0 old) \<subseteq> H"
  shows "adds env (\<lambda>s. \<forall>h \<in> H. stored_ref env s h) (refresh_tags env refs branches old)
    (\<lambda>row s. rr_tags_hash row = mr_tags_hash refs \<and> Control.rr_branches row = Control.rr_branches (row0 old) \<and> Control.rr_ready row = Control.rr_ready (row0 old)
       \<and> (\<forall>h \<in> H \<union> row_artifacts row. stored_ref env s h))"
proof (cases "old = None \<or> rr_tags_hash (row0 old) \<noteq> mr_tags_hash refs")
  case True
  let ?new = "\<lambda>tags. (row0 old)\<lparr>rr_tags_artifact := pt_artifact tags, rr_tags_len := pt_len tags, rr_tags_count := pt_count tags, rr_tags_hash := mr_tags_hash refs\<rparr>"
  let ?tags = "case branches of Some b \<Rightarrow> if pt_hash (rb_tags b) = mr_tags_hash refs then refs_return (rb_tags b) else build_tags env refs | None \<Rightarrow> build_tags env refs"
  have "adds env (\<lambda>s. \<forall>h \<in> H. stored_ref env s h) ?tags (\<lambda>tags s. \<forall>h \<in> insert (pt_artifact tags) H. stored_ref env s h)"
    using adds_post[OF build_tags_adds[OF assms(1), of H refs]] assms(2) by (auto intro!: adds_return split: option.split)
  moreover have "row_artifacts (?new tags) \<subseteq> insert (pt_artifact tags) (row_artifacts (row0 old))" for tags by (auto simp: row_artifacts_def)
  moreover have "refresh_tags env refs branches old = refs_bind ?tags (\<lambda>tags. refs_return (?new tags))"
    using True by (simp add: refresh_tags_def Let_def row0_def)
  ultimately show ?thesis using assms(4) by (auto intro!: adds_bind adds_return)
next
  case False
  then have "refresh_tags env refs branches old = refs_return (row0 old)" by (auto simp: refresh_tags_def Let_def row0_def)
  then show ?thesis using False assms(4) by (auto intro!: adds_return)
qed

lemma replace_branches_result:
  assumes "replace_branches repo branches row s = (Inr row', s')"
  shows "s' = s" "rr_tags_hash row' = rr_tags_hash row" "\<And>b. branches = Some b \<Longrightarrow> Control.rr_branches row' = Some b"
    "row_artifacts row' \<subseteq> row_artifacts row \<union> \<Union> (set ` branches_artifacts ` set_option branches)"
  using assms by (auto simp: replace_branches_def row_artifacts_def split: option.splits if_splits sum.splits)

lemma set_refs_get:
  assumes "set_refs d repo row = (Inr True, d')"
  shows "get_refs d' repo = Inr (Some row)"
proof -
  have "map_of (upsert k v (\<lambda>_. v) rows) k = Some v" for k v and rows :: "(string \<times> refs_row) list" by (induction k v "\<lambda>_ :: refs_row. v" rows rule: upsert.induct) auto
  then show ?thesis using assms
    by (auto simp: set_refs_def Let_def get_refs_def record_refs_def refs_number_def read_number_def split: if_splits sum.splits)
qed


lemma write_row_result:
  assumes "write_refs_row env repo old row s = (Inr written, s')" "get_refs (rs_db s) repo = Inr old"
  shows "rs_build s' = rs_build s" "written \<Longrightarrow> get_refs (rs_db s') repo = Inr (Some row)"
proof -
  show "rs_build s' = rs_build s" using assms(1) by (auto simp: write_refs_row_def Let_def split: if_splits prod.splits sum.splits)
  show "get_refs (rs_db s') repo = Inr (Some row)" if w: "written"
  proof (cases "old = Some row")
    case True
    then show ?thesis using assms by (simp add: write_refs_row_def)
  next
    case False
    then obtain d where "set_refs (record_output_sizes (re_size_of env) (rs_db s) (refs_artifacts row)) repo row = (Inr True, d)" "rs_db s' = d"
      using assms(1) w by (auto simp: write_refs_row_def Let_def split: prod.splits sum.splits)
    then show ?thesis using set_refs_get by simp
  qed
qed

lemma point_at_refs_stored:
  assumes "env_ok (re_build env)" "storage_right env s" "row_stored env repo s" "\<And>b h. branches = Some b \<Longrightarrow> h \<in> set (branches_artifacts b) \<Longrightarrow> stored_ref env s h"
    and "point_at_refs env repo refs branches s = (Inr (arts, wanted), s')" "arts \<noteq> []"
  shows "\<exists>row. get_refs (rs_db s') repo = Inr (Some row) \<and> arts = refs_artifacts row \<and> rr_tags_hash row = mr_tags_hash refs
    \<and> (branches \<noteq> None \<longrightarrow> Control.rr_branches row = branches) \<and> (\<forall>h \<in> row_artifacts row. stored_ref env s' h)"
proof -
  obtain old row0 row1 s1 s2 written where old: "get_refs (rs_db s) repo = Inr old"
    and tags: "refresh_tags env refs branches old s = (Inr row0, s1)"
    and rep: "replace_branches repo branches row0 s1 = (Inr row1, s2)" and wr: "write_refs_row env repo old row1 s2 = (Inr written, s')"
    and out: "written" "arts = refs_artifacts row1"
    using assms(5,6) by (auto simp: point_at_refs_def refs_bind_Inr read_refs_row_def split: if_splits)
  define H where "H = row_artifacts (case old of None \<Rightarrow> default_refs | Some r \<Rightarrow> r) \<union> \<Union> (set ` branches_artifacts ` set_option branches)"
  have H: "\<forall>h \<in> H. stored_ref env s h" using row_of_state[OF assms(3) old] assms(4) by (auto simp: H_def)
  have "adds env (\<lambda>s. \<forall>h \<in> H. stored_ref env s h) (refresh_tags env refs branches old)
      (\<lambda>row s. rr_tags_hash row = mr_tags_hash refs \<and> Control.rr_branches row = Control.rr_branches (case old of None \<Rightarrow> default_refs | Some r \<Rightarrow> r)
        \<and> Control.rr_ready row = Control.rr_ready (case old of None \<Rightarrow> default_refs | Some r \<Rightarrow> r) \<and> (\<forall>h \<in> H \<union> row_artifacts row. stored_ref env s h))"
    by (rule refresh_tags_adds[OF assms(1)]) (auto simp: H_def branches_artifacts_set)
  note one = addsD[OF this H assms(2) tags]
  have row0: "rr_tags_hash row0 = mr_tags_hash refs" "\<forall>h \<in> H \<union> row_artifacts row0. stored_ref env s1 h" using one(4)[OF refl] by simp_all
  note two = replace_branches_result[OF rep]
  have "row_artifacts row1 \<subseteq> H \<union> row_artifacts row0" using two(4) by (auto simp: H_def)
  then have "\<forall>h \<in> row_artifacts row1. stored_ref env s2 h" using row0(2) two(1) by blast
  moreover have "get_refs (rs_db s2) repo = Inr old" using old one(3) two(1) by simp
  note three = write_row_result[OF wr this]
  ultimately show ?thesis using out row0(1) two(2,3) three(2)[OF out(1)] three(1) by (auto simp: stored_ref_def)
qed

text \<open>
  C23.  A publish of refs that returns artifacts has pointed the control store at a row that names exactly them, whose tags
  are those the mirror held under the lock and, for a refresh, whose branches are those the mirror held before it; every
  one of those artifacts is in storage with the bytes of its hash, whatever other tasks stored or published between.
\<close>

theorem published_refs_stored:
  assumes "publish_pinned env repo scope before between under_lock s = (Inr (arts, wanted), s')" "arts \<noteq> []"
    and "env_ok (re_build env)" "storage_right env s" "row_stored env repo s"
    and "\<And>s. storage_right env s \<Longrightarrow> storage_right env (between s)"
    and "\<And>s. row_stored env repo s \<Longrightarrow> row_stored env repo (between s)"
    and "\<And>s h. stored_ref env s h \<Longrightarrow> stored_ref env (between s) h"
  shows "\<exists>row. get_refs (rs_db s') repo = Inr (Some row) \<and> arts = refs_artifacts row \<and> rr_tags_hash row = mr_tags_hash under_lock
    \<and> (scope = ScopeAll \<longrightarrow> (\<exists>b. Control.rr_branches row = Some b \<and> rb_refs_hash b = mirror_hash (be_hashes (re_build env)) before))
    \<and> (\<forall>h \<in> set arts. in_storage (re_build env) (rs_build s') h)"
proof -
  obtain branches s1 where prep: "prepare_branches env repo scope before s = (Inr branches, s1)"
    and point: "point_at_refs env repo under_lock branches (between s1) = (Inr (arts, wanted), s')"
    using assms(1) by (auto simp: publish_pinned_def refs_bind_Inr)
  note one = addsD[OF prepare_adds[OF assms(3)] assms(5,4) prep]
  have row: "row_stored env repo s1" using assms(5) one(2,3) by (auto simp: row_stored_def)
  have b: "case branches of None \<Rightarrow> scope = ScopeTags
      | Some x \<Rightarrow> rb_refs_hash x = mirror_hash (be_hashes (re_build env)) before \<and> (\<forall>h \<in> set (branches_artifacts x). stored_ref env s1 h)"
    by (rule one(4)[OF refl])
  have held: "stored_ref env (between s1) h" if "branches = Some x" "h \<in> set (branches_artifacts x)" for x h
    using b that assms(8) by simp
  have "\<exists>row. get_refs (rs_db s') repo = Inr (Some row) \<and> arts = refs_artifacts row \<and> rr_tags_hash row = mr_tags_hash under_lock
      \<and> (branches \<noteq> None \<longrightarrow> Control.rr_branches row = branches) \<and> (\<forall>h \<in> row_artifacts row. stored_ref env s' h)"
    by (rule point_at_refs_stored[OF assms(3) assms(6)[OF one(1)] assms(7)[OF row] _ point assms(2)]) (rule held)
  then obtain r where r: "get_refs (rs_db s') repo = Inr (Some r)" "arts = refs_artifacts r" "rr_tags_hash r = mr_tags_hash under_lock"
    "branches \<noteq> None \<longrightarrow> Control.rr_branches r = branches" "\<forall>h \<in> row_artifacts r. stored_ref env s' h" by blast
  have "\<forall>h \<in> set arts. in_storage (re_build env) (rs_build s') h"
    using r(5) unfolding r(2) refs_artifacts_set by (auto simp: stored_ref_def)
  then show ?thesis using r b by (auto split: option.splits)
qed


section \<open>Examples\<close>

text \<open>A repository with one branch, and a tag on an object outside its history.\<close>

definition ex_mirror :: mirror where
  "ex_mirror = \<lparr>mi_head = Some ''refs/heads/main'', mi_branches = [(''main'', Some (replicate 40 (CHR ''a'')))], mi_tags = [(''v1'', Some (replicate 40 (CHR ''b'')))]\<rparr>"

definition ex_refs_build_env :: build_env where
  "ex_refs_build_env = \<lparr>be_hashes = ex_hashes, be_world = ex_cas_world, be_remote = True, be_upload_fails = \<lambda>_. False, be_encode_table = \<lambda>_. None,
     be_decode_table = \<lambda>_. None, be_encode_delta = \<lambda>_. None, be_decode_delta = \<lambda>_. None, be_encode_manifest = \<lambda>_. [], be_decode_manifest = \<lambda>_. None,
     be_hex_decode = \<lambda>_. None, be_hex_encode = \<lambda>_. [], be_idx_hex = id, be_midx = \<lambda>_. None, be_file = \<lambda>_. []\<rparr>"

definition ex_refs_env :: refs_env where
  "ex_refs_env = \<lparr>re_build = ex_refs_build_env,
     re_pack_objects = \<lambda>tips excluded. if tips = [replicate 40 (CHR ''b'')] \<and> excluded = [replicate 40 (CHR ''a'')] then Some (replicate 40 (CHR ''p''), ''idx'') else None,
     re_is_ancestor = \<lambda>_ _. None, re_encode_branches = \<lambda>_. Some ''branches'', re_build_tags = \<lambda>_. Some ''hi'', re_size_of = \<lambda>_. None, re_side_file_fails = False\<rparr>"

definition ex_refs_state :: refs_state where
  "ex_refs_state = \<lparr>rs_build = \<lparr>bt_cas = ex_cas, bt_storage = Map.empty, bt_started = [], bt_cancels = []\<rparr>,
     rs_db = snd (add_repo empty_db 0 ex_upstream_repo None), rs_side_file = None\<rparr>"

definition ex_tags :: PublishedTags where
  "ex_tags = \<lparr>pt_artifact = replicate 64 (CHR ''a''), pt_len = 2, pt_count = 1, pt_hash = replicate 64 (CHR ''b'')\<rparr>"

lemma ex_mirror_ok: "mirror_ok ex_mirror"
proof -
  have "is_ok (validate_object_id (replicate 40 (CHR ''a'')))" "is_ok (validate_object_id (replicate 40 (CHR ''b'')))" by code_simp+
  then show ?thesis by (simp add: mirror_ok_def ex_mirror_def)
qed

abbreviation ex_listed :: "string set" where
  "ex_listed \<equiv> {join_nl (side_tips (mirror_refs_read ex_hashes ex_mirror))}"

lemma ex_refs_hashes: "be_hashes (re_build ex_refs_env) = ex_hashes"
  by (simp add: ex_refs_env_def ex_refs_build_env_def)

lemma ex_refreshed:
  obtains b where "refreshed ex_refs_env ex_listed ex_mirror b" "rb_base b = Some (replicate 40 (CHR ''a''))" "length (rb_side_packs b) = 1"
proof -
  let ?run = "publish_branches ex_refs_env (mirror_refs_read ex_hashes ex_mirror) None ex_tags ex_refs_state"
  have res: "(case fst ?run of Inr b \<Rightarrow> rb_base b = Some (replicate 40 (CHR ''a'')) \<and> length (rb_side_packs b) = 1 | Inl _ \<Rightarrow> False)" by code_simp
  then obtain b s' where run: "?run = (Inr b, s')" by (cases ?run) (auto split: sum.splits)
  show ?thesis
    by (rule that[of b]) (use res run in \<open>auto intro: first_refresh[of _ _ ex_tags ex_refs_state b s'] simp: ex_refs_hashes ex_mirror_ok\<close>)
qed

lemma ex_git_laws: "git_laws ex_refs_env (\<lambda>_. {}) (\<lambda>_. {replicate 40 (CHR ''b'')})"
proof -
  have "reached (\<lambda>_. {}) x = {x}" for x by (auto simp: reached_def elim: converse_rtranclE)
  moreover have "replicate 40 (CHR ''a'') \<noteq> replicate 40 (CHR ''b'')" by (simp add: numeral_eq_Suc)
  ultimately show ?thesis by (auto simp: git_laws_def ex_refs_env_def split: if_splits)
qed

theorem side_packs_complete_witness:
  "\<exists>b. refreshed ex_refs_env ex_listed ex_mirror b \<and> length (rb_side_packs b) = 1
     \<and> reached (\<lambda>_. {}) (replicate 40 (CHR ''b'')) \<subseteq> reached (\<lambda>_. {}) (replicate 40 (CHR ''a'')) \<union> layer_objects (\<lambda>_. {replicate 40 (CHR ''b'')}) (rb_side_packs b)"
proof -
  let ?refs = "mirror_refs_read ex_hashes ex_mirror"
  obtain b where b: "refreshed ex_refs_env ex_listed ex_mirror b" "rb_base b = Some (replicate 40 (CHR ''a''))" "length (rb_side_packs b) = 1"
    by (rule ex_refreshed)
  have tag: "(''v1'', replicate 40 (CHR ''b'')) \<in> set (mr_branches ?refs) \<union> set (mr_tags ?refs)" by code_simp
  have "inj_on (hs_sha256 (be_hashes (re_build ex_refs_env))) ex_listed" by simp
  then have "reached (\<lambda>_. {}) (replicate 40 (CHR ''b'')) \<subseteq> reached (\<lambda>_. {}) (replicate 40 (CHR ''a'')) \<union> layer_objects (\<lambda>_. {replicate 40 (CHR ''b'')}) (rb_side_packs b)"
    using side_packs_complete[OF b(1) ex_git_laws _ b(2), of "''v1''"] tag unfolding ex_refs_hashes by blast
  then show ?thesis using b(1,3) by blast
qed

definition id_hashes :: hashes where
  "id_hashes = \<lparr>hs_sha1 = id, hs_sha256 = id\<rparr>"

definition ex_branches_row :: RepoBranches where
  "ex_branches_row = \<lparr>rb_artifact = [], rb_len = 0, rb_refs_hash = mirror_hash id_hashes (mirror_refs_read id_hashes ex_mirror), rb_default_branch = Some ''main'',
     rb_base = None, rb_side_base = None, rb_side_tips = [], rb_side_packs = [], rb_tags = ex_tags\<rparr>"

definition ex_refs_db :: db where
  "ex_refs_db = empty_db\<lparr>repo_refs := [(storage_key ex_upstream_repo,
     \<lparr>rf_tags_artifact = [], rf_tags_len = 0, rf_tags_count = 0, rf_tags_hash = [], rf_branches = Some ex_branches_row, rf_ready = None\<rparr>)]\<rparr>"

theorem poll_notices_changes_witness:
  "refs_changed id_hashes ex_refs_db ex_upstream_repo (listing ex_refs) = Inr False"
proof -
  have row: "get_refs ex_refs_db ex_upstream_repo = Inr (Some \<lparr>rr_tags_artifact = [], rr_tags_len = 0, rr_tags_count = 0, rr_tags_hash = [],
      rr_branches = Some ex_branches_row, rr_ready = None\<rparr>)" by (simp add: get_refs_def ex_refs_db_def read_number_def)
  have same: "ur_branches (listing ex_refs) = mr_branches (mirror_refs_read id_hashes ex_mirror)" "ur_tags (listing ex_refs) = mr_tags (mirror_refs_read id_hashes ex_mirror)"
    "ur_default_branch (listing ex_refs) = mr_default_branch (mirror_refs_read id_hashes ex_mirror)" "mr_default_branch (mirror_refs_read id_hashes ex_mirror) = Some ''main''"
    by code_simp+
  have inj: "inj_on (hs_sha256 id_hashes) A" for A by (simp add: id_hashes_def)
  have b: "rb_refs_hash ex_branches_row = mirror_hash id_hashes (mirror_refs_read id_hashes ex_mirror)"
    "rb_default_branch ex_branches_row = mr_default_branch (mirror_refs_read id_hashes ex_mirror)" using same(4) by (simp_all add: ex_branches_row_def)
  show ?thesis using poll_notices_changes[OF row _ ex_mirror_ok ex_refs_ok(1) b inj] same by simp
qed

theorem published_refs_stored_witness:
  "\<exists>arts row s'. publish_pinned ex_refs_env ex_upstream_repo ScopeAll (mirror_refs_read ex_hashes ex_mirror) id (mirror_refs_read ex_hashes ex_mirror) ex_refs_state = (Inr (arts, False), s')
     \<and> get_refs (rs_db s') ex_upstream_repo = Inr (Some row) \<and> refs_artifacts row = arts \<and> list_all (\<lambda>h. in_storage ex_refs_build_env (rs_build s') h) arts"
proof -
  let ?refs = "mirror_refs_read ex_hashes ex_mirror"
  let ?run = "publish_pinned ex_refs_env ex_upstream_repo ScopeAll ?refs id ?refs ex_refs_state"
  have "(case fst ?run of Inr (arts, w) \<Rightarrow> arts \<noteq> [] \<and> \<not> w | Inl _ \<Rightarrow> False)" by code_simp
  then obtain arts s' where run: "?run = (Inr (arts, False), s')" "arts \<noteq> []" by (cases ?run) (auto split: sum.splits)
  have env: "re_build ex_refs_env = ex_refs_build_env" "env_ok (re_build ex_refs_env)"
    using ex_hashes_ok by (simp_all add: ex_refs_env_def env_ok_def ex_refs_build_env_def)
  have "storage_right ex_refs_env ex_refs_state" by (simp add: storage_right_def ex_refs_state_def)
  moreover have "row_stored ex_refs_env ex_upstream_repo ex_refs_state" by (simp add: row_stored_def ex_refs_state_def get_refs_def add_repo_def empty_db_def)
  ultimately have "\<exists>row. get_refs (rs_db s') ex_upstream_repo = Inr (Some row) \<and> arts = refs_artifacts row \<and> rr_tags_hash row = mr_tags_hash ?refs
      \<and> (ScopeAll = ScopeAll \<longrightarrow> (\<exists>b. Control.rr_branches row = Some b \<and> rb_refs_hash b = mirror_hash (be_hashes (re_build ex_refs_env)) ?refs))
      \<and> (\<forall>h \<in> set arts. in_storage (re_build ex_refs_env) (rs_build s') h)"
    by (intro published_refs_stored[OF run env(2)]) simp_all
  then show ?thesis using run(1) unfolding env(1) list_all_iff by blast
qed

end
