(* ===== verification/Refresh.thy ===== *)
theory Refresh
  imports Prelude
begin

text \<open>
  The single flight of a repository's refs refresh (\<open>refresh\<close> and \<open>first_branches\<close> in \<open>src/rust/src/server/refs.rs\<close>):
  concurrent calls share one atomic flag and one lock, and requests that arrive while a pass runs are folded into one
  more pass.  A call is a number; what it does next is determined by the shared state, so an execution is a sequence of
  calls that take their next step.  The pass itself (\<open>refresh_once\<close>) is one step that ends well or not.
\<close>

section \<open>One call\<close>

datatype refresh_pc = NotCalled | Requested | Locked | Passing | Exiting | Released | Returned

text \<open>
  The flag, the holder of the lock, the place of each call in the code and its last result, and the calls whose request
  no pass has started after.
\<close>

record refresh_state =
  rl_wanted :: bool
  rl_holder :: "nat option"
  rl_pc :: "nat \<Rightarrow> refresh_pc"
  rl_last :: "nat \<Rightarrow> bool"
  rl_waiting :: "nat set"

definition refresh_start :: refresh_state where
  "refresh_start = \<lparr>rl_wanted = False, rl_holder = None, rl_pc = \<lambda>_. NotCalled, rl_last = \<lambda>_. True, rl_waiting = {}\<rparr>"

definition goto :: "nat \<Rightarrow> refresh_pc \<Rightarrow> refresh_state \<Rightarrow> refresh_state" where
  "goto t pc s = s\<lparr>rl_pc := (rl_pc s)(t := pc)\<rparr>"

definition refresh_next :: "nat \<Rightarrow> bool \<Rightarrow> refresh_state \<Rightarrow> refresh_state" where
  "refresh_next t ok s =
     (case rl_pc s t of
        NotCalled \<Rightarrow> goto t Requested (s\<lparr>rl_wanted := True, rl_last := (rl_last s)(t := True), rl_waiting := insert t (rl_waiting s)\<rparr>)
      | Requested \<Rightarrow> if rl_holder s = None then goto t Locked (s\<lparr>rl_holder := Some t\<rparr>) else goto t Returned s
      | Locked \<Rightarrow> if rl_wanted s then goto t Passing (s\<lparr>rl_wanted := False, rl_waiting := {}\<rparr>) else goto t Exiting s
      | Passing \<Rightarrow> goto t Locked (s\<lparr>rl_last := (rl_last s)(t := ok)\<rparr>)
      | Exiting \<Rightarrow> goto t Released (s\<lparr>rl_holder := None\<rparr>)
      | Released \<Rightarrow> if rl_wanted s then goto t Requested s else goto t Returned s
      | Returned \<Rightarrow> s)"

text \<open>\<open>drop(lock.refresh.lock().await)\<close> of \<open>first_branches\<close>: the lock is taken once it is free, and dropped.\<close>

definition wait_next :: "nat \<Rightarrow> refresh_state \<Rightarrow> refresh_state" where
  "wait_next w s =
     (if rl_holder s = None then s\<lparr>rl_holder := Some w\<rparr> else if rl_holder s = Some w then s\<lparr>rl_holder := None\<rparr> else s)"

section \<open>Executions\<close>

inductive refreshing :: "refresh_state \<Rightarrow> bool" where
  refreshing_start: "refreshing refresh_start"
| refreshing_step: "refreshing s \<Longrightarrow> refreshing (refresh_next t ok s)"

definition in_progress :: "refresh_state \<Rightarrow> nat \<Rightarrow> bool" where
  "in_progress s t = (rl_pc s t \<noteq> NotCalled \<and> rl_pc s t \<noteq> Returned)"

text \<open>The holder is the one call at its passes; a request not yet served keeps the flag set, and a set flag some call in progress.\<close>

definition refresh_inv :: "refresh_state \<Rightarrow> bool" where
  "refresh_inv s \<longleftrightarrow> (\<forall>t. rl_holder s = Some t \<longleftrightarrow> rl_pc s t \<in> {Locked, Passing, Exiting})
     \<and> (rl_waiting s \<noteq> {} \<longrightarrow> rl_wanted s) \<and> (rl_wanted s \<longrightarrow> (\<exists>t. in_progress s t))"

lemma refresh_next_inv:
  assumes inv: "refresh_inv s"
  shows "refresh_inv (refresh_next t ok s)"
proof -
  have holder: "rl_holder s = Some u \<longleftrightarrow> rl_pc s u \<in> {Locked, Passing, Exiting}" for u using inv by (simp add: refresh_inv_def)
  have live: "in_progress s u" if "rl_holder s = Some u" for u using that holder[of u] by (auto simp: in_progress_def)
  show ?thesis
  proof (cases "rl_pc s t")
    case Requested
    show ?thesis
    proof (cases "rl_holder s")
      case None
      then show ?thesis using inv Requested holder by (auto simp: refresh_inv_def refresh_next_def goto_def in_progress_def)
    next
      case (Some u)
      then have "u \<noteq> t" "in_progress (goto t Returned s) u" using holder[of t] live[of u] Requested by (auto simp: in_progress_def goto_def)
      then show ?thesis using inv Requested Some holder by (auto simp: refresh_inv_def refresh_next_def goto_def)
    qed
  next
    case Released
    then show ?thesis using inv holder[of t] by (auto simp: refresh_inv_def refresh_next_def goto_def in_progress_def)
  next
    case Exiting
    then have "rl_holder s = Some t" using holder[of t] by simp
    then have "rl_pc s u \<in> {Locked, Passing, Exiting} \<longleftrightarrow> u = t" for u using holder[of u] by auto
    then show ?thesis using inv Exiting by (auto simp: refresh_inv_def refresh_next_def goto_def in_progress_def)
  next
    case NotCalled
    then show ?thesis using inv holder[of t] by (auto simp: refresh_inv_def refresh_next_def goto_def in_progress_def)
  next
    case Locked
    then show ?thesis using inv by (auto simp: refresh_inv_def refresh_next_def goto_def in_progress_def)
  next
    case Passing
    then show ?thesis using inv by (auto simp: refresh_inv_def refresh_next_def goto_def in_progress_def)
  next
    case Returned
    then show ?thesis using inv by (simp add: refresh_next_def)
  qed
qed

lemma refreshing_inv: "refreshing s \<Longrightarrow> refresh_inv s"
  by (induction rule: refreshing.induct) (simp_all add: refresh_next_inv, simp add: refresh_inv_def refresh_start_def)



section \<open>A waiter can lose a request\<close>

text \<open>
  With \<open>first_branches\<close> waiting for the lock, a request is lost: the waiter holds the lock for a moment without looking at
  the flag, and a call that finds it held leaves its request to a holder that runs no pass.
\<close>

inductive refreshing_waits :: "refresh_state \<Rightarrow> bool" where
  waits_start: "refreshing_waits refresh_start"
| waits_call: "refreshing_waits s \<Longrightarrow> refreshing_waits (refresh_next t ok s)"
| waits_wait: "refreshing_waits s \<Longrightarrow> rl_pc s w = NotCalled \<Longrightarrow> refreshing_waits (wait_next w s)"

lemma waiter_loses_request:
  "\<exists>s. refreshing_waits s \<and> rl_waiting s = {1} \<and> (\<forall>t. \<not> in_progress s t) \<and> rl_holder s = None \<and> rl_last s 1"
proof -
  define s where "s = wait_next 0 (refresh_next 1 True (refresh_next 1 True (wait_next 0 refresh_start)))"
  have "refreshing_waits s"
    unfolding s_def by (intro refreshing_waits.intros) (simp_all add: refresh_next_def wait_next_def goto_def refresh_start_def)
  moreover have "rl_waiting s = {1}" "\<forall>t. \<not> in_progress s t" "rl_holder s = None" "rl_last s 1"
    by (simp_all add: s_def refresh_next_def wait_next_def goto_def refresh_start_def in_progress_def)
  ultimately show ?thesis by blast
qed

end
