(* ===== verification/Api.thy ===== *)
theory Api
  imports Response Admission Upstream Cas Manifest Sweep "HOL-Library.AList"
begin

text \<open>
  The repository routes of \<open>src/rust/src/server/api.rs\<close>: adding and removing repositories, admitting builds, and reading
  commits, usage and status.

  A handler reads the control store several times while other tasks write it: the argument \<open>dbs\<close> is the database at
  each of its reads in turn, and \<open>between\<close> what other tasks do between a handler's own two writes.  Upstream git, the
  credentials, the signed URLs, the mirror's ancestry, base64, JSON and the protobuf decoder are parameters; metrics
  and the texts of error messages are left out.
\<close>

section \<open>Errors and environment\<close>

text \<open>An error with its status and stable code; \<open>Panicked\<close> is an \<open>expect\<close> that fails.\<close>

datatype ApiError = ApiError nat string | Panicked

type_synonym 'a api = "(ApiError, 'a) result"

definition invalid_request :: ApiError where
  "invalid_request = ApiError 400 ''invalid_request''"

definition control_unavailable :: ApiError where
  "control_unavailable = ApiError 503 ''control_unavailable''"

definition unknown_provider :: ApiError where
  "unknown_provider = ApiError 404 ''unknown_provider''"

definition repo_not_added :: ApiError where
  "repo_not_added = ApiError 404 ''repo_not_added''"

definition credential_error :: ApiError where
  "credential_error = ApiError 500 ''credential_unavailable''"

definition from_control :: "'a cresult \<Rightarrow> 'a api" where
  "from_control r = (case r of Inl _ \<Rightarrow> Inl control_unavailable | Inr x \<Rightarrow> Inr x)"

record server_env =
  sv_registry :: ProviderRegistry
  sv_credential :: "RepoId \<Rightarrow> string option option"
  sv_base64 :: "string \<Rightarrow> string"
  sv_post :: "string \<Rightarrow> (string \<times> string) option \<Rightarrow> string \<Rightarrow> post_reply option"
  sv_git :: "string \<Rightarrow> string list \<Rightarrow> string list \<Rightarrow> git_run"
  sv_origin_base :: "string option"
  sv_signed_url :: "string \<Rightarrow> string option"
  sv_hashes :: hashes
  sv_cas :: cas
  sv_is_ancestor :: "string \<Rightarrow> string \<Rightarrow> string \<Rightarrow> bool option"
  sv_ancestry :: "string \<Rightarrow> bool option"

definition repo_from_path :: "server_env \<Rightarrow> string \<Rightarrow> (RepoId \<times> ProviderInstance) api" where
  "repo_from_path env repo_path =
     rbind (ok_or unknown_provider (resolve_repo_id (sv_registry env) repo_path)) (\<lambda>(repo, p).
       if is_ok (validate_repo_path p repo) then Inr (repo, p) else Inl invalid_request)"

section \<open>Resolving selectors\<close>

record Resolved =
  rv_commit :: string
  rv_checkout_name :: "string option"
  rv_ref_name :: "string option"

fun permanent_failure :: "upstream_error \<Rightarrow> bool" where
  "permanent_failure (GitFailed retryable _) = (\<not> retryable)"
| "permanent_failure _ = False"

definition ls_remote_tip_async :: "server_env \<Rightarrow> ProviderInstance \<Rightarrow> RepoId \<Rightarrow> string \<Rightarrow> string option \<Rightarrow> (upstream_error, RemoteTip option) result" where
  "ls_remote_tip_async env p repo name credential =
     ls_remote_tip_async_with (sv_base64 env) (sv_post env) (sv_git env) p repo name credential (sv_origin_base env) True"

definition checkout_of :: "Selector \<Rightarrow> RemoteTip \<Rightarrow> string option \<times> string option" where
  "checkout_of selector tip =
     (case selector of
        SelHead \<Rightarrow>
          (let branch = Option.bind (rt_default_branch tip) (\<lambda>b. if is_ok (validate_checkout_name b) then Some b else None) in
           (branch, map_option (\<lambda>b. ''refs/heads/'' @ b) branch))
      | _ \<Rightarrow> (strip_prefix (rt_ref_name tip) ''refs/heads/'', Some (rt_ref_name tip)))"

definition resolve_listing :: "server_env \<Rightarrow> RepoId \<Rightarrow> ProviderInstance \<Rightarrow> Selector \<Rightarrow> bool \<Rightarrow> (Resolved \<times> UpstreamRefs) api" where
  "resolve_listing env repo p selector refs =
     (case selector of
        SelCommit commit \<Rightarrow> Inr (\<lparr>rv_commit = commit, rv_checkout_name = None, rv_ref_name = None\<rparr>, no_refs)
      | _ \<Rightarrow>
          (let name = (case selector of SelName n \<Rightarrow> n | _ \<Rightarrow> ''HEAD'') in
           case sv_credential env repo of
             None \<Rightarrow> Inl credential_error
           | Some credential \<Rightarrow>
               (case (if refs \<and> name = ''HEAD'' then ls_remote_refs (sv_base64 env) (sv_git env) p repo credential (sv_origin_base env)
                      else rbind (ls_remote_tip_async env p repo name credential) (\<lambda>tip. Inr (tip, no_refs))) of
                  Inl e \<Rightarrow> Inl (if permanent_failure e then ApiError 404 ''repo_not_found'' else ApiError 502 ''upstream_unavailable'')
                | Inr (None, _) \<Rightarrow> Inl (ApiError 404 ''ref_not_found'')
                | Inr (Some tip, upstream_refs) \<Rightarrow>
                    (let (checkout_name, ref_name) = checkout_of selector tip in
                     Inr (\<lparr>rv_commit = rt_commit tip, rv_checkout_name = checkout_name, rv_ref_name = ref_name\<rparr>, upstream_refs)))))"

definition resolve :: "server_env \<Rightarrow> RepoId \<Rightarrow> ProviderInstance \<Rightarrow> Selector \<Rightarrow> Resolved api" where
  "resolve env repo p selector = rbind (resolve_listing env repo p selector False) (\<lambda>(r, _). Inr r)"

definition resolve_head_and_refs :: "server_env \<Rightarrow> RepoId \<Rightarrow> ProviderInstance \<Rightarrow> (Resolved \<times> UpstreamRefs) api" where
  "resolve_head_and_refs env repo p = resolve_listing env repo p SelHead True"

section \<open>Ready outputs\<close>

definition row_info :: "BuildRow \<Rightarrow> RefInfo" where
  "row_info row = \<lparr>ri_commit = br_commit row, ri_head = out_ready (br_head row), ri_full = out_ready (br_full row), ri_files = out_ready (br_files row)\<rparr>"

fun exact_result_clonepack :: "RefInfo \<Rightarrow> ExactResultKind \<Rightarrow> ClonepackArtifacts option" where
  "exact_result_clonepack info Head = map_option hr_clonepack (ri_head info)"
| "exact_result_clonepack info Full = map_option fr_clonepack (ri_full info)"
| "exact_result_clonepack info Files = map_option fl_clonepack (ri_files info)"

definition signed_url :: "server_env \<Rightarrow> string \<Rightarrow> string option" where
  "signed_url env h = (if h = [] then None else sv_signed_url env h)"

definition signed_list :: "server_env \<Rightarrow> string list \<Rightarrow> string option list option" where
  "signed_list env hashes =
     (if hashes = [] then None
      else (let urls = map (signed_url env) hashes in if list_all (\<lambda>u. u = None) urls then None else Some urls))"

definition result_packs :: "RefInfo \<Rightarrow> ExactResultKind \<Rightarrow> PackArtifact list" where
  "result_packs info kind =
     (case kind of
        Head \<Rightarrow> (case ri_head info of None \<Rightarrow> [] | Some head \<Rightarrow> hr_packs head)
      | Full \<Rightarrow> (case ri_full info of None \<Rightarrow> [] | Some full \<Rightarrow> fr_packs full)
      | Files \<Rightarrow> [])"

text \<open>The idx files fetched on their own: history packs of a Full, the Head packs of its own history, levels of a Head.\<close>

definition own_idx :: "RefInfo \<Rightarrow> ExactResultKind \<Rightarrow> string list" where
  "own_idx info kind =
     (case kind of
        Full \<Rightarrow>
          (case ri_full info of None \<Rightarrow> []
           | Some full \<Rightarrow>
               concat (map (\<lambda>level. map sp_idx (hl_packs level)) (fr_history_levels full))
               @ (case fr_own_history full of None \<Rightarrow> []
                  | Some own \<Rightarrow> List.map_filter (\<lambda>i. if i < length (fr_packs full) then Some (pa_idx (fr_packs full ! i)) else None) (oh_head_packs own)))
      | Head \<Rightarrow> (case ri_head info of None \<Rightarrow> [] | Some head \<Rightarrow> map sp_idx (hr_levels head))
      | Files \<Rightarrow> [])"

definition pack_idx_urls :: "server_env \<Rightarrow> RefInfo \<Rightarrow> ExactResultKind \<Rightarrow> string option list option" where
  "pack_idx_urls env info kind =
     (let own = own_idx info kind;
          urls = (if own = [] then None
                  else Some (map (\<lambda>p. if pa_idx p \<in> set own then signed_url env (pa_idx p) else None) (result_packs info kind))) in
      Option.bind urls (\<lambda>us. if list_ex (\<lambda>u. u \<noteq> None) us then Some us else None))"

definition side_pack_ref :: "server_env \<Rightarrow> SidePack \<Rightarrow> SidePackRef" where
  "side_pack_ref env side = \<lparr>spr_pack = side_pack side, spr_pack_len = side_pack_len side, spr_pack_url = signed_url env (side_pack side),
     spr_idx = side_idx side, spr_idx_len = side_idx_len side, spr_idx_url = signed_url env (side_idx side)\<rparr>"

definition branches_ref :: "server_env \<Rightarrow> RepoBranches \<Rightarrow> BranchesRef" where
  "branches_ref env b = \<lparr>bref_artifact = rb_artifact b, bref_artifact_url = signed_url env (rb_artifact b),
     bref_side_packs = map (side_pack_ref env) (rb_side_packs b)\<rparr>"

definition ref_response :: "server_env \<Rightarrow> RepoId \<Rightarrow> ProviderInstance \<Rightarrow> BuildRow \<Rightarrow> RepoRefs option \<Rightarrow> ExactResultKind \<Rightarrow> RefResponse api" where
  "ref_response env repo p row refs kind =
     (let info = row_info row in
      rbind (ok_or Panicked (exact_result_clonepack info kind)) (\<lambda>artifacts.
      let archive_chunks = (case ri_files info of Some files \<Rightarrow> if kind = Files then fl_archive_chunks files else [] | None \<Rightarrow> []);
          packs = map pa_pack (result_packs info kind);
          (owner, name) = (case github_owner_repo repo of Some (o', r) \<Rightarrow> (o', r) | None \<Rightarrow> (rid_provider repo, rid_path repo));
          tags = Option.bind refs (\<lambda>r. if rr_tags_count r > 0 then Some (rr_tags_artifact r) else None) in
      Inr \<lparr>resp_owner = owner, resp_repo = name, resp_provider = pi_id p, resp_host = pi_host p, resp_origin_url = clone_url p (rid_path repo),
         resp_commit = ca_commit artifacts, resp_parent_commit = br_parent row,
         resp_clonepack_manifest = ca_manifest artifacts, resp_clonepack_manifest_url = signed_url env (ca_manifest artifacts),
         resp_metadata_chunk = ca_metadata_chunk artifacts, resp_metadata_chunk_url = signed_url env (ca_metadata_chunk artifacts),
         resp_metadata_delta = ca_metadata_delta artifacts, resp_metadata_delta_url = signed_url env (ca_metadata_delta artifacts),
         resp_archive_chunk_urls = signed_list env archive_chunks, resp_pack_chunk_urls = signed_list env packs,
         resp_pack_idx_urls = pack_idx_urls env info kind,
         resp_midx_url = signed_url env (ca_midx artifacts), resp_idx_bundle_url = signed_url env (ca_idx_bundle artifacts),
         resp_tags_artifact = tags, resp_tags_artifact_url = Option.bind tags (signed_url env),
         resp_branches = (if kind = Full then map_option (branches_ref env) (Option.bind refs rr_branches) else None),
         resp_own_history = None, resp_kind = kind, resp_inline = Map.empty\<rparr>))"

text \<open>Answers kept in the cache are used; only an answer is kept, not a failure.\<close>

definition in_history :: "server_env \<Rightarrow> RepoId \<Rightarrow> string \<Rightarrow> string \<Rightarrow> bool" where
  "in_history env repo base commit =
     (case sv_ancestry env (storage_key repo @ '' '' @ base @ '' '' @ commit) of
        Some answer \<Rightarrow> answer
      | None \<Rightarrow> (case sv_is_ancestor env (mirror_dir_name repo) base commit of Some answer \<Rightarrow> answer | None \<Rightarrow> False))"

definition own_history_ref :: "server_env \<Rightarrow> RepoId \<Rightarrow> BuildRow \<Rightarrow> string \<Rightarrow> OwnHistoryRef option" where
  "own_history_ref env repo row base =
     Option.bind (out_ready (br_full row)) (\<lambda>full.
     Option.bind (fr_own_history full) (\<lambda>own.
       if oh_base own \<noteq> base \<and> \<not> in_history env repo (oh_base own) base then None
       else Some \<lparr>ohr_packs = map (\<lambda>p. \<lparr>spr_pack = sp_pack p, spr_pack_len = sp_pack_len p, spr_pack_url = signed_url env (sp_pack p),
                     spr_idx = sp_idx p, spr_idx_len = sp_idx_len p, spr_idx_url = signed_url env (sp_idx p)\<rparr>) (oh_packs own),
                   ohr_head_packs = oh_head_packs own\<rparr>))"

definition INLINE_MAX :: nat where
  "INLINE_MAX = 32 * 1024"

definition INLINE_TOTAL :: nat where
  "INLINE_TOTAL = 64 * 1024"

fun inline_found :: "server_env \<Rightarrow> nat \<Rightarrow> string list \<Rightarrow> (string \<times> string) list" where
  "inline_found env so_far [] = []"
| "inline_found env so_far (h # hs) =
     (case get_small (sv_hashes env) h INLINE_MAX (sv_cas env) of
        None \<Rightarrow> inline_found env so_far hs
      | Some bytes \<Rightarrow>
          if so_far + length bytes > INLINE_TOTAL then []
          else (h, bytes) # inline_found env (so_far + length bytes) hs)"

definition inline_small :: "server_env \<Rightarrow> RefResponse \<Rightarrow> RefResponse" where
  "inline_small env r =
     (let hashes = filter (\<lambda>h. h \<noteq> []) [resp_clonepack_manifest r, resp_metadata_chunk r, resp_metadata_delta r] in
      r\<lparr>resp_inline := fold (\<lambda>(h, bytes) m. m(h \<mapsto> sv_base64 env bytes)) (inline_found env 0 hashes) (resp_inline r)\<rparr>)"

section \<open>The refs of a Full\<close>

text \<open>The ready branches with the tags of their own refresh.\<close>

definition ready_refs :: "RepoBranches \<Rightarrow> RepoRefs" where
  "ready_refs b = \<lparr>rr_tags_artifact = pt_artifact (rb_tags b), rr_tags_len = pt_len (rb_tags b), rr_tags_count = pt_count (rb_tags b),
     rr_tags_hash = pt_hash (rb_tags b), rr_branches = Some b, rr_ready = None\<rparr>"

definition force_pushed :: "BuildRow \<Rightarrow> BuildRow \<Rightarrow> bool" where
  "force_pushed row base \<longleftrightarrow> br_ref_name row \<noteq> None \<and> br_ref_name row = br_ref_name base \<and> br_seq row > br_seq base"

text \<open>The refs served with a Full and, when the clone needs it, the row of their base.\<close>

fun choose_refs :: "server_env \<Rightarrow> (nat \<Rightarrow> db) \<Rightarrow> nat \<Rightarrow> RepoId \<Rightarrow> BuildRow \<Rightarrow> RepoRefs list \<Rightarrow> (RepoRefs \<times> BuildRow option) option api" where
  "choose_refs env dbs n repo row [] = Inr None"
| "choose_refs env dbs n repo row (served # others) =
     (case Option.bind (Control.rr_branches served) rb_base of
        None \<Rightarrow> choose_refs env dbs n repo row others
      | Some base \<Rightarrow>
          if base = br_commit row \<or> in_history env repo base (br_commit row) then Inr (Some (served, None))
          else rbind (from_control (status (dbs n) repo base)) (\<lambda>found.
            case found of
              None \<Rightarrow> choose_refs env dbs (Suc n) repo row others
            | Some base_row \<Rightarrow>
                if force_pushed row base_row then Inr None
                else if out_ready (br_full base_row) \<noteq> None then Inr (Some (served, Some base_row))
                else choose_refs env dbs (Suc n) repo row others))"

definition ready_body :: "server_env \<Rightarrow> (nat \<Rightarrow> db) \<Rightarrow> nat \<Rightarrow> RepoId \<Rightarrow> ProviderInstance \<Rightarrow> BuildRow \<Rightarrow> ExactResultKind \<Rightarrow> OutputResponse api" where
  "ready_body env dbs n repo p row kind =
     (let refs = (case get_refs (dbs n) repo of Inl _ \<Rightarrow> None | Inr r \<Rightarrow> r) in
      rbind (ref_response env repo p row refs kind) (\<lambda>result.
      rbind (case refs of
               Some published \<Rightarrow> if kind = Full
                 then choose_refs env dbs (Suc n) repo row (published # (case Control.rr_ready published of None \<Rightarrow> [] | Some b \<Rightarrow> [ready_refs b]))
                 else Inr None
             | None \<Rightarrow> Inr None) (\<lambda>chosen.
      case chosen of
        None \<Rightarrow> Inr \<lparr>out_response = inline_small env result, out_refs_base = None\<rparr>
      | Some (served, base) \<Rightarrow>
          rbind (ref_response env repo p row (Some served) kind) (\<lambda>result.
          case base of
            None \<Rightarrow> Inr \<lparr>out_response = inline_small env result, out_refs_base = None\<rparr>
          | Some base_row \<Rightarrow>
              rbind (ref_response env repo p base_row (Some served) kind) (\<lambda>base_response.
              Inr \<lparr>out_response = inline_small env (result\<lparr>resp_own_history := own_history_ref env repo row (br_commit base_row)\<rparr>),
                   out_refs_base = Some (inline_small env base_response)\<rparr>)))))"

section \<open>Bodies\<close>

record build_summary_body =
  bs_commit :: string
  bs_head :: "unit Out"
  bs_files :: "unit Out"
  bs_full :: "unit Out"

definition summary_body :: "BuildRow \<Rightarrow> build_summary_body" where
  "summary_body row = \<lparr>bs_commit = br_commit row, bs_head = kind_state row Head, bs_files = kind_state row Files, bs_full = kind_state row Full\<rparr>"

datatype output_answer =
    ReadyAnswer OutputResponse
  | FailedAnswer string ExactResultKind string
  | PendingAnswer string ExactResultKind int "string option" "(string \<times> OutputResponse) option"

text \<open>The reads of \<open>latest_ready_full\<close> and of the base's row.\<close>

definition top_up_base :: "(nat \<Rightarrow> db) \<Rightarrow> nat \<Rightarrow> RepoId \<Rightarrow> BuildRow \<Rightarrow> BuildRow option api" where
  "top_up_base dbs n repo row =
     rbind (case br_ref_name row of
              None \<Rightarrow> Inr None
            | Some ref_name \<Rightarrow> rbind (from_control (latest_ready_full (dbs n) repo ref_name)) (\<lambda>found. Inr (map_option fst found))) (\<lambda>newest.
     case (case newest of Some c \<Rightarrow> Some c | None \<Rightarrow> br_parent row) of
       None \<Rightarrow> Inr None
     | Some base_commit \<Rightarrow>
         rbind (from_control (status (dbs (Suc n)) repo base_commit)) (\<lambda>found.
         Inr (Option.bind found (\<lambda>base. if out_ready (br_full base) \<noteq> None then Some base else None))))"

definition pending_body ::
    "server_env \<Rightarrow> (nat \<Rightarrow> db) \<Rightarrow> nat \<Rightarrow> RepoId \<Rightarrow> ProviderInstance \<Rightarrow> BuildRow \<Rightarrow> ExactResultKind \<Rightarrow> string option \<Rightarrow> output_answer api" where
  "pending_body env dbs n repo p row kind error =
     rbind (if kind = Full then top_up_base dbs n repo row else Inr None) (\<lambda>base.
     case base of
       Some b \<Rightarrow>
         if br_commit b = br_commit row then rbind (ready_body env dbs (n + 2) repo p b kind) (\<lambda>r. Inr (ReadyAnswer r))
         else rbind (ready_body env dbs (n + 2) repo p b Full) (\<lambda>r.
              Inr (PendingAnswer (br_commit row) kind (lease_attempts (build_row_lease row kind)) error (Some (br_commit b, r))))
     | None \<Rightarrow> Inr (PendingAnswer (br_commit row) kind (lease_attempts (build_row_lease row kind)) error None))"

definition output_body ::
    "server_env \<Rightarrow> (nat \<Rightarrow> db) \<Rightarrow> nat \<Rightarrow> RepoId \<Rightarrow> ProviderInstance \<Rightarrow> BuildRow \<Rightarrow> ExactResultKind \<Rightarrow> output_answer api" where
  "output_body env dbs n repo p row kind =
     (case kind_state row kind of
        OutReady _ \<Rightarrow> rbind (ready_body env dbs n repo p row kind) (\<lambda>r. Inr (ReadyAnswer r))
      | OutFailed error \<Rightarrow> Inr (FailedAnswer (br_commit row) kind error)
      | OutPending error \<Rightarrow> pending_body env dbs n repo p row kind error)"

datatype commit_answer = SummaryAnswer build_summary_body | OutputAnswer output_answer

definition get_commit ::
    "server_env \<Rightarrow> (nat \<Rightarrow> db) \<Rightarrow> RepoId \<Rightarrow> ProviderInstance \<Rightarrow> string \<Rightarrow> ExactResultKind option \<Rightarrow> commit_answer api" where
  "get_commit env dbs repo p commit kind =
     (if \<not> is_ok (validate_object_id commit) then Inl (ApiError 400 ''invalid_commit'')
      else rbind (from_control (status (dbs 0) repo commit)) (\<lambda>found.
           rbind (ok_or (ApiError 404 ''build_not_found'') found) (\<lambda>row.
           case kind of
             None \<Rightarrow> Inr (SummaryAnswer (summary_body row))
           | Some k \<Rightarrow> rbind (output_body env dbs 1 repo p row k) (\<lambda>body. Inr (OutputAnswer body)))))"

section \<open>Adding repositories and admitting builds\<close>

record BuildRequest =
  bq_selector :: string
  bq_retry :: bool
  bq_kind :: "ExactResultKind option"

record build_answer =
  ba_summary :: build_summary_body
  ba_checkout_name :: "string option"
  ba_tag :: "string option"
  ba_output :: "output_answer option"

definition admit_resolved ::
    "server_env \<Rightarrow> int \<Rightarrow> RepoId \<Rightarrow> ProviderInstance \<Rightarrow> Resolved \<Rightarrow> bool \<Rightarrow> ExactResultKind option \<Rightarrow> (nat \<Rightarrow> db) \<Rightarrow> db
       \<Rightarrow> build_answer api \<times> db \<times> Pool list" where
  "admit_resolved env now repo p resolved retry_failed kind later d =
     (case admit_build d now repo (rv_commit resolved) (rv_ref_name resolved) retry_failed of
        (Inl e, d', wakes) \<Rightarrow> (Inl control_unavailable, d', wakes)
      | (Inr (row, _), d', wakes) \<Rightarrow>
          (rbind (case kind of None \<Rightarrow> Inr None | Some k \<Rightarrow> rbind (output_body env later 0 repo p row k) (\<lambda>body. Inr (Some body))) (\<lambda>output.
           Inr \<lparr>ba_summary = summary_body row, ba_checkout_name = rv_checkout_name resolved,
                ba_tag = Option.bind (rv_ref_name resolved) (\<lambda>name. strip_prefix name ''refs/tags/''), ba_output = output\<rparr>), d', wakes))"

definition post_build ::
    "server_env \<Rightarrow> int \<Rightarrow> RepoId \<Rightarrow> ProviderInstance \<Rightarrow> BuildRequest \<Rightarrow> (db \<Rightarrow> db) \<Rightarrow> (nat \<Rightarrow> db) \<Rightarrow> db
       \<Rightarrow> build_answer api \<times> db \<times> Pool list" where
  "post_build env now repo p request between later d =
     (case selector_parse (bq_selector request) of
        Inl _ \<Rightarrow> (Inl (ApiError 400 ''invalid_selector''), d, [])
      | Inr selector \<Rightarrow>
          (case from_control (repo_is_added d repo) of
             Inl e \<Rightarrow> (Inl e, d, [])
           | Inr added \<Rightarrow>
               if \<not> added then (Inl repo_not_added, d, [])
               else (case resolve env repo p selector of
                       Inl e \<Rightarrow> (Inl e, between d, [])
                     | Inr resolved \<Rightarrow> admit_resolved env now repo p resolved (bq_retry request) (bq_kind request) later (between d))))"

definition add_repo_route ::
    "server_env \<Rightarrow> int \<Rightarrow> RepoId \<Rightarrow> ProviderInstance \<Rightarrow> string option \<Rightarrow> (db \<Rightarrow> db) \<Rightarrow> db \<Rightarrow> build_answer api \<times> db \<times> Pool list" where
  "add_repo_route env now repo p owner between d =
     (case resolve env repo p SelHead of
        Inl e \<Rightarrow> (Inl e, d, [])
      | Inr resolved \<Rightarrow>
          (let (_, d1) = add_repo d now repo owner in
           admit_resolved env now repo p resolved True None (\<lambda>_. between d1) (between d1)))"

definition remove_added_repo :: "db \<Rightarrow> RepoId \<Rightarrow> unit api \<times> db" where
  "remove_added_repo d repo =
     (let (removed, d') = remove_repo d repo in (if removed then Inr () else Inl repo_not_added, d'))"

definition repo_usage :: "db \<Rightarrow> RepoId \<Rightarrow> RepoUsage api" where
  "repo_usage d repo = rbind (from_control (usage d repo)) (\<lambda>found. ok_or (ApiError 404 ''repo_unknown'') found)"

section \<open>Status\<close>

text \<open>Lengths are u64 and their sums wrap.\<close>

record ExactStatusEntry =
  es_commit :: string
  es_bytes :: "64 word"
  es_unique_bytes :: "64 word"
  es_head :: bool
  es_full :: bool
  es_files :: bool
  es_job :: string
  es_job_error :: "string option"

record RepoStatusResponse =
  st_owner :: string
  st_repo :: string
  st_added :: bool
  st_refs :: "ExactStatusEntry list"
  st_total_bytes :: "64 word"
  st_total_unique_bytes :: "64 word"
  st_regions :: "(string \<times> 64 word) list"

type_synonym chunk_sizes = "(string \<times> 64 word) list"

definition record_chunk :: "string \<Rightarrow> 64 word \<Rightarrow> chunk_sizes \<Rightarrow> chunk_sizes" where
  "record_chunk h len sizes = (if h = [] \<or> len = 0 then sizes else AList.update h len sizes)"

definition count_chunk :: "string \<Rightarrow> 64 word \<Rightarrow> 64 word \<times> chunk_sizes \<Rightarrow> 64 word \<times> chunk_sizes" where
  "count_chunk h len acc = (fst acc + len, record_chunk h len (snd acc))"

definition build_summary :: "BuildRow \<Rightarrow> string \<times> string option" where
  "build_summary row =
     (let states = [kind_state row Head, kind_state row Full, kind_state row Files] in
      if list_ex is_pending states then (''pending'', None)
      else (case List.map_filter (\<lambda>s. case s of OutFailed error \<Rightarrow> Some error | _ \<Rightarrow> None) states of
              error # _ \<Rightarrow> (''failed'', Some error)
            | [] \<Rightarrow> (''done'', None)))"

record status_env =
  se_get :: "string \<Rightarrow> string option"
  se_decode_manifest :: "string \<Rightarrow> ClonepackManifest option"
  se_hex :: "8 word list \<Rightarrow> string"
  se_regions :: "string list"

definition read_manifests :: "status_env \<Rightarrow> string list \<Rightarrow> (string \<times> string) list option" where
  "read_manifests env wanted = those (map (\<lambda>h. map_option (Pair h) (se_get env h)) wanted)"

definition count_manifest :: "status_env \<Rightarrow> (string \<times> string) list \<Rightarrow> string \<Rightarrow> 64 word \<times> chunk_sizes \<Rightarrow> (64 word \<times> chunk_sizes) option" where
  "count_manifest env manifests h acc =
     Option.bind (map_of (rev manifests) h) (\<lambda>bytes.
     Option.bind (se_decode_manifest env bytes) (\<lambda>manifest.
     Some (fold (\<lambda>chunk. count_chunk (se_hex env (cr_hash chunk)) (cr_len chunk)) (manifest_chunk_refs manifest)
       (count_chunk h (of_nat (length bytes)) acc))))"

fun count_manifests :: "status_env \<Rightarrow> (string \<times> string) list \<Rightarrow> string list \<Rightarrow> 64 word \<times> chunk_sizes \<Rightarrow> (64 word \<times> chunk_sizes) option" where
  "count_manifests env manifests [] acc = Some acc"
| "count_manifests env manifests (h # hs) acc = Option.bind (count_manifest env manifests h acc) (count_manifests env manifests hs)"

definition count_named :: "string \<Rightarrow> nat \<Rightarrow> 64 word \<times> chunk_sizes \<Rightarrow> 64 word \<times> chunk_sizes" where
  "count_named h len acc = (if h = [] then acc else count_chunk h (of_nat len) acc)"

definition count_history :: "FullResult \<Rightarrow> 64 word \<times> chunk_sizes \<Rightarrow> 64 word \<times> chunk_sizes" where
  "count_history full =
     fold (\<lambda>level. fold (\<lambda>pack acc. count_named (sp_idx pack) (sp_idx_len pack) (count_named (sp_pack pack) (sp_pack_len pack) acc)) (hl_packs level))
       (fr_history_levels full)"

definition status_entry ::
    "status_env \<Rightarrow> (string \<times> string) list \<Rightarrow> bool \<Rightarrow> BuildRow \<Rightarrow> chunk_sizes \<Rightarrow> (ExactStatusEntry \<times> chunk_sizes) option" where
  "status_entry env manifests public_fork row sizes =
     (let info = row_info row; commit = ri_commit info in
      Option.bind (count_manifests env manifests (collect_manifest_hashes info) (0, sizes)) (\<lambda>counted.
      let (ref_bytes, sizes') = (case ri_full info of
              Some full \<Rightarrow> if exact_output_ready info Full commit then count_history full counted else counted
            | None \<Rightarrow> counted);
          (job, job_error) = build_summary row in
      Some (\<lparr>es_commit = commit, es_bytes = ref_bytes, es_unique_bytes = (if public_fork then 0 else ref_bytes),
             es_head = exact_output_ready info Head commit, es_full = exact_output_ready info Full commit,
             es_files = exact_output_ready info Files commit, es_job = job, es_job_error = job_error\<rparr>, sizes')))"

fun status_entries ::
    "status_env \<Rightarrow> (string \<times> string) list \<Rightarrow> bool \<Rightarrow> BuildRow list \<Rightarrow> chunk_sizes \<Rightarrow> (ExactStatusEntry list \<times> chunk_sizes) option" where
  "status_entries env manifests public_fork [] sizes = Some ([], sizes)"
| "status_entries env manifests public_fork (row # rows) sizes =
     Option.bind (status_entry env manifests public_fork row sizes) (\<lambda>(entry, sizes').
     Option.bind (status_entries env manifests public_fork rows sizes') (\<lambda>(entries, sizes'').
     Some (entry # entries, sizes'')))"

definition build_repo_status :: "status_env \<Rightarrow> (nat \<Rightarrow> db) \<Rightarrow> RepoId \<Rightarrow> bool \<Rightarrow> string option \<Rightarrow> RepoStatusResponse option" where
  "build_repo_status env dbs repo is_public fork_of =
     (case list_builds (dbs 0) repo of
        Inl _ \<Rightarrow> None
      | Inr rows \<Rightarrow>
          Option.bind (read_manifests env (concat (map (\<lambda>row. collect_manifest_hashes (row_info row)) rows))) (\<lambda>manifests.
          let public_fork = (is_public \<and> fork_of \<noteq> None) in
          Option.bind (status_entries env manifests public_fork rows []) (\<lambda>(refs, sizes).
          let total_bytes = sum_list (map snd sizes);
              total_unique = (if public_fork then 0 else total_bytes);
              (owner, name) = (case github_owner_repo repo of Some (o', r) \<Rightarrow> (o', r) | None \<Rightarrow> ([], [])) in
          case get_repo (dbs 1) repo of
            Inl _ \<Rightarrow> None
          | Inr found \<Rightarrow>
              Some \<lparr>st_owner = owner, st_repo = name, st_added = (found \<noteq> None), st_refs = sort_key es_commit refs,
                st_total_bytes = total_bytes, st_total_unique_bytes = total_unique,
                st_regions = map (\<lambda>region. (region, total_unique)) (se_regions env)\<rparr>)))"

section \<open>Routes\<close>

fun rsplit_str :: "string \<Rightarrow> string \<Rightarrow> (string \<times> string) option" where
  "rsplit_str sep [] = (if sep = [] then Some ([], []) else None)"
| "rsplit_str sep (c # s) =
     (case rsplit_str sep s of
        Some (a, b) \<Rightarrow> Some (c # a, b)
      | None \<Rightarrow> map_option (\<lambda>rest. ([], rest)) (strip_prefix (c # s) sep))"

text \<open>The query string and the JSON bodies, as serde reads them: None is its error.\<close>

record parsed_request =
  rq_commit_kind :: "ExactResultKind option option"
  rq_status :: "(bool \<times> string option) option"
  rq_add :: "string option option"
  rq_build :: "BuildRequest option"
  rq_body_empty :: bool

datatype get_answer = CommitReply "commit_answer api" | UsageReply "RepoUsage api" | StatusReply "RepoStatusResponse option"
  | RouteError ApiError | RouteNotFound | BadQuery

definition dispatch_repos_get :: "server_env \<Rightarrow> status_env \<Rightarrow> (nat \<Rightarrow> db) \<Rightarrow> string \<Rightarrow> parsed_request \<Rightarrow> get_answer" where
  "dispatch_repos_get env senv dbs path request =
     (case rsplit_str ''/commits/'' path of
        Some (repo_path, commit) \<Rightarrow>
          (case repo_from_path env repo_path of
             Inl e \<Rightarrow> RouteError e
           | Inr (repo, p) \<Rightarrow>
               (case rq_commit_kind request of
                  None \<Rightarrow> RouteError invalid_request
                | Some kind \<Rightarrow> CommitReply (get_commit env dbs repo p commit kind)))
      | None \<Rightarrow>
          (case strip_suffix path ''/usage'' of
             Some repo_path \<Rightarrow>
               (case repo_from_path env repo_path of
                  Inl e \<Rightarrow> RouteError e
                | Inr (repo, _) \<Rightarrow> UsageReply (repo_usage (dbs 0) repo))
           | None \<Rightarrow>
               (case strip_suffix path ''/status'' of
                  Some repo_path \<Rightarrow>
                    (case repo_from_path env repo_path of
                       Inl e \<Rightarrow> RouteError e
                     | Inr (repo, _) \<Rightarrow>
                         (case rq_status request of
                            None \<Rightarrow> BadQuery
                          | Some (is_public, fork_of) \<Rightarrow> StatusReply (build_repo_status senv dbs repo is_public fork_of)))
                | None \<Rightarrow> RouteNotFound)))"

definition OWNER_MAX :: nat where
  "OWNER_MAX = 256"

datatype post_answer = BuildReply "build_answer api" | PostError ApiError | PostNotFound

definition dispatch_repos_post ::
    "server_env \<Rightarrow> int \<Rightarrow> string \<Rightarrow> parsed_request \<Rightarrow> (db \<Rightarrow> db) \<Rightarrow> (nat \<Rightarrow> db) \<Rightarrow> db \<Rightarrow> post_answer \<times> db \<times> Pool list" where
  "dispatch_repos_post env now path request between later d =
     (case strip_suffix path ''/add'' of
        Some repo_path \<Rightarrow>
          (case repo_from_path env repo_path of
             Inl e \<Rightarrow> (PostError e, d, [])
           | Inr (repo, p) \<Rightarrow>
               (case (if rq_body_empty request then Some None else rq_add request) of
                  None \<Rightarrow> (PostError invalid_request, d, [])
                | Some owner \<Rightarrow>
                    if (case owner of Some o' \<Rightarrow> length o' > OWNER_MAX \<or> has_control o' | None \<Rightarrow> False) then (PostError invalid_request, d, [])
                    else (let (answer, d', wakes) = add_repo_route env now repo p owner between d in (BuildReply answer, d', wakes))))
      | None \<Rightarrow>
          (case strip_suffix path ''/builds'' of
             Some repo_path \<Rightarrow>
               (case repo_from_path env repo_path of
                  Inl e \<Rightarrow> (PostError e, d, [])
                | Inr (repo, p) \<Rightarrow>
                    (case rq_build request of
                       None \<Rightarrow> (PostError invalid_request, d, [])
                     | Some build_request \<Rightarrow>
                         (let (answer, d', wakes) = post_build env now repo p build_request between later d in (BuildReply answer, d', wakes))))
           | None \<Rightarrow> (PostNotFound, d, [])))"

datatype delete_answer = NoContent | DeleteError ApiError

definition dispatch_repos_delete :: "server_env \<Rightarrow> int \<Rightarrow> duration \<Rightarrow> string \<Rightarrow> db \<Rightarrow> delete_answer \<times> db" where
  "dispatch_repos_delete env now signed_url_ttl path d =
     (case strip_suffix path ''/add'' of
        Some repo_path \<Rightarrow>
          (case repo_from_path env repo_path of
             Inl e \<Rightarrow> (DeleteError e, d)
           | Inr (repo, _) \<Rightarrow> (case remove_added_repo d repo of (Inl e, d') \<Rightarrow> (DeleteError e, d') | (Inr _, d') \<Rightarrow> (NoContent, d')))
      | None \<Rightarrow>
          (case repo_from_path env path of
             Inl e \<Rightarrow> (DeleteError e, d)
           | Inr (repo, _) \<Rightarrow> (NoContent, snd (purge d now signed_url_ttl repo))))"

definition list_added_repos :: "db \<Rightarrow> RepoId list option" where
  "list_added_repos d = (case list_repos d of Inl _ \<Rightarrow> None | Inr repos \<Rightarrow> Some (map ar_repo_id repos))"

end
