(* ===== verification/Api_Props.thy ===== *)
theory Api_Props
  imports Api Download Refs_Publish
begin

text \<open>
  What the answers of the repository routes (\<open>Api\<close>) promise a client: the output of the commit it asked for, artifacts
  the control store records, and refs the clone can complete.
\<close>

section \<open>Rows as read\<close>

definition recorded :: "db \<Rightarrow> RepoId \<Rightarrow> string set" where
  "recorded d repo = {h. (storage_key repo, h) \<in> set (artifact_refs d)}"

definition row_of :: "db \<Rightarrow> RepoId \<Rightarrow> BuildRow \<Rightarrow> bool" where
  "row_of d repo row \<longleftrightarrow> (\<exists>b \<in> set (builds d). b_repo b = storage_key repo \<and> decode_build b = Inr row)"

lemma status_row: "status d repo commit = Inr (Some row) \<Longrightarrow> row_of d repo row \<and> br_commit row = commit"
  using find_build_in by (fastforce simp: status_def select_build_def row_of_def rbind_Inr decode_build_def split: option.splits)

lemma status_total:
  assumes "wf_db s d"
  shows "\<exists>found. status d repo commit = Inr found"
proof (cases "find_build d (storage_key repo) commit")
  case (Some b)
  obtain row where "decode_build b = Inr row" using decode_build_total[OF wf_row[OF assms]] find_build_in[OF Some] by blast
  then show ?thesis using Some by (simp add: status_def select_build_def)
qed (simp add: status_def select_build_def)

lemma latest_total:
  assumes "wf_db s d"
  shows "\<exists>found. latest_ready_full d repo ref_name = Inr found"
proof (cases "first_row (order_by (\<lambda>b. - b_seq b) (filter (\<lambda>b. b_ref_name b = Some ref_name \<and> k_state (b_full b) = Ready) (repo_builds d (storage_key repo))))")
  case None
  then show ?thesis unfolding latest_ready_full_def None by simp
next
  case (Some b)
  then have b: "b \<in> set (builds d)" "k_state (b_full b) = Ready" by (auto dest!: first_row_in simp: repo_builds_def)
  then obtain out where "k_output (b_full b) = Some out" "stored_kind out = Full"
    using row_ok_cols[OF wf_row[OF assms b(1)], of Full] by (auto simp: cols_ok_def Let_def)
  then show ?thesis unfolding latest_ready_full_def Some by (cases out) (auto simp: ok_or_def)
qed

lemma decoded_ready:
  "decode_out kind json b = Inr r \<Longrightarrow> k_state (cols b kind) = Ready \<Longrightarrow> k_output (cols b kind) = Some out \<Longrightarrow> \<exists>t. json out = Some t \<and> r = OutReady t"
  by (auto simp: decode_out_def Let_def rbind_Inr ok_or_def split: option.splits)

lemma ready_output:
  assumes "wf_db s d" "row_of d repo row" "is_ready (kind_state row kind)"
  obtains out where "stored_kind out = kind" "exact_output_artifacts_ready (br_commit row) kind (stored_clonepack out)"
    "set (stored_artifacts out) \<subseteq> recorded d repo" "exact_result_clonepack (row_info row) kind = Some (stored_clonepack out)"
    "\<And>full. out = StoredFull full \<Longrightarrow> out_ready (br_full row) = Some full"
proof -
  obtain b where b: "b \<in> set (builds d)" "b_repo b = storage_key repo" "decode_build b = Inr row" using assms(2) by (auto simp: row_of_def)
  have "k_state (cols b kind) = Ready" using decoded_states(3)[OF b(3)] assms(3) by simp
  then obtain out where out: "k_output (cols b kind) = Some out" "stored_kind out = kind"
    "exact_output_artifacts_ready (b_commit b) kind (stored_clonepack out)" "names_recorded (set (artifact_refs d)) (b_repo b) (stored_artifacts out)"
    using row_ok_cols[OF wf_row[OF assms(1) b(1)], of kind] by (auto simp: cols_ok_def Let_def)
  have dec: "decode_out Head head_json b = Inr (br_head row)" "decode_out Files files_json b = Inr (br_files row)"
    "decode_out Full full_json b = Inr (br_full row)" "br_commit row = b_commit b"
    using b(3) by (auto simp: decode_build_def rbind_Inr)
  have state: "k_state (cols b kind) = Ready" by fact
  show ?thesis
  proof (rule that)
    show "set (stored_artifacts out) \<subseteq> recorded d repo" using out(4) b(2) by (auto simp: names_recorded_def recorded_def)
    show "exact_result_clonepack (row_info row) kind = Some (stored_clonepack out)"
    proof (cases kind)
      case Head
      then show ?thesis using decoded_ready[OF dec(1)] out(1,2) state by (cases out) (auto simp: row_info_def)
    next
      case Full
      then show ?thesis using decoded_ready[OF dec(3)] out(1,2) state by (cases out) (auto simp: row_info_def)
    next
      case Files
      then show ?thesis using decoded_ready[OF dec(2)] out(1,2) state by (cases out) (auto simp: row_info_def)
    qed
    show "out_ready (br_full row) = Some full" if "out = StoredFull full" for full
      using that decoded_ready[OF dec(3), of out] out(1,2) state by auto
  qed (use out dec(4) in simp_all)
qed

lemma full_recorded:
  assumes "wf_db s d" "row_of d repo row" "out_ready (br_full row) = Some full"
  shows "set (full_artifacts full) \<subseteq> recorded d repo"
proof -
  have "is_ready (kind_state row Full)" using assms(3) by (cases "br_full row") auto
  from ready_output[OF assms(1,2) this] obtain out where "stored_kind out = Full" "set (stored_artifacts out) \<subseteq> recorded d repo"
    "\<And>full. out = StoredFull full \<Longrightarrow> out_ready (br_full row) = Some full" by metis
  then show ?thesis using assms(3) by (cases out) auto
qed

section \<open>Refs as read\<close>

lemma get_refs_total:
  assumes "wf_db s d"
  shows "\<exists>found. get_refs d repo = Inr found \<and> (case found of None \<Rightarrow> True | Some refs \<Rightarrow> set (refs_artifacts refs) \<subseteq> recorded d repo)"
proof (cases "map_of (repo_refs d) (storage_key repo)")
  case (Some row)
  then have mem: "(storage_key repo, row) \<in> set (repo_refs d)" by (rule map_of_SomeD)
  then have "0 \<le> rf_tags_len row" "0 \<le> rf_tags_count row" using assms by (auto simp: wf_db_def tables_ok_def refs_ok_def)
  then have "get_refs d repo = Inr (Some (row_refs row))" using Some by (simp add: get_refs_def read_number_def row_refs_def)
  then show ?thesis using refs_row_referenced[OF assms mem] by (auto simp: recorded_def)
qed (simp add: get_refs_def)

lemma ready_refs_artifacts: "Control.rr_ready refs = Some b \<Longrightarrow> set (refs_artifacts (ready_refs b)) \<subseteq> set (refs_artifacts refs)"
  by (auto simp: refs_artifacts_def ready_refs_def branches_artifacts_def List.map_filter_def)

lemma refs_hashes:
  assumes "set (refs_artifacts refs) \<subseteq> S"
  shows "rr_tags_artifact refs \<noteq> [] \<Longrightarrow> rr_tags_artifact refs \<in> S"
    and "Control.rr_branches refs = Some b \<Longrightarrow> h \<in> set (rb_artifact b # side_ref_hashes (map (side_pack_ref env) (rb_side_packs b))) \<Longrightarrow> h \<noteq> [] \<Longrightarrow> h \<in> S"
  using assms by (auto simp: refs_artifacts_def branches_artifacts_def List.map_filter_def side_ref_hashes_def side_pack_ref_def)

section \<open>Responses\<close>

lemma ref_response_fields:
  assumes "exact_result_clonepack (row_info row) kind = Some a"
  obtains r where "ref_response env repo p row refs kind = Inr r" "resp_commit r = ca_commit a" "resp_kind r = kind"
    "resp_clonepack_manifest r = ca_manifest a" "resp_metadata_chunk r = ca_metadata_chunk a" "resp_metadata_delta r = ca_metadata_delta a"
    "resp_tags_artifact r = Option.bind refs (\<lambda>r. if rr_tags_count r > 0 then Some (rr_tags_artifact r) else None)"
    "resp_branches r = (if kind = Full then map_option (branches_ref env) (Option.bind refs Control.rr_branches) else None)"
    "resp_own_history r = None" "resp_inline r = Map.empty"
    "resp_pack_chunk_urls r = signed_list env (map pa_pack (result_packs (row_info row) kind))"
proof -
  define r where "r = projr (ref_response env repo p row refs kind)"
  show ?thesis
    by (rule that[of r]) (simp_all add: r_def ref_response_def Let_def ok_or_def assms split: prod.split option.split)
qed

lemma response_hashes_iff:
  "h \<in> set (response_hashes r) \<longleftrightarrow> h \<in> {resp_clonepack_manifest r, resp_metadata_chunk r, resp_metadata_delta r} \<or> resp_tags_artifact r = Some h
     \<or> (\<exists>b. resp_branches r = Some b \<and> (h = bref_artifact b \<or> h \<in> set (side_ref_hashes (bref_side_packs b))))
     \<or> (\<exists>own. resp_own_history r = Some own \<and> h \<in> set (side_ref_hashes (ohr_packs own)))"
  by (cases "resp_tags_artifact r"; cases "resp_branches r"; cases "resp_own_history r") (auto simp: response_hashes_def)

lemma ref_response_good:
  assumes "wf_db s d" "row_of d repo row" "is_ready (kind_state row kind)" "case refs of None \<Rightarrow> True | Some r \<Rightarrow> set (refs_artifacts r) \<subseteq> S"
  obtains r where "ref_response env repo p row refs kind = Inr r" "validate_output r (br_commit row) kind = Inr ()"
    "set (response_hashes r) - {[]} \<subseteq> recorded d repo \<union> S" "resp_inline r = Map.empty"
    "resp_branches r = (if kind = Full then map_option (branches_ref env) (Option.bind refs Control.rr_branches) else None)"
    "resp_commit r = br_commit row" "resp_own_history r = None"
proof -
  obtain out where out: "stored_kind out = kind" "exact_output_artifacts_ready (br_commit row) kind (stored_clonepack out)"
    "set (stored_artifacts out) \<subseteq> recorded d repo" "exact_result_clonepack (row_info row) kind = Some (stored_clonepack out)"
    by (rule ready_output[OF assms(1-3)])
  let ?a = "stored_clonepack out"
  have ready: "ca_commit ?a = br_commit row" "ca_manifest ?a \<noteq> []"
    using out(2) exact_ready_manifest_nonempty[OF out(2)] by (auto simp: exact_output_artifacts_ready_def Let_def split: if_splits)
  have files: "set (clonepack_artifacts (fl_clonepack f)) \<subseteq> set (files_parts f)" for f by (cases f rule: files_parts.cases) auto
  have named: "set (clonepack_artifacts ?a) - {[]} \<subseteq> recorded d repo"
    using out(3) files by (cases out) (auto simp: head_names.artifacts_parts files_names.artifacts_parts full_names.artifacts_parts head_parts_def full_parts_def)
  obtain r where r: "ref_response env repo p row refs kind = Inr r"
    and fields: "resp_commit r = ca_commit ?a" "resp_kind r = kind"
    "resp_clonepack_manifest r = ca_manifest ?a" "resp_metadata_chunk r = ca_metadata_chunk ?a" "resp_metadata_delta r = ca_metadata_delta ?a"
    "resp_tags_artifact r = Option.bind refs (\<lambda>r. if rr_tags_count r > 0 then Some (rr_tags_artifact r) else None)"
    "resp_branches r = (if kind = Full then map_option (branches_ref env) (Option.bind refs Control.rr_branches) else None)"
    "resp_own_history r = None" "resp_inline r = Map.empty"
    by (rule ref_response_fields[OF out(4)])
  show ?thesis
  proof (rule that[OF r])
    show "validate_output r (br_commit row) kind = Inr ()"
      using ready by (simp add: fields validate_output_def ensure_def)
    show "set (response_hashes r) - {[]} \<subseteq> recorded d repo \<union> S"
    proof
      fix h
      assume "h \<in> set (response_hashes r) - {[]}"
      then have h: "h \<noteq> []" "h \<in> set (response_hashes r)" by simp_all
      from h(2) consider (own) "h \<in> {ca_manifest ?a, ca_metadata_chunk ?a, ca_metadata_delta ?a}"
        | (tags) x where "refs = Some x" "h = rr_tags_artifact x"
        | (branches) x b where "refs = Some x" "Control.rr_branches x = Some b" "h \<in> set (rb_artifact b # side_ref_hashes (map (side_pack_ref env) (rb_side_packs b)))"
        unfolding response_hashes_iff fields by (auto simp: Option.bind_eq_Some_conv branches_ref_def split: if_splits)
      then show "h \<in> recorded d repo \<union> S"
      proof cases
        case own
        then show ?thesis using named h(1) by (auto simp: clonepack_artifacts_def)
      next
        case tags
        then show ?thesis using refs_hashes(1)[of x S] assms(4) h(1) by simp
      next
        case branches
        then show ?thesis using refs_hashes(2)[of x S b h env] assms(4) h(1) by simp
      qed
    qed
  qed (use ready in \<open>simp_all add: fields\<close>)
qed

section \<open>Inline artifacts\<close>

text \<open>Every inline artifact is the encoding of bytes with its hash.\<close>

definition inline_right :: "server_env \<Rightarrow> RefResponse \<Rightarrow> bool" where
  "inline_right env r \<longleftrightarrow> (\<forall>h e. resp_inline r h = Some e \<longrightarrow>
     (\<exists>bytes. e = sv_base64 env bytes \<and> object_hash (sv_hashes env) h bytes = h \<and> length bytes \<le> INLINE_MAX))"

lemma inline_found_right:
  "(h, bytes) \<in> set (inline_found env so_far hs) \<Longrightarrow> object_hash (sv_hashes env) h bytes = h \<and> length bytes \<le> INLINE_MAX"
  by (induction env so_far hs rule: inline_found.induct)
     (auto simp: get_small_def split: option.splits sum.splits if_splits)

lemma fold_inline:
  "fold (\<lambda>(h, bytes) m. m(h \<mapsto> enc bytes)) found m0 h = Some e \<Longrightarrow> m0 h = Some e \<or> (\<exists>bytes. (h, bytes) \<in> set found \<and> e = enc bytes)"
proof (induction found arbitrary: m0)
  case (Cons x found)
  obtain g b where x: "x = (g, b)" by fastforce
  have "(m0(g \<mapsto> enc b)) h = Some e \<or> (\<exists>bytes. (h, bytes) \<in> set found \<and> e = enc bytes)"
    using Cons.IH[of "m0(g \<mapsto> enc b)"] Cons.prems x by (simp del: fun_upd_apply)
  then show ?case unfolding x by (cases "h = g") auto
qed simp

lemma inline_small_right:
  assumes "resp_inline r = Map.empty"
  shows "inline_right env (inline_small env r)"
  unfolding inline_right_def
proof (intro allI impI)
  fix h e
  assume "resp_inline (inline_small env r) h = Some e"
  then have "fold (\<lambda>(h, bytes) m. m(h \<mapsto> sv_base64 env bytes))
      (inline_found env 0 (filter (\<lambda>h. h \<noteq> []) [resp_clonepack_manifest r, resp_metadata_chunk r, resp_metadata_delta r])) Map.empty h = Some e"
    unfolding inline_small_def Let_def using assms by (simp del: filter.simps)
  from fold_inline[OF this] obtain bytes so_far hs where "(h, bytes) \<in> set (inline_found env so_far hs)" "e = sv_base64 env bytes"
    by blast
  then show "\<exists>bytes. e = sv_base64 env bytes \<and> object_hash (sv_hashes env) h bytes = h \<and> length bytes \<le> INLINE_MAX"
    using inline_found_right by blast
qed

lemma inline_small_same [simp]:
  "resp_commit (inline_small env r) = resp_commit r" "resp_branches (inline_small env r) = resp_branches r"
  "response_hashes (inline_small env r) = response_hashes r" "validate_output (inline_small env r) c k = validate_output r c k"
  "resp_own_history (inline_small env r) = resp_own_history r"
  by (simp_all add: inline_small_def Let_def response_hashes_def validate_output_def)

section \<open>The refs of a Full\<close>

lemma choose_refs_total:
  assumes "\<And>n. wf_db s (dbs n)"
  shows "\<exists>chosen. choose_refs env dbs n repo row cands = Inr chosen"
proof (induction cands arbitrary: n)
  case (Cons served others)
  have "\<exists>found. status (dbs n) repo base = Inr found" for base by (rule status_total[OF assms])
  note total = this
  show ?case
  proof (cases "Option.bind (Control.rr_branches served) rb_base")
    case None
    then show ?thesis using Cons by simp
  next
    case (Some base)
    obtain found where "status (dbs n) repo base = Inr found" using total by blast
    then show ?thesis using Some Cons[of "Suc n"] by (cases found) (simp_all add: from_control_def)
  qed
qed simp

text \<open>The refs that are served name a base the clone gets: its own commit, a commit of its history, or a ready Full.\<close>

definition base_served :: "server_env \<Rightarrow> (nat \<Rightarrow> db) \<Rightarrow> RepoId \<Rightarrow> BuildRow \<Rightarrow> BuildRow option \<Rightarrow> string \<Rightarrow> bool" where
  "base_served env dbs repo row base c \<longleftrightarrow>
     (case base of
        None \<Rightarrow> c = br_commit row \<or> in_history env repo c (br_commit row)
      | Some base_row \<Rightarrow> (\<exists>k. row_of (dbs k) repo base_row) \<and> br_commit base_row = c \<and> out_ready (br_full base_row) \<noteq> None)"

lemma choose_refs_Some:
  "choose_refs env dbs n repo row cands = Inr (Some (served, base)) \<Longrightarrow>
     served \<in> set cands \<and> (\<exists>b c. Control.rr_branches served = Some b \<and> rb_base b = Some c \<and> base_served env dbs repo row base c)"
proof (induction cands arbitrary: n)
  case (Cons x others)
  show ?case
  proof (cases "Option.bind (Control.rr_branches x) rb_base")
    case None
    then show ?thesis using Cons by simp
  next
    case (Some c)
    then obtain b where b: "Control.rr_branches x = Some b" "rb_base b = Some c" by (auto simp: Option.bind_eq_Some_conv)
    show ?thesis
    proof (cases "c = br_commit row \<or> in_history env repo c (br_commit row)")
      case True
      then have "served = x" "base = None" using Cons.prems Some by auto
      then show ?thesis using b True by (auto simp: base_served_def)
    next
      case False
      obtain found where found: "status (dbs n) repo c = Inr found"
        using Cons.prems Some False by (cases "status (dbs n) repo c") (auto simp: from_control_def)
      note run = Cons.prems[simplified, unfolded Some, simplified, unfolded found from_control_def, simplified]
      show ?thesis
      proof (cases found)
        case None
        then show ?thesis using Cons.IH[of "Suc n"] run False by simp
      next
        case base_row: (Some base_row)
        show ?thesis
        proof (cases "out_ready (br_full base_row) = None")
          case True
          then show ?thesis using Cons.IH[of "Suc n"] run False base_row by (simp split: if_splits)
        next
          case ready: False
          then have "served = x" "base = Some base_row" using run False base_row by (auto split: if_splits)
          then show ?thesis using b ready status_row[of "dbs n" repo c base_row] found base_row by (auto simp: base_served_def)
        qed
      qed
    qed
  qed
qed simp

text \<open>No refs are chosen only when the newest ones cannot be completed or are superseded.\<close>

lemma choose_refs_None:
  assumes "choose_refs env dbs n repo row (published # others) = Inr None" "Control.rr_branches published = Some b" "rb_base b = Some c"
  shows "c \<noteq> br_commit row \<and> \<not> in_history env repo c (br_commit row)
    \<and> (\<forall>base_row. status (dbs n) repo c = Inr (Some base_row) \<longrightarrow> out_ready (br_full base_row) = None \<or> force_pushed row base_row)"
  using assms by (auto simp: from_control_def split: if_splits)

section \<open>Ready answers\<close>

text \<open>What a client may rely on of a ready answer for a commit's output.\<close>

definition answer_right :: "server_env \<Rightarrow> (nat \<Rightarrow> db) \<Rightarrow> RepoId \<Rightarrow> string \<Rightarrow> ExactResultKind \<Rightarrow> OutputResponse \<Rightarrow> bool" where
  "answer_right env dbs repo commit kind r \<longleftrightarrow>
     validate_output (out_response r) commit kind = Inr () \<and> inline_right env (out_response r)
     \<and> set (output_hashes r) - {[]} \<subseteq> (\<Union>n. recorded (dbs n) repo)
     \<and> (case out_refs_base r of None \<Rightarrow> True | Some base \<Rightarrow>
          kind = Full \<and> validate_output base (resp_commit base) Full = Inr () \<and> inline_right env base)"

lemma own_history_hashes:
  assumes "wf_db s d" "row_of d repo row" "own_history_ref env repo row base = Some own"
  shows "set (side_ref_hashes (ohr_packs own)) - {[]} \<subseteq> recorded d repo"
proof -
  obtain full o' where full: "out_ready (br_full row) = Some full" "fr_own_history full = Some o'"
    and own: "set (side_ref_hashes (ohr_packs own)) = set (sized_artifacts (oh_packs o'))"
    using assms(3) by (auto simp: own_history_ref_def Option.bind_eq_Some_conv side_ref_hashes_def sized_artifacts_def split: if_splits)
  have "set (sized_artifacts (oh_packs o')) - {[]} \<subseteq> set (full_artifacts full)" using full(2) by (auto simp: full_names.artifacts_parts full_parts_def)
  then show ?thesis using full_recorded[OF assms(1,2) full(1)] own by blast
qed

lemma answer_rightI:
  assumes "validate_output x commit kind = Inr ()" "resp_inline x = Map.empty" "set (response_hashes x) - {[]} \<subseteq> (\<Union>n. recorded (dbs n) repo)"
    and "\<And>own. resp_own_history y = Some own \<Longrightarrow> set (side_ref_hashes (ohr_packs own)) - {[]} \<subseteq> (\<Union>n. recorded (dbs n) repo)"
    and "y = x\<lparr>resp_own_history := own'\<rparr>"
    and "\<And>z. base = Some z \<Longrightarrow> kind = Full \<and> validate_output z (resp_commit z) Full = Inr () \<and> resp_inline z = Map.empty
      \<and> set (response_hashes z) - {[]} \<subseteq> (\<Union>n. recorded (dbs n) repo)"
  shows "answer_right env dbs repo commit kind \<lparr>out_response = inline_small env y, out_refs_base = map_option (inline_small env) base\<rparr>"
proof -
  have "set (response_hashes y) - {[]} \<subseteq> (\<Union>n. recorded (dbs n) repo)"
  proof
    fix h
    assume h: "h \<in> set (response_hashes y) - {[]}"
    then have "h \<in> set (response_hashes x) \<or> (\<exists>own. resp_own_history y = Some own \<and> h \<in> set (side_ref_hashes (ohr_packs own)))"
      using assms(5) by (auto simp: response_hashes_iff)
    then show "h \<in> (\<Union>n. recorded (dbs n) repo)" using h assms(3,4) by blast
  qed
  moreover have "validate_output y commit kind = Inr ()" "resp_inline y = Map.empty" using assms(1,2,5) by (simp_all add: validate_output_def)
  ultimately show ?thesis
    using assms(6) inline_small_right by (cases base) (auto simp: answer_right_def output_hashes_def)
qed

lemma ready_body_right:
  assumes wf: "\<And>n. wf_db s (dbs n)" and row: "row_of (dbs k) repo row" "is_ready (kind_state row kind)"
  obtains r where "ready_body env dbs n repo p row kind = Inr r" "answer_right env dbs repo (br_commit row) kind r"
    "\<And>published. kind = Full \<Longrightarrow> get_refs (dbs n) repo = Inr (Some published) \<Longrightarrow>
       (\<exists>served b c. (served = published \<or> (\<exists>b. Control.rr_ready published = Some b \<and> served = ready_refs b))
          \<and> Control.rr_branches served = Some b \<and> rb_base b = Some c \<and> resp_branches (out_response r) = Some (branches_ref env b)
          \<and> (case out_refs_base r of None \<Rightarrow> c = br_commit row \<or> in_history env repo c (br_commit row) | Some base \<Rightarrow> resp_commit base = c))
       \<or> (out_refs_base r = None \<and> resp_branches (out_response r) = map_option (branches_ref env) (Control.rr_branches published)
          \<and> (\<forall>b c. Control.rr_branches published = Some b \<and> rb_base b = Some c \<longrightarrow> c \<noteq> br_commit row \<and> \<not> in_history env repo c (br_commit row)
            \<and> (\<forall>base_row. status (dbs (Suc n)) repo c = Inr (Some base_row) \<longrightarrow> out_ready (br_full base_row) = None \<or> force_pushed row base_row)))"
proof -
  obtain found where found: "get_refs (dbs n) repo = Inr found" "case found of None \<Rightarrow> True | Some refs \<Rightarrow> set (refs_artifacts refs) \<subseteq> recorded (dbs n) repo"
    using get_refs_total[OF wf] by blast
  let ?U = "\<Union>n. recorded (dbs n) repo"
  have respond: "\<exists>x. ref_response env repo p row' refs kind = Inr x \<and> validate_output x (br_commit row') kind = Inr ()
      \<and> set (response_hashes x) - {[]} \<subseteq> ?U \<and> resp_inline x = Map.empty \<and> resp_commit x = br_commit row' \<and> resp_own_history x = None
      \<and> resp_branches x = (if kind = Full then map_option (branches_ref env) (Option.bind refs Control.rr_branches) else None)"
    if "row_of (dbs j) repo row'" "is_ready (kind_state row' kind)" "case refs of None \<Rightarrow> True | Some r \<Rightarrow> set (refs_artifacts r) \<subseteq> recorded (dbs n) repo" for j row' refs
    by (rule ref_response_good[OF wf that, where env = env and p = p]) (auto)
  obtain x where x: "ref_response env repo p row found kind = Inr x" "validate_output x (br_commit row) kind = Inr ()"
    "set (response_hashes x) - {[]} \<subseteq> ?U" "resp_inline x = Map.empty" "resp_own_history x = None"
    "resp_branches x = (if kind = Full then map_option (branches_ref env) (Option.bind found Control.rr_branches) else None)"
    using respond[OF row found(2)] by blast
  define cands where "cands = (case found of None \<Rightarrow> [] | Some published \<Rightarrow> if kind = Full then published # (case Control.rr_ready published of None \<Rightarrow> [] | Some b \<Rightarrow> [ready_refs b]) else [])"
  obtain chosen where chosen: "choose_refs env dbs (Suc n) repo row cands = Inr chosen" using choose_refs_total[of s dbs, OF wf] by blast
  have choice: "(case found of None \<Rightarrow> Inr None | Some published \<Rightarrow> if kind = Full
      then choose_refs env dbs (Suc n) repo row (published # (case Control.rr_ready published of None \<Rightarrow> [] | Some b \<Rightarrow> [ready_refs b])) else Inr None) = Inr chosen"
    using chosen unfolding cands_def by (cases found; cases "kind = Full") (simp_all del: choose_refs.simps(2))
  have unfolded: "ready_body env dbs n repo p row kind = (case chosen of
        None \<Rightarrow> Inr \<lparr>out_response = inline_small env x, out_refs_base = None\<rparr>
      | Some (served, base) \<Rightarrow>
          rbind (ref_response env repo p row (Some served) kind) (\<lambda>result.
          case base of
            None \<Rightarrow> Inr \<lparr>out_response = inline_small env result, out_refs_base = None\<rparr>
          | Some base_row \<Rightarrow>
              rbind (ref_response env repo p base_row (Some served) kind) (\<lambda>base_response.
              Inr \<lparr>out_response = inline_small env (result\<lparr>resp_own_history := own_history_ref env repo row (br_commit base_row)\<rparr>),
                   out_refs_base = Some (inline_small env base_response)\<rparr>)))"
    by (simp add: ready_body_def Let_def found(1) x(1) choice del: choose_refs.simps)
  show ?thesis
  proof (cases chosen)
    case None
    have "answer_right env dbs repo (br_commit row) kind \<lparr>out_response = inline_small env x, out_refs_base = map_option (inline_small env) None\<rparr>"
      by (rule answer_rightI[OF x(2,4,3), where own' = None]) (use x(5) in auto)
    moreover have "c \<noteq> br_commit row \<and> \<not> in_history env repo c (br_commit row)
        \<and> (\<forall>base_row. status (dbs (Suc n)) repo c = Inr (Some base_row) \<longrightarrow> out_ready (br_full base_row) = None \<or> force_pushed row base_row)"
      if "kind = Full" "found = Some published" "Control.rr_branches published = Some b" "rb_base b = Some c" for published b c
      using choose_refs_None[OF _ that(3,4)] chosen that(1,2) unfolding None cands_def by fastforce
    ultimately show ?thesis by (intro that[OF unfolded[unfolded None option.case]]) (use x(6) found(1) in auto)
  next
    case (Some y)
    obtain served base where y: "y = (served, base)" by fastforce
    obtain b c where served: "served \<in> set cands" "Control.rr_branches served = Some b" "rb_base b = Some c" "base_served env dbs repo row base c"
      using choose_refs_Some chosen Some y by blast
    obtain published where full: "found = Some published" "kind = Full" using served(1) by (auto simp: cands_def split: option.splits if_splits)
    have "served = published \<or> (\<exists>b. Control.rr_ready published = Some b \<and> served = ready_refs b)"
      using served(1) full by (cases "Control.rr_ready published") (auto simp: cands_def)
    note published = full this
    have refs: "set (refs_artifacts served) \<subseteq> recorded (dbs n) repo"
      using published found(2) ready_refs_artifacts by fastforce
    obtain z where z: "ref_response env repo p row (Some served) kind = Inr z" "validate_output z (br_commit row) kind = Inr ()"
      "set (response_hashes z) - {[]} \<subseteq> ?U" "resp_inline z = Map.empty" "resp_own_history z = None" "resp_branches z = Some (branches_ref env b)"
      using respond[OF row, of "Some served"] refs published(2) served(2) by auto
    show ?thesis
    proof (cases base)
      case None
      have "answer_right env dbs repo (br_commit row) kind \<lparr>out_response = inline_small env z, out_refs_base = map_option (inline_small env) None\<rparr>"
        by (rule answer_rightI[OF z(2,4,3), where own' = None]) (use z(5) in auto)
      moreover have "ready_body env dbs n repo p row kind = Inr \<lparr>out_response = inline_small env z, out_refs_base = None\<rparr>"
        unfolding unfolded Some y None by (simp add: z(1))
      ultimately show ?thesis
        by (intro that) (use z(6) found(1) published served None in \<open>auto simp: base_served_def\<close>)
    next
      case base: (Some base_row)
      then obtain j where j: "row_of (dbs j) repo base_row" "br_commit base_row = c" "is_ready (kind_state base_row Full)"
        using served(4) by (cases "br_full base_row") (auto simp: base_served_def)
      obtain w where w: "ref_response env repo p base_row (Some served) kind = Inr w" "validate_output w (br_commit base_row) kind = Inr ()"
        "set (response_hashes w) - {[]} \<subseteq> ?U" "resp_inline w = Map.empty" "resp_commit w = br_commit base_row"
        using respond[OF j(1), of "Some served"] refs published(2) j(3) by auto
      let ?own = "own_history_ref env repo row (br_commit base_row)"
      have "answer_right env dbs repo (br_commit row) kind \<lparr>out_response = inline_small env (z\<lparr>resp_own_history := ?own\<rparr>), out_refs_base = map_option (inline_small env) (Some w)\<rparr>"
      proof (rule answer_rightI[OF z(2,4,3), where own' = ?own])
        show "set (side_ref_hashes (ohr_packs own)) - {[]} \<subseteq> ?U" if "resp_own_history (z\<lparr>resp_own_history := ?own\<rparr>) = Some own" for own
          using own_history_hashes[OF wf row(1), of env "br_commit base_row" own] that by auto
      qed (use w published(2) in auto)
      moreover have "ready_body env dbs n repo p row kind = Inr \<lparr>out_response = inline_small env (z\<lparr>resp_own_history := ?own\<rparr>), out_refs_base = Some (inline_small env w)\<rparr>"
        unfolding unfolded Some y base by (simp add: z(1) w(1))
      ultimately show ?thesis
        by (intro that disjI1 exI[of _ served] exI[of _ b] exI[of _ c]) (use z(6) found(1) published served w(5) j(2) in auto)
    qed
  qed
qed

lemma top_up_base_ready:
  assumes "\<And>n. wf_db s (dbs n)"
  obtains base where "top_up_base dbs n repo row = Inr base"
    "\<And>b. base = Some b \<Longrightarrow> row_of (dbs (Suc n)) repo b \<and> is_ready (kind_state b Full)"
proof -
  have ready: "is_ready (kind_state b Full)" if "out_ready (br_full b) \<noteq> None" for b using that by (cases "br_full b") auto
  obtain newest where newest: "(case br_ref_name row of None \<Rightarrow> Inr None
      | Some ref_name \<Rightarrow> rbind (from_control (latest_ready_full (dbs n) repo ref_name)) (\<lambda>found. Inr (map_option fst found))) = Inr newest"
  proof (cases "br_ref_name row")
    case (Some ref_name)
    obtain found where "latest_ready_full (dbs n) repo ref_name = Inr found" using latest_total[OF assms] by blast
    then show thesis using that Some by (simp add: from_control_def)
  qed (use that in simp)
  show ?thesis
  proof (cases "case newest of Some c \<Rightarrow> Some c | None \<Rightarrow> br_parent row")
    case None
    show ?thesis by (rule that[of None]) (simp_all add: top_up_base_def newest None)
  next
    case (Some c)
    obtain found where found: "status (dbs (Suc n)) repo c = Inr found" using status_total[OF assms] by blast
    show ?thesis
    proof (rule that)
      show "top_up_base dbs n repo row = Inr (Option.bind found (\<lambda>base. if out_ready (br_full base) \<noteq> None then Some base else None))"
        by (simp add: top_up_base_def newest Some found from_control_def)
    qed (use ready status_row[of "dbs (Suc n)" repo c] found in \<open>auto simp: Option.bind_eq_Some_conv split: if_splits\<close>)
  qed
qed

text \<open>
  C16.  Reading an output of a commit always answers, and answers with its state, although other tasks write the control
  store between the reads: a ready output with a response the client's check accepts, whose artifacts are all recorded
  for the repository and whose inline bytes have their hashes; a failed one with its error; a pending one as pending,
  with a ready Full as the base to top up if there is one, or as ready when its Full was published meanwhile.
\<close>

theorem commit_answered:
  assumes "\<And>n. wf_db s (dbs n)" "validate_object_id commit = Inr ()" "find_build (dbs 0) (storage_key repo) commit = Some b"
  shows "case k_state (cols b kind) of
      Ready \<Rightarrow> \<exists>r. get_commit env dbs repo p commit (Some kind) = Inr (OutputAnswer (ReadyAnswer r)) \<and> answer_right env dbs repo commit kind r
    | Failed \<Rightarrow> \<exists>error. get_commit env dbs repo p commit (Some kind) = Inr (OutputAnswer (FailedAnswer commit kind error))
    | Pending \<Rightarrow>
        (\<exists>top. get_commit env dbs repo p commit (Some kind) = Inr (OutputAnswer (PendingAnswer commit kind (k_attempts (cols b kind)) (k_error (cols b kind)) top))
           \<and> (case top of None \<Rightarrow> True | Some (c, r) \<Rightarrow> kind = Full \<and> c \<noteq> commit \<and> answer_right env dbs repo c Full r))
        \<or> (kind = Full \<and> (\<exists>r. get_commit env dbs repo p commit (Some Full) = Inr (OutputAnswer (ReadyAnswer r)) \<and> answer_right env dbs repo commit Full r))"
proof -
  have mem: "b \<in> set (builds (dbs 0))" "b_repo b = storage_key repo" "b_commit b = commit" using find_build_in[OF assms(3)] by simp_all
  obtain row where row: "decode_build b = Inr row" "br_commit row = commit" "\<And>k. build_row_lease row k = decode_lease k b"
    using decode_build_total[OF wf_row[OF assms(1) mem(1)]] mem(3) by metis
  have of: "row_of (dbs 0) repo row" using mem row(1) by (auto simp: row_of_def)
  have run: "get_commit env dbs repo p commit (Some kind) = rbind (output_body env dbs 1 repo p row kind) (\<lambda>body. Inr (OutputAnswer body))"
    by (simp add: get_commit_def assms(2) status_def select_build_def assms(3) row(1) from_control_def ok_or_def)
  note states = decoded_states[OF row(1), of kind]
  show ?thesis
  proof (cases "k_state (cols b kind)")
    case Ready
    then have ready: "is_ready (kind_state row kind)" using states by simp
    then have "kind_state row kind = OutReady ()" by (cases "kind_state row kind") auto
    then show ?thesis using Ready run row(2) by (auto simp: output_body_def intro: ready_body_right[of s dbs, OF assms(1) of ready, where n = 1 and env = env and p = p])
  next
    case Failed
    then obtain e where "kind_state row kind = OutFailed e" using states by (cases "kind_state row kind") auto
    then show ?thesis using Failed run row(2) by (simp add: output_body_def)
  next
    case Pending
    then obtain e where e: "kind_state row kind = OutPending e" using states by (cases "kind_state row kind") auto
    have err: "e = k_error (cols b kind)"
      using e row(1) Pending by (cases kind) (auto simp: decode_build_def decode_out_def Let_def rbind_Inr)
    have attempts: "lease_attempts (build_row_lease row kind) = k_attempts (cols b kind)" by (simp add: row(3) decode_lease_def)
    obtain base where base: "(if kind = Full then top_up_base dbs 1 repo row else Inr None) = Inr base"
      "\<And>x. base = Some x \<Longrightarrow> kind = Full \<and> row_of (dbs (Suc 1)) repo x \<and> is_ready (kind_state x Full)"
    proof (cases "kind = Full")
      case True
      show thesis by (rule top_up_base_ready[of s dbs, OF assms(1), where n = 1 and repo = repo and row = row]) (rule that, use True in auto)
    qed (use that[of None] in simp)
    have body: "output_body env dbs 1 repo p row kind = (case base of
        Some x \<Rightarrow> if br_commit x = commit then rbind (ready_body env dbs (1 + 2) repo p x kind) (\<lambda>r. Inr (ReadyAnswer r))
          else rbind (ready_body env dbs (1 + 2) repo p x Full) (\<lambda>r. Inr (PendingAnswer commit kind (k_attempts (cols b kind)) (k_error (cols b kind)) (Some (br_commit x, r))))
      | None \<Rightarrow> Inr (PendingAnswer commit kind (k_attempts (cols b kind)) (k_error (cols b kind)) None))"
      unfolding output_body_def e Out.case pending_body_def base(1) by (cases base) (simp_all add: attempts err row(2))
    show ?thesis
    proof (cases base)
      case None
      then show ?thesis using Pending run body by simp
    next
      case (Some x)
      have x: "kind = Full" "row_of (dbs (Suc 1)) repo x" "is_ready (kind_state x Full)" using base(2)[OF Some] by simp_all
      obtain r where r: "ready_body env dbs (1 + 2) repo p x Full = Inr r" "answer_right env dbs repo (br_commit x) Full r"
        by (rule ready_body_right[of s dbs, OF assms(1) x(2,3), where n = "1 + 2" and env = env and p = p])
      have "get_commit env dbs repo p commit (Some kind) = Inr (OutputAnswer (if br_commit x = commit then ReadyAnswer r
          else PendingAnswer commit kind (k_attempts (cols b kind)) (k_error (cols b kind)) (Some (br_commit x, r))))"
        unfolding run body Some option.case unfolding x(1) r(1) by simp
      then show ?thesis using Pending x(1) r(2) by (cases "br_commit x = commit") simp_all
    qed
  qed
qed

section \<open>Every ref of a full clone\<close>

text \<open>The objects a full clone holds with an answer: the history of its commit and of the refs base, and the side packs.\<close>

definition clone_objects :: "(string \<Rightarrow> string set) \<Rightarrow> (string \<Rightarrow> string set) \<Rightarrow> OutputResponse \<Rightarrow> string set" where
  "clone_objects links contents r = reached links (resp_commit (out_response r))
     \<union> (case out_refs_base r of None \<Rightarrow> {} | Some base \<Rightarrow> reached links (resp_commit base))
     \<union> (case resp_branches (out_response r) of None \<Rightarrow> {} | Some b \<Rightarrow> \<Union> (contents ` spr_pack ` set (bref_side_packs b)))"

definition listed_refs :: "refs_env \<Rightarrow> mirror \<Rightarrow> (string \<times> string) set" where
  "listed_refs renv m = set (mr_branches (mirror_refs_read (be_hashes (re_build renv)) m)) \<union> set (mr_tags (mirror_refs_read (be_hashes (re_build renv)) m))"

text \<open>
  C25.  A ready Full comes with refs the clone can complete: every object that a branch or tag of the served refs reaches
  is in the history of the clone's commit, in that of the refs base's Full the answer adds, or in the side packs; only
  when the newest refs' base is neither in the commit's history nor a ready Full, or the commit's own branch has
  replaced that base, the answer has the newest refs and no base, and the clone fetches from the upstream.
\<close>

theorem full_answer_covers_refs:
  assumes "\<And>n. wf_db s (dbs n)" "row_of (dbs k) repo row" "is_ready (kind_state row Full)" "get_refs (dbs n) repo = Inr (Some published)"
    and "\<And>b. Control.rr_branches published = Some b \<or> Control.rr_ready published = Some b \<Longrightarrow> refreshed renv T (M b) b"
    and "git_laws renv links contents" "inj_on (hs_sha256 (be_hashes (re_build renv))) T"
    and "\<And>c. in_history env repo c (br_commit row) \<Longrightarrow> c \<in> reached links (br_commit row)"
  shows "\<exists>r. ready_body env dbs n repo p row Full = Inr r \<and>
    ((\<exists>b. (Control.rr_branches published = Some b \<or> Control.rr_ready published = Some b) \<and> resp_branches (out_response r) = Some (branches_ref env b)
        \<and> (\<forall>name i. (name, i) \<in> listed_refs renv (M b) \<longrightarrow> reached links i \<subseteq> clone_objects links contents r))
     \<or> (out_refs_base r = None \<and> resp_branches (out_response r) = map_option (branches_ref env) (Control.rr_branches published)
        \<and> (\<forall>b c. Control.rr_branches published = Some b \<and> rb_base b = Some c \<longrightarrow> c \<noteq> br_commit row \<and> \<not> in_history env repo c (br_commit row)
            \<and> (\<forall>base_row. status (dbs (Suc n)) repo c = Inr (Some base_row) \<longrightarrow> out_ready (br_full base_row) = None \<or> force_pushed row base_row))))"
proof -
  obtain r where r: "ready_body env dbs n repo p row Full = Inr r" "answer_right env dbs repo (br_commit row) Full r"
    and choice: "(\<exists>served b c. (served = published \<or> (\<exists>b. Control.rr_ready published = Some b \<and> served = ready_refs b))
          \<and> Control.rr_branches served = Some b \<and> rb_base b = Some c \<and> resp_branches (out_response r) = Some (branches_ref env b)
          \<and> (case out_refs_base r of None \<Rightarrow> c = br_commit row \<or> in_history env repo c (br_commit row) | Some base \<Rightarrow> resp_commit base = c))
       \<or> (out_refs_base r = None \<and> resp_branches (out_response r) = map_option (branches_ref env) (Control.rr_branches published)
        \<and> (\<forall>b c. Control.rr_branches published = Some b \<and> rb_base b = Some c \<longrightarrow> c \<noteq> br_commit row \<and> \<not> in_history env repo c (br_commit row)
            \<and> (\<forall>base_row. status (dbs (Suc n)) repo c = Inr (Some base_row) \<longrightarrow> out_ready (br_full base_row) = None \<or> force_pushed row base_row)))"
    by (rule ready_body_right[of s dbs, OF assms(1-3), where n = n and env = env and p = p]) (use assms(4) in blast)
  have covered: "reached links i \<subseteq> clone_objects links contents r"
    if "Control.rr_branches published = Some b \<or> Control.rr_ready published = Some b" "rb_base b = Some c" "resp_branches (out_response r) = Some (branches_ref env b)"
      "case out_refs_base r of None \<Rightarrow> c = br_commit row \<or> in_history env repo c (br_commit row) | Some base \<Rightarrow> resp_commit base = c"
      "(name, i) \<in> listed_refs renv (M b)" for b c name i
  proof -
    have "reached links i \<subseteq> reached links c \<union> layer_objects contents (rb_side_packs b)"
      by (rule refreshed_refs_covered[OF assms(5)[OF that(1)] assms(6,7) that(2)]) (use that(5) in \<open>simp add: listed_refs_def\<close>)
    moreover have "layer_objects contents (rb_side_packs b) \<subseteq> clone_objects links contents r"
      using that(3) by (auto simp: clone_objects_def layer_objects_def branches_ref_def side_pack_ref_def)
    moreover have "resp_commit (out_response r) = br_commit row" using r(2) by (auto simp: answer_right_def validate_output_def ensure_def split: if_splits)
    then have "reached links c \<subseteq> clone_objects links contents r"
      using that(4) reached_mono[OF assms(8)] by (cases "out_refs_base r") (auto simp: clone_objects_def)
    ultimately show ?thesis by blast
  qed
  have named: "Control.rr_branches published = Some b \<or> Control.rr_ready published = Some b"
    if "served = published \<or> (\<exists>b. Control.rr_ready published = Some b \<and> served = ready_refs b)" "Control.rr_branches served = Some b" for served b
    using that by (auto simp: ready_refs_def)
  from choice show ?thesis
  proof (rule disjE)
    assume "\<exists>served b c. (served = published \<or> (\<exists>b. Control.rr_ready published = Some b \<and> served = ready_refs b))
      \<and> Control.rr_branches served = Some b \<and> rb_base b = Some c \<and> resp_branches (out_response r) = Some (branches_ref env b)
      \<and> (case out_refs_base r of None \<Rightarrow> c = br_commit row \<or> in_history env repo c (br_commit row) | Some base \<Rightarrow> resp_commit base = c)"
    then obtain served b c where c: "served = published \<or> (\<exists>b. Control.rr_ready published = Some b \<and> served = ready_refs b)"
      "Control.rr_branches served = Some b" "rb_base b = Some c" "resp_branches (out_response r) = Some (branches_ref env b)"
      "case out_refs_base r of None \<Rightarrow> c = br_commit row \<or> in_history env repo c (br_commit row) | Some base \<Rightarrow> resp_commit base = c" by blast
    note b = named[OF c(1,2)]
    have "reached links i \<subseteq> clone_objects links contents r" if "(name, i) \<in> listed_refs renv (M b)" for name i
      by (rule covered[OF b c(3-5) that])
    then show ?thesis using r(1) b c(4) by blast
  qed (use r(1) in blast)
qed

section \<open>An example\<close>

text \<open>The example commit with its Full published too, and refs of the example mirror, whose default branch is that commit.\<close>

definition ex_full :: Output where
  "ex_full = FullOutput \<lparr>fr_clonepack = \<lparr>ca_manifest = ex_hash (CHR ''4''), ca_metadata_chunk = ex_hash (CHR ''2''), ca_metadata_delta = [],
       ca_midx = [], ca_idx_bundle = ex_hash (CHR ''3''), ca_commit = ex_commit\<rparr>,
     fr_packs = [], fr_history_levels = [], fr_head_base = None, fr_own_history = None\<rparr>"

definition ex_full_claim :: Claim where
  "ex_full_claim = (case fst (ex_claim ex_published PoolFull) of Inr (Some c) \<Rightarrow> c | _ \<Rightarrow> undefined)"

definition ex_full_db :: db where
  "ex_full_db = snd (publish (snd (ex_claim ex_published PoolFull)) ex_full_claim ex_full)"

lemma wf_ex_full_db: "wf_db ex_store ex_full_db"
  unfolding ex_full_db_def ex_claim_def by (rule wf_publish[OF wf_claim[OF wf_ex_published]])

definition ex_server :: server_env where
  "ex_server = \<lparr>sv_registry = registry_new, sv_credential = \<lambda>_. Some None, sv_base64 = id, sv_post = \<lambda>_ _ _. None, sv_git = \<lambda>_ _ _. TimedOut,
     sv_origin_base = None, sv_signed_url = \<lambda>h. Some h, sv_hashes = ex_hashes, sv_cas = ex_cas, sv_is_ancestor = \<lambda>_ _ _. None, sv_ancestry = Map.empty\<rparr>"

lemma ex_full_found:
  obtains b row where "find_build ex_full_db (storage_key ex_repo) ex_commit = Some b" "k_state (b_full b) = Ready" "k_state (b_files b) = Pending"
    "decode_build b = Inr row" "br_commit row = ex_commit" "row_of ex_full_db ex_repo row" "is_ready (kind_state row Full)"
proof -
  have "(case find_build ex_full_db (storage_key ex_repo) ex_commit of Some b \<Rightarrow> k_state (b_full b) = Ready \<and> k_state (b_files b) = Pending | None \<Rightarrow> False)" by code_simp
  then obtain b where b: "find_build ex_full_db (storage_key ex_repo) ex_commit = Some b" "k_state (b_full b) = Ready" "k_state (b_files b) = Pending"
    by (auto split: option.splits)
  then have mem: "b \<in> set (builds ex_full_db)" "b_repo b = storage_key ex_repo" "b_commit b = ex_commit" using find_build_in by blast+
  obtain row where row: "decode_build b = Inr row" "br_commit row = b_commit b" using decode_build_total[OF wf_row[OF wf_ex_full_db mem(1)]] by blast
  then show ?thesis using that b mem decoded_states(3)[OF row(1), of Full] by (auto simp: row_of_def)
qed

theorem commit_answered_witness:
  "(\<exists>r. get_commit ex_server (\<lambda>_. ex_full_db) ex_repo ex_github ex_commit (Some Full) = Inr (OutputAnswer (ReadyAnswer r))
      \<and> answer_right ex_server (\<lambda>_. ex_full_db) ex_repo ex_commit Full r)
   \<and> (\<exists>answer. get_commit ex_server (\<lambda>_. ex_full_db) ex_repo ex_github ex_commit (Some Files) = Inr (OutputAnswer answer))"
proof -
  obtain b where b: "find_build ex_full_db (storage_key ex_repo) ex_commit = Some b" "k_state (b_full b) = Ready" "k_state (b_files b) = Pending"
    by (rule ex_full_found)
  have valid: "validate_object_id ex_commit = Inr ()" by code_simp
  note answered = commit_answered[where dbs = "\<lambda>_. ex_full_db", OF wf_ex_full_db valid b(1), where env = ex_server and p = ex_github]
  show ?thesis using answered[where kind = Full] answered[where kind = Files] b(2,3) by auto
qed

theorem full_answer_covers_refs_witness:
  "\<exists>b d row r. refreshed ex_refs_env ex_listed ex_mirror b \<and> ready_body ex_server (\<lambda>_. d) 0 ex_repo ex_github row Full = Inr r
     \<and> resp_branches (out_response r) = Some (branches_ref ex_server b)
     \<and> reached (\<lambda>_. {}) (replicate 40 (CHR ''b'')) \<subseteq> clone_objects (\<lambda>_. {}) (\<lambda>_. {replicate 40 (CHR ''b'')}) r"
proof -
  obtain b where b: "refreshed ex_refs_env ex_listed ex_mirror b" "rb_base b = Some ex_commit"
    using ex_refreshed unfolding ex_commit_def by blast
  obtain row where row: "br_commit row = ex_commit" "row_of ex_full_db ex_repo row" "is_ready (kind_state row Full)" by (rule ex_full_found)
  define refs where "refs = \<lparr>rr_tags_artifact = [], rr_tags_len = 0, rr_tags_count = 0, rr_tags_hash = [], rr_branches = Some b, rr_ready = None\<rparr>"
  define d where "d = snd (set_refs ex_full_db ex_repo refs)"
  have wf: "wf_db ex_store d" unfolding d_def by (rule wf_set_refs[OF wf_ex_full_db])
  have known: "knows_repo ex_full_db ex_repo" "repo_refs ex_full_db = []" by code_simp+
  then have got: "get_refs d ex_repo = Inr (Some refs)" and same: "builds d = builds ex_full_db"
    by (simp_all add: d_def set_refs_def Let_def refs_number_def refs_def get_refs_def read_number_def record_refs_def i64_max_def)
  have row': "row_of d ex_repo row" using row(2) same by (simp add: row_of_def)
  have tag: "(''v1'', replicate 40 (CHR ''b'')) \<in> listed_refs ex_refs_env ex_mirror" by code_simp
  have none: "\<not> in_history ex_server ex_repo c (br_commit row)" for c by (simp add: in_history_def ex_server_def)
  have "\<exists>r. ready_body ex_server (\<lambda>_. d) 0 ex_repo ex_github row Full = Inr r \<and>
    ((\<exists>b'. (Control.rr_branches refs = Some b' \<or> Control.rr_ready refs = Some b') \<and> resp_branches (out_response r) = Some (branches_ref ex_server b')
        \<and> (\<forall>name i. (name, i) \<in> listed_refs ex_refs_env ex_mirror \<longrightarrow> reached (\<lambda>_. {}) i \<subseteq> clone_objects (\<lambda>_. {}) (\<lambda>_. {replicate 40 (CHR ''b'')}) r))
     \<or> (out_refs_base r = None \<and> resp_branches (out_response r) = map_option (branches_ref ex_server) (Control.rr_branches refs)
        \<and> (\<forall>b c. Control.rr_branches refs = Some b \<and> rb_base b = Some c \<longrightarrow> c \<noteq> br_commit row \<and> \<not> in_history ex_server ex_repo c (br_commit row)
            \<and> (\<forall>base_row. status d ex_repo c = Inr (Some base_row) \<longrightarrow> out_ready (br_full base_row) = None \<or> force_pushed row base_row))))"
    by (rule full_answer_covers_refs[where dbs = "\<lambda>_. d" and M = "\<lambda>_. ex_mirror" and T = ex_listed, OF wf row' row(3) got _ ex_git_laws])
       (use b(1) none in \<open>auto simp: refs_def\<close>)
  then obtain r where r: "ready_body ex_server (\<lambda>_. d) 0 ex_repo ex_github row Full = Inr r" "resp_branches (out_response r) = Some (branches_ref ex_server b)"
    "\<And>name i. (name, i) \<in> listed_refs ex_refs_env ex_mirror \<Longrightarrow> reached (\<lambda>_. {}) i \<subseteq> clone_objects (\<lambda>_. {}) (\<lambda>_. {replicate 40 (CHR ''b'')}) r"
    using b(2) row(1) by (auto simp: refs_def)
  show ?thesis using b(1) r(1,2) r(3)[OF tag] by blast
qed

end
