(* ===== verification/Poll.thy ===== *)
theory Poll
  imports Api Refs Upstream_Props
begin

text \<open>
  Adding repositories over the API and the polling fallback (\<open>src/rust/src/server/poller.rs\<close>): both resolve the
  upstream's \<open>HEAD\<close> and admit its commit.  The repositories of a polling pass are resolved concurrently, so the order in
  which they are admitted is a parameter; that a refresh of the refs is asked for is a result of the pass.
\<close>

section \<open>The poller\<close>

definition poll_repo :: "server_env \<Rightarrow> hashes \<Rightarrow> int \<Rightarrow> RepoId \<Rightarrow> db \<Rightarrow> bool \<times> bool \<times> db" where
  "poll_repo env hs now repo d =
     (case registry_get (sv_registry env) (rid_provider repo) of
        None \<Rightarrow> (False, False, d)
      | Some provider \<Rightarrow>
          (case resolve_head_and_refs env repo provider of
             Inl _ \<Rightarrow> (False, False, d)
           | Inr (resolved, refs) \<Rightarrow>
               (let (admitted, d', _) = admit_build d now repo (rv_commit resolved) (rv_ref_name resolved) False;
                    refresh = (case refs_changed hs d' repo refs of Inr changed \<Rightarrow> changed | Inl _ \<Rightarrow> False) in
                (case admitted of Inr (_, inserted) \<Rightarrow> inserted | Inl _ \<Rightarrow> False, refresh, d'))))"

fun unseen :: "string list \<Rightarrow> RepoId list \<Rightarrow> RepoId list" where
  "unseen seen [] = []"
| "unseen seen (repo # repos) =
     (if storage_key repo \<in> set seen then unseen seen repos else repo # unseen (storage_key repo # seen) repos)"

fun poll_all :: "server_env \<Rightarrow> hashes \<Rightarrow> int \<Rightarrow> RepoId list \<Rightarrow> db \<Rightarrow> nat \<times> RepoId list \<times> db" where
  "poll_all env hs now [] d = (0, [], d)"
| "poll_all env hs now (repo # repos) d =
     (let (admitted, refresh, d') = poll_repo env hs now repo d;
          (n, refreshed, d'') = poll_all env hs now repos d' in
      ((if admitted then 1 else 0) + n, if refresh then repo # refreshed else refreshed, d''))"

definition poll_once :: "server_env \<Rightarrow> hashes \<Rightarrow> int \<Rightarrow> (RepoId list \<Rightarrow> RepoId list) \<Rightarrow> db \<Rightarrow> nat \<times> RepoId list \<times> db" where
  "poll_once env hs now order d =
     (case list_repos d of
        Inl _ \<Rightarrow> (0, [], d)
      | Inr repos \<Rightarrow> poll_all env hs now (order (unseen [] (map ar_repo_id repos))) d)"

section \<open>Resolved commits\<close>

definition valid_tip :: "RemoteTip option \<Rightarrow> bool" where
  "valid_tip tip \<longleftrightarrow> pred_option (\<lambda>t. validate_object_id (rt_commit t) = Inr ()) tip"

lemma advertisement_valid:
  "advertisement lines branch adv = Inr (branch', adv') \<Longrightarrow> (\<And>n sha. (n, sha) \<in> set adv \<Longrightarrow> validate_object_id sha = Inr ())
     \<Longrightarrow> (n, sha) \<in> set adv' \<Longrightarrow> validate_object_id sha = Inr ()"
proof (induction lines branch adv rule: advertisement.induct)
  case (2 line rest branch adv)
  show ?case
  proof (cases "symbolic_head line")
    case None
    then obtain s r where split: "split_once TAB line = Some (s, r)" "validate_object_id (trim s) = Inr ()" "\<not> starts_with line ''ref: ''"
      using "2.prems"(1) by (auto simp: is_ok_def split: if_splits option.splits sum.splits)
    then show ?thesis using "2.IH"(1)[OF None split(3) split(1)] "2.prems" None by (auto simp: is_ok_def)
  next
    case (Some b)
    then show ?thesis using "2.IH"(2)[OF Some] "2.prems" by auto
  qed
qed auto

lemma find_candidate_in: "find_candidate names adv branch = Some tip \<Longrightarrow> \<exists>n. (n, rt_commit tip) \<in> set adv"
proof (induction names)
  case (Cons n names)
  show ?case
  proof (cases "map_of adv n")
    case (Some sha)
    then show ?thesis using Cons.prems map_of_SomeD[OF Some] by auto
  qed (use Cons in simp)
qed simp

lemma parse_valid: "parse_ls_remote_output out names = Inr tip \<Longrightarrow> valid_tip tip"
  using advertisement_valid[of _ None "[]"] find_candidate_in
  by (fastforce simp: parse_ls_remote_output_def valid_tip_def rbind_Inr pred_option_def)

lemma resolve_head_valid:
  assumes "resolve_listing env repo p SelHead refs = Inr (resolved, u)"
  shows "validate_object_id (rv_commit resolved) = Inr ()" "case rv_ref_name resolved of None \<Rightarrow> True | Some r \<Rightarrow> starts_with r ''refs/''"
proof -
  obtain credential tip where tip: "sv_credential env repo = Some credential"
    "(if refs then ls_remote_refs (sv_base64 env) (sv_git env) p repo credential (sv_origin_base env)
      else rbind (ls_remote_tip_async env p repo ''HEAD'' credential) (\<lambda>tip. Inr (tip, no_refs))) = Inr (Some tip, u)"
    "rv_commit resolved = rt_commit tip" "rv_ref_name resolved = snd (checkout_of SelHead tip)"
    using assms unfolding resolve_listing_def by (auto simp: Let_def split: option.splits sum.splits prod.splits)
  have "valid_tip (Some tip)"
    using tip(2) parse_valid by (auto simp: ls_remote_refs_def ls_remote_tip_async_def ls_remote_tip_async_with_def rbind_Inr Let_def split: if_splits option.splits prod.splits)
  then show "validate_object_id (rv_commit resolved) = Inr ()" using tip(3) by (simp add: valid_tip_def)
  show "case rv_ref_name resolved of None \<Rightarrow> True | Some r \<Rightarrow> starts_with r ''refs/''"
    using tip(4) by (auto simp: checkout_of_def Let_def starts_with_def split: option.splits)
qed

section \<open>A polling pass\<close>

text \<open>What admissions do to the database: rows are added, and existing ones keep their outputs.\<close>

definition admits :: "store \<Rightarrow> db \<Rightarrow> db \<Rightarrow> nat \<Rightarrow> bool" where
  "admits s d d' n \<longleftrightarrow> wf_db s d' \<and> repo_refs d' = repo_refs d \<and> length (builds d') = length (builds d) + n
     \<and> (\<forall>repo commit b. find_build d repo commit = Some b \<longrightarrow>
          (\<exists>b'. find_build d' repo commit = Some b' \<and> (\<forall>k. cols b' k = cols b k)))"

lemma admits_refl: "wf_db s d \<Longrightarrow> admits s d d 0"
  by (simp add: admits_def)

lemma admits_trans: "admits s d d1 n \<Longrightarrow> admits s d1 d2 m \<Longrightarrow> admits s d d2 (n + m)"
  unfolding admits_def by (metis add.assoc)

lemma admit_tables:
  "repo_refs (snd (admit d now repo commit ref_name)) = repo_refs d"
  "validate_object_id commit = Inr () \<Longrightarrow> case ref_name of None \<Rightarrow> True | Some r \<Rightarrow> starts_with r ''refs/'' \<Longrightarrow>
     length (builds (snd (admit d now repo commit ref_name))) = length (builds d) + (if find_build d (storage_key repo) commit = None then 1 else 0)"
  by (auto simp: admit_def Let_def sql_update_def split: option.splits if_splits)

lemma admit_build_admits:
  assumes "wf_db s d" "rid_provider repo \<noteq> []" "rid_path repo \<noteq> []" "validate_object_id commit = Inr ()"
    "case ref_name of None \<Rightarrow> True | Some r \<Rightarrow> starts_with r ''refs/''"
  obtains row d' wakes b where
    "admit_build d now repo commit ref_name False = (Inr (row, find_build d (storage_key repo) commit = None), d', wakes)"
    "admits s d d' (if find_build d (storage_key repo) commit = None then 1 else 0)" "find_build d' (storage_key repo) commit = Some b"
proof -
  obtain row d' wakes b where a:
    "admit_build d now repo commit ref_name False = (Inr (row, find_build d (storage_key repo) commit = None), d', wakes)"
    "wf_db s d'" "find_build d' (storage_key repo) commit = Some b"
    and old: "\<And>old k. find_build d (storage_key repo) commit = Some old \<Longrightarrow> cols b k = cols old k"
    and others: "\<And>x. row_key x \<noteq> (storage_key repo, commit) \<Longrightarrow> x \<in> set (builds d') \<longleftrightarrow> x \<in> set (builds d)"
  proof (rule admit_build_spec[OF assms, where now = now and retry_failed = False], goal_cases)
    case (1 row d' wakes b)
    show ?case by (rule 1(1)[OF 1(2-4)]) (use 1(6,8) in auto)
  qed
  have d': "d' = snd (admit d now repo commit ref_name)"
    using a(1) by (auto simp: admit_build_def Let_def split: prod.splits sum.splits if_splits)
  have "\<exists>x. find_build d' r c = Some x \<and> (\<forall>k. cols x k = cols y k)" if "find_build d r c = Some y" for r c y
  proof (cases "(r, c) = (storage_key repo, commit)")
    case True
    then show ?thesis using that a(3) old by auto
  next
    case False
    then have "y \<in> set (builds d')" using others[of y] that by (auto simp: row_key_def find_build_iff[OF assms(1)])
    then show ?thesis using that by (auto simp: find_build_iff[OF a(2)] find_build_iff[OF assms(1)])
  qed
  then have "admits s d d' (if find_build d (storage_key repo) commit = None then 1 else 0)"
    unfolding admits_def using a(2) admit_tables(1) admit_tables(2)[OF assms(4,5)] by (auto simp: d')
  then show ?thesis using that a(1,3) by blast
qed

lemma poll_repo_admits:
  assumes "wf_db s d" "rid_provider repo \<noteq> []" "rid_path repo \<noteq> []" "poll_repo env hs now repo d = (admitted, refresh, d')"
  shows "admits s d d' (if admitted then 1 else 0)"
    and "registry_get (sv_registry env) (rid_provider repo) = Some p \<Longrightarrow> resolve_head_and_refs env repo p = Inr (resolved, u) \<Longrightarrow>
      find_build d' (storage_key repo) (rv_commit resolved) \<noteq> None \<and> (refresh \<longleftrightarrow> refs_changed hs d repo u = Inr True)"
proof -
  have same: "refs_changed hs x repo u = refs_changed hs d repo u" if "repo_refs x = repo_refs d" for x u
    using that by (simp add: refs_changed_def get_refs_def)
  have both: "admits s d d' (if admitted then 1 else 0) \<and> find_build d' (storage_key repo) (rv_commit resolved) \<noteq> None
      \<and> (refresh \<longleftrightarrow> refs_changed hs d repo u = Inr True)"
    if "registry_get (sv_registry env) (rid_provider repo) = Some p" "resolve_head_and_refs env repo p = Inr (resolved, u)" for p resolved u
  proof -
    note valid = resolve_head_valid[OF that(2)[unfolded resolve_head_and_refs_def]]
    obtain row x wakes b where a:
      "admit_build d now repo (rv_commit resolved) (rv_ref_name resolved) False = (Inr (row, find_build d (storage_key repo) (rv_commit resolved) = None), x, wakes)"
      "admits s d x (if find_build d (storage_key repo) (rv_commit resolved) = None then 1 else 0)" "find_build x (storage_key repo) (rv_commit resolved) = Some b"
      by (rule admit_build_admits[OF assms(1-3) valid])
    have "poll_repo env hs now repo d = (find_build d (storage_key repo) (rv_commit resolved) = None,
        case refs_changed hs x repo u of Inr changed \<Rightarrow> changed | Inl _ \<Rightarrow> False, x)"
      unfolding poll_repo_def that(1) option.case that(2) sum.case prod.case a(1) Let_def by (rule refl)
    then have "d' = x" "admitted \<longleftrightarrow> find_build d (storage_key repo) (rv_commit resolved) = None"
      "refresh = (case refs_changed hs x repo u of Inr changed \<Rightarrow> changed | Inl _ \<Rightarrow> False)"
      unfolding assms(4) prod.inject by blast+
    moreover have "refs_changed hs x repo u = refs_changed hs d repo u" by (rule same) (use a(2) in \<open>simp add: admits_def\<close>)
    moreover have "(case q of Inr changed \<Rightarrow> changed | Inl _ \<Rightarrow> False) \<longleftrightarrow> q = Inr True" for q :: "bool cresult" by (cases q) auto
    ultimately show ?thesis using a(2,3) by simp
  qed
  show "admits s d d' (if admitted then 1 else 0)"
  proof (cases "\<exists>p resolved u. registry_get (sv_registry env) (rid_provider repo) = Some p \<and> resolve_head_and_refs env repo p = Inr (resolved, u)")
    case True
    then show ?thesis using both by blast
  next
    case False
    then have "d' = d \<and> \<not> admitted" using assms(4) by (auto simp: poll_repo_def split: option.splits sum.splits)
    then show ?thesis using admits_refl[OF assms(1)] by simp
  qed
  show "registry_get (sv_registry env) (rid_provider repo) = Some p \<Longrightarrow> resolve_head_and_refs env repo p = Inr (resolved, u) \<Longrightarrow>
      find_build d' (storage_key repo) (rv_commit resolved) \<noteq> None \<and> (refresh \<longleftrightarrow> refs_changed hs d repo u = Inr True)"
    using both by blast
qed

lemma poll_all_admits:
  "wf_db s d \<Longrightarrow> (\<And>r. r \<in> set repos \<Longrightarrow> rid_provider r \<noteq> [] \<and> rid_path r \<noteq> []) \<Longrightarrow> poll_all env hs now repos d = (n, refreshed, d') \<Longrightarrow>
     admits s d d' n \<and> set refreshed \<subseteq> set repos
     \<and> (\<forall>repo p resolved u. repo \<in> set repos \<and> registry_get (sv_registry env) (rid_provider repo) = Some p \<and> resolve_head_and_refs env repo p = Inr (resolved, u) \<longrightarrow>
          find_build d' (storage_key repo) (rv_commit resolved) \<noteq> None \<and> (repo \<in> set refreshed \<longleftrightarrow> refs_changed hs d repo u = Inr True))"
proof (induction repos arbitrary: d n refreshed)
  case Nil
  then show ?case using admits_refl by simp
next
  case (Cons x repos)
  obtain admitted refresh d1 where one: "poll_repo env hs now x d = (admitted, refresh, d1)" by (metis prod_cases3)
  obtain m rest where many: "poll_all env hs now repos d1 = (m, rest, d')" using Cons.prems(3) one by (auto simp: Let_def split: prod.splits)
  have out: "n = (if admitted then 1 else 0) + m" "refreshed = (if refresh then x # rest else rest)" using Cons.prems(3) one many by auto
  note first = poll_repo_admits[OF Cons.prems(1) _ _ one]
  have x: "rid_provider x \<noteq> []" "rid_path x \<noteq> []" using Cons.prems(2) by simp_all
  have step: "admits s d d1 (if admitted then 1 else 0)" by (rule first(1)[OF x])
  then have wf: "wf_db s d1" and refs: "repo_refs d1 = repo_refs d" by (simp_all add: admits_def)
  note later = Cons.IH[OF wf _ many]
  have ih: "admits s d1 d' m" "set rest \<subseteq> set repos"
    and each: "\<And>repo p resolved u. repo \<in> set repos \<Longrightarrow> registry_get (sv_registry env) (rid_provider repo) = Some p \<Longrightarrow> resolve_head_and_refs env repo p = Inr (resolved, u) \<Longrightarrow>
      find_build d' (storage_key repo) (rv_commit resolved) \<noteq> None \<and> (repo \<in> set rest \<longleftrightarrow> refs_changed hs d1 repo u = Inr True)"
    using later Cons.prems(2) by auto
  have same: "refs_changed hs d1 repo u = refs_changed hs d repo u" for repo u using refs by (simp add: refs_changed_def get_refs_def)
  have "find_build d' (storage_key repo) (rv_commit resolved) \<noteq> None \<and> (repo \<in> set refreshed \<longleftrightarrow> refs_changed hs d repo u = Inr True)"
    if "repo \<in> set (x # repos)" "registry_get (sv_registry env) (rid_provider repo) = Some p" "resolve_head_and_refs env repo p = Inr (resolved, u)" for repo p resolved u
  proof (cases "repo = x")
    case True
    note here = first(2)[OF x, of p resolved u]
    have "find_build d1 (storage_key x) (rv_commit resolved) \<noteq> None" "refresh \<longleftrightarrow> refs_changed hs d x u = Inr True" using here that(2,3) True by auto
    moreover have "find_build d' (storage_key x) (rv_commit resolved) \<noteq> None" using calculation(1) ih(1) unfolding admits_def by (metis not_None_eq)
    moreover have "x \<in> set rest \<Longrightarrow> refs_changed hs d x u = Inr True" using each[of x p resolved u] ih(2) that(2,3) True same by auto
    ultimately show ?thesis using True out(2) by auto
  next
    case False
    then show ?thesis using that each[of repo p resolved u] out(2) same by auto
  qed
  then show ?case using admits_trans[OF step ih(1)] out ih(2) by (auto split: if_splits)
qed

lemma unseen_all:
  assumes "\<And>r. r \<in> set repos \<Longrightarrow> rid_provider r \<noteq> [] \<and> rid_path r \<noteq> []" "\<And>r. r \<in> set repos \<Longrightarrow> storage_key r \<notin> set seen"
  shows "set (unseen seen repos) = set repos"
proof -
  have key: "storage_key a = storage_key b \<longleftrightarrow> a = b" if "a \<in> set repos" "b \<in> set repos" for a b
    using from_storage_key_storage_key[of a] from_storage_key_storage_key[of b] assms(1) that by (metis sum.inject(2))
  have "set (unseen seen rs) = {r \<in> set rs. storage_key r \<notin> set seen}" if "set rs \<subseteq> set repos" for rs seen
    using that
  proof (induction rs arbitrary: seen)
    case (Cons r rs)
    then show ?case using key[of r] by auto
  qed simp
  then show ?thesis using assms(2) by auto
qed

text \<open>
  C99.  A polling pass over any number of repositories, resolved in any order, leaves the commit of every upstream \<open>HEAD\<close>
  it could list admitted, without changing any existing output; it counts exactly the builds it admitted, and asks for
  a refresh of a repository's refs exactly when the listing differs from the published refs.
\<close>

theorem poll_admits_heads:
  assumes "wf_db s d" "list_repos d = Inr added" "\<And>xs. mset (order xs) = mset xs" "poll_once env hs now order d = (n, refreshed, d')"
    and "a \<in> set added" "registry_get (sv_registry env) (rid_provider (ar_repo_id a)) = Some p" "resolve_head_and_refs env (ar_repo_id a) p = Inr (resolved, u)"
  shows "admits s d d' n \<and> find_build d' (storage_key (ar_repo_id a)) (rv_commit resolved) \<noteq> None
    \<and> (ar_repo_id a \<in> set refreshed \<longleftrightarrow> refs_changed hs d (ar_repo_id a) u = Inr True)"
proof -
  have parts: "rid_provider (ar_repo_id x) \<noteq> [] \<and> rid_path (ar_repo_id x) \<noteq> []" if "x \<in> set added" for x
  proof -
    have "\<exists>row. decode_added_repo row = Inr x"
      using assms(2) that map_result_nth map_result_Inr_length unfolding list_repos_def by (metis in_set_conv_nth)
    then obtain row where "decode_added_repo row = Inr x" by blast
    then show ?thesis by (auto simp: decode_added_repo_def from_storage_key_def split: sum.splits option.splits if_splits)
  qed
  have repos: "set (order (unseen [] (map ar_repo_id added))) = ar_repo_id ` set added"
    using unseen_all[of "map ar_repo_id added" "[]"] parts assms(3) by (metis image_iff list.set_map mset_eq_setD empty_iff list.set(1))
  have "poll_all env hs now (order (unseen [] (map ar_repo_id added))) d = (n, refreshed, d')" using assms(2,4) by (simp add: poll_once_def)
  note pass = poll_all_admits[OF assms(1) _ this]
  have "rid_provider r \<noteq> [] \<and> rid_path r \<noteq> []" if "r \<in> set (order (unseen [] (map ar_repo_id added)))" for r using that repos parts by auto
  note pass = pass[OF this]
  have "ar_repo_id a \<in> set (order (unseen [] (map ar_repo_id added)))" using repos assms(5) by simp
  then show ?thesis using pass[THEN conjunct1] pass[THEN conjunct2, THEN conjunct2, rule_format, of "ar_repo_id a" p resolved u] assms(6,7) by simp
qed

text \<open>An upstream with a detached head, polled for one added repository.\<close>

definition ex_poll_env :: server_env where
  "ex_poll_env = \<lparr>sv_registry = registry_new, sv_credential = \<lambda>_. Some None, sv_base64 = id, sv_post = \<lambda>_ _ _. None,
     sv_git = \<lambda>_ _ _. Printed (replicate 40 (CHR ''a'') @ [TAB] @ ''HEAD'' @ [NL]), sv_origin_base = None, sv_signed_url = \<lambda>_. None, sv_hashes = ex_hashes,
     sv_cas = ex_cas, sv_is_ancestor = \<lambda>_ _ _. None, sv_ancestry = Map.empty\<rparr>"

definition ex_added :: db where
  "ex_added = snd (add_repo empty_db 0 ex_upstream_repo None)"

theorem poll_admits_heads_witness:
  "\<exists>n refreshed d'. poll_once ex_poll_env ex_hashes 7 rev ex_added = (n, refreshed, d') \<and> admits ex_store ex_added d' n
     \<and> find_build d' (storage_key ex_upstream_repo) (replicate 40 (CHR ''a'')) \<noteq> None \<and> ex_upstream_repo \<in> set refreshed"
proof -
  have "1 \<le> max_attempts ex_store" by (simp add: ex_store_def)
  then have wf: "wf_db ex_store ex_added" unfolding ex_added_def by (rule wf_add_repo[OF wf_empty])
  have listed: "(case list_repos ex_added of Inr added \<Rightarrow> map ar_repo_id added = [ex_upstream_repo] | Inl _ \<Rightarrow> False)" by code_simp
  then obtain a where a: "list_repos ex_added = Inr [a]" "ar_repo_id a = ex_upstream_repo" by (auto split: sum.splits)
  have "(case registry_get registry_new ''github'' of Some p \<Rightarrow> (case resolve_head_and_refs ex_poll_env ex_upstream_repo p of Inr (r, u) \<Rightarrow>
      rv_commit r = replicate 40 (CHR ''a'') \<and> refs_changed ex_hashes ex_added ex_upstream_repo u = Inr True | Inl _ \<Rightarrow> False) | None \<Rightarrow> False)" by code_simp
  then obtain p r u where p: "registry_get registry_new ''github'' = Some p" "resolve_head_and_refs ex_poll_env ex_upstream_repo p = Inr (r, u)"
    "rv_commit r = replicate 40 (CHR ''a'')" "refs_changed ex_hashes ex_added ex_upstream_repo u = Inr True" by (auto split: option.splits sum.splits)
  obtain n refreshed d' where run: "poll_once ex_poll_env ex_hashes 7 rev ex_added = (n, refreshed, d')" by (metis prod_cases3)
  have "registry_get (sv_registry ex_poll_env) (rid_provider (ar_repo_id a)) = Some p" using p(1) a(2) by (simp add: ex_poll_env_def ex_upstream_repo_def)
  from poll_admits_heads[OF wf a(1) _ run _ this, unfolded a(2), OF _ _ p(2)] show ?thesis using run p(3,4) by simp
qed

end
