(* ===== verification/Retention.thy ===== *)
theory Retention
  imports Upstream "HOL-Library.Multiset"
begin

text \<open>
  The size bound of the local cache (\<open>src/rust/src/retention.rs\<close>): a pass lists the objects of the cache directory and,
  past the bound, removes the least recently used ones whose remote copy is confirmed.

  The directory is a tree of names with the errors its calls may give; which remote copies are confirmed and which
  files can be removed are parameters.  The mtimes are numbers.  Sizes are u64: sums and products wrap.
\<close>

section \<open>Settings\<close>

record LocalCacheRetention =
  lr_max_size_bytes :: "nat option"
  lr_durable :: bool

definition retention_new :: "bool \<Rightarrow> nat option \<Rightarrow> nat option \<Rightarrow> LocalCacheRetention option" where
  "retention_new is_remote setting disk_bytes =
     (if \<not> is_remote then Some \<lparr>lr_max_size_bytes = None, lr_durable = False\<rparr>
      else (case setting of
        Some bytes \<Rightarrow> Some \<lparr>lr_max_size_bytes = (if bytes = 0 then None else Some bytes), lr_durable = True\<rparr>
      | None \<Rightarrow> map_option (\<lambda>disk. \<lparr>lr_max_size_bytes = Some (disk div 2), lr_durable = True\<rparr>) disk_bytes))"

definition retention_disabled :: "LocalCacheRetention \<Rightarrow> bool" where
  "retention_disabled r \<longleftrightarrow> \<not> lr_durable r \<or> lr_max_size_bytes r = None"

section \<open>Listing\<close>

text \<open>An entry with its type (None when it cannot be read), and its length and mtime (None when they cannot).\<close>

record object_file =
  of_name :: string
  of_is_file :: "bool option"
  of_metadata :: "(nat \<times> nat) option"

record prefix_dir =
  pd_name :: string
  pd_is_dir :: "bool option"
  pd_objects :: "object_file option list option"

record CasEntry =
  ce_hash :: string
  ce_path :: "string \<times> string"
  ce_size :: nat
  ce_mtime :: nat

fun list_objects :: "string \<Rightarrow> object_file option list \<Rightarrow> CasEntry list option" where
  "list_objects dir [] = Some []"
| "list_objects dir (object # objects) =
     Option.bind object (\<lambda>f.
     Option.bind (of_is_file f) (\<lambda>is_file.
       let hash = utf8_lossy (of_name f) in
       if \<not> is_file \<or> (length hash \<noteq> 64 \<and> length hash \<noteq> 40) then list_objects dir objects
       else Option.bind (of_metadata f) (\<lambda>(len, mtime).
            Option.bind (list_objects dir objects) (\<lambda>entries.
            Some (\<lparr>ce_hash = hash, ce_path = (dir, of_name f), ce_size = len, ce_mtime = mtime\<rparr> # entries)))))"

fun list_prefixes :: "prefix_dir option list \<Rightarrow> CasEntry list option" where
  "list_prefixes [] = Some []"
| "list_prefixes (prefix_entry # rest) =
     Option.bind prefix_entry (\<lambda>d.
     Option.bind (pd_is_dir d) (\<lambda>is_dir.
       if \<not> is_dir \<or> starts_with (utf8_lossy (pd_name d)) ''.'' then list_prefixes rest
       else Option.bind (Option.bind (pd_objects d) (list_objects (pd_name d))) (\<lambda>entries.
            map_option (\<lambda>others. entries @ others) (list_prefixes rest))))"

definition list_cas_entries :: "prefix_dir option list option \<Rightarrow> CasEntry list option" where
  "list_cas_entries root = Option.bind root list_prefixes"

section \<open>A pass\<close>

text \<open>The loop over the entries, oldest first: the removed ones, and the bytes they free.\<close>

fun trim_loop :: "(string \<Rightarrow> bool) \<Rightarrow> (string \<times> string \<Rightarrow> bool) \<Rightarrow> nat \<Rightarrow> nat \<Rightarrow> CasEntry list \<Rightarrow> CasEntry list \<times> nat" where
  "trim_loop durable removes target freed [] = ([], freed)"
| "trim_loop durable removes target freed (e # entries) =
     (if freed \<ge> target then ([], freed)
      else if \<not> durable (ce_hash e) then trim_loop durable removes target freed entries
      else if \<not> removes (ce_path e) then trim_loop durable removes target freed entries
      else (let (removed, freed') = trim_loop durable removes target ((freed + ce_size e) mod 2 ^ 64) entries in (e # removed, freed')))"

definition run_once :: "LocalCacheRetention \<Rightarrow> (string \<Rightarrow> bool) \<Rightarrow> (string \<times> string \<Rightarrow> bool) \<Rightarrow> prefix_dir option list option \<Rightarrow> (CasEntry list \<times> nat) option" where
  "run_once r durable removes root =
     (if \<not> lr_durable r then Some ([], 0)
      else (case lr_max_size_bytes r of
        None \<Rightarrow> Some ([], 0)
      | Some max_size \<Rightarrow>
          Option.bind (list_cas_entries root) (\<lambda>entries.
            let size_sum = sum_list (map ce_size entries) mod 2 ^ 64 in
            if size_sum \<le> max_size then Some ([], 0)
            else (let target = size_sum - (max_size * 9 mod 2 ^ 64) div 10 in
                  Some (trim_loop durable removes target 0 (sort_key ce_mtime entries))))))"

section \<open>What a pass removes\<close>

lemma trim_loop_spec:
  assumes "freed + sum_list (map ce_size entries) < 2 ^ 64" "trim_loop durable removes target freed entries = (removed, freed')"
  shows "\<exists>k. removed = filter (\<lambda>e. durable (ce_hash e) \<and> removes (ce_path e)) (take k entries)
    \<and> freed' = freed + sum_list (map ce_size removed) \<and> (k < length entries \<longrightarrow> target \<le> freed')
    \<and> (removed \<noteq> [] \<longrightarrow> freed' - ce_size (last removed) < target)"
  using assms
proof (induction entries arbitrary: freed removed)
  case (Cons e entries)
  show ?case
  proof (cases "target \<le> freed")
    case True
    then show ?thesis using Cons.prems(2) by (intro exI[of _ 0]) simp
  next
    case False
    show ?thesis
    proof (cases "durable (ce_hash e) \<and> removes (ce_path e)")
      case True
      obtain rest where rest: "trim_loop durable removes target (freed + ce_size e) entries = (rest, freed')" "removed = e # rest"
        using Cons.prems False True by (auto split: prod.splits)
      have "freed + ce_size e + sum_list (map ce_size entries) < 2 ^ 64" using Cons.prems(1) by simp
      from Cons.IH[OF this rest(1)] obtain k where k: "rest = filter (\<lambda>e. durable (ce_hash e) \<and> removes (ce_path e)) (take k entries)"
        "freed' = freed + ce_size e + sum_list (map ce_size rest)" "k < length entries \<longrightarrow> target \<le> freed'"
        "rest \<noteq> [] \<longrightarrow> freed' - ce_size (last rest) < target" by blast
      show ?thesis by (intro exI[of _ "Suc k"]) (use k rest(2) True False in auto)
    next
      case kept: False
      have run: "trim_loop durable removes target freed entries = (removed, freed')" using Cons.prems(2) False kept by (auto split: if_splits)
      have "freed + sum_list (map ce_size entries) < 2 ^ 64" using Cons.prems(1) by simp
      from Cons.IH[OF this run] obtain k where "removed = filter (\<lambda>e. durable (ce_hash e) \<and> removes (ce_path e)) (take k entries)"
        "freed' = freed + sum_list (map ce_size removed)" "k < length entries \<longrightarrow> target \<le> freed'"
        "removed \<noteq> [] \<longrightarrow> freed' - ce_size (last removed) < target" by blast
      then show ?thesis using kept by (intro exI[of _ "Suc k"]) auto
    qed
  qed
qed simp

lemma sum_sort_key: "sum_list (map f (sort_key g xs)) = sum_list (map f (xs :: 'a list) :: nat list)"
  by (metis mset_map mset_sort sum_mset_sum_list)

text \<open>
  C29.  A retention pass that removes anything works through the cached objects oldest first, removes exactly those with
  a confirmed remote copy whose file can be removed, and stops as soon as at most nine tenths of the bound are left,
  never sooner and not one object later; below the bound, and without a remote store, it removes nothing.
\<close>

theorem retention_trims:
  assumes "run_once r durable removes root = Some (removed, freed)" "list_cas_entries root = Some entries"
    and "sum_list (map ce_size entries) < 2 ^ 64" "pred_option (\<lambda>m. m * 9 < 2 ^ 64) (lr_max_size_bytes r)"
  shows "freed = sum_list (map ce_size removed)
    \<and> (\<exists>k. removed = filter (\<lambda>e. durable (ce_hash e) \<and> removes (ce_path e)) (take k (sort_key ce_mtime entries))
         \<and> (removed \<noteq> [] \<longrightarrow> lr_durable r \<and> (\<exists>m. lr_max_size_bytes r = Some m \<and> m < sum_list (map ce_size entries)
              \<and> m * 9 div 10 < sum_list (map ce_size entries) - (freed - ce_size (last removed))))
         \<and> (\<forall>m. lr_durable r \<and> lr_max_size_bytes r = Some m \<and> m < sum_list (map ce_size entries) \<and> k < length entries \<longrightarrow>
              sum_list (map ce_size entries) - freed \<le> m * 9 div 10))"
proof (cases "lr_durable r \<and> (\<exists>m. lr_max_size_bytes r = Some m \<and> m < sum_list (map ce_size entries))")
  case True
  then obtain m where m: "lr_durable r" "lr_max_size_bytes r = Some m" "m < sum_list (map ce_size entries)" by blast
  let ?total = "sum_list (map ce_size entries)"
  have run: "trim_loop durable removes (?total - m * 9 div 10) 0 (sort_key ce_mtime entries) = (removed, freed)"
    using assms m by (simp add: run_once_def Let_def)
  from trim_loop_spec[OF _ run] assms(3) obtain k where
    k: "removed = filter (\<lambda>e. durable (ce_hash e) \<and> removes (ce_path e)) (take k (sort_key ce_mtime entries))"
    "freed = sum_list (map ce_size removed)" "k < length entries \<longrightarrow> ?total - m * 9 div 10 \<le> freed"
    "removed \<noteq> [] \<longrightarrow> freed - ce_size (last removed) < ?total - m * 9 div 10" by (auto simp: sum_sort_key)
  show ?thesis
  proof (rule conjI[OF k(2)], rule exI[of _ k], intro conjI allI impI)
    show "\<exists>m. lr_max_size_bytes r = Some m \<and> m < ?total \<and> m * 9 div 10 < ?total - (freed - ce_size (last removed))" if "removed \<noteq> []"
      using k(4) that m(2,3) by (intro exI[of _ m]) linarith
    show "?total - freed \<le> m' * 9 div 10"
      if "lr_durable r \<and> lr_max_size_bytes r = Some m' \<and> m' < ?total \<and> k < length entries" for m'
      using that k(3) m(2) by auto
  qed (use k m in auto)
next
  case False
  then have "removed = [] \<and> freed = 0"
    using assms by (auto simp: run_once_def Let_def split: if_splits option.splits)
  then show ?thesis using False by (auto intro: exI[of _ 0])
qed

text \<open>A full cache of three objects, the second without a confirmed copy.\<close>

definition ex_cache :: "prefix_dir option list option" where
  "ex_cache = Some [Some \<lparr>pd_name = ''ab'', pd_is_dir = Some True, pd_objects = Some
      [Some \<lparr>of_name = replicate 40 (CHR ''a''), of_is_file = Some True, of_metadata = Some (50, 3)\<rparr>,
       Some \<lparr>of_name = replicate 40 (CHR ''b''), of_is_file = Some True, of_metadata = Some (50, 1)\<rparr>,
       Some \<lparr>of_name = replicate 40 (CHR ''c''), of_is_file = Some True, of_metadata = Some (50, 2)\<rparr>]\<rparr>,
     Some \<lparr>pd_name = ''.tmp'', pd_is_dir = Some True, pd_objects = None\<rparr>]"

theorem retention_trims_witness:
  "\<exists>removed freed. run_once \<lparr>lr_max_size_bytes = Some 120, lr_durable = True\<rparr> (\<lambda>h. h \<noteq> replicate 40 (CHR ''b'')) (\<lambda>_. True) ex_cache = Some (removed, freed)
     \<and> map ce_hash removed = [replicate 40 (CHR ''c'')] \<and> freed = sum_list (map ce_size removed)"
proof -
  let ?r = "\<lparr>lr_max_size_bytes = Some 120, lr_durable = True\<rparr>" and ?durable = "\<lambda>h. h \<noteq> replicate 40 (CHR ''b'')"
  have res: "(case run_once ?r ?durable (\<lambda>_. True) ex_cache of Some (removed, freed) \<Rightarrow> map ce_hash removed = [replicate 40 (CHR ''c'')] | None \<Rightarrow> False)"
    "(case list_cas_entries ex_cache of Some entries \<Rightarrow> sum_list (map ce_size entries) = 150 | None \<Rightarrow> False)" by code_simp+
  then obtain removed freed entries where run: "run_once ?r ?durable (\<lambda>_. True) ex_cache = Some (removed, freed)" "map ce_hash removed = [replicate 40 (CHR ''c'')]"
    "list_cas_entries ex_cache = Some entries" "sum_list (map ce_size entries) = 150" by (auto split: option.splits)
  have "freed = sum_list (map ce_size removed)" using retention_trims[OF run(1,3)] run(4) by simp
  then show ?thesis by (intro exI[of _ removed] exI[of _ freed] conjI run(1,2))
qed

end
