(* ===== verification/Spec2Isabelle.thy ===== *)
theory Spec2Isabelle
  imports Control_Props Sweep Put_Limit Manifest_Props Provider Webhook Worker Pack_Props Tag_Pack Archive_Tail
    Extract_Complete Archive_Client Cas Builder_Live Artifacts Upstream_Props Refs_Publish Refresh
    Api_Props Poll Retention
begin

text \<open>
  Ripclone serves git repositories as prebuilt, content-addressed artifacts.  A push (a webhook, the poller or an API
  call) admits a build of a commit into the control store; three pools of workers claim its outputs Head, Files and
  Full, build packs, tables and archives from a mirror, upload them and publish the result; a client reads the result
  over the API, downloads the artifacts it names, checks them and writes a working tree and a repository.  Refs are
  published beside the builds; purged repositories are swept.  The Rust sources are under \<open>src/rust/src\<close>; this
  development models their own logic, one group of theories per component, in the order of the calls.

  \<^bold>\<open>Conventions.\<close>  Rust strings and byte vectors are lists of bytes (\<open>string\<close>), \<open>Result\<close> is a sum with the error on the
  left and one constructor per error site, \<open>Option\<close> is \<open>option\<close>, structs are records with a prefix per type, enums are
  datatypes.  Integers are \<open>nat\<close> or \<open>int\<close> where the code checks its bounds or cannot reach them, and words or explicit
  bounds where wrap-around or overflow checks matter (\<open>Manifest\<close>, \<open>Provider\<close>, the status sums of \<open>Api\<close>).  State is
  passed explicitly; concurrency is an inductive step relation or a sequence of states between the reads of a handler.
  Code outside the sources is a parameter: SHA-1, SHA-256 and HMAC, zstd, protobuf, JSON and base64, git and gitoxide
  on the mirror, the chunker's cut points, S3, HTTP, the clock, and which file system calls fail.  What a property needs
  of a parameter is a named hypothesis (\<open>hashes_ok\<close>, \<open>env_ok\<close>, \<open>git_laws\<close>, \<open>adv_ok\<close>, \<open>holds_artifact\<close>), and its witness
  instantiates the parameter with a concrete function.

  \<^bold>\<open>Theories and sources.\<close>

  \<^item> \<open>Prelude\<close>: results, strings, saturation, invariants of reachable states (locale \<open>invariant_system\<close>).  \<open>Validation\<close>:
    \<open>validation.rs\<close> and the identifiers of \<open>provider.rs\<close>.  \<open>Provider\<close>: the registry, hosts and credential headers of
    \<open>provider.rs\<close>.  \<open>Results\<close>: the published results of \<open>lib.rs\<close> (locale \<open>names_artifacts\<close>, one interpretation per
    result).
  \<^item> \<open>Sql\<close>, \<open>Control\<close>, \<open>Control_Inv\<close>, \<open>Control_Props\<close>: the control store, \<open>control/mod.rs\<close> and \<open>control/sqlite.rs\<close> with
    the schema.  Tables are lists of rows (locale \<open>keyed_table\<close>), each operation is one transaction.  The invariant \<open>wf_db\<close> holds in every
    reachable database; every operation refines the abstract life of an output; claims are leased, fenced and fair.
  \<^item> \<open>Pins\<close>, \<open>Sweep\<close>: \<open>pins.rs\<close> and \<open>server/purge.rs\<close>; builds, purges and the sweep interleave step by step and no
    referenced artifact is lost.  \<open>Put_Limit\<close>: the adaptive limit of \<open>storage/put_limit.rs\<close>.
  \<^item> \<open>Admission\<close>, \<open>Webhook\<close>, \<open>Worker\<close>: admission in \<open>server/api.rs\<close>, \<open>webhook/*.rs\<close> with \<open>server/webhooks.rs\<close> (locale for
    the provider adapters), and the settling of claims, retry delays and the choice of a base in \<open>server/worker.rs\<close>.
  \<^item> \<open>Manifest\<close>, \<open>Manifest_Props\<close>: tables, deltas and chunk lengths of \<open>manifest.rs\<close> and \<open>clonepack.rs\<close>.  \<open>Pack\<close>,
    \<open>Pack_Props\<close>: \<open>pack.rs\<close>.  \<open>Tags\<close>, \<open>Tags_Props\<close>, \<open>Tag_Pack\<close>: \<open>tags.rs\<close>.
  \<^item> \<open>Archive\<close> and \<open>Archive_*\<close>: \<open>archive.rs\<close>; whole, incremental and tail builds give exactly the files of the tree.
  \<^item> \<open>Cas\<close>: \<open>cas.rs\<close> over a file system that loses what was not synced.  \<open>Builder\<close> and \<open>Builder_*\<close>: \<open>server/builder.rs\<close>
    and \<open>server/uploads.rs\<close>; a returned result names only stored objects, and builds return when nothing fails.
  \<^item> \<open>Extract\<close>, \<open>Worktree\<close>, \<open>Extract_Run\<close> and their properties: \<open>extract.rs\<close>, \<open>worktree_writer.rs\<close>, \<open>fsutil.rs\<close>; soundness,
    completeness and confinement for every interleaving of the writer threads; \<open>Archive_Client\<close> joins them with the
    builder.
  \<^item> \<open>Upstream\<close>, \<open>Upstream_Props\<close>: \<open>ls_refs.rs\<close> and the listing of upstream refs in \<open>git.rs\<close>.  \<open>Refs\<close>, \<open>Refs_Props\<close>,
    \<open>Refs_Publish\<close>, \<open>Refresh\<close>: \<open>branches.rs\<close> and \<open>server/refs.rs\<close> (locale \<open>storing\<close> for the two ways to put an object).
  \<^item> \<open>Response\<close>, \<open>Api\<close>, \<open>Api_Props\<close>: the repository routes of \<open>server/api.rs\<close>, with the database at each of a
    handler's reads.  \<open>Download\<close>, \<open>Download_Props\<close>, \<open>Artifacts\<close>: \<open>client/download.rs\<close> against any network, and
    against the artifact route of \<open>server/artifacts.rs\<close>. \<open>Poll\<close>: \<open>server/poller.rs\<close>.  \<open>Retention\<close>: \<open>retention.rs\<close>.

  \<^bold>\<open>Properties.\<close>  Each stands in the theory of the component it is about, after a text that names it; those that span
  components are in the theory that imports both: \<open>Sweep\<close> (store, pins and sweep), \<open>Archive_Client\<close> (builder and client),
  \<open>Builder_Durable\<close> and \<open>Builder_Files\<close> (packs, archives, tables, store), \<open>Artifacts\<close> (server and client), \<open>Api_Props\<close> (store, refs, routes and the client's check), \<open>Poll\<close> (upstream, store and refs).  Lemmas with a
  \<open>\<dots>_loses\<dots>\<close>, \<open>\<dots>_collides\<close> or \<open>\<dots>_fails\<dots>\<close> name show a behaviour that differs from what a comment says.

  \<^bold>\<open>Loops and bounds.\<close>  Every loop is a total function: structural recursion on its input, or a measure (the bytes left
  of a body, the pairs left to compact, the rows left in the deletion queue).  Retry loops are bounded by the code's own
  constants (three attempts of a download).  Loops that run as long as the server does are step relations whose
  invariants hold in every reachable state.

  \<^bold>\<open>Not modelled.\<close>  Opening the database file, HTTP routing and authentication middleware, S3 requests, process groups and
  signals, terminal output, argument parsing, configuration files, metrics and benchmarks: I/O around the modelled
  decisions.  Most of \<open>git.rs\<close> and \<open>gix_util.rs\<close> runs git on a mirror; only what they decide on its output is modelled.
  The order of an install in \<open>client/install.rs\<close> is a sequence of modelled downloads, extraction and git calls and is
  left out, as are the protobuf and zstd codecs, which are third-party code.
\<close>

end
